(* ===== verification/Module_Registry.thy ===== *)
theory Module_Registry
  imports Prelude
begin

text \<open>
  The module registry of \<open>libs/modkit/src/registry.rs\<close>: the builder the macro registrators
  feed, the validation of capabilities, the dependency graph, the depth-first cycle search, Kahn's
  topological sort and the final registry with its system-priority view.

  An \<open>Arc<dyn ...>\<close> is an opaque handle (\<^typ>\<open>nat\<close>). The recursion of \<open>dfs\<close> is bounded by a fuel
  argument, the nesting depth: \<open>detect_cycle_with_path\<close> passes one more than the number of nodes,
  and \<open>detect_cycle_total\<close> below shows that it never runs out.
\<close>

type_synonym arc = nat

record module_entry =
  me_name :: string
  me_deps :: "string list"
  me_core :: arc
  me_rest :: "arc option"
  me_rest_host :: "arc option"
  me_db :: "arc option"
  me_stateful :: "arc option"
  me_is_system :: bool
  me_grpc_hub :: "arc option"
  me_grpc_service :: "arc option"

record module_registry =
  mr_modules :: "module_entry list"
  mr_grpc_hub :: "string option"
  mr_grpc_services :: "(string \<times> arc) list"

record registry_builder =
  rb_core :: "(string \<times> arc) list"
  rb_deps :: "(string \<times> string list) list"
  rb_rest :: "(string \<times> arc) list"
  rb_rest_host :: "(string \<times> arc) option"
  rb_db :: "(string \<times> arc) list"
  rb_stateful :: "(string \<times> arc) list"
  rb_system_modules :: "string list"
  rb_grpc_hub :: "(string \<times> arc) option"
  rb_grpc_services :: "(string \<times> arc) list"
  rb_errors :: "string list"

text \<open>The constructors of \<open>RegistryError\<close>; the \<open>anyhow\<close> sources of the phase errors are
  rendered strings.\<close>

datatype registry_error =
    Init string string
  | Start string string
  | DbMigrate string string
  | RestPrepare string string
  | RestRegister string string
  | RestFinalize string string
  | RestRequiresHost
  | MultipleRestHosts
  | RestHostNotFoundAfterValidation
  | RestHostMissingFromEntry
  | GrpcRegister string string
  | GrpcRequiresHub
  | MultipleGrpcHubs
  | OopSpawn string string
  | UnknownModule string
  | UnknownDependency string string
  | CycleDetected "string list"
  | MissingDeps string
  | CoreNotFound string
  | InvalidRegistryConfiguration "string list"

section \<open>Registration\<close>

definition empty_builder :: registry_builder where
  "empty_builder = \<lparr>rb_core = [], rb_deps = [], rb_rest = [], rb_rest_host = None, rb_db = [],
     rb_stateful = [], rb_system_modules = [], rb_grpc_hub = None, rb_grpc_services = [],
     rb_errors = []\<rparr>"

definition contains_key :: "(string \<times> 'v) list \<Rightarrow> string \<Rightarrow> bool" where
  "contains_key m k \<longleftrightarrow> map_of m k \<noteq> None"

definition register_core_with_meta ::
    "registry_builder \<Rightarrow> string \<Rightarrow> string list \<Rightarrow> arc \<Rightarrow> registry_builder" where
  "register_core_with_meta b name deps m =
     (if contains_key (rb_core b) name
      then b\<lparr>rb_errors := rb_errors b @ [''Module '' @ quoted name @ '' is already registered'']\<rparr>
      else b\<lparr>rb_core := AList.update name m (rb_core b),
             rb_deps := AList.update name deps (rb_deps b)\<rparr>)"

definition register_rest_with_meta :: "registry_builder \<Rightarrow> string \<Rightarrow> arc \<Rightarrow> registry_builder" where
  "register_rest_with_meta b name m = b\<lparr>rb_rest := AList.update name m (rb_rest b)\<rparr>"

definition register_rest_host_with_meta ::
    "registry_builder \<Rightarrow> string \<Rightarrow> arc \<Rightarrow> registry_builder" where
  "register_rest_host_with_meta b name m =
     (case rb_rest_host b of
        Some (existing, _) \<Rightarrow>
          b\<lparr>rb_errors := rb_errors b @
             [''Multiple REST host modules detected: '' @ quoted existing @ '' and '' @ quoted name @
              ''. Only one REST host is allowed.'']\<rparr>
      | None \<Rightarrow> b\<lparr>rb_rest_host := Some (name, m)\<rparr>)"

definition register_db_with_meta :: "registry_builder \<Rightarrow> string \<Rightarrow> arc \<Rightarrow> registry_builder" where
  "register_db_with_meta b name m = b\<lparr>rb_db := AList.update name m (rb_db b)\<rparr>"

definition register_stateful_with_meta :: "registry_builder \<Rightarrow> string \<Rightarrow> arc \<Rightarrow> registry_builder" where
  "register_stateful_with_meta b name m = b\<lparr>rb_stateful := AList.update name m (rb_stateful b)\<rparr>"

definition register_system_with_meta :: "registry_builder \<Rightarrow> string \<Rightarrow> registry_builder" where
  "register_system_with_meta b name = b\<lparr>rb_system_modules := List.insert name (rb_system_modules b)\<rparr>"

definition register_grpc_hub_with_meta ::
    "registry_builder \<Rightarrow> string \<Rightarrow> arc \<Rightarrow> registry_builder" where
  "register_grpc_hub_with_meta b name m =
     (case rb_grpc_hub b of
        Some (existing, _) \<Rightarrow>
          b\<lparr>rb_errors := rb_errors b @
             [''Multiple gRPC hub modules detected: '' @ quoted existing @ '' and '' @ quoted name @
              ''. Only one gRPC hub is allowed.'']\<rparr>
      | None \<Rightarrow> b\<lparr>rb_grpc_hub := Some (name, m)\<rparr>)"

definition register_grpc_service_with_meta ::
    "registry_builder \<Rightarrow> string \<Rightarrow> arc \<Rightarrow> registry_builder" where
  "register_grpc_service_with_meta b name m =
     b\<lparr>rb_grpc_services := AList.update name m (rb_grpc_services b)\<rparr>"

section \<open>Validation and the dependency graph\<close>

text \<open>The \<open>for n in map.keys()\<close> loops of \<open>validate_capabilities\<close>.\<close>

fun check_keys :: "(string \<times> arc) list \<Rightarrow> string list \<Rightarrow> (unit, registry_error) result" where
  "check_keys core [] = Ok ()"
| "check_keys core (n # ns) =
     (if contains_key core n then check_keys core ns else Err (UnknownModule n))"

definition check_opt :: "(string \<times> arc) list \<Rightarrow> (string \<times> arc) option \<Rightarrow> (unit, registry_error) result" where
  "check_opt core h =
     (case h of None \<Rightarrow> Ok ()
      | Some (n, _) \<Rightarrow> if contains_key core n then Ok () else Err (UnknownModule n))"

definition validate_capabilities :: "registry_builder \<Rightarrow> (unit, registry_error) result" where
  "validate_capabilities b =
     and_then (check_opt (rb_core b) (rb_rest_host b)) (\<lambda>_.
     and_then (if rb_errors b \<noteq> [] then Err (InvalidRegistryConfiguration (rb_errors b)) else Ok ()) (\<lambda>_.
     and_then (check_keys (rb_core b) (map fst (rb_rest b))) (\<lambda>_.
     and_then (check_opt (rb_core b) (rb_rest_host b)) (\<lambda>_.
     and_then (check_keys (rb_core b) (map fst (rb_db b))) (\<lambda>_.
     and_then (check_keys (rb_core b) (map fst (rb_stateful b))) (\<lambda>_.
     and_then (check_opt (rb_core b) (rb_grpc_hub b)) (\<lambda>_.
     check_keys (rb_core b) (map fst (rb_grpc_services b)))))))))"

text \<open>\<open>idx.insert(n, i)\<close> over the enumerated names: the last index of a repeated name.\<close>

fun index_map :: "nat \<Rightarrow> string list \<Rightarrow> (string \<rightharpoonup> nat)" where
  "index_map i [] = Map.empty"
| "index_map i (n # ns) = (case index_map (Suc i) ns n of
     None \<Rightarrow> (index_map (Suc i) ns)(n \<mapsto> i) | Some _ \<Rightarrow> index_map (Suc i) ns)"

type_synonym adjacency = "nat list list"

text \<open>The inner loop \<open>for &d in deps\<close>: \<open>adj[v].push(u)\<close> for every dependency.\<close>

fun add_deps ::
    "(string \<rightharpoonup> nat) \<Rightarrow> string \<Rightarrow> nat \<Rightarrow> string list \<Rightarrow> adjacency \<Rightarrow> (adjacency, registry_error) result"
where
  "add_deps idx n u [] adj = Ok adj"
| "add_deps idx n u (d # ds) adj =
     (case idx d of
        None \<Rightarrow> Err (UnknownDependency n d)
      | Some v \<Rightarrow> add_deps idx n u ds (adj[v := adj ! v @ [u]]))"

fun add_all_deps ::
    "(string \<rightharpoonup> nat) \<Rightarrow> (string \<times> string list) list \<Rightarrow> adjacency \<Rightarrow> (adjacency, registry_error) result"
where
  "add_all_deps idx [] adj = Ok adj"
| "add_all_deps idx ((n, ds) # rest) adj =
     (case idx n of
        None \<Rightarrow> Err (UnknownModule n)
      | Some u \<Rightarrow>
          (case add_deps idx n u ds adj of
             Err e \<Rightarrow> Err e
           | Ok adj' \<Rightarrow> add_all_deps idx rest adj'))"

definition build_dependency_graph ::
    "registry_builder \<Rightarrow> (string list \<times> adjacency \<times> (string \<rightharpoonup> nat), registry_error) result"
where
  "build_dependency_graph b =
     (let names = map fst (rb_core b);
          idx = index_map 0 names
      in (case add_all_deps idx (rb_deps b) (replicate (length names) []) of
            Err e \<Rightarrow> Err e
          | Ok adj \<Rightarrow> Ok (names, adj, idx)))"

section \<open>Cycle detection\<close>

datatype color = White | Gray | Black

fun find_pos :: "'a \<Rightarrow> 'a list \<Rightarrow> nat option" where
  "find_pos x [] = None"
| "find_pos x (y # ys) = (if y = x then Some 0 else map_option Suc (find_pos x ys))"

text \<open>
  \<open>dfs\<close> returns \<open>None\<close> when the fuel runs out; otherwise the cycle (if one was found) and the
  final \<open>colors\<close> and \<open>path\<close>, which the source mutates in place. \<open>dfs_loop\<close> is its
  \<open>for &neighbor in &adj[node]\<close> loop.
\<close>

type_synonym dfs_result = "(string list option \<times> color list \<times> nat list) option"

function (sequential) dfs ::
    "nat \<Rightarrow> nat \<Rightarrow> string list \<Rightarrow> adjacency \<Rightarrow> color list \<Rightarrow> nat list \<Rightarrow> dfs_result"
  and dfs_loop ::
    "nat \<Rightarrow> nat list \<Rightarrow> string list \<Rightarrow> adjacency \<Rightarrow> color list \<Rightarrow> nat list \<Rightarrow> dfs_result"
where
  "dfs 0 node names adj colors path = None"
| "dfs (Suc fuel) node names adj colors path =
     (case dfs_loop fuel (adj ! node) names adj (colors[node := Gray]) (path @ [node]) of
        None \<Rightarrow> None
      | Some (Some cycle, colors', path') \<Rightarrow> Some (Some cycle, colors', path')
      | Some (None, colors', path') \<Rightarrow> Some (None, colors'[node := Black], butlast path'))"
| "dfs_loop fuel [] names adj colors path = Some (None, colors, path)"
| "dfs_loop fuel (neighbor # rest) names adj colors path =
     (case colors ! neighbor of
        Gray \<Rightarrow>
          (case find_pos neighbor path of
             Some cycle_start \<Rightarrow>
               Some (Some (map (\<lambda>i. names ! i) (drop cycle_start path) @ [names ! neighbor]),
                     colors, path)
           | None \<Rightarrow> dfs_loop fuel rest names adj colors path)
      | White \<Rightarrow>
          (case dfs fuel neighbor names adj colors path of
             None \<Rightarrow> None
           | Some (Some cycle, colors', path') \<Rightarrow> Some (Some cycle, colors', path')
           | Some (None, colors', path') \<Rightarrow> dfs_loop fuel rest names adj colors' path')
      | Black \<Rightarrow> dfs_loop fuel rest names adj colors path)"
  by pat_completeness auto
termination
  by (relation "measures [\<lambda>x. case x of Inl (f, _) \<Rightarrow> f | Inr (f, _) \<Rightarrow> f,
        \<lambda>x. case x of Inl _ \<Rightarrow> 0 | Inr (_, ns, _) \<Rightarrow> Suc (length ns)]") auto

fun detect_from ::
    "nat \<Rightarrow> nat list \<Rightarrow> string list \<Rightarrow> adjacency \<Rightarrow> color list \<Rightarrow> nat list \<Rightarrow> string list option option"
where
  "detect_from fuel [] names adj colors path = Some None"
| "detect_from fuel (i # is) names adj colors path =
     (if colors ! i = White then
        (case dfs fuel i names adj colors path of
           None \<Rightarrow> None
         | Some (Some cycle, _, _) \<Rightarrow> Some (Some cycle)
         | Some (None, colors', path') \<Rightarrow> detect_from fuel is names adj colors' path')
      else detect_from fuel is names adj colors path)"

definition detect_cycle_with_path :: "string list \<Rightarrow> adjacency \<Rightarrow> string list option option" where
  "detect_cycle_with_path names adj =
     detect_from (Suc (length names)) [0..<length names] names adj
       (replicate (length names) White) []"

section \<open>Topological sort and assembly\<close>

definition indegrees :: "nat \<Rightarrow> adjacency \<Rightarrow> nat list" where
  "indegrees n adj =
     fold (\<lambda>adj_list indeg. fold (\<lambda>target d. d[target := Suc (d ! target)]) adj_list indeg)
       adj (replicate n 0)"

text \<open>The loop \<open>for &w in &adj[u]\<close>; \<open>indeg[w] -= 1\<close> on a zero \<open>usize\<close> panics, the value None.\<close>

fun relax :: "nat list \<Rightarrow> nat list \<Rightarrow> nat list \<Rightarrow> (nat list \<times> nat list) option" where
  "relax [] indeg q = Some (indeg, q)"
| "relax (w # ws) indeg q =
     (case indeg ! w of
        0 \<Rightarrow> None
      | Suc d \<Rightarrow> relax ws (indeg[w := d]) (if d = 0 then q @ [w] else q))"

lemma sum_list_update_less:
  assumes "i < length xs" "xs ! i = Suc d"
  shows "Suc (sum_list (xs[i := d])) = sum_list xs"
  using assms by (induction xs arbitrary: i) (auto split: nat.splits)

lemma relax_measure:
  assumes "relax ws indeg q = Some (indeg', q')" "\<forall>w \<in> set ws. w < length indeg"
  shows "sum_list indeg' + length q' \<le> sum_list indeg + length q"
  using assms
proof (induction ws indeg q rule: relax.induct)
  case (2 w ws indeg q)
  then obtain d where d: "indeg ! w = Suc d"
    and r: "relax ws (indeg[w := d]) (if d = 0 then q @ [w] else q) = Some (indeg', q')"
    by (auto split: nat.splits)
  from "2.IH"[OF d r] "2.prems"(2)
  have "sum_list indeg' + length q'
      \<le> sum_list (indeg[w := d]) + length (if d = 0 then q @ [w] else q)" by simp
  moreover have "Suc (sum_list (indeg[w := d])) = sum_list indeg"
    using d "2.prems"(2) by (intro sum_list_update_less) auto
  ultimately show ?case by (auto split: if_splits)
qed auto

text \<open>
  The \<open>while let Some(u) = q.pop_front()\<close> loop. An index outside the arrays panics as well; the
  graph the builder makes has none.
\<close>

function (sequential) kahn_loop :: "adjacency \<Rightarrow> nat list \<Rightarrow> nat list \<Rightarrow> nat list \<Rightarrow> nat list option" where
  "kahn_loop adj indeg [] order = Some order"
| "kahn_loop adj indeg (u # q) order =
     (if u < length adj \<and> (\<forall>w \<in> set (adj ! u). w < length indeg) then
        (case relax (adj ! u) indeg q of
           None \<Rightarrow> None
         | Some (indeg', q') \<Rightarrow> kahn_loop adj indeg' q' (order @ [u]))
      else None)"
  by pat_completeness auto
termination
proof (relation "measure (\<lambda>(adj, indeg, q, order). sum_list indeg + length q)", goal_cases)
  case (2 adj indeg u q order x indeg' q')
  then show ?case using relax_measure[of "adj ! u" indeg q indeg' q'] by auto
qed auto

definition kahn :: "nat \<Rightarrow> adjacency \<Rightarrow> nat list option" where
  "kahn n adj =
     (let indeg = indegrees n adj
      in kahn_loop adj indeg (filter (\<lambda>i. indeg ! i = 0) [0..<n]) [])"

definition assemble_entry :: "registry_builder \<Rightarrow> string \<Rightarrow> (module_entry, registry_error) result" where
  "assemble_entry b name =
     (case map_of (rb_deps b) name of
        None \<Rightarrow> Err (MissingDeps name)
      | Some deps \<Rightarrow>
          (case map_of (rb_core b) name of
             None \<Rightarrow> Err (CoreNotFound name)
           | Some core \<Rightarrow>
               Ok \<lparr>me_name = name, me_deps = deps, me_core = core,
                   me_rest = map_of (rb_rest b) name,
                   me_rest_host = (case rb_rest_host b of
                     Some (h, m) \<Rightarrow> if h = name then Some m else None | None \<Rightarrow> None),
                   me_db = map_of (rb_db b) name,
                   me_stateful = map_of (rb_stateful b) name,
                   me_is_system = (name \<in> set (rb_system_modules b)),
                   me_grpc_hub = (case rb_grpc_hub b of
                     Some (h, m) \<Rightarrow> if h = name then Some m else None | None \<Rightarrow> None),
                   me_grpc_service = map_of (rb_grpc_services b) name\<rparr>))"

definition assemble_entries ::
    "registry_builder \<Rightarrow> nat list \<Rightarrow> string list \<Rightarrow> (module_entry list, registry_error) result" where
  "assemble_entries b order names = collect (\<lambda>i. assemble_entry b (names ! i)) order"

text \<open>\<open>build_topo_sorted\<close>: None stands for a panic or exhausted fuel, which \<open>build_no_panic\<close>
  excludes.\<close>

definition build_topo_sorted :: "registry_builder \<Rightarrow> (module_registry, registry_error) result option" where
  "build_topo_sorted b =
     (case validate_capabilities b of
        Err e \<Rightarrow> Some (Err e)
      | Ok _ \<Rightarrow>
     (case build_dependency_graph b of
        Err e \<Rightarrow> Some (Err e)
      | Ok (names, adj, _) \<Rightarrow>
     (case detect_cycle_with_path names adj of
        None \<Rightarrow> None
      | Some (Some cycle) \<Rightarrow> Some (Err (CycleDetected cycle))
      | Some None \<Rightarrow>
     (case kahn (length names) adj of
        None \<Rightarrow> None
      | Some order \<Rightarrow>
     (case assemble_entries b order names of
        Err e \<Rightarrow> Some (Err e)
      | Ok entries \<Rightarrow>
          Some (Ok \<lparr>mr_modules = entries,
                    mr_grpc_hub = map_option fst (rb_grpc_hub b),
                    mr_grpc_services = rb_grpc_services b\<rparr>))))))"

text \<open>The registrators are functions on the builder; \<open>discover_and_build\<close> runs them in order.\<close>

definition discover_and_build ::
    "(registry_builder \<Rightarrow> registry_builder) list \<Rightarrow> (module_registry, registry_error) result option" where
  "discover_and_build rs = build_topo_sorted (fold (\<lambda>r b. r b) rs empty_builder)"

definition modules_by_system_priority :: "module_registry \<Rightarrow> module_entry list" where
  "modules_by_system_priority r =
     (let (system_mods, non_system_mods) =
        fold (\<lambda>entry (s, n). if me_is_system entry then (s @ [entry], n) else (s, n @ [entry]))
          (mr_modules r) ([], [])
      in system_mods @ non_system_mods)"

definition get_module :: "module_registry \<Rightarrow> string \<Rightarrow> arc option" where
  "get_module r name = map_option me_core (find (\<lambda>e. me_name e = name) (mr_modules r))"

section \<open>Correctness of the cycle search\<close>

definition wf_graph :: "nat \<Rightarrow> adjacency \<Rightarrow> bool" where
  "wf_graph n adj \<longleftrightarrow> length adj = n \<and> (\<forall>u < n. \<forall>w \<in> set (adj ! u). w < n)"

definition nodes_of :: "color \<Rightarrow> color list \<Rightarrow> nat set" where
  "nodes_of c colors = {i. i < length colors \<and> colors ! i = c}"

definition walk :: "adjacency \<Rightarrow> nat list \<Rightarrow> bool" where
  "walk adj p \<longleftrightarrow> successively (\<lambda>u w. w \<in> set (adj ! u)) p"

text \<open>A set of finished nodes is closed under edges and ranked by some measure.\<close>

definition ranked :: "adjacency \<Rightarrow> nat set \<Rightarrow> bool" where
  "ranked adj B \<longleftrightarrow> (\<exists>f :: nat \<Rightarrow> nat. \<forall>b \<in> B. \<forall>w \<in> set (adj ! b). w \<in> B \<and> f w < f b)"

definition is_cycle :: "nat \<Rightarrow> adjacency \<Rightarrow> nat list \<Rightarrow> bool" where
  "is_cycle n adj ns \<longleftrightarrow> ns \<noteq> [] \<and> set ns \<subseteq> {..<n} \<and> walk adj (ns @ [hd ns])"

definition dfs_inv :: "nat \<Rightarrow> adjacency \<Rightarrow> color list \<Rightarrow> nat list \<Rightarrow> bool" where
  "dfs_inv n adj colors path \<longleftrightarrow>
     length colors = n \<and> distinct path \<and> set path = nodes_of Gray colors \<and> walk adj path \<and>
     ranked adj (nodes_of Black colors)"

lemma nodes_of_finite [simp]: "finite (nodes_of c colors)"
  by (simp add: nodes_of_def)

lemma nodes_of_update:
  "v < length colors \<Longrightarrow>
   nodes_of c (colors[v := d]) = (if c = d then insert v (nodes_of c colors) else nodes_of c colors - {v})"
  by (auto simp: nodes_of_def nth_list_update)

lemma ranked_empty [simp]: "ranked adj {}"
  by (simp add: ranked_def)

lemma ranked_insert:
  assumes "ranked adj B" "set (adj ! v) \<subseteq> B" "v \<notin> B"
  shows "ranked adj (insert v B)"
proof -
  from assms(1) obtain f :: "nat \<Rightarrow> nat"
    where f: "\<forall>b \<in> B. \<forall>w \<in> set (adj ! b). w \<in> B \<and> f w < f b" by (auto simp: ranked_def)
  define g where "g = f(v := Suc (sum_list (map f (adj ! v))))"
  have "\<And>w. w \<in> set (adj ! v) \<Longrightarrow> f w \<le> sum_list (map f (adj ! v))"
    by (rule member_le_sum_list) auto
  then have "\<forall>b \<in> insert v B. \<forall>w \<in> set (adj ! b). w \<in> insert v B \<and> g w < g b"
    using f assms(2,3) by (fastforce simp: g_def less_Suc_eq_le)
  then show ?thesis unfolding ranked_def by blast
qed

lemma find_pos_Some:
  "find_pos x xs = Some k \<Longrightarrow> k < length xs \<and> xs ! k = x"
  by (induction xs arbitrary: k) (auto split: if_splits)

lemma find_pos_mem: "x \<in> set xs \<Longrightarrow> \<exists>k. find_pos x xs = Some k"
  by (induction xs) auto

lemma walk_snoc: "walk adj (p @ [w]) \<longleftrightarrow> walk adj p \<and> (p = [] \<or> w \<in> set (adj ! last p))"
  by (auto simp: walk_def successively_append_iff)

lemma walk_drop: "walk adj p \<Longrightarrow> walk adj (drop k p)"
  using successively_append_iff[of "\<lambda>u w. w \<in> set (adj ! u)" "take k p" "drop k p"]
  by (simp add: walk_def)

lemma back_edge_cycle:
  assumes "walk adj path" "path \<noteq> []" "set path \<subseteq> {..<n}" "w \<in> set (adj ! last path)"
    and pos: "find_pos w path = Some k"
  shows "is_cycle n adj (drop k path) \<and> hd (drop k path) = w"
proof -
  from find_pos_Some[OF pos] have k: "k < length path" "path ! k = w" by auto
  then have hd: "hd (drop k path) = w" by (simp add: hd_drop_conv_nth)
  have "last (drop k path) = last path" using k by (simp add: last_drop)
  then have "walk adj (drop k path @ [w])"
    using walk_drop[OF assms(1), of k] assms(4) k by (simp add: walk_snoc)
  moreover have "set (drop k path) \<subseteq> {..<n}" using assms(3) set_drop_subset by fastforce
  ultimately show ?thesis using k hd by (auto simp: is_cycle_def)
qed

text \<open>What a call establishes: either a genuine cycle, or the same path with more finished nodes.\<close>

definition dfs_post ::
    "nat \<Rightarrow> adjacency \<Rightarrow> string list \<Rightarrow> color list \<Rightarrow> nat list \<Rightarrow> nat set \<Rightarrow>
     string list option \<times> color list \<times> nat list \<Rightarrow> bool" where
  "dfs_post n adj names colors path done r \<longleftrightarrow>
     (case r of
        (Some cyc, _, _) \<Rightarrow> \<exists>ns. is_cycle n adj ns \<and> cyc = map (\<lambda>i. names ! i) (ns @ [hd ns])
      | (None, colors', path') \<Rightarrow>
          path' = path \<and> dfs_inv n adj colors' path \<and>
          nodes_of Black colors \<union> done \<subseteq> nodes_of Black colors' \<and>
          nodes_of Gray colors' = nodes_of Gray colors)"

lemma nodes_of_disjoint: "i \<in> nodes_of c colors \<Longrightarrow> i \<in> nodes_of d colors \<Longrightarrow> c = d"
  by (simp add: nodes_of_def)

lemma nodes_of_cover: "i < length colors \<Longrightarrow> i \<in> nodes_of (colors ! i) colors"
  by (simp add: nodes_of_def)

lemma nodes_of_partition:
  assumes "length colors' = length colors" "nodes_of Black colors \<subseteq> nodes_of Black colors'"
    and "nodes_of Gray colors' = nodes_of Gray colors"
  shows "nodes_of White colors' \<subseteq> nodes_of White colors"
proof
  fix i assume w: "i \<in> nodes_of White colors'"
  then have i: "i \<in> nodes_of (colors ! i) colors"
    using assms(1) by (intro nodes_of_cover) (simp add: nodes_of_def)
  show "i \<in> nodes_of White colors"
    using i w assms(2,3) by (cases "colors ! i") (auto dest: nodes_of_disjoint)
qed

lemma dfs_enter:
  assumes inv: "dfs_inv n adj colors path" and v: "v < n" "colors ! v = White"
    and edge: "path = [] \<or> v \<in> set (adj ! last path)" and f: "card (nodes_of White colors) \<le> Suc fuel"
  shows "dfs_inv n adj (colors[v := Gray]) (path @ [v])"
    and "card (nodes_of White (colors[v := Gray])) \<le> fuel"
proof -
  from inv v have len: "v < length colors" and nw: "v \<in> nodes_of White colors"
    by (auto simp: dfs_inv_def nodes_of_def)
  have "v \<notin> set path" "v \<notin> nodes_of Black colors"
    using inv nw by (auto simp: dfs_inv_def dest: nodes_of_disjoint)
  then show "dfs_inv n adj (colors[v := Gray]) (path @ [v])"
    using inv len edge by (auto simp: dfs_inv_def nodes_of_update walk_snoc)
  show "card (nodes_of White (colors[v := Gray])) \<le> fuel"
    using f nw len by (simp add: nodes_of_update card_Diff_singleton)
qed

lemma dfs_leave:
  assumes inv: "dfs_inv n adj colors path" and v: "v < n" "colors ! v = White"
    and post: "dfs_post n adj names (colors[v := Gray]) (path @ [v]) (set (adj ! v)) (None, c', p')"
  shows "dfs_post n adj names colors path {v} (None, c'[v := Black], butlast p')"
proof -
  let ?c = "colors[v := Gray]"
  from post have p': "p' = path @ [v]" and inv': "dfs_inv n adj c' (path @ [v])"
    and blk: "nodes_of Black ?c \<union> set (adj ! v) \<subseteq> nodes_of Black c'"
    and gry: "nodes_of Gray c' = nodes_of Gray ?c" by (auto simp: dfs_post_def)
  from inv v have len: "v < length colors" and nw: "v \<in> nodes_of White colors"
    by (auto simp: dfs_inv_def nodes_of_def)
  have nb: "v \<notin> nodes_of Black colors" "v \<notin> nodes_of Gray colors"
    using nw by (auto dest: nodes_of_disjoint)
  have len': "v < length c'" using inv' v by (simp add: dfs_inv_def)
  have "v \<in> nodes_of Gray c'" using gry len by (simp add: nodes_of_update)
  then have nb': "v \<notin> nodes_of Black c'" by (auto dest: nodes_of_disjoint)
  have gry': "nodes_of Gray c' - {v} = nodes_of Gray colors"
    using gry len nb by (auto simp: nodes_of_update)
  have rk: "ranked adj (insert v (nodes_of Black c'))"
    using inv' blk nb' by (intro ranked_insert) (auto simp: dfs_inv_def)
  have "dfs_inv n adj (c'[v := Black]) path"
    using inv' rk gry' len' inv by (auto simp: dfs_inv_def nodes_of_update walk_snoc)
  moreover have "nodes_of Black colors \<subseteq> nodes_of Black ?c" using len nb by (simp add: nodes_of_update)
  ultimately show ?thesis
    using p' len' blk gry' by (auto simp: dfs_post_def nodes_of_update)
qed

lemma dfs_post_seq:
  assumes "dfs_post n adj names colors path A (None, c', path')" "dfs_post n adj names c' path' B q"
  shows "dfs_post n adj names colors path (A \<union> B) q"
  using assms by (fastforce simp: dfs_post_def split: option.splits)

lemma dfs_post_white_card:
  assumes "dfs_post n adj names colors path A (None, c', path')" "dfs_inv n adj colors path"
  shows "card (nodes_of White c') \<le> card (nodes_of White colors)"
proof (rule card_mono)
  show "nodes_of White c' \<subseteq> nodes_of White colors"
    using assms by (intro nodes_of_partition) (auto simp: dfs_post_def dfs_inv_def)
qed simp

lemma dfs_loop_skip:
  assumes "dfs_post n adj names colors path B q" "w \<in> nodes_of Black colors"
  shows "dfs_post n adj names colors path (insert w B) q"
  using assms by (auto simp: dfs_post_def split: option.splits)

lemma dfs_main:
  "wf_graph n adj \<Longrightarrow> dfs_inv n adj colors path \<Longrightarrow> v < n \<Longrightarrow> colors ! v = White \<Longrightarrow>
   path = [] \<or> v \<in> set (adj ! last path) \<Longrightarrow> card (nodes_of White colors) \<le> fuel \<Longrightarrow>
   \<exists>r. dfs fuel v names adj colors path = Some r \<and> dfs_post n adj names colors path {v} r"
  "wf_graph n adj \<Longrightarrow> dfs_inv n adj colors path \<Longrightarrow> path \<noteq> [] \<Longrightarrow>
   set ws \<subseteq> set (adj ! last path) \<Longrightarrow> card (nodes_of White colors) \<le> fuel \<Longrightarrow>
   \<exists>r. dfs_loop fuel ws names adj colors path = Some r \<and> dfs_post n adj names colors path (set ws) r"
proof (induction fuel v names adj colors path and fuel ws names adj colors path
    rule: dfs_dfs_loop.induct)
  case (1 node names adj colors path)
  then have "node \<in> nodes_of White colors" by (simp add: nodes_of_def dfs_inv_def)
  with 1 show ?case by auto
next
  case (2 fuel node names adj colors path)
  note enter = dfs_enter[OF "2.prems"(2-6)]
  from "2.IH" enter "2.prems"(1) obtain cyc c' p' where r:
    "dfs_loop fuel (adj ! node) names adj (colors[node := Gray]) (path @ [node]) = Some (cyc, c', p')"
    "dfs_post n adj names (colors[node := Gray]) (path @ [node]) (set (adj ! node)) (cyc, c', p')"
    by auto
  show ?case
  proof (cases cyc)
    case (Some cy)
    with r show ?thesis by (simp add: dfs_post_def)
  next
    case None
    with r dfs_leave[OF "2.prems"(2-4), of names c' p'] show ?thesis by simp
  qed
next
  case (3 fuel names adj colors path)
  then show ?case by (simp add: dfs_post_def)
next
  case (4 fuel w ws names adj colors path)
  have pn: "set path \<subseteq> {..<n}" using "4.prems"(2) by (auto simp: dfs_inv_def nodes_of_def)
  then have "last path < n" using "4.prems"(3) last_in_set by blast
  then have wn: "w < n" using "4.prems"(1,4) by (auto simp: wf_graph_def)
  then have wc: "w \<in> nodes_of (colors ! w) colors"
    using "4.prems"(2) by (intro nodes_of_cover) (simp add: dfs_inv_def)
  have sub: "set ws \<subseteq> set (adj ! last path)" using "4.prems"(4) by simp
  show ?case
  proof (cases "colors ! w")
    case Gray
    then have "w \<in> set path" using wc "4.prems"(2) by (simp add: dfs_inv_def)
    from find_pos_mem[OF this] obtain k where k: "find_pos w path = Some k" ..
    have "is_cycle n adj (drop k path) \<and> hd (drop k path) = w"
      using "4.prems" pn k by (intro back_edge_cycle) (auto simp: dfs_inv_def)
    with Gray k show ?thesis
      by (auto simp: dfs_post_def intro!: exI[of _ "drop k path"])
  next
    case Black
    from "4.IH"(4)[OF Black "4.prems"(1-3) sub "4.prems"(5)] Black dfs_loop_skip wc
    show ?thesis by force
  next
    case White
    with "4.IH"(1)[OF White] "4.prems" wn obtain cyc c' p' where
      r: "dfs fuel w names adj colors path = Some (cyc, c', p')" and
      rp: "dfs_post n adj names colors path {w} (cyc, c', p')" by auto
    show ?thesis
    proof (cases cyc)
      case (Some cy)
      with r rp White show ?thesis by (simp add: dfs_post_def)
    next
      case None
      with rp have p': "p' = path" and inv': "dfs_inv n adj c' path" by (auto simp: dfs_post_def)
      have "card (nodes_of White c') \<le> fuel"
        using dfs_post_white_card[OF rp[unfolded None] "4.prems"(2)] "4.prems"(5) by simp
      with "4.IH"(2)[OF White r refl None refl] p' inv' "4.prems" obtain q where
        q: "dfs_loop fuel ws names adj c' path = Some q" "dfs_post n adj names c' path (set ws) q"
        by auto
      with r rp None p' White dfs_post_seq[of n adj names colors path "{w}" c' path "set ws" q]
      show ?thesis by simp
    qed
  qed
qed

lemma detect_from_main:
  assumes "wf_graph n adj" "dfs_inv n adj colors []" "set is \<subseteq> {..<n}" "n \<le> fuel"
  shows "\<exists>r. detect_from fuel is names adj colors [] = Some r \<and>
    (case r of Some cyc \<Rightarrow> \<exists>ns. is_cycle n adj ns \<and> cyc = map (\<lambda>i. names ! i) (ns @ [hd ns])
     | None \<Rightarrow> \<exists>B. ranked adj B \<and> nodes_of Black colors \<union> set is \<subseteq> B)"
  using assms
proof (induction "is" arbitrary: colors)
  case Nil
  then show ?case by (auto simp: dfs_inv_def)
next
  case (Cons i "is")
  have i: "i < n" and rest: "set is \<subseteq> {..<n}" using Cons.prems(3) by auto
  have ic: "i \<in> nodes_of (colors ! i) colors"
    using i Cons.prems(2) by (intro nodes_of_cover) (simp add: dfs_inv_def)
  show ?case
  proof (cases "colors ! i")
    case White
    have "nodes_of White colors \<subseteq> {..<n}"
      using Cons.prems(2) by (auto simp: dfs_inv_def nodes_of_def)
    then have "card (nodes_of White colors) \<le> fuel"
      using card_mono[of "{..<n}" "nodes_of White colors"] Cons.prems(4) by simp
    from dfs_main(1)[OF Cons.prems(1,2) i White _ this, of names] obtain cyc c' p' where
      r: "dfs fuel i names adj colors [] = Some (cyc, c', p')" and
      rp: "dfs_post n adj names colors [] {i} (cyc, c', p')" by auto
    show ?thesis
    proof (cases cyc)
      case (Some cy)
      with r rp White show ?thesis by (auto simp: dfs_post_def)
    next
      case None
      with rp have p': "p' = []" and inv': "dfs_inv n adj c' []"
        and blk: "insert i (nodes_of Black colors) \<subseteq> nodes_of Black c'" by (auto simp: dfs_post_def)
      from Cons.IH[OF Cons.prems(1) inv' rest Cons.prems(4)] blk r None p' White
      show ?thesis by (fastforce split: option.splits)
    qed
  next
    case Gray
    then show ?thesis using ic Cons.prems(2) by (simp add: dfs_inv_def)
  next
    case Black
    with Cons.IH[OF Cons.prems(1,2) rest Cons.prems(4)] ic show ?thesis
      by (fastforce split: option.splits)
  qed
qed

text \<open>The search always returns: the fuel of \<open>detect_cycle_with_path\<close> is enough. A reported path is
  a genuine cycle; no report means that all nodes are ranked, so the graph has none.\<close>

lemma detect_cycle_total:
  assumes "wf_graph (length names) adj"
  shows "\<exists>r. detect_cycle_with_path names adj = Some r \<and>
    (case r of
       Some cyc \<Rightarrow> \<exists>ns. is_cycle (length names) adj ns \<and> cyc = map (\<lambda>i. names ! i) (ns @ [hd ns])
     | None \<Rightarrow> \<exists>B. ranked adj B \<and> {..<length names} \<subseteq> B)"
proof -
  have "nodes_of c (replicate (length names) White) = {}" if "c \<noteq> White" for c
    using that by (auto simp: nodes_of_def)
  then have "dfs_inv (length names) adj (replicate (length names) White) []"
    by (simp add: dfs_inv_def walk_def)
  from detect_from_main[OF assms this, of "[0..<length names]" "Suc (length names)" names]
  show ?thesis by (fastforce simp: detect_cycle_with_path_def lessThan_atLeast0 split: option.splits)
qed

section \<open>Correctness of the topological sort\<close>

text \<open>Every predecessor of a node stands before it.\<close>

definition topo_order :: "nat \<Rightarrow> adjacency \<Rightarrow> nat list \<Rightarrow> bool" where
  "topo_order n adj order \<longleftrightarrow>
     (\<forall>xs w ys u. order = xs @ w # ys \<longrightarrow> u < n \<longrightarrow> w \<in> set (adj ! u) \<longrightarrow> u \<in> set xs)"

definition open_edges :: "nat \<Rightarrow> adjacency \<Rightarrow> nat set \<Rightarrow> nat \<Rightarrow> nat" where
  "open_edges n adj done w = (\<Sum>u \<in> {..<n} - done. count_list (adj ! u) w)"

definition kahn_inv :: "nat \<Rightarrow> adjacency \<Rightarrow> nat list \<Rightarrow> nat list \<Rightarrow> nat list \<Rightarrow> bool" where
  "kahn_inv n adj indeg q order \<longleftrightarrow>
     length indeg = n \<and> distinct (order @ q) \<and> set (order @ q) = {w. w < n \<and> indeg ! w = 0} \<and>
     (\<forall>w < n. indeg ! w = open_edges n adj (set order) w) \<and> topo_order n adj order"

lemma topo_order_snoc:
  assumes "topo_order n adj order" "\<forall>u < n. w \<in> set (adj ! u) \<longrightarrow> u \<in> set order"
  shows "topo_order n adj (order @ [w])"
  unfolding topo_order_def
proof (intro allI impI)
  fix xs x ys u assume eq: "order @ [w] = xs @ x # ys" and u: "u < n" "x \<in> set (adj ! u)"
  show "u \<in> set xs"
  proof (cases ys rule: rev_cases)
    case Nil
    with eq assms(2) u show ?thesis by auto
  next
    case (snoc zs z)
    with eq have "order = xs @ x # zs" by simp
    with assms(1) u show ?thesis unfolding topo_order_def by blast
  qed
qed

lemma relax_spec:
  assumes "\<forall>w \<in> set ws. w < length indeg \<and> count_list ws w \<le> indeg ! w"
  shows "\<exists>indeg' r. relax ws indeg q = Some (indeg', q @ r) \<and> length indeg' = length indeg \<and>
    (\<forall>w < length indeg. indeg' ! w + count_list ws w = indeg ! w) \<and>
    distinct r \<and> set r = {w \<in> set ws. indeg' ! w = 0}"
  using assms
proof (induction ws arbitrary: indeg q)
  case Nil
  then show ?case by simp
next
  case (Cons w ws)
  from Cons.prems obtain d where d: "indeg ! w = Suc d" by (cases "indeg ! w") auto
  let ?q = "if d = 0 then q @ [w] else q" and ?i = "indeg[w := d]"
  have wl: "w < length indeg" using Cons.prems by simp
  have "\<forall>x \<in> set ws. x < length ?i \<and> count_list ws x \<le> ?i ! x"
    using Cons.prems d by (fastforce simp: nth_list_update split: if_splits)
  from Cons.IH[OF this, of ?q] obtain indeg' r where
    r: "relax ws ?i ?q = Some (indeg', ?q @ r)" "length indeg' = length indeg"
      "\<forall>x < length indeg. indeg' ! x + count_list ws x = ?i ! x"
      "distinct r" "set r = {x \<in> set ws. indeg' ! x = 0}" by auto
  have w': "indeg' ! w + count_list ws w = d" using r(3) wl by simp
  have "w \<notin> set ws" if "d = 0" using w' that by (simp add: count_list_0_iff)
  moreover have "indeg' ! w \<noteq> 0" if "w \<notin> set ws" "d \<noteq> 0" using w' that by (simp add: count_list_0_iff)
  ultimately have "relax (w # ws) indeg q = Some (indeg', q @ (if d = 0 then w # r else r))"
      "distinct (if d = 0 then w # r else r)"
      "set (if d = 0 then w # r else r) = {x \<in> set (w # ws). indeg' ! x = 0}"
    using r d w' by auto
  moreover have "\<forall>x < length indeg. indeg' ! x + count_list (w # ws) x = indeg ! x"
    using r(3) d by (auto simp: nth_list_update split: if_splits)
  ultimately show ?case using r(2) by blast
qed

lemma open_edges_remove:
  assumes "u < n" "u \<notin> done"
  shows "open_edges n adj done w = count_list (adj ! u) w + open_edges n adj (insert u done) w"
proof -
  have eq: "{..<n} - done = insert u ({..<n} - insert u done)" using assms by auto
  show ?thesis unfolding open_edges_def by (subst eq) simp
qed

lemma open_edges_zero:
  "open_edges n adj done w = 0 \<Longrightarrow> u < n \<Longrightarrow> w \<in> set (adj ! u) \<Longrightarrow> u \<in> done"
  by (auto simp: open_edges_def count_list_0_iff)

lemma kahn_step:
  assumes wf: "wf_graph n adj" and inv: "kahn_inv n adj indeg (u # q) order"
  shows "\<exists>indeg' q'. relax (adj ! u) indeg q = Some (indeg', q') \<and>
    kahn_inv n adj indeg' q' (order @ [u])"
proof -
  from inv have u: "u < n" "indeg ! u = 0" "u \<notin> set order" by (auto simp: kahn_inv_def)
  have deg: "indeg ! w = count_list (adj ! u) w + open_edges n adj (set (order @ [u])) w" if "w < n" for w
    using inv that open_edges_remove[OF u(1,3), of adj w] by (auto simp: kahn_inv_def)
  have wn: "set (adj ! u) \<subseteq> {..<n}" and len: "length indeg = n"
    using wf u inv by (auto simp: wf_graph_def kahn_inv_def)
  then have "\<forall>w \<in> set (adj ! u). w < length indeg \<and> count_list (adj ! u) w \<le> indeg ! w"
    by (metis deg le_add1 lessThan_iff subsetD)
  from relax_spec[OF this, of q] obtain indeg' r where
    r: "relax (adj ! u) indeg q = Some (indeg', q @ r)" "length indeg' = n"
      "\<forall>w < n. indeg' ! w + count_list (adj ! u) w = indeg ! w"
      "distinct r" "set r = {w \<in> set (adj ! u). indeg' ! w = 0}"
    using len by auto
  have deg': "\<forall>w < n. indeg' ! w = open_edges n adj (set (order @ [u])) w" using deg r(3) by fastforce
  have pos: "indeg ! w \<noteq> 0" if "w \<in> set (adj ! u)" "w < n" for w
    using r(3) that count_list_0_iff[of "adj ! u" w] by (metis add_is_0)
  have old: "set (order @ u # q) = {w. w < n \<and> indeg ! w = 0}" using inv by (simp add: kahn_inv_def)
  have same: "indeg' ! w = indeg ! w" if "w < n" "w \<notin> set (adj ! u)" for w
    using r(3)[rule_format, OF that(1)] that(2) by (simp add: count_notin)
  have zero: "indeg' ! w = 0 \<longleftrightarrow> indeg ! w = 0 \<or> w \<in> set r" if "w < n" for w
    using same[OF that] pos[of w] that r(3,5) by (cases "w \<in> set (adj ! u)") auto
  have rn: "set r \<subseteq> {w. w < n \<and> indeg ! w \<noteq> 0}" using r(5) wn pos by auto
  have "set (order @ [u] @ q @ r) = {w. w < n \<and> indeg' ! w = 0}"
    using old zero rn by auto
  moreover have "set r \<inter> set (order @ u # q) = {}" unfolding old using rn by auto
  then have "distinct (order @ [u] @ q @ r)"
    using inv r(4) by (auto simp: kahn_inv_def)
  moreover have "topo_order n adj (order @ [u])"
    using inv u open_edges_zero[of n adj "set order" u]
    by (intro topo_order_snoc) (auto simp: kahn_inv_def)
  ultimately show ?thesis using r(1,2) deg' by (auto simp: kahn_inv_def)
qed

lemma kahn_loop_main:
  assumes "wf_graph n adj" "kahn_inv n adj indeg q order"
  shows "\<exists>order' indeg'. kahn_loop adj indeg q order = Some order' \<and> kahn_inv n adj indeg' [] order'"
  using assms
proof (induction adj indeg q order rule: kahn_loop.induct)
  case (1 adj indeg order)
  then show ?case by auto
next
  case (2 adj indeg u q order)
  from kahn_step[OF "2.prems"] obtain indeg' q' where
    s: "relax (adj ! u) indeg q = Some (indeg', q')" "kahn_inv n adj indeg' q' (order @ [u])" by auto
  have g: "u < length adj \<and> (\<forall>w \<in> set (adj ! u). w < length indeg)"
    using "2.prems" by (auto simp: kahn_inv_def wf_graph_def)
  from "2.IH"[OF g s(1) refl "2.prems"(1) s(2)] g s(1) show ?case by simp
qed

lemma fold_count_targets:
  "\<forall>w \<in> set ws. w < length d \<Longrightarrow>
   length (fold (\<lambda>t d. d[t := Suc (d ! t)]) ws d) = length d \<and>
   (\<forall>w < length d. fold (\<lambda>t d. d[t := Suc (d ! t)]) ws d ! w = d ! w + count_list ws w)"
  by (induction ws arbitrary: d) (auto simp: nth_list_update)

lemma fold_count_all:
  "\<forall>ws \<in> set adj. \<forall>w \<in> set ws. w < length d \<Longrightarrow>
   length (fold (\<lambda>ws d. fold (\<lambda>t d. d[t := Suc (d ! t)]) ws d) adj d) = length d \<and>
   (\<forall>w < length d. fold (\<lambda>ws d. fold (\<lambda>t d. d[t := Suc (d ! t)]) ws d) adj d ! w =
      d ! w + sum_list (map (\<lambda>ws. count_list ws w) adj))"
proof (induction adj arbitrary: d)
  case (Cons a adj)
  with fold_count_targets[of a d] show ?case by (auto simp: add.assoc)
qed simp

lemma indegrees_spec:
  assumes "wf_graph n adj"
  shows "length (indegrees n adj) = n" and "w < n \<Longrightarrow> indegrees n adj ! w = open_edges n adj {} w"
proof -
  have "\<forall>ws \<in> set adj. \<forall>w \<in> set ws. w < length (replicate n (0::nat))"
    using assms by (auto simp: wf_graph_def dest!: in_set_conv_nth[THEN iffD1, of _ adj])
  from fold_count_all[OF this] assms
  show "length (indegrees n adj) = n" and "w < n \<Longrightarrow> indegrees n adj ! w = open_edges n adj {} w"
    by (auto simp: indegrees_def open_edges_def wf_graph_def sum_list_sum_nth lessThan_atLeast0)
qed

text \<open>On a ranked graph the sort returns a permutation of all nodes, in topological order.\<close>

lemma kahn_complete:
  assumes wf: "wf_graph n adj" and rk: "ranked adj B" "{..<n} \<subseteq> B"
  shows "\<exists>order. kahn n adj = Some order \<and> distinct order \<and> set order = {..<n} \<and> topo_order n adj order"
proof -
  have "kahn_inv n adj (indegrees n adj) (filter (\<lambda>i. indegrees n adj ! i = 0) [0..<n]) []"
    using indegrees_spec[OF wf] by (auto simp: kahn_inv_def topo_order_def)
  from kahn_loop_main[OF wf this] obtain order indeg where
    o: "kahn n adj = Some order" "kahn_inv n adj indeg [] order" by (auto simp: kahn_def Let_def)
  from rk obtain f :: "nat \<Rightarrow> nat" where f: "\<forall>b < n. \<forall>w \<in> set (adj ! b). f w < f b"
    unfolding ranked_def by (meson lessThan_iff subsetD)
  have "{..<n} - set order = {}"
  proof (rule ccontr)
    assume "{..<n} - set order \<noteq> {}"
    then have "Max (f ` ({..<n} - set order)) \<in> f ` ({..<n} - set order)" by (intro Max_in) auto
    then obtain w where w: "w \<in> {..<n} - set order" and mx: "f w = Max (f ` ({..<n} - set order))"
      by auto
    have "open_edges n adj (set order) w \<noteq> 0" using o(2) w by (auto simp: kahn_inv_def)
    then obtain u where u: "u \<in> {..<n} - set order" "w \<in> set (adj ! u)"
      by (auto simp: open_edges_def count_list_0_iff)
    then have "f u \<le> f w" unfolding mx by (intro Max_ge) auto
    with f u show False by fastforce
  qed
  with o show ?thesis by (auto simp: kahn_inv_def)
qed

section \<open>The dependency graph represents the registered dependencies\<close>

text \<open>The invariant of the builder: \<open>core\<close> and \<open>deps\<close> are maps with the same keys.\<close>

definition wf_builder :: "registry_builder \<Rightarrow> bool" where
  "wf_builder b \<longleftrightarrow> distinct (map fst (rb_core b)) \<and> distinct (map fst (rb_deps b)) \<and>
     fst ` set (rb_core b) = fst ` set (rb_deps b)"

text \<open>\<open>(d, n)\<close>: module \<open>n\<close> is registered with dependency \<open>d\<close>.\<close>

definition dep_rel :: "registry_builder \<Rightarrow> (string \<times> string) set" where
  "dep_rel b = {(d, n). \<exists>ds. (n, ds) \<in> set (rb_deps b) \<and> d \<in> set ds}"

definition deps_known :: "registry_builder \<Rightarrow> bool" where
  "deps_known b \<longleftrightarrow> (\<forall>(n, ds) \<in> set (rb_deps b). \<forall>d \<in> set ds. contains_key (rb_core b) d)"

inductive registered :: "registry_builder \<Rightarrow> bool" where
  start: "registered empty_builder"
| core: "registered b \<Longrightarrow> registered (register_core_with_meta b n ds m)"
| rest: "registered b \<Longrightarrow> registered (register_rest_with_meta b n m)"
| rest_host: "registered b \<Longrightarrow> registered (register_rest_host_with_meta b n m)"
| db: "registered b \<Longrightarrow> registered (register_db_with_meta b n m)"
| stateful: "registered b \<Longrightarrow> registered (register_stateful_with_meta b n m)"
| system: "registered b \<Longrightarrow> registered (register_system_with_meta b n)"
| grpc_hub: "registered b \<Longrightarrow> registered (register_grpc_hub_with_meta b n m)"
| grpc_service: "registered b \<Longrightarrow> registered (register_grpc_service_with_meta b n m)"

lemmas register_defs = register_core_with_meta_def register_rest_with_meta_def
  register_rest_host_with_meta_def register_db_with_meta_def register_stateful_with_meta_def
  register_system_with_meta_def register_grpc_hub_with_meta_def register_grpc_service_with_meta_def

lemma contains_key_iff: "contains_key m k \<longleftrightarrow> k \<in> fst ` set m"
  by (simp add: contains_key_def map_of_eq_None_iff)

lemma registered_wf: "registered b \<Longrightarrow> wf_builder b"
proof (induction rule: registered.induct)
  case start
  show ?case by (simp add: wf_builder_def empty_builder_def)
next
  case (core b n ds m)
  then show ?case
    by (auto simp: wf_builder_def register_core_with_meta_def dom_update distinct_update)
qed (auto simp: wf_builder_def register_defs split: option.splits)

lemma index_map_iff:
  "distinct names \<Longrightarrow> index_map i names x = Some k \<longleftrightarrow> i \<le> k \<and> k < i + length names \<and> names ! (k - i) = x"
proof (induction names arbitrary: i x k)
  case (Cons n ns)
  have "index_map (Suc i) ns n \<noteq> Some a" for a
    using Cons.prems nth_mem[of "a - Suc i" ns] by (auto simp: Cons.IH)
  then have none: "index_map (Suc i) ns n = None" by (cases "index_map (Suc i) ns n") auto
  have "Suc i \<le> k \<Longrightarrow> (n # ns) ! (k - i) = ns ! (k - Suc i)" by (simp add: nth_Cons' Suc_diff_Suc)
  with none Cons show ?case by (auto simp: nth_Cons' Suc_le_eq split: if_splits)
qed auto

lemma add_deps_spec:
  "add_deps idx n u ds adj = Ok adj' \<Longrightarrow> \<forall>d v. idx d = Some v \<longrightarrow> v < length adj \<Longrightarrow>
   length adj' = length adj \<and> (\<forall>d \<in> set ds. idx d \<noteq> None) \<and>
   (\<forall>v < length adj. set (adj' ! v) = set (adj ! v) \<union> (if \<exists>d \<in> set ds. idx d = Some v then {u} else {}))"
proof (induction ds arbitrary: adj)
  case (Cons d ds)
  then obtain v where v: "idx d = Some v" "add_deps idx n u ds (adj[v := adj ! v @ [u]]) = Ok adj'"
    by (auto split: option.splits)
  let ?adj = "adj[v := adj ! v @ [u]]"
  from Cons.prems(2) have rng: "\<forall>d v. idx d = Some v \<longrightarrow> v < length ?adj" by simp
  note IH = Cons.IH[OF v(2) rng]
  have "set (adj' ! w) = set (adj ! w) \<union> (if \<exists>d \<in> set (d # ds). idx d = Some w then {u} else {})"
    if "w < length adj" for w
    using IH that v(1) by (cases "w = v") auto
  with IH v(1) show ?case by simp
qed auto

lemma add_deps_Ok: "\<forall>d \<in> set ds. idx d \<noteq> None \<Longrightarrow> \<exists>adj'. add_deps idx n u ds adj = Ok adj'"
  by (induction ds arbitrary: adj) auto

lemma add_all_deps_spec:
  "add_all_deps idx deps adj = Ok adj' \<Longrightarrow> \<forall>d v. idx d = Some v \<longrightarrow> v < length adj \<Longrightarrow>
   length adj' = length adj \<and> (\<forall>(n, ds) \<in> set deps. \<forall>d \<in> set ds. idx d \<noteq> None) \<and>
   (\<forall>v < length adj. set (adj' ! v) =
      set (adj ! v) \<union> {u. \<exists>n ds d. (n, ds) \<in> set deps \<and> idx n = Some u \<and> d \<in> set ds \<and> idx d = Some v})"
proof (induction deps arbitrary: adj)
  case (Cons p rest)
  obtain n ds where p: "p = (n, ds)" by (cases p)
  with Cons.prems obtain u adj1 where u: "idx n = Some u" "add_deps idx n u ds adj = Ok adj1"
    "add_all_deps idx rest adj1 = Ok adj'" by (auto split: option.splits result.splits)
  note s1 = add_deps_spec[OF u(2) Cons.prems(2)]
  from s1 Cons.prems(2) have "\<forall>d v. idx d = Some v \<longrightarrow> v < length adj1" by simp
  note s2 = Cons.IH[OF u(3) this]
  have "set (adj' ! v) = set (adj ! v) \<union>
      {u. \<exists>n ds d. (n, ds) \<in> set (p # rest) \<and> idx n = Some u \<and> d \<in> set ds \<and> idx d = Some v}"
    if "v < length adj" for v
    using s1 s2 that p u(1) by (auto split: if_splits)
  with s1 s2 p show ?case by auto
qed auto

lemma add_all_deps_Ok:
  "\<forall>(n, ds) \<in> set deps. idx n \<noteq> None \<and> (\<forall>d \<in> set ds. idx d \<noteq> None) \<Longrightarrow>
   \<exists>adj'. add_all_deps idx deps adj = Ok adj'"
proof (induction deps arbitrary: adj)
  case (Cons p rest)
  obtain n ds where p: "p = (n, ds)" by (cases p)
  with Cons.prems obtain u where u: "idx n = Some u" by auto
  from Cons.prems p add_deps_Ok[of ds idx n u adj] obtain adj1 where "add_deps idx n u ds adj = Ok adj1"
    by auto
  with Cons u p show ?case by auto
qed auto

lemma build_graph_spec:
  assumes wf: "wf_builder b" and ok: "build_dependency_graph b = Ok (names, adj, idx)"
  shows "names = map fst (rb_core b)" and "wf_graph (length names) adj" and "deps_known b"
    and "v < length names \<Longrightarrow> w < length names \<Longrightarrow>
      w \<in> set (adj ! v) \<longleftrightarrow> (names ! v, names ! w) \<in> dep_rel b"
proof -
  from ok have n: "names = map fst (rb_core b)" and idx: "idx = index_map 0 names"
    and add: "add_all_deps idx (rb_deps b) (replicate (length names) []) = Ok adj"
    by (auto simp: build_dependency_graph_def Let_def split: result.splits)
  have d: "distinct names" using wf n by (simp add: wf_builder_def)
  have iff: "\<And>x k. idx x = Some k \<longleftrightarrow> k < length names \<and> names ! k = x"
    using index_map_iff[OF d, of 0] idx by auto
  have some: "\<And>x. idx x \<noteq> None \<longleftrightarrow> x \<in> set names" using iff by (auto simp: in_set_conv_nth)
  have rng: "\<forall>d v. idx d = Some v \<longrightarrow> v < length (replicate (length names) ([]::nat list))"
    using iff by auto
  note sp = add_all_deps_spec[OF add rng]
  have edge: "set (adj ! v) = {u. \<exists>n ds d. (n, ds) \<in> set (rb_deps b) \<and> idx n = Some u \<and> d \<in> set ds \<and> idx d = Some v}"
    if "v < length names" for v using sp that by auto
  show "names = map fst (rb_core b)" by (fact n)
  show "wf_graph (length names) adj" using sp edge iff by (auto simp: wf_graph_def)
  show "deps_known b" using sp some n by (auto simp: deps_known_def contains_key_iff)
  show "w \<in> set (adj ! v) \<longleftrightarrow> (names ! v, names ! w) \<in> dep_rel b"
    if "v < length names" "w < length names"
    using edge[OF that(1)] iff that by (auto simp: dep_rel_def)
qed

lemma build_graph_ok:
  assumes wf: "wf_builder b" and "deps_known b"
  shows "\<exists>names adj idx. build_dependency_graph b = Ok (names, adj, idx)"
proof -
  let ?names = "map fst (rb_core b)"
  have d: "distinct ?names" using wf by (simp add: wf_builder_def)
  have "\<And>x. index_map 0 ?names x \<noteq> None \<longleftrightarrow> x \<in> set ?names"
    using index_map_iff[OF d, of 0] by (fastforce simp: in_set_conv_nth)
  moreover have "fst ` set (rb_deps b) = set ?names" using wf by (auto simp: wf_builder_def)
  ultimately have "\<forall>(n, ds) \<in> set (rb_deps b). index_map 0 ?names n \<noteq> None \<and>
      (\<forall>d \<in> set ds. index_map 0 ?names d \<noteq> None)"
    using assms(2) by (force simp: deps_known_def contains_key_iff)
  from add_all_deps_Ok[OF this, of "replicate (length ?names) []"] show ?thesis
    by (auto simp: build_dependency_graph_def Let_def)
qed

lemma successively_trancl:
  "successively (\<lambda>x y. (x, y) \<in> r) (x # ys) \<Longrightarrow> ys \<noteq> [] \<Longrightarrow> (x, last ys) \<in> r\<^sup>+"
proof (induction ys arbitrary: x)
  case (Cons y ys)
  show ?case
  proof (cases "ys = []")
    case False
    with Cons have "(y, last ys) \<in> r\<^sup>+" by simp
    with Cons.prems False show ?thesis by (auto intro: trancl_into_trancl2)
  qed (use Cons.prems in auto)
qed simp

text \<open>A closed dependency path: every module on it is a dependency of the next one.\<close>

definition dep_cycle :: "registry_builder \<Rightarrow> string list \<Rightarrow> bool" where
  "dep_cycle b path \<longleftrightarrow> 2 \<le> length path \<and> hd path = last path \<and>
     successively (\<lambda>d n. (d, n) \<in> dep_rel b) path"

lemma dep_cycle_not_acyclic:
  assumes "dep_cycle b path"
  shows "\<not> acyclic (dep_rel b)"
proof -
  from assms obtain x y ys where p: "path = x # y # ys"
    by (cases path; cases "tl path") (auto simp: dep_cycle_def)
  with assms have "(x, last (y # ys)) \<in> (dep_rel b)\<^sup>+"
    by (intro successively_trancl) (auto simp: dep_cycle_def)
  moreover have "last (y # ys) = x" using assms p by (simp add: dep_cycle_def)
  ultimately show ?thesis by (auto simp: acyclic_def)
qed

lemma is_cycle_dep_cycle:
  assumes wf: "wf_builder b" and g: "build_dependency_graph b = Ok (names, adj, idx)"
    and cyc: "is_cycle (length names) adj ns"
  shows "dep_cycle b (map (\<lambda>i. names ! i) (ns @ [hd ns]))"
proof -
  have "ns \<noteq> []" "set ns \<subseteq> {..<length names}" using cyc by (auto simp: is_cycle_def)
  then have "hd ns < length names" by (metis hd_in_set lessThan_iff subsetD)
  with cyc have ns: "ns \<noteq> []" "set (ns @ [hd ns]) \<subseteq> {..<length names}" "walk adj (ns @ [hd ns])"
    by (auto simp: is_cycle_def)
  have "successively (\<lambda>u w. (names ! u, names ! w) \<in> dep_rel b) (ns @ [hd ns])"
  proof (rule successively_mono[OF ns(3)[unfolded walk_def]])
    fix u w assume "u \<in> set (ns @ [hd ns])" "w \<in> set (ns @ [hd ns])" "w \<in> set (adj ! u)"
    with ns(2) build_graph_spec(4)[OF wf g, of u w] show "(names ! u, names ! w) \<in> dep_rel b" by auto
  qed
  then show ?thesis using ns(1) unfolding dep_cycle_def successively_map
    by (auto simp: hd_map hd_append Suc_le_eq)
qed

lemma ranked_acyclic:
  assumes wf: "wf_builder b" and g: "build_dependency_graph b = Ok (names, adj, idx)"
    and rk: "ranked adj B" "{..<length names} \<subseteq> B"
  shows "acyclic (dep_rel b)"
proof -
  from rk obtain f :: "nat \<Rightarrow> nat" where f: "\<forall>v < length names. \<forall>w \<in> set (adj ! v). f w < f v"
    unfolding ranked_def by (meson lessThan_iff subsetD)
  note sp = build_graph_spec[OF wf g]
  define pos where "pos x = the (find_pos x names)" for x
  have pos: "pos x < length names \<and> names ! pos x = x" if "x \<in> set names" for x
    using find_pos_mem[OF that] find_pos_Some[of x names] by (auto simp: pos_def)
  have "(dep_rel b)\<inverse> \<subseteq> measure (f \<circ> pos)"
  proof
    fix e assume "e \<in> (dep_rel b)\<inverse>"
    then obtain d n where e: "e = (n, d)" "(d, n) \<in> dep_rel b" by (cases e) auto
    then have "d \<in> set names" "n \<in> set names"
      using sp(1,3) wf by (force simp: dep_rel_def deps_known_def contains_key_iff wf_builder_def)+
    note p = pos[OF this(1)] pos[OF this(2)]
    then have "pos n \<in> set (adj ! pos d)" using sp(4)[of "pos d" "pos n"] e(2) by simp
    with f p show "e \<in> measure (f \<circ> pos)" by (simp add: e(1))
  qed
  then have "wf ((dep_rel b)\<inverse>)" by (rule wf_subset[OF wf_measure])
  from wf_acyclic[OF this] show ?thesis by (simp add: acyclic_converse)
qed

lemma assemble_entries_ok:
  assumes wf: "wf_builder b" and "set order \<subseteq> {..<length names}" "names = map fst (rb_core b)"
  shows "\<exists>es. assemble_entries b order names = Ok es \<and> map me_name es = map (\<lambda>i. names ! i) order \<and>
    (\<forall>e \<in> set es. map_of (rb_deps b) (me_name e) = Some (me_deps e))"
  using assms(2)
proof (induction order)
  case Nil
  then show ?case by (simp add: assemble_entries_def)
next
  case (Cons i order)
  have "names ! i \<in> set names" using Cons.prems by simp
  then have "names ! i \<in> fst ` set (rb_core b)" "names ! i \<in> fst ` set (rb_deps b)"
    using wf assms(3) by (auto simp: wf_builder_def)
  then obtain ds m where "map_of (rb_deps b) (names ! i) = Some ds" "map_of (rb_core b) (names ! i) = Some m"
    by (metis map_of_eq_None_iff not_None_eq)
  with Cons show ?case by (auto simp: assemble_entries_def assemble_entry_def)
qed

text \<open>Dependencies first: the contract of the module order.\<close>

definition deps_first :: "module_entry list \<Rightarrow> bool" where
  "deps_first es \<longleftrightarrow> (\<forall>xs e ys. es = xs @ e # ys \<longrightarrow> set (me_deps e) \<subseteq> me_name ` set xs)"

lemma topo_deps_first:
  assumes wf: "wf_builder b" and g: "build_dependency_graph b = Ok (names, adj, idx)"
    and topo: "topo_order (length names) adj order" and ord: "set order \<subseteq> {..<length names}"
    and es: "map me_name es = map (\<lambda>i. names ! i) order"
      "\<forall>e \<in> set es. map_of (rb_deps b) (me_name e) = Some (me_deps e)"
  shows "deps_first es"
  unfolding deps_first_def
proof (intro allI impI subsetI)
  fix xs e ys d assume e: "es = xs @ e # ys" and d: "d \<in> set (me_deps e)"
  note sp = build_graph_spec[OF wf g]
  from es(1) e obtain os w ps where o: "order = os @ w # ps" "map me_name xs = map (\<lambda>i. names ! i) os"
    "me_name e = names ! w" by (auto simp: map_eq_append_conv map_eq_Cons_conv append_eq_map_conv Cons_eq_map_conv)
  have dr: "(d, names ! w) \<in> dep_rel b"
    using es(2) e o(3) d by (auto simp: dep_rel_def dest: map_of_SomeD)
  then have "d \<in> set names" using sp(1,3) by (auto simp: dep_rel_def deps_known_def contains_key_iff)
  then obtain u where u: "u < length names" "names ! u = d" by (auto simp: in_set_conv_nth)
  with dr sp(4)[of u w] ord o(1) have "w \<in> set (adj ! u)" by simp
  with topo u o(1) have "u \<in> set os" by (auto simp: topo_order_def)
  then have "d \<in> set (map me_name xs)" unfolding o(2) using u by auto
  then show "d \<in> me_name ` set xs" by simp
qed

lemma build_acyclic_ok:
  assumes wf: "wf_builder b" and v: "validate_capabilities b = Ok ()"
    and g: "build_dependency_graph b = Ok (names, adj, idx)" and c: "detect_cycle_with_path names adj = Some None"
  shows "acyclic (dep_rel b) \<and> (\<exists>reg. build_topo_sorted b = Some (Ok reg) \<and> deps_first (mr_modules reg) \<and>
    distinct (map me_name (mr_modules reg)) \<and> me_name ` set (mr_modules reg) = fst ` set (rb_core b))"
proof -
  note sp = build_graph_spec[OF wf g]
  from detect_cycle_total[OF sp(2)] c obtain B where B: "ranked adj B" "{..<length names} \<subseteq> B" by auto
  from kahn_complete[OF sp(2) B] obtain order where
    k: "kahn (length names) adj = Some order" "distinct order" "set order = {..<length names}"
      "topo_order (length names) adj order" by auto
  from assemble_entries_ok[OF wf _ sp(1), of order] k(3) obtain es where
    a: "assemble_entries b order names = Ok es" "map me_name es = map (\<lambda>i. names ! i) order"
      "\<forall>e \<in> set es. map_of (rb_deps b) (me_name e) = Some (me_deps e)" by auto
  have dn: "distinct names" using wf sp(1) by (simp add: wf_builder_def)
  have "distinct (map me_name es)"
    unfolding a(2) using k(2,3) dn by (auto simp: distinct_map inj_on_def nth_eq_iff_index_eq)
  moreover have "set (map me_name es) = set names"
    unfolding a(2) set_map k(3) lessThan_atLeast0 by (simp add: nth_image)
  moreover have "deps_first es" using topo_deps_first[OF wf g k(4) _ a(2,3)] k(3) by simp
  moreover have "build_topo_sorted b = Some (Ok \<lparr>mr_modules = es,
      mr_grpc_hub = map_option fst (rb_grpc_hub b), mr_grpc_services = rb_grpc_services b\<rparr>)"
    using k(1) v g c a(1) by (simp add: build_topo_sorted_def)
  moreover have "set names = fst ` set (rb_core b)" unfolding sp(1) by simp
  ultimately show ?thesis using ranked_acyclic[OF wf g B] by simp
qed

lemma check_keys_Err: "check_keys core ns = Err e \<Longrightarrow> \<exists>n. e = UnknownModule n"
  by (induction ns) (auto split: if_splits)

lemma check_opt_Err: "check_opt core h = Err e \<Longrightarrow> \<exists>n. e = UnknownModule n"
  by (auto simp: check_opt_def split: option.splits if_splits)

lemma validate_no_cycle: "validate_capabilities b \<noteq> Err (CycleDetected p)"
  by (auto simp: validate_capabilities_def res_simps split: if_splits dest!: check_keys_Err check_opt_Err)

lemma add_deps_Err: "add_deps idx n u ds adj = Err e \<Longrightarrow> \<exists>d. e = UnknownDependency n d"
  by (induction ds arbitrary: adj) (auto split: option.splits)

lemma add_all_deps_Err:
  "add_all_deps idx deps adj = Err e \<Longrightarrow> (\<exists>n. e = UnknownModule n) \<or> (\<exists>n d. e = UnknownDependency n d)"
  by (induction deps arbitrary: adj) (auto split: option.splits result.splits dest!: add_deps_Err)

lemma build_graph_no_cycle: "build_dependency_graph b \<noteq> Err (CycleDetected p)"
  by (auto simp: build_dependency_graph_def Let_def split: result.splits dest!: add_all_deps_Err)

lemma assemble_no_cycle: "assemble_entries b order names \<noteq> Err (CycleDetected p)"
  by (auto simp: assemble_entries_def assemble_entry_def split: option.splits dest!: collect_Err_in)

lemma build_sorted:
  assumes "registered b" and "build_topo_sorted b = Some (Ok reg)"
  shows "deps_first (mr_modules reg) \<and> distinct (map me_name (mr_modules reg)) \<and>
    me_name ` set (mr_modules reg) = fst ` set (rb_core b)"
proof -
  from registered_wf[OF assms(1)] have wf: "wf_builder b" .
  from assms(2) obtain names adj idx where v: "validate_capabilities b = Ok ()"
    and g: "build_dependency_graph b = Ok (names, adj, idx)"
    and c: "detect_cycle_with_path names adj = Some None"
    by (auto simp: build_topo_sorted_def split: result.splits option.splits)
  from build_acyclic_ok[OF wf v g c] assms(2) show ?thesis by auto
qed

lemma build_ok:
  assumes "registered b"
  shows "(\<exists>r. build_topo_sorted b = Some r) \<and>
    ((\<exists>reg. build_topo_sorted b = Some (Ok reg)) \<longleftrightarrow>
     validate_capabilities b = Ok () \<and> deps_known b \<and> acyclic (dep_rel b))"
proof (cases "validate_capabilities b")
  case (Err e)
  then show ?thesis by (simp add: build_topo_sorted_def)
next
  case v: (Ok u)
  from registered_wf[OF assms] have wf: "wf_builder b" .
  show ?thesis
  proof (cases "deps_known b")
    case False
    then obtain e where "build_dependency_graph b = Err e"
      using build_graph_spec(3)[OF wf] by (cases "build_dependency_graph b") auto
    with v False show ?thesis by (simp add: build_topo_sorted_def)
  next
    case True
    from build_graph_ok[OF wf this] obtain names adj idx where
      g: "build_dependency_graph b = Ok (names, adj, idx)" by auto
    from detect_cycle_total[OF build_graph_spec(2)[OF wf g]] obtain r where
      c: "detect_cycle_with_path names adj = Some r" "\<forall>cyc. r = Some cyc \<longrightarrow>
        (\<exists>ns. is_cycle (length names) adj ns)" by (force split: option.splits)
    show ?thesis
    proof (cases r)
      case None
      with build_acyclic_ok[OF wf _ g] v c(1) True show ?thesis by auto
    next
      case (Some cyc)
      with c(2) is_cycle_dep_cycle[OF wf g] dep_cycle_not_acyclic have "\<not> acyclic (dep_rel b)" by blast
      with Some c(1) v g show ?thesis by (simp add: build_topo_sorted_def)
    qed
  qed
qed

section \<open>Properties\<close>

text \<open>C4. A successful build lists every registered module exactly once, each after all of its
  dependencies.\<close>

theorem build_topo_order:
  assumes "registered b" and "build_topo_sorted b = Some (Ok reg)"
  shows "deps_first (mr_modules reg) \<and> distinct (map me_name (mr_modules reg)) \<and>
    me_name ` set (mr_modules reg) = fst ` set (rb_core b)"
  by (rule build_sorted[OF assms])

text \<open>C27. A reported cycle is a real one: the path is closed and every module on it is a registered
  dependency of the next.\<close>

theorem build_cycle_sound:
  assumes "registered b" and "build_topo_sorted b = Some (Err (CycleDetected path))"
  shows "dep_cycle b path"
proof -
  from registered_wf[OF assms(1)] have wf: "wf_builder b" .
  from assms(2) validate_no_cycle build_graph_no_cycle assemble_no_cycle obtain names adj idx where
    g: "build_dependency_graph b = Ok (names, adj, idx)"
    and c: "detect_cycle_with_path names adj = Some (Some path)"
    by (fastforce simp: build_topo_sorted_def split: result.splits option.splits)
  from detect_cycle_total[OF build_graph_spec(2)[OF wf g]] c obtain ns where
    "is_cycle (length names) adj ns" "path = map (\<lambda>i. names ! i) (ns @ [hd ns])" by auto
  with is_cycle_dep_cycle[OF wf g] show ?thesis by blast
qed

text \<open>C11. The build never panics, and it succeeds exactly when every capability names a registered
  module and there are no registration errors, every dependency is registered, and the dependency
  relation is acyclic.\<close>

theorem build_ok_iff:
  assumes "registered b"
  shows "(\<exists>r. build_topo_sorted b = Some r) \<and>
    ((\<exists>reg. build_topo_sorted b = Some (Ok reg)) \<longleftrightarrow>
     validate_capabilities b = Ok () \<and> deps_known b \<and> acyclic (dep_rel b))"
  by (rule build_ok[OF assms])

text \<open>The system-priority view is a stable partition: the system modules in build order, then the
  others in build order.\<close>

theorem system_priority_partition:
  "modules_by_system_priority r =
     filter me_is_system (mr_modules r) @ filter (\<lambda>e. \<not> me_is_system e) (mr_modules r)"
proof -
  have "fold (\<lambda>entry (s, n). if me_is_system entry then (s @ [entry], n) else (s, n @ [entry])) es (s, n) =
      (s @ filter me_is_system es, n @ filter (\<lambda>e. \<not> me_is_system e) es)" for es s and n :: "module_entry list"
    by (induction es arbitrary: s n) auto
  then show ?thesis by (simp add: modules_by_system_priority_def)
qed

section \<open>Witnesses\<close>

definition demo_builder :: registry_builder where
  "demo_builder =
     register_core_with_meta (register_core_with_meta empty_builder ''api'' [''db''] 1) ''db'' [] 2"

definition demo_cyclic_builder :: registry_builder where
  "demo_cyclic_builder =
     register_core_with_meta (register_core_with_meta empty_builder ''a'' [''b''] 1) ''b'' [''a''] 2"

lemma demo_registered: "registered demo_builder" "registered demo_cyclic_builder"
  unfolding demo_builder_def demo_cyclic_builder_def by (intro registered.intros)+

theorem build_topo_order_witness:
  "\<exists>reg. build_topo_sorted demo_builder = Some (Ok reg) \<and>
     map me_name (mr_modules reg) = [''db'', ''api''] \<and> deps_first (mr_modules reg)"
proof -
  have "case build_topo_sorted demo_builder of
      Some (Ok reg) \<Rightarrow> map me_name (mr_modules reg) = [''db'', ''api''] | _ \<Rightarrow> False"
    by code_simp
  then obtain reg where "build_topo_sorted demo_builder = Some (Ok reg)"
    "map me_name (mr_modules reg) = [''db'', ''api'']" by (auto split: option.splits result.splits)
  with build_topo_order[OF demo_registered(1), of reg] show ?thesis by (intro exI[of _ reg]) simp
qed

theorem build_cycle_sound_witness:
  "build_topo_sorted demo_cyclic_builder = Some (Err (CycleDetected [''a'', ''b'', ''a''])) \<and>
   dep_cycle demo_cyclic_builder [''a'', ''b'', ''a'']"
proof -
  have "build_topo_sorted demo_cyclic_builder = Some (Err (CycleDetected [''a'', ''b'', ''a'']))"
    by code_simp
  with build_cycle_sound[OF demo_registered(2)] show ?thesis by blast
qed

theorem build_ok_iff_witness:
  "registered demo_builder \<and> acyclic (dep_rel demo_builder) \<and>
   \<not> acyclic (dep_rel demo_cyclic_builder)"
proof -
  have "case build_topo_sorted demo_builder of Some (Ok reg) \<Rightarrow> True | _ \<Rightarrow> False" by code_simp
  then have "\<exists>reg. build_topo_sorted demo_builder = Some (Ok reg)"
    by (auto split: option.splits result.splits)
  moreover have "build_topo_sorted demo_cyclic_builder = Some (Err (CycleDetected [''a'', ''b'', ''a'']))"
    "validate_capabilities demo_cyclic_builder = Ok ()" "deps_known demo_cyclic_builder"
    by code_simp+
  ultimately show ?thesis
    using build_ok_iff[OF demo_registered(1)] build_ok_iff[OF demo_registered(2)] demo_registered by auto
qed

end
