(* ===== verification/Lifecycle.thy ===== *)
theory Lifecycle
  imports Prelude "HOL-Library.Word"
begin

text \<open>
  The lifecycle controller of \<open>libs/modkit/src/lifecycle.rs\<close> as a machine of interleaved steps.

  The world holds the shared cells of \<open>Lifecycle\<close> (the atomics and the two mutexes), the spawned
  tasks with their ready watchers, the cancelled tokens, and the calls in flight. A call is a thread
  with a program counter; one step is one access to a shared cell, in the order of the source, so that
  calls, tasks and watchers interleave as they may at run time. Every event is executable
  (\<open>exec\<close>, None when it is not enabled); \<open>run\<close> executes a schedule.

  Tokens are numbers, a join handle is the index of its task. Logging is not modelled.
\<close>

type_synonym u8 = "8 word"

section \<open>Status\<close>

datatype status = Stopped | Starting | Running | Stopping

fun as_u8 :: "status \<Rightarrow> u8" where
  "as_u8 Stopped = 0"
| "as_u8 Starting = 1"
| "as_u8 Running = 2"
| "as_u8 Stopping = 3"

definition from_u8 :: "u8 \<Rightarrow> status" where
  "from_u8 x = (if x = 1 then Starting else if x = 2 then Running else if x = 3 then Stopping else Stopped)"

datatype stop_reason = Finished | Cancelled | Timeout

section \<open>The world\<close>

text \<open>The program counter of a spawned task: in the user's future, then the three stores at its end.
  \<open>T_Panicked\<close> and \<open>T_Aborted\<close> end the task without them.\<close>

datatype task_pc = T_Run | T_StoreFinished | T_NotifyWaiters | T_StoreStopped | T_Done | T_Aborted | T_Panicked

text \<open>The readiness channel and its watcher task (\<open>ready_rx.await\<close>).\<close>

datatype ready_state = R_None | R_Waiting | R_Sent | R_Dropped | R_Handled

record task =
  tk_token :: nat
  tk_pc :: task_pc
  tk_ready :: ready_state
  tk_abort :: bool

datatype start_pc =
    A_Cas | A_ClearFinished | A_ClearCancelled | A_StoreToken | A_Mode | A_Spawn
  | A_StoreHandle nat | A_Ok | A_AlreadyStarted

datatype stop_pc =
    B_Load | B_StoreStopping | B_TakeToken | B_MarkCancelled nat | B_CancelToken nat
  | B_CheckFinished | B_Register | B_Wait bool | B_ReadCancelled
  | B_TakeHandle stop_reason | B_Abort stop_reason nat | B_Join stop_reason nat
  | B_StoreFinished stop_reason | B_NotifyWaiters stop_reason | B_StoreStopped stop_reason
  | B_Return stop_reason

datatype wait_pc = W_CheckFinished | W_Register | W_Wait bool | W_Return

datatype thread =
    Starter start_pc nat bool
  | Stopper stop_pc
  | Waiter wait_pc

record world =
  w_status :: u8
  w_handle :: "nat option"
  w_cancel :: "nat option"
  w_finished :: bool
  w_was_cancelled :: bool
  w_cancelled_tokens :: "nat list"
  w_tasks :: "task list"
  w_threads :: "thread list"

definition new_lifecycle :: "thread list \<Rightarrow> world" where
  "new_lifecycle ths = \<lparr>w_status = as_u8 Stopped, w_handle = None, w_cancel = None,
     w_finished = False, w_was_cancelled = False, w_cancelled_tokens = [], w_tasks = [],
     w_threads = ths\<rparr>"

definition load_status :: "world \<Rightarrow> status" where
  "load_status w = from_u8 (w_status w)"

definition store_status :: "status \<Rightarrow> world \<Rightarrow> world" where
  "store_status s w = w\<lparr>w_status := as_u8 s\<rparr>"

definition is_running :: "world \<Rightarrow> bool" where
  "is_running w \<longleftrightarrow> load_status w \<in> {Starting, Running}"

text \<open>\<open>Notify::notify_waiters\<close> wakes the registered waiters and stores no permit.\<close>

fun wake :: "thread \<Rightarrow> thread" where
  "wake (Stopper (B_Wait _)) = Stopper (B_Wait True)"
| "wake (Waiter (W_Wait _)) = Waiter (W_Wait True)"
| "wake t = t"

definition notify_waiters :: "world \<Rightarrow> world" where
  "notify_waiters w = w\<lparr>w_threads := map wake (w_threads w)\<rparr>"

definition set_thread :: "nat \<Rightarrow> thread \<Rightarrow> world \<Rightarrow> world" where
  "set_thread i t w = w\<lparr>w_threads := (w_threads w)[i := t]\<rparr>"

definition upd_task :: "nat \<Rightarrow> (task \<Rightarrow> task) \<Rightarrow> world \<Rightarrow> world" where
  "upd_task k f w = w\<lparr>w_tasks := (w_tasks w)[k := f (w_tasks w ! k)]\<rparr>"

definition task_ended :: "task \<Rightarrow> bool" where
  "task_ended t \<longleftrightarrow> tk_pc t \<in> {T_Done, T_Aborted, T_Panicked}"

section \<open>The steps of start, stop and wait\<close>

text \<open>\<open>start_core\<close>, one shared access per step. In ready mode the watcher is created with the task:
  its channel has no sender outside \<open>start_core\<close> before.\<close>

fun start_core_step :: "nat \<Rightarrow> nat \<Rightarrow> bool \<Rightarrow> start_pc \<Rightarrow> world \<Rightarrow> world option" where
  "start_core_step i tok ready A_Cas w =
     (if w_status w = as_u8 Stopped
      then Some (set_thread i (Starter A_ClearFinished tok ready) (store_status Starting w))
      else Some (set_thread i (Starter A_AlreadyStarted tok ready) w))"
| "start_core_step i tok ready A_ClearFinished w =
     Some (set_thread i (Starter A_ClearCancelled tok ready) (w\<lparr>w_finished := False\<rparr>))"
| "start_core_step i tok ready A_ClearCancelled w =
     Some (set_thread i (Starter A_StoreToken tok ready) (w\<lparr>w_was_cancelled := False\<rparr>))"
| "start_core_step i tok ready A_StoreToken w =
     Some (set_thread i (Starter A_Mode tok ready) (w\<lparr>w_cancel := Some tok\<rparr>))"
| "start_core_step i tok ready A_Mode w =
     Some (set_thread i (Starter A_Spawn tok ready) (if ready then w else store_status Running w))"
| "start_core_step i tok ready A_Spawn w =
     Some (set_thread i (Starter (A_StoreHandle (length (w_tasks w))) tok ready)
       (w\<lparr>w_tasks := w_tasks w @
          [\<lparr>tk_token = tok, tk_pc = T_Run, tk_ready = (if ready then R_Waiting else R_None),
            tk_abort = False\<rparr>]\<rparr>))"
| "start_core_step i tok ready (A_StoreHandle h) w =
     Some (set_thread i (Starter A_Ok tok ready) (w\<lparr>w_handle := Some h\<rparr>))"
| "start_core_step i tok ready A_Ok w = None"
| "start_core_step i tok ready A_AlreadyStarted w = None"

fun stop_step :: "nat \<Rightarrow> stop_pc \<Rightarrow> world \<Rightarrow> world option" where
  "stop_step i B_Load w =
     (if load_status w \<in> {Starting, Running, Stopping} then Some (set_thread i (Stopper B_StoreStopping) w)
      else Some (set_thread i (Stopper (B_Return Finished)) w))"
| "stop_step i B_StoreStopping w =
     Some (set_thread i (Stopper B_TakeToken) (store_status Stopping w))"
| "stop_step i B_TakeToken w =
     (case w_cancel w of
        Some tok \<Rightarrow> Some (set_thread i (Stopper (B_MarkCancelled tok)) (w\<lparr>w_cancel := None\<rparr>))
      | None \<Rightarrow> Some (set_thread i (Stopper B_CheckFinished) w))"
| "stop_step i (B_MarkCancelled tok) w =
     Some (set_thread i (Stopper (B_CancelToken tok)) (w\<lparr>w_was_cancelled := True\<rparr>))"
| "stop_step i (B_CancelToken tok) w =
     Some (set_thread i (Stopper B_CheckFinished)
       (w\<lparr>w_cancelled_tokens := tok # w_cancelled_tokens w\<rparr>))"
| "stop_step i B_CheckFinished w =
     (if w_finished w then Some (set_thread i (Stopper B_ReadCancelled) w)
      else Some (set_thread i (Stopper B_Register) w))"
| "stop_step i B_Register w = Some (set_thread i (Stopper (B_Wait False)) w)"
| "stop_step i (B_Wait notified) w =
     (if notified then Some (set_thread i (Stopper B_ReadCancelled) w) else None)"
| "stop_step i B_ReadCancelled w =
     Some (set_thread i (Stopper (B_TakeHandle (if w_was_cancelled w then Cancelled else Finished))) w)"
| "stop_step i (B_TakeHandle r) w =
     (case w_handle w of
        Some h \<Rightarrow> Some (set_thread i (Stopper (B_Abort r h)) (w\<lparr>w_handle := None\<rparr>))
      | None \<Rightarrow> Some (set_thread i (Stopper (B_StoreStopped r)) w))"
| "stop_step i (B_Abort r h) w =
     (if h < length (w_tasks w) then
        Some (set_thread i (Stopper (B_Join r h))
          (if r = Timeout \<and> \<not> task_ended (w_tasks w ! h)
           then upd_task h (\<lambda>t. t\<lparr>tk_abort := True\<rparr>) w else w))
      else None)"
| "stop_step i (B_Join r h) w =
     (if h < length (w_tasks w) \<and> task_ended (w_tasks w ! h)
      then Some (set_thread i (Stopper (B_StoreFinished r)) w) else None)"
| "stop_step i (B_StoreFinished r) w =
     Some (set_thread i (Stopper (B_NotifyWaiters r)) (w\<lparr>w_finished := True\<rparr>))"
| "stop_step i (B_NotifyWaiters r) w =
     Some (set_thread i (Stopper (B_StoreStopped r)) (notify_waiters w))"
| "stop_step i (B_StoreStopped r) w =
     Some (set_thread i (Stopper (B_Return r)) (store_status Stopped w))"
| "stop_step i (B_Return r) w = None"

text \<open>The \<open>sleep(timeout)\<close> branch of the \<open>select!\<close> may win while the other branch is pending.\<close>

fun stop_timeout :: "nat \<Rightarrow> stop_pc \<Rightarrow> world \<Rightarrow> world option" where
  "stop_timeout i B_CheckFinished w = Some (set_thread i (Stopper (B_TakeHandle Timeout)) w)"
| "stop_timeout i B_Register w = Some (set_thread i (Stopper (B_TakeHandle Timeout)) w)"
| "stop_timeout i (B_Wait n) w = Some (set_thread i (Stopper (B_TakeHandle Timeout)) w)"
| "stop_timeout i pc w = None"

fun wait_stopped_step :: "nat \<Rightarrow> wait_pc \<Rightarrow> world \<Rightarrow> world option" where
  "wait_stopped_step i W_CheckFinished w =
     (if w_finished w then Some (set_thread i (Waiter W_Return) w)
      else Some (set_thread i (Waiter W_Register) w))"
| "wait_stopped_step i W_Register w = Some (set_thread i (Waiter (W_Wait False)) w)"
| "wait_stopped_step i (W_Wait notified) w =
     (if notified then Some (set_thread i (Waiter W_Return) w) else None)"
| "wait_stopped_step i W_Return w = None"

section \<open>The steps of tasks and watchers\<close>

definition drop_ready :: "ready_state \<Rightarrow> ready_state" where
  "drop_ready r = (if r = R_Waiting then R_Dropped else r)"

fun task_step :: "nat \<Rightarrow> task_pc \<Rightarrow> world \<Rightarrow> world option" where
  "task_step k T_Run w =
     Some (upd_task k (\<lambda>t. t\<lparr>tk_pc := T_StoreFinished, tk_ready := drop_ready (tk_ready t)\<rparr>) w)"
| "task_step k T_StoreFinished w =
     Some (upd_task k (\<lambda>t. t\<lparr>tk_pc := T_NotifyWaiters\<rparr>) (w\<lparr>w_finished := True\<rparr>))"
| "task_step k T_NotifyWaiters w =
     Some (upd_task k (\<lambda>t. t\<lparr>tk_pc := T_StoreStopped\<rparr>) (notify_waiters w))"
| "task_step k T_StoreStopped w =
     Some (upd_task k (\<lambda>t. t\<lparr>tk_pc := T_Done\<rparr>) (store_status Stopped w))"
| "task_step k T_Done w = None"
| "task_step k T_Aborted w = None"
| "task_step k T_Panicked w = None"

text \<open>\<open>ReadySignal::notify\<close> inside the user's future, and the watcher that follows it.\<close>

definition ready_notify :: "nat \<Rightarrow> world \<Rightarrow> world option" where
  "ready_notify k w =
     (if tk_pc (w_tasks w ! k) = T_Run \<and> tk_ready (w_tasks w ! k) = R_Waiting
      then Some (upd_task k (\<lambda>t. t\<lparr>tk_ready := R_Sent\<rparr>) w) else None)"

definition watcher_step :: "nat \<Rightarrow> world \<Rightarrow> world option" where
  "watcher_step k w =
     (case tk_ready (w_tasks w ! k) of
        R_Sent \<Rightarrow> Some (upd_task k (\<lambda>t. t\<lparr>tk_ready := R_Handled\<rparr>)
                   (if w_status w = as_u8 Starting then store_status Running w else w))
      | R_Dropped \<Rightarrow> Some (upd_task k (\<lambda>t. t\<lparr>tk_ready := R_Handled\<rparr>) w)
      | _ \<Rightarrow> None)"

datatype event =
    Call nat          \<comment> \<open>the next step of a call\<close>
  | TimerFires nat    \<comment> \<open>the timeout of a stop call\<close>
  | TaskStep nat      \<comment> \<open>the next step of a task\<close>
  | ReadyNotify nat
  | WatcherStep nat
  | TaskPanics nat
  | TaskAborted nat   \<comment> \<open>the runtime honours \<open>abort\<close> at an await point\<close>

definition exec :: "world \<Rightarrow> event \<Rightarrow> world option" where
  "exec w e =
     (case e of
        Call i \<Rightarrow> if i < length (w_threads w) then
            (case w_threads w ! i of
               Starter pc tok ready \<Rightarrow> start_core_step i tok ready pc w
             | Stopper pc \<Rightarrow> stop_step i pc w
             | Waiter pc \<Rightarrow> wait_stopped_step i pc w) else None
      | TimerFires i \<Rightarrow> if i < length (w_threads w) then
            (case w_threads w ! i of Stopper pc \<Rightarrow> stop_timeout i pc w | _ \<Rightarrow> None) else None
      | TaskStep k \<Rightarrow> if k < length (w_tasks w) then task_step k (tk_pc (w_tasks w ! k)) w else None
      | ReadyNotify k \<Rightarrow> if k < length (w_tasks w) then ready_notify k w else None
      | WatcherStep k \<Rightarrow> if k < length (w_tasks w) then watcher_step k w else None
      | TaskPanics k \<Rightarrow> if k < length (w_tasks w) \<and> tk_pc (w_tasks w ! k) = T_Run
            then Some (upd_task k (\<lambda>t. t\<lparr>tk_pc := T_Panicked, tk_ready := drop_ready (tk_ready t)\<rparr>) w)
            else None
      | TaskAborted k \<Rightarrow> if k < length (w_tasks w) \<and> tk_pc (w_tasks w ! k) = T_Run \<and> tk_abort (w_tasks w ! k)
            then Some (upd_task k (\<lambda>t. t\<lparr>tk_pc := T_Aborted, tk_ready := drop_ready (tk_ready t)\<rparr>) w)
            else None)"

fun run :: "world \<Rightarrow> event list \<Rightarrow> world option" where
  "run w [] = Some w"
| "run w (e # es) = (case exec w e of None \<Rightarrow> None | Some w' \<Rightarrow> run w' es)"

text \<open>\<open>Drop for Lifecycle\<close>: exclusive access, so a single step.\<close>

definition drop_lifecycle :: "world \<Rightarrow> world" where
  "drop_lifecycle w =
     (let w1 = (case w_cancel w of
                  Some tok \<Rightarrow> w\<lparr>w_cancel := None, w_cancelled_tokens := tok # w_cancelled_tokens w\<rparr>
                | None \<Rightarrow> w)
      in (case w_handle w1 of
            Some h \<Rightarrow> upd_task h (\<lambda>t. t\<lparr>tk_abort := True\<rparr>) (w1\<lparr>w_handle := None\<rparr>)
          | None \<Rightarrow> w1))"

section \<open>WithLifecycle\<close>

record with_lifecycle =
  wl_await_ready :: bool
  wl_has_ready_handler :: bool
  wl_run_ready_fn :: bool   \<comment> \<open>whether \<open>run_ready_fn\<close> is set\<close>
  wl_stop_timeout_secs :: nat

definition with_lifecycle_new :: with_lifecycle where
  "with_lifecycle_new = \<lparr>wl_await_ready = False, wl_has_ready_handler = False,
     wl_run_ready_fn = False, wl_stop_timeout_secs = 30\<rparr>"

definition with_ready_mode :: "with_lifecycle \<Rightarrow> bool \<Rightarrow> bool \<Rightarrow> bool \<Rightarrow> with_lifecycle" where
  "with_ready_mode l await_ready has_handler run_fn =
     l\<lparr>wl_await_ready := await_ready, wl_has_ready_handler := has_handler, wl_run_ready_fn := run_fn\<rparr>"

text \<open>\<open>StatefulModule::start\<close>: the call it makes on the lifecycle, or its own error.\<close>

definition stateful_start :: "with_lifecycle \<Rightarrow> nat \<Rightarrow> (thread, string) result" where
  "stateful_start l composed =
     (if \<not> wl_await_ready l then Ok (Starter A_Cas composed False)
      else if wl_has_ready_handler l then
        (if wl_run_ready_fn l then Ok (Starter A_Cas composed True)
         else Err ''run_ready_fn must be set when has_ready_handler'')
      else Ok (Starter A_Cas composed True))"

section \<open>A client that starts and then stops\<close>

text \<open>One start call and one stop call that begins after start has returned, interleaved in any way
  with the task, its watcher and the timer.\<close>

definition client_world :: "nat \<Rightarrow> bool \<Rightarrow> world" where
  "client_world tok ready = new_lifecycle [Starter A_Cas tok ready, Stopper B_Load]"

definition in_order :: "world \<Rightarrow> event \<Rightarrow> bool" where
  "in_order w e \<longleftrightarrow>
     (e \<in> {Call 1, TimerFires 1} \<longrightarrow> (case w_threads w ! 0 of Starter A_Ok _ _ \<Rightarrow> True | _ \<Rightarrow> False))"

inductive client_reach :: "nat \<Rightarrow> bool \<Rightarrow> world \<Rightarrow> bool" for tok ready where
  init: "client_reach tok ready (client_world tok ready)"
| step: "client_reach tok ready w \<Longrightarrow> exec w e = Some w' \<Longrightarrow> in_order w e \<Longrightarrow> client_reach tok ready w'"

definition fin_ok :: "task \<Rightarrow> world \<Rightarrow> bool" where
  "fin_ok t w \<longleftrightarrow> (tk_pc t \<in> {T_NotifyWaiters, T_StoreStopped, T_Done} \<longrightarrow> w_finished w)"

definition stopped_ok :: "task \<Rightarrow> world \<Rightarrow> bool" where
  "stopped_ok t w \<longleftrightarrow> (w_status w = 0 \<longrightarrow> tk_pc t = T_Done)"

fun stop_ok :: "nat \<Rightarrow> task \<Rightarrow> stop_pc \<Rightarrow> world \<Rightarrow> bool" where
  "stop_ok tok t B_Load w = (w_handle w = Some 0 \<and> w_cancel w = Some tok \<and> stopped_ok t w)"
| "stop_ok tok t B_StoreStopping w = (w_handle w = Some 0 \<and> w_cancel w = Some tok)"
| "stop_ok tok t B_TakeToken w = (w_handle w = Some 0 \<and> w_cancel w = Some tok)"
| "stop_ok tok t (B_MarkCancelled k) w = (w_handle w = Some 0 \<and> k = tok)"
| "stop_ok tok t (B_CancelToken k) w = (w_handle w = Some 0 \<and> k = tok)"
| "stop_ok tok t (B_Abort r h) w = (h = 0 \<and> tok \<in> set (w_cancelled_tokens w))"
| "stop_ok tok t (B_Join r h) w = (h = 0 \<and> tok \<in> set (w_cancelled_tokens w))"
| "stop_ok tok t (B_StoreFinished r) w = (task_ended t \<and> tok \<in> set (w_cancelled_tokens w))"
| "stop_ok tok t (B_NotifyWaiters r) w = (task_ended t \<and> tok \<in> set (w_cancelled_tokens w) \<and> w_finished w)"
| "stop_ok tok t (B_StoreStopped r) w = (task_ended t \<and> tok \<in> set (w_cancelled_tokens w) \<and> w_finished w)"
| "stop_ok tok t (B_Return r) w =
     (task_ended t \<and> (tok \<in> set (w_cancelled_tokens w) \<or> tk_pc t = T_Done) \<and> w_finished w \<and> w_status w = 0)"
| "stop_ok tok t pc w = (w_handle w = Some 0 \<and> tok \<in> set (w_cancelled_tokens w))"

fun start_ok :: "nat \<Rightarrow> start_pc \<Rightarrow> stop_pc \<Rightarrow> world \<Rightarrow> bool" where
  "start_ok tok A_Cas spc w = (w_status w = 0 \<and> w_tasks w = [] \<and> spc = B_Load)"
| "start_ok tok A_ClearFinished spc w = (w_status w = 1 \<and> w_tasks w = [] \<and> spc = B_Load)"
| "start_ok tok A_ClearCancelled spc w = (w_status w = 1 \<and> w_tasks w = [] \<and> spc = B_Load)"
| "start_ok tok A_StoreToken spc w = (w_status w = 1 \<and> w_tasks w = [] \<and> spc = B_Load)"
| "start_ok tok A_Mode spc w = (w_status w = 1 \<and> w_tasks w = [] \<and> spc = B_Load \<and> w_cancel w = Some tok)"
| "start_ok tok A_Spawn spc w =
     ((w_status w = 1 \<or> w_status w = 2) \<and> w_tasks w = [] \<and> spc = B_Load \<and> w_cancel w = Some tok)"
| "start_ok tok (A_StoreHandle h) spc w =
     (\<exists>t. w_tasks w = [t] \<and> h = 0 \<and> spc = B_Load \<and> w_cancel w = Some tok \<and> fin_ok t w \<and> stopped_ok t w)"
| "start_ok tok A_Ok spc w = (\<exists>t. w_tasks w = [t] \<and> fin_ok t w \<and> stop_ok tok t spc w)"
| "start_ok tok A_AlreadyStarted spc w = False"

definition status_valid :: "world \<Rightarrow> bool" where
  "status_valid w \<longleftrightarrow> w_status w \<in> {0, 1, 2, 3}"

definition client_inv :: "nat \<Rightarrow> bool \<Rightarrow> world \<Rightarrow> bool" where
  "client_inv tok ready w \<longleftrightarrow>
     (\<exists>apc spc. w_threads w = [Starter apc tok ready, Stopper spc] \<and> start_ok tok apc spc w) \<and>
     status_valid w"

lemmas lc_defs = set_thread_def store_status_def upd_task_def notify_waiters_def

text \<open>Every step leaves one of the four status codes in the atomic.\<close>

lemma start_core_step_valid: "start_core_step i tok ready pc w = Some w' \<Longrightarrow> status_valid w \<Longrightarrow> status_valid w'"
  by (cases pc) (auto simp: lc_defs status_valid_def split: if_splits)

lemma stop_step_valid: "stop_step i pc w = Some w' \<Longrightarrow> status_valid w \<Longrightarrow> status_valid w'"
  by (cases pc) (auto simp: lc_defs status_valid_def split: if_splits option.splits)

lemma stop_timeout_valid: "stop_timeout i pc w = Some w' \<Longrightarrow> status_valid w \<Longrightarrow> status_valid w'"
  by (cases pc) (auto simp: lc_defs status_valid_def)

lemma wait_step_valid: "wait_stopped_step i pc w = Some w' \<Longrightarrow> status_valid w \<Longrightarrow> status_valid w'"
  by (cases pc) (auto simp: lc_defs status_valid_def split: if_splits)

lemma task_step_valid: "task_step k pc w = Some w' \<Longrightarrow> status_valid w \<Longrightarrow> status_valid w'"
  by (cases pc) (auto simp: lc_defs status_valid_def)

lemma status_valid_tasks [simp]: "status_valid (w\<lparr>w_tasks := ts\<rparr>) = status_valid w"
  by (simp add: status_valid_def)

lemma exec_status_valid: "exec w e = Some w' \<Longrightarrow> status_valid w \<Longrightarrow> status_valid w'"
proof (cases e)
  case (WatcherStep k)
  then show "exec w e = Some w' \<Longrightarrow> status_valid w \<Longrightarrow> status_valid w'"
    by (auto simp: exec_def watcher_step_def lc_defs status_valid_def
        split: if_splits ready_state.splits)
qed (auto simp: exec_def ready_notify_def upd_task_def split: if_splits thread.splits
      intro: start_core_step_valid stop_step_valid stop_timeout_valid wait_step_valid task_step_valid)

lemma client_inv_starter:
  assumes "w_threads w = [Starter apc tok ready, Stopper spc]" "start_ok tok apc spc w"
    and "exec w (Call 0) = Some w'"
  shows "\<exists>apc' spc'. w_threads w' = [Starter apc' tok ready, Stopper spc'] \<and> start_ok tok apc' spc' w'"
  using assms
  by (cases apc) (auto simp: exec_def lc_defs fin_ok_def stopped_ok_def split: if_splits)

lemma client_inv_stopper:
  assumes th: "w_threads w = [Starter A_Ok tok ready, Stopper spc]" and ok: "start_ok tok A_Ok spc w"
    and v: "status_valid w" and ex: "exec w (Call 1) = Some w'"
  shows "\<exists>apc' spc'. w_threads w' = [Starter apc' tok ready, Stopper spc'] \<and> start_ok tok apc' spc' w'"
proof -
  from ok obtain t where t: "w_tasks w = [t]" "fin_ok t w" "stop_ok tok t spc w" by auto
  from ex th have st: "stop_step 1 spc w = Some w'" by (simp add: exec_def)
  show ?thesis
  proof (cases spc)
    case B_Load
    show ?thesis
    proof (cases "w_status w = 0")
      case True
      with B_Load t th st show ?thesis
        by (auto simp: load_status_def from_u8_def lc_defs stopped_ok_def task_ended_def fin_ok_def)
    next
      case False
      with v have "load_status w \<in> {Starting, Running, Stopping}"
        by (auto simp: status_valid_def load_status_def from_u8_def)
      with B_Load t th st show ?thesis by (auto simp: lc_defs fin_ok_def)
    qed
  next
    case (B_Abort r h)
    with t th st show ?thesis by (auto simp: lc_defs fin_ok_def split: if_splits)
  qed (use t th st in \<open>auto simp: lc_defs fin_ok_def split: if_splits\<close>)
qed

lemma client_inv_timer:
  assumes "w_threads w = [Starter A_Ok tok ready, Stopper spc]" "start_ok tok A_Ok spc w"
    and "exec w (TimerFires 1) = Some w'"
  shows "\<exists>apc' spc'. w_threads w' = [Starter apc' tok ready, Stopper spc'] \<and> start_ok tok apc' spc' w'"
  using assms
  by (cases spc) (auto simp: exec_def lc_defs fin_ok_def)

text \<open>What a task or watcher event may do: at most wake the stopper, never reverse the end of the
  task, and touch \<open>status\<close> and \<open>finished\<close> only as stated.\<close>

definition task_effect :: "world \<Rightarrow> world \<Rightarrow> bool" where
  "task_effect w w' \<longleftrightarrow>
     (\<exists>t t'. w_tasks w = [t] \<and> w_tasks w' = [t'] \<and> (task_ended t \<longrightarrow> tk_pc t' = tk_pc t) \<and>
       (w_finished w \<longrightarrow> w_finished w') \<and> (fin_ok t w \<longrightarrow> fin_ok t' w') \<and>
       (stopped_ok t w \<longrightarrow> stopped_ok t' w') \<and> (w_status w = 0 \<and> task_ended t \<longrightarrow> w_status w' = 0)) \<and>
     w_handle w' = w_handle w \<and> w_cancel w' = w_cancel w \<and>
     w_cancelled_tokens w' = w_cancelled_tokens w \<and> w_threads w' \<in> {w_threads w, map wake (w_threads w)}"

lemma exec_task_effect:
  assumes "exec w e = Some w'" "w_tasks w = [t]" "e \<noteq> Call i" "\<And>i. e \<noteq> Call i" "\<And>i. e \<noteq> TimerFires i"
  shows "task_effect w w'"
  using assms
  by (cases e; cases "tk_pc t")
    (auto simp: exec_def task_effect_def lc_defs ready_notify_def watcher_step_def fin_ok_def
      stopped_ok_def task_ended_def split: if_splits ready_state.splits)

lemma stop_ok_task_effect:
  assumes "stop_ok tok t spc w" "w_tasks w = [t]" "w_tasks w' = [t']" "task_effect w w'"
  shows "stop_ok tok t' spc w'"
proof (cases "task_ended t")
  case True
  with assms show ?thesis by (cases spc) (auto simp: task_effect_def task_ended_def)
next
  case False
  with assms show ?thesis by (cases spc) (auto simp: task_effect_def)
qed

lemma stop_ok_notified: "stop_ok tok t (B_Wait b) w \<Longrightarrow> stop_ok tok t (B_Wait c) w"
  by simp

lemma wake_stopper:
  "\<exists>p. wake (Stopper spc) = Stopper p \<and> (spc = p \<or> (\<exists>b c. spc = B_Wait b \<and> p = B_Wait c))"
  by (cases spc) auto

lemma client_inv_task:
  assumes th: "w_threads w = [Starter apc tok ready, Stopper spc]" and ok: "start_ok tok apc spc w"
    and ex: "exec w e = Some w'" and ne: "\<And>i. e \<noteq> Call i" "\<And>i. e \<noteq> TimerFires i"
  shows "\<exists>apc' spc'. w_threads w' = [Starter apc' tok ready, Stopper spc'] \<and> start_ok tok apc' spc' w'"
proof -
  have "w_tasks w \<noteq> []" using ex ne by (cases e) (auto simp: exec_def)
  with ok obtain t where t: "w_tasks w = [t]" by (cases apc) auto
  from exec_task_effect[OF ex t ne(1) ne] have eff: "task_effect w w'" .
  then obtain t' where t': "w_tasks w' = [t']" by (auto simp: task_effect_def)
  from wake_stopper obtain spc' where wk: "wake (Stopper spc) = Stopper spc'"
    and eq: "spc = spc' \<or> (\<exists>b c. spc = B_Wait b \<and> spc' = B_Wait c)" by blast
  from eff th wk have th': "w_threads w' = [Starter apc tok ready, Stopper spc] \<or>
      w_threads w' = [Starter apc tok ready, Stopper spc']" by (auto simp: task_effect_def)
  have ok': "start_ok tok apc spc w'"
  proof (cases "apc = A_Ok")
    case True
    with ok t t' eff stop_ok_task_effect[OF _ t t' eff] show ?thesis by (auto simp: task_effect_def)
  next
    case False
    with ok t t' eff show ?thesis by (cases apc) (auto simp: task_effect_def)
  qed
  moreover have "start_ok tok apc spc' w'"
    using ok' eq stop_ok_notified by (cases apc) auto
  ultimately show ?thesis using th' by blast
qed

lemma client_reach_inv: "client_reach tok ready w \<Longrightarrow> client_inv tok ready w"
proof (induction rule: client_reach.induct)
  case init
  show ?case by (simp add: client_inv_def client_world_def new_lifecycle_def status_valid_def)
next
  case (step w e w')
  then obtain apc spc where th: "w_threads w = [Starter apc tok ready, Stopper spc]"
    and ok: "start_ok tok apc spc w" and v: "status_valid w" by (auto simp: client_inv_def)
  have v': "status_valid w'" using step exec_status_valid v by blast
  have fin: "client_inv tok ready w'"
    if "\<exists>apc' spc'. w_threads w' = [Starter apc' tok ready, Stopper spc'] \<and> start_ok tok apc' spc' w'"
    using that v' by (auto simp: client_inv_def)
  have seq: "apc = A_Ok" if "e = Call 1 \<or> e = TimerFires 1"
    using step.hyps(3) that th by (auto simp: in_order_def split: start_pc.splits)
  consider "e = Call 0" | "e = Call 1" | "e = TimerFires 1" | "\<And>i. e \<noteq> Call i" "\<And>i. e \<noteq> TimerFires i"
    using step.hyps(2) th by (cases e) (auto simp: exec_def less_Suc_eq split: if_splits)
  then show ?case
  proof cases
    case 1
    with client_inv_starter[OF th ok] step.hyps(2) show ?thesis by (blast intro: fin)
  next
    case 2
    with client_inv_stopper[of w tok ready spc w'] seq th ok v step.hyps(2) show ?thesis by (blast intro: fin)
  next
    case 3
    with client_inv_timer[of w tok ready spc w'] seq th ok step.hyps(2) show ?thesis by (blast intro: fin)
  next
    case 4
    with client_inv_task[OF th ok step.hyps(2)] show ?thesis by (blast intro: fin)
  qed
qed

section \<open>Concurrent starts\<close>

text \<open>Any number of start calls, with the spawned task still in the user's future.\<close>

definition starts_only :: "event \<Rightarrow> bool" where
  "starts_only e \<longleftrightarrow> (\<exists>i. e = Call i) \<or> (\<exists>k. e = ReadyNotify k) \<or> (\<exists>k. e = WatcherStep k)"

inductive starters_reach :: "(nat \<times> bool) list \<Rightarrow> world \<Rightarrow> bool" for cs where
  init: "starters_reach cs (new_lifecycle (map (\<lambda>(tok, ready). Starter A_Cas tok ready) cs))"
| step: "starters_reach cs w \<Longrightarrow> exec w e = Some w' \<Longrightarrow> starts_only e \<Longrightarrow> starters_reach cs w'"

fun past_cas :: "thread \<Rightarrow> bool" where
  "past_cas (Starter pc _ _) = (pc \<noteq> A_Cas \<and> pc \<noteq> A_AlreadyStarted)"
| "past_cas _ = False"

fun is_starter :: "thread \<Rightarrow> bool" where
  "is_starter (Starter _ _ _) = True"
| "is_starter _ = False"

definition winners :: "world \<Rightarrow> nat set" where
  "winners w = {i. i < length (w_threads w) \<and> past_cas (w_threads w ! i)}"

definition starters_inv :: "world \<Rightarrow> bool" where
  "starters_inv w \<longleftrightarrow> (\<forall>t \<in> set (w_threads w). is_starter t) \<and>
     (w_status w = 0 \<longrightarrow> winners w = {}) \<and> (\<exists>i. winners w \<subseteq> {i})"

lemma winners_set_thread:
  "i < length (w_threads w) \<Longrightarrow>
   winners (set_thread i t w) = (if past_cas t then insert i (winners w) else winners w - {i})"
  by (auto simp: winners_def set_thread_def nth_list_update)

lemma winners_threads: "w_threads w1 = w_threads w \<Longrightarrow> winners w1 = winners w"
  by (simp add: winners_def)

lemma start_core_step_shape:
  assumes "start_core_step i tok ready pc w = Some w'"
  shows "\<exists>pc' w1. w' = set_thread i (Starter pc' tok ready) w1 \<and> w_threads w1 = w_threads w \<and>
    (if pc = A_Cas then (if w_status w = 0 then w_status w1 = 1 \<and> pc' = A_ClearFinished
                         else w_status w1 = w_status w \<and> pc' = A_AlreadyStarted)
     else pc \<noteq> A_AlreadyStarted \<and> past_cas (Starter pc' tok ready) \<and> w_status w1 \<in> {w_status w, 2})"
proof -
  consider (cas) "pc = A_Cas" | (mode) "pc = A_Mode" | (other) "pc \<noteq> A_Cas" "pc \<noteq> A_Mode" by blast
  then show ?thesis
  proof cases
    case cas
    with assms show ?thesis by (fastforce simp: store_status_def split: if_splits)
  next
    case mode
    with assms show ?thesis by (fastforce simp: store_status_def split: if_splits)
  next
    case other
    with assms show ?thesis by (cases pc) fastforce+
  qed
qed

lemma starters_call:
  assumes inv: "starters_inv w" and i: "i < length (w_threads w)" "w_threads w ! i = Starter pc tok ready"
    and st: "start_core_step i tok ready pc w = Some w'"
  shows "starters_inv w'"
proof -
  from start_core_step_shape[OF st] obtain pc' w1 where
    w': "w' = set_thread i (Starter pc' tok ready) w1" and th1: "w_threads w1 = w_threads w"
    and sh: "if pc = A_Cas then (if w_status w = 0 then w_status w1 = 1 \<and> pc' = A_ClearFinished
                         else w_status w1 = w_status w \<and> pc' = A_AlreadyStarted)
     else pc \<noteq> A_AlreadyStarted \<and> past_cas (Starter pc' tok ready) \<and> w_status w1 \<in> {w_status w, 2}"
    by blast
  have win: "winners w' = (if past_cas (Starter pc' tok ready) then insert i (winners w) else winners w - {i})"
    using winners_set_thread[of i w1] i(1) th1 w' winners_threads[OF th1] by simp
  have own: "i \<in> winners w" if "pc \<noteq> A_Cas" "pc \<noteq> A_AlreadyStarted"
    using i that by (simp add: winners_def)
  have st': "w_status w' = w_status w1" using w' by (simp add: set_thread_def)
  have "\<forall>t \<in> set (w_threads w'). is_starter t"
    using inv w' th1 by (auto simp: starters_inv_def set_thread_def dest!: set_update_subset_insert[THEN subsetD])
  moreover have "(w_status w' = 0 \<longrightarrow> winners w' = {}) \<and> (\<exists>i. winners w' \<subseteq> {i})"
  proof (cases "pc = A_Cas")
    case True
    show ?thesis
    proof (cases "w_status w = 0")
      case z: True
      with True sh win inv st' have "winners w' = {i}" "w_status w' = 1" by (auto simp: starters_inv_def)
      then show ?thesis by auto
    next
      case False
      with True sh win inv st' have "winners w' \<subseteq> winners w" "w_status w' \<noteq> 0" by auto
      with inv show ?thesis by (auto simp: starters_inv_def)
    qed
  next
    case False
    with sh own have "i \<in> winners w" "past_cas (Starter pc' tok ready)" "w_status w1 \<in> {w_status w, 2}" by auto
    with win inv st' show ?thesis by (auto simp: starters_inv_def insert_absorb)
  qed
  ultimately show ?thesis by (simp add: starters_inv_def)
qed

lemma starters_reach_inv: "starters_reach cs w \<Longrightarrow> starters_inv w"
proof (induction rule: starters_reach.induct)
  case init
  have "winners (new_lifecycle (map (\<lambda>(tok, ready). Starter A_Cas tok ready) cs)) = {}"
    by (auto simp: new_lifecycle_def winners_def split: prod.splits)
  then show ?case by (auto simp: starters_inv_def new_lifecycle_def)
next
  case (step w e w')
  show ?case
  proof (cases "\<exists>i. e = Call i")
    case True
    then obtain i where e: "e = Call i" ..
    with step.hyps(2) have i: "i < length (w_threads w)" by (auto simp: exec_def split: if_splits)
    with step.IH have "is_starter (w_threads w ! i)" by (simp add: starters_inv_def)
    then obtain pc tok ready where "w_threads w ! i = Starter pc tok ready"
      by (cases "w_threads w ! i") auto
    with step.IH i step.hyps(2) e show ?thesis by (auto simp: exec_def intro: starters_call)
  next
    case False
    with step.hyps(2,3) have "w_threads w' = w_threads w \<and> (w_status w' = 0 \<longrightarrow> w_status w = 0)"
      by (auto simp: starts_only_def exec_def ready_notify_def watcher_step_def lc_defs
          split: if_splits ready_state.splits)
    with step.IH winners_threads[of w' w] show ?thesis by (auto simp: starters_inv_def)
  qed
qed

section \<open>Properties\<close>

text \<open>C14. After a successful start, a stop call that returns leaves the lifecycle stopped: the task has
  ended (it returned, panicked or was aborted), the finished flag is set, the status is Stopped, and the
  task's token was cancelled unless the task had already run to its end. This holds for every
  interleaving of the two calls with the task, the ready watcher and the timeout.\<close>

theorem stop_returns_stopped:
  assumes "client_reach tok ready w" and "w_threads w ! 1 = Stopper (B_Return r)"
  shows "load_status w = Stopped \<and> w_finished w \<and>
    (\<exists>t. w_tasks w = [t] \<and> task_ended t \<and> (tok \<in> set (w_cancelled_tokens w) \<or> tk_pc t = T_Done))"
proof -
  from client_reach_inv[OF assms(1)] assms(2) obtain apc where
    "start_ok tok apc (B_Return r) w" by (auto simp: client_inv_def)
  then obtain t where "w_tasks w = [t]" "stop_ok tok t (B_Return r) w" by (cases apc) auto
  then show ?thesis by (simp add: load_status_def from_u8_def)
qed

text \<open>Of any number of concurrent start calls at most one gets past the compare-and-swap while the
  task it spawns is running; all others return AlreadyStarted.\<close>

theorem concurrent_start_exclusive:
  assumes "starters_reach cs w" and "i < length (w_threads w)" "past_cas (w_threads w ! i)"
    and "j < length (w_threads w)" "past_cas (w_threads w ! j)"
  shows "i = j"
proof -
  from starters_reach_inv[OF assms(1)] obtain k where "winners w \<subseteq> {k}" by (auto simp: starters_inv_def)
  with assms(2-5) show ?thesis by (auto simp: winners_def)
qed

text \<open>The status byte round-trips, and reading any other byte gives Stopped.\<close>

theorem status_byte_roundtrip:
  "from_u8 (as_u8 s) = s \<and> (as_u8 (from_u8 x) = x \<longleftrightarrow> x \<in> {0, 1, 2, 3}) \<and> (x \<notin> {1, 2, 3} \<longrightarrow> from_u8 x = Stopped)"
  by (cases s) (auto simp: from_u8_def)

text \<open>The step by step schedule of a call that runs alone.\<close>

definition solo_start :: "nat \<Rightarrow> event list" where
  "solo_start i = replicate 7 (Call i)"

text \<open>The wait of stop can miss its wake-up: between the check of the finished flag and the
  registration with the notifier the task may finish completely, and stop then reports Timeout for a
  task that returned on its own.\<close>

theorem stop_lost_wakeup:
  "\<exists>w. run (client_world 7 False)
         (solo_start 0 @ replicate 6 (Call 1) @ replicate 4 (TaskStep 0) @ [Call 1, TimerFires 1] @ replicate 6 (Call 1)) = Some w
     \<and> w_threads w ! 1 = Stopper (B_Return Timeout) \<and> map tk_pc (w_tasks w) = [T_Done] \<and>
       map tk_abort (w_tasks w) = [False]"
  by (simp add: client_world_def new_lifecycle_def solo_start_def exec_def lc_defs load_status_def
      from_u8_def task_ended_def numeral_eq_Suc)

text \<open>A stop call that races with a restart can take the handle of the new task. In the final state
  of this schedule the call has reason Finished although it cancelled its task, it blocks on the join of
  the restarted task 1, which is running and was not cancelled, and no timeout applies to it any more.\<close>

theorem stop_steals_restarted_handle:
  "\<exists>w. run (new_lifecycle [Starter A_Cas 1 False, Stopper B_Load, Starter A_Cas 2 False])
         (solo_start 0 @ replicate 7 (Call 1) @ replicate 4 (TaskStep 0) @ solo_start 2 @ replicate 4 (Call 1))
         = Some w \<and>
     w_threads w ! 1 = Stopper (B_Join Finished 1) \<and> w_threads w ! 2 = Starter A_Ok 2 False \<and>
     load_status w = Running \<and> map tk_pc (w_tasks w) = [T_Done, T_Run] \<and>
     w_cancelled_tokens w = [1] \<and> exec w (Call 1) = None \<and> exec w (TimerFires 1) = None"
  by (simp add: new_lifecycle_def solo_start_def exec_def lc_defs load_status_def
      from_u8_def task_ended_def numeral_eq_Suc)

section \<open>Witnesses\<close>

fun client_run :: "world \<Rightarrow> event list \<Rightarrow> world option" where
  "client_run w [] = Some w"
| "client_run w (e # es) =
     (if in_order w e then (case exec w e of None \<Rightarrow> None | Some w' \<Rightarrow> client_run w' es) else None)"

lemma client_run_reach: "client_reach tok ready w \<Longrightarrow> client_run w es = Some w' \<Longrightarrow> client_reach tok ready w'"
  by (induction es arbitrary: w) (auto split: if_splits option.splits intro: client_reach.step)

lemma starters_run_reach:
  "starters_reach cs w \<Longrightarrow> list_all starts_only es \<Longrightarrow> run w es = Some w' \<Longrightarrow> starters_reach cs w'"
  by (induction es arbitrary: w) (auto split: option.splits intro: starters_reach.step)

text \<open>A ready-mode start whose task signals readiness, is cancelled, overruns the timeout and is aborted.\<close>

definition abort_schedule :: "event list" where
  "abort_schedule = solo_start 0 @ [ReadyNotify 0, WatcherStep 0] @ replicate 7 (Call 1) @ [TimerFires 1] @
     [Call 1, Call 1, TaskAborted 0] @ replicate 4 (Call 1)"

theorem stop_returns_stopped_witness:
  "\<exists>w. client_run (client_world 7 True) abort_schedule = Some w \<and>
     w_threads w ! 1 = Stopper (B_Return Timeout) \<and> load_status w = Stopped \<and> 7 \<in> set (w_cancelled_tokens w)"
proof -
  have "\<exists>w. client_run (client_world 7 True) abort_schedule = Some w \<and>
      w_threads w ! 1 = Stopper (B_Return Timeout) \<and> 7 \<in> set (w_cancelled_tokens w)"
    by (simp add: client_world_def new_lifecycle_def abort_schedule_def solo_start_def exec_def lc_defs
        load_status_def from_u8_def task_ended_def in_order_def ready_notify_def watcher_step_def
        drop_ready_def numeral_eq_Suc)
  then obtain w where w: "client_run (client_world 7 True) abort_schedule = Some w"
    "w_threads w ! 1 = Stopper (B_Return Timeout)" "7 \<in> set (w_cancelled_tokens w)" by blast
  from stop_returns_stopped[OF client_run_reach[OF client_reach.init w(1)] w(2)] w show ?thesis by blast
qed

theorem concurrent_start_exclusive_witness:
  "\<exists>w. run (new_lifecycle [Starter A_Cas 1 False, Starter A_Cas 2 True]) [Call 1, Call 0, Call 1] = Some w \<and>
     past_cas (w_threads w ! 1) \<and> w_threads w ! 0 = Starter A_AlreadyStarted 1 False \<and>
     (\<forall>i < 2. past_cas (w_threads w ! i) \<longrightarrow> i = 1)"
proof -
  let ?w0 = "new_lifecycle [Starter A_Cas 1 False, Starter A_Cas 2 True]"
  have "\<exists>w. run ?w0 [Call 1, Call 0, Call 1] = Some w \<and> past_cas (w_threads w ! 1) \<and>
      w_threads w ! 0 = Starter A_AlreadyStarted 1 False \<and> length (w_threads w) = 2"
    by (simp add: new_lifecycle_def exec_def lc_defs)
  then obtain w where w: "run ?w0 [Call 1, Call 0, Call 1] = Some w" "past_cas (w_threads w ! 1)"
      "w_threads w ! 0 = Starter A_AlreadyStarted 1 False" "length (w_threads w) = 2" by blast
  have "starters_reach [(1, False), (2, True)] ?w0"
    using starters_reach.init[of "[(1, False), (2, True)]"] by simp
  from starters_run_reach[OF this _ w(1)] have "starters_reach [(1, False), (2, True)] w"
    by (simp add: starts_only_def)
  from concurrent_start_exclusive[OF this _ _ _ w(2)] w show ?thesis by auto
qed

theorem status_byte_roundtrip_witness: "from_u8 (as_u8 Running) = Running \<and> from_u8 9 = Stopped"
  using status_byte_roundtrip[of Running 9] by simp

end
