(* ===== verification/Module_Manager.thy ===== *)
theory Module_Manager
  imports Prelude
begin

text \<open>
  The registry of running module instances of \<open>libs/modkit/src/runtime/module_manager.rs\<close>:
  registration, heartbeats, quarantine and eviction, and round-robin selection.

  A \<open>ModuleInstance\<close> owns its runtime state through \<open>Arc<RwLock<...>>\<close>, which its clones share. The
  shared cells are an explicit store, \<open>mm_cells\<close>, and an instance holds the address of its cell.
  An \<open>Instant\<close> and a \<open>Duration\<close> are numbers of milliseconds, a UUID is a number. The two
  \<open>DashMap\<close>s are association lists in the unspecified iteration order.
\<close>

section \<open>Data\<close>

record endpoint =
  uri :: string

datatype 'addr endpoint_kind = Tcp 'addr | Uds string | Other string

definition from_uri :: "string \<Rightarrow> endpoint" where
  "from_uri s = \<lparr>uri = s\<rparr>"

definition endpoint_uds :: "string \<Rightarrow> endpoint" where
  "endpoint_uds path = \<lparr>uri = ''unix://'' @ path\<rparr>"

definition endpoint_http :: "string \<Rightarrow> nat \<Rightarrow> endpoint" where
  "endpoint_http host port = \<lparr>uri = ''http://'' @ host @ '':'' @ show_nat port\<rparr>"

definition endpoint_https :: "string \<Rightarrow> nat \<Rightarrow> endpoint" where
  "endpoint_https host port = \<lparr>uri = ''https://'' @ host @ '':'' @ show_nat port\<rparr>"

text \<open>\<open>Endpoint::kind\<close>, over the standard library's socket address parser.\<close>

definition kind :: "(string \<Rightarrow> 'addr option) \<Rightarrow> endpoint \<Rightarrow> 'addr endpoint_kind" where
  "kind parse_addr ep =
     (case strip_prefix ''unix://'' (uri ep) of
        Some rest \<Rightarrow> Uds rest
      | None \<Rightarrow>
     (case Option.bind (strip_prefix ''http://'' (uri ep)) parse_addr of
        Some addr \<Rightarrow> Tcp addr
      | None \<Rightarrow>
     (case Option.bind (strip_prefix ''https://'' (uri ep)) parse_addr of
        Some addr \<Rightarrow> Tcp addr
      | None \<Rightarrow> Other (uri ep))))"

datatype instance_state = Registered | Ready | Healthy | Quarantined | Draining

record instance_runtime_state =
  last_heartbeat :: nat
  state :: instance_state

record module_instance =
  mi_module :: string
  mi_instance_id :: nat
  mi_control :: "endpoint option"
  mi_grpc_services :: "(string \<times> endpoint) list"
  mi_version :: "string option"
  mi_inner :: nat

record module_manager =
  mm_inner :: "(string \<times> module_instance list) list"
  mm_rr_counters :: "(string \<times> nat) list"
  mm_hb_ttl :: nat
  mm_hb_grace :: nat
  mm_cells :: "instance_runtime_state list"

section \<open>Instances\<close>

text \<open>\<open>ModuleInstance::new\<close> allocates the shared cell.\<close>

definition new_instance ::
    "string \<Rightarrow> nat \<Rightarrow> nat \<Rightarrow> module_manager \<Rightarrow> module_instance \<times> module_manager" where
  "new_instance module instance_id now m =
     (\<lparr>mi_module = module, mi_instance_id = instance_id, mi_control = None, mi_grpc_services = [],
       mi_version = None, mi_inner = length (mm_cells m)\<rparr>,
      m\<lparr>mm_cells := mm_cells m @ [\<lparr>last_heartbeat = now, state = Registered\<rparr>]\<rparr>)"

definition with_control :: "endpoint \<Rightarrow> module_instance \<Rightarrow> module_instance" where
  "with_control ep i = i\<lparr>mi_control := Some ep\<rparr>"

definition with_version :: "string \<Rightarrow> module_instance \<Rightarrow> module_instance" where
  "with_version v i = i\<lparr>mi_version := Some v\<rparr>"

definition with_grpc_service :: "string \<Rightarrow> endpoint \<Rightarrow> module_instance \<Rightarrow> module_instance" where
  "with_grpc_service name ep i = i\<lparr>mi_grpc_services := AList.update name ep (mi_grpc_services i)\<rparr>"

definition inst_state :: "module_manager \<Rightarrow> module_instance \<Rightarrow> instance_state" where
  "inst_state m i = state (mm_cells m ! mi_inner i)"

definition inst_last_heartbeat :: "module_manager \<Rightarrow> module_instance \<Rightarrow> nat" where
  "inst_last_heartbeat m i = last_heartbeat (mm_cells m ! mi_inner i)"

definition write_cell ::
    "nat \<Rightarrow> (instance_runtime_state \<Rightarrow> instance_runtime_state) \<Rightarrow> module_manager \<Rightarrow> module_manager" where
  "write_cell a f m = m\<lparr>mm_cells := (mm_cells m)[a := f (mm_cells m ! a)]\<rparr>"

section \<open>Operations of the manager\<close>

definition new_manager :: module_manager where
  "new_manager = \<lparr>mm_inner = [], mm_rr_counters = [], mm_hb_ttl = 15000, mm_hb_grace = 30000,
     mm_cells = []\<rparr>"

definition with_heartbeat_policy :: "nat \<Rightarrow> nat \<Rightarrow> module_manager \<Rightarrow> module_manager" where
  "with_heartbeat_policy ttl grace m = m\<lparr>mm_hb_ttl := ttl, mm_hb_grace := grace\<rparr>"

text \<open>\<open>vec[pos] = instance\<close> at the first instance with the same id, else a push.\<close>

fun put_instance :: "module_instance \<Rightarrow> module_instance list \<Rightarrow> module_instance list" where
  "put_instance i [] = [i]"
| "put_instance i (j # js) =
     (if mi_instance_id j = mi_instance_id i then i # js else j # put_instance i js)"

definition instances_of :: "module_manager \<Rightarrow> string \<Rightarrow> module_instance list" where
  "instances_of m module = (case map_of (mm_inner m) module of Some v \<Rightarrow> v | None \<Rightarrow> [])"

definition register_instance :: "module_instance \<Rightarrow> module_manager \<Rightarrow> module_manager" where
  "register_instance i m =
     m\<lparr>mm_inner := AList.update (mi_module i) (put_instance i (instances_of m (mi_module i))) (mm_inner m)\<rparr>"

definition find_instance :: "string \<Rightarrow> nat \<Rightarrow> module_manager \<Rightarrow> module_instance option" where
  "find_instance module iid m = find (\<lambda>i. mi_instance_id i = iid) (instances_of m module)"

definition mark_ready :: "string \<Rightarrow> nat \<Rightarrow> module_manager \<Rightarrow> module_manager" where
  "mark_ready module iid m =
     (case find_instance module iid m of
        Some i \<Rightarrow> write_cell (mi_inner i) (\<lambda>s. s\<lparr>state := Ready\<rparr>) m | None \<Rightarrow> m)"

definition update_heartbeat :: "string \<Rightarrow> nat \<Rightarrow> nat \<Rightarrow> module_manager \<Rightarrow> module_manager" where
  "update_heartbeat module iid at m =
     (case find_instance module iid m of
        Some i \<Rightarrow> write_cell (mi_inner i) (\<lambda>s.
          let s' = s\<lparr>last_heartbeat := at\<rparr>
          in if state s' = Registered then s'\<lparr>state := Healthy\<rparr> else s') m
      | None \<Rightarrow> m)"

definition mark_quarantined :: "string \<Rightarrow> nat \<Rightarrow> module_manager \<Rightarrow> module_manager" where
  "mark_quarantined module iid m =
     (case find_instance module iid m of
        Some i \<Rightarrow> write_cell (mi_inner i) (\<lambda>s. s\<lparr>state := Quarantined\<rparr>) m | None \<Rightarrow> m)"

definition mark_draining :: "string \<Rightarrow> nat \<Rightarrow> module_manager \<Rightarrow> module_manager" where
  "mark_draining module iid m =
     (case find_instance module iid m of
        Some i \<Rightarrow> write_cell (mi_inner i) (\<lambda>s. s\<lparr>state := Draining\<rparr>) m | None \<Rightarrow> m)"

definition remove_module :: "string \<Rightarrow> module_manager \<Rightarrow> module_manager" where
  "remove_module module m = m\<lparr>mm_inner := AList.delete module (mm_inner m),
     mm_rr_counters := AList.delete module (mm_rr_counters m)\<rparr>"

text \<open>\<open>deregister\<close> holds the entry's lock while it filters the list (the inner block, which also
  returns the flag \<open>remove_module\<close>), and removes the key after it has released the lock.\<close>

definition deregister_retain :: "string \<Rightarrow> nat \<Rightarrow> module_manager \<Rightarrow> bool \<times> module_manager" where
  "deregister_retain module iid m =
     (case map_of (mm_inner m) module of
        None \<Rightarrow> (False, m)
      | Some v \<Rightarrow>
          let list = filter (\<lambda>i. mi_instance_id i \<noteq> iid) v
          in (list = [], m\<lparr>mm_inner := AList.update module list (mm_inner m)\<rparr>))"

definition deregister :: "string \<Rightarrow> nat \<Rightarrow> module_manager \<Rightarrow> module_manager" where
  "deregister module iid m =
     (let (rm, m') = deregister_retain module iid m
      in if rm then remove_module module m' else m')"

definition all_instances :: "module_manager \<Rightarrow> module_instance list" where
  "all_instances m = concat (map snd (mm_inner m))"

text \<open>The body of the \<open>retain\<close> closure of \<open>evict_stale\<close>: the new cell and whether to keep the instance.\<close>

definition evict_verdict ::
    "nat \<Rightarrow> nat \<Rightarrow> nat \<Rightarrow> instance_runtime_state \<Rightarrow> instance_runtime_state \<times> bool" where
  "evict_verdict ttl grace now s =
     (let age = now - last_heartbeat s
      in if age \<ge> ttl \<and> state s \<notin> {Quarantined, Draining} then (s\<lparr>state := Quarantined\<rparr>, True)
         else if state s = Quarantined \<and> age \<ge> ttl + grace then (s, False)
         else (s, True))"

fun retain_stale ::
    "nat \<Rightarrow> nat \<Rightarrow> nat \<Rightarrow> module_instance list \<Rightarrow> instance_runtime_state list \<Rightarrow>
     module_instance list \<times> instance_runtime_state list" where
  "retain_stale ttl grace now [] cells = ([], cells)"
| "retain_stale ttl grace now (i # is) cells =
     (let (s, keep) = evict_verdict ttl grace now (cells ! mi_inner i);
          (is', cells') = retain_stale ttl grace now is (cells[mi_inner i := s])
      in (if keep then i # is' else is', cells'))"

fun evict_entries ::
    "nat \<Rightarrow> nat \<Rightarrow> nat \<Rightarrow> (string \<times> module_instance list) list \<Rightarrow> instance_runtime_state list \<Rightarrow>
     (string \<times> module_instance list) list \<times> string list \<times> instance_runtime_state list" where
  "evict_entries ttl grace now [] cells = ([], [], cells)"
| "evict_entries ttl grace now ((module, v) # rest) cells =
     (let (v', cells') = retain_stale ttl grace now v cells;
          (rest', empties, cells'') = evict_entries ttl grace now rest cells'
      in ((module, v') # rest', (if v' = [] then module # empties else empties), cells''))"

definition evict_stale :: "nat \<Rightarrow> module_manager \<Rightarrow> module_manager" where
  "evict_stale now m =
     (let (inner, empties, cells) = evict_entries (mm_hb_ttl m) (mm_hb_grace m) now (mm_inner m) (mm_cells m)
      in fold remove_module empties (m\<lparr>mm_inner := inner, mm_cells := cells\<rparr>))"

text \<open>The shared tail of the two selection functions: rotate the counter of \<open>key\<close>.\<close>

definition rr_pick :: "string \<Rightarrow> 'a list \<Rightarrow> module_manager \<Rightarrow> 'a option \<times> module_manager" where
  "rr_pick key candidates m =
     (let len = length candidates;
          counter = (case map_of (mm_rr_counters m) key of Some c \<Rightarrow> c | None \<Rightarrow> 0);
          idx = counter mod len
      in (if idx < len then Some (candidates ! idx) else None,
          m\<lparr>mm_rr_counters := AList.update key ((counter + 1) mod len) (mm_rr_counters m)\<rparr>))"

definition is_available :: "instance_state \<Rightarrow> bool" where
  "is_available s \<longleftrightarrow> s \<in> {Healthy, Ready}"

definition rr_candidates :: "module_manager \<Rightarrow> string \<Rightarrow> module_instance list" where
  "rr_candidates m module =
     (let healthy = filter (\<lambda>i. is_available (inst_state m i)) (instances_of m module)
      in if healthy = [] then instances_of m module else healthy)"

definition pick_instance_round_robin ::
    "string \<Rightarrow> module_manager \<Rightarrow> module_instance option \<times> module_manager" where
  "pick_instance_round_robin module m =
     (case map_of (mm_inner m) module of
        None \<Rightarrow> (None, m)
      | Some instances \<Rightarrow>
          if instances = [] then (None, m)
          else if rr_candidates m module = [] then (None, m)
          else rr_pick module (rr_candidates m module) m)"

definition service_candidates ::
    "module_manager \<Rightarrow> string \<Rightarrow> (string \<times> module_instance \<times> endpoint) list" where
  "service_candidates m service =
     concat (map (\<lambda>(module, v). concat (map (\<lambda>i.
       (case map_of (mi_grpc_services i) service of
          Some ep \<Rightarrow> if is_available (inst_state m i) then [(module, i, ep)] else []
        | None \<Rightarrow> [])) v)) (mm_inner m))"

definition pick_service_round_robin ::
    "string \<Rightarrow> module_manager \<Rightarrow> (string \<times> module_instance \<times> endpoint) option \<times> module_manager" where
  "pick_service_round_robin service m =
     (if service_candidates m service = [] then (None, m)
      else rr_pick service (service_candidates m service) m)"

section \<open>The directory contract\<close>

text \<open>What a client of an instance directory relies on: registration and removal act on exactly one
  pair of module and instance id.\<close>

locale instance_directory =
  fixes lookup :: "'m \<Rightarrow> string \<Rightarrow> nat \<Rightarrow> 'i option"
    and register :: "'i \<Rightarrow> 'm \<Rightarrow> 'm"
    and remove :: "string \<Rightarrow> nat \<Rightarrow> 'm \<Rightarrow> 'm"
    and module_of :: "'i \<Rightarrow> string"
    and id_of :: "'i \<Rightarrow> nat"
    and invar :: "'m \<Rightarrow> bool"
  assumes lookup_register: "invar m \<Longrightarrow> lookup (register i m) k x =
      (if k = module_of i \<and> x = id_of i then Some i else lookup m k x)"
    and lookup_remove: "invar m \<Longrightarrow> lookup (remove k' x' m) k x =
      (if k = k' \<and> x = x' then None else lookup m k x)"
    and invar_register: "invar m \<Longrightarrow> invar (register i m)"
    and invar_remove: "invar m \<Longrightarrow> invar (remove k x m)"
begin

lemma register_remove_roundtrip:
  assumes "invar m" "lookup m (module_of i) (id_of i) = None"
  shows "lookup (remove (module_of i) (id_of i) (register i m)) = lookup m"
  using assms by (intro ext) (auto simp: lookup_remove invar_register lookup_register)

lemma register_overwrites:
  assumes "invar m" "module_of i = module_of j" "id_of i = id_of j"
  shows "lookup (register i (register j m)) = lookup (register i m)"
  using assms by (intro ext) (auto simp: invar_register lookup_register)

lemma register_commutes:
  assumes "invar m" "module_of i \<noteq> module_of j \<or> id_of i \<noteq> id_of j"
  shows "lookup (register i (register j m)) = lookup (register j (register i m))"
  using assms by (intro ext) (auto simp: invar_register lookup_register)

lemma invar_fold_register: "invar m \<Longrightarrow> invar (fold register is m)"
  by (induction "is" arbitrary: m) (auto simp: invar_register)

text \<open>After any sequence of registrations the last one for a pair is what the directory holds.\<close>

lemma lookup_fold_register:
  assumes "invar m"
  shows "lookup (fold register is m) k x =
    (case find (\<lambda>i. module_of i = k \<and> id_of i = x) (rev is) of Some i \<Rightarrow> Some i | None \<Rightarrow> lookup m k x)"
proof (induction "is" rule: rev_induct)
  case (snoc i "is")
  have "invar (fold register is m)" using assms by (rule invar_fold_register)
  with snoc show ?case by (auto simp: lookup_register)
qed simp

end

section \<open>The manager keeps the contract\<close>

definition wf_directory :: "module_manager \<Rightarrow> bool" where
  "wf_directory m \<longleftrightarrow> distinct (map fst (mm_inner m)) \<and>
     (\<forall>(k, v) \<in> set (mm_inner m). v \<noteq> [] \<and> distinct (map mi_instance_id v) \<and> (\<forall>i \<in> set v. mi_module i = k))"

lemma put_instance_ids:
  "mi_instance_id ` set (put_instance i v) = insert (mi_instance_id i) (mi_instance_id ` set v)"
  by (induction v) auto

lemma put_instance_distinct:
  "distinct (map mi_instance_id v) \<Longrightarrow> distinct (map mi_instance_id (put_instance i v))"
proof (induction v)
  case (Cons j v)
  then show ?case using put_instance_ids[of i v] by (auto simp: image_iff)
qed simp

lemma put_instance_set: "set (put_instance i v) \<subseteq> insert i (set v)"
  by (induction v) auto

lemma put_instance_nonempty [simp]: "put_instance i v \<noteq> []"
  by (cases v) auto

lemma find_put_instance:
  "find (\<lambda>j. mi_instance_id j = x) (put_instance i v) =
     (if x = mi_instance_id i then Some i else find (\<lambda>j. mi_instance_id j = x) v)"
  by (induction v) auto

lemma instances_of_update [simp]:
  "instances_of (m\<lparr>mm_inner := AList.update k v (mm_inner m)\<rparr>) k' = (if k' = k then v else instances_of m k')"
  by (simp add: instances_of_def update_conv')

lemma cells_remove_module [simp]: "mm_cells (remove_module k m) = mm_cells m"
  by (simp add: remove_module_def)

lemma instances_of_remove:
  "instances_of (remove_module k m) k' = (if k' = k then [] else instances_of m k')"
  by (simp add: instances_of_def remove_module_def delete_conv')

lemma instances_of_deregister:
  "instances_of (deregister k x m) k' =
     (if k' = k then filter (\<lambda>i. mi_instance_id i \<noteq> x) (instances_of m k) else instances_of m k')"
proof (cases "map_of (mm_inner m) k")
  case None
  then show ?thesis by (simp add: deregister_def deregister_retain_def instances_of_def)
next
  case (Some v)
  then have "instances_of m k = v" by (simp add: instances_of_def)
  with Some show ?thesis by (auto simp: deregister_def deregister_retain_def Let_def instances_of_remove)
qed

lemma find_filter_other:
  "find (\<lambda>i. f i = y) (filter (\<lambda>i. f i \<noteq> x) v) = (if y = x then None else find (\<lambda>i. f i = y) v)"
  by (induction v) auto

lemma wf_instances:
  assumes "wf_directory m"
  shows "distinct (map mi_instance_id (instances_of m k)) \<and> (\<forall>i \<in> set (instances_of m k). mi_module i = k)"
  using assms by (auto simp: wf_directory_def instances_of_def split: option.splits dest!: map_of_SomeD)

lemma set_alist_update:
  "set (AList.update k v al) \<subseteq> insert (k, v) {p \<in> set al. fst p \<noteq> k} \<union> set al"
  by (induction al) auto

lemma set_alist_update_distinct:
  "distinct (map fst al) \<Longrightarrow> set (AList.update k v al) = insert (k, v) {p \<in> set al. fst p \<noteq> k}"
  by (induction al) force+

lemma wf_register: "wf_directory m \<Longrightarrow> wf_directory (register_instance i m)"
  using wf_instances[of m "mi_module i"] put_instance_set[of i "instances_of m (mi_module i)"]
  by (auto simp: wf_directory_def register_instance_def distinct_update set_alist_update_distinct
      put_instance_distinct)

lemma wf_remove_module: "wf_directory m \<Longrightarrow> wf_directory (remove_module k m)"
  by (auto simp: wf_directory_def remove_module_def AList.delete_eq distinct_map_filter)

lemma wf_deregister:
  assumes "wf_directory m"
  shows "wf_directory (deregister k x m)"
proof (cases "map_of (mm_inner m) k")
  case None
  with assms show ?thesis by (simp add: deregister_def deregister_retain_def)
next
  case (Some v)
  let ?l = "filter (\<lambda>i. mi_instance_id i \<noteq> x) v"
  have v: "distinct (map mi_instance_id ?l) \<and> (\<forall>i \<in> set ?l. mi_module i = k)"
    using assms Some by (auto simp: wf_directory_def distinct_map_filter dest!: map_of_SomeD)
  show ?thesis
  proof (cases "?l = []")
    case True
    with assms Some show ?thesis
      by (auto simp: deregister_def deregister_retain_def Let_def wf_directory_def remove_module_def distinct_map_filter
          distinct_update AList.delete_eq set_alist_update_distinct)
  next
    case False
    with assms Some v show ?thesis
      by (auto simp: deregister_def deregister_retain_def Let_def wf_directory_def distinct_update set_alist_update_distinct)
  qed
qed

interpretation mm: instance_directory "\<lambda>m k x. find_instance k x m" register_instance deregister
    mi_module mi_instance_id wf_directory
proof unfold_locales
  fix m :: module_manager and i k x assume "wf_directory m"
  show "find_instance k x (register_instance i m) =
      (if k = mi_module i \<and> x = mi_instance_id i then Some i else find_instance k x m)"
    by (simp add: find_instance_def register_instance_def find_put_instance)
next
  fix m :: module_manager and k' x' k x assume "wf_directory m"
  show "find_instance k x (deregister k' x' m) =
      (if k = k' \<and> x = x' then None else find_instance k x m)"
    by (simp add: find_instance_def instances_of_deregister find_filter_other)
qed (auto intro: wf_register wf_deregister)

section \<open>Eviction\<close>

text \<open>The cells of registered instances exist and are not shared: every instance was made by
  \<open>ModuleInstance::new\<close>.\<close>

definition wf_cells :: "module_manager \<Rightarrow> bool" where
  "wf_cells m \<longleftrightarrow> inj_on mi_inner (set (all_instances m)) \<and>
     (\<forall>i \<in> set (all_instances m). mi_inner i < length (mm_cells m))"

definition keeps :: "nat \<Rightarrow> module_manager \<Rightarrow> module_instance \<Rightarrow> bool" where
  "keeps now m i \<longleftrightarrow> snd (evict_verdict (mm_hb_ttl m) (mm_hb_grace m) now (mm_cells m ! mi_inner i))"

lemma retain_stale_spec:
  assumes "distinct (map mi_inner is)" "\<forall>i \<in> set is. mi_inner i < length cells"
  shows "\<exists>cells'. retain_stale ttl grace now is cells =
      (filter (\<lambda>i. snd (evict_verdict ttl grace now (cells ! mi_inner i))) is, cells') \<and>
    length cells' = length cells \<and>
    (\<forall>a < length cells. cells' ! a =
       (if a \<in> mi_inner ` set is then fst (evict_verdict ttl grace now (cells ! a)) else cells ! a))"
  using assms
proof (induction "is" arbitrary: cells)
  case (Cons i "is")
  let ?s = "fst (evict_verdict ttl grace now (cells ! mi_inner i))"
  let ?c = "cells[mi_inner i := ?s]"
  have ni: "mi_inner i \<notin> mi_inner ` set is" using Cons.prems by simp
  then have same: "\<And>j. j \<in> set is \<Longrightarrow> ?c ! mi_inner j = cells ! mi_inner j" by (metis imageI nth_list_update_neq)
  from Cons.IH[of ?c] Cons.prems obtain cells' where
    r: "retain_stale ttl grace now is ?c =
        (filter (\<lambda>i. snd (evict_verdict ttl grace now (?c ! mi_inner i))) is, cells')"
      "length cells' = length cells"
      "\<forall>a < length cells. cells' ! a =
         (if a \<in> mi_inner ` set is then fst (evict_verdict ttl grace now (?c ! a)) else ?c ! a)" by auto
  have f: "filter (\<lambda>i. snd (evict_verdict ttl grace now (?c ! mi_inner i))) is =
      filter (\<lambda>i. snd (evict_verdict ttl grace now (cells ! mi_inner i))) is"
    using same by (intro filter_cong) auto
  have "cells' ! a = (if a \<in> mi_inner ` set (i # is) then fst (evict_verdict ttl grace now (cells ! a)) else cells ! a)"
    if "a < length cells" for a
    using r(3) that ni Cons.prems by (cases "a = mi_inner i") auto
  with r(1,2) f show ?case by (auto simp: Let_def split: prod.splits)
qed auto

lemma evict_entries_spec:
  assumes "distinct (map mi_inner (concat (map snd inner)))"
    "\<forall>i \<in> set (concat (map snd inner)). mi_inner i < length cells"
  shows "\<exists>cells'. evict_entries ttl grace now inner cells =
      (let inner' = map (\<lambda>(k, v). (k, filter (\<lambda>i. snd (evict_verdict ttl grace now (cells ! mi_inner i))) v)) inner
       in (inner', map fst (filter (\<lambda>(k, v). v = []) inner'), cells')) \<and>
    length cells' = length cells \<and>
    (\<forall>a < length cells. cells' ! a =
       (if a \<in> mi_inner ` set (concat (map snd inner)) then fst (evict_verdict ttl grace now (cells ! a)) else cells ! a))"
  using assms
proof (induction inner arbitrary: cells)
  case (Cons p rest)
  obtain k v where p: "p = (k, v)" by (cases p)
  let ?V = "evict_verdict ttl grace now"
  have "distinct (map mi_inner v)" "\<forall>i \<in> set v. mi_inner i < length cells"
    and disj: "mi_inner ` set v \<inter> mi_inner ` set (concat (map snd rest)) = {}" using Cons.prems p by auto
  with retain_stale_spec obtain c1 where
    r: "retain_stale ttl grace now v cells = (filter (\<lambda>i. snd (?V (cells ! mi_inner i))) v, c1)"
      "length c1 = length cells"
      "\<forall>a < length cells. c1 ! a = (if a \<in> mi_inner ` set v then fst (?V (cells ! a)) else cells ! a)"
    by blast
  from Cons.IH[of c1] Cons.prems p r(2) obtain c2 where
    e: "evict_entries ttl grace now rest c1 =
        (let inner' = map (\<lambda>(k, v). (k, filter (\<lambda>i. snd (?V (c1 ! mi_inner i))) v)) rest
         in (inner', map fst (filter (\<lambda>(k, v). v = []) inner'), c2))"
      "length c2 = length cells"
      "\<forall>a < length cells. c2 ! a =
         (if a \<in> mi_inner ` set (concat (map snd rest)) then fst (?V (c1 ! a)) else c1 ! a)" by auto
  have same: "c1 ! mi_inner i = cells ! mi_inner i" if "i \<in> set (concat (map snd rest))" for i
    using r(3) disj that Cons.prems(2) p by auto
  have m: "map (\<lambda>(k, v). (k, filter (\<lambda>i. snd (?V (c1 ! mi_inner i))) v)) rest =
      map (\<lambda>(k, v). (k, filter (\<lambda>i. snd (?V (cells ! mi_inner i))) v)) rest"
    using same by (intro map_cong refl) (force intro!: filter_cong)
  have "c2 ! a = (if a \<in> mi_inner ` set (concat (map snd (p # rest))) then fst (?V (cells ! a)) else cells ! a)"
    if a: "a < length cells" for a
  proof (cases "a \<in> mi_inner ` set v")
    case True
    then have "a \<notin> mi_inner ` set (concat (map snd rest))" using disj by blast
    with r(3) e(3) a True p show ?thesis by (simp add: image_Un)
  next
    case False
    with r(3) e(3) a p show ?thesis by (simp add: image_Un)
  qed
  with r(1) e(1,2) m p show ?case by (simp add: Let_def)
qed (simp add: Let_def)

lemma set_all_instances: "set (all_instances m) = (\<Union>(k, v) \<in> set (mm_inner m). set v)"
  by (force simp: all_instances_def)

lemma distinct_all_instances:
  assumes "wf_directory m"
  shows "distinct (all_instances m)"
proof -
  have "distinct (concat (map snd al))"
    if "distinct (map fst al)" "\<forall>(k, v) \<in> set al. distinct (map mi_instance_id v) \<and> (\<forall>i \<in> set v. mi_module i = k)"
    for al :: "(string \<times> module_instance list) list"
    using that
  proof (induction al)
    case (Cons p al)
    obtain k v where p: "p = (k, v)" by (cases p)
    have "set v \<inter> set (concat (map snd al)) = {}" using Cons.prems p by force
    moreover have "distinct v" using Cons.prems p by (auto simp: distinct_map)
    ultimately show ?case using Cons p by simp
  qed simp
  from this[of "mm_inner m"] assms show ?thesis by (auto simp: wf_directory_def all_instances_def)
qed

lemma instances_of_all: "set (instances_of m k) \<subseteq> set (all_instances m)"
proof (cases "map_of (mm_inner m) k")
  case (Some v)
  then have "(k, v) \<in> set (mm_inner m)" by (rule map_of_SomeD)
  with Some show ?thesis by (auto simp: instances_of_def set_all_instances)
qed (simp add: instances_of_def)

lemma fold_remove_module:
  "instances_of (fold remove_module ks m) k = (if k \<in> set ks then [] else instances_of m k) \<and>
   mm_cells (fold remove_module ks m) = mm_cells m"
  by (induction ks arbitrary: m) (auto simp: instances_of_remove)

lemma wf_fold_remove_all:
  assumes "distinct (map fst (mm_inner m))"
    "\<forall>(k, v) \<in> set (mm_inner m). k \<notin> set ks \<longrightarrow> v \<noteq> [] \<and> distinct (map mi_instance_id v) \<and> (\<forall>i \<in> set v. mi_module i = k)"
  shows "wf_directory (fold remove_module ks m)"
proof -
  have inner: "mm_inner (fold remove_module ks m) = filter (\<lambda>(k, v). k \<notin> set ks) (mm_inner m)" for m
    by (induction ks arbitrary: m) (auto simp: remove_module_def AList.delete_eq intro!: filter_cong)
  show ?thesis using assms unfolding wf_directory_def inner by (auto simp: distinct_map_filter)
qed

lemma evict_stale_cases:
  assumes "wf_directory m" "wf_cells m"
  obtains cells' where
    "evict_stale now m = (let inner' = map (\<lambda>(k, v). (k, filter (keeps now m) v)) (mm_inner m)
       in fold remove_module (map fst (filter (\<lambda>(k, v). v = []) inner')) (m\<lparr>mm_inner := inner', mm_cells := cells'\<rparr>))"
    "length cells' = length (mm_cells m)"
    "\<forall>a < length (mm_cells m). cells' ! a =
       (if a \<in> mi_inner ` set (all_instances m)
        then fst (evict_verdict (mm_hb_ttl m) (mm_hb_grace m) now (mm_cells m ! a)) else mm_cells m ! a)"
proof -
  have d: "distinct (map mi_inner (concat (map snd (mm_inner m))))"
    "\<forall>i \<in> set (concat (map snd (mm_inner m))). mi_inner i < length (mm_cells m)"
    using distinct_all_instances[OF assms(1)] assms(2)
    by (auto simp: distinct_map wf_cells_def all_instances_def)
  have k: "keeps now m = (\<lambda>i. snd (evict_verdict (mm_hb_ttl m) (mm_hb_grace m) now (mm_cells m ! mi_inner i)))"
    by (intro ext) (simp add: keeps_def)
  from evict_entries_spec[OF d, of "mm_hb_ttl m" "mm_hb_grace m" now] that show ?thesis
    unfolding evict_stale_def k all_instances_def[symmetric] Let_def by fastforce
qed

lemma instances_of_evict_stale:
  assumes "wf_directory m" "wf_cells m"
  shows "instances_of (evict_stale now m) k = filter (keeps now m) (instances_of m k)"
proof -
  obtain cells' where e: "evict_stale now m = (let inner' = map (\<lambda>(k, v). (k, filter (keeps now m) v)) (mm_inner m)
       in fold remove_module (map fst (filter (\<lambda>(k, v). v = []) inner')) (m\<lparr>mm_inner := inner', mm_cells := cells'\<rparr>))"
    using evict_stale_cases[OF assms] by metis
  have d: "distinct (map fst (mm_inner m))" using assms(1) by (simp add: wf_directory_def)
  show ?thesis
  proof (cases "map_of (mm_inner m) k")
    case None
    with e show ?thesis
      by (simp add: Let_def fold_remove_module) (simp add: instances_of_def map_of_map)
  next
    case (Some v)
    then have "k \<in> set (map fst (filter (\<lambda>(k, v). v = []) (map (\<lambda>(k, v). (k, filter (keeps now m) v)) (mm_inner m)))) \<longrightarrow>
        filter (keeps now m) v = []"
    proof (intro impI)
      assume "k \<in> set (map fst (filter (\<lambda>(k, v). v = []) (map (\<lambda>(k, v). (k, filter (keeps now m) v)) (mm_inner m))))"
      then obtain w where "(k, w) \<in> set (mm_inner m)" "filter (keeps now m) w = []" by auto
      then show "filter (keeps now m) v = []" using Some map_of_is_SomeI[OF d] by fastforce
    qed
    with e Some show ?thesis
      by (auto simp: Let_def fold_remove_module) (auto simp: instances_of_def map_of_map)
  qed
qed

lemma evict_stale_cells:
  assumes "wf_directory m" "wf_cells m"
  shows "length (mm_cells (evict_stale now m)) = length (mm_cells m)"
    and "i \<in> set (all_instances m) \<Longrightarrow> mm_cells (evict_stale now m) ! mi_inner i =
      fst (evict_verdict (mm_hb_ttl m) (mm_hb_grace m) now (mm_cells m ! mi_inner i))"
  by (rule evict_stale_cases[OF assms, of now];
      use assms(2) in \<open>auto simp: Let_def fold_remove_module wf_cells_def\<close>)+

lemma wf_evict_stale:
  assumes "wf_directory m" "wf_cells m"
  shows "wf_directory (evict_stale now m)"
proof -
  obtain cells' where e: "evict_stale now m = (let inner' = map (\<lambda>(k, v). (k, filter (keeps now m) v)) (mm_inner m)
       in fold remove_module (map fst (filter (\<lambda>(k, v). v = []) inner')) (m\<lparr>mm_inner := inner', mm_cells := cells'\<rparr>))"
    using evict_stale_cases[OF assms] by metis
  have "map fst (map (\<lambda>(k, v). (k, filter (keeps now m) v)) (mm_inner m)) = map fst (mm_inner m)"
    by (auto simp: comp_def split_beta)
  then have d: "distinct (map fst (map (\<lambda>(k, v). (k, filter (keeps now m) v)) (mm_inner m)))"
    using assms(1) unfolding wf_directory_def by metis
  show ?thesis unfolding e Let_def
  proof (rule wf_fold_remove_all)
    show "\<forall>(k, v) \<in> set (mm_inner (m\<lparr>mm_inner := map (\<lambda>(k, v). (k, filter (keeps now m) v)) (mm_inner m),
        mm_cells := cells'\<rparr>)). k \<notin> set (map fst (filter (\<lambda>(k, v). v = []) (map (\<lambda>(k, v). (k, filter (keeps now m) v))
        (mm_inner m)))) \<longrightarrow> v \<noteq> [] \<and> distinct (map mi_instance_id v) \<and> (\<forall>i \<in> set v. mi_module i = k)"
    proof clarify
      fix k v
      assume "(k, v) \<in> set (mm_inner (m\<lparr>mm_inner := map (\<lambda>(k, v). (k, filter (keeps now m) v)) (mm_inner m),
        mm_cells := cells'\<rparr>))"
        and n: "k \<notin> set (map fst (filter (\<lambda>(k, v). v = []) (map (\<lambda>(k, v). (k, filter (keeps now m) v)) (mm_inner m))))"
      then obtain w where w: "(k, w) \<in> set (mm_inner m)" "v = filter (keeps now m) w" by auto
      then have "v \<noteq> []" using n by (force simp: image_iff)
      moreover have "distinct (map mi_instance_id w) \<and> (\<forall>i \<in> set w. mi_module i = k)"
        using assms(1) w(1) by (auto simp: wf_directory_def)
      ultimately show "v \<noteq> [] \<and> distinct (map mi_instance_id v) \<and> (\<forall>i \<in> set v. mi_module i = k)"
        using w(2) by (simp add: distinct_map_filter)
    qed
  qed (use d in simp)
qed

section \<open>Reachable managers\<close>

text \<open>Every operation of the manager as a step. An instance is registered as built by
  \<open>ModuleInstance::new\<close> and the builder methods, which change neither the module, the id nor the
  cell. Steps are atomic: \<open>deregister\<close> and \<open>evict_stale\<close> release the entry before they remove an emptied module, and what a
  registration in that window loses is the subject of \<open>deregister_loses_concurrent_register\<close> below.\<close>

inductive mm_step :: "module_manager \<Rightarrow> module_manager \<Rightarrow> bool" where
  step_register: "\<lbrakk>new_instance k x now m = (i, m'); mi_module j = mi_module i;
     mi_instance_id j = mi_instance_id i; mi_inner j = mi_inner i\<rbrakk> \<Longrightarrow> mm_step m (register_instance j m')"
| step_ready: "mm_step m (mark_ready k x m)"
| step_heartbeat: "mm_step m (update_heartbeat k x at m)"
| step_quarantined: "mm_step m (mark_quarantined k x m)"
| step_draining: "mm_step m (mark_draining k x m)"
| step_deregister: "mm_step m (deregister k x m)"
| step_evict: "mm_step m (evict_stale now m)"
| step_pick: "mm_step m (snd (pick_instance_round_robin k m))"
| step_pick_service: "mm_step m (snd (pick_service_round_robin k m))"

inductive mm_reachable :: "module_manager \<Rightarrow> bool" where
  mm_init: "mm_reachable (with_heartbeat_policy ttl grace new_manager)"
| mm_next: "mm_reachable m \<Longrightarrow> mm_step m m' \<Longrightarrow> mm_reachable m'"

definition mm_invar :: "module_manager \<Rightarrow> bool" where
  "mm_invar m \<longleftrightarrow> wf_directory m \<and> wf_cells m"

lemma instances_of_inner: "mm_inner m' = mm_inner m \<Longrightarrow> instances_of m' = instances_of m"
  by (intro ext) (simp add: instances_of_def)

lemma mm_invar_same_inner:
  assumes "mm_invar m" "mm_inner m' = mm_inner m" "length (mm_cells m') = length (mm_cells m)"
  shows "mm_invar m'"
  using assms by (simp add: mm_invar_def wf_directory_def wf_cells_def all_instances_def)

lemma write_cell_simps [simp]:
  "mm_inner (write_cell a f m) = mm_inner m" "length (mm_cells (write_cell a f m)) = length (mm_cells m)"
  "mm_rr_counters (write_cell a f m) = mm_rr_counters m"
  by (simp_all add: write_cell_def)

lemma mark_inner [simp]:
  "mm_inner (mark_ready k x m) = mm_inner m" "length (mm_cells (mark_ready k x m)) = length (mm_cells m)"
  "mm_inner (mark_quarantined k x m) = mm_inner m" "length (mm_cells (mark_quarantined k x m)) = length (mm_cells m)"
  "mm_inner (mark_draining k x m) = mm_inner m" "length (mm_cells (mark_draining k x m)) = length (mm_cells m)"
  "mm_inner (update_heartbeat k x at m) = mm_inner m" "length (mm_cells (update_heartbeat k x at m)) = length (mm_cells m)"
  by (simp_all add: mark_ready_def mark_quarantined_def mark_draining_def update_heartbeat_def split: option.splits)

lemma pick_inner [simp]:
  "mm_inner (snd (rr_pick k c m)) = mm_inner m" "mm_cells (snd (rr_pick k c m)) = mm_cells m"
  by (simp_all add: rr_pick_def Let_def)

lemma pick_instance_inner [simp]:
  "mm_inner (snd (pick_instance_round_robin k m)) = mm_inner m"
  "mm_cells (snd (pick_instance_round_robin k m)) = mm_cells m"
  "mm_inner (snd (pick_service_round_robin k m)) = mm_inner m"
  "mm_cells (snd (pick_service_round_robin k m)) = mm_cells m"
  by (simp_all add: pick_instance_round_robin_def pick_service_round_robin_def split: option.splits)

lemma all_instances_register:
  assumes "wf_directory m"
  shows "set (all_instances (register_instance i m)) \<subseteq> insert i (set (all_instances m))"
  using assms put_instance_set[of i "instances_of m (mi_module i)"] instances_of_all[of m "mi_module i"]
  by (auto simp: set_all_instances register_instance_def wf_directory_def set_alist_update_distinct)

lemma wf_cells_mono:
  "wf_cells m \<Longrightarrow> set (all_instances m') \<subseteq> set (all_instances m) \<Longrightarrow>
   length (mm_cells m) \<le> length (mm_cells m') \<Longrightarrow> wf_cells m'"
  by (auto simp: wf_cells_def intro: inj_on_subset less_le_trans)

lemma set_all_instances_of:
  assumes "wf_directory m"
  shows "set (all_instances m) = (\<Union>k. set (instances_of m k))"
proof (intro subset_antisym UN_least instances_of_all)
  have "set v \<subseteq> (\<Union>k. set (instances_of m k))" if "(k, v) \<in> set (mm_inner m)" for k v
    using assms that map_of_is_SomeI[of "mm_inner m" k v] by (auto simp: wf_directory_def instances_of_def intro: exI[of _ k])
  then show "set (all_instances m) \<subseteq> (\<Union>k. set (instances_of m k))" by (auto simp: set_all_instances)
qed

lemma mm_invar_register_fresh:
  assumes "mm_invar m" "new_instance k x now m = (i, m')" "mi_inner j = mi_inner i"
  shows "mm_invar (register_instance j m')"
proof -
  have wf: "wf_directory m'" using assms by (force simp: new_instance_def mm_invar_def wf_directory_def)
  have c: "mm_cells m' = mm_cells m @ [\<lparr>last_heartbeat = now, state = Registered\<rparr>]"
    and a: "all_instances m' = all_instances m" and j: "mi_inner j = length (mm_cells m)"
    using assms by (auto simp: new_instance_def all_instances_def)
  have w: "inj_on mi_inner (set (all_instances m))" "\<forall>i \<in> set (all_instances m). mi_inner i < length (mm_cells m)"
    using assms(1) by (auto simp: mm_invar_def wf_cells_def)
  have "mi_inner j \<notin> mi_inner ` set (all_instances m)" using w(2) j by auto
  with w(1) have "inj_on mi_inner (insert j (set (all_instances m)))" by auto
  moreover have s: "set (all_instances (register_instance j m')) \<subseteq> insert j (set (all_instances m))"
    using all_instances_register[OF wf, of j] a by simp
  moreover have "mm_cells (register_instance j m') = mm_cells m'" by (simp add: register_instance_def)
  ultimately have "inj_on mi_inner (set (all_instances (register_instance j m')))"
    and l: "length (mm_cells (register_instance j m')) = Suc (length (mm_cells m))"
    using c by (auto intro: inj_on_subset)
  moreover have "mi_inner i < Suc (length (mm_cells m))" if "i \<in> insert j (set (all_instances m))" for i
    using that w(2) j by (auto intro: less_SucI)
  ultimately have "wf_cells (register_instance j m')" using s by (auto simp: wf_cells_def)
  with wf show ?thesis by (simp add: mm_invar_def wf_register)
qed

lemma mm_invar_deregister: "mm_invar m \<Longrightarrow> mm_invar (deregister k x m)"
proof -
  assume i: "mm_invar m"
  then have w: "wf_directory m" "wf_directory (deregister k x m)" by (simp_all add: mm_invar_def wf_deregister)
  have "set (all_instances (deregister k x m)) \<subseteq> set (all_instances m)"
    unfolding set_all_instances_of[OF w(1)] set_all_instances_of[OF w(2)] by (fastforce simp: instances_of_deregister split: if_splits)
  moreover have "mm_cells (deregister k x m) = mm_cells m"
    by (simp add: deregister_def deregister_retain_def Let_def split: option.splits)
  ultimately show ?thesis using i w(2) by (auto simp: mm_invar_def intro: wf_cells_mono)
qed

lemma mm_invar_evict: "mm_invar m \<Longrightarrow> mm_invar (evict_stale now m)"
proof -
  assume i: "mm_invar m"
  then have w: "wf_directory m" "wf_cells m" "wf_directory (evict_stale now m)"
    by (simp_all add: mm_invar_def wf_evict_stale)
  have "set (all_instances (evict_stale now m)) \<subseteq> set (all_instances m)"
    unfolding set_all_instances_of[OF w(1)] set_all_instances_of[OF w(3)]
    by (auto simp: instances_of_evict_stale[OF w(1,2)])
  with w show ?thesis by (auto simp: mm_invar_def evict_stale_cells intro: wf_cells_mono)
qed

lemma mm_invar_step: "mm_step m m' \<Longrightarrow> mm_invar m \<Longrightarrow> mm_invar m'"
  by (induction rule: mm_step.induct)
    (blast intro: mm_invar_register_fresh mm_invar_deregister mm_invar_evict | (erule mm_invar_same_inner; simp))+

lemma mm_invar_reachable: "mm_reachable m \<Longrightarrow> mm_invar m"
proof (induction rule: mm_reachable.induct)
  case (mm_init ttl grace)
  show ?case
    by (simp add: mm_invar_def wf_directory_def wf_cells_def all_instances_def with_heartbeat_policy_def new_manager_def)
qed (rule mm_invar_step)

section \<open>Round robin\<close>

fun rr_picks :: "nat \<Rightarrow> string \<Rightarrow> module_manager \<Rightarrow> module_instance option list" where
  "rr_picks 0 k m = []"
| "rr_picks (Suc n) k m = (let (p, m') = pick_instance_round_robin k m in p # rr_picks n k m')"

definition rr_counter :: "module_manager \<Rightarrow> string \<Rightarrow> nat" where
  "rr_counter m k = (case map_of (mm_rr_counters m) k of Some c \<Rightarrow> c | None \<Rightarrow> 0)"

lemma rr_candidates_nonempty: "rr_candidates m k = [] \<longleftrightarrow> instances_of m k = []"
  by (auto simp: rr_candidates_def Let_def)

lemma rr_candidates_same:
  "mm_inner m' = mm_inner m \<Longrightarrow> mm_cells m' = mm_cells m \<Longrightarrow> rr_candidates m' = rr_candidates m"
  by (intro ext, drule instances_of_inner) (simp add: rr_candidates_def inst_state_def Let_def)

lemma pick_instance_eq:
  assumes "instances_of m k \<noteq> []"
  shows "fst (pick_instance_round_robin k m) =
      Some (rr_candidates m k ! (rr_counter m k mod length (rr_candidates m k)))"
    and "rr_counter (snd (pick_instance_round_robin k m)) k = (rr_counter m k + 1) mod length (rr_candidates m k)"
proof -
  have "rr_candidates m k \<noteq> []" "\<exists>v. map_of (mm_inner m) k = Some v \<and> v \<noteq> []"
    using assms by (auto simp: rr_candidates_nonempty instances_of_def split: option.splits)
  then have "pick_instance_round_robin k m = rr_pick k (rr_candidates m k) m"
    by (auto simp: pick_instance_round_robin_def)
  with \<open>rr_candidates m k \<noteq> []\<close> show
    "fst (pick_instance_round_robin k m) = Some (rr_candidates m k ! (rr_counter m k mod length (rr_candidates m k)))"
    "rr_counter (snd (pick_instance_round_robin k m)) k = (rr_counter m k + 1) mod length (rr_candidates m k)"
    by (simp_all add: rr_pick_def rr_counter_def Let_def update_conv')
qed

lemma rr_picks_eq:
  assumes "instances_of m k \<noteq> []"
  shows "rr_picks n k m =
    map (\<lambda>j. Some (rr_candidates m k ! ((rr_counter m k + j) mod length (rr_candidates m k)))) [0..<n]"
  using assms
proof (induction n arbitrary: m)
  case (Suc n)
  let ?m = "snd (pick_instance_round_robin k m)"
  have c: "rr_candidates ?m = rr_candidates m" by (rule rr_candidates_same) simp_all
  have "instances_of ?m k \<noteq> []" using Suc.prems by (simp add: instances_of_inner[of ?m m])
  from Suc.IH[OF this] have "rr_picks n k ?m = map (\<lambda>j. Some (rr_candidates m k !
      ((rr_counter m k + Suc j) mod length (rr_candidates m k)))) [0..<n]"
    by (simp add: c pick_instance_eq(2)[OF Suc.prems] mod_add_left_eq)
  then show ?case
    using pick_instance_eq(1)[OF Suc.prems]
    by (simp add: Let_def split_beta map_upt_Suc del: upt_Suc)
qed simp

lemma rr_picks_rotation:
  assumes "instances_of m k \<noteq> []"
  shows "rr_picks (length (rr_candidates m k)) k m = map Some (rotate (rr_counter m k) (rr_candidates m k))"
  unfolding rr_picks_eq[OF assms] by (intro nth_equalityI) (auto simp: nth_rotate ac_simps)

lemma service_candidates_iff:
  assumes "wf_directory m"
  shows "(k, i, ep) \<in> set (service_candidates m s) \<longleftrightarrow>
    i \<in> set (instances_of m k) \<and> map_of (mi_grpc_services i) s = Some ep \<and> is_available (inst_state m i)"
proof -
  have d: "distinct (map fst (mm_inner m))" using assms by (simp add: wf_directory_def)
  have "(k, i, ep) \<in> set (service_candidates m s) \<longleftrightarrow> (\<exists>v. (k, v) \<in> set (mm_inner m) \<and> i \<in> set v \<and>
      map_of (mi_grpc_services i) s = Some ep \<and> is_available (inst_state m i))"
    by (force simp: service_candidates_def split: option.splits if_splits)
  then show ?thesis by (auto simp: instances_of_def map_of_eq_Some_iff[OF d, symmetric] split: option.splits)
qed

lemma fst_pick_service:
  "fst (pick_service_round_robin s m) =
     (if service_candidates m s = [] then None
      else Some (service_candidates m s ! (rr_counter m s mod length (service_candidates m s))))"
  by (simp add: pick_service_round_robin_def rr_pick_def rr_counter_def Let_def)

section \<open>Properties\<close>

text \<open>C9. In every reachable manager module names are unique keys with non-empty lists, ids are
  unique within a module, an instance is filed under its own module, and no two registered
  instances share a runtime-state cell.\<close>

theorem mm_reachable_invariant:
  assumes "mm_reachable m"
  shows "wf_directory m \<and> wf_cells m"
  using mm_invar_reachable[OF assms] by (simp add: mm_invar_def)

text \<open>One pass of \<open>evict_stale\<close> on a reachable manager: an instance leaves the directory exactly
  when it was already quarantined before the pass and its heartbeat is older than TTL plus grace; a
  live instance whose heartbeat is older than the TTL becomes quarantined and stays registered; a
  draining instance is never touched.\<close>

theorem evict_stale_effect:
  assumes "mm_reachable m" and "i \<in> set (instances_of m k)"
  shows "(i \<notin> set (instances_of (evict_stale now m) k) \<longleftrightarrow>
       inst_state m i = Quarantined \<and> now - inst_last_heartbeat m i \<ge> mm_hb_ttl m + mm_hb_grace m) \<and>
    inst_state (evict_stale now m) i =
      (if now - inst_last_heartbeat m i \<ge> mm_hb_ttl m \<and> inst_state m i \<noteq> Draining then Quarantined
       else inst_state m i) \<and>
    inst_last_heartbeat (evict_stale now m) i = inst_last_heartbeat m i"
proof -
  have w: "wf_directory m" "wf_cells m" using mm_invar_reachable[OF assms(1)] by (simp_all add: mm_invar_def)
  have "i \<in> set (all_instances m)" using assms(2) instances_of_all by blast
  note c = evict_stale_cells(2)[OF w this, of now]
  show ?thesis using assms(2)
    by (auto simp: instances_of_evict_stale[OF w] keeps_def inst_state_def inst_last_heartbeat_def c
        evict_verdict_def Let_def)
qed

text \<open>C28. Round robin is fair: with the directory unchanged, as many consecutive picks as there are
  candidates return a rotation of the candidate list, so every candidate exactly once; the
  candidates are the healthy or ready instances, or all instances when there is none.\<close>

theorem round_robin_fair:
  assumes "instances_of m k \<noteq> []"
  shows "rr_picks (length (rr_candidates m k)) k m = map Some (rotate (rr_counter m k) (rr_candidates m k)) \<and>
    (\<forall>i \<in> set (rr_candidates m k). i \<in> set (instances_of m k) \<and>
       (is_available (inst_state m i) \<or> (\<forall>j \<in> set (instances_of m k). \<not> is_available (inst_state m j))))"
  using rr_picks_rotation[OF assms] by (auto simp: rr_candidates_def Let_def filter_empty_conv)

text \<open>\<open>pick_service_round_robin\<close> returns only a registered, healthy or ready instance that offers
  the service, with the endpoint it registered, and returns nothing only when there is none.\<close>

theorem pick_service_sound_complete:
  assumes "mm_reachable m"
  shows "(case fst (pick_service_round_robin s m) of
      Some (k, i, ep) \<Rightarrow> i \<in> set (instances_of m k) \<and> map_of (mi_grpc_services i) s = Some ep \<and>
        is_available (inst_state m i)
    | None \<Rightarrow> \<not> (\<exists>k. \<exists>i \<in> set (instances_of m k). map_of (mi_grpc_services i) s \<noteq> None \<and>
        is_available (inst_state m i)))"
proof -
  have w: "wf_directory m" using mm_invar_reachable[OF assms] by (simp add: mm_invar_def)
  show ?thesis
  proof (cases "service_candidates m s = []")
    case True
    then have "\<And>k i ep. \<not> (i \<in> set (instances_of m k) \<and> map_of (mi_grpc_services i) s = Some ep \<and>
        is_available (inst_state m i))" unfolding service_candidates_iff[OF w, symmetric] by simp
    with True show ?thesis by (auto simp: fst_pick_service)
  next
    case False
    let ?c = "service_candidates m s ! (rr_counter m s mod length (service_candidates m s))"
    obtain k i ep where c: "?c = (k, i, ep)" by (cases ?c) auto
    have "?c \<in> set (service_candidates m s)" using False by simp
    with c False show ?thesis by (simp add: fst_pick_service service_candidates_iff[OF w])
  qed
qed

text \<open>Deregistering a freshly registered instance restores every lookup, and any sequence of
  registrations leaves the last instance registered for a pair of module and id.\<close>

theorem register_deregister_roundtrip:
  assumes "wf_directory m" and "find_instance (mi_module i) (mi_instance_id i) m = None"
  shows "(\<forall>k x. find_instance k x (deregister (mi_module i) (mi_instance_id i) (register_instance i m)) =
      find_instance k x m) \<and>
    find_instance k x (fold register_instance is m) =
      (case find (\<lambda>i. mi_module i = k \<and> mi_instance_id i = x) (rev is) of
         Some i \<Rightarrow> Some i | None \<Rightarrow> find_instance k x m)"
  using mm.register_remove_roundtrip[OF assms] mm.lookup_fold_register[OF assms(1)]
  by (metis (no_types))

text \<open>\<open>deregister\<close> releases the entry before it removes an emptied module, so a registration that
  runs in between is lost: the instance registered after the filter and before the removal is no
  longer in the directory.\<close>

theorem deregister_loses_concurrent_register:
  assumes "deregister_retain k x m = (True, m1)" and "mi_module j = k"
  shows "find_instance k (mi_instance_id j) (register_instance j m1) = Some j \<and>
    find_instance k (mi_instance_id j) (remove_module k (register_instance j m1)) = None"
  using assms by (simp add: find_instance_def instances_of_remove register_instance_def find_put_instance)

section \<open>Witnesses\<close>

definition demo_instance :: "string \<Rightarrow> nat \<Rightarrow> nat \<Rightarrow> module_instance" where
  "demo_instance k x a = \<lparr>mi_module = k, mi_instance_id = x, mi_control = None,
     mi_grpc_services = [(''svc'', from_uri ''http://h:1'')], mi_version = None, mi_inner = a\<rparr>"

definition demo_a :: module_manager where
  "demo_a = register_instance (demo_instance ''a'' 3 0)
     (snd (new_instance ''a'' 3 10 (with_heartbeat_policy 100 200 new_manager)))"

definition demo_manager :: module_manager where
  "demo_manager = register_instance (demo_instance ''b'' 7 1)
     (snd (new_instance ''b'' 7 50 (update_heartbeat ''a'' 3 60 demo_a)))"

lemma demo_a_eq: "demo_a = \<lparr>mm_inner = [(''a'', [demo_instance ''a'' 3 0])], mm_rr_counters = [],
    mm_hb_ttl = 100, mm_hb_grace = 200, mm_cells = [\<lparr>last_heartbeat = 10, state = Registered\<rparr>]\<rparr>"
  by (simp add: demo_a_def register_instance_def new_instance_def with_heartbeat_policy_def new_manager_def
      instances_of_def demo_instance_def)

lemma demo_heartbeat_eq: "update_heartbeat ''a'' 3 60 demo_a =
    \<lparr>mm_inner = [(''a'', [demo_instance ''a'' 3 0])], mm_rr_counters = [],
     mm_hb_ttl = 100, mm_hb_grace = 200, mm_cells = [\<lparr>last_heartbeat = 60, state = Healthy\<rparr>]\<rparr>"
  by (simp add: demo_a_eq update_heartbeat_def find_instance_def instances_of_def demo_instance_def write_cell_def)

lemma demo_manager_eq: "demo_manager =
    \<lparr>mm_inner = [(''a'', [demo_instance ''a'' 3 0]), (''b'', [demo_instance ''b'' 7 1])], mm_rr_counters = [],
     mm_hb_ttl = 100, mm_hb_grace = 200,
     mm_cells = [\<lparr>last_heartbeat = 60, state = Healthy\<rparr>, \<lparr>last_heartbeat = 50, state = Registered\<rparr>]\<rparr>"
  unfolding demo_manager_def demo_heartbeat_eq
  by (simp add: register_instance_def new_instance_def instances_of_def demo_instance_def)

lemma demo_manager_reachable: "mm_reachable demo_manager"
proof -
  have "mm_reachable demo_a" unfolding demo_a_def
    by (rule mm_next[OF mm_init step_register[OF prod.collapse[symmetric]]])
      (simp_all add: new_instance_def demo_instance_def with_heartbeat_policy_def new_manager_def)
  then have "mm_reachable (update_heartbeat ''a'' 3 60 demo_a)" by (rule mm_next[OF _ step_heartbeat])
  then show ?thesis unfolding demo_manager_def
    by (rule mm_next[OF _ step_register[OF prod.collapse[symmetric]]])
      (simp_all add: demo_heartbeat_eq new_instance_def demo_instance_def)
qed

lemmas demo_eval = demo_manager_eq instances_of_def inst_state_def inst_last_heartbeat_def demo_instance_def
  rr_candidates_def is_available_def find_instance_def

theorem mm_reachable_invariant_witness: "wf_directory demo_manager \<and> wf_cells demo_manager"
  by (rule mm_reachable_invariant[OF demo_manager_reachable])

theorem evict_stale_effect_witness:
  "inst_state (evict_stale 170 demo_manager) (demo_instance ''a'' 3 0) = Quarantined"
proof -
  have "demo_instance ''a'' 3 0 \<in> set (instances_of demo_manager ''a'')" by (simp add: demo_eval)
  note e = evict_stale_effect[OF demo_manager_reachable this, of 170]
  have "170 - inst_last_heartbeat demo_manager (demo_instance ''a'' 3 0) \<ge> mm_hb_ttl demo_manager \<and>
      inst_state demo_manager (demo_instance ''a'' 3 0) \<noteq> Draining" by (simp add: demo_eval)
  with e show ?thesis by simp
qed

theorem round_robin_fair_witness:
  "rr_picks 1 ''a'' demo_manager = [Some (demo_instance ''a'' 3 0)]"
proof -
  have n: "instances_of demo_manager ''a'' \<noteq> []" by (simp add: demo_eval)
  have c: "rr_candidates demo_manager ''a'' = [demo_instance ''a'' 3 0]" by (simp add: demo_eval)
  from round_robin_fair[OF n] show ?thesis unfolding c by simp
qed

theorem pick_service_sound_complete_witness:
  "fst (pick_service_round_robin ''svc'' demo_manager) =
     Some (''a'', demo_instance ''a'' 3 0, from_uri ''http://h:1'') \<and>
   is_available (inst_state demo_manager (demo_instance ''a'' 3 0))"
proof -
  have p: "fst (pick_service_round_robin ''svc'' demo_manager) =
     Some (''a'', demo_instance ''a'' 3 0, from_uri ''http://h:1'')" by (simp add: demo_eval fst_pick_service service_candidates_def rr_counter_def)
  from pick_service_sound_complete[OF demo_manager_reachable, of "''svc''"] p show ?thesis by simp
qed

theorem register_deregister_roundtrip_witness:
  "find_instance ''c'' 9 (deregister ''c'' 9 (register_instance (demo_instance ''c'' 9 2) demo_manager)) =
   find_instance ''c'' 9 demo_manager"
proof -
  have w: "wf_directory demo_manager" using mm_invar_reachable[OF demo_manager_reachable] by (simp add: mm_invar_def)
  have "find_instance (mi_module (demo_instance ''c'' 9 2)) (mi_instance_id (demo_instance ''c'' 9 2)) demo_manager = None"
    by (simp add: demo_eval)
  from register_deregister_roundtrip[OF w this] show ?thesis by (simp add: demo_instance_def)
qed

theorem deregister_loses_concurrent_register_witness:
  "find_instance ''a'' 8 (remove_module ''a'' (register_instance (demo_instance ''a'' 8 2)
      (snd (deregister_retain ''a'' 3 demo_manager)))) = None"
proof -
  have "fst (deregister_retain ''a'' 3 demo_manager)" by (simp add: demo_eval deregister_retain_def)
  then have "deregister_retain ''a'' 3 demo_manager = (True, snd (deregister_retain ''a'' 3 demo_manager))"
    by (simp add: prod_eq_iff)
  from deregister_loses_concurrent_register[OF this, of "demo_instance ''a'' 8 2"] show ?thesis
    by (simp add: demo_instance_def)
qed

end
