(* ===== verification/Directory.thy ===== *)
theory Directory
  imports Module_Manager
begin

text \<open>
  Service discovery: the contract \<open>DirectoryApi\<close> of \<open>module_orchestrator-contracts/src/api.rs\<close>, its
  in-process implementation \<open>LocalDirectoryApi\<close> (\<open>libs/modkit/src/directory.rs\<close>), the gRPC server
  \<open>DirectoryServiceImpl\<close> (\<open>module_orchestrator/src/server.rs\<close>) and the gRPC client
  \<open>DirectoryGrpcClient\<close> (\<open>module_orchestrator-grpc/src/client.rs\<close>).

  An implementation of the trait is a record of its five operations over a state. UUID parsing and
  printing, the rendering of a \<open>tonic::Status\<close> and the channel are parameters. An \<open>anyhow::Error\<close>
  is its message.
\<close>

section \<open>The contract types\<close>

record service_endpoint =
  se_uri :: string

definition se_new :: "string \<Rightarrow> service_endpoint" where
  "se_new u = \<lparr>se_uri = u\<rparr>"

definition se_http :: "string \<Rightarrow> nat \<Rightarrow> service_endpoint" where
  "se_http host port = \<lparr>se_uri = ''http://'' @ host @ '':'' @ show_nat port\<rparr>"

definition se_https :: "string \<Rightarrow> nat \<Rightarrow> service_endpoint" where
  "se_https host port = \<lparr>se_uri = ''https://'' @ host @ '':'' @ show_nat port\<rparr>"

definition se_uds :: "string \<Rightarrow> service_endpoint" where
  "se_uds path = \<lparr>se_uri = ''unix://'' @ path\<rparr>"

record service_instance_info =
  sii_module :: string
  sii_instance_id :: string
  sii_endpoint :: service_endpoint
  sii_version :: "string option"

record register_instance_info =
  rii_module :: string
  rii_instance_id :: string
  rii_grpc_services :: "(string \<times> service_endpoint) list"
  rii_version :: "string option"

record 's directory_api =
  api_resolve :: "string \<Rightarrow> 's \<Rightarrow> (service_endpoint, string) result \<times> 's"
  api_list :: "string \<Rightarrow> 's \<Rightarrow> (service_instance_info list, string) result"
  api_register :: "register_instance_info \<Rightarrow> 's \<Rightarrow> (unit, string) result \<times> 's"
  api_deregister :: "string \<Rightarrow> string \<Rightarrow> 's \<Rightarrow> (unit, string) result \<times> 's"
  api_heartbeat :: "string \<Rightarrow> string \<Rightarrow> 's \<Rightarrow> (unit, string) result \<times> 's"

section \<open>The in-process implementation\<close>

definition local_resolve :: "string \<Rightarrow> module_manager \<Rightarrow> (service_endpoint, string) result \<times> module_manager" where
  "local_resolve service_name mgr =
     (case pick_service_round_robin service_name mgr of
        (Some (_, _, ep), mgr') \<Rightarrow> (Ok (se_new (uri ep)), mgr')
      | (None, mgr') \<Rightarrow> (Err (''Service not found or no healthy instances: '' @ service_name), mgr'))"

text \<open>\<open>grpc_services.iter().next()\<close> is the first entry of the unspecified iteration order.\<close>

definition local_list ::
    "(nat \<Rightarrow> string) \<Rightarrow> string \<Rightarrow> module_manager \<Rightarrow> (service_instance_info list, string) result" where
  "local_list show_uuid module mgr =
     Ok (concat (map (\<lambda>inst.
       (case mi_grpc_services inst of
          [] \<Rightarrow> []
        | (_, ep) # _ \<Rightarrow> [\<lparr>sii_module = module, sii_instance_id = show_uuid (mi_instance_id inst),
            sii_endpoint = se_new (uri ep), sii_version = mi_version inst\<rparr>]))
       (instances_of mgr module)))"

definition invalid_id :: "string \<Rightarrow> string \<Rightarrow> string" where
  "invalid_id x e = ''Invalid instance_id '' @ quoted x @ '': '' @ e"

definition build_instance ::
    "register_instance_info \<Rightarrow> nat \<Rightarrow> nat \<Rightarrow> module_manager \<Rightarrow> module_instance \<times> module_manager" where
  "build_instance info instance_id now mgr =
     (let (inst, mgr') = new_instance (rii_module info) instance_id now mgr;
          inst = (case rii_version info of Some v \<Rightarrow> with_version v inst | None \<Rightarrow> inst);
          inst = fold (\<lambda>(name, ep). with_grpc_service name (from_uri (se_uri ep))) (rii_grpc_services info) inst
      in (inst, mgr'))"

definition local_register ::
    "(string \<Rightarrow> (nat, string) result) \<Rightarrow> nat \<Rightarrow> register_instance_info \<Rightarrow> module_manager \<Rightarrow>
     (unit, string) result \<times> module_manager" where
  "local_register parse_uuid now info mgr =
     (case parse_uuid (rii_instance_id info) of
        Err e \<Rightarrow> (Err (invalid_id (rii_instance_id info) e), mgr)
      | Ok instance_id \<Rightarrow>
          let (inst, mgr') = build_instance info instance_id now mgr
          in (Ok (), register_instance inst mgr'))"

definition local_deregister ::
    "(string \<Rightarrow> (nat, string) result) \<Rightarrow> string \<Rightarrow> string \<Rightarrow> module_manager \<Rightarrow>
     (unit, string) result \<times> module_manager" where
  "local_deregister parse_uuid module iid mgr =
     (case parse_uuid iid of
        Err e \<Rightarrow> (Err (invalid_id iid e), mgr)
      | Ok x \<Rightarrow> (Ok (), deregister module x mgr))"

definition local_heartbeat ::
    "(string \<Rightarrow> (nat, string) result) \<Rightarrow> nat \<Rightarrow> string \<Rightarrow> string \<Rightarrow> module_manager \<Rightarrow>
     (unit, string) result \<times> module_manager" where
  "local_heartbeat parse_uuid now module iid mgr =
     (case parse_uuid iid of
        Err e \<Rightarrow> (Err (invalid_id iid e), mgr)
      | Ok x \<Rightarrow> (Ok (), update_heartbeat module x now mgr))"

text \<open>The whole implementation; \<open>now\<close> is the reading of the monotonic clock.\<close>

definition local_directory_api ::
    "(string \<Rightarrow> (nat, string) result) \<Rightarrow> (nat \<Rightarrow> string) \<Rightarrow> nat \<Rightarrow> module_manager directory_api" where
  "local_directory_api parse_uuid show_uuid now =
     \<lparr>api_resolve = local_resolve, api_list = local_list show_uuid,
      api_register = local_register parse_uuid now, api_deregister = local_deregister parse_uuid,
      api_heartbeat = local_heartbeat parse_uuid now\<rparr>"

section \<open>Messages and the gRPC server\<close>

record grpc_service_endpoint =
  gse_service_name :: string
  gse_endpoint_uri :: string

record instance_info =
  ii_module_name :: string
  ii_instance_id :: string
  ii_endpoint_uri :: string
  ii_version :: string

record register_instance_request =
  rir_module_name :: string
  rir_instance_id :: string
  rir_grpc_services :: "grpc_service_endpoint list"
  rir_version :: string

datatype grpc_status = NotFound string | Internal string

definition server_resolve ::
    "'s directory_api \<Rightarrow> string \<Rightarrow> 's \<Rightarrow> (string, grpc_status) result \<times> 's" where
  "server_resolve api service_name s =
     (case api_resolve api service_name s of
        (Ok ep, s') \<Rightarrow> (Ok (se_uri ep), s')
      | (Err e, s') \<Rightarrow> (Err (NotFound e), s'))"

definition server_list ::
    "'s directory_api \<Rightarrow> string \<Rightarrow> 's \<Rightarrow> (instance_info list, grpc_status) result" where
  "server_list api module_name s =
     and_then (map_err Internal (api_list api module_name s)) (\<lambda>instances.
       Ok (map (\<lambda>i. \<lparr>ii_module_name = sii_module i, ii_instance_id = sii_instance_id i,
         ii_endpoint_uri = se_uri (sii_endpoint i),
         ii_version = (case sii_version i of Some v \<Rightarrow> v | None \<Rightarrow> [])\<rparr>) instances))"

definition server_register ::
    "'s directory_api \<Rightarrow> register_instance_request \<Rightarrow> 's \<Rightarrow> (unit, grpc_status) result \<times> 's" where
  "server_register api req s =
     (let info = \<lparr>rii_module = rir_module_name req, rii_instance_id = rir_instance_id req,
            rii_grpc_services = map (\<lambda>g. (gse_service_name g, se_new (gse_endpoint_uri g))) (rir_grpc_services req),
            rii_version = (if rir_version req = [] then None else Some (rir_version req))\<rparr>
      in (case api_register api info s of
            (Ok _, s') \<Rightarrow> (Ok (), s')
          | (Err e, s') \<Rightarrow> (Err (Internal (''Failed to register instance: '' @ e)), s')))"

definition server_deregister ::
    "'s directory_api \<Rightarrow> string \<Rightarrow> string \<Rightarrow> 's \<Rightarrow> (unit, grpc_status) result \<times> 's" where
  "server_deregister api module_name iid s =
     (case api_deregister api module_name iid s of
        (Ok _, s') \<Rightarrow> (Ok (), s')
      | (Err e, s') \<Rightarrow> (Err (Internal (''Failed to deregister instance: '' @ e)), s'))"

definition server_heartbeat ::
    "'s directory_api \<Rightarrow> string \<Rightarrow> string \<Rightarrow> 's \<Rightarrow> (unit, grpc_status) result \<times> 's" where
  "server_heartbeat api module_name iid s =
     (case api_heartbeat api module_name iid s of
        (Ok _, s') \<Rightarrow> (Ok (), s')
      | (Err e, s') \<Rightarrow> (Err (Internal (''Failed to send heartbeat: '' @ e)), s'))"

section \<open>The channel and the gRPC client\<close>

text \<open>What the generated stub offers the client: one call per method, each of which may also fail in
  transport.\<close>

record 's channel =
  ch_resolve :: "string \<Rightarrow> 's \<Rightarrow> (string, grpc_status) result \<times> 's"
  ch_list :: "string \<Rightarrow> 's \<Rightarrow> (instance_info list, grpc_status) result"
  ch_register :: "register_instance_request \<Rightarrow> 's \<Rightarrow> (unit, grpc_status) result \<times> 's"
  ch_deregister :: "string \<Rightarrow> string \<Rightarrow> 's \<Rightarrow> (unit, grpc_status) result \<times> 's"
  ch_heartbeat :: "string \<Rightarrow> string \<Rightarrow> 's \<Rightarrow> (unit, grpc_status) result \<times> 's"

definition client_resolve ::
    "(grpc_status \<Rightarrow> string) \<Rightarrow> 's channel \<Rightarrow> string \<Rightarrow> 's \<Rightarrow> (service_endpoint, string) result \<times> 's" where
  "client_resolve show_status ch service_name s =
     (case ch_resolve ch service_name s of
        (Ok u, s') \<Rightarrow> (Ok (se_new u), s')
      | (Err e, s') \<Rightarrow> (Err (''gRPC call failed: '' @ show_status e), s'))"

definition client_list ::
    "(grpc_status \<Rightarrow> string) \<Rightarrow> 's channel \<Rightarrow> string \<Rightarrow> 's \<Rightarrow> (service_instance_info list, string) result" where
  "client_list show_status ch module s =
     and_then (map_err (\<lambda>e. ''gRPC call failed: '' @ show_status e) (ch_list ch module s)) (\<lambda>instances.
       Ok (map (\<lambda>p. \<lparr>sii_module = ii_module_name p, sii_instance_id = ii_instance_id p,
         sii_endpoint = se_new (ii_endpoint_uri p),
         sii_version = (if ii_version p = [] then None else Some (ii_version p))\<rparr>) instances))"

definition client_register ::
    "(grpc_status \<Rightarrow> string) \<Rightarrow> 's channel \<Rightarrow> register_instance_info \<Rightarrow> 's \<Rightarrow> (unit, string) result \<times> 's" where
  "client_register show_status ch info s =
     (let req = \<lparr>rir_module_name = rii_module info, rir_instance_id = rii_instance_id info,
            rir_grpc_services = map (\<lambda>(name, ep). \<lparr>gse_service_name = name, gse_endpoint_uri = se_uri ep\<rparr>)
              (rii_grpc_services info),
            rir_version = (case rii_version info of Some v \<Rightarrow> v | None \<Rightarrow> [])\<rparr>
      in (case ch_register ch req s of
            (Ok _, s') \<Rightarrow> (Ok (), s')
          | (Err e, s') \<Rightarrow> (Err (''gRPC register_instance failed: '' @ show_status e), s')))"

definition client_deregister ::
    "(grpc_status \<Rightarrow> string) \<Rightarrow> 's channel \<Rightarrow> string \<Rightarrow> string \<Rightarrow> 's \<Rightarrow> (unit, string) result \<times> 's" where
  "client_deregister show_status ch module iid s =
     (case ch_deregister ch module iid s of
        (Ok _, s') \<Rightarrow> (Ok (), s')
      | (Err e, s') \<Rightarrow> (Err (''gRPC deregister_instance failed: '' @ show_status e), s'))"

definition client_heartbeat ::
    "(grpc_status \<Rightarrow> string) \<Rightarrow> 's channel \<Rightarrow> string \<Rightarrow> string \<Rightarrow> 's \<Rightarrow> (unit, string) result \<times> 's" where
  "client_heartbeat show_status ch module iid s =
     (case ch_heartbeat ch module iid s of
        (Ok _, s') \<Rightarrow> (Ok (), s')
      | (Err e, s') \<Rightarrow> (Err (''gRPC heartbeat failed: '' @ show_status e), s'))"

definition directory_grpc_client :: "(grpc_status \<Rightarrow> string) \<Rightarrow> 's channel \<Rightarrow> 's directory_api" where
  "directory_grpc_client show_status ch =
     \<lparr>api_resolve = client_resolve show_status ch, api_list = client_list show_status ch,
      api_register = client_register show_status ch, api_deregister = client_deregister show_status ch,
      api_heartbeat = client_heartbeat show_status ch\<rparr>"

text \<open>The channel on which no call is lost: every request reaches the server and its answer returns.\<close>

definition connected :: "'s directory_api \<Rightarrow> 's channel" where
  "connected api =
     \<lparr>ch_resolve = server_resolve api, ch_list = server_list api, ch_register = server_register api,
      ch_deregister = server_deregister api, ch_heartbeat = server_heartbeat api\<rparr>"

section \<open>What a client of the directory relies on\<close>

locale discovery =
  fixes api :: "'s directory_api"
    and invar :: "'s \<Rightarrow> bool"
    and valid_id :: "string \<Rightarrow> bool"
    and same_id :: "string \<Rightarrow> string \<Rightarrow> bool"
  assumes list_total: "\<exists>is. api_list api k s = Ok is"
    and register_listed: "\<lbrakk>invar s; valid_id (rii_instance_id info); rii_grpc_services info \<noteq> [];
        api_list api (rii_module info) (snd (api_register api info s)) = Ok is\<rbrakk> \<Longrightarrow>
      \<exists>i \<in> set is. sii_module i = rii_module info \<and> same_id (sii_instance_id i) (rii_instance_id info) \<and>
        sii_endpoint i \<in> snd ` set (rii_grpc_services info) \<and>
        (sii_version i = rii_version info \<or> rii_version info = Some [])"
    and register_valid: "valid_id (rii_instance_id info) \<Longrightarrow> fst (api_register api info s) = Ok ()"
    and deregister_unlisted: "\<lbrakk>invar s; valid_id x; api_list api k (snd (api_deregister api k x s)) = Ok is; i \<in> set is\<rbrakk> \<Longrightarrow>
      \<not> same_id (sii_instance_id i) x"
    and heartbeat_list: "api_list api k (snd (api_heartbeat api k' x s)) = api_list api k s"
    and invalid_register: "\<not> valid_id (rii_instance_id info) \<Longrightarrow>
      \<not> is_ok (fst (api_register api info s)) \<and> snd (api_register api info s) = s"
    and invalid_deregister: "\<not> valid_id x \<Longrightarrow>
      \<not> is_ok (fst (api_deregister api k x s)) \<and> snd (api_deregister api k x s) = s"
    and register_heartbeat_resolve: "\<lbrakk>invar s; valid_id (rii_instance_id info); (n, ep) \<in> set (rii_grpc_services info)\<rbrakk> \<Longrightarrow>
      is_ok (fst (api_resolve api n (snd (api_heartbeat api (rii_module info) (rii_instance_id info)
        (snd (api_register api info s))))))"
    and invar_register: "invar s \<Longrightarrow> invar (snd (api_register api info s))"
    and invar_deregister: "invar s \<Longrightarrow> invar (snd (api_deregister api k x s))"
    and invar_heartbeat: "invar s \<Longrightarrow> invar (snd (api_heartbeat api k x s))"
    and invar_resolve: "invar s \<Longrightarrow> invar (snd (api_resolve api n s))"
begin

definition beats :: "(string \<times> string) list \<Rightarrow> 's \<Rightarrow> 's" where
  "beats bs s = fold (\<lambda>(k, x) s. snd (api_heartbeat api k x s)) bs s"

lemma beats_list: "api_list api k (beats bs s) = api_list api k s"
  by (induction bs arbitrary: s) (auto simp: beats_def heartbeat_list)

lemma beats_invar: "invar s \<Longrightarrow> invar (beats bs s)"
  by (induction bs arbitrary: s) (auto simp: beats_def invar_heartbeat)

text \<open>The life of an instance: registered, kept alive by any heartbeats, then deregistered.\<close>

lemma registered_then_gone:
  fixes bs :: "(string \<times> string) list"
  assumes "invar s" "valid_id (rii_instance_id info)" "rii_grpc_services info \<noteq> []"
  defines "s1 \<equiv> beats bs (snd (api_register api info s))"
  shows "(\<exists>is. api_list api (rii_module info) s1 = Ok is \<and>
      (\<exists>i \<in> set is. same_id (sii_instance_id i) (rii_instance_id info) \<and>
         sii_endpoint i \<in> snd ` set (rii_grpc_services info))) \<and>
    (\<exists>is. api_list api (rii_module info) (snd (api_deregister api (rii_module info) (rii_instance_id info) s1)) = Ok is \<and>
      (\<forall>i \<in> set is. \<not> same_id (sii_instance_id i) (rii_instance_id info)))"
proof
  obtain is1 where l: "api_list api (rii_module info) (snd (api_register api info s)) = Ok is1"
    using list_total by blast
  from register_listed[OF assms(1-3) l] l
  show "\<exists>is. api_list api (rii_module info) s1 = Ok is \<and>
      (\<exists>i \<in> set is. same_id (sii_instance_id i) (rii_instance_id info) \<and>
         sii_endpoint i \<in> snd ` set (rii_grpc_services info))"
    unfolding s1_def beats_list by auto
  have "invar s1" unfolding s1_def by (intro beats_invar invar_register assms(1))
  with deregister_unlisted assms(2) list_total
  show "\<exists>is. api_list api (rii_module info) (snd (api_deregister api (rii_module info) (rii_instance_id info) s1)) = Ok is \<and>
      (\<forall>i \<in> set is. \<not> same_id (sii_instance_id i) (rii_instance_id info))" by metis
qed

end

section \<open>The local implementation keeps the contract\<close>

lemma build_instance_fields:
  assumes "build_instance info x now m = (i, m')"
  shows "mi_module i = rii_module info" "mi_instance_id i = x" "mi_version i = rii_version info"
    "mi_inner i = length (mm_cells m)" "m' = snd (new_instance (rii_module info) x now m)"
    "map_of (mi_grpc_services i) = map_of (rev (map (\<lambda>(n, ep). (n, from_uri (se_uri ep))) (rii_grpc_services info)))"
proof -
  have f: "fold (\<lambda>(name, ep). with_grpc_service name (from_uri (se_uri ep))) sv j =
      j\<lparr>mi_grpc_services := fold (\<lambda>(n, ep). AList.update n (from_uri (se_uri ep))) sv (mi_grpc_services j)\<rparr>" for sv j
    by (induction sv arbitrary: j) (auto simp: with_grpc_service_def)
  have g: "map_of (fold (\<lambda>(n, ep). AList.update n (from_uri (se_uri ep))) sv al) =
      map_of al ++ map_of (rev (map (\<lambda>(n, ep). (n, from_uri (se_uri ep))) sv))" for sv al
    by (induction sv arbitrary: al) (auto simp: update_conv' map_add_assoc[symmetric] fun_eq_iff map_add_def split: option.splits)
  show "mi_module i = rii_module info" "mi_instance_id i = x" "mi_version i = rii_version info"
    "mi_inner i = length (mm_cells m)" "m' = snd (new_instance (rii_module info) x now m)"
    "map_of (mi_grpc_services i) = map_of (rev (map (\<lambda>(n, ep). (n, from_uri (se_uri ep))) (rii_grpc_services info)))"
    using assms
    by (auto simp: build_instance_def Let_def f g new_instance_def with_version_def split: option.splits)
qed

lemma build_instance_services:
  assumes "build_instance info x now m = (i, m')"
  shows "dom (map_of (mi_grpc_services i)) = fst ` set (rii_grpc_services info)"
  unfolding build_instance_fields(6)[OF assms] by (simp add: dom_map_of_conv_image_fst image_image split_beta)

definition id_valid :: "(string \<Rightarrow> (nat, string) result) \<Rightarrow> string \<Rightarrow> bool" where
  "id_valid parse_uuid x \<longleftrightarrow> is_ok (parse_uuid x)"

definition id_same :: "(string \<Rightarrow> (nat, string) result) \<Rightarrow> string \<Rightarrow> string \<Rightarrow> bool" where
  "id_same parse_uuid x y \<longleftrightarrow> is_ok (parse_uuid x) \<and> parse_uuid x = parse_uuid y"

lemma local_list_iff:
  "i \<in> set is \<longleftrightarrow> (\<exists>inst \<in> set (instances_of m k). \<exists>n ep rest. mi_grpc_services inst = (n, ep) # rest \<and>
     i = \<lparr>sii_module = k, sii_instance_id = show_uuid (mi_instance_id inst), sii_endpoint = se_new (uri ep),
       sii_version = mi_version inst\<rparr>)"
  if l: "local_list show_uuid k m = Ok is"
proof -
  have h: "set (case l of [] \<Rightarrow> [] | (_, ep) # _ \<Rightarrow> [g ep]) = {j. \<exists>n ep rest. l = (n, ep) # rest \<and> j = g ep}"
    for l :: "(string \<times> endpoint) list" and g :: "endpoint \<Rightarrow> service_instance_info"
    by (cases l) auto
  have "is = concat (map (\<lambda>inst. (case mi_grpc_services inst of [] \<Rightarrow> []
      | (_, ep) # _ \<Rightarrow> [\<lparr>sii_module = k, sii_instance_id = show_uuid (mi_instance_id inst),
          sii_endpoint = se_new (uri ep), sii_version = mi_version inst\<rparr>])) (instances_of m k))"
    using l by (simp add: local_list_def)
  then show ?thesis by (simp only: set_concat set_map image_image h) blast
qed

lemma local_list_inner: "mm_inner m' = mm_inner m \<Longrightarrow> local_list show_uuid k m' = local_list show_uuid k m"
  by (drule instances_of_inner) (simp add: local_list_def)

lemma mem_put_instance: "i \<in> set (put_instance i v)"
  by (induction v) auto

lemma registered_instance:
  assumes "build_instance info x now m = (i, m')"
  shows "i \<in> set (instances_of (register_instance i m') (rii_module info))"
  using build_instance_fields(1)[OF assms] by (simp add: register_instance_def mem_put_instance)

lemma local_register_valid:
  assumes "parse_uuid (rii_instance_id info) = Ok x"
  obtains i m' where "build_instance info x now m = (i, m')"
    "local_register parse_uuid now info m = (Ok (), register_instance i m')"
  using assms by (cases "build_instance info x now m") (auto simp: local_register_def)

lemma mm_invar_local_register: "mm_invar m \<Longrightarrow> mm_invar (snd (local_register parse_uuid now info m))"
proof (cases "parse_uuid (rii_instance_id info)")
  case (Ok x)
  assume inv: "mm_invar m"
  from Ok obtain i m' where r: "build_instance info x now m = (i, m')"
    "local_register parse_uuid now info m = (Ok (), register_instance i m')" by (rule local_register_valid)
  obtain j n where n: "new_instance (rii_module info) x now m = (j, n)" by (cases "new_instance (rii_module info) x now m")
  with build_instance_fields[OF r(1)] have "m' = n" "mi_inner i = mi_inner j" by (auto simp: new_instance_def)
  with mm_invar_register_fresh[OF inv n] r(2) show ?thesis by simp
qed (simp add: local_register_def)

lemma local_listed:
  assumes rt: "\<And>n. parse_uuid (show_uuid n) = Ok n"
    and "parse_uuid (rii_instance_id info) = Ok x" "rii_grpc_services info \<noteq> []"
    and l: "local_list show_uuid (rii_module info) (snd (local_register parse_uuid now info m)) = Ok is"
  shows "\<exists>i \<in> set is. sii_module i = rii_module info \<and> id_same parse_uuid (sii_instance_id i) (rii_instance_id info) \<and>
    sii_endpoint i \<in> snd ` set (rii_grpc_services info) \<and> sii_version i = rii_version info"
proof -
  from assms(2) obtain j m' where r: "build_instance info x now m = (j, m')"
    "local_register parse_uuid now info m = (Ok (), register_instance j m')" by (rule local_register_valid)
  note f = build_instance_fields[OF r(1)]
  obtain n0 e0 where "(n0, e0) \<in> set (rii_grpc_services info)" using assms(3) by (cases "rii_grpc_services info") auto
  then have "n0 \<in> dom (map_of (mi_grpc_services j))" unfolding build_instance_services[OF r(1)] by force
  then obtain n ep rest where s: "mi_grpc_services j = (n, ep) # rest" by (cases "mi_grpc_services j") auto
  then have "map_of (mi_grpc_services j) n = Some ep" by simp
  then have "(n, ep) \<in> set (map (\<lambda>(n, ep). (n, from_uri (se_uri ep))) (rii_grpc_services info))"
    unfolding f(6) by (metis map_of_SomeD set_rev)
  then obtain e where e: "(n, e) \<in> set (rii_grpc_services info)" "ep = from_uri (se_uri e)" by auto
  have "se_new (uri ep) = e" by (simp add: e(2) se_new_def from_uri_def)
  with e(1) have ep: "se_new (uri ep) \<in> snd ` set (rii_grpc_services info)" by force
  let ?i = "\<lparr>sii_module = rii_module info, sii_instance_id = show_uuid x, sii_endpoint = se_new (uri ep),
      sii_version = rii_version info\<rparr>"
  have "?i \<in> set is"
    using local_list_iff[OF l] registered_instance[OF r(1)] s f(2,3) r(2) by (auto intro!: bexI[of _ j])
  then show ?thesis using ep assms(2) rt by (intro bexI[of _ ?i]) (auto simp: id_same_def)
qed

lemma local_unlisted:
  assumes rt: "\<And>n. parse_uuid (show_uuid n) = Ok n" and "parse_uuid x = Ok y"
    and l: "local_list show_uuid k (snd (local_deregister parse_uuid k x m)) = Ok is" and "i \<in> set is"
  shows "\<not> id_same parse_uuid (sii_instance_id i) x"
  using assms(2,4) local_list_iff[OF l]
  by (auto simp: local_deregister_def instances_of_deregister id_same_def rt)

lemma local_alive_resolves:
  assumes "mm_invar m" "parse_uuid (rii_instance_id info) = Ok x" "(n, ep) \<in> set (rii_grpc_services info)"
  shows "is_ok (fst (local_resolve n (snd (local_heartbeat parse_uuid now' (rii_module info) (rii_instance_id info)
    (snd (local_register parse_uuid now info m))))))"
proof -
  from assms(2) obtain j m' where r: "build_instance info x now m = (j, m')"
    "local_register parse_uuid now info m = (Ok (), register_instance j m')" by (rule local_register_valid)
  note f = build_instance_fields[OF r(1)]
  let ?m1 = "register_instance j m'"
  let ?m2 = "update_heartbeat (rii_module info) x now' ?m1"
  have inv: "mm_invar ?m1" using mm_invar_local_register[OF assms(1), of parse_uuid now info] r(2) by simp
  then have inv2: "mm_invar ?m2" by (rule mm_invar_same_inner) simp_all
  have fi: "find_instance (rii_module info) x ?m1 = Some j"
    using f by (simp add: find_instance_def register_instance_def find_put_instance)
  have cells: "mm_cells ?m1 = mm_cells m @ [\<lparr>last_heartbeat = now, state = Registered\<rparr>]"
    using f(5) by (simp add: register_instance_def new_instance_def)
  have "inst_state ?m2 j = Healthy"
    using f(4) by (simp add: update_heartbeat_def fi write_cell_def inst_state_def cells Let_def)
  moreover have "j \<in> set (instances_of ?m2 (rii_module info))"
    using registered_instance[OF r(1)] by (simp add: instances_of_inner[of ?m2 ?m1])
  moreover obtain e where "map_of (mi_grpc_services j) n = Some e"
  proof -
    have "n \<in> dom (map_of (mi_grpc_services j))" unfolding build_instance_services[OF r(1)] using assms(3) by force
    with that show ?thesis by blast
  qed
  ultimately have "(rii_module info, j, e) \<in> set (service_candidates ?m2 n)"
    using inv2 by (simp add: service_candidates_iff mm_invar_def is_available_def)
  then have "service_candidates ?m2 n \<noteq> []" by (metis empty_iff empty_set)
  then have "fst (pick_service_round_robin n ?m2) \<noteq> None" by (simp add: fst_pick_service)
  then show ?thesis using r(2) assms(2)
    by (auto simp: local_heartbeat_def local_resolve_def split: prod.splits option.splits)
qed

lemma discovery_local:
  assumes "\<And>n. parse_uuid (show_uuid n) = Ok n"
  shows "discovery (local_directory_api parse_uuid show_uuid now) mm_invar (id_valid parse_uuid) (id_same parse_uuid)"
proof
  fix s :: module_manager and info :: register_instance_info and "is"
  assume "mm_invar s" "id_valid parse_uuid (rii_instance_id info)" "rii_grpc_services info \<noteq> []"
    "api_list (local_directory_api parse_uuid show_uuid now) (rii_module info)
       (snd (api_register (local_directory_api parse_uuid show_uuid now) info s)) = Ok is"
  then show "\<exists>i \<in> set is. sii_module i = rii_module info \<and> id_same parse_uuid (sii_instance_id i) (rii_instance_id info) \<and>
      sii_endpoint i \<in> snd ` set (rii_grpc_services info) \<and>
      (sii_version i = rii_version info \<or> rii_version info = Some [])"
    using local_listed[OF assms] by (fastforce simp: local_directory_api_def id_valid_def is_ok_iff)
next
  fix s :: module_manager and x k "is" i
  assume "id_valid parse_uuid x" "i \<in> set is"
    "api_list (local_directory_api parse_uuid show_uuid now) k
       (snd (api_deregister (local_directory_api parse_uuid show_uuid now) k x s)) = Ok is"
  then show "\<not> id_same parse_uuid (sii_instance_id i) x"
    using local_unlisted[OF assms] by (auto simp: local_directory_api_def id_valid_def is_ok_iff)
next
  fix s :: module_manager and info :: register_instance_info and n ep
  assume "mm_invar s" "id_valid parse_uuid (rii_instance_id info)" "(n, ep) \<in> set (rii_grpc_services info)"
  then show "is_ok (fst (api_resolve (local_directory_api parse_uuid show_uuid now) n
      (snd (api_heartbeat (local_directory_api parse_uuid show_uuid now) (rii_module info) (rii_instance_id info)
        (snd (api_register (local_directory_api parse_uuid show_uuid now) info s))))))"
    using local_alive_resolves by (auto simp: local_directory_api_def id_valid_def is_ok_iff[of "parse_uuid _"])
next
  fix s :: module_manager and n
  assume "mm_invar s"
  moreover have "snd (api_resolve (local_directory_api parse_uuid show_uuid now) n s) = snd (pick_service_round_robin n s)"
    by (auto simp: local_directory_api_def local_resolve_def split: prod.splits option.splits)
  ultimately show "mm_invar (snd (api_resolve (local_directory_api parse_uuid show_uuid now) n s))"
    by (auto elim: mm_invar_same_inner)
next
  fix s :: module_manager and info :: register_instance_info
  assume "mm_invar s"
  then show "mm_invar (snd (api_register (local_directory_api parse_uuid show_uuid now) info s))"
    by (simp add: local_directory_api_def mm_invar_local_register)
next
  fix s :: module_manager and k k' x
  show "api_list (local_directory_api parse_uuid show_uuid now) k
      (snd (api_heartbeat (local_directory_api parse_uuid show_uuid now) k' x s)) =
    api_list (local_directory_api parse_uuid show_uuid now) k s"
    by (auto simp: local_directory_api_def local_heartbeat_def intro!: local_list_inner split: result.splits)
qed (auto simp: local_directory_api_def local_list_def local_register_def local_deregister_def local_heartbeat_def
    id_valid_def split: result.splits prod.splits intro: mm_invar_deregister elim: mm_invar_same_inner)

text \<open>A concrete rendering of UUIDs, on which the contract is interpreted.\<close>

definition decimal_uuid :: "string \<Rightarrow> (nat, string) result" where
  "decimal_uuid s = ok_or ''invalid character'' (parse_nat s)"

interpretation local_dir: discovery "local_directory_api decimal_uuid show_nat now" mm_invar
    "id_valid decimal_uuid" "id_same decimal_uuid"
  by (rule discovery_local) (simp add: decimal_uuid_def)

section \<open>The remote implementation refines the implementation behind the server\<close>

text \<open>What the wire does to a registration: the empty version string stands for no version.\<close>

definition wire_version :: "string option \<Rightarrow> string option" where
  "wire_version v = (if v = Some [] then None else v)"

definition wire_info :: "register_instance_info \<Rightarrow> register_instance_info" where
  "wire_info info = info\<lparr>rii_version := wire_version (rii_version info)\<rparr>"

definition wire_instance :: "service_instance_info \<Rightarrow> service_instance_info" where
  "wire_instance i = i\<lparr>sii_version := wire_version (sii_version i)\<rparr>"

definition grpc_api :: "(grpc_status \<Rightarrow> string) \<Rightarrow> 's directory_api \<Rightarrow> 's directory_api" where
  "grpc_api show_status api = directory_grpc_client show_status (connected api)"

lemmas grpc_defs = grpc_api_def directory_grpc_client_def connected_def client_resolve_def client_list_def
  client_register_def client_deregister_def client_heartbeat_def server_resolve_def server_list_def
  server_register_def server_deregister_def server_heartbeat_def

lemma grpc_resolve: "api_resolve (grpc_api ss api) n s =
    (map_err (\<lambda>e. ''gRPC call failed: '' @ ss (NotFound e)) (fst (api_resolve api n s)), snd (api_resolve api n s))"
  by (cases "api_resolve api n s"; cases "fst (api_resolve api n s)") (auto simp: grpc_defs se_new_def)

lemma grpc_list: "api_list (grpc_api ss api) k s =
    (case api_list api k s of Ok is \<Rightarrow> Ok (map wire_instance is) | Err e \<Rightarrow> Err (''gRPC call failed: '' @ ss (Internal e)))"
  by (cases "api_list api k s")
    (auto simp: grpc_defs se_new_def wire_instance_def wire_version_def split: option.splits)

lemma grpc_register: "api_register (grpc_api ss api) info s =
    (map_err (\<lambda>e. ''gRPC register_instance failed: '' @ ss (Internal (''Failed to register instance: '' @ e)))
       (fst (api_register api (wire_info info) s)), snd (api_register api (wire_info info) s))"
proof -
  have "(\<lambda>g. (gse_service_name g, se_new (gse_endpoint_uri g))) \<circ>
      (\<lambda>(name, ep). \<lparr>gse_service_name = name, gse_endpoint_uri = se_uri ep\<rparr>) = id"
    by (auto simp: se_new_def fun_eq_iff)
  then have "\<lparr>rii_module = rii_module info, rii_instance_id = rii_instance_id info,
      rii_grpc_services = map (\<lambda>g. (gse_service_name g, se_new (gse_endpoint_uri g)))
        (map (\<lambda>(name, ep). \<lparr>gse_service_name = name, gse_endpoint_uri = se_uri ep\<rparr>) (rii_grpc_services info)),
      rii_version = (if (case rii_version info of Some v \<Rightarrow> v | None \<Rightarrow> []) = [] then None
        else Some (case rii_version info of Some v \<Rightarrow> v | None \<Rightarrow> []))\<rparr> = wire_info info"
    by (cases info) (auto simp: wire_info_def wire_version_def split: option.splits)
  then show ?thesis
    by (cases "api_register api (wire_info info) s"; cases "fst (api_register api (wire_info info) s)")
      (auto simp: grpc_defs Let_def)
qed

lemma grpc_deregister: "api_deregister (grpc_api ss api) k x s =
    (map_err (\<lambda>e. ''gRPC deregister_instance failed: '' @ ss (Internal (''Failed to deregister instance: '' @ e)))
       (fst (api_deregister api k x s)), snd (api_deregister api k x s))"
  by (cases "api_deregister api k x s"; cases "fst (api_deregister api k x s)") (auto simp: grpc_defs)

lemma grpc_heartbeat: "api_heartbeat (grpc_api ss api) k x s =
    (map_err (\<lambda>e. ''gRPC heartbeat failed: '' @ ss (Internal (''Failed to send heartbeat: '' @ e)))
       (fst (api_heartbeat api k x s)), snd (api_heartbeat api k x s))"
  by (cases "api_heartbeat api k x s"; cases "fst (api_heartbeat api k x s)") (auto simp: grpc_defs)

lemmas grpc_ops = grpc_resolve grpc_list grpc_register grpc_deregister grpc_heartbeat

lemma wire_simps [simp]:
  "rii_module (wire_info info) = rii_module info" "rii_instance_id (wire_info info) = rii_instance_id info"
  "rii_grpc_services (wire_info info) = rii_grpc_services info"
  "rii_version (wire_info info) = wire_version (rii_version info)"
  "sii_module (wire_instance i) = sii_module i" "sii_instance_id (wire_instance i) = sii_instance_id i"
  "sii_endpoint (wire_instance i) = sii_endpoint i" "sii_version (wire_instance i) = wire_version (sii_version i)"
  by (simp_all add: wire_info_def wire_instance_def)

lemma is_ok_map_err [simp]: "is_ok (map_err f r) = is_ok r"
  by (cases r) auto

text \<open>The contract survives the wire: what holds of the implementation behind the server holds of the
  client.\<close>

lemma discovery_grpc:
  assumes "discovery api invar valid_id same_id"
  shows "discovery (grpc_api ss api) invar valid_id same_id"
proof -
  note d = assms
  show ?thesis
  proof
    fix s and info :: register_instance_info and "is"
    assume a: "invar s" "valid_id (rii_instance_id info)" "rii_grpc_services info \<noteq> []"
      and l: "api_list (grpc_api ss api) (rii_module info) (snd (api_register (grpc_api ss api) info s)) = Ok is"
    obtain is0 where l0: "api_list api (rii_module info) (snd (api_register api (wire_info info) s)) = Ok is0"
      using discovery.list_total[OF d] by blast
    with l have "is = map wire_instance is0" by (simp add: grpc_ops)
    moreover from discovery.register_listed[OF d, of s "wire_info info"] a l0
    obtain i where "i \<in> set is0" "sii_module i = rii_module info" "same_id (sii_instance_id i) (rii_instance_id info)"
      "sii_endpoint i \<in> snd ` set (rii_grpc_services info)"
      "sii_version i = wire_version (rii_version info) \<or> wire_version (rii_version info) = Some []" by auto
    ultimately show "\<exists>i \<in> set is. sii_module i = rii_module info \<and>
        same_id (sii_instance_id i) (rii_instance_id info) \<and>
        sii_endpoint i \<in> snd ` set (rii_grpc_services info) \<and>
        (sii_version i = rii_version info \<or> rii_version info = Some [])"
      by (intro bexI[of _ "wire_instance i"]) (auto simp: wire_version_def split: if_splits)
  next
    fix s x k "is" i
    assume a: "invar s" "valid_id x" "i \<in> set is"
      and l: "api_list (grpc_api ss api) k (snd (api_deregister (grpc_api ss api) k x s)) = Ok is"
    obtain is0 where l0: "api_list api k (snd (api_deregister api k x s)) = Ok is0"
      using discovery.list_total[OF d] by blast
    with l a(3) obtain j where "j \<in> set is0" "i = wire_instance j" by (auto simp: grpc_ops)
    with discovery.deregister_unlisted[OF d a(1,2) l0] show "\<not> same_id (sii_instance_id i) x" by simp
  next
    fix s k
    obtain is0 where "api_list api k s = Ok is0" using discovery.list_total[OF d] by blast
    then show "\<exists>is. api_list (grpc_api ss api) k s = Ok is" by (simp add: grpc_ops)
  next
    fix s and info :: register_instance_info and n ep
    assume "invar s" "valid_id (rii_instance_id info)" "(n, ep) \<in> set (rii_grpc_services info)"
    with discovery.register_heartbeat_resolve[OF d, of s "wire_info info" n ep]
    show "is_ok (fst (api_resolve (grpc_api ss api) n (snd (api_heartbeat (grpc_api ss api) (rii_module info)
        (rii_instance_id info) (snd (api_register (grpc_api ss api) info s))))))" by (simp add: grpc_ops)
  qed (use discovery.register_valid[OF d] discovery.heartbeat_list[OF d] discovery.invalid_register[OF d]
      discovery.invalid_deregister[OF d] discovery.invar_register[OF d]
      discovery.invar_deregister[OF d] discovery.invar_heartbeat[OF d] discovery.invar_resolve[OF d]
      in \<open>auto simp: grpc_ops\<close>)
qed

interpretation remote_dir: discovery "grpc_api show_status (local_directory_api decimal_uuid show_nat now)" mm_invar
    "id_valid decimal_uuid" "id_same decimal_uuid"
  by (rule discovery_grpc) (rule local_dir.discovery_axioms)

section \<open>Properties\<close>

text \<open>C17. Over a channel that delivers its calls, the gRPC client and server together implement the
  \<open>DirectoryApi\<close> behind the server: every operation has the same effect on the state and the same
  success, a resolved endpoint is the same, and registrations and listings agree except that an empty
  version string becomes no version.\<close>

theorem grpc_refines_api:
  "(is_ok (fst (api_register (grpc_api ss api) info s)) = is_ok (fst (api_register api (wire_info info) s)) \<and>
    snd (api_register (grpc_api ss api) info s) = snd (api_register api (wire_info info) s)) \<and>
   (is_ok (fst (api_deregister (grpc_api ss api) k x s)) = is_ok (fst (api_deregister api k x s)) \<and>
    snd (api_deregister (grpc_api ss api) k x s) = snd (api_deregister api k x s)) \<and>
   (is_ok (fst (api_heartbeat (grpc_api ss api) k x s)) = is_ok (fst (api_heartbeat api k x s)) \<and>
    snd (api_heartbeat (grpc_api ss api) k x s) = snd (api_heartbeat api k x s)) \<and>
   ((fst (api_resolve (grpc_api ss api) n s) = Ok ep) = (fst (api_resolve api n s) = Ok ep) \<and>
    snd (api_resolve (grpc_api ss api) n s) = snd (api_resolve api n s)) \<and>
   (case api_list api k s of
      Ok is \<Rightarrow> api_list (grpc_api ss api) k s = Ok (map wire_instance is)
    | Err _ \<Rightarrow> \<not> is_ok (api_list (grpc_api ss api) k s))"
  by (auto simp: grpc_ops split: result.splits)

text \<open>For the in-process directory and any UUID codec that reads back what it prints: an instance
  registered in a reachable manager with at least one service is listed under its id with one of its
  endpoints, whatever heartbeats follow, each of its services resolves after its first heartbeat, and
  after it is deregistered no listed instance has its id.\<close>

theorem local_directory_life:
  fixes now :: nat and beats :: "(string \<times> string) list"
  assumes rt: "\<And>n. parse_uuid (show_uuid n) = Ok n" and m: "mm_reachable m"
    and x: "parse_uuid (rii_instance_id info) = Ok x" and sv: "(n, ep) \<in> set (rii_grpc_services info)"
  defines "api \<equiv> local_directory_api parse_uuid show_uuid now"
  defines "m1 \<equiv> fold (\<lambda>(k, y) m. snd (api_heartbeat api k y m)) beats (snd (api_register api info m))"
  shows "(\<exists>is. api_list api (rii_module info) m1 = Ok is \<and>
      (\<exists>i \<in> set is. id_same parse_uuid (sii_instance_id i) (rii_instance_id info) \<and>
         sii_endpoint i \<in> snd ` set (rii_grpc_services info))) \<and>
    is_ok (fst (api_resolve api n (snd (api_heartbeat api (rii_module info) (rii_instance_id info)
      (snd (api_register api info m)))))) \<and>
    (\<exists>is. api_list api (rii_module info)
        (snd (api_deregister api (rii_module info) (rii_instance_id info) m1)) = Ok is \<and>
      (\<forall>i \<in> set is. \<not> id_same parse_uuid (sii_instance_id i) (rii_instance_id info)))"
proof -
  have d: "discovery api mm_invar (id_valid parse_uuid) (id_same parse_uuid)"
    unfolding api_def by (rule discovery_local) (rule rt)
  have v: "id_valid parse_uuid (rii_instance_id info)" using x by (simp add: id_valid_def)
  have ne: "rii_grpc_services info \<noteq> []" using sv by auto
  note i = mm_invar_reachable[OF m]
  show ?thesis
    using discovery.registered_then_gone[OF d i v ne, of beats] discovery.register_heartbeat_resolve[OF d i v sv]
    unfolding m1_def discovery.beats_def[OF d] by blast
qed

section \<open>Witnesses\<close>

definition demo_info :: register_instance_info where
  "demo_info = \<lparr>rii_module = ''calc'', rii_instance_id = ''12'',
     rii_grpc_services = [(''calc.Add'', se_http ''h'' 80)], rii_version = Some ''1''\<rparr>"

theorem local_directory_life_witness:
  "is_ok (fst (api_resolve (local_directory_api decimal_uuid show_nat 5) ''calc.Add''
     (snd (api_heartbeat (local_directory_api decimal_uuid show_nat 5) ''calc'' ''12''
       (snd (api_register (local_directory_api decimal_uuid show_nat 5) demo_info demo_manager))))))"
proof -
  have p: "decimal_uuid (rii_instance_id demo_info) = Ok 12" by code_simp
  have sv: "(''calc.Add'', se_http ''h'' 80) \<in> set (rii_grpc_services demo_info)" by (simp add: demo_info_def)
  have rt: "decimal_uuid (show_nat n) = Ok n" for n by (simp add: decimal_uuid_def)
  from local_directory_life[OF rt demo_manager_reachable p sv, of 5 "[]"] show ?thesis
    by (simp add: demo_info_def)
qed

end
