(* ===== verification/OData_Core.thy ===== *)
theory OData_Core
  imports Prelude "HOL-Library.Word"
begin

text \<open>
  The transport-agnostic OData core of \<open>libs/modkit-odata\<close>: the filter AST and its conversion from the
  parser's AST, ordering and its signed-token form, cursors, queries, pages, input limits and the
  normalisation behind the filter hash.

  Numbers, UUIDs and the chrono types are data: a decimal is its digits and scale, a UUID and the
  temporal values are numbers. Rendering and parsing of them, base64, JSON and SHA-256 are third-party
  code and are parameters of the definitions that use them. A \<open>u64\<close> or \<open>usize\<close> is a \<^typ>\<open>nat\<close>;
  the one addition on a \<open>u64\<close> (in the pagination) is written with its bound there.
\<close>

section \<open>The filter AST\<close>

type_synonym bigdecimal = "int \<times> int"

datatype compare_operator = OpEq | OpNe | OpGt | OpGe | OpLt | OpLe

datatype odata_value =
    VNull
  | VBool bool
  | VNumber bigdecimal
  | VUuid nat
  | VDateTime int
  | VDate int
  | VTime nat
  | VString string

datatype expr =
    EAnd expr expr
  | EOr expr expr
  | ENot expr
  | ECompare expr compare_operator expr
  | EIn expr "expr list"
  | EFunction string "expr list"
  | EIdentifier string
  | EValue odata_value

subsection \<open>Conversion from the parser's AST\<close>

datatype od_compare = Equal | NotEqual | GreaterThan | GreaterOrEqual | LessThan | LessOrEqual

datatype od_value =
    ONull
  | OBool bool
  | ONumber bigdecimal
  | OUuid nat
  | ODateTime int
  | ODate int
  | OTime nat
  | OString string

datatype od_expr =
    OAnd od_expr od_expr
  | OOr od_expr od_expr
  | ONot od_expr
  | OCompare od_expr od_compare od_expr
  | OIn od_expr "od_expr list"
  | OFunction string "od_expr list"
  | OIdentifier string
  | OValue od_value

fun from_od_compare :: "od_compare \<Rightarrow> compare_operator" where
  "from_od_compare Equal = OpEq"
| "from_od_compare NotEqual = OpNe"
| "from_od_compare GreaterThan = OpGt"
| "from_od_compare GreaterOrEqual = OpGe"
| "from_od_compare LessThan = OpLt"
| "from_od_compare LessOrEqual = OpLe"

fun from_od_value :: "od_value \<Rightarrow> odata_value" where
  "from_od_value ONull = VNull"
| "from_od_value (OBool b) = VBool b"
| "from_od_value (ONumber n) = VNumber n"
| "from_od_value (OUuid u) = VUuid u"
| "from_od_value (ODateTime t) = VDateTime t"
| "from_od_value (ODate d) = VDate d"
| "from_od_value (OTime t) = VTime t"
| "from_od_value (OString s) = VString s"

fun from_od_expr :: "od_expr \<Rightarrow> expr" where
  "from_od_expr (OAnd a b) = EAnd (from_od_expr a) (from_od_expr b)"
| "from_od_expr (OOr a b) = EOr (from_od_expr a) (from_od_expr b)"
| "from_od_expr (ONot x) = ENot (from_od_expr x)"
| "from_od_expr (OCompare l op r) = ECompare (from_od_expr l) (from_od_compare op) (from_od_expr r)"
| "from_od_expr (OIn l list) = EIn (from_od_expr l) (map from_od_expr list)"
| "from_od_expr (OFunction n args) = EFunction n (map from_od_expr args)"
| "from_od_expr (OIdentifier s) = EIdentifier s"
| "from_od_expr (OValue v) = EValue (from_od_value v)"

section \<open>Errors\<close>

datatype odata_error =
    InvalidFilter string
  | InvalidOrderByField string
  | OrderMismatch
  | FilterMismatch
  | InvalidCursor
  | InvalidLimit
  | OrderWithCursor
  | CursorInvalidBase64
  | CursorInvalidJson
  | CursorInvalidVersion
  | CursorInvalidKeys
  | CursorInvalidFields
  | CursorInvalidDirection
  | Db string

text \<open>The \<open>Display\<close> that \<open>thiserror\<close> derives from the attributes.\<close>

fun show_odata_error :: "odata_error \<Rightarrow> string" where
  "show_odata_error (InvalidFilter m) = ''invalid $filter: '' @ m"
| "show_odata_error (InvalidOrderByField f) = ''unsupported $orderby field: '' @ f"
| "show_odata_error OrderMismatch = ''ORDER_MISMATCH''"
| "show_odata_error FilterMismatch = ''FILTER_MISMATCH''"
| "show_odata_error InvalidCursor = ''INVALID_CURSOR''"
| "show_odata_error InvalidLimit = ''INVALID_LIMIT''"
| "show_odata_error OrderWithCursor = ''ORDER_WITH_CURSOR''"
| "show_odata_error CursorInvalidBase64 = ''invalid cursor: invalid base64url encoding''"
| "show_odata_error CursorInvalidJson = ''invalid cursor: malformed JSON''"
| "show_odata_error CursorInvalidVersion = ''invalid cursor: unsupported version''"
| "show_odata_error CursorInvalidKeys = ''invalid cursor: empty or invalid keys''"
| "show_odata_error CursorInvalidFields = ''invalid cursor: empty or invalid fields''"
| "show_odata_error CursorInvalidDirection = ''invalid cursor: invalid sort direction''"
| "show_odata_error (Db m) = ''database error: '' @ m"

section \<open>Ordering\<close>

datatype sort_dir = Asc | Desc

fun reverse :: "sort_dir \<Rightarrow> sort_dir" where
  "reverse Asc = Desc"
| "reverse Desc = Asc"

record order_key =
  ok_field :: string
  ok_dir :: sort_dir

type_synonym order_by = "order_key list"

definition to_signed_tokens :: "order_by \<Rightarrow> string" where
  "to_signed_tokens ob =
     join '','' (map (\<lambda>k. (if ok_dir k = Asc then CHR ''+'' else CHR ''-'') # ok_field k) ob)"

text \<open>The sign of a non-empty token and the name after it.\<close>

fun split_sign :: "string \<Rightarrow> sort_dir \<times> string" where
  "split_sign (c # cs) =
     (if c = CHR ''+'' then (Asc, cs) else if c = CHR ''-'' then (Desc, cs) else (Asc, c # cs))"
| "split_sign [] = (Asc, [])"

fun signed_tokens_loop :: "string list \<Rightarrow> order_by \<Rightarrow> (order_by, odata_error) result" where
  "signed_tokens_loop [] out = Ok out"
| "signed_tokens_loop (seg # segs) out =
     (let seg = trim seg
      in if seg = [] then signed_tokens_loop segs out
         else let (dir, name) = split_sign seg
              in if name = [] then Err (InvalidOrderByField seg)
                 else signed_tokens_loop segs (out @ [\<lparr>ok_field = name, ok_dir = dir\<rparr>]))"

definition from_signed_tokens :: "string \<Rightarrow> (order_by, odata_error) result" where
  "from_signed_tokens signed_tokens =
     and_then (signed_tokens_loop (split_on CHR '','' signed_tokens) []) (\<lambda>out.
       if out = [] then Err (InvalidOrderByField ''empty order'') else Ok out)"

definition parse_token :: "string \<Rightarrow> (string \<times> sort_dir) option" where
  "parse_token t =
     (let t = trim t
      in if t = [] then None
         else let (dir, name) = split_sign t in if name = [] then None else Some (name, dir))"

definition equals_signed_tokens :: "order_by \<Rightarrow> string \<Rightarrow> bool" where
  "equals_signed_tokens ob signed_tokens \<longleftrightarrow>
     (let theirs = List.map_filter parse_token (split_on CHR '','' signed_tokens)
      in length theirs = length ob \<and> list_all (\<lambda>(a, (n, d)). ok_field a = n \<and> ok_dir a = d) (zip ob theirs))"

definition ensure_tiebreaker :: "order_by \<Rightarrow> string \<Rightarrow> sort_dir \<Rightarrow> order_by" where
  "ensure_tiebreaker ob tiebreaker dir =
     (if \<exists>k \<in> set ob. ok_field k = tiebreaker then ob else ob @ [\<lparr>ok_field = tiebreaker, ok_dir = dir\<rparr>])"

definition reverse_directions :: "order_by \<Rightarrow> order_by" where
  "reverse_directions ob = map (\<lambda>k. k\<lparr>ok_dir := reverse (ok_dir k)\<rparr>) ob"

definition show_order_by :: "order_by \<Rightarrow> string" where
  "show_order_by ob =
     (if ob = [] then ''(none)''
      else join '', '' (map (\<lambda>k. ok_field k @ '' '' @ (case ok_dir k of Asc \<Rightarrow> ''asc'' | Desc \<Rightarrow> ''desc'')) ob))"

section \<open>Cursors\<close>

record cursor =
  cur_k :: "string list"
  cur_o :: sort_dir
  cur_s :: string
  cur_f :: "string option"
  cur_d :: string

definition validate_cursor_against ::
    "cursor \<Rightarrow> order_by \<Rightarrow> string option \<Rightarrow> (unit, odata_error) result" where
  "validate_cursor_against c effective_order effective_filter_hash =
     (if \<not> equals_signed_tokens effective_order (cur_s c) then Err OrderMismatch
      else (case (effective_filter_hash, cur_f c) of
              (Some h, Some cf) \<Rightarrow> if h \<noteq> cf then Err FilterMismatch else Ok ()
            | _ \<Rightarrow> Ok ()))"

record wire =
  w_v :: "8 word"
  w_k :: "string list"
  w_o :: string
  w_s :: string
  w_f :: "string option"
  w_d :: string

text \<open>The third-party codecs: JSON of the wire struct and unpadded base64url.\<close>

record cursor_codec =
  json_to_vec :: "wire \<Rightarrow> (nat list, string) result"
  json_from_slice :: "nat list \<Rightarrow> (wire, string) result"
  b64_encode :: "nat list \<Rightarrow> string"
  b64_decode :: "string \<Rightarrow> (nat list, string) result"

definition cursor_encode :: "cursor_codec \<Rightarrow> cursor \<Rightarrow> (string, string) result" where
  "cursor_encode cc c =
     (let w = \<lparr>w_v = 1, w_k = cur_k c, w_o = (case cur_o c of Asc \<Rightarrow> ''asc'' | Desc \<Rightarrow> ''desc''),
            w_s = cur_s c, w_f = cur_f c, w_d = cur_d c\<rparr>
      in and_then (json_to_vec cc w) (\<lambda>x. Ok (b64_encode cc x)))"

definition cursor_decode :: "cursor_codec \<Rightarrow> string \<Rightarrow> (cursor, odata_error) result" where
  "cursor_decode cc token =
     and_then (map_err (\<lambda>_. CursorInvalidBase64) (b64_decode cc token)) (\<lambda>bytes.
     and_then (map_err (\<lambda>_. CursorInvalidJson) (json_from_slice cc bytes)) (\<lambda>w.
       if w_v w \<noteq> 1 then Err CursorInvalidVersion
       else and_then (if w_o w = ''asc'' then Ok Asc else if w_o w = ''desc'' then Ok Desc
                      else Err CursorInvalidDirection) (\<lambda>ob.
         if w_k w = [] then Err CursorInvalidKeys
         else if trim (w_s w) = [] then Err CursorInvalidFields
         else if w_d w \<noteq> ''fwd'' \<and> w_d w \<noteq> ''bwd'' then Err CursorInvalidDirection
         else Ok \<lparr>cur_k = w_k w, cur_o = ob, cur_s = w_s w, cur_f = w_f w, cur_d = w_d w\<rparr>)))"

section \<open>Queries and pages\<close>

record odata_query =
  q_filter :: "expr option"
  q_order :: order_by
  q_limit :: "nat option"
  q_cursor :: "cursor option"
  q_filter_hash :: "string option"

definition new_query :: odata_query where
  "new_query = \<lparr>q_filter = None, q_order = [], q_limit = None, q_cursor = None, q_filter_hash = None\<rparr>"

definition with_filter :: "expr \<Rightarrow> odata_query \<Rightarrow> odata_query" where
  "with_filter e q = q\<lparr>q_filter := Some e\<rparr>"

definition with_order :: "order_by \<Rightarrow> odata_query \<Rightarrow> odata_query" where
  "with_order ob q = q\<lparr>q_order := ob\<rparr>"

definition with_limit :: "nat \<Rightarrow> odata_query \<Rightarrow> odata_query" where
  "with_limit n q = q\<lparr>q_limit := Some n\<rparr>"

definition with_cursor :: "cursor \<Rightarrow> odata_query \<Rightarrow> odata_query" where
  "with_cursor c q = q\<lparr>q_cursor := Some c\<rparr>"

definition with_filter_hash :: "string \<Rightarrow> odata_query \<Rightarrow> odata_query" where
  "with_filter_hash h q = q\<lparr>q_filter_hash := Some h\<rparr>"

definition query_from_expr :: "expr option \<Rightarrow> odata_query" where
  "query_from_expr opt = (case opt of Some e \<Rightarrow> with_filter e new_query | None \<Rightarrow> new_query)"

record page_info =
  next_cursor :: "string option"
  prev_cursor :: "string option"
  pi_limit :: nat

record 'a page =
  items :: "'a list"
  page_info :: page_info

definition empty_page :: "nat \<Rightarrow> 'a page" where
  "empty_page limit = \<lparr>items = [], page_info = \<lparr>next_cursor = None, prev_cursor = None, pi_limit = limit\<rparr>\<rparr>"

definition map_items :: "('a \<Rightarrow> 'b) \<Rightarrow> 'a page \<Rightarrow> 'b page" where
  "map_items f p = \<lparr>items = map f (items p), page_info = page_info p\<rparr>"

section \<open>Input limits\<close>

record odata_limits =
  max_top :: nat
  max_orderby_fields :: nat
  max_filter_length :: nat
  require_signed_cursors :: bool
  cursor_hmac_key :: "nat list option"

definition default_limits :: odata_limits where
  "default_limits = \<lparr>max_top = 1000, max_orderby_fields = 5, max_filter_length = 2000,
     require_signed_cursors = False, cursor_hmac_key = None\<rparr>"

definition with_max_top :: "nat \<Rightarrow> odata_limits \<Rightarrow> odata_limits" where
  "with_max_top n l = l\<lparr>max_top := n\<rparr>"

definition with_max_orderby_fields :: "nat \<Rightarrow> odata_limits \<Rightarrow> odata_limits" where
  "with_max_orderby_fields n l = l\<lparr>max_orderby_fields := n\<rparr>"

definition with_max_filter_length :: "nat \<Rightarrow> odata_limits \<Rightarrow> odata_limits" where
  "with_max_filter_length n l = l\<lparr>max_filter_length := n\<rparr>"

definition with_signed_cursors :: "nat list \<Rightarrow> odata_limits \<Rightarrow> odata_limits" where
  "with_signed_cursors key l = l\<lparr>require_signed_cursors := True, cursor_hmac_key := Some key\<rparr>"

definition validate_top :: "odata_limits \<Rightarrow> nat \<Rightarrow> (unit, odata_error) result" where
  "validate_top l n = (if n > max_top l then Err InvalidLimit else Ok ())"

definition validate_filter :: "odata_limits \<Rightarrow> string \<Rightarrow> (unit, odata_error) result" where
  "validate_filter l raw =
     (if str_len raw > max_filter_length l
      then Err (InvalidFilter (''Filter expression exceeds maximum length of '' @
             show_nat (max_filter_length l) @ '' characters''))
      else Ok ())"

definition validate_orderby_count :: "odata_limits \<Rightarrow> nat \<Rightarrow> (unit, odata_error) result" where
  "validate_orderby_count l count =
     (if count > max_orderby_fields l
      then Err (InvalidOrderByField (''Too many orderby fields (max: '' @ show_nat (max_orderby_fields l) @ '')''))
      else Ok ())"

section \<open>The filter hash\<close>

record value_format =
  fmt_number :: "bigdecimal \<Rightarrow> string"
  fmt_uuid :: "nat \<Rightarrow> string"
  fmt_datetime :: "int \<Rightarrow> string"
  fmt_date :: "int \<Rightarrow> string"
  fmt_time :: "nat \<Rightarrow> string"

fun op_str :: "compare_operator \<Rightarrow> string" where
  "op_str OpEq = ''EQ''"
| "op_str OpNe = ''NE''"
| "op_str OpGt = ''GT''"
| "op_str OpGe = ''GE''"
| "op_str OpLt = ''LT''"
| "op_str OpLe = ''LE''"

fun normalize_value :: "value_format \<Rightarrow> odata_value \<Rightarrow> string" where
  "normalize_value vf VNull = ''NULL''"
| "normalize_value vf (VBool b) = ''BOOL('' @ show_bool b @ '')''"
| "normalize_value vf (VNumber n) = ''NUM('' @ fmt_number vf n @ '')''"
| "normalize_value vf (VUuid u) = ''UUID('' @ to_lowercase (fmt_uuid vf u) @ '')''"
| "normalize_value vf (VDateTime t) = ''DATETIME('' @ fmt_datetime vf t @ '')''"
| "normalize_value vf (VDate d) = ''DATE('' @ fmt_date vf d @ '')''"
| "normalize_value vf (VTime t) = ''TIME('' @ fmt_time vf t @ '')''"
| "normalize_value vf (VString s) = ''STR('' @ s @ '')''"

fun normalize_filter_for_hash :: "value_format \<Rightarrow> expr \<Rightarrow> string" where
  "normalize_filter_for_hash vf (EAnd l r) =
     ''AND('' @ normalize_filter_for_hash vf l @ '','' @ normalize_filter_for_hash vf r @ '')''"
| "normalize_filter_for_hash vf (EOr l r) =
     ''OR('' @ normalize_filter_for_hash vf l @ '','' @ normalize_filter_for_hash vf r @ '')''"
| "normalize_filter_for_hash vf (ENot x) = ''NOT('' @ normalize_filter_for_hash vf x @ '')''"
| "normalize_filter_for_hash vf (ECompare l op r) =
     ''CMP('' @ normalize_filter_for_hash vf l @ '','' @ op_str op @ '','' @ normalize_filter_for_hash vf r @ '')''"
| "normalize_filter_for_hash vf (EIn e list) =
     ''IN('' @ normalize_filter_for_hash vf e @ '','' @ join '','' (map (normalize_filter_for_hash vf) list) @ '')''"
| "normalize_filter_for_hash vf (EFunction name args) =
     ''FN('' @ to_lowercase name @ '','' @ join '','' (map (normalize_filter_for_hash vf) args) @ '')''"
| "normalize_filter_for_hash vf (EIdentifier name) = ''ID('' @ to_lowercase name @ '')''"
| "normalize_filter_for_hash vf (EValue v) = normalize_value vf v"

text \<open>\<open>digest\<close> is SHA-256 of the UTF-8 bytes, \<open>hex\<close> the lower-case hexadecimal rendering.\<close>

definition short_filter_hash ::
    "(string \<Rightarrow> nat list) \<Rightarrow> (nat list \<Rightarrow> string) \<Rightarrow> value_format \<Rightarrow> expr option \<Rightarrow> string option" where
  "short_filter_hash digest hex vf e =
     map_option (\<lambda>e. hex (take 8 (digest (normalize_filter_for_hash vf e)))) e"

section \<open>Signed tokens\<close>

lemma reverse_reverse [simp]: "reverse (reverse d) = d"
  by (cases d) auto

lemma reverse_directions_twice [simp]: "reverse_directions (reverse_directions ob) = ob"
  by (simp add: reverse_directions_def comp_def)

text \<open>A field name that survives the token list: not empty, no comma, no trailing white space.\<close>

definition wf_field :: "string \<Rightarrow> bool" where
  "wf_field f \<longleftrightarrow> f \<noteq> [] \<and> CHR '','' \<notin> set f \<and> \<not> is_whitespace (last f)"

definition wf_order :: "order_by \<Rightarrow> bool" where
  "wf_order ob \<longleftrightarrow> ob \<noteq> [] \<and> (\<forall>k \<in> set ob. wf_field (ok_field k))"

definition signed_token :: "order_key \<Rightarrow> string" where
  "signed_token k = (if ok_dir k = Asc then CHR ''+'' else CHR ''-'') # ok_field k"

definition key_of :: "string \<times> sort_dir \<Rightarrow> order_key" where
  "key_of p = \<lparr>ok_field = fst p, ok_dir = snd p\<rparr>"

lemma to_signed_tokens_alt: "to_signed_tokens ob = join '','' (map signed_token ob)"
  by (simp add: to_signed_tokens_def signed_token_def[abs_def])

lemma trim_signed_token: "wf_field (ok_field k) \<Longrightarrow> trim (signed_token k) = signed_token k"
  by (rule trim_plain) (auto simp: signed_token_def wf_field_def is_whitespace_def)

lemma split_sign_token: "split_sign (signed_token k) = (ok_dir k, ok_field k)"
  by (cases "ok_dir k") (auto simp: signed_token_def)

lemma parse_signed_token: "wf_field (ok_field k) \<Longrightarrow> parse_token (signed_token k) = Some (ok_field k, ok_dir k)"
  unfolding parse_token_def trim_signed_token split_sign_token Let_def
  by (simp add: wf_field_def) (simp add: signed_token_def)

lemma split_signed_tokens:
  assumes "wf_order ob"
  shows "split_on CHR '','' (to_signed_tokens ob) = map signed_token ob"
  unfolding to_signed_tokens_alt
  by (rule split_on_join) (use assms in \<open>auto simp: wf_order_def wf_field_def signed_token_def\<close>)

lemma signed_tokens_loop_out:
  "signed_tokens_loop segs out =
     (case signed_tokens_loop segs [] of Ok r \<Rightarrow> Ok (out @ r) | Err e \<Rightarrow> Err e)"
proof (induction segs arbitrary: out)
  case (Cons seg segs)
  show ?case
    using Cons.IH[of "out @ [_]"] Cons.IH[of out] Cons.IH[of "[_]"]
    by (auto simp: Let_def split: result.splits prod.splits)
qed simp

text \<open>Both readers of a token list agree whenever the strict one accepts.\<close>

lemma signed_tokens_loop_Ok:
  "signed_tokens_loop segs [] = Ok r \<Longrightarrow> r = map key_of (List.map_filter parse_token segs)"
proof (induction segs arbitrary: r)
  case Nil
  then show ?case by (simp add: List.map_filter_def)
next
  case (Cons seg segs)
  show ?case
  proof (cases "trim seg = []")
    case True
    then have "signed_tokens_loop segs [] = Ok r" "parse_token seg = None" using Cons.prems by (auto simp: parse_token_def)
    with Cons.IH show ?thesis by (simp add: List.map_filter_simps)
  next
    case False
    obtain d n where s: "split_sign (trim seg) = (d, n)" by (cases "split_sign (trim seg)")
    with False Cons.prems have n: "n \<noteq> []" by (auto split: if_splits)
    with False Cons.prems s obtain r' where r': "signed_tokens_loop segs [] = Ok r'" "r = key_of (n, d) # r'"
      using signed_tokens_loop_out[of segs "[\<lparr>ok_field = n, ok_dir = d\<rparr>]"]
      by (auto simp: key_of_def split: result.splits)
    moreover have "parse_token seg = Some (n, d)" using False s n by (simp add: parse_token_def)
    ultimately show ?thesis using Cons.IH by (simp add: List.map_filter_simps)
  qed
qed

lemma signed_tokens_loop_tokens:
  "\<forall>k \<in> set ob. wf_field (ok_field k) \<Longrightarrow> signed_tokens_loop (map signed_token ob) out = Ok (out @ ob)"
proof (induction ob arbitrary: out)
  case (Cons k ob)
  then have "trim (signed_token k) = signed_token k" "signed_token k \<noteq> []" "ok_field k \<noteq> []"
    by (auto simp: trim_signed_token) (auto simp: signed_token_def wf_field_def)
  with Cons split_sign_token[of k] show ?case by (simp add: Let_def)
qed simp

lemma equals_own_keys:
  "equals_signed_tokens (map key_of (List.map_filter parse_token (split_on CHR '','' s))) s"
proof -
  have "list_all (\<lambda>(a, (n, d)). ok_field a = n \<and> ok_dir a = d) (zip (map key_of ts) ts)" for ts
    by (induction ts) (auto simp: key_of_def)
  then show ?thesis by (simp add: equals_signed_tokens_def)
qed

lemma from_signed_tokens_equals:
  assumes "from_signed_tokens s = Ok ob"
  shows "equals_signed_tokens ob s" "ob \<noteq> []"
  using assms signed_tokens_loop_Ok[of "split_on CHR '','' s"] equals_own_keys[of s]
  by (auto simp: from_signed_tokens_def res_simps split: if_splits)

lemma from_to_signed_tokens: "wf_order ob \<Longrightarrow> from_signed_tokens (to_signed_tokens ob) = Ok ob"
  by (simp add: from_signed_tokens_def split_signed_tokens signed_tokens_loop_tokens wf_order_def)

lemma to_lowercase_idem [simp]: "to_lowercase (to_lowercase s) = to_lowercase s"
proof -
  have "lower_char (lower_char c) = lower_char c" for c
    by (auto simp: lower_char_def Let_def)
  then show ?thesis by (simp add: to_lowercase_def)
qed

text \<open>The filter with every identifier and function name in lower case.\<close>

fun fold_case :: "expr \<Rightarrow> expr" where
  "fold_case (EAnd a b) = EAnd (fold_case a) (fold_case b)"
| "fold_case (EOr a b) = EOr (fold_case a) (fold_case b)"
| "fold_case (ENot x) = ENot (fold_case x)"
| "fold_case (ECompare l op r) = ECompare (fold_case l) op (fold_case r)"
| "fold_case (EIn l list) = EIn (fold_case l) (map fold_case list)"
| "fold_case (EFunction n args) = EFunction (to_lowercase n) (map fold_case args)"
| "fold_case (EIdentifier s) = EIdentifier (to_lowercase s)"
| "fold_case (EValue v) = EValue v"

lemma normalize_fold_case: "normalize_filter_for_hash vf (fold_case e) = normalize_filter_for_hash vf e"
  by (induction e rule: fold_case.induct) (auto simp: comp_def cong: map_cong)

lemma cursor_encode_decode:
  assumes "\<And>w. \<exists>b. json_to_vec cc w = Ok b \<and> json_from_slice cc b = Ok w"
    and "\<And>b. b64_decode cc (b64_encode cc b) = Ok b"
  shows "\<exists>token. cursor_encode cc c = Ok token \<and>
    (if cur_k c \<noteq> [] \<and> trim (cur_s c) \<noteq> [] \<and> cur_d c \<in> {''fwd'', ''bwd''}
     then cursor_decode cc token = Ok c
     else cursor_decode cc token \<in> Err ` {CursorInvalidKeys, CursorInvalidFields, CursorInvalidDirection})"
proof -
  let ?w = "\<lparr>w_v = 1, w_k = cur_k c, w_o = (case cur_o c of Asc \<Rightarrow> ''asc'' | Desc \<Rightarrow> ''desc''),
     w_s = cur_s c, w_f = cur_f c, w_d = cur_d c\<rparr>"
  from assms(1)[of ?w] obtain b where "json_to_vec cc ?w = Ok b" "json_from_slice cc b = Ok ?w" by blast
  then have e: "cursor_encode cc c = Ok (b64_encode cc b)"
    and "cursor_decode cc (b64_encode cc b) =
      (if cur_k c = [] then Err CursorInvalidKeys else if trim (cur_s c) = [] then Err CursorInvalidFields
       else if cur_d c \<noteq> ''fwd'' \<and> cur_d c \<noteq> ''bwd'' then Err CursorInvalidDirection else Ok c)"
    using assms(2) by (cases "cur_o c"; auto simp: cursor_encode_def cursor_decode_def)+
  then show ?thesis by (intro exI[of _ "b64_encode cc b"]) auto
qed

section \<open>Properties\<close>

text \<open>The signed_tokens-token form of an order with usable field names is read back exactly, and whatever
  the strict reader accepts also compares equal, token by token, in \<open>equals_signed_tokens\<close>.\<close>

theorem signed_tokens_roundtrip:
  assumes "wf_order ob"
  shows "from_signed_tokens (to_signed_tokens ob) = Ok ob \<and>
    equals_signed_tokens ob (to_signed_tokens ob) \<and>
    (\<forall>s ob'. from_signed_tokens s = Ok ob' \<longrightarrow> ob' \<noteq> [] \<and> equals_signed_tokens ob' s)"
  using from_to_signed_tokens[OF assms] from_signed_tokens_equals by blast

text \<open>C22. With codecs that read back what they write, decoding an encoded cursor gives the cursor
  exactly when it has keys, a non-blank order and a known direction; otherwise decoding fails.\<close>

theorem cursor_roundtrip:
  assumes "\<And>w. \<exists>b. json_to_vec cc w = Ok b \<and> json_from_slice cc b = Ok w"
    and "\<And>b. b64_decode cc (b64_encode cc b) = Ok b"
  shows "\<exists>token. cursor_encode cc c = Ok token \<and>
    (if cur_k c \<noteq> [] \<and> trim (cur_s c) \<noteq> [] \<and> cur_d c \<in> {''fwd'', ''bwd''}
     then cursor_decode cc token = Ok c
     else cursor_decode cc token \<in> Err ` {CursorInvalidKeys, CursorInvalidFields, CursorInvalidDirection})"
  using cursor_encode_decode[OF assms] .

text \<open>The filter hash does not depend on the case of field and function names.\<close>

theorem filter_hash_case_insensitive:
  assumes "fold_case e = fold_case e'"
  shows "short_filter_hash digest hex vf (Some e) = short_filter_hash digest hex vf (Some e')"
  using normalize_fold_case[of vf e] normalize_fold_case[of vf e'] assms by (simp add: short_filter_hash_def)

text \<open>The normal form behind the hash is ambiguous, because string literals are not escaped: a
  one-element \<open>in\<close> list and a two-element list with different members have the same normal form, so
  the same hash under every digest, and a cursor made for one passes the filter check of the other.\<close>

theorem filter_hash_ambiguous:
  defines "e1 \<equiv> EIn (EIdentifier ''name'') [EValue (VString ''a),STR(b'')]"
  defines "e2 \<equiv> EIn (EIdentifier ''name'') [EValue (VString ''a''), EValue (VString ''b'')]"
  shows "e1 \<noteq> e2 \<and> short_filter_hash digest hex vf (Some e1) = short_filter_hash digest hex vf (Some e2)"
  by (simp add: e1_def e2_def short_filter_hash_def)

section \<open>Witnesses\<close>

theorem signed_tokens_roundtrip_witness:
  "from_signed_tokens ''+name,-id'' = Ok [\<lparr>ok_field = ''name'', ok_dir = Asc\<rparr>, \<lparr>ok_field = ''id'', ok_dir = Desc\<rparr>]"
proof -
  let ?ob = "[\<lparr>ok_field = ''name'', ok_dir = Asc\<rparr>, \<lparr>ok_field = ''id'', ok_dir = Desc\<rparr>]"
  have w: "wf_order ?ob" by code_simp
  have t: "to_signed_tokens ?ob = ''+name,-id''" by code_simp
  from signed_tokens_roundtrip[OF w] show ?thesis unfolding t by blast
qed

text \<open>A codec that keeps the wire struct in a list of byte strings, each preceded by its length.\<close>

definition enc_str :: "string \<Rightarrow> nat list" where
  "enc_str s = length s # map of_char s"

definition dec_str :: "nat list \<Rightarrow> string \<times> nat list" where
  "dec_str b = (map char_of (take (hd b) (tl b)), drop (hd b) (tl b))"

lemma dec_enc_str [simp]: "dec_str (enc_str s @ rest) = (s, rest)"
  by (simp add: dec_str_def enc_str_def comp_def)

fun dec_strs :: "nat \<Rightarrow> nat list \<Rightarrow> string list \<times> nat list" where
  "dec_strs 0 b = ([], b)"
| "dec_strs (Suc n) b = (let (s, b') = dec_str b; (ss, b'') = dec_strs n b' in (s # ss, b''))"

lemma dec_strs_enc [simp]: "dec_strs (length ss) (concat (map enc_str ss) @ rest) = (ss, rest)"
  by (induction ss) auto

definition demo_codec :: cursor_codec where
  "demo_codec = \<lparr>
     json_to_vec = (\<lambda>w. Ok (unat (w_v w) # length (w_k w) # concat (map enc_str (w_k w)) @ enc_str (w_o w) @ enc_str (w_s w) @
       enc_str (w_d w) @ (case w_f w of None \<Rightarrow> [0] | Some f \<Rightarrow> 1 # enc_str f))),
     json_from_slice = (\<lambda>b.
       let (ks, b1) = dec_strs (b ! 1) (drop 2 b); (ob, b2) = dec_str b1; (s, b3) = dec_str b2; (d, b4) = dec_str b3
       in Ok \<lparr>w_v = of_nat (b ! 0), w_k = ks, w_o = ob, w_s = s,
            w_f = (if hd b4 = 0 then None else Some (fst (dec_str (tl b4)))), w_d = d\<rparr>),
     b64_encode = (\<lambda>b. concat (map (\<lambda>n. show_nat n @ '','') b)),
     b64_decode = (\<lambda>s. Ok (map (\<lambda>d. the (parse_nat d)) (butlast (split_on CHR '','' s))))\<rparr>"

lemma demo_codec_json: "\<exists>b. json_to_vec demo_codec w = Ok b \<and> json_from_slice demo_codec b = Ok w"
  using dec_enc_str[of _ "[]"] by (cases w) (auto simp: demo_codec_def Let_def split: option.splits)

lemma split_digits: "split_on CHR '','' (concat (map (\<lambda>n. show_nat n @ '','') b)) = map show_nat b @ [[]]"
  by (induction b) (auto simp: split_on_append)

lemma demo_codec_b64: "b64_decode demo_codec (b64_encode demo_codec b) = Ok b"
  by (simp add: demo_codec_def split_digits comp_def)

theorem cursor_roundtrip_witness:
  "\<exists>token. cursor_encode demo_codec \<lparr>cur_k = [''7''], cur_o = Asc, cur_s = ''+id'', cur_f = None, cur_d = ''bwd''\<rparr> = Ok token \<and>
     cursor_decode demo_codec token = Ok \<lparr>cur_k = [''7''], cur_o = Asc, cur_s = ''+id'', cur_f = None, cur_d = ''bwd''\<rparr>"
proof -
  have "trim ''+id'' \<noteq> []" by code_simp
  with cursor_roundtrip[OF demo_codec_json demo_codec_b64,
      of "\<lparr>cur_k = [''7''], cur_o = Asc, cur_s = ''+id'', cur_f = None, cur_d = ''bwd''\<rparr>"] show ?thesis by simp
qed

theorem filter_hash_case_insensitive_witness:
  "short_filter_hash (map of_char) (map char_of) \<lparr>fmt_number = (\<lambda>_. []), fmt_uuid = show_nat, fmt_datetime = show_int,
      fmt_date = show_int, fmt_time = show_nat\<rparr> (Some (ECompare (EIdentifier ''Email'') OpEq (EValue VNull))) =
   short_filter_hash (map of_char) (map char_of) \<lparr>fmt_number = (\<lambda>_. []), fmt_uuid = show_nat, fmt_datetime = show_int,
      fmt_date = show_int, fmt_time = show_nat\<rparr> (Some (ECompare (EIdentifier ''eMAIL'') OpEq (EValue VNull)))"
proof -
  have "fold_case (ECompare (EIdentifier ''Email'') OpEq (EValue VNull)) =
      fold_case (ECompare (EIdentifier ''eMAIL'') OpEq (EValue VNull))" by code_simp
  from filter_hash_case_insensitive[OF this] show ?thesis .
qed

end
