(* ===== verification/OData_Filter.thy ===== *)
theory OData_Filter
  imports OData_Core
begin

text \<open>
  The typed filter layer of \<open>libs/modkit-db/src/odata\<close>: field kinds (\<open>kind.rs\<close>) and the
  conversion of the OData AST into a \<open>FilterNode\<close> over the filterable fields of a DTO (\<open>filter.rs\<close>).
  An implementation of the trait \<open>FilterField\<close> is a record of its field list, names and kinds.
\<close>

section \<open>Kinds and fields\<close>

datatype field_kind = KString | KI64 | KF64 | KBool | KUuid | KDateTimeUtc | KDate | KTime | KDecimal

fun show_field_kind :: "field_kind \<Rightarrow> string" where
  "show_field_kind KString = ''String''"
| "show_field_kind KI64 = ''I64''"
| "show_field_kind KF64 = ''F64''"
| "show_field_kind KBool = ''Bool''"
| "show_field_kind KUuid = ''Uuid''"
| "show_field_kind KDateTimeUtc = ''DateTimeUtc''"
| "show_field_kind KDate = ''Date''"
| "show_field_kind KTime = ''Time''"
| "show_field_kind KDecimal = ''Decimal''"

record 'f filter_field =
  ff_fields :: "'f list"
  ff_name :: "'f \<Rightarrow> string"
  ff_kind :: "'f \<Rightarrow> field_kind"

definition from_name :: "'f filter_field \<Rightarrow> string \<Rightarrow> 'f option" where
  "from_name ff name = find (\<lambda>f. eq_ignore_ascii_case (ff_name ff f) name) (ff_fields ff)"

section \<open>Filter nodes\<close>

datatype filter_op =
  FEq | FNe | FGt | FGe | FLt | FLe | FContains | FStartsWith | FEndsWith | FAnd | FOr

fun show_filter_op :: "filter_op \<Rightarrow> string" where
  "show_filter_op FEq = ''eq''"
| "show_filter_op FNe = ''ne''"
| "show_filter_op FGt = ''gt''"
| "show_filter_op FGe = ''ge''"
| "show_filter_op FLt = ''lt''"
| "show_filter_op FLe = ''le''"
| "show_filter_op FContains = ''contains''"
| "show_filter_op FStartsWith = ''startswith''"
| "show_filter_op FEndsWith = ''endswith''"
| "show_filter_op FAnd = ''and''"
| "show_filter_op FOr = ''or''"

datatype 'f filter_node =
    Binary 'f filter_op odata_value
  | Composite filter_op "'f filter_node list"
  | NotNode "'f filter_node"

definition node_binary :: "'f \<Rightarrow> filter_op \<Rightarrow> odata_value \<Rightarrow> 'f filter_node" where
  "node_binary f op v = Binary f op v"

definition node_and :: "'f filter_node list \<Rightarrow> 'f filter_node" where
  "node_and children = Composite FAnd children"

definition node_or :: "'f filter_node list \<Rightarrow> 'f filter_node" where
  "node_or children = Composite FOr children"

definition node_not :: "'f filter_node \<Rightarrow> 'f filter_node" where
  "node_not n = NotNode n"

datatype filter_error =
    UnknownField string
  | TypeMismatch string field_kind string
  | UnsupportedOperation string
  | InvalidExpression string
  | FieldToFieldComparison
  | BareIdentifier string
  | BareLiteral

fun show_filter_error :: "filter_error \<Rightarrow> string" where
  "show_filter_error (UnknownField f) = ''Unknown field: '' @ f"
| "show_filter_error (TypeMismatch f expected got) =
     ''Type mismatch for field '' @ f @ '': expected '' @ show_field_kind expected @ '', got '' @ got"
| "show_filter_error (UnsupportedOperation s) = ''Unsupported operation: '' @ s"
| "show_filter_error (InvalidExpression s) = ''Invalid filter expression: '' @ s"
| "show_filter_error FieldToFieldComparison = ''Field-to-field comparisons are not supported''"
| "show_filter_error (BareIdentifier s) = ''Bare identifier in filter: '' @ s"
| "show_filter_error BareLiteral = ''Bare literal in filter''"

fun got_type :: "odata_value \<Rightarrow> string" where
  "got_type (VString _) = ''string''"
| "got_type (VNumber _) = ''number''"
| "got_type (VBool _) = ''bool''"
| "got_type (VUuid _) = ''uuid''"
| "got_type (VDateTime _) = ''datetime''"
| "got_type (VDate _) = ''date''"
| "got_type (VTime _) = ''time''"
| "got_type VNull = ''null''"

fun kind_matches :: "field_kind \<Rightarrow> odata_value \<Rightarrow> bool" where
  "kind_matches kind (VString _) \<longleftrightarrow> kind = KString"
| "kind_matches kind (VNumber _) \<longleftrightarrow> kind = KI64 \<or> kind = KF64 \<or> kind = KDecimal"
| "kind_matches kind (VBool _) \<longleftrightarrow> kind = KBool"
| "kind_matches kind (VUuid _) \<longleftrightarrow> kind = KUuid"
| "kind_matches kind (VDateTime _) \<longleftrightarrow> kind = KDateTimeUtc"
| "kind_matches kind (VDate _) \<longleftrightarrow> kind = KDate"
| "kind_matches kind (VTime _) \<longleftrightarrow> kind = KTime"
| "kind_matches kind VNull \<longleftrightarrow> False"

definition validate_value_type :: "'f filter_field \<Rightarrow> 'f \<Rightarrow> odata_value \<Rightarrow> (unit, filter_error) result" where
  "validate_value_type ff f value =
     (if kind_matches (ff_kind ff f) value then Ok ()
      else Err (TypeMismatch (ff_name ff f) (ff_kind ff f) (got_type value)))"

fun to_filter_op :: "compare_operator \<Rightarrow> filter_op" where
  "to_filter_op OpEq = FEq"
| "to_filter_op OpNe = FNe"
| "to_filter_op OpGt = FGt"
| "to_filter_op OpGe = FGe"
| "to_filter_op OpLt = FLt"
| "to_filter_op OpLe = FLe"

text \<open>The body that the three string functions share, with their operator.\<close>

definition string_function ::
    "'f filter_field \<Rightarrow> string \<Rightarrow> filter_op \<Rightarrow> string \<Rightarrow> ('f filter_node, filter_error) result" where
  "string_function ff field_name op s =
     and_then (ok_or (UnknownField field_name) (from_name ff field_name)) (\<lambda>f.
       if ff_kind ff f \<noteq> KString then Err (TypeMismatch field_name KString ''non-string'')
       else Ok (node_binary f op (VString s)))"

definition convert_compare ::
    "'f filter_field \<Rightarrow> expr \<Rightarrow> compare_operator \<Rightarrow> expr \<Rightarrow> ('f filter_node, filter_error) result" where
  "convert_compare ff left op right =
     and_then (case (left, right) of
         (EIdentifier name, EValue val) \<Rightarrow> Ok (name, val)
       | (EIdentifier _, EIdentifier _) \<Rightarrow> Err FieldToFieldComparison
       | _ \<Rightarrow> Err (InvalidExpression ''Comparison must be between field and value'')) (\<lambda>(field_name, value).
     and_then (ok_or (UnknownField field_name) (from_name ff field_name)) (\<lambda>f.
     and_then (validate_value_type ff f value) (\<lambda>_.
       Ok (node_binary f (to_filter_op op) value))))"

definition convert_function ::
    "'f filter_field \<Rightarrow> string \<Rightarrow> expr list \<Rightarrow> ('f filter_node, filter_error) result" where
  "convert_function ff func_name args =
     (let name_lower = to_ascii_lowercase func_name;
          unsupported = Err (UnsupportedOperation (''Function '' @ quoted func_name))
      in (case args of
            [EIdentifier field_name, EValue (VString s)] \<Rightarrow>
              if name_lower = ''contains'' then string_function ff field_name FContains s
              else if name_lower = ''startswith'' then string_function ff field_name FStartsWith s
              else if name_lower = ''endswith'' then string_function ff field_name FEndsWith s
              else unsupported
          | _ \<Rightarrow> unsupported))"

fun convert_expr_to_filter_node :: "'f filter_field \<Rightarrow> expr \<Rightarrow> ('f filter_node, filter_error) result" where
  "convert_expr_to_filter_node ff (EAnd l r) =
     and_then (convert_expr_to_filter_node ff l) (\<lambda>ln.
     and_then (convert_expr_to_filter_node ff r) (\<lambda>rn. Ok (node_and [ln, rn])))"
| "convert_expr_to_filter_node ff (EOr l r) =
     and_then (convert_expr_to_filter_node ff l) (\<lambda>ln.
     and_then (convert_expr_to_filter_node ff r) (\<lambda>rn. Ok (node_or [ln, rn])))"
| "convert_expr_to_filter_node ff (ENot x) =
     and_then (convert_expr_to_filter_node ff x) (\<lambda>n. Ok (node_not n))"
| "convert_expr_to_filter_node ff (ECompare l op r) = convert_compare ff l op r"
| "convert_expr_to_filter_node ff (EFunction n args) = convert_function ff n args"
| "convert_expr_to_filter_node ff (EIn _ _) =
     Err (UnsupportedOperation ''IN operator not yet supported in typed filters'')"
| "convert_expr_to_filter_node ff (EIdentifier name) = Err (BareIdentifier name)"
| "convert_expr_to_filter_node ff (EValue _) = Err BareLiteral"

section \<open>Well-typed nodes\<close>

text \<open>What a converted filter guarantees to the code that turns it into SQL: logical operators only in
  composites with two children, comparisons only between a known field and a value of its kind,
  string functions only on string fields.\<close>

fun is_compare_op :: "filter_op \<Rightarrow> bool" where
  "is_compare_op op = (op \<in> {FEq, FNe, FGt, FGe, FLt, FLe})"

fun wf_node :: "'f filter_field \<Rightarrow> 'f filter_node \<Rightarrow> bool" where
  "wf_node ff (Binary f op v) \<longleftrightarrow> f \<in> set (ff_fields ff) \<and>
     (if is_compare_op op then kind_matches (ff_kind ff f) v
      else op \<in> {FContains, FStartsWith, FEndsWith} \<and> ff_kind ff f = KString \<and> (\<exists>s. v = VString s))"
| "wf_node ff (Composite op ns) \<longleftrightarrow> op \<in> {FAnd, FOr} \<and> length ns = 2 \<and> (\<forall>n \<in> set ns. wf_node ff n)"
| "wf_node ff (NotNode n) \<longleftrightarrow> wf_node ff n"

lemma from_name_SomeD: "from_name ff n = Some f \<Longrightarrow> f \<in> set (ff_fields ff) \<and> eq_ignore_ascii_case (ff_name ff f) n"
  by (auto simp: from_name_def find_Some_iff)

lemma is_compare_to_filter_op [simp]: "is_compare_op (to_filter_op op)"
  by (cases op) auto

lemma convert_compare_wf: "convert_compare ff l op r = Ok n \<Longrightarrow> wf_node ff n"
  by (auto simp: convert_compare_def res_simps validate_value_type_def node_binary_def
      split: expr.splits if_splits dest!: from_name_SomeD simp del: is_compare_op.simps)

lemma string_function_wf:
  "string_function ff name op s = Ok n \<Longrightarrow> op \<in> {FContains, FStartsWith, FEndsWith} \<Longrightarrow> wf_node ff n"
  by (auto simp: string_function_def res_simps node_binary_def split: if_splits dest!: from_name_SomeD)

lemma convert_function_wf: "convert_function ff name args = Ok n \<Longrightarrow> wf_node ff n"
  by (auto simp: convert_function_def Let_def split: list.splits expr.splits odata_value.splits if_splits
      intro: string_function_wf)

lemma convert_wf: "convert_expr_to_filter_node ff e = Ok n \<Longrightarrow> wf_node ff n"
proof (induction ff e arbitrary: n rule: convert_expr_to_filter_node.induct)
  case (4 ff l op r)
  then show ?case by (auto intro: convert_compare_wf)
next
  case (5 ff m args)
  then show ?case by (auto intro: convert_function_wf)
qed (auto simp: res_simps node_and_def node_or_def node_not_def)

end
