(* ===== verification/Sea_Query.thy ===== *)
theory Sea_Query
  imports OData_Core "HOL-Library.Multiset"
begin

text \<open>
  The part of the SeaORM query API that the program calls, as terms: values, conditions and selects
  record exactly the calls made. Their meaning is the documented one: SQL's three-valued logic for
  conditions and the usual reading of \<open>SELECT ... WHERE ... ORDER BY ... LIMIT\<close>. How the database
  compares two values and matches a \<open>LIKE\<close> pattern is a parameter (\<open>sql_sem\<close>).

  A floating-point value is its bit pattern, a decimal its mantissa and scale.
  \<open>ExistsIn t c vs\<close> is the only subquery the program builds, \<open>EXISTS (SELECT 1 FROM t WHERE t.c IN vs)\<close>;
  the contents of other tables are part of \<open>sql_sem\<close>.
\<close>

section \<open>Terms\<close>

datatype sea_value =
    SBool "bool option"
  | SBigInt "int option"
  | SDouble "nat option"
  | SString "string option"
  | SUuid "nat option"
  | SDateTime "int option"
  | SDate "int option"
  | STime "nat option"
  | SDecimal "(int \<times> nat) option"

datatype 'c simple_expr =
    ColEq 'c sea_value
  | ColNe 'c sea_value
  | ColGt 'c sea_value
  | ColGte 'c sea_value
  | ColLt 'c sea_value
  | ColLte 'c sea_value
  | ColLike 'c string
  | ColIsIn 'c "sea_value list"
  | ColIsNull 'c
  | ColIsNotNull 'c
  | Cust string
  | ExprValue bool
  | ExistsIn string string "sea_value list"

datatype 'c condition = Condition (c_any: bool) (c_negate: bool) (c_exprs: "'c cexpr list")
  and 'c cexpr = Simple "'c simple_expr" | Nested "'c condition"

definition cond_all :: "'c condition" where
  "cond_all = Condition False False []"

definition cond_any :: "'c condition" where
  "cond_any = Condition True False []"

fun cond_add :: "'c cexpr \<Rightarrow> 'c condition \<Rightarrow> 'c condition" where
  "cond_add e (Condition a n es) = Condition a n (es @ [e])"

fun cond_not :: "'c condition \<Rightarrow> 'c condition" where
  "cond_not (Condition a n es) = Condition a (\<not> n) es"

record 'c select =
  sel_where :: "'c condition list"
  sel_order :: "('c \<times> sort_dir) list"
  sel_limit :: "nat option"
  sel_offset :: nat

definition sel_filter :: "'c condition \<Rightarrow> 'c select \<Rightarrow> 'c select" where
  "sel_filter c s = s\<lparr>sel_where := sel_where s @ [c]\<rparr>"

definition sel_order_by :: "'c \<Rightarrow> sort_dir \<Rightarrow> 'c select \<Rightarrow> 'c select" where
  "sel_order_by c d s = s\<lparr>sel_order := sel_order s @ [(c, d)]\<rparr>"

definition sel_set_limit :: "nat \<Rightarrow> 'c select \<Rightarrow> 'c select" where
  "sel_set_limit n s = s\<lparr>sel_limit := Some n\<rparr>"

definition sel_set_offset :: "nat \<Rightarrow> 'c select \<Rightarrow> 'c select" where
  "sel_set_offset n s = s\<lparr>sel_offset := n\<rparr>"

text \<open>\<open>E::find()\<close>, and the conditions of \<open>E::update_many()\<close> and \<open>E::delete_many()\<close>.\<close>

definition sel_find :: "'c select" where
  "sel_find = \<lparr>sel_where = [], sel_order = [], sel_limit = None, sel_offset = 0\<rparr>"

section \<open>Meaning\<close>

type_synonym tri = "bool option"

definition tri_and :: "tri \<Rightarrow> tri \<Rightarrow> tri" where
  "tri_and a b = (if a = Some False \<or> b = Some False then Some False
     else if a = None \<or> b = None then None else Some True)"

definition tri_or :: "tri \<Rightarrow> tri \<Rightarrow> tri" where
  "tri_or a b = (if a = Some True \<or> b = Some True then Some True
     else if a = None \<or> b = None then None else Some False)"

definition tri_not :: "tri \<Rightarrow> tri" where
  "tri_not a = map_option (\<lambda>b. \<not> b) a"

fun is_null :: "sea_value \<Rightarrow> bool" where
  "is_null (SBool v) = (v = None)"
| "is_null (SBigInt v) = (v = None)"
| "is_null (SDouble v) = (v = None)"
| "is_null (SString v) = (v = None)"
| "is_null (SUuid v) = (v = None)"
| "is_null (SDateTime v) = (v = None)"
| "is_null (SDate v) = (v = None)"
| "is_null (STime v) = (v = None)"
| "is_null (SDecimal v) = (v = None)"

record sql_sem =
  sv_lt :: "sea_value \<Rightarrow> sea_value \<Rightarrow> bool"
  sv_like :: "string \<Rightarrow> string \<Rightarrow> bool"
  sv_cust :: "string \<Rightarrow> tri"
  sv_rows :: "string \<Rightarrow> (string \<Rightarrow> sea_value) list"

definition sql_cmp :: "(sea_value \<Rightarrow> sea_value \<Rightarrow> bool) \<Rightarrow> sea_value \<Rightarrow> sea_value \<Rightarrow> tri" where
  "sql_cmp p a b = (if is_null a \<or> is_null b then None else Some (p a b))"

definition sv_eq :: "sql_sem \<Rightarrow> sea_value \<Rightarrow> sea_value \<Rightarrow> bool" where
  "sv_eq sem a b \<longleftrightarrow> \<not> sv_lt sem a b \<and> \<not> sv_lt sem b a"

definition sql_in :: "sql_sem \<Rightarrow> sea_value \<Rightarrow> sea_value list \<Rightarrow> tri" where
  "sql_in sem x vs = foldr (\<lambda>v acc. tri_or (sql_cmp (sv_eq sem) x v) acc) vs (Some False)"

fun eval_simple :: "sql_sem \<Rightarrow> ('c \<Rightarrow> sea_value) \<Rightarrow> 'c simple_expr \<Rightarrow> tri" where
  "eval_simple sem r (ColEq c v) = sql_cmp (sv_eq sem) (r c) v"
| "eval_simple sem r (ColNe c v) = tri_not (sql_cmp (sv_eq sem) (r c) v)"
| "eval_simple sem r (ColGt c v) = sql_cmp (\<lambda>a b. sv_lt sem b a) (r c) v"
| "eval_simple sem r (ColGte c v) = sql_cmp (\<lambda>a b. \<not> sv_lt sem a b) (r c) v"
| "eval_simple sem r (ColLt c v) = sql_cmp (sv_lt sem) (r c) v"
| "eval_simple sem r (ColLte c v) = sql_cmp (\<lambda>a b. \<not> sv_lt sem b a) (r c) v"
| "eval_simple sem r (ColLike c p) = (case r c of SString (Some t) \<Rightarrow> Some (sv_like sem p t) | _ \<Rightarrow> None)"
| "eval_simple sem r (ColIsIn c vs) = sql_in sem (r c) vs"
| "eval_simple sem r (ColIsNull c) = Some (is_null (r c))"
| "eval_simple sem r (ColIsNotNull c) = Some (\<not> is_null (r c))"
| "eval_simple sem r (Cust s) = sv_cust sem s"
| "eval_simple sem r (ExprValue b) = Some b"
| "eval_simple sem r (ExistsIn t c vs) = Some (\<exists>row \<in> set (sv_rows sem t). sql_in sem (row c) vs = Some True)"

fun eval_condition :: "sql_sem \<Rightarrow> ('c \<Rightarrow> sea_value) \<Rightarrow> 'c condition \<Rightarrow> tri"
  and eval_cexpr :: "sql_sem \<Rightarrow> ('c \<Rightarrow> sea_value) \<Rightarrow> 'c cexpr \<Rightarrow> tri" where
  "eval_condition sem r (Condition a n es) =
     (let v = (if a then foldr tri_or (map (eval_cexpr sem r) es) (Some False)
               else foldr tri_and (map (eval_cexpr sem r) es) (Some True))
      in if n then tri_not v else v)"
| "eval_cexpr sem r (Simple e) = eval_simple sem r e"
| "eval_cexpr sem r (Nested c) = eval_condition sem r c"

definition row_selected :: "sql_sem \<Rightarrow> ('c \<Rightarrow> sea_value) \<Rightarrow> 'c condition list \<Rightarrow> bool" where
  "row_selected sem r cs \<longleftrightarrow> (\<forall>c \<in> set cs. eval_condition sem r c = Some True)"

text \<open>\<open>r\<close> comes strictly before \<open>r'\<close> in an \<open>ORDER BY\<close> list.\<close>

fun row_before :: "sql_sem \<Rightarrow> ('c \<times> sort_dir) list \<Rightarrow> ('c \<Rightarrow> sea_value) \<Rightarrow> ('c \<Rightarrow> sea_value) \<Rightarrow> bool" where
  "row_before sem [] r r' = False"
| "row_before sem ((c, d) # os) r r' =
     (let lo = (case d of Asc \<Rightarrow> r c | Desc \<Rightarrow> r' c); hi = (case d of Asc \<Rightarrow> r' c | Desc \<Rightarrow> r c)
      in sv_lt sem lo hi \<or> (\<not> sv_lt sem hi lo \<and> row_before sem os r r'))"

text \<open>\<open>rows\<close> is an answer the database may give to a select over \<open>table\<close>: the selected rows, each as
  often as it occurs, ordered, and cut at the limit.\<close>

definition sql_answer ::
    "sql_sem \<Rightarrow> ('row \<Rightarrow> 'c \<Rightarrow> sea_value) \<Rightarrow> 'row list \<Rightarrow> 'c select \<Rightarrow> 'row list \<Rightarrow> bool" where
  "sql_answer sem col table s rows \<longleftrightarrow>
     (\<exists>full. mset full = mset (filter (\<lambda>r. row_selected sem (col r) (sel_where s)) table) \<and>
        sorted_wrt (\<lambda>r r'. \<not> row_before sem (sel_order s) (col r') (col r)) full \<and>
        rows = (case sel_limit s of None \<Rightarrow> drop (sel_offset s) full | Some n \<Rightarrow> take n (drop (sel_offset s) full)))"

section \<open>Rules\<close>

lemma tri_simps [simp]:
  "tri_not (Some b) = Some (\<not> b)" "tri_not None = None" "tri_not (tri_not u) = u"
  "tri_and (Some True) u = u" "tri_and u (Some True) = u"
  "tri_or (Some False) u = u" "tri_or u (Some False) = u"
  "tri_and (Some a) (Some b) = Some (a \<and> b)" "tri_or (Some a) (Some b) = Some (a \<or> b)"
  by (cases u; auto simp: tri_not_def tri_or_def tri_and_def)+

lemma tri_and_True_iff: "tri_and a b = Some True \<longleftrightarrow> a = Some True \<and> b = Some True"
  by (cases a; cases b) (auto simp: tri_and_def)

lemma tri_or_True_iff: "tri_or a b = Some True \<longleftrightarrow> a = Some True \<or> b = Some True"
  by (auto simp: tri_or_def)

lemma foldr_tri_and_True: "foldr tri_and vs (Some True) = Some True \<longleftrightarrow> (\<forall>v \<in> set vs. v = Some True)"
  by (induction vs) (auto simp: tri_and_True_iff)

lemma foldr_tri_or_True: "foldr tri_or vs (Some False) = Some True \<longleftrightarrow> (\<exists>v \<in> set vs. v = Some True)"
  by (induction vs) (auto simp: tri_or_True_iff)

lemma eval_all_True:
  "eval_condition sem r (Condition False False es) = Some True \<longleftrightarrow> (\<forall>e \<in> set es. eval_cexpr sem r e = Some True)"
  by (simp add: foldr_tri_and_True)

lemma eval_any_True:
  "eval_condition sem r (Condition True False es) = Some True \<longleftrightarrow> (\<exists>e \<in> set es. eval_cexpr sem r e = Some True)"
  by (force simp: foldr_tri_or_True image_iff)

lemma sql_cmp_Some [simp]: "\<not> is_null a \<Longrightarrow> \<not> is_null b \<Longrightarrow> sql_cmp p a b = Some (p a b)"
  by (simp add: sql_cmp_def)

lemma sql_in_True: "sql_in sem x vs = Some True \<longleftrightarrow> (\<exists>v \<in> set vs. sql_cmp (sv_eq sem) x v = Some True)"
  by (induction vs) (auto simp: sql_in_def tri_or_True_iff)

lemma row_selected_append: "row_selected sem r (cs @ ds) \<longleftrightarrow> row_selected sem r cs \<and> row_selected sem r ds"
  by (auto simp: row_selected_def)

end
