(* ===== verification/OData_Sql.thy ===== *)
theory OData_Sql
  imports OData_Filter Sea_Query Complex_Main
begin

text \<open>
  Translation of OData filters and cursors into SeaORM conditions, in both forms the program has: the
  \<open>FieldMap\<close> compiler of \<open>libs/modkit-db/src/odata/core.rs\<close> (definitions with prefix \<open>fm_\<close> where
  the names clash) and the typed one of \<open>sea_orm_filter.rs\<close>.

  Number conversions (\<open>bigdecimal\<close>, \<open>rust_decimal\<close>) and the text forms of the cursor values are
  third-party code and are parameters.
\<close>

record number_ops =
  bd_to_i64 :: "bigdecimal \<Rightarrow> int option"
  bd_to_f64 :: "bigdecimal \<Rightarrow> nat option"
  bd_show :: "bigdecimal \<Rightarrow> string"
  dec_from_str_exact :: "string \<Rightarrow> (int \<times> nat) option"
  dec_parse :: "string \<Rightarrow> (int \<times> nat) option"

record value_codec =
  vc_f64_show :: "nat \<Rightarrow> string"
  vc_f64_parse :: "string \<Rightarrow> nat option"
  vc_uuid_show :: "nat \<Rightarrow> string"
  vc_uuid_parse :: "string \<Rightarrow> nat option"
  vc_datetime_show :: "int \<Rightarrow> string"
  vc_datetime_parse :: "string \<Rightarrow> int option"
  vc_date_show :: "int \<Rightarrow> string"
  vc_date_parse :: "string \<Rightarrow> int option"
  vc_time_show :: "nat \<Rightarrow> string"
  vc_time_parse :: "string \<Rightarrow> nat option"
  vc_dec_show :: "int \<times> nat \<Rightarrow> string"
  vc_dec_parse :: "string \<Rightarrow> (int \<times> nat) option"

section \<open>Field maps\<close>

record ('row, 'c) field =
  fld_col :: 'c
  fld_kind :: field_kind
  fld_extract :: "('row \<Rightarrow> string) option"

type_synonym ('row, 'c) field_map = "(string \<times> ('row, 'c) field) list"

definition fm_insert :: "string \<Rightarrow> 'c \<Rightarrow> field_kind \<Rightarrow> ('row, 'c) field_map \<Rightarrow> ('row, 'c) field_map" where
  "fm_insert api_name col kind m =
     AList.update (to_lowercase api_name) \<lparr>fld_col = col, fld_kind = kind, fld_extract = None\<rparr> m"

definition fm_insert_with_extractor ::
    "string \<Rightarrow> 'c \<Rightarrow> field_kind \<Rightarrow> ('row \<Rightarrow> string) \<Rightarrow> ('row, 'c) field_map \<Rightarrow> ('row, 'c) field_map" where
  "fm_insert_with_extractor api_name col kind f m =
     AList.update (to_lowercase api_name) \<lparr>fld_col = col, fld_kind = kind, fld_extract = Some f\<rparr> m"

definition fm_get :: "('row, 'c) field_map \<Rightarrow> string \<Rightarrow> ('row, 'c) field option" where
  "fm_get m name = map_of m (to_lowercase name)"

definition encode_model_key :: "('row, 'c) field_map \<Rightarrow> 'row \<Rightarrow> string \<Rightarrow> string option" where
  "encode_model_key m model field_name =
     Option.bind (fm_get m field_name) (\<lambda>f. map_option (\<lambda>g. g model) (fld_extract f))"

section \<open>Build errors\<close>

datatype build_error =
    BUnknownField string
  | BTypeMismatch field_kind string
  | BUnsupportedOp compare_operator
  | BUnsupportedFn string
  | BNonLiteralInList
  | BBareIdentifier string
  | BBareLiteral
  | BOther string

fun debug_compare :: "compare_operator \<Rightarrow> string" where
  "debug_compare OpEq = ''Eq''"
| "debug_compare OpNe = ''Ne''"
| "debug_compare OpGt = ''Gt''"
| "debug_compare OpGe = ''Ge''"
| "debug_compare OpLt = ''Lt''"
| "debug_compare OpLe = ''Le''"

fun show_build_error :: "build_error \<Rightarrow> string" where
  "show_build_error (BUnknownField f) = ''unknown field: '' @ f"
| "show_build_error (BTypeMismatch expected got) =
     ''type mismatch: expected '' @ show_field_kind expected @ '', got '' @ got"
| "show_build_error (BUnsupportedOp op) = ''unsupported operator: '' @ debug_compare op"
| "show_build_error (BUnsupportedFn f) = ''unsupported function or args: '' @ f @ ''()''"
| "show_build_error BNonLiteralInList = ''IN() list supports only literals''"
| "show_build_error (BBareIdentifier s) = ''bare identifier not allowed: '' @ s"
| "show_build_error BBareLiteral = ''bare literal not allowed''"
| "show_build_error (BOther s) = s"

section \<open>Coercion\<close>

definition bigdecimal_to_decimal :: "number_ops \<Rightarrow> bigdecimal \<Rightarrow> (int \<times> nat, build_error) result" where
  "bigdecimal_to_decimal no bd =
     (let s = bd_show no bd
      in ok_or (BOther ''invalid decimal'')
           (case dec_from_str_exact no s of Some d \<Rightarrow> Some d | None \<Rightarrow> dec_parse no s))"

definition coerce :: "number_ops \<Rightarrow> field_kind \<Rightarrow> odata_value \<Rightarrow> (sea_value, build_error) result" where
  "coerce no kind v =
     (case (kind, v) of
        (KString, VString s) \<Rightarrow> Ok (SString (Some s))
      | (KI64, VNumber n) \<Rightarrow>
          and_then (ok_or (BTypeMismatch KI64 ''number'') (bd_to_i64 no n)) (\<lambda>i. Ok (SBigInt (Some i)))
      | (KF64, VNumber n) \<Rightarrow>
          and_then (ok_or (BTypeMismatch KF64 ''number'') (bd_to_f64 no n)) (\<lambda>f. Ok (SDouble (Some f)))
      | (KDecimal, VNumber n) \<Rightarrow> and_then (bigdecimal_to_decimal no n) (\<lambda>d. Ok (SDecimal (Some d)))
      | (KBool, VBool b) \<Rightarrow> Ok (SBool (Some b))
      | (KUuid, VUuid u) \<Rightarrow> Ok (SUuid (Some u))
      | (KDateTimeUtc, VDateTime t) \<Rightarrow> Ok (SDateTime (Some t))
      | (KDate, VDate d) \<Rightarrow> Ok (SDate (Some d))
      | (KTime, VTime t) \<Rightarrow> Ok (STime (Some t))
      | (expected, v) \<Rightarrow> Err (BTypeMismatch expected (got_type v)))"

definition coerce_many :: "number_ops \<Rightarrow> field_kind \<Rightarrow> expr list \<Rightarrow> (sea_value list, build_error) result" where
  "coerce_many no kind xs =
     collect (\<lambda>e. case e of EValue v \<Rightarrow> coerce no kind v | _ \<Rightarrow> Err BNonLiteralInList) xs"

section \<open>LIKE patterns\<close>

fun like_escape :: "string \<Rightarrow> string" where
  "like_escape [] = []"
| "like_escape (c # cs) =
     (if c = CHR ''%'' \<or> c = CHR ''_'' \<or> c = CHR 0x5C then CHR 0x5C # c # like_escape cs
      else c # like_escape cs)"

definition like_contains :: "string \<Rightarrow> string" where
  "like_contains s = ''%'' @ like_escape s @ ''%''"

definition like_starts :: "string \<Rightarrow> string" where
  "like_starts s = like_escape s @ ''%''"

definition like_ends :: "string \<Rightarrow> string" where
  "like_ends s = ''%'' @ like_escape s"

definition ensure_string_field :: "('row, 'c) field \<Rightarrow> (unit, build_error) result" where
  "ensure_string_field f =
     (if fld_kind f \<noteq> KString then Err (BTypeMismatch KString ''non-string field'') else Ok ())"

section \<open>Filters through a field map\<close>

fun col_expr :: "compare_operator \<Rightarrow> 'c \<Rightarrow> sea_value \<Rightarrow> 'c simple_expr" where
  "col_expr OpEq c v = ColEq c v"
| "col_expr OpNe c v = ColNe c v"
| "col_expr OpGt c v = ColGt c v"
| "col_expr OpGe c v = ColGte c v"
| "col_expr OpLt c v = ColLt c v"
| "col_expr OpLe c v = ColLte c v"

definition fm_field :: "('row, 'c) field_map \<Rightarrow> string \<Rightarrow> (('row, 'c) field, build_error) result" where
  "fm_field m name = ok_or (BUnknownField name) (fm_get m name)"

definition compare_to_condition ::
    "number_ops \<Rightarrow> ('row, 'c) field_map \<Rightarrow> expr \<Rightarrow> compare_operator \<Rightarrow> expr \<Rightarrow> ('c condition, build_error) result" where
  "compare_to_condition no m lhs op rhs =
     and_then (case (lhs, rhs) of
         (EIdentifier name, EValue val) \<Rightarrow> Ok (name, val)
       | (EIdentifier _, EIdentifier _) \<Rightarrow> Err (BOther ''field-to-field comparison is not supported'')
       | _ \<Rightarrow> Err (BOther ''unsupported comparison form'')) (\<lambda>(name, rhs_val).
     and_then (fm_field m name) (\<lambda>f.
       if rhs_val = VNull then
         (case op of
            OpEq \<Rightarrow> Ok (cond_add (Simple (ColIsNull (fld_col f))) cond_all)
          | OpNe \<Rightarrow> Ok (cond_add (Simple (ColIsNotNull (fld_col f))) cond_all)
          | _ \<Rightarrow> Err (BUnsupportedOp op))
       else and_then (coerce no (fld_kind f) rhs_val) (\<lambda>value.
         Ok (cond_add (Simple (col_expr op (fld_col f) value)) cond_all))))"

definition in_to_condition ::
    "number_ops \<Rightarrow> ('row, 'c) field_map \<Rightarrow> expr \<Rightarrow> expr list \<Rightarrow> ('c condition, build_error) result" where
  "in_to_condition no m l list =
     (case l of
        EIdentifier name \<Rightarrow>
          and_then (fm_field m name) (\<lambda>f.
          and_then (coerce_many no (fld_kind f) list) (\<lambda>vals.
            if vals = [] then Ok (cond_add (Simple (Cust ''1=0'')) cond_all)
            else Ok (cond_add (Simple (ColIsIn (fld_col f) vals)) cond_all)))
      | _ \<Rightarrow> Err (BOther ''left side of IN must be a field''))"

definition like_to_condition ::
    "('row, 'c) field_map \<Rightarrow> string \<Rightarrow> string \<Rightarrow> ('c condition, build_error) result" where
  "like_to_condition m name pat =
     and_then (fm_field m name) (\<lambda>f.
     and_then (ensure_string_field f) (\<lambda>_.
       Ok (cond_add (Simple (ColLike (fld_col f) pat)) cond_all)))"

definition function_to_condition ::
    "('row, 'c) field_map \<Rightarrow> string \<Rightarrow> expr list \<Rightarrow> ('c condition, build_error) result" where
  "function_to_condition m fname args =
     (let n = to_ascii_lowercase fname
      in (case args of
            [EIdentifier name, EValue (VString s)] \<Rightarrow>
              if n = ''contains'' then like_to_condition m name (like_contains s)
              else if n = ''startswith'' then like_to_condition m name (like_starts s)
              else if n = ''endswith'' then like_to_condition m name (like_ends s)
              else Err (BUnsupportedFn fname)
          | _ \<Rightarrow> Err (BUnsupportedFn fname)))"

fun expr_to_condition :: "number_ops \<Rightarrow> ('row, 'c) field_map \<Rightarrow> expr \<Rightarrow> ('c condition, build_error) result" where
  "expr_to_condition no m (EAnd a b) =
     and_then (expr_to_condition no m a) (\<lambda>l.
     and_then (expr_to_condition no m b) (\<lambda>r. Ok (cond_add (Nested r) (cond_add (Nested l) cond_all))))"
| "expr_to_condition no m (EOr a b) =
     and_then (expr_to_condition no m a) (\<lambda>l.
     and_then (expr_to_condition no m b) (\<lambda>r. Ok (cond_add (Nested r) (cond_add (Nested l) cond_any))))"
| "expr_to_condition no m (ENot x) =
     and_then (expr_to_condition no m x) (\<lambda>i. Ok (cond_not (cond_add (Nested i) cond_all)))"
| "expr_to_condition no m (ECompare l op r) = compare_to_condition no m l op r"
| "expr_to_condition no m (EIn l list) = in_to_condition no m l list"
| "expr_to_condition no m (EFunction n args) = function_to_condition m n args"
| "expr_to_condition no m (EIdentifier name) = Err (BBareIdentifier name)"
| "expr_to_condition no m (EValue _) = Err BBareLiteral"

section \<open>Typed filters\<close>

fun debug_filter_op :: "filter_op \<Rightarrow> string" where
  "debug_filter_op FEq = ''Eq''"
| "debug_filter_op FNe = ''Ne''"
| "debug_filter_op FGt = ''Gt''"
| "debug_filter_op FGe = ''Ge''"
| "debug_filter_op FLt = ''Lt''"
| "debug_filter_op FLe = ''Le''"
| "debug_filter_op FContains = ''Contains''"
| "debug_filter_op FStartsWith = ''StartsWith''"
| "debug_filter_op FEndsWith = ''EndsWith''"
| "debug_filter_op FAnd = ''And''"
| "debug_filter_op FOr = ''Or''"

fun odata_value_to_sea_value :: "number_ops \<Rightarrow> odata_value \<Rightarrow> (sea_value, string) result" where
  "odata_value_to_sea_value no (VString s) = Ok (SString (Some s))"
| "odata_value_to_sea_value no (VNumber n) =
     (case bd_to_i64 no n of
        Some i \<Rightarrow> Ok (SBigInt (Some i))
      | None \<Rightarrow> (case bd_to_f64 no n of
                   Some f \<Rightarrow> Ok (SDouble (Some f))
                 | None \<Rightarrow> Err ''Number value out of range''))"
| "odata_value_to_sea_value no (VBool b) = Ok (SBool (Some b))"
| "odata_value_to_sea_value no (VUuid u) = Ok (SUuid (Some u))"
| "odata_value_to_sea_value no (VDateTime t) = Ok (SDateTime (Some t))"
| "odata_value_to_sea_value no (VDate d) = Ok (SDate (Some d))"
| "odata_value_to_sea_value no (VTime t) = Ok (STime (Some t))"
| "odata_value_to_sea_value no VNull = Err ''NULL values should be handled separately''"

text \<open>\<open>dbg\<close> is the derived \<open>Debug\<close> rendering of a value.\<close>

fun extract_string :: "(odata_value \<Rightarrow> string) \<Rightarrow> odata_value \<Rightarrow> (string, string) result" where
  "extract_string dbg (VString s) = Ok s"
| "extract_string dbg v = Err (''Expected string value, got '' @ dbg v)"

fun escape_like :: "string \<Rightarrow> string" where
  "escape_like [] = []"
| "escape_like (c # cs) =
     (if c = CHR ''%'' \<or> c = CHR ''_'' \<or> c = CHR 0x5C then CHR 0x5C # c # escape_like cs
      else c # escape_like cs)"

definition build_binary_condition ::
    "number_ops \<Rightarrow> (odata_value \<Rightarrow> string) \<Rightarrow> 'c \<Rightarrow> filter_op \<Rightarrow> odata_value \<Rightarrow> ('c condition, string) result" where
  "build_binary_condition no dbg column op value =
     and_then (odata_value_to_sea_value no value) (\<lambda>sea_value.
       if value = VNull then
         (case op of
            FEq \<Rightarrow> Ok (cond_add (Simple (ColIsNull column)) cond_all)
          | FNe \<Rightarrow> Ok (cond_add (Simple (ColIsNotNull column)) cond_all)
          | _ \<Rightarrow> Err (''Unsupported operator for NULL: '' @ debug_filter_op op))
       else and_then
         (case op of
            FEq \<Rightarrow> Ok (ColEq column sea_value)
          | FNe \<Rightarrow> Ok (ColNe column sea_value)
          | FGt \<Rightarrow> Ok (ColGt column sea_value)
          | FGe \<Rightarrow> Ok (ColGte column sea_value)
          | FLt \<Rightarrow> Ok (ColLt column sea_value)
          | FLe \<Rightarrow> Ok (ColLte column sea_value)
          | FContains \<Rightarrow>
              and_then (extract_string dbg value) (\<lambda>s. Ok (ColLike column (''%'' @ escape_like s @ ''%'')))
          | FStartsWith \<Rightarrow>
              and_then (extract_string dbg value) (\<lambda>s. Ok (ColLike column (escape_like s @ ''%'')))
          | FEndsWith \<Rightarrow>
              and_then (extract_string dbg value) (\<lambda>s. Ok (ColLike column (''%'' @ escape_like s)))
          | _ \<Rightarrow> Err (''Logical operator '' @ debug_filter_op op @ '' in binary context''))
         (\<lambda>e. Ok (cond_add (Simple e) cond_all)))"

fun filter_node_to_condition ::
    "number_ops \<Rightarrow> (odata_value \<Rightarrow> string) \<Rightarrow> ('f \<Rightarrow> 'c) \<Rightarrow> 'f filter_node \<Rightarrow> ('c condition, string) result" where
  "filter_node_to_condition no dbg map_field (Binary f op value) =
     build_binary_condition no dbg (map_field f) op value"
| "filter_node_to_condition no dbg map_field (Composite op children) =
     and_then (case op of FAnd \<Rightarrow> Ok cond_all | FOr \<Rightarrow> Ok cond_any
               | _ \<Rightarrow> Err (''Invalid composite operator: '' @ debug_filter_op op)) (\<lambda>base.
     and_then (collect (filter_node_to_condition no dbg map_field) children) (\<lambda>cs.
       Ok (fold (\<lambda>c acc. cond_add (Nested c) acc) cs base)))"
| "filter_node_to_condition no dbg map_field (NotNode inner) =
     and_then (filter_node_to_condition no dbg map_field inner) (\<lambda>i.
       Ok (cond_not (cond_add (Nested i) cond_all)))"

section \<open>Cursor values\<close>

definition parse_cursor_value :: "value_codec \<Rightarrow> field_kind \<Rightarrow> string \<Rightarrow> (sea_value, string) result" where
  "parse_cursor_value vc kind s =
     (case kind of
        KString \<Rightarrow> Ok (SString (Some s))
      | KI64 \<Rightarrow> and_then (ok_or ''invalid i64 in cursor'' (parse_i64 s)) (\<lambda>i. Ok (SBigInt (Some i)))
      | KF64 \<Rightarrow> and_then (ok_or ''invalid f64 in cursor'' (vc_f64_parse vc s)) (\<lambda>f. Ok (SDouble (Some f)))
      | KBool \<Rightarrow> and_then (ok_or ''invalid bool in cursor'' (parse_bool s)) (\<lambda>b. Ok (SBool (Some b)))
      | KUuid \<Rightarrow> and_then (ok_or ''invalid uuid in cursor'' (vc_uuid_parse vc s)) (\<lambda>u. Ok (SUuid (Some u)))
      | KDateTimeUtc \<Rightarrow>
          and_then (ok_or ''invalid datetime in cursor'' (vc_datetime_parse vc s)) (\<lambda>t. Ok (SDateTime (Some t)))
      | KDate \<Rightarrow> and_then (ok_or ''invalid date in cursor'' (vc_date_parse vc s)) (\<lambda>d. Ok (SDate (Some d)))
      | KTime \<Rightarrow> and_then (ok_or ''invalid time in cursor'' (vc_time_parse vc s)) (\<lambda>t. Ok (STime (Some t)))
      | KDecimal \<Rightarrow>
          and_then (ok_or ''invalid decimal in cursor'' (vc_dec_parse vc s)) (\<lambda>d. Ok (SDecimal (Some d))))"

definition fm_parse_cursor_value :: "value_codec \<Rightarrow> field_kind \<Rightarrow> string \<Rightarrow> (sea_value, build_error) result" where
  "fm_parse_cursor_value vc kind s =
     (case kind of
        KString \<Rightarrow> Ok (SString (Some s))
      | KI64 \<Rightarrow> and_then (ok_or (BOther ''invalid i64 in cursor'') (parse_i64 s)) (\<lambda>i. Ok (SBigInt (Some i)))
      | KF64 \<Rightarrow> and_then (ok_or (BOther ''invalid f64 in cursor'') (vc_f64_parse vc s)) (\<lambda>f. Ok (SDouble (Some f)))
      | KBool \<Rightarrow> and_then (ok_or (BOther ''invalid bool in cursor'') (parse_bool s)) (\<lambda>b. Ok (SBool (Some b)))
      | KUuid \<Rightarrow> and_then (ok_or (BOther ''invalid uuid in cursor'') (vc_uuid_parse vc s)) (\<lambda>u. Ok (SUuid (Some u)))
      | KDateTimeUtc \<Rightarrow> and_then (ok_or (BOther ''invalid datetime in cursor'') (vc_datetime_parse vc s))
          (\<lambda>t. Ok (SDateTime (Some t)))
      | KDate \<Rightarrow> and_then (ok_or (BOther ''invalid date in cursor'') (vc_date_parse vc s)) (\<lambda>d. Ok (SDate (Some d)))
      | KTime \<Rightarrow> and_then (ok_or (BOther ''invalid time in cursor'') (vc_time_parse vc s)) (\<lambda>t. Ok (STime (Some t)))
      | KDecimal \<Rightarrow>
          and_then (ok_or (BOther ''invalid decimal in cursor'') (vc_dec_parse vc s)) (\<lambda>d. Ok (SDecimal (Some d))))"

definition encode_cursor_value :: "value_codec \<Rightarrow> sea_value \<Rightarrow> field_kind \<Rightarrow> (string, string) result" where
  "encode_cursor_value vc value kind =
     (case (kind, value) of
        (KString, SString (Some s)) \<Rightarrow> Ok s
      | (KI64, SBigInt (Some i)) \<Rightarrow> Ok (show_int i)
      | (KF64, SDouble (Some f)) \<Rightarrow> Ok (vc_f64_show vc f)
      | (KBool, SBool (Some b)) \<Rightarrow> Ok (show_bool b)
      | (KUuid, SUuid (Some u)) \<Rightarrow> Ok (vc_uuid_show vc u)
      | (KDateTimeUtc, SDateTime (Some t)) \<Rightarrow> Ok (vc_datetime_show vc t)
      | (KDate, SDate (Some d)) \<Rightarrow> Ok (vc_date_show vc d)
      | (KTime, STime (Some t)) \<Rightarrow> Ok (vc_time_show vc t)
      | (KDecimal, SDecimal (Some d)) \<Rightarrow> Ok (vc_dec_show vc d)
      | _ \<Rightarrow> Err ''Unsupported or mismatched cursor value type'')"

section \<open>LIKE\<close>

text \<open>The meaning of a \<open>LIKE\<close> pattern, for a collation \<open>ceq\<close> and the escape character in force: MySQL
  and PostgreSQL escape with a backslash by default, SQLite has no default escape character.\<close>

function like_match :: "(char \<Rightarrow> char \<Rightarrow> bool) \<Rightarrow> char option \<Rightarrow> string \<Rightarrow> string \<Rightarrow> bool" where
  "like_match ceq e [] t = (t = [])"
| "like_match ceq e (p # ps) t =
     (if e = Some p then
        (case ps of [] \<Rightarrow> False
         | q # qs \<Rightarrow> (case t of [] \<Rightarrow> False | c # cs \<Rightarrow> ceq q c \<and> like_match ceq e qs cs))
      else if p = CHR ''%'' then
        like_match ceq e ps t \<or> (case t of [] \<Rightarrow> False | c # cs \<Rightarrow> like_match ceq e (p # ps) cs)
      else (case t of [] \<Rightarrow> False
            | c # cs \<Rightarrow> (p = CHR ''_'' \<or> ceq p c) \<and> like_match ceq e ps cs))"
  by pat_completeness auto
termination by (relation "measure (\<lambda>(ceq, e, p, t). length p + length t)") auto

abbreviation backslash :: char where "backslash \<equiv> CHR 0x5C"

declare like_match.simps(2) [simp del]

lemma like_match_escape:
  "like_match ceq (Some backslash) (like_escape s @ p) t \<longleftrightarrow>
     (\<exists>u v. t = u @ v \<and> list_all2 ceq s u \<and> like_match ceq (Some backslash) p v)"
proof (induction s arbitrary: t)
  case (Cons c s)
  have "like_match ceq (Some backslash) (like_escape (c # s) @ p) t \<longleftrightarrow>
      (\<exists>d t'. t = d # t' \<and> ceq c d \<and> like_match ceq (Some backslash) (like_escape s @ p) t')"
    by (cases t) (auto simp: like_match.simps(2))
  also have "\<dots> \<longleftrightarrow> (\<exists>u v. t = u @ v \<and> list_all2 ceq (c # s) u \<and> like_match ceq (Some backslash) p v)"
    unfolding Cons.IH
  proof
    assume "\<exists>d t'. t = d # t' \<and> ceq c d \<and> (\<exists>u v. t' = u @ v \<and> list_all2 ceq s u \<and> like_match ceq (Some backslash) p v)"
    then obtain d u v where "t = d # u @ v" "ceq c d" "list_all2 ceq s u" "like_match ceq (Some backslash) p v" by blast
    then show "\<exists>u v. t = u @ v \<and> list_all2 ceq (c # s) u \<and> like_match ceq (Some backslash) p v"
      by (intro exI[of _ "d # u"] exI[of _ v]) simp
  next
    assume "\<exists>u v. t = u @ v \<and> list_all2 ceq (c # s) u \<and> like_match ceq (Some backslash) p v"
    then show "\<exists>d t'. t = d # t' \<and> ceq c d \<and> (\<exists>u v. t' = u @ v \<and> list_all2 ceq s u \<and> like_match ceq (Some backslash) p v)"
      by (auto simp only: list_all2_Cons1 append_Cons) blast
  qed
  finally show ?case .
qed simp

lemma like_match_percent:
  "e \<noteq> Some CHR ''%'' \<Longrightarrow> like_match ceq e (CHR ''%'' # p) t \<longleftrightarrow> (\<exists>u v. t = u @ v \<and> like_match ceq e p v)"
proof (induction t)
  case Nil
  then show ?case by (simp add: like_match.simps(2))
next
  case (Cons c t)
  then have "like_match ceq e (CHR ''%'' # p) (c # t) \<longleftrightarrow>
      like_match ceq e p (c # t) \<or> (\<exists>u v. t = u @ v \<and> like_match ceq e p v)"
    by (subst like_match.simps(2)) simp
  also have "\<dots> \<longleftrightarrow> (\<exists>u v. c # t = u @ v \<and> like_match ceq e p v)"
    by (metis append_Cons append_Nil neq_Nil_conv list.inject)
  finally show ?case .
qed

text \<open>Escaping is read back where the backslash is in force, and changes nothing in a text without special characters.\<close>

definition plain_like :: "string \<Rightarrow> bool" where
  "plain_like s \<longleftrightarrow> CHR ''%'' \<notin> set s \<and> CHR ''_'' \<notin> set s \<and> backslash \<notin> set s"

definition escape_works :: "char option \<Rightarrow> string \<Rightarrow> bool" where
  "escape_works esc s \<longleftrightarrow> esc = Some backslash \<or> esc = None \<and> plain_like s"

lemma like_escape_plain: "plain_like s \<Longrightarrow> like_escape s = s"
  by (induction s) (auto simp: plain_like_def)

lemma like_match_plain:
  "plain_like s \<Longrightarrow> like_match ceq None (s @ p) t \<longleftrightarrow> (\<exists>u v. t = u @ v \<and> list_all2 ceq s u \<and> like_match ceq None p v)"
proof (induction s arbitrary: t)
  case (Cons c s)
  then have "like_match ceq None ((c # s) @ p) t \<longleftrightarrow> (\<exists>d t'. t = d # t' \<and> ceq c d \<and> like_match ceq None (s @ p) t')"
    by (cases t) (auto simp: like_match.simps(2) plain_like_def)
  also have "\<dots> \<longleftrightarrow> (\<exists>d t' u v. t = d # t' \<and> ceq c d \<and> t' = u @ v \<and> list_all2 ceq s u \<and> like_match ceq None p v)"
    using Cons by (auto simp: plain_like_def)
  also have "\<dots> \<longleftrightarrow> (\<exists>u v. t = u @ v \<and> list_all2 ceq (c # s) u \<and> like_match ceq None p v)"
  proof
    assume "\<exists>d t' u v. t = d # t' \<and> ceq c d \<and> t' = u @ v \<and> list_all2 ceq s u \<and> like_match ceq None p v"
    then obtain d u v where "t = d # u @ v" "ceq c d" "list_all2 ceq s u" "like_match ceq None p v" by blast
    then show "\<exists>u v. t = u @ v \<and> list_all2 ceq (c # s) u \<and> like_match ceq None p v"
      by (intro exI[of _ "d # u"] exI[of _ v]) simp
  next
    assume "\<exists>u v. t = u @ v \<and> list_all2 ceq (c # s) u \<and> like_match ceq None p v"
    then show "\<exists>d t' u v. t = d # t' \<and> ceq c d \<and> t' = u @ v \<and> list_all2 ceq s u \<and> like_match ceq None p v"
      by (auto simp only: list_all2_Cons1 append_Cons) blast
  qed
  finally show ?case .
qed simp

lemma like_match_text:
  assumes "escape_works esc s"
  shows "like_match ceq esc (like_escape s @ p) t \<longleftrightarrow> (\<exists>u v. t = u @ v \<and> list_all2 ceq s u \<and> like_match ceq esc p v)"
  using assms like_match_escape[of ceq s p t] like_match_plain[of s ceq p t] by (auto simp: escape_works_def like_escape_plain)

lemma like_match_any: "escape_works esc s \<Longrightarrow> like_match ceq esc (CHR ''%'' # p) t \<longleftrightarrow> (\<exists>u v. t = u @ v \<and> like_match ceq esc p v)"
  by (rule like_match_percent) (auto simp: escape_works_def)

lemma like_contains_match:
  "escape_works esc s \<Longrightarrow> like_match ceq esc (like_contains s) t \<longleftrightarrow> (\<exists>u v w. t = u @ v @ w \<and> list_all2 ceq s v)"
  by (auto simp: like_contains_def like_match_any like_match_text)

lemma like_starts_match:
  "escape_works esc s \<Longrightarrow> like_match ceq esc (like_starts s) t \<longleftrightarrow> (\<exists>v w. t = v @ w \<and> list_all2 ceq s v)"
  by (auto simp: like_starts_def like_match_any like_match_text)

lemma like_ends_match:
  "escape_works esc s \<Longrightarrow> like_match ceq esc (like_ends s) t \<longleftrightarrow> (\<exists>u v. t = u @ v \<and> list_all2 ceq s v)"
  using like_match_text[of esc s ceq "[]"] by (auto simp: like_ends_def like_match_any)

lemma escape_like_eq: "escape_like s = like_escape s"
  by (induction s) auto

section \<open>Meaning of a filter\<close>

text \<open>What a literal denotes, independently of the code's conversions: a number its rational value, the other literals themselves.
  \<open>lit_order\<close> tells whether the value of a column lies below and whether it lies above a literal; it has no answer for NULL and for
  values of different types. Numbers are compared with a floating-point column after rounding to a double; texts and UUIDs in
  the order of the database.\<close>

fun num_value :: "bigdecimal \<Rightarrow> rat" where
  "num_value (d, s) = (if s \<ge> 0 then of_int d / 10 ^ nat s else of_int d * 10 ^ nat (- s))"

fun dec_value :: "int \<times> nat \<Rightarrow> rat" where
  "dec_value (m, e) = of_int m / 10 ^ e"

declare num_value.simps [simp del] dec_value.simps [simp del]

fun lit_order :: "sql_sem \<Rightarrow> number_ops \<Rightarrow> sea_value \<Rightarrow> odata_value \<Rightarrow> (bool \<times> bool) option" where
  "lit_order sem no (SBigInt (Some i)) (VNumber n) = Some (of_int i < num_value n, num_value n < of_int i)"
| "lit_order sem no (SDecimal (Some d)) (VNumber n) = Some (dec_value d < num_value n, num_value n < dec_value d)"
| "lit_order sem no (SDouble (Some f)) (VNumber n) =
     Some (sv_lt sem (SDouble (Some f)) (SDouble (bd_to_f64 no n)), sv_lt sem (SDouble (bd_to_f64 no n)) (SDouble (Some f)))"
| "lit_order sem no (SString (Some t)) (VString s) =
     Some (sv_lt sem (SString (Some t)) (SString (Some s)), sv_lt sem (SString (Some s)) (SString (Some t)))"
| "lit_order sem no (SUuid (Some a)) (VUuid b) =
     Some (sv_lt sem (SUuid (Some a)) (SUuid (Some b)), sv_lt sem (SUuid (Some b)) (SUuid (Some a)))"
| "lit_order sem no (SBool (Some a)) (VBool b) = Some (a < b, b < a)"
| "lit_order sem no (SDateTime (Some a)) (VDateTime b) = Some (a < b, b < a)"
| "lit_order sem no (SDate (Some a)) (VDate b) = Some (a < b, b < a)"
| "lit_order sem no (STime (Some a)) (VTime b) = Some (a < b, b < a)"
| "lit_order sem no c v = None"

definition op_holds :: "compare_operator \<Rightarrow> bool \<Rightarrow> bool \<Rightarrow> bool" where
  "op_holds op lt gt =
     (case op of OpEq \<Rightarrow> \<not> lt \<and> \<not> gt | OpNe \<Rightarrow> lt \<or> gt | OpGt \<Rightarrow> gt | OpGe \<Rightarrow> \<not> lt
      | OpLt \<Rightarrow> lt | OpLe \<Rightarrow> \<not> gt)"

definition compare_meaning ::
    "sql_sem \<Rightarrow> number_ops \<Rightarrow> ('row, 'c) field_map \<Rightarrow> ('c \<Rightarrow> sea_value) \<Rightarrow> string \<Rightarrow> compare_operator \<Rightarrow> odata_value \<Rightarrow> tri" where
  "compare_meaning sem no m r name op v =
     (case fm_get m name of None \<Rightarrow> None
      | Some f \<Rightarrow>
          if v = VNull then Some (is_null (r (fld_col f)) = (op = OpEq))
          else map_option (\<lambda>(lt, gt). op_holds op lt gt) (lit_order sem no (r (fld_col f)) v))"

text \<open>Texts are compared character by character under the collation \<open>ceq\<close>.\<close>

definition text_meaning ::
    "(char \<Rightarrow> char \<Rightarrow> bool) \<Rightarrow> ('row, 'c) field_map \<Rightarrow> ('c \<Rightarrow> sea_value) \<Rightarrow> string \<Rightarrow> string \<Rightarrow> string \<Rightarrow> tri" where
  "text_meaning ceq m r fname name s =
     (case fm_get m name of None \<Rightarrow> None
      | Some f \<Rightarrow> (case r (fld_col f) of
          SString (Some t) \<Rightarrow>
            if to_ascii_lowercase fname = ''contains'' then Some (\<exists>u v w. t = u @ v @ w \<and> list_all2 ceq s v)
            else if to_ascii_lowercase fname = ''startswith'' then Some (\<exists>v w. t = v @ w \<and> list_all2 ceq s v)
            else Some (\<exists>u v. t = u @ v \<and> list_all2 ceq s v)
        | _ \<Rightarrow> None))"

text \<open>\<open>x in (v1, ..., vn)\<close> is the disjunction of the equalities; over the empty list it is false.\<close>

fun filter_meaning ::
    "sql_sem \<Rightarrow> (char \<Rightarrow> char \<Rightarrow> bool) \<Rightarrow> number_ops \<Rightarrow> ('row, 'c) field_map \<Rightarrow> ('c \<Rightarrow> sea_value) \<Rightarrow> expr \<Rightarrow> tri" where
  "filter_meaning sem ceq no m r (EAnd a b) = tri_and (filter_meaning sem ceq no m r a) (filter_meaning sem ceq no m r b)"
| "filter_meaning sem ceq no m r (EOr a b) = tri_or (filter_meaning sem ceq no m r a) (filter_meaning sem ceq no m r b)"
| "filter_meaning sem ceq no m r (ENot a) = tri_not (filter_meaning sem ceq no m r a)"
| "filter_meaning sem ceq no m r (ECompare l op v) =
     (case (l, v) of (EIdentifier n, EValue x) \<Rightarrow> compare_meaning sem no m r n op x | _ \<Rightarrow> None)"
| "filter_meaning sem ceq no m r (EIn l vs) =
     (case l of EIdentifier n \<Rightarrow>
        foldr tri_or (map (\<lambda>v. case v of EValue x \<Rightarrow> compare_meaning sem no m r n OpEq x | _ \<Rightarrow> None) vs) (Some False)
      | _ \<Rightarrow> None)"
| "filter_meaning sem ceq no m r (EFunction fname args) =
     (case args of [EIdentifier n, EValue (VString s)] \<Rightarrow> text_meaning ceq m r fname n s | _ \<Rightarrow> None)"
| "filter_meaning sem ceq no m r (EIdentifier _) = None"
| "filter_meaning sem ceq no m r (EValue _) = None"

text \<open>What the statement relies on: the database orders the values of a column naturally and matches \<open>LIKE\<close> with the escape
  character \<open>esc\<close>; the number library is exact where its result can be; every column holds values of the kind of its field.\<close>

definition natural_order :: "sql_sem \<Rightarrow> bool" where
  "natural_order sem \<longleftrightarrow>
     (\<forall>a b. sv_lt sem (SBigInt (Some a)) (SBigInt (Some b)) = (a < b)) \<and>
     (\<forall>a b. sv_lt sem (SDecimal (Some a)) (SDecimal (Some b)) = (dec_value a < dec_value b)) \<and>
     (\<forall>a b. sv_lt sem (SBool (Some a)) (SBool (Some b)) = (a < b)) \<and>
     (\<forall>a b. sv_lt sem (SDateTime (Some a)) (SDateTime (Some b)) = (a < b)) \<and>
     (\<forall>a b. sv_lt sem (SDate (Some a)) (SDate (Some b)) = (a < b)) \<and>
     (\<forall>a b. sv_lt sem (STime (Some a)) (STime (Some b)) = (a < b)) \<and>
     sv_cust sem ''1=0'' = Some False"

definition like_sem :: "sql_sem \<Rightarrow> (char \<Rightarrow> char \<Rightarrow> bool) \<Rightarrow> char option \<Rightarrow> bool" where
  "like_sem sem ceq esc \<longleftrightarrow> (\<forall>p t. sv_like sem p t = like_match ceq esc p t)"

definition exact_numbers :: "number_ops \<Rightarrow> bool" where
  "exact_numbers no \<longleftrightarrow>
     (\<forall>n i k. bd_to_i64 no n = Some i \<and> num_value n = of_int k \<longrightarrow> i = k) \<and>
     (\<forall>n d. dec_from_str_exact no (bd_show no n) = Some d \<longrightarrow> dec_value d = num_value n)"

fun value_kind :: "sea_value \<Rightarrow> field_kind" where
  "value_kind (SBool _) = KBool"
| "value_kind (SBigInt _) = KI64"
| "value_kind (SDouble _) = KF64"
| "value_kind (SString _) = KString"
| "value_kind (SUuid _) = KUuid"
| "value_kind (SDateTime _) = KDateTimeUtc"
| "value_kind (SDate _) = KDate"
| "value_kind (STime _) = KTime"
| "value_kind (SDecimal _) = KDecimal"

definition typed_row :: "('row, 'c) field_map \<Rightarrow> ('c \<Rightarrow> sea_value) \<Rightarrow> bool" where
  "typed_row m r \<longleftrightarrow> (\<forall>n f. fm_get m n = Some f \<longrightarrow> value_kind (r (fld_col f)) = fld_kind f)"

text \<open>The filters it is about: a number compared with an integer field is an integer, one compared with a decimal field
  fits the decimal type, and without an escape character the texts have no special characters.\<close>

fun exact_literal :: "number_ops \<Rightarrow> field_kind \<Rightarrow> odata_value \<Rightarrow> bool" where
  "exact_literal no KI64 (VNumber n) \<longleftrightarrow> (\<exists>k. num_value n = of_int k)"
| "exact_literal no KDecimal (VNumber n) \<longleftrightarrow> dec_from_str_exact no (bd_show no n) \<noteq> None"
| "exact_literal no kind v \<longleftrightarrow> True"

definition exact_for :: "number_ops \<Rightarrow> ('row, 'c) field_map \<Rightarrow> expr \<Rightarrow> expr \<Rightarrow> bool" where
  "exact_for no m l v \<longleftrightarrow> (\<forall>n x f. l = EIdentifier n \<and> v = EValue x \<and> fm_get m n = Some f \<longrightarrow> exact_literal no (fld_kind f) x)"

fun exact_filter :: "char option \<Rightarrow> number_ops \<Rightarrow> ('row, 'c) field_map \<Rightarrow> expr \<Rightarrow> bool" where
  "exact_filter esc no m (EAnd a b) \<longleftrightarrow> exact_filter esc no m a \<and> exact_filter esc no m b"
| "exact_filter esc no m (EOr a b) \<longleftrightarrow> exact_filter esc no m a \<and> exact_filter esc no m b"
| "exact_filter esc no m (ENot a) \<longleftrightarrow> exact_filter esc no m a"
| "exact_filter esc no m (ECompare l op v) \<longleftrightarrow> exact_for no m l v"
| "exact_filter esc no m (EIn l vs) \<longleftrightarrow> (\<forall>v \<in> set vs. exact_for no m l v)"
| "exact_filter esc no m (EFunction fname args) \<longleftrightarrow> (\<forall>s. EValue (VString s) \<in> set args \<longrightarrow> escape_works esc s)"
| "exact_filter esc no m (EIdentifier _) \<longleftrightarrow> True"
| "exact_filter esc no m (EValue _) \<longleftrightarrow> True"

lemma coerce_not_null: "coerce no k v = Ok w \<Longrightarrow> \<not> is_null w \<and> v \<noteq> VNull"
  by (cases v; cases k) (auto simp: coerce_def res_simps)

lemma natural_orderD:
  assumes "natural_order sem"
  shows "sv_lt sem (SBigInt (Some i)) (SBigInt (Some j)) = (i < j)"
    "sv_lt sem (SDecimal (Some c)) (SDecimal (Some d)) = (dec_value c < dec_value d)"
    "sv_lt sem (SBool (Some p)) (SBool (Some q)) = (p < q)"
    "sv_lt sem (SDateTime (Some i)) (SDateTime (Some j)) = (i < j)"
    "sv_lt sem (SDate (Some i)) (SDate (Some j)) = (i < j)"
    "sv_lt sem (STime (Some k)) (STime (Some l)) = (k < l)"
    "sv_cust sem ''1=0'' = Some False"
  using assms by (simp_all only: natural_order_def simp_thms)

text \<open>A converted literal is ordered against a column as the literal itself.\<close>

lemma coerce_order:
  assumes "coerce no (value_kind c) v = Ok w" "exact_literal no (value_kind c) v" "natural_order sem" "exact_numbers no"
  shows "lit_order sem no c v = (if is_null c then None else Some (sv_lt sem c w, sv_lt sem w c))"
proof (cases c)
  case (SBigInt x)
  with assms(1) obtain n i where n: "v = VNumber n" "bd_to_i64 no n = Some i" "w = SBigInt (Some i)"
    by (cases v) (auto simp: coerce_def res_simps)
  with assms(2) SBigInt obtain k where "num_value n = of_int k" by auto
  with n(2) assms(4) have "num_value n = of_int i" unfolding exact_numbers_def by metis
  with n SBigInt show ?thesis by (cases x) (simp_all add: natural_orderD[OF assms(3)])
next
  case (SDecimal x)
  with assms(1) obtain n d where n: "v = VNumber n" "bigdecimal_to_decimal no n = Ok d" "w = SDecimal (Some d)"
    by (cases v) (auto simp: coerce_def res_simps)
  with assms(2) SDecimal have "dec_from_str_exact no (bd_show no n) = Some d"
    by (auto simp: bigdecimal_to_decimal_def Let_def split: option.splits)
  with assms(4) have "dec_value d = num_value n" unfolding exact_numbers_def by metis
  with n SDecimal show ?thesis by (cases x) (simp_all add: natural_orderD[OF assms(3)])
next
  case (SBool x)
  with assms(1) obtain b where "v = VBool b" "w = SBool (Some b)" by (cases v) (auto simp: coerce_def)
  with SBool show ?thesis by (cases x) (simp_all add: natural_orderD[OF assms(3)])
next
  case (SDateTime x)
  with assms(1) obtain b where "v = VDateTime b" "w = SDateTime (Some b)" by (cases v) (auto simp: coerce_def)
  with SDateTime show ?thesis by (cases x) (simp_all add: natural_orderD[OF assms(3)])
next
  case (SDate x)
  with assms(1) obtain b where "v = VDate b" "w = SDate (Some b)" by (cases v) (auto simp: coerce_def)
  with SDate show ?thesis by (cases x) (simp_all add: natural_orderD[OF assms(3)])
next
  case (STime x)
  with assms(1) obtain b where "v = VTime b" "w = STime (Some b)" by (cases v) (auto simp: coerce_def)
  with STime show ?thesis by (cases x) (simp_all add: natural_orderD[OF assms(3)])
next
  case (SString x)
  with assms(1) obtain b where "v = VString b" "w = SString (Some b)" by (cases v) (auto simp: coerce_def)
  with SString show ?thesis by (cases x) simp_all
next
  case (SUuid x)
  with assms(1) obtain b where "v = VUuid b" "w = SUuid (Some b)" by (cases v) (auto simp: coerce_def)
  with SUuid show ?thesis by (cases x) simp_all
next
  case (SDouble x)
  with assms(1) obtain n f where "v = VNumber n" "bd_to_f64 no n = Some f" "w = SDouble (Some f)"
    by (cases v) (auto simp: coerce_def res_simps)
  with SDouble show ?thesis by (cases x) simp_all
qed

lemma eval_col_expr:
  "\<not> is_null w \<Longrightarrow> eval_simple sem r (col_expr op c w) =
     (if is_null (r c) then None else Some (op_holds op (sv_lt sem (r c) w) (sv_lt sem w (r c))))"
  by (cases op) (auto simp: op_holds_def sql_cmp_def sv_eq_def)

lemma eval_single [simp]: "eval_condition sem r (cond_add (Simple e) cond_all) = eval_simple sem r e"
  by (simp add: cond_all_def)

text \<open>The setting of the statement, once for its lemmas.\<close>

definition faithful_setting ::
    "sql_sem \<Rightarrow> (char \<Rightarrow> char \<Rightarrow> bool) \<Rightarrow> char option \<Rightarrow> number_ops \<Rightarrow> ('row, 'c) field_map \<Rightarrow> ('c \<Rightarrow> sea_value) \<Rightarrow> bool" where
  "faithful_setting sem ceq esc no m r \<longleftrightarrow> natural_order sem \<and> like_sem sem ceq esc \<and> exact_numbers no \<and> typed_row m r"

lemma literal_meaning:
  assumes "faithful_setting sem ceq esc no m r" "fm_get m n = Some f" "coerce no (fld_kind f) x = Ok w" "exact_literal no (fld_kind f) x"
  shows "compare_meaning sem no m r n op x = eval_simple sem r (col_expr op (fld_col f) w)"
proof -
  have k: "value_kind (r (fld_col f)) = fld_kind f" using assms(1,2) by (simp add: faithful_setting_def typed_row_def)
  have "lit_order sem no (r (fld_col f)) x =
      (if is_null (r (fld_col f)) then None else Some (sv_lt sem (r (fld_col f)) w, sv_lt sem w (r (fld_col f))))"
    by (rule coerce_order) (use assms k in \<open>simp_all add: faithful_setting_def\<close>)
  with coerce_not_null[OF assms(3)] assms(2) show ?thesis by (simp add: compare_meaning_def eval_col_expr)
qed

lemma compare_to_condition_meaning:
  assumes "faithful_setting sem ceq esc no m r" "compare_to_condition no m l op v = Ok c" "exact_for no m l v"
  shows "eval_condition sem r c = filter_meaning sem ceq no m r (ECompare l op v)"
proof -
  obtain n x where lv: "l = EIdentifier n" "v = EValue x"
    using assms(2) by (auto simp: compare_to_condition_def res_simps split: expr.splits)
  with assms(2) obtain f where f: "fm_get m n = Some f"
    by (auto simp: compare_to_condition_def fm_field_def res_simps)
  show ?thesis
  proof (cases "x = VNull")
    case True
    with assms(2) lv f show ?thesis
      by (cases op) (auto simp: compare_to_condition_def fm_field_def compare_meaning_def res_simps)
  next
    case False
    with assms(2) lv f obtain w where w: "coerce no (fld_kind f) x = Ok w" "c = cond_add (Simple (col_expr op (fld_col f) w)) cond_all"
      by (auto simp: compare_to_condition_def fm_field_def res_simps)
    have "exact_literal no (fld_kind f) x" using assms(3) lv f by (simp add: exact_for_def)
    from literal_meaning[OF assms(1) f w(1) this] lv w(2) show ?thesis by simp
  qed
qed

lemma eval_is_in: "eval_simple sem r (ColIsIn c vs) = foldr tri_or (map (sql_cmp (sv_eq sem) (r c)) vs) (Some False)"
  by (induction vs) (simp_all add: sql_in_def)

lemma coerce_many_eq:
  assumes "coerce_many no k xs = Ok vs"
  shows "list_all2 (\<lambda>x w. \<exists>v. x = EValue v \<and> coerce no k v = Ok w) xs vs"
  using assms unfolding coerce_many_def collect_Ok_iff
  by (rule list_all2_mono) (auto split: expr.splits)

lemma in_to_condition_meaning:
  assumes "faithful_setting sem ceq esc no m r" "in_to_condition no m l xs = Ok c" "\<forall>v \<in> set xs. exact_for no m l v"
  shows "eval_condition sem r c = filter_meaning sem ceq no m r (EIn l xs)"
proof -
  obtain n f vs where l: "l = EIdentifier n" "fm_get m n = Some f" "coerce_many no (fld_kind f) xs = Ok vs"
    using assms(2) by (auto simp: in_to_condition_def fm_field_def res_simps split: expr.splits)
  have "foldr tri_or (map (\<lambda>v. case v of EValue x \<Rightarrow> compare_meaning sem no m r n OpEq x | _ \<Rightarrow> None) xs) (Some False) =
      foldr tri_or (map (sql_cmp (sv_eq sem) (r (fld_col f))) vs) (Some False)"
    using coerce_many_eq[OF l(3)] assms(3)
  proof (induction rule: list_all2_induct)
    case (Cons x xs w ws)
    then obtain v where v: "x = EValue v" "coerce no (fld_kind f) v = Ok w" by blast
    with Cons.prems l have "exact_literal no (fld_kind f) v" by (simp add: exact_for_def)
    from literal_meaning[OF assms(1) l(2) v(2) this, of OpEq] v(1) Cons.IH Cons.prems show ?case by simp
  qed simp
  moreover have "sv_cust sem ''1=0'' = Some False" using assms(1) by (simp add: faithful_setting_def natural_order_def)
  ultimately show ?thesis using assms(2) l eval_is_in[of sem r "fld_col f" vs]
    by (cases "vs = []") (auto simp: in_to_condition_def fm_field_def)
qed

lemma function_to_condition_meaning:
  fixes c :: "'c condition"
  assumes "faithful_setting sem ceq esc no m r" "function_to_condition m fname args = Ok c"
    and "\<forall>s. EValue (VString s) \<in> set args \<longrightarrow> escape_works esc s"
  shows "eval_condition sem r c = filter_meaning sem ceq no m r (EFunction fname args)"
proof -
  obtain n s where a: "args = [EIdentifier n, EValue (VString s)]"
    using assms(2) by (auto simp: function_to_condition_def Let_def split: list.splits expr.splits odata_value.splits)
  obtain f pat where f: "fm_get m n = Some f" and c: "c = cond_add (Simple (ColLike (fld_col f) pat)) cond_all"
    and p: "(to_ascii_lowercase fname = ''contains'' \<and> pat = like_contains s) \<or>
      (to_ascii_lowercase fname = ''startswith'' \<and> pat = like_starts s) \<or>
      (to_ascii_lowercase fname = ''endswith'' \<and> pat = like_ends s)"
    using assms(2) a
    by (auto simp: function_to_condition_def Let_def like_to_condition_def fm_field_def res_simps split: if_splits)
  have e: "escape_works esc s" using assms(3) a by simp
  have "sv_like sem pat t = (if to_ascii_lowercase fname = ''contains'' then \<exists>u v w. t = u @ v @ w \<and> list_all2 ceq s v
      else if to_ascii_lowercase fname = ''startswith'' then \<exists>v w. t = v @ w \<and> list_all2 ceq s v
      else \<exists>u v. t = u @ v \<and> list_all2 ceq s v)" for t
    using p assms(1) like_contains_match[OF e, of ceq t] like_starts_match[OF e, of ceq t] like_ends_match[OF e, of ceq t]
    by (auto simp: faithful_setting_def like_sem_def)
  then show ?thesis using a f c by (simp add: text_meaning_def split: sea_value.splits option.splits)
qed

lemma eval_and: "eval_condition sem r (cond_add (Nested b) (cond_add (Nested a) cond_all)) =
    tri_and (eval_condition sem r a) (eval_condition sem r b)"
  by (simp add: cond_all_def)

lemma eval_or: "eval_condition sem r (cond_add (Nested b) (cond_add (Nested a) cond_any)) =
    tri_or (eval_condition sem r a) (eval_condition sem r b)"
  by (simp add: cond_any_def)

lemma eval_not: "eval_condition sem r (cond_not (cond_add (Nested a) cond_all)) = tri_not (eval_condition sem r a)"
  by (simp add: cond_all_def)

lemma expr_to_condition_sound:
  assumes "faithful_setting sem ceq esc no m r"
  shows "expr_to_condition no m e = Ok c \<Longrightarrow> exact_filter esc no m e \<Longrightarrow>
    eval_condition sem r c = filter_meaning sem ceq no m r e"
proof (induction e arbitrary: c)
  case (EFunction f args)
  then show ?case using function_to_condition_meaning[OF assms] by (metis expr_to_condition.simps(6) exact_filter.simps(6))
next
  case (EIn l xs)
  then show ?case using in_to_condition_meaning[OF assms] by (metis expr_to_condition.simps(5) exact_filter.simps(5))
next
  case (ECompare l op v)
  then show ?case using compare_to_condition_meaning[OF assms] by (metis expr_to_condition.simps(4) exact_filter.simps(4))
qed (auto simp: res_simps eval_and eval_or eval_not)

section \<open>The two compilers\<close>

fun expr_numbers :: "expr \<Rightarrow> bigdecimal list" where
  "expr_numbers (EAnd a b) = expr_numbers a @ expr_numbers b"
| "expr_numbers (EOr a b) = expr_numbers a @ expr_numbers b"
| "expr_numbers (ENot a) = expr_numbers a"
| "expr_numbers (ECompare l op r) = expr_numbers l @ expr_numbers r"
| "expr_numbers (EIn l xs) = expr_numbers l @ concat (map expr_numbers xs)"
| "expr_numbers (EFunction f xs) = concat (map expr_numbers xs)"
| "expr_numbers (EIdentifier s) = []"
| "expr_numbers (EValue v) = (case v of VNumber n \<Rightarrow> [n] | _ \<Rightarrow> [])"

definition maps_fields :: "'f filter_field \<Rightarrow> ('f \<Rightarrow> 'c) \<Rightarrow> ('row, 'c) field_map \<Rightarrow> bool" where
  "maps_fields ff mf m \<longleftrightarrow> (\<forall>n f. from_name ff n = Some f \<longrightarrow>
     (\<exists>fld. fm_get m n = Some fld \<and> fld_col fld = mf f \<and> fld_kind fld = ff_kind ff f))"

definition same_fields :: "'f filter_field \<Rightarrow> ('f \<Rightarrow> 'c) \<Rightarrow> ('row, 'c) field_map \<Rightarrow> bool" where
  "same_fields ff mf m \<longleftrightarrow> maps_fields ff mf m \<and> (\<forall>n. fm_get m n \<noteq> None \<longrightarrow> from_name ff n \<noteq> None)"

text \<open>What the typed conversion has no form for: \<open>in\<close>, and comparisons with null.\<close>

fun typed_form :: "expr \<Rightarrow> bool" where
  "typed_form (EAnd a b) \<longleftrightarrow> typed_form a \<and> typed_form b"
| "typed_form (EOr a b) \<longleftrightarrow> typed_form a \<and> typed_form b"
| "typed_form (ENot a) \<longleftrightarrow> typed_form a"
| "typed_form (ECompare l op v) \<longleftrightarrow> v \<noteq> EValue VNull"
| "typed_form (EIn l vs) \<longleftrightarrow> False"
| "typed_form _ \<longleftrightarrow> True"

lemma coerce_agrees:
  assumes "kind_matches k v" "k \<notin> {KF64, KDecimal}" "\<forall>n. v = VNumber n \<longrightarrow> bd_to_i64 no n \<noteq> None"
    "odata_value_to_sea_value no v = Ok w"
  shows "coerce no k v = Ok w"
  using assms by (cases v) (auto simp: coerce_def)

lemma binary_compare:
  assumes "build_binary_condition no dbg col (to_filter_op op) v = Ok c"
  obtains w where "odata_value_to_sea_value no v = Ok w" "v \<noteq> VNull"
    "c = cond_add (Simple (col_expr op col w)) cond_all"
proof -
  obtain w where w: "odata_value_to_sea_value no v = Ok w" using assms by (auto simp: build_binary_condition_def res_simps)
  then have "v \<noteq> VNull" by auto
  with w assms that show ?thesis by (cases op) (auto simp: build_binary_condition_def)
qed

lemma compare_typed_agrees:
  assumes "maps_fields ff mf m" "\<forall>f \<in> set (ff_fields ff). ff_kind ff f \<notin> {KF64, KDecimal}"
    and "convert_compare ff l op r = Ok n" "filter_node_to_condition no dbg mf n = Ok c"
    and "\<forall>x \<in> set (expr_numbers l @ expr_numbers r). bd_to_i64 no x \<noteq> None"
  shows "compare_to_condition no m l op r = Ok c"
proof -
  obtain name v f where lr: "l = EIdentifier name" "r = EValue v" "from_name ff name = Some f"
    "kind_matches (ff_kind ff f) v" "n = Binary f (to_filter_op op) v"
    using assms(3) by (auto simp: convert_compare_def res_simps validate_value_type_def node_binary_def
        split: expr.splits if_splits)
  obtain fld where fld: "fm_get m name = Some fld" "fld_col fld = mf f" "fld_kind fld = ff_kind ff f"
    using assms(1) lr(3) by (auto simp: maps_fields_def)
  from assms(4) lr(5) obtain w where w: "odata_value_to_sea_value no v = Ok w" "v \<noteq> VNull"
    "c = cond_add (Simple (col_expr op (mf f) w)) cond_all" by (auto elim: binary_compare)
  have "coerce no (fld_kind fld) v = Ok w"
    unfolding fld(3) using assms(2,5) lr w(1) from_name_SomeD[OF lr(3)] by (intro coerce_agrees) auto
  with lr fld w show ?thesis by (simp add: compare_to_condition_def fm_field_def)
qed

lemma function_typed_agrees:
  assumes "maps_fields ff mf m"
    and "convert_function ff fname args = Ok n" "filter_node_to_condition no dbg mf n = Ok c"
  shows "function_to_condition m fname args = Ok c"
proof -
  obtain name s where a: "args = [EIdentifier name, EValue (VString s)]"
    using assms(2) by (auto simp: convert_function_def Let_def split: list.splits expr.splits odata_value.splits)
  have sf: "like_to_condition m name pat = Ok c"
    if h: "string_function ff name op s = Ok n" "op \<in> {FContains, FStartsWith, FEndsWith}"
      "pat = (if op = FContains then like_contains s else if op = FStartsWith then like_starts s else like_ends s)" for op pat
  proof -
    obtain f where f: "from_name ff name = Some f" "ff_kind ff f = KString" "n = Binary f op (VString s)"
      using h(1) by (auto simp: string_function_def res_simps node_binary_def split: if_splits)
    then obtain fld where "fm_get m name = Some fld" "fld_col fld = mf f" "fld_kind fld = KString"
      using assms(1) unfolding maps_fields_def by metis
    moreover have "c = cond_add (Simple (ColLike (mf f) pat)) cond_all"
      using assms(3) f(3) h(2,3)
      by (auto simp: build_binary_condition_def escape_like_eq like_contains_def like_starts_def like_ends_def)
    ultimately show ?thesis by (simp add: like_to_condition_def fm_field_def ensure_string_field_def)
  qed
  show ?thesis using assms(2) a sf[of FContains] sf[of FStartsWith] sf[of FEndsWith]
    by (auto simp: convert_function_def function_to_condition_def Let_def split: if_splits)
qed

lemma typed_agrees:
  assumes "maps_fields ff mf m" "\<forall>f \<in> set (ff_fields ff). ff_kind ff f \<notin> {KF64, KDecimal}"
  shows "convert_expr_to_filter_node ff e = Ok n \<Longrightarrow> filter_node_to_condition no dbg mf n = Ok c \<Longrightarrow>
    \<forall>x \<in> set (expr_numbers e). bd_to_i64 no x \<noteq> None \<Longrightarrow> expr_to_condition no m e = Ok c"
proof (induction e arbitrary: n c)
  case (ECompare l op r)
  then show ?case using compare_typed_agrees[OF assms, of l op r n no dbg c] by simp
next
  case (EFunction f xs)
  then show ?case using function_typed_agrees[OF assms(1), of f xs n no dbg c] by simp
qed (auto simp: res_simps node_and_def node_or_def node_not_def split: result.splits)

lemma same_fieldsD:
  assumes "same_fields ff mf m" "fm_get m n = Some fld"
  obtains f where "from_name ff n = Some f" "fld_col fld = mf f" "fld_kind fld = ff_kind ff f"
  using assms unfolding same_fields_def maps_fields_def by (metis option.exhaust option.inject option.distinct(1))

lemma convert_typed_form: "convert_expr_to_filter_node ff e = Ok n \<Longrightarrow> typed_form e"
proof (induction e arbitrary: n)
  case (ECompare l op v)
  then show ?case
    by (auto simp: convert_compare_def res_simps validate_value_type_def split: expr.splits if_splits)
qed (auto simp: res_simps)

lemma coerce_typed:
  assumes "coerce no k v = Ok w" "k \<notin> {KF64, KDecimal}"
  shows "kind_matches k v \<and> odata_value_to_sea_value no v = Ok w"
  using assms by (cases v; cases k) (auto simp: coerce_def res_simps)

lemma compare_typed_back:
  assumes "same_fields ff mf m" "\<forall>f \<in> set (ff_fields ff). ff_kind ff f \<notin> {KF64, KDecimal}"
    and "compare_to_condition no m l op r = Ok c" "r \<noteq> EValue VNull"
  shows "\<exists>n. convert_compare ff l op r = Ok n \<and> filter_node_to_condition no dbg mf n = Ok c"
proof -
  obtain name v where lr: "l = EIdentifier name" "r = EValue v" "v \<noteq> VNull"
    using assms(3,4) by (auto simp: compare_to_condition_def res_simps split: expr.splits)
  with assms(3) obtain fld w where w: "fm_get m name = Some fld" "coerce no (fld_kind fld) v = Ok w"
    "c = cond_add (Simple (col_expr op (fld_col fld) w)) cond_all"
    by (auto simp: compare_to_condition_def fm_field_def res_simps)
  from same_fieldsD[OF assms(1) w(1)] obtain f where f: "from_name ff name = Some f"
    and fld: "fld_col fld = mf f" "fld_kind fld = ff_kind ff f" .
  from from_name_SomeD[OF f] assms(2) fld have "fld_kind fld \<notin> {KF64, KDecimal}" by auto
  from coerce_typed[OF w(2) this] lr f fld w(3) show ?thesis
    by (cases op) (auto simp: convert_compare_def validate_value_type_def node_binary_def build_binary_condition_def)
qed

lemma function_typed_back:
  assumes "same_fields ff mf m" "function_to_condition m fname args = Ok c"
  shows "\<exists>n. convert_function ff fname args = Ok n \<and> filter_node_to_condition no dbg mf n = Ok c"
proof -
  obtain name s where a: "args = [EIdentifier name, EValue (VString s)]"
    using assms(2) by (auto simp: function_to_condition_def Let_def split: list.splits expr.splits odata_value.splits)
  with assms(2) obtain fld where fld: "fm_get m name = Some fld" "fld_kind fld = KString"
    by (auto simp: function_to_condition_def Let_def like_to_condition_def fm_field_def ensure_string_field_def res_simps split: if_splits)
  from same_fieldsD[OF assms(1) fld(1)] fld(2) obtain f where f: "from_name ff name = Some f" "fld_col fld = mf f" "ff_kind ff f = KString"
    by metis
  with a fld f assms(2) show ?thesis
    by (auto simp: function_to_condition_def convert_function_def string_function_def Let_def like_to_condition_def fm_field_def
        ensure_string_field_def node_binary_def build_binary_condition_def escape_like_eq like_contains_def like_starts_def like_ends_def
        split: if_splits)
qed

lemma typed_back:
  assumes "same_fields ff mf m" "\<forall>f \<in> set (ff_fields ff). ff_kind ff f \<notin> {KF64, KDecimal}"
  shows "expr_to_condition no m e = Ok c \<Longrightarrow> typed_form e \<Longrightarrow>
    \<exists>n. convert_expr_to_filter_node ff e = Ok n \<and> filter_node_to_condition no dbg mf n = Ok c"
proof (induction e arbitrary: c)
  case (ECompare l op r)
  then show ?case using compare_typed_back[OF assms, of no l op r c dbg] by simp
next
  case (EFunction f xs)
  then show ?case using function_typed_back[OF assms(1), of f xs c no dbg] by simp
next
  case (EAnd a b)
  then obtain ca cb where ab: "expr_to_condition no m a = Ok ca" "expr_to_condition no m b = Ok cb"
    "c = cond_add (Nested cb) (cond_add (Nested ca) cond_all)" by (auto simp: res_simps)
  with EAnd.IH(1)[OF ab(1)] EAnd.IH(2)[OF ab(2)] EAnd.prems(2) show ?case by (auto simp: node_and_def)
next
  case (EOr a b)
  then obtain ca cb where ab: "expr_to_condition no m a = Ok ca" "expr_to_condition no m b = Ok cb"
    "c = cond_add (Nested cb) (cond_add (Nested ca) cond_any)" by (auto simp: res_simps)
  with EOr.IH(1)[OF ab(1)] EOr.IH(2)[OF ab(2)] EOr.prems(2) show ?case by (auto simp: node_or_def)
next
  case (ENot a)
  then obtain ca where a: "expr_to_condition no m a = Ok ca" "c = cond_not (cond_add (Nested ca) cond_all)" by (auto simp: res_simps)
  with ENot.IH[OF a(1)] ENot.prems(2) show ?case by (auto simp: node_not_def)
qed simp_all

lemma build_binary_total:
  assumes "wf_node ff (Binary f op v)" "\<forall>k. bd_to_i64 no k \<noteq> None \<or> bd_to_f64 no k \<noteq> None"
  shows "is_ok (build_binary_condition no dbg col op v)"
proof -
  have "v \<noteq> VNull" using assms(1) by (auto split: if_splits)
  then have "\<exists>w. odata_value_to_sea_value no v = Ok w"
  proof (cases v)
    case (VNumber n)
    then show ?thesis using assms(2)[rule_format, of n] by (auto split: option.splits)
  qed auto
  with assms(1) \<open>v \<noteq> VNull\<close> show ?thesis by (cases op) (auto simp: build_binary_condition_def)
qed

lemma collect_is_ok: "(\<And>x. x \<in> set xs \<Longrightarrow> is_ok (f x)) \<Longrightarrow> is_ok (collect f xs)"
proof (induction xs)
  case (Cons x xs)
  then have "is_ok (f x)" "is_ok (collect f xs)" by auto
  then show ?case by (auto simp: is_ok_iff)
qed simp

lemma filter_node_total:
  assumes "\<forall>k. bd_to_i64 no k \<noteq> None \<or> bd_to_f64 no k \<noteq> None"
  shows "wf_node ff n \<Longrightarrow> is_ok (filter_node_to_condition no dbg mf n)"
proof (induction n)
  case (Binary f op v)
  then show ?case using build_binary_total[OF _ assms] by (simp del: wf_node.simps)
next
  case (Composite op ns)
  then have "is_ok (collect (filter_node_to_condition no dbg mf) ns)" by (intro collect_is_ok) auto
  with Composite.prems show ?case by (auto simp: is_ok_iff)
next
  case (NotNode n)
  then show ?case by (auto simp: is_ok_iff)
qed

text \<open>Codecs whose readers invert their writers.\<close>

definition codec_ok :: "value_codec \<Rightarrow> bool" where
  "codec_ok vc \<longleftrightarrow> (\<forall>x. vc_f64_parse vc (vc_f64_show vc x) = Some x) \<and>
     (\<forall>x. vc_uuid_parse vc (vc_uuid_show vc x) = Some x) \<and>
     (\<forall>x. vc_datetime_parse vc (vc_datetime_show vc x) = Some x) \<and>
     (\<forall>x. vc_date_parse vc (vc_date_show vc x) = Some x) \<and>
     (\<forall>x. vc_time_parse vc (vc_time_show vc x) = Some x) \<and>
     (\<forall>x. vc_dec_parse vc (vc_dec_show vc x) = Some x)"

fun value_in_range :: "sea_value \<Rightarrow> bool" where
  "value_in_range (SBigInt (Some i)) = in_i64 i"
| "value_in_range _ = True"

lemma cursor_value_roundtrip:
  assumes "codec_ok vc" "value_in_range v" "encode_cursor_value vc v k = Ok s"
  shows "parse_cursor_value vc k s = Ok v" "\<not> is_null v"
proof -
  have "parse_cursor_value vc k s = Ok v \<and> \<not> is_null v"
  proof (cases v)
    case (SBigInt x)
    with assms show ?thesis
      by (cases k; cases x) (auto simp: encode_cursor_value_def parse_cursor_value_def parse_show_int)
  qed (use assms in \<open>cases k; auto simp: encode_cursor_value_def parse_cursor_value_def codec_ok_def split: option.splits\<close>)+
  then show "parse_cursor_value vc k s = Ok v" "\<not> is_null v" by auto
qed

lemma fm_parse_cursor_value_eq:
  "fm_parse_cursor_value vc k s = map_err BOther (parse_cursor_value vc k s)"
proof -
  have h: "and_then (ok_or (BOther e) x) (\<lambda>i. Ok (g i)) = map_err BOther (and_then (ok_or e x) (\<lambda>i. Ok (g i)))"
    for x :: "'b option" and g :: "'b \<Rightarrow> sea_value" and e
    by (cases x) auto
  show ?thesis by (cases k) (simp_all add: fm_parse_cursor_value_def parse_cursor_value_def h)
qed

section \<open>Properties\<close>

text \<open>C7. The condition compiled from a filter means what the filter says, in SQL's three-valued logic:
  conjunction, disjunction and negation of the parts; a comparison of a column with a literal by the value of the literal,
  unknown for NULL; \<open>eq null\<close> and \<open>ne null\<close> as tests for NULL; an \<open>in\<close> list as the disjunction of its equalities; and
  \<open>contains\<close>, \<open>startswith\<close> and \<open>endswith\<close> as substring, prefix and suffix of the literal text under the collation. It holds for
  filters whose numbers are integers where the field is one and fit the decimal type where the field is decimal; on a database
  whose \<open>LIKE\<close> escapes with a backslash for every text, on one without an escape character (SQLite) for texts without
  percent signs, underscores and backslashes.\<close>

theorem filter_compiles_to_its_meaning:
  assumes "expr_to_condition no m e = Ok c" "exact_filter esc no m e"
    and "natural_order sem" "like_sem sem ceq esc" "exact_numbers no" "typed_row m r"
  shows "eval_condition sem r c = filter_meaning sem ceq no m r e"
proof -
  have "faithful_setting sem ceq esc no m r" using assms(3-6) by (simp add: faithful_setting_def)
  from expr_to_condition_sound[OF this assms(1,2)] show ?thesis .
qed

text \<open>C16. The typed compiler and the field-map compiler agree, for fields that both know and none of which is a float or a
  decimal, and numbers that fit an integer: the typed pipeline compiles a filter to a condition exactly when the field-map
  compiler gives that condition and the filter has no \<open>in\<close> and no comparison with null.\<close>

theorem typed_filter_equals_field_map_filter:
  assumes "same_fields ff mf m" and "\<forall>f \<in> set (ff_fields ff). ff_kind ff f \<notin> {KF64, KDecimal}"
    and "\<forall>x \<in> set (expr_numbers e). bd_to_i64 no x \<noteq> None"
  shows "(\<exists>n. convert_expr_to_filter_node ff e = Ok n \<and> filter_node_to_condition no dbg mf n = Ok c) \<longleftrightarrow>
    expr_to_condition no m e = Ok c \<and> typed_form e"
proof -
  have "maps_fields ff mf m" using assms(1) by (simp add: same_fields_def)
  from typed_agrees[OF this assms(2) _ _ assms(3)] typed_back[OF assms(1,2), of no e c dbg] convert_typed_form[of ff e]
  show ?thesis by blast
qed

text \<open>C31. A filter that the typed conversion accepts never fails in the SQL translation, when every
  number converts to an integer or a float.\<close>

theorem converted_filter_compiles:
  assumes "convert_expr_to_filter_node ff e = Ok n" and "\<forall>k. bd_to_i64 no k \<noteq> None \<or> bd_to_f64 no k \<noteq> None"
  shows "wf_node ff n \<and> is_ok (filter_node_to_condition no dbg mf n)"
  using convert_wf[OF assms(1)] filter_node_total[OF assms(2)] by blast

text \<open>The typed pipeline has no null comparisons: the conversion rejects every comparison of a known
  field with \<open>null\<close>, and the NULL branch of \<open>build_binary_condition\<close> is never reached, whereas the
  field-map compiler turns \<open>eq null\<close> into \<open>IS NULL\<close>.\<close>

theorem typed_filter_rejects_null:
  "(\<not> is_ok (convert_expr_to_filter_node ff (ECompare (EIdentifier x) op (EValue VNull)))) \<and>
   build_binary_condition no dbg col fop VNull = Err ''NULL values should be handled separately'' \<and>
   (fm_get m x = Some f \<longrightarrow>
      expr_to_condition no m (ECompare (EIdentifier x) OpEq (EValue VNull)) =
        Ok (cond_add (Simple (ColIsNull (fld_col f))) cond_all))"
  by (cases "from_name ff x")
    (auto simp: convert_compare_def validate_value_type_def build_binary_condition_def
      compare_to_condition_def fm_field_def)

text \<open>The typed translation of a number forgets its fraction: two numbers with the same integer
  conversion give the same condition, whatever the kind of the field.\<close>

theorem typed_number_collapses:
  assumes "bd_to_i64 no a = Some i" and "bd_to_i64 no b = Some i"
  shows "build_binary_condition no dbg col op (VNumber a) = build_binary_condition no dbg col op (VNumber b) \<or>
    op \<in> {FContains, FStartsWith, FEndsWith}"
  using assms by (cases op) (auto simp: build_binary_condition_def)

text \<open>The field-map compiler drops the fraction too where the field is an integer: with the library's conversion, which
  truncates, a filter \<open>id eq 1.5\<close>, which no integer satisfies, selects the row whose id is 1.\<close>

theorem fraction_selects_another_row:
  assumes "bd_to_i64 no (15, 1) = Some 1" "natural_order sem" "fm_get m name = Some f" "fld_kind f = KI64" "r (fld_col f) = SBigInt (Some 1)"
  shows "\<exists>c. expr_to_condition no m (ECompare (EIdentifier name) OpEq (EValue (VNumber (15, 1)))) = Ok c \<and>
    eval_condition sem r c = Some True \<and>
    filter_meaning sem ceq no m r (ECompare (EIdentifier name) OpEq (EValue (VNumber (15, 1)))) = Some False"
  using assms
  by (simp add: compare_to_condition_def fm_field_def coerce_def eval_col_expr op_holds_def sv_eq_def natural_orderD[OF assms(2)] compare_meaning_def
    num_value.simps)

text \<open>Under a database without a default \<open>LIKE\<close> escape character (SQLite) the escaped pattern is
  wrong: \<open>contains\<close> with a literal percent sign misses a text that contains it, which a database that
  escapes with a backslash finds.\<close>

theorem like_without_escape:
  "\<not> like_match (=) None (like_contains ''50%'') ''is 50% off'' \<and>
   like_match (=) (Some backslash) (like_contains ''50%'') ''is 50% off''"
  by code_simp

text \<open>A cursor value of the declared kind is read back exactly from its text form.\<close>

theorem cursor_value_roundtrips:
  assumes "codec_ok vc" and "value_in_range v" and "encode_cursor_value vc v k = Ok s"
  shows "parse_cursor_value vc k s = Ok v \<and> fm_parse_cursor_value vc k s = Ok v"
  using cursor_value_roundtrip(1)[OF assms] by (simp add: fm_parse_cursor_value_eq)

section \<open>Witnesses\<close>

definition demo_numbers :: number_ops where
  "demo_numbers = \<lparr>bd_to_i64 = (\<lambda>(d, s). if s = 0 \<and> in_i64 d then Some d else None), bd_to_f64 = (\<lambda>_. Some 0),
     bd_show = (\<lambda>(d, s). show_int d), dec_from_str_exact = (\<lambda>_. None), dec_parse = (\<lambda>_. None)\<rparr>"

definition demo_sem :: sql_sem where
  "demo_sem = \<lparr>
     sv_lt = (\<lambda>a b. case (a, b) of
        (SBigInt (Some i), SBigInt (Some j)) \<Rightarrow> i < j
      | (SDecimal (Some c), SDecimal (Some d)) \<Rightarrow> dec_value c < dec_value d
      | (SBool (Some c), SBool (Some d)) \<Rightarrow> c < d
      | (SDateTime (Some i), SDateTime (Some j)) \<Rightarrow> i < j
      | (SDate (Some i), SDate (Some j)) \<Rightarrow> i < j
      | (STime (Some i), STime (Some j)) \<Rightarrow> i < j
      | (SString (Some s), SString (Some t)) \<Rightarrow> lexordp (<) (map (of_char :: char \<Rightarrow> nat) s) (map of_char t)
      | _ \<Rightarrow> False),
     sv_like = like_match (=) (Some backslash),
     sv_cust = (\<lambda>s. if s = ''1=0'' then Some False else None),
     sv_rows = (\<lambda>_. [])\<rparr>"

definition demo_fmap :: "(string \<Rightarrow> sea_value, string) field_map" where
  "demo_fmap = fm_insert ''Name'' ''name'' KString (fm_insert ''Id'' ''id'' KI64 [])"

definition demo_ff :: "string filter_field" where
  "demo_ff = \<lparr>ff_fields = [''name'', ''id''], ff_name = id, ff_kind = (\<lambda>f. if f = ''id'' then KI64 else KString)\<rparr>"

definition demo_filter :: expr where
  "demo_filter = EAnd (EFunction ''startsWith'' [EIdentifier ''NAME'', EValue (VString ''a_'')])
     (ECompare (EIdentifier ''id'') OpGt (EValue (VNumber (4, 0))))"

definition demo_node :: "string filter_node" where
  "demo_node = Composite FAnd [Binary ''name'' FStartsWith (VString ''a_''), Binary ''id'' FGt (VNumber (4, 0))]"

definition demo_cond :: "string condition" where
  "demo_cond = cond_add (Nested (cond_add (Simple (ColGt ''id'' (SBigInt (Some 4)))) cond_all))
     (cond_add (Nested (cond_add (Simple (ColLike ''name'' (like_starts ''a_''))) cond_all)) cond_all)"

lemma demo_filter_condition: "expr_to_condition demo_numbers demo_fmap demo_filter = Ok demo_cond"
  by code_simp

definition demo_row :: "string \<Rightarrow> sea_value" where
  "demo_row c = (if c = ''id'' then SBigInt (Some 5) else SString (Some ''a_b''))"

lemma demo_fmap_fields: "fm_get demo_fmap n =
    (if to_lowercase n = ''name'' then Some \<lparr>fld_col = ''name'', fld_kind = KString, fld_extract = None\<rparr>
     else if to_lowercase n = ''id'' then Some \<lparr>fld_col = ''id'', fld_kind = KI64, fld_extract = None\<rparr> else None)"
proof -
  have "to_lowercase ''Name'' = ''name''" "to_lowercase ''Id'' = ''id''" by code_simp+
  then show ?thesis by (simp add: fm_get_def demo_fmap_def fm_insert_def)
qed

theorem filter_compiles_to_its_meaning_witness:
  "eval_condition demo_sem demo_row demo_cond = filter_meaning demo_sem (=) demo_numbers demo_fmap demo_row demo_filter \<and>
   eval_condition demo_sem demo_row demo_cond = Some True"
proof -
  have e: "exact_filter (Some backslash) demo_numbers demo_fmap demo_filter"
  proof -
    have "\<exists>k. num_value (4, 0) = of_int k" by (rule exI[of _ 4]) (simp add: num_value.simps)
    then have "exact_literal demo_numbers k (VNumber (4, 0))" if "k = KI64" for k by (simp add: that)
    then show ?thesis by (simp add: demo_filter_def escape_works_def exact_for_def demo_fmap_fields)
  qed
  have "natural_order demo_sem" by (simp add: natural_order_def demo_sem_def)
  moreover have "like_sem demo_sem (=) (Some backslash)" by (simp add: like_sem_def demo_sem_def)
  moreover have "exact_numbers demo_numbers" by (auto simp: exact_numbers_def demo_numbers_def num_value.simps split: if_splits)
  moreover have "typed_row demo_fmap demo_row" by (auto simp: typed_row_def demo_fmap_fields demo_row_def split: if_splits)
  ultimately have "eval_condition demo_sem demo_row demo_cond = filter_meaning demo_sem (=) demo_numbers demo_fmap demo_row demo_filter"
    by (rule filter_compiles_to_its_meaning[OF demo_filter_condition e])
  moreover have "eval_condition demo_sem demo_row demo_cond = Some True" by code_simp
  ultimately show ?thesis by blast
qed

lemma lowercase_to_ascii:
  assumes "\<forall>c \<in> set (to_lowercase s). (of_char c :: nat) < 128"
  shows "to_ascii_lowercase s = to_lowercase s"
proof -
  have "(of_char (lower_char c) :: nat) < 128 \<Longrightarrow> ascii_lower c = lower_char c" for c
    by (auto simp: lower_char_def ascii_lower_def Let_def split: if_splits)
  with assms show ?thesis by (auto simp: to_lowercase_def to_ascii_lowercase_def)
qed

lemma demo_maps: "same_fields demo_ff id demo_fmap"
proof -
  have low: "to_ascii_lowercase ''name'' = ''name''" "to_ascii_lowercase ''id'' = ''id''" by code_simp+
  have "\<exists>fld. fm_get demo_fmap n = Some fld \<and> fld_col fld = f \<and> fld_kind fld = ff_kind demo_ff f"
    if "from_name demo_ff n = Some f" for n f
  proof -
    have f: "f \<in> {''name'', ''id''}" "to_ascii_lowercase f = to_ascii_lowercase n"
      using from_name_SomeD[OF that] by (auto simp: demo_ff_def eq_ignore_ascii_case_def)
    then have "to_ascii_lowercase n = f" using low by auto
    moreover have "\<forall>c \<in> set f. (of_char c :: nat) < 128" using f(1) by auto
    ultimately have "to_lowercase n = f" by (simp add: to_lowercase_ascii)
    with f(1) show ?thesis by (auto simp: demo_fmap_fields demo_ff_def)
  qed
  moreover have "from_name demo_ff n \<noteq> None" if "fm_get demo_fmap n \<noteq> None" for n
  proof -
    have "to_lowercase n = ''name'' \<or> to_lowercase n = ''id''" using that by (auto simp: demo_fmap_fields split: if_splits)
    then have "to_ascii_lowercase n = ''name'' \<or> to_ascii_lowercase n = ''id''" using lowercase_to_ascii by fastforce
    then show ?thesis by (auto simp: from_name_def demo_ff_def eq_ignore_ascii_case_def low find_None_iff)
  qed
  ultimately show ?thesis by (simp add: same_fields_def maps_fields_def)
qed

theorem typed_filter_equals_field_map_filter_witness:
  "expr_to_condition demo_numbers demo_fmap demo_filter = Ok demo_cond \<and> typed_form demo_filter"
proof -
  have k: "\<forall>f \<in> set (ff_fields demo_ff). ff_kind demo_ff f \<notin> {KF64, KDecimal}" by code_simp
  have n: "convert_expr_to_filter_node demo_ff demo_filter = Ok demo_node" by code_simp
  have c: "filter_node_to_condition demo_numbers (\<lambda>_. []) id demo_node = Ok demo_cond" by code_simp
  have b: "\<forall>x \<in> set (expr_numbers demo_filter). bd_to_i64 demo_numbers x \<noteq> None" by code_simp
  from typed_filter_equals_field_map_filter[OF demo_maps k b, of "\<lambda>_. []" demo_cond] n c show ?thesis by blast
qed

theorem converted_filter_compiles_witness:
  "is_ok (filter_node_to_condition demo_numbers (\<lambda>_. []) id demo_node)"
proof -
  have n: "convert_expr_to_filter_node demo_ff demo_filter = Ok demo_node" by code_simp
  have "\<forall>k. bd_to_i64 demo_numbers k \<noteq> None \<or> bd_to_f64 demo_numbers k \<noteq> None" by (simp add: demo_numbers_def)
  from converted_filter_compiles[OF n this] show ?thesis by blast
qed

definition trunc_numbers :: number_ops where
  "trunc_numbers = demo_numbers\<lparr>bd_to_i64 := (\<lambda>(d, s). Some (if s = 1 then d div 10 else d))\<rparr>"

theorem fraction_selects_another_row_witness:
  "\<exists>c. expr_to_condition trunc_numbers demo_fmap (ECompare (EIdentifier ''id'') OpEq (EValue (VNumber (15, 1)))) = Ok c \<and>
     eval_condition demo_sem (\<lambda>_. SBigInt (Some 1)) c = Some True"
proof -
  have i: "to_lowercase ''id'' = ''id''" by code_simp
  have n: "natural_order demo_sem" by (simp add: natural_order_def demo_sem_def)
  have t: "bd_to_i64 trunc_numbers (15, 1) = Some 1" by (simp add: trunc_numbers_def)
  from fraction_selects_another_row[OF t n, of demo_fmap "''id''" _ "\<lambda>_. SBigInt (Some 1)"] show ?thesis
    by (auto simp: demo_fmap_fields i)
qed

theorem typed_filter_rejects_null_witness:
  "expr_to_condition demo_numbers demo_fmap (ECompare (EIdentifier ''id'') OpEq (EValue VNull)) =
     Ok (cond_add (Simple (ColIsNull ''id'')) cond_all)"
proof -
  have "map_option fld_col (fm_get demo_fmap ''id'') = Some ''id''" by code_simp
  then obtain f where "fm_get demo_fmap ''id'' = Some f" "fld_col f = ''id''" by auto
  with typed_filter_rejects_null[of demo_ff "''id''" OpEq demo_numbers "\<lambda>_. []" "''id''" FEq demo_fmap] show ?thesis
    by fastforce
qed

theorem typed_number_collapses_witness:
  "build_binary_condition trunc_numbers (\<lambda>_. []) ''price'' FEq (VNumber (37, 1)) =
   build_binary_condition trunc_numbers (\<lambda>_. []) ''price'' FEq (VNumber (3, 0))"
proof -
  have "bd_to_i64 trunc_numbers (37, 1) = Some 3" "bd_to_i64 trunc_numbers (3, 0) = Some 3"
    by (simp_all add: trunc_numbers_def)
  from typed_number_collapses[OF this, of "\<lambda>_. []" "''price''" FEq] show ?thesis by simp
qed

definition demo_values :: value_codec where
  "demo_values = \<lparr>vc_f64_show = show_nat, vc_f64_parse = parse_nat, vc_uuid_show = show_nat, vc_uuid_parse = parse_nat,
     vc_datetime_show = (\<lambda>i. if i < 0 then CHR ''-'' # show_nat (nat (- i)) else CHR ''+'' # show_nat (nat i)),
     vc_datetime_parse = (\<lambda>s. map_option (\<lambda>n. if hd s = CHR ''-'' then - int n else int n) (parse_nat (tl s))),
     vc_date_show = (\<lambda>i. if i < 0 then CHR ''-'' # show_nat (nat (- i)) else CHR ''+'' # show_nat (nat i)),
     vc_date_parse = (\<lambda>s. map_option (\<lambda>n. if hd s = CHR ''-'' then - int n else int n) (parse_nat (tl s))),
     vc_time_show = show_nat, vc_time_parse = parse_nat,
     vc_dec_show = (\<lambda>(m, e). (if m < 0 then CHR ''-'' # show_nat (nat (- m)) else CHR ''+'' # show_nat (nat m)) @ '','' @ show_nat e),
     vc_dec_parse = (\<lambda>s. case split_on CHR '','' s of [a, b] \<Rightarrow>
        (case (parse_nat (tl a), parse_nat b) of (Some n, Some e) \<Rightarrow>
           Some (if hd a = CHR ''-'' then - int n else int n, e) | _ \<Rightarrow> None) | _ \<Rightarrow> None)\<rparr>"

lemma demo_values_ok: "codec_ok demo_values"
  by (auto simp: codec_ok_def demo_values_def split_on_append split_on_plain)

theorem cursor_value_roundtrips_witness:
  "parse_cursor_value demo_values KI64 (show_int (- 42)) = Ok (SBigInt (Some (- 42)))"
proof -
  have e: "encode_cursor_value demo_values (SBigInt (Some (- 42))) KI64 = Ok (show_int (- 42))"
    by (simp add: encode_cursor_value_def)
  have "value_in_range (SBigInt (Some (- 42)))" by (simp add: in_i64_def i64_min_def i64_max_def)
  from cursor_value_roundtrips[OF demo_values_ok this e] show ?thesis by blast
qed

end
