(* ===== verification/OData_Page.thy ===== *)
theory OData_Page
  imports OData_Sql
begin

text \<open>
  Cursor pagination: \<open>paginate_odata\<close> of \<open>libs/modkit-db/src/odata/sea_orm_filter.rs\<close> over typed
  fields and \<open>paginate_with_odata\<close> of \<open>core.rs\<close> over a field map. The two functions share their
  skeleton (effective order, filter-hash check, trimming of the rows), which has one definition here.

  The database is a function from selects to rows or an error. \<open>limit + 1\<close> is an addition on
  \<open>u64\<close>, written with its wrap-around (a debug build panics instead).
\<close>

section \<open>Limits\<close>

record limit_cfg =
  lc_default :: nat
  lc_max :: nat

definition clamp_limit :: "nat option \<Rightarrow> limit_cfg \<Rightarrow> nat" where
  "clamp_limit req cfg =
     (let l = (case req of Some n \<Rightarrow> n | None \<Rightarrow> lc_default cfg);
          l = (if l = 0 then 1 else l)
      in if l > lc_max cfg then lc_max cfg else l)"

definition u64_succ :: "nat \<Rightarrow> nat" where
  "u64_succ n = (n + 1) mod 2 ^ 64"

section \<open>The shared skeleton\<close>

definition effective_order :: "odata_query \<Rightarrow> string \<times> sort_dir \<Rightarrow> (order_by, odata_error) result" where
  "effective_order q tiebreaker =
     (case q_cursor q of
        Some cur \<Rightarrow> map_err (\<lambda>_. InvalidCursor) (from_signed_tokens (cur_s cur))
      | None \<Rightarrow> Ok (ensure_tiebreaker (q_order q) (fst tiebreaker) (snd tiebreaker)))"

definition check_filter_hash :: "odata_query \<Rightarrow> (unit, odata_error) result" where
  "check_filter_hash q =
     (case q_cursor q of
        Some cur \<Rightarrow>
          (case (q_filter_hash q, cur_f cur) of
             (Some h, Some cf) \<Rightarrow> if h \<noteq> cf then Err FilterMismatch else Ok ()
           | _ \<Rightarrow> Ok ())
      | None \<Rightarrow> Ok ())"

definition is_backward :: "odata_query \<Rightarrow> bool" where
  "is_backward q = (case q_cursor q of Some c \<Rightarrow> cur_d c = ''bwd'' | None \<Rightarrow> False)"

definition trim_rows :: "bool \<Rightarrow> nat \<Rightarrow> 'row list \<Rightarrow> 'row list" where
  "trim_rows backward limit rows =
     (let has_more = length rows > limit
      in if backward then rev (if has_more then butlast rows else rows)
         else if has_more then take limit rows else rows)"

definition edge_row :: "bool \<Rightarrow> 'row list \<Rightarrow> 'row option" where
  "edge_row use_last rows = (if rows = [] then None else Some (if use_last then last rows else hd rows))"

section \<open>The cursor predicate\<close>

fun cursor_comparison :: "bool \<Rightarrow> 'c \<times> sea_value \<times> sort_dir \<Rightarrow> 'c simple_expr" where
  "cursor_comparison backward (column, value, dir) =
     (if backward then (case dir of Asc \<Rightarrow> ColLt column value | Desc \<Rightarrow> ColGt column value)
      else (case dir of Asc \<Rightarrow> ColGt column value | Desc \<Rightarrow> ColLt column value))"

definition cursor_prefix :: "('c \<times> sea_value \<times> sort_dir) list \<Rightarrow> nat \<Rightarrow> 'c condition" where
  "cursor_prefix vals i = fold (\<lambda>(column, value, _) p. cond_add (Simple (ColEq column value)) p) (take i vals) cond_all"

definition cursor_condition :: "bool \<Rightarrow> ('c \<times> sea_value \<times> sort_dir) list \<Rightarrow> 'c condition" where
  "cursor_condition backward vals =
     fold (\<lambda>i main. cond_add (Nested (cond_add (Simple (cursor_comparison backward (vals ! i))) (cursor_prefix vals i))) main)
       [0..<length vals] cond_any"

section \<open>Typed pagination\<close>

definition order_field :: "'f filter_field \<Rightarrow> string \<Rightarrow> ('f, odata_error) result" where
  "order_field ff name = ok_or (InvalidOrderByField name) (from_name ff name)"

definition build_cursor_predicate ::
    "value_codec \<Rightarrow> 'f filter_field \<Rightarrow> ('f \<Rightarrow> 'c) \<Rightarrow> cursor \<Rightarrow> order_by \<Rightarrow> ('c condition, odata_error) result" where
  "build_cursor_predicate vc ff map_field cur ob =
     (if length (cur_k cur) \<noteq> length ob then Err InvalidCursor
      else and_then
        (collect (\<lambda>(key_str, k).
           and_then (order_field ff (ok_field k)) (\<lambda>f.
           and_then (map_err (\<lambda>_. InvalidCursor) (parse_cursor_value vc (ff_kind ff f) key_str)) (\<lambda>value.
             Ok (map_field f, value, ok_dir k)))) (zip (cur_k cur) ob))
        (\<lambda>vals. Ok (cursor_condition (cur_d cur = ''bwd'') vals)))"

definition extract_cursor_values ::
    "'f filter_field \<Rightarrow> ('row \<Rightarrow> 'f \<Rightarrow> sea_value) \<Rightarrow> 'row \<Rightarrow> order_by \<Rightarrow> (('f \<times> sea_value) list, string) result" where
  "extract_cursor_values ff extract model ob =
     collect (\<lambda>k. and_then (ok_or (''Unknown orderby field: '' @ ok_field k) (from_name ff (ok_field k))) (\<lambda>f.
       Ok (f, extract model f))) ob"

definition build_cursor_from_model ::
    "value_codec \<Rightarrow> 'f filter_field \<Rightarrow> ('row \<Rightarrow> 'f \<Rightarrow> sea_value) \<Rightarrow> 'row \<Rightarrow> order_by \<Rightarrow> string option \<Rightarrow> string \<Rightarrow>
     (cursor, odata_error) result" where
  "build_cursor_from_model vc ff extract model ob filter_hash direction =
     and_then (map_err (\<lambda>_. InvalidCursor) (extract_cursor_values ff extract model ob)) (\<lambda>field_values.
     and_then (map_err (\<lambda>_. InvalidCursor)
         (collect (\<lambda>(f, value). encode_cursor_value vc value (ff_kind ff f)) field_values)) (\<lambda>cursor_keys.
       Ok \<lparr>cur_k = cursor_keys, cur_o = (case ob of [] \<Rightarrow> Desc | k # _ \<Rightarrow> ok_dir k),
           cur_s = to_signed_tokens ob, cur_f = filter_hash, cur_d = direction\<rparr>))"

definition build_cursor_from_rows ::
    "cursor_codec \<Rightarrow> value_codec \<Rightarrow> 'f filter_field \<Rightarrow> ('row \<Rightarrow> 'f \<Rightarrow> sea_value) \<Rightarrow> 'row list \<Rightarrow> order_by \<Rightarrow>
     string option \<Rightarrow> string \<Rightarrow> bool \<Rightarrow> (string option, odata_error) result" where
  "build_cursor_from_rows cc vc ff extract rows ob filter_hash direction use_last =
     (case edge_row use_last rows of
        None \<Rightarrow> Ok None
      | Some m \<Rightarrow>
          and_then (build_cursor_from_model vc ff extract m ob filter_hash direction) (\<lambda>c.
          and_then (map_err (\<lambda>_. InvalidCursor) (cursor_encode cc c)) (\<lambda>t. Ok (Some t))))"

definition apply_order ::
    "'f filter_field \<Rightarrow> ('f \<Rightarrow> 'c) \<Rightarrow> order_by \<Rightarrow> 'c select \<Rightarrow> ('c select, odata_error) result" where
  "apply_order ff map_field ob s =
     and_then (collect (\<lambda>k. and_then (order_field ff (ok_field k)) (\<lambda>f. Ok (map_field f, ok_dir k))) ob) (\<lambda>cs.
       Ok (fold (\<lambda>(c, d). sel_order_by c d) cs s))"

text \<open>Everything the typed pagination is generic over.\<close>

record ('f, 'c, 'row) typed_env =
  te_cc :: cursor_codec
  te_vc :: value_codec
  te_no :: number_ops
  te_dbg :: "odata_value \<Rightarrow> string"
  te_ff :: "'f filter_field"
  te_map_field :: "'f \<Rightarrow> 'c"
  te_extract :: "'row \<Rightarrow> 'f \<Rightarrow> sea_value"

definition apply_filter ::
    "('f, 'c, 'row) typed_env \<Rightarrow> odata_query \<Rightarrow> 'c select \<Rightarrow> ('c select, odata_error) result" where
  "apply_filter te q s =
     (case q_filter q of
        None \<Rightarrow> Ok s
      | Some ast \<Rightarrow>
          and_then (map_err (\<lambda>e. InvalidFilter (show_filter_error e)) (convert_expr_to_filter_node (te_ff te) ast)) (\<lambda>n.
          and_then (map_err InvalidFilter (filter_node_to_condition (te_no te) (te_dbg te) (te_map_field te) n)) (\<lambda>c.
            Ok (sel_filter c s))))"

definition apply_cursor ::
    "('f, 'c, 'row) typed_env \<Rightarrow> odata_query \<Rightarrow> order_by \<Rightarrow> 'c select \<Rightarrow> ('c select, odata_error) result" where
  "apply_cursor te q ob s =
     (case q_cursor q of
        None \<Rightarrow> Ok s
      | Some cur \<Rightarrow>
          and_then (build_cursor_predicate (te_vc te) (te_ff te) (te_map_field te) cur ob) (\<lambda>c. Ok (sel_filter c s)))"

definition paginate_odata ::
    "('f, 'c, 'row) typed_env \<Rightarrow> 'c select \<Rightarrow> ('c select \<Rightarrow> ('row list, string) result) \<Rightarrow> odata_query \<Rightarrow>
     string \<times> sort_dir \<Rightarrow> limit_cfg \<Rightarrow> ('row \<Rightarrow> 'd) \<Rightarrow> ('d page, odata_error) result" where
  "paginate_odata te select db q tiebreaker cfg model_to_domain =
     (let limit = clamp_limit (q_limit q) cfg; fetch = u64_succ limit
      in and_then (effective_order q tiebreaker) (\<lambda>ob.
         and_then (check_filter_hash q) (\<lambda>_.
         and_then (apply_filter te q select) (\<lambda>s.
         and_then (apply_cursor te q ob s) (\<lambda>s.
         and_then (apply_order (te_ff te) (te_map_field te)
             (if is_backward q then reverse_directions ob else ob) s) (\<lambda>s.
         and_then (map_err Db (db (sel_set_limit fetch s))) (\<lambda>fetched.
           let has_more = length fetched > limit; rows = trim_rows (is_backward q) limit fetched;
               mk = build_cursor_from_rows (te_cc te) (te_vc te) (te_ff te) (te_extract te) rows ob (q_filter_hash q)
           in and_then (if is_backward q \<or> has_more then mk ''fwd'' True else Ok None) (\<lambda>nxt.
              and_then (if is_backward q then (if has_more then mk ''bwd'' False else Ok None)
                        else if q_cursor q \<noteq> None then mk ''bwd'' False else Ok None) (\<lambda>prv.
                Ok \<lparr>items = map model_to_domain rows,
                    page_info = \<lparr>next_cursor = nxt, prev_cursor = prv, pi_limit = limit\<rparr>\<rparr>)))))))))"

section \<open>Pagination through a field map\<close>

definition fm_build_cursor_predicate ::
    "value_codec \<Rightarrow> ('row, 'c) field_map \<Rightarrow> cursor \<Rightarrow> order_by \<Rightarrow> ('c condition, build_error) result" where
  "fm_build_cursor_predicate vc m cur ob =
     (if length (cur_k cur) \<noteq> length ob then Err (BOther ''cursor keys count mismatch with order fields'')
      else and_then
        (collect (\<lambda>(key_str, k).
           and_then (fm_field m (ok_field k)) (\<lambda>f.
           and_then (fm_parse_cursor_value vc (fld_kind f) key_str) (\<lambda>value.
             Ok (fld_col f, value, ok_dir k)))) (zip (cur_k cur) ob))
        (\<lambda>vals. Ok (cursor_condition (cur_d cur = ''bwd'') vals)))"

definition resolve_field :: "('row, 'c) field_map \<Rightarrow> string \<Rightarrow> (('row, 'c) field, odata_error) result" where
  "resolve_field m name = ok_or (InvalidOrderByField name) (fm_get m name)"

definition build_cursor_for_model ::
    "('row, 'c) field_map \<Rightarrow> 'row \<Rightarrow> order_by \<Rightarrow> sort_dir \<Rightarrow> string option \<Rightarrow> string \<Rightarrow> (cursor, odata_error) result" where
  "build_cursor_for_model m model ob primary_dir filter_hash direction =
     and_then (collect (\<lambda>k. ok_or (InvalidOrderByField (ok_field k)) (encode_model_key m model (ok_field k))) ob) (\<lambda>ks.
       Ok \<lparr>cur_k = ks, cur_o = primary_dir, cur_s = to_signed_tokens ob, cur_f = filter_hash, cur_d = direction\<rparr>)"

definition build_cursor ::
    "cursor_codec \<Rightarrow> 'row list \<Rightarrow> order_by \<Rightarrow> ('row, 'c) field_map \<Rightarrow> string \<times> sort_dir \<Rightarrow> odata_query \<Rightarrow> bool \<Rightarrow>
     string \<Rightarrow> (string option, odata_error) result" where
  "build_cursor cc rows ob m tiebreaker q last_row direction =
     (case edge_row last_row rows of
        None \<Rightarrow> Ok None
      | Some model \<Rightarrow>
          and_then (build_cursor_for_model m model ob (snd tiebreaker) (q_filter_hash q) direction) (\<lambda>c.
          and_then (map_err (\<lambda>_. InvalidCursor) (cursor_encode cc c)) (\<lambda>t. Ok (Some t))))"

definition apply_odata_filter ::
    "number_ops \<Rightarrow> ('row, 'c) field_map \<Rightarrow> odata_query \<Rightarrow> 'c select \<Rightarrow> ('c select, build_error) result" where
  "apply_odata_filter no m q s =
     (case q_filter q of
        Some ast \<Rightarrow> and_then (expr_to_condition no m ast) (\<lambda>c. Ok (sel_filter c s))
      | None \<Rightarrow> Ok s)"

definition apply_cursor_forward ::
    "value_codec \<Rightarrow> ('row, 'c) field_map \<Rightarrow> cursor \<Rightarrow> order_by \<Rightarrow> 'c select \<Rightarrow> ('c select, build_error) result" where
  "apply_cursor_forward vc m cur ob s =
     and_then (fm_build_cursor_predicate vc m cur ob) (\<lambda>c. Ok (sel_filter c s))"

definition apply_odata_order ::
    "('row, 'c) field_map \<Rightarrow> order_by \<Rightarrow> 'c select \<Rightarrow> ('c select, build_error) result" where
  "apply_odata_order m ob s =
     and_then (collect (\<lambda>k. and_then (fm_field m (ok_field k)) (\<lambda>f. Ok (fld_col f, ok_dir k))) ob) (\<lambda>cs.
       Ok (fold (\<lambda>(c, d). sel_order_by c d) cs s))"

definition apply_odata_order_page ::
    "('row, 'c) field_map \<Rightarrow> order_by \<Rightarrow> 'c select \<Rightarrow> ('c select, odata_error) result" where
  "apply_odata_order_page m ob s =
     and_then (collect (\<lambda>k. and_then (resolve_field m (ok_field k)) (\<lambda>f. Ok (fld_col f, ok_dir k))) ob) (\<lambda>cs.
       Ok (fold (\<lambda>(c, d). sel_order_by c d) cs s))"

definition apply_odata_query ::
    "number_ops \<Rightarrow> value_codec \<Rightarrow> ('row, 'c) field_map \<Rightarrow> odata_query \<Rightarrow> string \<times> sort_dir \<Rightarrow> 'c select \<Rightarrow>
     ('c select, build_error) result" where
  "apply_odata_query no vc m q tiebreaker s =
     and_then (apply_odata_filter no m q s) (\<lambda>s.
       let ob = ensure_tiebreaker (q_order q) (fst tiebreaker) (snd tiebreaker)
       in and_then (case q_cursor q of Some cur \<Rightarrow> apply_cursor_forward vc m cur ob s | None \<Rightarrow> Ok s) (\<lambda>s.
          apply_odata_order m ob s))"

definition paginate_with_odata ::
    "cursor_codec \<Rightarrow> value_codec \<Rightarrow> number_ops \<Rightarrow> ('row, 'c) field_map \<Rightarrow> 'c select \<Rightarrow>
     ('c select \<Rightarrow> ('row list, string) result) \<Rightarrow> odata_query \<Rightarrow> string \<times> sort_dir \<Rightarrow> limit_cfg \<Rightarrow> ('row \<Rightarrow> 'd) \<Rightarrow>
     ('d page, odata_error) result" where
  "paginate_with_odata cc vc no m select db q tiebreaker cfg model_to_domain =
     (let limit = clamp_limit (q_limit q) cfg; fetch = u64_succ limit
      in and_then (effective_order q tiebreaker) (\<lambda>ob.
         and_then (check_filter_hash q) (\<lambda>_.
         and_then (case q_filter q of None \<Rightarrow> Ok select
             | Some ast \<Rightarrow> and_then (map_err (\<lambda>e. InvalidFilter (show_build_error e)) (expr_to_condition no m ast))
                 (\<lambda>c. Ok (sel_filter c select))) (\<lambda>s.
         and_then (case q_cursor q of None \<Rightarrow> Ok s
             | Some cur \<Rightarrow> and_then (map_err (\<lambda>_. InvalidCursor) (fm_build_cursor_predicate vc m cur ob))
                 (\<lambda>c. Ok (sel_filter c s))) (\<lambda>s.
         and_then (apply_odata_order_page m (if is_backward q then reverse_directions ob else ob) s) (\<lambda>s.
         and_then (map_err Db (db (sel_set_limit fetch s))) (\<lambda>fetched.
           let has_more = length fetched > limit; rows = trim_rows (is_backward q) limit fetched;
               mk = build_cursor cc rows ob m tiebreaker q
           in and_then (if is_backward q then mk True ''fwd'' else if has_more then mk True ''fwd'' else Ok None) (\<lambda>nxt.
              and_then (if is_backward q then (if has_more then mk False ''bwd'' else Ok None)
                        else if q_cursor q \<noteq> None then mk False ''bwd'' else Ok None) (\<lambda>prv.
                Ok \<lparr>items = map model_to_domain rows,
                    page_info = \<lparr>next_cursor = nxt, prev_cursor = prv, pi_limit = limit\<rparr>\<rparr>)))))))))"

section \<open>What the cursor predicate selects\<close>

lemma fold_cond_add:
  "fold (\<lambda>x c. cond_add (g x) c) xs (Condition a n es) = Condition a n (es @ map g xs)"
  by (induction xs arbitrary: es) auto

lemma cursor_prefix_eq:
  "cursor_prefix vals i = Condition False False (map (\<lambda>v. Simple (ColEq (fst v) (fst (snd v)))) (take i vals))"
proof -
  have "(\<lambda>(column, value, _) p. cond_add (Simple (ColEq column value)) p) =
      (\<lambda>v :: 'a \<times> sea_value \<times> sort_dir. \<lambda>p. cond_add (Simple (ColEq (fst v) (fst (snd v)))) p)" by (auto simp: fun_eq_iff)
  then show ?thesis
    using fold_cond_add[of "\<lambda>v. Simple (ColEq (fst v) (fst (snd v)))" "take i vals" False False "[]"]
    by (simp add: cursor_prefix_def cond_all_def)
qed

lemma cursor_condition_eq:
  "cursor_condition bwd vals = Condition True False (map (\<lambda>i. Nested (cond_add (Simple (cursor_comparison bwd (vals ! i)))
     (cursor_prefix vals i))) [0..<length vals])"
  using fold_cond_add[of _ "[0..<length vals]" True False "[]"] by (simp add: cursor_condition_def cond_any_def)

fun lexq :: "('a \<Rightarrow> bool) \<Rightarrow> ('a \<Rightarrow> bool) \<Rightarrow> 'a list \<Rightarrow> bool" where
  "lexq E L [] = False"
| "lexq E L (x # xs) = (L x \<or> (E x \<and> lexq E L xs))"

lemma lexq_iff: "lexq E L xs \<longleftrightarrow> (\<exists>i < length xs. (\<forall>x \<in> set (take i xs). E x) \<and> L (xs ! i))"
proof (induction xs)
  case (Cons x xs)
  have "(\<exists>i < length (x # xs). (\<forall>y \<in> set (take i (x # xs)). E y) \<and> L ((x # xs) ! i)) \<longleftrightarrow>
      L x \<or> (\<exists>i < length xs. (\<forall>y \<in> set (take (Suc i) (x # xs)). E y) \<and> L (xs ! i))"
    by (simp add: Ex_less_Suc2)
  with Cons.IH show ?case by auto
qed simp

lemma eval_cursor_condition:
  "eval_condition sem r (cursor_condition bwd vals) = Some True \<longleftrightarrow>
     lexq (\<lambda>v. eval_simple sem r (ColEq (fst v) (fst (snd v))) = Some True)
       (\<lambda>v. eval_simple sem r (cursor_comparison bwd v) = Some True) vals"
  unfolding cursor_condition_eq eval_any_True lexq_iff
  by (auto simp: cursor_prefix_eq eval_all_True simp del: eval_condition.simps eval_simple.simps cursor_comparison.simps)

lemma lexq_row_before:
  assumes "\<forall>(c, d) \<in> set cols. \<not> is_null (r c) \<and> \<not> is_null (r0 c)"
  shows "lexq (\<lambda>v. eval_simple sem r (ColEq (fst v) (fst (snd v))) = Some True)
       (\<lambda>v. eval_simple sem r (cursor_comparison bwd v) = Some True) (map (\<lambda>(c, d). (c, r0 c, d)) cols) \<longleftrightarrow>
     (if bwd then row_before sem cols r r0 else row_before sem cols r0 r)"
  using assms
proof (induction cols)
  case (Cons p cols)
  obtain c d where p: "p = (c, d)" by (cases p)
  show ?case using Cons p by (cases d; cases bwd) (auto simp: sv_eq_def)
qed simp

lemma row_before_rev:
  "row_before sem (map (\<lambda>(c, d). (c, reverse d)) cols) a b = row_before sem cols b a"
proof (induction cols)
  case (Cons p cols)
  then show ?case by (cases p; cases "snd p") auto
qed simp

lemma row_before_asym:
  assumes "\<And>a b. sv_lt sem a b \<Longrightarrow> \<not> sv_lt sem b a"
  shows "row_before sem cols a b \<Longrightarrow> \<not> row_before sem cols b a"
proof (induction cols)
  case (Cons p cols)
  then show ?case using assms by (cases p; cases "snd p") (auto simp: Let_def)
qed simp

section \<open>Strictly sorted lists\<close>

lemma sorted_strict_unique:
  assumes asym: "\<And>a b. lt a b \<Longrightarrow> \<not> lt b a"
    and "sorted_wrt lt xs" "sorted_wrt (\<lambda>a b. \<not> lt b a) ys" "mset ys = mset xs"
  shows "ys = xs"
  using assms(2-)
proof (induction xs arbitrary: ys)
  case (Cons x xs)
  then obtain y ys' where ys: "ys = y # ys'" by (cases ys) auto
  have "y = x"
  proof (rule ccontr)
    assume "y \<noteq> x"
    then have "y \<in> set xs" "x \<in> set ys'"
      using Cons.prems(3) ys by (metis list.set_intros(1) set_ConsD set_mset_mset)+
    then show False using Cons.prems(1,2) ys by auto
  qed
  with Cons ys show ?case by auto
qed simp

lemma filter_after:
  assumes asym: "\<And>a b. lt a b \<Longrightarrow> \<not> lt b a" and "sorted_wrt lt xs" "i < length xs"
  shows "filter (lt (xs ! i)) xs = drop (Suc i) xs" "filter (\<lambda>x. lt x (xs ! i)) xs = take i xs"
proof -
  let ?l = "take i xs" and ?x = "xs ! i" and ?r = "drop (Suc i) xs"
  have xs: "xs = ?l @ ?x # ?r" using assms(3) by (rule id_take_nth_drop)
  then have s: "sorted_wrt lt (?l @ ?x # ?r)" using assms(2) by simp
  have l: "\<forall>y \<in> set ?l. lt y ?x" and r: "\<forall>y \<in> set ?r. lt ?x y" using s by (auto simp: sorted_wrt_append)
  have irr: "\<not> lt ?x ?x" using asym by blast
  have "filter (lt ?x) (?l @ ?x # ?r) = ?r" using l r irr asym by (auto simp: filter_empty_conv)
  then show "filter (lt ?x) xs = ?r" using xs by simp
  have "filter (\<lambda>x. lt x ?x) (?l @ ?x # ?r) = ?l" using l r irr asym by (auto simp: filter_empty_conv)
  then show "filter (\<lambda>x. lt x ?x) xs = ?l" using xs by simp
qed

lemma sorted_wrt_rev_iff: "sorted_wrt lt (rev xs) \<longleftrightarrow> sorted_wrt (\<lambda>a b. lt b a) xs"
  by (simp add: sorted_wrt_rev)

lemma fold_sel_order: "fold (\<lambda>(c, d). sel_order_by c d) cs s = s\<lparr>sel_order := sel_order s @ cs\<rparr>"
  by (induction cs arbitrary: s) (auto simp: sel_order_by_def)

definition order_columns :: "'f filter_field \<Rightarrow> ('f \<Rightarrow> 'c) \<Rightarrow> order_by \<Rightarrow> ('c \<times> sort_dir) list" where
  "order_columns ff mf ob = map (\<lambda>k. (mf (the (from_name ff (ok_field k))), ok_dir k)) ob"

lemma order_columns_rev:
  "order_columns ff mf (reverse_directions ob) = map (\<lambda>(c, d). (c, reverse d)) (order_columns ff mf ob)"
  by (simp add: order_columns_def reverse_directions_def comp_def)

lemma apply_order_eq:
  assumes "\<And>k. k \<in> set ob \<Longrightarrow> from_name ff (ok_field k) \<noteq> None"
  shows "apply_order ff mf ob s = Ok (s\<lparr>sel_order := sel_order s @ order_columns ff mf ob\<rparr>)"
proof -
  have "collect (\<lambda>k. and_then (order_field ff (ok_field k)) (\<lambda>f. Ok (mf f, ok_dir k))) ob = Ok (order_columns ff mf ob)"
    unfolding order_columns_def by (rule collect_map_Ok) (use assms in \<open>fastforce simp: order_field_def\<close>)
  then show ?thesis by (simp add: apply_order_def fold_sel_order)
qed

section \<open>Walking the pages\<close>

text \<open>A client that follows \<open>next_cursor\<close> until there is none, resending its filter and limit. Out of
  fuel is \<^term>\<open>None\<close>.\<close>

fun walk_pages :: "nat \<Rightarrow> (odata_query \<Rightarrow> ('d page, odata_error) result) \<Rightarrow> (string \<Rightarrow> (cursor, odata_error) result) \<Rightarrow>
    odata_query \<Rightarrow> ('d list, odata_error) result option" where
  "walk_pages 0 fetch decode q = None"
| "walk_pages (Suc n) fetch decode q =
     (case fetch q of
        Err e \<Rightarrow> Some (Err e)
      | Ok p \<Rightarrow>
          (case next_cursor (page_info p) of
             None \<Rightarrow> Some (Ok (items p))
           | Some tok \<Rightarrow>
               (case decode tok of
                  Err e \<Rightarrow> Some (Err e)
                | Ok c \<Rightarrow> map_option (\<lambda>r. and_then r (\<lambda>rest. Ok (items p @ rest)))
                    (walk_pages n fetch decode (q\<lparr>q_order := [], q_cursor := Some c\<rparr>)))))"

section \<open>A table behind the pagination\<close>

text \<open>What a caller of \<open>paginate_odata\<close> provides: an order over known fields with usable names, a filter
  that compiles, a database that answers selects by their SQL meaning, a field mapping that extracts
  the values of the columns it maps to, values that have a text form, and codecs that read back what
  they write. \<open>rows\<close> is the filtered table in the effective order, in which no two rows are equal.\<close>

locale paged_table =
  fixes te :: "('f, 'c, 'row) typed_env"
    and select :: "'c select"
    and db :: "'c select \<Rightarrow> ('row list, string) result"
    and sem :: sql_sem
    and col :: "'row \<Rightarrow> 'c \<Rightarrow> sea_value"
    and table :: "'row list"
    and flt :: "expr option"
    and hash :: "string option"
    and ob :: order_by
    and conds :: "'c condition list"
    and rows :: "'row list"
  assumes plain_select: "sel_order select = []" "sel_limit select = None" "sel_offset select = 0"
    and order_wf: "wf_order ob"
    and order_known: "k \<in> set ob \<Longrightarrow> from_name (te_ff te) (ok_field k) \<noteq> None"
    and filter_compiles: "(case flt of None \<Rightarrow> conds = []
      | Some e \<Rightarrow> \<exists>n c. convert_expr_to_filter_node (te_ff te) e = Ok n \<and>
          filter_node_to_condition (te_no te) (te_dbg te) (te_map_field te) n = Ok c \<and> conds = [c])"
    and lt_asym: "sv_lt sem a b \<Longrightarrow> \<not> sv_lt sem b a"
    and rows_sorted: "sorted_wrt (\<lambda>r r'. row_before sem (order_columns (te_ff te) (te_map_field te) ob) (col r) (col r')) rows"
    and rows_complete: "mset rows = mset (filter (\<lambda>r. row_selected sem (col r) (sel_where select @ conds)) table)"
    and db_answers: "\<exists>res. db s = Ok res \<and> sql_answer sem col table s res"
    and extracts: "\<lbrakk>r \<in> set rows; k \<in> set ob; from_name (te_ff te) (ok_field k) = Some f\<rbrakk> \<Longrightarrow>
      te_extract te r f = col r (te_map_field te f) \<and> value_in_range (te_extract te r f) \<and>
      is_ok (encode_cursor_value (te_vc te) (te_extract te r f) (ff_kind (te_ff te) f))"
    and values_codec: "codec_ok (te_vc te)"
    and json_codec: "\<exists>b. json_to_vec (te_cc te) w = Ok b \<and> json_from_slice (te_cc te) b = Ok w"
    and b64_codec: "b64_decode (te_cc te) (b64_encode (te_cc te) bs) = Ok bs"
begin

abbreviation cols :: "('c \<times> sort_dir) list" where
  "cols \<equiv> order_columns (te_ff te) (te_map_field te) ob"

abbreviation before :: "'row \<Rightarrow> 'row \<Rightarrow> bool" where
  "before r r' \<equiv> row_before sem cols (col r) (col r')"

definition field_of :: "order_key \<Rightarrow> 'f" where
  "field_of k = the (from_name (te_ff te) (ok_field k))"

definition key_text :: "'row \<Rightarrow> order_key \<Rightarrow> string" where
  "key_text r k = (case encode_cursor_value (te_vc te) (te_extract te r (field_of k)) (ff_kind (te_ff te) (field_of k)) of
     Ok s \<Rightarrow> s | Err _ \<Rightarrow> [])"

definition cursor_at :: "'row \<Rightarrow> string \<Rightarrow> cursor" where
  "cursor_at r d = \<lparr>cur_k = map (key_text r) ob, cur_o = ok_dir (hd ob), cur_s = to_signed_tokens ob, cur_f = hash, cur_d = d\<rparr>"

lemma known: "k \<in> set ob \<Longrightarrow> from_name (te_ff te) (ok_field k) = Some (field_of k)"
  using order_known by (auto simp: field_of_def)

lemma key_facts:
  assumes "r \<in> set rows" "k \<in> set ob"
  shows "encode_cursor_value (te_vc te) (te_extract te r (field_of k)) (ff_kind (te_ff te) (field_of k)) = Ok (key_text r k)"
    "parse_cursor_value (te_vc te) (ff_kind (te_ff te) (field_of k)) (key_text r k) = Ok (col r (te_map_field te (field_of k)))"
    "\<not> is_null (col r (te_map_field te (field_of k)))"
proof -
  note e = extracts[OF assms known[OF assms(2)]]
  then show enc: "encode_cursor_value (te_vc te) (te_extract te r (field_of k)) (ff_kind (te_ff te) (field_of k)) = Ok (key_text r k)"
    by (auto simp: key_text_def is_ok_iff)
  show "parse_cursor_value (te_vc te) (ff_kind (te_ff te) (field_of k)) (key_text r k) = Ok (col r (te_map_field te (field_of k)))"
    "\<not> is_null (col r (te_map_field te (field_of k)))"
    using cursor_value_roundtrip[OF values_codec _ enc] e by auto
qed

lemma build_cursor_at:
  assumes "r \<in> set rows"
  shows "build_cursor_from_model (te_vc te) (te_ff te) (te_extract te) r ob hash d = Ok (cursor_at r d)"
proof -
  have 1: "extract_cursor_values (te_ff te) (te_extract te) r ob = Ok (map (\<lambda>k. (field_of k, te_extract te r (field_of k))) ob)"
    unfolding extract_cursor_values_def by (rule collect_map_Ok) (simp add: known)
  have 2: "collect (\<lambda>(f, value). encode_cursor_value (te_vc te) value (ff_kind (te_ff te) f))
      (map (\<lambda>k. (field_of k, te_extract te r (field_of k))) ob) = Ok (map (key_text r) ob)"
    unfolding collect_Ok_iff by (auto simp: list_all2_map1 list_all2_map2 list_all2_same key_facts(1)[OF assms])
  have "(case ob of [] \<Rightarrow> Desc | k # _ \<Rightarrow> ok_dir k) = ok_dir (hd ob)" using order_wf by (cases ob) (auto simp: wf_order_def)
  with 1 2 show ?thesis by (simp add: build_cursor_from_model_def cursor_at_def)
qed

lemma encode_cursor_at:
  assumes "d \<in> {''fwd'', ''bwd''}"
  obtains tok where "cursor_encode (te_cc te) (cursor_at r d) = Ok tok" "cursor_decode (te_cc te) tok = Ok (cursor_at r d)"
proof -
  have "to_signed_tokens ob \<noteq> []" "\<not> is_whitespace (hd (to_signed_tokens ob))"
    using order_wf by (cases ob; cases "tl ob"; auto simp: wf_order_def to_signed_tokens_def is_whitespace_def)+
  then have "trim (to_signed_tokens ob) \<noteq> []"
    by (cases "to_signed_tokens ob") (auto simp: trim_def trim_start_def trim_end_def dropWhile_eq_Nil_conv)
  moreover have "cur_k (cursor_at r d) \<noteq> []" using order_wf by (auto simp: cursor_at_def wf_order_def)
  ultimately show ?thesis
    using cursor_encode_decode[of "te_cc te" "cursor_at r d", OF json_codec b64_codec] that assms
    by (auto simp: cursor_at_def)
qed

lemma cursor_row_token:
  assumes "r \<in> set rows" "edge_row l rs = Some r" "d \<in> {''fwd'', ''bwd''}"
  obtains tok where
    "build_cursor_from_rows (te_cc te) (te_vc te) (te_ff te) (te_extract te) rs ob hash d l = Ok (Some tok)"
    "cursor_decode (te_cc te) tok = Ok (cursor_at r d)"
proof -
  obtain tok where "cursor_encode (te_cc te) (cursor_at r d) = Ok tok" "cursor_decode (te_cc te) tok = Ok (cursor_at r d)"
    using encode_cursor_at[OF assms(3)] by blast
  with assms(1,2) that show ?thesis by (simp add: build_cursor_from_rows_def build_cursor_at)
qed

lemma cursor_predicate_at:
  assumes "r0 \<in> set rows"
  obtains c where "build_cursor_predicate (te_vc te) (te_ff te) (te_map_field te) (cursor_at r0 d) ob = Ok c"
    "\<And>r. r \<in> set rows \<Longrightarrow> eval_condition sem (col r) c = Some True \<longleftrightarrow>
       (if d = ''bwd'' then before r r0 else before r0 r)"
proof -
  let ?vals = "map (\<lambda>(c, d). (c, col r0 c, d)) cols"
  have v: "?vals = map (\<lambda>k. (te_map_field te (field_of k), col r0 (te_map_field te (field_of k)), ok_dir k)) ob"
    by (simp add: order_columns_def field_of_def)
  have "collect (\<lambda>(key_str, k). and_then (order_field (te_ff te) (ok_field k)) (\<lambda>f.
      and_then (map_err (\<lambda>_. InvalidCursor) (parse_cursor_value (te_vc te) (ff_kind (te_ff te) f) key_str)) (\<lambda>value.
        Ok (te_map_field te f, value, ok_dir k)))) (zip (map (key_text r0) ob) ob) = Ok ?vals"
    unfolding v zip_map1 collect_Ok_iff
    by (auto simp: list_all2_conv_all_nth order_field_def known key_facts(2)[OF assms])
  then have b: "build_cursor_predicate (te_vc te) (te_ff te) (te_map_field te) (cursor_at r0 d) ob =
      Ok (cursor_condition (d = ''bwd'') ?vals)"
    by (simp add: build_cursor_predicate_def cursor_at_def)
  have nn: "\<forall>(c, d) \<in> set cols. \<not> is_null (col r c) \<and> \<not> is_null (col r0 c)" if "r \<in> set rows" for r
    using key_facts(3)[OF that] key_facts(3)[OF assms] by (auto simp: order_columns_def field_of_def)
  have "eval_condition sem (col r) (cursor_condition (d = ''bwd'') ?vals) = Some True \<longleftrightarrow>
      (if d = ''bwd'' then before r r0 else before r0 r)" if "r \<in> set rows" for r
    unfolding eval_cursor_condition by (rule lexq_row_before[OF nn[OF that]])
  with b show ?thesis by (rule that)
qed

text \<open>The database's answer, when the selected rows in order are \<open>xs\<close>.\<close>

lemma db_answer:
  assumes "mset xs = mset (filter (\<lambda>r. row_selected sem (col r) (sel_where s)) table)"
    "sorted_wrt (\<lambda>r r'. row_before sem (sel_order s) (col r) (col r')) xs" "sel_limit s = Some n" "sel_offset s = 0"
  shows "db s = Ok (take n xs)"
proof -
  obtain res full where r: "db s = Ok res" "res = take n full"
    "mset full = mset xs" "sorted_wrt (\<lambda>r r'. \<not> row_before sem (sel_order s) (col r') (col r)) full"
    using db_answers[of s] assms by (auto simp: sql_answer_def)
  have "full = xs"
    by (rule sorted_strict_unique[OF _ assms(2) r(4,3)]) (rule row_before_asym[OF lt_asym])
  with r show ?thesis by simp
qed

lemma filter_applies:
  assumes "q_filter q = flt"
  shows "\<exists>s. apply_filter te q select = Ok s \<and> sel_where s = sel_where select @ conds \<and>
    sel_order s = [] \<and> sel_limit s = None \<and> sel_offset s = 0"
  using filter_compiles assms plain_select
  by (auto simp: apply_filter_def sel_filter_def split: option.splits)

lemma rows_selected_and:
  "mset (filter (\<lambda>r. row_selected sem (col r) ((sel_where select @ conds) @ [c])) table) =
   mset (filter (\<lambda>r. eval_condition sem (col r) c = Some True) rows)"
proof -
  have "mset (filter (\<lambda>r. row_selected sem (col r) ((sel_where select @ conds) @ [c])) table) =
      filter_mset (\<lambda>r. eval_condition sem (col r) c = Some True)
        (mset (filter (\<lambda>r. row_selected sem (col r) (sel_where select @ conds)) table))"
    by (simp add: row_selected_append filter_filter_mset row_selected_def[of _ _ "[c]"] conj_assoc)
  then show ?thesis by (simp add: rows_complete)
qed

lemma cursor_accepted:
  assumes "q_cursor q = Some (cursor_at r d)" "q_filter_hash q = hash"
  shows "effective_order q tb = Ok ob" "check_filter_hash q = Ok ()" "is_backward q \<longleftrightarrow> d = ''bwd''"
  using assms from_to_signed_tokens[OF order_wf]
  by (auto simp: effective_order_def check_filter_hash_def is_backward_def cursor_at_def split: option.splits)

text \<open>The rows fetched for a query: \<open>xs\<close> is the part of the table the cursor leaves, in query order.\<close>

lemma fetch_rows:
  assumes q: "q_filter q = flt" "q_filter_hash q = hash"
    and cur: "case q_cursor q of None \<Rightarrow> xs = rows \<and> ensure_tiebreaker (q_order q) (fst tb) (snd tb) = ob
      | Some c \<Rightarrow> \<exists>i < length rows. c = cursor_at (rows ! i) (cur_d c) \<and> cur_d c \<in> {''fwd'', ''bwd''} \<and>
          xs = (if cur_d c = ''bwd'' then rev (take i rows) else drop (Suc i) rows)"
  shows "effective_order q tb = Ok ob \<and> check_filter_hash q = Ok () \<and>
    (\<exists>s s'. apply_filter te q select = Ok s \<and> apply_cursor te q ob s = Ok s' \<and>
      (\<exists>s''. apply_order (te_ff te) (te_map_field te) (if is_backward q then reverse_directions ob else ob) s' = Ok s'' \<and>
         (\<forall>n. db (sel_set_limit n s'') = Ok (take n xs))))"
proof -
  obtain s where s: "apply_filter te q select = Ok s" "sel_where s = sel_where select @ conds" "sel_order s = []" "sel_offset s = 0"
    using filter_applies[OF q(1)] by blast
  have asym: "\<And>a b. before a b \<Longrightarrow> \<not> before b a" by (rule row_before_asym[OF lt_asym])
  have rk: "k \<in> set (reverse_directions ob) \<Longrightarrow> from_name (te_ff te) (ok_field k) \<noteq> None" for k
    using order_known by (auto simp: reverse_directions_def)
  show ?thesis
  proof (cases "q_cursor q")
    case None
    let ?s = "s\<lparr>sel_order := cols\<rparr>"
    have "db (sel_set_limit n ?s) = Ok (take n rows)" for n
      by (rule db_answer) (use rows_complete rows_sorted s(2,4) in \<open>auto simp: sel_set_limit_def\<close>)
    with None cur s show ?thesis
      by (auto simp: effective_order_def check_filter_hash_def apply_cursor_def is_backward_def
          apply_order_eq[of ob, OF order_known] intro!: exI[of _ ?s])
  next
    case (Some c)
    with cur obtain i where i: "i < length rows" "c = cursor_at (rows ! i) (cur_d c)" "cur_d c \<in> {''fwd'', ''bwd''}"
      "xs = (if cur_d c = ''bwd'' then rev (take i rows) else drop (Suc i) rows)" by auto
    let ?bwd = "cur_d c = ''bwd''"
    have mem: "rows ! i \<in> set rows" using i(1) by simp
    from cursor_predicate_at[OF mem, of "cur_d c"] i(2) obtain cnd where
      cnd: "build_cursor_predicate (te_vc te) (te_ff te) (te_map_field te) c ob = Ok cnd"
        "\<And>r. r \<in> set rows \<Longrightarrow> eval_condition sem (col r) cnd = Some True \<longleftrightarrow>
           (if ?bwd then before r (rows ! i) else before (rows ! i) r)" by metis
    let ?qo = "if ?bwd then map (\<lambda>(c, d). (c, reverse d)) cols else cols"
    let ?s = "sel_filter cnd s\<lparr>sel_order := ?qo\<rparr>"
    have acc: "effective_order q tb = Ok ob" "check_filter_hash q = Ok ()" "is_backward q \<longleftrightarrow> ?bwd"
      using cursor_accepted[of q "rows ! i" "cur_d c"] Some i(2) q(2) by auto
    have f: "filter (\<lambda>r. eval_condition sem (col r) cnd = Some True) rows =
        (if ?bwd then take i rows else drop (Suc i) rows)"
    proof -
      have "filter (\<lambda>r. eval_condition sem (col r) cnd = Some True) rows =
          filter (\<lambda>r. if ?bwd then before r (rows ! i) else before (rows ! i) r) rows"
        using cnd(2) by (intro filter_cong) auto
      then show ?thesis using filter_after[OF asym rows_sorted i(1)] by simp
    qed
    have m: "mset xs = mset (filter (\<lambda>r. row_selected sem (col r) (sel_where (sel_set_limit n ?s))) table)" for n
      using rows_selected_and[of cnd] i(4) s(2) f by (simp add: sel_set_limit_def sel_filter_def)
    have so: "sorted_wrt (\<lambda>r r'. row_before sem (sel_order (sel_set_limit n ?s)) (col r) (col r')) xs" for n
      using rows_sorted i(4)
      by (auto simp: sel_set_limit_def row_before_rev sorted_wrt_rev sorted_wrt_take sorted_wrt_drop)
    have d: "db (sel_set_limit n ?s) = Ok (take n xs)" for n
      by (rule db_answer[OF m so]) (simp_all add: sel_set_limit_def sel_filter_def s(4))
    have "sel_order (sel_filter cnd s) = []" using s(3) by (simp add: sel_filter_def)
    then have "apply_order (te_ff te) (te_map_field te) (if is_backward q then reverse_directions ob else ob)
        (sel_filter cnd s) = Ok ?s"
      using apply_order_eq[of ob "te_ff te" "te_map_field te", OF order_known]
        apply_order_eq[of "reverse_directions ob" "te_ff te" "te_map_field te", OF rk] acc(3) by (simp add: order_columns_rev)
    with Some acc s(1) cnd(1) d show ?thesis by (auto simp: apply_cursor_def)
  qed
qed

definition points_to :: "string option \<Rightarrow> 'row \<Rightarrow> string \<Rightarrow> bool" where
  "points_to tok r d \<longleftrightarrow> (\<exists>s. tok = Some s \<and> cursor_decode (te_cc te) s = Ok (cursor_at r d))"

definition edge_token :: "string option \<Rightarrow> 'row list \<Rightarrow> bool \<Rightarrow> string \<Rightarrow> bool" where
  "edge_token tok rs l d \<longleftrightarrow> (if rs = [] then tok = None else points_to tok (if l then last rs else hd rs) d)"

lemma cursor_for_rows:
  assumes "set rs \<subseteq> set rows" "d \<in> {''fwd'', ''bwd''}"
  shows "\<exists>tok. build_cursor_from_rows (te_cc te) (te_vc te) (te_ff te) (te_extract te) rs ob hash d l = Ok tok \<and>
    edge_token tok rs l d"
proof (cases "rs = []")
  case False
  then have m: "(if l then last rs else hd rs) \<in> set rows" "edge_row l rs = Some (if l then last rs else hd rs)"
    using assms(1) by (auto simp: edge_row_def)
  obtain tok where "build_cursor_from_rows (te_cc te) (te_vc te) (te_ff te) (te_extract te) rs ob hash d l = Ok (Some tok)"
    "cursor_decode (te_cc te) tok = Ok (cursor_at (if l then last rs else hd rs) d)"
    by (rule cursor_row_token[OF m assms(2)])
  with False show ?thesis by (auto simp: points_to_def edge_token_def)
qed (simp add: build_cursor_from_rows_def edge_row_def edge_token_def)

lemma trim_fetched:
  "trim_rows bwd limit (take (Suc limit) xs) = (if bwd then rev (take limit xs) else take limit xs)"
proof (cases "limit < length xs")
  case True
  then have "butlast (take (Suc limit) xs) = take limit xs" "length (take (Suc limit) xs) > limit"
    using butlast_take[of "Suc limit" xs] by auto
  then show ?thesis by (simp add: trim_rows_def Let_def min_def)
qed (simp add: trim_rows_def)

lemma page_result:
  assumes q: "q_filter q = flt" "q_filter_hash q = hash"
    and cur: "case q_cursor q of None \<Rightarrow> xs = rows \<and> ensure_tiebreaker (q_order q) (fst tb) (snd tb) = ob
      | Some c \<Rightarrow> \<exists>i < length rows. c = cursor_at (rows ! i) (cur_d c) \<and> cur_d c \<in> {''fwd'', ''bwd''} \<and>
          xs = (if cur_d c = ''bwd'' then rev (take i rows) else drop (Suc i) rows)"
    and lim: "limit = clamp_limit (q_limit q) cfg" "limit + 1 < 2 ^ 64"
    and P: "P = (if is_backward q then rev (take limit xs) else take limit xs)"
  obtains p where "paginate_odata te select db q tb cfg f = Ok p" "items p = map f P" "pi_limit (page_info p) = limit"
    "if is_backward q \<or> length xs > limit then edge_token (next_cursor (page_info p)) P True ''fwd''
     else next_cursor (page_info p) = None"
    "if (if is_backward q then length xs > limit else q_cursor q \<noteq> None)
     then edge_token (prev_cursor (page_info p)) P False ''bwd'' else prev_cursor (page_info p) = None"
proof -
  obtain s s' s'' where e: "effective_order q tb = Ok ob" "check_filter_hash q = Ok ()"
    "apply_filter te q select = Ok s" "apply_cursor te q ob s = Ok s'"
    "apply_order (te_ff te) (te_map_field te) (if is_backward q then reverse_directions ob else ob) s' = Ok s''"
    "\<And>n. db (sel_set_limit n s'') = Ok (take n xs)"
    using fetch_rows[OF q cur] by blast
  have n: "u64_succ limit = Suc limit" using lim(2) by (simp add: u64_succ_def)
  have "set xs \<subseteq> set rows" using cur by (auto split: option.splits dest: in_set_takeD in_set_dropD)
  then have sub: "set P \<subseteq> set rows" by (auto simp: P dest: in_set_takeD)
  obtain t1 where
    t1: "build_cursor_from_rows (te_cc te) (te_vc te) (te_ff te) (te_extract te) P ob hash ''fwd'' True = Ok t1"
      "edge_token t1 P True ''fwd''" using cursor_for_rows[OF sub] by blast
  obtain t2 where
    t2: "build_cursor_from_rows (te_cc te) (te_vc te) (te_ff te) (te_extract te) P ob hash ''bwd'' False = Ok t2"
      "edge_token t2 P False ''bwd''" using cursor_for_rows[OF sub] by blast
  have h: "limit < length (take (Suc limit) xs) \<longleftrightarrow> limit < length xs" by auto
  have tr: "trim_rows (is_backward q) limit (take (Suc limit) xs) = P" by (simp add: trim_fetched P)
  have "paginate_odata te select db q tb cfg f = Ok \<lparr>items = map f P, page_info =
      \<lparr>next_cursor = (if is_backward q \<or> length xs > limit then t1 else None),
       prev_cursor = (if (if is_backward q then length xs > limit else q_cursor q \<noteq> None) then t2 else None),
       pi_limit = limit\<rparr>\<rparr>"
    unfolding paginate_odata_def lim(1)[symmetric] Let_def n
    using e t1(1) t2(1) q(2) tr by (cases "is_backward q"; cases "q_cursor q"; cases "length xs > limit"; simp add: h)
  then show ?thesis by (rule that) (use t1(2) t2(2) in auto)
qed

lemma last_take: "0 < n \<Longrightarrow> n \<le> length xs \<Longrightarrow> last (take n xs) = xs ! (n - 1)"
  by (cases n) (auto simp: take_Suc_conv_app_nth)

lemma first_page:
  assumes "q_filter q = flt" "q_filter_hash q = hash" "q_cursor q = None"
    "ensure_tiebreaker (q_order q) (fst tb) (snd tb) = ob"
    and lim: "limit = clamp_limit (q_limit q) cfg" "limit + 1 < 2 ^ 64" "0 < limit"
  obtains p where "paginate_odata te select db q tb cfg f = Ok p" "items p = map f (take limit rows)"
    "prev_cursor (page_info p) = None"
    "if length rows > limit then points_to (next_cursor (page_info p)) (rows ! (limit - 1)) ''fwd''
     else next_cursor (page_info p) = None"
proof -
  have b: "\<not> is_backward q" using assms(3) by (simp add: is_backward_def)
  obtain p where p: "paginate_odata te select db q tb cfg f = Ok p" "items p = map f (take limit rows)"
    "if is_backward q \<or> length rows > limit then edge_token (next_cursor (page_info p)) (take limit rows) True ''fwd''
     else next_cursor (page_info p) = None"
    "if (if is_backward q then length rows > limit else q_cursor q \<noteq> None)
     then edge_token (prev_cursor (page_info p)) (take limit rows) False ''bwd'' else prev_cursor (page_info p) = None"
    by (rule page_result[OF assms(1,2) _ lim(1,2), of rows tb "take limit rows" f]) (use assms(3,4) b in auto)
  show ?thesis
  proof (rule that[OF p(1,2)])
    show "prev_cursor (page_info p) = None" using p(4) b assms(3) by simp
    show "if length rows > limit then points_to (next_cursor (page_info p)) (rows ! (limit - 1)) ''fwd''
        else next_cursor (page_info p) = None"
      using p(3) b lim(3) last_take[of limit rows] by (auto simp: edge_token_def split: if_splits)
  qed
qed

lemma next_page:
  assumes "q_filter q = flt" "q_filter_hash q = hash" "q_cursor q = Some (cursor_at (rows ! i) ''fwd'')" "i < length rows"
    and lim: "limit = clamp_limit (q_limit q) cfg" "limit + 1 < 2 ^ 64" "0 < limit"
  obtains p where "paginate_odata te select db q tb cfg f = Ok p" "items p = map f (take limit (drop (Suc i) rows))"
    "if Suc i + limit < length rows then points_to (next_cursor (page_info p)) (rows ! (i + limit)) ''fwd''
     else next_cursor (page_info p) = None"
    "if Suc i < length rows then points_to (prev_cursor (page_info p)) (rows ! Suc i) ''bwd''
     else prev_cursor (page_info p) = None"
proof -
  let ?xs = "drop (Suc i) rows"
  have b: "\<not> is_backward q" using assms(3) by (simp add: is_backward_def cursor_at_def)
  obtain p where p: "paginate_odata te select db q tb cfg f = Ok p" "items p = map f (take limit ?xs)"
    "if is_backward q \<or> length ?xs > limit then edge_token (next_cursor (page_info p)) (take limit ?xs) True ''fwd''
     else next_cursor (page_info p) = None"
    "if (if is_backward q then length ?xs > limit else q_cursor q \<noteq> None)
     then edge_token (prev_cursor (page_info p)) (take limit ?xs) False ''bwd'' else prev_cursor (page_info p) = None"
    by (rule page_result[OF assms(1,2) _ lim(1,2), of ?xs tb "take limit ?xs" f])
      (use assms(3,4) b in \<open>auto simp: cursor_at_def\<close>)
  show ?thesis
  proof (rule that[OF p(1,2)])
    have "limit \<le> length ?xs \<Longrightarrow> last (take limit ?xs) = rows ! (i + limit)"
      using last_take[OF lim(3), of ?xs] lim(3) assms(4) by simp
    then show "if Suc i + limit < length rows then points_to (next_cursor (page_info p)) (rows ! (i + limit)) ''fwd''
        else next_cursor (page_info p) = None"
      using p(3) b lim(3) by (auto simp: edge_token_def split: if_splits)
    show "if Suc i < length rows then points_to (prev_cursor (page_info p)) (rows ! Suc i) ''bwd''
        else prev_cursor (page_info p) = None"
      using p(4) b lim(3) assms(3) by (auto simp: edge_token_def hd_drop_conv_nth split: if_splits)
  qed
qed

lemma previous_page:
  assumes "q_filter q = flt" "q_filter_hash q = hash" "q_cursor q = Some (cursor_at (rows ! i) ''bwd'')" "i < length rows"
    and lim: "limit = clamp_limit (q_limit q) cfg" "limit + 1 < 2 ^ 64" "0 < limit"
  obtains p where "paginate_odata te select db q tb cfg f = Ok p" "items p = map f (drop (i - limit) (take i rows))"
    "if 0 < i then points_to (next_cursor (page_info p)) (rows ! (i - 1)) ''fwd''
     else next_cursor (page_info p) = None"
    "if i > limit then points_to (prev_cursor (page_info p)) (rows ! (i - limit)) ''bwd''
     else prev_cursor (page_info p) = None"
proof -
  let ?xs = "rev (take i rows)" and ?P = "drop (i - limit) (take i rows)"
  have b: "is_backward q" using assms(3) by (simp add: is_backward_def cursor_at_def)
  have P: "?P = rev (take limit ?xs)" using assms(4) by (simp add: take_rev min_def)
  obtain p where p: "paginate_odata te select db q tb cfg f = Ok p" "items p = map f ?P"
    "if is_backward q \<or> length ?xs > limit then edge_token (next_cursor (page_info p)) ?P True ''fwd''
     else next_cursor (page_info p) = None"
    "if (if is_backward q then length ?xs > limit else q_cursor q \<noteq> None)
     then edge_token (prev_cursor (page_info p)) ?P False ''bwd'' else prev_cursor (page_info p) = None"
    by (rule page_result[OF assms(1,2) _ lim(1,2), of ?xs tb ?P f])
      (use assms(3,4) b P in \<open>auto simp: cursor_at_def\<close>)
  show ?thesis
  proof (rule that[OF p(1,2)])
    have "0 < i \<Longrightarrow> last ?P = rows ! (i - 1)"
      using lim(3) assms(4) last_take[of i rows] by (simp add: last_drop min_def)
    then show "if 0 < i then points_to (next_cursor (page_info p)) (rows ! (i - 1)) ''fwd''
        else next_cursor (page_info p) = None"
      using p(3) b lim(3) assms(4) by (auto simp: edge_token_def split: if_splits)
    show "if i > limit then points_to (prev_cursor (page_info p)) (rows ! (i - limit)) ''bwd''
        else prev_cursor (page_info p) = None"
      using p(4) b lim(3) assms(4) by (auto simp: edge_token_def hd_drop_conv_nth split: if_splits)
  qed
qed

lemma walk_from:
  assumes "q_filter q = flt" "q_filter_hash q = hash" "q_cursor q = Some (cursor_at (rows ! i) ''fwd'')" "i < length rows"
    and lim: "limit = clamp_limit (q_limit q) cfg" "limit + 1 < 2 ^ 64" "0 < limit" and "length rows - i \<le> n"
  shows "walk_pages n (\<lambda>q. paginate_odata te select db q tb cfg f) (cursor_decode (te_cc te)) q =
    Some (Ok (map f (drop (Suc i) rows)))"
  using assms
proof (induction n arbitrary: i q)
  case (Suc n)
  obtain p where p: "paginate_odata te select db q tb cfg f = Ok p" "items p = map f (take limit (drop (Suc i) rows))"
    "if Suc i + limit < length rows then points_to (next_cursor (page_info p)) (rows ! (i + limit)) ''fwd''
     else next_cursor (page_info p) = None"
    by (rule next_page[OF Suc.prems(1-4) Suc.prems(5) Suc.prems(6,7), of tb f])
  show ?case
  proof (cases "Suc i + limit < length rows")
    case False
    with p show ?thesis by simp
  next
    case True
    let ?q = "q\<lparr>q_order := [], q_cursor := Some (cursor_at (rows ! (i + limit)) ''fwd'')\<rparr>"
    obtain tok where tok: "next_cursor (page_info p) = Some tok"
      "cursor_decode (te_cc te) tok = Ok (cursor_at (rows ! (i + limit)) ''fwd'')"
      using p(3) True by (auto simp: points_to_def)
    have "walk_pages n (\<lambda>q. paginate_odata te select db q tb cfg f) (cursor_decode (te_cc te)) ?q =
        Some (Ok (map f (drop (Suc (i + limit)) rows)))"
      using Suc.prems True by (intro Suc.IH) auto
    moreover have "take limit (drop (Suc i) rows) @ drop (Suc (i + limit)) rows = drop (Suc i) rows"
      by (metis add.commute add_Suc append_take_drop_id drop_drop)
    ultimately show ?thesis using p(1,2) tok by (simp flip: map_append)
  qed
qed simp

lemma walk_all:
  assumes "q_filter q = flt" "q_filter_hash q = hash" "q_cursor q = None"
    "ensure_tiebreaker (q_order q) (fst tb) (snd tb) = ob"
    and lim: "limit = clamp_limit (q_limit q) cfg" "limit + 1 < 2 ^ 64" "0 < limit" and "length rows < n"
  shows "walk_pages n (\<lambda>q. paginate_odata te select db q tb cfg f) (cursor_decode (te_cc te)) q = Some (Ok (map f rows))"
proof -
  obtain m where n: "n = Suc m" using assms(8) by (cases n) auto
  obtain p where p: "paginate_odata te select db q tb cfg f = Ok p" "items p = map f (take limit rows)"
    "if length rows > limit then points_to (next_cursor (page_info p)) (rows ! (limit - 1)) ''fwd''
     else next_cursor (page_info p) = None"
    by (rule first_page[OF assms(1-4) lim, of f])
  show ?thesis
  proof (cases "length rows > limit")
    case False
    with p n show ?thesis by simp
  next
    case True
    let ?q = "q\<lparr>q_order := [], q_cursor := Some (cursor_at (rows ! (limit - 1)) ''fwd'')\<rparr>"
    obtain tok where tok: "next_cursor (page_info p) = Some tok"
      "cursor_decode (te_cc te) tok = Ok (cursor_at (rows ! (limit - 1)) ''fwd'')"
      using p(3) True by (auto simp: points_to_def)
    have "walk_pages m (\<lambda>q. paginate_odata te select db q tb cfg f) (cursor_decode (te_cc te)) ?q =
        Some (Ok (map f (drop (Suc (limit - 1)) rows)))"
      using assms True n by (intro walk_from) auto
    then show ?thesis using p(1,2) tok n lim(3) by (simp flip: map_append)
  qed
qed

lemma page_at:
  assumes "q_filter q = flt" and "q_filter_hash q = hash" and "i < length rows"
    and "build_cursor_from_model (te_vc te) (te_ff te) (te_extract te) (rows ! i) ob hash d = Ok c"
    and "q_cursor q = Some c" and "d \<in> {''fwd'', ''bwd''}"
    and "limit = clamp_limit (q_limit q) cfg" and "0 < limit" and "limit + 1 < 2 ^ 64"
  shows "\<exists>p. paginate_odata te select db q tb cfg f = Ok p \<and>
    items p = map f (if d = ''bwd'' then drop (i - limit) (take i rows) else take limit (drop (Suc i) rows)) \<and>
    (next_cursor (page_info p) = None \<longleftrightarrow> (if d = ''bwd'' then i = 0 else length rows \<le> Suc i + limit)) \<and>
    (prev_cursor (page_info p) = None \<longleftrightarrow> (if d = ''bwd'' then i \<le> limit else length rows \<le> Suc i))"
proof -
  have m: "rows ! i \<in> set rows" using assms(3) by simp
  have c: "c = cursor_at (rows ! i) d" using build_cursor_at[OF m, of d] assms(4) by simp
  show ?thesis
  proof (cases "d = ''bwd''")
    case True
    then have q: "q_cursor q = Some (cursor_at (rows ! i) ''bwd'')" using assms(5) c by simp
    obtain p where "paginate_odata te select db q tb cfg f = Ok p" "items p = map f (drop (i - limit) (take i rows))"
      "if 0 < i then points_to (next_cursor (page_info p)) (rows ! (i - 1)) ''fwd''
       else next_cursor (page_info p) = None"
      "if i > limit then points_to (prev_cursor (page_info p)) (rows ! (i - limit)) ''bwd''
       else prev_cursor (page_info p) = None"
      by (rule previous_page[OF assms(1,2) q assms(3,7,9,8), of tb f])
    with True show ?thesis by (intro exI[of _ p]) (auto simp: points_to_def split: if_splits)
  next
    case False
    then have q: "q_cursor q = Some (cursor_at (rows ! i) ''fwd'')" using assms(5,6) c by simp
    obtain p where "paginate_odata te select db q tb cfg f = Ok p" "items p = map f (take limit (drop (Suc i) rows))"
      "if Suc i + limit < length rows then points_to (next_cursor (page_info p)) (rows ! (i + limit)) ''fwd''
       else next_cursor (page_info p) = None"
      "if Suc i < length rows then points_to (prev_cursor (page_info p)) (rows ! Suc i) ''bwd''
       else prev_cursor (page_info p) = None"
      by (rule next_page[OF assms(1,2) q assms(3,7,9,8), of tb f])
    with False show ?thesis by (intro exI[of _ p]) (auto simp: points_to_def split: if_splits)
  qed
qed

end

lemma no_mismatch:
  "effective_order q tb \<noteq> Err FilterMismatch" "apply_filter te q s \<noteq> Err FilterMismatch"
  "apply_cursor te q ob s \<noteq> Err FilterMismatch" "apply_order ff mf ob s \<noteq> Err FilterMismatch"
  "map_err Db r \<noteq> Err FilterMismatch"
  "build_cursor_from_rows cc vc ff ex rs ob h d l \<noteq> Err FilterMismatch"
  by (auto simp: effective_order_def apply_filter_def apply_cursor_def apply_order_def build_cursor_predicate_def
      build_cursor_from_rows_def build_cursor_from_model_def order_field_def res_simps
      split: option.splits dest!: collect_Err_in)

section \<open>Properties\<close>

text \<open>C2. Following the next cursors of \<open>paginate_odata\<close> from the first page visits every row of the
  filtered table exactly once and in the effective order, and ends: with more fuel than rows the walk
  returns the whole table, for every limit that fits a \<open>u64\<close>.\<close>

theorem pagination_visits_every_row_once:
  assumes "paged_table te select db sem col table flt ob conds rows"
    and "q_filter q = flt" and "q_filter_hash q = hash" and "q_cursor q = None"
    and "ensure_tiebreaker (q_order q) (fst tb) (snd tb) = ob"
    and "0 < lc_max cfg" and "lc_max cfg < 2 ^ 64 - 1" and "length rows < n"
  shows "walk_pages n (\<lambda>q. paginate_odata te select db q tb cfg f) (cursor_decode (te_cc te)) q = Some (Ok (map f rows))"
proof -
  have "clamp_limit (q_limit q) cfg + 1 < 2 ^ 64" "0 < clamp_limit (q_limit q) cfg"
    using assms(6,7) by (auto simp: clamp_limit_def Let_def split: option.splits)
  then show ?thesis using paged_table.walk_all[OF assms(1-5) refl _ _ assms(8)] by blast
qed

text \<open>C18. A page requested with the cursor of the row at position \<open>i\<close>: forward it holds exactly the next
  rows, backward exactly the rows just before, in display order.\<close>

theorem page_at_cursor:
  assumes "paged_table te select db sem col table flt ob conds rows"
    and "q_filter q = flt" and "q_filter_hash q = hash" and "i < length rows"
    and "build_cursor_from_model (te_vc te) (te_ff te) (te_extract te) (rows ! i) ob hash d = Ok c"
    and "q_cursor q = Some c" and "d \<in> {''fwd'', ''bwd''}"
    and "limit = clamp_limit (q_limit q) cfg" and "0 < limit" and "limit + 1 < 2 ^ 64"
  shows "\<exists>p. paginate_odata te select db q tb cfg f = Ok p \<and>
    items p = map f (if d = ''bwd'' then drop (i - limit) (take i rows) else take limit (drop (Suc i) rows)) \<and>
    (next_cursor (page_info p) = None \<longleftrightarrow> (if d = ''bwd'' then i = 0 else length rows \<le> Suc i + limit)) \<and>
    (prev_cursor (page_info p) = None \<longleftrightarrow> (if d = ''bwd'' then i \<le> limit else length rows \<le> Suc i))"
  by (rule paged_table.page_at[OF assms])

text \<open>\<open>paginate_odata\<close> reports a filter mismatch exactly when the cursor's order is readable and the
  query and the cursor both carry a filter hash and the two differ. In particular a cursor made for a
  filtered listing is accepted by a query without a filter, and the other way round.\<close>

theorem filter_mismatch_iff:
  "paginate_odata te select db q tb cfg f = Err FilterMismatch \<longleftrightarrow>
     (\<exists>c h h'. q_cursor q = Some c \<and> is_ok (from_signed_tokens (cur_s c)) \<and>
        q_filter_hash q = Some h \<and> cur_f c = Some h' \<and> h \<noteq> h')"
proof -
  have "paginate_odata te select db q tb cfg f = Err FilterMismatch \<longleftrightarrow>
      (\<exists>ob. effective_order q tb = Ok ob \<and> check_filter_hash q = Err FilterMismatch)"
  proof (cases "effective_order q tb")
    case (Ok ob)
    show ?thesis
    proof (cases "check_filter_hash q")
      case (Ok u)
      have neq: "and_then r g \<noteq> Err e" if "r \<noteq> Err e" "\<And>x. g x \<noteq> Err e" for r :: "('x, odata_error) result" and g :: "'x \<Rightarrow> ('y, odata_error) result" and e
        using that by (cases r) auto
      have "paginate_odata te select db q tb cfg f \<noteq> Err FilterMismatch"
        unfolding paginate_odata_def Let_def \<open>effective_order q tb = Ok ob\<close> Ok and_then.simps
        by (intro neq) (auto simp: no_mismatch split: if_splits)
      with Ok show ?thesis by simp
    qed (use Ok in \<open>simp add: paginate_odata_def Let_def\<close>)
  qed (use no_mismatch(1)[of q tb] in \<open>auto simp: paginate_odata_def Let_def\<close>)
  also have "\<dots> \<longleftrightarrow> (\<exists>c h h'. q_cursor q = Some c \<and> is_ok (from_signed_tokens (cur_s c)) \<and>
        q_filter_hash q = Some h \<and> cur_f c = Some h' \<and> h \<noteq> h')"
    by (auto simp: effective_order_def check_filter_hash_def is_ok_iff split: option.splits if_splits)
  finally show ?thesis .
qed

text \<open>The limit in force is at least one and at most the maximum, is the requested one when that is
  in range, and \<open>limit + 1\<close> does not wrap below the largest \<open>u64\<close>.\<close>

theorem clamp_limit_bounds:
  assumes "0 < lc_max cfg" and "lc_max cfg < 2 ^ 64 - 1"
  shows "1 \<le> clamp_limit req cfg \<and> clamp_limit req cfg \<le> lc_max cfg \<and>
    u64_succ (clamp_limit req cfg) = clamp_limit req cfg + 1 \<and>
    (\<forall>n. req = Some n \<longrightarrow> 1 \<le> n \<longrightarrow> n \<le> lc_max cfg \<longrightarrow> clamp_limit req cfg = n)"
  using assms by (auto simp: clamp_limit_def Let_def u64_succ_def split: option.splits)

text \<open>A field map built with \<open>insert\<close>, which stores no cursor extractor, cannot page: as soon as the
  table has more rows than the limit, \<open>paginate_with_odata\<close> fails on the first order field.\<close>

theorem field_map_without_extractor_fails:
  assumes "q_cursor q = None" and "q_filter q = None"
    and "ensure_tiebreaker (q_order q) (fst tb) (snd tb) = k # ks"
    and "fm_get m (ok_field k) = Some fld" and "fld_extract fld = None"
    and "\<forall>k' \<in> set ks. fm_get m (ok_field k') \<noteq> None"
    and "\<And>s. \<exists>fetched. db s = Ok fetched \<and> length fetched > clamp_limit (q_limit q) cfg"
    and "0 < clamp_limit (q_limit q) cfg"
  shows "paginate_with_odata cc vc no m select db q tb cfg f = Err (InvalidOrderByField (ok_field k))"
proof -
  let ?l = "clamp_limit (q_limit q) cfg"
  have "collect (\<lambda>k. and_then (resolve_field m (ok_field k)) (\<lambda>f. Ok (fld_col f, ok_dir k))) (k # ks) =
      Ok (map (\<lambda>k. (fld_col (the (fm_get m (ok_field k))), ok_dir k)) (k # ks))"
    by (rule collect_map_Ok) (use assms(4,6) in \<open>auto simp: resolve_field_def\<close>)
  then obtain s where s: "apply_odata_order_page m (k # ks) select = Ok s" by (simp add: apply_odata_order_page_def)
  obtain fetched where d: "db (sel_set_limit (u64_succ ?l) s) = Ok fetched" "length fetched > ?l" using assms(7) by blast
  then have ne: "take ?l fetched \<noteq> []" using assms(8) by auto
  have "build_cursor cc (take ?l fetched) (k # ks) m tb q True ''fwd'' = Err (InvalidOrderByField (ok_field k))"
    using ne assms(4,5) by (simp add: build_cursor_def edge_row_def build_cursor_for_model_def encode_model_key_def)
  with s d assms(1-3) show ?thesis
    by (simp add: paginate_with_odata_def effective_order_def check_filter_hash_def is_backward_def trim_rows_def Let_def)
qed

section \<open>A database that answers by the SQL meaning\<close>

fun place :: "('a \<Rightarrow> 'a \<Rightarrow> bool) \<Rightarrow> 'a \<Rightarrow> 'a list \<Rightarrow> 'a list" where
  "place lt x [] = [x]"
| "place lt x (y # ys) = (if lt y x then y # place lt x ys else x # y # ys)"

definition isort :: "('a \<Rightarrow> 'a \<Rightarrow> bool) \<Rightarrow> 'a list \<Rightarrow> 'a list" where
  "isort lt xs = foldr (place lt) xs []"

lemma mset_place [simp]: "mset (place lt x ys) = add_mset x (mset ys)"
  by (induction ys) auto

lemma set_place [simp]: "set (place lt x ys) = insert x (set ys)"
  by (induction ys) auto

lemma mset_isort [simp]: "mset (isort lt xs) = mset xs"
  by (induction xs) (auto simp: isort_def)

lemma sorted_isort:
  assumes "\<And>a b. lt a b \<Longrightarrow> \<not> lt b a" "\<And>a b c. \<not> lt b a \<Longrightarrow> \<not> lt c b \<Longrightarrow> \<not> lt c a"
  shows "sorted_wrt (\<lambda>a b. \<not> lt b a) (isort lt xs)"
proof -
  have p: "sorted_wrt (\<lambda>a b. \<not> lt b a) ys \<Longrightarrow> sorted_wrt (\<lambda>a b. \<not> lt b a) (place lt x ys)" for x ys
  proof (induction ys)
    case (Cons y ys)
    show ?case
    proof (cases "lt y x")
      case True
      with Cons assms(1)[OF True] show ?thesis by simp
    next
      case False
      then have "\<not> lt z x" if "z \<in> set ys" for z using Cons.prems that assms(2)[OF False] by simp
      with Cons.prems False show ?thesis by simp
    qed
  qed simp
  show ?thesis by (induction xs) (auto simp: isort_def intro: p)
qed

definition run_select ::
    "sql_sem \<Rightarrow> ('row \<Rightarrow> 'c \<Rightarrow> sea_value) \<Rightarrow> 'row list \<Rightarrow> 'c select \<Rightarrow> 'row list" where
  "run_select sem col table s =
     (let full = isort (\<lambda>a b. row_before sem (sel_order s) (col a) (col b))
            (filter (\<lambda>r. row_selected sem (col r) (sel_where s)) table)
      in case sel_limit s of None \<Rightarrow> drop (sel_offset s) full | Some n \<Rightarrow> take n (drop (sel_offset s) full))"

fun int_key :: "sea_value \<Rightarrow> int" where
  "int_key (SBigInt (Some i)) = i"
| "int_key _ = 0"

text \<open>A semantics that orders integers and takes all other values as equal.\<close>

definition int_sem :: sql_sem where
  "int_sem = demo_sem\<lparr>sv_lt := (\<lambda>a b. int_key a < int_key b)\<rparr>"

lemma int_sem_lt [simp]: "sv_lt int_sem a b \<longleftrightarrow> int_key a < int_key b"
  by (simp add: int_sem_def)

text \<open>Semantics that order values by a key have sorted answers.\<close>

lemma keyed_before_negtrans:
  fixes key :: "sea_value \<Rightarrow> 'k::linorder"
  assumes "\<And>a b. sv_lt sem a b \<longleftrightarrow> key a < key b"
  shows "\<not> row_before sem os b a \<Longrightarrow> \<not> row_before sem os c b \<Longrightarrow> \<not> row_before sem os c a"
proof (induction os)
  case (Cons p os)
  then show ?case by (cases p; cases "snd p") (auto simp: Let_def assms)
qed simp

lemma run_select_answers:
  fixes key :: "sea_value \<Rightarrow> 'k::linorder"
  assumes "\<And>a b. sv_lt sem a b \<longleftrightarrow> key a < key b"
  shows "sql_answer sem col table s (run_select sem col table s)"
proof -
  let ?lt = "\<lambda>a b. row_before sem (sel_order s) (col a) (col b)"
  let ?full = "isort ?lt (filter (\<lambda>r. row_selected sem (col r) (sel_where s)) table)"
  have "sorted_wrt (\<lambda>a b. \<not> ?lt b a) ?full"
  proof (rule sorted_isort)
    show "\<And>a b. ?lt a b \<Longrightarrow> \<not> ?lt b a" by (rule row_before_asym) (auto simp: assms)
    show "\<And>a b c. \<not> ?lt b a \<Longrightarrow> \<not> ?lt c b \<Longrightarrow> \<not> ?lt c a" by (rule keyed_before_negtrans[OF assms])
  qed
  then show ?thesis unfolding sql_answer_def run_select_def Let_def by (intro exI[of _ ?full]) simp
qed

definition user_col :: "int \<times> string \<Rightarrow> string \<Rightarrow> sea_value" where
  "user_col r c = (if c = ''id'' then SBigInt (Some (fst r)) else SString (Some (snd r)))"

definition users :: "(int \<times> string) list" where
  "users = [(3, ''c''), (1, ''a''), (2, ''b'')]"

definition users_db :: "string select \<Rightarrow> ((int \<times> string) list, string) result" where
  "users_db s = Ok (run_select int_sem user_col users s)"

definition users_env :: "(string, string, int \<times> string) typed_env" where
  "users_env = \<lparr>te_cc = demo_codec, te_vc = demo_values, te_no = demo_numbers, te_dbg = (\<lambda>_. []), te_ff = demo_ff,
     te_map_field = id, te_extract = user_col\<rparr>"

definition all_rows :: "string select" where
  "all_rows = \<lparr>sel_where = [], sel_order = [], sel_limit = None, sel_offset = 0\<rparr>"

definition by_id :: order_by where
  "by_id = [\<lparr>ok_field = ''id'', ok_dir = Asc\<rparr>]"

lemma users_columns: "order_columns (te_ff users_env) (te_map_field users_env) by_id = [(''id'', Asc)]"
  by code_simp

lemma id_field: "from_name demo_ff ''id'' = Some ''id''" "ff_kind demo_ff ''id'' = KI64"
  by code_simp+

interpretation users_table: paged_table users_env all_rows users_db int_sem user_col users None None by_id "[]"
    "[(1, ''a''), (2, ''b''), (3, ''c'')]"
proof
  show "wf_order by_id" by code_simp
  show "from_name (te_ff users_env) (ok_field k) \<noteq> None" if "k \<in> set by_id" for k
    using that id_field by (simp add: by_id_def users_env_def)
  show "sorted_wrt (\<lambda>r r'. row_before int_sem (order_columns (te_ff users_env) (te_map_field users_env) by_id)
      (user_col r) (user_col r')) [(1, ''a''), (2, ''b''), (3, ''c'')]"
    by (simp add: users_columns user_col_def)
  show "te_extract users_env r f = user_col r (te_map_field users_env f) \<and>
      value_in_range (te_extract users_env r f) \<and>
      is_ok (encode_cursor_value (te_vc users_env) (te_extract users_env r f) (ff_kind (te_ff users_env) f))"
    if "r \<in> set [(1, ''a''), (2, ''b''), (3, ''c'')]" "k \<in> set by_id"
      "from_name (te_ff users_env) (ok_field k) = Some f" for r k f
    using that id_field
    by (auto simp: by_id_def users_env_def user_col_def encode_cursor_value_def in_i64_def i64_min_def i64_max_def)
qed (auto simp: all_rows_def users_def users_db_def run_select_answers[OF int_sem_lt] row_selected_def users_env_def
    demo_values_ok demo_codec_json demo_codec_b64)

section \<open>Witnesses\<close>

lemma by_id_tiebreaker: "ensure_tiebreaker (q_order new_query) (fst (''id'', Asc)) (snd (''id'', Asc)) = by_id"
  by (simp add: ensure_tiebreaker_def new_query_def by_id_def)

theorem pagination_visits_every_row_once_witness:
  "walk_pages 4 (\<lambda>q. paginate_odata users_env all_rows users_db q (''id'', Asc) \<lparr>lc_default = 2, lc_max = 10\<rparr> snd)
     (cursor_decode (te_cc users_env)) new_query = Some (Ok [''a'', ''b'', ''c''])"
  using pagination_visits_every_row_once[OF users_table.paged_table_axioms, of new_query None "(''id'', Asc)"
      "\<lparr>lc_default = 2, lc_max = 10\<rparr>" 4 snd] by_id_tiebreaker
  by (simp add: new_query_def)

theorem page_at_cursor_witness:
  "\<exists>p. paginate_odata users_env all_rows users_db
      (new_query\<lparr>q_cursor := Some \<lparr>cur_k = [''2''], cur_o = Asc, cur_s = ''+id'', cur_f = None, cur_d = ''bwd''\<rparr>\<rparr>)
      (''id'', Asc) \<lparr>lc_default = 2, lc_max = 10\<rparr> snd = Ok p \<and> items p = [''a'']"
proof -
  let ?c = "\<lparr>cur_k = [''2''], cur_o = Asc, cur_s = ''+id'', cur_f = None, cur_d = ''bwd''\<rparr>"
  have b: "build_cursor_from_model (te_vc users_env) (te_ff users_env) (te_extract users_env)
      ([(1, ''a''), (2, ''b''), (3, ''c'')] ! 1) by_id None ''bwd'' = Ok ?c" by code_simp
  from page_at_cursor[OF users_table.paged_table_axioms _ _ _ b,
      of "new_query\<lparr>q_cursor := Some ?c\<rparr>" 2 "\<lparr>lc_default = 2, lc_max = 10\<rparr>" "(''id'', Asc)" snd]
  show ?thesis by (auto simp: new_query_def clamp_limit_def)
qed

theorem clamp_limit_bounds_witness:
  "clamp_limit (Some 7) \<lparr>lc_default = 25, lc_max = 1000\<rparr> = 7"
  using clamp_limit_bounds[of "\<lparr>lc_default = 25, lc_max = 1000\<rparr>" "Some 7"] by simp

definition plain_map :: "(int \<times> string, string) field_map" where
  "plain_map = fm_insert ''id'' ''id'' KI64 []"

theorem field_map_without_extractor_fails_witness:
  "paginate_with_odata demo_codec demo_values demo_numbers plain_map all_rows (\<lambda>_. Ok users) new_query (''id'', Asc)
     \<lparr>lc_default = 2, lc_max = 10\<rparr> snd = Err (InvalidOrderByField ''id'')"
proof -
  have g: "fm_get plain_map ''id'' = Some \<lparr>fld_col = ''id'', fld_kind = KI64, fld_extract = None\<rparr>"
    by (simp add: plain_map_def fm_insert_def fm_get_def)
  have e: "ensure_tiebreaker (q_order new_query) (fst (''id'', Asc)) (snd (''id'', Asc)) =
      \<lparr>ok_field = ''id'', ok_dir = Asc\<rparr> # []" using by_id_tiebreaker by (simp add: by_id_def)
  from field_map_without_extractor_fails[OF _ _ e, of plain_map, simplified, OF _ _ g,
      of "\<lambda>_. Ok users" "\<lparr>lc_default = 2, lc_max = 10\<rparr>"]
  show ?thesis by (simp add: new_query_def clamp_limit_def users_def)
qed

end
