(* ===== verification/Problem.thy ===== *)
theory Problem
  imports Prelude
begin

text \<open>
  RFC 9457 problem documents: \<open>libs/modkit-errors/src/problem.rs\<close> and \<open>catalog.rs\<close>, and the
  constructors of \<open>libs/modkit/src/api/problem.rs\<close>. An \<open>http::StatusCode\<close> is its number;
  \<open>StatusCode::from_u16\<close> accepts 100 to 999.
\<close>

record validation_violation =
  vv_pointer :: string
  vv_message :: string
  vv_code :: "string option"

record problem =
  p_type_url :: string
  p_title :: string
  p_status :: nat
  p_detail :: string
  p_instance :: string
  p_code :: string
  p_trace_id :: "string option"
  p_errors :: "validation_violation list option"

definition problem_new :: "nat \<Rightarrow> string \<Rightarrow> string \<Rightarrow> problem" where
  "problem_new status title detail =
     \<lparr>p_type_url = ''about:blank'', p_title = title, p_status = status, p_detail = detail,
      p_instance = [], p_code = [], p_trace_id = None, p_errors = None\<rparr>"

definition with_type :: "string \<Rightarrow> problem \<Rightarrow> problem" where
  "with_type u p = p\<lparr>p_type_url := u\<rparr>"

definition with_instance :: "string \<Rightarrow> problem \<Rightarrow> problem" where
  "with_instance u p = p\<lparr>p_instance := u\<rparr>"

definition with_code :: "string \<Rightarrow> problem \<Rightarrow> problem" where
  "with_code c p = p\<lparr>p_code := c\<rparr>"

definition with_trace_id :: "string \<Rightarrow> problem \<Rightarrow> problem" where
  "with_trace_id i p = p\<lparr>p_trace_id := Some i\<rparr>"

definition with_errors :: "validation_violation list \<Rightarrow> problem \<Rightarrow> problem" where
  "with_errors es p = p\<lparr>p_errors := Some es\<rparr>"

record err_def =
  ed_status :: nat
  ed_title :: string
  ed_code :: string
  ed_type_url :: string

definition status_from_u16 :: "nat \<Rightarrow> nat option" where
  "status_from_u16 n = (if 100 \<le> n \<and> n < 1000 then Some n else None)"

definition as_problem :: "err_def \<Rightarrow> string \<Rightarrow> problem" where
  "as_problem d detail =
     (let status = (case status_from_u16 (ed_status d) of Some s \<Rightarrow> s | None \<Rightarrow> 500)
      in with_type (ed_type_url d) (with_code (ed_code d) (problem_new status (ed_title d) detail)))"

definition bad_request :: "string \<Rightarrow> problem" where
  "bad_request detail = problem_new 400 ''Bad Request'' detail"

definition not_found :: "string \<Rightarrow> problem" where
  "not_found detail = problem_new 404 ''Not Found'' detail"

definition conflict :: "string \<Rightarrow> problem" where
  "conflict detail = problem_new 409 ''Conflict'' detail"

definition internal_error :: "string \<Rightarrow> problem" where
  "internal_error detail = problem_new 500 ''Internal Server Error'' detail"

text \<open>\<open>HeaderValue::to_str\<close>: a value that is not visible ASCII is no text.\<close>

definition header_str :: "string \<Rightarrow> string option" where
  "header_str v = (if \<forall>c \<in> set v. let n = of_char c :: nat in n = 9 \<or> (32 \<le> n \<and> n < 127) then Some v else None)"

lemmas problem_defs = problem_new_def with_type_def with_instance_def with_code_def with_trace_id_def with_errors_def
  as_problem_def status_from_u16_def

end
