(* ===== verification/OData_Api.thy ===== *)
theory OData_Api
  imports OData_Core Problem
begin

text \<open>
  The HTTP side of OData: the two mappings of OData errors to problem documents
  (\<open>libs/modkit-odata/src/problem_mapping.rs\<close> and \<open>libs/modkit/src/api/odata/error.rs\<close>), the error
  layer of \<open>libs/modkit/src/api/error_layer.rs\<close>, and the extractor of
  \<open>libs/modkit/src/api/odata.rs\<close> that turns query parameters into an \<open>ODataQuery\<close>.

  The catalogue constants are those of \<open>libs/modkit-odata/gts/errors_odata.json\<close>; an entry without a
  \<open>type\<close> gets \<open>https://errors.example.com/\<close> and its code. The filter parser, the digest and the
  current tracing span are parameters.
\<close>

section \<open>The error catalogue\<close>

definition catalog_entry :: "nat \<Rightarrow> string \<Rightarrow> string \<Rightarrow> err_def" where
  "catalog_entry status title name =
     (let code = ''gts.hx.core.errors.err.v1~hx.odata.errors.'' @ name
      in \<lparr>ed_status = status, ed_title = title, ed_code = code,
          ed_type_url = ''https://errors.example.com/'' @ code\<rparr>)"

definition invalid_filter_v1 :: err_def where
  "invalid_filter_v1 = catalog_entry 422 ''Invalid Filter'' ''invalid_filter.v1''"

definition invalid_orderby_v1 :: err_def where
  "invalid_orderby_v1 = catalog_entry 422 ''Invalid OrderBy'' ''invalid_orderby.v1''"

definition invalid_cursor_v1 :: err_def where
  "invalid_cursor_v1 = catalog_entry 422 ''Invalid Cursor'' ''invalid_cursor.v1''"

definition internal_v1 :: err_def where
  "internal_v1 = catalog_entry 500 ''Internal OData Error'' ''internal.v1''"

section \<open>Two mappings\<close>

fun problem_from_odata_error :: "odata_error \<Rightarrow> problem" where
  "problem_from_odata_error (InvalidFilter msg) = as_problem invalid_filter_v1 (''Invalid $filter: '' @ msg)"
| "problem_from_odata_error (InvalidOrderByField f) =
     as_problem invalid_orderby_v1 (''Unsupported $orderby field: '' @ f)"
| "problem_from_odata_error OrderMismatch =
     as_problem invalid_orderby_v1 ''Order mismatch between cursor and query''"
| "problem_from_odata_error FilterMismatch =
     as_problem invalid_filter_v1 ''Filter mismatch between cursor and query''"
| "problem_from_odata_error InvalidLimit = as_problem invalid_filter_v1 ''Invalid limit parameter''"
| "problem_from_odata_error OrderWithCursor =
     as_problem invalid_cursor_v1 ''Cannot specify both $orderby and cursor parameters''"
| "problem_from_odata_error (Db _) =
     as_problem internal_v1 ''An internal error occurred while processing the OData query''"
| "problem_from_odata_error e = as_problem invalid_cursor_v1 (show_odata_error e)"

definition to_problem :: "err_def \<Rightarrow> string \<Rightarrow> string \<Rightarrow> string option \<Rightarrow> problem" where
  "to_problem code detail inst trace_id =
     (let p = with_instance inst (as_problem code detail)
      in case trace_id of Some tid \<Rightarrow> with_trace_id tid p | None \<Rightarrow> p)"

definition odata_error_to_problem ::
    "string option \<Rightarrow> odata_error \<Rightarrow> string \<Rightarrow> string option \<Rightarrow> problem" where
  "odata_error_to_problem current_trace_id err inst trace_id =
     (let tid = (case trace_id of Some t \<Rightarrow> Some t | None \<Rightarrow> current_trace_id)
      in case err of
           InvalidFilter msg \<Rightarrow> to_problem invalid_filter_v1 (''Invalid $filter: '' @ msg) inst tid
         | InvalidOrderByField f \<Rightarrow> to_problem invalid_orderby_v1 (''Unsupported $orderby field: '' @ f) inst tid
         | OrderMismatch \<Rightarrow> to_problem invalid_orderby_v1 ''Order mismatch between cursor and query'' inst tid
         | FilterMismatch \<Rightarrow> to_problem invalid_filter_v1 ''Filter mismatch between cursor and query'' inst tid
         | InvalidLimit \<Rightarrow> to_problem invalid_filter_v1 ''Invalid limit parameter'' inst tid
         | OrderWithCursor \<Rightarrow>
             to_problem invalid_cursor_v1 ''Cannot specify both $orderby and cursor parameters'' inst tid
         | Db _ \<Rightarrow>
             to_problem invalid_filter_v1 ''An internal error occurred while processing the query'' inst tid
         | e \<Rightarrow> to_problem invalid_cursor_v1 (show_odata_error e) inst tid)"

section \<open>The error layer\<close>

datatype config_error =
    ModuleNotFound string
  | InvalidModuleStructure string
  | MissingConfigSection string
  | InvalidConfig string

text \<open>The types that \<open>map_error_to_problem\<close> downcasts to, in its order.\<close>

datatype any_error = AnyOData odata_error | AnyConfig config_error | AnyAnyhow string | AnyOther

definition config_problem :: "string \<Rightarrow> string \<Rightarrow> problem" where
  "config_problem detail code =
     with_type (''https://errors.example.com/'' @ code) (with_code code (problem_new 500 ''Configuration Error'' detail))"

fun config_error_problem :: "config_error \<Rightarrow> problem" where
  "config_error_problem (ModuleNotFound m) =
     config_problem (''Module '' @ quoted m @ '' configuration not found'') ''CONFIG_MODULE_NOT_FOUND''"
| "config_error_problem (InvalidModuleStructure m) =
     config_problem (''Module '' @ quoted m @ '' has invalid configuration structure'') ''CONFIG_INVALID_STRUCTURE''"
| "config_error_problem (MissingConfigSection m) =
     config_problem (''Module '' @ quoted m @ '' is missing required config section'') ''CONFIG_MISSING_SECTION''"
| "config_error_problem (InvalidConfig m) =
     config_problem (''Module '' @ quoted m @ '' has invalid configuration'') ''CONFIG_INVALID''"

definition with_context :: "string \<Rightarrow> string option \<Rightarrow> problem \<Rightarrow> problem" where
  "with_context inst trace_id p =
     (let p = with_instance inst p in case trace_id of Some tid \<Rightarrow> with_trace_id tid p | None \<Rightarrow> p)"

definition map_error_to_problem ::
    "string option \<Rightarrow> any_error \<Rightarrow> string \<Rightarrow> string option \<Rightarrow> problem" where
  "map_error_to_problem current_trace_id err inst trace_id =
     (case err of
        AnyOData e \<Rightarrow> odata_error_to_problem current_trace_id e inst trace_id
      | AnyConfig e \<Rightarrow> with_context inst trace_id (config_error_problem e)
      | AnyAnyhow _ \<Rightarrow> with_context inst trace_id
          (with_type ''https://errors.example.com/INTERNAL_ERROR'' (with_code ''INTERNAL_ERROR''
            (problem_new 500 ''Internal Server Error'' ''An internal error occurred'')))
      | AnyOther \<Rightarrow> with_context inst trace_id
          (with_type ''https://errors.example.com/UNKNOWN_ERROR'' (with_code ''UNKNOWN_ERROR''
            (problem_new 500 ''Unknown Error'' ''An unknown error occurred''))))"

text \<open>\<open>extract_trace_id\<close>: \<open>HeaderMap::get\<close> returns the first value of a header.\<close>

definition extract_trace_id :: "(string \<times> string) list \<Rightarrow> string option \<Rightarrow> string option" where
  "extract_trace_id headers current_span =
     (let h = (case map_of headers ''x-trace-id'' of Some v \<Rightarrow> Some v
         | None \<Rightarrow> (case map_of headers ''x-request-id'' of Some v \<Rightarrow> Some v
         | None \<Rightarrow> map_of headers ''traceparent''))
      in case Option.bind h header_str of Some s \<Rightarrow> Some s | None \<Rightarrow> current_span)"

section \<open>Parsing $orderby\<close>

definition MAX_FILTER_LEN :: nat where "MAX_FILTER_LEN = 8 * 1024"
definition MAX_NODES :: nat where "MAX_NODES = 2000"
definition MAX_ORDERBY_LEN :: nat where "MAX_ORDERBY_LEN = 1024"
definition MAX_ORDER_FIELDS :: nat where "MAX_ORDER_FIELDS = 10"

definition parse_order_part :: "string \<Rightarrow> (order_key, odata_error) result" where
  "parse_order_part part =
     and_then (case split_whitespace part of
         [f] \<Rightarrow> Ok (f, Asc)
       | [f, d] \<Rightarrow> if d = ''asc'' then Ok (f, Asc) else if d = ''desc'' then Ok (f, Desc)
           else Err (InvalidOrderByField (''invalid orderby clause: '' @ part))
       | _ \<Rightarrow> Err (InvalidOrderByField (''invalid orderby clause: '' @ part))) (\<lambda>(f, d).
       if f = [] then Err (InvalidOrderByField ''empty field name in orderby'')
       else Ok \<lparr>ok_field = f, ok_dir = d\<rparr>)"

fun parse_order_parts :: "string list \<Rightarrow> order_by \<Rightarrow> (order_by, odata_error) result" where
  "parse_order_parts [] keys = Ok keys"
| "parse_order_parts (p # ps) keys =
     (let part = trim p
      in if part = [] then parse_order_parts ps keys
         else and_then (parse_order_part part) (\<lambda>k. parse_order_parts ps (keys @ [k])))"

definition parse_orderby :: "string \<Rightarrow> (order_by, odata_error) result" where
  "parse_orderby raw0 =
     (let raw = trim raw0
      in if raw = [] then Ok []
         else if str_len raw > MAX_ORDERBY_LEN then Err (InvalidOrderByField ''orderby too long'')
         else and_then (parse_order_parts (split_on CHR '','' raw) []) (\<lambda>keys.
           if length keys > MAX_ORDER_FIELDS then Err (InvalidOrderByField ''too many order fields'')
           else Ok keys))"

section \<open>The extractor\<close>

fun count_nodes :: "od_expr \<Rightarrow> nat" where
  "count_nodes (OValue _) = 1"
| "count_nodes (OIdentifier _) = 1"
| "count_nodes (ONot x) = 1 + count_nodes x"
| "count_nodes (OAnd a b) = 1 + count_nodes a + count_nodes b"
| "count_nodes (OOr a b) = 1 + count_nodes a + count_nodes b"
| "count_nodes (OCompare a _ b) = 1 + count_nodes a + count_nodes b"
| "count_nodes (OIn a list) = 1 + count_nodes a + sum_list (map count_nodes list)"
| "count_nodes (OFunction _ args) = 1 + sum_list (map count_nodes args)"

record odata_params =
  op_filter :: "string option"
  op_orderby :: "string option"
  op_limit :: "nat option"
  op_cursor :: "string option"

definition default_params :: odata_params where
  "default_params = \<lparr>op_filter = None, op_orderby = None, op_limit = None, op_cursor = None\<rparr>"

record extractor_env =
  xe_parse_str :: "string \<Rightarrow> (od_expr, string) result"
  xe_digest :: "string \<Rightarrow> nat list"
  xe_hex :: "nat list \<Rightarrow> string"
  xe_format :: value_format
  xe_codec :: cursor_codec
  xe_span :: "string option"

definition extract_filter ::
    "extractor_env \<Rightarrow> odata_params \<Rightarrow> odata_query \<Rightarrow> (odata_query, problem) result" where
  "extract_filter env params q =
     (case op_filter params of
        None \<Rightarrow> Ok q
      | Some raw_filter \<Rightarrow>
          let raw = trim raw_filter
          in if raw = [] then Ok q
             else if str_len raw > MAX_FILTER_LEN then Err (bad_request ''Filter too long'')
             else and_then (map_err (\<lambda>e. bad_request (''invalid $filter: '' @ e)) (xe_parse_str env raw)) (\<lambda>ast_src.
               if count_nodes ast_src > MAX_NODES then Err (bad_request ''Filter too complex'')
               else let core_expr = from_od_expr ast_src;
                        q' = with_filter core_expr q
                    in (case short_filter_hash (xe_digest env) (xe_hex env) (xe_format env) (Some core_expr) of
                          Some hash \<Rightarrow> Ok (with_filter_hash hash q')
                        | None \<Rightarrow> Ok q')))"

text \<open>The query parameters come from axum's \<open>Query\<close> extractor; when it rejects them the defaults are
  used.\<close>

definition extract_odata_query ::
    "extractor_env \<Rightarrow> (odata_params, string) result \<Rightarrow> (odata_query, problem) result" where
  "extract_odata_query env parsed =
     (let params = (case parsed of Ok p \<Rightarrow> p | Err _ \<Rightarrow> default_params);
          problem_of = (\<lambda>e. odata_error_to_problem (xe_span env) e ''/'' None)
      in and_then (extract_filter env params new_query) (\<lambda>q.
         if op_cursor params \<noteq> None \<and> op_orderby params \<noteq> None then Err (problem_of OrderWithCursor)
         else and_then
           (case op_cursor params of
              Some cursor_str \<Rightarrow>
                and_then (map_err (\<lambda>_. problem_of InvalidCursor) (cursor_decode (xe_codec env) cursor_str)) (\<lambda>c.
                  Ok (with_order [] (with_cursor c q)))
            | None \<Rightarrow>
                (case op_orderby params of
                   Some raw \<Rightarrow> and_then (map_err problem_of (parse_orderby raw)) (\<lambda>ob. Ok (with_order ob q))
                 | None \<Rightarrow> Ok q)) (\<lambda>q.
           case op_limit params of
             Some limit \<Rightarrow> if limit = 0 then Err (problem_of InvalidLimit) else Ok (with_limit limit q)
           | None \<Rightarrow> Ok q)))"

section \<open>Order clauses\<close>

definition plain_field :: "string \<Rightarrow> bool" where
  "plain_field f \<longleftrightarrow> f \<noteq> [] \<and> CHR '','' \<notin> set f \<and> (\<forall>c \<in> set f. \<not> is_whitespace c)"

lemma split_ws_acc_tokens:
  "t \<in> set (split_ws_acc acc s) \<Longrightarrow> \<forall>c \<in> set acc. \<not> is_whitespace c \<Longrightarrow>
     t \<noteq> [] \<and> set t \<subseteq> set acc \<union> set s \<and> (\<forall>c \<in> set t. \<not> is_whitespace c)"
proof (induction s arbitrary: acc)
  case (Cons x xs)
  show ?case
  proof (cases "is_whitespace x")
    case True
    have tail: ?thesis if "t \<in> set (split_ws_acc [] xs)" using Cons.IH[OF that] by auto
    show ?thesis
    proof (cases "acc = []")
      case True
      with \<open>is_whitespace x\<close> Cons.prems(1) show ?thesis by (intro tail) simp
    next
      case False
      with \<open>is_whitespace x\<close> Cons.prems(1) consider "t = acc" | "t \<in> set (split_ws_acc [] xs)" by auto
      then show ?thesis by cases (use False Cons.prems(2) tail in auto)
    qed
  next
    case False
    with Cons.prems have "t \<in> set (split_ws_acc (acc @ [x]) xs)" "\<forall>c \<in> set (acc @ [x]). \<not> is_whitespace c" by auto
    from Cons.IH[OF this] show ?thesis by auto
  qed
qed (auto split: if_splits)

lemma split_whitespace_tokens:
  "t \<in> set (split_whitespace s) \<Longrightarrow> t \<noteq> [] \<and> set t \<subseteq> set s \<and> (\<forall>c \<in> set t. \<not> is_whitespace c)"
  using split_ws_acc_tokens[of t "[]" s] by (simp add: split_whitespace_def)

lemma split_ws_acc_word: "\<forall>c \<in> set w. \<not> is_whitespace c \<Longrightarrow> split_ws_acc acc (w @ s) = split_ws_acc (acc @ w) s"
  by (induction w arbitrary: acc) auto

lemma split_whitespace_two:
  assumes "\<forall>c \<in> set f. \<not> is_whitespace c" "f \<noteq> []" "\<forall>c \<in> set d. \<not> is_whitespace c" "d \<noteq> []"
  shows "split_whitespace (f @ '' '' @ d) = [f, d]"
proof -
  have "is_whitespace CHR '' ''" by (simp add: is_whitespace_def)
  then have "split_ws_acc f ('' '' @ d) = f # split_ws_acc [] d" using assms(2) by simp
  moreover have "split_ws_acc [] d = [d]" using split_ws_acc_word[OF assms(3), of "[]" "[]"] assms(4) by simp
  ultimately show ?thesis using split_ws_acc_word[OF assms(1), of "[]" "'' '' @ d"] by (simp add: split_whitespace_def)
qed

lemma parse_order_part_plain:
  assumes "parse_order_part part = Ok k" "CHR '','' \<notin> set part"
  shows "plain_field (ok_field k)"
proof -
  have "ok_field k \<in> set (split_whitespace part)"
    using assms(1) by (auto simp: parse_order_part_def res_simps split: list.splits if_splits)
  from split_whitespace_tokens[OF this] assms(2) show ?thesis by (auto simp: plain_field_def)
qed

lemma set_dropWhile: "x \<in> set (dropWhile P s) \<Longrightarrow> x \<in> set s"
  by (induction s) (auto split: if_splits)

lemma set_trim: "set (trim s) \<subseteq> set s"
  by (auto simp: trim_def trim_start_def trim_end_def dest!: set_dropWhile)

lemma set_split_on: "seg \<in> set (split_on c s) \<Longrightarrow> c \<notin> set seg"
proof (induction s arbitrary: seg)
  case (Cons x xs)
  then show ?case by (cases "split_on c xs") (auto split: if_splits)
qed simp

lemma parse_order_parts_plain:
  "parse_order_parts ps keys = Ok ob \<Longrightarrow> \<forall>p \<in> set ps. CHR '','' \<notin> set p \<Longrightarrow>
     \<forall>k \<in> set keys. plain_field (ok_field k) \<Longrightarrow> \<forall>k \<in> set ob. plain_field (ok_field k)"
proof (induction ps arbitrary: keys)
  case (Cons p ps)
  show ?case
  proof (cases "trim p = []")
    case False
    then obtain k where k: "parse_order_part (trim p) = Ok k" "parse_order_parts ps (keys @ [k]) = Ok ob"
      using Cons.prems(1) by (auto simp: res_simps)
    have "CHR '','' \<notin> set (trim p)" using Cons.prems(2) set_trim by auto
    with k(1) have "plain_field (ok_field k)" by (rule parse_order_part_plain)
    with Cons.prems show ?thesis by (intro Cons.IH[OF k(2)]) auto
  qed (use Cons in auto)
qed simp

lemma parse_orderby_plain:
  assumes "parse_orderby raw = Ok ob"
  shows "(\<forall>k \<in> set ob. plain_field (ok_field k)) \<and> length ob \<le> MAX_ORDER_FIELDS"
  using assms parse_order_parts_plain[of "split_on CHR '','' (trim raw)" "[]" ob] set_split_on
  by (auto simp: parse_orderby_def Let_def res_simps MAX_ORDER_FIELDS_def split: if_splits)

lemma plain_wf_field: "plain_field f \<Longrightarrow> wf_field f"
  by (auto simp: plain_field_def wf_field_def)

definition order_clause :: "order_key \<Rightarrow> string" where
  "order_clause k = ok_field k @ '' '' @ (case ok_dir k of Asc \<Rightarrow> ''asc'' | Desc \<Rightarrow> ''desc'')"

lemma order_clause_facts:
  assumes "plain_field (ok_field k)"
  shows "parse_order_part (order_clause k) = Ok k" "CHR '','' \<notin> set (order_clause k)"
    "trim (order_clause k) = order_clause k" "trim ('' '' @ order_clause k) = order_clause k" "order_clause k \<noteq> []"
proof -
  let ?d = "case ok_dir k of Asc \<Rightarrow> ''asc'' | Desc \<Rightarrow> ''desc''"
  have d: "\<forall>c \<in> set ?d. \<not> is_whitespace c" "?d \<noteq> []" by (cases "ok_dir k"; simp add: is_whitespace_def)+
  have f: "\<forall>c \<in> set (ok_field k). \<not> is_whitespace c" "ok_field k \<noteq> []" using assms by (auto simp: plain_field_def)
  have "split_whitespace (order_clause k) = [ok_field k, ?d]"
    unfolding order_clause_def by (rule split_whitespace_two[OF f d])
  moreover have "k = \<lparr>ok_field = ok_field k, ok_dir = ok_dir k\<rparr>" by simp
  ultimately show "parse_order_part (order_clause k) = Ok k"
    using f(2) by (cases "ok_dir k") (simp_all add: parse_order_part_def)
  show "CHR '','' \<notin> set (order_clause k)" using assms by (cases "ok_dir k") (auto simp: order_clause_def plain_field_def)
  show ne: "order_clause k \<noteq> []" using f by (simp add: order_clause_def)
  have h: "\<not> is_whitespace (hd (order_clause k))" "\<not> is_whitespace (last (order_clause k))"
    using f d by (auto simp: order_clause_def)
  show t: "trim (order_clause k) = order_clause k" by (rule trim_plain[OF ne h])
  have "trim_start ('' '' @ order_clause k) = trim_start (order_clause k)" by (simp add: trim_start_def is_whitespace_def)
  then show "trim ('' '' @ order_clause k) = order_clause k" using t by (simp add: trim_def)
qed

lemma split_join_space:
  assumes "\<forall>s \<in> set ss. CHR '','' \<notin> set s"
  shows "CHR '','' \<notin> set s \<Longrightarrow> split_on CHR '','' (join '', '' (s # ss)) = s # map (\<lambda>s. '' '' @ s) ss"
  using assms
proof (induction ss arbitrary: s)
  case (Cons u us)
  have "split_on CHR '','' (join '', '' (s # u # us)) = s # split_on CHR '','' ('' '' @ join '', '' (u # us))"
    using split_on_append[OF Cons.prems(1)] by simp
  moreover have "join '', '' (('' '' @ u) # us) = '' '' @ join '', '' (u # us)" by (cases us) auto
  ultimately show ?case using Cons.IH[of "'' '' @ u"] Cons.prems by simp
qed (simp add: split_on_plain)

lemma parse_order_parts_clauses:
  "\<forall>k \<in> set ob. plain_field (ok_field k) \<Longrightarrow>
     parse_order_parts (map (\<lambda>k. '' '' @ order_clause k) ob) keys = Ok (keys @ ob)"
proof (induction ob arbitrary: keys)
  case (Cons k ob)
  then show ?case using order_clause_facts[of k] by (simp del: append_Cons)
qed simp

lemma join_clauses_last:
  "xs \<noteq> [] \<Longrightarrow> \<not> is_whitespace (last (join '', '' (map order_clause xs))) \<and> join '', '' (map order_clause xs) \<noteq> []"
proof (induction xs)
  case (Cons x xs)
  have "\<not> is_whitespace (last (order_clause x))" "order_clause x \<noteq> []"
    by (cases "ok_dir x"; simp add: order_clause_def is_whitespace_def)+
  then show ?case using Cons.IH by (cases xs) simp_all
qed simp

lemma parse_show_order:
  assumes "ob \<noteq> []" "\<forall>k \<in> set ob. plain_field (ok_field k)" "length ob \<le> MAX_ORDER_FIELDS"
    "str_len (show_order_by ob) \<le> MAX_ORDERBY_LEN"
  shows "parse_orderby (show_order_by ob) = Ok ob"
proof -
  obtain k ks where ob: "ob = k # ks" using assms(1) by (cases ob) auto
  note f = order_clause_facts[of k]
  have s: "show_order_by ob = join '', '' (map order_clause ob)" using ob by (simp add: show_order_by_def order_clause_def[abs_def])
  note last_ne = join_clauses_last[of ob]
  have "\<not> is_whitespace (hd (show_order_by ob))"
    using assms(2) ob unfolding s by (cases ks) (auto simp: order_clause_def plain_field_def hd_append)
  then have t: "trim (show_order_by ob) = show_order_by ob"
    using last_ne assms(1) s by (intro trim_plain) auto
  have "split_on CHR '','' (show_order_by ob) = order_clause k # map (\<lambda>k. '' '' @ order_clause k) ks"
    unfolding s using split_join_space[of "map order_clause ks" "order_clause k"] assms(2) ob order_clause_facts(2)
    by (simp add: comp_def)
  then have "parse_order_parts (split_on CHR '','' (show_order_by ob)) [] = Ok ob"
    using assms(2) ob f parse_order_parts_clauses[of ks "[k]"] by simp
  moreover have "show_order_by ob \<noteq> []" using last_ne assms(1) s by simp
  ultimately show ?thesis using t assms(3,4) by (simp add: parse_orderby_def Let_def)
qed

section \<open>Extracted queries\<close>

lemma extract_filter_facts:
  assumes "extract_filter env params q0 = Ok q" "q_filter q0 = None" "q_filter_hash q0 = None"
  shows "q_filter_hash q = short_filter_hash (xe_digest env) (xe_hex env) (xe_format env) (q_filter q)"
    "q_order q = q_order q0" "q_cursor q = q_cursor q0" "q_limit q = q_limit q0"
  using assms
  by (auto simp: extract_filter_def short_filter_hash_def with_filter_def with_filter_hash_def Let_def res_simps
      split: option.splits if_splits)

lemma cursor_decode_shape:
  assumes "cursor_decode cc s = Ok c"
  shows "cur_k c \<noteq> [] \<and> trim (cur_s c) \<noteq> [] \<and> cur_d c \<in> {''fwd'', ''bwd''}"
  using assms by (auto simp: cursor_decode_def res_simps split: if_splits)

text \<open>What the pagination code may rely on in a query that comes from the extractor.\<close>

definition sane_query :: "odata_query \<Rightarrow> bool" where
  "sane_query q \<longleftrightarrow>
     q_limit q \<noteq> Some 0 \<and> length (q_order q) \<le> MAX_ORDER_FIELDS \<and>
     list_all (\<lambda>k. plain_field (ok_field k)) (q_order q) \<and>
     (case q_cursor q of None \<Rightarrow> True
      | Some c \<Rightarrow> q_order q = [] \<and> cur_k c \<noteq> [] \<and> trim (cur_s c) \<noteq> [] \<and> cur_d c \<in> {''fwd'', ''bwd''})"

lemma extract_sane:
  assumes "extract_odata_query env (Ok params) = Ok q"
  shows "sane_query q \<and>
    q_filter_hash q = short_filter_hash (xe_digest env) (xe_hex env) (xe_format env) (q_filter q)"
proof -
  obtain q1 where q1: "extract_filter env params new_query = Ok q1"
    using assms by (auto simp: extract_odata_query_def Let_def res_simps)
  note f = extract_filter_facts[OF q1]
  have base: "q_filter_hash q1 = short_filter_hash (xe_digest env) (xe_hex env) (xe_format env) (q_filter q1)"
    "q_order q1 = []" "q_cursor q1 = None" "q_limit q1 = None"
    by (simp_all add: f new_query_def)
  have plain: "length ob \<le> MAX_ORDER_FIELDS \<and> list_all (\<lambda>k. plain_field (ok_field k)) ob" if "parse_orderby raw = Ok ob" for raw ob
    using parse_orderby_plain[OF that] by (simp add: list_all_iff)
  show ?thesis
    using assms q1 base
    by (auto simp: extract_odata_query_def Let_def res_simps with_order_def with_cursor_def with_limit_def sane_query_def
        dest!: plain cursor_decode_shape split: option.splits if_splits)
qed

section \<open>Properties\<close>

text \<open>Every query the extractor accepts is one the pagination code can work with: the limit is not
  zero, at most ten order fields and all of them non-empty names without white space or commas, a cursor excludes an
  order and has keys, an order and a known direction, and the filter hash is the one of the filter.\<close>

theorem extracted_query_sane:
  assumes "extract_odata_query env (Ok params) = Ok q"
  shows "q_limit q \<noteq> Some 0 \<and> length (q_order q) \<le> MAX_ORDER_FIELDS \<and>
    (\<forall>k \<in> set (q_order q). wf_field (ok_field k)) \<and>
    (\<forall>c. q_cursor q = Some c \<longrightarrow> q_order q = [] \<and> cur_k c \<noteq> [] \<and> trim (cur_s c) \<noteq> [] \<and> cur_d c \<in> {''fwd'', ''bwd''}) \<and>
    q_filter_hash q = short_filter_hash (xe_digest env) (xe_hex env) (xe_format env) (q_filter q)"
  using extract_sane[OF assms] plain_wf_field by (auto simp: sane_query_def list_all_iff)

text \<open>Printing an order and parsing it as \<open>$orderby\<close> gives the order back, for field names the
  parser can produce and orders within its two budgets.\<close>

theorem orderby_roundtrip:
  assumes "ob \<noteq> []" "\<forall>k \<in> set ob. plain_field (ok_field k)" "length ob \<le> MAX_ORDER_FIELDS"
    "str_len (show_order_by ob) \<le> MAX_ORDERBY_LEN"
  shows "parse_orderby (show_order_by ob) = Ok ob"
  by (rule parse_show_order[OF assms])

text \<open>The two mappings of OData errors to problem documents agree on everything but the context and
  database errors: those are status 500 under one mapping and 422 (an invalid filter) under the other.\<close>

theorem error_mappings_agree_except_db:
  "(\<forall>e. with_context inst tid (problem_from_odata_error e) =
        odata_error_to_problem None e inst tid \<longleftrightarrow> (\<nexists>msg. e = Db msg)) \<and>
   (\<forall>msg. p_status (problem_from_odata_error (Db msg)) = 500 \<and>
        p_status (odata_error_to_problem span (Db msg) inst tid) = 422)"
proof (intro conjI allI)
  fix e
  show "with_context inst tid (problem_from_odata_error e) = odata_error_to_problem None e inst tid \<longleftrightarrow> (\<nexists>msg. e = Db msg)"
    by (cases e; cases tid)
      (simp_all add: with_context_def odata_error_to_problem_def to_problem_def Let_def problem_defs
        internal_v1_def invalid_filter_v1_def catalog_entry_def)
qed (simp_all add: odata_error_to_problem_def to_problem_def Let_def problem_defs
    internal_v1_def invalid_filter_v1_def catalog_entry_def split: option.splits)

text \<open>Query parameters that axum cannot deserialise (a limit that is not a number, a parameter given
  twice) are not reported: the whole set, filter and cursor included, is replaced by the defaults.\<close>

theorem malformed_params_ignored:
  "extract_odata_query env (Err e) = Ok new_query"
  by (simp add: extract_odata_query_def extract_filter_def default_params_def)

section \<open>Witnesses\<close>

definition demo_env :: extractor_env where
  "demo_env = \<lparr>xe_parse_str = (\<lambda>s. Ok (OIdentifier s)), xe_digest = map of_char, xe_hex = map char_of,
     xe_format = \<lparr>fmt_number = (\<lambda>_. []), fmt_uuid = show_nat, fmt_datetime = show_int, fmt_date = show_int, fmt_time = show_nat\<rparr>,
     xe_codec = demo_codec, xe_span = None\<rparr>"

theorem extracted_query_sane_witness:
  "\<exists>q. extract_odata_query demo_env (Ok \<lparr>op_filter = Some '' active '', op_orderby = Some ''name desc, id'',
      op_limit = Some 25, op_cursor = None\<rparr>) = Ok q \<and> length (q_order q) \<le> MAX_ORDER_FIELDS \<and> q_limit q = Some 25"
proof -
  let ?p = "\<lparr>op_filter = Some '' active '', op_orderby = Some ''name desc, id'', op_limit = Some 25, op_cursor = None\<rparr>"
  let ?r = "extract_odata_query demo_env (Ok ?p)"
  have "(case ?r of Ok q \<Rightarrow> q_limit q = Some 25 | Err _ \<Rightarrow> False)" by code_simp
  then obtain q where q: "?r = Ok q" "q_limit q = Some 25" by (cases ?r) auto
  with extracted_query_sane[OF q(1)] show ?thesis by blast
qed

theorem orderby_roundtrip_witness:
  "parse_orderby ''name desc, id asc'' = Ok [\<lparr>ok_field = ''name'', ok_dir = Desc\<rparr>, \<lparr>ok_field = ''id'', ok_dir = Asc\<rparr>]"
proof -
  let ?ob = "[\<lparr>ok_field = ''name'', ok_dir = Desc\<rparr>, \<lparr>ok_field = ''id'', ok_dir = Asc\<rparr>]"
  have s: "show_order_by ?ob = ''name desc, id asc''" by code_simp
  have "\<forall>k \<in> set ?ob. plain_field (ok_field k)" "length ?ob \<le> MAX_ORDER_FIELDS" "str_len (show_order_by ?ob) \<le> MAX_ORDERBY_LEN"
    by code_simp+
  from orderby_roundtrip[OF _ this] show ?thesis unfolding s by simp
qed

end
