(* ===== verification/Security_Ctx.thy ===== *)
theory Security_Ctx
  imports Prelude
begin

text \<open>
  Access scopes, subjects and security contexts (\<open>libs/modkit-security/src\<close>), the versioned binary form
  of a context (\<open>bin_codec.rs\<close>) and its transport in gRPC metadata
  (\<open>libs/modkit-transport-grpc/src/lib.rs\<close>).

  A UUID is its 128-bit value. Bincode and the text form of binary metadata are parameters.
\<close>

section \<open>Scopes\<close>

type_synonym uuid = nat

definition ROOT_TENANT_ID :: uuid where "ROOT_TENANT_ID = 0x00000000df515b429538d2b56b7ee953"
definition ROOT_SUBJECT_ID :: uuid where "ROOT_SUBJECT_ID = 0x111111116a8847689dfc6bcd5187d9ed"
definition ANONYMOUS_SUBJECT_ID :: uuid where "ANONYMOUS_SUBJECT_ID = 0x222222220830569592ebd648d8b346a6"

record access_scope =
  is_root :: bool
  tenant_ids :: "uuid list"
  resource_ids :: "uuid list"

definition default_scope :: access_scope where
  "default_scope = \<lparr>is_root = False, tenant_ids = [], resource_ids = []\<rparr>"

definition scope_is_empty :: "access_scope \<Rightarrow> bool" where
  "scope_is_empty s = (if is_root s then False else tenant_ids s = [] \<and> resource_ids s = [])"

definition has_tenants :: "access_scope \<Rightarrow> bool" where
  "has_tenants s \<longleftrightarrow> tenant_ids s \<noteq> []"

definition has_resources :: "access_scope \<Rightarrow> bool" where
  "has_resources s \<longleftrightarrow> resource_ids s \<noteq> []"

definition tenants_only :: "uuid list \<Rightarrow> access_scope" where
  "tenants_only ts = \<lparr>is_root = False, tenant_ids = ts, resource_ids = []\<rparr>"

definition resources_only :: "uuid list \<Rightarrow> access_scope" where
  "resources_only rs = \<lparr>is_root = False, tenant_ids = [], resource_ids = rs\<rparr>"

definition scope_tenant :: "uuid \<Rightarrow> access_scope" where
  "scope_tenant t = tenants_only [t]"

definition scope_resource :: "uuid \<Rightarrow> access_scope" where
  "scope_resource r = resources_only [r]"

definition scope_both :: "uuid list \<Rightarrow> uuid list \<Rightarrow> access_scope" where
  "scope_both ts rs = \<lparr>is_root = False, tenant_ids = ts, resource_ids = rs\<rparr>"

definition root_tenant :: access_scope where
  "root_tenant = \<lparr>is_root = True, tenant_ids = [], resource_ids = []\<rparr>"

definition includes_root_tenant :: "access_scope \<Rightarrow> bool" where
  "includes_root_tenant s \<longleftrightarrow> ROOT_TENANT_ID \<in> set (tenant_ids s)"

lemmas scope_defs = default_scope_def tenants_only_def resources_only_def scope_tenant_def scope_resource_def
  scope_both_def root_tenant_def scope_is_empty_def has_tenants_def has_resources_def

section \<open>Contexts\<close>

record subject =
  sub_id :: uuid

definition root_subject :: subject where
  "root_subject = \<lparr>sub_id = ROOT_SUBJECT_ID\<rparr>"

definition subject_is_root :: "subject \<Rightarrow> bool" where
  "subject_is_root s \<longleftrightarrow> sub_id s = ROOT_SUBJECT_ID"

record security_ctx =
  ctx_scope :: access_scope
  ctx_subject :: subject

definition for_tenants :: "uuid list \<Rightarrow> uuid \<Rightarrow> security_ctx" where
  "for_tenants ts sid = \<lparr>ctx_scope = tenants_only ts, ctx_subject = \<lparr>sub_id = sid\<rparr>\<rparr>"

definition for_tenant :: "uuid \<Rightarrow> uuid \<Rightarrow> security_ctx" where
  "for_tenant t sid = for_tenants [t] sid"

definition for_resources :: "uuid list \<Rightarrow> uuid \<Rightarrow> security_ctx" where
  "for_resources rs sid = \<lparr>ctx_scope = resources_only rs, ctx_subject = \<lparr>sub_id = sid\<rparr>\<rparr>"

definition for_resource :: "uuid \<Rightarrow> uuid \<Rightarrow> security_ctx" where
  "for_resource r sid = for_resources [r] sid"

definition deny_all_ctx :: "uuid \<Rightarrow> security_ctx" where
  "deny_all_ctx sid = \<lparr>ctx_scope = default_scope, ctx_subject = \<lparr>sub_id = sid\<rparr>\<rparr>"

definition anonymous :: security_ctx where
  "anonymous = deny_all_ctx ANONYMOUS_SUBJECT_ID"

definition root_ctx :: security_ctx where
  "root_ctx = \<lparr>ctx_scope = root_tenant, ctx_subject = root_subject\<rparr>"

definition subject_id :: "security_ctx \<Rightarrow> uuid" where
  "subject_id c = sub_id (ctx_subject c)"

definition is_denied :: "security_ctx \<Rightarrow> bool" where
  "is_denied c = scope_is_empty (ctx_scope c)"

definition has_tenant_access :: "security_ctx \<Rightarrow> bool" where
  "has_tenant_access c = has_tenants (ctx_scope c)"

definition has_resource_access :: "security_ctx \<Rightarrow> bool" where
  "has_resource_access c = has_resources (ctx_scope c)"

lemmas ctx_defs = for_tenants_def for_tenant_def for_resources_def for_resource_def deny_all_ctx_def anonymous_def
  root_ctx_def is_denied_def

section \<open>Binary form\<close>

definition SECCTX_BIN_VERSION :: nat where "SECCTX_BIN_VERSION = 1"

text \<open>Bincode's two entry points; the decoder returns the value and the number of bytes it read.\<close>

record bincode =
  bc_encode :: "security_ctx \<Rightarrow> (nat list, string) result"
  bc_decode :: "nat list \<Rightarrow> (security_ctx \<times> nat, string) result"

datatype secctx_decode_error = SecEmpty | UnsupportedVersion nat | SecBincode string

definition encode_bin :: "bincode \<Rightarrow> security_ctx \<Rightarrow> (nat list, string) result" where
  "encode_bin bc ctx = and_then (bc_encode bc ctx) (\<lambda>payload. Ok (SECCTX_BIN_VERSION # payload))"

definition decode_bin :: "bincode \<Rightarrow> nat list \<Rightarrow> (security_ctx, secctx_decode_error) result" where
  "decode_bin bc bytes =
     (case bytes of
        [] \<Rightarrow> Err SecEmpty
      | version # payload \<Rightarrow>
          if version \<noteq> SECCTX_BIN_VERSION then Err (UnsupportedVersion version)
          else and_then (map_err SecBincode (bc_decode bc payload)) (\<lambda>(ctx, _). Ok ctx))"

section \<open>gRPC metadata\<close>

datatype secctx_status = StatusInternal | StatusUnauthenticated

definition SECCTX_METADATA_KEY :: string where "SECCTX_METADATA_KEY = ''x-secctx-bin''"

text \<open>A \<open>MetadataMap\<close> as the list of its entries in order. \<open>insert_bin\<close> replaces every value of the key,
  \<open>get_bin\<close> reads the first one; a binary value is kept in its text form.\<close>

type_synonym metadata = "(string \<times> string) list"

record metadata_text =
  mt_from_bytes :: "nat list \<Rightarrow> string"
  mt_to_bytes :: "string \<Rightarrow> (nat list, string) result"

definition insert_bin :: "string \<Rightarrow> string \<Rightarrow> metadata \<Rightarrow> metadata" where
  "insert_bin k v m = filter (\<lambda>(k', _). k' \<noteq> k) m @ [(k, v)]"

definition attach_secctx ::
    "bincode \<Rightarrow> metadata_text \<Rightarrow> metadata \<Rightarrow> security_ctx \<Rightarrow> (metadata, secctx_status) result" where
  "attach_secctx bc mt m ctx =
     and_then (map_err (\<lambda>_. StatusInternal) (encode_bin bc ctx)) (\<lambda>encoded.
       Ok (insert_bin SECCTX_METADATA_KEY (mt_from_bytes mt encoded) m))"

definition extract_secctx :: "bincode \<Rightarrow> metadata_text \<Rightarrow> metadata \<Rightarrow> (security_ctx, secctx_status) result" where
  "extract_secctx bc mt m =
     and_then (ok_or StatusUnauthenticated (map_of m SECCTX_METADATA_KEY)) (\<lambda>raw.
     and_then (map_err (\<lambda>_. StatusUnauthenticated) (mt_to_bytes mt raw)) (\<lambda>bytes.
       map_err (\<lambda>_. StatusUnauthenticated) (decode_bin bc bytes)))"

section \<open>Rules\<close>

lemma map_of_insert_bin: "map_of (insert_bin k v m) k' = (if k' = k then Some v else map_of m k')"
  by (induction m) (auto simp: insert_bin_def)

text \<open>What bincode promises: the decoder reads back what the encoder wrote and ignores what follows.\<close>

definition bincode_ok :: "bincode \<Rightarrow> bool" where
  "bincode_ok bc \<longleftrightarrow> (\<forall>ctx payload rest. bc_encode bc ctx = Ok payload \<longrightarrow>
     bc_decode bc (payload @ rest) = Ok (ctx, length payload))"

lemma decode_encode_bin:
  assumes "bincode_ok bc" "encode_bin bc ctx = Ok blob"
  shows "decode_bin bc (blob @ rest) = Ok ctx"
  using assms by (auto simp: encode_bin_def decode_bin_def bincode_ok_def res_simps)

lemma decode_bin_version: "decode_bin bc bytes = Ok ctx \<Longrightarrow> \<exists>payload. bytes = SECCTX_BIN_VERSION # payload"
  by (auto simp: decode_bin_def res_simps split: list.splits if_splits)

section \<open>Properties\<close>

text \<open>C33. A context attached to gRPC metadata is the one extracted on the other side, whatever was in the
  metadata before and without touching its other entries; metadata without a context, or whose blob is
  empty or of another version, is refused as unauthenticated.\<close>

theorem secctx_transport_roundtrip:
  assumes "bincode_ok bc" "\<forall>bytes. mt_to_bytes mt (mt_from_bytes mt bytes) = Ok bytes"
  shows "(\<forall>ctx m m'. attach_secctx bc mt m ctx = Ok m' \<longrightarrow>
      extract_secctx bc mt m' = Ok ctx \<and> (\<forall>k. k \<noteq> SECCTX_METADATA_KEY \<longrightarrow> map_of m' k = map_of m k)) \<and>
    (\<forall>m ctx. extract_secctx bc mt m = Ok ctx \<longrightarrow>
      (\<exists>raw payload. map_of m SECCTX_METADATA_KEY = Some raw \<and> mt_to_bytes mt raw = Ok (SECCTX_BIN_VERSION # payload))) \<and>
    (\<forall>m s. extract_secctx bc mt m = Err s \<longrightarrow> s = StatusUnauthenticated)"
proof (intro conjI allI impI)
  fix ctx m m'
  assume "attach_secctx bc mt m ctx = Ok m'"
  then obtain blob where b: "encode_bin bc ctx = Ok blob" "m' = insert_bin SECCTX_METADATA_KEY (mt_from_bytes mt blob) m"
    by (auto simp: attach_secctx_def res_simps)
  show "extract_secctx bc mt m' = Ok ctx"
    using decode_encode_bin[OF assms(1) b(1), of "[]"] assms(2) b(2) by (simp add: extract_secctx_def map_of_insert_bin)
  show "k \<noteq> SECCTX_METADATA_KEY \<Longrightarrow> map_of m' k = map_of m k" for k
    by (simp add: b(2) map_of_insert_bin)
next
  fix m ctx
  assume "extract_secctx bc mt m = Ok ctx"
  then show "\<exists>raw payload. map_of m SECCTX_METADATA_KEY = Some raw \<and> mt_to_bytes mt raw = Ok (SECCTX_BIN_VERSION # payload)"
    by (auto simp: extract_secctx_def res_simps dest!: decode_bin_version)
qed (auto simp: extract_secctx_def res_simps)

section \<open>Witnesses\<close>

definition demo_bincode :: bincode where
  "demo_bincode = \<lparr>
     bc_encode = (\<lambda>c. Ok ([if is_root (ctx_scope c) then 1 else 0, length (tenant_ids (ctx_scope c)),
         length (resource_ids (ctx_scope c)), subject_id c] @ tenant_ids (ctx_scope c) @ resource_ids (ctx_scope c))),
     bc_decode = (\<lambda>b. case b of
         r # nt # nr # sid # xs \<Rightarrow> Ok (\<lparr>ctx_scope = \<lparr>is_root = (r = 1), tenant_ids = take nt xs,
           resource_ids = take nr (drop nt xs)\<rparr>, ctx_subject = \<lparr>sub_id = sid\<rparr>\<rparr>, 4 + nt + nr)
       | _ \<Rightarrow> Err ''unexpected end'')\<rparr>"

definition demo_text :: metadata_text where
  "demo_text = \<lparr>mt_from_bytes = (\<lambda>b. concat (map (\<lambda>n. show_nat n @ '','') b)),
     mt_to_bytes = (\<lambda>s. Ok (map (\<lambda>d. the (parse_nat d)) (butlast (split_on CHR '','' s))))\<rparr>"

lemma demo_bincode_ok: "bincode_ok demo_bincode"
proof -
  have "bc_decode demo_bincode (payload @ rest) = Ok (ctx, length payload)" if "bc_encode demo_bincode ctx = Ok payload"
    for ctx payload rest
    using that by (cases ctx; cases "ctx_scope ctx"; cases "ctx_subject ctx")
      (auto simp: demo_bincode_def subject_id_def split: if_splits)
  then show ?thesis by (auto simp: bincode_ok_def)
qed

lemma demo_text_ok: "mt_to_bytes demo_text (mt_from_bytes demo_text b) = Ok b"
proof -
  have "split_on CHR '','' (concat (map (\<lambda>n. show_nat n @ '','') b)) = map show_nat b @ [[]]"
    by (induction b) (auto simp: split_on_append)
  then show ?thesis by (simp add: demo_text_def comp_def)
qed

theorem secctx_transport_roundtrip_witness:
  "\<exists>m'. attach_secctx demo_bincode demo_text [(SECCTX_METADATA_KEY, ''old''), (''k'', ''v'')] (for_tenant 7 9) = Ok m' \<and>
     extract_secctx demo_bincode demo_text m' = Ok (for_tenant 7 9) \<and> map_of m' ''k'' = Some ''v''"
proof -
  have ok: "\<exists>m'. attach_secctx demo_bincode demo_text m c = Ok m'" for m c
    by (simp add: attach_secctx_def encode_bin_def demo_bincode_def)
  have k: "''k'' \<noteq> SECCTX_METADATA_KEY" by (simp add: SECCTX_METADATA_KEY_def)
  obtain m' where m': "attach_secctx demo_bincode demo_text [(SECCTX_METADATA_KEY, ''old''), (''k'', ''v'')] (for_tenant 7 9) = Ok m'"
    using ok by blast
  have "extract_secctx demo_bincode demo_text m' = Ok (for_tenant 7 9) \<and>
      (\<forall>k. k \<noteq> SECCTX_METADATA_KEY \<longrightarrow> map_of m' k = map_of [(SECCTX_METADATA_KEY, ''old''), (''k'', ''v'')] k)"
    using secctx_transport_roundtrip[of demo_bincode demo_text] demo_bincode_ok demo_text_ok m' by blast
  with m' k show ?thesis by auto
qed

end
