(* ===== verification/Secure_Orm.thy ===== *)
theory Secure_Orm
  imports OData_Page Security_Ctx
begin

text \<open>
  The secure data access layer: scope conditions (\<open>libs/modkit-db/src/secure/cond.rs\<close>,
  \<open>provider.rs\<close>), scoped selects (\<open>select.rs\<close>), scoped updates and deletes (\<open>db_ops.rs\<close>), the
  connection wrapper (\<open>secure_conn.rs\<close>) and the pager over it (\<open>odata/pager.rs\<close>).

  The typestates \<open>Unscoped\<close> and \<open>Scoped\<close> are two types, and only a scoped query can be executed. A table
  is the list of its rows; an operation that writes returns the new table. The connection says how the
  database compares values, reads a row's columns and answers selects, and whether a write fails.
\<close>

section \<open>Scope conditions\<close>

record 'c scopable_entity =
  se_table :: string
  se_tenant_col :: "'c option"
  se_resource_col :: "'c option"
  se_owner_col :: "'c option"
  se_type_col :: "'c option"

datatype scope_error = ScopeDb string | ScopeInvalid string | ScopeDenied string

definition uuid_value :: "uuid \<Rightarrow> sea_value" where
  "uuid_value u = SUuid (Some u)"

definition deny_all :: "'c condition" where
  "deny_all = cond_add (Simple (ExprValue False)) cond_all"

definition tenant_condition :: "'c scopable_entity \<Rightarrow> access_scope \<Rightarrow> 'c condition option" where
  "tenant_condition E scope =
     (if is_root scope then None
      else if tenant_ids scope = [] then None
      else (case se_tenant_col E of
              None \<Rightarrow> Some deny_all
            | Some tcol \<Rightarrow> Some (cond_add (Simple (ColIsIn tcol (map uuid_value (tenant_ids scope)))) cond_all)))"

text \<open>The vector of parts has at most two entries, so the \<open>unreachable!\<close> arm is the last one here.\<close>

definition build_scope_condition :: "'c scopable_entity \<Rightarrow> access_scope \<Rightarrow> 'c condition" where
  "build_scope_condition E scope =
     (if scope_is_empty scope then deny_all
      else
        let parts = (case tenant_condition E scope of Some c \<Rightarrow> [c] | None \<Rightarrow> []);
            combine = (\<lambda>parts. case parts of
                [only] \<Rightarrow> only
              | [a, b] \<Rightarrow> cond_add (Nested b) (cond_add (Nested a) cond_all)
              | _ \<Rightarrow> if is_root scope then cond_all else deny_all)
        in if resource_ids scope \<noteq> [] then
             (case se_resource_col E of
                Some rcol \<Rightarrow>
                  combine (parts @ [cond_add (Simple (ColIsIn rcol (map uuid_value (resource_ids scope)))) cond_all])
              | None \<Rightarrow> deny_all)
           else combine parts)"

section \<open>Scoped selects\<close>

datatype 'c unscoped_select = UnscopedSelect "'c select"
datatype 'c scoped_select = ScopedSelect (into_inner: "'c select")

definition secure_select :: "'c select \<Rightarrow> 'c unscoped_select" where
  "secure_select s = UnscopedSelect s"

fun scope_with :: "'c scopable_entity \<Rightarrow> access_scope \<Rightarrow> 'c unscoped_select \<Rightarrow> 'c scoped_select" where
  "scope_with E scope (UnscopedSelect s) = ScopedSelect (sel_filter (build_scope_condition E scope) s)"

definition ss_filter :: "'c condition \<Rightarrow> 'c scoped_select \<Rightarrow> 'c scoped_select" where
  "ss_filter c s = ScopedSelect (sel_filter c (into_inner s))"

definition ss_order_by :: "'c \<Rightarrow> sort_dir \<Rightarrow> 'c scoped_select \<Rightarrow> 'c scoped_select" where
  "ss_order_by c d s = ScopedSelect (sel_order_by c d (into_inner s))"

definition ss_limit :: "nat \<Rightarrow> 'c scoped_select \<Rightarrow> 'c scoped_select" where
  "ss_limit n s = ScopedSelect (sel_set_limit n (into_inner s))"

definition ss_offset :: "nat \<Rightarrow> 'c scoped_select \<Rightarrow> 'c scoped_select" where
  "ss_offset n s = ScopedSelect (sel_set_offset n (into_inner s))"

definition and_id :: "'c scopable_entity \<Rightarrow> uuid \<Rightarrow> 'c scoped_select \<Rightarrow> ('c scoped_select, scope_error) result" where
  "and_id E i s =
     and_then (ok_or (ScopeInvalid ''Entity must have a resource_col to use and_id()'') (se_resource_col E)) (\<lambda>rcol.
       Ok (ss_filter (cond_add (Simple (ColEq rcol (uuid_value i))) cond_all) s))"

text \<open>\<open>and_scope_for\<close> filters on a column of a joined table; \<open>qualify\<close> is that column in the joined row.\<close>

definition and_scope_for ::
    "('j \<Rightarrow> 'c) \<Rightarrow> 'j scopable_entity \<Rightarrow> access_scope \<Rightarrow> 'c scoped_select \<Rightarrow> 'c scoped_select" where
  "and_scope_for qualify J scope s =
     (if tenant_ids scope \<noteq> [] then
        (case se_tenant_col J of
           Some tcol \<Rightarrow> ss_filter (cond_add (Simple (ColIsIn (qualify tcol) (map uuid_value (tenant_ids scope)))) cond_all) s
         | None \<Rightarrow> s)
      else s)"

definition scope_via_exists :: "string scopable_entity \<Rightarrow> access_scope \<Rightarrow> 'c scoped_select \<Rightarrow> 'c scoped_select" where
  "scope_via_exists J scope s =
     (if tenant_ids scope \<noteq> [] then
        (case se_tenant_col J of
           Some tcol \<Rightarrow>
             ss_filter (cond_add (Simple (ExistsIn (se_table J) tcol (map uuid_value (tenant_ids scope)))) cond_all) s
         | None \<Rightarrow> s)
      else s)"

section \<open>The connection\<close>

record ('c, 'row) conn =
  cn_sem :: sql_sem
  cn_col :: "'row \<Rightarrow> 'c \<Rightarrow> sea_value"
  cn_query :: "'row list \<Rightarrow> 'c select \<Rightarrow> ('row list, string) result"
  cn_fault :: "string option"

definition ss_all :: "('c, 'row) conn \<Rightarrow> 'row list \<Rightarrow> 'c scoped_select \<Rightarrow> ('row list, scope_error) result" where
  "ss_all cn table s = map_err ScopeDb (cn_query cn table (into_inner s))"

definition ss_one :: "('c, 'row) conn \<Rightarrow> 'row list \<Rightarrow> 'c scoped_select \<Rightarrow> ('row option, scope_error) result" where
  "ss_one cn table s =
     and_then (map_err ScopeDb (cn_query cn table (sel_set_limit 1 (into_inner s)))) (\<lambda>rows.
       Ok (case rows of [] \<Rightarrow> None | r # _ \<Rightarrow> Some r))"

text \<open>SeaORM's writes. \<open>UpdateMany\<close> and \<open>DeleteMany\<close> act on the rows that satisfy all their conditions and
  report how many; an \<open>ActiveModel\<close> has a primary key, the row it inserts and the columns it sets, and
  updating it fails when no row has its key.\<close>

record ('c, 'row) update_stmt =
  upd_where :: "'c condition list"
  upd_set :: "'row \<Rightarrow> 'row"

type_synonym 'c delete_stmt = "'c condition list"

record 'row active_model =
  am_key :: uuid
  am_row :: 'row
  am_set :: "'row \<Rightarrow> 'row"

definition db_update ::
    "('c, 'row) conn \<Rightarrow> ('c, 'row) update_stmt \<Rightarrow> 'row list \<Rightarrow> (nat, scope_error) result \<times> 'row list" where
  "db_update cn u table =
     (case cn_fault cn of
        Some e \<Rightarrow> (Err (ScopeDb e), table)
      | None \<Rightarrow>
          let hit = (\<lambda>r. row_selected (cn_sem cn) (cn_col cn r) (upd_where u))
          in (Ok (length (filter hit table)), map (\<lambda>r. if hit r then upd_set u r else r) table))"

definition db_delete ::
    "('c, 'row) conn \<Rightarrow> 'c delete_stmt \<Rightarrow> 'row list \<Rightarrow> (nat, scope_error) result \<times> 'row list" where
  "db_delete cn cs table =
     (case cn_fault cn of
        Some e \<Rightarrow> (Err (ScopeDb e), table)
      | None \<Rightarrow>
          let hit = (\<lambda>r. row_selected (cn_sem cn) (cn_col cn r) cs)
          in (Ok (length (filter hit table)), filter (\<lambda>r. \<not> hit r) table))"

definition db_insert_model ::
    "('c, 'row) conn \<Rightarrow> 'row active_model \<Rightarrow> 'row list \<Rightarrow> ('row, scope_error) result \<times> 'row list" where
  "db_insert_model cn am table =
     (case cn_fault cn of
        Some e \<Rightarrow> (Err (ScopeDb e), table)
      | None \<Rightarrow> (Ok (am_row am), table @ [am_row am]))"

definition db_update_model ::
    "('c, 'row) conn \<Rightarrow> 'c \<Rightarrow> 'row active_model \<Rightarrow> 'row list \<Rightarrow> ('row, scope_error) result \<times> 'row list" where
  "db_update_model cn pk am table =
     (case cn_fault cn of
        Some e \<Rightarrow> (Err (ScopeDb e), table)
      | None \<Rightarrow>
          let hit = (\<lambda>r. cn_col cn r pk = uuid_value (am_key am))
          in (case find hit table of
                None \<Rightarrow> (Err (ScopeDb ''None of the records are updated''), table)
              | Some r \<Rightarrow> (Ok (am_set am r), map (\<lambda>r. if hit r then am_set am r else r) table)))"

section \<open>Scoped writes\<close>

datatype ('c, 'row) unscoped_update = UnscopedUpdate "('c, 'row) update_stmt"
datatype ('c, 'row) scoped_update = ScopedUpdate "('c, 'row) update_stmt"
datatype 'c unscoped_delete = UnscopedDelete "'c delete_stmt"
datatype 'c scoped_delete = ScopedDelete "'c delete_stmt"

definition secure_update :: "('c, 'row) update_stmt \<Rightarrow> ('c, 'row) unscoped_update" where
  "secure_update u = UnscopedUpdate u"

fun update_scope_with ::
    "'c scopable_entity \<Rightarrow> access_scope \<Rightarrow> ('c, 'row) unscoped_update \<Rightarrow> ('c, 'row) scoped_update" where
  "update_scope_with E scope (UnscopedUpdate u) =
     ScopedUpdate (u\<lparr>upd_where := upd_where u @ [build_scope_condition E scope]\<rparr>)"

fun update_exec ::
    "('c, 'row) conn \<Rightarrow> ('c, 'row) scoped_update \<Rightarrow> 'row list \<Rightarrow> (nat, scope_error) result \<times> 'row list" where
  "update_exec cn (ScopedUpdate u) table = db_update cn u table"

definition secure_delete :: "'c delete_stmt \<Rightarrow> 'c unscoped_delete" where
  "secure_delete d = UnscopedDelete d"

fun delete_scope_with :: "'c scopable_entity \<Rightarrow> access_scope \<Rightarrow> 'c unscoped_delete \<Rightarrow> 'c scoped_delete" where
  "delete_scope_with E scope (UnscopedDelete d) = ScopedDelete (d @ [build_scope_condition E scope])"

fun delete_exec ::
    "('c, 'row) conn \<Rightarrow> 'c scoped_delete \<Rightarrow> 'row list \<Rightarrow> (nat, scope_error) result \<times> 'row list" where
  "delete_exec cn (ScopedDelete d) table = db_delete cn d table"

definition secure_insert ::
    "('c, 'row) conn \<Rightarrow> 'row active_model \<Rightarrow> security_ctx \<Rightarrow> 'row list \<Rightarrow> ('row, scope_error) result \<times> 'row list" where
  "secure_insert cn am ctx table = db_insert_model cn am table"

definition validate_tenant_in_scope :: "uuid \<Rightarrow> access_scope \<Rightarrow> (unit, scope_error) result" where
  "validate_tenant_in_scope t scope =
     (if t \<in> set (tenant_ids scope) then Ok () else Err (ScopeInvalid ''tenant_id not present in security scope''))"

section \<open>The secure connection\<close>

definition sc_find :: "'c scopable_entity \<Rightarrow> security_ctx \<Rightarrow> 'c scoped_select" where
  "sc_find E ctx = scope_with E (ctx_scope ctx) (secure_select sel_find)"

definition sc_find_by_id ::
    "'c scopable_entity \<Rightarrow> security_ctx \<Rightarrow> uuid \<Rightarrow> ('c scoped_select, scope_error) result" where
  "sc_find_by_id E ctx i = and_id E i (sc_find E ctx)"

text \<open>\<open>assign\<close> is what the caller adds to the statement with \<open>col_expr\<close> before executing it.\<close>

definition sc_update_many ::
    "'c scopable_entity \<Rightarrow> security_ctx \<Rightarrow> ('row \<Rightarrow> 'row) \<Rightarrow> ('c, 'row) scoped_update" where
  "sc_update_many E ctx assign =
     update_scope_with E (ctx_scope ctx) (secure_update \<lparr>upd_where = [], upd_set = assign\<rparr>)"

definition sc_delete_many :: "'c scopable_entity \<Rightarrow> security_ctx \<Rightarrow> 'c scoped_delete" where
  "sc_delete_many E ctx = delete_scope_with E (ctx_scope ctx) (secure_delete [])"

definition sc_insert ::
    "('c, 'row) conn \<Rightarrow> security_ctx \<Rightarrow> 'row active_model \<Rightarrow> 'row list \<Rightarrow> ('row, scope_error) result \<times> 'row list" where
  "sc_insert cn ctx am table = secure_insert cn am ctx table"

definition sc_update_one ::
    "('c, 'row) conn \<Rightarrow> 'c \<Rightarrow> 'row active_model \<Rightarrow> 'row list \<Rightarrow> ('row, scope_error) result \<times> 'row list" where
  "sc_update_one cn pk am table = db_update_model cn pk am table"

definition sc_update_with_ctx ::
    "('c, 'row) conn \<Rightarrow> 'c \<Rightarrow> 'c scopable_entity \<Rightarrow> security_ctx \<Rightarrow> uuid \<Rightarrow> 'row active_model \<Rightarrow> 'row list \<Rightarrow>
     ('row, scope_error) result \<times> 'row list" where
  "sc_update_with_ctx cn pk E ctx i am table =
     (case and_then (sc_find_by_id E ctx i) (ss_one cn table) of
        Err e \<Rightarrow> (Err e, table)
      | Ok None \<Rightarrow> (Err (ScopeDenied ''entity not found or not accessible in current security scope''), table)
      | Ok (Some _) \<Rightarrow> db_update_model cn pk am table)"

definition sc_delete_by_id ::
    "('c, 'row) conn \<Rightarrow> 'c scopable_entity \<Rightarrow> security_ctx \<Rightarrow> uuid \<Rightarrow> 'row list \<Rightarrow> (bool, scope_error) result \<times> 'row list" where
  "sc_delete_by_id cn E ctx i table =
     (case se_resource_col E of
        None \<Rightarrow> (Err (ScopeInvalid ''Entity must have a resource_col to use delete_by_id()''), table)
      | Some rcol \<Rightarrow>
          (case delete_exec cn (delete_scope_with E (ctx_scope ctx)
                 (secure_delete [cond_add (Simple (ColEq rcol (uuid_value i))) cond_all])) table of
             (Err e, table') \<Rightarrow> (Err e, table')
           | (Ok n, table') \<Rightarrow> (Ok (n > 0), table')))"

section \<open>The pager\<close>

record ('c, 'row) opager =
  op_entity :: "'c scopable_entity"
  op_ctx :: security_ctx
  op_conn :: "('c, 'row) conn"
  op_fmap :: "('row, 'c) field_map"
  op_tiebreaker :: "string \<times> sort_dir"
  op_limits :: limit_cfg

definition opager_new ::
    "'c scopable_entity \<Rightarrow> security_ctx \<Rightarrow> ('c, 'row) conn \<Rightarrow> ('row, 'c) field_map \<Rightarrow> ('c, 'row) opager" where
  "opager_new E ctx cn fmap =
     \<lparr>op_entity = E, op_ctx = ctx, op_conn = cn, op_fmap = fmap, op_tiebreaker = (''id'', Desc),
      op_limits = \<lparr>lc_default = 25, lc_max = 1000\<rparr>\<rparr>"

definition opager_tiebreaker :: "string \<Rightarrow> sort_dir \<Rightarrow> ('c, 'row) opager \<Rightarrow> ('c, 'row) opager" where
  "opager_tiebreaker f d p = p\<lparr>op_tiebreaker := (f, d)\<rparr>"

definition opager_limits :: "nat \<Rightarrow> nat \<Rightarrow> ('c, 'row) opager \<Rightarrow> ('c, 'row) opager" where
  "opager_limits dflt mx p = p\<lparr>op_limits := \<lparr>lc_default = dflt, lc_max = mx\<rparr>\<rparr>"

definition opager_fetch ::
    "cursor_codec \<Rightarrow> value_codec \<Rightarrow> number_ops \<Rightarrow> ('c, 'row) opager \<Rightarrow> 'row list \<Rightarrow> odata_query \<Rightarrow> ('row \<Rightarrow> 'd) \<Rightarrow>
     ('d page, odata_error) result" where
  "opager_fetch cc vc no p table q to_dto =
     paginate_with_odata cc vc no (op_fmap p) (into_inner (sc_find (op_entity p) (op_ctx p)))
       (cn_query (op_conn p) table) q (op_tiebreaker p) (op_limits p) to_dto"

section \<open>The policy\<close>

text \<open>Which rows a scope gives access to, as the policy rules of \<open>cond.rs\<close> say: nothing for an empty scope; tenants
  restrict unless the scope is root; resources always restrict; an entity without the needed column is
  never accessible.\<close>

definition column_in :: "sql_sem \<Rightarrow> ('c \<Rightarrow> sea_value) \<Rightarrow> 'c option \<Rightarrow> uuid list \<Rightarrow> bool" where
  "column_in sem r c ids =
     (case c of None \<Rightarrow> False | Some c \<Rightarrow> sql_in sem (r c) (map uuid_value ids) = Some True)"

definition in_scope :: "sql_sem \<Rightarrow> 'c scopable_entity \<Rightarrow> access_scope \<Rightarrow> ('c \<Rightarrow> sea_value) \<Rightarrow> bool" where
  "in_scope sem E scope r \<longleftrightarrow>
     (is_root scope \<or> tenant_ids scope \<noteq> [] \<or> resource_ids scope \<noteq> []) \<and>
     (is_root scope \<or> tenant_ids scope = [] \<or> column_in sem r (se_tenant_col E) (tenant_ids scope)) \<and>
     (resource_ids scope = [] \<or> column_in sem r (se_resource_col E) (resource_ids scope))"

lemma deny_all_never [simp]: "eval_condition sem r deny_all \<noteq> Some True"
  by (simp add: deny_all_def cond_all_def)

lemma eval_all_one [simp]: "eval_condition sem r (cond_add e cond_all) = eval_cexpr sem r e"
  by (simp add: cond_all_def)

lemma eval_all_two:
  "eval_condition sem r (cond_add b (cond_add a cond_all)) = Some True \<longleftrightarrow>
     eval_cexpr sem r a = Some True \<and> eval_cexpr sem r b = Some True"
  by (auto simp: cond_all_def tri_and_True_iff)

lemma eval_nothing [simp]: "eval_condition sem r cond_all = Some True"
  by (simp add: cond_all_def)

lemma scope_condition_in_scope:
  "eval_condition sem r (build_scope_condition E scope) = Some True \<longleftrightarrow> in_scope sem E scope r"
proof (cases "scope_is_empty scope")
  case True
  then show ?thesis by (auto simp: build_scope_condition_def in_scope_def scope_is_empty_def split: if_splits)
next
  case False
  then show ?thesis
    by (cases "is_root scope"; cases "tenant_ids scope = []"; cases "resource_ids scope = []";
        cases "se_tenant_col E"; cases "se_resource_col E")
      (simp_all add: build_scope_condition_def in_scope_def tenant_condition_def column_in_def scope_is_empty_def
        eval_all_two del: eval_condition.simps)
qed

lemma answer_selected:
  assumes "sql_answer sem col table s rows" "r \<in> set rows"
  shows "r \<in> set table \<and> row_selected sem (col r) (sel_where s)"
proof -
  from assms(1) obtain full where full: "mset full = mset (filter (\<lambda>r. row_selected sem (col r) (sel_where s)) table)"
    "rows = (case sel_limit s of None \<Rightarrow> drop (sel_offset s) full | Some n \<Rightarrow> take n (drop (sel_offset s) full))"
    unfolding sql_answer_def by blast
  from full(2) have "set rows \<subseteq> set full" by (auto dest!: in_set_takeD in_set_dropD split: option.splits)
  with full(1) assms(2) have "r \<in> set (filter (\<lambda>r. row_selected sem (col r) (sel_where s)) table)"
    using mset_eq_setD by blast
  then show ?thesis by simp
qed

text \<open>The contract between the condition builder and everything that queries with it.\<close>

locale scope_policy =
  fixes sem :: sql_sem
    and cond :: "access_scope \<Rightarrow> 'c condition"
    and allowed :: "access_scope \<Rightarrow> ('c \<Rightarrow> sea_value) \<Rightarrow> bool"
  assumes cond_exact: "eval_condition sem r (cond scope) = Some True \<longleftrightarrow> allowed scope r"
    and empty_denied: "scope_is_empty scope \<Longrightarrow> \<not> allowed scope r"
begin

lemma selected_allowed: "cond scope \<in> set cs \<Longrightarrow> row_selected sem r cs \<Longrightarrow> allowed scope r"
  by (auto simp: row_selected_def cond_exact[symmetric])

lemma answer_allowed:
  assumes "cond scope \<in> set (sel_where s)" "sql_answer sem col table s rows" "r \<in> set rows"
  shows "r \<in> set table \<and> allowed scope (col r)"
  using answer_selected[OF assms(2,3)] selected_allowed[OF assms(1)] by blast

lemma empty_answers_nothing:
  assumes "scope_is_empty scope" "cond scope \<in> set (sel_where s)" "sql_answer sem col table s rows"
  shows "rows = []"
  using answer_allowed[OF assms(2,3)] empty_denied[OF assms(1)] by (cases rows) auto

lemma hit_allowed: "row_selected sem r (cs @ [cond scope]) \<longleftrightarrow> row_selected sem r cs \<and> allowed scope r"
  by (auto simp: row_selected_def cond_exact)

end

interpretation policy: scope_policy sem "build_scope_condition E" "in_scope sem E" for sem E
  by unfold_locales (auto simp: scope_condition_in_scope, simp add: in_scope_def scope_is_empty_def split: if_splits)

section \<open>Chains of scoped operations\<close>

text \<open>Every select a caller can execute: scoped from some plain select, then extended in any way the API
  offers.\<close>

inductive scoped_chain :: "'c scopable_entity \<Rightarrow> access_scope \<Rightarrow> 'c scoped_select \<Rightarrow> bool"
  for E :: "'c scopable_entity" and scope :: access_scope where
  scoped: "scoped_chain E scope (scope_with E scope (secure_select s))"
| filtered: "scoped_chain E scope s \<Longrightarrow> scoped_chain E scope (ss_filter c s)"
| ordered: "scoped_chain E scope s \<Longrightarrow> scoped_chain E scope (ss_order_by col d s)"
| limited: "scoped_chain E scope s \<Longrightarrow> scoped_chain E scope (ss_limit n s)"
| shifted: "scoped_chain E scope s \<Longrightarrow> scoped_chain E scope (ss_offset n s)"
| by_id: "scoped_chain E scope s \<Longrightarrow> and_id E' i s = Ok s' \<Longrightarrow> scoped_chain E scope s'"
| joined: "scoped_chain E scope s \<Longrightarrow> scoped_chain E scope (and_scope_for (qualify :: string \<Rightarrow> 'c) J scope' s)"
| exists: "scoped_chain E scope s \<Longrightarrow> scoped_chain E scope (scope_via_exists J scope' s)"

lemmas ss_defs = ss_filter_def ss_order_by_def ss_limit_def ss_offset_def sel_filter_def sel_order_by_def
  sel_set_limit_def sel_set_offset_def

lemma scoped_chain_cond:
  "scoped_chain E scope s \<Longrightarrow> build_scope_condition E scope \<in> set (sel_where (into_inner s))"
  by (induction rule: scoped_chain.induct)
    (auto simp: secure_select_def ss_defs and_id_def and_scope_for_def scope_via_exists_def res_simps split: option.splits)

lemma sc_find_chain: "scoped_chain E (ctx_scope ctx) (sc_find E ctx)"
  unfolding sc_find_def by (rule scoped)

lemma sc_find_by_id_chain: "sc_find_by_id E ctx i = Ok s \<Longrightarrow> scoped_chain E (ctx_scope ctx) s"
  unfolding sc_find_by_id_def by (rule by_id[OF sc_find_chain])

text \<open>The connection answers selects as SQL says.\<close>

definition answers_sql :: "('c, 'row) conn \<Rightarrow> bool" where
  "answers_sql cn \<longleftrightarrow> (\<forall>table s rows. cn_query cn table s = Ok rows \<longrightarrow> sql_answer (cn_sem cn) (cn_col cn) table s rows)"

lemma chain_answer_allowed:
  assumes "answers_sql cn" "scoped_chain E scope s" "cn_query cn table s' = Ok rows" "r \<in> set rows"
    "sel_where s' = sel_where (into_inner s) @ extra"
  shows "r \<in> set table \<and> in_scope (cn_sem cn) E scope (cn_col cn r)"
proof -
  have "build_scope_condition E scope \<in> set (sel_where s')" using scoped_chain_cond[OF assms(2)] assms(5) by simp
  moreover have "sql_answer (cn_sem cn) (cn_col cn) table s' rows" using assms(1,3) by (simp add: answers_sql_def)
  ultimately show ?thesis using assms(4) by (rule policy.answer_allowed)
qed

text \<open>Reading the policy on UUID columns, where the database's equality is equality.\<close>

definition uuid_equality :: "sql_sem \<Rightarrow> bool" where
  "uuid_equality sem \<longleftrightarrow> (\<forall>a b. sv_eq sem (uuid_value a) (uuid_value b) \<longleftrightarrow> a = b)"

definition uuid_column :: "('c \<Rightarrow> sea_value) \<Rightarrow> 'c option \<Rightarrow> bool" where
  "uuid_column r c \<longleftrightarrow> (\<forall>c'. c = Some c' \<longrightarrow> (\<exists>u. r c' = SUuid u))"

definition column_id :: "('c \<Rightarrow> sea_value) \<Rightarrow> 'c option \<Rightarrow> uuid option" where
  "column_id r c = (case c of None \<Rightarrow> None | Some c \<Rightarrow> (case r c of SUuid u \<Rightarrow> u | _ \<Rightarrow> None))"

lemma column_in_uuid:
  assumes "uuid_equality sem" "uuid_column r c"
  shows "column_in sem r c ids \<longleftrightarrow> column_id r c \<in> Some ` set ids"
proof (cases c)
  case (Some c')
  with assms(2) obtain u where u: "r c' = SUuid u" by (auto simp: uuid_column_def)
  then show ?thesis using assms(1) Some
    by (cases u) (auto simp: column_in_def column_id_def sql_in_True sql_cmp_def uuid_value_def uuid_equality_def)
qed (auto simp: column_in_def column_id_def)

text \<open>Writes.\<close>

lemma db_update_scoped:
  assumes "db_update cn (u\<lparr>upd_where := cs @ [build_scope_condition E scope]\<rparr>) table = (res, table')"
  shows "length table' = length table \<and>
    (\<forall>i < length table. \<not> in_scope (cn_sem cn) E scope (cn_col cn (table ! i)) \<longrightarrow> table' ! i = table ! i)"
  using assms by (auto simp: db_update_def policy.hit_allowed split: option.splits)

lemma db_delete_scoped:
  assumes "db_delete cn (cs @ [build_scope_condition E scope]) table = (res, table')"
  shows "table' = table \<or> (\<exists>n. res = Ok n) \<and>
    table' = filter (\<lambda>r. \<not> (row_selected (cn_sem cn) (cn_col cn r) cs \<and> in_scope (cn_sem cn) E scope (cn_col cn r))) table"
  using assms by (auto simp: db_delete_def policy.hit_allowed split: option.splits)

lemma db_update_model_other:
  assumes "db_update_model cn pk am table = (res, table')"
  shows "length table' = length table \<and>
    (\<forall>i < length table. cn_col cn (table ! i) pk \<noteq> uuid_value (am_key am) \<longrightarrow> table' ! i = table ! i)"
  using assms by (auto simp: db_update_model_def Let_def split: option.splits)

text \<open>The select behind a page extends the one it was given.\<close>

lemma fold_order_by [simp]:
  "sel_where (fold (\<lambda>(c, d). sel_order_by c d) cs s) = sel_where s"
  by (induction cs arbitrary: s) (auto simp: sel_order_by_def)

lemma order_page_where: "apply_odata_order_page m ob s = Ok s' \<Longrightarrow> sel_where s' = sel_where s"
  by (auto simp: apply_odata_order_page_def res_simps)

lemma set_trim_rows: "set (trim_rows b n rows) \<subseteq> set rows"
  by (auto simp: trim_rows_def Let_def dest: in_set_takeD in_set_butlastD split: if_splits)

lemma paginate_with_odata_rows:
  assumes "paginate_with_odata cc vc no m select db q tb cfg f = Ok p"
  shows "\<exists>s rows extra. db s = Ok rows \<and> sel_where s = sel_where select @ extra \<and> set (items p) \<subseteq> f ` set rows"
proof -
  obtain s1 s2 s3 ob fetched where s:
    "(case q_filter q of None \<Rightarrow> Ok select
       | Some ast \<Rightarrow> and_then (map_err (\<lambda>e. InvalidFilter (show_build_error e)) (expr_to_condition no m ast))
           (\<lambda>c. Ok (sel_filter c select))) = Ok s1"
    "(case q_cursor q of None \<Rightarrow> Ok s1
       | Some cur \<Rightarrow> and_then (map_err (\<lambda>_. InvalidCursor) (fm_build_cursor_predicate vc m cur ob))
           (\<lambda>c. Ok (sel_filter c s1))) = Ok s2"
    "apply_odata_order_page m (if is_backward q then reverse_directions ob else ob) s2 = Ok s3"
    "db (sel_set_limit (u64_succ (clamp_limit (q_limit q) cfg)) s3) = Ok fetched"
    "items p = map f (trim_rows (is_backward q) (clamp_limit (q_limit q) cfg) fetched)"
    using assms unfolding paginate_with_odata_def Let_def and_then_Ok_iff map_err_Ok_iff by force
  have "\<exists>extra. sel_where s3 = sel_where select @ extra"
    using s(1,2) order_page_where[OF s(3)] by (auto simp: sel_filter_def res_simps split: option.splits)
  moreover have "set (items p) \<subseteq> f ` set fetched" using s(5) set_trim_rows by fastforce
  ultimately show ?thesis using s(4) by (intro exI[of _ "sel_set_limit (u64_succ (clamp_limit (q_limit q) cfg)) s3"])
      (auto simp: sel_set_limit_def)
qed

lemma ss_one_Some:
  assumes "ss_one cn table s = Ok (Some r)"
  shows "\<exists>rows. cn_query cn table (sel_set_limit 1 (into_inner s)) = Ok rows \<and> r \<in> set rows"
proof -
  obtain rows where rows: "cn_query cn table (sel_set_limit 1 (into_inner s)) = Ok rows"
    "(case rows of [] \<Rightarrow> None | r # _ \<Rightarrow> Some r) = Some r"
    using assms by (auto simp: ss_one_def res_simps)
  then show ?thesis by (cases rows) auto
qed

lemma find_by_id_hit:
  assumes "answers_sql cn" "uuid_equality (cn_sem cn)" "se_resource_col E = Some pk"
    "\<forall>r \<in> set table. uuid_column (cn_col cn r) (Some pk)"
    "and_then (sc_find_by_id E ctx i) (ss_one cn table) = Ok (Some r)"
  shows "r \<in> set table \<and> cn_col cn r pk = uuid_value i \<and> in_scope (cn_sem cn) E (ctx_scope ctx) (cn_col cn r)"
proof -
  let ?c = "cond_add (Simple (ColEq pk (uuid_value i))) cond_all"
  let ?s = "sel_set_limit 1 (into_inner (ss_filter ?c (sc_find E ctx)))"
  have s: "sc_find_by_id E ctx i = Ok (ss_filter ?c (sc_find E ctx))"
    by (simp add: sc_find_by_id_def and_id_def assms(3))
  have "ss_one cn table (ss_filter ?c (sc_find E ctx)) = Ok (Some r)" using assms(5) by (simp add: s)
  from ss_one_Some[OF this] obtain rows where rows: "cn_query cn table ?s = Ok rows" "r \<in> set rows" by blast
  have mem: "r \<in> set table \<and> in_scope (cn_sem cn) E (ctx_scope ctx) (cn_col cn r)"
    by (rule chain_answer_allowed[OF assms(1) sc_find_by_id_chain[OF s] rows, of "[]"]) (simp add: sel_set_limit_def)
  have "sql_answer (cn_sem cn) (cn_col cn) table ?s rows" using assms(1) rows(1) by (simp add: answers_sql_def)
  from answer_selected[OF this rows(2)] have "eval_condition (cn_sem cn) (cn_col cn r) ?c = Some True"
    by (simp add: ss_defs row_selected_def del: eval_condition.simps)
  moreover obtain u where "cn_col cn r pk = SUuid u" using assms(4) mem by (auto simp: uuid_column_def)
  ultimately have "cn_col cn r pk = uuid_value i"
    using assms(2) by (cases u) (auto simp: sql_cmp_def uuid_value_def uuid_equality_def)
  with mem show ?thesis by blast
qed

section \<open>An example entity\<close>

text \<open>A two-column entity: rows are pairs of an id and a tenant.\<close>

fun uuid_key :: "sea_value \<Rightarrow> nat" where
  "uuid_key (SUuid (Some u)) = u"
| "uuid_key _ = 0"

definition uuid_sem :: sql_sem where
  "uuid_sem = demo_sem\<lparr>sv_lt := (\<lambda>a b. uuid_key a < uuid_key b)\<rparr>"

definition doc_col :: "nat \<times> nat \<Rightarrow> string \<Rightarrow> sea_value" where
  "doc_col r c = uuid_value (if c = ''id'' then fst r else snd r)"

definition doc_entity :: "string scopable_entity" where
  "doc_entity = \<lparr>se_table = ''docs'', se_tenant_col = Some ''tenant_id'', se_resource_col = Some ''id'',
     se_owner_col = None, se_type_col = None\<rparr>"

definition doc_conn :: "(string, nat \<times> nat) conn" where
  "doc_conn = \<lparr>cn_sem = uuid_sem, cn_col = doc_col, cn_query = (\<lambda>table s. Ok (run_select uuid_sem doc_col table s)),
     cn_fault = None\<rparr>"

definition docs :: "(nat \<times> nat) list" where
  "docs = [(1, 7), (2, 8), (3, 7)]"

lemma uuid_sem_equality: "uuid_equality uuid_sem"
  by (auto simp: uuid_equality_def uuid_sem_def sv_eq_def uuid_value_def)

lemma doc_conn_answers: "answers_sql doc_conn"
proof -
  have "sv_lt uuid_sem a b \<longleftrightarrow> uuid_key a < uuid_key b" for a b by (simp add: uuid_sem_def)
  from run_select_answers[of uuid_sem uuid_key, OF this] show ?thesis by (auto simp: answers_sql_def doc_conn_def)
qed

lemma doc_columns: "uuid_column (doc_col r) c"
  by (auto simp: uuid_column_def doc_col_def uuid_value_def)

section \<open>Properties\<close>

text \<open>C10. The scope condition is true on exactly the rows the policy allows: none for an empty scope; those of
  the scope's tenants, unless it is root; those among its resources, if it names any; and none of an entity that
  lacks the column a restriction needs.\<close>

theorem scope_condition_is_the_policy:
  assumes "uuid_equality sem" "uuid_column r (se_tenant_col E)" "uuid_column r (se_resource_col E)"
  shows "eval_condition sem r (build_scope_condition E scope) = Some True \<longleftrightarrow>
    \<not> scope_is_empty scope \<and>
    (is_root scope \<or> tenant_ids scope = [] \<or> column_id r (se_tenant_col E) \<in> Some ` set (tenant_ids scope)) \<and>
    (resource_ids scope = [] \<or> column_id r (se_resource_col E) \<in> Some ` set (resource_ids scope))"
  unfolding scope_condition_in_scope in_scope_def column_in_uuid[OF assms(1,2)] column_in_uuid[OF assms(1,3)]
  by (auto simp: scope_is_empty_def)

text \<open>C3. Whatever a caller adds to a scoped select, every row it returns is in the table and allowed by the
  policy; under an empty scope it returns nothing.\<close>

theorem scoped_reads_isolated:
  assumes "answers_sql cn" "scoped_chain E scope s"
  shows "(\<forall>rows r. ss_all cn table s = Ok rows \<and> r \<in> set rows \<longrightarrow>
        r \<in> set table \<and> in_scope (cn_sem cn) E scope (cn_col cn r)) \<and>
    (\<forall>r. ss_one cn table s = Ok (Some r) \<longrightarrow> r \<in> set table \<and> in_scope (cn_sem cn) E scope (cn_col cn r)) \<and>
    (\<forall>rows. scope_is_empty scope \<and> ss_all cn table s = Ok rows \<longrightarrow> rows = [])"
proof (intro conjI allI impI)
  fix rows r
  assume "ss_all cn table s = Ok rows \<and> r \<in> set rows"
  then show "r \<in> set table" "in_scope (cn_sem cn) E scope (cn_col cn r)"
    using chain_answer_allowed[OF assms, of table "into_inner s" rows r "[]"] by (auto simp: ss_all_def)
next
  fix r
  assume "ss_one cn table s = Ok (Some r)"
  from ss_one_Some[OF this] obtain rows where "cn_query cn table (sel_set_limit 1 (into_inner s)) = Ok rows" "r \<in> set rows"
    by blast
  from chain_answer_allowed[OF assms this, of "[]"]
  show "r \<in> set table" "in_scope (cn_sem cn) E scope (cn_col cn r)" by (simp_all add: sel_set_limit_def)
next
  fix rows
  assume "scope_is_empty scope \<and> ss_all cn table s = Ok rows"
  then have e: "scope_is_empty scope" "sql_answer (cn_sem cn) (cn_col cn) table (into_inner s) rows"
    using assms(1) by (auto simp: ss_all_def answers_sql_def)
  show "rows = []" by (rule policy.empty_answers_nothing[OF e(1) scoped_chain_cond[OF assms(2)] e(2)])
qed

text \<open>C13. Scoped writes stay inside the scope: an update leaves every row outside it as it was, a delete keeps
  them all, and deleting by id removes exactly the rows with that id inside the scope and says whether there
  was one.\<close>

theorem scoped_writes_isolated:
  "(\<forall>assign res table'. update_exec cn (sc_update_many E ctx assign) table = (res, table') \<longrightarrow>
      length table' = length table \<and>
      (\<forall>i < length table. \<not> in_scope (cn_sem cn) E (ctx_scope ctx) (cn_col cn (table ! i)) \<longrightarrow> table' ! i = table ! i)) \<and>
   (\<forall>res table'. delete_exec cn (sc_delete_many E ctx) table = (res, table') \<longrightarrow>
      filter (\<lambda>r. \<not> in_scope (cn_sem cn) E (ctx_scope ctx) (cn_col cn r)) table' =
      filter (\<lambda>r. \<not> in_scope (cn_sem cn) E (ctx_scope ctx) (cn_col cn r)) table) \<and>
   (\<forall>i b rcol table'. sc_delete_by_id cn E ctx i table = (Ok b, table') \<and> se_resource_col E = Some rcol \<longrightarrow>
      (let hit = (\<lambda>r. sql_cmp (sv_eq (cn_sem cn)) (cn_col cn r rcol) (uuid_value i) = Some True \<and>
             in_scope (cn_sem cn) E (ctx_scope ctx) (cn_col cn r))
       in table' = filter (\<lambda>r. \<not> hit r) table \<and> (b \<longleftrightarrow> (\<exists>r \<in> set table. hit r))))"
proof (intro conjI allI impI)
  fix assign res table'
  assume "update_exec cn (sc_update_many E ctx assign) table = (res, table')"
  then have "db_update cn (\<lparr>upd_where = [], upd_set = assign\<rparr>\<lparr>upd_where := [] @ [build_scope_condition E (ctx_scope ctx)]\<rparr>) table =
      (res, table')" by (simp add: sc_update_many_def secure_update_def)
  from db_update_scoped[OF this] show "length table' = length table"
    "\<And>i. i < length table \<Longrightarrow> \<not> in_scope (cn_sem cn) E (ctx_scope ctx) (cn_col cn (table ! i)) \<Longrightarrow> table' ! i = table ! i"
    by blast+
next
  fix res table'
  assume "delete_exec cn (sc_delete_many E ctx) table = (res, table')"
  then show "filter (\<lambda>r. \<not> in_scope (cn_sem cn) E (ctx_scope ctx) (cn_col cn r)) table' =
      filter (\<lambda>r. \<not> in_scope (cn_sem cn) E (ctx_scope ctx) (cn_col cn r)) table"
    using db_delete_scoped[of cn "[]" E "ctx_scope ctx" table res table']
    by (auto simp: sc_delete_many_def secure_delete_def row_selected_def intro: filter_cong)
next
  fix i b rcol table'
  assume "sc_delete_by_id cn E ctx i table = (Ok b, table') \<and> se_resource_col E = Some rcol"
  then show "let hit = (\<lambda>r. sql_cmp (sv_eq (cn_sem cn)) (cn_col cn r rcol) (uuid_value i) = Some True \<and>
           in_scope (cn_sem cn) E (ctx_scope ctx) (cn_col cn r))
     in table' = filter (\<lambda>r. \<not> hit r) table \<and> (b \<longleftrightarrow> (\<exists>r \<in> set table. hit r))"
    using policy.hit_allowed[of "cn_sem cn" _ "[cond_add (Simple (ColEq rcol (uuid_value i))) cond_all]" E "ctx_scope ctx"]
    by (auto simp: sc_delete_by_id_def secure_delete_def db_delete_def Let_def row_selected_def filter_empty_conv
        simp del: eval_condition.simps split: option.splits prod.splits result.splits)
qed

text \<open>A page fetched through the pager contains only rows of the table that the context's scope allows,
  whatever filter, order and cursor the client sent.\<close>

theorem pager_isolated:
  assumes "answers_sql (op_conn p)" "opager_fetch cc vc no p table q to_dto = Ok page"
  shows "set (items page) \<subseteq>
    to_dto ` {r \<in> set table. in_scope (cn_sem (op_conn p)) (op_entity p) (ctx_scope (op_ctx p)) (cn_col (op_conn p) r)}"
proof -
  obtain s rows extra where s: "cn_query (op_conn p) table s = Ok rows"
    "sel_where s = sel_where (into_inner (sc_find (op_entity p) (op_ctx p))) @ extra" "set (items page) \<subseteq> to_dto ` set rows"
    using paginate_with_odata_rows[OF assms(2)[unfolded opager_fetch_def]] by blast
  from chain_answer_allowed[OF assms(1) sc_find_chain s(1) _ s(2)] s(3) show ?thesis by blast
qed

text \<open>When the active model carries the key that was checked, an update with a context changes only rows in
  scope, and it is denied exactly when the check found no such row.\<close>

theorem update_with_ctx_checks_its_id:
  assumes "answers_sql cn" "uuid_equality (cn_sem cn)" "se_resource_col E = Some pk"
    "\<forall>r \<in> set table. uuid_column (cn_col cn r) (Some pk)"
    "\<forall>r \<in> set table. \<forall>r' \<in> set table. cn_col cn r pk = cn_col cn r' pk \<longrightarrow> r = r'"
    "am_key am = i" "sc_update_with_ctx cn pk E ctx i am table = (res, table')"
  shows "length table' = length table \<and>
    (\<forall>j < length table. table' ! j \<noteq> table ! j \<longrightarrow>
       cn_col cn (table ! j) pk = uuid_value i \<and> in_scope (cn_sem cn) E (ctx_scope ctx) (cn_col cn (table ! j)))"
proof (cases "and_then (sc_find_by_id E ctx i) (ss_one cn table)")
  case (Ok found)
  show ?thesis
  proof (cases found)
    case (Some r)
    from find_by_id_hit[OF assms(1-4)] Ok Some have r: "r \<in> set table" "cn_col cn r pk = uuid_value i"
      "in_scope (cn_sem cn) E (ctx_scope ctx) (cn_col cn r)" by blast+
    have "db_update_model cn pk am table = (res, table')" using assms(7) Ok Some by (simp add: sc_update_with_ctx_def)
    from db_update_model_other[OF this] assms(5,6) r show ?thesis by (metis nth_mem)
  qed (use assms(7) Ok in \<open>simp add: sc_update_with_ctx_def\<close>)
qed (use assms(7) in \<open>simp add: sc_update_with_ctx_def\<close>)

text \<open>Three operations do not keep to the scope. The key that \<open>update_with_ctx\<close> writes is the active
  model's, not the one it checked, so a context of tenant 7 that passes the id of its own document changes a
  document of tenant 8; \<open>insert\<close> accepts a row of any tenant from a context without any access; and the
  subquery of \<open>scope_via_exists\<close> is not correlated with the row, so it admits all rows or none.\<close>

theorem writes_and_exists_outside_the_scope:
  "(\<exists>(cn :: (string, nat \<times> nat) conn) E am table. answers_sql cn \<and>
      sc_update_with_ctx cn ''id'' E (for_tenant 7 1) 1 am table = (Ok (2, 0), [(1, 7), (2, 0)]) \<and> table = [(1, 7), (2, 8)]) \<and>
   (\<exists>cn :: (string, nat \<times> nat) conn. answers_sql cn \<and> (\<forall>am table.
      sc_insert cn anonymous am table = (Ok (am_row am), table @ [am_row am]))) \<and>
   (\<forall>(s :: string scoped_select) sem J scope. \<exists>k. \<forall>r.
      row_selected sem r (sel_where (into_inner (scope_via_exists J scope s))) \<longleftrightarrow>
      row_selected sem r (sel_where (into_inner s)) \<and> k)"
proof (intro conjI)
  let ?am = "\<lparr>am_key = 2, am_row = (2, 0), am_set = (\<lambda>r. (2, 0))\<rparr> :: (nat \<times> nat) active_model"
  have "sc_update_with_ctx doc_conn ''id'' doc_entity (for_tenant 7 1) 1 ?am [(1, 7), (2, 8)] = (Ok (2, 0), [(1, 7), (2, 0)])"
    by code_simp
  then show "\<exists>(cn :: (string, nat \<times> nat) conn) E am table. answers_sql cn \<and>
      sc_update_with_ctx cn ''id'' E (for_tenant 7 1) 1 am table = (Ok (2, 0), [(1, 7), (2, 0)]) \<and> table = [(1, 7), (2, 8)]"
    using doc_conn_answers by blast
next
  show "\<forall>(s :: string scoped_select) sem J scope. \<exists>k. \<forall>r.
      row_selected sem r (sel_where (into_inner (scope_via_exists J scope s))) \<longleftrightarrow>
      row_selected sem r (sel_where (into_inner s)) \<and> k"
    by (auto simp: scope_via_exists_def ss_defs row_selected_append row_selected_def[of _ _ "[_]"] split: option.splits)
next
  have "sc_insert doc_conn anonymous am table = (Ok (am_row am), table @ [am_row am])" for am table
    by (simp add: sc_insert_def secure_insert_def db_insert_model_def doc_conn_def)
  then show "\<exists>cn :: (string, nat \<times> nat) conn. answers_sql cn \<and> (\<forall>am table.
      sc_insert cn anonymous am table = (Ok (am_row am), table @ [am_row am]))" using doc_conn_answers by blast
qed

section \<open>Witnesses\<close>

theorem scope_condition_is_the_policy_witness:
  "eval_condition uuid_sem (doc_col (1, 7)) (build_scope_condition doc_entity (scope_tenant 7)) = Some True \<and>
   eval_condition uuid_sem (doc_col (2, 8)) (build_scope_condition doc_entity (scope_tenant 7)) \<noteq> Some True"
  unfolding scope_condition_is_the_policy[OF uuid_sem_equality doc_columns doc_columns]
  by (auto simp: scope_defs column_id_def doc_entity_def doc_col_def uuid_value_def)

theorem scoped_reads_isolated_witness:
  "ss_all doc_conn docs (ss_limit 5 (sc_find doc_entity (for_tenant 7 1))) = Ok [(1, 7), (3, 7)] \<and>
   in_scope uuid_sem doc_entity (scope_tenant 7) (doc_col (3, 7))"
proof -
  have q: "ss_all doc_conn docs (ss_limit 5 (sc_find doc_entity (for_tenant 7 1))) = Ok [(1, 7), (3, 7)]" by code_simp
  have c: "scoped_chain doc_entity (scope_tenant 7) (ss_limit 5 (sc_find doc_entity (for_tenant 7 1)))"
    using limited[OF sc_find_chain[of doc_entity "for_tenant 7 1"]] by (simp add: ctx_defs scope_tenant_def)
  have "in_scope (cn_sem doc_conn) doc_entity (scope_tenant 7) (cn_col doc_conn (3, 7))"
    using scoped_reads_isolated[OF doc_conn_answers c, of docs] q by auto
  with q show ?thesis by (simp add: doc_conn_def)
qed

theorem scoped_writes_isolated_witness:
  "snd (delete_exec doc_conn (sc_delete_many doc_entity (for_tenant 7 1)) docs) = [(2, 8)] \<and>
   filter (\<lambda>r. \<not> in_scope uuid_sem doc_entity (scope_tenant 7) (doc_col r)) [(2, 8)] =
   filter (\<lambda>r. \<not> in_scope uuid_sem doc_entity (scope_tenant 7) (doc_col r)) docs"
proof -
  have e: "delete_exec doc_conn (sc_delete_many doc_entity (for_tenant 7 1)) docs = (Ok 2, [(2, 8)])" by code_simp
  have s: "ctx_scope (for_tenant 7 1) = scope_tenant 7" by (simp add: ctx_defs scope_tenant_def)
  show ?thesis
    using scoped_writes_isolated[of doc_conn doc_entity "for_tenant 7 1" docs] e
    unfolding s by (auto simp: doc_conn_def)
qed

definition doc_pager :: "(string, nat \<times> nat) opager" where
  "doc_pager = opager_new doc_entity (for_tenant 7 1) doc_conn
     (fm_insert_with_extractor ''id'' ''id'' KUuid (\<lambda>r. show_nat (fst r)) [])"

theorem pager_isolated_witness:
  "\<exists>page. opager_fetch demo_codec demo_values demo_numbers doc_pager docs new_query fst = Ok page \<and> items page = [3, 1] \<and>
     set (items page) \<subseteq> fst ` {r \<in> set docs. in_scope uuid_sem doc_entity (scope_tenant 7) (doc_col r)}"
proof -
  let ?r = "opager_fetch demo_codec demo_values demo_numbers doc_pager docs new_query fst"
  have get: "fm_get (op_fmap doc_pager) ''id'' = Some \<lparr>fld_col = ''id'', fld_kind = KUuid, fld_extract = Some (\<lambda>r. show_nat (fst r))\<rparr>"
    by (simp add: doc_pager_def opager_new_def fm_insert_with_extractor_def fm_get_def)
  have q: "run_select uuid_sem doc_col docs \<lparr>sel_where = [build_scope_condition doc_entity (tenants_only [7])],
      sel_order = [(''id'', Desc)], sel_limit = Some 26, sel_offset = 0\<rparr> = [(3, 7), (1, 7)]" by code_simp
  obtain page where p: "?r = Ok page" "items page = [3, 1]"
    using get q
    by (auto simp: opager_fetch_def paginate_with_odata_def Let_def new_query_def effective_order_def ensure_tiebreaker_def
        check_filter_hash_def is_backward_def apply_odata_order_page_def resolve_field_def clamp_limit_def u64_succ_def
        trim_rows_def doc_pager_def opager_new_def sc_find_def secure_select_def sel_find_def sel_filter_def ctx_defs
        sel_order_by_def sel_set_limit_def doc_conn_def)
  have d: "op_conn doc_pager = doc_conn" "op_entity doc_pager = doc_entity" "ctx_scope (op_ctx doc_pager) = scope_tenant 7"
    by (simp_all add: doc_pager_def opager_new_def ctx_defs scope_tenant_def)
  have "answers_sql (op_conn doc_pager)" by (simp add: d doc_conn_answers)
  from pager_isolated[OF this p(1)] p show ?thesis by (simp add: d doc_conn_def)
qed

text \<open>An update of document 3 in tenant 7.\<close>

theorem update_with_ctx_checks_its_id_witness:
  "\<exists>res table'. sc_update_with_ctx doc_conn ''id'' doc_entity (for_tenant 7 1) 3 \<lparr>am_key = 3, am_row = (3, 9), am_set = (\<lambda>r. (3, 9))\<rparr> docs =
       (res, table') \<and> table' ! 2 = (3, 9) \<and> table' ! 1 = docs ! 1"
proof -
  let ?am = "\<lparr>am_key = 3, am_row = (3, 9), am_set = (\<lambda>r. (3, 9))\<rparr>"
  let ?u = "sc_update_with_ctx doc_conn ''id'' doc_entity (for_tenant 7 1) 3 ?am docs"
  have t: "snd ?u ! 2 = (3, 9)" by code_simp
  have "se_resource_col doc_entity = Some ''id''" by (simp add: doc_entity_def)
  moreover have "uuid_equality (cn_sem doc_conn)" by (simp add: doc_conn_def uuid_sem_equality)
  moreover have "\<forall>r \<in> set docs. uuid_column (cn_col doc_conn r) (Some ''id'')" by (simp add: doc_conn_def doc_columns)
  moreover have "\<forall>r \<in> set docs. \<forall>r' \<in> set docs. cn_col doc_conn r ''id'' = cn_col doc_conn r' ''id'' \<longrightarrow> r = r'"
    by (simp add: docs_def doc_conn_def doc_col_def uuid_value_def)
  moreover have "?u = (fst ?u, snd ?u)" by simp
  ultimately have "\<forall>j < length docs. snd ?u ! j \<noteq> docs ! j \<longrightarrow> cn_col doc_conn (docs ! j) ''id'' = uuid_value 3"
    using update_with_ctx_checks_its_id[OF doc_conn_answers, of doc_entity "''id''" docs ?am 3 "for_tenant 7 1" "fst ?u" "snd ?u"] by simp
  then have "snd ?u ! 1 = docs ! 1" by (auto simp: docs_def doc_conn_def doc_col_def uuid_value_def)
  with t show ?thesis by (intro exI[of _ "fst ?u"] exI[of _ "snd ?u"]) simp
qed

end
