(* ===== verification/Host_Runtime.thy ===== *)
theory Host_Runtime
  imports Module_Registry "HOL-Library.Sublist"
begin

text \<open>
  The host runtime of \<open>libs/modkit/src/runtime/host_runtime.rs\<close>: the phases system wiring, database
  migration, init, REST, gRPC, start, spawning of out-of-process modules, waiting and stop, with the installer
  store of \<open>grpc_installers.rs\<close>.

  The modules are code the runtime only calls. Every call is an event appended to a trace, and its outcome
  is a parameter (\<open>host_env\<close>) that may depend on the trace so far. A phase takes the world and returns its
  outcome with the new world, so an early return is an error with the events up to it.
\<close>

section \<open>Events and worlds\<close>

record spawn_config =
  sp_module_name :: string
  sp_binary :: string
  sp_args :: "string list"
  sp_env :: "(string \<times> string) list"
  sp_working_directory :: "string option"

datatype host_event =
    EvWire string
  | EvMigrate string
  | EvInit string
  | EvRestPrepare string
  | EvRestRegister string
  | EvRestFinalize string
  | EvGrpcServices string
  | EvStart string
  | EvSpawn spawn_config
  | EvCancelled
  | EvStop string

type_synonym router = "host_event list"

record module_installers =
  ins_module :: string
  ins_services :: "string list"

type_synonym installer_store = "module_installers list option"

definition store_set :: "module_installers list \<Rightarrow> installer_store \<Rightarrow> (installer_store, string) result" where
  "store_set data st =
     (if st \<noteq> None then Err ''gRPC installers already initialized'' else Ok (Some data))"

definition store_take :: "installer_store \<Rightarrow> module_installers list option \<times> installer_store" where
  "store_take st = (st, None)"

definition store_is_empty :: "installer_store \<Rightarrow> bool" where
  "store_is_empty st \<longleftrightarrow> st = None"

record host_world =
  hw_trace :: "host_event list"
  hw_store :: installer_store

text \<open>The outside: \<open>for_module\<close> (whether the context has a database handle), the modules' methods, the
  services of a gRPC module, the hub's endpoint and the clock of the polling loop.\<close>

record host_env =
  he_context :: "host_event list \<Rightarrow> string \<Rightarrow> (bool, string) result"
  he_run :: "host_event list \<Rightarrow> host_event \<Rightarrow> (unit, string) result"
  he_services :: "host_event list \<Rightarrow> string \<Rightarrow> (string list, string) result"
  he_system :: "string \<Rightarrow> bool"
  he_endpoint :: "nat \<Rightarrow> string option"
  he_elapsed_ms :: "nat \<Rightarrow> nat"

type_synonym 'a host = "host_world \<Rightarrow> ('a, registry_error) result \<times> host_world"

definition host_ok :: "'a \<Rightarrow> 'a host" where
  "host_ok x w = (Ok x, w)"

definition host_err :: "registry_error \<Rightarrow> 'a host" where
  "host_err e w = (Err e, w)"

definition host_bind :: "'a host \<Rightarrow> ('a \<Rightarrow> 'b host) \<Rightarrow> 'b host" where
  "host_bind m f w = (case m w of (Ok x, w') \<Rightarrow> f x w' | (Err e, w') \<Rightarrow> (Err e, w'))"

fun host_each :: "('x \<Rightarrow> unit host) \<Rightarrow> 'x list \<Rightarrow> unit host" where
  "host_each f [] = host_ok ()"
| "host_each f (x # xs) = host_bind (f x) (\<lambda>_. host_each f xs)"

definition host_call :: "host_env \<Rightarrow> host_event \<Rightarrow> (string \<Rightarrow> registry_error) \<Rightarrow> unit host" where
  "host_call env ev mk w =
     (map_err mk (he_run env (hw_trace w) ev), w\<lparr>hw_trace := hw_trace w @ [ev]\<rparr>)"

definition for_module :: "host_env \<Rightarrow> string \<Rightarrow> (string \<Rightarrow> registry_error) \<Rightarrow> bool host" where
  "for_module env name mk w = (map_err mk (he_context env (hw_trace w) name), w)"

section \<open>Phases\<close>

definition wire_system :: "host_env \<Rightarrow> module_registry \<Rightarrow> unit host" where
  "wire_system env reg =
     host_each (\<lambda>e. if me_is_system e \<and> he_system env (me_name e)
         then (\<lambda>w. (Ok (), w\<lparr>hw_trace := hw_trace w @ [EvWire (me_name e)]\<rparr>)) else host_ok ())
       (mr_modules reg)"

definition run_db_phase :: "host_env \<Rightarrow> module_registry \<Rightarrow> unit host" where
  "run_db_phase env reg =
     host_each (\<lambda>e.
       host_bind (for_module env (me_name e) (DbMigrate (me_name e))) (\<lambda>has_db.
         if has_db \<and> me_db e \<noteq> None then host_call env (EvMigrate (me_name e)) (DbMigrate (me_name e))
         else host_ok ()))
       (modules_by_system_priority reg)"

definition run_init_phase :: "host_env \<Rightarrow> module_registry \<Rightarrow> unit host" where
  "run_init_phase env reg =
     host_each (\<lambda>e.
       host_bind (for_module env (me_name e) (Init (me_name e))) (\<lambda>_.
         host_call env (EvInit (me_name e)) (Init (me_name e))))
       (modules_by_system_priority reg)"

fun register_all :: "host_env \<Rightarrow> module_entry list \<Rightarrow> router \<Rightarrow> router host" where
  "register_all env [] router = host_ok router"
| "register_all env (e # es) router =
     (if me_rest e \<noteq> None then
        host_bind (for_module env (me_name e) (RestRegister (me_name e))) (\<lambda>_.
        host_bind (host_call env (EvRestRegister (me_name e)) (RestRegister (me_name e))) (\<lambda>_.
          register_all env es (router @ [EvRestRegister (me_name e)])))
      else register_all env es router)"

definition run_rest_phase :: "host_env \<Rightarrow> module_registry \<Rightarrow> router host" where
  "run_rest_phase env reg =
     (let hosts = filter (\<lambda>e. me_rest_host e \<noteq> None) (mr_modules reg)
      in if length hosts = 0 then
           (if \<exists>e \<in> set (mr_modules reg). me_rest e \<noteq> None then host_err RestRequiresHost else host_ok [])
         else if length hosts \<noteq> 1 then host_err MultipleRestHosts
         else (case find (\<lambda>e. me_rest_host e \<noteq> None) (mr_modules reg) of
                 None \<Rightarrow> host_err RestHostNotFoundAfterValidation
               | Some h \<Rightarrow>
                   host_bind (for_module env (me_name h) (RestPrepare (me_name h))) (\<lambda>_.
                   host_bind (host_call env (EvRestPrepare (me_name h)) (RestPrepare (me_name h))) (\<lambda>_.
                   host_bind (register_all env (mr_modules reg) [EvRestPrepare (me_name h)]) (\<lambda>router.
                   host_bind (host_call env (EvRestFinalize (me_name h)) (RestFinalize (me_name h))) (\<lambda>_.
                     host_ok (router @ [EvRestFinalize (me_name h)])))))))"

fun first_duplicate :: "string list \<Rightarrow> string list \<Rightarrow> string option" where
  "first_duplicate seen [] = None"
| "first_duplicate seen (s # ss) = (if s \<in> set seen then Some s else first_duplicate (s # seen) ss)"

fun collect_services ::
    "host_env \<Rightarrow> (string \<times> arc) list \<Rightarrow> string list \<Rightarrow> module_installers list \<Rightarrow> module_installers list host" where
  "collect_services env [] seen data = host_ok data"
| "collect_services env ((name, _) # ms) seen data =
     host_bind (for_module env name (GrpcRegister name)) (\<lambda>_ w.
       let w' = w\<lparr>hw_trace := hw_trace w @ [EvGrpcServices name]\<rparr>
       in case he_services env (hw_trace w) name of
            Err err \<Rightarrow> (Err (GrpcRegister name err), w')
          | Ok services \<Rightarrow>
              (case first_duplicate seen services of
                 Some s \<Rightarrow> (Err (GrpcRegister name (''Duplicate gRPC service name: '' @ s)), w')
               | None \<Rightarrow> collect_services env ms (services @ seen)
                   (data @ [\<lparr>ins_module = name, ins_services = services\<rparr>]) w'))"

definition run_grpc_phase :: "host_env \<Rightarrow> module_registry \<Rightarrow> unit host" where
  "run_grpc_phase env reg =
     (case mr_grpc_hub reg of
        None \<Rightarrow> if mr_grpc_services reg = [] then host_ok () else host_err GrpcRequiresHub
      | Some hub \<Rightarrow>
          host_bind (collect_services env (mr_grpc_services reg) [] []) (\<lambda>data w.
            case store_set data (hw_store w) of
              Err err \<Rightarrow> (Err (GrpcRegister hub err), w)
            | Ok st \<Rightarrow> (Ok (), w\<lparr>hw_store := st\<rparr>)))"

definition run_start_phase :: "host_env \<Rightarrow> module_registry \<Rightarrow> unit host" where
  "run_start_phase env reg =
     host_each (\<lambda>e. if me_stateful e \<noteq> None then host_call env (EvStart (me_name e)) (Start (me_name e)) else host_ok ())
       (modules_by_system_priority reg)"

text \<open>A failed stop is only logged.\<close>

definition stop_one_module :: "module_entry \<Rightarrow> unit host" where
  "stop_one_module e w =
     (Ok (), if me_stateful e \<noteq> None then w\<lparr>hw_trace := hw_trace w @ [EvStop (me_name e)]\<rparr> else w)"

definition run_stop_phase :: "module_registry \<Rightarrow> unit host" where
  "run_stop_phase reg = host_each stop_one_module (rev (mr_modules reg))"

section \<open>Out-of-process modules\<close>

record oop_module =
  om_module_name :: string
  om_binary :: string
  om_args :: "string list"
  om_env :: "(string \<times> string) list"
  om_working_directory :: "string option"
  om_rendered_config_json :: string

definition POLL_INTERVAL_MS :: nat where "POLL_INTERVAL_MS = 10"
definition MAX_WAIT_MS :: nat where "MAX_WAIT_MS = 5000"

text \<open>The loop of \<open>wait_for_grpc_hub_endpoint\<close> from its \<open>n\<close>-th round; \<open>None\<close> when the fuel runs out.\<close>

fun poll_endpoint :: "host_env \<Rightarrow> nat \<Rightarrow> nat \<Rightarrow> string option option" where
  "poll_endpoint env 0 n = None"
| "poll_endpoint env (Suc fuel) n =
     (case he_endpoint env n of
        Some ep \<Rightarrow> Some (Some ep)
      | None \<Rightarrow> if he_elapsed_ms env n > MAX_WAIT_MS then Some None else poll_endpoint env fuel (Suc n))"

definition poll_rounds :: nat where "poll_rounds = MAX_WAIT_MS div POLL_INTERVAL_MS + 2"

definition wait_for_grpc_hub_endpoint :: "host_env \<Rightarrow> module_registry \<Rightarrow> string option option" where
  "wait_for_grpc_hub_endpoint env reg =
     (if \<forall>e \<in> set (mr_modules reg). me_grpc_hub e = None then Some None else poll_endpoint env poll_rounds 0)"

definition spawn_env :: "oop_module \<Rightarrow> string option \<Rightarrow> (string \<times> string) list" where
  "spawn_env m endpoint =
     (let env = AList.update ''MODKIT_MODULE_CONFIG'' (om_rendered_config_json m) (om_env m)
      in case endpoint of Some ep \<Rightarrow> AList.update ''MODKIT_DIRECTORY_ENDPOINT'' ep env | None \<Rightarrow> env)"

definition spawn_config_of :: "oop_module \<Rightarrow> string option \<Rightarrow> spawn_config" where
  "spawn_config_of m endpoint =
     \<lparr>sp_module_name = om_module_name m, sp_binary = om_binary m, sp_args = om_args m,
      sp_env = spawn_env m endpoint, sp_working_directory = om_working_directory m\<rparr>"

definition run_oop_spawn_phase :: "host_env \<Rightarrow> module_registry \<Rightarrow> oop_module list option \<Rightarrow> unit host" where
  "run_oop_spawn_phase env reg oop =
     (case oop of
        None \<Rightarrow> host_ok ()
      | Some [] \<Rightarrow> host_ok ()
      | Some ms \<Rightarrow>
          let endpoint = (case wait_for_grpc_hub_endpoint env reg of Some ep \<Rightarrow> ep | None \<Rightarrow> None)
          in host_each (\<lambda>m. host_call env (EvSpawn (spawn_config_of m endpoint)) (OopSpawn (om_module_name m))) ms)"

section \<open>The whole run\<close>

definition wait_cancelled :: "unit host" where
  "wait_cancelled w = (Ok (), w\<lparr>hw_trace := hw_trace w @ [EvCancelled]\<rparr>)"

definition run_module_phases :: "host_env \<Rightarrow> module_registry \<Rightarrow> oop_module list option \<Rightarrow> unit host" where
  "run_module_phases env reg oop =
     host_bind (wire_system env reg) (\<lambda>_.
     host_bind (run_db_phase env reg) (\<lambda>_.
     host_bind (run_init_phase env reg) (\<lambda>_.
     host_bind (run_rest_phase env reg) (\<lambda>_.
     host_bind (run_grpc_phase env reg) (\<lambda>_.
     host_bind (run_start_phase env reg) (\<lambda>_.
     host_bind (run_oop_spawn_phase env reg oop) (\<lambda>_.
     host_bind wait_cancelled (\<lambda>_.
       run_stop_phase reg))))))))"

definition new_world :: host_world where
  "new_world = \<lparr>hw_trace = [], hw_store = None\<rparr>"

section \<open>Traces of successful phases\<close>

lemma host_bind_Ok:
  "host_bind m f w = (Ok y, w'') \<longleftrightarrow> (\<exists>x w'. m w = (Ok x, w') \<and> f x w' = (Ok y, w''))"
  by (auto simp: host_bind_def split: prod.splits result.splits)

lemma host_call_Ok: "host_call env ev mk w = (Ok x, w') \<Longrightarrow> hw_trace w' = hw_trace w @ [ev]"
  by (auto simp: host_call_def)

lemma for_module_world: "for_module env n mk w = (r, w') \<Longrightarrow> w' = w"
  by (auto simp: for_module_def)

lemma host_each_Ok:
  assumes "\<And>x w w'. x \<in> set xs \<Longrightarrow> f x w = (Ok (), w') \<Longrightarrow> hw_trace w' = hw_trace w @ g x"
  shows "host_each f xs w = (Ok (), w') \<Longrightarrow> hw_trace w' = hw_trace w @ concat (map g xs)"
  using assms
proof (induction xs arbitrary: w)
  case (Cons x xs)
  then show ?case by (fastforce simp: host_bind_Ok)
qed (auto simp: host_ok_def)

lemma concat_if_filter: "concat (map (\<lambda>e. if P e then [h e] else []) es) = map h (filter P es)"
  by (induction es) auto

lemma wire_system_trace:
  "wire_system env reg w = (Ok (), w') \<Longrightarrow>
     hw_trace w' = hw_trace w @ map (\<lambda>e. EvWire (me_name e)) (filter (\<lambda>e. me_is_system e \<and> he_system env (me_name e)) (mr_modules reg))"
  unfolding wire_system_def concat_if_filter[symmetric]
  by (rule host_each_Ok) (auto simp: host_ok_def split: if_splits)

lemma init_trace:
  "run_init_phase env reg w = (Ok (), w') \<Longrightarrow>
     hw_trace w' = hw_trace w @ map (\<lambda>e. EvInit (me_name e)) (modules_by_system_priority reg)"
  using host_each_Ok[of "modules_by_system_priority reg" "\<lambda>e. host_bind (for_module env (me_name e) (Init (me_name e)))
      (\<lambda>_. host_call env (EvInit (me_name e)) (Init (me_name e)))" "\<lambda>e. [EvInit (me_name e)]" w w']
  by (auto simp: run_init_phase_def host_bind_Ok dest!: host_call_Ok for_module_world)

lemma start_trace:
  "run_start_phase env reg w = (Ok (), w') \<Longrightarrow>
     hw_trace w' = hw_trace w @ map (\<lambda>e. EvStart (me_name e)) (filter (\<lambda>e. me_stateful e \<noteq> None) (modules_by_system_priority reg))"
  unfolding run_start_phase_def concat_if_filter[symmetric]
  by (rule host_each_Ok) (auto simp: host_ok_def dest!: host_call_Ok split: if_splits)

lemma stop_trace:
  "run_stop_phase reg w = (Ok (), w') \<Longrightarrow>
     hw_trace w' = hw_trace w @ map (\<lambda>e. EvStop (me_name e)) (filter (\<lambda>e. me_stateful e \<noteq> None) (rev (mr_modules reg)))"
  unfolding run_stop_phase_def concat_if_filter[symmetric]
  by (rule host_each_Ok) (auto simp: stop_one_module_def split: if_splits)

lemma db_trace:
  assumes "run_db_phase env reg w = (Ok (), w')"
  shows "\<exists>ms. subseq ms (filter (\<lambda>e. me_db e \<noteq> None) (modules_by_system_priority reg)) \<and>
    hw_trace w' = hw_trace w @ map (\<lambda>e. EvMigrate (me_name e)) ms"
proof -
  let ?f = "\<lambda>e. host_bind (for_module env (me_name e) (DbMigrate (me_name e))) (\<lambda>has_db.
      if has_db \<and> me_db e \<noteq> None then host_call env (EvMigrate (me_name e)) (DbMigrate (me_name e)) else host_ok ())"
  have "\<exists>ms. subseq ms (filter (\<lambda>e. me_db e \<noteq> None) es) \<and> hw_trace w' = hw_trace w @ map (\<lambda>e. EvMigrate (me_name e)) ms"
    if "host_each ?f es w = (Ok (), w')" for es w
    using that
  proof (induction es arbitrary: w)
    case (Cons e es)
    then obtain w1 where w1: "?f e w = (Ok (), w1)" "host_each ?f es w1 = (Ok (), w')" by (auto simp: host_bind_Ok)
    from Cons.IH[OF w1(2)] obtain ms where ms: "subseq ms (filter (\<lambda>e. me_db e \<noteq> None) es)"
      "hw_trace w' = hw_trace w1 @ map (\<lambda>e. EvMigrate (me_name e)) ms" by blast
    from w1(1) consider "hw_trace w1 = hw_trace w @ [EvMigrate (me_name e)]" "me_db e \<noteq> None" | "w1 = w"
      by (auto simp: host_bind_Ok host_ok_def dest!: for_module_world host_call_Ok split: if_splits)
    then show ?case
    proof cases
      case 1
      with ms show ?thesis by (intro exI[of _ "e # ms"]) simp
    next
      case 2
      with ms show ?thesis by (intro exI[of _ ms]) auto
    qed
  qed (auto simp: host_ok_def)
  with assms show ?thesis unfolding run_db_phase_def by blast
qed

lemma register_all_trace:
  "register_all env es router w = (Ok r, w') \<Longrightarrow>
     hw_trace w' = hw_trace w @ map (\<lambda>e. EvRestRegister (me_name e)) (filter (\<lambda>e. me_rest e \<noteq> None) es)"
  by (induction es arbitrary: router w)
    (auto simp: host_ok_def host_bind_Ok dest!: host_call_Ok for_module_world split: if_splits)

definition rest_events :: "module_registry \<Rightarrow> host_event list" where
  "rest_events reg =
     (case find (\<lambda>e. me_rest_host e \<noteq> None) (mr_modules reg) of
        None \<Rightarrow> []
      | Some h \<Rightarrow> EvRestPrepare (me_name h) #
          map (\<lambda>e. EvRestRegister (me_name e)) (filter (\<lambda>e. me_rest e \<noteq> None) (mr_modules reg)) @
          [EvRestFinalize (me_name h)])"

lemma rest_trace:
  assumes "run_rest_phase env reg w = (Ok r, w')"
  shows "hw_trace w' = hw_trace w @ rest_events reg"
proof (cases "find (\<lambda>e. me_rest_host e \<noteq> None) (mr_modules reg)")
  case None
  then have "filter (\<lambda>e. me_rest_host e \<noteq> None) (mr_modules reg) = []" by (auto simp: find_None_iff filter_empty_conv)
  with assms None show ?thesis
    by (auto simp: run_rest_phase_def rest_events_def host_ok_def host_err_def split: if_splits)
next
  case (Some h)
  have ne: "filter (\<lambda>e. me_rest_host e \<noteq> None) (mr_modules reg) \<noteq> []"
    using Some by (auto simp: find_Some_iff filter_empty_conv)
  with assms Some show ?thesis
    by (auto simp: run_rest_phase_def rest_events_def host_ok_def host_err_def host_bind_Ok Let_def
        dest!: host_call_Ok for_module_world register_all_trace split: if_splits)
qed

lemma collect_services_trace:
  "collect_services env ms seen data w = (Ok d, w') \<Longrightarrow>
     hw_trace w' = hw_trace w @ map (\<lambda>m. EvGrpcServices (fst m)) ms \<and> hw_store w' = hw_store w"
proof (induction ms arbitrary: seen data w)
  case (Cons m ms)
  obtain name a where m: "m = (name, a)" by (cases m)
  let ?w = "w\<lparr>hw_trace := hw_trace w @ [EvGrpcServices name]\<rparr>"
  from Cons.prems obtain services where s: "he_services env (hw_trace w) name = Ok services"
    "first_duplicate seen services = None"
    "collect_services env ms (services @ seen) (data @ [\<lparr>ins_module = name, ins_services = services\<rparr>]) ?w = (Ok d, w')"
    by (cases "he_services env (hw_trace w) name"; cases "first_duplicate seen (case he_services env (hw_trace w) name of Ok s \<Rightarrow> s | Err _ \<Rightarrow> [])")
      (auto simp: m host_bind_Ok for_module_def Let_def)
  from Cons.IH[OF s(3)] show ?case by (simp add: m)
qed (auto simp: host_ok_def)

definition grpc_events :: "module_registry \<Rightarrow> host_event list" where
  "grpc_events reg =
     (if mr_grpc_hub reg = None then [] else map (\<lambda>m. EvGrpcServices (fst m)) (mr_grpc_services reg))"

lemma grpc_trace:
  assumes "run_grpc_phase env reg w = (Ok (), w')"
  shows "hw_trace w' = hw_trace w @ grpc_events reg"
proof (cases "mr_grpc_hub reg")
  case (Some hub)
  with assms obtain d w1 where "collect_services env (mr_grpc_services reg) [] [] w = (Ok d, w1)"
    "(case store_set d (hw_store w1) of Err err \<Rightarrow> (Err (GrpcRegister hub err), w1) | Ok st \<Rightarrow> (Ok (), w1\<lparr>hw_store := st\<rparr>)) = (Ok (), w')"
    by (auto simp: run_grpc_phase_def host_bind_Ok)
  then show ?thesis using Some
    by (cases "store_set d (hw_store w1)") (auto simp: grpc_events_def dest!: collect_services_trace)
qed (use assms in \<open>auto simp: run_grpc_phase_def grpc_events_def host_ok_def host_err_def split: if_splits\<close>)

definition spawn_events :: "host_env \<Rightarrow> module_registry \<Rightarrow> oop_module list option \<Rightarrow> host_event list" where
  "spawn_events env reg oop =
     (let endpoint = (case wait_for_grpc_hub_endpoint env reg of Some ep \<Rightarrow> ep | None \<Rightarrow> None)
      in map (\<lambda>m. EvSpawn (spawn_config_of m endpoint)) (case oop of None \<Rightarrow> [] | Some ms \<Rightarrow> ms))"

lemma spawn_trace:
  assumes "run_oop_spawn_phase env reg oop w = (Ok (), w')"
  shows "hw_trace w' = hw_trace w @ spawn_events env reg oop"
proof (cases oop)
  case (Some ms)
  let ?ep = "case wait_for_grpc_hub_endpoint env reg of Some ep \<Rightarrow> ep | None \<Rightarrow> None"
  let ?f = "\<lambda>m. host_call env (EvSpawn (spawn_config_of m ?ep)) (OopSpawn (om_module_name m))"
  have "run_oop_spawn_phase env reg oop = host_each ?f ms"
    using Some by (cases ms) (auto simp: run_oop_spawn_phase_def Let_def)
  then have "host_each ?f ms w = (Ok (), w')" using assms by simp
  then have "hw_trace w' = hw_trace w @ concat (map (\<lambda>m. [EvSpawn (spawn_config_of m ?ep)]) ms)"
    by (rule host_each_Ok[rotated]) (auto dest: host_call_Ok)
  then show ?thesis using Some by (simp add: spawn_events_def Let_def)
qed (use assms in \<open>simp add: run_oop_spawn_phase_def spawn_events_def host_ok_def\<close>)

text \<open>The polling loop ends: its fuel covers every clock on which a sleep takes at least the interval.\<close>

lemma poll_total:
  assumes "\<forall>n. n * POLL_INTERVAL_MS \<le> he_elapsed_ms env n"
  shows "501 < fuel + n \<Longrightarrow> n \<le> 501 \<Longrightarrow> \<exists>r. poll_endpoint env fuel n = Some r"
proof (induction fuel arbitrary: n)
  case (Suc fuel)
  have "n * 10 \<le> he_elapsed_ms env n" using assms by (simp add: POLL_INTERVAL_MS_def)
  then have "he_elapsed_ms env n \<le> MAX_WAIT_MS \<Longrightarrow> n \<le> 500" by (simp add: MAX_WAIT_MS_def)
  then show ?case using Suc.IH[of "Suc n"] Suc.prems by (auto split: option.splits)
qed simp

lemma wait_total:
  assumes "\<forall>n. n * POLL_INTERVAL_MS \<le> he_elapsed_ms env n"
  shows "\<exists>r. wait_for_grpc_hub_endpoint env reg = Some r"
  using poll_total[OF assms, of poll_rounds 0]
  by (auto simp: wait_for_grpc_hub_endpoint_def poll_rounds_def MAX_WAIT_MS_def POLL_INTERVAL_MS_def)

section \<open>Traces of failed runs\<close>

text \<open>Whatever its outcome, a phase only adds events of a set.\<close>

definition emits_in :: "host_event set \<Rightarrow> 'a host \<Rightarrow> bool" where
  "emits_in S m \<longleftrightarrow> (\<forall>w r w'. m w = (r, w') \<longrightarrow> (\<exists>t. hw_trace w' = hw_trace w @ t \<and> set t \<subseteq> S))"

lemma emits_in_ok [intro]: "emits_in S (host_ok x)" "emits_in S (host_err e)" "emits_in S (for_module env n mk)"
  by (auto simp: emits_in_def host_ok_def host_err_def for_module_def)

lemma emits_in_call [intro]: "ev \<in> S \<Longrightarrow> emits_in S (host_call env ev mk)"
  by (auto simp: emits_in_def host_call_def)

lemma emits_in_bind [intro]:
  assumes "emits_in S m" "\<And>x. emits_in S (f x)"
  shows "emits_in S (host_bind m f)"
  unfolding emits_in_def
proof (intro allI impI)
  fix w r w'
  assume b: "host_bind m f w = (r, w')"
  obtain r1 w1 where m: "m w = (r1, w1)" by (cases "m w")
  from assms(1) m obtain t where t: "hw_trace w1 = hw_trace w @ t" "set t \<subseteq> S" unfolding emits_in_def by blast
  show "\<exists>t. hw_trace w' = hw_trace w @ t \<and> set t \<subseteq> S"
  proof (cases r1)
    case (Ok x)
    then have "f x w1 = (r, w')" using b m by (simp add: host_bind_def)
    with assms(2)[of x] obtain t' where "hw_trace w' = hw_trace w1 @ t'" "set t' \<subseteq> S" unfolding emits_in_def by blast
    with t show ?thesis by (intro exI[of _ "t @ t'"]) auto
  next
    case (Err e)
    with b m t show ?thesis by (auto simp: host_bind_def)
  qed
qed

lemma emits_in_if [intro]: "emits_in S a \<Longrightarrow> emits_in S b \<Longrightarrow> emits_in S (if c then a else b)"
  by simp

lemmas emits_rules = emits_in_bind emits_in_if emits_in_ok emits_in_call

lemma emits_in_each [intro]: "(\<And>x. x \<in> set xs \<Longrightarrow> emits_in S (f x)) \<Longrightarrow> emits_in S (host_each f xs)"
  by (induction xs) auto

lemma emits_in_register_all: "(\<And>n. EvRestRegister n \<in> S) \<Longrightarrow> emits_in S (register_all env es router)"
  by (induction env es router rule: register_all.induct) auto

lemma emits_in_collect: "(\<And>n. EvGrpcServices n \<in> S) \<Longrightarrow> emits_in S (collect_services env ms seen data)"
proof (induction ms arbitrary: seen data)
  case (Cons m ms)
  obtain name a where m: "m = (name, a)" by (cases m)
  show ?case unfolding m collect_services.simps
  proof (rule emits_in_bind)
    show "emits_in S (\<lambda>w. let w' = w\<lparr>hw_trace := hw_trace w @ [EvGrpcServices name]\<rparr>
       in case he_services env (hw_trace w) name of
            Err err \<Rightarrow> (Err (GrpcRegister name err), w')
          | Ok services \<Rightarrow>
              (case first_duplicate seen services of
                 Some s \<Rightarrow> (Err (GrpcRegister name (''Duplicate gRPC service name: '' @ s)), w')
               | None \<Rightarrow> collect_services env ms (services @ seen)
                   (data @ [\<lparr>ins_module = name, ins_services = services\<rparr>]) w'))" for x
      unfolding emits_in_def
    proof (intro allI impI, goal_cases)
      case (1 w r w')
      let ?w = "w\<lparr>hw_trace := hw_trace w @ [EvGrpcServices name]\<rparr>"
      have tail: "\<exists>t. hw_trace w' = hw_trace ?w @ t \<and> set t \<subseteq> S"
        if "collect_services env ms sn dt ?w = (r, w')" for sn dt
        using Cons.IH[OF Cons.prems, of sn dt] that unfolding emits_in_def by blast
      have "w' = ?w \<or> (\<exists>sn dt. collect_services env ms sn dt ?w = (r, w'))"
        using 1 by (auto simp: Let_def split: result.splits option.splits)
      then have "\<exists>t. hw_trace w' = hw_trace ?w @ t \<and> set t \<subseteq> S" using tail by auto
      then obtain t where "hw_trace w' = hw_trace ?w @ t" "set t \<subseteq> S" by blast
      then show ?case using Cons.prems[of name] by (intro exI[of _ "EvGrpcServices name # t"]) auto
    qed
  qed auto
qed auto

lemma host_bind_assoc: "host_bind (host_bind m f) g = host_bind m (\<lambda>x. host_bind (f x) g)"
  by (auto simp: host_bind_def fun_eq_iff split: prod.splits result.splits)

lemma stop_phase_Ok: "\<exists>w'. run_stop_phase reg w = (Ok (), w')"
proof -
  have "\<exists>w'. host_each stop_one_module es w = (Ok (), w')" for es
    by (induction es arbitrary: w) (auto simp: host_ok_def host_bind_def stop_one_module_def)
  then show ?thesis by (simp add: run_stop_phase_def)
qed

text \<open>The phases before the start of the modules, and what a phase emits and fails with.\<close>

definition before_start :: "host_env \<Rightarrow> module_registry \<Rightarrow> unit host" where
  "before_start env reg =
     host_bind (wire_system env reg) (\<lambda>_.
     host_bind (run_db_phase env reg) (\<lambda>_.
     host_bind (run_init_phase env reg) (\<lambda>_.
     host_bind (run_rest_phase env reg) (\<lambda>_.
       run_grpc_phase env reg))))"

lemma run_split_start: "run_module_phases env reg oop =
    host_bind (before_start env reg) (\<lambda>_. host_bind (run_start_phase env reg) (\<lambda>_.
    host_bind (run_oop_spawn_phase env reg oop) (\<lambda>_. host_bind wait_cancelled (\<lambda>_. run_stop_phase reg))))"
  by (simp add: run_module_phases_def before_start_def host_bind_assoc)

abbreviation shutdown_events :: "host_event set" where
  "shutdown_events \<equiv> {EvCancelled} \<union> range EvStop"

lemma before_start_emits: "emits_in (- (shutdown_events \<union> range EvStart)) (before_start env reg)"
  unfolding before_start_def
proof (intro emits_in_bind)
  let ?S = "- (shutdown_events \<union> range EvStart)"
  show "emits_in ?S (wire_system env reg)"
    unfolding wire_system_def by (intro emits_in_each) (auto simp: emits_in_def host_ok_def)
  show "emits_in ?S (run_db_phase env reg)" unfolding run_db_phase_def by (intro emits_in_each emits_rules) auto
  show "emits_in ?S (run_init_phase env reg)" unfolding run_init_phase_def by (intro emits_in_each emits_rules) auto
  show "emits_in ?S (run_rest_phase env reg)"
    unfolding run_rest_phase_def Let_def
    by (auto intro!: emits_in_bind emits_in_register_all split: option.splits)
  show "emits_in ?S (run_grpc_phase env reg)"
  proof (cases "mr_grpc_hub reg")
    case (Some hub)
    have "emits_in ?S (\<lambda>w. case store_set d (hw_store w) of
        Err err \<Rightarrow> (Err (GrpcRegister hub err), w) | Ok st \<Rightarrow> (Ok (), w\<lparr>hw_store := st\<rparr>))" for d
      by (auto simp: emits_in_def split: result.splits)
    then show ?thesis unfolding run_grpc_phase_def Some option.case by (intro emits_in_bind emits_in_collect) auto
  qed (auto simp: run_grpc_phase_def)
qed

lemma spawn_emits: "emits_in (range EvSpawn) (run_oop_spawn_phase env reg oop)"
  unfolding run_oop_spawn_phase_def Let_def by (auto intro!: emits_in_bind split: option.splits list.splits)

definition fails_in :: "registry_error set \<Rightarrow> 'a host \<Rightarrow> bool" where
  "fails_in S m \<longleftrightarrow> (\<forall>w e w'. m w = (Err e, w') \<longrightarrow> e \<in> S)"

lemma fails_in_base [intro]: "fails_in S (host_ok x)" "e \<in> S \<Longrightarrow> fails_in S (host_err e)"
  "(\<And>x. mk x \<in> S) \<Longrightarrow> fails_in S (for_module env n mk)" "(\<And>x. mk x \<in> S) \<Longrightarrow> fails_in S (host_call env ev mk)"
  by (auto simp: fails_in_def host_ok_def host_err_def for_module_def host_call_def res_simps)

lemma fails_in_bind [intro]: "fails_in S m \<Longrightarrow> (\<And>x. fails_in S (f x)) \<Longrightarrow> fails_in S (host_bind m f)"
  by (fastforce simp: fails_in_def host_bind_def split: prod.splits result.splits)

lemma fails_in_if [intro]: "fails_in S a \<Longrightarrow> fails_in S b \<Longrightarrow> fails_in S (if c then a else b)"
  by simp

lemma fails_in_each [intro]: "(\<And>x. x \<in> set xs \<Longrightarrow> fails_in S (f x)) \<Longrightarrow> fails_in S (host_each f xs)"
  by (induction xs) auto

lemma fails_in_register_all: "(\<And>n m. RestRegister n m \<in> S) \<Longrightarrow> fails_in S (register_all env es router)"
  by (induction env es router rule: register_all.induct) (auto intro!: fails_in_bind fails_in_base)

lemma fails_in_collect: "(\<And>n m. GrpcRegister n m \<in> S) \<Longrightarrow> fails_in S (collect_services env ms seen data)"
proof (induction env ms seen data rule: collect_services.induct)
  case (2 env name uu ms seen data)
  then show ?case
    by (auto simp: fails_in_def host_bind_def for_module_def Let_def res_simps split: prod.splits result.splits option.splits)
qed auto

abbreviation start_errors :: "registry_error set" where
  "start_errors \<equiv> {e. \<exists>n m. e = Start n m \<or> e = OopSpawn n m}"

lemma before_start_fails: "fails_in (- start_errors) (before_start env reg)"
  unfolding before_start_def
proof (intro fails_in_bind)
  show "fails_in (- start_errors) (wire_system env reg)"
    unfolding wire_system_def by (intro fails_in_each) (auto simp: fails_in_def host_ok_def)
  show "fails_in (- start_errors) (run_db_phase env reg)" unfolding run_db_phase_def by (intro fails_in_each) auto
  show "fails_in (- start_errors) (run_init_phase env reg)" unfolding run_init_phase_def by (intro fails_in_each) auto
  show "fails_in (- start_errors) (run_rest_phase env reg)"
    unfolding run_rest_phase_def Let_def by (auto intro!: fails_in_bind fails_in_register_all split: option.splits)
  show "fails_in (- start_errors) (run_grpc_phase env reg)"
  proof (cases "mr_grpc_hub reg")
    case (Some hub)
    have "fails_in (- start_errors) (\<lambda>w. case store_set d (hw_store w) of
        Err err \<Rightarrow> (Err (GrpcRegister hub err), w) | Ok st \<Rightarrow> (Ok (), w\<lparr>hw_store := st\<rparr>))" for d
      by (auto simp: fails_in_def split: result.splits)
    then show ?thesis unfolding run_grpc_phase_def Some option.case by (intro fails_in_bind fails_in_collect) auto
  qed (auto simp: run_grpc_phase_def)
qed

text \<open>The modules that a start phase starts, and what it did when it fails: every earlier module was started with success.\<close>

definition stateful_modules :: "module_registry \<Rightarrow> module_entry list" where
  "stateful_modules reg = filter (\<lambda>e. me_stateful e \<noteq> None) (modules_by_system_priority reg)"

abbreviation starts :: "module_entry list \<Rightarrow> host_event list" where
  "starts \<equiv> map (\<lambda>e. EvStart (me_name e))"

definition started_before_failure ::
    "host_env \<Rightarrow> module_entry list \<Rightarrow> host_event list \<Rightarrow> string \<Rightarrow> string \<Rightarrow> host_event list \<Rightarrow> bool" where
  "started_before_failure env es t n msg t' \<longleftrightarrow>
     (\<exists>xs m ys. es = xs @ m # ys \<and> me_name m = n \<and> t' = t @ starts (xs @ [m]) \<and>
        he_run env (t @ starts xs) (EvStart n) = Err msg \<and>
        (\<forall>us x vs. xs = us @ x # vs \<longrightarrow> he_run env (t @ starts us) (EvStart (me_name x)) = Ok ()))"

lemma start_phase_Err:
  assumes "run_start_phase env reg w = (Err e, w')"
  shows "\<exists>n msg. e = Start n msg \<and> started_before_failure env (stateful_modules reg) (hw_trace w) n msg (hw_trace w')"
proof -
  let ?f = "\<lambda>e. if me_stateful e \<noteq> None then host_call env (EvStart (me_name e)) (Start (me_name e)) else host_ok ()"
  let ?p = "\<lambda>e. me_stateful e \<noteq> None"
  have "\<exists>n msg. e = Start n msg \<and> started_before_failure env (filter ?p es) (hw_trace w) n msg (hw_trace w')"
    if "host_each ?f es w = (Err e, w')" for es w
    using that
  proof (induction es arbitrary: w)
    case (Cons x es)
    consider (skip) "\<not> ?p x" "host_each ?f es w = (Err e, w')"
      | (bad) msg where "?p x" "he_run env (hw_trace w) (EvStart (me_name x)) = Err msg" "e = Start (me_name x) msg"
          "hw_trace w' = hw_trace w @ starts [x]"
      | (good) "?p x" "he_run env (hw_trace w) (EvStart (me_name x)) = Ok ()"
          "host_each ?f es (w\<lparr>hw_trace := hw_trace w @ starts [x]\<rparr>) = (Err e, w')"
    proof (cases "?p x")
      case False
      with Cons.prems skip show ?thesis by (simp add: host_bind_def host_ok_def)
    next
      case True
      show ?thesis
      proof (cases "he_run env (hw_trace w) (EvStart (me_name x))")
        case (Ok u)
        with True Cons.prems good show ?thesis by (simp add: host_bind_def host_call_def)
      next
        case (Err msg)
        with True Cons.prems bad[of msg] show ?thesis by (auto simp: host_bind_def host_call_def)
      qed
    qed
    then show ?case
    proof cases
      case skip
      then show ?thesis using Cons.IH by simp
    next
      case (bad msg)
      then show ?thesis unfolding started_before_failure_def
        by (intro exI[of _ "me_name x"] exI[of _ msg] conjI exI[of _ "[]"] exI[of _ x] exI[of _ "filter ?p es"]) auto
    next
      case good
      from Cons.IH[OF good(3)] obtain n msg xs m ys where i: "e = Start n msg" "filter ?p es = xs @ m # ys" "me_name m = n"
        "hw_trace w' = hw_trace w @ starts (x # xs @ [m])" "he_run env (hw_trace w @ starts (x # xs)) (EvStart n) = Err msg"
        "\<And>us y vs. xs = us @ y # vs \<Longrightarrow> he_run env (hw_trace w @ starts (x # us)) (EvStart (me_name y)) = Ok ()"
        unfolding started_before_failure_def by auto
      have "he_run env (hw_trace w @ starts us) (EvStart (me_name y)) = Ok ()" if "x # xs = us @ y # vs" for us y vs
        using that good(2) i(6) by (cases us) auto
      with good(1) i show ?thesis unfolding started_before_failure_def
        by (intro exI[of _ n] exI[of _ msg] conjI exI[of _ "x # xs"] exI[of _ m] exI[of _ ys]) auto
    qed
  qed (simp add: host_ok_def)
  with assms show ?thesis unfolding run_start_phase_def stateful_modules_def by blast
qed

lemma spawn_phase_Err: "run_oop_spawn_phase env reg oop w = (Err e, w') \<Longrightarrow> \<exists>n msg. e = OopSpawn n msg"
proof -
  have "fails_in {e. \<exists>n msg. e = OopSpawn n msg} (run_oop_spawn_phase env reg oop)"
    unfolding run_oop_spawn_phase_def Let_def by (auto intro!: fails_in_bind split: option.splits list.splits)
  then show "run_oop_spawn_phase env reg oop w = (Err e, w') \<Longrightarrow> \<exists>n msg. e = OopSpawn n msg" unfolding fails_in_def by blast
qed

text \<open>How a run ends.\<close>

lemma run_ends:
  assumes "run_module_phases env reg oop w = (r, w')"
  obtains (before) e t where "r = Err e" "e \<notin> start_errors" "hw_trace w' = hw_trace w @ t"
      "set t \<inter> (shutdown_events \<union> range EvStart) = {}"
    | (start) n msg t where "r = Err (Start n msg)" "set t \<inter> (shutdown_events \<union> range EvStart) = {}"
      "started_before_failure env (stateful_modules reg) (hw_trace w @ t) n msg (hw_trace w')"
    | (spawn) n msg t t' where "r = Err (OopSpawn n msg)" "set t \<inter> (shutdown_events \<union> range EvStart) = {}" "set t' \<subseteq> range EvSpawn"
      "hw_trace w' = hw_trace w @ t @ starts (stateful_modules reg) @ t'"
    | (stopped) t t' where "r = Ok ()" "set t \<inter> (shutdown_events \<union> range EvStart) = {}" "set t' \<subseteq> range EvSpawn"
      "hw_trace w' = hw_trace w @ t @ starts (stateful_modules reg) @ t' @ EvCancelled #
         map (\<lambda>e. EvStop (me_name e)) (filter (\<lambda>e. me_stateful e \<noteq> None) (rev (mr_modules reg)))"
proof -
  obtain r1 w1 where b: "before_start env reg w = (r1, w1)" by fastforce
  with before_start_emits[of env reg] obtain t where t: "hw_trace w1 = hw_trace w @ t" "set t \<inter> (shutdown_events \<union> range EvStart) = {}"
    unfolding emits_in_def by (meson disjoint_eq_subset_Compl)
  show ?thesis
  proof (cases r1)
    case (Err e)
    with b before_start_fails[of env reg] have "e \<notin> start_errors" unfolding fails_in_def by blast
    with Err b t assms before[of e t] show ?thesis by (simp add: run_split_start host_bind_def)
  next
    case (Ok u)
    obtain r2 w2 where s: "run_start_phase env reg w1 = (r2, w2)" by fastforce
    show ?thesis
    proof (cases r2)
      case (Err e)
      from start_phase_Err[OF s[unfolded Err]] obtain n msg where "e = Start n msg"
        "started_before_failure env (stateful_modules reg) (hw_trace w1) n msg (hw_trace w2)" by blast
      with Ok Err b s t assms start[of n msg t] show ?thesis by (simp add: run_split_start host_bind_def)
    next
      case Ok2: (Ok u2)
      with s have t2: "hw_trace w2 = hw_trace w1 @ starts (stateful_modules reg)"
        using start_trace[of env reg w1 w2] by (simp add: stateful_modules_def)
      obtain r3 w3 where p: "run_oop_spawn_phase env reg oop w2 = (r3, w3)" by fastforce
      with spawn_emits[of env reg oop] obtain t3 where t3: "hw_trace w3 = hw_trace w2 @ t3" "set t3 \<subseteq> range EvSpawn"
        unfolding emits_in_def by blast
      show ?thesis
      proof (cases r3)
        case (Err e)
        from spawn_phase_Err[OF p[unfolded Err]] obtain n msg where "e = OopSpawn n msg" by blast
        with Ok Ok2 Err b s p t t2 t3 assms spawn[of n msg t t3] show ?thesis by (simp add: run_split_start host_bind_def)
      next
        case Ok3: (Ok u3)
        let ?w = "w3\<lparr>hw_trace := hw_trace w3 @ [EvCancelled]\<rparr>"
        obtain w4 where w4: "run_stop_phase reg ?w = (Ok (), w4)" using stop_phase_Ok by blast
        with Ok Ok2 Ok3 b s p assms have "r = Ok ()" "w' = w4" by (auto simp: run_split_start host_bind_def wait_cancelled_def)
        with stop_trace[OF w4] t t2 t3 stopped[of t t3] show ?thesis by simp
      qed
    qed
  qed
qed

section \<open>System priority and dependencies\<close>

lemma priority_partition:
  "modules_by_system_priority r =
     filter me_is_system (mr_modules r) @ filter (\<lambda>e. \<not> me_is_system e) (mr_modules r)"
proof -
  have "fold (\<lambda>entry (s, n). if me_is_system entry then (s @ [entry], n) else (s, n @ [entry])) es (s, n) =
      (s @ filter me_is_system es, n @ filter (\<lambda>e. \<not> me_is_system e) es)" for es s and n :: "module_entry list"
    by (induction es arbitrary: s n) auto
  then show ?thesis by (simp add: modules_by_system_priority_def)
qed

text \<open>No system module depends on a user module.\<close>

definition system_closed :: "module_entry list \<Rightarrow> bool" where
  "system_closed es \<longleftrightarrow>
     (\<forall>e \<in> set es. \<forall>e' \<in> set es. me_is_system e \<and> me_name e' \<in> set (me_deps e) \<longrightarrow> me_is_system e')"

lemma filter_splitD:
  "filter P es = xs @ e # ys \<Longrightarrow> \<exists>us vs. es = us @ e # vs \<and> filter P us = xs \<and> P e"
proof (induction es arbitrary: xs)
  case (Cons x es)
  show ?case
  proof (cases "P x \<and> xs = []")
    case True
    then show ?thesis using Cons.prems by (intro exI[of _ "[]"] exI[of _ es]) auto
  next
    case False
    then obtain xs' where "filter P es = xs' @ e # ys" "xs = (if P x then [x] else []) @ xs'"
      using Cons.prems by (cases xs) (auto split: if_splits)
    with Cons.IH[of xs'] obtain us vs where "es = us @ e # vs" "filter P us = xs'" "P e" by blast
    with \<open>xs = _\<close> have "x # es = (x # us) @ e # vs \<and> filter P (x # us) = xs \<and> P e" by simp
    then show ?thesis by blast
  qed
qed simp

lemma priority_deps_first:
  assumes "deps_first (mr_modules r)" "distinct (map me_name (mr_modules r))"
  shows "deps_first (modules_by_system_priority r) \<longleftrightarrow> system_closed (mr_modules r)"
proof
  let ?sys = "filter me_is_system (mr_modules r)" and ?usr = "filter (\<lambda>e. \<not> me_is_system e) (mr_modules r)"
  assume c: "system_closed (mr_modules r)"
  have deps_before: "\<exists>e' \<in> set us. me_name e' = d" if "mr_modules r = us @ e # vs" "d \<in> set (me_deps e)" for us e vs d
    using assms(1) that unfolding deps_first_def by blast
  show "deps_first (modules_by_system_priority r)"
    unfolding deps_first_def priority_partition
  proof (intro allI impI subsetI)
    fix xs e ys d
    assume s: "?sys @ ?usr = xs @ e # ys" and d: "d \<in> set (me_deps e)"
    have split: "(\<exists>zs. ?sys = xs @ e # zs) \<or> (\<exists>zs. xs = ?sys @ zs \<and> ?usr = zs @ e # ys)"
      using s by (auto simp: append_eq_append_conv2 append_eq_Cons_conv)
    have e_in: "e \<in> set (mr_modules r)" using arg_cong[OF s, of set] by auto
    from split show "d \<in> me_name ` set xs"
    proof (elim disjE exE conjE)
      fix zs assume "?sys = xs @ e # zs"
      from filter_splitD[OF this] obtain us vs where u: "mr_modules r = us @ e # vs" "filter me_is_system us = xs" "me_is_system e"
        by blast
      from deps_before[OF u(1) d] obtain e' where e': "e' \<in> set us" "me_name e' = d" by blast
      with c u(1,3) d have "me_is_system e'" by (auto simp: system_closed_def)
      with e'(1) u(2) have "e' \<in> set xs" by auto
      with e'(2) show ?thesis by blast
    next
      fix zs assume z: "xs = ?sys @ zs" "?usr = zs @ e # ys"
      from filter_splitD[OF z(2)] obtain us vs where u: "mr_modules r = us @ e # vs" "filter (\<lambda>e. \<not> me_is_system e) us = zs" by blast
      from deps_before[OF u(1) d] obtain e' where e': "e' \<in> set us" "me_name e' = d" by blast
      have "e' \<in> set xs" using e'(1) u z(1) by (cases "me_is_system e'") auto
      with e'(2) show ?thesis by blast
    qed
  qed
next
  assume df: "deps_first (modules_by_system_priority r)"
  show "system_closed (mr_modules r)"
    unfolding system_closed_def
  proof (intro ballI impI, elim conjE)
    fix e e' assume e: "e \<in> set (mr_modules r)" "e' \<in> set (mr_modules r)" "me_is_system e" "me_name e' \<in> set (me_deps e)"
    then have "e \<in> set (filter me_is_system (mr_modules r))" by simp
    then obtain xs zs where s: "filter me_is_system (mr_modules r) = xs @ e # zs" using split_list by fastforce
    then have "modules_by_system_priority r = xs @ e # (zs @ filter (\<lambda>e. \<not> me_is_system e) (mr_modules r))"
      by (simp add: priority_partition)
    with df have "set (me_deps e) \<subseteq> me_name ` set xs" unfolding deps_first_def by blast
    with e(4) obtain e'' where e'': "e'' \<in> set xs" "me_name e'' = me_name e'" by (auto simp: image_iff)
    have "e'' \<in> set (filter me_is_system (mr_modules r))" using s e''(1) by simp
    moreover from this have "e'' = e'" using e(2) e''(2) assms(2) by (auto simp: distinct_map dest: inj_onD)
    ultimately show "me_is_system e'" by simp
  qed
qed

lemma reverse_stops_dependents_first:
  assumes "deps_first es" "distinct (map me_name es)" "rev es = xs @ e # ys"
  shows "\<forall>d \<in> set xs. me_name d \<notin> set (me_deps e)"
proof
  fix d assume d: "d \<in> set xs"
  from assms(3) have es: "es = rev ys @ e # rev xs" by (metis append.assoc append_Cons append_Nil rev.simps(2) rev_append rev_rev_ident)
  then have "set (me_deps e) \<subseteq> me_name ` set (rev ys)" using assms(1) unfolding deps_first_def by blast
  moreover have "me_name d \<notin> me_name ` set (rev ys)" using assms(2) d unfolding es by auto
  ultimately show "me_name d \<notin> set (me_deps e)" by blast
qed

section \<open>Properties\<close>

text \<open>C6. A run that ends without an error made exactly these calls in this order: the system modules were wired;
  modules with a database were migrated, in priority order; every module was initialised once, in priority order;
  the REST host was prepared, every REST module registered and the host finalised; the gRPC services were
  collected; every stateful module was started, in priority order; the out-of-process modules were spawned;
  and after the cancellation every stateful module was stopped, in reverse registry order.\<close>

theorem successful_run_calls:
  assumes "run_module_phases env reg oop new_world = (Ok (), w')"
  shows "\<exists>ms. subseq ms (filter (\<lambda>e. me_db e \<noteq> None) (modules_by_system_priority reg)) \<and>
    hw_trace w' =
      map (\<lambda>e. EvWire (me_name e)) (filter (\<lambda>e. me_is_system e \<and> he_system env (me_name e)) (mr_modules reg)) @
      map (\<lambda>e. EvMigrate (me_name e)) ms @
      map (\<lambda>e. EvInit (me_name e)) (modules_by_system_priority reg) @
      rest_events reg @ grpc_events reg @
      map (\<lambda>e. EvStart (me_name e)) (filter (\<lambda>e. me_stateful e \<noteq> None) (modules_by_system_priority reg)) @
      spawn_events env reg oop @ [EvCancelled] @
      map (\<lambda>e. EvStop (me_name e)) (filter (\<lambda>e. me_stateful e \<noteq> None) (rev (mr_modules reg)))"
proof -
  obtain w1 w2 w3 r w4 w5 w6 w7 w8 where w: "wire_system env reg new_world = (Ok (), w1)"
    "run_db_phase env reg w1 = (Ok (), w2)" "run_init_phase env reg w2 = (Ok (), w3)" "run_rest_phase env reg w3 = (Ok r, w4)"
    "run_grpc_phase env reg w4 = (Ok (), w5)" "run_start_phase env reg w5 = (Ok (), w6)"
    "run_oop_spawn_phase env reg oop w6 = (Ok (), w7)" "wait_cancelled w7 = (Ok (), w8)" "run_stop_phase reg w8 = (Ok (), w')"
    using assms by (auto simp: run_module_phases_def host_bind_Ok)
  from db_trace[OF w(2)] obtain ms where ms: "subseq ms (filter (\<lambda>e. me_db e \<noteq> None) (modules_by_system_priority reg))"
    "hw_trace w2 = hw_trace w1 @ map (\<lambda>e. EvMigrate (me_name e)) ms" by blast
  have c: "hw_trace w8 = hw_trace w7 @ [EvCancelled]" using w(8) by (auto simp: wait_cancelled_def)
  show ?thesis
    using ms wire_system_trace[OF w(1)] init_trace[OF w(3)] rest_trace[OF w(4)] grpc_trace[OF w(5)] start_trace[OF w(6)]
      spawn_trace[OF w(7)] c stop_trace[OF w(9)]
    by (intro exI[of _ ms]) (simp add: new_world_def)
qed

text \<open>C30. The stop phase runs only in a run that succeeds. A run that fails returns the error without waiting for the
  cancellation and without stopping a module. When a module cannot be started, the stateful modules before it in priority order were
  all started with success and its own start is the last call; when a process cannot be spawned, every stateful module was
  started; none of these is stopped. A run that succeeds waits and then stops every stateful module in reverse order.\<close>

theorem failed_run_stops_nothing:
  assumes "run_module_phases env reg oop new_world = (r, w')"
  shows "case r of
      Err e \<Rightarrow> set (hw_trace w') \<inter> ({EvCancelled} \<union> range EvStop) = {} \<and>
        (\<forall>n msg. e = Start n msg \<longrightarrow> (\<exists>t. started_before_failure env (stateful_modules reg) t n msg (hw_trace w'))) \<and>
        (\<forall>n msg. e = OopSpawn n msg \<longrightarrow> (\<exists>t t'. hw_trace w' = t @ map (\<lambda>e. EvStart (me_name e)) (stateful_modules reg) @ t'))
    | Ok _ \<Rightarrow> \<exists>t. hw_trace w' = t @ EvCancelled #
          map (\<lambda>e. EvStop (me_name e)) (filter (\<lambda>e. me_stateful e \<noteq> None) (rev (mr_modules reg))) \<and>
        (\<forall>m \<in> set (stateful_modules reg). EvStart (me_name m) \<in> set t) \<and> set t \<inter> ({EvCancelled} \<union> range EvStop) = {}"
  using assms
proof (cases rule: run_ends)
  case (before e t)
  then show ?thesis by (auto simp: new_world_def)
next
  case (start n msg t)
  then have "set (hw_trace w') \<inter> shutdown_events = {}" by (auto simp: started_before_failure_def new_world_def)
  with start show ?thesis by (auto simp: new_world_def)
next
  case (spawn n msg t t')
  then have "set (hw_trace w') \<inter> shutdown_events = {}" by (auto simp: new_world_def)
  with spawn show ?thesis by (auto simp: new_world_def)
next
  case (stopped t t')
  have "set (t @ starts (stateful_modules reg) @ t') \<inter> shutdown_events = {}" using stopped(2,3) by auto
  with stopped(1,4) show ?thesis
    by (simp add: new_world_def)
qed

text \<open>C24. In a registry the builder made, the priority order in which modules are migrated, initialised and started
  puts dependencies first exactly when no system module depends on a user module; the order in which they
  are stopped always stops a module before anything it depends on.\<close>

theorem phase_order_and_dependencies:
  assumes "registered b" "build_topo_sorted b = Some (Ok reg)"
  shows "(deps_first (modules_by_system_priority reg) \<longleftrightarrow> system_closed (mr_modules reg)) \<and>
    (\<forall>xs e ys. rev (mr_modules reg) = xs @ e # ys \<longrightarrow> (\<forall>d \<in> set xs. me_name d \<notin> set (me_deps e)))"
proof -
  from build_sorted[OF assms] have s: "deps_first (mr_modules reg)" "distinct (map me_name (mr_modules reg))" by blast+
  from priority_deps_first[OF s] reverse_stops_dependents_first[OF s] show ?thesis by simp
qed

section \<open>Witnesses\<close>

definition calm_env :: host_env where
  "calm_env = \<lparr>he_context = (\<lambda>_ _. Ok False), he_run = (\<lambda>_ _. Ok ()), he_services = (\<lambda>_ _. Ok []),
     he_system = (\<lambda>_. False), he_endpoint = (\<lambda>_. None), he_elapsed_ms = (\<lambda>n. 10 * n)\<rparr>"

definition one_module :: module_registry where
  "one_module = \<lparr>mr_modules = [\<lparr>me_name = ''a'', me_deps = [], me_core = 0, me_rest = None, me_rest_host = None, me_db = None,
     me_stateful = Some 0, me_is_system = False, me_grpc_hub = None, me_grpc_service = None\<rparr>],
     mr_grpc_hub = None, mr_grpc_services = []\<rparr>"

theorem successful_run_calls_witness:
  "\<exists>w'. run_module_phases calm_env one_module None new_world = (Ok (), w') \<and>
     hw_trace w' = [EvInit ''a'', EvStart ''a'', EvCancelled, EvStop ''a'']"
proof -
  let ?r = "run_module_phases calm_env one_module None new_world"
  have "fst ?r = Ok ()" by code_simp
  then have r: "?r = (Ok (), snd ?r)" by (metis prod.collapse)
  have p: "modules_by_system_priority one_module = mr_modules one_module" by code_simp
  have e: "rest_events one_module = []" "grpc_events one_module = []" "spawn_events calm_env one_module None = []"
    "map me_name (mr_modules one_module) = [''a'']"
    "filter (\<lambda>e. me_stateful e \<noteq> None) (mr_modules one_module) = mr_modules one_module"
    "filter (\<lambda>e. me_stateful e \<noteq> None) (rev (mr_modules one_module)) = mr_modules one_module"
    "filter (\<lambda>e. me_db e \<noteq> None) (mr_modules one_module) = []" "\<forall>n. \<not> he_system calm_env n"
    by (simp_all add: rest_events_def grpc_events_def spawn_events_def one_module_def calm_env_def)
  have m: "map (\<lambda>e. f (me_name e)) (mr_modules one_module) = [f ''a'']" for f :: "string \<Rightarrow> host_event"
    by (simp add: one_module_def)
  from successful_run_calls[OF r] have "hw_trace (snd ?r) = [EvInit ''a'', EvStart ''a'', EvCancelled, EvStop ''a'']"
    unfolding p e(1-3,5-7) m using e(8) by auto
  with r show ?thesis by blast
qed

text \<open>Two stateful modules, the second of which cannot be started.\<close>

definition two_modules :: module_registry where
  "two_modules = one_module\<lparr>mr_modules := mr_modules one_module @ map (me_name_update (\<lambda>_. ''b'')) (mr_modules one_module)\<rparr>"

theorem failed_run_stops_nothing_witness:
  "\<exists>w'. run_module_phases (calm_env\<lparr>he_run := (\<lambda>_ ev. if ev = EvStart ''b'' then Err ''boom'' else Ok ())\<rparr>) two_modules None new_world =
       (Err (Start ''b'' ''boom''), w') \<and>
     EvStart ''a'' \<in> set (hw_trace w') \<and> EvStop ''a'' \<notin> set (hw_trace w') \<and> EvCancelled \<notin> set (hw_trace w')"
proof -
  let ?env = "calm_env\<lparr>he_run := (\<lambda>_ ev. if ev = EvStart ''b'' then Err ''boom'' else Ok ())\<rparr>"
  let ?w = "\<lparr>hw_trace = [EvInit ''a'', EvInit ''b'', EvStart ''a'', EvStart ''b''], hw_store = None\<rparr>"
  have r: "run_module_phases ?env two_modules None new_world = (Err (Start ''b'' ''boom''), ?w)" by code_simp
  from failed_run_stops_nothing[OF this] r show ?thesis by (intro exI[of _ ?w]) simp
qed

theorem phase_order_and_dependencies_witness:
  "\<exists>reg. build_topo_sorted demo_builder = Some (Ok reg) \<and> deps_first (modules_by_system_priority reg)"
proof -
  have "case build_topo_sorted demo_builder of Some (Ok reg) \<Rightarrow> list_all (\<lambda>e. \<not> me_is_system e) (mr_modules reg) | _ \<Rightarrow> False"
    by code_simp
  then obtain reg where r: "build_topo_sorted demo_builder = Some (Ok reg)" "list_all (\<lambda>e. \<not> me_is_system e) (mr_modules reg)"
    by (auto split: option.splits result.splits)
  then have "system_closed (mr_modules reg)" by (auto simp: system_closed_def list_all_iff)
  with phase_order_and_dependencies[OF demo_registered(1) r(1)] r(1) show ?thesis by blast
qed

end
