(* ===== verification/Rpc_Retry.thy ===== *)
theory Rpc_Retry
  imports Prelude "HOL-Library.Word"
begin

text \<open>
  Retries of the gRPC transport: \<open>call_with_retry\<close> (\<open>libs/modkit-transport-grpc/src/rpc_retry.rs\<close>) and
  \<open>connect_with_retry\<close> (\<open>client.rs\<close>), with their configurations.

  A \<open>Duration\<close> is its number of nanoseconds; multiplying it by a \<open>u32\<close> panics when the seconds leave \<open>u64\<close>.
  The attempt counter is a 32-bit word. One call of the client is a function on the client's state; the
  loops return \<open>None\<close> when their fuel runs out, and record the pauses they made.
\<close>

section \<open>Configuration\<close>

type_synonym duration = nat

definition DURATION_MAX :: duration where "DURATION_MAX = 2 ^ 64 * 10 ^ 9 - 1"

definition millis :: "nat \<Rightarrow> duration" where "millis n = n * 10 ^ 6"
definition secs :: "nat \<Rightarrow> duration" where "secs n = n * 10 ^ 9"

definition duration_mul :: "duration \<Rightarrow> 32 word \<Rightarrow> duration option" where
  "duration_mul d n = (if d * unat n \<le> DURATION_MAX then Some (d * unat n) else None)"

record grpc_client_config =
  gc_connect_timeout :: duration
  gc_rpc_timeout :: duration
  gc_max_retries :: "32 word"
  gc_base_backoff :: duration
  gc_max_backoff :: duration
  gc_service_name :: string
  gc_enable_metrics :: bool
  gc_enable_tracing :: bool

definition default_grpc_config :: grpc_client_config where
  "default_grpc_config = \<lparr>gc_connect_timeout = secs 10, gc_rpc_timeout = secs 30, gc_max_retries = 3,
     gc_base_backoff = millis 100, gc_max_backoff = secs 5, gc_service_name = ''grpc_client'',
     gc_enable_metrics = True, gc_enable_tracing = True\<rparr>"

definition grpc_config_new :: "string \<Rightarrow> grpc_client_config" where
  "grpc_config_new name = default_grpc_config\<lparr>gc_service_name := name\<rparr>"

definition with_connect_timeout :: "duration \<Rightarrow> grpc_client_config \<Rightarrow> grpc_client_config" where
  "with_connect_timeout d c = c\<lparr>gc_connect_timeout := d\<rparr>"

definition with_rpc_timeout :: "duration \<Rightarrow> grpc_client_config \<Rightarrow> grpc_client_config" where
  "with_rpc_timeout d c = c\<lparr>gc_rpc_timeout := d\<rparr>"

definition with_max_retries :: "32 word \<Rightarrow> grpc_client_config \<Rightarrow> grpc_client_config" where
  "with_max_retries n c = c\<lparr>gc_max_retries := n\<rparr>"

definition without_metrics :: "grpc_client_config \<Rightarrow> grpc_client_config" where
  "without_metrics c = c\<lparr>gc_enable_metrics := False\<rparr>"

definition without_tracing :: "grpc_client_config \<Rightarrow> grpc_client_config" where
  "without_tracing c = c\<lparr>gc_enable_tracing := False\<rparr>"

record rpc_retry_config =
  rc_max_retries :: "32 word"
  rc_base_backoff :: duration
  rc_max_backoff :: duration

definition default_retry_config :: rpc_retry_config where
  "default_retry_config = \<lparr>rc_max_retries = 3, rc_base_backoff = millis 100, rc_max_backoff = secs 5\<rparr>"

definition retry_config_from :: "grpc_client_config \<Rightarrow> rpc_retry_config" where
  "retry_config_from c = \<lparr>rc_max_retries = gc_max_retries c, rc_base_backoff = gc_base_backoff c,
     rc_max_backoff = gc_max_backoff c\<rparr>"

definition retry_config_new :: "32 word \<Rightarrow> rpc_retry_config" where
  "retry_config_new n = default_retry_config\<lparr>rc_max_retries := n\<rparr>"

definition with_base_backoff :: "duration \<Rightarrow> rpc_retry_config \<Rightarrow> rpc_retry_config" where
  "with_base_backoff d c = c\<lparr>rc_base_backoff := d\<rparr>"

definition with_max_backoff :: "duration \<Rightarrow> rpc_retry_config \<Rightarrow> rpc_retry_config" where
  "with_max_backoff d c = c\<lparr>rc_max_backoff := d\<rparr>"

section \<open>The loops\<close>

datatype grpc_code = CodeOk | CodeCancelled | CodeUnknown | CodeInvalidArgument | CodeDeadlineExceeded | CodeNotFound
  | CodeAlreadyExists | CodePermissionDenied | CodeResourceExhausted | CodeFailedPrecondition | CodeAborted
  | CodeOutOfRange | CodeUnimplemented | CodeInternal | CodeUnavailable | CodeDataLoss | CodeUnauthenticated

record rpc_status =
  st_code :: grpc_code
  st_message :: string

datatype ('s, 'a, 'e) retry_outcome = Returned "('a, 'e) result" 's "duration list" | Overflowed

definition retryable :: "rpc_status \<Rightarrow> bool" where
  "retryable s \<longleftrightarrow> st_code s \<in> {CodeUnavailable, CodeDeadlineExceeded}"

fun call_with_retry ::
    "rpc_retry_config \<Rightarrow> 'req \<Rightarrow> ('c \<Rightarrow> 'req \<Rightarrow> ('res, rpc_status) result \<times> 'c) \<Rightarrow> nat \<Rightarrow> 32 word \<Rightarrow> 'c \<Rightarrow> duration list \<Rightarrow>
     ('c, 'res, rpc_status) retry_outcome option" where
  "call_with_retry cfg req call 0 attempt0 client slept = None"
| "call_with_retry cfg req call (Suc fuel) attempt0 client slept =
     (let attempt = attempt0 + 1; (res, client') = call client req
      in case res of
           Ok x \<Rightarrow> Some (Returned (Ok x) client' slept)
         | Err status \<Rightarrow>
             if \<not> retryable status \<or> attempt > rc_max_retries cfg then Some (Returned (Err status) client' slept)
             else (case duration_mul (rc_base_backoff cfg) attempt of
                     None \<Rightarrow> Some Overflowed
                   | Some backoff0 \<Rightarrow>
                       let backoff = (if backoff0 > rc_max_backoff cfg then rc_max_backoff cfg else backoff0)
                       in call_with_retry cfg req call fuel attempt client' (slept @ [backoff])))"

text \<open>\<open>connect\<close> is one run of \<open>connect_with_stack\<close>; the context that is added to the last error keeps it as
  its source.\<close>

definition connect_context :: "grpc_client_config \<Rightarrow> 32 word \<Rightarrow> string \<Rightarrow> string" where
  "connect_context cfg attempt e =
     ''Failed to connect to '' @ gc_service_name cfg @ '' after '' @ show_nat (unat attempt) @ '' attempts: '' @ e"

fun connect_with_retry ::
    "grpc_client_config \<Rightarrow> ('w \<Rightarrow> ('client, string) result \<times> 'w) \<Rightarrow> nat \<Rightarrow> 32 word \<Rightarrow> 'w \<Rightarrow> duration list \<Rightarrow>
     ('w, 'client, string) retry_outcome option" where
  "connect_with_retry cfg connect 0 attempt0 w slept = None"
| "connect_with_retry cfg connect (Suc fuel) attempt0 w slept =
     (let attempt = attempt0 + 1; (res, w') = connect w
      in case res of
           Ok client \<Rightarrow> Some (Returned (Ok client) w' slept)
         | Err e \<Rightarrow>
             if attempt \<le> gc_max_retries cfg then
               (case duration_mul (gc_base_backoff cfg) attempt of
                  None \<Rightarrow> Some Overflowed
                | Some b \<Rightarrow> connect_with_retry cfg connect fuel attempt w' (slept @ [min b (gc_max_backoff cfg)]))
             else Some (Returned (Err (connect_context cfg attempt e)) w' slept))"

section \<open>What a retry loop promises\<close>

text \<open>The result of the call number \<open>i\<close> (from 0), and the state after \<open>k\<close> calls.\<close>

definition after_calls :: "('s \<Rightarrow> ('a, 'e) result \<times> 's) \<Rightarrow> nat \<Rightarrow> 's \<Rightarrow> 's" where
  "after_calls act k s = ((snd \<circ> act) ^^ k) s"

definition call_result :: "('s \<Rightarrow> ('a, 'e) result \<times> 's) \<Rightarrow> nat \<Rightarrow> 's \<Rightarrow> ('a, 'e) result" where
  "call_result act i s = fst (act (after_calls act i s))"

lemma after_calls_simps: "after_calls act 0 s = s" "after_calls act (Suc k) s = after_calls act k (snd (act s))"
  by (simp_all add: after_calls_def funpow_swap1)

lemma call_result_Suc: "call_result act (Suc i) s = call_result act i (snd (act s))"
  by (simp add: call_result_def after_calls_simps)

lemma case_result_id [simp]: "(case r of Ok x \<Rightarrow> Ok x | Err e \<Rightarrow> Err e) = r"
  by (cases r) auto

text \<open>The pauses are multiples of the base, cut at the maximum.\<close>

definition pauses :: "duration \<Rightarrow> duration \<Rightarrow> nat \<Rightarrow> nat \<Rightarrow> duration list" where
  "pauses base mx i j = map (\<lambda>n. min (base * n) mx) [i..<j]"

lemma pauses_Cons: "i < j \<Longrightarrow> pauses base mx i j = min (base * i) mx # pauses base mx (Suc i) j"
  by (simp add: pauses_def upt_conv_Cons)

text \<open>A loop that, in each round, makes one call, returns a success, gives up on an error that is not transient or
  beyond the limit, and otherwise pauses and goes on.\<close>

locale retry_loop =
  fixes loop :: "nat \<Rightarrow> 32 word \<Rightarrow> 's \<Rightarrow> duration list \<Rightarrow> ('s, 'a, 'e) retry_outcome option"
    and act :: "'s \<Rightarrow> ('a, 'e) result \<times> 's"
    and transient :: "'e \<Rightarrow> bool"
    and final :: "32 word \<Rightarrow> 'e \<Rightarrow> 'e"
    and limit :: "32 word"
    and base mx :: duration
  assumes round: "loop (Suc fuel) a s slept =
     (case act s of
        (Ok x, s') \<Rightarrow> Some (Returned (Ok x) s' slept)
      | (Err e, s') \<Rightarrow>
          if \<not> transient e \<or> limit < a + 1 then Some (Returned (Err (final (a + 1) e)) s' slept)
          else (case duration_mul base (a + 1) of
                  None \<Rightarrow> Some Overflowed
                | Some b \<Rightarrow> loop fuel (a + 1) s' (slept @ [min b mx])))"
begin

lemma loop_spec:
  assumes "unat a + fuel = unat limit + 1" "0 < fuel" "unat limit < 2 ^ 32 - 1" "base * unat limit \<le> DURATION_MAX"
  shows "\<exists>k. 0 < k \<and> k \<le> fuel \<and>
    (\<forall>i < k - 1. \<exists>e. call_result act i s = Err e \<and> transient e) \<and>
    loop fuel a s slept = Some (Returned
      (case call_result act (k - 1) s of Ok x \<Rightarrow> Ok x | Err e \<Rightarrow> Err (final (a + of_nat k) e))
      (after_calls act k s) (slept @ pauses base mx (unat a + 1) (unat a + k))) \<and>
    (\<forall>e. call_result act (k - 1) s = Err e \<and> transient e \<longrightarrow> k = fuel)"
  using assms
proof (induction fuel arbitrary: a s slept)
  case (Suc fuel)
  have ua: "unat (a + 1) = unat a + 1" using Suc.prems(1,3) by (simp add: unat_word_ariths)
  obtain r s' where act: "act s = (r, s')" by (cases "act s")
  have first: "call_result act 0 s = r" "after_calls act 1 s = s'" by (simp_all add: call_result_def after_calls_def act)
  show ?case
  proof (cases "\<exists>e. r = Err e \<and> transient e \<and> \<not> limit < a + 1")
    case False
    have "k = fuel" if "transient e" "r = Err e" "k = 0" for e k
    proof -
      from False that have "limit < a + 1" by blast
      then have "unat limit < unat a + 1" using ua by (simp add: word_less_nat_alt)
      with Suc.prems(1) that(3) show ?thesis by simp
    qed
    then show ?thesis using False act first
      by (intro exI[of _ 1]) (auto simp: round pauses_def split: result.splits)
  next
    case True
    then obtain e where e: "r = Err e" "transient e" "unat a + 1 \<le> unat limit" using ua by (auto simp: word_less_nat_alt)
    have "base * (unat a + 1) \<le> base * unat limit" using e(3) by (rule mult_le_mono2)
    then have d: "duration_mul base (a + 1) = Some (base * (unat a + 1))"
      using Suc.prems(4) by (simp add: duration_mul_def ua)
    from Suc.IH[of "a + 1" s' "slept @ [min (base * (unat a + 1)) mx]"] Suc.prems e(3) obtain k where
      k: "0 < k" "k \<le> fuel" "\<forall>i < k - 1. \<exists>e. call_result act i s' = Err e \<and> transient e"
        "loop fuel (a + 1) s' (slept @ [min (base * (unat a + 1)) mx]) = Some (Returned
          (case call_result act (k - 1) s' of Ok x \<Rightarrow> Ok x | Err e \<Rightarrow> Err (final (a + 1 + of_nat k) e))
          (after_calls act k s') ((slept @ [min (base * (unat a + 1)) mx]) @ pauses base mx (unat a + 2) (unat a + 1 + k)))"
        "\<forall>e. call_result act (k - 1) s' = Err e \<and> transient e \<longrightarrow> k = fuel"
      by (auto simp: ua)
    have next_call: "call_result act k s = call_result act (k - 1) s'" "after_calls act (Suc k) s = after_calls act k s'"
      using k(1) call_result_Suc[of act "k - 1" s] by (simp_all add: after_calls_simps act)
    have "\<exists>e. call_result act i s = Err e \<and> transient e" if "i < k" for i
      using that k(3) e first(1) call_result_Suc[of act "i - 1" s] by (cases i) (auto simp: act)
    moreover have "pauses base mx (unat a + 1) (unat a + Suc k) =
        min (base * (unat a + 1)) mx # pauses base mx (unat a + 2) (unat a + 1 + k)"
      using pauses_Cons[of "unat a + 1" "unat a + Suc k" base mx] k(1) by (simp add: numeral_2_eq_2)
    moreover have "loop (Suc fuel) a s slept = loop fuel (a + 1) s' (slept @ [min (base * (unat a + 1)) mx])"
      using True e act d by (auto simp: round)
    moreover have final: "a + 1 + of_nat k = a + of_nat (Suc k)" by simp
    ultimately show ?thesis using k(1,2,5) k(4)[unfolded final] next_call
      by (intro exI[of _ "Suc k"]) (simp del: of_nat_Suc)
  qed
qed simp

end

interpretation rpc: retry_loop "call_with_retry cfg req call" "\<lambda>c. call c req" retryable "\<lambda>_ e. e"
    "rc_max_retries cfg" "rc_base_backoff cfg" "rc_max_backoff cfg" for cfg req call
  by unfold_locales (auto simp: Let_def min_def split: prod.splits result.splits option.splits)

interpretation dial: retry_loop "connect_with_retry cfg connect" connect "\<lambda>_. True" "connect_context cfg"
    "gc_max_retries cfg" "gc_base_backoff cfg" "gc_max_backoff cfg" for cfg connect
  by unfold_locales (auto simp: Let_def not_less split: prod.splits result.splits option.splits)

declare call_with_retry.simps [simp del] connect_with_retry.simps [simp del]

section \<open>Properties\<close>

text \<open>C29. A call with retries returns: it makes at least one and at most \<open>max_retries + 1\<close> calls, all but the last
  failed with a transient status, its result is that of the last call, a transient failure is returned only
  after all the calls were made, and the pause before the retry number \<open>n\<close> is \<open>n\<close> times the base, cut at the
  maximum.\<close>

theorem call_with_retry_bounded:
  assumes "unat (rc_max_retries cfg) < 2 ^ 32 - 1" "rc_base_backoff cfg * unat (rc_max_retries cfg) \<le> DURATION_MAX"
  shows "\<exists>k. 0 < k \<and> k \<le> unat (rc_max_retries cfg) + 1 \<and>
    (\<forall>i < k - 1. \<exists>e. call_result (\<lambda>c. call c req) i client = Err e \<and> retryable e) \<and>
    call_with_retry cfg req call (unat (rc_max_retries cfg) + 1) 0 client [] =
      Some (Returned (call_result (\<lambda>c. call c req) (k - 1) client) (after_calls (\<lambda>c. call c req) k client)
        (pauses (rc_base_backoff cfg) (rc_max_backoff cfg) 1 k)) \<and>
    (\<forall>e. call_result (\<lambda>c. call c req) (k - 1) client = Err e \<and> retryable e \<longrightarrow> k = unat (rc_max_retries cfg) + 1)"
proof -
  show ?thesis
    using rpc.loop_spec[of 0 "unat (rc_max_retries cfg) + 1" cfg call req client "[]"] assms by simp
qed

text \<open>Connecting with retries returns in the same way; every failure is retried, and the error after the last
  attempt names the service and the number of attempts, which is \<open>max_retries + 1\<close>.\<close>

theorem connect_with_retry_bounded:
  assumes "unat (gc_max_retries cfg) < 2 ^ 32 - 1" "gc_base_backoff cfg * unat (gc_max_retries cfg) \<le> DURATION_MAX"
  shows "\<exists>k. 0 < k \<and> k \<le> unat (gc_max_retries cfg) + 1 \<and> (\<forall>i < k - 1. \<exists>e. call_result connect i w = Err e) \<and>
    connect_with_retry cfg connect (unat (gc_max_retries cfg) + 1) 0 w [] =
      Some (Returned
        (case call_result connect (k - 1) w of Ok c \<Rightarrow> Ok c
         | Err e \<Rightarrow> Err (connect_context cfg (gc_max_retries cfg + 1) e))
        (after_calls connect k w) (pauses (gc_base_backoff cfg) (gc_max_backoff cfg) 1 k))"
proof -
  obtain k where k: "0 < k" "k \<le> unat (gc_max_retries cfg) + 1" "\<forall>i < k - 1. \<exists>e. call_result connect i w = Err e"
    "connect_with_retry cfg connect (unat (gc_max_retries cfg) + 1) 0 w [] =
      Some (Returned (case call_result connect (k - 1) w of Ok c \<Rightarrow> Ok c | Err e \<Rightarrow> Err (connect_context cfg (0 + of_nat k) e))
        (after_calls connect k w) (pauses (gc_base_backoff cfg) (gc_max_backoff cfg) 1 k))"
    "\<forall>e. call_result connect (k - 1) w = Err e \<longrightarrow> k = unat (gc_max_retries cfg) + 1"
    using dial.loop_spec[of 0 "unat (gc_max_retries cfg) + 1" cfg connect w "[]"] assms by auto
  have "0 + of_nat (unat (gc_max_retries cfg) + 1) = gc_max_retries cfg + 1" by simp
  then have "(case call_result connect (k - 1) w of Ok c \<Rightarrow> Ok c | Err e \<Rightarrow> Err (connect_context cfg (0 + of_nat k) e)) =
      (case call_result connect (k - 1) w of Ok c \<Rightarrow> Ok c | Err e \<Rightarrow> Err (connect_context cfg (gc_max_retries cfg + 1) e))"
    using k(5) by (cases "call_result connect (k - 1) w") (auto simp: add.commute)
  with k show ?thesis by metis
qed

section \<open>Witnesses\<close>

text \<open>A server that is unavailable for its first two calls.\<close>

definition flaky :: "nat \<Rightarrow> string \<Rightarrow> (string, rpc_status) result \<times> nat" where
  "flaky n req = (if n < 2 then Err \<lparr>st_code = CodeUnavailable, st_message = []\<rparr> else Ok req, n + 1)"

theorem call_with_retry_bounded_witness:
  "\<exists>k \<le> 4. call_with_retry default_retry_config ''ping'' flaky 4 0 0 [] =
     Some (Returned (call_result (\<lambda>c. flaky c ''ping'') (k - 1) 0) (after_calls (\<lambda>c. flaky c ''ping'') k 0)
       (pauses (millis 100) (secs 5) 1 k))"
proof -
  have c: "unat (rc_max_retries default_retry_config) = 3" "rc_base_backoff default_retry_config = millis 100"
    "rc_max_backoff default_retry_config = secs 5" by (simp_all add: default_retry_config_def)
  have "unat (rc_max_retries default_retry_config) < 2 ^ 32 - 1"
    "rc_base_backoff default_retry_config * unat (rc_max_retries default_retry_config) \<le> DURATION_MAX"
    by (simp_all add: c DURATION_MAX_def millis_def)
  from call_with_retry_bounded[OF this, of flaky "''ping''" 0] show ?thesis unfolding c by (simp del: One_nat_def) blast
qed

theorem connect_with_retry_bounded_witness:
  "\<exists>k \<le> 4. connect_with_retry default_grpc_config (\<lambda>w. (Err ''refused'', w)) 4 0 () [] =
     Some (Returned (Err (connect_context default_grpc_config 4 ''refused'')) () (pauses (millis 100) (secs 5) 1 k) ::
       (unit, nat, string) retry_outcome)"
proof -
  have c: "unat (gc_max_retries default_grpc_config) = 3" "gc_base_backoff default_grpc_config = millis 100"
    "gc_max_backoff default_grpc_config = secs 5" "gc_max_retries default_grpc_config + 1 = 4"
    by (simp_all add: default_grpc_config_def)
  have b: "unat (gc_max_retries default_grpc_config) < 2 ^ 32 - 1"
    "gc_base_backoff default_grpc_config * unat (gc_max_retries default_grpc_config) \<le> DURATION_MAX"
    by (simp_all add: c DURATION_MAX_def millis_def)
  have r: "call_result (\<lambda>w. (Err ''refused'' :: (nat, string) result, w)) i () = Err ''refused''" for i by (simp add: call_result_def)
  from connect_with_retry_bounded[OF b, of "\<lambda>w. (Err ''refused'' :: (nat, string) result, w)" "()"]
  show ?thesis unfolding c r by (simp del: One_nat_def) blast
qed

end
