(* ===== verification/Json.thy ===== *)
theory Json
  imports Prelude
begin

text \<open>
  \<open>serde_json::Value\<close> and the accessors the code uses on it, and the recursive merge of objects of
  \<open>libs/modkit-bootstrap/src/oop.rs\<close>. The order of the fields of an object stands for the order of the
  \<open>Map\<close>; a number that is not an integer is kept as its text.
\<close>

section \<open>JSON values\<close>

datatype json = JNull | JBool bool | JInt int | JFloat string | JString string | JArray "json list"
  | JObject "(string \<times> json) list"

fun jget :: "string \<Rightarrow> json \<Rightarrow> json option" where
  "jget k (JObject fs) = map_of fs k"
| "jget k _ = None"

fun as_str :: "json \<Rightarrow> string option" where
  "as_str (JString s) = Some s"
| "as_str _ = None"

fun as_array :: "json \<Rightarrow> json list option" where
  "as_array (JArray xs) = Some xs"
| "as_array _ = None"

fun as_bool :: "json \<Rightarrow> bool option" where
  "as_bool (JBool b) = Some b"
| "as_bool _ = None"

fun as_i64 :: "json \<Rightarrow> int option" where
  "as_i64 (JInt i) = (if - (2 ^ 63) \<le> i \<and> i < 2 ^ 63 then Some i else None)"
| "as_i64 _ = None"

text \<open>\<open>iter().filter_map(|v| v.as_str())\<close>.\<close>

definition strings_of :: "json list \<Rightarrow> string list" where
  "strings_of vs = List.map_filter as_str vs"

fun is_object :: "json \<Rightarrow> bool" where
  "is_object (JObject _) = True"
| "is_object _ = False"

fun is_null :: "json \<Rightarrow> bool" where
  "is_null JNull = True"
| "is_null _ = False"

section \<open>Merging objects\<close>

text \<open>\<open>merge_json_objects(target, source)\<close>: objects are merged key by key, every other value replaces.\<close>

function (sequential) merge_json_objects :: "json \<Rightarrow> json \<Rightarrow> json" and
    merge_fields :: "(string \<times> json) list \<Rightarrow> (string \<times> json) list \<Rightarrow> (string \<times> json) list" where
  "merge_json_objects (JObject t) (JObject s) = JObject (merge_fields t s)"
| "merge_json_objects t s = s"
| "merge_fields t [] = t"
| "merge_fields t ((k, v) # s) =
     merge_fields
       (case map_of t k of
          Some tv \<Rightarrow>
            if is_object tv \<and> is_object v then AList.update k (merge_json_objects tv v) t else AList.update k v t
        | None \<Rightarrow> t @ [(k, v)]) s"
  by pat_completeness auto
termination
  by (relation "measure (\<lambda>x. case x of Inl (_, s) \<Rightarrow> size s | Inr (_, s) \<Rightarrow> size_list (size_prod (\<lambda>_. 0) size) s)") auto

text \<open>What a key holds after a merge.\<close>

definition merged :: "json option \<Rightarrow> json option \<Rightarrow> json option" where
  "merged t s = (case (t, s) of
     (Some tv, Some v) \<Rightarrow> Some (if is_object tv \<and> is_object v then merge_json_objects tv v else v)
   | (None, Some v) \<Rightarrow> Some v
   | (t, None) \<Rightarrow> t)"

lemma map_of_merge_fields:
  assumes "distinct (map fst s)"
  shows "map_of (merge_fields t s) k = merged (map_of t k) (map_of s k)"
  using assms
proof (induction s arbitrary: t)
  case Nil
  then show ?case by (simp add: merged_def split: option.splits)
next
  case (Cons p s)
  obtain k' v where p: "p = (k', v)" by (cases p)
  let ?t = "case map_of t k' of
      Some tv \<Rightarrow> if is_object tv \<and> is_object v then AList.update k' (merge_json_objects tv v) t else AList.update k' v t
    | None \<Rightarrow> t @ [(k', v)]"
  have "map_of ?t k = (if k = k' then merged (map_of t k') (Some v) else map_of t k)"
    by (auto simp: merged_def update_conv' map_add_def split: option.splits)
  moreover have "map_of s k' = None" using Cons.prems p by (auto simp: map_of_eq_None_iff)
  moreover have "merged x None = x" for x by (simp add: merged_def split: option.splits)
  ultimately show ?case using Cons by (simp add: p)
qed

lemma jget_merge:
  "distinct (map fst s) \<Longrightarrow> jget k (merge_json_objects (JObject t) (JObject s)) = merged (map_of t k) (map_of s k)"
  by (simp add: map_of_merge_fields)

end
