(* ===== verification/Auth_Claims.thy ===== *)
theory Auth_Claims
  imports Security_Ctx Json "HOL-Library.Char_ord" "HOL-Library.List_Lexorder"
begin

text \<open>
  Tokens and claims (\<open>libs/modkit-auth/src\<close>): the JSON claims of a token, their normalisation by the
  OIDC and the Keycloak plugin (\<open>plugins/oidc.rs\<close>, \<open>plugins/keycloak.rs\<close>), the common checks
  (\<open>validation.rs\<close>), and the dispatcher that tries the key and introspection providers in turn
  (\<open>dispatcher.rs\<close>, \<open>auth_mode.rs\<close>, \<open>config.rs\<close>).

  A point in time is its number of nanoseconds since the epoch. The \<open>time\<close> crate represents the years
  -9999 to 9999, and adding a duration that leaves this range panics: the checks return \<open>None\<close> then.
  The parser of UUIDs is a parameter; a provider is a function of the token on a state of its own.
\<close>

section \<open>Time\<close>

type_synonym time = int

definition MIN_TIMESTAMP :: int where "MIN_TIMESTAMP = - 377705116800"
definition MAX_TIMESTAMP :: int where "MAX_TIMESTAMP = 253402300799"

definition from_unix_timestamp :: "int \<Rightarrow> time option" where
  "from_unix_timestamp ts = (if MIN_TIMESTAMP \<le> ts \<and> ts \<le> MAX_TIMESTAMP then Some (ts * 10 ^ 9) else None)"

definition time_in_range :: "time \<Rightarrow> bool" where
  "time_in_range t \<longleftrightarrow> MIN_TIMESTAMP * 10 ^ 9 \<le> t \<and> t < (MAX_TIMESTAMP + 1) * 10 ^ 9"

definition time_add :: "time \<Rightarrow> int \<Rightarrow> time option" where
  "time_add t s = (let t' = t + s * 10 ^ 9 in if time_in_range t' then Some t' else None)"

section \<open>Claims and their errors\<close>

record claims =
  cl_sub :: uuid
  cl_issuer :: string
  cl_audiences :: "string list"
  cl_expires_at :: "time option"
  cl_not_before :: "time option"
  cl_tenants :: "uuid list"
  cl_roles :: "string list"
  cl_extras :: "(string \<times> json) list"

definition is_expired :: "time \<Rightarrow> claims \<Rightarrow> bool" where
  "is_expired now c = (case cl_expires_at c of Some e \<Rightarrow> now \<ge> e | None \<Rightarrow> False)"

definition is_valid_yet :: "time \<Rightarrow> claims \<Rightarrow> bool" where
  "is_valid_yet now c = (case cl_not_before c of Some n \<Rightarrow> now \<ge> n | None \<Rightarrow> True)"

definition has_role :: "string \<Rightarrow> claims \<Rightarrow> bool" where
  "has_role r c \<longleftrightarrow> r \<in> set (cl_roles c)"

definition has_tenant :: "uuid \<Rightarrow> claims \<Rightarrow> bool" where
  "has_tenant t c \<longleftrightarrow> t \<in> set (cl_tenants c)"

datatype claims_error =
    InvalidSignature
  | InvalidIssuer "string list" string
  | InvalidAudience "string list" "string list"
  | Expired
  | NotYetValid
  | Malformed string
  | ProviderError string
  | MissingClaim string
  | InvalidClaimFormat string string
  | NoMatchingPlugin
  | NoValidatingKey
  | NoMatchingProvider
  | UnknownKidAfterRefresh
  | IntrospectionDenied
  | ConfigFault string
  | DecodeFailed string
  | ClaimsJwksFetchFailed string
  | UnknownKeyId string

section \<open>Common validation\<close>

record validation_config =
  vc_allowed_issuers :: "string list"
  vc_allowed_audiences :: "string list"
  vc_leeway_seconds :: int
  vc_require_uuid_subject :: bool
  vc_require_uuid_tenants :: bool

definition default_validation_config :: validation_config where
  "default_validation_config = \<lparr>vc_allowed_issuers = [], vc_allowed_audiences = [], vc_leeway_seconds = 60,
     vc_require_uuid_subject = True, vc_require_uuid_tenants = True\<rparr>"

text \<open>The clock is read once for the expiration (\<open>now1\<close>) and once for the not-before time (\<open>now2\<close>).\<close>

definition validate_claims ::
    "time \<Rightarrow> time \<Rightarrow> claims \<Rightarrow> validation_config \<Rightarrow> (unit, claims_error) result option" where
  "validate_claims now1 now2 c cfg =
     (if vc_allowed_issuers cfg \<noteq> [] \<and> cl_issuer c \<notin> set (vc_allowed_issuers cfg)
      then Some (Err (InvalidIssuer (vc_allowed_issuers cfg) (cl_issuer c)))
      else if vc_allowed_audiences cfg \<noteq> [] \<and>
        \<not> list_ex (\<lambda>aud. aud \<in> set (vc_allowed_audiences cfg)) (cl_audiences c)
      then Some (Err (InvalidAudience (vc_allowed_audiences cfg) (cl_audiences c)))
      else
        case (case cl_expires_at c of None \<Rightarrow> Some False
              | Some e \<Rightarrow> map_option (\<lambda>limit. now1 > limit) (time_add e (vc_leeway_seconds cfg))) of
          None \<Rightarrow> None
        | Some expired \<Rightarrow>
            if expired then Some (Err Expired)
            else
              case (case cl_not_before c of None \<Rightarrow> Some False
                    | Some n \<Rightarrow> map_option (\<lambda>limit. now2 < limit) (time_add n (- vc_leeway_seconds cfg))) of
                None \<Rightarrow> None
              | Some early \<Rightarrow>
                  if early then Some (Err NotYetValid)
                  else if vc_require_uuid_subject cfg \<and> cl_sub c = 0
                  then Some (Err (InvalidClaimFormat ''sub'' ''subject cannot be nil UUID''))
                  else if vc_require_uuid_tenants cfg \<and> 0 \<in> set (cl_tenants c)
                  then Some (Err (InvalidClaimFormat ''tenants'' ''tenant ID cannot be nil UUID''))
                  else Some (Ok ()))"

definition parse_uuid_from_value :: "(string \<Rightarrow> uuid option) \<Rightarrow> json \<Rightarrow> string \<Rightarrow> (uuid, claims_error) result" where
  "parse_uuid_from_value parse_uuid v field =
     and_then (ok_or (InvalidClaimFormat field ''must be a string'') (as_str v)) (\<lambda>s.
       ok_or (InvalidClaimFormat field ''must be a valid UUID'') (parse_uuid s))"

definition parse_uuid_array_from_value ::
    "(string \<Rightarrow> uuid option) \<Rightarrow> json \<Rightarrow> string \<Rightarrow> (uuid list, claims_error) result" where
  "parse_uuid_array_from_value parse_uuid v field =
     and_then (ok_or (InvalidClaimFormat field ''must be an array'') (as_array v)) (\<lambda>vs.
       collect (\<lambda>v. parse_uuid_from_value parse_uuid v field) vs)"

definition parse_timestamp :: "json \<Rightarrow> string \<Rightarrow> (time, claims_error) result" where
  "parse_timestamp v field =
     and_then (ok_or (InvalidClaimFormat field ''must be a number (unix timestamp)'') (as_i64 v)) (\<lambda>ts.
       ok_or (InvalidClaimFormat field ''invalid unix timestamp'') (from_unix_timestamp ts))"

definition extract_string_claim :: "json \<Rightarrow> string \<Rightarrow> (string, claims_error) result" where
  "extract_string_claim v field = ok_or (MissingClaim field) (as_str v)"

fun extract_audiences :: "json \<Rightarrow> string list" where
  "extract_audiences (JString s) = [s]"
| "extract_audiences (JArray vs) = strings_of vs"
| "extract_audiences _ = []"

section \<open>Plugins\<close>

text \<open>\<open>opt.map(f).transpose()\<close>.\<close>

fun transpose_map :: "('a \<Rightarrow> ('b, 'e) result) \<Rightarrow> 'a option \<Rightarrow> ('b option, 'e) result" where
  "transpose_map f None = Ok None"
| "transpose_map f (Some x) = and_then (f x) (\<lambda>y. Ok (Some y))"

definition insert_present :: "json \<Rightarrow> string \<Rightarrow> (string \<times> json) list \<Rightarrow> (string \<times> json) list" where
  "insert_present raw field extras =
     (case jget field raw of Some v \<Rightarrow> AList.update field v extras | None \<Rightarrow> extras)"

fun other_fields :: "string list \<Rightarrow> json \<Rightarrow> (string \<times> json) list" where
  "other_fields standard (JObject fs) =
     fold (\<lambda>(k, v) m. if k \<in> set standard then m else AList.update k v m) fs []"
| "other_fields standard _ = []"

text \<open>The steps 1 to 6 that both plugins share.\<close>

definition standard_claims ::
    "(string \<Rightarrow> uuid option) \<Rightarrow> string \<Rightarrow> json \<Rightarrow>
     (string list \<Rightarrow> (string \<times> json) list \<Rightarrow> claims, claims_error) result" where
  "standard_claims parse_uuid tenant_claim raw =
     and_then (and_then (ok_or (MissingClaim ''sub'') (jget ''sub'' raw)) (\<lambda>v. parse_uuid_from_value parse_uuid v ''sub'')) (\<lambda>sub.
     and_then (and_then (ok_or (MissingClaim ''iss'') (jget ''iss'' raw)) (\<lambda>v. extract_string_claim v ''iss'')) (\<lambda>issuer.
     let audiences = (case jget ''aud'' raw of Some v \<Rightarrow> extract_audiences v | None \<Rightarrow> []) in
     and_then (transpose_map (\<lambda>v. parse_timestamp v ''exp'') (jget ''exp'' raw)) (\<lambda>expires_at.
     and_then (transpose_map (\<lambda>v. parse_timestamp v ''nbf'') (jget ''nbf'' raw)) (\<lambda>not_before.
     and_then (transpose_map (\<lambda>v. parse_uuid_array_from_value parse_uuid v tenant_claim) (jget tenant_claim raw)) (\<lambda>tenants.
     Ok (\<lambda>roles extras.
       \<lparr>cl_sub = sub, cl_issuer = issuer, cl_audiences = audiences, cl_expires_at = expires_at,
        cl_not_before = not_before, cl_tenants = (case tenants of Some ts \<Rightarrow> ts | None \<Rightarrow> []),
        cl_roles = roles, cl_extras = extras\<rparr>))))))"

record oidc_plugin =
  op_tenant_claim :: string
  op_roles_claim :: string

definition oidc_extract_roles :: "oidc_plugin \<Rightarrow> json \<Rightarrow> string list" where
  "oidc_extract_roles p raw =
     (case Option.bind (jget (op_roles_claim p) raw) as_array of Some vs \<Rightarrow> strings_of vs | None \<Rightarrow> [])"

definition oidc_normalize :: "(string \<Rightarrow> uuid option) \<Rightarrow> oidc_plugin \<Rightarrow> json \<Rightarrow> (claims, claims_error) result" where
  "oidc_normalize parse_uuid p raw =
     and_then (standard_claims parse_uuid (op_tenant_claim p) raw) (\<lambda>mk.
       let roles = oidc_extract_roles p raw;
           extras = other_fields [''sub'', ''iss'', ''aud'', ''exp'', ''nbf'', ''iat'', ''jti'',
                      op_tenant_claim p, op_roles_claim p] raw
       in Ok (mk roles (fold (insert_present raw)
            [''email'', ''name'', ''preferred_username'', ''given_name'', ''family_name'', ''picture''] extras)))"

record keycloak_plugin =
  kp_tenant_claim :: string
  kp_client_roles :: "string option"
  kp_role_prefix :: "string option"

definition roles_in :: "json option \<Rightarrow> string list" where
  "roles_in v = (case v of Some (JArray vs) \<Rightarrow> strings_of vs | _ \<Rightarrow> [])"

definition object_field :: "string \<Rightarrow> json option \<Rightarrow> json option" where
  "object_field k v = (case v of Some (JObject fs) \<Rightarrow> map_of fs k | _ \<Rightarrow> None)"

definition keycloak_extract_roles :: "keycloak_plugin \<Rightarrow> json \<Rightarrow> string list" where
  "keycloak_extract_roles p raw =
     (let top = roles_in (jget ''roles'' raw);
          realm = roles_in (object_field ''roles'' (jget ''realm_access'' raw));
          client = (case kp_client_roles p of
                      None \<Rightarrow> []
                    | Some cid \<Rightarrow> roles_in (object_field ''roles'' (object_field cid (jget ''resource_access'' raw))));
          roles = top @ realm @ client;
          prefixed = (case kp_role_prefix p of None \<Rightarrow> roles | Some pre \<Rightarrow> map (\<lambda>r. pre @ '':'' @ r) roles)
      in remdups_adj (sort prefixed))"

definition keycloak_normalize ::
    "(string \<Rightarrow> uuid option) \<Rightarrow> keycloak_plugin \<Rightarrow> json \<Rightarrow> (claims, claims_error) result" where
  "keycloak_normalize parse_uuid p raw =
     and_then (standard_claims parse_uuid (kp_tenant_claim p) raw) (\<lambda>mk.
       let roles = keycloak_extract_roles p raw;
           extras = other_fields [''sub'', ''iss'', ''aud'', ''exp'', ''nbf'', ''iat'', ''jti'', ''azp'',
                      kp_tenant_claim p, ''roles'', ''realm_access'', ''resource_access''] raw
       in Ok (mk roles (fold (insert_present raw) [''email'', ''preferred_username'', ''name''] extras)))"

section \<open>Plugin registry and configuration\<close>

type_synonym normalizer = "json \<Rightarrow> (claims, claims_error) result"

record claims_plugin =
  cp_name :: string
  cp_normalize :: normalizer

datatype auth_config_error = UnknownPlugin string | InvalidMode string | HttpClientError string

type_synonym plugin_registry = "(string \<times> claims_plugin) list"

definition registry_register :: "string \<Rightarrow> claims_plugin \<Rightarrow> plugin_registry \<Rightarrow> plugin_registry" where
  "registry_register name p reg = AList.update name p reg"

definition registry_get :: "plugin_registry \<Rightarrow> string \<Rightarrow> (claims_plugin, auth_config_error) result" where
  "registry_get reg name = ok_or (UnknownPlugin name) (map_of reg name)"

definition registry_contains :: "plugin_registry \<Rightarrow> string \<Rightarrow> bool" where
  "registry_contains reg name \<longleftrightarrow> map_of reg name \<noteq> None"

record jwks_config =
  jc_uri :: string
  jc_refresh_interval_seconds :: nat
  jc_max_backoff_seconds :: nat

datatype plugin_config =
    KeycloakConfig string "string option" "string option"
  | OidcConfig string string

record auth_config =
  ac_provider :: string
  ac_leeway_seconds :: int
  ac_issuers :: "string list"
  ac_audiences :: "string list"
  ac_jwks :: "jwks_config option"
  ac_plugins :: "(string \<times> plugin_config) list"

definition auth_config_validate :: "auth_config \<Rightarrow> (unit, auth_config_error) result" where
  "auth_config_validate cfg =
     (if map_of (ac_plugins cfg) (ac_provider cfg) = None then Err (UnknownPlugin (ac_provider cfg)) else Ok ())"

fun plugin_of :: "(string \<Rightarrow> uuid option) \<Rightarrow> plugin_config \<Rightarrow> claims_plugin" where
  "plugin_of parse_uuid (KeycloakConfig tenant client pre) =
     \<lparr>cp_name = ''keycloak'', cp_normalize = keycloak_normalize parse_uuid
        \<lparr>kp_tenant_claim = tenant, kp_client_roles = client, kp_role_prefix = pre\<rparr>\<rparr>"
| "plugin_of parse_uuid (OidcConfig tenant roles) =
     \<lparr>cp_name = ''generic-oidc'', cp_normalize = oidc_normalize parse_uuid
        \<lparr>op_tenant_claim = tenant, op_roles_claim = roles\<rparr>\<rparr>"

section \<open>The dispatcher\<close>

record jwt_header =
  h_kid :: "string option"
  h_alg :: string

type_synonym 'w key_provider = "string \<Rightarrow> 'w \<Rightarrow> (jwt_header \<times> json, claims_error) result \<times> 'w"
type_synonym 'w introspection_provider = "string \<Rightarrow> 'w \<Rightarrow> (json, claims_error) result \<times> 'w"

record 'w auth_dispatcher =
  ad_key_providers :: "'w key_provider list"
  ad_introspection_providers :: "'w introspection_provider list"
  ad_plugin :: claims_plugin
  ad_validation :: validation_config

definition dispatcher_new ::
    "validation_config \<Rightarrow> auth_config \<Rightarrow> plugin_registry \<Rightarrow> ('w auth_dispatcher, auth_config_error) result" where
  "dispatcher_new vcfg cfg reg =
     and_then (registry_get reg (ac_provider cfg)) (\<lambda>p.
       Ok \<lparr>ad_key_providers = [], ad_introspection_providers = [], ad_plugin = p, ad_validation = vcfg\<rparr>)"

definition with_key_provider :: "'w key_provider \<Rightarrow> 'w auth_dispatcher \<Rightarrow> 'w auth_dispatcher" where
  "with_key_provider p d = d\<lparr>ad_key_providers := ad_key_providers d @ [p]\<rparr>"

definition with_introspection_provider :: "'w introspection_provider \<Rightarrow> 'w auth_dispatcher \<Rightarrow> 'w auth_dispatcher" where
  "with_introspection_provider p d = d\<lparr>ad_introspection_providers := ad_introspection_providers d @ [p]\<rparr>"

text \<open>The loop over the providers: the first success wins, else the last error, else the given one.\<close>

fun first_success ::
    "(string \<Rightarrow> 'w \<Rightarrow> ('a, claims_error) result \<times> 'w) list \<Rightarrow> string \<Rightarrow> claims_error \<Rightarrow> 'w \<Rightarrow>
     ('a, claims_error) result \<times> 'w" where
  "first_success [] token last_error w = (Err last_error, w)"
| "first_success (p # ps) token last_error w =
     (case p token w of
        (Ok r, w') \<Rightarrow> (Ok r, w')
      | (Err e, w') \<Rightarrow> first_success ps token e w')"

definition try_validate_with_providers ::
    "'w auth_dispatcher \<Rightarrow> string \<Rightarrow> 'w \<Rightarrow> (jwt_header \<times> json, claims_error) result \<times> 'w" where
  "try_validate_with_providers d token w = first_success (ad_key_providers d) token NoMatchingProvider w"

definition extract_issuer_from_claims :: "json \<Rightarrow> (string, claims_error) result" where
  "extract_issuer_from_claims raw = ok_or (Malformed ''missing iss claim'') (Option.bind (jget ''iss'' raw) as_str)"

text \<open>The steps after the signature: issuer, normalisation, common validation; \<open>None\<close> is a panic.\<close>

definition checked_claims ::
    "'w auth_dispatcher \<Rightarrow> time \<times> time \<Rightarrow> json \<Rightarrow> (claims, claims_error) result option" where
  "checked_claims d now raw =
     (case and_then (extract_issuer_from_claims raw) (\<lambda>_. cp_normalize (ad_plugin d) raw) of
        Err e \<Rightarrow> Some (Err e)
      | Ok c \<Rightarrow> map_option (\<lambda>r. and_then r (\<lambda>_. Ok c)) (validate_claims (fst now) (snd now) c (ad_validation d)))"

definition validate_jwt ::
    "'w auth_dispatcher \<Rightarrow> time \<times> time \<Rightarrow> string \<Rightarrow> 'w \<Rightarrow> (claims, claims_error) result option \<times> 'w" where
  "validate_jwt d now token w =
     (case try_validate_with_providers d token w of
        (Err e, w') \<Rightarrow> (Some (Err e), w')
      | (Ok (header, raw), w') \<Rightarrow> (checked_claims d now raw, w'))"

definition try_introspect_with_providers ::
    "'w auth_dispatcher \<Rightarrow> string \<Rightarrow> 'w \<Rightarrow> (json, claims_error) result \<times> 'w" where
  "try_introspect_with_providers d token w =
     first_success (ad_introspection_providers d) token (ProviderError ''No introspection provider available'') w"

definition verify_token_active :: "json \<Rightarrow> (unit, claims_error) result" where
  "verify_token_active r =
     (case Option.bind (jget ''active'' r) as_bool of
        Some active \<Rightarrow> if \<not> active then Err IntrospectionDenied else Ok ()
      | None \<Rightarrow> Ok ())"

definition validate_opaque ::
    "'w auth_dispatcher \<Rightarrow> time \<times> time \<Rightarrow> string \<Rightarrow> 'w \<Rightarrow> (claims, claims_error) result option \<times> 'w" where
  "validate_opaque d now token w =
     (case try_introspect_with_providers d token w of
        (Err e, w') \<Rightarrow> (Some (Err e), w')
      | (Ok r, w') \<Rightarrow>
          (case verify_token_active r of
             Err e \<Rightarrow> (Some (Err e), w')
           | Ok _ \<Rightarrow> (checked_claims d now r, w')))"

datatype auth_error =
    Unauthenticated
  | Forbidden
  | InvalidToken string
  | ValidationFailed string
  | JwksFetchFailed string
  | IssuerMismatch string string
  | AudienceMismatch "string list" "string list"
  | TokenExpired
  | AuthInternal string

definition validate_and_parse ::
    "'w auth_dispatcher \<Rightarrow> time \<times> time \<Rightarrow> string \<Rightarrow> 'w \<Rightarrow> (claims, auth_error) result option \<times> 'w" where
  "validate_and_parse d now token w =
     (case validate_jwt d now token w of (r, w') \<Rightarrow> (map_option (map_err (\<lambda>_. Unauthenticated)) r, w'))"

text \<open>The key provider that \<open>JwksKeyProvider::new\<close> builds from the configuration is a parameter here.\<close>

definition build_auth_dispatcher ::
    "(string \<Rightarrow> uuid option) \<Rightarrow> (jwks_config \<Rightarrow> ('w key_provider, auth_config_error) result) \<Rightarrow> auth_config \<Rightarrow>
     ('w auth_dispatcher, auth_config_error) result" where
  "build_auth_dispatcher parse_uuid jwks_new cfg =
     and_then (auth_config_validate cfg) (\<lambda>_.
       let vcfg = \<lparr>vc_allowed_issuers = ac_issuers cfg, vc_allowed_audiences = ac_audiences cfg,
                   vc_leeway_seconds = ac_leeway_seconds cfg, vc_require_uuid_subject = True,
                   vc_require_uuid_tenants = True\<rparr>;
           reg = fold (\<lambda>(name, pc) reg. registry_register name (plugin_of parse_uuid pc) reg) (ac_plugins cfg) []
       in and_then (dispatcher_new vcfg cfg reg) (\<lambda>d.
            case ac_jwks cfg of
              None \<Rightarrow> Ok d
            | Some jc \<Rightarrow> and_then (jwks_new jc) (\<lambda>p. Ok (with_key_provider p d))))"

section \<open>What the checks establish\<close>

text \<open>The policy on claims, over unbounded time.\<close>

definition acceptable :: "time \<Rightarrow> time \<Rightarrow> claims \<Rightarrow> validation_config \<Rightarrow> bool" where
  "acceptable now1 now2 c cfg \<longleftrightarrow>
     (vc_allowed_issuers cfg = [] \<or> cl_issuer c \<in> set (vc_allowed_issuers cfg)) \<and>
     (vc_allowed_audiences cfg = [] \<or> set (cl_audiences c) \<inter> set (vc_allowed_audiences cfg) \<noteq> {}) \<and>
     (\<forall>e. cl_expires_at c = Some e \<longrightarrow> now1 \<le> e + vc_leeway_seconds cfg * 10 ^ 9) \<and>
     (\<forall>n. cl_not_before c = Some n \<longrightarrow> n - vc_leeway_seconds cfg * 10 ^ 9 \<le> now2) \<and>
     (vc_require_uuid_subject cfg \<longrightarrow> cl_sub c \<noteq> 0) \<and>
     (vc_require_uuid_tenants cfg \<longrightarrow> 0 \<notin> set (cl_tenants c))"

text \<open>The claims whose times can be moved by the leeway.\<close>

definition movable :: "claims \<Rightarrow> validation_config \<Rightarrow> bool" where
  "movable c cfg \<longleftrightarrow>
     (\<forall>e. cl_expires_at c = Some e \<longrightarrow> time_in_range (e + vc_leeway_seconds cfg * 10 ^ 9)) \<and>
     (\<forall>n. cl_not_before c = Some n \<longrightarrow> time_in_range (n - vc_leeway_seconds cfg * 10 ^ 9))"

lemma validate_claims_acceptable:
  "validate_claims now1 now2 c cfg = Some (Ok ()) \<Longrightarrow> acceptable now1 now2 c cfg"
  by (auto simp: validate_claims_def acceptable_def time_add_def Let_def list_ex_iff
      split: if_splits option.splits)

lemma validate_claims_iff:
  "movable c cfg \<Longrightarrow> validate_claims now1 now2 c cfg \<noteq> None \<and>
     (validate_claims now1 now2 c cfg = Some (Ok ()) \<longleftrightarrow> acceptable now1 now2 c cfg)"
  by (cases "cl_expires_at c"; cases "cl_not_before c")
    (auto simp: validate_claims_def acceptable_def movable_def time_add_def Let_def list_ex_iff)

lemma first_success_Ok:
  "first_success ps token last_error w = (Ok r, w') \<Longrightarrow> \<exists>p \<in> set ps. \<exists>w0. p token w0 = (Ok r, w')"
  by (induction ps arbitrary: last_error w) (auto split: prod.splits result.splits)

lemma checked_claims_Ok:
  "checked_claims d now raw = Some (Ok c) \<longleftrightarrow>
     (\<exists>i. Option.bind (jget ''iss'' raw) as_str = Some i) \<and> cp_normalize (ad_plugin d) raw = Ok c \<and>
     validate_claims (fst now) (snd now) c (ad_validation d) = Some (Ok ())"
  by (cases "Option.bind (jget ''iss'' raw) as_str"; cases "cp_normalize (ad_plugin d) raw")
    (auto simp: checked_claims_def extract_issuer_from_claims_def res_simps)

lemma build_auth_dispatcher_plugin:
  assumes "build_auth_dispatcher parse_uuid jwks_new cfg = Ok d" "distinct (map fst (ac_plugins cfg))"
  shows "\<exists>pc. map_of (ac_plugins cfg) (ac_provider cfg) = Some pc \<and> ad_plugin d = plugin_of parse_uuid pc \<and>
    vc_allowed_issuers (ad_validation d) = ac_issuers cfg \<and> vc_allowed_audiences (ad_validation d) = ac_audiences cfg \<and>
    vc_leeway_seconds (ad_validation d) = ac_leeway_seconds cfg \<and>
    vc_require_uuid_subject (ad_validation d) \<and> vc_require_uuid_tenants (ad_validation d)"
proof -
  have reg: "map_of (fold (\<lambda>(name, pc) reg. registry_register name (plugin_of parse_uuid pc) reg) pcs reg0) n =
      (case map_of pcs n of Some pc \<Rightarrow> Some (plugin_of parse_uuid pc) | None \<Rightarrow> map_of reg0 n)"
    if "distinct (map fst pcs)" for pcs reg0 n
    using that
  proof (induction pcs arbitrary: reg0)
    case (Cons x pcs)
    then show ?case by (cases x) (force simp: registry_register_def update_conv' map_of_eq_None_iff split: option.splits)
  qed simp
  show ?thesis using assms
    by (auto simp: build_auth_dispatcher_def auth_config_validate_def dispatcher_new_def registry_get_def Let_def
        res_simps reg with_key_provider_def split: if_splits option.splits)
qed

lemma standard_claims_Ok:
  assumes "standard_claims parse_uuid tc raw = Ok mk"
  shows "\<exists>s t. jget ''sub'' raw = Some (JString s) \<and> parse_uuid s = Some t \<and> cl_sub (mk roles extras) = t"
    "jget ''iss'' raw = Some (JString (cl_issuer (mk roles extras)))"
    "cl_audiences (mk roles extras) = (case jget ''aud'' raw of Some v \<Rightarrow> extract_audiences v | None \<Rightarrow> [])"
    "transpose_map (\<lambda>v. parse_timestamp v ''exp'') (jget ''exp'' raw) = Ok (cl_expires_at (mk roles extras))"
    "transpose_map (\<lambda>v. parse_timestamp v ''nbf'') (jget ''nbf'' raw) = Ok (cl_not_before (mk roles extras))"
    "\<exists>ts. transpose_map (\<lambda>v. parse_uuid_array_from_value parse_uuid v tc) (jget tc raw) = Ok ts \<and>
       cl_tenants (mk roles extras) = (case ts of Some ts \<Rightarrow> ts | None \<Rightarrow> [])"
    "cl_roles (mk roles extras) = roles"
  using assms
  by (auto simp: standard_claims_def res_simps Let_def parse_uuid_from_value_def extract_string_claim_def elim!: as_str.elims)

text \<open>The field that holds the tenants, and the roles, under each kind of plugin.\<close>

fun tenant_field :: "plugin_config \<Rightarrow> string" where
  "tenant_field (KeycloakConfig tenant _ _) = tenant"
| "tenant_field (OidcConfig tenant _) = tenant"

fun token_roles :: "plugin_config \<Rightarrow> json \<Rightarrow> string list" where
  "token_roles (KeycloakConfig tenant client pre) raw =
     keycloak_extract_roles \<lparr>kp_tenant_claim = tenant, kp_client_roles = client, kp_role_prefix = pre\<rparr> raw"
| "token_roles (OidcConfig tenant roles) raw =
     oidc_extract_roles \<lparr>op_tenant_claim = tenant, op_roles_claim = roles\<rparr> raw"

lemma plugin_normalize_Ok:
  "cp_normalize (plugin_of parse_uuid pc) raw = Ok c \<Longrightarrow>
     \<exists>mk extras. standard_claims parse_uuid (tenant_field pc) raw = Ok mk \<and> c = mk (token_roles pc raw) extras"
  by (cases pc) (auto simp: oidc_normalize_def keycloak_normalize_def res_simps Let_def)

lemma transpose_map_Ok:
  "transpose_map f x = Ok y \<longleftrightarrow> (case x of None \<Rightarrow> y = None | Some v \<Rightarrow> \<exists>z. f v = Ok z \<and> y = Some z)"
  by (cases x) (auto simp: res_simps)

lemma parse_timestamp_Ok:
  "parse_timestamp v f = Ok t \<Longrightarrow> \<exists>ts. v = JInt ts \<and> t = ts * 10 ^ 9 \<and> MIN_TIMESTAMP \<le> ts \<and> ts \<le> MAX_TIMESTAMP"
  by (auto simp: parse_timestamp_def from_unix_timestamp_def res_simps split: if_splits elim!: as_i64.elims)

lemma parse_uuid_array_Ok:
  "parse_uuid_array_from_value parse_uuid v f = Ok ts \<Longrightarrow>
     \<exists>vs. v = JArray vs \<and> list_all2 (\<lambda>v t. \<exists>s. v = JString s \<and> parse_uuid s = Some t) vs ts"
  by (auto simp: parse_uuid_array_from_value_def parse_uuid_from_value_def res_simps collect_Ok_iff
      elim!: as_array.elims as_str.elims list_all2_mono)

lemma list_all2_in_set2: "list_all2 P xs ys \<Longrightarrow> y \<in> set ys \<Longrightarrow> \<exists>x \<in> set xs. P x y"
  by (induction rule: list_all2_induct) auto

lemma sorted_distinct_remdups_adj: "sorted xs \<Longrightarrow> distinct (remdups_adj xs)" for xs :: "string list"
  by (induction xs rule: remdups_adj.induct) (auto dest: order.antisym)

lemma set_strings_of: "set (strings_of vs) = {s. JString s \<in> set vs}"
  by (auto simp: strings_of_def List.map_filter_def image_iff elim!: as_str.elims) (metis as_str.simps(1) option.sel)

lemma set_roles_in: "set (roles_in v) = {s. \<exists>vs. v = Some (JArray vs) \<and> JString s \<in> set vs}"
  by (auto simp: roles_in_def set_strings_of split: option.splits json.splits)

lemma jwt_verified:
  assumes "build_auth_dispatcher parse_uuid jwks_new cfg = Ok d" "distinct (map fst (ac_plugins cfg))"
    and "validate_jwt d now token w = (Some (Ok c), w')"
  shows "\<exists>jc provider header raw w0 pc.
    ac_jwks cfg = Some jc \<and> jwks_new jc = Ok provider \<and> provider token w0 = (Ok (header, raw), w') \<and>
    map_of (ac_plugins cfg) (ac_provider cfg) = Some pc \<and> cp_normalize (plugin_of parse_uuid pc) raw = Ok c \<and>
    acceptable (fst now) (snd now) c (ad_validation d)"
proof -
  have ps: "ad_key_providers d = (case ac_jwks cfg of None \<Rightarrow> [] | Some jc \<Rightarrow>
      (case jwks_new jc of Ok p \<Rightarrow> [p] | Err _ \<Rightarrow> []))"
    using assms(1) by (auto simp: build_auth_dispatcher_def dispatcher_new_def with_key_provider_def Let_def res_simps
        split: option.splits result.splits)
  from assms(3) obtain header raw where t: "try_validate_with_providers d token w = (Ok (header, raw), w')"
    "checked_claims d now raw = Some (Ok c)"
    by (auto simp: validate_jwt_def split: prod.splits result.splits)
  from t(1) obtain p w0 where p: "p \<in> set (ad_key_providers d)" "p token w0 = (Ok (header, raw), w')"
    unfolding try_validate_with_providers_def by (blast dest: first_success_Ok)
  from p(1) obtain jc where jc: "ac_jwks cfg = Some jc" "jwks_new jc = Ok p"
    by (cases "ac_jwks cfg"; cases "jwks_new (the (ac_jwks cfg))") (auto simp: ps)
  from build_auth_dispatcher_plugin[OF assms(1,2)] obtain pc where
    pc: "map_of (ac_plugins cfg) (ac_provider cfg) = Some pc" "ad_plugin d = plugin_of parse_uuid pc" by blast
  have v: "cp_normalize (ad_plugin d) raw = Ok c" "acceptable (fst now) (snd now) c (ad_validation d)"
    using t(2) by (auto simp: checked_claims_Ok dest: validate_claims_acceptable)
  show ?thesis
    by (rule exI[of _ jc], rule exI[of _ p], rule exI[of _ header], rule exI[of _ raw], rule exI[of _ w0], rule exI[of _ pc])
      (use jc p(2) pc v in auto)
qed

lemma normalized_tenant_listed:
  assumes "cp_normalize (plugin_of parse_uuid pc) raw = Ok c" "t \<in> set (cl_tenants c)"
  shows "\<exists>vs s. jget (tenant_field pc) raw = Some (JArray vs) \<and> JString s \<in> set vs \<and> parse_uuid s = Some t"
proof -
  obtain mk extras where mk: "standard_claims parse_uuid (tenant_field pc) raw = Ok mk" "c = mk (token_roles pc raw) extras"
    using plugin_normalize_Ok[OF assms(1)] by blast
  from standard_claims_Ok(6)[OF mk(1), of "token_roles pc raw" extras, folded mk(2)] assms(2) show ?thesis
    by (auto simp: transpose_map_Ok split: option.splits dest!: parse_uuid_array_Ok) (blast dest: list_all2_in_set2)
qed

section \<open>Properties\<close>

text \<open>C5. A dispatcher built from a configuration accepts a token only when the JWKS key provider of that
  configuration has verified it, and the claims it returns are those of the configured plugin for the verified
  content, come from an allowed issuer, name an allowed audience, are within their times up to the leeway, and
  have neither a nil subject nor a nil tenant.\<close>

theorem accepted_jwt_is_verified:
  assumes "build_auth_dispatcher parse_uuid jwks_new cfg = Ok d" "distinct (map fst (ac_plugins cfg))"
    and "validate_jwt d now token w = (Some (Ok c), w')"
  shows "\<exists>jc provider header raw w0 pc.
    ac_jwks cfg = Some jc \<and> jwks_new jc = Ok provider \<and> provider token w0 = (Ok (header, raw), w') \<and>
    map_of (ac_plugins cfg) (ac_provider cfg) = Some pc \<and> cp_normalize (plugin_of parse_uuid pc) raw = Ok c \<and>
    (ac_issuers cfg = [] \<or> cl_issuer c \<in> set (ac_issuers cfg)) \<and>
    (ac_audiences cfg = [] \<or> set (cl_audiences c) \<inter> set (ac_audiences cfg) \<noteq> {}) \<and>
    (\<forall>e. cl_expires_at c = Some e \<longrightarrow> fst now \<le> e + ac_leeway_seconds cfg * 10 ^ 9) \<and>
    (\<forall>n. cl_not_before c = Some n \<longrightarrow> n - ac_leeway_seconds cfg * 10 ^ 9 \<le> snd now) \<and>
    cl_sub c \<noteq> 0 \<and> 0 \<notin> set (cl_tenants c)"
proof -
  obtain jc p header raw w0 pc where v: "ac_jwks cfg = Some jc" "jwks_new jc = Ok p" "p token w0 = (Ok (header, raw), w')"
    "map_of (ac_plugins cfg) (ac_provider cfg) = Some pc" "cp_normalize (plugin_of parse_uuid pc) raw = Ok c"
    "acceptable (fst now) (snd now) c (ad_validation d)"
    using jwt_verified[OF assms] by blast
  show ?thesis
    by (rule exI[of _ jc], rule exI[of _ p], rule exI[of _ header], rule exI[of _ raw], rule exI[of _ w0], rule exI[of _ pc])
      (use v build_auth_dispatcher_plugin[OF assms(1,2)] in \<open>auto simp: acceptable_def\<close>)
qed

text \<open>C23. The claims that a plugin produces are those of the token: the subject and the issuer are present,
  the times are the integer timestamps of the token, the tenants are exactly the listed ones in their order,
  and one malformed tenant refuses the token.\<close>

theorem normalized_claims_come_from_the_token:
  assumes "cp_normalize (plugin_of parse_uuid pc) raw = Ok c"
  shows "(\<exists>s. jget ''sub'' raw = Some (JString s) \<and> parse_uuid s = Some (cl_sub c)) \<and>
    jget ''iss'' raw = Some (JString (cl_issuer c)) \<and>
    (case jget ''exp'' raw of None \<Rightarrow> cl_expires_at c = None
     | Some v \<Rightarrow> \<exists>ts. v = JInt ts \<and> cl_expires_at c = Some (ts * 10 ^ 9)) \<and>
    (case jget ''nbf'' raw of None \<Rightarrow> cl_not_before c = None
     | Some v \<Rightarrow> \<exists>ts. v = JInt ts \<and> cl_not_before c = Some (ts * 10 ^ 9)) \<and>
    (case jget (tenant_field pc) raw of None \<Rightarrow> cl_tenants c = []
     | Some v \<Rightarrow> \<exists>vs. v = JArray vs \<and>
         list_all2 (\<lambda>v t. \<exists>s. v = JString s \<and> parse_uuid s = Some t) vs (cl_tenants c)) \<and>
    cl_roles c = token_roles pc raw"
proof -
  obtain mk extras where mk: "standard_claims parse_uuid (tenant_field pc) raw = Ok mk" "c = mk (token_roles pc raw) extras"
    using plugin_normalize_Ok[OF assms] by blast
  note f = standard_claims_Ok[OF mk(1), of "token_roles pc raw" extras, folded mk(2)]
  show ?thesis
    using f(1,2,4,5,6,7)
    by (auto simp: transpose_map_Ok split: option.splits dest!: parse_timestamp_Ok parse_uuid_array_Ok)
qed

text \<open>The roles of a Keycloak token are sorted, without duplicates, and exactly the strings in the
  top-level, the realm's and the configured client's lists, each with the prefix.\<close>

theorem keycloak_roles_exact:
  "sorted (keycloak_extract_roles p raw) \<and> distinct (keycloak_extract_roles p raw) \<and>
   set (keycloak_extract_roles p raw) =
     (case kp_role_prefix p of None \<Rightarrow> id | Some pre \<Rightarrow> (`) (\<lambda>r. pre @ '':'' @ r))
       ({r. \<exists>vs. jget ''roles'' raw = Some (JArray vs) \<and> JString r \<in> set vs} \<union>
        {r. \<exists>vs. object_field ''roles'' (jget ''realm_access'' raw) = Some (JArray vs) \<and> JString r \<in> set vs} \<union>
        {r. \<exists>cid vs. kp_client_roles p = Some cid \<and>
              object_field ''roles'' (object_field cid (jget ''resource_access'' raw)) = Some (JArray vs) \<and>
              JString r \<in> set vs})"
  by (cases "kp_role_prefix p"; cases "kp_client_roles p")
    (auto simp: keycloak_extract_roles_def Let_def set_roles_in sorted_distinct_remdups_adj)

text \<open>A verified token that expires in the last representable second makes the validation panic
  instead of being accepted or refused, under every positive leeway.\<close>

theorem last_second_expiry_panics:
  assumes "cp_normalize (ad_plugin d) raw = Ok c" "jget ''iss'' raw = Some (JString i)"
    and "cl_expires_at c = Some (MAX_TIMESTAMP * 10 ^ 9)" "0 < vc_leeway_seconds (ad_validation d)"
    and "vc_allowed_issuers (ad_validation d) = []" "vc_allowed_audiences (ad_validation d) = []"
  shows "checked_claims d now raw = None"
  using assms
  by (simp add: checked_claims_def extract_issuer_from_claims_def validate_claims_def time_add_def time_in_range_def
      MAX_TIMESTAMP_def MIN_TIMESTAMP_def)

text \<open>An opaque token whose introspection succeeded is accepted unless the response says that it is
  inactive with a literal \<open>false\<close>: a response without the field, or with a field that is not a boolean, is
  taken for an active token.\<close>

theorem opaque_token_accepted_iff:
  assumes "try_introspect_with_providers d token w = (Ok r, w')"
  shows "validate_opaque d now token w = (Some (Ok c), w') \<longleftrightarrow>
    jget ''active'' r \<noteq> Some (JBool False) \<and> checked_claims d now r = Some (Ok c)"
proof -
  have "verify_token_active r = (if jget ''active'' r = Some (JBool False) then Err IntrospectionDenied else Ok ())"
    by (cases "jget ''active'' r") (auto simp: verify_token_active_def elim!: as_bool.elims split: option.splits)
  then show ?thesis using assms by (auto simp: validate_opaque_def)
qed

section \<open>Witnesses\<close>

text \<open>A token of the tenant 7, and a UUID codec that reads one digit.\<close>

definition digit_uuid :: "string \<Rightarrow> uuid option" where
  "digit_uuid s = (case s of [c] \<Rightarrow> Some (of_char c - 48) | _ \<Rightarrow> None)"

definition token_claims :: "int \<Rightarrow> json" where
  "token_claims e = JObject [(''iss'', JString ''idp''), (''sub'', JString ''5''), (''exp'', JInt e),
     (''tenants'', JArray [JString ''7'']), (''roles'', JArray [JString ''users:read''])]"

definition idp_config :: auth_config where
  "idp_config = \<lparr>ac_provider = ''oidc'', ac_leeway_seconds = 60, ac_issuers = [''idp''], ac_audiences = [],
     ac_jwks = Some \<lparr>jc_uri = ''https://idp'', jc_refresh_interval_seconds = 300, jc_max_backoff_seconds = 3600\<rparr>,
     ac_plugins = [(''oidc'', OidcConfig ''tenants'' ''roles'')]\<rparr>"

definition honest_keys :: "jwks_config \<Rightarrow> (unit key_provider, auth_config_error) result" where
  "honest_keys _ = Ok (\<lambda>token w. (if token = ''signed''
     then Ok (\<lparr>h_kid = Some ''k'', h_alg = ''RS256''\<rparr>, token_claims 1000) else Err InvalidSignature, w))"

definition idp_claims :: claims where
  "idp_claims = \<lparr>cl_sub = 5, cl_issuer = ''idp'', cl_audiences = [], cl_expires_at = Some (1000 * 10 ^ 9),
     cl_not_before = None, cl_tenants = [7], cl_roles = [''users:read''], cl_extras = []\<rparr>"

definition idp_dispatcher :: "unit auth_dispatcher" where
  "idp_dispatcher = (case build_auth_dispatcher digit_uuid honest_keys idp_config of Ok d \<Rightarrow> d)"

lemmas auth_demo_defs = digit_uuid_def token_claims_def idp_config_def honest_keys_def idp_claims_def

lemma idp_normalize:
  "cp_normalize (plugin_of digit_uuid (OidcConfig ''tenants'' ''roles'')) (token_claims 1000) = Ok idp_claims"
  by (simp add: auth_demo_defs oidc_normalize_def standard_claims_def parse_uuid_from_value_def extract_string_claim_def
      parse_timestamp_def from_unix_timestamp_def MIN_TIMESTAMP_def MAX_TIMESTAMP_def parse_uuid_array_from_value_def
      oidc_extract_roles_def strings_of_def List.map_filter_def insert_present_def)

lemma idp_built: "build_auth_dispatcher digit_uuid honest_keys idp_config = Ok idp_dispatcher"
  by (simp add: idp_dispatcher_def build_auth_dispatcher_def auth_config_validate_def idp_config_def honest_keys_def
      dispatcher_new_def registry_get_def registry_register_def Let_def)

lemma idp_accepts: "validate_jwt idp_dispatcher (0, 0) ''signed'' () = (Some (Ok idp_claims), ())"
proof -
  have d: "ad_plugin idp_dispatcher = plugin_of digit_uuid (OidcConfig ''tenants'' ''roles'')"
    "ad_key_providers idp_dispatcher = [case honest_keys undefined of Ok p \<Rightarrow> p]"
    "ad_validation idp_dispatcher = \<lparr>vc_allowed_issuers = [''idp''], vc_allowed_audiences = [], vc_leeway_seconds = 60,
       vc_require_uuid_subject = True, vc_require_uuid_tenants = True\<rparr>"
    by (simp_all add: idp_dispatcher_def build_auth_dispatcher_def auth_config_validate_def idp_config_def honest_keys_def
        dispatcher_new_def registry_get_def registry_register_def with_key_provider_def Let_def)
  have "validate_claims 0 0 idp_claims (ad_validation idp_dispatcher) = Some (Ok ())"
    by (simp add: d validate_claims_def idp_claims_def time_add_def time_in_range_def MIN_TIMESTAMP_def MAX_TIMESTAMP_def)
  moreover have "Option.bind (jget ''iss'' (token_claims 1000)) as_str = Some ''idp''" by (simp add: token_claims_def)
  ultimately have "checked_claims idp_dispatcher (0, 0) (token_claims 1000) = Some (Ok idp_claims)"
    unfolding checked_claims_Ok d(1) using idp_normalize by simp
  then show ?thesis by (simp add: validate_jwt_def try_validate_with_providers_def d(2) honest_keys_def)
qed

theorem accepted_jwt_is_verified_witness:
  "validate_jwt idp_dispatcher (0, 0) ''signed'' () = (Some (Ok idp_claims), ()) \<and>
   cl_issuer idp_claims \<in> set (ac_issuers idp_config)"
proof -
  have "distinct (map fst (ac_plugins idp_config))" "ac_issuers idp_config \<noteq> []" by (simp_all add: idp_config_def)
  with accepted_jwt_is_verified[OF idp_built _ idp_accepts] idp_accepts show ?thesis by blast
qed

theorem normalized_claims_come_from_the_token_witness:
  "\<exists>vs. jget ''tenants'' (token_claims 1000) = Some (JArray vs) \<and>
     list_all2 (\<lambda>v t. \<exists>s. v = JString s \<and> digit_uuid s = Some t) vs (cl_tenants idp_claims)"
  using normalized_claims_come_from_the_token[OF idp_normalize] by (auto simp: token_claims_def)

definition open_dispatcher :: "unit auth_dispatcher" where
  "open_dispatcher = \<lparr>ad_key_providers = [], ad_introspection_providers = [\<lambda>token w. (Ok (token_claims 1000), w)],
     ad_plugin = plugin_of digit_uuid (OidcConfig ''tenants'' ''roles''), ad_validation = default_validation_config\<rparr>"

theorem last_second_expiry_panics_witness:
  "checked_claims open_dispatcher (0, 0) (token_claims MAX_TIMESTAMP) = None"
proof -
  have n: "cp_normalize (ad_plugin open_dispatcher) (token_claims MAX_TIMESTAMP) =
      Ok (idp_claims\<lparr>cl_expires_at := Some (MAX_TIMESTAMP * 10 ^ 9)\<rparr>)"
    by (simp add: auth_demo_defs open_dispatcher_def oidc_normalize_def standard_claims_def parse_uuid_from_value_def
        extract_string_claim_def parse_timestamp_def from_unix_timestamp_def MIN_TIMESTAMP_def MAX_TIMESTAMP_def
        parse_uuid_array_from_value_def oidc_extract_roles_def strings_of_def List.map_filter_def insert_present_def)
  show ?thesis
    by (rule last_second_expiry_panics[OF n])
      (simp_all add: token_claims_def open_dispatcher_def default_validation_config_def)
qed

theorem opaque_token_accepted_iff_witness:
  "validate_opaque open_dispatcher (0, 0) ''t'' () = (Some (Ok idp_claims), ()) \<and> jget ''active'' (token_claims 1000) = None"
proof -
  have p: "ad_plugin open_dispatcher = plugin_of digit_uuid (OidcConfig ''tenants'' ''roles'')"
    by (simp add: open_dispatcher_def)
  have "validate_claims 0 0 idp_claims (ad_validation open_dispatcher) = Some (Ok ())"
    by (simp add: open_dispatcher_def default_validation_config_def validate_claims_def idp_claims_def time_add_def
        time_in_range_def MIN_TIMESTAMP_def MAX_TIMESTAMP_def)
  moreover have "Option.bind (jget ''iss'' (token_claims 1000)) as_str = Some ''idp''" by (simp add: token_claims_def)
  ultimately have "checked_claims open_dispatcher (0, 0) (token_claims 1000) = Some (Ok idp_claims)"
    unfolding checked_claims_Ok p using idp_normalize by simp
  moreover have "try_introspect_with_providers open_dispatcher ''t'' () = (Ok (token_claims 1000), ())"
    by (simp add: try_introspect_with_providers_def open_dispatcher_def)
  moreover have "jget ''active'' (token_claims 1000) = None" by (simp add: token_claims_def)
  ultimately show ?thesis using opaque_token_accepted_iff[of open_dispatcher "''t''" "()"] by simp
qed

end
