(* ===== verification/Auth_Jwks.thy ===== *)
theory Auth_Jwks
  imports Auth_Claims "HOL-Library.Word"
begin

text \<open>
  The JWKS key provider (\<open>libs/modkit-auth/src/providers/jwks.rs\<close>): the cache of signing keys, its periodic
  refresh with backoff, the throttled refresh on demand, and the verification of a token.

  Instants and durations are nanoseconds; a reading of the clock is an argument of the operation that makes
  it, and so is the answer of the JWKS endpoint. Building an RSA key and decoding a token are functions of
  the \<open>jsonwebtoken\<close> crate and parameters (\<open>jwt_lib\<close>). The error that the refresh state keeps is the error
  itself instead of its text.
\<close>

section \<open>State\<close>

record jwk =
  jwk_kid :: string
  jwk_kty :: string
  jwk_n :: string
  jwk_e :: string

text \<open>The answer to the request for the keys: no answer, or a status and the parsed body.\<close>

datatype http_answer = SendFailed string | Answered nat "(jwk list, string) result"

record 'k jwt_lib =
  rsa_key :: "string \<Rightarrow> string \<Rightarrow> ('k, string) result"
  show_status :: "nat \<Rightarrow> string"
  decode_header :: "string \<Rightarrow> (jwt_header, string) result"
  decode_token :: "string \<Rightarrow> 'k \<Rightarrow> string \<Rightarrow> (json, string) result"

record refresh_state =
  rs_last_refresh :: "nat option"
  rs_last_on_demand :: "nat option"
  rs_failures :: "32 word"
  rs_last_error :: "claims_error option"
  rs_failed_kids :: "string list"

record 'k jwks_provider =
  jp_uri :: string
  jp_keys :: "(string \<times> 'k) list"
  jp_state :: refresh_state
  jp_refresh_interval :: nat
  jp_max_backoff :: nat
  jp_cooldown :: nat

definition from_secs :: "nat \<Rightarrow> nat" where "from_secs s = s * 10 ^ 9"

definition default_refresh_state :: refresh_state where
  "default_refresh_state = \<lparr>rs_last_refresh = None, rs_last_on_demand = None, rs_failures = 0, rs_last_error = None,
     rs_failed_kids = []\<rparr>"

definition jwks_new :: "string \<Rightarrow> 'k jwks_provider" where
  "jwks_new uri = \<lparr>jp_uri = uri, jp_keys = [], jp_state = default_refresh_state, jp_refresh_interval = from_secs 300,
     jp_max_backoff = from_secs 3600, jp_cooldown = from_secs 60\<rparr>"

definition with_refresh_interval :: "nat \<Rightarrow> 'k jwks_provider \<Rightarrow> 'k jwks_provider" where
  "with_refresh_interval d p = p\<lparr>jp_refresh_interval := d\<rparr>"

definition with_max_backoff_jwks :: "nat \<Rightarrow> 'k jwks_provider \<Rightarrow> 'k jwks_provider" where
  "with_max_backoff_jwks d p = p\<lparr>jp_max_backoff := d\<rparr>"

definition with_on_demand_refresh_cooldown :: "nat \<Rightarrow> 'k jwks_provider \<Rightarrow> 'k jwks_provider" where
  "with_on_demand_refresh_cooldown d p = p\<lparr>jp_cooldown := d\<rparr>"

section \<open>Operations\<close>

fun collect_keys :: "'k jwt_lib \<Rightarrow> jwk list \<Rightarrow> (string \<times> 'k) list \<Rightarrow> ((string \<times> 'k) list, claims_error) result" where
  "collect_keys lib [] keys = Ok keys"
| "collect_keys lib (j # js) keys =
     (if jwk_kty j = ''RSA''
      then (case rsa_key lib (jwk_n j) (jwk_e j) of
              Err e \<Rightarrow> Err (ClaimsJwksFetchFailed (''Invalid RSA key: '' @ e))
            | Ok k \<Rightarrow> collect_keys lib js (AList.update (jwk_kid j) k keys))
      else collect_keys lib js keys)"

definition fetch_jwks :: "'k jwt_lib \<Rightarrow> http_answer \<Rightarrow> ((string \<times> 'k) list, claims_error) result" where
  "fetch_jwks lib answer =
     (case answer of
        SendFailed e \<Rightarrow> Err (ClaimsJwksFetchFailed (''HTTP request failed: '' @ e))
      | Answered status body \<Rightarrow>
          if \<not> (200 \<le> status \<and> status < 300)
          then Err (ClaimsJwksFetchFailed (''HTTP error: '' @ show_status lib status))
          else and_then (map_err (\<lambda>e. ClaimsJwksFetchFailed (''Failed to parse JWKS: '' @ e)) body) (\<lambda>jwks.
            and_then (collect_keys lib jwks []) (\<lambda>keys.
              if keys = [] then Err (ClaimsJwksFetchFailed ''No valid RSA keys found in JWKS'') else Ok keys)))"

definition calculate_backoff :: "'k jwks_provider \<Rightarrow> 32 word \<Rightarrow> nat" where
  "calculate_backoff p failures =
     (let base = from_secs 60; exponential = base * 2 ^ min (unat failures) 10
      in min exponential (jp_max_backoff p))"

definition should_refresh :: "'k jwks_provider \<Rightarrow> nat \<Rightarrow> bool" where
  "should_refresh p now =
     (case rs_last_refresh (jp_state p) of
        None \<Rightarrow> True
      | Some t \<Rightarrow>
          let elapsed = now - t
          in if rs_failures (jp_state p) = 0 then elapsed \<ge> jp_refresh_interval p
             else elapsed \<ge> calculate_backoff p (rs_failures (jp_state p)))"

definition perform_refresh ::
    "'k jwt_lib \<Rightarrow> http_answer \<Rightarrow> nat \<Rightarrow> 'k jwks_provider \<Rightarrow> (unit, claims_error) result \<times> 'k jwks_provider" where
  "perform_refresh lib answer now p =
     (case fetch_jwks lib answer of
        Ok keys \<Rightarrow> (Ok (), p\<lparr>jp_keys := keys,
          jp_state := (jp_state p)\<lparr>rs_last_refresh := Some now, rs_failures := 0, rs_last_error := None\<rparr>\<rparr>)
      | Err e \<Rightarrow> (Err e, p\<lparr>jp_state := (jp_state p)
          \<lparr>rs_last_refresh := Some now, rs_failures := rs_failures (jp_state p) + 1, rs_last_error := Some e\<rparr>\<rparr>))"

definition key_exists :: "'k jwks_provider \<Rightarrow> string \<Rightarrow> bool" where
  "key_exists p kid \<longleftrightarrow> map_of (jp_keys p) kid \<noteq> None"

definition check_refresh_throttle :: "'k jwks_provider \<Rightarrow> string \<Rightarrow> nat \<Rightarrow> (unit, claims_error) result" where
  "check_refresh_throttle p kid now =
     (case rs_last_on_demand (jp_state p) of
        Some t \<Rightarrow> if now - t < jp_cooldown p then Err (UnknownKeyId kid) else Ok ()
      | None \<Rightarrow> Ok ())"

definition handle_refresh_success :: "string \<Rightarrow> nat \<Rightarrow> 'k jwks_provider \<Rightarrow> 'k jwks_provider" where
  "handle_refresh_success kid now p =
     p\<lparr>jp_state := (jp_state p)\<lparr>rs_last_on_demand := Some now,
        rs_failed_kids := (if key_exists p kid then removeAll kid (rs_failed_kids (jp_state p))
                           else List.insert kid (rs_failed_kids (jp_state p)))\<rparr>\<rparr>"

definition handle_refresh_failure :: "string \<Rightarrow> nat \<Rightarrow> 'k jwks_provider \<Rightarrow> 'k jwks_provider" where
  "handle_refresh_failure kid now p =
     p\<lparr>jp_state := (jp_state p)\<lparr>rs_last_on_demand := Some now,
        rs_failed_kids := List.insert kid (rs_failed_kids (jp_state p))\<rparr>\<rparr>"

text \<open>The clock is read for the throttle (\<open>now\<close>), after the fetch (\<open>now2\<close>) and when the on-demand
  refresh is recorded (\<open>now3\<close>).\<close>

record visit =
  v_now :: nat
  v_answer :: http_answer
  v_now2 :: nat
  v_now3 :: nat

definition on_demand_refresh ::
    "'k jwt_lib \<Rightarrow> visit \<Rightarrow> string \<Rightarrow> 'k jwks_provider \<Rightarrow> (unit, claims_error) result \<times> 'k jwks_provider" where
  "on_demand_refresh lib v kid p =
     (if key_exists p kid then (Ok (), p)
      else case check_refresh_throttle p kid (v_now v) of
             Err e \<Rightarrow> (Err e, p)
           | Ok _ \<Rightarrow>
               (case perform_refresh lib (v_answer v) (v_now2 v) p of
                  (Ok _, p') \<Rightarrow> (Ok (), handle_refresh_success kid (v_now3 v) p')
                | (Err e, p') \<Rightarrow> (Err e, handle_refresh_failure kid (v_now3 v) p')))"

definition get_key :: "'k jwks_provider \<Rightarrow> string \<Rightarrow> 'k option" where
  "get_key p kid = map_of (jp_keys p) kid"

definition validate_token :: "'k jwt_lib \<Rightarrow> string \<Rightarrow> 'k \<Rightarrow> jwt_header \<Rightarrow> (json, claims_error) result" where
  "validate_token lib token key header =
     map_err (\<lambda>e. DecodeFailed (''JWT validation failed: '' @ e)) (decode_token lib token key (h_alg header))"

text \<open>\<open>str::trim_start_matches\<close> removes the prefix as often as it occurs.\<close>

fun trim_start_matches :: "nat \<Rightarrow> string \<Rightarrow> string \<Rightarrow> string" where
  "trim_start_matches 0 pat s = s"
| "trim_start_matches (Suc n) pat s =
     (case strip_prefix pat s of Some rest \<Rightarrow> trim_start_matches n pat rest | None \<Rightarrow> s)"

definition bare_token :: "string \<Rightarrow> string" where
  "bare_token token = trim (trim_start_matches (length token) ''Bearer '' token)"

definition validate_and_decode ::
    "'k jwt_lib \<Rightarrow> visit \<Rightarrow> string \<Rightarrow> 'k jwks_provider \<Rightarrow>
     (jwt_header \<times> json, claims_error) result \<times> 'k jwks_provider" where
  "validate_and_decode lib v token0 p =
     (let token = bare_token token0
      in case map_err (\<lambda>e. DecodeFailed (''Invalid JWT header: '' @ e)) (decode_header lib token) of
           Err e \<Rightarrow> (Err e, p)
         | Ok header \<Rightarrow>
             (case h_kid header of
                None \<Rightarrow> (Err (DecodeFailed ''Missing kid in JWT header''), p)
              | Some kid \<Rightarrow>
                  (case get_key p kid of
                     Some key \<Rightarrow> (and_then (validate_token lib token key header) (\<lambda>c. Ok (header, c)), p)
                   | None \<Rightarrow>
                       (case on_demand_refresh lib v kid p of
                          (Err e, p') \<Rightarrow> (Err e, p')
                        | (Ok _, p') \<Rightarrow>
                            (case get_key p' kid of
                               None \<Rightarrow> (Err (UnknownKeyId kid), p')
                             | Some key \<Rightarrow> (and_then (validate_token lib token key header) (\<lambda>c. Ok (header, c)), p'))))))"

definition refresh_keys ::
    "'k jwt_lib \<Rightarrow> nat \<Rightarrow> http_answer \<Rightarrow> nat \<Rightarrow> 'k jwks_provider \<Rightarrow> (unit, claims_error) result \<times> 'k jwks_provider" where
  "refresh_keys lib now answer now2 p =
     (if should_refresh p now then perform_refresh lib answer now2 p else (Ok (), p))"

text \<open>The provider that \<open>build_auth_dispatcher\<close> adds, and its state at the start.\<close>

definition jwks_configured :: "jwks_config \<Rightarrow> 'k jwks_provider" where
  "jwks_configured jc = with_max_backoff_jwks (from_secs (jc_max_backoff_seconds jc))
     (with_refresh_interval (from_secs (jc_refresh_interval_seconds jc)) (jwks_new (jc_uri jc)))"

section \<open>Reachable providers\<close>

text \<open>The providers that tokens and refreshes lead to, with the answers of the endpoint that were fetched.\<close>

inductive jwks_reach :: "'k jwt_lib \<Rightarrow> http_answer list \<Rightarrow> 'k jwks_provider \<Rightarrow> bool" for lib where
  start: "jwks_reach lib [] (jwks_configured jc)"
| token: "jwks_reach lib as p \<Longrightarrow> jwks_reach lib (as @ [v_answer v]) (snd (validate_and_decode lib v tok p))"
| refresh: "jwks_reach lib as p \<Longrightarrow> jwks_reach lib (as @ [a]) (snd (refresh_keys lib now a now2 p))"

definition published :: "'k jwt_lib \<Rightarrow> http_answer \<Rightarrow> string \<Rightarrow> 'k \<Rightarrow> bool" where
  "published lib a kid key \<longleftrightarrow>
     (\<exists>status js j. a = Answered status (Ok js) \<and> 200 \<le> status \<and> status < 300 \<and> j \<in> set js \<and> jwk_kid j = kid \<and>
        jwk_kty j = ''RSA'' \<and> rsa_key lib (jwk_n j) (jwk_e j) = Ok key)"

lemma collect_keys_published:
  "collect_keys lib js keys0 = Ok keys \<Longrightarrow> map_of keys kid = Some key \<Longrightarrow>
     map_of keys0 kid = Some key \<or>
     (\<exists>j \<in> set js. jwk_kid j = kid \<and> jwk_kty j = ''RSA'' \<and> rsa_key lib (jwk_n j) (jwk_e j) = Ok key)"
proof (induction js arbitrary: keys0)
  case (Cons j js)
  show ?case
  proof (cases "jwk_kty j = ''RSA''")
    case True
    with Cons.prems obtain k where k: "rsa_key lib (jwk_n j) (jwk_e j) = Ok k"
      "collect_keys lib js (AList.update (jwk_kid j) k keys0) = Ok keys" by (auto split: result.splits)
    from Cons.IH[OF k(2) Cons.prems(2)] True k(1) show ?thesis by (auto simp: update_conv' split: if_splits)
  qed (use Cons in auto)
qed simp

lemma fetch_jwks_published:
  "fetch_jwks lib a = Ok keys \<Longrightarrow> map_of keys kid = Some key \<Longrightarrow> published lib a kid key"
  by (fastforce simp: fetch_jwks_def published_def res_simps split: http_answer.splits if_splits dest: collect_keys_published)

lemma fetch_jwks_nonempty: "fetch_jwks lib a = Ok keys \<Longrightarrow> keys \<noteq> []"
  by (auto simp: fetch_jwks_def res_simps split: http_answer.splits if_splits)

lemma perform_refresh_keys:
  "perform_refresh lib a now p = (r, p') \<Longrightarrow>
     (case r of Ok _ \<Rightarrow> fetch_jwks lib a = Ok (jp_keys p') | Err _ \<Rightarrow> jp_keys p' = jp_keys p)"
  by (auto simp: perform_refresh_def split: result.splits)

lemma on_demand_refresh_keys:
  "on_demand_refresh lib v kid p = (r, p') \<Longrightarrow> jp_keys p' = jp_keys p \<or> fetch_jwks lib (v_answer v) = Ok (jp_keys p')"
  by (auto simp: on_demand_refresh_def handle_refresh_success_def handle_refresh_failure_def
      split: if_splits result.splits prod.splits dest!: perform_refresh_keys)

lemma validate_and_decode_keys:
  "validate_and_decode lib v tok p = (r, p') \<Longrightarrow> jp_keys p' = jp_keys p \<or> fetch_jwks lib (v_answer v) = Ok (jp_keys p')"
  by (auto simp: validate_and_decode_def Let_def split: result.splits option.splits prod.splits dest!: on_demand_refresh_keys)

lemma refresh_keys_keys:
  "refresh_keys lib now a now2 p = (r, p') \<Longrightarrow> jp_keys p' = jp_keys p \<or> fetch_jwks lib a = Ok (jp_keys p')"
  by (auto simp: refresh_keys_def split: if_splits result.splits dest!: perform_refresh_keys)

lemma reach_published:
  "jwks_reach lib as p \<Longrightarrow> map_of (jp_keys p) kid = Some key \<Longrightarrow> \<exists>a \<in> set as. published lib a kid key"
proof (induction rule: jwks_reach.induct)
  case (start jc)
  then show ?case by (simp add: jwks_configured_def with_max_backoff_jwks_def with_refresh_interval_def jwks_new_def)
next
  case (token as p v tok)
  then show ?case using validate_and_decode_keys[of lib v tok p] by (metis fetch_jwks_published prod.collapse in_set_conv_decomp
        UnCI set_append)
next
  case (refresh as p a now now2)
  then show ?case using refresh_keys_keys[of lib now a now2 p] by (metis fetch_jwks_published prod.collapse in_set_conv_decomp
        UnCI set_append)
qed

lemma validate_and_decode_Ok:
  assumes "validate_and_decode lib v token p = (Ok (header, raw), p')"
  shows "\<exists>kid key. decode_header lib (bare_token token) = Ok header \<and> h_kid header = Some kid \<and>
    map_of (jp_keys p') kid = Some key \<and> decode_token lib (bare_token token) key (h_alg header) = Ok raw"
  using assms
  by (auto simp: validate_and_decode_def Let_def validate_token_def get_key_def res_simps
      split: result.splits option.splits prod.splits)

section \<open>Throttling\<close>

text \<open>A sequence of on-demand refreshes, and the intervals in which they fetched the keys.\<close>

fun od_fetches :: "'k jwt_lib \<Rightarrow> (string \<times> visit) list \<Rightarrow> 'k jwks_provider \<Rightarrow> (nat \<times> nat) list" where
  "od_fetches lib [] p = []"
| "od_fetches lib ((kid, v) # vs) p =
     (let p' = snd (on_demand_refresh lib v kid p); rest = od_fetches lib vs p'
      in if \<not> key_exists p kid \<and> is_ok (check_refresh_throttle p kid (v_now v)) then (v_now v, v_now3 v) # rest else rest)"

fun visits_ordered :: "nat \<Rightarrow> (string \<times> visit) list \<Rightarrow> bool" where
  "visits_ordered t [] \<longleftrightarrow> True"
| "visits_ordered t ((kid, v) # vs) \<longleftrightarrow>
     t \<le> v_now v \<and> v_now v \<le> v_now2 v \<and> v_now2 v \<le> v_now3 v \<and> visits_ordered (v_now3 v) vs"

lemma on_demand_refresh_effect:
  "jp_cooldown (snd (on_demand_refresh lib v kid p)) = jp_cooldown p"
  "rs_last_on_demand (jp_state (snd (on_demand_refresh lib v kid p))) =
     (if \<not> key_exists p kid \<and> is_ok (check_refresh_throttle p kid (v_now v)) then Some (v_now3 v)
      else rs_last_on_demand (jp_state p))"
  by (auto simp: on_demand_refresh_def handle_refresh_success_def handle_refresh_failure_def perform_refresh_def is_ok_iff
      split: if_splits result.splits prod.splits)

lemma throttle_open: "is_ok (check_refresh_throttle p kid now) \<longleftrightarrow>
    (\<forall>t. rs_last_on_demand (jp_state p) = Some t \<longrightarrow> jp_cooldown p \<le> now - t)"
  by (auto simp: check_refresh_throttle_def is_ok_iff split: option.splits)

lemma od_fetches_spaced:
  assumes "visits_ordered t vs" "\<forall>l. rs_last_on_demand (jp_state p) = Some l \<longrightarrow> l \<le> t"
  shows "sorted_wrt (\<lambda>a b. snd a + jp_cooldown p \<le> fst b) (od_fetches lib vs p) \<and>
    (\<forall>f \<in> set (od_fetches lib vs p). \<forall>l. rs_last_on_demand (jp_state p) = Some l \<longrightarrow> l + jp_cooldown p \<le> fst f)"
  using assms
proof (induction vs arbitrary: t p)
  case (Cons x vs)
  obtain kid v where x: "x = (kid, v)" by (cases x)
  let ?p = "snd (on_demand_refresh lib v kid p)"
  let ?fetch = "\<not> key_exists p kid \<and> is_ok (check_refresh_throttle p kid (v_now v))"
  have ord: "t \<le> v_now v" "v_now v \<le> v_now3 v" "visits_ordered (v_now3 v) vs" using Cons.prems(1) by (auto simp: x)
  have "\<forall>l. rs_last_on_demand (jp_state ?p) = Some l \<longrightarrow> l \<le> v_now3 v"
    using Cons.prems(2) ord(1,2) by (auto simp: on_demand_refresh_effect split: if_splits)
  note ih = Cons.IH[OF ord(3) this, unfolded on_demand_refresh_effect]
  show ?case
  proof (cases ?fetch)
    case False
    with ih show ?thesis by (auto simp: x Let_def)
  next
    case True
    have first: "l + jp_cooldown p \<le> v_now v" if "rs_last_on_demand (jp_state p) = Some l" for l
      using True that Cons.prems(2) ord(1) by (fastforce simp: throttle_open)
    have rest: "v_now3 v + jp_cooldown p \<le> fst f" if "f \<in> set (od_fetches lib vs ?p)" for f using ih that True by simp
    from first rest have "l + jp_cooldown p \<le> fst f"
      if "rs_last_on_demand (jp_state p) = Some l" "f \<in> set (od_fetches lib vs ?p)" for l f
      using that ord(2) by (meson add_leD1 le_trans)
    then show ?thesis using ih True first rest by (simp add: x Let_def)
  qed
qed simp

section \<open>Properties\<close>

text \<open>C12. A token is accepted only under a key that the JWKS endpoint published: its header names a key id that a
  successful answer of the endpoint lists as an RSA key, and decoding the token with that key gave the claims.
  This holds after any sequence of tokens and refreshes, failed ones included.\<close>

theorem jwks_accepts_only_published_keys:
  assumes "jwks_reach lib as p" "validate_and_decode lib v token p = (Ok (header, raw), p')"
  shows "\<exists>a kid key. a \<in> set (as @ [v_answer v]) \<and> h_kid header = Some kid \<and> published lib a kid key \<and>
    decode_header lib (bare_token token) = Ok header \<and>
    decode_token lib (bare_token token) key (h_alg header) = Ok raw"
proof -
  obtain kid key where k: "decode_header lib (bare_token token) = Ok header" "h_kid header = Some kid"
    "map_of (jp_keys p') kid = Some key" "decode_token lib (bare_token token) key (h_alg header) = Ok raw"
    using validate_and_decode_Ok[OF assms(2)] by blast
  have "jwks_reach lib (as @ [v_answer v]) p'" using jwks_reach.token[OF assms(1), of v token] assms(2) by simp
  from reach_published[OF this k(3)] k show ?thesis by blast
qed

text \<open>Refreshes on demand are throttled: whatever key ids tokens name and whatever the endpoint answers,
  a fetch starts no earlier than the cooldown after the end of the previous one.\<close>

theorem on_demand_fetches_spaced:
  assumes "visits_ordered 0 vs"
  shows "sorted_wrt (\<lambda>a b. snd a + jp_cooldown (jwks_configured jc :: 'k jwks_provider) \<le> fst b)
    (od_fetches lib vs (jwks_configured jc :: 'k jwks_provider))"
  using od_fetches_spaced[OF assms, of "jwks_configured jc :: 'k jwks_provider" lib]
  by (simp add: jwks_configured_def with_max_backoff_jwks_def with_refresh_interval_def jwks_new_def default_refresh_state_def)

section \<open>Witnesses\<close>

text \<open>A library whose keys are strings, and an endpoint that publishes the key \<open>k\<close>.\<close>

definition text_lib :: "string jwt_lib" where
  "text_lib = \<lparr>rsa_key = (\<lambda>n e. Ok n), show_status = (\<lambda>_. []),
     decode_header = (\<lambda>t. Ok \<lparr>h_kid = Some ''k'', h_alg = ''RS256''\<rparr>),
     decode_token = (\<lambda>t key alg. if t = ''signed'' then Ok (token_claims 1000) else Err ''bad'')\<rparr>"

definition endpoint_visit :: visit where
  "endpoint_visit = \<lparr>v_now = 0, v_answer = Answered 200 (Ok [\<lparr>jwk_kid = ''k'', jwk_kty = ''RSA'', jwk_n = ''n'', jwk_e = ''e''\<rparr>]),
     v_now2 = 1, v_now3 = 2\<rparr>"

definition fresh_provider :: "string jwks_provider" where
  "fresh_provider = jwks_configured \<lparr>jc_uri = ''https://idp'', jc_refresh_interval_seconds = 300, jc_max_backoff_seconds = 3600\<rparr>"

lemmas jwks_demo_defs = text_lib_def endpoint_visit_def fresh_provider_def jwks_configured_def with_max_backoff_jwks_def
  with_refresh_interval_def jwks_new_def default_refresh_state_def

theorem jwks_accepts_only_published_keys_witness:
  "\<exists>a kid key. a \<in> set [v_answer endpoint_visit] \<and> published text_lib a kid key \<and>
     decode_token text_lib ''signed'' key ''RS256'' = Ok (token_claims 1000)"
proof -
  let ?h = "\<lparr>h_kid = Some ''k'', h_alg = ''RS256''\<rparr>"
  have b: "bare_token ''Bearer signed'' = ''signed''" by code_simp
  have d: "decode_header text_lib ''signed'' = Ok ?h" "decode_token text_lib ''signed'' key alg = Ok (token_claims 1000)" for key alg
    by (simp_all add: text_lib_def)
  have k: "get_key fresh_provider ''k'' = None" "\<not> key_exists fresh_provider ''k''"
    "check_refresh_throttle fresh_provider ''k'' t = Ok ()" for t
    by (simp_all add: get_key_def key_exists_def check_refresh_throttle_def jwks_demo_defs)
  have f: "fetch_jwks text_lib (v_answer endpoint_visit) = Ok [(''k'', ''n'')]"
    by (simp add: fetch_jwks_def text_lib_def endpoint_visit_def)
  have "get_key (snd (on_demand_refresh text_lib endpoint_visit ''k'' fresh_provider)) ''k'' = Some ''n''"
    "fst (on_demand_refresh text_lib endpoint_visit ''k'' fresh_provider) = Ok ()"
    by (simp_all add: on_demand_refresh_def k perform_refresh_def f handle_refresh_success_def get_key_def)
  then have "\<exists>p'. validate_and_decode text_lib endpoint_visit ''Bearer signed'' fresh_provider = (Ok (?h, token_claims 1000), p')"
    by (cases "on_demand_refresh text_lib endpoint_visit ''k'' fresh_provider")
      (simp add: validate_and_decode_def b d k validate_token_def)
  then obtain p' where "validate_and_decode text_lib endpoint_visit ''Bearer signed'' fresh_provider = (Ok (?h, token_claims 1000), p')" ..
  from jwks_accepts_only_published_keys[OF jwks_reach.start this[unfolded fresh_provider_def]] show ?thesis by (auto simp: b)
qed

theorem on_demand_fetches_spaced_witness:
  "visits_ordered 0 [(''a'', endpoint_visit), (''b'', endpoint_visit\<lparr>v_now := 3, v_now2 := 4, v_now3 := 5\<rparr>)] \<and>
   sorted_wrt (\<lambda>a b. snd a + jp_cooldown fresh_provider \<le> fst b)
     (od_fetches text_lib [(''a'', endpoint_visit), (''b'', endpoint_visit\<lparr>v_now := 3, v_now2 := 4, v_now3 := 5\<rparr>)] fresh_provider)"
proof -
  have "visits_ordered 0 [(''a'', endpoint_visit), (''b'', endpoint_visit\<lparr>v_now := 3, v_now2 := 4, v_now3 := 5\<rparr>)]"
    by (simp add: endpoint_visit_def)
  from on_demand_fetches_spaced[OF this] this show ?thesis unfolding fresh_provider_def by blast
qed

end
