(* ===== verification/Operation.thy ===== *)
theory Operation
  imports Prelude "HOL-Library.Word"
begin

text \<open>
  API operations: their specification, the type-state builder (\<open>libs/modkit/src/api/operation_builder.rs\<close>)
  and the registry of operations and schemas (\<open>libs/modkit/src/api/openapi_registry.rs\<close>).

  The markers of the builder's type state are fields here; a method that the type state does not offer
  returns \<open>None\<close>. A type with a schema is its name and the schemas that \<open>utoipa\<close> derives for it, its own
  first; schemas and their serialisation are parameters.
\<close>

section \<open>Specifications\<close>

datatype http_method = GET | POST | PUT | DELETE | PATCH | HEAD | OPTIONS | OtherMethod string

fun method_as_str :: "http_method \<Rightarrow> string" where
  "method_as_str GET = ''GET''"
| "method_as_str POST = ''POST''"
| "method_as_str PUT = ''PUT''"
| "method_as_str DELETE = ''DELETE''"
| "method_as_str PATCH = ''PATCH''"
| "method_as_str HEAD = ''HEAD''"
| "method_as_str OPTIONS = ''OPTIONS''"
| "method_as_str (OtherMethod s) = s"

datatype param_location = InPath | InQuery | InHeader | InCookie

record param_spec =
  pa_name :: string
  pa_location :: param_location
  pa_required :: bool
  pa_description :: "string option"
  pa_type :: string

datatype request_body_schema = SchemaRef string | MultipartFile string | BinaryBody | InlineObject

record request_body_spec =
  rb_content_type :: string
  rb_description :: "string option"
  rb_schema :: request_body_schema
  rb_required :: bool

record response_spec =
  re_status :: nat
  re_content_type :: string
  re_description :: string
  re_schema_name :: "string option"

record sec_requirement =
  sr_resource :: string
  sr_actions :: "string list"

record rate_limit_spec =
  rl_rps :: "32 word"
  rl_burst :: "32 word"
  rl_in_flight :: "32 word"

record operation_spec =
  os_method :: http_method
  os_path :: string
  os_operation_id :: "string option"
  os_summary :: "string option"
  os_description :: "string option"
  os_tags :: "string list"
  os_params :: "param_spec list"
  os_request_body :: "request_body_spec option"
  os_responses :: "response_spec list"
  os_handler_id :: string
  os_sec_requirement :: "sec_requirement option"
  os_is_public :: bool
  os_rate_limit :: "rate_limit_spec option"
  os_allowed_types :: "string list option"

section \<open>Registry\<close>

record 's openapi_registry =
  or_specs :: "(string \<times> operation_spec) list"
  or_components :: "(string \<times> 's) list"

definition registry_new :: "'s openapi_registry" where
  "registry_new = \<lparr>or_specs = [], or_components = []\<rparr>"

definition operation_key :: "operation_spec \<Rightarrow> string" where
  "operation_key spec = method_as_str (os_method spec) @ '':'' @ os_path spec"

definition registry_register_operation :: "operation_spec \<Rightarrow> 's openapi_registry \<Rightarrow> 's openapi_registry" where
  "registry_register_operation spec r = r\<lparr>or_specs := AList.update (operation_key spec) spec (or_specs r)\<rparr>"

text \<open>Identical schemas are skipped, different ones override.\<close>

definition ensure_schema_raw ::
    "('s \<Rightarrow> 'j option) \<Rightarrow> string \<Rightarrow> (string \<times> 's) list \<Rightarrow> 's openapi_registry \<Rightarrow> string \<times> 's openapi_registry" where
  "ensure_schema_raw to_value root_name schemas r =
     (root_name, r\<lparr>or_components := fold (\<lambda>(name, schema) reg.
        case map_of reg name of
          Some existing \<Rightarrow> if to_value existing = to_value schema then reg else AList.update name schema reg
        | None \<Rightarrow> AList.update name schema reg) schemas (or_components r)\<rparr>)"

record 's schema_type =
  ty_name :: string
  ty_schema :: 's
  ty_dependencies :: "(string \<times> 's) list"

definition ensure_schema :: "('s \<Rightarrow> 'j option) \<Rightarrow> 's schema_type \<Rightarrow> 's openapi_registry \<Rightarrow> string \<times> 's openapi_registry" where
  "ensure_schema to_value ty r =
     ensure_schema_raw to_value (ty_name ty) ((ty_name ty, ty_schema ty) # ty_dependencies ty) r"

section \<open>Builder\<close>

record 'h op_builder =
  ob_spec :: operation_spec
  ob_handler :: "'h option"
  ob_has_response :: bool
  ob_auth_set :: bool

definition normalize_to_axum_path :: "string \<Rightarrow> string" where
  "normalize_to_axum_path path = path"

text \<open>\<open>path.replace("{*", "{")\<close>.\<close>

fun axum_to_openapi_path :: "string \<Rightarrow> string" where
  "axum_to_openapi_path (CHR 0x7B # CHR 0x2A # cs) = CHR 0x7B # axum_to_openapi_path cs"
| "axum_to_openapi_path (c # cs) = c # axum_to_openapi_path cs"
| "axum_to_openapi_path [] = []"

definition handler_id_of :: "http_method \<Rightarrow> string \<Rightarrow> string" where
  "handler_id_of m path =
     to_ascii_lowercase (method_as_str m) @ '':'' @
       map (\<lambda>c. if c \<in> {CHR ''/'', CHR 0x7B, CHR 0x7D} then CHR ''_'' else c) path"

definition builder_new :: "http_method \<Rightarrow> string \<Rightarrow> 'h op_builder" where
  "builder_new m path =
     \<lparr>ob_spec = \<lparr>os_method = m, os_path = path, os_operation_id = None, os_summary = None, os_description = None,
        os_tags = [], os_params = [], os_request_body = None, os_responses = [], os_handler_id = handler_id_of m path,
        os_sec_requirement = None, os_is_public = False, os_rate_limit = None, os_allowed_types = None\<rparr>,
      ob_handler = None, ob_has_response = False, ob_auth_set = False\<rparr>"

definition builder_get :: "string \<Rightarrow> 'h op_builder" where
  "builder_get path = builder_new GET (normalize_to_axum_path path)"

definition builder_post :: "string \<Rightarrow> 'h op_builder" where
  "builder_post path = builder_new POST (normalize_to_axum_path path)"

definition builder_put :: "string \<Rightarrow> 'h op_builder" where
  "builder_put path = builder_new PUT (normalize_to_axum_path path)"

definition builder_delete :: "string \<Rightarrow> 'h op_builder" where
  "builder_delete path = builder_new DELETE (normalize_to_axum_path path)"

definition builder_patch :: "string \<Rightarrow> 'h op_builder" where
  "builder_patch path = builder_new PATCH (normalize_to_axum_path path)"

abbreviation on_spec :: "(operation_spec \<Rightarrow> operation_spec) \<Rightarrow> 'h op_builder \<Rightarrow> 'h op_builder" where
  "on_spec f b \<equiv> b\<lparr>ob_spec := f (ob_spec b)\<rparr>"

definition with_operation_id :: "string \<Rightarrow> 'h op_builder \<Rightarrow> 'h op_builder" where
  "with_operation_id i = on_spec (\<lambda>s. s\<lparr>os_operation_id := Some i\<rparr>)"

definition require_rate_limit :: "32 word \<Rightarrow> 32 word \<Rightarrow> 32 word \<Rightarrow> 'h op_builder \<Rightarrow> 'h op_builder" where
  "require_rate_limit rps burst in_flight =
     on_spec (\<lambda>s. s\<lparr>os_rate_limit := Some \<lparr>rl_rps = rps, rl_burst = burst, rl_in_flight = in_flight\<rparr>\<rparr>)"

definition with_summary :: "string \<Rightarrow> 'h op_builder \<Rightarrow> 'h op_builder" where
  "with_summary t = on_spec (\<lambda>s. s\<lparr>os_summary := Some t\<rparr>)"

definition with_description :: "string \<Rightarrow> 'h op_builder \<Rightarrow> 'h op_builder" where
  "with_description t = on_spec (\<lambda>s. s\<lparr>os_description := Some t\<rparr>)"

definition with_tag :: "string \<Rightarrow> 'h op_builder \<Rightarrow> 'h op_builder" where
  "with_tag t = on_spec (\<lambda>s. s\<lparr>os_tags := os_tags s @ [t]\<rparr>)"

definition with_param :: "param_spec \<Rightarrow> 'h op_builder \<Rightarrow> 'h op_builder" where
  "with_param p = on_spec (\<lambda>s. s\<lparr>os_params := os_params s @ [p]\<rparr>)"

definition path_param :: "string \<Rightarrow> string \<Rightarrow> 'h op_builder \<Rightarrow> 'h op_builder" where
  "path_param name desc = with_param \<lparr>pa_name = name, pa_location = InPath, pa_required = True,
     pa_description = Some desc, pa_type = ''string''\<rparr>"

definition query_param :: "string \<Rightarrow> bool \<Rightarrow> string \<Rightarrow> 'h op_builder \<Rightarrow> 'h op_builder" where
  "query_param name required desc = with_param \<lparr>pa_name = name, pa_location = InQuery, pa_required = required,
     pa_description = Some desc, pa_type = ''string''\<rparr>"

definition query_param_typed :: "string \<Rightarrow> bool \<Rightarrow> string \<Rightarrow> string \<Rightarrow> 'h op_builder \<Rightarrow> 'h op_builder" where
  "query_param_typed name required desc ty = with_param \<lparr>pa_name = name, pa_location = InQuery,
     pa_required = required, pa_description = Some desc, pa_type = ty\<rparr>"

definition with_odata_filter :: "'h op_builder \<Rightarrow> 'h op_builder" where
  "with_odata_filter = with_param \<lparr>pa_name = ''$filter'', pa_location = InQuery, pa_required = False,
     pa_description = Some ''OData v4 filter expression'', pa_type = ''string''\<rparr>"

definition with_odata_filter_doc :: "string \<Rightarrow> 'h op_builder \<Rightarrow> 'h op_builder" where
  "with_odata_filter_doc desc = with_param \<lparr>pa_name = ''$filter'', pa_location = InQuery, pa_required = False,
     pa_description = Some desc, pa_type = ''string''\<rparr>"

definition json_request_schema :: "string \<Rightarrow> string \<Rightarrow> 'h op_builder \<Rightarrow> 'h op_builder" where
  "json_request_schema name desc = on_spec (\<lambda>s. s\<lparr>os_request_body := Some \<lparr>rb_content_type = ''application/json'',
     rb_description = Some desc, rb_schema = SchemaRef name, rb_required = True\<rparr>\<rparr>)"

definition json_request_schema_no_desc :: "string \<Rightarrow> 'h op_builder \<Rightarrow> 'h op_builder" where
  "json_request_schema_no_desc name = on_spec (\<lambda>s. s\<lparr>os_request_body := Some \<lparr>rb_content_type = ''application/json'',
     rb_description = None, rb_schema = SchemaRef name, rb_required = True\<rparr>\<rparr>)"

definition json_request ::
    "('s \<Rightarrow> 'j option) \<Rightarrow> 's schema_type \<Rightarrow> string \<Rightarrow> 's openapi_registry \<times> 'h op_builder \<Rightarrow>
     's openapi_registry \<times> 'h op_builder" where
  "json_request tv ty desc rb =
     (let (name, r) = ensure_schema tv ty (fst rb) in (r, json_request_schema name desc (snd rb)))"

definition json_request_no_desc ::
    "('s \<Rightarrow> 'j option) \<Rightarrow> 's schema_type \<Rightarrow> 's openapi_registry \<times> 'h op_builder \<Rightarrow>
     's openapi_registry \<times> 'h op_builder" where
  "json_request_no_desc tv ty rb =
     (let (name, r) = ensure_schema tv ty (fst rb) in (r, json_request_schema_no_desc name (snd rb)))"

definition request_optional :: "'h op_builder \<Rightarrow> 'h op_builder" where
  "request_optional = on_spec (\<lambda>s. s\<lparr>os_request_body := map_option (\<lambda>rb. rb\<lparr>rb_required := False\<rparr>) (os_request_body s)\<rparr>)"

definition multipart_file_request :: "string \<Rightarrow> string option \<Rightarrow> 'h op_builder \<Rightarrow> 'h op_builder" where
  "multipart_file_request field desc = on_spec (\<lambda>s. s
     \<lparr>os_request_body := Some \<lparr>rb_content_type = ''multipart/form-data'',
        rb_description = map_option (\<lambda>d. d @ '' (expects field '' @ [CHR 0x27] @ field @ [CHR 0x27] @ '' with file data)'') desc,
        rb_schema = MultipartFile field, rb_required = True\<rparr>,
      os_allowed_types := Some [''multipart/form-data'']\<rparr>)"

definition octet_stream_request :: "string option \<Rightarrow> 'h op_builder \<Rightarrow> 'h op_builder" where
  "octet_stream_request desc = on_spec (\<lambda>s. s
     \<lparr>os_request_body := Some \<lparr>rb_content_type = ''application/octet-stream'', rb_description = desc,
        rb_schema = BinaryBody, rb_required = True\<rparr>,
      os_allowed_types := Some [''application/octet-stream'']\<rparr>)"

definition allow_content_types :: "string list \<Rightarrow> 'h op_builder \<Rightarrow> 'h op_builder" where
  "allow_content_types ts = on_spec (\<lambda>s. s\<lparr>os_allowed_types := Some ts\<rparr>)"

text \<open>Only before the authentication is set.\<close>

definition require_auth :: "string \<Rightarrow> string list \<Rightarrow> 'h op_builder \<Rightarrow> 'h op_builder option" where
  "require_auth resource actions b =
     (if ob_auth_set b then None
      else Some (b\<lparr>ob_spec := (ob_spec b)\<lparr>os_sec_requirement := Some \<lparr>sr_resource = resource, sr_actions = actions\<rparr>,
             os_is_public := False\<rparr>, ob_auth_set := True\<rparr>))"

definition make_public :: "'h op_builder \<Rightarrow> 'h op_builder option" where
  "make_public b =
     (if ob_auth_set b then None
      else Some (b\<lparr>ob_spec := (ob_spec b)\<lparr>os_is_public := True, os_sec_requirement := None\<rparr>, ob_auth_set := True\<rparr>))"

text \<open>Only before a handler is set; for other methods the handler is replaced by one that answers 405.\<close>

definition with_handler :: "'h \<Rightarrow> 'h \<Rightarrow> 'h op_builder \<Rightarrow> 'h op_builder option" where
  "with_handler method_not_allowed h b =
     (if ob_handler b \<noteq> None then None
      else Some (b\<lparr>ob_handler := Some (if os_method (ob_spec b) \<in> {GET, POST, PUT, DELETE, PATCH} then h
             else method_not_allowed)\<rparr>))"

definition with_method_router :: "'h \<Rightarrow> 'h op_builder \<Rightarrow> 'h op_builder option" where
  "with_method_router mr b = (if ob_handler b \<noteq> None then None else Some (b\<lparr>ob_handler := Some mr\<rparr>))"

text \<open>\<open>response\<close> exists only before the first response; the other methods add the first or a further one.\<close>

definition push_response :: "response_spec \<Rightarrow> 'h op_builder \<Rightarrow> 'h op_builder" where
  "push_response r b = b\<lparr>ob_spec := (ob_spec b)\<lparr>os_responses := os_responses (ob_spec b) @ [r]\<rparr>, ob_has_response := True\<rparr>"

definition raw_response :: "response_spec \<Rightarrow> 'h op_builder \<Rightarrow> 'h op_builder option" where
  "raw_response r b = (if ob_has_response b then None else Some (push_response r b))"

definition json_response :: "nat \<Rightarrow> string \<Rightarrow> 'h op_builder \<Rightarrow> 'h op_builder" where
  "json_response status desc = push_response \<lparr>re_status = status, re_content_type = ''application/json'',
     re_description = desc, re_schema_name = None\<rparr>"

definition json_response_with_schema ::
    "('s \<Rightarrow> 'j option) \<Rightarrow> 's schema_type \<Rightarrow> nat \<Rightarrow> string \<Rightarrow> 's openapi_registry \<times> 'h op_builder \<Rightarrow>
     's openapi_registry \<times> 'h op_builder" where
  "json_response_with_schema tv ty status desc rb =
     (let (name, r) = ensure_schema tv ty (fst rb)
      in (r, push_response \<lparr>re_status = status, re_content_type = ''application/json'', re_description = desc,
            re_schema_name = Some name\<rparr> (snd rb)))"

definition text_response :: "nat \<Rightarrow> string \<Rightarrow> string \<Rightarrow> 'h op_builder \<Rightarrow> 'h op_builder" where
  "text_response status desc content_type = push_response \<lparr>re_status = status, re_content_type = content_type,
     re_description = desc, re_schema_name = None\<rparr>"

definition html_response :: "nat \<Rightarrow> string \<Rightarrow> 'h op_builder \<Rightarrow> 'h op_builder" where
  "html_response status desc = push_response \<lparr>re_status = status, re_content_type = ''text/html'',
     re_description = desc, re_schema_name = None\<rparr>"

definition APPLICATION_PROBLEM_JSON :: string where
  "APPLICATION_PROBLEM_JSON = ''application/problem+json''"

definition problem_response ::
    "('s \<Rightarrow> 'j option) \<Rightarrow> 's schema_type \<Rightarrow> nat \<Rightarrow> string \<Rightarrow> 's openapi_registry \<times> 'h op_builder \<Rightarrow>
     's openapi_registry \<times> 'h op_builder" where
  "problem_response tv problem_ty status desc rb =
     (let (name, r) = ensure_schema tv problem_ty (fst rb)
      in (r, push_response \<lparr>re_status = status, re_content_type = APPLICATION_PROBLEM_JSON, re_description = desc,
            re_schema_name = Some name\<rparr> (snd rb)))"

definition sse_json ::
    "('s \<Rightarrow> 'j option) \<Rightarrow> 's schema_type \<Rightarrow> string \<Rightarrow> 's openapi_registry \<times> 'h op_builder \<Rightarrow>
     's openapi_registry \<times> 'h op_builder" where
  "sse_json tv ty desc rb =
     (let (name, r) = ensure_schema tv ty (fst rb)
      in (r, push_response \<lparr>re_status = 200, re_content_type = ''text/event-stream'', re_description = desc,
            re_schema_name = Some name\<rparr> (snd rb)))"

definition standard_error_list :: "(nat \<times> string) list" where
  "standard_error_list = [(400, ''Bad Request''), (401, ''Unauthorized''), (403, ''Forbidden''), (404, ''Not Found''),
     (409, ''Conflict''), (422, ''Unprocessable Entity''), (429, ''Too Many Requests''), (500, ''Internal Server Error'')]"

text \<open>Only after the first response.\<close>

definition standard_errors ::
    "('s \<Rightarrow> 'j option) \<Rightarrow> 's schema_type \<Rightarrow> 's openapi_registry \<times> 'h op_builder \<Rightarrow>
     ('s openapi_registry \<times> 'h op_builder) option" where
  "standard_errors tv problem_ty rb =
     (if \<not> ob_has_response (snd rb) then None
      else let (name, r) = ensure_schema tv problem_ty (fst rb)
           in Some (r, fold (\<lambda>(status, desc). push_response \<lparr>re_status = status,
                re_content_type = APPLICATION_PROBLEM_JSON, re_description = desc, re_schema_name = Some name\<rparr>)
                standard_error_list (snd rb)))"

definition with_422_validation_error ::
    "('s \<Rightarrow> 'j option) \<Rightarrow> 's schema_type \<Rightarrow> 's openapi_registry \<times> 'h op_builder \<Rightarrow>
     ('s openapi_registry \<times> 'h op_builder) option" where
  "with_422_validation_error tv validation_ty rb =
     (if \<not> ob_has_response (snd rb) then None
      else let (name, r) = ensure_schema tv validation_ty (fst rb)
           in Some (r, push_response \<lparr>re_status = 422, re_content_type = APPLICATION_PROBLEM_JSON,
                re_description = ''Validation Error'', re_schema_name = Some name\<rparr> (snd rb)))"

text \<open>Only when the handler, a response and the authentication are set; the router is the list of its routes.\<close>

definition register ::
    "(operation_spec \<Rightarrow> 'r \<Rightarrow> 'r) \<Rightarrow> 'h op_builder \<Rightarrow> (http_method \<times> string \<times> 'h) list \<Rightarrow> 'r \<Rightarrow>
     ((http_method \<times> string \<times> 'h) list \<times> 'r) option" where
  "register register_operation b router openapi =
     (if ob_has_response b \<and> ob_auth_set b
      then (case ob_handler b of
              None \<Rightarrow> None
            | Some h \<Rightarrow> Some (router @ [(os_method (ob_spec b), os_path (ob_spec b), h)],
                register_operation (ob_spec b) openapi))
      else None)"

lemmas builder_defs = builder_new_def builder_get_def builder_post_def builder_put_def builder_delete_def
  builder_patch_def with_operation_id_def require_rate_limit_def with_summary_def with_description_def with_tag_def
  with_param_def path_param_def query_param_def query_param_typed_def with_odata_filter_def with_odata_filter_doc_def
  json_request_schema_def json_request_schema_no_desc_def request_optional_def multipart_file_request_def
  octet_stream_request_def allow_content_types_def push_response_def json_response_def text_response_def html_response_def
  normalize_to_axum_path_def

section \<open>Built operations\<close>

lemma ensure_schema_name: "fst (ensure_schema tv ty r) = ty_name ty"
  by (simp add: ensure_schema_def ensure_schema_raw_def)

text \<open>The methods that register a schema act on the builder like those that take its name.\<close>

lemma schema_methods:
  "snd (json_request tv ty desc rb) = json_request_schema (ty_name ty) desc (snd rb)"
  "snd (json_request_no_desc tv ty rb) = json_request_schema_no_desc (ty_name ty) (snd rb)"
  "snd (json_response_with_schema tv ty status desc rb) = push_response \<lparr>re_status = status,
     re_content_type = ''application/json'', re_description = desc, re_schema_name = Some (ty_name ty)\<rparr> (snd rb)"
  "snd (problem_response tv ty status desc rb) = push_response \<lparr>re_status = status,
     re_content_type = APPLICATION_PROBLEM_JSON, re_description = desc, re_schema_name = Some (ty_name ty)\<rparr> (snd rb)"
  "snd (sse_json tv ty desc rb) = push_response \<lparr>re_status = 200,
     re_content_type = ''text/event-stream'', re_description = desc, re_schema_name = Some (ty_name ty)\<rparr> (snd rb)"
  using ensure_schema_name[of tv ty "fst rb"]
  by (auto simp: json_request_def json_request_no_desc_def json_response_with_schema_def problem_response_def sse_json_def
      split: prod.splits)

inductive built :: "'h op_builder \<Rightarrow> bool" where
  new: "built (builder_new m path)"
| operation_id: "built b \<Longrightarrow> built (with_operation_id i b)"
| rate_limit: "built b \<Longrightarrow> built (require_rate_limit rps burst in_flight b)"
| summary: "built b \<Longrightarrow> built (with_summary t b)"
| description: "built b \<Longrightarrow> built (with_description t b)"
| tag: "built b \<Longrightarrow> built (with_tag t b)"
| param: "built b \<Longrightarrow> built (with_param p b)"
| request_schema: "built b \<Longrightarrow> built (json_request_schema name desc b)"
| request_schema_no_desc: "built b \<Longrightarrow> built (json_request_schema_no_desc name b)"
| optional: "built b \<Longrightarrow> built (request_optional b)"
| multipart: "built b \<Longrightarrow> built (multipart_file_request field d b)"
| octet_stream: "built b \<Longrightarrow> built (octet_stream_request d b)"
| content_types: "built b \<Longrightarrow> built (allow_content_types ts b)"
| auth: "built b \<Longrightarrow> require_auth resource actions b = Some b' \<Longrightarrow> built b'"
| public: "built b \<Longrightarrow> make_public b = Some b' \<Longrightarrow> built b'"
| handler: "built b \<Longrightarrow> with_handler mna h b = Some b' \<Longrightarrow> built b'"
| method_router: "built b \<Longrightarrow> with_method_router h b = Some b' \<Longrightarrow> built b'"
| response: "built b \<Longrightarrow> built (push_response r b)"

definition builder_ok :: "'h op_builder \<Rightarrow> bool" where
  "builder_ok b \<longleftrightarrow>
     (ob_has_response b \<longrightarrow> os_responses (ob_spec b) \<noteq> []) \<and>
     (os_is_public (ob_spec b) \<longleftrightarrow> ob_auth_set b \<and> os_sec_requirement (ob_spec b) = None) \<and>
     (os_sec_requirement (ob_spec b) \<noteq> None \<longrightarrow> ob_auth_set b) \<and>
     os_handler_id (ob_spec b) = handler_id_of (os_method (ob_spec b)) (os_path (ob_spec b))"

lemma built_ok: "built b \<Longrightarrow> builder_ok b"
  by (induction rule: built.induct)
    (auto simp: builder_ok_def builder_defs require_auth_def make_public_def with_handler_def with_method_router_def
      split: if_splits)

lemma register_Some:
  "register reg b router openapi = Some (router', openapi') \<longleftrightarrow>
     ob_has_response b \<and> ob_auth_set b \<and> (\<exists>h. ob_handler b = Some h \<and>
       router' = router @ [(os_method (ob_spec b), os_path (ob_spec b), h)] \<and> openapi' = reg (ob_spec b) openapi)"
  by (auto simp: register_def split: option.splits)

lemma built_schema_methods:
  assumes "built (snd rb)"
  shows "built (snd (json_request tv ty desc rb))" "built (snd (json_request_no_desc tv ty rb))"
    "built (snd (json_response_with_schema tv ty status desc rb))" "built (snd (problem_response tv ty status desc rb))"
    "built (snd (sse_json tv ty desc rb))"
  unfolding schema_methods
  using assms built.request_schema built.request_schema_no_desc built.response by auto

lemma built_fold_push: "built b \<Longrightarrow> built (fold (\<lambda>x. push_response (f x)) xs b)"
  by (induction xs arbitrary: b) (auto intro: built.response)

lemma built_standard_errors: "standard_errors tv ty rb = Some rb' \<Longrightarrow> built (snd rb) \<Longrightarrow> built (snd rb')"
  using built_fold_push[of "snd rb" "\<lambda>(status, desc). \<lparr>re_status = status, re_content_type = APPLICATION_PROBLEM_JSON,
      re_description = desc, re_schema_name = Some (fst (ensure_schema tv ty (fst rb)))\<rparr>" standard_error_list]
  by (auto simp: standard_errors_def case_prod_beta' Let_def split: if_splits)

section \<open>Properties\<close>

text \<open>Whatever methods were called on a builder, an operation that can be registered has a handler, at least
  one response, is either public or has a role requirement but never both or neither, and is registered under
  its own method, path and derived handler id.\<close>

theorem registered_operation_is_complete:
  assumes "built b" "register reg b router openapi = Some (router', openapi')"
  shows "\<exists>h. ob_handler b = Some h \<and> os_responses (ob_spec b) \<noteq> [] \<and>
    (os_is_public (ob_spec b) \<longleftrightarrow> os_sec_requirement (ob_spec b) = None) \<and>
    os_handler_id (ob_spec b) = handler_id_of (os_method (ob_spec b)) (os_path (ob_spec b)) \<and>
    router' = router @ [(os_method (ob_spec b), os_path (ob_spec b), h)] \<and> openapi' = reg (ob_spec b) openapi"
  using built_ok[OF assms(1)] assms(2) by (auto simp: register_Some builder_ok_def)

section \<open>Witnesses\<close>

definition list_users :: "nat op_builder" where
  "list_users = json_response 200 ''users'' (the (with_handler 0 1 (the (require_auth ''users'' [''read''] (builder_get ''/users'')))))"

theorem registered_operation_is_complete_witness:
  "\<exists>r. register (\<lambda>s r. r @ [s]) list_users [] [] = Some r \<and> os_is_public (ob_spec list_users) = False"
proof -
  let ?b = "the (require_auth ''users'' [''read''] (builder_new GET ''/users'')) :: nat op_builder"
  have a: "require_auth ''users'' [''read''] (builder_new GET ''/users'') = Some ?b"
    by (simp add: require_auth_def builder_new_def)
  have h: "with_handler 0 1 ?b = Some (the (with_handler 0 1 ?b))"
    by (simp add: with_handler_def require_auth_def builder_new_def)
  have b: "built list_users"
    unfolding list_users_def json_response_def builder_get_def normalize_to_axum_path_def
    by (rule built.response, rule built.handler[OF _ h], rule built.auth[OF built.new a])
  obtain r where r: "register (\<lambda>s r. r @ [s]) list_users [] [] = Some r"
    by (cases "register (\<lambda>s r. r @ [s]) list_users [] []")
      (simp_all add: register_def list_users_def json_response_def push_response_def with_handler_def require_auth_def
        builder_get_def builder_new_def)
  have "os_sec_requirement (ob_spec list_users) \<noteq> None"
    by (simp add: list_users_def json_response_def push_response_def with_handler_def require_auth_def
        builder_get_def builder_new_def)
  with registered_operation_is_complete[OF b, of "\<lambda>s r. r @ [s]" "[]" "[]" "fst r" "snd r"] r show ?thesis by auto
qed

end
