(* ===== verification/Auth_Http.thy ===== *)
theory Auth_Http
  imports Auth_Claims Operation Problem
begin

text \<open>
  Authentication of HTTP requests (\<open>libs/modkit-auth/src\<close>): the role authorizer (\<open>authorizer.rs\<close>), the scope
  of a token's tenants (\<open>scope_builder.rs\<close>), and the middleware that guards a service by a route policy
  (\<open>axum_ext.rs\<close>, \<open>types.rs\<close>, \<open>errors.rs\<close>).

  A service maps a request and a state to a response and a state; the response \<open>None\<close> is a panic of the
  handling task. Header names are in lower case.
\<close>

section \<open>Requests and responses\<close>

record http_request =
  rq_method :: http_method
  rq_path :: string
  rq_headers :: "(string \<times> string) list"
  rq_matched_path :: "string option"
  rq_ctx :: "security_ctx option"
  rq_claims :: "claims option"
  rq_request_id :: "string option"

datatype body = EmptyBody | TextBody string | AuthBody auth_error nat | ProblemBody problem

record http_response =
  hr_status :: nat
  hr_headers :: "(string \<times> string) list"
  hr_body :: body

type_synonym 'w service = "http_request \<Rightarrow> 'w \<Rightarrow> http_response option \<times> 'w"

text \<open>The message of the JSON body is the text of the error.\<close>

definition auth_error_status :: "auth_error \<Rightarrow> nat" where
  "auth_error_status e =
     (case e of Unauthenticated \<Rightarrow> 401 | InvalidToken _ \<Rightarrow> 401 | TokenExpired \<Rightarrow> 401 | Forbidden \<Rightarrow> 403 | _ \<Rightarrow> 500)"

definition auth_error_response :: "auth_error \<Rightarrow> http_response" where
  "auth_error_response e =
     \<lparr>hr_status = auth_error_status e, hr_headers = [(''content-type'', ''application/json'')],
      hr_body = AuthBody e (auth_error_status e)\<rparr>"

section \<open>Authorisation and scope\<close>

definition role_matches :: "string \<Rightarrow> string \<Rightarrow> string \<Rightarrow> bool" where
  "role_matches pattern resource action =
     (if pattern = ''*:*'' then True
      else if ends_with '':*'' pattern then take (length pattern - 2) pattern = resource
      else if starts_with ''*:'' pattern then action = drop 2 pattern
      else pattern = resource @ '':'' @ action)"

definition check_role :: "claims \<Rightarrow> sec_requirement \<Rightarrow> bool" where
  "check_role c req =
     list_ex (\<lambda>action. list_ex (\<lambda>role. role_matches role (sr_resource req) action) (cl_roles c)) (sr_actions req)"

definition authorizer_check :: "claims \<Rightarrow> sec_requirement \<Rightarrow> (unit, auth_error) result" where
  "authorizer_check c req = (if check_role c req then Ok () else Err Forbidden)"

definition tenants_to_scope :: "claims \<Rightarrow> access_scope" where
  "tenants_to_scope c = (if cl_tenants c = [] then default_scope else tenants_only (cl_tenants c))"

definition ctx_of_claims :: "claims \<Rightarrow> security_ctx" where
  "ctx_of_claims c = \<lparr>ctx_scope = tenants_to_scope c, ctx_subject = \<lparr>sub_id = cl_sub c\<rparr>\<rparr>"

section \<open>The middleware\<close>

datatype auth_requirement = AuthNone | AuthRequired "sec_requirement option" | AuthOptional

type_synonym 'w validator = "string \<Rightarrow> 'w \<Rightarrow> (claims, auth_error) result option \<times> 'w"
type_synonym route_policy = "http_method \<Rightarrow> string \<Rightarrow> auth_requirement"

definition extract_bearer_token :: "(string \<times> string) list \<Rightarrow> string option" where
  "extract_bearer_token headers =
     map_option trim (Option.bind (Option.bind (map_of headers ''authorization'') header_str) (strip_prefix ''Bearer ''))"

definition is_preflight_request :: "http_method \<Rightarrow> (string \<times> string) list \<Rightarrow> bool" where
  "is_preflight_request m headers \<longleftrightarrow>
     m = OPTIONS \<and> map_of headers ''origin'' \<noteq> None \<and> map_of headers ''access-control-request-method'' \<noteq> None"

definition with_claims :: "claims \<Rightarrow> http_request \<Rightarrow> http_request" where
  "with_claims c req = req\<lparr>rq_claims := Some c, rq_ctx := Some (ctx_of_claims c)\<rparr>"

definition with_anonymous :: "http_request \<Rightarrow> http_request" where
  "with_anonymous req = req\<lparr>rq_ctx := Some anonymous\<rparr>"

definition auth_policy_call :: "'w validator \<Rightarrow> route_policy \<Rightarrow> 'w service \<Rightarrow> 'w service" where
  "auth_policy_call validate policy inner req w =
     (if is_preflight_request (rq_method req) (rq_headers req) then inner req w
      else case policy (rq_method req) (rq_path req) of
        AuthNone \<Rightarrow> inner (with_anonymous req) w
      | AuthRequired requirement \<Rightarrow>
          (case extract_bearer_token (rq_headers req) of
             None \<Rightarrow> (Some (auth_error_response Unauthenticated), w)
           | Some token \<Rightarrow>
               (case validate token w of
                  (None, w') \<Rightarrow> (None, w')
                | (Some (Err e), w') \<Rightarrow> (Some (auth_error_response e), w')
                | (Some (Ok c), w') \<Rightarrow>
                    (case (case requirement of None \<Rightarrow> Ok () | Some r \<Rightarrow> authorizer_check c r) of
                       Err e \<Rightarrow> (Some (auth_error_response e), w')
                     | Ok _ \<Rightarrow> inner (with_claims c req) w')))
      | AuthOptional \<Rightarrow>
          (case extract_bearer_token (rq_headers req) of
             None \<Rightarrow> inner (with_anonymous req) w
           | Some token \<Rightarrow>
               (case validate token w of
                  (None, w') \<Rightarrow> (None, w')
                | (Some (Err e), w') \<Rightarrow> inner (with_anonymous req) w'
                | (Some (Ok c), w') \<Rightarrow> inner (with_claims c req) w')))"

text \<open>The extractors of handlers.\<close>

definition extract_authz :: "http_request \<Rightarrow> (security_ctx, auth_error) result" where
  "extract_authz req = ok_or (AuthInternal ''SecurityCtx not found - auth middleware not configured'') (rq_ctx req)"

definition extract_auth_claims :: "http_request \<Rightarrow> (claims, auth_error) result" where
  "extract_auth_claims req = ok_or (AuthInternal ''Claims not found - auth middleware not configured'') (rq_claims req)"

section \<open>Roles\<close>

definition plain_name :: "string \<Rightarrow> bool" where
  "plain_name s \<longleftrightarrow> CHR '':'' \<notin> set s \<and> CHR ''*'' \<notin> set s"

lemma starts_with_append: "starts_with p s \<longleftrightarrow> (\<exists>r. s = p @ r)"
  by (metis starts_with_def append_eq_conv_conj append_take_drop_id)

lemma ends_with_append: "ends_with p s \<longleftrightarrow> (\<exists>r. s = r @ p)"
  by (metis ends_with_def starts_with_append rev_append rev_rev_ident)

lemma role_matches_plain:
  assumes "plain_name resource" "plain_name action"
  shows "role_matches role resource action \<longleftrightarrow>
    role \<in> {''*:*'', resource @ '':*'', ''*:'' @ action, resource @ '':'' @ action}"
proof (cases "role = ''*:*''")
  case False
  consider (res) r where "role = r @ '':*''" | (act) a where "role = ''*:'' @ a" "\<not> ends_with '':*'' role"
    | (exact) "\<not> ends_with '':*'' role" "\<not> starts_with ''*:'' role"
    by (auto simp: ends_with_append starts_with_append)
  then show ?thesis
  proof cases
    case res
    have "last role = CHR ''*''" by (simp add: res)
    moreover have "action \<noteq> [] \<Longrightarrow> last action \<noteq> CHR ''*''"
      using assms(2) last_in_set[of action] unfolding plain_name_def by metis
    then have "last (xs @ '':'' @ action) \<noteq> CHR ''*''" for xs by simp
    ultimately have "role \<noteq> ''*'' @ '':'' @ action" "role \<noteq> resource @ '':'' @ action" by metis+
    then show ?thesis using False res by (auto simp: role_matches_def ends_with_append)
  next
    case act
    have "role \<noteq> resource @ '':'' @ action"
      using assms(1) unfolding act(1) by (cases resource) (auto simp: plain_name_def)
    moreover have "role \<noteq> resource @ '':*''" using act(2) by (auto simp: ends_with_append)
    ultimately show ?thesis using False act by (auto simp: role_matches_def starts_with_append)
  next
    case exact
    then show ?thesis using False by (auto simp: role_matches_def starts_with_append ends_with_append)
  qed
qed (simp add: role_matches_def)

lemma authorized_iff:
  assumes "plain_name (sr_resource req)" "\<forall>a \<in> set (sr_actions req). plain_name a"
  shows "authorizer_check c req = Ok () \<longleftrightarrow>
    (\<exists>a \<in> set (sr_actions req). set (cl_roles c) \<inter>
       {''*:*'', sr_resource req @ '':*'', ''*:'' @ a, sr_resource req @ '':'' @ a} \<noteq> {})"
proof -
  have "check_role c req \<longleftrightarrow> (\<exists>a \<in> set (sr_actions req). \<exists>r \<in> set (cl_roles c).
      r \<in> {''*:*'', sr_resource req @ '':*'', ''*:'' @ a, sr_resource req @ '':'' @ a})"
    unfolding check_role_def list_ex_iff
    by (rule bex_cong[OF refl], rule bex_cong[OF refl], rule role_matches_plain) (use assms in auto)
  then show ?thesis by (auto simp: authorizer_check_def)
qed

lemma guarded_cases:
  assumes "policy (rq_method req) (rq_path req) = AuthRequired q"
    and "\<not> is_preflight_request (rq_method req) (rq_headers req)"
  shows "(\<exists>token c w'. extract_bearer_token (rq_headers req) = Some token \<and> validate token w = (Some (Ok c), w') \<and>
      (\<forall>r. q = Some r \<longrightarrow> authorizer_check c r = Ok ()) \<and>
      (\<forall>inner. auth_policy_call validate policy inner req w =
        inner (req\<lparr>rq_claims := Some c, rq_ctx := Some \<lparr>ctx_scope = \<lparr>is_root = False, tenant_ids = cl_tenants c,
          resource_ids = []\<rparr>, ctx_subject = \<lparr>sub_id = cl_sub c\<rparr>\<rparr>\<rparr>) w')) \<or>
    (\<exists>resp w'. (\<forall>inner. auth_policy_call validate policy inner req w = (resp, w')) \<and>
      (case resp of None \<Rightarrow> True | Some r \<Rightarrow> hr_status r \<in> {401, 403, 500}))"
proof (cases "extract_bearer_token (rq_headers req)")
  case None
  then show ?thesis using assms by (intro disjI2) (auto simp: auth_policy_call_def auth_error_response_def auth_error_status_def)
next
  case (Some token)
  have ctx: "ctx_of_claims c = \<lparr>ctx_scope = \<lparr>is_root = False, tenant_ids = cl_tenants c, resource_ids = []\<rparr>,
      ctx_subject = \<lparr>sub_id = cl_sub c\<rparr>\<rparr>" for c
    by (simp add: ctx_of_claims_def tenants_to_scope_def scope_defs)
  have status: "hr_status (auth_error_response e) \<in> {401, 403, 500}" for e
    by (simp add: auth_error_response_def auth_error_status_def split: auth_error.splits)
  obtain r w' where v: "validate token w = (r, w')" by (cases "validate token w")
  consider (panic) "r = None" | (bad) e where "r = Some (Err e)" | (good) c where "r = Some (Ok c)"
    by (metis option.exhaust result.exhaust)
  then show ?thesis
  proof cases
    case good
    show ?thesis
    proof (cases "case q of None \<Rightarrow> Ok () | Some r \<Rightarrow> authorizer_check c r")
      case (Ok u)
      have "\<forall>r. q = Some r \<longrightarrow> authorizer_check c r = Ok ()" using Ok by auto
      moreover have "auth_policy_call validate policy inner req w = inner (with_claims c req) w'" for inner
        using assms Some v good Ok by (simp add: auth_policy_call_def)
      ultimately show ?thesis using Some v good ctx by (intro disjI1) (auto simp: with_claims_def)
    next
      case (Err e)
      then have "auth_policy_call validate policy inner req w = (Some (auth_error_response e), w')" for inner
        using assms Some v good by (simp add: auth_policy_call_def)
      then show ?thesis using status[of e] by (intro disjI2 exI[of _ "Some (auth_error_response e)"] exI[of _ w']) simp
    qed
  next
    case (bad e)
    then have "auth_policy_call validate policy inner req w = (Some (auth_error_response e), w')" for inner
      using assms Some v by (simp add: auth_policy_call_def)
    then show ?thesis using status[of e] by (intro disjI2 exI[of _ "Some (auth_error_response e)"] exI[of _ w']) simp
  next
    case panic
    then have "auth_policy_call validate policy inner req w = (None, w')" for inner
      using assms Some v by (simp add: auth_policy_call_def)
    then show ?thesis by (intro disjI2 exI[of _ None] exI[of _ w']) simp
  qed
qed

lemma guarded_reached:
  fixes validate :: "'w validator"
  assumes "policy (rq_method req) (rq_path req) = AuthRequired q" "\<not> is_preflight_request (rq_method req) (rq_headers req)"
    and "\<And>inner. auth_policy_call validate policy inner req w = inner req' w'"
  shows "\<exists>token c. extract_bearer_token (rq_headers req) = Some token \<and> validate token w = (Some (Ok c), w') \<and>
    (\<forall>r. q = Some r \<longrightarrow> authorizer_check c r = Ok ()) \<and>
    rq_ctx req' = Some \<lparr>ctx_scope = \<lparr>is_root = False, tenant_ids = cl_tenants c, resource_ids = []\<rparr>,
      ctx_subject = \<lparr>sub_id = cl_sub c\<rparr>\<rparr>"
proof -
  from guarded_cases[of policy req q validate w, OF assms(1,2)] show ?thesis
    unfolding assms(3)
  proof (elim disjE exE conjE)
    fix token c v
    assume t: "extract_bearer_token (rq_headers req) = Some token" "validate token w = (Some (Ok c), v)"
      "\<forall>r. q = Some r \<longrightarrow> authorizer_check c r = Ok ()"
    let ?ctx = "\<lparr>ctx_scope = \<lparr>is_root = False, tenant_ids = cl_tenants c, resource_ids = []\<rparr>, ctx_subject = \<lparr>sub_id = cl_sub c\<rparr>\<rparr>"
    assume reached: "\<forall>inner :: 'w service. inner req' w' = inner (req\<lparr>rq_claims := Some c, rq_ctx := Some ?ctx\<rparr>) v"
    from reached[rule_format, of "\<lambda>r w. (None, w)"] have "w' = v" by simp
    moreover from reached[rule_format, of "\<lambda>r w. (if rq_ctx r = rq_ctx req' then None else Some (auth_error_response Forbidden), w)"]
    have "rq_ctx req' = Some ?ctx" by (auto split: if_splits)
    ultimately show ?thesis using t by blast
  next
    fix resp w''
    assume no: "\<forall>inner :: 'w service. inner req' w' = (resp, w'')"
    from no[rule_format, of "\<lambda>r w. (None, w)"] no[rule_format, of "\<lambda>r w. (Some (auth_error_response Forbidden), w)"]
    show ?thesis by simp
  qed
qed

section \<open>Properties\<close>

text \<open>C15. A CORS preflight passes the middleware as it is, without a token, even on a protected route. Every other request
  reaches a service on a protected route only with the claims of a token that the validator accepted and whose roles satisfy the
  route's requirement, in a context whose scope is exactly the token's tenants (nothing when it has none); otherwise the
  service is not called and the answer is an error.\<close>

theorem protected_route_is_guarded:
  assumes "policy (rq_method req) (rq_path req) = AuthRequired q"
  shows "if is_preflight_request (rq_method req) (rq_headers req) then \<forall>inner. auth_policy_call validate policy inner req w = inner req w
    else (\<exists>token c w'. extract_bearer_token (rq_headers req) = Some token \<and> validate token w = (Some (Ok c), w') \<and>
        (\<forall>r. q = Some r \<longrightarrow> authorizer_check c r = Ok ()) \<and>
        (\<forall>inner. auth_policy_call validate policy inner req w =
          inner (req\<lparr>rq_claims := Some c, rq_ctx := Some \<lparr>ctx_scope = \<lparr>is_root = False, tenant_ids = cl_tenants c,
            resource_ids = []\<rparr>, ctx_subject = \<lparr>sub_id = cl_sub c\<rparr>\<rparr>\<rparr>) w')) \<or>
      (\<exists>resp w'. (\<forall>inner. auth_policy_call validate policy inner req w = (resp, w')) \<and>
        (case resp of None \<Rightarrow> True | Some r \<Rightarrow> hr_status r \<in> {401, 403, 500}))"
proof (cases "is_preflight_request (rq_method req) (rq_headers req)")
  case True
  then show ?thesis by (simp add: auth_policy_call_def)
next
  case False
  with guarded_cases[of policy req q validate w, OF assms False] show ?thesis by (simp only: if_False)
qed

text \<open>A token satisfies a requirement on a resource and actions exactly when, for one of the actions, it has
  the role of that resource and action, or one with a wildcard for either or both of them. One action suffices.\<close>

theorem authorized_iff_a_role_matches:
  assumes "plain_name (sr_resource req)" "\<forall>a \<in> set (sr_actions req). plain_name a"
  shows "authorizer_check c req = Ok () \<longleftrightarrow>
    (\<exists>a \<in> set (sr_actions req). set (cl_roles c) \<inter>
       {''*:*'', sr_resource req @ '':*'', ''*:'' @ a, sr_resource req @ '':'' @ a} \<noteq> {})"
  using assms by (rule authorized_iff)

section \<open>Witnesses\<close>

definition users_read :: sec_requirement where
  "users_read = \<lparr>sr_resource = ''users'', sr_actions = [''read'']\<rparr>"

definition signed_request :: http_request where
  "signed_request = \<lparr>rq_method = GET, rq_path = ''/users'', rq_headers = [(''authorization'', ''Bearer signed'')],
     rq_matched_path = None, rq_ctx = None, rq_claims = None, rq_request_id = None\<rparr>"

lemma signed_token: "extract_bearer_token (rq_headers signed_request) = Some ''signed''"
  by code_simp

theorem protected_route_is_guarded_witness:
  "\<exists>c. validate_and_parse idp_dispatcher (0, 0) ''signed'' () = (Some (Ok c), ()) \<and> authorizer_check c users_read = Ok ()"
proof -
  have v: "validate_and_parse idp_dispatcher (0, 0) ''signed'' () = (Some (Ok idp_claims), ())"
    by (simp add: validate_and_parse_def idp_accepts)
  have a: "authorizer_check idp_claims users_read = Ok ()"
    by (simp add: authorizer_check_def check_role_def users_read_def idp_claims_def role_matches_def ends_with_def starts_with_def)
  have p: "\<not> is_preflight_request (rq_method signed_request) (rq_headers signed_request)"
    by (simp add: is_preflight_request_def signed_request_def)
  have reached: "auth_policy_call (validate_and_parse idp_dispatcher (0, 0)) (\<lambda>_ _. AuthRequired (Some users_read)) inner
      signed_request () = inner (with_claims idp_claims signed_request) ()" for inner :: "unit service"
    using p signed_token v a by (simp add: auth_policy_call_def)
  have "\<not> (\<exists>resp w'. \<forall>inner. auth_policy_call (validate_and_parse idp_dispatcher (0, 0))
      (\<lambda>_ _. AuthRequired (Some users_read)) inner signed_request () = (resp, w'))"
  proof safe
    fix resp w'
    assume "\<forall>inner. auth_policy_call (validate_and_parse idp_dispatcher (0, 0)) (\<lambda>_ _. AuthRequired (Some users_read)) inner
      signed_request () = (resp, w')"
    from this[rule_format, of "\<lambda>r w. (None, w)"] this[rule_format, of "\<lambda>r w. (Some (auth_error_response Forbidden), w)"]
    show False unfolding reached by simp
  qed
  with protected_route_is_guarded[of "\<lambda>_ _. AuthRequired (Some users_read)" signed_request "Some users_read"
      "validate_and_parse idp_dispatcher (0, 0)" "()", OF refl, unfolded if_not_P[OF p]]
  obtain token c w' where t: "extract_bearer_token (rq_headers signed_request) = Some token"
    "validate_and_parse idp_dispatcher (0, 0) token () = (Some (Ok c), w')" "authorizer_check c users_read = Ok ()"
    by (auto simp: disj_commute)
  then show ?thesis using signed_token by auto
qed

theorem authorized_iff_a_role_matches_witness:
  "authorizer_check idp_claims users_read = Ok () \<and> plain_name ''users'' \<and> plain_name ''read''"
proof -
  have p: "plain_name ''users''" "plain_name ''read''" by (simp_all add: plain_name_def)
  then show ?thesis using authorized_iff_a_role_matches[of users_read idp_claims]
    by (simp add: users_read_def idp_claims_def)
qed

end
