(* ===== verification/Ingress.thy ===== *)
theory Ingress
  imports Auth_Http Complex_Main
begin

text \<open>
  The HTTP ingress (\<open>modules/api_ingress/src\<close>): registration of operations (\<open>lib.rs\<close>), the route policy and its
  construction (\<open>auth.rs\<close>), the MIME check and the rate limiter (\<open>middleware\<close>), the middleware stack and the router
  that is served (\<open>lib.rs\<close>, \<open>router_cache.rs\<close>).

  The \<open>matchit\<close> router is a parameter: its answers depend on the inserted patterns only. The layers of \<open>tower-http\<close>
  and the routing of \<open>axum\<close> are parameters; \<open>Router::layer\<close> wraps the service that was built so far, so the layer
  added last sees a request first. Arithmetic on \<open>f64\<close> is real arithmetic followed by a rounding, which is a
  parameter too. Requests are served one after the other.
\<close>

section \<open>Configuration and registration\<close>

record cors_config =
  co_allowed_origins :: "string list"
  co_allowed_methods :: "string list"
  co_allowed_headers :: "string list"
  co_allow_credentials :: bool
  co_max_age_seconds :: nat

definition default_cors_config :: cors_config where
  "default_cors_config = \<lparr>co_allowed_origins = [''*''],
     co_allowed_methods = [''GET'', ''POST'', ''PUT'', ''PATCH'', ''DELETE'', ''OPTIONS''],
     co_allowed_headers = [''*''], co_allow_credentials = False, co_max_age_seconds = 600\<rparr>"

definition default_rate_limit :: rate_limit_spec where
  "default_rate_limit = \<lparr>rl_rps = 50, rl_burst = 100, rl_in_flight = 64\<rparr>"

definition default_body_limit_bytes :: nat where "default_body_limit_bytes = 16 * 1024 * 1024"

record ingress_config =
  ic_bind_addr :: string
  ic_enable_docs :: bool
  ic_cors_enabled :: bool
  ic_cors :: "cors_config option"
  ic_rate_limit :: rate_limit_spec
  ic_body_limit_bytes :: nat
  ic_auth_disabled :: bool
  ic_jwks_uri :: "string option"
  ic_issuer :: "string option"
  ic_audience :: "string option"
  ic_require_auth_by_default :: bool

text \<open>An \<open>ArcSwap\<close> cell: its value and the strong count of the \<open>Arc\<close> it holds.\<close>

record 'a router_cache =
  rc_value :: 'a
  rc_strong :: nat

definition cache_new :: "'a \<Rightarrow> 'a router_cache" where
  "cache_new v = \<lparr>rc_value = v, rc_strong = 1\<rparr>"

definition cache_load :: "'a router_cache \<Rightarrow> 'a \<times> nat" where
  "cache_load c = (rc_value c, rc_strong c + 1)"

definition cache_store :: "'a \<Rightarrow> 'a router_cache \<Rightarrow> 'a router_cache" where
  "cache_store v c = \<lparr>rc_value = v, rc_strong = 1\<rparr>"

record ('s, 'w) api_ingress =
  ai_config :: ingress_config
  ai_registry :: "'s openapi_registry"
  ai_cache :: "'w service router_cache"
  ai_final :: "'w service option"
  ai_routes :: "(http_method \<times> string) list"
  ai_handlers :: "string list"

definition ingress_new :: "'w service \<Rightarrow> ingress_config \<Rightarrow> ('s, 'w) api_ingress" where
  "ingress_new empty_router cfg = \<lparr>ai_config = cfg, ai_registry = registry_new, ai_cache = cache_new empty_router,
     ai_final = None, ai_routes = [], ai_handlers = []\<rparr>"

definition ingress_register_operation :: "operation_spec \<Rightarrow> ('s, 'w) api_ingress \<Rightarrow> ('s, 'w) api_ingress" where
  "ingress_register_operation spec a =
     (if os_handler_id spec \<in> set (ai_handlers a) then a
      else let a1 = a\<lparr>ai_handlers := os_handler_id spec # ai_handlers a\<rparr>;
               key = (os_method spec, os_path spec)
           in if key \<in> set (ai_routes a1) then a1
              else a1\<lparr>ai_routes := key # ai_routes a1,
                      ai_registry := registry_register_operation spec (ai_registry a1)\<rparr>)"

section \<open>Route policy\<close>

record matchit =
  mt_insert :: "string list \<Rightarrow> string \<Rightarrow> string option"
  mt_at :: "string list \<Rightarrow> string \<Rightarrow> string option"

definition char_alphanumeric :: "char \<Rightarrow> bool" where
  "char_alphanumeric c \<longleftrightarrow>
     (let n = of_char c :: nat in (48 \<le> n \<and> n \<le> 57) \<or> (65 \<le> n \<and> n \<le> 90) \<or> (97 \<le> n \<and> n \<le> 122) \<or>
        n \<in> {0xAA, 0xB2, 0xB3, 0xB5, 0xB9, 0xBA, 0xBC, 0xBD, 0xBE} \<or> (0xC0 \<le> n \<and> n \<noteq> 0xD7 \<and> n \<noteq> 0xF7))"

definition param_char :: "char \<Rightarrow> bool" where
  "param_char c \<longleftrightarrow> char_alphanumeric c \<or> c = CHR ''_''"

function convert_axum_path_to_matchit :: "string \<Rightarrow> string" where
  "convert_axum_path_to_matchit [] = []"
| "convert_axum_path_to_matchit (c # cs) =
     (if c = CHR '':''
      then CHR 0x7B # takeWhile param_char cs @ CHR 0x7D # convert_axum_path_to_matchit (dropWhile param_char cs)
      else c # convert_axum_path_to_matchit cs)"
  by pat_completeness auto
termination
  by (relation "measure length") (auto simp: less_Suc_eq_le length_dropWhile_le)

type_synonym 'v route_matcher = "(string \<times> 'v) list"

definition matcher_find :: "matchit \<Rightarrow> 'v route_matcher \<Rightarrow> string \<Rightarrow> 'v option" where
  "matcher_find mt m path = Option.bind (mt_at mt (map fst m) path) (map_of m)"

text \<open>The loops over the requirements and over the public routes insert into the matcher of the method.\<close>

fun insert_routes ::
    "matchit \<Rightarrow> string \<Rightarrow> ((http_method \<times> string) \<times> 'v) list \<Rightarrow> (http_method \<times> 'v route_matcher) list \<Rightarrow>
     ((http_method \<times> 'v route_matcher) list, string) result" where
  "insert_routes mt kind [] ms = Ok ms"
| "insert_routes mt kind (((m, path), v) # rs) ms =
     (let matcher = (case map_of ms m of Some r \<Rightarrow> r | None \<Rightarrow> []);
          pattern = convert_axum_path_to_matchit path
      in case mt_insert mt (map fst matcher) pattern of
           Some e \<Rightarrow> Err (''Failed to insert '' @ kind @ '' pattern '' @ [CHR 0x27] @ path @ [CHR 0x27] @ '': '' @ e)
         | None \<Rightarrow> insert_routes mt kind rs (AList.update m (matcher @ [(pattern, v)]) ms))"

record ingress_route_policy =
  rp_routes :: "(http_method \<times> sec_requirement route_matcher) list"
  rp_public :: "(http_method \<times> unit route_matcher) list"
  rp_require_auth_by_default :: bool

definition resolve :: "matchit \<Rightarrow> ingress_route_policy \<Rightarrow> http_method \<Rightarrow> string \<Rightarrow> auth_requirement" where
  "resolve mt p m path =
     (let requirement = Option.bind (map_of (rp_routes p) m) (\<lambda>r. matcher_find mt r path);
          is_public = (case map_of (rp_public p) m of Some r \<Rightarrow> matcher_find mt r path \<noteq> None | None \<Rightarrow> False);
          needs_authn = (requirement \<noteq> None \<or> (rp_require_auth_by_default p \<and> \<not> is_public))
      in if needs_authn then AuthRequired requirement else AuthNone)"

fun config_error_text :: "auth_config_error \<Rightarrow> string" where
  "config_error_text (UnknownPlugin p) = ''unknown plugin: '' @ p"
| "config_error_text (InvalidMode m) = ''invalid auth mode configuration: '' @ m"
| "config_error_text (HttpClientError e) = ''HTTP client error: '' @ e"

text \<open>The libraries and the clock that the ingress calls.\<close>

record 'w auth_env =
  ae_parse_uuid :: "string \<Rightarrow> uuid option"
  ae_jwks_new :: "jwks_config \<Rightarrow> ('w key_provider, auth_config_error) result"
  ae_now :: "'w \<Rightarrow> time \<times> time"
  ae_matchit :: matchit

text \<open>The validator of the disabled mode panics.\<close>

definition noop_validator :: "'w validator" where
  "noop_validator token w = (None, w)"

definition ingress_auth_config :: "ingress_config \<Rightarrow> string \<Rightarrow> auth_config" where
  "ingress_auth_config cfg jwks_uri =
     \<lparr>ac_provider = ''default-oidc'', ac_leeway_seconds = 60,
      ac_issuers = (case ic_issuer cfg of Some i \<Rightarrow> [i] | None \<Rightarrow> []),
      ac_audiences = (case ic_audience cfg of Some a \<Rightarrow> [a] | None \<Rightarrow> []),
      ac_jwks = Some \<lparr>jc_uri = jwks_uri, jc_refresh_interval_seconds = 300, jc_max_backoff_seconds = 3600\<rparr>,
      ac_plugins = [(''default-oidc'', OidcConfig ''tenants'' ''roles'')]\<rparr>"

definition build_validator :: "'w auth_env \<Rightarrow> ingress_config \<Rightarrow> ('w validator, string) result" where
  "build_validator env cfg =
     (if ic_auth_disabled cfg then Ok noop_validator
      else and_then (ok_or ''jwks_uri required when auth is enabled'' (ic_jwks_uri cfg)) (\<lambda>uri.
        and_then (map_err (\<lambda>e. ''Failed to build auth dispatcher: '' @ config_error_text e)
          (build_auth_dispatcher (ae_parse_uuid env) (ae_jwks_new env) (ingress_auth_config cfg uri))) (\<lambda>d.
        Ok (\<lambda>token w. validate_and_parse d (ae_now env w) token w))))"

definition build_auth_state ::
    "'w auth_env \<Rightarrow> ingress_config \<Rightarrow> ((http_method \<times> string) \<times> sec_requirement) list \<Rightarrow>
     (http_method \<times> string) list \<Rightarrow> ('w validator \<times> ingress_route_policy, string) result" where
  "build_auth_state env cfg requirements public_routes =
     and_then (build_validator env cfg) (\<lambda>validator.
     and_then (insert_routes (ae_matchit env) ''route'' requirements []) (\<lambda>routes.
     and_then (insert_routes (ae_matchit env) ''public route'' (map (\<lambda>k. (k, ())) public_routes) []) (\<lambda>public.
       Ok (validator, \<lparr>rp_routes = routes, rp_public = public,
           rp_require_auth_by_default = ic_require_auth_by_default cfg\<rparr>))))"

definition builtin_public_routes :: "(http_method \<times> string) list" where
  "builtin_public_routes = [(GET, ''/health''), (GET, ''/healthz''), (GET, ''/docs''), (GET, ''/openapi.json'')]"

definition collect_requirements :: "operation_spec list \<Rightarrow> ((http_method \<times> string) \<times> sec_requirement) list" where
  "collect_requirements specs =
     fold (\<lambda>s m. case os_sec_requirement s of Some r \<Rightarrow> AList.update (os_method s, os_path s) r m | None \<Rightarrow> m) specs []"

definition collect_public :: "operation_spec list \<Rightarrow> (http_method \<times> string) list" where
  "collect_public specs =
     fold (\<lambda>s ps. if os_is_public s then List.insert (os_method s, os_path s) ps else ps) specs builtin_public_routes"

definition build_auth_state_from_specs ::
    "'w auth_env \<Rightarrow> ingress_config \<Rightarrow> operation_spec list \<Rightarrow> ('w validator \<times> ingress_route_policy, string) result" where
  "build_auth_state_from_specs env cfg specs =
     build_auth_state env cfg (collect_requirements specs) (collect_public specs)"

section \<open>MIME validation\<close>

definition route_key :: "http_request \<Rightarrow> http_method \<times> string" where
  "route_key req = (rq_method req, case rq_matched_path req of Some p \<Rightarrow> p | None \<Rightarrow> rq_path req)"

definition build_mime_validation_map :: "operation_spec list \<Rightarrow> ((http_method \<times> string) \<times> string list) list" where
  "build_mime_validation_map specs =
     fold (\<lambda>s m. case os_allowed_types s of Some ts \<Rightarrow> AList.update (os_method s, os_path s) ts m | None \<Rightarrow> m) specs []"

definition extract_content_type :: "(string \<times> string) list \<Rightarrow> string option" where
  "extract_content_type headers =
     Option.bind (Option.bind (map_of headers ''content-type'') header_str) (\<lambda>ct.
       Some (case split_on (CHR '';'') ct of [] \<Rightarrow> ct | main # _ \<Rightarrow> trim main))"

definition problem_reply :: "problem \<Rightarrow> http_response" where
  "problem_reply p = \<lparr>hr_status = p_status p, hr_headers = [(''content-type'', APPLICATION_PROBLEM_JSON)], hr_body = ProblemBody p\<rparr>"

definition create_unsupported_media_type_error :: "string \<Rightarrow> http_response" where
  "create_unsupported_media_type_error detail = problem_reply (problem_new 415 ''Unsupported Media Type'' detail)"

definition validate_content_type :: "string \<Rightarrow> string list \<Rightarrow> (unit, http_response) result" where
  "validate_content_type ct allowed =
     (if ct \<in> set allowed then Ok ()
      else Err (create_unsupported_media_type_error
        (''Content-Type '' @ [CHR 0x27] @ ct @ [CHR 0x27] @ '' is not allowed for this endpoint. Allowed types: '' @
         join '', '' allowed)))"

definition mime_validation_middleware :: "((http_method \<times> string) \<times> string list) list \<Rightarrow> 'w service \<Rightarrow> 'w service" where
  "mime_validation_middleware vmap next req w =
     (case map_of vmap (route_key req) of
        None \<Rightarrow> next req w
      | Some allowed \<Rightarrow>
          (case extract_content_type (rq_headers req) of
             None \<Rightarrow> (Some (create_unsupported_media_type_error
                (''Missing Content-Type header. Allowed types: '' @ join '', '' allowed)), w)
           | Some ct \<Rightarrow>
               (case validate_content_type ct allowed of
                  Err resp \<Rightarrow> (Some resp, w)
                | Ok _ \<Rightarrow> next req w)))"

section \<open>Rate limiting\<close>

record token_bucket =
  tb_capacity :: "32 word"
  tb_tokens :: real
  tb_refill_per_sec :: real
  tb_last :: nat

definition bucket_new :: "32 word \<Rightarrow> 32 word \<Rightarrow> nat \<Rightarrow> token_bucket" where
  "bucket_new rps burst now =
     (let cap = max (max burst rps) 1
      in \<lparr>tb_capacity = cap, tb_tokens = real (unat cap), tb_refill_per_sec = real (unat (max rps 1)), tb_last = now\<rparr>)"

text \<open>\<open>Duration::as_secs_f64\<close> rounds the fraction and the sum.\<close>

definition as_secs_f64 :: "(real \<Rightarrow> real) \<Rightarrow> nat \<Rightarrow> real" where
  "as_secs_f64 rnd ns = rnd (real (ns div 10 ^ 9) + rnd (real (ns mod 10 ^ 9) / 10 ^ 9))"

definition allow_now :: "(real \<Rightarrow> real) \<Rightarrow> nat \<Rightarrow> token_bucket \<Rightarrow> bool \<times> token_bucket" where
  "allow_now rnd now b =
     (let elapsed = as_secs_f64 rnd (now - tb_last b);
          tokens = min (rnd (tb_tokens b + rnd (elapsed * tb_refill_per_sec b))) (real (unat (tb_capacity b)));
          b' = b\<lparr>tb_last := now, tb_tokens := tokens\<rparr>
      in if tokens \<ge> 1 then (True, b'\<lparr>tb_tokens := rnd (tokens - 1)\<rparr>) else (False, b'))"

record rate_state =
  rt_clock :: nat
  rt_buckets :: "((http_method \<times> string) \<times> token_bucket) list"
  rt_inflight :: "((http_method \<times> string) \<times> nat) list"

definition limits_of :: "ingress_config \<Rightarrow> operation_spec \<Rightarrow> rate_limit_spec" where
  "limits_of cfg s = (case os_rate_limit s of Some r \<Rightarrow> r | None \<Rightarrow> ic_rate_limit cfg)"

definition rate_limiter_from_specs ::
    "operation_spec list \<Rightarrow> ingress_config \<Rightarrow> nat \<Rightarrow>
     ((http_method \<times> string) \<times> token_bucket) list \<times> ((http_method \<times> string) \<times> nat) list" where
  "rate_limiter_from_specs specs cfg now =
     fold (\<lambda>s (buckets, inflight).
       let l = limits_of cfg s; key = (os_method s, os_path s)
       in (AList.update key (bucket_new (rl_rps l) (rl_burst l) now) buckets,
           AList.update key (unat (rl_in_flight l)) inflight)) specs ([], [])"

definition status_response :: "nat \<Rightarrow> http_response" where
  "status_response status = \<lparr>hr_status = status, hr_headers = [], hr_body = EmptyBody\<rparr>"

definition with_permit :: "http_method \<times> string \<Rightarrow> ('z rate_state_scheme) service \<Rightarrow> ('z rate_state_scheme) service" where
  "with_permit key next req w =
     (case map_of (rt_inflight w) key of
        None \<Rightarrow> next req w
      | Some permits \<Rightarrow>
          if permits = 0 then (Some (status_response 503), w)
          else case next req (w\<lparr>rt_inflight := AList.update key (permits - 1) (rt_inflight w)\<rparr>) of
                 (resp, w') \<Rightarrow> (resp, w'\<lparr>rt_inflight := AList.map_entry key Suc (rt_inflight w')\<rparr>))"

definition rate_limit_middleware ::
    "(real \<Rightarrow> real) \<Rightarrow> ('z rate_state_scheme) service \<Rightarrow> ('z rate_state_scheme) service" where
  "rate_limit_middleware rnd next req w =
     (let key = route_key req
      in case map_of (rt_buckets w) key of
           None \<Rightarrow> with_permit key next req w
         | Some b \<Rightarrow>
             (case allow_now rnd (rt_clock w) b of
                (ok, b') \<Rightarrow>
                  let w' = w\<lparr>rt_buckets := AList.update key b' (rt_buckets w)\<rparr>
                  in if \<not> ok then (Some (status_response 429), w') else with_permit key next req w'))"

section \<open>The middleware stack\<close>

definition push_req_id_to_extensions :: "'w service \<Rightarrow> 'w service" where
  "push_req_id_to_extensions next req w =
     (case Option.bind (map_of (rq_headers req) ''x-request-id'') header_str of
        Some rid \<Rightarrow> next (req\<lparr>rq_request_id := Some rid\<rparr>) w
      | None \<Rightarrow> next req w)"

text \<open>\<open>error_mapping_middleware\<close> returns every response as it is.\<close>

definition error_mapping_middleware :: "'w service \<Rightarrow> 'w service" where
  "error_mapping_middleware next req w = next req w"

datatype 'a cors_allow = CorsUnset | CorsAny | CorsList "'a list"

record cors_layer =
  cy_origins :: "string cors_allow"
  cy_methods :: "string cors_allow"
  cy_headers :: "string cors_allow"
  cy_credentials :: bool
  cy_max_age :: "nat option"

definition cors_rule :: "(string \<Rightarrow> bool) \<Rightarrow> string list \<Rightarrow> string cors_allow" where
  "cors_rule parses items =
     (if ''*'' \<in> set items then CorsAny
      else let ok = filter parses items in if ok = [] then CorsUnset else CorsList ok)"

definition build_cors_layer ::
    "(string \<Rightarrow> bool) \<Rightarrow> (string \<Rightarrow> bool) \<Rightarrow> (string \<Rightarrow> bool) \<Rightarrow> ingress_config \<Rightarrow> cors_layer" where
  "build_cors_layer origin_ok method_ok header_ok cfg =
     (let c = (case ic_cors cfg of Some c \<Rightarrow> c | None \<Rightarrow> default_cors_config)
      in \<lparr>cy_origins = cors_rule origin_ok (co_allowed_origins c), cy_methods = cors_rule method_ok (co_allowed_methods c),
          cy_headers = cors_rule header_ok (co_allowed_headers c), cy_credentials = co_allow_credentials c,
          cy_max_age = (if co_max_age_seconds c > 0 then Some (co_max_age_seconds c) else None)\<rparr>)"

record 'w tower_env =
  tw_propagate_request_id :: "'w service \<Rightarrow> 'w service"
  tw_set_request_id :: "'w service \<Rightarrow> 'w service"
  tw_trace :: "'w service \<Rightarrow> 'w service"
  tw_timeout :: "'w service \<Rightarrow> 'w service"
  tw_body_limit :: "nat \<Rightarrow> 'w service \<Rightarrow> 'w service"
  tw_default_body_limit :: "nat \<Rightarrow> 'w service \<Rightarrow> 'w service"
  tw_cors :: "ingress_config \<Rightarrow> 'w service \<Rightarrow> 'w service"
  tw_rnd :: "real \<Rightarrow> real"

text \<open>The layers in the order in which the code adds them.\<close>

definition request_layers ::
    "('z rate_state_scheme) tower_env \<Rightarrow> ingress_config \<Rightarrow> operation_spec list \<Rightarrow> ('z rate_state_scheme) service \<Rightarrow>
     ('z rate_state_scheme) service" where
  "request_layers tw cfg specs router =
     (let r1 = tw_propagate_request_id tw router;
          r2 = tw_set_request_id tw r1;
          r3 = tw_trace tw r2;
          r4 = push_req_id_to_extensions r3;
          r5 = tw_timeout tw r4;
          r6 = tw_default_body_limit tw (ic_body_limit_bytes cfg) (tw_body_limit tw (ic_body_limit_bytes cfg) r5);
          r7 = (if ic_cors_enabled cfg then tw_cors tw cfg r6 else r6);
          r8 = mime_validation_middleware (build_mime_validation_map specs) r7;
          r9 = rate_limit_middleware (tw_rnd tw) r8
      in error_mapping_middleware r9)"

definition with_root_ctx :: "'w service \<Rightarrow> 'w service" where
  "with_root_ctx next req w = next (req\<lparr>rq_ctx := Some root_ctx\<rparr>) w"

definition apply_middleware_stack ::
    "('z rate_state_scheme) auth_env \<Rightarrow> ('z rate_state_scheme) tower_env \<Rightarrow> ingress_config \<Rightarrow> operation_spec list \<Rightarrow>
     ('z rate_state_scheme) service \<Rightarrow> (('z rate_state_scheme) service, string) result" where
  "apply_middleware_stack env tw cfg specs router =
     and_then (build_auth_state_from_specs env cfg specs) (\<lambda>(validator, policy).
       let layered = request_layers tw cfg specs router
       in Ok (if ic_auth_disabled cfg then with_root_ctx layered
              else auth_policy_call validator (resolve (ae_matchit env) policy) layered))"

section \<open>The served router\<close>

record 'w axum_env =
  ax_empty :: "'w service"
  ax_route :: "string \<Rightarrow> 'w service \<Rightarrow> 'w service \<Rightarrow> 'w service"
  ax_health :: "'w service"
  ax_docs :: "'w service"
  ax_openapi :: "operation_spec list \<Rightarrow> ('w service, string) result"

definition ok_handler :: "'w service" where
  "ok_handler req w = (Some \<lparr>hr_status = 200, hr_headers = [(''content-type'', ''text/plain; charset=utf-8'')],
     hr_body = TextBody ''ok''\<rparr>, w)"

abbreviation ingress_specs :: "('s, 'w) api_ingress \<Rightarrow> operation_spec list" where
  "ingress_specs a \<equiv> map snd (or_specs (ai_registry a))"

definition rest_prepare :: "'w axum_env \<Rightarrow> 'w service \<Rightarrow> ('w service, string) result" where
  "rest_prepare ax router = Ok (ax_route ax ''/healthz'' ok_handler router)"

definition rest_finalize ::
    "('z rate_state_scheme) auth_env \<Rightarrow> ('z rate_state_scheme) tower_env \<Rightarrow> ('z rate_state_scheme) axum_env \<Rightarrow>
     ('z rate_state_scheme) service \<Rightarrow> ('s, 'z rate_state_scheme) api_ingress \<Rightarrow>
     (('z rate_state_scheme) service, string) result \<times> ('s, 'z rate_state_scheme) api_ingress" where
  "rest_finalize env tw ax router a =
     (let specs = ingress_specs a;
          documented = (if ic_enable_docs (ai_config a)
            then and_then (ax_openapi ax specs) (\<lambda>doc. Ok (ax_route ax ''/docs'' (ax_docs ax) (ax_route ax ''/openapi.json'' doc router)))
            else Ok router)
      in case and_then documented (apply_middleware_stack env tw (ai_config a) specs) of
           Err e \<Rightarrow> (Err e, a)
         | Ok r \<Rightarrow> (Ok r, a\<lparr>ai_final := Some r\<rparr>))"

definition build_router ::
    "('z rate_state_scheme) auth_env \<Rightarrow> ('z rate_state_scheme) tower_env \<Rightarrow> ('z rate_state_scheme) axum_env \<Rightarrow>
     ('s, 'z rate_state_scheme) api_ingress \<Rightarrow>
     (('z rate_state_scheme) service, string) result \<times> ('s, 'z rate_state_scheme) api_ingress" where
  "build_router env tw ax a =
     (let (cached, strong) = cache_load (ai_cache a)
      in if strong > 1 then (Ok cached, a)
         else case apply_middleware_stack env tw (ai_config a) (ingress_specs a)
                     (ax_route ax ''/health'' (ax_health ax) (ax_empty ax)) of
                Err e \<Rightarrow> (Err e, a)
              | Ok r \<Rightarrow> (Ok r, a\<lparr>ai_cache := cache_store r (ai_cache a)\<rparr>))"

definition rebuild_and_cache_router ::
    "('z rate_state_scheme) auth_env \<Rightarrow> ('z rate_state_scheme) tower_env \<Rightarrow> ('z rate_state_scheme) axum_env \<Rightarrow>
     ('s, 'z rate_state_scheme) api_ingress \<Rightarrow> (unit, string) result \<times> ('s, 'z rate_state_scheme) api_ingress" where
  "rebuild_and_cache_router env tw ax a =
     (case build_router env tw ax a of
        (Err e, a') \<Rightarrow> (Err e, a')
      | (Ok r, a') \<Rightarrow> (Ok (), a'\<lparr>ai_cache := cache_store r (ai_cache a')\<rparr>))"

definition get_or_build_router ::
    "('z rate_state_scheme) auth_env \<Rightarrow> ('z rate_state_scheme) tower_env \<Rightarrow> ('z rate_state_scheme) axum_env \<Rightarrow>
     ('s, 'z rate_state_scheme) api_ingress \<Rightarrow>
     (('z rate_state_scheme) service, string) result \<times> ('s, 'z rate_state_scheme) api_ingress" where
  "get_or_build_router env tw ax a =
     (case ai_final a of
        Some r \<Rightarrow> (Ok r, a\<lparr>ai_final := None\<rparr>)
      | None \<Rightarrow> build_router env tw ax a)"

section \<open>The policy follows the operations\<close>

definition static_path :: "string \<Rightarrow> bool" where
  "static_path p \<longleftrightarrow> CHR '':'' \<notin> set p \<and> CHR 0x7B \<notin> set p \<and> CHR 0x7D \<notin> set p"

text \<open>What \<open>matchit\<close> documents: a match is one of the inserted patterns, a pattern without parameters matches
  itself only, and it is preferred to one with parameters.\<close>

definition matchit_ok :: "matchit \<Rightarrow> bool" where
  "matchit_ok mt \<longleftrightarrow>
     (\<forall>ps path p. mt_at mt ps path = Some p \<longrightarrow> p \<in> set ps \<and> (static_path p \<longrightarrow> p = path)) \<and>
     (\<forall>ps p. p \<in> set ps \<and> static_path p \<longrightarrow> mt_at mt ps p = Some p)"

lemma matchit_laws:
  assumes "matchit_ok mt"
  shows matchit_found: "mt_at mt ps path = Some p \<Longrightarrow> p \<in> set ps"
    and matchit_exact: "mt_at mt ps path = Some p \<Longrightarrow> static_path p \<Longrightarrow> p = path"
    and matchit_static: "p \<in> set ps \<Longrightarrow> static_path p \<Longrightarrow> mt_at mt ps p = Some p"
    and matchit_empty: "mt_at mt [] path = None"
proof -
  have all: "\<And>ps path p. mt_at mt ps path = Some p \<Longrightarrow> p \<in> set ps \<and> (static_path p \<longrightarrow> p = path)"
    "\<And>ps p. p \<in> set ps \<and> static_path p \<Longrightarrow> mt_at mt ps p = Some p"
    using assms by (simp_all add: matchit_ok_def)
  show "mt_at mt ps path = Some p \<Longrightarrow> p \<in> set ps" by (drule all(1)) (rule conjunct1)
  show "mt_at mt ps path = Some p \<Longrightarrow> static_path p \<Longrightarrow> p = path" by (drule all(1)) simp
  show "p \<in> set ps \<Longrightarrow> static_path p \<Longrightarrow> mt_at mt ps p = Some p" by (rule all(2)) (rule conjI)
  show "mt_at mt [] path = None" using all(1)[of "[]" path] by (cases "mt_at mt [] path") auto
qed

text \<open>Paths with parameters: the segments of a route, as Axum used to write them (\<open>:id\<close>) and as \<open>matchit\<close> does (\<open>{id}\<close>), and the
  requests they stand for. A parameter takes one segment that is not empty.\<close>

datatype route_seg = FixedSeg string | ParamSeg string

fun wf_seg :: "route_seg \<Rightarrow> bool" where
  "wf_seg (FixedSeg s) = (set s \<inter> {CHR ''/'', CHR '':'', CHR 0x7B, CHR 0x7D} = {})"
| "wf_seg (ParamSeg x) = (x \<noteq> [] \<and> list_all param_char x)"

fun colon_seg :: "route_seg \<Rightarrow> string" where
  "colon_seg (FixedSeg s) = s"
| "colon_seg (ParamSeg x) = CHR '':'' # x"

fun brace_seg :: "route_seg \<Rightarrow> string" where
  "brace_seg (FixedSeg s) = s"
| "brace_seg (ParamSeg x) = CHR 0x7B # x @ [CHR 0x7D]"

definition slashed :: "string list \<Rightarrow> string" where
  "slashed segs = concat (map (\<lambda>s. CHR ''/'' # s) segs)"

fun seg_takes :: "route_seg \<Rightarrow> string \<Rightarrow> bool" where
  "seg_takes (FixedSeg s) v = (v = s)"
| "seg_takes (ParamSeg x) v = (v \<noteq> [] \<and> CHR ''/'' \<notin> set v)"

definition route_matches :: "route_seg list \<Rightarrow> string \<Rightarrow> bool" where
  "route_matches t path \<longleftrightarrow> (\<exists>vs. path = slashed vs \<and> list_all2 seg_takes t vs)"

definition brace_path :: "route_seg list \<Rightarrow> string" where
  "brace_path t = slashed (map brace_seg t)"

text \<open>The path of an operation writes each parameter in either way.\<close>

definition path_route :: "string \<Rightarrow> route_seg list \<Rightarrow> bool" where
  "path_route path t \<longleftrightarrow> list_all wf_seg t \<and>
     (\<exists>segs. path = slashed segs \<and> list_all2 (\<lambda>s g. s = colon_seg g \<or> s = brace_seg g) segs t)"

text \<open>What \<open>matchit\<close> documents about parameters, for a router whose insertions all succeeded: it finds a pattern that matches
  the path, whenever there is one.\<close>

definition insertable :: "matchit \<Rightarrow> string list \<Rightarrow> bool" where
  "insertable mt ps \<longleftrightarrow> (\<forall>qs p rs. ps = qs @ p # rs \<longrightarrow> mt_insert mt qs p = None)"

definition matchit_params :: "matchit \<Rightarrow> bool" where
  "matchit_params mt \<longleftrightarrow>
     (\<forall>ps path. insertable mt ps \<and> (\<forall>p \<in> set ps. \<exists>t. list_all wf_seg t \<and> p = brace_path t) \<longrightarrow>
        (case mt_at mt ps path of
           Some p \<Rightarrow> \<forall>t. list_all wf_seg t \<and> p = brace_path t \<longrightarrow> route_matches t path
         | None \<Rightarrow> \<forall>t. list_all wf_seg t \<and> brace_path t \<in> set ps \<longrightarrow> \<not> route_matches t path))"

lemma insertable_snoc: "insertable mt (ps @ [p]) \<longleftrightarrow> insertable mt ps \<and> mt_insert mt ps p = None"
proof
  assume i: "insertable mt (ps @ [p])"
  then show "insertable mt ps \<and> mt_insert mt ps p = None"
    unfolding insertable_def by (metis append.assoc append_Cons)
next
  assume "insertable mt ps \<and> mt_insert mt ps p = None"
  then show "insertable mt (ps @ [p])"
    unfolding insertable_def by (auto simp: append_eq_append_conv2 append_eq_Cons_conv Cons_eq_append_conv)
qed

lemma insertable_Nil [simp]: "insertable mt []"
  by (simp add: insertable_def)

lemma param_char_not: "param_char c \<Longrightarrow> c \<noteq> CHR ''/'' \<and> c \<noteq> CHR '':'' \<and> c \<noteq> CHR 0x7B \<and> c \<noteq> CHR 0x7D"
  by (auto simp: param_char_def char_alphanumeric_def Let_def)

lemma convert_prefix: "CHR '':'' \<notin> set s \<Longrightarrow> convert_axum_path_to_matchit (s @ r) = s @ convert_axum_path_to_matchit r"
  by (induction s) auto

lemma slashed_simps [simp]: "slashed [] = []" "slashed (s # segs) = CHR ''/'' # s @ slashed segs"
  by (simp_all add: slashed_def)

lemma convert_seg:
  assumes "wf_seg g" "s = colon_seg g \<or> s = brace_seg g" "r = [] \<or> hd r = CHR ''/''"
  shows "convert_axum_path_to_matchit (s @ r) = brace_seg g @ convert_axum_path_to_matchit r"
proof (cases g)
  case (FixedSeg f)
  with assms(1,2) show ?thesis by (simp add: convert_prefix)
next
  case (ParamSeg x)
  with assms(1) have x: "list_all param_char x" by simp
  have "CHR '':'' \<notin> set (brace_seg g)" using x param_char_not ParamSeg by (auto simp: list_all_iff)
  moreover have "takeWhile param_char (x @ r) = x \<and> dropWhile param_char (x @ r) = r"
    using x assms(3) param_char_not[of "hd r"] by (cases r) (auto simp: list_all_iff takeWhile_append2 dropWhile_append2)
  ultimately show ?thesis using assms(2) ParamSeg by (auto simp: convert_prefix)
qed

lemma convert_route: "path_route path t \<Longrightarrow> convert_axum_path_to_matchit path = brace_path t"
proof -
  have "convert_axum_path_to_matchit (slashed segs) = slashed (map brace_seg t)"
    if "list_all2 (\<lambda>s g. s = colon_seg g \<or> s = brace_seg g) segs t" "list_all wf_seg t" for segs
    using that
  proof (induction rule: list_all2_induct)
    case (Cons s segs g t)
    have "slashed segs = [] \<or> hd (slashed segs) = CHR ''/''" by (cases segs) auto
    from convert_seg[OF _ Cons.hyps(1) this] Cons show ?case by simp
  qed simp
  then show "path_route path t \<Longrightarrow> convert_axum_path_to_matchit path = brace_path t"
    by (auto simp: path_route_def brace_path_def)
qed

lemma convert_plain: "CHR '':'' \<notin> set p \<Longrightarrow> convert_axum_path_to_matchit p = p"
  by (induction p) auto

lemma convert_braces: "CHR '':'' \<in> set p \<Longrightarrow> CHR 0x7B \<in> set (convert_axum_path_to_matchit p)"
  by (induction p) auto

lemma convert_static: "static_path p \<Longrightarrow> convert_axum_path_to_matchit q = p \<longleftrightarrow> q = p"
  unfolding static_path_def by (metis convert_plain convert_braces)

definition matcher_of :: "(http_method \<times> 'v route_matcher) list \<Rightarrow> http_method \<Rightarrow> 'v route_matcher" where
  "matcher_of ms m = (case map_of ms m of Some r \<Rightarrow> r | None \<Rightarrow> [])"

lemma insert_routes_matcher:
  "insert_routes mt kind rs ms = Ok ms' \<Longrightarrow>
     matcher_of ms' m = matcher_of ms m @
       map (\<lambda>x. (convert_axum_path_to_matchit (snd (fst x)), snd x)) (filter (\<lambda>x. fst (fst x) = m) rs)"
proof (induction rs arbitrary: ms)
  case (Cons x rs)
  obtain m' path v where x: "x = ((m', path), v)" by (cases x) auto
  let ?ms = "AList.update m' (matcher_of ms m' @ [(convert_axum_path_to_matchit path, v)]) ms"
  from Cons.prems have "insert_routes mt kind rs ?ms = Ok ms'" by (auto simp: x Let_def matcher_of_def split: option.splits)
  from Cons.IH[OF this] show ?case by (auto simp: x matcher_of_def update_conv')
qed simp

lemma insert_routes_insertable:
  "insert_routes mt kind rs ms = Ok ms' \<Longrightarrow> (\<And>m. insertable mt (map fst (matcher_of ms m))) \<Longrightarrow>
     insertable mt (map fst (matcher_of ms' m))"
proof (induction rs arbitrary: ms)
  case (Cons x rs)
  obtain m' path v where x: "x = ((m', path), v)" by (cases x) auto
  let ?p = "convert_axum_path_to_matchit path"
  let ?ms = "AList.update m' (matcher_of ms m' @ [(?p, v)]) ms"
  from Cons.prems(1) have i: "mt_insert mt (map fst (matcher_of ms m')) ?p = None" "insert_routes mt kind rs ?ms = Ok ms'"
    by (auto simp: x Let_def matcher_of_def split: option.splits)
  have "insertable mt (map fst (matcher_of ?ms k))" for k
    using Cons.prems(2)[of k] Cons.prems(2)[of m'] i(1) by (auto simp: matcher_of_def update_conv' insertable_snoc)
  from Cons.IH[OF i(2) this] show ?case .
qed simp

text \<open>A path that a route of the method matches is found, and what is found is such a route.\<close>

lemma find_route:
  assumes "matchit_ok mt" "matchit_params mt" "insert_routes mt kind rs [] = Ok ms"
    and "\<forall>x \<in> set rs. \<exists>t. path_route (snd (fst x)) t"
  shows "matcher_find mt (matcher_of ms m) path = None \<longleftrightarrow>
      \<not> (\<exists>x \<in> set rs. fst (fst x) = m \<and> (\<exists>t. path_route (snd (fst x)) t \<and> route_matches t path))"
    "matcher_find mt (matcher_of ms m) path = Some v \<Longrightarrow>
      \<exists>x \<in> set rs. fst (fst x) = m \<and> snd x = v \<and> (\<exists>t. path_route (snd (fst x)) t \<and> route_matches t path)"
proof -
  let ?ps = "map fst (matcher_of ms m)"
  have r: "matcher_of ms m = map (\<lambda>x. (convert_axum_path_to_matchit (snd (fst x)), snd x)) (filter (\<lambda>x. fst (fst x) = m) rs)"
    using insert_routes_matcher[OF assms(3), of m] by (simp add: matcher_of_def)
  have "insertable mt ?ps" by (rule insert_routes_insertable[OF assms(3)]) (simp add: matcher_of_def)
  moreover have "\<forall>p \<in> set ?ps. \<exists>t. list_all wf_seg t \<and> p = brace_path t"
    unfolding r using assms(4) convert_route by (fastforce simp: path_route_def)
  ultimately have law: "case mt_at mt ?ps path of
      Some p \<Rightarrow> \<forall>t. list_all wf_seg t \<and> p = brace_path t \<longrightarrow> route_matches t path
    | None \<Rightarrow> \<forall>t. list_all wf_seg t \<and> brace_path t \<in> set ?ps \<longrightarrow> \<not> route_matches t path"
    using assms(2) unfolding matchit_params_def by blast
  have some: "\<exists>x \<in> set rs. fst (fst x) = m \<and> snd x = v \<and> (\<exists>t. path_route (snd (fst x)) t \<and> route_matches t path)"
    if "matcher_find mt (matcher_of ms m) path = Some v" for v
  proof -
    from that obtain p where p: "mt_at mt ?ps path = Some p" "map_of (matcher_of ms m) p = Some v"
      by (auto simp: matcher_find_def bind_eq_Some_conv)
    from map_of_SomeD[OF p(2)] obtain x where x: "x \<in> set rs" "fst (fst x) = m" "snd x = v"
      "p = convert_axum_path_to_matchit (snd (fst x))" unfolding r by auto
    then obtain t where t: "path_route (snd (fst x)) t" using assms(4) by blast
    then have "route_matches t path" using law p(1) x(4) convert_route[OF t] by (auto simp: path_route_def)
    with x t show ?thesis by blast
  qed
  then show "matcher_find mt (matcher_of ms m) path = Some v \<Longrightarrow>
      \<exists>x \<in> set rs. fst (fst x) = m \<and> snd x = v \<and> (\<exists>t. path_route (snd (fst x)) t \<and> route_matches t path)" .
  have "\<not> route_matches t path" if "matcher_find mt (matcher_of ms m) path = None" "x \<in> set rs" "fst (fst x) = m"
    "path_route (snd (fst x)) t" for x t
  proof -
    have "mt_at mt ?ps path = None"
    proof (cases "mt_at mt ?ps path")
      case (Some p)
      from matchit_found[OF assms(1) Some] that(1) Some show ?thesis by (auto simp: matcher_find_def map_of_eq_None_iff)
    qed
    moreover have "brace_path t \<in> set ?ps"
    proof -
      have "x \<in> set (filter (\<lambda>x. fst (fst x) = m) rs)" using that(2,3) by simp
      then have "convert_axum_path_to_matchit (snd (fst x)) \<in> set ?ps" unfolding r map_map set_map by (intro image_eqI) simp_all
      then show ?thesis by (simp only: convert_route[OF that(4)])
    qed
    ultimately show ?thesis using law that(4) by (auto simp: path_route_def)
  qed
  with some show "matcher_find mt (matcher_of ms m) path = None \<longleftrightarrow>
      \<not> (\<exists>x \<in> set rs. fst (fst x) = m \<and> (\<exists>t. path_route (snd (fst x)) t \<and> route_matches t path))"
    by (cases "matcher_find mt (matcher_of ms m) path") (blast, fastforce)
qed

lemma bind_matcher: "matchit_ok mt \<Longrightarrow> Option.bind (map_of ms m) (\<lambda>r. matcher_find mt r path) = matcher_find mt (matcher_of ms m) path"
  by (cases "map_of ms m") (auto simp: matchit_empty matcher_find_def matcher_of_def)

lemma map_of_unique: "(k, v) \<in> set xs \<Longrightarrow> (\<And>v'. (k, v') \<in> set xs \<Longrightarrow> v' = v) \<Longrightarrow> map_of xs k = Some v"
  by (metis map_of_SomeD weak_map_of_SomeI)

lemma find_static:
  assumes "matchit_ok mt" "insert_routes mt kind rs [] = Ok ms" "static_path path" "((m, path), v) \<in> set rs" "distinct (map fst rs)"
  shows "matcher_find mt (matcher_of ms m) path = Some v"
proof -
  let ?f = "\<lambda>x. (convert_axum_path_to_matchit (snd (fst x)), snd x)"
  have r: "matcher_of ms m = map ?f (filter (\<lambda>x. fst (fst x) = m) rs)" using insert_routes_matcher[OF assms(2), of m] by (simp add: matcher_of_def)
  have mem: "(path, v') \<in> set (matcher_of ms m) \<longleftrightarrow> ((m, path), v') \<in> set rs" for v'
  proof
    assume "(path, v') \<in> set (matcher_of ms m)"
    then obtain x where "x \<in> set rs" "fst (fst x) = m" "convert_axum_path_to_matchit (snd (fst x)) = path" "snd x = v'"
      unfolding r by auto
    then show "((m, path), v') \<in> set rs" using convert_static[OF assms(3)] by (metis prod.collapse)
  next
    assume "((m, path), v') \<in> set rs"
    then have "?f ((m, path), v') \<in> set (matcher_of ms m)" unfolding r set_map by (intro imageI) simp
    then show "(path, v') \<in> set (matcher_of ms m)" using convert_static[OF assms(3), of path] by simp
  qed
  have "v' = v" if "(path, v') \<in> set (matcher_of ms m)" for v'
    using that eq_key_imp_eq_value[OF assms(5,4), of v'] unfolding mem by simp
  then have "map_of (matcher_of ms m) path = Some v" using assms(4) unfolding mem[symmetric] by (rule map_of_unique[rotated])
  moreover have "path \<in> set (map fst (matcher_of ms m))" using assms(4) unfolding mem[symmetric] by force
  ultimately show ?thesis using matchit_static[OF assms(1) _ assms(3)] by (simp add: matcher_find_def)
qed

lemma find_none:
  assumes "matchit_ok mt" "insert_routes mt kind rs [] = Ok ms" "\<forall>x \<in> set rs. static_path (snd (fst x)) \<and> fst x \<noteq> (m, path)"
  shows "matcher_find mt (matcher_of ms m) path = None"
proof (cases "mt_at mt (map fst (matcher_of ms m)) path")
  case (Some p)
  then have p: "p \<in> set (map fst (matcher_of ms m))" "static_path p \<Longrightarrow> p = path" by (rule matchit_found[OF assms(1)], rule matchit_exact[OF assms(1)])
  from p(1) obtain x where x: "x \<in> set rs" "fst (fst x) = m" "p = convert_axum_path_to_matchit (snd (fst x))"
    unfolding insert_routes_matcher[OF assms(2), of m] by (auto simp: matcher_of_def)
  have "snd (fst x) = p" using x assms(3) by (simp add: convert_plain static_path_def)
  with x assms(3) p(2) show ?thesis by (metis prod.collapse)
qed (simp add: matcher_find_def)

abbreviation route_of :: "operation_spec \<Rightarrow> http_method \<times> string" where
  "route_of s \<equiv> (os_method s, os_path s)"

lemma requirements_entry:
  assumes "distinct (map route_of specs)"
  shows "map_of (fold (\<lambda>s m. case os_sec_requirement s of Some r \<Rightarrow> AList.update (route_of s) r m | None \<Rightarrow> m) specs m0) k =
    (case find (\<lambda>s. route_of s = k \<and> os_sec_requirement s \<noteq> None) specs of Some s \<Rightarrow> os_sec_requirement s | None \<Rightarrow> map_of m0 k)"
  using assms
proof (induction specs arbitrary: m0)
  case (Cons s specs)
  have new: "route_of s \<notin> route_of ` set specs" using Cons.prems by simp
  have other: "route_of t \<noteq> route_of s" if "t \<in> set specs" for t
  proof
    assume "route_of t = route_of s"
    then show False using new imageI[OF that, of route_of] by simp
  qed
  have none: "find (\<lambda>t. route_of t = route_of s \<and> os_sec_requirement t \<noteq> None) specs = None"
    unfolding find_None_iff using other by blast
  have ih: "distinct (map route_of specs)" using Cons.prems by simp
  show ?case
  proof (cases "route_of s = k \<and> os_sec_requirement s \<noteq> None")
    case True
    then show ?thesis using none by (auto simp: Cons.IH[OF ih] update_conv')
  next
    case False
    then have "map_of (AList.update (route_of s) a m0) k = map_of m0 k" if "os_sec_requirement s = Some a" for a
      using that unfolding update_conv' by (metis fun_upd_other option.distinct(1))
    then show ?thesis using False by (cases "os_sec_requirement s") (simp_all add: Cons.IH[OF ih] split: option.splits)
  qed
qed simp

lemma requirements_distinct:
  "distinct (map fst m0) \<Longrightarrow>
   distinct (map fst (fold (\<lambda>s m. case os_sec_requirement s of Some r \<Rightarrow> AList.update (route_of s) r m | None \<Rightarrow> m) specs m0))"
  by (induction specs arbitrary: m0) (auto simp: distinct_update split: option.splits)

lemma requirement_collected:
  assumes "distinct (map route_of specs)" "s \<in> set specs" "os_sec_requirement s = Some r"
  shows "(route_of s, r) \<in> set (collect_requirements specs)"
proof -
  have "find (\<lambda>t. route_of t = route_of s \<and> os_sec_requirement t \<noteq> None) specs = Some s"
    using assms by (induction specs) (auto simp: image_iff)
  then have "map_of (collect_requirements specs) (route_of s) = Some r"
    unfolding collect_requirements_def requirements_entry[OF assms(1)] using assms(3) by simp
  then show ?thesis by (rule map_of_SomeD)
qed

lemma requirement_of_spec:
  assumes "distinct (map route_of specs)" "x \<in> set (collect_requirements specs)"
  shows "\<exists>s \<in> set specs. route_of s = fst x \<and> os_sec_requirement s = Some (snd x)"
proof -
  have "distinct (map fst (collect_requirements specs))"
    using requirements_distinct[of "[]" specs] by (simp add: collect_requirements_def)
  with assms(2) have "map_of (collect_requirements specs) (fst x) = Some (snd x)" by (simp add: map_of_is_SomeI)
  then show ?thesis unfolding collect_requirements_def requirements_entry[OF assms(1)]
    by (auto simp: find_Some_iff split: option.splits)
qed

lemma set_collect_public: "set (collect_public specs) = set builtin_public_routes \<union> route_of ` {s \<in> set specs. os_is_public s}"
proof -
  have "set (fold (\<lambda>s ps. if os_is_public s then List.insert (route_of s) ps else ps) specs ps0) =
      set ps0 \<union> route_of ` {s \<in> set specs. os_is_public s}" for ps0
    by (induction specs arbitrary: ps0) auto
  then show ?thesis by (simp add: collect_public_def)
qed

lemma distinct_collect_public: "distinct (collect_public specs)"
proof -
  have "distinct ps0 \<Longrightarrow> distinct (fold (\<lambda>s ps. if os_is_public s then List.insert (route_of s) ps else ps) specs ps0)" for ps0
    by (induction specs arbitrary: ps0) auto
  then show ?thesis by (simp add: collect_public_def builtin_public_routes_def)
qed

lemma built_policy:
  assumes "build_auth_state_from_specs env cfg specs = Ok (validator, policy)"
  shows "insert_routes (ae_matchit env) ''route'' (collect_requirements specs) [] = Ok (rp_routes policy)"
    "insert_routes (ae_matchit env) ''public route'' (map (\<lambda>k. (k, ())) (collect_public specs)) [] = Ok (rp_public policy)"
    "rp_require_auth_by_default policy = ic_require_auth_by_default cfg" "build_validator env cfg = Ok validator"
  using assms by (auto simp: build_auth_state_from_specs_def build_auth_state_def res_simps)

lemma resolve_eq:
  assumes "matchit_ok mt"
  shows "resolve mt p m path =
    (let requirement = matcher_find mt (matcher_of (rp_routes p) m) path
     in if requirement \<noteq> None \<or> (rp_require_auth_by_default p \<and> matcher_find mt (matcher_of (rp_public p) m) path = None)
        then AuthRequired requirement else AuthNone)"
  using bind_matcher[OF assms, of "rp_public p" m path]
  by (cases "map_of (rp_public p) m") (auto simp: resolve_def Let_def bind_matcher[OF assms])

text \<open>A spec whose handler id is taken is not registered.\<close>

lemma register_taken: "os_handler_id s \<in> set (ai_handlers a) \<Longrightarrow> ingress_register_operation s a = a"
  by (simp add: ingress_register_operation_def)

section \<open>Token buckets\<close>

text \<open>The number of requests that pass among \<open>n\<close> requests at the instant \<open>now\<close>.\<close>

fun burst_passed :: "(real \<Rightarrow> real) \<Rightarrow> nat \<Rightarrow> nat \<Rightarrow> token_bucket \<Rightarrow> nat" where
  "burst_passed rnd now 0 b = 0"
| "burst_passed rnd now (Suc n) b =
     (case allow_now rnd now b of (ok, b') \<Rightarrow> (if ok then 1 else 0) + burst_passed rnd now n b')"

text \<open>Rounding is monotone and keeps the integers up to the largest capacity.\<close>

definition rounding :: "(real \<Rightarrow> real) \<Rightarrow> bool" where
  "rounding rnd \<longleftrightarrow> mono rnd \<and> (\<forall>k < 2 ^ 32. rnd (real k) = real k)"

lemma burst_passed_le:
  assumes "rounding rnd" "tb_last b = now" "tb_tokens b \<le> real k" "k < 2 ^ 32"
  shows "burst_passed rnd now n b \<le> k"
  using assms(2-4)
proof (induction n arbitrary: b k)
  case (Suc n)
  have r: "rnd (real j) = real j" if "j < 2 ^ 32" for j using assms(1) that by (auto simp: rounding_def)
  have m: "rnd x \<le> rnd y" if "x \<le> y" for x y using assms(1) that by (auto simp: rounding_def dest: monoD)
  have z: "rnd 0 = 0" using r[of 0] by simp
  let ?t = "min (rnd (tb_tokens b)) (real (unat (tb_capacity b)))"
  have t: "?t \<le> real k" using m[OF Suc.prems(2)] r[OF Suc.prems(3)] by simp
  have a: "allow_now rnd now b = (if ?t \<ge> 1 then (True, b\<lparr>tb_last := now, tb_tokens := rnd (?t - 1)\<rparr>)
      else (False, b\<lparr>tb_last := now, tb_tokens := ?t\<rparr>))"
    using Suc.prems(1) by (simp add: allow_now_def as_secs_f64_def z Let_def)
  show ?case
  proof (cases "?t \<ge> 1")
    case True
    then have k: "0 < k" using t by (cases k) auto
    then have "?t - 1 \<le> real (k - 1)" using t by (simp add: of_nat_diff)
    then have "rnd (?t - 1) \<le> real (k - 1)" using m r[of "k - 1"] Suc.prems(3) k by (metis less_imp_diff_less)
    then have "burst_passed rnd now n (b\<lparr>tb_last := now, tb_tokens := rnd (?t - 1)\<rparr>) \<le> k - 1"
      by (intro Suc.IH) (use Suc.prems(3) in auto)
    with k True show ?thesis by (simp add: a)
  next
    case False
    with Suc.IH[of "b\<lparr>tb_last := now, tb_tokens := ?t\<rparr>" k] t Suc.prems(3) show ?thesis by (auto simp: a)
  qed
qed simp

lemma burst_passed_capacity:
  assumes "rounding rnd"
  shows "burst_passed rnd now n b \<le> unat (tb_capacity b)"
proof (cases n)
  case (Suc n')
  let ?c = "unat (tb_capacity b)"
  have "?c < 2 ^ LENGTH(32)" by (rule unsigned_less)
  then have c: "?c < 2 ^ 32" by simp
  obtain t where t: "t \<le> real ?c" "allow_now rnd now b = (if t \<ge> 1 then (True, b\<lparr>tb_last := now, tb_tokens := rnd (t - 1)\<rparr>)
      else (False, b\<lparr>tb_last := now, tb_tokens := t\<rparr>))"
    by (rule that[of "min (rnd (tb_tokens b + rnd (as_secs_f64 rnd (now - tb_last b) * tb_refill_per_sec b))) (real ?c)"])
      (simp_all add: allow_now_def Let_def)
  show ?thesis
  proof (cases "t \<ge> 1")
    case True
    then have k: "0 < ?c" using t(1) by (cases ?c) auto
    have "t - 1 \<le> real (?c - 1)" using t(1) k by (simp add: of_nat_diff)
    then have "rnd (t - 1) \<le> rnd (real (?c - 1))" using assms unfolding rounding_def by (metis monoD)
    also have "\<dots> = real (?c - 1)" using assms c unfolding rounding_def by (metis less_imp_diff_less)
    finally have "burst_passed rnd now n' (b\<lparr>tb_last := now, tb_tokens := rnd (t - 1)\<rparr>) \<le> ?c - 1"
      using c by (intro burst_passed_le[OF assms]) auto
    then show ?thesis using Suc t(2) True k by simp
  next
    case False
    then show ?thesis using Suc t c burst_passed_le[OF assms, of "b\<lparr>tb_last := now, tb_tokens := t\<rparr>" now ?c n'] by simp
  qed
qed simp

text \<open>An operation with the handler id that the builder derives.\<close>

definition simple_spec :: "http_method \<Rightarrow> string \<Rightarrow> sec_requirement option \<Rightarrow> operation_spec" where
  "simple_spec m path requirement = (ob_spec (builder_new m path :: unit op_builder))
     \<lparr>os_sec_requirement := requirement, os_is_public := (requirement = None)\<rparr>"

lemma simple_spec_simps [simp]:
  "os_method (simple_spec m p r) = m" "os_path (simple_spec m p r) = p" "os_sec_requirement (simple_spec m p r) = r"
  "os_is_public (simple_spec m p r) = (r = None)" "os_handler_id (simple_spec m p r) = handler_id_of m p"
  by (simp_all add: simple_spec_def builder_new_def)

lemma builtin_static: "k \<in> set builtin_public_routes \<Longrightarrow> static_path (snd k)"
  by (auto simp: builtin_public_routes_def static_path_def)

lemma builtin_route: "k \<in> set builtin_public_routes \<Longrightarrow> \<exists>t. path_route (snd k) t"
proof -
  have "path_route (CHR ''/'' # s) [FixedSeg s]" if "wf_seg (FixedSeg s)" for s
    using that unfolding path_route_def by (intro conjI exI[of _ "[s]"]) auto
  from this[of "''health''"] this[of "''healthz''"] this[of "''docs''"] this[of "''openapi.json''"]
  show "k \<in> set builtin_public_routes \<Longrightarrow> \<exists>t. path_route (snd k) t"
    by (simp add: builtin_public_routes_def del: wf_seg.simps) (auto 0 3)
qed

section \<open>Properties\<close>

text \<open>C8. The route policy follows the registered operations, also those with path parameters, which an operation may write
  as \<open>:id\<close> or as \<open>{id}\<close>. A request that matches the path of an operation with a role requirement is resolved to the
  requirement of a protected operation of its method that the request matches: to this one when no other matches, or when the path
  has no parameter and the request is that path. A request to a public operation needs no authentication exactly when it matches no
  protected operation of its method.\<close>

theorem route_policy_follows_the_operations:
  assumes "matchit_ok (ae_matchit env)" "matchit_params (ae_matchit env)"
    and "build_auth_state_from_specs env cfg specs = Ok (validator, policy)"
    and "distinct (map (\<lambda>s. (os_method s, os_path s)) specs)" "\<forall>s \<in> set specs. \<exists>t. path_route (os_path s) t"
    and "s \<in> set specs" "path_route (os_path s) t" "route_matches t path"
    and "rivals = {s' \<in> set specs. os_method s' = os_method s \<and> os_sec_requirement s' \<noteq> None \<and>
      (\<exists>t'. path_route (os_path s') t' \<and> route_matches t' path)}"
  shows "(os_sec_requirement s \<noteq> None \<longrightarrow>
      (\<exists>s' \<in> rivals. resolve (ae_matchit env) policy (os_method s) path = AuthRequired (os_sec_requirement s'))) \<and>
    (os_sec_requirement s \<noteq> None \<and> (rivals = {s} \<or> static_path path \<and> path = os_path s) \<longrightarrow>
      resolve (ae_matchit env) policy (os_method s) path = AuthRequired (os_sec_requirement s)) \<and>
    (os_is_public s \<and> os_sec_requirement s = None \<longrightarrow>
      (resolve (ae_matchit env) policy (os_method s) path = AuthNone \<longleftrightarrow> rivals = {}))"
proof -
  let ?find = "matcher_find (ae_matchit env) (matcher_of (rp_routes policy) (os_method s)) path"
  have routes: "\<forall>x \<in> set (collect_requirements specs). \<exists>t. path_route (snd (fst x)) t"
    using requirement_of_spec[OF assms(4)] assms(5) by (metis snd_conv)
  note found = find_route[OF assms(1,2) built_policy(1)[OF assms(3)] routes]
  have rival: "\<exists>s' \<in> rivals. os_sec_requirement s' = Some r" if "?find = Some r" for r
  proof -
    from found(2)[OF that] obtain x t' where x: "x \<in> set (collect_requirements specs)" "fst (fst x) = os_method s" "snd x = r"
      "path_route (snd (fst x)) t'" "route_matches t' path" by blast
    with requirement_of_spec[OF assms(4) x(1)] show ?thesis unfolding assms(9) by (metis (mono_tags, lifting) fst_conv mem_Collect_eq option.distinct(1) snd_conv)
  qed
  have none: "?find = None \<longleftrightarrow> rivals = {}"
  proof
    assume n: "?find = None"
    show "rivals = {}"
    proof (rule equals0I)
      fix s' assume "s' \<in> rivals"
      then obtain r t' where s': "s' \<in> set specs" "os_method s' = os_method s" "os_sec_requirement s' = Some r"
        "path_route (os_path s') t'" "route_matches t' path" unfolding assms(9) by auto
      from requirement_collected[OF assms(4) s'(1,3)] s' n show False unfolding found(1) by (metis fst_conv snd_conv)
    qed
  next
    assume "rivals = {}"
    with rival show "?find = None" by (cases ?find) auto
  qed
  have self: "s \<in> rivals" if "os_sec_requirement s \<noteq> None" using that assms(6-8) unfolding assms(9) by blast
  have public: "matcher_find (ae_matchit env) (matcher_of (rp_public policy) (os_method s)) path \<noteq> None" if "os_is_public s"
  proof -
    let ?rs = "map (\<lambda>k. (k, ())) (collect_public specs)"
    have "\<forall>x \<in> set ?rs. \<exists>t. path_route (snd (fst x)) t"
      using assms(5) builtin_route by (auto simp: set_collect_public)
    note f = find_route(1)[OF assms(1,2) built_policy(2)[OF assms(3)] this]
    have "(route_of s, ()) \<in> set ?rs" using that assms(6) by (auto simp: set_collect_public)
    then show ?thesis using assms(7,8) unfolding f by (metis fst_conv snd_conv)
  qed
  have "resolve (ae_matchit env) policy (os_method s) path = AuthRequired (os_sec_requirement s)"
    if p: "os_sec_requirement s \<noteq> None" "static_path path" "path = os_path s"
  proof -
    obtain r where r: "os_sec_requirement s = Some r" using p(1) by auto
    then have "((os_method s, path), r) \<in> set (collect_requirements specs)" using requirement_collected[OF assms(4,6)] p(3) by simp
    moreover have "distinct (map fst (collect_requirements specs))"
      using requirements_distinct[of "[]" specs] by (simp add: collect_requirements_def)
    ultimately have "?find = Some r" by (rule find_static[OF assms(1) built_policy(1)[OF assms(3)] p(2)])
    with r show ?thesis by (simp add: resolve_eq[OF assms(1)])
  qed
  moreover have "\<exists>s' \<in> rivals. resolve (ae_matchit env) policy (os_method s) path = AuthRequired (os_sec_requirement s')"
    if "os_sec_requirement s \<noteq> None"
  proof -
    from that have "s \<in> rivals" by (rule self)
    then obtain r where r: "?find = Some r" using none by (cases ?find) auto
    with rival[OF r] show ?thesis by (force simp: resolve_eq[OF assms(1)])
  qed
  moreover have "resolve (ae_matchit env) policy (os_method s) path = AuthNone \<longleftrightarrow> rivals = {}" if "os_is_public s"
    using public[OF that] none by (auto simp: resolve_eq[OF assms(1)] Let_def)
  ultimately show ?thesis by (metis singletonD)
qed

text \<open>C25. An operation whose derived handler id collides with that of another one loses its role requirement: its
  registration is ignored, so its path needs no role, and no authentication at all when that is not the default.\<close>

theorem colliding_operation_loses_its_requirement:
  assumes "matchit_ok (ae_matchit env)" "handler_id_of m p = handler_id_of m q" "p \<noteq> q" "static_path p" "static_path q"
    and "(m, q) \<notin> set builtin_public_routes"
    and "build_auth_state_from_specs env cfg (ingress_specs
      (ingress_register_operation (simple_spec m q (Some r)) (ingress_register_operation (simple_spec m p None)
        (ingress_new e cfg :: ('s, 'w) api_ingress)))) = Ok (validator, policy)"
  shows "resolve (ae_matchit env) policy m q = (if ic_require_auth_by_default cfg then AuthRequired None else AuthNone)"
proof -
  let ?a = "ingress_register_operation (simple_spec m p None) (ingress_new e cfg :: ('s, 'w) api_ingress)"
  have "os_handler_id (simple_spec m q (Some r)) \<in> set (ai_handlers ?a)"
    using assms(2) by (simp add: ingress_register_operation_def ingress_new_def)
  then have "ingress_register_operation (simple_spec m q (Some r)) ?a = ?a" by (rule register_taken)
  moreover have "ingress_specs ?a = [simple_spec m p None]"
    by (simp add: ingress_register_operation_def ingress_new_def registry_register_operation_def registry_new_def)
  ultimately have ok: "build_auth_state_from_specs env cfg [simple_spec m p None] = Ok (validator, policy)" using assms(7) by simp
  have "collect_requirements [simple_spec m p None] = []" by (simp add: collect_requirements_def)
  then have "matcher_find (ae_matchit env) (matcher_of (rp_routes policy) m) q = None"
    using find_none[OF assms(1) built_policy(1)[OF ok], of m q] by simp
  moreover have "matcher_find (ae_matchit env) (matcher_of (rp_public policy) m) q = None"
    by (rule find_none[OF assms(1) built_policy(2)[OF ok]])
      (use assms(3,4,6) builtin_static in \<open>auto simp: set_collect_public\<close>)
  ultimately show ?thesis by (simp add: resolve_eq[OF assms(1)] built_policy(3)[OF ok])
qed

text \<open>C20. Authentication is the outermost layer: a request without a token to a protected route is answered with
  401 before any other layer runs, whatever those layers and the routes do, so it is neither counted by the rate
  limiter nor given a request id. The exception is a CORS preflight, which goes to the layers behind as it is.\<close>

theorem unauthenticated_request_reaches_no_layer:
  assumes "apply_middleware_stack env tw cfg specs router = Ok svc" "\<not> ic_auth_disabled cfg"
    and "build_auth_state_from_specs env cfg specs = Ok (validator, policy)"
    and "resolve (ae_matchit env) policy (rq_method req) (rq_path req) = AuthRequired q"
    and "extract_bearer_token (rq_headers req) = None"
  shows "svc req w =
    (if is_preflight_request (rq_method req) (rq_headers req) then request_layers tw cfg specs router req w
     else (Some (auth_error_response Unauthenticated), w))"
  using assms by (auto simp: apply_middleware_stack_def auth_policy_call_def Let_def)

text \<open>The router is never rebuilt, since loading the cached one makes its count of references exceed one: the
  router of the REST phase is served on the first start, and the initial empty router, without routes and without
  authentication, on every later one.\<close>

theorem second_start_serves_the_initial_router:
  assumes "rest_finalize env tw ax router (fold ingress_register_operation specs (ingress_new e cfg)) = (Ok r, a1)"
  shows "\<exists>a2. get_or_build_router env tw ax a1 = (Ok r, a2) \<and> get_or_build_router env tw ax a2 = (Ok e, a2) \<and>
    rebuild_and_cache_router env tw ax a1 = (Ok (), a1)"
proof -
  have "ai_cache (fold ingress_register_operation specs a) = ai_cache a" for a :: "('b, 'a rate_state_scheme) api_ingress"
    by (induction specs arbitrary: a) (auto simp: ingress_register_operation_def Let_def)
  then have "ai_cache a1 = cache_new e" "ai_final a1 = Some r"
    using assms by (auto simp: rest_finalize_def Let_def ingress_new_def split: result.splits)
  then show ?thesis
    by (simp add: get_or_build_router_def build_router_def rebuild_and_cache_router_def cache_load_def cache_new_def
        cache_store_def)
qed

text \<open>At one instant a route passes no more requests than its burst capacity, which is the larger of the burst
  and the rate and at least one, however long it was idle.\<close>

theorem burst_is_bounded:
  assumes "rounding rnd"
  shows "burst_passed rnd now n (bucket_new rps burst t0) \<le> max (max (unat burst) (unat rps)) 1"
proof -
  have "unat (max x y) = max (unat x) (unat y)" for x y :: "32 word" by (simp add: max_def word_le_nat_alt)
  then have "unat (tb_capacity (bucket_new rps burst t0)) = max (max (unat burst) (unat rps)) 1"
    by (simp add: bucket_new_def Let_def)
  then show ?thesis using burst_passed_capacity[OF assms, of now n "bucket_new rps burst t0"] by simp
qed

section \<open>Witnesses\<close>

text \<open>A matcher of literal patterns, and an ingress in front of an identity provider.\<close>

definition exact_matchit :: matchit where
  "exact_matchit = \<lparr>mt_insert = (\<lambda>ps p. if p \<in> set ps then Some ''conflict'' else None),
     mt_at = (\<lambda>ps path. if path \<in> set ps then Some path else None)\<rparr>"

definition idp_env :: "unit \<Rightarrow> 'w auth_env" where
  "idp_env _ = \<lparr>ae_parse_uuid = digit_uuid, ae_jwks_new = (\<lambda>_. Ok (\<lambda>token w. (Ok (\<lparr>h_kid = None, h_alg = []\<rparr>, token_claims 1000), w))),
     ae_now = (\<lambda>_. (0, 0)), ae_matchit = exact_matchit\<rparr>"

definition idp_ingress_config :: ingress_config where
  "idp_ingress_config = \<lparr>ic_bind_addr = [], ic_enable_docs = False, ic_cors_enabled = False, ic_cors = None,
     ic_rate_limit = default_rate_limit, ic_body_limit_bytes = default_body_limit_bytes, ic_auth_disabled = False,
     ic_jwks_uri = Some ''https://idp'', ic_issuer = None, ic_audience = None, ic_require_auth_by_default = False\<rparr>"

lemma exact_matchit_ok: "matchit_ok exact_matchit"
  by (auto simp: matchit_ok_def exact_matchit_def)

lemma idp_state:
  "\<exists>v. build_auth_state_from_specs (idp_env ()) idp_ingress_config [simple_spec GET ''/users/list'' None] =
     Ok (v, \<lparr>rp_routes = [], rp_public = [(GET, [(''/users/list'', ()), (''/health'', ()), (''/healthz'', ()), (''/docs'', ()),
       (''/openapi.json'', ())])], rp_require_auth_by_default = False\<rparr>)"
  by (simp add: build_auth_state_from_specs_def build_auth_state_def build_validator_def idp_ingress_config_def
      ingress_auth_config_def build_auth_dispatcher_def auth_config_validate_def dispatcher_new_def registry_get_def
      registry_register_def idp_env_def collect_requirements_def collect_public_def builtin_public_routes_def
      exact_matchit_def convert_plain List.insert_def)

text \<open>A matcher of segments.\<close>

definition segment_takes :: "string \<Rightarrow> string \<Rightarrow> bool" where
  "segment_takes p v \<longleftrightarrow> (if p \<noteq> [] \<and> hd p = CHR 0x7B \<and> last p = CHR 0x7D then v \<noteq> [] else v = p)"

definition pattern_takes :: "string \<Rightarrow> string \<Rightarrow> bool" where
  "pattern_takes p path = list_all2 segment_takes (split_on CHR ''/'' p) (split_on CHR ''/'' path)"

definition segment_matchit :: matchit where
  "segment_matchit = \<lparr>mt_insert = (\<lambda>ps p. if p \<in> set ps then Some ''conflict'' else None),
     mt_at = (\<lambda>ps path. if path \<in> set ps \<and> static_path path then Some path else find (\<lambda>p. pattern_takes p path) ps)\<rparr>"

lemma split_slashed: "\<forall>s \<in> set segs. CHR ''/'' \<notin> set s \<Longrightarrow> split_on CHR ''/'' (slashed segs) = [] # segs"
proof -
  have "\<forall>s \<in> set (a # segs). CHR ''/'' \<notin> set s \<Longrightarrow> split_on CHR ''/'' (a @ slashed segs) = a # segs" for a
    by (induction segs arbitrary: a) (auto simp: split_on_plain split_on_append)
  from this[of "[]"] show "\<forall>s \<in> set segs. CHR ''/'' \<notin> set s \<Longrightarrow> split_on CHR ''/'' (slashed segs) = [] # segs" by simp
qed

lemma split_back: "split_on CHR ''/'' path = [] # vs \<Longrightarrow> path = [] \<and> vs = [] \<or> path = slashed vs"
proof -
  have "path = hd (split_on CHR ''/'' path) @ slashed (tl (split_on CHR ''/'' path))" for path
    by (induction path) (auto split: list.splits)
  from this[of path] show "split_on CHR ''/'' path = [] # vs \<Longrightarrow> path = [] \<and> vs = [] \<or> path = slashed vs" by simp
qed

lemma split_no_slash: "v \<in> set (split_on CHR ''/'' path) \<Longrightarrow> CHR ''/'' \<notin> set v"
  by (induction path arbitrary: v) (auto split: list.splits if_splits)

lemma segment_takes_brace: "wf_seg g \<Longrightarrow> CHR ''/'' \<notin> set v \<Longrightarrow> segment_takes (brace_seg g) v = seg_takes g v"
proof (cases g)
  case (FixedSeg f)
  moreover assume "wf_seg g" "CHR ''/'' \<notin> set v"
  ultimately have "f \<noteq> [] \<longrightarrow> hd f \<noteq> CHR 0x7B" by (cases f) auto
  with FixedSeg show ?thesis by (auto simp: segment_takes_def)
qed (auto simp: segment_takes_def)

lemma pattern_takes_route:
  assumes "list_all wf_seg t"
  shows "pattern_takes (brace_path t) path \<longleftrightarrow> route_matches t path"
proof -
  have ns: "CHR ''/'' \<notin> set (brace_seg g)" if "g \<in> set t" for g
  proof -
    have "wf_seg g" using assms that by (simp add: list_all_iff)
    then show ?thesis using param_char_not by (cases g) (auto simp: list_all_iff)
  qed
  have sp: "split_on CHR ''/'' (brace_path t) = [] # map brace_seg t"
    unfolding brace_path_def by (rule split_slashed) (use ns in auto)
  have m: "list_all2 segment_takes (map brace_seg t) vs \<longleftrightarrow> list_all2 seg_takes t vs" if "\<forall>v \<in> set vs. CHR ''/'' \<notin> set v" for vs
    using assms that
  proof (induction t arbitrary: vs)
    case (Cons g t)
    then show ?case by (cases vs) (auto simp: segment_takes_brace)
  qed simp
  show ?thesis
  proof
    assume p: "pattern_takes (brace_path t) path"
    then obtain v vs where v: "split_on CHR ''/'' path = v # vs" "v = []" "list_all2 segment_takes (map brace_seg t) vs"
      unfolding pattern_takes_def sp by (auto simp: list_all2_Cons1 segment_takes_def)
    with m[of vs] split_no_slash[of _ path] have "list_all2 seg_takes t vs" by auto
    moreover have "path = slashed vs" using split_back[of path vs] v by auto
    ultimately show "route_matches t path" unfolding route_matches_def by blast
  next
    assume "route_matches t path"
    then obtain vs where vs: "path = slashed vs" "list_all2 seg_takes t vs" by (auto simp: route_matches_def)
    have "CHR ''/'' \<notin> set v" if "v \<in> set vs" for v
    proof -
      from vs(2) that obtain g where "g \<in> set t" "seg_takes g v" by (metis in_set_conv_nth list_all2_conv_all_nth)
      with assms show ?thesis by (cases g) (auto simp: list_all_iff)
    qed
    then show "pattern_takes (brace_path t) path"
      unfolding pattern_takes_def sp using m[of vs] vs by (simp add: split_slashed segment_takes_def)
  qed
qed

lemma segment_subset: "x \<in> set (split_on c p) \<Longrightarrow> set x \<subseteq> set p"
proof (induction p arbitrary: x)
  case (Cons a p)
  then show ?case by (cases "split_on c p") (force split: if_splits)+
qed simp

lemma pattern_takes_static: "static_path p \<Longrightarrow> pattern_takes p path \<Longrightarrow> p = path"
proof -
  assume p: "static_path p" "pattern_takes p path"
  have h: "CHR 0x7B \<notin> set x" if "x \<in> set (split_on CHR ''/'' p)" for x
  proof -
    have "set x \<subseteq> set p" using that by (rule segment_subset)
    with p(1) show ?thesis by (auto simp: static_path_def)
  qed
  have "split_on CHR ''/'' p = split_on CHR ''/'' path"
  proof -
    have "xs = ys" if "list_all2 segment_takes xs ys" "\<forall>x \<in> set xs. CHR 0x7B \<notin> set x" for xs ys
      using that
    proof (induction rule: list_all2_induct)
      case (Cons x xs y ys)
      then have "\<not> (x \<noteq> [] \<and> hd x = CHR 0x7B)" by (cases x) auto
      with Cons show ?case by (auto simp: segment_takes_def)
    qed simp
    with p(2) h show ?thesis by (auto simp: pattern_takes_def)
  qed
  moreover have "s = hd (split_on CHR ''/'' s) @ slashed (tl (split_on CHR ''/'' s))" for s
    by (induction s) (auto split: list.splits)
  ultimately show "p = path" by metis
qed

lemma segment_matchit_ok: "matchit_ok segment_matchit" "matchit_params segment_matchit"
proof -
  show "matchit_ok segment_matchit"
    using pattern_takes_static by (auto simp: matchit_ok_def segment_matchit_def find_Some_iff split: if_splits)
  have "case mt_at segment_matchit ps path of
      Some p \<Rightarrow> \<forall>t. list_all wf_seg t \<and> p = brace_path t \<longrightarrow> route_matches t path
    | None \<Rightarrow> \<forall>t. list_all wf_seg t \<and> brace_path t \<in> set ps \<longrightarrow> \<not> route_matches t path" for ps path
  proof (cases "path \<in> set ps \<and> static_path path")
    case True
    have "pattern_takes path path" if "static_path path"
    proof -
      have "\<not> (x \<noteq> [] \<and> hd x = CHR 0x7B)" if "x \<in> set (split_on CHR ''/'' path)" for x
      proof -
        have "set x \<subseteq> set path" using that by (rule segment_subset)
        with \<open>static_path path\<close> show ?thesis by (cases x) (auto simp: static_path_def)
      qed
      then show ?thesis by (auto simp: pattern_takes_def segment_takes_def list_all2_same)
    qed
    with True show ?thesis using pattern_takes_route by (auto simp: segment_matchit_def)
  next
    case False
    then have at: "mt_at segment_matchit ps path = find (\<lambda>p. pattern_takes p path) ps" by (auto simp: segment_matchit_def)
    show ?thesis
    proof (cases "find (\<lambda>p. pattern_takes p path) ps")
      case None
      then have "\<not> route_matches t path" if "list_all wf_seg t" "brace_path t \<in> set ps" for t
        using that pattern_takes_route[OF that(1), of path] by (simp only: find_None_iff) blast
      with None show ?thesis by (simp only: at option.case) blast
    next
      case (Some p)
      then have "pattern_takes p path" by (simp only: find_Some_iff) blast
      then have "route_matches t path" if "list_all wf_seg t" "p = brace_path t" for t
        using that pattern_takes_route[OF that(1), of path] by blast
      with Some show ?thesis by (simp only: at option.case) blast
    qed
  qed
  then show "matchit_params segment_matchit" by (simp add: matchit_params_def)
qed

definition segment_env :: "unit \<Rightarrow> 'w auth_env" where
  "segment_env _ = idp_env ()\<lparr>ae_matchit := segment_matchit\<rparr>"

definition user_path :: string where "user_path = ''/users/:id''"

lemma segment_state:
  "\<exists>v. build_auth_state_from_specs (segment_env ()) idp_ingress_config [simple_spec GET user_path (Some users_read)] =
     Ok (v, \<lparr>rp_routes = [(GET, [(''/users/{id}'', users_read)])], rp_public = [(GET, [(''/health'', ()), (''/healthz'', ()),
       (''/docs'', ()), (''/openapi.json'', ())])], rp_require_auth_by_default = False\<rparr>)"
proof -
  have c: "convert_axum_path_to_matchit user_path = ''/users/{id}''" by code_simp
  show ?thesis
    by (simp add: build_auth_state_from_specs_def build_auth_state_def build_validator_def idp_ingress_config_def
      ingress_auth_config_def build_auth_dispatcher_def auth_config_validate_def dispatcher_new_def registry_get_def
      registry_register_def segment_env_def idp_env_def collect_requirements_def collect_public_def builtin_public_routes_def
      segment_matchit_def convert_plain c)
qed

theorem route_policy_follows_the_operations_witness:
  "\<exists>policy. resolve segment_matchit policy GET ''/users/7'' = AuthRequired (Some users_read) \<and> convert_axum_path_to_matchit user_path = ''/users/{id}''"
proof -
  let ?s = "simple_spec GET user_path (Some users_read)" and ?t = "[FixedSeg ''users'', ParamSeg ''id'']"
  obtain v policy where v: "build_auth_state_from_specs (segment_env () :: unit auth_env) idp_ingress_config [?s] = Ok (v, policy)"
    using segment_state by blast
  have m: "ae_matchit (segment_env () :: unit auth_env) = segment_matchit" by (simp add: segment_env_def)
  have p: "path_route (os_path ?s) ?t" unfolding path_route_def
    by (intro conjI exI[of _ "[''users'', '':id'']"]) (simp_all add: user_path_def param_char_def char_alphanumeric_def)
  have q: "route_matches ?t ''/users/7''" unfolding route_matches_def by (intro exI[of _ "[''users'', ''7'']"]) simp
  have "resolve segment_matchit policy GET ''/users/7'' = AuthRequired (Some users_read)"
    using route_policy_follows_the_operations[of "segment_env () :: unit auth_env", unfolded m, OF segment_matchit_ok v[unfolded m], of ?s ?t "''/users/7''"] p q by auto
  moreover have "convert_axum_path_to_matchit user_path = ''/users/{id}''" by code_simp
  ultimately show ?thesis by blast
qed

theorem colliding_operation_loses_its_requirement_witness:
  "handler_id_of GET ''/users/list'' = handler_id_of GET ''/users_list'' \<and>
   (\<exists>policy. resolve exact_matchit policy GET ''/users_list'' = AuthNone)"
proof -
  have h: "handler_id_of GET ''/users/list'' = handler_id_of GET ''/users_list''" by (simp add: handler_id_of_def)
  let ?a = "ingress_register_operation (simple_spec GET ''/users/list'' None) (ingress_new (\<lambda>r w. (None, w)) idp_ingress_config)
    :: (unit, unit) api_ingress"
  have "ingress_register_operation (simple_spec GET ''/users_list'' (Some users_read)) ?a = ?a"
    by (rule register_taken) (simp add: h ingress_register_operation_def ingress_new_def)
  moreover have "ingress_specs ?a = [simple_spec GET ''/users/list'' None]"
    by (simp add: ingress_register_operation_def ingress_new_def registry_register_operation_def registry_new_def)
  ultimately obtain v policy where ok: "build_auth_state_from_specs (idp_env () :: unit auth_env) idp_ingress_config (ingress_specs
      (ingress_register_operation (simple_spec GET ''/users_list'' (Some users_read)) ?a)) = Ok (v, policy)"
    using idp_state by force
  have "matchit_ok (ae_matchit (idp_env () :: unit auth_env))" by (simp add: idp_env_def exact_matchit_ok)
  from colliding_operation_loses_its_requirement[OF this h _ _ _ _ ok] h show ?thesis
    by (auto simp: static_path_def builtin_public_routes_def idp_ingress_config_def idp_env_def)
qed

text \<open>Layers that do nothing, and a request without a token.\<close>

definition plain_tower :: "'w tower_env" where
  "plain_tower = \<lparr>tw_propagate_request_id = id, tw_set_request_id = id, tw_trace = id, tw_timeout = id, tw_body_limit = (\<lambda>_. id),
     tw_default_body_limit = (\<lambda>_. id), tw_cors = (\<lambda>_. id), tw_rnd = id\<rparr>"

definition protecting_config :: ingress_config where
  "protecting_config = idp_ingress_config\<lparr>ic_require_auth_by_default := True\<rparr>"

definition idle_world :: rate_state where
  "idle_world = \<lparr>rt_clock = 0, rt_buckets = [], rt_inflight = []\<rparr>"

theorem unauthenticated_request_reaches_no_layer_witness:
  "\<exists>svc. apply_middleware_stack (idp_env ()) plain_tower protecting_config [] (\<lambda>r w. (None, w)) = Ok svc \<and>
     svc (signed_request\<lparr>rq_headers := []\<rparr>) idle_world = (Some (auth_error_response Unauthenticated), idle_world)"
proof -
  let ?env = "idp_env () :: rate_state auth_env"
  obtain v policy where p: "build_auth_state_from_specs ?env protecting_config [] = Ok (v, policy)"
    "resolve (ae_matchit ?env) policy GET ''/users'' = AuthRequired None"
    by (simp add: build_auth_state_from_specs_def build_auth_state_def build_validator_def idp_ingress_config_def
        protecting_config_def ingress_auth_config_def build_auth_dispatcher_def auth_config_validate_def dispatcher_new_def
        registry_get_def registry_register_def idp_env_def collect_requirements_def collect_public_def
        builtin_public_routes_def exact_matchit_def convert_plain resolve_def matcher_find_def)
  then obtain svc where s: "apply_middleware_stack ?env plain_tower protecting_config [] (\<lambda>r w. (None, w)) = Ok svc"
    by (simp add: apply_middleware_stack_def Let_def)
  have "svc (signed_request\<lparr>rq_headers := []\<rparr>) idle_world = (Some (auth_error_response Unauthenticated), idle_world)"
    using unauthenticated_request_reaches_no_layer[OF s _ p(1), of "signed_request\<lparr>rq_headers := []\<rparr>" None idle_world]
    by (simp add: p(2) protecting_config_def idp_ingress_config_def signed_request_def is_preflight_request_def
        extract_bearer_token_def)
  with s show ?thesis by blast
qed

definition quiet_axum :: "'w axum_env" where
  "quiet_axum = \<lparr>ax_empty = (\<lambda>r w. (None, w)), ax_route = (\<lambda>_ h r. r), ax_health = ok_handler, ax_docs = ok_handler,
     ax_openapi = (\<lambda>_. Ok ok_handler)\<rparr>"

theorem second_start_serves_the_initial_router_witness:
  "\<exists>r a1 a2. rest_finalize (idp_env ()) plain_tower quiet_axum ok_handler
       (ingress_new (\<lambda>r w. (None, w)) protecting_config :: (unit, rate_state) api_ingress) = (Ok r, a1) \<and>
     get_or_build_router (idp_env ()) plain_tower quiet_axum a1 = (Ok r, a2) \<and>
     get_or_build_router (idp_env ()) plain_tower quiet_axum a2 = (Ok (\<lambda>r w. (None, w)), a2)"
proof -
  let ?a = "ingress_new (\<lambda>r w. (None, w)) protecting_config :: (unit, rate_state) api_ingress"
  obtain v policy where p: "build_auth_state_from_specs (idp_env () :: rate_state auth_env) protecting_config [] = Ok (v, policy)"
    by (simp add: build_auth_state_from_specs_def build_auth_state_def build_validator_def idp_ingress_config_def
        protecting_config_def ingress_auth_config_def build_auth_dispatcher_def auth_config_validate_def dispatcher_new_def
        registry_get_def registry_register_def idp_env_def collect_requirements_def collect_public_def
        builtin_public_routes_def exact_matchit_def convert_plain)
  then obtain r a1 where "rest_finalize (idp_env ()) plain_tower quiet_axum ok_handler ?a = (Ok r, a1)"
    by (simp add: rest_finalize_def apply_middleware_stack_def Let_def ingress_new_def registry_new_def
        protecting_config_def idp_ingress_config_def)
  then show ?thesis using second_start_serves_the_initial_router[of "idp_env ()" plain_tower quiet_axum ok_handler "[]"]
    by fastforce
qed

theorem burst_is_bounded_witness:
  "burst_passed id 0 200 (bucket_new 50 100 0) \<le> 100"
proof -
  have "rounding id" by (simp add: rounding_def mono_def)
  from burst_is_bounded[OF this, of 0 200 50 100 0] show ?thesis by simp
qed

end
