(* ===== verification/Nodes_Registry.thy ===== *)
theory Nodes_Registry
  imports Problem Security_Ctx "HOL-Library.Word"
begin

text \<open>
  The nodes registry: \<open>modules/nodes_registry/src/domain/node_storage.rs\<close> (the in-memory storage),
  \<open>domain/service.rs\<close> (caching and merging), \<open>domain/error.rs\<close>, \<open>contract/error.rs\<close>,
  \<open>gateways/local.rs\<close> and \<open>api/rest/handlers.rs\<close>, \<open>error.rs\<close>; and the collectors of
  \<open>libs/modkit-node-info/src\<close> (\<open>sysinfo_collector.rs\<close>, \<open>syscap_collector.rs\<close>,
  \<open>hardware_uuid.rs\<close>, \<open>collector.rs\<close>).

  What the operating system answers is the record \<open>os_view\<close>; \<open>'f\<close> is \<open>f64\<close>, with the operations
  the code uses in \<open>f64_ops\<close>. Timestamps of capabilities are 64-bit words (\<open>i64\<close> seconds), whose
  subtraction wraps; a \<open>DateTime\<close> is a number of nanoseconds. The DTOs of the REST layer copy every
  field and are identified with the values they copy.
\<close>

section \<open>Data\<close>

record node =
  nd_id :: uuid
  nd_hostname :: string
  nd_ip_address :: "string option"
  nd_created_at :: int
  nd_updated_at :: int

record os_info =
  oi_name :: string
  oi_version :: string
  oi_arch :: string

record 'f cpu_info =
  ci_model :: string
  ci_num_cpus :: "32 word"
  ci_cores :: "32 word"
  ci_frequency_mhz :: 'f

record memory_info =
  mi_total_bytes :: "64 word"
  mi_available_bytes :: "64 word"
  mi_used_bytes :: "64 word"
  mi_used_percent :: "32 word"

record host_info =
  hi_hostname :: string
  hi_uptime_seconds :: "64 word"
  hi_ip_addresses :: "string list"

record 'f gpu_info =
  gi_model :: string
  gi_cores :: "32 word option"
  gi_total_memory_mb :: "'f option"
  gi_used_memory_mb :: "'f option"

record battery_info =
  bi_on_battery :: bool
  bi_percentage :: "32 word"

record 'f node_sys_info =
  si_node_id :: uuid
  si_os :: os_info
  si_cpu :: "'f cpu_info"
  si_memory :: memory_info
  si_host :: host_info
  si_gpus :: "'f gpu_info list"
  si_battery :: "battery_info option"
  si_collected_at :: int

record 'f sys_cap =
  sc_key :: string
  sc_category :: string
  sc_name :: string
  sc_display_name :: string
  sc_present :: bool
  sc_version :: "string option"
  sc_amount :: "'f option"
  sc_amount_dimension :: "string option"
  sc_details :: "string option"
  sc_cache_ttl_secs :: "64 word"
  sc_fetched_at_secs :: "64 word"

record 'f node_sys_cap =
  nc_node_id :: uuid
  nc_capabilities :: "'f sys_cap list"
  nc_collected_at :: int

section \<open>Collecting system information\<close>

record 'f f64_ops =
  f_of_u64 :: "64 word \<Rightarrow> 'f"
  f_of_u32 :: "32 word \<Rightarrow> 'f"
  f_add :: "'f \<Rightarrow> 'f \<Rightarrow> 'f"
  f_mul :: "'f \<Rightarrow> 'f \<Rightarrow> 'f"
  f_div :: "'f \<Rightarrow> 'f \<Rightarrow> 'f"
  f_clamp :: "'f \<Rightarrow> 'f \<Rightarrow> 'f \<Rightarrow> 'f"
  f_as_u32 :: "'f \<Rightarrow> 32 word"
  f_show :: "nat \<Rightarrow> 'f \<Rightarrow> string"

text \<open>The answers of the operating system at one collection. \<open>ov_charge\<close> is the state of charge of
  the first battery, as \<open>f64\<close>, and whether it discharges.\<close>

record 'f os_view =
  ov_name :: "string option"
  ov_version :: "string option"
  ov_os_const :: string
  ov_arch_const :: string
  ov_cpus :: "(string \<times> 64 word) list"
  ov_physical_cores :: "nat option"
  ov_total_memory :: "64 word"
  ov_available_memory :: "64 word"
  ov_used_memory :: "64 word"
  ov_hostname :: "string option"
  ov_uptime :: "64 word"
  ov_local_ip :: "string option"
  ov_netifs :: "(string \<times> bool) list option"
  ov_gpus :: "'f gpu_info list"
  ov_charge :: "('f \<times> bool) option"
  ov_now :: int

text \<open>\<open>used * 100\<close> wraps in a build without overflow checks.\<close>

definition calculate_percent :: "64 word \<Rightarrow> 64 word \<Rightarrow> 32 word" where
  "calculate_percent used tot =
     (if tot = 0 then 0 else let percent = used * 100 div tot in word_of_nat (unat (min percent 100)))"

definition u32_of_len :: "nat \<Rightarrow> 32 word" where
  "u32_of_len n = (if n < 2 ^ 32 then word_of_nat n else - 1)"

definition collect_os_info :: "'f os_view \<Rightarrow> os_info" where
  "collect_os_info v =
     \<lparr>oi_name = (case ov_name v of Some n \<Rightarrow> n | None \<Rightarrow> ov_os_const v),
      oi_version = (case ov_version v of Some n \<Rightarrow> n | None \<Rightarrow> ''unknown''),
      oi_arch = ov_arch_const v\<rparr>"

definition collect_cpu_info :: "'f f64_ops \<Rightarrow> 'f os_view \<Rightarrow> 'f cpu_info" where
  "collect_cpu_info fo v =
     \<lparr>ci_model = (case ov_cpus v of cpu # _ \<Rightarrow> fst cpu | [] \<Rightarrow> ''Unknown''),
      ci_num_cpus = u32_of_len (length (ov_cpus v)),
      ci_cores = u32_of_len (case ov_physical_cores v of Some n \<Rightarrow> n | None \<Rightarrow> length (ov_cpus v)),
      ci_frequency_mhz =
        (if ov_cpus v = [] then f_of_u64 fo 0
         else f_div fo (foldl (\<lambda>a cpu. f_add fo a (f_of_u64 fo (snd cpu))) (f_of_u64 fo 0) (ov_cpus v))
                (f_of_u64 fo (word_of_nat (length (ov_cpus v)))))\<rparr>"

definition collect_memory_info :: "'f os_view \<Rightarrow> memory_info" where
  "collect_memory_info v =
     \<lparr>mi_total_bytes = ov_total_memory v, mi_available_bytes = ov_available_memory v,
      mi_used_bytes = ov_used_memory v,
      mi_used_percent = calculate_percent (ov_used_memory v) (ov_total_memory v)\<rparr>"

definition collect_ips :: "(string \<times> bool) list \<Rightarrow> string list \<Rightarrow> string list" where
  "collect_ips netifs ips =
     fold (\<lambda>(ip, loopback) ips. if ip \<notin> set ips \<and> \<not> loopback then ips @ [ip] else ips) netifs ips"

definition collect_host_info :: "'f os_view \<Rightarrow> host_info" where
  "collect_host_info v =
     \<lparr>hi_hostname = (case ov_hostname v of Some h \<Rightarrow> h | None \<Rightarrow> ''unknown''),
      hi_uptime_seconds = ov_uptime v,
      hi_ip_addresses =
        (let primary = (case ov_local_ip v of Some ip \<Rightarrow> [ip] | None \<Rightarrow> [])
         in case ov_netifs v of Some netifs \<Rightarrow> collect_ips netifs primary | None \<Rightarrow> primary)\<rparr>"

definition collect_battery_info :: "'f f64_ops \<Rightarrow> 'f os_view \<Rightarrow> battery_info option" where
  "collect_battery_info fo v =
     (case ov_charge v of
        None \<Rightarrow> None
      | Some (charge, discharging) \<Rightarrow>
          Some \<lparr>bi_on_battery = discharging,
            bi_percentage = f_as_u32 fo (f_clamp fo (f_of_u32 fo 0) (f_of_u32 fo 100) (f_mul fo charge (f_of_u32 fo 100)))\<rparr>)"

definition sysinfo_collect :: "'f f64_ops \<Rightarrow> 'f os_view \<Rightarrow> uuid \<Rightarrow> 'f node_sys_info" where
  "sysinfo_collect fo v node_id =
     \<lparr>si_node_id = node_id, si_os = collect_os_info v, si_cpu = collect_cpu_info fo v,
      si_memory = collect_memory_info v, si_host = collect_host_info v, si_gpus = ov_gpus v,
      si_battery = collect_battery_info fo v, si_collected_at = ov_now v\<rparr>"

section \<open>Collecting capabilities\<close>

definition cap_new :: "string \<Rightarrow> string \<Rightarrow> string \<Rightarrow> string \<Rightarrow> 'f sys_cap" where
  "cap_new key category name display =
     \<lparr>sc_key = key, sc_category = category, sc_name = name, sc_display_name = display, sc_present = True,
      sc_version = None, sc_amount = None, sc_amount_dimension = None, sc_details = None,
      sc_cache_ttl_secs = 300, sc_fetched_at_secs = 0\<rparr>"

definition bytes_to_gb :: "'f f64_ops \<Rightarrow> 64 word \<Rightarrow> 'f" where
  "bytes_to_gb fo b = f_div fo (f_of_u64 fo b) (f_of_u64 fo (1024 * 1024 * 1024))"

definition collect_hardware_caps :: "'f f64_ops \<Rightarrow> (string \<Rightarrow> string) \<Rightarrow> 'f node_sys_info \<Rightarrow> 'f sys_cap list" where
  "collect_hardware_caps fo to_uppercase si =
     (let arch = oi_arch (si_os si);
          gb = bytes_to_gb fo (mi_total_bytes (si_memory si));
          cpu = si_cpu si
      in [(cap_new (''hardware:'' @ arch) ''hardware'' arch (to_uppercase arch))
            \<lparr>sc_details := Some (arch @ '' architecture detected''), sc_cache_ttl_secs := 3600\<rparr>,
          (cap_new ''hardware:ram'' ''hardware'' ''ram'' ''RAM'')
            \<lparr>sc_amount := Some gb, sc_amount_dimension := Some ''GB'',
             sc_details := Some (''Total: '' @ f_show fo 2 gb @ '' GB, Used: '' @
               show_nat (unat (mi_used_percent (si_memory si))) @ ''%''),
             sc_cache_ttl_secs := 5\<rparr>,
          (cap_new ''hardware:cpu'' ''hardware'' ''cpu'' ''CPU'')
            \<lparr>sc_version := Some (ci_model cpu), sc_amount := Some (f_of_u32 fo (ci_cores cpu)),
             sc_amount_dimension := Some ''cores'',
             sc_details := Some (ci_model cpu @ '' with '' @ show_nat (unat (ci_cores cpu)) @ '' cores @ '' @
               f_show fo 0 (ci_frequency_mhz cpu) @ '' MHz''),
             sc_cache_ttl_secs := 600\<rparr>])"

definition collect_os_caps :: "string \<Rightarrow> 'f node_sys_info \<Rightarrow> 'f sys_cap list" where
  "collect_os_caps os si =
     [(cap_new (''os:'' @ os) ''os'' os
         (if os = ''macos'' then ''macOS'' else if os = ''linux'' then ''Linux''
          else if os = ''windows'' then ''Windows'' else os))
        \<lparr>sc_version := Some (oi_version (si_os si)),
         sc_details := Some (''Platform: '' @ oi_name (si_os si) @ '', Version: '' @ oi_version (si_os si) @
           '', Arch: '' @ oi_arch (si_os si)),
         sc_cache_ttl_secs := 120\<rparr>]"

definition gpu_cap :: "'f f64_ops \<Rightarrow> nat \<Rightarrow> 'f gpu_info \<Rightarrow> 'f sys_cap" where
  "gpu_cap fo i gpu =
     (let no = (if i = 0 then [] else show_nat i)
      in (cap_new (''hardware:gpu'' @ no) ''hardware'' (''gpu'' @ no) ''GPU'')
        \<lparr>sc_version := Some (gi_model gpu), sc_amount := gi_total_memory_mb gpu,
         sc_amount_dimension := (if gi_total_memory_mb gpu \<noteq> None then Some ''MB'' else None),
         sc_details := Some (''Model: '' @ gi_model gpu @
           (case gi_total_memory_mb gpu of Some vram \<Rightarrow> '', VRAM: '' @ f_show fo 0 vram @ '' MB'' | None \<Rightarrow> []) @
           (case gi_cores gpu of Some cores \<Rightarrow> '', Cores: '' @ show_nat (unat cores) | None \<Rightarrow> [])),
         sc_cache_ttl_secs := 10\<rparr>)"

definition collect_gpu_caps :: "'f f64_ops \<Rightarrow> 'f node_sys_info \<Rightarrow> 'f sys_cap list" where
  "collect_gpu_caps fo si = map (\<lambda>(i, gpu). gpu_cap fo i gpu) (enumerate 0 (si_gpus si))"

definition collect_battery_caps :: "'f f64_ops \<Rightarrow> 'f node_sys_info \<Rightarrow> 'f sys_cap list" where
  "collect_battery_caps fo si =
     (case si_battery si of
        None \<Rightarrow> []
      | Some b \<Rightarrow>
          [(cap_new ''hardware:battery'' ''hardware'' ''battery'' ''Battery'')
             \<lparr>sc_amount := Some (f_of_u32 fo (bi_percentage b)), sc_amount_dimension := Some ''percent'',
              sc_details := Some (''Status: '' @
                (if bi_on_battery b then ''discharging (on battery power)'' else ''charging'') @
                '', Level: '' @ show_nat (unat (bi_percentage b)) @ ''%''),
              sc_cache_ttl_secs := 3\<rparr>])"

text \<open>Each capability is stamped with its own reading of the clock: \<open>clock k\<close> is the one at the build
  of the capability number \<open>k\<close>.\<close>

definition syscap_collect ::
    "'f f64_ops \<Rightarrow> (string \<Rightarrow> string) \<Rightarrow> (nat \<Rightarrow> 64 word) \<Rightarrow> 'f os_view \<Rightarrow> uuid \<Rightarrow> 'f node_sys_cap" where
  "syscap_collect fo to_uppercase clock v node_id =
     (let si = sysinfo_collect fo v node_id;
          caps = collect_hardware_caps fo to_uppercase si @ collect_os_caps (ov_os_const v) si @
            collect_gpu_caps fo si @ collect_battery_caps fo si
      in \<lparr>nc_node_id = node_id,
          nc_capabilities = map (\<lambda>(k, c). c\<lparr>sc_fetched_at_secs := clock k\<rparr>) (enumerate 0 caps),
          nc_collected_at = ov_now v\<rparr>)"

datatype node_info_error =
    SysInfoCollectionFailed string
  | SysCapCollectionFailed string
  | HardwareUuidFailed string
  | InfoInternal string

fun show_node_info_error :: "node_info_error \<Rightarrow> string" where
  "show_node_info_error (SysInfoCollectionFailed m) = ''System information collection failed: '' @ m"
| "show_node_info_error (SysCapCollectionFailed m) = ''System capabilities collection failed: '' @ m"
| "show_node_info_error (HardwareUuidFailed m) = ''Failed to get hardware UUID: '' @ m"
| "show_node_info_error (InfoInternal m) = ''Internal error: '' @ m"

text \<open>The environment: the \<open>System\<close> handle behind its mutex (a poisoned mutex answers with the text of
  the error), the clock, and the case mapping. \<open>'w\<close> is the state of the outside world.\<close>

record ('f, 'w) info_env =
  ie_f64 :: "'f f64_ops"
  ie_uppercase :: "string \<Rightarrow> string"
  ie_lock :: "'w \<Rightarrow> ('f os_view, string) result"
  ie_clock :: "'w \<Rightarrow> nat \<Rightarrow> 64 word"
  ie_utc_now :: "'w \<Rightarrow> int"
  ie_tick :: "'w \<Rightarrow> 'w"

definition collect_sysinfo :: "('f, 'w) info_env \<Rightarrow> uuid \<Rightarrow> 'w \<Rightarrow> ('f node_sys_info, node_info_error) result \<times> 'w" where
  "collect_sysinfo env node_id w =
     (case ie_lock env w of
        Err e \<Rightarrow> (Err (SysInfoCollectionFailed (show_node_info_error (SysInfoCollectionFailed e))), ie_tick env w)
      | Ok v \<Rightarrow> (Ok (sysinfo_collect (ie_f64 env) v node_id), ie_tick env w))"

definition collect_syscap :: "('f, 'w) info_env \<Rightarrow> uuid \<Rightarrow> 'w \<Rightarrow> ('f node_sys_cap, node_info_error) result \<times> 'w" where
  "collect_syscap env node_id w =
     (case ie_lock env w of
        Err e \<Rightarrow> (Err (SysCapCollectionFailed (show_node_info_error (SysInfoCollectionFailed e))), ie_tick env w)
      | Ok v \<Rightarrow> (Ok (syscap_collect (ie_f64 env) (ie_uppercase env) (ie_clock env w) v node_id), ie_tick env w))"

text \<open>\<open>get_hardware_uuid\<close>: the machine id as a UUID, its hash, or eight zero bytes before eight
  bytes of a random UUID.\<close>

definition get_hardware_uuid ::
    "(string, string) result \<Rightarrow> (string \<Rightarrow> uuid option) \<Rightarrow> (string \<Rightarrow> uuid) \<Rightarrow> uuid \<Rightarrow> uuid" where
  "get_hardware_uuid machine_id parse_str v5_dns random =
     (case machine_id of
        Ok m \<Rightarrow> (case parse_str m of Some u \<Rightarrow> u | None \<Rightarrow> v5_dns (''node-hardware-id'' @ '':'' @ m))
      | Err _ \<Rightarrow> random mod 2 ^ 64)"

definition create_current_node :: "uuid \<Rightarrow> string option \<Rightarrow> string option \<Rightarrow> int \<Rightarrow> node" where
  "create_current_node hw_uuid host ip now =
     \<lparr>nd_id = hw_uuid, nd_hostname = (case host of Some h \<Rightarrow> h | None \<Rightarrow> ''unknown''), nd_ip_address = ip,
      nd_created_at = now, nd_updated_at = now\<rparr>"

definition is_fallback_uuid :: "uuid \<Rightarrow> bool" where
  "is_fallback_uuid u \<longleftrightarrow> u div 2 ^ 64 = 0"

section \<open>The storage\<close>

record 'f cached_node_data =
  cd_node :: node
  cd_sysinfo :: "'f node_sys_info option"
  cd_syscap_system :: "'f node_sys_cap option"
  cd_syscap_custom :: "(string \<times> 'f sys_cap) list"

text \<open>\<open>ns_poisoned\<close> is the state of the \<open>RwLock\<close>: a thread that panicked while it wrote poisons it.\<close>

record 'f node_storage =
  ns_poisoned :: bool
  ns_nodes :: "(uuid \<times> 'f cached_node_data) list"

definition storage_new :: "'f node_storage" where
  "storage_new = \<lparr>ns_poisoned = False, ns_nodes = []\<rparr>"

definition upsert_node :: "node \<Rightarrow> 'f node_storage \<Rightarrow> 'f node_storage" where
  "upsert_node n s =
     (if ns_poisoned s then s
      else s\<lparr>ns_nodes := AList.update (nd_id n)
        \<lparr>cd_node = n, cd_sysinfo = None, cd_syscap_system = None, cd_syscap_custom = []\<rparr> (ns_nodes s)\<rparr>)"

text \<open>\<open>nodes.read()\<close> followed by \<open>get\<close>.\<close>

definition node_data :: "'f node_storage \<Rightarrow> uuid \<Rightarrow> 'f cached_node_data option" where
  "node_data s i = (if ns_poisoned s then None else map_of (ns_nodes s) i)"

definition storage_get_node :: "'f node_storage \<Rightarrow> uuid \<Rightarrow> node option" where
  "storage_get_node s i = map_option cd_node (node_data s i)"

definition storage_list_nodes :: "'f node_storage \<Rightarrow> node list" where
  "storage_list_nodes s = (if ns_poisoned s then [] else map (cd_node \<circ> snd) (ns_nodes s))"

text \<open>\<open>nodes.write()\<close>, \<open>get_mut\<close> and a change of the entry; whether the entry was there.\<close>

definition write_node ::
    "uuid \<Rightarrow> ('f cached_node_data \<Rightarrow> 'f cached_node_data) \<Rightarrow> 'f node_storage \<Rightarrow> bool \<times> 'f node_storage" where
  "write_node i f s =
     (case node_data s i of
        Some d \<Rightarrow> (True, s\<lparr>ns_nodes := AList.update i (f d) (ns_nodes s)\<rparr>)
      | None \<Rightarrow> (False, s))"

definition update_sysinfo :: "uuid \<Rightarrow> 'f node_sys_info \<Rightarrow> 'f node_storage \<Rightarrow> bool \<times> 'f node_storage" where
  "update_sysinfo i si = write_node i (\<lambda>d. d\<lparr>cd_sysinfo := Some si\<rparr>)"

definition get_sysinfo :: "'f node_storage \<Rightarrow> uuid \<Rightarrow> 'f node_sys_info option" where
  "get_sysinfo s i = Option.bind (node_data s i) cd_sysinfo"

definition update_syscap_system :: "uuid \<Rightarrow> 'f node_sys_cap \<Rightarrow> 'f node_storage \<Rightarrow> bool \<times> 'f node_storage" where
  "update_syscap_system i c = write_node i (\<lambda>d. d\<lparr>cd_syscap_system := Some c\<rparr>)"

definition cap_map :: "'f cached_node_data \<Rightarrow> (string \<times> 'f sys_cap) list" where
  "cap_map d =
     (let m = (case cd_syscap_system d of
                 Some sys \<Rightarrow> fold (\<lambda>c. AList.update (sc_key c) c) (nc_capabilities sys) []
               | None \<Rightarrow> [])
      in fold (\<lambda>(k, c). AList.update k c) (cd_syscap_custom d) m)"

definition get_syscap :: "int \<Rightarrow> 'f node_storage \<Rightarrow> uuid \<Rightarrow> 'f node_sys_cap option" where
  "get_syscap now s i =
     (case node_data s i of
        None \<Rightarrow> None
      | Some d \<Rightarrow>
          (case cap_map d of
             [] \<Rightarrow> None
           | m \<Rightarrow> Some \<lparr>nc_node_id = i, nc_capabilities = map snd m, nc_collected_at = now\<rparr>))"

definition storage_set_custom :: "uuid \<Rightarrow> 'f sys_cap list \<Rightarrow> 'f node_storage \<Rightarrow> bool \<times> 'f node_storage" where
  "storage_set_custom i caps =
     write_node i (\<lambda>d. d\<lparr>cd_syscap_custom := fold (\<lambda>c. AList.update (sc_key c) c) caps (cd_syscap_custom d)\<rparr>)"

definition storage_remove_custom :: "uuid \<Rightarrow> string list \<Rightarrow> 'f node_storage \<Rightarrow> bool \<times> 'f node_storage" where
  "storage_remove_custom i keys =
     write_node i (\<lambda>d. d\<lparr>cd_syscap_custom := fold AList.delete keys (cd_syscap_custom d)\<rparr>)"

definition storage_clear_custom :: "uuid \<Rightarrow> 'f node_storage \<Rightarrow> bool \<times> 'f node_storage" where
  "storage_clear_custom i = write_node i (\<lambda>d. d\<lparr>cd_syscap_custom := []\<rparr>)"

text \<open>\<open>(now - fetched).max(0) as u64 >= ttl\<close> over \<open>i64\<close>.\<close>

definition cache_is_expired :: "64 word \<Rightarrow> 'f sys_cap \<Rightarrow> bool" where
  "cache_is_expired now c =
     (let d = now - sc_fetched_at_secs c; age = (if sint d < 0 then 0 else d)
      in sc_cache_ttl_secs c \<le> age)"

definition needs_syscap_refresh :: "64 word \<Rightarrow> 'f node_storage \<Rightarrow> uuid \<Rightarrow> string \<Rightarrow> bool" where
  "needs_syscap_refresh now s i key =
     (case Option.bind (node_data s i) cd_syscap_system of
        Some sys \<Rightarrow> list_ex (\<lambda>c. sc_key c = key \<and> cache_is_expired now c) (nc_capabilities sys)
      | None \<Rightarrow> True)"

definition get_expired_syscap_keys :: "64 word \<Rightarrow> 'f node_storage \<Rightarrow> uuid \<Rightarrow> string list" where
  "get_expired_syscap_keys now s i =
     (case Option.bind (node_data s i) cd_syscap_system of
        Some sys \<Rightarrow> map sc_key (filter (cache_is_expired now) (nc_capabilities sys))
      | None \<Rightarrow> [])"

section \<open>The service\<close>

datatype domain_error =
    NodeNotFound uuid
  | DomainSysInfoFailed string
  | DomainSysCapFailed string
  | InvalidInput string
  | DomainInternal string

fun domain_error_of_info :: "node_info_error \<Rightarrow> domain_error" where
  "domain_error_of_info (SysInfoCollectionFailed m) = DomainSysInfoFailed m"
| "domain_error_of_info (SysCapCollectionFailed m) = DomainSysCapFailed m"
| "domain_error_of_info (HardwareUuidFailed m) = DomainInternal (''Hardware UUID failed: '' @ m)"
| "domain_error_of_info (InfoInternal m) = DomainInternal m"

definition service_new :: "node \<Rightarrow> 'f node_storage" where
  "service_new current = upsert_node current storage_new"

definition service_get_node :: "'f node_storage \<Rightarrow> uuid \<Rightarrow> (node, domain_error) result" where
  "service_get_node s i = ok_or (NodeNotFound i) (storage_get_node s i)"

definition get_node_sysinfo ::
    "('f, 'w) info_env \<Rightarrow> uuid \<Rightarrow> 'f node_storage \<Rightarrow> 'w \<Rightarrow>
     ('f node_sys_info, domain_error) result \<times> 'f node_storage \<times> 'w" where
  "get_node_sysinfo env i s w =
     (if storage_get_node s i = None then (Err (NodeNotFound i), s, w)
      else
        case get_sysinfo s i of
          Some cached \<Rightarrow> (Ok cached, s, w)
        | None \<Rightarrow>
            (case collect_sysinfo env i w of
               (Err e, w) \<Rightarrow> (Err (domain_error_of_info e), s, w)
             | (Ok si, w) \<Rightarrow> (Ok si, snd (update_sysinfo i si s), w)))"

definition get_node_syscap ::
    "('f, 'w) info_env \<Rightarrow> uuid \<Rightarrow> bool \<Rightarrow> 'f node_storage \<Rightarrow> 'w \<Rightarrow>
     ('f node_sys_cap, domain_error) result \<times> 'f node_storage \<times> 'w" where
  "get_node_syscap env i force_refresh s w =
     (if storage_get_node s i = None then (Err (NodeNotFound i), s, w)
      else
        let needs_refresh = force_refresh \<or> get_expired_syscap_keys (ie_clock env w 0) s i \<noteq> [] \<or>
              get_syscap (ie_utc_now env w) s i = None;
            finish = (\<lambda>s w. (ok_or (DomainSysCapFailed ''Failed to get syscap after refresh'')
              (get_syscap (ie_utc_now env w) s i), s, w))
        in if needs_refresh then
             (case collect_syscap env i w of
                (Err e, w) \<Rightarrow> (Err (domain_error_of_info e), s, w)
              | (Ok sys, w) \<Rightarrow> finish (snd (update_syscap_system i sys s)) w)
           else finish s w)"

definition set_custom_syscap :: "uuid \<Rightarrow> 'f sys_cap list \<Rightarrow> 'f node_storage \<Rightarrow> (unit, domain_error) result \<times> 'f node_storage" where
  "set_custom_syscap i caps s =
     (case storage_set_custom i caps s of (found, s) \<Rightarrow> (if found then Ok () else Err (NodeNotFound i), s))"

definition remove_custom_syscap :: "uuid \<Rightarrow> string list \<Rightarrow> 'f node_storage \<Rightarrow> (unit, domain_error) result \<times> 'f node_storage" where
  "remove_custom_syscap i keys s =
     (case storage_remove_custom i keys s of (found, s) \<Rightarrow> (if found then Ok () else Err (NodeNotFound i), s))"

definition clear_custom_syscap :: "uuid \<Rightarrow> 'f node_storage \<Rightarrow> (unit, domain_error) result \<times> 'f node_storage" where
  "clear_custom_syscap i s =
     (case storage_clear_custom i s of (found, s) \<Rightarrow> (if found then Ok () else Err (NodeNotFound i), s))"

section \<open>The REST layer and the client\<close>

definition domain_error_to_problem :: "string option \<Rightarrow> (uuid \<Rightarrow> string) \<Rightarrow> domain_error \<Rightarrow> string \<Rightarrow> problem" where
  "domain_error_to_problem trace_id show_uuid e inst =
     (let mk = (\<lambda>status title detail code.
            with_instance inst (with_code code (with_type (''https://errors.hyperspot.com/'' @ code)
              (problem_new status title detail))));
          p = (case e of
             NodeNotFound i \<Rightarrow> mk 404 ''Node not found'' (''No node with id '' @ show_uuid i) ''NODES_NOT_FOUND''
           | DomainSysInfoFailed m \<Rightarrow> mk 500 ''System information collection failed'' m ''SYSINFO_COLLECTION_FAILED''
           | DomainSysCapFailed m \<Rightarrow> mk 500 ''System capabilities collection failed'' m ''SYSCAP_COLLECTION_FAILED''
           | InvalidInput m \<Rightarrow> mk 400 ''Validation error'' m ''VALIDATION_ERROR''
           | DomainInternal m \<Rightarrow> mk 500 ''Internal server error'' m ''INTERNAL_ERROR'')
      in case trace_id of Some t \<Rightarrow> with_trace_id t p | None \<Rightarrow> p)"

record 'f node_dto =
  dto_node :: node
  dto_sysinfo :: "'f node_sys_info option"
  dto_syscap :: "'f node_sys_cap option"

definition result_ok :: "('a, 'e) result \<Rightarrow> 'a option" where
  "result_ok r = (case r of Ok x \<Rightarrow> Some x | Err _ \<Rightarrow> None)"

definition node_details ::
    "('f, 'w) info_env \<Rightarrow> bool \<Rightarrow> node \<Rightarrow> uuid \<Rightarrow> 'f node_storage \<Rightarrow> 'w \<Rightarrow> 'f node_dto \<times> 'f node_storage \<times> 'w" where
  "node_details env force n i s w =
     (let (si, s1, w1) = get_node_sysinfo env i s w; (sc, s2, w2) = get_node_syscap env i force s1 w1
      in (\<lparr>dto_node = n, dto_sysinfo = result_ok si, dto_syscap = result_ok sc\<rparr>, s2, w2))"

fun detail_nodes ::
    "('f, 'w) info_env \<Rightarrow> bool \<Rightarrow> node list \<Rightarrow> 'f node_storage \<Rightarrow> 'w \<Rightarrow> 'f node_dto list \<times> 'f node_storage \<times> 'w" where
  "detail_nodes env force [] s w = ([], s, w)"
| "detail_nodes env force (n # ns) s w =
     (let (d, s1, w1) = node_details env force n (nd_id n) s w; (ds, s2, w2) = detail_nodes env force ns s1 w1
      in (d # ds, s2, w2))"

definition handle_list_nodes ::
    "('f, 'w) info_env \<Rightarrow> bool \<Rightarrow> bool \<Rightarrow> 'f node_storage \<Rightarrow> 'w \<Rightarrow> 'f node_dto list \<times> 'f node_storage \<times> 'w" where
  "handle_list_nodes env details force s w =
     (let ns = storage_list_nodes s
      in if details then detail_nodes env force ns s w
         else (map (\<lambda>n. \<lparr>dto_node = n, dto_sysinfo = None, dto_syscap = None\<rparr>) ns, s, w))"

definition handle_get_node ::
    "('f, 'w) info_env \<Rightarrow> uuid \<Rightarrow> bool \<Rightarrow> bool \<Rightarrow> 'f node_storage \<Rightarrow> 'w \<Rightarrow>
     ('f node_dto, domain_error) result \<times> 'f node_storage \<times> 'w" where
  "handle_get_node env i details force s w =
     (case service_get_node s i of
        Err e \<Rightarrow> (Err e, s, w)
      | Ok n \<Rightarrow>
          if details then (case node_details env force n i s w of (d, s, w) \<Rightarrow> (Ok d, s, w))
          else (Ok \<lparr>dto_node = n, dto_sysinfo = None, dto_syscap = None\<rparr>, s, w))"

datatype nodes_registry_error =
    ContractNodeNotFound uuid
  | ContractSysInfoFailed string
  | ContractSysCapFailed string
  | ContractValidation string
  | ContractInternal

fun contract_error :: "domain_error \<Rightarrow> nodes_registry_error" where
  "contract_error (NodeNotFound i) = ContractNodeNotFound i"
| "contract_error (DomainSysInfoFailed m) = ContractSysInfoFailed m"
| "contract_error (DomainSysCapFailed m) = ContractSysCapFailed m"
| "contract_error (InvalidInput m) = ContractValidation m"
| "contract_error (DomainInternal m) = ContractInternal"

definition client_get_node :: "'f node_storage \<Rightarrow> uuid \<Rightarrow> (node, nodes_registry_error) result" where
  "client_get_node s i = map_err contract_error (service_get_node s i)"

definition client_get_node_sysinfo ::
    "('f, 'w) info_env \<Rightarrow> uuid \<Rightarrow> 'f node_storage \<Rightarrow> 'w \<Rightarrow>
     ('f node_sys_info, nodes_registry_error) result \<times> 'f node_storage \<times> 'w" where
  "client_get_node_sysinfo env i s w = (case get_node_sysinfo env i s w of (r, s, w) \<Rightarrow> (map_err contract_error r, s, w))"

definition client_get_node_syscap ::
    "('f, 'w) info_env \<Rightarrow> uuid \<Rightarrow> 'f node_storage \<Rightarrow> 'w \<Rightarrow>
     ('f node_sys_cap, nodes_registry_error) result \<times> 'f node_storage \<times> 'w" where
  "client_get_node_syscap env i s w = (case get_node_syscap env i False s w of (r, s, w) \<Rightarrow> (map_err contract_error r, s, w))"

section \<open>Steps of the registry\<close>

inductive registry_step :: "('f, 'w) info_env \<Rightarrow> 'f node_storage \<Rightarrow> 'f node_storage \<Rightarrow> bool" for env where
  step_sysinfo: "get_node_sysinfo env i s w = (r, s', w') \<Longrightarrow> registry_step env s s'"
| step_syscap: "get_node_syscap env i force s w = (r, s', w') \<Longrightarrow> registry_step env s s'"
| step_set: "set_custom_syscap i caps s = (r, s') \<Longrightarrow> registry_step env s s'"
| step_remove: "remove_custom_syscap i keys s = (r, s') \<Longrightarrow> registry_step env s s'"
| step_clear: "clear_custom_syscap i s = (r, s') \<Longrightarrow> registry_step env s s'"

inductive registry_run :: "('f, 'w) info_env \<Rightarrow> 'f node_storage \<Rightarrow> 'f node_storage \<Rightarrow> bool" for env where
  run_refl: "registry_run env s s"
| run_step: "registry_run env s s' \<Longrightarrow> registry_step env s' s'' \<Longrightarrow> registry_run env s s''"

definition wf_node_data :: "uuid \<Rightarrow> 'f cached_node_data \<Rightarrow> bool" where
  "wf_node_data i d \<longleftrightarrow>
     nd_id (cd_node d) = i \<and> (\<forall>si. cd_sysinfo d = Some si \<longrightarrow> si_node_id si = i) \<and>
     (\<forall>c. cd_syscap_system d = Some c \<longrightarrow> nc_node_id c = i) \<and>
     distinct (map fst (cd_syscap_custom d)) \<and> (\<forall>(k, c) \<in> set (cd_syscap_custom d). sc_key c = k)"

definition wf_storage :: "'f node_storage \<Rightarrow> bool" where
  "wf_storage s \<longleftrightarrow>
     \<not> ns_poisoned s \<and> distinct (map fst (ns_nodes s)) \<and> (\<forall>(i, d) \<in> set (ns_nodes s). wf_node_data i d)"

section \<open>Lemmas\<close>

lemma find_over_append: "find P (xs @ ys) = (case find P xs of Some x \<Rightarrow> Some x | None \<Rightarrow> find P ys)"
  by (induction xs) auto

lemma map_of_fold_update:
  "map_of (fold (\<lambda>x. AList.update (f x) (g x)) xs m) k =
     (case find (\<lambda>x. f x = k) (rev xs) of Some x \<Rightarrow> Some (g x) | None \<Rightarrow> map_of m k)"
  by (induction xs arbitrary: m) (auto simp: find_over_append update_conv' split: option.splits)

lemma distinct_fold_update:
  "distinct (map fst m) \<Longrightarrow> distinct (map fst (fold (\<lambda>x. AList.update (f x) (g x)) xs m))"
  by (induction xs arbitrary: m) (auto intro: distinct_update)

lemma set_map_of: "distinct (map fst m) \<Longrightarrow> p \<in> set m \<longleftrightarrow> map_of m (fst p) = Some (snd p)"
  by (cases p) simp

lemma set_fold_update:
  assumes "distinct (map fst m)" "(k, v) \<in> set (fold (\<lambda>x. AList.update (f x) (g x)) xs m)"
  shows "(k, v) \<in> set m \<or> (\<exists>x \<in> set xs. k = f x \<and> v = g x)"
  using assms map_of_fold_update[of f g xs m k]
  by (auto simp: set_map_of[OF distinct_fold_update] find_Some_iff split: option.splits)
    (metis in_set_conv_nth length_rev set_rev)

lemma distinct_fold_delete: "distinct (map fst m) \<Longrightarrow> distinct (map fst (fold AList.delete ks m))"
  by (induction ks arbitrary: m) (auto simp: distinct_delete)

lemma set_fold_delete: "p \<in> set (fold AList.delete ks m) \<Longrightarrow> p \<in> set m"
proof (induction ks arbitrary: m)
  case (Cons k ks)
  then have "p \<in> set (AList.delete k m)" by simp
  then show ?case by (simp add: AList.delete_eq)
qed simp

lemma write_node_found:
  assumes "node_data s i = Some d"
  shows "write_node i f s = (True, s\<lparr>ns_nodes := AList.update i (f d) (ns_nodes s)\<rparr>)"
  using assms by (simp add: write_node_def)

lemma wf_node_data_of: "wf_storage s \<Longrightarrow> node_data s i = Some d \<Longrightarrow> wf_node_data i d"
  by (auto simp: wf_storage_def node_data_def dest: map_of_SomeD split: if_splits)

lemma wf_write_node:
  assumes "wf_storage s" "\<And>d. node_data s i = Some d \<Longrightarrow> wf_node_data i d \<Longrightarrow> wf_node_data i (f d)"
  shows "wf_storage (snd (write_node i f s))"
proof (cases "node_data s i")
  case None
  with assms(1) show ?thesis by (simp add: write_node_def)
next
  case (Some d)
  have "(j, e) \<in> set (AList.update i (f d) (ns_nodes s)) \<Longrightarrow> wf_node_data j e" for j e
    using assms(1) assms(2)[OF Some wf_node_data_of[OF assms(1) Some]]
      set_fold_update[of "ns_nodes s" j e "\<lambda>_. i" "\<lambda>_. f d" "[()]"]
    by (auto simp: wf_storage_def)
  with assms(1) show ?thesis by (auto simp: write_node_found[OF Some] wf_storage_def intro: distinct_update)
qed

lemma wf_service_new: "wf_storage (service_new n)"
  by (simp add: service_new_def upsert_node_def storage_new_def wf_storage_def wf_node_data_def)

lemma collected_ids:
  "collect_sysinfo env i w = (Ok si, w') \<Longrightarrow> si_node_id si = i"
  "collect_syscap env i w = (Ok sc, w') \<Longrightarrow> nc_node_id sc = i"
  by (auto simp: collect_sysinfo_def collect_syscap_def sysinfo_collect_def syscap_collect_def Let_def split: result.splits)

lemma wf_update_sysinfo: "wf_storage s \<Longrightarrow> si_node_id si = i \<Longrightarrow> wf_storage (snd (update_sysinfo i si s))"
  unfolding update_sysinfo_def by (rule wf_write_node) (auto simp: wf_node_data_def)

lemma wf_update_syscap: "wf_storage s \<Longrightarrow> nc_node_id c = i \<Longrightarrow> wf_storage (snd (update_syscap_system i c s))"
  unfolding update_syscap_system_def by (rule wf_write_node) (auto simp: wf_node_data_def)

lemma wf_set_custom: "wf_storage s \<Longrightarrow> wf_storage (snd (storage_set_custom i caps s))"
  unfolding storage_set_custom_def
  by (rule wf_write_node) (auto simp: wf_node_data_def distinct_fold_update dest!: set_fold_update[rotated])

lemma wf_remove_custom: "wf_storage s \<Longrightarrow> wf_storage (snd (storage_remove_custom i ks s))"
  unfolding storage_remove_custom_def
  by (rule wf_write_node) (auto simp: wf_node_data_def distinct_fold_delete dest!: set_fold_delete)

lemma wf_clear_custom: "wf_storage s \<Longrightarrow> wf_storage (snd (storage_clear_custom i s))"
  unfolding storage_clear_custom_def by (rule wf_write_node) (auto simp: wf_node_data_def)

lemma service_keeps_wf:
  "wf_storage s \<Longrightarrow> get_node_sysinfo env i s w = (r, s', w') \<Longrightarrow> wf_storage s'"
  "wf_storage s \<Longrightarrow> get_node_syscap env i force s w = (q, s', w') \<Longrightarrow> wf_storage s'"
  by (auto simp: get_node_sysinfo_def get_node_syscap_def Let_def wf_update_sysinfo wf_update_syscap collected_ids
      split: if_splits option.splits result.splits prod.splits)

lemma step_keeps_wf: "registry_step env s s' \<Longrightarrow> wf_storage s \<Longrightarrow> wf_storage s'"
proof (induction rule: registry_step.induct)
  case (step_set i caps s r s')
  then show ?case using wf_set_custom[of s i caps] by (auto simp: set_custom_syscap_def split: prod.splits)
next
  case (step_remove i keys s r s')
  then show ?case using wf_remove_custom[of s i keys] by (auto simp: remove_custom_syscap_def split: prod.splits)
next
  case (step_clear i s r s')
  then show ?case using wf_clear_custom[of s i] by (auto simp: clear_custom_syscap_def split: prod.splits)
qed (simp_all add: service_keeps_wf(1)[rotated] service_keeps_wf(2)[rotated])

lemma run_keeps_wf: "registry_run env s s' \<Longrightarrow> wf_storage s \<Longrightarrow> wf_storage s'"
  by (induction rule: registry_run.induct) (auto dest: step_keeps_wf)

text \<open>The merged map: its keys are distinct, each value is under its own key, the custom entries win.\<close>

lemma cap_map_lookup:
  assumes "wf_node_data i d"
  shows "map_of (cap_map d) k =
    (case map_of (cd_syscap_custom d) k of
       Some c \<Rightarrow> Some c
     | None \<Rightarrow> find (\<lambda>c. sc_key c = k) (rev (case cd_syscap_system d of Some sys \<Rightarrow> nc_capabilities sys | None \<Rightarrow> [])))"
proof -
  have "find (\<lambda>x. fst x = k) (rev cs) = (case map_of cs k of Some c \<Rightarrow> Some (k, c) | None \<Rightarrow> None)"
    if "distinct (map fst cs)" for cs :: "(string \<times> 'a sys_cap) list"
    using that by (induction cs) (auto simp: find_over_append image_iff split: option.splits)
  with assms show ?thesis
    by (auto simp: cap_map_def wf_node_data_def case_prod_beta' map_of_fold_update[where f = fst and g = snd]
        map_of_fold_update[where f = sc_key and g = "\<lambda>c. c"] split: option.splits)
qed

lemma cap_map_distinct: "distinct (map fst (cap_map d))"
  by (auto simp: cap_map_def case_prod_beta' intro!: distinct_fold_update split: option.splits)

lemma get_syscap_Some:
  assumes "get_syscap now s i = Some r" "wf_storage s"
  obtains d where "node_data s i = Some d" "wf_node_data i d"
    "r = \<lparr>nc_node_id = i, nc_capabilities = map snd (cap_map d), nc_collected_at = now\<rparr>" "cap_map d \<noteq> []"
  using assms wf_node_data_of[OF assms(2)] by (auto simp: get_syscap_def split: option.splits list.splits)

lemma cap_map_member:
  assumes "wf_node_data i d" "(k, c) \<in> set (cap_map d)"
  shows "k = sc_key c \<and> ((k, c) \<in> set (cd_syscap_custom d) \<or>
    k \<notin> fst ` set (cd_syscap_custom d) \<and> (\<exists>sys. cd_syscap_system d = Some sys \<and> c \<in> set (nc_capabilities sys)))"
proof -
  have "map_of (cap_map d) k = Some c" using assms(2) by (rule map_of_is_SomeI[OF cap_map_distinct])
  with assms(1) show ?thesis
    by (auto simp: cap_map_lookup[OF assms(1)] wf_node_data_def find_Some_iff map_of_eq_None_iff
        dest!: map_of_SomeD split: option.splits) (metis length_rev nth_mem set_rev)+
qed

lemma custom_member:
  assumes "wf_node_data i d" "(k, c) \<in> set (cd_syscap_custom d)"
  shows "c \<in> snd ` set (cap_map d)"
proof -
  have "map_of (cap_map d) k = Some c" using assms by (simp add: cap_map_lookup[OF assms(1)] wf_node_data_def)
  then show ?thesis by (force dest: map_of_SomeD)
qed

lemma cap_map_keys: "wf_node_data i d \<Longrightarrow> map (sc_key \<circ> snd) (cap_map d) = map fst (cap_map d)"
  using cap_map_member[of i d] by auto

lemma custom_answers:
  assumes "wf_node_data i d" "node_data s i = Some d" "cd_syscap_custom d \<noteq> []"
  shows "get_syscap now s i \<noteq> None"
proof -
  obtain k c where "(k, c) \<in> set (cd_syscap_custom d)" using assms(3) by (cases "cd_syscap_custom d") auto
  then have "cap_map d \<noteq> []" using custom_member[OF assms(1)] by force
  with assms(2) show ?thesis by (simp add: get_syscap_def split: list.splits)
qed

text \<open>How an answer of \<open>get_node_syscap\<close> comes about.\<close>

lemma get_node_syscap_Ok:
  assumes "get_node_syscap env i force s w = (Ok r, s', w')" "wf_storage s" "node_data s i = Some d"
  obtains (fresh) sys where "collect_syscap env i w = (Ok sys, w')"
      "r = \<lparr>nc_node_id = i, nc_capabilities = map snd (cap_map (d\<lparr>cd_syscap_system := Some sys\<rparr>)),
        nc_collected_at = ie_utc_now env w'\<rparr>" "wf_node_data i (d\<lparr>cd_syscap_system := Some sys\<rparr>)"
  | (cached) "w' = w" "s' = s" "\<not> force" "get_expired_syscap_keys (ie_clock env w 0) s i = []"
      "r = \<lparr>nc_node_id = i, nc_capabilities = map snd (cap_map d), nc_collected_at = ie_utc_now env w\<rparr>"
proof (cases "force \<or> get_expired_syscap_keys (ie_clock env w 0) s i \<noteq> [] \<or> get_syscap (ie_utc_now env w) s i = None")
  case False
  then show ?thesis
    using assms(1,3) by (intro cached)
      (auto simp: get_node_syscap_def get_syscap_def split: if_splits option.splits list.splits)
next
  case True
  then obtain sys where c: "collect_syscap env i w = (Ok sys, w')"
    "get_syscap (ie_utc_now env w') (snd (update_syscap_system i sys s)) i = Some r"
    using assms(1,3) by (auto simp: get_node_syscap_def storage_get_node_def split: result.splits prod.splits)
  let ?d = "d\<lparr>cd_syscap_system := Some sys\<rparr>"
  have d: "node_data (snd (update_syscap_system i sys s)) i = Some ?d"
    using assms(3) by (simp add: update_syscap_system_def write_node_found) (auto simp: node_data_def update_conv' split: if_splits)
  have w: "wf_storage (snd (update_syscap_system i sys s))"
    using assms(2) collected_ids(2)[OF c(1)] by (rule wf_update_syscap)
  show ?thesis using get_syscap_Some[OF c(2) w] d c(1) by (intro fresh) auto
qed

lemma unexpired:
  "get_expired_syscap_keys now s i = [] \<Longrightarrow> node_data s i = Some d \<Longrightarrow> cd_syscap_system d = Some sys \<Longrightarrow>
    c \<in> set (nc_capabilities sys) \<Longrightarrow> \<not> cache_is_expired now c"
  by (auto simp: get_expired_syscap_keys_def filter_empty_conv)

text \<open>What a merged answer holds.\<close>

lemma merged_answer:
  assumes "wf_node_data i d"
  shows "distinct (map sc_key (map snd (cap_map d)))"
    and "snd ` set (cd_syscap_custom d) \<subseteq> set (map snd (cap_map d))"
    and "c \<in> set (map snd (cap_map d)) \<Longrightarrow> c \<in> snd ` set (cd_syscap_custom d) \<or>
      (\<exists>sys. cd_syscap_system d = Some sys \<and> c \<in> set (nc_capabilities sys))"
proof -
  show "distinct (map sc_key (map snd (cap_map d)))" unfolding map_map cap_map_keys[OF assms] by (rule cap_map_distinct)
  show "snd ` set (cd_syscap_custom d) \<subseteq> set (map snd (cap_map d))" using custom_member[OF assms] by auto
  show "c \<in> set (map snd (cap_map d)) \<Longrightarrow> c \<in> snd ` set (cd_syscap_custom d) \<or>
      (\<exists>sys. cd_syscap_system d = Some sys \<and> c \<in> set (nc_capabilities sys))"
    using cap_map_member[OF assms] by force
qed

text \<open>No step but the first answer changes the system information of a node.\<close>

lemma write_keeps_sysinfo:
  assumes "node_data s i = Some d" "cd_sysinfo d = Some si" "\<And>e. cd_sysinfo (f e) = cd_sysinfo e"
  shows "\<exists>d'. node_data (snd (write_node j f s)) i = Some d' \<and> cd_sysinfo d' = Some si"
  using assms by (auto simp: write_node_def node_data_def update_conv' split: option.splits if_splits)

definition has_sysinfo :: "'f node_storage \<Rightarrow> uuid \<Rightarrow> 'f node_sys_info \<Rightarrow> bool" where
  "has_sysinfo s i si \<longleftrightarrow> (\<exists>d. node_data s i = Some d \<and> cd_sysinfo d = Some si)"

lemma step_keeps_sysinfo: "registry_step env s s' \<Longrightarrow> has_sysinfo s i si \<Longrightarrow> has_sysinfo s' i si"
proof (induction rule: registry_step.induct)
  case (step_sysinfo j s w r s' w')
  then show ?case
    by (auto simp: has_sysinfo_def get_node_sysinfo_def storage_get_node_def get_sysinfo_def update_sysinfo_def
        write_node_def node_data_def update_conv' split: if_splits option.splits result.splits prod.splits)
next
  case (step_syscap j force s w r s' w')
  then have "s' = s \<or> (\<exists>sys. s' = snd (update_syscap_system j sys s))"
    by (auto simp: get_node_syscap_def Let_def split: if_splits result.splits prod.splits)
  with step_syscap show ?case using write_keeps_sysinfo[of s i _ si "\<lambda>d. d\<lparr>cd_syscap_system := Some _\<rparr>" j]
    by (auto simp: has_sysinfo_def update_syscap_system_def)
next
  case (step_set j caps s r s')
  then have "s' = snd (storage_set_custom j caps s)" by (auto simp: set_custom_syscap_def split: prod.splits)
  with step_set show ?case by (auto simp: has_sysinfo_def storage_set_custom_def intro: write_keeps_sysinfo)
next
  case (step_remove j keys s r s')
  then have "s' = snd (storage_remove_custom j keys s)" by (auto simp: remove_custom_syscap_def split: prod.splits)
  with step_remove show ?case by (auto simp: has_sysinfo_def storage_remove_custom_def intro: write_keeps_sysinfo)
next
  case (step_clear j s r s')
  then have "s' = snd (storage_clear_custom j s)" by (auto simp: clear_custom_syscap_def split: prod.splits)
  with step_clear show ?case by (auto simp: has_sysinfo_def storage_clear_custom_def intro: write_keeps_sysinfo)
qed

lemma run_keeps_sysinfo: "registry_run env s s' \<Longrightarrow> has_sysinfo s i si \<Longrightarrow> has_sysinfo s' i si"
  by (induction rule: registry_run.induct) (auto dest: step_keeps_sysinfo)

lemma has_sysinfo_cached: "has_sysinfo s i si \<Longrightarrow> get_node_sysinfo env i s w = (Ok si, s, w)"
  by (auto simp: has_sysinfo_def get_node_sysinfo_def storage_get_node_def get_sysinfo_def)

lemma answered_sysinfo:
  assumes "get_node_sysinfo env i s w = (Ok si, s', w')" "wf_storage s"
  shows "has_sysinfo s' i si \<and> si_node_id si = i"
proof -
  obtain d where d: "node_data s i = Some d" using assms(1)
    by (auto simp: get_node_sysinfo_def storage_get_node_def split: if_splits)
  show ?thesis
  proof (cases "cd_sysinfo d")
    case None
    with assms(1) d show ?thesis
      by (auto simp: get_node_sysinfo_def storage_get_node_def get_sysinfo_def has_sysinfo_def update_sysinfo_def
          write_node_def node_data_def update_conv' split: if_splits result.splits prod.splits dest: collected_ids(1))
  next
    case (Some x)
    with assms(1) d wf_node_data_of[OF assms(2) d] show ?thesis
      by (auto simp: get_node_sysinfo_def storage_get_node_def get_sysinfo_def has_sysinfo_def wf_node_data_def)
  qed
qed

lemma percent_value:
  "t \<noteq> 0 \<Longrightarrow> unat (calculate_percent u t) = min 100 (unat (u * 100) div unat t)"
proof -
  assume t: "t \<noteq> 0"
  have "unat (min (u * 100 div t) 100) = min 100 (unat (u * 100) div unat t)"
    by (simp add: min_def word_le_nat_alt unat_div)
  moreover have "unat (word_of_nat n :: 32 word) = n" if "n \<le> 100" for n
    using that by (simp add: unat_of_nat)
  ultimately show ?thesis using t unfolding calculate_percent_def Let_def if_not_P[OF t] by (metis min.cobounded1)
qed

section \<open>Properties\<close>

text \<open>C36. Whatever was requested before, an answer of \<open>get_node_syscap\<close> lists every custom capability, each key once,
  and every other capability in it was collected by this call or had not expired when it started.\<close>

theorem served_capabilities_are_fresh:
  assumes "registry_run env (service_new n) s" "get_node_syscap env i force s w = (Ok r, s', w')"
  shows "nc_node_id r = i \<and> distinct (map sc_key (nc_capabilities r)) \<and>
    (\<exists>d. node_data s i = Some d \<and> snd ` set (cd_syscap_custom d) \<subseteq> set (nc_capabilities r) \<and>
      (\<forall>c \<in> set (nc_capabilities r). c \<in> snd ` set (cd_syscap_custom d) \<or>
        (\<exists>sys. collect_syscap env i w = (Ok sys, w') \<and> c \<in> set (nc_capabilities sys)) \<or>
        (\<exists>sys. cd_syscap_system d = Some sys \<and> c \<in> set (nc_capabilities sys) \<and> \<not> cache_is_expired (ie_clock env w 0) c)))"
proof -
  have wf: "wf_storage s" using assms(1) wf_service_new by (rule run_keeps_wf)
  obtain d where d: "node_data s i = Some d" using assms(2)
    by (auto simp: get_node_syscap_def storage_get_node_def split: if_splits)
  note wd = wf_node_data_of[OF wf d]
  from assms(2) wf d show ?thesis
  proof (cases rule: get_node_syscap_Ok)
    case (fresh sys)
    note m = merged_answer[OF fresh(3)]
    have "nc_node_id r = i" "nc_capabilities r = map snd (cap_map (d\<lparr>cd_syscap_system := Some sys\<rparr>))"
      using fresh(2) by simp_all
    moreover have "c \<in> snd ` set (cd_syscap_custom d) \<or> c \<in> set (nc_capabilities sys)" if "c \<in> set (nc_capabilities r)" for c
      using m(3)[of c] that fresh(2) by simp
    ultimately show ?thesis using d m(1,2) fresh(1) by auto
  next
    case cached
    note m = merged_answer[OF wd]
    have "nc_node_id r = i" "nc_capabilities r = map snd (cap_map d)" using cached(5) by simp_all
    moreover have "c \<in> snd ` set (cd_syscap_custom d) \<or>
        (\<exists>sys. cd_syscap_system d = Some sys \<and> c \<in> set (nc_capabilities sys) \<and> \<not> cache_is_expired (ie_clock env w 0) c)"
      if "c \<in> set (nc_capabilities r)" for c
      using m(3)[of c] that cached(5) unexpired[OF cached(4) d] by auto
    ultimately show ?thesis using d m(1,2) by auto
  qed
qed

text \<open>While a node has custom capabilities and its system was never asked, a request without
  \<open>force_refresh\<close> collects nothing and answers with the custom capabilities alone.\<close>

theorem custom_capabilities_hide_the_system:
  assumes "registry_run env (service_new n) s" "node_data s i = Some d"
    and "cd_syscap_system d = None" "cd_syscap_custom d \<noteq> []"
  shows "get_node_syscap env i False s w =
    (Ok \<lparr>nc_node_id = i, nc_capabilities = map snd (cap_map d), nc_collected_at = ie_utc_now env w\<rparr>, s, w) \<and>
    set (nc_capabilities \<lparr>nc_node_id = i, nc_capabilities = map snd (cap_map d), nc_collected_at = ie_utc_now env w\<rparr>) =
      snd ` set (cd_syscap_custom d)"
proof -
  have wd: "wf_node_data i d" using run_keeps_wf[OF assms(1) wf_service_new] assms(2) by (rule wf_node_data_of)
  have sub: "snd ` set (cap_map d) = snd ` set (cd_syscap_custom d)"
    using cap_map_member[OF wd] custom_member[OF wd] assms(3) by force
  then have "cap_map d \<noteq> []" using assms(4) by auto
  then have "get_syscap (ie_utc_now env w) s i =
      Some \<lparr>nc_node_id = i, nc_capabilities = map snd (cap_map d), nc_collected_at = ie_utc_now env w\<rparr>"
    using assms(2) by (simp add: get_syscap_def split: list.splits)
  with assms(2,3) sub show ?thesis
    by (simp add: get_node_syscap_def storage_get_node_def get_expired_syscap_keys_def)
qed

text \<open>System information is collected once: after the first answer every later one repeats it.\<close>

theorem sysinfo_is_collected_once:
  assumes "registry_run env (service_new n) s" "get_node_sysinfo env i s w = (Ok si, s', w')"
    and "registry_run env s' s2"
  shows "get_node_sysinfo env i s2 w2 = (Ok si, s2, w2) \<and> si_node_id si = i"
proof -
  have "has_sysinfo s' i si \<and> si_node_id si = i"
    using assms(2) run_keeps_wf[OF assms(1) wf_service_new] by (rule answered_sysinfo)
  then have "has_sysinfo s2 i si" "si_node_id si = i" using run_keeps_sysinfo[OF assms(3)] by simp_all
  then show ?thesis by (simp add: has_sysinfo_cached)
qed

text \<open>The memory percentage is at most 100, and exact while a hundred times the used bytes fit in 64 bits.\<close>

theorem memory_percent_bounds:
  "unat (calculate_percent u t) \<le> 100 \<and>
   (t \<noteq> 0 \<and> 100 * unat u < 2 ^ 64 \<longrightarrow> unat (calculate_percent u t) = min 100 (100 * unat u div unat t))"
proof (cases "t = 0")
  case True
  then show ?thesis by (simp add: calculate_percent_def)
next
  case False
  have "unat (u * 100) = 100 * unat u" if "100 * unat u < 2 ^ 64"
    using that by (simp add: unat_word_ariths mult.commute)
  then show ?thesis by (simp only: percent_value[OF False]) simp
qed

section \<open>Witnesses\<close>

text \<open>A machine that always answers, with the naturals for \<open>f64\<close>; its clock stands at 1000 seconds.\<close>

definition nat_ops :: "nat f64_ops" where
  "nat_ops = \<lparr>f_of_u64 = unat, f_of_u32 = unat, f_add = (+), f_mul = (*), f_div = (div),
     f_clamp = (\<lambda>lo hi x. max lo (min hi x)), f_as_u32 = word_of_nat, f_show = (\<lambda>_. show_nat)\<rparr>"

definition machine :: "nat os_view" where
  "machine = \<lparr>ov_name = Some ''Linux'', ov_version = None, ov_os_const = ''linux'', ov_arch_const = ''arm'',
     ov_cpus = [(''cpu'', 2000)], ov_physical_cores = None, ov_total_memory = 1000, ov_available_memory = 500,
     ov_used_memory = 500, ov_hostname = None, ov_uptime = 7, ov_local_ip = None, ov_netifs = None, ov_gpus = [],
     ov_charge = None, ov_now = 5\<rparr>"

definition machine_env :: "(nat, unit) info_env" where
  "machine_env = \<lparr>ie_f64 = nat_ops, ie_uppercase = (\<lambda>s. s), ie_lock = (\<lambda>_. Ok machine), ie_clock = (\<lambda>_ _. 1000),
     ie_utc_now = (\<lambda>_. 1000), ie_tick = (\<lambda>w. w)\<rparr>"

definition this_node :: node where
  "this_node = create_current_node 7 None None 0"

definition custom_cap :: "nat sys_cap" where
  "custom_cap = cap_new ''custom:x'' ''custom'' ''x'' ''X''"

definition customised :: "nat node_storage" where
  "customised = snd (set_custom_syscap 7 [custom_cap] (service_new this_node))"

lemma customised_run: "registry_run machine_env (service_new this_node) customised"
proof -
  have "set_custom_syscap 7 [custom_cap] (service_new this_node) = (Ok (), customised)" by code_simp
  then show ?thesis by (intro run_step[OF run_refl] step_set)
qed

theorem served_capabilities_are_fresh_witness:
  "\<exists>r. get_node_syscap machine_env 7 True customised () = (Ok r, snd (update_syscap_system 7
      (syscap_collect nat_ops (\<lambda>s. s) (\<lambda>_. 1000) machine 7) customised), ()) \<and> distinct (map sc_key (nc_capabilities r))"
proof -
  let ?s = "snd (update_syscap_system 7 (syscap_collect nat_ops (\<lambda>s. s) (\<lambda>_. 1000) machine 7) customised)"
  let ?d = "\<lparr>cd_node = this_node, cd_sysinfo = None, cd_syscap_system = None,
      cd_syscap_custom = [(''custom:x'', custom_cap)]\<rparr> :: nat cached_node_data"
  have d: "node_data customised 7 = Some ?d" by code_simp
  then have "node_data ?s 7 = Some (?d\<lparr>cd_syscap_system := Some (syscap_collect nat_ops (\<lambda>s. s) (\<lambda>_. 1000) machine 7)\<rparr>)"
    by (auto simp: update_syscap_system_def write_node_def node_data_def update_conv' split: if_splits)
  then have "get_syscap 1000 ?s 7 \<noteq> None"
    by (rule custom_answers[rotated])
      (simp_all add: wf_node_data_def this_node_def create_current_node_def custom_cap_def cap_new_def syscap_collect_def Let_def)
  with d obtain r where r: "get_node_syscap machine_env 7 True customised () = (Ok r, ?s, ())"
    by (auto simp: get_node_syscap_def collect_syscap_def machine_env_def storage_get_node_def)
  from served_capabilities_are_fresh[OF customised_run r] r show ?thesis by blast
qed

theorem custom_capabilities_hide_the_system_witness:
  "get_node_syscap machine_env 7 False customised () =
    (Ok \<lparr>nc_node_id = 7, nc_capabilities = [custom_cap], nc_collected_at = 1000\<rparr>, customised, ())"
proof -
  let ?d = "\<lparr>cd_node = this_node, cd_sysinfo = None, cd_syscap_system = None,
      cd_syscap_custom = [(''custom:x'', custom_cap)]\<rparr> :: nat cached_node_data"
  have "node_data customised 7 = Some ?d" "map snd (cap_map ?d) = [custom_cap]" by code_simp+
  with custom_capabilities_hide_the_system[OF customised_run, of 7 ?d "()"] show ?thesis by (simp add: machine_env_def)
qed

theorem sysinfo_is_collected_once_witness:
  "\<exists>s'. get_node_sysinfo machine_env 7 customised () = (Ok (sysinfo_collect nat_ops machine 7), s', ()) \<and>
    get_node_sysinfo machine_env 7 s' () = (Ok (sysinfo_collect nat_ops machine 7), s', ())"
proof -
  have "storage_get_node customised 7 \<noteq> None" "get_sysinfo customised 7 = None" by code_simp+
  then have r: "get_node_sysinfo machine_env 7 customised () =
      (Ok (sysinfo_collect nat_ops machine 7), snd (update_sysinfo 7 (sysinfo_collect nat_ops machine 7) customised), ())"
    by (simp add: get_node_sysinfo_def collect_sysinfo_def machine_env_def)
  with sysinfo_is_collected_once[OF customised_run r run_refl] show ?thesis by blast
qed

theorem memory_percent_bounds_witness: "unat (calculate_percent 500 1000) = 50"
  using memory_percent_bounds[of 500 1000] by simp

end
