(* ===== verification/Db_Config.thy ===== *)
theory Db_Config
  imports Json
begin

text \<open>
  Database configuration and the manager of the per-module handles: \<open>libs/modkit-db/src/config.rs\<close>,
  \<open>manager.rs\<close> and \<open>options.rs\<close>.

  A path is its text on Unix; \<open>serde\<close> reads a struct from an object as its attributes say (the positional form, a
  struct given as an array, is not modelled). The options of \<open>sqlx\<close> are recorded as the calls that build them.
  The environment variables, the file system, the parser of URLs, the parsers of the drivers and the connection itself are
  the fields of \<open>db_env\<close>; \<open>'w\<close> is the state of the outside world.
\<close>

section \<open>Configuration types\<close>

record pool_cfg =
  pc_max_conns :: "nat option"
  pc_min_conns :: "nat option"
  pc_acquire_timeout :: "nat option"
  pc_idle_timeout :: "nat option"
  pc_max_lifetime :: "nat option"
  pc_test_before_acquire :: "bool option"

definition default_pool :: pool_cfg where
  "default_pool = \<lparr>pc_max_conns = None, pc_min_conns = None, pc_acquire_timeout = None, pc_idle_timeout = None,
     pc_max_lifetime = None, pc_test_before_acquire = None\<rparr>"

record db_conn_config =
  dc_dsn :: "string option"
  dc_host :: "string option"
  dc_port :: "nat option"
  dc_user :: "string option"
  dc_password :: "string option"
  dc_dbname :: "string option"
  dc_params :: "(string \<times> string) list option"
  dc_file :: "string option"
  dc_path :: "string option"
  dc_pool :: "pool_cfg option"
  dc_server :: "string option"

record global_database_config =
  gd_servers :: "(string \<times> db_conn_config) list"
  gd_auto_provision :: "bool option"

subsection \<open>Reading and writing JSON\<close>

text \<open>A field of type \<open>Option\<close>: absent or null is \<open>None\<close>.\<close>

definition opt_field :: "(json \<Rightarrow> 'a option) \<Rightarrow> string \<Rightarrow> (string \<times> json) list \<Rightarrow> 'a option option" where
  "opt_field f k fs =
     (case map_of fs k of
        None \<Rightarrow> Some None
      | Some v \<Rightarrow> if is_null v then Some None else map_option Some (f v))"

definition known_fields :: "string list \<Rightarrow> (string \<times> json) list \<Rightarrow> bool" where
  "known_fields ks fs \<longleftrightarrow> set (map fst fs) \<subseteq> set ks"

definition as_uint :: "nat \<Rightarrow> json \<Rightarrow> nat option" where
  "as_uint w j = (case j of JInt i \<Rightarrow> if 0 \<le> i \<and> i < 2 ^ w then Some (nat i) else None | _ \<Rightarrow> None)"

fun all_some :: "('a \<Rightarrow> 'b option) \<Rightarrow> 'a list \<Rightarrow> 'b list option" where
  "all_some f [] = Some []"
| "all_some f (x # xs) =
     (case f x of None \<Rightarrow> None | Some y \<Rightarrow> map_option (Cons y) (all_some f xs))"

definition as_map :: "(json \<Rightarrow> 'a option) \<Rightarrow> json \<Rightarrow> (string \<times> 'a) list option" where
  "as_map f j =
     (case j of JObject fs \<Rightarrow> all_some (\<lambda>(k, v). map_option (Pair k) (f v)) fs | _ \<Rightarrow> None)"

definition pool_of_json :: "(string \<Rightarrow> nat option) \<Rightarrow> json \<Rightarrow> pool_cfg option" where
  "pool_of_json parse_duration j =
     (let dur = (\<lambda>v. Option.bind (as_str v) parse_duration)
      in case j of
        JObject fs \<Rightarrow>
          if \<not> known_fields [''max_conns'', ''min_conns'', ''acquire_timeout'', ''idle_timeout'', ''max_lifetime'',
               ''test_before_acquire''] fs then None
          else
            Option.bind (opt_field (as_uint 32) ''max_conns'' fs) (\<lambda>mx.
            Option.bind (opt_field (as_uint 32) ''min_conns'' fs) (\<lambda>mn.
            Option.bind (opt_field dur ''acquire_timeout'' fs) (\<lambda>acq.
            Option.bind (opt_field dur ''idle_timeout'' fs) (\<lambda>idle.
            Option.bind (opt_field dur ''max_lifetime'' fs) (\<lambda>life.
            Option.bind (opt_field as_bool ''test_before_acquire'' fs) (\<lambda>test.
              Some \<lparr>pc_max_conns = mx, pc_min_conns = mn, pc_acquire_timeout = acq, pc_idle_timeout = idle,
                pc_max_lifetime = life, pc_test_before_acquire = test\<rparr>))))))
      | _ \<Rightarrow> None)"

definition conn_fields :: "string list" where
  "conn_fields = [''dsn'', ''host'', ''port'', ''user'', ''password'', ''dbname'', ''params'', ''file'', ''path'',
     ''pool'', ''server'']"

definition conn_of_json :: "(string \<Rightarrow> nat option) \<Rightarrow> json \<Rightarrow> db_conn_config option" where
  "conn_of_json parse_duration j =
     (case j of
        JObject fs \<Rightarrow>
          if \<not> known_fields conn_fields fs then None
          else
            Option.bind (opt_field as_str ''dsn'' fs) (\<lambda>dsn.
            Option.bind (opt_field as_str ''host'' fs) (\<lambda>host.
            Option.bind (opt_field (as_uint 16) ''port'' fs) (\<lambda>port.
            Option.bind (opt_field as_str ''user'' fs) (\<lambda>user.
            Option.bind (opt_field as_str ''password'' fs) (\<lambda>password.
            Option.bind (opt_field as_str ''dbname'' fs) (\<lambda>dbname.
            Option.bind (opt_field (as_map as_str) ''params'' fs) (\<lambda>params.
            Option.bind (opt_field as_str ''file'' fs) (\<lambda>file.
            Option.bind (opt_field as_str ''path'' fs) (\<lambda>path.
            Option.bind (opt_field (pool_of_json parse_duration) ''pool'' fs) (\<lambda>pool.
            Option.bind (opt_field as_str ''server'' fs) (\<lambda>server.
              Some \<lparr>dc_dsn = dsn, dc_host = host, dc_port = port, dc_user = user, dc_password = password,
                dc_dbname = dbname, dc_params = params, dc_file = file, dc_path = path, dc_pool = pool,
                dc_server = server\<rparr>)))))))))))
      | _ \<Rightarrow> None)"

definition global_of_json :: "(string \<Rightarrow> nat option) \<Rightarrow> json \<Rightarrow> global_database_config option" where
  "global_of_json parse_duration j =
     (case j of
        JObject fs \<Rightarrow>
          if \<not> known_fields [''servers'', ''auto_provision''] fs then None
          else
            Option.bind (case map_of fs ''servers'' of None \<Rightarrow> Some [] | Some v \<Rightarrow> as_map (conn_of_json parse_duration) v) (\<lambda>servers.
            Option.bind (opt_field as_bool ''auto_provision'' fs) (\<lambda>auto.
              Some \<lparr>gd_servers = servers, gd_auto_provision = auto\<rparr>))
      | _ \<Rightarrow> None)"

text \<open>\<open>serde_json::to_value\<close>: every field is written, \<open>None\<close> as null.\<close>

definition opt_json :: "('a \<Rightarrow> json) \<Rightarrow> 'a option \<Rightarrow> json" where
  "opt_json f x = (case x of None \<Rightarrow> JNull | Some v \<Rightarrow> f v)"

definition uint_json :: "nat \<Rightarrow> json" where
  "uint_json n = JInt (int n)"

definition pool_to_json :: "(nat \<Rightarrow> string) \<Rightarrow> pool_cfg \<Rightarrow> json" where
  "pool_to_json show_duration p = JObject
     [(''max_conns'', opt_json uint_json (pc_max_conns p)),
      (''min_conns'', opt_json uint_json (pc_min_conns p)),
      (''acquire_timeout'', opt_json (\<lambda>d. JString (show_duration d)) (pc_acquire_timeout p)),
      (''idle_timeout'', opt_json (\<lambda>d. JString (show_duration d)) (pc_idle_timeout p)),
      (''max_lifetime'', opt_json (\<lambda>d. JString (show_duration d)) (pc_max_lifetime p)),
      (''test_before_acquire'', opt_json JBool (pc_test_before_acquire p))]"

definition conn_to_json :: "(nat \<Rightarrow> string) \<Rightarrow> db_conn_config \<Rightarrow> json" where
  "conn_to_json show_duration c = JObject
     [(''dsn'', opt_json JString (dc_dsn c)), (''host'', opt_json JString (dc_host c)),
      (''port'', opt_json uint_json (dc_port c)), (''user'', opt_json JString (dc_user c)),
      (''password'', opt_json JString (dc_password c)), (''dbname'', opt_json JString (dc_dbname c)),
      (''params'', opt_json (\<lambda>ps. JObject (map (\<lambda>(k, v). (k, JString v)) ps)) (dc_params c)),
      (''file'', opt_json JString (dc_file c)), (''path'', opt_json JString (dc_path c)),
      (''pool'', opt_json (pool_to_json show_duration) (dc_pool c)),
      (''server'', opt_json JString (dc_server c))]"

definition global_to_json :: "(nat \<Rightarrow> string) \<Rightarrow> global_database_config \<Rightarrow> json" where
  "global_to_json show_duration g = JObject
     [(''servers'', JObject (map (\<lambda>(k, c). (k, conn_to_json show_duration c)) (gd_servers g))),
      (''auto_provision'', opt_json JBool (gd_auto_provision g))]"

section \<open>Errors and connection options\<close>

datatype db_error =
    FeatureDisabled string
  | InvalidConfig string
  | ConfigConflict string
  | InvalidSqlitePragma string string
  | UnknownSqlitePragma string
  | InvalidParameter string
  | EnvVarError string
  | UrlParseError string
  | SqlxError string
  | DbIoError string

datatype server_call =
    CallHost string | CallPort nat | CallUsername string | CallPassword string | CallDatabase string
  | CallOption string string

datatype connect_options =
    SqliteOptions string "(string \<times> string) list"
  | PgOptions "string option" "server_call list"
  | MySqlOptions "string option" "server_call list"

datatype db_engine = Postgres | MySql | Sqlite

datatype pool_call =
    MaxConnections nat | MinConnections nat | AcquireTimeout nat | IdleTimeout nat | MaxLifetime nat | TestBeforeAcquire bool

definition apply_pool :: "pool_cfg \<Rightarrow> pool_call list" where
  "apply_pool p =
     (case pc_max_conns p of Some n \<Rightarrow> [MaxConnections n] | None \<Rightarrow> []) @
     (case pc_min_conns p of Some n \<Rightarrow> [MinConnections n] | None \<Rightarrow> []) @
     (case pc_acquire_timeout p of Some d \<Rightarrow> [AcquireTimeout d] | None \<Rightarrow> []) @
     (case pc_idle_timeout p of Some d \<Rightarrow> [IdleTimeout d] | None \<Rightarrow> []) @
     (case pc_max_lifetime p of Some d \<Rightarrow> [MaxLifetime d] | None \<Rightarrow> []) @
     (case pc_test_before_acquire p of Some b \<Rightarrow> [TestBeforeAcquire b] | None \<Rightarrow> [])"

record 'w db_env =
  de_var :: "string \<Rightarrow> (string, string) result"
  de_create_parent :: "string \<Rightarrow> 'w \<Rightarrow> (unit, string) result \<times> 'w"
  de_parent_exists :: "string \<Rightarrow> 'w \<Rightarrow> bool option"
  de_parent_text :: "string \<Rightarrow> string"
  de_url_scheme :: "string \<Rightarrow> (string, string) result"
  de_driver_parse :: "db_engine \<Rightarrow> string \<Rightarrow> (unit, string) result"
  de_feature :: "db_engine \<Rightarrow> bool"
  de_connect :: "connect_options \<Rightarrow> pool_call list \<Rightarrow> 'w \<Rightarrow> (nat, string) result \<times> 'w"
  de_duration :: "string \<Rightarrow> nat option"

section \<open>Environment variables\<close>

text \<open>A match of \<open>\$\{([A-Za-z_][A-Za-z0-9_]*)\}\<close> at the start: the variable and the rest.\<close>

definition ident_start :: "char \<Rightarrow> bool" where
  "ident_start c \<longleftrightarrow>
     (let n = of_char c :: nat in (65 \<le> n \<and> n \<le> 90) \<or> (97 \<le> n \<and> n \<le> 122) \<or> n = 95)"

definition ident_char :: "char \<Rightarrow> bool" where
  "ident_char c \<longleftrightarrow> ident_start c \<or> (let n = of_char c :: nat in 48 \<le> n \<and> n \<le> 57)"

definition match_var :: "string \<Rightarrow> (string \<times> string) option" where
  "match_var s =
     (case strip_prefix [CHR 0x24, CHR 0x7B] s of
        None \<Rightarrow> None
      | Some t \<Rightarrow>
          (let name = takeWhile ident_char t
           in case name of
                [] \<Rightarrow> None
              | c # _ \<Rightarrow>
                  if ident_start c then
                    (case dropWhile ident_char t of r # rest \<Rightarrow> if r = CHR 0x7D then Some (name, rest) else None | [] \<Rightarrow> None)
                  else None))"

definition var_ref :: "string \<Rightarrow> string" where
  "var_ref x = [CHR 0x24, CHR 0x7B] @ x @ [CHR 0x7D]"

lemma strip_prefix_length: "strip_prefix p s = Some r \<Longrightarrow> length s = length p + length r"
  by (induction p s rule: strip_prefix.induct) (auto split: if_splits)

lemma match_var_shorter: "match_var s = Some (x, r) \<Longrightarrow> length r < length s"
proof -
  assume m: "match_var s = Some (x, r)"
  then obtain t c where t: "strip_prefix [CHR 0x24, CHR 0x7B] s = Some t" "dropWhile ident_char t = c # r"
    by (auto simp: match_var_def Let_def split: option.splits list.splits if_splits)
  moreover have "length (dropWhile ident_char t) \<le> length t" by (rule length_dropWhile_le)
  ultimately show ?thesis using strip_prefix_length[OF t(1)] by simp
qed

text \<open>\<open>captures_iter\<close>: the variables of the matches from left to right, without overlap.\<close>

function captures :: "string \<Rightarrow> string list" where
  "captures s =
     (case s of
        [] \<Rightarrow> []
      | _ # cs \<Rightarrow> (case match_var s of Some (x, r) \<Rightarrow> x # captures r | None \<Rightarrow> captures cs))"
  by pat_completeness auto
termination
  by (relation "measure length") (auto dest: match_var_shorter)

declare captures.simps [simp del]

text \<open>\<open>str::replace\<close> with a pattern that is not empty.\<close>

function replace_all :: "string \<Rightarrow> string \<Rightarrow> string \<Rightarrow> string" where
  "replace_all pat rep s =
     (if pat = [] then s
      else
        case strip_prefix pat s of
          Some r \<Rightarrow> rep @ replace_all pat rep r
        | None \<Rightarrow> (case s of [] \<Rightarrow> [] | c # cs \<Rightarrow> c # replace_all pat rep cs))"
  by pat_completeness auto
termination
  by (relation "measure (\<lambda>(pat, rep, s). length s)") (auto dest!: strip_prefix_length)

declare replace_all.simps [simp del]

fun expand_all :: "(string \<Rightarrow> (string, string) result) \<Rightarrow> string list \<Rightarrow> string \<Rightarrow> (string, db_error) result" where
  "expand_all var [] s = Ok s"
| "expand_all var (x # xs) s =
     and_then (map_err EnvVarError (var x)) (\<lambda>v. expand_all var xs (replace_all (var_ref x) v s))"

definition expand_env_vars :: "(string \<Rightarrow> (string, string) result) \<Rightarrow> string \<Rightarrow> (string, db_error) result" where
  "expand_env_vars var input = expand_all var (captures input) input"

definition resolve_password :: "(string \<Rightarrow> (string, string) result) \<Rightarrow> string \<Rightarrow> (string, db_error) result" where
  "resolve_password var password =
     (if starts_with [CHR 0x24, CHR 0x7B] password \<and> ends_with [CHR 0x7D] password then
        map_err EnvVarError (var (take (length password - 3) (drop 2 password)))
      else Ok password)"

section \<open>SQLite pragmas\<close>

text \<open>\<open>str::to_uppercase\<close> on U+0000 .. U+00FF. The upper case of U+00B5 and U+00FF lies outside that range; they are
  kept, which changes no comparison with an ASCII keyword.\<close>

definition upper_char :: "char \<Rightarrow> string" where
  "upper_char c =
     (let n = of_char c :: nat
      in if n = 223 then ''SS''
         else if (97 \<le> n \<and> n \<le> 122) \<or> (224 \<le> n \<and> n \<le> 254 \<and> n \<noteq> 247) then [char_of (n - 32)] else [c])"

definition to_uppercase :: "string \<Rightarrow> string" where
  "to_uppercase s = concat (map upper_char s)"

definition ALLOWED_PRAGMAS :: "string list" where
  "ALLOWED_PRAGMAS = [''wal'', ''synchronous'', ''busy_timeout'', ''journal_mode'']"

definition validate_wal_pragma :: "string \<Rightarrow> (string, db_error) result" where
  "validate_wal_pragma v =
     (let l = to_lowercase v
      in if l = ''true'' \<or> l = ''1'' then Ok ''WAL''
         else if l = ''false'' \<or> l = ''0'' then Ok ''DELETE''
         else Err (InvalidSqlitePragma ''wal'' (''must be true/false/1/0, got '' @ quoted v)))"

definition SYNC_MODES :: "string list" where
  "SYNC_MODES = [''OFF'', ''NORMAL'', ''FULL'', ''EXTRA'']"

definition validate_synchronous_pragma :: "string \<Rightarrow> (string, db_error) result" where
  "validate_synchronous_pragma v =
     (if to_uppercase v \<in> set SYNC_MODES then Ok (to_uppercase v)
      else Err (InvalidSqlitePragma ''synchronous'' (''must be OFF/NORMAL/FULL/EXTRA, got '' @ quoted v)))"

definition validate_busy_timeout_pragma :: "string \<Rightarrow> (int, db_error) result" where
  "validate_busy_timeout_pragma v =
     (case parse_i64 v of
        None \<Rightarrow> Err (InvalidSqlitePragma ''busy_timeout'' (''must be a non-negative integer, got '' @ quoted v))
      | Some t \<Rightarrow>
          if t < 0 then Err (InvalidSqlitePragma ''busy_timeout'' (''must be non-negative, got '' @ quoted (show_int t)))
          else Ok t)"

definition JOURNAL_MODES :: "string list" where
  "JOURNAL_MODES = [''DELETE'', ''WAL'', ''MEMORY'', ''TRUNCATE'', ''PERSIST'', ''OFF'']"

definition validate_journal_mode_pragma :: "string \<Rightarrow> (string, db_error) result" where
  "validate_journal_mode_pragma v =
     (if to_uppercase v \<in> set JOURNAL_MODES then Ok (to_uppercase v)
      else Err (InvalidSqlitePragma ''journal_mode''
        (''must be DELETE/WAL/MEMORY/TRUNCATE/PERSIST/OFF, got '' @ quoted v)))"

definition pragma_of :: "string \<Rightarrow> string \<Rightarrow> (string \<times> string, db_error) result" where
  "pragma_of key v =
     (let k = to_lowercase key
      in if k \<notin> set ALLOWED_PRAGMAS then Err (UnknownSqlitePragma key)
         else if k = ''wal'' then and_then (validate_wal_pragma v) (\<lambda>m. Ok (''journal_mode'', m))
         else if k = ''journal_mode'' then and_then (validate_journal_mode_pragma v) (\<lambda>m. Ok (''journal_mode'', m))
         else if k = ''synchronous'' then and_then (validate_synchronous_pragma v) (\<lambda>m. Ok (''synchronous'', m))
         else and_then (validate_busy_timeout_pragma v) (\<lambda>t. Ok (''busy_timeout'', show_int t)))"

definition apply_pragmas :: "(string \<times> string) list \<Rightarrow> ((string \<times> string) list, db_error) result" where
  "apply_pragmas params = collect (\<lambda>(k, v). pragma_of k v) params"

section \<open>Connection options\<close>

text \<open>\<open>Path::is_absolute\<close> and \<open>Path::join\<close> on Unix.\<close>

definition is_absolute :: "string \<Rightarrow> bool" where
  "is_absolute p = starts_with ''/'' p"

definition path_join :: "string \<Rightarrow> string \<Rightarrow> string" where
  "path_join base p =
     (if is_absolute p then p else if base = [] \<or> ends_with ''/'' base then base @ p else base @ ''/'' @ p)"

definition before_query :: "string \<Rightarrow> string" where
  "before_query s = takeWhile (\<lambda>c. c \<noteq> CHR 0x3F) s"

definition parse_sqlite_path_from_dsn :: "string \<Rightarrow> (string, db_error) result" where
  "parse_sqlite_path_from_dsn dsn =
     (case strip_prefix ''sqlite:'' dsn of
        Some part \<Rightarrow> Ok (before_query (case strip_prefix ''//'' part of Some q \<Rightarrow> q | None \<Rightarrow> part))
      | None \<Rightarrow> Err (InvalidParameter (''Invalid SQLite DSN: '' @ dsn)))"

definition build_sqlite_options ::
    "'w db_env \<Rightarrow> db_conn_config \<Rightarrow> 'w \<Rightarrow> (connect_options, db_error) result \<times> 'w" where
  "build_sqlite_options env cfg w =
     (if \<not> de_feature env Sqlite then (Err (FeatureDisabled ''SQLite feature not enabled''), w)
      else
        let db_path = (case dc_dsn cfg of
              Some dsn \<Rightarrow> parse_sqlite_path_from_dsn dsn
            | None \<Rightarrow>
                (case dc_path cfg of
                   Some path \<Rightarrow> Ok path
                 | None \<Rightarrow> Err (InvalidParameter
                     (if dc_file cfg \<noteq> None then ''File path should have been resolved to absolute path''
                      else ''SQLite connection requires either DSN, path, or file''))))
        in case db_path of
          Err e \<Rightarrow> (Err e, w)
        | Ok path \<Rightarrow>
            (case de_create_parent env path w of
               (Err e, w) \<Rightarrow> (Err (DbIoError e), w)
             | (Ok _, w) \<Rightarrow>
                 (and_then (case dc_params cfg of Some ps \<Rightarrow> apply_pragmas ps | None \<Rightarrow> Ok [])
                    (\<lambda>pragmas. Ok (SqliteOptions path pragmas)), w)))"

definition field_calls :: "db_conn_config \<Rightarrow> server_call list" where
  "field_calls cfg =
     (case dc_host cfg of Some h \<Rightarrow> [CallHost h] | None \<Rightarrow> []) @
     (case dc_port cfg of Some p \<Rightarrow> [CallPort p] | None \<Rightarrow> []) @
     (case dc_user cfg of Some u \<Rightarrow> [CallUsername u] | None \<Rightarrow> []) @
     (case dc_password cfg of Some p \<Rightarrow> [CallPassword p] | None \<Rightarrow> []) @
     (case dc_dbname cfg of Some d \<Rightarrow> [CallDatabase d] | None \<Rightarrow> [])"

definition server_base :: "'w db_env \<Rightarrow> db_engine \<Rightarrow> db_conn_config \<Rightarrow> (unit, db_error) result" where
  "server_base env engine cfg =
     (case dc_dsn cfg of Some dsn \<Rightarrow> map_err InvalidParameter (de_driver_parse env engine dsn) | None \<Rightarrow> Ok ())"

definition build_server_options :: "'w db_env \<Rightarrow> db_conn_config \<Rightarrow> (connect_options, db_error) result" where
  "build_server_options env cfg =
     and_then (case dc_dsn cfg of Some dsn \<Rightarrow> map_err UrlParseError (de_url_scheme env dsn) | None \<Rightarrow> Ok ''postgresql'') (\<lambda>scheme.
       if scheme = ''postgresql'' \<or> scheme = ''postgres'' then
         (if \<not> de_feature env Postgres then Err (FeatureDisabled ''PostgreSQL feature not enabled'')
          else
            and_then (server_base env Postgres cfg) (\<lambda>_.
              if dc_dbname cfg = None \<and> dc_dsn cfg = None
              then Err (InvalidParameter ''dbname is required for PostgreSQL connections'')
              else Ok (PgOptions (dc_dsn cfg) (field_calls cfg @
                (case dc_params cfg of Some ps \<Rightarrow> map (\<lambda>(k, v). CallOption k v) ps | None \<Rightarrow> [])))))
       else if scheme = ''mysql'' then
         (if \<not> de_feature env MySql then Err (FeatureDisabled ''MySQL feature not enabled'')
          else
            and_then (server_base env MySql cfg) (\<lambda>_.
              if dc_dbname cfg = None \<and> dc_dsn cfg = None
              then Err (InvalidParameter ''dbname is required for MySQL connections'')
              else Ok (MySqlOptions (dc_dsn cfg) (field_calls cfg))))
       else Err (InvalidParameter (''Unsupported database scheme: '' @ scheme)))"

definition validate_config_consistency :: "db_conn_config \<Rightarrow> (unit, db_error) result" where
  "validate_config_consistency cfg =
     (let sqlite_fields = dc_file cfg \<noteq> None \<or> dc_path cfg \<noteq> None;
          server_fields = dc_host cfg \<noteq> None \<or> dc_port cfg \<noteq> None
      in and_then (case dc_dsn cfg of
             None \<Rightarrow> Ok ()
           | Some dsn \<Rightarrow>
               if starts_with ''sqlite'' dsn \<and> server_fields
               then Err (ConfigConflict ''SQLite DSN cannot be used with host/port fields'')
               else if \<not> starts_with ''sqlite'' dsn \<and> sqlite_fields
               then Err (ConfigConflict ''Non-SQLite DSN cannot be used with file/path fields'')
               else Ok ()) (\<lambda>_.
         if dc_file cfg \<noteq> None \<and> dc_path cfg \<noteq> None
         then Err (ConfigConflict ''Cannot specify both 'file' and 'path' for SQLite - use one or the other'')
         else if sqlite_fields \<and> server_fields
         then Err (ConfigConflict ''SQLite file/path fields cannot be used with host/port fields'')
         else Ok ()))"

text \<open>The expansions at the head of \<open>build_db_handle\<close>.\<close>

definition opt_result :: "('a \<Rightarrow> ('b, 'e) result) \<Rightarrow> 'a option \<Rightarrow> ('b option, 'e) result" where
  "opt_result f x = (case x of None \<Rightarrow> Ok None | Some v \<Rightarrow> and_then (f v) (\<lambda>y. Ok (Some y)))"

fun contains_str :: "string \<Rightarrow> string \<Rightarrow> bool" where
  "contains_str pat [] = (pat = [])"
| "contains_str pat (c # cs) = (starts_with pat (c # cs) \<or> contains_str pat cs)"

definition expand_config :: "(string \<Rightarrow> (string, string) result) \<Rightarrow> db_conn_config \<Rightarrow> (db_conn_config, db_error) result" where
  "expand_config var cfg =
     and_then (opt_result (expand_env_vars var) (dc_dsn cfg)) (\<lambda>dsn.
     and_then (opt_result (resolve_password var) (dc_password cfg)) (\<lambda>password.
     and_then (opt_result (collect (\<lambda>(k, v).
         and_then (if contains_str [CHR 0x24, CHR 0x7B] v then expand_env_vars var v else Ok v) (\<lambda>v. Ok (k, v))))
         (dc_params cfg)) (\<lambda>params.
       Ok (cfg\<lparr>dc_dsn := dsn, dc_password := password, dc_params := params\<rparr>))))"

definition config_is_sqlite :: "db_conn_config \<Rightarrow> bool" where
  "config_is_sqlite cfg \<longleftrightarrow>
     dc_file cfg \<noteq> None \<or> dc_path cfg \<noteq> None \<or>
     (case dc_dsn cfg of Some dsn \<Rightarrow> starts_with ''sqlite'' dsn | None \<Rightarrow> False) \<or>
     (dc_server cfg = None \<and> dc_dsn cfg = None)"

definition build_db_handle :: "'w db_env \<Rightarrow> db_conn_config \<Rightarrow> 'w \<Rightarrow> (nat, db_error) result \<times> 'w" where
  "build_db_handle env cfg0 w0 =
     (case and_then (expand_config (de_var env) cfg0) (\<lambda>cfg.
             and_then (validate_config_consistency cfg) (\<lambda>_. Ok cfg)) of
        Err e \<Rightarrow> (Err e, w0)
      | Ok cfg \<Rightarrow>
          (case (if config_is_sqlite cfg then build_sqlite_options env cfg w0 else (build_server_options env cfg, w0)) of
             (Err e, w) \<Rightarrow> (Err e, w)
           | (Ok opts, w) \<Rightarrow>
               (case de_connect env opts (apply_pool (case dc_pool cfg of Some p \<Rightarrow> p | None \<Rightarrow> default_pool)) w of
                  (Err e, w) \<Rightarrow> (Err (SqlxError e), w)
                | (Ok h, w) \<Rightarrow> (Ok h, w))))"

section \<open>The manager\<close>

record db_manager =
  dm_global :: "global_database_config option"
  dm_data :: json
  dm_home :: string
  dm_cache :: "(string \<times> nat) list"

text \<open>\<open>data\<close> is what \<open>figment.extract()\<close> yields, an empty object when it fails.\<close>

definition from_figment :: "(string \<Rightarrow> nat option) \<Rightarrow> json option \<Rightarrow> string \<Rightarrow> db_manager" where
  "from_figment parse_duration extracted home =
     (let data = (case extracted of Some j \<Rightarrow> j | None \<Rightarrow> JObject [])
      in \<lparr>dm_global = Option.bind (jget ''database'' data) (global_of_json parse_duration), dm_data = data,
          dm_home = home, dm_cache = []\<rparr>)"

definition or_opt :: "'a option \<Rightarrow> 'a option \<Rightarrow> 'a option" where
  "or_opt x y = (case x of None \<Rightarrow> y | Some v \<Rightarrow> Some v)"

definition merge_params ::
    "(string \<times> string) list option \<Rightarrow> (string \<times> string) list option \<Rightarrow> (string \<times> string) list option" where
  "merge_params module server =
     (case (module, server) of
        (Some mp, Some sp) \<Rightarrow> Some (fold (\<lambda>(k, v) m. if map_of m k = None then m @ [(k, v)] else m) sp mp)
      | (None, Some sp) \<Rightarrow> Some sp
      | (mp, None) \<Rightarrow> mp)"

definition merge_server_into_module :: "db_conn_config \<Rightarrow> db_conn_config \<Rightarrow> db_conn_config" where
  "merge_server_into_module m s = m
     \<lparr>dc_dsn := or_opt (dc_dsn m) (dc_dsn s), dc_host := or_opt (dc_host m) (dc_host s),
      dc_port := or_opt (dc_port m) (dc_port s), dc_user := or_opt (dc_user m) (dc_user s),
      dc_password := or_opt (dc_password m) (dc_password s), dc_dbname := or_opt (dc_dbname m) (dc_dbname s),
      dc_params := merge_params (dc_params m) (dc_params s), dc_pool := or_opt (dc_pool m) (dc_pool s)\<rparr>"

definition prepare_parent :: "'w db_env \<Rightarrow> bool \<Rightarrow> string \<Rightarrow> 'w \<Rightarrow> (unit, db_error) result \<times> 'w" where
  "prepare_parent env auto_provision path w =
     (if auto_provision then (case de_create_parent env path w of (r, w) \<Rightarrow> (map_err DbIoError r, w))
      else
        (if de_parent_exists env path w = Some False
         then Err (DbIoError (''Directory does not exist and auto_provision is disabled: '' @ de_parent_text env path))
         else Ok (), w))"

definition auto_provision :: "db_manager \<Rightarrow> bool" where
  "auto_provision mgr = (case Option.bind (dm_global mgr) gd_auto_provision of Some b \<Rightarrow> b | None \<Rightarrow> True)"

definition absolute_path :: "string \<Rightarrow> db_conn_config \<Rightarrow> db_conn_config" where
  "absolute_path home cfg =
     (case dc_path cfg of
        Some p \<Rightarrow> if is_absolute p then cfg else cfg\<lparr>dc_path := Some (path_join home p)\<rparr>
      | None \<Rightarrow> cfg)"

definition finalize_sqlite_paths ::
    "'w db_env \<Rightarrow> db_manager \<Rightarrow> db_conn_config \<Rightarrow> string \<Rightarrow> 'w \<Rightarrow> (db_conn_config, db_error) result \<times> 'w" where
  "finalize_sqlite_paths env mgr cfg module_home w =
     (case dc_file cfg of
        None \<Rightarrow> (Ok (absolute_path module_home cfg), w)
      | Some file \<Rightarrow>
          (let path = path_join module_home file
           in case prepare_parent env (auto_provision mgr) path w of
             (Err e, w) \<Rightarrow> (Err e, w)
           | (Ok _, w) \<Rightarrow> (Ok (absolute_path module_home (cfg\<lparr>dc_path := Some path, dc_file := None\<rparr>)), w)))"

definition module_db_config :: "'w db_env \<Rightarrow> db_manager \<Rightarrow> string \<Rightarrow> db_conn_config option" where
  "module_db_config env mgr module =
     Option.bind (jget ''modules'' (dm_data mgr)) (\<lambda>modules.
     Option.bind (jget module modules) (\<lambda>m.
     Option.bind (jget ''database'' m) (conn_of_json (de_duration env))))"

definition with_server :: "db_manager \<Rightarrow> db_conn_config \<Rightarrow> (db_conn_config, db_error) result" where
  "with_server mgr cfg =
     (case dc_server cfg of
        None \<Rightarrow> Ok cfg
      | Some name \<Rightarrow>
          (case Option.bind (dm_global mgr) (\<lambda>g. map_of (gd_servers g) name) of
             None \<Rightarrow> Err (InvalidConfig (''Referenced server '' @ quoted name @ '' not found in global database configuration''))
           | Some server \<Rightarrow> Ok (merge_server_into_module cfg server)))"

definition build_for_module :: "'w db_env \<Rightarrow> db_manager \<Rightarrow> string \<Rightarrow> 'w \<Rightarrow> (nat option, db_error) result \<times> 'w" where
  "build_for_module env mgr module w =
     (case module_db_config env mgr module of
        None \<Rightarrow> (Ok None, w)
      | Some cfg0 \<Rightarrow>
          (case with_server mgr cfg0 of
             Err e \<Rightarrow> (Err e, w)
           | Ok cfg \<Rightarrow>
               (case finalize_sqlite_paths env mgr cfg (path_join (dm_home mgr) module) w of
                  (Err e, w) \<Rightarrow> (Err e, w)
                | (Ok cfg, w) \<Rightarrow>
                    (case build_db_handle env cfg w of
                       (Err e, w) \<Rightarrow> (Err e, w)
                     | (Ok h, w) \<Rightarrow> (Ok (Some h), w)))))"

text \<open>The entry of the cache when a build ends: the handle that is there, else the new one.\<close>

definition cache_entry :: "string \<Rightarrow> nat \<Rightarrow> (string \<times> nat) list \<Rightarrow> nat \<times> (string \<times> nat) list" where
  "cache_entry module h cache = (case map_of cache module of Some h0 \<Rightarrow> (h0, cache) | None \<Rightarrow> (h, (module, h) # cache))"

definition manager_get ::
    "'w db_env \<Rightarrow> string \<Rightarrow> db_manager \<Rightarrow> 'w \<Rightarrow> (nat option, db_error) result \<times> db_manager \<times> 'w" where
  "manager_get env module mgr w =
     (case map_of (dm_cache mgr) module of
        Some h \<Rightarrow> (Ok (Some h), mgr, w)
      | None \<Rightarrow>
          (case build_for_module env mgr module w of
             (Err e, w) \<Rightarrow> (Err e, mgr, w)
           | (Ok None, w) \<Rightarrow> (Ok None, mgr, w)
           | (Ok (Some h), w) \<Rightarrow>
               (case cache_entry module h (dm_cache mgr) of (h, cache) \<Rightarrow> (Ok (Some h), mgr\<lparr>dm_cache := cache\<rparr>, w))))"

text \<open>Concurrent calls of \<open>get\<close>: each looks into the cache, and one that finds nothing later enters the handle it built.\<close>

datatype get_event = Looked string | Entered string nat

fun run_gets :: "get_event list \<Rightarrow> (string \<times> nat) list \<Rightarrow> (string \<times> nat) list" where
  "run_gets [] cache = []"
| "run_gets (Looked m # es) cache =
     (case map_of cache m of Some h \<Rightarrow> (m, h) # run_gets es cache | None \<Rightarrow> run_gets es cache)"
| "run_gets (Entered m h # es) cache =
     (case cache_entry m h cache of (h', cache') \<Rightarrow> (m, h') # run_gets es cache')"

section \<open>Templates\<close>

text \<open>A text made of characters other than the dollar sign and of references to variables.\<close>

datatype piece = Lit char | Ref string

definition is_ident :: "string \<Rightarrow> bool" where
  "is_ident x \<longleftrightarrow> x \<noteq> [] \<and> ident_start (hd x) \<and> list_all ident_char x"

fun wf_piece :: "piece \<Rightarrow> bool" where
  "wf_piece (Lit c) = (c \<noteq> CHR 0x24)"
| "wf_piece (Ref x) = is_ident x"

text \<open>The text in which the variables of \<open>\<sigma>\<close> have been replaced.\<close>

fun piece_text :: "(string \<Rightarrow> string option) \<Rightarrow> piece \<Rightarrow> string" where
  "piece_text \<sigma> (Lit c) = [c]"
| "piece_text \<sigma> (Ref x) = (case \<sigma> x of Some v \<Rightarrow> v | None \<Rightarrow> var_ref x)"

definition template :: "(string \<Rightarrow> string option) \<Rightarrow> piece list \<Rightarrow> string" where
  "template \<sigma> ps = concat (map (piece_text \<sigma>) ps)"

lemma template_Nil [simp]: "template \<sigma> [] = []"
  by (simp add: template_def)

lemma template_Cons [simp]: "template \<sigma> (p # ps) = piece_text \<sigma> p @ template \<sigma> ps"
  by (simp add: template_def)

fun refs :: "piece list \<Rightarrow> string list" where
  "refs [] = []"
| "refs (Lit c # ps) = refs ps"
| "refs (Ref x # ps) = x # refs ps"

lemma ident_char_brace [simp]: "\<not> ident_char (CHR 0x7D)"
  by (simp add: ident_char_def ident_start_def)

lemma match_var_ref: "is_ident x \<Longrightarrow> match_var (var_ref x @ r) = Some (x, r)"
proof -
  assume x: "is_ident x"
  then have "takeWhile ident_char (x @ CHR 0x7D # r) = x" "dropWhile ident_char (x @ CHR 0x7D # r) = CHR 0x7D # r"
    by (auto simp: is_ident_def list_all_iff takeWhile_append dropWhile_append)
  with x show ?thesis by (auto simp: match_var_def var_ref_def is_ident_def split: list.splits)
qed

lemma match_var_lit: "c \<noteq> CHR 0x24 \<Longrightarrow> match_var (c # s) = None"
  by (auto simp: match_var_def)

lemma captures_lit: "c \<noteq> CHR 0x24 \<Longrightarrow> captures (c # s) = captures s"
  by (subst captures.simps) (simp add: match_var_lit)

lemma captures_ref: "is_ident x \<Longrightarrow> captures (var_ref x @ s) = x # captures s"
  using match_var_ref[of x s] by (subst captures.simps) (auto simp: var_ref_def)

lemma captures_template: "list_all wf_piece ps \<Longrightarrow> captures (template (\<lambda>_. None) ps) = refs ps"
proof (induction ps)
  case Nil
  then show ?case by (simp add: captures.simps)
next
  case (Cons p ps)
  then show ?case by (cases p) (simp_all add: captures_lit captures_ref)
qed

lemma strip_prefix_append [simp]: "strip_prefix p (p @ r) = Some r"
  by (induction p) auto

lemma strip_prefix_Some_iff: "strip_prefix p s = Some r \<longleftrightarrow> s = p @ r"
  by (induction p s rule: strip_prefix.induct) (auto split: if_splits)

lemma ident_before_brace: "is_ident x \<Longrightarrow> takeWhile ident_char (x @ CHR 0x7D # r) = x"
  by (auto simp: is_ident_def list_all_iff takeWhile_append)

lemma strip_other_ref:
  assumes "is_ident x" "is_ident y" "x \<noteq> y"
  shows "strip_prefix (var_ref x) (var_ref y @ r) = None"
proof (cases "strip_prefix (var_ref x) (var_ref y @ r)")
  case (Some q)
  then have "y @ CHR 0x7D # r = x @ CHR 0x7D # q" by (simp add: strip_prefix_Some_iff var_ref_def)
  with ident_before_brace[OF assms(1), of q] ident_before_brace[OF assms(2), of r] assms(3) show ?thesis by simp
qed

lemma replace_all_hit: "is_ident x \<Longrightarrow> replace_all (var_ref x) v (var_ref x @ s) = v @ replace_all (var_ref x) v s"
proof -
  have "strip_prefix (var_ref x) (var_ref x @ s) = Some s" by (rule strip_prefix_append)
  moreover have "var_ref x \<noteq> []" by (simp add: var_ref_def)
  ultimately show ?thesis by (subst replace_all.simps) simp
qed

lemma replace_all_plain: "CHR 0x24 \<notin> set u \<Longrightarrow> replace_all (var_ref x) v (u @ s) = u @ replace_all (var_ref x) v s"
proof (induction u)
  case (Cons c u)
  have "strip_prefix (var_ref x) (c # u @ s) = None" using Cons.prems by (simp add: var_ref_def)
  moreover have "replace_all (var_ref x) v (u @ s) = u @ replace_all (var_ref x) v s" using Cons by simp
  ultimately show ?case by (subst append_Cons, subst replace_all.simps) (simp add: var_ref_def)
qed simp

lemma ident_no_dollar: "is_ident x \<Longrightarrow> CHR 0x24 \<notin> set x"
  by (auto simp: is_ident_def list_all_iff ident_char_def ident_start_def)

lemma replace_all_other:
  assumes "is_ident x" "is_ident y" "x \<noteq> y"
  shows "replace_all (var_ref x) v (var_ref y @ s) = var_ref y @ replace_all (var_ref x) v s"
proof -
  have "var_ref y = CHR 0x24 # CHR 0x7B # y @ [CHR 0x7D]" by (simp add: var_ref_def)
  moreover have "CHR 0x24 \<notin> set (CHR 0x7B # y @ [CHR 0x7D])" using ident_no_dollar[OF assms(2)] by simp
  ultimately show ?thesis
    using strip_other_ref[OF assms, of s] replace_all_plain[of "CHR 0x7B # y @ [CHR 0x7D]" x v s]
    by (subst replace_all.simps) (simp add: var_ref_def)
qed

lemma replace_all_template:
  assumes "list_all wf_piece ps" "is_ident x" "\<And>y w. \<sigma> y = Some w \<Longrightarrow> CHR 0x24 \<notin> set w" "\<sigma> x = None \<or> \<sigma> x = Some v"
    and "\<tau> x = Some v" "\<And>y. y \<noteq> x \<Longrightarrow> \<tau> y = \<sigma> y"
  shows "replace_all (var_ref x) v (template \<sigma> ps) = template \<tau> ps"
  using assms(1)
proof (induction ps)
  case Nil
  then show ?case by (simp add: replace_all.simps var_ref_def)
next
  case (Cons p ps)
  then have IH: "replace_all (var_ref x) v (template \<sigma> ps) = template \<tau> ps" by simp
  show ?case
  proof (cases p)
    case (Lit c)
    with Cons.prems have "CHR 0x24 \<notin> set [c]" by auto
    from replace_all_plain[OF this, of x v "template \<sigma> ps"] Lit IH show ?thesis by simp
  next
    case (Ref y)
    with Cons.prems have y: "is_ident y" by simp
    show ?thesis
    proof (cases "\<sigma> y")
      case None
      then show ?thesis using Ref IH replace_all_other[OF assms(2) y, of v "template \<sigma> ps"]
          replace_all_hit[OF assms(2), of v "template \<sigma> ps"] assms(5,6) by (cases "x = y") simp_all
    next
      case (Some w)
      then show ?thesis using Ref IH replace_all_plain[OF assms(3)[OF Some], of x v "template \<sigma> ps"] assms(4,5,6)
        by (cases "x = y") auto
    qed
  qed
qed

lemma expand_all_template:
  assumes "list_all wf_piece ps" "\<And>x v. var x = Ok v \<Longrightarrow> CHR 0x24 \<notin> set v"
    and "\<And>x w. \<sigma> x = Some w \<Longrightarrow> var x = Ok w" "list_all is_ident xs" "\<And>x. x \<in> set xs \<Longrightarrow> var x = Ok (val x)"
  shows "expand_all var xs (template \<sigma> ps) = Ok (template (\<lambda>x. if x \<in> set xs then Some (val x) else \<sigma> x) ps)"
  using assms(3,4,5)
proof (induction xs arbitrary: \<sigma>)
  case (Cons x xs)
  have v: "var x = Ok (val x)" by (rule Cons.prems(3)) simp
  have r: "replace_all (var_ref x) (val x) (template \<sigma> ps) = template (\<sigma>(x := Some (val x))) ps"
  proof (rule replace_all_template[OF assms(1)])
    show "is_ident x" using Cons.prems(2) by simp
    show "\<And>y w. \<sigma> y = Some w \<Longrightarrow> CHR 0x24 \<notin> set w" using Cons.prems(1) assms(2) by blast
    show "(\<sigma>(x := Some (val x))) x = Some (val x)" "\<And>y. y \<noteq> x \<Longrightarrow> (\<sigma>(x := Some (val x))) y = \<sigma> y" by simp_all
    show "\<sigma> x = None \<or> \<sigma> x = Some (val x)" using Cons.prems(1)[of x] v by (cases "\<sigma> x") auto
  qed
  have "expand_all var xs (template (\<sigma>(x := Some (val x))) ps) =
      Ok (template (\<lambda>y. if y \<in> set xs then Some (val y) else (\<sigma>(x := Some (val x))) y) ps)"
    using Cons.prems v by (intro Cons.IH) (auto split: if_splits)
  moreover have "(\<lambda>y. if y \<in> set xs then Some (val y) else (\<sigma>(x := Some (val x))) y) =
      (\<lambda>y. if y \<in> set (x # xs) then Some (val y) else \<sigma> y)" by (rule ext) auto
  ultimately show ?case using v r by simp
qed simp

lemma refs_idents: "list_all wf_piece ps \<Longrightarrow> list_all is_ident (refs ps)"
  by (induction ps rule: refs.induct) auto

lemma expand_all_undefined:
  "\<forall>z \<in> set xs. is_ok (var z) \<Longrightarrow> var x = Err e \<Longrightarrow> expand_all var (xs @ x # ys) s = Err (EnvVarError e)"
proof (induction xs arbitrary: s)
  case (Cons y xs)
  then show ?case by (cases "var y") auto
qed simp

section \<open>Lemmas\<close>

definition safe_pragma :: "string \<times> string \<Rightarrow> bool" where
  "safe_pragma p \<longleftrightarrow>
     (fst p = ''journal_mode'' \<and> snd p \<in> set JOURNAL_MODES) \<or> (fst p = ''synchronous'' \<and> snd p \<in> set SYNC_MODES) \<or>
     (fst p = ''busy_timeout'' \<and> (\<exists>n < 2 ^ 63. snd p = show_nat n))"

lemma parse_i64_range: "parse_i64 s = Some i \<Longrightarrow> in_i64 i"
  by (auto simp: parse_i64_def Let_def split: list.splits option.splits if_splits)

lemma show_int_nonneg: "0 \<le> i \<Longrightarrow> show_int i = show_nat (nat i)"
  by (simp add: show_int_def)

lemma pragma_of_safe: "pragma_of k v = Ok p \<Longrightarrow> safe_pragma p"
proof -
  assume ok: "pragma_of k v = Ok p"
  have "safe_pragma (''busy_timeout'', show_int t)" if "validate_busy_timeout_pragma v = Ok t" for t
  proof -
    from that have "parse_i64 v = Some t" "0 \<le> t"
      by (auto simp: validate_busy_timeout_pragma_def split: option.splits if_splits)
    moreover from this have "nat t < 2 ^ 63" using parse_i64_range[of v t] by (simp add: in_i64_def i64_max_def nat_less_iff)
    ultimately show ?thesis unfolding safe_pragma_def by (auto simp: show_int_nonneg)
  qed
  with ok show ?thesis
    by (auto simp: pragma_of_def Let_def res_simps validate_wal_pragma_def validate_journal_mode_pragma_def
        validate_synchronous_pragma_def safe_pragma_def JOURNAL_MODES_def split: if_splits)
qed

lemma apply_pragmas_safe: "apply_pragmas ps = Ok calls \<Longrightarrow> list_all safe_pragma calls"
  by (auto simp: apply_pragmas_def collect_Ok_iff list_all2_conv_all_nth list_all_length split: prod.splits)
    (metis pragma_of_safe prod.collapse)

lemma build_sqlite_options_Ok:
  assumes "build_sqlite_options env cfg w = (Ok opts, w')"
  obtains path pragmas where "opts = SqliteOptions path pragmas" "list_all safe_pragma pragmas"
    "case dc_dsn cfg of Some dsn \<Rightarrow> parse_sqlite_path_from_dsn dsn = Ok path | None \<Rightarrow> dc_path cfg = Some path"
    "de_create_parent env path w = (Ok (), w')"
  using assms
  by (auto simp: build_sqlite_options_def Let_def res_simps split: if_splits option.splits result.splits prod.splits
      dest: apply_pragmas_safe)

lemma cache_entry_find:
  "cache_entry m h cache = (h', cache') \<Longrightarrow> map_of cache' m = Some h' \<and> (\<forall>k x. map_of cache k = Some x \<longrightarrow> map_of cache' k = Some x)"
  by (auto simp: cache_entry_def split: option.splits)

lemma run_gets_cached: "(m, h) \<in> set (run_gets es cache) \<Longrightarrow> map_of cache m = Some h0 \<Longrightarrow> h = h0"
proof (induction es cache rule: run_gets.induct)
  case (2 k es cache)
  then show ?case by (auto split: option.splits)
next
  case (3 k x es cache)
  obtain h' cache' where e: "cache_entry k x cache = (h', cache')" by (cases "cache_entry k x cache")
  with 3 cache_entry_find[OF e] show ?case by (cases "(m, h) = (k, h')") auto
qed simp

lemma run_gets_agree: "(m, h1) \<in> set (run_gets es cache) \<Longrightarrow> (m, h2) \<in> set (run_gets es cache) \<Longrightarrow> h1 = h2"
proof (induction es cache rule: run_gets.induct)
  case (2 k es cache)
  then show ?case by (auto split: option.splits dest: run_gets_cached)
next
  case (3 k x es cache)
  obtain h' cache' where e: "cache_entry k x cache = (h', cache')" by (cases "cache_entry k x cache")
  then have c: "map_of cache' k = Some h'" using cache_entry_find by blast
  have r: "run_gets (Entered k x # es) cache = (k, h') # run_gets es cache'" using e by simp
  show ?case
  proof (cases "m = k")
    case True
    then show ?thesis using 3(2,3) c run_gets_cached[of k _ es cache' h'] unfolding r by auto
  next
    case False
    then show ?thesis using 3 e unfolding r by auto
  qed
qed simp

lemma merge_params_lookup:
  "map_of (case merge_params mp sp of Some ps \<Rightarrow> ps | None \<Rightarrow> []) k =
     or_opt (Option.bind mp (\<lambda>ps. map_of ps k)) (Option.bind sp (\<lambda>ps. map_of ps k))"
proof -
  have fold: "map_of (fold (\<lambda>(k, v) m. if map_of m k = None then m @ [(k, v)] else m) s m) k =
      or_opt (map_of m k) (map_of s k)" for s m :: "(string \<times> string) list"
    by (induction s arbitrary: m) (auto simp: or_opt_def map_add_def split: option.splits)
  show ?thesis by (auto simp: merge_params_def fold or_opt_def split: option.splits)
qed

lemma absolute_path_fields [simp]:
  "dc_dsn (absolute_path home cfg) = dc_dsn cfg" "dc_file (absolute_path home cfg) = dc_file cfg"
  "dc_server (absolute_path home cfg) = dc_server cfg" "dc_host (absolute_path home cfg) = dc_host cfg"
  "dc_port (absolute_path home cfg) = dc_port cfg"
  by (auto simp: absolute_path_def split: option.splits)

lemma join_absolute: "is_absolute home \<Longrightarrow> is_absolute (path_join home p)"
  by (cases home) (auto simp: path_join_def is_absolute_def starts_with_def)

lemma absolute_path_absolute: "is_absolute home \<Longrightarrow> dc_path (absolute_path home cfg) = Some p \<Longrightarrow> is_absolute p"
  by (auto simp: absolute_path_def join_absolute split: option.splits if_splits)

section \<open>Properties\<close>

text \<open>C35. In a text whose dollar signs all start references, when no value has a dollar sign: if every variable that is
  referenced is defined, the expansion is the text with every reference replaced by its variable; otherwise the expansion fails with
  the error of the first reference whose variable is missing, and nothing is left unexpanded.\<close>

theorem references_expand_to_their_values:
  assumes "list_all wf_piece ps" "\<And>x v. var x = Ok v \<Longrightarrow> CHR 0x24 \<notin> set v"
  shows "((\<forall>x \<in> set (refs ps). is_ok (var x)) \<longrightarrow>
      expand_env_vars var (template (\<lambda>_. None) ps) = Ok (template (\<lambda>x. case var x of Ok v \<Rightarrow> Some v | Err _ \<Rightarrow> None) ps)) \<and>
    (\<forall>xs x ys e. refs ps = xs @ x # ys \<and> (\<forall>z \<in> set xs. is_ok (var z)) \<and> var x = Err e \<longrightarrow>
      expand_env_vars var (template (\<lambda>_. None) ps) = Err (EnvVarError e))"
proof (intro conjI allI impI)
  fix xs x ys e
  assume "refs ps = xs @ x # ys \<and> (\<forall>z \<in> set xs. is_ok (var z)) \<and> var x = Err e"
  then show "expand_env_vars var (template (\<lambda>_. None) ps) = Err (EnvVarError e)"
    using expand_all_undefined[of xs var x e ys] by (simp add: expand_env_vars_def captures_template[OF assms(1)])
next
  assume ok: "\<forall>x \<in> set (refs ps). is_ok (var x)"
  then have v: "var x = Ok (case var x of Ok v \<Rightarrow> v | Err _ \<Rightarrow> [])" if "x \<in> set (refs ps)" for x
    using that by (cases "var x") auto
  have "expand_all var (refs ps) (template (\<lambda>_. None) ps) =
      Ok (template (\<lambda>x. if x \<in> set (refs ps) then Some (case var x of Ok v \<Rightarrow> v | Err _ \<Rightarrow> []) else None) ps)"
    using expand_all_template[OF assms, where \<sigma> = "\<lambda>_. None" and xs = "refs ps"] refs_idents[OF assms(1)] v by simp
  moreover have "template (\<lambda>x. if x \<in> set (refs ps) then Some (case var x of Ok v \<Rightarrow> v | Err _ \<Rightarrow> []) else None) qs =
      template (\<lambda>x. case var x of Ok v \<Rightarrow> Some v | Err _ \<Rightarrow> None) qs" if "set (refs qs) \<subseteq> set (refs ps)" for qs
    using that
  proof (induction qs rule: refs.induct)
    case (3 x qs)
    then show ?case using ok by (auto split: result.splits)
  qed auto
  ultimately show "expand_env_vars var (template (\<lambda>_. None) ps) =
      Ok (template (\<lambda>x. case var x of Ok v \<Rightarrow> Some v | Err _ \<Rightarrow> None) ps)"
    by (simp add: expand_env_vars_def captures_template[OF assms(1)])
qed

text \<open>What reaches SQLite: the options are those of the path of the configuration, and every pragma has
  one of the listed keys and values, whatever the parameters hold.\<close>

theorem only_listed_pragmas_reach_sqlite:
  assumes "build_sqlite_options env cfg w = (Ok opts, w')"
  shows "\<exists>path pragmas. opts = SqliteOptions path pragmas \<and> list_all safe_pragma pragmas \<and>
    (case dc_dsn cfg of Some dsn \<Rightarrow> parse_sqlite_path_from_dsn dsn = Ok path | None \<Rightarrow> dc_path cfg = Some path)"
  using assms by (rule build_sqlite_options_Ok) blast

text \<open>However concurrent calls of \<open>get\<close> interleave, all of them hand out one handle per module.\<close>

theorem one_handle_per_module:
  assumes "(module, h1) \<in> set (run_gets es cache)" "(module, h2) \<in> set (run_gets es cache)"
  shows "h1 = h2 \<and> (\<forall>h. map_of cache module = Some h \<longrightarrow> h1 = h)"
  using run_gets_agree[OF assms] run_gets_cached[OF assms(1)] by blast

text \<open>The effective value of every inherited setting is the module's, else the server's; parameters are merged key by key,
  and the SQLite fields and the server name stay the module's.\<close>

theorem module_settings_override_server:
  "dc_dsn (merge_server_into_module m s) = or_opt (dc_dsn m) (dc_dsn s) \<and>
   dc_host (merge_server_into_module m s) = or_opt (dc_host m) (dc_host s) \<and>
   dc_pool (merge_server_into_module m s) = or_opt (dc_pool m) (dc_pool s) \<and>
   map_of (case dc_params (merge_server_into_module m s) of Some ps \<Rightarrow> ps | None \<Rightarrow> []) k =
     or_opt (Option.bind (dc_params m) (\<lambda>ps. map_of ps k)) (Option.bind (dc_params s) (\<lambda>ps. map_of ps k)) \<and>
   dc_file (merge_server_into_module m s) = dc_file m \<and> dc_path (merge_server_into_module m s) = dc_path m \<and>
   dc_server (merge_server_into_module m s) = dc_server m"
  by (simp add: merge_server_into_module_def merge_params_lookup)

text \<open>The host of the referenced server overrides the host in the module's own DSN: a connection built
  from the merged configuration starts from the module's DSN and then sets the server's host.\<close>

theorem server_host_beats_module_dsn:
  assumes "with_server mgr m = Ok cfg" "dc_server m = Some name" "dc_dsn m = Some dsn" "dc_host m = None"
    and "Option.bind (dm_global mgr) (\<lambda>g. map_of (gd_servers g) name) = Some server" "dc_host server = Some host"
    and "build_server_options env cfg = Ok opts"
  shows "\<exists>calls. (opts = PgOptions (Some dsn) calls \<or> opts = MySqlOptions (Some dsn) calls) \<and> CallHost host \<in> set calls"
proof -
  have c: "cfg = merge_server_into_module m server" using assms(1,2,5) by (simp add: with_server_def)
  then have d: "dc_dsn cfg = Some dsn" "dc_host cfg = Some host"
    using assms(3,4,6) by (simp_all add: merge_server_into_module_def or_opt_def)
  with assms(7) show ?thesis
    by (auto simp: build_server_options_def res_simps field_calls_def split: if_splits)
qed

text \<open>A configuration with both \<open>file\<close> and \<open>path\<close> passes the manager: the file replaces the path before
  the check that should refuse the pair.\<close>

theorem file_silently_replaces_path:
  assumes "is_absolute module_home" "dc_file cfg = Some file" "dc_path cfg = Some path"
    and "dc_dsn cfg = None" "dc_host cfg = None" "dc_port cfg = None"
    and "finalize_sqlite_paths env mgr cfg module_home w = (Ok cfg', w')"
  shows "dc_path cfg' = Some (path_join module_home file) \<and> dc_file cfg' = None \<and>
    validate_config_consistency cfg' = Ok () \<and> validate_config_consistency cfg \<noteq> Ok ()"
  using assms join_absolute[OF assms(1)]
  by (auto simp: finalize_sqlite_paths_def Let_def absolute_path_def validate_config_consistency_def
      split: prod.splits result.splits)

text \<open>A module that configures only a file opens that file in its own directory under the home directory, with the
  directory created first, and the handle is cached under its name.\<close>

theorem file_module_opens_its_own_file:
  assumes "map_of (dm_cache mgr) module = None" "is_absolute (dm_home mgr)"
    and "module_db_config env mgr module = Some \<lparr>dc_dsn = None, dc_host = None, dc_port = None, dc_user = None,
      dc_password = None, dc_dbname = None, dc_params = None, dc_file = Some file, dc_path = None, dc_pool = None,
      dc_server = None\<rparr>"
    and "manager_get env module mgr w = (Ok (Some h), mgr', w')"
  shows "\<exists>w1. de_connect env (SqliteOptions (path_join (path_join (dm_home mgr) module) file) []) [] w1 = (Ok h, w') \<and>
    map_of (dm_cache mgr') module = Some h"
proof -
  let ?path = "path_join (path_join (dm_home mgr) module) file"
  let ?cfg = "\<lparr>dc_dsn = None, dc_host = None, dc_port = None, dc_user = None, dc_password = None, dc_dbname = None,
      dc_params = None, dc_file = Some file, dc_path = None, dc_pool = None, dc_server = None\<rparr>"
  let ?cfg' = "?cfg\<lparr>dc_path := Some ?path, dc_file := None\<rparr>"
  have abs: "is_absolute ?path" using assms(2) by (simp add: join_absolute)
  obtain w2 where f: "finalize_sqlite_paths env mgr ?cfg (path_join (dm_home mgr) module) w = (Ok ?cfg', w2)"
    and b: "build_db_handle env ?cfg' w2 = (Ok h, w')" and c: "map_of (dm_cache mgr') module = Some h"
    using assms(1,3,4) abs
    by (auto simp: manager_get_def build_for_module_def with_server_def finalize_sqlite_paths_def absolute_path_def Let_def
        cache_entry_def split: prod.splits result.splits option.splits)
  from b have "\<exists>w1. de_connect env (SqliteOptions ?path []) [] w1 = (Ok h, w')"
    by (auto simp: build_db_handle_def expand_config_def opt_result_def validate_config_consistency_def config_is_sqlite_def
        build_sqlite_options_def default_pool_def apply_pool_def split: prod.splits result.splits if_splits)
  with c show ?thesis by blast
qed

section \<open>Witnesses\<close>

definition shell :: "string \<Rightarrow> (string, string) result" where
  "shell x = (if x = ''HOST'' then Ok ''db'' else Err ''environment variable not found'')"

text \<open>A file system on which everything succeeds; the world records the paths and options that were used.\<close>

definition open_env :: "(string list) db_env" where
  "open_env = \<lparr>de_var = shell, de_create_parent = (\<lambda>p w. (Ok (), p # w)), de_parent_exists = (\<lambda>_ _. Some True),
     de_parent_text = (\<lambda>p. p), de_url_scheme = (\<lambda>_. Ok ''postgres''), de_driver_parse = (\<lambda>_ _. Ok ()),
     de_feature = (\<lambda>_. True), de_connect = (\<lambda>_ _ w. (Ok (length w), w)), de_duration = (\<lambda>_. None)\<rparr>"

definition empty_config :: db_conn_config where
  "empty_config = \<lparr>dc_dsn = None, dc_host = None, dc_port = None, dc_user = None, dc_password = None, dc_dbname = None,
     dc_params = None, dc_file = None, dc_path = None, dc_pool = None, dc_server = None\<rparr>"

definition file_manager :: db_manager where
  "file_manager = from_figment (\<lambda>_. None)
     (Some (JObject [(''modules'', JObject [(''users'', JObject [(''database'', JObject [(''file'', JString ''u.db'')])])]),
       (''database'', JObject [(''servers'', JObject [(''main'', JObject [(''host'', JString ''db'')])])])])) ''/srv''"

theorem references_expand_to_their_values_witness:
  "expand_env_vars shell ''pg://${HOST}/x'' = Ok ''pg://db/x'' \<and>
   (\<exists>e. expand_env_vars shell ''${HOST}${NONE}'' = Err (EnvVarError e))"
proof -
  let ?ps = "map Lit ''pg://'' @ [Ref ''HOST''] @ map Lit ''/x''" and ?qs = "[Ref ''HOST'', Ref ''NONE'']"
  have w: "list_all wf_piece ?ps" "list_all wf_piece ?qs" by (simp_all add: is_ident_def ident_char_def ident_start_def)
  have s: "\<And>x v. shell x = Ok v \<Longrightarrow> CHR 0x24 \<notin> set v" by (auto simp: shell_def split: if_splits)
  have "expand_env_vars shell (template (\<lambda>_. None) ?ps) =
      Ok (template (\<lambda>x. case shell x of Ok v \<Rightarrow> Some v | Err _ \<Rightarrow> None) ?ps)"
    using references_expand_to_their_values[OF w(1), of shell] s by (auto simp: shell_def)
  moreover obtain e where e: "shell ''NONE'' = Err e" by (simp add: shell_def)
  have "\<forall>xs x ys e. refs ?qs = xs @ x # ys \<and> (\<forall>z \<in> set xs. is_ok (shell z)) \<and> shell x = Err e \<longrightarrow>
      expand_env_vars shell (template (\<lambda>_. None) ?qs) = Err (EnvVarError e)"
    using references_expand_to_their_values[OF w(2), of shell] s by blast
  from this[rule_format, of "[''HOST'']" "''NONE''" "[]" e] e
  have "expand_env_vars shell (template (\<lambda>_. None) ?qs) = Err (EnvVarError e)" by (simp add: shell_def)
  ultimately show ?thesis by (simp add: var_ref_def shell_def)
qed

theorem only_listed_pragmas_reach_sqlite_witness:
  "build_sqlite_options open_env (empty_config\<lparr>dc_path := Some ''/x'', dc_params := Some [(''WAL'', ''1'')]\<rparr>) [] =
     (Ok (SqliteOptions ''/x'' [(''journal_mode'', ''WAL'')]), [''/x'']) \<and>
   list_all safe_pragma [(''journal_mode'', ''WAL'')]"
proof -
  have b: "build_sqlite_options open_env (empty_config\<lparr>dc_path := Some ''/x'', dc_params := Some [(''WAL'', ''1'')]\<rparr>) [] =
     (Ok (SqliteOptions ''/x'' [(''journal_mode'', ''WAL'')]), [''/x''])" by code_simp
  from only_listed_pragmas_reach_sqlite[OF b] b show ?thesis by simp
qed

theorem one_handle_per_module_witness:
  "run_gets [Looked ''m'', Looked ''m'', Entered ''m'' 1, Entered ''m'' 2, Looked ''m''] [] =
     [(''m'', 1), (''m'', 1), (''m'', 1)] \<and> (1 :: nat) = 1"
  using one_handle_per_module[of "''m''" 1 "[Looked ''m'', Looked ''m'', Entered ''m'' 1, Entered ''m'' 2, Looked ''m'']" "[]" 1]
  by (simp add: cache_entry_def)

theorem server_host_beats_module_dsn_witness:
  "\<exists>cfg calls. with_server file_manager (empty_config\<lparr>dc_server := Some ''main'', dc_dsn := Some ''postgres://own/x''\<rparr>) = Ok cfg \<and>
     build_server_options open_env cfg = Ok (PgOptions (Some ''postgres://own/x'') calls) \<and> CallHost ''db'' \<in> set calls"
proof -
  let ?m = "empty_config\<lparr>dc_server := Some ''main'', dc_dsn := Some ''postgres://own/x''\<rparr>"
  let ?s = "empty_config\<lparr>dc_host := Some ''db''\<rparr>"
  have s: "Option.bind (dm_global file_manager) (\<lambda>g. map_of (gd_servers g) ''main'') = Some ?s" by code_simp
  have w: "with_server file_manager ?m = Ok (merge_server_into_module ?m ?s)"
    using s by (simp add: with_server_def empty_config_def)
  have b: "build_server_options open_env (merge_server_into_module ?m ?s) =
      Ok (PgOptions (Some ''postgres://own/x'') [CallHost ''db''])" by code_simp
  from server_host_beats_module_dsn[OF w _ _ _ s _ b] w b show ?thesis by (auto simp: empty_config_def)
qed

theorem file_silently_replaces_path_witness:
  "dc_path (fst (case finalize_sqlite_paths open_env file_manager
     (empty_config\<lparr>dc_file := Some ''f'', dc_path := Some ''/p''\<rparr>) ''/srv/users'' [] of (Ok c, w) \<Rightarrow> (c, w))) = Some ''/srv/users/f''"
proof -
  let ?c = "empty_config\<lparr>dc_path := Some ''/srv/users/f''\<rparr>"
  have f: "finalize_sqlite_paths open_env file_manager (empty_config\<lparr>dc_file := Some ''f'', dc_path := Some ''/p''\<rparr>)
      ''/srv/users'' [] = (Ok ?c, [''/srv/users/f''])" by code_simp
  have "is_absolute ''/srv/users''" by code_simp
  from file_silently_replaces_path[OF this _ _ _ _ _ f] f show ?thesis by (simp add: empty_config_def)
qed

theorem file_module_opens_its_own_file_witness:
  "\<exists>w1. de_connect open_env (SqliteOptions ''/srv/users/u.db'' []) [] w1 = (Ok 2, [''/srv/users/u.db'', ''/srv/users/u.db''])"
proof -
  have p: "path_join (path_join (dm_home file_manager) ''users'') ''u.db'' = ''/srv/users/u.db''" by code_simp
  have "module_db_config open_env file_manager ''users'' = Some (empty_config\<lparr>dc_file := Some ''u.db''\<rparr>)" by code_simp
  moreover have "manager_get open_env ''users'' file_manager [] = (Ok (Some 2),
      file_manager\<lparr>dm_cache := [(''users'', 2)]\<rparr>, [''/srv/users/u.db'', ''/srv/users/u.db''])" by code_simp
  moreover have "map_of (dm_cache file_manager) ''users'' = None" "is_absolute (dm_home file_manager)" by code_simp+
  ultimately show ?thesis
    using file_module_opens_its_own_file[of file_manager "''users''" open_env "''u.db''" "[]" 2] p
    by (simp add: empty_config_def)
qed

end
