(* ===== verification/App_Config.thy ===== *)
theory App_Config
  imports Db_Config
begin

text \<open>
  Configuration of the host and of out-of-process modules: \<open>libs/modkit-bootstrap/src/config/mod.rs\<close>,
  \<open>oop.rs\<close> and \<open>host/paths/home_dir.rs\<close> (on Unix), \<open>libs/modkit/src/config.rs\<close>, and the part
  of \<open>apps/hyperspot-server/src/main.rs\<close> that prepares databases and out-of-process modules.

  An \<open>anyhow\<close> error is the list of its messages, the outermost context first. The tracing section is opaque. What \<open>figment\<close>
  extracts from the defaults, the YAML file and the environment is a parameter, as are the file system, the \<open>url\<close> and \<open>dsn\<close> parsers.
\<close>

section \<open>Configuration types\<close>

record execution_config =
  ec_executable_path :: string
  ec_args :: "string list"
  ec_working_directory :: "string option"
  ec_environment :: "(string \<times> string) list"

datatype runtime_kind = Local | Oop

record module_runtime =
  mr_type :: runtime_kind
  mr_execution :: "execution_config option"

record module_config =
  mc_database :: "db_conn_config option"
  mc_config :: json
  mc_runtime :: "module_runtime option"

record section_config =
  lg_console_level :: string
  lg_file :: string
  lg_file_level :: string
  lg_max_age_days :: "nat option"
  lg_max_backups :: "nat option"
  lg_max_size_mb :: "nat option"

type_synonym logging_config = "(string \<times> section_config) list"

record 'tr app_config =
  ap_home_dir :: string
  ap_database :: "global_database_config option"
  ap_logging :: "logging_config option"
  ap_tracing :: "'tr option"
  ap_modules_dir :: "string option"
  ap_modules :: "(string \<times> json) list"

definition default_logging_config :: logging_config where
  "default_logging_config =
     [(''default'', \<lparr>lg_console_level = ''info'', lg_file = ''logs/hyperspot.log'', lg_file_level = ''debug'',
       lg_max_age_days = Some 7, lg_max_backups = Some 3, lg_max_size_mb = Some 100\<rparr>)]"

definition default_app_config :: "'tr app_config" where
  "default_app_config =
     \<lparr>ap_home_dir = [], ap_database = Some \<lparr>gd_servers = [], gd_auto_provision = None\<rparr>,
      ap_logging = Some default_logging_config, ap_tracing = None, ap_modules_dir = None, ap_modules = []\<rparr>"

subsection \<open>Module entries\<close>

definition as_strings :: "json \<Rightarrow> string list option" where
  "as_strings j = Option.bind (as_array j) (all_some as_str)"

definition default_field :: "(json \<Rightarrow> 'a option) \<Rightarrow> 'a \<Rightarrow> string \<Rightarrow> (string \<times> json) list \<Rightarrow> 'a option" where
  "default_field f d k fs = (case map_of fs k of None \<Rightarrow> Some d | Some v \<Rightarrow> f v)"

definition execution_of_json :: "json \<Rightarrow> execution_config option" where
  "execution_of_json j =
     (case j of
        JObject fs \<Rightarrow>
          if \<not> known_fields [''executable_path'', ''args'', ''working_directory'', ''environment''] fs then None
          else
            Option.bind (Option.bind (map_of fs ''executable_path'') as_str) (\<lambda>path.
            Option.bind (default_field as_strings [] ''args'' fs) (\<lambda>args.
            Option.bind (opt_field as_str ''working_directory'' fs) (\<lambda>wd.
            Option.bind (default_field (as_map as_str) [] ''environment'' fs) (\<lambda>envs.
              Some \<lparr>ec_executable_path = path, ec_args = args, ec_working_directory = wd, ec_environment = envs\<rparr>))))
      | _ \<Rightarrow> None)"

definition kind_of_json :: "json \<Rightarrow> runtime_kind option" where
  "kind_of_json j =
     (if as_str j = Some ''local'' then Some Local else if as_str j = Some ''oop'' then Some Oop else None)"

definition runtime_of_json :: "json \<Rightarrow> module_runtime option" where
  "runtime_of_json j =
     (case j of
        JObject fs \<Rightarrow>
          if \<not> known_fields [''type'', ''execution''] fs then None
          else
            Option.bind (default_field kind_of_json Local ''type'' fs) (\<lambda>k.
            Option.bind (opt_field execution_of_json ''execution'' fs) (\<lambda>e.
              Some \<lparr>mr_type = k, mr_execution = e\<rparr>))
      | _ \<Rightarrow> None)"

definition module_config_of_json :: "(string \<Rightarrow> nat option) \<Rightarrow> json \<Rightarrow> module_config option" where
  "module_config_of_json parse_duration j =
     (case j of
        JObject fs \<Rightarrow>
          if \<not> known_fields [''database'', ''config'', ''runtime''] fs then None
          else
            Option.bind (opt_field (conn_of_json parse_duration) ''database'' fs) (\<lambda>db.
            Option.bind (opt_field runtime_of_json ''runtime'' fs) (\<lambda>rt.
              Some \<lparr>mc_database = db, mc_config = (case map_of fs ''config'' of Some c \<Rightarrow> c | None \<Rightarrow> JNull), mc_runtime = rt\<rparr>))
      | _ \<Rightarrow> None)"

section \<open>The environment\<close>

record ('u, 'w) boot_env =
  be_var :: "string \<Rightarrow> (string, string) result"
  be_create_dir_all :: "string \<Rightarrow> 'w \<Rightarrow> (unit, string) result \<times> 'w"
  be_current_exe :: "(string, string) result"
  be_parent :: "string \<Rightarrow> string option"
  be_dsn_parse :: "string \<Rightarrow> (unit, string) result"
  be_duration :: "string \<Rightarrow> nat option"
  be_show_duration :: "nat \<Rightarrow> string"
  be_url_parse :: "string \<Rightarrow> ('u, string) result"
  be_url_scheme :: "'u \<Rightarrow> string"
  be_url_path :: "'u \<Rightarrow> string"
  be_url_text :: "'u \<Rightarrow> string"
  be_set_host :: "string \<Rightarrow> 'u \<Rightarrow> ('u, string) result"
  be_set_port :: "nat \<Rightarrow> 'u \<Rightarrow> 'u option"
  be_set_username :: "string \<Rightarrow> 'u \<Rightarrow> 'u option"
  be_set_password :: "string \<Rightarrow> 'u \<Rightarrow> 'u option"
  be_set_path :: "string \<Rightarrow> 'u \<Rightarrow> 'u"
  be_append_pair :: "string \<Rightarrow> string \<Rightarrow> 'u \<Rightarrow> 'u"
  be_urlencode :: "string \<Rightarrow> string"

type_synonym boot_error = "string list"

definition context_err :: "string \<Rightarrow> ('a, boot_error) result \<Rightarrow> ('a, boot_error) result" where
  "context_err c r = map_err (Cons c) r"

section \<open>Paths\<close>

datatype home_dir_error =
    HomeMissing
  | AbsoluteRequired string
  | RelativePathNotAllowed string
  | ExecutablePathError string
  | HomeIo string

definition var_home :: "('u, 'w) boot_env \<Rightarrow> (string, home_dir_error) result" where
  "var_home env = map_err (\<lambda>_. HomeMissing) (be_var env ''HOME'')"

definition expand_tilde :: "('u, 'w) boot_env \<Rightarrow> string \<Rightarrow> (string, home_dir_error) result" where
  "expand_tilde env raw =
     (case strip_prefix ''~/'' raw of
        Some rest \<Rightarrow> and_then (var_home env) (\<lambda>h. Ok (path_join h rest))
      | None \<Rightarrow> if raw = ''~'' then var_home env else Ok raw)"

definition normalize_executable_path :: "('u, 'w) boot_env \<Rightarrow> string \<Rightarrow> (string, home_dir_error) result" where
  "normalize_executable_path env raw =
     and_then (expand_tilde env raw) (\<lambda>expanded.
       if is_absolute expanded then Ok expanded
       else if CHR ''/'' \<in> set raw \<or> CHR 0x5C \<in> set raw then Err (RelativePathNotAllowed raw)
       else
         and_then (map_err ExecutablePathError (be_current_exe env)) (\<lambda>exe.
         and_then (ok_or (ExecutablePathError ''executable has no parent directory'') (be_parent env exe)) (\<lambda>dir.
           Ok (path_join dir expanded))))"

definition resolve_home_dir ::
    "('u, 'w) boot_env \<Rightarrow> string option \<Rightarrow> string \<Rightarrow> bool \<Rightarrow> 'w \<Rightarrow> (string, home_dir_error) result \<times> 'w" where
  "resolve_home_dir env config_home subdir create w =
     (case (case config_home of
              Some raw \<Rightarrow> and_then (expand_tilde env raw) (\<lambda>p. if is_absolute p then Ok p else Err (AbsoluteRequired p))
            | None \<Rightarrow> and_then (var_home env) (\<lambda>h. Ok (path_join h subdir))) of
        Err e \<Rightarrow> (Err e, w)
      | Ok p \<Rightarrow>
          if create then (case be_create_dir_all env p w of (Err e, w) \<Rightarrow> (Err (HomeIo e), w) | (Ok _, w) \<Rightarrow> (Ok p, w))
          else (Ok p, w))"

fun show_home_dir_error :: "home_dir_error \<Rightarrow> string" where
  "show_home_dir_error HomeMissing = ''HOME environment variable is not set''"
| "show_home_dir_error (AbsoluteRequired p) = ''home_dir must be an absolute path (after ~ expansion): '' @ p"
| "show_home_dir_error (RelativePathNotAllowed p) = ''relative paths with directory separators are not allowed: '' @ p"
| "show_home_dir_error (ExecutablePathError e) = ''failed to get executable path: '' @ e"
| "show_home_dir_error (HomeIo e) = ''IO error: '' @ e"

definition normalize_home_dir ::
    "('u, 'w) boot_env \<Rightarrow> 'tr app_config \<Rightarrow> 'w \<Rightarrow> ('tr app_config, boot_error) result \<times> 'w" where
  "normalize_home_dir env c w =
     (let given = (if trim (ap_home_dir c) = [] then None else Some (ap_home_dir c))
      in case resolve_home_dir env given ''.hyperspot'' True w of
        (Err e, w) \<Rightarrow> (Err [''home_dir normalization failed'', show_home_dir_error e], w)
      | (Ok p, w) \<Rightarrow> (Ok (c\<lparr>ap_home_dir := p\<rparr>), w))"

section \<open>Loading\<close>

text \<open>An entry of the directory of module files: whether it is a file, its extension, its stem and its text, read and parsed.\<close>

record module_file =
  mf_is_file :: bool
  mf_extension :: string
  mf_stem :: string
  mf_parsed :: "(json, boot_error) result"

definition is_yaml :: "module_file \<Rightarrow> bool" where
  "is_yaml f \<longleftrightarrow> mf_is_file f \<and> to_ascii_lowercase (mf_extension f) \<in> {''yml'', ''yaml''}"

fun merge_module_files ::
    "module_file list \<Rightarrow> (string \<times> json) list \<Rightarrow> ((string \<times> json) list, boot_error) result" where
  "merge_module_files [] bag = Ok bag"
| "merge_module_files (f # fs) bag =
     (if is_yaml f then and_then (mf_parsed f) (\<lambda>j. merge_module_files fs (AList.update (mf_stem f) j bag))
      else merge_module_files fs bag)"

text \<open>\<open>extracted\<close> is what \<open>figment\<close> yields for the defaults, the file and the environment; \<open>read_dir\<close> lists a
  directory, or is \<open>None\<close> when it does not exist.\<close>

definition load_layered ::
    "('u, 'w) boot_env \<Rightarrow> (string \<Rightarrow> 'w \<Rightarrow> module_file list option) \<Rightarrow> ('tr app_config, string) result \<Rightarrow> 'w \<Rightarrow>
     ('tr app_config, boot_error) result \<times> 'w" where
  "load_layered env read_dir extracted w0 =
     (case context_err ''Failed to extract config from figment'' (map_err (\<lambda>e. [e]) extracted) of
        Err e \<Rightarrow> (Err e, w0)
      | Ok c \<Rightarrow>
          (case normalize_home_dir env c w0 of
             (Err e, w) \<Rightarrow> (Err (''Failed to resolve server.home_dir'' # e), w)
           | (Ok c, w) \<Rightarrow>
               (case Option.bind (ap_modules_dir c) (\<lambda>d. read_dir d w) of
                  None \<Rightarrow> (Ok c, w)
                | Some fs \<Rightarrow> (and_then (merge_module_files fs (ap_modules c)) (\<lambda>bag. Ok (c\<lparr>ap_modules := bag\<rparr>)), w))))"

definition load_or_default ::
    "('u, 'w) boot_env \<Rightarrow> (string \<Rightarrow> 'w \<Rightarrow> module_file list option) \<Rightarrow> ('tr app_config, string) result option \<Rightarrow> 'w \<Rightarrow>
     ('tr app_config, boot_error) result \<times> 'w" where
  "load_or_default env read_dir config_file w =
     (case config_file of
        Some extracted \<Rightarrow> load_layered env read_dir extracted w
      | None \<Rightarrow>
          (case normalize_home_dir env default_app_config w of
             (r, w) \<Rightarrow> (context_err ''Failed to resolve server.home_dir (defaults)'' r, w)))"

definition console_level :: "nat \<Rightarrow> string \<Rightarrow> string" where
  "console_level verbose level = (if verbose = 0 then level else if verbose = 1 then ''debug'' else ''trace'')"

definition apply_cli_overrides :: "nat \<Rightarrow> 'tr app_config \<Rightarrow> 'tr app_config" where
  "apply_cli_overrides verbose c =
     (let logging = (case ap_logging c of Some l \<Rightarrow> l | None \<Rightarrow> default_logging_config);
          logging' = (case map_of logging ''default'' of
              Some s \<Rightarrow> AList.update ''default'' (s\<lparr>lg_console_level := console_level verbose (lg_console_level s)\<rparr>) logging
            | None \<Rightarrow> logging)
      in c\<lparr>ap_logging := Some logging'\<rparr>)"

definition parse_module_config :: "('u, 'w) boot_env \<Rightarrow> 'tr app_config \<Rightarrow> string \<Rightarrow> (module_config, boot_error) result" where
  "parse_module_config env c module =
     and_then (ok_or [''Module '' @ quoted module @ '' not found in config''] (map_of (ap_modules c) module)) (\<lambda>raw.
       ok_or [''invalid module config''] (module_config_of_json (be_duration env) raw))"

definition get_module_runtime_config ::
    "('u, 'w) boot_env \<Rightarrow> 'tr app_config \<Rightarrow> string \<Rightarrow> (module_runtime option, boot_error) result" where
  "get_module_runtime_config env c module =
     and_then (parse_module_config env c module) (\<lambda>entry. Ok (mc_runtime entry))"

definition get_module_db_config :: "('u, 'w) boot_env \<Rightarrow> 'tr app_config \<Rightarrow> string \<Rightarrow> db_conn_config option" where
  "get_module_db_config env c module =
     Option.bind (map_of (ap_modules c) module) (\<lambda>raw.
     Option.bind (module_config_of_json (be_duration env) raw) mc_database)"

definition module_home :: "'tr app_config \<Rightarrow> string \<Rightarrow> string" where
  "module_home c module = path_join (ap_home_dir c) module"

section \<open>Resolving a DSN\<close>

text \<open>\<open>expand_env_in_dsn\<close>: as \<open>expand_env_vars\<close> of \<open>Db_Config\<close>, with another error.\<close>

fun expand_all_in_dsn :: "(string \<Rightarrow> (string, string) result) \<Rightarrow> string list \<Rightarrow> string \<Rightarrow> (string, boot_error) result" where
  "expand_all_in_dsn var [] s = Ok s"
| "expand_all_in_dsn var (x # xs) s =
     and_then (map_err (\<lambda>e. [''Environment variable '' @ quoted x @ '' not found in DSN'', e]) (var x))
       (\<lambda>v. expand_all_in_dsn var xs (replace_all (var_ref x) v s))"

definition expand_env_in_dsn :: "('u, 'w) boot_env \<Rightarrow> string \<Rightarrow> (string, boot_error) result" where
  "expand_env_in_dsn env dsn = expand_all_in_dsn (be_var env) (captures dsn) dsn"

definition resolve_opt_password :: "('u, 'w) boot_env \<Rightarrow> string option \<Rightarrow> (string option, boot_error) result" where
  "resolve_opt_password env password =
     (case password of
        None \<Rightarrow> Ok None
      | Some p \<Rightarrow>
          if starts_with [CHR 0x24, CHR 0x7B] p \<and> ends_with [CHR 0x7D] p then
            (let x = take (length p - 3) (drop 2 p)
             in and_then (map_err (\<lambda>e. [''Environment variable '' @ quoted x @ '' not found for password'', e]) (be_var env x))
                  (\<lambda>v. Ok (Some v)))
          else Ok (Some p))"

definition validate_dsn :: "('u, 'w) boot_env \<Rightarrow> string \<Rightarrow> (unit, boot_error) result" where
  "validate_dsn env dsn =
     (if starts_with ''sqlite:'' dsn then Ok ()
      else map_err (\<lambda>e. [''Invalid DSN '' @ quoted dsn @ '': '' @ e]) (be_dsn_parse env dsn))"

text \<open>Two helpers that stand for code repeated in the source: the form of a DSN for a path, and a path with the drive of Windows.\<close>

definition has_drive :: "string \<Rightarrow> bool" where
  "has_drive p = (case p of _ # c # _ \<Rightarrow> c = CHR '':'' | _ \<Rightarrow> False)"

definition sqlite_url :: "string \<Rightarrow> string" where
  "sqlite_url path =
     (let p = map (\<lambda>c. if c = CHR 0x5C then CHR ''/'' else c) path
      in if has_drive p then ''sqlite:'' @ p else ''sqlite://'' @ p)"

fun after_str :: "string \<Rightarrow> string \<Rightarrow> string option" where
  "after_str pat [] = (if pat = [] then Some [] else None)"
| "after_str pat (c # cs) = (case strip_prefix pat (c # cs) of Some r \<Rightarrow> Some r | None \<Rightarrow> after_str pat cs)"

definition module_path ::
    "('u, 'w) boot_env \<Rightarrow> string \<Rightarrow> string \<Rightarrow> string \<Rightarrow> 'w \<Rightarrow> (string, boot_error) result \<times> 'w" where
  "module_path env home module name w =
     (let dir = path_join home module
      in case be_create_dir_all env dir w of
        (Err e, w) \<Rightarrow> (Err [''Failed to create module directory: '' @ dir, e], w)
      | (Ok _, w) \<Rightarrow> (Ok (path_join dir name), w))"

definition map_fst :: "('a \<Rightarrow> 'b) \<Rightarrow> ('a, 'e) result \<times> 'w \<Rightarrow> ('b, 'e) result \<times> 'w" where
  "map_fst f p = (and_then (fst p) (\<lambda>x. Ok (f x)), snd p)"

definition resolve_sqlite_dsn ::
    "('u, 'w) boot_env \<Rightarrow> string \<Rightarrow> string \<Rightarrow> string \<Rightarrow> 'w \<Rightarrow> (string, boot_error) result \<times> 'w" where
  "resolve_sqlite_dsn env dsn home module w =
     (case after_str ''@file('' dsn of
        Some rest \<Rightarrow>
          if CHR '')'' \<in> set rest then
            (let file = takeWhile (\<lambda>c. c \<noteq> CHR '')'') rest
             in if is_absolute file \<or> has_drive file then (Ok (sqlite_url file), w)
                else map_fst sqlite_url (module_path env home module file w))
          else (Err [''Invalid @file() syntax in SQLite DSN: '' @ dsn], w)
      | None \<Rightarrow>
          if dsn \<in> {''sqlite://'', ''sqlite:///'', ''sqlite:''}
          then map_fst sqlite_url (module_path env home module (module @ ''.sqlite'') w)
          else (Ok dsn, w))"

definition build_server_dsn ::
    "('u, 'w) boot_env \<Rightarrow> string \<Rightarrow> string option \<Rightarrow> nat option \<Rightarrow> string option \<Rightarrow> string option \<Rightarrow> string option \<Rightarrow>
     (string \<times> string) list \<Rightarrow> (string, boot_error) result" where
  "build_server_dsn env scheme host port user password dbname params =
     (let host = (case host of Some h \<Rightarrow> h | None \<Rightarrow> ''localhost'');
          user = (case user of Some u \<Rightarrow> u | None \<Rightarrow> ''postgres'')
      in and_then (map_err (\<lambda>e. [''Invalid scheme: '' @ scheme, e]) (be_url_parse env (scheme @ ''://dummy/''))) (\<lambda>u.
         and_then (map_err (\<lambda>e. [''Invalid host: '' @ host, e]) (be_set_host env host u)) (\<lambda>u.
         and_then (case port of Some p \<Rightarrow> ok_or [''Invalid port: '' @ show_nat p] (be_set_port env p u) | None \<Rightarrow> Ok u) (\<lambda>u.
         and_then (ok_or [''Failed to set username: '' @ user] (be_set_username env user u)) (\<lambda>u.
         and_then (case password of Some p \<Rightarrow> ok_or [''Failed to set password''] (be_set_password env p u) | None \<Rightarrow> Ok u) (\<lambda>u.
           let u = be_set_path env (case dbname of Some d \<Rightarrow> ''/'' @ be_urlencode env d | None \<Rightarrow> ''/'') u;
               u = fold (\<lambda>(k, v). be_append_pair env k v) params u
           in Ok (be_url_text env u)))))))"

definition query_part :: "string \<Rightarrow> string" where
  "query_part s = dropWhile (\<lambda>c. c \<noteq> CHR 0x3F) s"

definition build_sqlite_dsn_with_dbname_override ::
    "('u, 'w) boot_env \<Rightarrow> string \<Rightarrow> string \<Rightarrow> string \<Rightarrow> string \<Rightarrow> 'w \<Rightarrow> (string, boot_error) result \<times> 'w" where
  "build_sqlite_dsn_with_dbname_override env original dbname module home w =
     map_fst (\<lambda>p. sqlite_url p @ query_part original) (module_path env home module dbname w)"

definition build_sqlite_dsn ::
    "('u, 'w) boot_env \<Rightarrow> string option \<Rightarrow> string option \<Rightarrow> string option \<Rightarrow> string option \<Rightarrow> string \<Rightarrow> string \<Rightarrow> 'w \<Rightarrow>
     (string, boot_error) result \<times> 'w" where
  "build_sqlite_dsn env dsn file path dbname module home w =
     (case dsn of
        Some dsn \<Rightarrow>
          (case resolve_sqlite_dsn env dsn home module w of
             (Err e, w) \<Rightarrow> (Err e, w)
           | (Ok resolved, w) \<Rightarrow>
               (case dbname of
                  Some d \<Rightarrow> build_sqlite_dsn_with_dbname_override env resolved d module home w
                | None \<Rightarrow> (and_then (validate_dsn env resolved) (\<lambda>_. Ok resolved), w)))
      | None \<Rightarrow>
          (case path of
             Some path \<Rightarrow> (Ok (sqlite_url (if is_absolute path then path else path_join home path)), w)
           | None \<Rightarrow>
               (case file of
                  Some file \<Rightarrow> map_fst sqlite_url (module_path env home module file w)
                | None \<Rightarrow> map_fst sqlite_url (module_path env home module (module @ ''.sqlite'') w))))"

section \<open>Merging the settings of a module\<close>

record db_config_builder =
  cb_dsn :: "string option"
  cb_host :: "string option"
  cb_port :: "nat option"
  cb_user :: "string option"
  cb_password :: "string option"
  cb_dbname :: "string option"
  cb_params :: "(string \<times> string) list"
  cb_pool :: pool_cfg

definition builder_start :: db_config_builder where
  "builder_start = \<lparr>cb_dsn = None, cb_host = None, cb_port = None, cb_user = None, cb_password = None, cb_dbname = None,
     cb_params = [], cb_pool = default_pool\<rparr>"

text \<open>\<open>HashMap::extend\<close>.\<close>

definition extend_params :: "(string \<times> string) list option \<Rightarrow> (string \<times> string) list \<Rightarrow> (string \<times> string) list" where
  "extend_params ps m = fold (\<lambda>(k, v). AList.update k v) (case ps of Some ps \<Rightarrow> ps | None \<Rightarrow> []) m"

text \<open>The fields that both sources set; the pool is treated apart.\<close>

definition set_fields :: "db_conn_config \<Rightarrow> string option \<Rightarrow> db_config_builder \<Rightarrow> db_config_builder" where
  "set_fields c password b = b
     \<lparr>cb_host := or_opt (dc_host c) (cb_host b), cb_port := or_opt (dc_port c) (cb_port b),
      cb_user := or_opt (dc_user c) (cb_user b), cb_password := or_opt password (cb_password b),
      cb_dbname := or_opt (dc_dbname c) (cb_dbname b), cb_params := extend_params (dc_params c) (cb_params b)\<rparr>"

definition apply_global_server ::
    "('u, 'w) boot_env \<Rightarrow> db_conn_config \<Rightarrow> string \<Rightarrow> string \<Rightarrow> db_config_builder \<Rightarrow> 'w \<Rightarrow>
     (db_config_builder, boot_error) result \<times> 'w" where
  "apply_global_server env server home module b w =
     (case (case dc_dsn server of
              None \<Rightarrow> (Ok b, w)
            | Some dsn \<Rightarrow>
                (case expand_env_in_dsn env dsn of
                   Err e \<Rightarrow> (Err e, w)
                 | Ok expanded \<Rightarrow>
                     (case (if starts_with ''sqlite'' expanded then resolve_sqlite_dsn env expanded home module w
                            else (Ok expanded, w)) of
                        (Err e, w) \<Rightarrow> (Err e, w)
                      | (Ok resolved, w) \<Rightarrow> (and_then (validate_dsn env resolved) (\<lambda>_. Ok (b\<lparr>cb_dsn := Some resolved\<rparr>)), w)))) of
        (Err e, w) \<Rightarrow> (Err e, w)
      | (Ok b, w) \<Rightarrow>
          (and_then (resolve_opt_password env (dc_password server)) (\<lambda>password.
             let b = set_fields server password b
             in Ok (case dc_pool server of Some pool \<Rightarrow> b\<lparr>cb_pool := pool\<rparr> | None \<Rightarrow> b)), w))"

definition apply_module_dsn ::
    "('u, 'w) boot_env \<Rightarrow> string \<Rightarrow> string \<Rightarrow> string \<Rightarrow> db_config_builder \<Rightarrow> 'w \<Rightarrow> (db_config_builder, boot_error) result \<times> 'w" where
  "apply_module_dsn env dsn home module b w =
     (case (if starts_with ''sqlite'' dsn then resolve_sqlite_dsn env dsn home module w else (Ok dsn, w)) of
        (Err e, w) \<Rightarrow> (Err e, w)
      | (Ok resolved, w) \<Rightarrow> (and_then (validate_dsn env resolved) (\<lambda>_. Ok (b\<lparr>cb_dsn := Some resolved\<rparr>)), w))"

definition apply_module_fields ::
    "('u, 'w) boot_env \<Rightarrow> db_conn_config \<Rightarrow> db_config_builder \<Rightarrow> (db_config_builder, boot_error) result" where
  "apply_module_fields env m b =
     and_then (resolve_opt_password env (dc_password m)) (\<lambda>password.
       let b = set_fields m password b
       in Ok (case dc_pool m of
                Some pool \<Rightarrow> b\<lparr>cb_pool := (cb_pool b)
                  \<lparr>pc_max_conns := or_opt (pc_max_conns pool) (pc_max_conns (cb_pool b)),
                   pc_acquire_timeout := or_opt (pc_acquire_timeout pool) (pc_acquire_timeout (cb_pool b))\<rparr>\<rparr>
              | None \<Rightarrow> b))"

definition has_field_overrides :: "db_config_builder \<Rightarrow> bool" where
  "has_field_overrides b \<longleftrightarrow>
     cb_host b \<noteq> None \<or> cb_port b \<noteq> None \<or> cb_user b \<noteq> None \<or> cb_password b \<noteq> None \<or> cb_params b \<noteq> []"

definition decide_backend :: "db_config_builder \<Rightarrow> db_conn_config \<Rightarrow> bool" where
  "decide_backend b m \<longleftrightarrow>
     dc_file m \<noteq> None \<or> dc_path m \<noteq> None \<or>
     (case cb_dsn b of Some dsn \<Rightarrow> starts_with ''sqlite'' dsn | None \<Rightarrow> False) \<or> (dc_server m = None \<and> cb_dsn b = None)"

definition finalize_sqlite_dsn ::
    "('u, 'w) boot_env \<Rightarrow> db_config_builder \<Rightarrow> db_conn_config \<Rightarrow> string \<Rightarrow> string \<Rightarrow> 'w \<Rightarrow> (string, boot_error) result \<times> 'w" where
  "finalize_sqlite_dsn env b m module home w =
     build_sqlite_dsn env (cb_dsn b) (dc_file m) (dc_path m) (cb_dbname b) module home w"

definition missing_dbname :: "string \<Rightarrow> boot_error" where
  "missing_dbname module = [''Server-based database config for module '' @ quoted module @ '' missing required '' @ quoted ''dbname'']"

definition final_dbname :: "('u, 'w) boot_env \<Rightarrow> db_config_builder \<Rightarrow> string \<Rightarrow> (string, boot_error) result" where
  "final_dbname env b module =
     (case cb_dbname b of
        Some d \<Rightarrow> Ok d
      | None \<Rightarrow>
          (case Option.bind (cb_dsn b) (\<lambda>dsn. case be_url_parse env dsn of Ok u \<Rightarrow> Some (be_url_path env u) | Err _ \<Rightarrow> None) of
             Some (_ # c # cs) \<Rightarrow> Ok (c # cs)
           | _ \<Rightarrow> Err (missing_dbname module)))"

definition fields_dsn ::
    "('u, 'w) boot_env \<Rightarrow> string \<Rightarrow> db_config_builder \<Rightarrow> string \<Rightarrow> (string, boot_error) result" where
  "fields_dsn env scheme b dbname =
     build_server_dsn env scheme (cb_host b) (cb_port b) (cb_user b) (cb_password b) (Some dbname) (cb_params b)"

definition finalize_server_dsn :: "('u, 'w) boot_env \<Rightarrow> db_config_builder \<Rightarrow> string \<Rightarrow> (string, boot_error) result" where
  "finalize_server_dsn env b module =
     and_then (final_dbname env b module) (\<lambda>dbname.
       case cb_dsn b of
         None \<Rightarrow> fields_dsn env ''postgresql'' b dbname
       | Some dsn \<Rightarrow>
           if has_field_overrides b then
             and_then (map_err (\<lambda>e. [e]) (be_url_parse env dsn)) (\<lambda>u. fields_dsn env (be_url_scheme env u) b dbname)
           else
             (case be_url_parse env dsn of
                Ok u \<Rightarrow>
                  Ok (be_url_text env
                    (if dropWhile (\<lambda>c. c = CHR ''/'') (be_url_path env u) \<noteq> dbname then be_set_path env (''/'' @ dbname) u else u))
              | Err _ \<Rightarrow> fields_dsn env ''postgresql'' b dbname))"

definition global_server :: "'tr app_config \<Rightarrow> string \<Rightarrow> (db_conn_config, boot_error) result" where
  "global_server c name =
     ok_or [''Referenced server '' @ quoted name @ '' not found in global config'']
       (Option.bind (ap_database c) (\<lambda>g. map_of (gd_servers g) name))"

definition merged_builder ::
    "('u, 'w) boot_env \<Rightarrow> 'tr app_config \<Rightarrow> db_conn_config \<Rightarrow> string \<Rightarrow> string \<Rightarrow> 'w \<Rightarrow>
     (db_config_builder, boot_error) result \<times> 'w" where
  "merged_builder env c m module home w0 =
     (case (case dc_server m of
              None \<Rightarrow> (Ok builder_start, w0)
            | Some name \<Rightarrow>
                (case global_server c name of
                   Err e \<Rightarrow> (Err e, w0)
                 | Ok server \<Rightarrow> apply_global_server env server home module builder_start w0)) of
        (Err e, w) \<Rightarrow> (Err e, w)
      | (Ok b, w) \<Rightarrow>
          (case (case dc_dsn m of None \<Rightarrow> (Ok b, w) | Some dsn \<Rightarrow> apply_module_dsn env dsn home module b w) of
             (Err e, w) \<Rightarrow> (Err e, w)
           | (Ok b, w) \<Rightarrow> (apply_module_fields env m b, w)))"

text \<open>The redaction of the DSN for the log at the end can fail where the DSN does not parse as a URL.\<close>

definition redactable :: "('u, 'w) boot_env \<Rightarrow> string \<Rightarrow> (unit, boot_error) result" where
  "redactable env dsn =
     (if CHR ''@'' \<in> set dsn then and_then (map_err (\<lambda>e. [e]) (be_url_parse env dsn)) (\<lambda>_. Ok ()) else Ok ())"

definition build_final_db_for_module ::
    "('u, 'w) boot_env \<Rightarrow> 'tr app_config \<Rightarrow> string \<Rightarrow> string \<Rightarrow> 'w \<Rightarrow> ((string \<times> pool_cfg) option, boot_error) result \<times> 'w" where
  "build_final_db_for_module env c module home w0 =
     (case map_of (ap_modules c) module of
        None \<Rightarrow> (Ok None, w0)
      | Some raw \<Rightarrow>
          (case module_config_of_json (be_duration env) raw of
             None \<Rightarrow> (Err [''Invalid module config structure for '' @ quoted module], w0)
           | Some entry \<Rightarrow>
               (case mc_database entry of
                  None \<Rightarrow> (Ok None, w0)
                | Some m \<Rightarrow>
                    (case merged_builder env c m module home w0 of
                       (Err e, w) \<Rightarrow> (Err e, w)
                     | (Ok b, w) \<Rightarrow>
                         (case (if decide_backend b m then finalize_sqlite_dsn env b m module home w
                                else (finalize_server_dsn env b module, w)) of
                            (Err e, w) \<Rightarrow> (Err e, w)
                          | (Ok dsn, w) \<Rightarrow>
                              (and_then (validate_dsn env dsn) (\<lambda>_.
                               and_then (redactable env dsn) (\<lambda>_. Ok (Some (dsn, cb_pool b)))), w))))))"

section \<open>Out-of-process modules\<close>

record rendered_db_config =
  rd_global :: "global_database_config option"
  rd_module :: "db_conn_config option"

record 'tr rendered_module_config =
  rm_database :: "rendered_db_config option"
  rm_config :: json
  rm_logging :: "logging_config option"
  rm_tracing :: "'tr option"

definition render_module_config_for_oop ::
    "('u, 'w) boot_env \<Rightarrow> 'tr app_config \<Rightarrow> string \<Rightarrow> 'tr rendered_module_config" where
  "render_module_config_for_oop env c module =
     (let entry = parse_module_config env c module;
          db = (case entry of Ok e \<Rightarrow> mc_database e | Err _ \<Rightarrow> None)
      in \<lparr>rm_database = (if db \<noteq> None \<or> ap_database c \<noteq> None then Some \<lparr>rd_global = ap_database c, rd_module = db\<rparr> else None),
          rm_config = (case entry of Ok e \<Rightarrow> mc_config e | Err _ \<Rightarrow> JNull),
          rm_logging = ap_logging c, rm_tracing = ap_tracing c\<rparr>)"

definition merge_logging_configs :: "logging_config option \<Rightarrow> logging_config option \<Rightarrow> logging_config" where
  "merge_logging_configs master own =
     fold (\<lambda>(k, s). AList.update k s) (case own of Some l \<Rightarrow> l | None \<Rightarrow> []) (case master of Some l \<Rightarrow> l | None \<Rightarrow> [])"

text \<open>The two steps of \<open>build_merged_db_options\<close>: what the master rendered, then the local sections over it.\<close>

definition rendered_sections ::
    "(nat \<Rightarrow> string) \<Rightarrow> string \<Rightarrow> rendered_db_config option \<Rightarrow> (string \<times> json) list" where
  "rendered_sections show_duration module rendered =
     (case rendered of
        None \<Rightarrow> []
      | Some r \<Rightarrow>
          (case rd_global r of Some g \<Rightarrow> [(''database'', global_to_json show_duration g)] | None \<Rightarrow> []) @
          (case rd_module r of
             Some m \<Rightarrow> [(''modules'', JObject [(module, JObject [(''database'', conn_to_json show_duration m)])])]
           | None \<Rightarrow> []))"

definition overlay :: "string \<Rightarrow> json \<Rightarrow> (string \<times> json) list \<Rightarrow> (string \<times> json) list" where
  "overlay k v fs =
     (case map_of fs k of
        Some old \<Rightarrow> AList.update k (merge_json_objects old v) fs
      | None \<Rightarrow> fs @ [(k, v)])"

definition or_insert :: "string \<Rightarrow> json \<Rightarrow> (string \<times> json) list \<Rightarrow> (string \<times> json) list" where
  "or_insert k v fs = (if map_of fs k = None then fs @ [(k, v)] else fs)"

fun update_object :: "((string \<times> json) list \<Rightarrow> (string \<times> json) list) \<Rightarrow> json \<Rightarrow> json" where
  "update_object f (JObject fs) = JObject (f fs)"
| "update_object f j = j"

definition update_entry :: "string \<Rightarrow> ((string \<times> json) list \<Rightarrow> (string \<times> json) list) \<Rightarrow> (string \<times> json) list \<Rightarrow> (string \<times> json) list" where
  "update_entry k f fs =
     (let fs = or_insert k (JObject []) fs
      in case map_of fs k of Some v \<Rightarrow> AList.update k (update_object f v) fs | None \<Rightarrow> fs)"

definition overlay_module :: "string \<Rightarrow> json \<Rightarrow> (string \<times> json) list \<Rightarrow> (string \<times> json) list" where
  "overlay_module module db fs = update_entry ''modules'' (update_entry module (overlay ''database'' db)) fs"

datatype db_options = DbNone | DbManaged db_manager

definition local_module_db :: "'tr app_config \<Rightarrow> string \<Rightarrow> json option" where
  "local_module_db c module = Option.bind (map_of (ap_modules c) module) (jget ''database'')"

definition build_merged_db_options ::
    "('u, 'w) boot_env \<Rightarrow> string \<Rightarrow> string \<Rightarrow> rendered_db_config option \<Rightarrow> 'tr app_config \<Rightarrow> db_options" where
  "build_merged_db_options env home module rendered own =
     (let has_rendered = (case rendered of Some r \<Rightarrow> rd_module r \<noteq> None \<or> rd_global r \<noteq> None | None \<Rightarrow> False);
          has_local = (ap_database own \<noteq> None \<or> local_module_db own module \<noteq> None)
      in if \<not> has_rendered \<and> \<not> has_local then DbNone
         else
           let base = rendered_sections (be_show_duration env) module rendered;
               global = (case ap_database own of
                   Some g \<Rightarrow> overlay ''database'' (global_to_json (be_show_duration env) g) base
                 | None \<Rightarrow> base);
               whole = (case local_module_db own module of Some db \<Rightarrow> overlay_module module db global | None \<Rightarrow> global)
           in DbManaged (from_figment (be_duration env) (Some (JObject whole)) home))"

definition keep_config :: "json \<Rightarrow> (string \<times> json) list \<Rightarrow> (string \<times> json) list" where
  "keep_config rendered fs =
     (if (case map_of fs ''config'' of None \<Rightarrow> True | Some v \<Rightarrow> is_null v) then AList.update ''config'' rendered fs else fs)"

definition build_oop_config_and_db ::
    "('u, 'w) boot_env \<Rightarrow> 'tr app_config \<Rightarrow> string \<Rightarrow> 'tr rendered_module_config option \<Rightarrow>
     'tr app_config \<times> logging_config \<times> db_options" where
  "build_oop_config_and_db env own module rendered =
     (let final = (case rendered of
              Some r \<Rightarrow> own\<lparr>ap_modules := update_entry module (keep_config (rm_config r)) (ap_modules own)\<rparr>
            | None \<Rightarrow> own)
      in (final,
          merge_logging_configs (Option.bind rendered rm_logging) (ap_logging own),
          build_merged_db_options env (ap_home_dir own) module (Option.bind rendered rm_database) own))"

text \<open>The part of \<open>run_oop_with_options\<close> before the runtime starts: \<open>rendered\<close> is the variable
  \<open>MODKIT_MODULE_CONFIG\<close>, parsed where it is set and valid.\<close>

definition prepare_oop ::
    "('u, 'w) boot_env \<Rightarrow> (string \<Rightarrow> 'w \<Rightarrow> module_file list option) \<Rightarrow> ('tr app_config, string) result option \<Rightarrow> nat \<Rightarrow>
     string \<Rightarrow> 'tr rendered_module_config option \<Rightarrow> 'w \<Rightarrow>
     ('tr app_config \<times> logging_config \<times> db_options, boot_error) result \<times> 'w" where
  "prepare_oop env read_dir config_file verbose module rendered w =
     (case load_or_default env read_dir config_file w of
        (Err e, w) \<Rightarrow> (Err e, w)
      | (Ok c, w) \<Rightarrow> (Ok (build_oop_config_and_db env (apply_cli_overrides verbose c) module rendered), w))"

section \<open>The host\<close>

text \<open>The sections of the serialised configuration that the manager reads.\<close>

definition figment_data :: "('u, 'w) boot_env \<Rightarrow> 'tr app_config \<Rightarrow> json" where
  "figment_data env c =
     JObject [(''database'', opt_json (global_to_json (be_show_duration env)) (ap_database c)), (''modules'', JObject (ap_modules c))]"

definition mock_database :: json where
  "mock_database = JObject [(''dsn'', JString ''sqlite::memory:''), (''params'', JObject [(''journal_mode'', JString ''WAL'')])]"

definition override_modules_with_mock_db :: "'tr app_config \<Rightarrow> 'tr app_config" where
  "override_modules_with_mock_db c =
     c\<lparr>ap_modules := map (\<lambda>(k, v). (k, update_object (AList.update ''database'' mock_database) v)) (ap_modules c)\<rparr>"

definition resolve_db_options :: "('u, 'w) boot_env \<Rightarrow> bool \<Rightarrow> 'tr app_config \<Rightarrow> db_options" where
  "resolve_db_options env mock c =
     (if ap_database c = None then DbNone
      else
        let source = (if mock then override_modules_with_mock_db c else c)
        in DbManaged (from_figment (be_duration env) (Some (figment_data env source)) (ap_home_dir c)))"

record 'tr oop_spawn =
  os_module_name :: string
  os_binary :: string
  os_args :: "string list"
  os_env :: "(string \<times> string) list"
  os_working_directory :: "string option"
  os_rendered :: "'tr rendered_module_config"

definition oop_spawn_of ::
    "('u, 'w) boot_env \<Rightarrow> 'tr app_config \<Rightarrow> string \<Rightarrow> ('tr oop_spawn option, boot_error) result" where
  "oop_spawn_of env c module =
     and_then (get_module_runtime_config env c module) (\<lambda>rt.
       case rt of
         Some r \<Rightarrow>
           if mr_type r = Oop then
             and_then (ok_or [''module '' @ quoted module @ '' is type=oop but execution config is missing''] (mr_execution r)) (\<lambda>ex.
             and_then (map_err (\<lambda>e. [show_home_dir_error e]) (normalize_executable_path env (ec_executable_path ex))) (\<lambda>binary.
               Ok (Some \<lparr>os_module_name = module, os_binary = binary, os_args = ec_args ex, os_env = ec_environment ex,
                 os_working_directory = ec_working_directory ex, os_rendered = render_module_config_for_oop env c module\<rparr>)))
           else Ok None
       | None \<Rightarrow> Ok None)"

definition build_oop_spawn_options :: "('u, 'w) boot_env \<Rightarrow> 'tr app_config \<Rightarrow> ('tr oop_spawn list option, boot_error) result" where
  "build_oop_spawn_options env c =
     and_then (collect (oop_spawn_of env c) (map fst (ap_modules c))) (\<lambda>specs.
       let ms = List.map_filter (\<lambda>x. x) specs in Ok (if ms = [] then None else Some ms))"

section \<open>Lemmas\<close>

lemma map_of_overlay: "map_of (overlay k v fs) k = Some (case map_of fs k of Some old \<Rightarrow> merge_json_objects old v | None \<Rightarrow> v)"
  by (auto simp: overlay_def map_add_def update_conv' split: option.splits)

lemma map_of_or_insert: "map_of (or_insert k v fs) j = (if j = k \<and> map_of fs k = None then Some v else map_of fs j)"
  by (auto simp: or_insert_def map_add_def split: option.splits)

lemma map_of_update_entry:
  "map_of (update_entry k f fs) j =
     (if j = k then Some (update_object f (case map_of fs k of Some v \<Rightarrow> v | None \<Rightarrow> JObject [])) else map_of fs j)"
  by (auto simp: update_entry_def Let_def map_of_or_insert update_conv' split: option.splits)

lemma global_json_auto: "gd_auto_provision g = None \<Longrightarrow> jget ''auto_provision'' (global_to_json sd g) = Some JNull"
  by (simp add: global_to_json_def opt_json_def)

lemma merge_scalar:
  assumes "distinct (map fst fs)" "map_of fs k = Some v" "\<not> is_object v"
  shows "jget k (merge_json_objects old (JObject fs)) = Some v"
proof (cases old)
  case (JObject t)
  with assms show ?thesis by (simp add: map_of_merge_fields merged_def split: option.splits)
qed (use assms(2) in simp_all)

lemma merge_keeps_source_null:
  assumes "gd_auto_provision g = None"
  shows "jget ''auto_provision'' (merge_json_objects old (global_to_json sd g)) = Some JNull"
proof -
  let ?fs = "[(''servers'', JObject (map (\<lambda>(k, c). (k, conn_to_json sd c)) (gd_servers g))), (''auto_provision'', JNull)]"
  have "jget ''auto_provision'' (merge_json_objects old (JObject ?fs)) = Some JNull" by (rule merge_scalar) simp_all
  then show ?thesis using assms by (simp only: global_to_json_def opt_json_def option.case)
qed

lemma merge_keeps_servers:
  assumes "gd_servers g = []"
  shows "jget ''servers'' (merge_json_objects (global_to_json sd m) (global_to_json sd g)) = jget ''servers'' (global_to_json sd m)"
  using assms by (simp add: global_to_json_def map_of_merge_fields merged_def)

lemma null_auto_provision:
  "jget ''auto_provision'' j = Some JNull \<Longrightarrow> global_of_json pd j = Some g \<Longrightarrow> gd_auto_provision g = None"
  by (cases j) (auto simp: global_of_json_def opt_field_def bind_eq_Some_conv split: if_splits)

lemma auto_provision_of_null:
  assumes "map_of fs ''database'' = Some j" "jget ''auto_provision'' j = Some JNull"
  shows "auto_provision (from_figment pd (Some (JObject fs)) home)"
  using assms null_auto_provision[OF assms(2)]
  by (cases "global_of_json pd j") (auto simp: auto_provision_def from_figment_def)

lemma oop_global_auto:
  assumes "ap_database own = Some g" "gd_auto_provision g = None"
  shows "\<exists>mgr. build_merged_db_options env home module rendered own = DbManaged mgr \<and> auto_provision mgr \<and>
    (\<forall>d m. rendered = Some d \<and> rd_global d = Some m \<and> gd_servers g = [] \<longrightarrow>
      Option.bind (jget ''database'' (dm_data mgr)) (jget ''servers'') = jget ''servers'' (global_to_json (be_show_duration env) m))"
proof -
  let ?base = "rendered_sections (be_show_duration env) module rendered"
  let ?global = "overlay ''database'' (global_to_json (be_show_duration env) g) ?base"
  let ?whole = "case local_module_db own module of Some db \<Rightarrow> overlay_module module db ?global | None \<Rightarrow> ?global"
  have whole: "map_of ?whole ''database'' = map_of ?global ''database''"
    by (simp add: overlay_module_def map_of_update_entry split: option.splits)
  also have "\<dots> = Some (case map_of ?base ''database'' of
      Some old \<Rightarrow> merge_json_objects old (global_to_json (be_show_duration env) g)
    | None \<Rightarrow> global_to_json (be_show_duration env) g)"
    by (rule map_of_overlay)
  finally have merged: "map_of ?whole ''database'' = Some (case map_of ?base ''database'' of
      Some old \<Rightarrow> merge_json_objects old (global_to_json (be_show_duration env) g)
    | None \<Rightarrow> global_to_json (be_show_duration env) g)" .
  then have "\<exists>j. map_of ?whole ''database'' = Some j \<and> jget ''auto_provision'' j = Some JNull"
    using merge_keeps_source_null[OF assms(2)] global_json_auto[OF assms(2)] by (auto split: option.splits)
  then obtain j where "map_of ?whole ''database'' = Some j" "jget ''auto_provision'' j = Some JNull" by blast
  then have a: "auto_provision (from_figment (be_duration env) (Some (JObject ?whole)) home)" by (rule auto_provision_of_null)
  have "Option.bind (map_of ?whole ''database'') (jget ''servers'') = jget ''servers'' (global_to_json (be_show_duration env) m)"
    if "rendered = Some d" "rd_global d = Some m" "gd_servers g = []" for d m
    unfolding merged using that merge_keeps_servers[OF that(3)] by (simp add: rendered_sections_def)
  with a assms(1) show ?thesis by (simp add: build_merged_db_options_def Let_def from_figment_def)
qed

lemma merged_logging_own: "map_of (merge_logging_configs master (Some [(k, s)])) j =
    (if j = k then Some s else Option.bind master (\<lambda>l. map_of l j))"
  by (cases master) (simp_all add: merge_logging_configs_def update_conv')

lemma normalize_home_dir_Ok:
  "normalize_home_dir env c w = (Ok c', w') \<Longrightarrow> \<exists>p. c' = c\<lparr>ap_home_dir := p\<rparr>"
  by (auto simp: normalize_home_dir_def Let_def split: prod.splits result.splits)

lemma load_defaults:
  assumes "load_or_default env read_dir None w = (Ok c, w')"
  shows "\<exists>p. c = default_app_config\<lparr>ap_home_dir := p\<rparr>"
  using assms normalize_home_dir_Ok[of env default_app_config w c w']
  by (auto simp: load_or_default_def context_err_def map_err_Ok_iff split: prod.splits)

lemma parse_sqlite_url:
  assumes "is_absolute p" "CHR 0x3F \<notin> set p" "CHR 0x5C \<notin> set p"
  shows "parse_sqlite_path_from_dsn (sqlite_url p) = Ok p"
proof -
  have m: "map (\<lambda>c. if c = CHR 0x5C then CHR ''/'' else c) p = p" using assms(3) by (induction p) auto
  have q: "before_query p = p" using assms(2) by (auto simp: before_query_def takeWhile_eq_all_conv)
  have d: "strip_prefix ''//'' p = None" if "has_drive p"
    using that by (auto simp: has_drive_def split: list.splits)
  show ?thesis using assms(1) q d by (auto simp: sqlite_url_def m parse_sqlite_path_from_dsn_def)
qed

lemma sqlite_url_prefix: "starts_with ''sqlite:'' (sqlite_url p)"
  by (simp add: sqlite_url_def starts_with_def Let_def)

lemma expand_tilde_cases:
  "expand_tilde env raw = Ok p \<Longrightarrow> p = raw \<or> (\<exists>h. be_var env ''HOME'' = Ok h \<and> (p = h \<or> (\<exists>rest. raw = ''~/'' @ rest \<and> p = path_join h rest)))"
  by (auto simp: expand_tilde_def var_home_def res_simps strip_prefix_Some_iff split: option.splits if_splits)

section \<open>Properties\<close>

text \<open>C32. An out-of-process module that starts without a configuration file of its own logs its default section by the built-in
  settings and provisions its databases, whatever default section and \<open>auto_provision\<close> the master rendered for it. Nothing else
  of the master is lost: the other log sections and the global servers are those it rendered.\<close>

theorem oop_defaults_override_the_master:
  assumes "prepare_oop env read_dir None verbose module (Some rendered) w = (Ok (config, logging, db), w')"
  shows "(\<forall>sec. map_of logging sec =
      (if sec = ''default'' then Some ((snd (hd default_logging_config))\<lparr>lg_console_level := console_level verbose ''info''\<rparr>)
       else Option.bind (rm_logging rendered) (\<lambda>l. map_of l sec))) \<and>
    (\<exists>mgr. db = DbManaged mgr \<and> auto_provision mgr \<and>
      (\<forall>d m. rm_database rendered = Some d \<and> rd_global d = Some m \<longrightarrow>
        Option.bind (jget ''database'' (dm_data mgr)) (jget ''servers'') = jget ''servers'' (global_to_json (be_show_duration env) m)))"
proof -
  obtain c where c: "load_or_default env read_dir None w = (Ok c, w')"
    and b: "build_oop_config_and_db env (apply_cli_overrides verbose c) module (Some rendered) = (config, logging, db)"
    using assms by (auto simp: prepare_oop_def split: prod.splits result.splits)
  obtain p where p: "c = default_app_config\<lparr>ap_home_dir := p\<rparr>" using load_defaults[OF c] by blast
  have own: "ap_logging (apply_cli_overrides verbose c) =
      Some [(''default'', (snd (hd default_logging_config))\<lparr>lg_console_level := console_level verbose ''info''\<rparr>)]"
    "ap_database (apply_cli_overrides verbose c) = Some \<lparr>gd_servers = [], gd_auto_provision = None\<rparr>"
    by (simp_all add: p apply_cli_overrides_def default_app_config_def default_logging_config_def)
  have l: "logging = merge_logging_configs (Option.bind (Some rendered) rm_logging) (ap_logging (apply_cli_overrides verbose c))"
    and d: "db = build_merged_db_options env (ap_home_dir (apply_cli_overrides verbose c)) module
        (Option.bind (Some rendered) rm_database) (apply_cli_overrides verbose c)"
    using b by (auto simp: build_oop_config_and_db_def Let_def)
  have "map_of logging sec =
      (if sec = ''default'' then Some ((snd (hd default_logging_config))\<lparr>lg_console_level := console_level verbose ''info''\<rparr>)
       else Option.bind (rm_logging rendered) (\<lambda>l. map_of l sec))" for sec
    unfolding l own(1) merged_logging_own by simp
  moreover have "\<exists>mgr. db = DbManaged mgr \<and> auto_provision mgr \<and>
      (\<forall>d m. rm_database rendered = Some d \<and> rd_global d = Some m \<longrightarrow>
        Option.bind (jget ''database'' (dm_data mgr)) (jget ''servers'') = jget ''servers'' (global_to_json (be_show_duration env) m))"
    using oop_global_auto[OF own(2), of env "ap_home_dir (apply_cli_overrides verbose c)" module "rm_database rendered"]
    by (simp add: d)
  ultimately show ?thesis by blast
qed

text \<open>For a module that configures only a file, the DSN that the configuration resolves to names the same path that the database
  manager opens.\<close>

theorem resolvers_agree_on_files:
  assumes "build_final_db_for_module env c module home w = (Ok (Some (dsn, pool)), w')"
    and "get_module_db_config env c module = Some (empty_config\<lparr>dc_file := Some name\<rparr>)"
    and "is_absolute home" "CHR 0x3F \<notin> set (path_join (path_join home module) name)"
    "CHR 0x5C \<notin> set (path_join (path_join home module) name)"
  shows "parse_sqlite_path_from_dsn dsn = Ok (path_join (path_join home module) name) \<and>
    (\<forall>denv mgr v cfg v'. finalize_sqlite_paths denv mgr (empty_config\<lparr>dc_file := Some name\<rparr>) (path_join home module) v = (Ok cfg, v') \<longrightarrow>
      dc_path cfg = Some (path_join (path_join home module) name))"
proof -
  let ?p = "path_join (path_join home module) name"
  have abs: "is_absolute ?p" using assms(3) by (simp add: join_absolute)
  have "dsn = sqlite_url ?p"
    using assms(1,2)
    by (auto simp: build_final_db_for_module_def get_module_db_config_def empty_config_def merged_builder_def builder_start_def
        apply_module_fields_def resolve_opt_password_def set_fields_def or_opt_def extend_params_def decide_backend_def
        finalize_sqlite_dsn_def build_sqlite_dsn_def map_fst_def module_path_def Let_def bind_eq_Some_conv res_simps
        split: option.splits prod.splits result.splits if_splits)
  then have "parse_sqlite_path_from_dsn dsn = Ok ?p" using parse_sqlite_url[OF abs assms(4,5)] by simp
  moreover have "dc_path cfg = Some ?p"
    if "finalize_sqlite_paths denv mgr (empty_config\<lparr>dc_file := Some name\<rparr>) (path_join home module) v = (Ok cfg, v')" for denv mgr v cfg v'
    using that abs by (auto simp: finalize_sqlite_paths_def empty_config_def absolute_path_def Let_def split: prod.splits result.splits)
  ultimately show ?thesis by blast
qed

text \<open>The configuration section of an out-of-process module is the local one where it is present and not null, else the
  master's; the entries of the other modules stay.\<close>

theorem local_config_section_wins:
  assumes "build_oop_config_and_db env own module (Some rendered) = (config, logging, db)"
    and "map_of (ap_modules own) module = Some (JObject fs)"
  shows "(\<exists>entry. map_of (ap_modules config) module = Some entry \<and>
      jget ''config'' entry = Some (case map_of fs ''config'' of
        Some v \<Rightarrow> if is_null v then rm_config rendered else v | None \<Rightarrow> rm_config rendered)) \<and>
    (\<forall>other. other \<noteq> module \<longrightarrow> map_of (ap_modules config) other = map_of (ap_modules own) other)"
  using assms
  by (auto simp: build_oop_config_and_db_def Let_def map_of_update_entry keep_config_def update_conv' split: option.splits)

text \<open>In mock mode every module whose entry is an object has the in-memory database and nothing of its own.\<close>

theorem mock_mode_replaces_every_database:
  assumes "resolve_db_options env True c = DbManaged mgr" "map_of (ap_modules c) module = Some (JObject fs)"
    and "de_duration denv = be_duration env"
  shows "module_db_config denv mgr module = Some (empty_config\<lparr>dc_dsn := Some ''sqlite::memory:'',
    dc_params := Some [(''journal_mode'', ''WAL'')]\<rparr>)"
proof -
  have m: "map_of (map (\<lambda>(k, v). (k, update_object (AList.update ''database'' mock_database) v)) ms) module =
      map_option (update_object (AList.update ''database'' mock_database)) (map_of ms module)" for ms
    by (induction ms) auto
  have "jget ''modules'' (dm_data mgr) =
      Some (JObject (map (\<lambda>(k, v). (k, update_object (AList.update ''database'' mock_database) v)) (ap_modules c)))"
    using assms(1) by (auto simp: resolve_db_options_def Let_def from_figment_def figment_data_def
        override_modules_with_mock_db_def split: if_splits)
  with m[of "ap_modules c"] assms(2) have "module_db_config denv mgr module = conn_of_json (de_duration denv) mock_database"
    by (simp add: module_db_config_def update_conv')
  then show ?thesis
    by (simp add: mock_database_def conn_of_json_def known_fields_def conn_fields_def opt_field_def as_map_def empty_config_def)
qed

text \<open>A home directory that was configured resolves to an absolute path or an error; an executable resolves to an absolute
  path or to a bare file name beside the running executable.\<close>

theorem resolved_paths_are_anchored:
  "(resolve_home_dir env (Some raw) subdir create w = (Ok p, w') \<longrightarrow> is_absolute p) \<and>
   (normalize_executable_path env raw = Ok q \<longrightarrow> is_absolute q \<or>
     (\<exists>exe dir f. be_current_exe env = Ok exe \<and> be_parent env exe = Some dir \<and> q = path_join dir f \<and>
       expand_tilde env raw = Ok f \<and> CHR ''/'' \<notin> set raw))"
  by (auto simp: resolve_home_dir_def normalize_executable_path_def res_simps split: result.splits prod.splits if_splits)

section \<open>Witnesses\<close>

text \<open>An environment where every directory can be created; URLs are their text.\<close>

definition plain_boot :: "(string, unit) boot_env" where
  "plain_boot = \<lparr>be_var = (\<lambda>x. if x = ''HOME'' then Ok ''/root'' else Err ''not found''),
     be_create_dir_all = (\<lambda>_ w. (Ok (), w)), be_current_exe = Ok ''/opt/hs'', be_parent = (\<lambda>_. Some ''/opt''),
     be_dsn_parse = (\<lambda>_. Ok ()), be_duration = (\<lambda>_. None), be_show_duration = show_nat,
     be_url_parse = Ok, be_url_scheme = (\<lambda>u. u), be_url_path = (\<lambda>u. u), be_url_text = (\<lambda>u. u),
     be_set_host = (\<lambda>_ u. Ok u), be_set_port = (\<lambda>_. Some), be_set_username = (\<lambda>_. Some), be_set_password = (\<lambda>_. Some),
     be_set_path = (\<lambda>_ u. u), be_append_pair = (\<lambda>_ _ u. u), be_urlencode = (\<lambda>s. s)\<rparr>"

text \<open>A master that switched provisioning off.\<close>

definition strict_master :: "unit rendered_module_config" where
  "strict_master = \<lparr>rm_database = Some \<lparr>rd_global = Some \<lparr>gd_servers = [], gd_auto_provision = Some False\<rparr>, rd_module = None\<rparr>,
     rm_config = JBool True, rm_logging = None, rm_tracing = None\<rparr>"

definition file_app :: "unit app_config" where
  "file_app = default_app_config\<lparr>ap_home_dir := ''/srv'',
     ap_modules := [(''users'', JObject [(''database'', JObject [(''file'', JString ''u.db'')])])]\<rparr>"

theorem oop_defaults_override_the_master_witness:
  "\<exists>c l mgr. prepare_oop plain_boot (\<lambda>_ _. None) None 0 ''users'' (Some strict_master) () = (Ok (c, l, DbManaged mgr), ()) \<and>
     auto_provision mgr"
proof -
  have h: "load_or_default plain_boot (\<lambda>_ _. None) None () = (Ok ((default_app_config :: unit app_config)\<lparr>ap_home_dir := ''/root/.hyperspot''\<rparr>), ())"
    by code_simp
  obtain c l db where p: "prepare_oop plain_boot (\<lambda>_ _. None) None 0 ''users'' (Some strict_master) () = (Ok (c, l, db), ())"
    unfolding prepare_oop_def h by (simp add: build_oop_config_and_db_def)
  from oop_defaults_override_the_master[OF p] p show ?thesis by blast
qed

theorem resolvers_agree_on_files_witness:
  "build_final_db_for_module plain_boot file_app ''users'' ''/srv'' () = (Ok (Some (''sqlite:///srv/users/u.db'', default_pool)), ()) \<and>
   parse_sqlite_path_from_dsn ''sqlite:///srv/users/u.db'' = Ok ''/srv/users/u.db''"
proof -
  have b: "build_final_db_for_module plain_boot file_app ''users'' ''/srv'' () =
      (Ok (Some (''sqlite:///srv/users/u.db'', default_pool)), ())" by code_simp
  have g: "get_module_db_config plain_boot file_app ''users'' = Some (empty_config\<lparr>dc_file := Some ''u.db''\<rparr>)" by code_simp
  have p: "path_join (path_join ''/srv'' ''users'') ''u.db'' = ''/srv/users/u.db''" "is_absolute ''/srv''" by code_simp+
  have q: "CHR 0x3F \<notin> set (path_join (path_join ''/srv'' ''users'') ''u.db'')"
    "CHR 0x5C \<notin> set (path_join (path_join ''/srv'' ''users'') ''u.db'')" by (simp_all add: p)
  from conjunct1[OF resolvers_agree_on_files[OF b g p(2) q]] b show ?thesis unfolding p by blast
qed

theorem local_config_section_wins_witness:
  "\<exists>c l db. build_oop_config_and_db plain_boot file_app ''users'' (Some strict_master) = (c, l, db) \<and>
     Option.bind (map_of (ap_modules c) ''users'') (jget ''config'') = Some (JBool True)"
proof -
  obtain c l db where b: "build_oop_config_and_db plain_boot file_app ''users'' (Some strict_master) = (c, l, db)"
    by (cases "build_oop_config_and_db plain_boot file_app ''users'' (Some strict_master)")
  have "map_of (ap_modules file_app) ''users'' = Some (JObject [(''database'', JObject [(''file'', JString ''u.db'')])])"
    by (simp add: file_app_def)
  from local_config_section_wins[OF b this] b show ?thesis by (auto simp: strict_master_def)
qed

theorem mock_mode_replaces_every_database_witness:
  "\<exists>mgr. resolve_db_options plain_boot True file_app = DbManaged mgr \<and>
     module_db_config open_env mgr ''users'' = Some (empty_config\<lparr>dc_dsn := Some ''sqlite::memory:'',
       dc_params := Some [(''journal_mode'', ''WAL'')]\<rparr>)"
proof -
  obtain mgr where m: "resolve_db_options plain_boot True file_app = DbManaged mgr"
    by (simp add: resolve_db_options_def file_app_def default_app_config_def)
  have "map_of (ap_modules file_app) ''users'' = Some (JObject [(''database'', JObject [(''file'', JString ''u.db'')])])"
    by (simp add: file_app_def)
  from mock_mode_replaces_every_database[OF m this, of open_env] m show ?thesis by (simp add: plain_boot_def open_env_def)
qed

theorem resolved_paths_are_anchored_witness:
  "resolve_home_dir plain_boot (Some ''~/hs'') ''.hyperspot'' True () = (Ok ''/root/hs'', ()) \<and> is_absolute ''/root/hs'' \<and>
   normalize_executable_path plain_boot ''~/hs'' = Ok ''/root/hs''"
proof -
  have r: "resolve_home_dir plain_boot (Some ''~/hs'') ''.hyperspot'' True () = (Ok ''/root/hs'', ())"
    "normalize_executable_path plain_boot ''~/hs'' = Ok ''/root/hs''" by code_simp+
  with resolved_paths_are_anchored[where env = plain_boot and raw = "''~/hs''" and p = "''/root/hs''" and subdir = "''.hyperspot''"
      and create = True and w = "()" and w' = "()"]
  show ?thesis by blast
qed

end
