(* ===== verification/Document.thy ===== *)
theory Document
  imports Prelude "HOL-Library.Word"
begin

text \<open>
  The documents of the file parser, \<open>modules/file_parser/src/domain/ir.rs\<close>, and their Markdown form,
  \<open>modules/file_parser/src/domain/markdown.rs\<close>. An output buffer that only grows is the string a function returns; the
  document's id and its times are opaque.
\<close>

section \<open>Intermediate representation\<close>

datatype parsed_source = LocalPath string | Uploaded string | Url string

record inline_style =
  st_bold :: bool
  st_italic :: bool
  st_underline :: bool
  st_strike :: bool
  st_code :: bool

definition plain_style :: inline_style where
  "plain_style = \<lparr>st_bold = False, st_italic = False, st_underline = False, st_strike = False, st_code = False\<rparr>"

datatype inline = Text string inline_style | Link string string inline_style | Code string inline_style

definition plain :: "string \<Rightarrow> inline" where
  "plain t = Text t plain_style"

datatype parsed_block =
    Heading "8 word" "inline list"
  | Paragraph "inline list"
  | ListItem "8 word" bool "parsed_block list"
  | CodeBlock "string option" string
  | Table table_block
  | Quote "parsed_block list"
  | HorizontalRule
  | Image "string option" "string option" "string option"
  | PageBreak
and table_block = TableBlock "table_row list"
and table_row = TableRow bool "table_cell list"
and table_cell = TableCell "parsed_block list"

record 't parsed_metadata =
  pm_source :: parsed_source
  pm_original_filename :: "string option"
  pm_content_type :: "string option"
  pm_created_at :: "'t option"
  pm_modified_at :: "'t option"
  pm_is_stub :: bool

record ('u, 't) parsed_document =
  pd_id :: "'u option"
  pd_title :: "string option"
  pd_language :: "string option"
  pd_meta :: "'t parsed_metadata"
  pd_blocks :: "parsed_block list"

record ('u, 't) document_builder =
  db_id :: "'u option"
  db_title :: "string option"
  db_language :: "string option"
  db_source :: parsed_source
  db_original_filename :: "string option"
  db_content_type :: "string option"
  db_created_at :: "'t option"
  db_modified_at :: "'t option"
  db_is_stub :: bool
  db_blocks :: "parsed_block list"

text \<open>A fresh id is an argument: \<open>Uuid::now_v7\<close>.\<close>

definition document_builder_new :: "'u \<Rightarrow> parsed_source \<Rightarrow> ('u, 't) document_builder" where
  "document_builder_new fresh source =
     \<lparr>db_id = Some fresh, db_title = None, db_language = None, db_source = source, db_original_filename = None,
      db_content_type = None, db_created_at = None, db_modified_at = None, db_is_stub = False, db_blocks = []\<rparr>"

definition build_document :: "'u \<Rightarrow> ('u, 't) document_builder \<Rightarrow> ('u, 't) parsed_document" where
  "build_document fresh b =
     \<lparr>pd_id = (case db_id b of Some i \<Rightarrow> Some i | None \<Rightarrow> Some fresh), pd_title = db_title b, pd_language = db_language b,
      pd_meta = \<lparr>pm_source = db_source b, pm_original_filename = db_original_filename b, pm_content_type = db_content_type b,
        pm_created_at = db_created_at b, pm_modified_at = db_modified_at b, pm_is_stub = db_is_stub b\<rparr>,
      pd_blocks = db_blocks b\<rparr>"

section \<open>Rendering\<close>

definition newline :: char where
  "newline = CHR 0x0A"

definition opt_str :: "string option \<Rightarrow> string" where
  "opt_str s = (case s of Some t \<Rightarrow> t | None \<Rightarrow> [])"

text \<open>\<open>str::lines\<close>: the pieces between line feeds, without one carriage return at their end, and without an empty last piece.\<close>

definition strip_cr :: "string \<Rightarrow> string" where
  "strip_cr s = (if s \<noteq> [] \<and> last s = CHR 0x0D then butlast s else s)"

fun terminated_lines :: "string list \<Rightarrow> string list" where
  "terminated_lines [] = []"
| "terminated_lines [l] = (if l = [] then [] else [l])"
| "terminated_lines (l # ls) = strip_cr l # terminated_lines ls"

definition str_lines :: "string \<Rightarrow> string list" where
  "str_lines s = terminated_lines (split_on newline s)"

definition replace_char :: "char \<Rightarrow> string \<Rightarrow> string \<Rightarrow> string" where
  "replace_char c r s = concat (map (\<lambda>x. if x = c then r else [x]) s)"

definition render_styled_text :: "string \<Rightarrow> inline_style \<Rightarrow> string" where
  "render_styled_text t style =
     (let w = t;
          w = (if st_strike style then ''~~'' @ w @ ''~~'' else w);
          w = (if st_underline style then ''__'' @ w @ ''__'' else w);
          w = (if st_italic style then ''*'' @ w @ ''*'' else w);
          w = (if st_bold style then ''**'' @ w @ ''**'' else w)
      in if st_code style then ''`'' @ w @ ''`'' else w)"

fun render_inline :: "inline \<Rightarrow> string" where
  "render_inline (Text t style) = render_styled_text t style"
| "render_inline (Link t target style) = ''['' @ render_styled_text t style @ '']('' @ target @ '')''"
| "render_inline (Code t style) = ''`'' @ render_styled_text t style @ ''`''"

definition render_inlines :: "inline list \<Rightarrow> string" where
  "render_inlines is = concat (map render_inline is)"

definition escape_table_content :: "string \<Rightarrow> string" where
  "escape_table_content s = replace_char (CHR ''|'') [CHR 0x5C, CHR ''|''] (replace_char (CHR 0x5C) [CHR 0x5C, CHR 0x5C] s)"

text \<open>Rows come with the rendered content of their cells; a row shorter than the first is padded, a longer one is cut.\<close>

definition render_table_cell :: "string list \<Rightarrow> nat \<Rightarrow> string" where
  "render_table_cell cells i =
     '' '' @ (if i < length cells then escape_table_content (cells ! i) else []) @ '' |''"

definition render_table_row :: "nat \<Rightarrow> string list \<Rightarrow> string" where
  "render_table_row num_cols cells = ''|'' @ concat (map (render_table_cell cells) [0..<num_cols])"

definition render_rows :: "(bool \<times> string list) list \<Rightarrow> string" where
  "render_rows rows =
     (case rows of
        [] \<Rightarrow> []
      | (is_header, cells) # rest \<Rightarrow>
          let num_cols = length cells;
              data = (if is_header then rest else rows)
          in render_table_row num_cols cells @ [newline] @
             ''|'' @ concat (replicate num_cols '' --- |'') @ [newline] @
             concat (map (\<lambda>(_, cs). render_table_row num_cols cs @ [newline]) data))"

definition clamp_level :: "8 word \<Rightarrow> nat" where
  "clamp_level l = max 1 (min 6 (unat l))"

definition render_cell_content :: "string list \<Rightarrow> string" where
  "render_cell_content blocks = join ''<br/>'' (map trim blocks)"

definition indent_of :: "8 word \<Rightarrow> string" where
  "indent_of l = concat (replicate (unat l) ''  '')"

definition quote_lines :: "string \<Rightarrow> string" where
  "quote_lines content = concat (map (\<lambda>l. ''> '' @ l @ [newline]) (str_lines content))"

primrec render_block :: "parsed_block \<Rightarrow> string"
  and render_table :: "table_block \<Rightarrow> string"
  and row_content :: "table_row \<Rightarrow> bool \<times> string list"
  and cell_content :: "table_cell \<Rightarrow> string" where
  "render_block (Heading level is) = replicate (clamp_level level) (CHR 0x23) @ '' '' @ render_inlines is @ [newline, newline]"
| "render_block (Paragraph is) = render_inlines is @ [newline, newline]"
| "render_block (ListItem level ordered blocks) =
     indent_of level @ (if ordered then ''1. '' else ''- '') @
     join (newline # indent_of level @ ''   '') (map trim_end (map render_block blocks)) @ [newline]"
| "render_block (CodeBlock language code) =
     ''```'' @ opt_str language @ [newline] @ code @ (if ends_with [newline] code then [] else [newline]) @
     ''```'' @ [newline, newline]"
| "render_block (Table t) = render_table t @ [newline, newline]"
| "render_block (Quote blocks) = quote_lines (concat (map render_block blocks)) @ [newline]"
| "render_block HorizontalRule = ''---'' @ [newline, newline]"
| "render_block (Image alt title src) =
     ''!['' @ opt_str alt @ '']('' @ opt_str src @
     (case title of Some t \<Rightarrow> [CHR '' '', CHR 0x22] @ t @ [CHR 0x22] | None \<Rightarrow> []) @ '')'' @ [newline, newline]"
| "render_block PageBreak = [newline, newline] @ ''---'' @ [newline, newline]"
| "render_table (TableBlock rows) = render_rows (map row_content rows)"
| "row_content (TableRow is_header cells) = (is_header, map cell_content cells)"
| "cell_content (TableCell blocks) = render_cell_content (map render_block blocks)"

section \<open>The chunks of a document\<close>

record ('u, 't) markdown_iter =
  mi_doc :: "('u, 't) parsed_document"
  mi_header_emitted :: bool
  mi_block_index :: nat

definition render_iter :: "('u, 't) parsed_document \<Rightarrow> ('u, 't) markdown_iter" where
  "render_iter d = \<lparr>mi_doc = d, mi_header_emitted = False, mi_block_index = 0\<rparr>"

definition render_header :: "('u, 't) parsed_document \<Rightarrow> string" where
  "render_header d =
     (let filename = pm_original_filename (pd_meta d);
          content_type = pm_content_type (pd_meta d);
          field = (\<lambda>k v. case v of Some x \<Rightarrow> k @ '': '' @ x @ [newline] | None \<Rightarrow> [])
      in (case pd_title d of Some t \<Rightarrow> [CHR 0x23, CHR '' ''] @ t @ [newline, newline] | None \<Rightarrow> []) @
         (if pd_language d \<noteq> None \<or> filename \<noteq> None \<or> content_type \<noteq> None then
            ''---'' @ [newline] @ field ''language'' (pd_language d) @ field ''filename'' filename @
            field ''content-type'' content_type @ ''---'' @ [newline, newline]
          else []))"

definition next_block :: "('u, 't) markdown_iter \<Rightarrow> string option \<times> ('u, 't) markdown_iter" where
  "next_block it =
     (if mi_block_index it < length (pd_blocks (mi_doc it))
      then (Some (render_block (pd_blocks (mi_doc it) ! mi_block_index it)), it\<lparr>mi_block_index := mi_block_index it + 1\<rparr>)
      else (None, it))"

definition next_chunk :: "('u, 't) markdown_iter \<Rightarrow> string option \<times> ('u, 't) markdown_iter" where
  "next_chunk it =
     (if mi_header_emitted it then next_block it
      else
        let it = it\<lparr>mi_header_emitted := True\<rparr>; header = render_header (mi_doc it)
        in if header \<noteq> [] then (Some header, it) else next_block it)"

text \<open>Draining the iterator, by \<open>for\<close> or by the response stream.\<close>

definition chunks_left :: "('u, 't) markdown_iter \<Rightarrow> nat" where
  "chunks_left it =
     (if mi_header_emitted it then 0 else 1) + (length (pd_blocks (mi_doc it)) - mi_block_index it)"

lemma next_chunk_decreases: "next_chunk it = (Some c, it') \<Longrightarrow> chunks_left it' < chunks_left it"
  by (auto simp: next_chunk_def next_block_def chunks_left_def Let_def split: if_splits)

function chunks :: "('u, 't) markdown_iter \<Rightarrow> string list" where
  "chunks it = (case next_chunk it of (Some c, it') \<Rightarrow> c # chunks it' | (None, _) \<Rightarrow> [])"
  by pat_completeness auto
termination by (relation "measure chunks_left") (auto dest: next_chunk_decreases[OF sym])

declare chunks.simps [simp del]

definition render :: "('u, 't) parsed_document \<Rightarrow> string" where
  "render d = concat (chunks (render_iter d))"

section \<open>Reading back a table row\<close>

text \<open>A reader of rows for the statements below: a backslash takes the next character as it is, a bar ends a cell, one space on
  each side is padding.\<close>

fun read_cell :: "string \<Rightarrow> string \<times> string" where
  "read_cell [] = ([], [])"
| "read_cell (c # s) =
     (if c = CHR ''|'' then ([], s)
      else if c = CHR 0x5C then
        (case s of [] \<Rightarrow> ([c], []) | d # s' \<Rightarrow> (d # fst (read_cell s'), snd (read_cell s')))
      else (c # fst (read_cell s), snd (read_cell s)))"

lemma read_cell_shorter: "length (snd (read_cell s)) \<le> length s"
proof (induction s rule: length_induct)
  case (1 s)
  show ?case
  proof (cases s)
    case (Cons c r)
    have "length (snd (read_cell r)) \<le> length r" "d # r' = r \<Longrightarrow> length (snd (read_cell r')) \<le> length r'" for d r'
      using 1 Cons by auto
    then show ?thesis unfolding Cons by (cases r) (simp_all add: le_SucI)
  qed simp
qed

function read_cells :: "string \<Rightarrow> string list" where
  "read_cells [] = []"
| "read_cells (c # s) = butlast (fst (read_cell s)) # read_cells (snd (read_cell s))"
  by pat_completeness auto
termination by (relation "measure length") (simp_all add: less_Suc_eq_le read_cell_shorter)

definition read_row :: "string \<Rightarrow> string list" where
  "read_row s = read_cells (tl s)"

section \<open>Lemmas\<close>

lemma escape_simps [simp]:
  "escape_table_content [] = []"
  "escape_table_content (c # s) =
     (if c = CHR 0x5C then [CHR 0x5C, CHR 0x5C] else if c = CHR ''|'' then [CHR 0x5C, CHR ''|''] else [c]) @ escape_table_content s"
  by (auto simp: escape_table_content_def replace_char_def)

lemma read_escaped: "read_cell (escape_table_content s @ '' |'' @ t) = (s @ '' '', t)"
  by (induction s) auto

lemma read_cells_rendered:
  "read_cells (concat (map (render_table_cell cells) is)) = map (\<lambda>i. if i < length cells then cells ! i else []) is"
proof (induction "is")
  case (Cons i "is")
  let ?c = "if i < length cells then cells ! i else []"
  have "render_table_cell cells i = '' '' @ escape_table_content ?c @ '' |''" by (simp add: render_table_cell_def)
  then have "read_cells (concat (map (render_table_cell cells) (i # is))) =
      ?c # read_cells (concat (map (render_table_cell cells) is))"
    using read_escaped[of ?c "concat (map (render_table_cell cells) is)"] by (simp add: butlast_append)
  with Cons.IH show ?case by simp
qed simp

lemma newline_escape [simp]: "newline \<in> set (escape_table_content s) \<longleftrightarrow> newline \<in> set s"
  by (induction s) (auto simp: newline_def)

lemma newline_in_row: "newline \<in> set (render_table_row n cells) \<Longrightarrow> \<exists>c \<in> set cells. newline \<in> set c"
proof -
  assume "newline \<in> set (render_table_row n cells)"
  then obtain i where i: "i < n" "newline \<in> set (render_table_cell cells i)"
    by (auto simp: render_table_row_def) (auto simp: newline_def)
  then have "i < length cells \<and> newline \<in> set (cells ! i)"
    by (cases "i < length cells") (auto simp: render_table_cell_def, auto simp: newline_def)
  then show ?thesis using nth_mem by blast
qed

lemma split_terminated:
  assumes "\<And>l. l \<in> set ls \<Longrightarrow> c \<notin> set l"
  shows "split_on c (concat (map (\<lambda>l. l @ [c]) ls)) = ls @ [[]]"
  using assms by (induction ls) (auto simp: split_on_append)

lemma concat_split: "split_on c s = ls @ [t] \<Longrightarrow> concat (map (\<lambda>l. l @ [c]) ls) @ t = s"
proof (induction s arbitrary: ls t)
  case (Cons x s)
  obtain g gs where g: "split_on c s = g # gs" using split_on_nonempty[of c s] by (meson list.exhaust)
  show ?case
  proof (cases "x = c")
    case True
    with Cons.prems have "ls \<noteq> []" by (auto simp: Cons_eq_append_conv)
    with True Cons show ?thesis by (cases ls) auto
  next
    case False
    show ?thesis
    proof (cases ls)
      case Nil
      with False Cons.prems g have "split_on c s = [] @ [g]" "t = x # g" by auto
      with Cons.IH[of "[]" g] Nil show ?thesis by simp
    next
      case (Cons l ls')
      with False Cons.prems g have "l = x # g" "split_on c s = (g # ls') @ [t]" by auto
      with Cons.IH Cons show ?thesis by fastforce
    qed
  qed
qed auto

lemma not_in_split: "l \<in> set (split_on c s) \<Longrightarrow> c \<notin> set l"
  by (induction s arbitrary: l) (force split: list.splits if_splits)+

lemma split_subset: "l \<in> set (split_on c s) \<Longrightarrow> set l \<subseteq> set s"
  by (induction s arbitrary: l) (fastforce split: list.splits if_splits)+

lemma last_split: "s \<noteq> [] \<Longrightarrow> last s = c \<Longrightarrow> \<exists>ls. split_on c s = ls @ [[]]"
proof (induction s)
  case (Cons x s)
  show ?case
  proof (cases "s = []")
    case False
    with Cons obtain ls where "split_on c s = ls @ [[]]" by auto
    then show ?thesis
    proof (cases ls)
      case Nil
      with \<open>split_on c s = ls @ [[]]\<close> have "split_on c s = [] @ [[]]" by simp
      from concat_split[OF this] False show ?thesis by simp
    qed auto
  qed (use Cons in auto)
qed simp

lemma terminated_lines_plain:
  "(\<And>l. l \<in> set ls \<Longrightarrow> CHR 0x0D \<notin> set l) \<Longrightarrow> terminated_lines (ls @ [[]]) = ls"
proof (induction ls)
  case (Cons l ls)
  have "CHR 0x0D \<notin> set l" by (rule Cons.prems) simp
  then have "strip_cr l = l" by (metis last_in_set strip_cr_def)
  with Cons show ?case by (cases ls) auto
qed simp

lemma render_block_ends: "\<exists>s. render_block b = s @ [newline]"
  by (cases b) auto

lemma blocks_end: "bs \<noteq> [] \<Longrightarrow> concat (map render_block bs) \<noteq> [] \<and> last (concat (map render_block bs)) = newline"
proof (induction bs)
  case (Cons b bs)
  with render_block_ends[of b] show ?case by (cases "bs = []") auto
qed simp

lemma chunks_emitted:
  "mi_header_emitted it \<Longrightarrow> chunks it = map render_block (drop (mi_block_index it) (pd_blocks (mi_doc it)))"
proof (induction it rule: chunks.induct)
  case (1 it)
  show ?case
  proof (cases "mi_block_index it < length (pd_blocks (mi_doc it))")
    case True
    then have n: "next_chunk it = (Some (render_block (pd_blocks (mi_doc it) ! mi_block_index it)),
        it\<lparr>mi_block_index := mi_block_index it + 1\<rparr>)"
      using "1.prems" by (simp add: next_chunk_def next_block_def)
    from 1(1)[OF n[symmetric] refl] "1.prems" True show ?thesis
      by (subst chunks.simps) (simp add: n Cons_nth_drop_Suc[symmetric])
  next
    case False
    with "1.prems" show ?thesis by (subst chunks.simps) (simp add: next_chunk_def next_block_def)
  qed
qed

lemma chunks_render_iter:
  "chunks (render_iter d) = (if render_header d = [] then [] else [render_header d]) @ map render_block (pd_blocks d)"
proof (cases "render_header d = []")
  case False
  then have n: "next_chunk (render_iter d) = (Some (render_header d), (render_iter d)\<lparr>mi_header_emitted := True\<rparr>)"
    by (simp add: next_chunk_def render_iter_def Let_def)
  show ?thesis using False by (subst chunks.simps) (simp add: n chunks_emitted, simp add: render_iter_def)
next
  case True
  let ?it = "(render_iter d)\<lparr>mi_header_emitted := True\<rparr>"
  from True have n: "next_chunk (render_iter d) = next_chunk ?it"
    by (simp add: next_chunk_def render_iter_def Let_def)
  have "chunks (render_iter d) = chunks ?it" by (subst (1 2) chunks.simps) (simp add: n)
  with True show ?thesis by (simp add: chunks_emitted, simp add: render_iter_def)
qed

lemma header_ends: "render_header d \<noteq> [] \<Longrightarrow> last (render_header d) = newline"
  by (auto simp: render_header_def Let_def split: option.splits)

section \<open>Properties\<close>

text \<open>Draining the stream of a document ends; its chunks are the header, if there is one, and one chunk per block; put
  together they are the rendered document; and each chunk ends its line, so that a block never continues the line of the
  block before it.\<close>

theorem streamed_chunks:
  "chunks (render_iter d) = (if render_header d = [] then [] else [render_header d]) @ map render_block (pd_blocks d) \<and>
   render d = render_header d @ concat (map render_block (pd_blocks d)) \<and>
   list_all (\<lambda>c. c \<noteq> [] \<and> last c = newline) (chunks (render_iter d))"
proof -
  have "render_block b \<noteq> [] \<and> last (render_block b) = newline" for b
    using render_block_ends[of b] by auto
  then show ?thesis using header_ends[of d] by (auto simp: chunks_render_iter render_def list_all_iff)
qed

text \<open>Whatever the cells hold, bars and backslashes included, a rendered row reads back as the cells of the row, cut or
  padded to the number of columns.\<close>

theorem table_row_roundtrip:
  "read_row (render_table_row n cells) = map (\<lambda>i. if i < length cells then cells ! i else []) [0..<n]"
  by (simp add: read_row_def render_table_row_def read_cells_rendered)

text \<open>A table whose cells have no line feed renders to one line per row after the header line and the separator, all with the
  columns of the first row; without a header row the first row is both the header line and the first data line.\<close>

theorem table_lines:
  assumes "\<And>row c. row \<in> set ((is_header, cells) # rest) \<Longrightarrow> c \<in> set (snd row) \<Longrightarrow> newline \<notin> set c"
  shows "\<exists>sep. split_on newline (render_rows ((is_header, cells) # rest)) =
     map (render_table_row (length cells) \<circ> snd) [(is_header, cells)] @ [sep] @
     map (render_table_row (length cells) \<circ> snd) (if is_header then rest else (is_header, cells) # rest) @ [[]]"
proof -
  define n where "n = length cells"
  define data where "data = (if is_header then rest else (is_header, cells) # rest)"
  define sep where "sep = ''|'' @ concat (replicate n '' --- |'')"
  define ls where "ls = render_table_row n cells # sep # map (render_table_row n \<circ> snd) data"
  have r: "newline \<notin> set (render_table_row n (snd row))" if "row \<in> set ((is_header, cells) # rest)" for row
    using newline_in_row assms that by blast
  have "l \<in> set ls \<Longrightarrow> newline \<notin> set l" for l
    using r[of "(is_header, cells)"] r
    by (auto simp: ls_def sep_def data_def newline_def[symmetric] split: if_splits) (auto simp: newline_def)
  then have "split_on newline (concat (map (\<lambda>l. l @ [newline]) ls)) = ls @ [[]]" by (rule split_terminated)
  moreover have "render_rows ((is_header, cells) # rest) = concat (map (\<lambda>l. l @ [newline]) ls)"
    by (simp add: render_rows_def ls_def sep_def data_def n_def Let_def comp_def case_prod_unfold)
  ultimately show ?thesis unfolding ls_def data_def n_def by auto
qed

text \<open>A quote without carriage returns keeps every line of its blocks, blank lines included, behind a mark of its own.\<close>

theorem quote_keeps_lines:
  assumes "CHR 0x0D \<notin> set (concat (map render_block bs))"
  shows "\<exists>ls. render_block (Quote bs) = concat (map (\<lambda>l. ''> '' @ l @ [newline]) ls) @ [newline] \<and>
     concat (map (\<lambda>l. l @ [newline]) ls) = concat (map render_block bs) \<and> list_all (\<lambda>l. newline \<notin> set l) ls"
proof (cases "bs = []")
  case True
  then show ?thesis by (intro exI[of _ "[]"]) (simp add: quote_lines_def str_lines_def)
next
  case False
  let ?s = "concat (map render_block bs)"
  from blocks_end[OF False] obtain ls where ls: "split_on newline ?s = ls @ [[]]" using last_split by blast
  have "CHR 0x0D \<notin> set l" if "l \<in> set ls" for l
    using split_subset[of l newline ?s] ls that assms by auto
  then have "str_lines ?s = ls" by (simp add: str_lines_def ls terminated_lines_plain)
  moreover have "newline \<notin> set l" if "l \<in> set ls" for l using not_in_split[of l newline ?s] ls that by auto
  ultimately show ?thesis using concat_split[OF ls]
    by (intro exI[of _ ls]) (auto simp: quote_lines_def list_all_iff)
qed

section \<open>Witnesses\<close>

theorem table_lines_witness:
  "\<exists>sep. split_on newline (render_rows [(False, [''a'', ''b|'']), (False, [''c''])]) =
     [''| a | b'' @ [CHR 0x5C] @ ''| |'', sep, ''| a | b'' @ [CHR 0x5C] @ ''| |'', ''| c |  |'', []]"
proof -
  have "row \<in> set [(False, [''a'', ''b|'']), (False, [''c''])] \<Longrightarrow> c \<in> set (snd row) \<Longrightarrow> newline \<notin> set c" for row c
    by (auto simp: newline_def)
  from table_lines[of False "[''a'', ''b|'']" "[(False, [''c''])]", OF this]
  show ?thesis by (simp add: render_table_row_def render_table_cell_def)
qed

theorem quote_keeps_lines_witness:
  "\<exists>ls. render_block (Quote [Paragraph [plain ''hi'']]) = concat (map (\<lambda>l. ''> '' @ l @ [newline]) ls) @ [newline] \<and>
     concat (map (\<lambda>l. l @ [newline]) ls) = ''hi'' @ [newline, newline]"
proof -
  have s: "concat (map render_block [Paragraph [plain ''hi'']]) = ''hi'' @ [newline, newline]"
    by (simp add: render_inlines_def plain_def plain_style_def render_styled_text_def)
  then have "CHR 0x0D \<notin> set (concat (map render_block [Paragraph [plain ''hi'']]))" by (simp add: newline_def)
  from quote_keeps_lines[OF this] show ?thesis unfolding s by blast
qed

end
