(* ===== verification/File_Parser.thy ===== *)
theory File_Parser
  imports Document Problem "HOL-Library.Multiset"
begin

text \<open>
  The file parser: its backends (\<open>modules/file_parser/src/domain/parsers\<close>), the service that routes to them
  (\<open>domain/service.rs\<close>) and the REST handlers (\<open>api/rest/handlers.rs\<close>).

  Parameters, in one record: the file system, UTF-8 decoding (the strings of this development stop at U+00FF), the parsers of
  HTML (\<open>tl\<close>), PDF and DOCX, MIME and URL parsing, and the HTTP client. The trees the HTML and DOCX parsers return
  carry what the code reads of them.
\<close>

section \<open>Errors\<close>

datatype parser_error =
    FileNotFound string
  | UnsupportedFileType string
  | NoParserAvailable string
  | ParseError string
  | IoError string
  | InvalidUrl string
  | DownloadError string
  | InvalidRequest string

fun parser_error_to_problem :: "parser_error \<Rightarrow> problem" where
  "parser_error_to_problem (FileNotFound path) = problem_new 404 ''File Not Found'' (''File not found: '' @ path)"
| "parser_error_to_problem (UnsupportedFileType ext) =
     problem_new 400 ''Unsupported File Type'' (''Unsupported file type: '' @ ext)"
| "parser_error_to_problem (NoParserAvailable ext) =
     problem_new 415 ''No Parser Available'' (''No parser available for extension: '' @ ext)"
| "parser_error_to_problem (ParseError m) = problem_new 422 ''Parse Error'' m"
| "parser_error_to_problem (IoError m) = problem_new 500 ''IO Error'' m"
| "parser_error_to_problem (InvalidUrl url) = problem_new 400 ''Invalid URL'' (''Invalid URL: '' @ url)"
| "parser_error_to_problem (DownloadError m) = problem_new 502 ''Download Error'' m"
| "parser_error_to_problem (InvalidRequest m) = problem_new 400 ''Invalid Request'' m"

section \<open>Trees of the third-party parsers\<close>

datatype html_node =
    HtmlTag string "(string \<times> string option) list" string "html_node list"
  | HtmlOther

record html_dom =
  hd_title :: "string option"
  hd_body :: "html_node option"
  hd_children :: "html_node list"
  hd_outer :: string

datatype run_content = RunText string | RunTab | RunBreak | RunOther

record run_property =
  rp_bold :: "bool option option"
  rp_italics :: "bool option option"
  rp_underline :: "string option option"
  rp_strike :: "bool option option"
  rp_ascii_font :: "string option"

record docx_run =
  dr_property :: "run_property option"
  dr_content :: "run_content list"

datatype paragraph_content = ParagraphRun docx_run | ParagraphOther

record paragraph_property =
  pp_style_id :: "string option"
  pp_outline_lvl :: "int option"

record docx_paragraph =
  dp_property :: "paragraph_property option"
  dp_content :: "paragraph_content list"

datatype docx_cell = RowCell "docx_paragraph list" | RowOther

record docx_row =
  dw_table_header :: "bool option option"
  dw_cells :: "docx_cell list"

datatype body_content = BodyParagraph docx_paragraph | BodyTable "docx_row list" | BodyOther

text \<open>Where a library reads a file: at the path of the request or in the temporary copy of the bytes.\<close>

datatype 'b file_input = AtPath string | InTemp 'b

record http_response =
  hr_status :: nat
  hr_content_type :: "string option"

record url =
  ur_path :: string
  ur_text :: string

record ('b, 'u) parser_env =
  pv_exists :: "string \<Rightarrow> bool"
  pv_read :: "string \<Rightarrow> ('b, string) result"
  pv_len :: "'b \<Rightarrow> nat"
  pv_utf8 :: "'b \<Rightarrow> (string, string) result"
  pv_base64_300 :: "'b \<Rightarrow> string"
  pv_temp_create :: "(unit, string) result"
  pv_temp_write :: "'b \<Rightarrow> (unit, string) result"
  pv_html :: "'b \<Rightarrow> (html_dom, string) result"
  pv_pdf_text :: "'b file_input \<Rightarrow> (string, string) result"
  pv_docx_open :: "'b file_input \<Rightarrow> ((body_content list, string) result, string) result"
  pv_mime_essence :: "string \<Rightarrow> string option"
  pv_url_parse :: "string \<Rightarrow> url option"
  pv_http_client :: "nat \<Rightarrow> (unit, string) result"
  pv_http_get :: "string \<Rightarrow> (http_response \<times> ('b, string) result, string) result"
  pv_show_status :: "nat \<Rightarrow> string"
  pv_uuid :: 'u

section \<open>Paths\<close>

text \<open>\<open>Path::file_name\<close> and \<open>Path::extension\<close> on Unix.\<close>

definition path_file_name :: "string \<Rightarrow> string option" where
  "path_file_name p =
     (let parts = filter (\<lambda>s. s \<noteq> [] \<and> s \<noteq> ''.'') (split_on (CHR ''/'') p)
      in if parts = [] \<or> last parts = ''..'' then None else Some (last parts))"

definition file_extension :: "string \<Rightarrow> string option" where
  "file_extension name =
     (if CHR ''.'' \<in> set name then
        (let ext = rev (takeWhile (\<lambda>c. c \<noteq> CHR ''.'') (rev name))
         in if length name = length ext + 1 then None else Some ext)
      else None)"

definition path_extension :: "string \<Rightarrow> string option" where
  "path_extension p = Option.bind (path_file_name p) file_extension"

section \<open>Backends\<close>

type_synonym ('u, 't) parse_result = "(('u, 't) parsed_document, parser_error) result"

record ('b, 'u, 't) backend =
  bk_id :: string
  bk_extensions :: "string list"
  bk_parse_local_path :: "string \<Rightarrow> ('u, 't) parse_result"
  bk_parse_bytes :: "string option \<Rightarrow> string option \<Rightarrow> 'b \<Rightarrow> ('u, 't) parse_result"

definition hint_or :: "string \<Rightarrow> string option \<Rightarrow> string" where
  "hint_or d name = (case name of Some n \<Rightarrow> n | None \<Rightarrow> d)"

text \<open>The document of the plain text, PDF and DOCX backends: the file name is its title.\<close>

definition titled_document ::
    "('b, 'u) parser_env \<Rightarrow> parsed_source \<Rightarrow> string \<Rightarrow> string option \<Rightarrow> parsed_block list \<Rightarrow> ('u, 't) parsed_document" where
  "titled_document env source content_type name blocks =
     (let b = (document_builder_new (pv_uuid env) source)\<lparr>db_content_type := Some content_type, db_blocks := blocks\<rparr>;
          b = (case name of Some n \<Rightarrow> b\<lparr>db_title := Some n, db_original_filename := Some n\<rparr> | None \<Rightarrow> b)
      in build_document (pv_uuid env) b)"

definition read_file :: "('b, 'u) parser_env \<Rightarrow> string \<Rightarrow> ('b, parser_error) result" where
  "read_file env path = map_err (\<lambda>e. IoError (''Failed to read file: '' @ e)) (pv_read env path)"

subsection \<open>Plain text\<close>

text \<open>\<open>str::split\<close> with a blank line.\<close>

fun split_blank :: "string \<Rightarrow> string list" where
  "split_blank [] = [[]]"
| "split_blank (c # s) =
     (if c = newline \<and> s \<noteq> [] \<and> hd s = newline then [] # split_blank (tl s)
      else (case split_blank s of [] \<Rightarrow> [[c]] | seg # segs \<Rightarrow> (c # seg) # segs))"

definition paragraphs :: "string \<Rightarrow> parsed_block list" where
  "paragraphs t = map (\<lambda>p. Paragraph [plain (trim p)]) (filter (\<lambda>p. trim p \<noteq> []) (split_blank t))"

definition decode_text :: "('b, 'u) parser_env \<Rightarrow> 'b \<Rightarrow> (string, parser_error) result" where
  "decode_text env b = map_err (\<lambda>e. ParseError (''Failed to decode UTF-8: '' @ e)) (pv_utf8 env b)"

definition plain_text_parser :: "('b, 'u) parser_env \<Rightarrow> ('b, 'u, 't) backend" where
  "plain_text_parser env =
     \<lparr>bk_id = ''plain_text'', bk_extensions = [''txt'', ''log'', ''md''],
      bk_parse_local_path = (\<lambda>path.
        and_then (read_file env path) (\<lambda>b. and_then (decode_text env b) (\<lambda>t.
          Ok (titled_document env (LocalPath path) ''text/plain'' (path_file_name path) (paragraphs t))))),
      bk_parse_bytes = (\<lambda>name _ b.
        and_then (decode_text env b) (\<lambda>t.
          Ok (titled_document env (Uploaded (hint_or ''unknown.txt'' name)) ''text/plain'' name (paragraphs t))))\<rparr>"

subsection \<open>HTML\<close>

definition attr :: "string \<Rightarrow> (string \<times> string option) list \<Rightarrow> string option" where
  "attr k as = Option.bind (map_of as k) (\<lambda>v. v)"

definition plain_paragraph :: "string \<Rightarrow> parsed_block" where
  "plain_paragraph t = Paragraph [plain t]"

definition when_text :: "string \<Rightarrow> (string \<Rightarrow> parsed_block) \<Rightarrow> parsed_block list" where
  "when_text t f = (if trim t = [] then [] else [f (trim t)])"

fun list_items :: "8 word \<Rightarrow> bool \<Rightarrow> html_node list \<Rightarrow> parsed_block list" where
  "list_items level ordered [] = []"
| "list_items level ordered (HtmlTag name _ inner _ # ns) =
     (if name = ''li'' then when_text inner (\<lambda>t. ListItem level ordered [plain_paragraph t]) else []) @
     list_items level ordered ns"
| "list_items level ordered (HtmlOther # ns) = list_items level ordered ns"

definition heading_tag_level :: "string \<Rightarrow> 8 word" where
  "heading_tag_level name = (case digit_val (name ! 1) of Some d \<Rightarrow> of_nat d | None \<Rightarrow> 1)"

fun extract_blocks_from_node :: "8 word \<Rightarrow> html_node \<Rightarrow> parsed_block list" where
  "extract_blocks_from_node level (HtmlTag name attrs inner children) =
     (if name \<in> {''h1'', ''h2'', ''h3'', ''h4'', ''h5'', ''h6''} then
        when_text inner (\<lambda>t. Heading (heading_tag_level name) [plain t])
      else if name = ''p'' then when_text inner plain_paragraph
      else if name = ''li'' then when_text inner (\<lambda>t. ListItem level False [plain_paragraph t])
      else if name \<in> {''ul'', ''ol''} then list_items level (name = ''ol'') children
      else if name \<in> {''pre'', ''code''} then (if inner = [] then [] else [CodeBlock None inner])
      else if name = ''blockquote'' then when_text inner (\<lambda>t. Quote [plain_paragraph t])
      else if name = ''hr'' then [HorizontalRule]
      else if name = ''img'' then [Image (attr ''alt'' attrs) (attr ''title'' attrs) (attr ''src'' attrs)]
      else concat (map (extract_blocks_from_node level) children))"
| "extract_blocks_from_node level HtmlOther = []"

definition html_blocks :: "html_dom \<Rightarrow> parsed_block list" where
  "html_blocks tree =
     (let blocks = (case hd_body tree of
          Some b \<Rightarrow> extract_blocks_from_node 0 b
        | None \<Rightarrow> concat (map (extract_blocks_from_node 0) (hd_children tree)))
      in if blocks = [] then when_text (hd_outer tree) plain_paragraph else blocks)"

definition parse_html_bytes ::
    "('b, 'u) parser_env \<Rightarrow> 'b \<Rightarrow> string option \<Rightarrow> (parsed_block list \<times> string option, parser_error) result" where
  "parse_html_bytes env b name =
     and_then (map_err (\<lambda>e. ParseError (''Failed to parse HTML: '' @ e)) (pv_html env b)) (\<lambda>tree.
       Ok (html_blocks tree, (case hd_title tree of Some t \<Rightarrow> Some t | None \<Rightarrow> name)))"

definition html_document ::
    "('b, 'u) parser_env \<Rightarrow> parsed_source \<Rightarrow> string option \<Rightarrow> parsed_block list \<times> string option \<Rightarrow> ('u, 't) parsed_document" where
  "html_document env source name parsed =
     (let b = (document_builder_new (pv_uuid env) source)\<lparr>db_content_type := Some ''text/html'', db_blocks := fst parsed\<rparr>;
          b = (case snd parsed of Some t \<Rightarrow> b\<lparr>db_title := Some t\<rparr> | None \<Rightarrow> b);
          b = (case name of Some n \<Rightarrow> b\<lparr>db_original_filename := Some n\<rparr> | None \<Rightarrow> b)
      in build_document (pv_uuid env) b)"

definition html_parser :: "('b, 'u) parser_env \<Rightarrow> ('b, 'u, 't) backend" where
  "html_parser env =
     \<lparr>bk_id = ''html'', bk_extensions = [''html'', ''htm''],
      bk_parse_local_path = (\<lambda>path.
        and_then (read_file env path) (\<lambda>b. and_then (parse_html_bytes env b (path_file_name path)) (\<lambda>p.
          Ok (html_document env (LocalPath path) (path_file_name path) p)))),
      bk_parse_bytes = (\<lambda>name _ b.
        and_then (parse_html_bytes env b name) (\<lambda>p.
          Ok (html_document env (Uploaded (hint_or ''unknown.html'' name)) name p)))\<rparr>"

subsection \<open>PDF\<close>

definition form_feed :: char where
  "form_feed = CHR 0x0C"

definition pdf_blocks :: "string \<Rightarrow> parsed_block list" where
  "pdf_blocks t =
     (case split_on form_feed t of
        [] \<Rightarrow> []
      | page # pages \<Rightarrow> paragraphs page @ concat (map (\<lambda>p. PageBreak # paragraphs p) pages))"

definition extract_pdf :: "('b, 'u) parser_env \<Rightarrow> 'b file_input \<Rightarrow> (parsed_block list, parser_error) result" where
  "extract_pdf env i =
     and_then (map_err (\<lambda>e. ParseError (''Failed to extract text from PDF: '' @ e)) (pv_pdf_text env i)) (\<lambda>t. Ok (pdf_blocks t))"

definition write_temp :: "('b, 'u) parser_env \<Rightarrow> 'b \<Rightarrow> (unit, parser_error) result" where
  "write_temp env b =
     and_then (map_err (\<lambda>e. IoError (''Failed to create temp file: '' @ e)) (pv_temp_create env)) (\<lambda>_.
       map_err (\<lambda>e. IoError (''Failed to write to temp file: '' @ e)) (pv_temp_write env b))"

definition pdf_parser :: "('b, 'u) parser_env \<Rightarrow> ('b, 'u, 't) backend" where
  "pdf_parser env =
     \<lparr>bk_id = ''pdf'', bk_extensions = [''pdf''],
      bk_parse_local_path = (\<lambda>path.
        and_then (extract_pdf env (AtPath path)) (\<lambda>bs.
          Ok (titled_document env (LocalPath path) ''application/pdf'' (path_file_name path) bs))),
      bk_parse_bytes = (\<lambda>name _ b.
        and_then (write_temp env b) (\<lambda>_. and_then (extract_pdf env (InTemp b)) (\<lambda>bs.
          Ok (titled_document env (Uploaded (hint_or ''unknown.pdf'' name)) ''application/pdf'' name bs))))\<rparr>"

subsection \<open>DOCX\<close>

definition flag :: "bool option option \<Rightarrow> bool" where
  "flag v = (v = Some (Some True))"

definition is_sublist :: "string \<Rightarrow> string \<Rightarrow> bool" where
  "is_sublist p s \<longleftrightarrow> (\<exists>i \<in> set [0..<length s + 1]. starts_with p (drop i s))"

definition extract_style_from_run :: "docx_run \<Rightarrow> inline_style" where
  "extract_style_from_run r =
     (case dr_property r of
        None \<Rightarrow> plain_style
      | Some p \<Rightarrow>
          \<lparr>st_bold = flag (rp_bold p), st_italic = flag (rp_italics p),
           st_underline = (case rp_underline p of Some v \<Rightarrow> v \<noteq> None | None \<Rightarrow> False),
           st_strike = flag (rp_strike p),
           st_code = (case rp_ascii_font p of
               Some font \<Rightarrow> let f = to_lowercase font
                 in is_sublist ''consolas'' f \<or> is_sublist ''courier'' f \<or> is_sublist ''mono'' f
             | None \<Rightarrow> False)\<rparr>)"

text \<open>The state of the loop: the inlines so far, the text that is not flushed yet and its style.\<close>

record inline_buffer =
  ib_inlines :: "inline list"
  ib_text :: string
  ib_style :: inline_style

definition add_text :: "inline_style \<Rightarrow> string \<Rightarrow> inline_buffer \<Rightarrow> inline_buffer" where
  "add_text style t b =
     (let b = (if style \<noteq> ib_style b \<and> ib_text b \<noteq> []
               then b\<lparr>ib_inlines := ib_inlines b @ [Text (ib_text b) (ib_style b)], ib_text := []\<rparr> else b)
      in b\<lparr>ib_style := style, ib_text := ib_text b @ t\<rparr>)"

fun add_run_content :: "inline_style \<Rightarrow> run_content \<Rightarrow> inline_buffer \<Rightarrow> inline_buffer" where
  "add_run_content style (RunText t) b = add_text style t b"
| "add_run_content style RunTab b = b\<lparr>ib_text := ib_text b @ [CHR 0x09]\<rparr>"
| "add_run_content style RunBreak b = b\<lparr>ib_text := ib_text b @ [newline]\<rparr>"
| "add_run_content style RunOther b = b"

fun add_paragraph_content :: "paragraph_content \<Rightarrow> inline_buffer \<Rightarrow> inline_buffer" where
  "add_paragraph_content (ParagraphRun r) b = fold (add_run_content (extract_style_from_run r)) (dr_content r) b"
| "add_paragraph_content ParagraphOther b = b"

definition flush_text :: "inline_buffer \<Rightarrow> inline list" where
  "flush_text b = ib_inlines b @ (if ib_text b = [] then [] else [Text (ib_text b) (ib_style b)])"

definition extract_inlines_from_paragraph :: "docx_paragraph \<Rightarrow> inline list" where
  "extract_inlines_from_paragraph p =
     flush_text (fold add_paragraph_content (dp_content p) \<lparr>ib_inlines = [], ib_text = [], ib_style = plain_style\<rparr>)"

definition clamp_int :: "int \<Rightarrow> int" where
  "clamp_int l = max 1 (min 6 l)"

definition outline_heading :: "paragraph_property \<Rightarrow> 8 word option" where
  "outline_heading p = map_option (\<lambda>l. of_int (clamp_int (l + 1))) (pp_outline_lvl p)"

definition style_heading :: "paragraph_property \<Rightarrow> 8 word option" where
  "style_heading p =
     (case pp_style_id p of
        None \<Rightarrow> None
      | Some style \<Rightarrow>
          let s = to_lowercase style
          in if starts_with ''heading'' s \<and> 7 < length s
             then map_option (\<lambda>d. of_int (clamp_int (int d))) (digit_val (s ! 7))
             else None)"

definition detect_heading_level :: "docx_paragraph \<Rightarrow> 8 word option" where
  "detect_heading_level p =
     Option.bind (dp_property p) (\<lambda>prop. Option.bind (style_heading prop) (\<lambda>_. outline_heading prop))"

definition extract_paragraph_block :: "docx_paragraph \<Rightarrow> parsed_block option" where
  "extract_paragraph_block p =
     (let inlines = extract_inlines_from_paragraph p
      in if inlines = [] then None
         else Some (case detect_heading_level p of Some l \<Rightarrow> Heading l inlines | None \<Rightarrow> Paragraph inlines))"

definition docx_cell_blocks :: "docx_paragraph list \<Rightarrow> parsed_block list" where
  "docx_cell_blocks ps =
     (let blocks = List.map_filter extract_paragraph_block ps in if blocks = [] then [plain_paragraph []] else blocks)"

fun docx_cells :: "docx_cell list \<Rightarrow> table_cell list" where
  "docx_cells [] = []"
| "docx_cells (RowCell ps # cs) = TableCell (docx_cell_blocks ps) # docx_cells cs"
| "docx_cells (RowOther # cs) = docx_cells cs"

definition extract_table_block :: "docx_row list \<Rightarrow> parsed_block" where
  "extract_table_block rows = Table (TableBlock (map (\<lambda>r. TableRow (flag (dw_table_header r)) (docx_cells (dw_cells r))) rows))"

fun extract_blocks_from_docx :: "body_content list \<Rightarrow> parsed_block list" where
  "extract_blocks_from_docx [] = []"
| "extract_blocks_from_docx (BodyParagraph p # cs) =
     (case extract_paragraph_block p of Some b \<Rightarrow> [b] | None \<Rightarrow> []) @ extract_blocks_from_docx cs"
| "extract_blocks_from_docx (BodyTable rows # cs) = extract_table_block rows # extract_blocks_from_docx cs"
| "extract_blocks_from_docx (BodyOther # cs) = extract_blocks_from_docx cs"

definition open_docx :: "('b, 'u) parser_env \<Rightarrow> 'b file_input \<Rightarrow> (parsed_block list, parser_error) result" where
  "open_docx env i =
     and_then (map_err (\<lambda>e. ParseError (''Failed to open DOCX file: '' @ e)) (pv_docx_open env i)) (\<lambda>opened.
     and_then (map_err (\<lambda>e. ParseError (''Failed to parse DOCX: '' @ e)) opened) (\<lambda>content.
       Ok (extract_blocks_from_docx content)))"

definition docx_mime :: string where
  "docx_mime = ''application/vnd.openxmlformats-officedocument.wordprocessingml.document''"

definition docx_parser :: "('b, 'u) parser_env \<Rightarrow> ('b, 'u, 't) backend" where
  "docx_parser env =
     \<lparr>bk_id = ''docx'', bk_extensions = [''docx''],
      bk_parse_local_path = (\<lambda>path.
        and_then (open_docx env (AtPath path)) (\<lambda>bs.
          Ok (titled_document env (LocalPath path) docx_mime (path_file_name path) bs))),
      bk_parse_bytes = (\<lambda>name _ b.
        and_then (write_temp env b) (\<lambda>_. and_then (open_docx env (InTemp b)) (\<lambda>bs.
          Ok (titled_document env (Uploaded (hint_or ''unknown.docx'' name)) docx_mime name bs))))\<rparr>"

subsection \<open>Other files\<close>

definition stub_document ::
    "('b, 'u) parser_env \<Rightarrow> string \<Rightarrow> 'b \<Rightarrow> parsed_source \<Rightarrow> ('u, 't) parsed_document" where
  "stub_document env name b source =
     (let t = (case pv_utf8 env b of
          Ok s \<Rightarrow> ''[STUB PARSER] Content extracted from '' @ name @ '' ('' @ show_nat (pv_len env b) @ '' bytes)'' @
            [newline, newline] @ ''Raw text preview:'' @ [newline] @ take 500 s
        | Err _ \<Rightarrow> ''[STUB PARSER] Binary content from '' @ name @ '' ('' @ show_nat (pv_len env b) @ '' bytes)'' @
            [newline, newline] @ ''Base64 preview (first 300 bytes):'' @ [newline] @ pv_base64_300 env b)
      in build_document (pv_uuid env) ((document_builder_new (pv_uuid env) source)
           \<lparr>db_title := Some name, db_original_filename := Some name, db_content_type := Some ''application/octet-stream'',
            db_is_stub := True, db_blocks := [plain_paragraph t]\<rparr>))"

definition stub_parser :: "('b, 'u) parser_env \<Rightarrow> ('b, 'u, 't) backend" where
  "stub_parser env =
     \<lparr>bk_id = ''generic_stub'', bk_extensions = [''doc'', ''rtf'', ''odt'', ''xls'', ''xlsx'', ''ppt'', ''pptx''],
      bk_parse_local_path = (\<lambda>path.
        and_then (read_file env path) (\<lambda>b.
          Ok (stub_document env (hint_or ''unknown'' (path_file_name path)) b (LocalPath path)))),
      bk_parse_bytes = (\<lambda>name _ b.
        Ok (stub_document env (hint_or ''unknown'' name) b (Uploaded (hint_or ''unknown'' name))))\<rparr>"

section \<open>The service\<close>

record ('b, 'u, 't) parser_service =
  sv_parsers :: "('b, 'u, 't) backend list"
  sv_max_file_size_bytes :: nat
  sv_download_timeout_secs :: nat

text \<open>\<open>FileParserModule::init\<close>; the product of the \<open>u64\<close> values wraps in a release build.\<close>

definition max_file_size :: "64 word \<Rightarrow> nat" where
  "max_file_size mb = unat (mb * (1024 * 1024))"

definition module_parsers :: "('b, 'u) parser_env \<Rightarrow> ('b, 'u, 't) backend list" where
  "module_parsers env = [plain_text_parser env, html_parser env, pdf_parser env, docx_parser env, stub_parser env]"

definition init_service :: "('b, 'u) parser_env \<Rightarrow> 64 word \<Rightarrow> nat \<Rightarrow> ('b, 'u, 't) parser_service" where
  "init_service env max_mb timeout =
     \<lparr>sv_parsers = module_parsers env, sv_max_file_size_bytes = max_file_size max_mb, sv_download_timeout_secs = timeout\<rparr>"

definition supports :: "string \<Rightarrow> ('b, 'u, 't) backend \<Rightarrow> bool" where
  "supports ext p \<longleftrightarrow> to_lowercase ext \<in> set (map to_lowercase (bk_extensions p))"

definition find_parser_by_extension :: "('b, 'u, 't) backend list \<Rightarrow> string \<Rightarrow> ('b, 'u, 't) backend option" where
  "find_parser_by_extension ps ext = List.find (supports ext) ps"

definition parser_info :: "('b, 'u, 't) parser_service \<Rightarrow> (string \<times> string list) list" where
  "parser_info s = fold (\<lambda>p. AList.update (bk_id p) (bk_extensions p)) (sv_parsers s) []"

definition find_parser ::
    "('b, 'u, 't) parser_service \<Rightarrow> string \<Rightarrow> (('b, 'u, 't) backend, parser_error) result" where
  "find_parser s ext = ok_or (NoParserAvailable ext) (find_parser_by_extension (sv_parsers s) ext)"

definition parse_local :: "('b, 'u) parser_env \<Rightarrow> ('b, 'u, 't) parser_service \<Rightarrow> string \<Rightarrow> ('u, 't) parse_result" where
  "parse_local env s path =
     (if \<not> pv_exists env path then Err (FileNotFound path)
      else
        and_then (ok_or (UnsupportedFileType ''no extension'') (path_extension path)) (\<lambda>ext.
        and_then (find_parser s ext) (\<lambda>p. bk_parse_local_path p path)))"

definition extension_from_content_type :: "('b, 'u) parser_env \<Rightarrow> string \<Rightarrow> string option" where
  "extension_from_content_type env ct =
     Option.bind (pv_mime_essence env ct) (\<lambda>m.
       if m = ''application/pdf'' then Some ''pdf''
       else if m \<in> {''text/html'', ''application/xhtml+xml''} then Some ''html''
       else if m = docx_mime then Some ''docx'' else None)"

definition too_large :: "('b, 'u) parser_env \<Rightarrow> ('b, 'u, 't) parser_service \<Rightarrow> 'b \<Rightarrow> (unit, parser_error) result" where
  "too_large env s b =
     (if sv_max_file_size_bytes s < pv_len env b then
        Err (InvalidRequest (''File size '' @ show_nat (pv_len env b) @ '' exceeds maximum of '' @
          show_nat (sv_max_file_size_bytes s) @ '' bytes''))
      else Ok ())"

definition upload_extension :: "('b, 'u) parser_env \<Rightarrow> string option \<Rightarrow> string option \<Rightarrow> (string, parser_error) result" where
  "upload_extension env name ct =
     (case Option.bind name path_extension of
        Some ext \<Rightarrow> Ok ext
      | None \<Rightarrow>
          (case ct of
             Some c \<Rightarrow> ok_or (UnsupportedFileType ''no extension and unknown content-type'') (extension_from_content_type env c)
           | None \<Rightarrow> Err (UnsupportedFileType ''no extension and no content-type'')))"

definition parse_bytes ::
    "('b, 'u) parser_env \<Rightarrow> ('b, 'u, 't) parser_service \<Rightarrow> string option \<Rightarrow> string option \<Rightarrow> 'b \<Rightarrow> ('u, 't) parse_result" where
  "parse_bytes env s name ct b =
     and_then (too_large env s b) (\<lambda>_.
     and_then (upload_extension env name ct) (\<lambda>ext.
     and_then (find_parser s ext) (\<lambda>p. bk_parse_bytes p name ct b)))"

definition expected_mime :: "string \<Rightarrow> string option" where
  "expected_mime ext =
     (let e = to_lowercase ext
      in if e = ''pdf'' then Some ''application/pdf''
         else if e \<in> {''html'', ''htm''} then Some ''text/html''
         else if e = ''docx'' then Some docx_mime else None)"

definition validate_mime_type :: "('b, 'u) parser_env \<Rightarrow> string \<Rightarrow> string \<Rightarrow> (unit, parser_error) result" where
  "validate_mime_type env ext ct =
     and_then (ok_or (InvalidRequest (''Invalid content-type: '' @ ct)) (pv_mime_essence env ct)) (\<lambda>m.
       case expected_mime ext of
         None \<Rightarrow> Ok ()
       | Some e \<Rightarrow>
           if (if ext = ''html'' \<or> ext = ''htm'' then m = e \<or> m = ''application/xhtml+xml'' else m = e) then Ok ()
           else Err (InvalidRequest (''Content-Type '' @ m @ '' does not match expected type '' @ e @ '' for .'' @ ext)))"

definition is_success :: "nat \<Rightarrow> bool" where
  "is_success status \<longleftrightarrow> 200 \<le> status \<and> status < 300"

definition download ::
    "('b, 'u) parser_env \<Rightarrow> ('b, 'u, 't) parser_service \<Rightarrow> string \<Rightarrow> url \<Rightarrow> (string option \<times> 'b, parser_error) result" where
  "download env s ext u =
     and_then (map_err (\<lambda>e. DownloadError (''Failed to create HTTP client: '' @ e)) (pv_http_client env (sv_download_timeout_secs s))) (\<lambda>_.
     and_then (map_err (\<lambda>e. DownloadError (''Failed to download file: '' @ e)) (pv_http_get env (ur_text u))) (\<lambda>(resp, body).
       if \<not> is_success (hr_status resp) then Err (DownloadError (''HTTP error: '' @ pv_show_status env (hr_status resp)))
       else
         and_then (case hr_content_type resp of Some ct \<Rightarrow> validate_mime_type env ext ct | None \<Rightarrow> Ok ()) (\<lambda>_.
         and_then (map_err (\<lambda>e. DownloadError (''Failed to read response: '' @ e)) body) (\<lambda>b.
         and_then (too_large env s b) (\<lambda>_. Ok (hr_content_type resp, b))))))"

definition parse_url :: "('b, 'u) parser_env \<Rightarrow> ('b, 'u, 't) parser_service \<Rightarrow> url \<Rightarrow> ('u, 't) parse_result" where
  "parse_url env s u =
     and_then (ok_or (UnsupportedFileType ''no extension in URL'') (path_extension (ur_path u))) (\<lambda>ext.
     and_then (find_parser s ext) (\<lambda>p.
     and_then (download env s ext u) (\<lambda>(ct, b). bk_parse_bytes p (path_file_name (ur_path u)) ct b)))"

section \<open>Handlers\<close>

text \<open>A response is the document with its Markdown where it was asked for, or the chunks of the Markdown stream.\<close>

definition with_markdown :: "bool option \<Rightarrow> ('u, 't) parsed_document \<Rightarrow> ('u, 't) parsed_document \<times> string option" where
  "with_markdown q d = (d, if q = Some True then Some (render d) else None)"

definition handle_parse_local where
  "handle_parse_local env s q path =
     map_err parser_error_to_problem (and_then (parse_local env s path) (\<lambda>d. Ok (with_markdown q d)))"

definition handle_upload where
  "handle_upload env s q name ct b =
     map_err parser_error_to_problem
       (if pv_len env b = 0 then Err (InvalidRequest ''Empty request body, expected file bytes'')
        else and_then (parse_bytes env s name ct b) (\<lambda>d. Ok (with_markdown q d)))"

definition given_url :: "('b, 'u) parser_env \<Rightarrow> string \<Rightarrow> (url, parser_error) result" where
  "given_url env t = ok_or (InvalidUrl t) (pv_url_parse env t)"

definition handle_parse_url where
  "handle_parse_url env s q t =
     map_err parser_error_to_problem
       (and_then (given_url env t) (\<lambda>u. and_then (parse_url env s u) (\<lambda>d. Ok (with_markdown q d))))"

definition handle_local_markdown where
  "handle_local_markdown env s path =
     map_err parser_error_to_problem (and_then (parse_local env s path) (\<lambda>d. Ok (chunks (render_iter d))))"

record 'b multipart_field =
  mp_name :: "string option"
  mp_file_name :: "string option"
  mp_bytes :: "('b, string) result"

fun first_file :: "('b multipart_field, string) result list \<Rightarrow> (string option \<times> 'b option, parser_error) result" where
  "first_file [] = Ok (None, None)"
| "first_file (Err e # fs) = Err (InvalidRequest (''Multipart error: '' @ e))"
| "first_file (Ok f # fs) =
     (if mp_name f = Some ''file'' then
        and_then (map_err (\<lambda>e. IoError (''Failed to read file: '' @ e)) (mp_bytes f)) (\<lambda>b. Ok (mp_file_name f, Some b))
      else first_file fs)"

definition handle_upload_markdown where
  "handle_upload_markdown env s fs =
     map_err parser_error_to_problem
       (and_then (first_file fs) (\<lambda>(name, bytes).
        and_then (ok_or (InvalidRequest ''No file field found in multipart request'') name) (\<lambda>n.
        and_then (ok_or (InvalidRequest ''No file data found in multipart request'') bytes) (\<lambda>b.
        and_then (parse_bytes env s (Some n) None b) (\<lambda>d. Ok (chunks (render_iter d)))))))"

definition handle_url_markdown where
  "handle_url_markdown env s t =
     map_err parser_error_to_problem
       (and_then (given_url env t) (\<lambda>u. and_then (parse_url env s u) (\<lambda>d. Ok (chunks (render_iter d)))))"

section \<open>Lemmas\<close>

subsection \<open>Paragraphs\<close>

lemma split_blank_nonempty [simp]: "split_blank s \<noteq> []"
  by (induction s rule: split_blank.induct) (auto split: list.splits)

lemma prefix_split_blank: "split_blank s = g # gs \<Longrightarrow> prefix g s"
proof (induction s arbitrary: g gs rule: split_blank.induct)
  case (2 c s)
  then show ?case by (cases "c = newline \<and> s \<noteq> [] \<and> hd s = newline") (auto split: list.splits)
qed simp

lemma no_blank_in_segment: "g \<in> set (split_blank s) \<Longrightarrow> \<not> sublist [newline, newline] g"
proof (induction s arbitrary: g rule: split_blank.induct)
  case (2 c s)
  show ?case
  proof (cases "c = newline \<and> s \<noteq> [] \<and> hd s = newline")
    case True
    with 2 show ?thesis by auto
  next
    case False
    obtain h hs where h: "split_blank s = h # hs" using split_blank_nonempty[of s] by (meson list.exhaust)
    then have "prefix h s" by (rule prefix_split_blank)
    with False have "\<not> prefix [newline, newline] (c # h)" by (cases h; cases s) auto
    moreover have "\<not> sublist [newline, newline] h" using 2(2)[OF False, of h] h by simp
    ultimately have "\<not> sublist [newline, newline] (c # h)" by (simp add: sublist_Cons_right)
    then show ?thesis using 2(2)[OF False, of g] "2.prems" h False by auto
  qed
qed simp

lemma split_blank_append:
  "\<not> sublist [newline, newline] p \<Longrightarrow> p \<noteq> [] \<Longrightarrow> last p \<noteq> newline \<Longrightarrow> split_blank (p @ newline # newline # t) = p # split_blank t"
proof (induction p)
  case (Cons c p)
  show ?case
  proof (cases "p = []")
    case False
    with Cons.prems have "\<not> (c = newline \<and> hd p = newline)" by (cases p) auto
    moreover have "split_blank (p @ newline # newline # t) = p # split_blank t"
      using Cons False by (auto simp: sublist_Cons_right)
    ultimately show ?thesis using False by auto
  qed (use Cons in auto)
qed simp

lemma trim_empty_iff: "trim t = [] \<longleftrightarrow> (\<forall>c \<in> set t. is_whitespace c)"
proof -
  have "trim t = [] \<longleftrightarrow> (\<forall>c \<in> set (trim_start t). is_whitespace c)"
    by (simp add: trim_def trim_end_def dropWhile_eq_Nil_conv)
  also have "\<dots> \<longleftrightarrow> (\<forall>c \<in> set t. is_whitespace c)"
    unfolding trim_start_def by (metis dropWhile_eq_Nil_conv hd_dropWhile hd_in_set set_dropWhileD)
  finally show ?thesis .
qed

lemma trim_ends: "trim t \<noteq> [] \<Longrightarrow> \<not> is_whitespace (hd (trim t)) \<and> \<not> is_whitespace (last (trim t))"
proof -
  assume n: "trim t \<noteq> []"
  let ?s = "dropWhile is_whitespace t" and ?r = "dropWhile is_whitespace (rev (dropWhile is_whitespace t))"
  have t: "trim t = rev ?r" by (simp add: trim_def trim_end_def trim_start_def)
  with n have "?r \<noteq> []" by simp
  then have l: "\<not> is_whitespace (hd ?r)" by (rule hd_dropWhile)
  have "suffix ?r (rev ?s)" by (rule suffix_dropWhile)
  then have p: "prefix (rev ?r) ?s" by (metis rev_rev_ident suffix_to_prefix)
  have r: "rev ?r \<noteq> []" using n t by simp
  then have "hd (rev ?r) = hd ?s" using p by (metis hd_append2 prefix_def)
  moreover have "?s \<noteq> []" using r p by (metis prefix_Nil)
  ultimately show ?thesis using l t n hd_dropWhile[of is_whitespace t] by (simp add: last_rev)
qed

lemma trim_trim [simp]: "trim (trim t) = trim t"
proof (cases "trim t = []")
  case True
  then show ?thesis unfolding True by (simp add: trim_empty_iff)
next
  case False
  with trim_ends[OF this] show ?thesis by (simp add: trim_plain)
qed

lemma sublist_trim: "sublist (trim t) t"
proof -
  have "prefix (trim_end s) s" for s
    unfolding trim_end_def by (metis rev_rev_ident suffix_dropWhile suffix_to_prefix)
  then have "sublist (trim t) (trim_start t)" unfolding trim_def by (rule prefix_imp_sublist)
  moreover have "sublist (trim_start t) t" unfolding trim_start_def by (rule suffix_imp_sublist[OF suffix_dropWhile])
  ultimately show ?thesis by (rule sublist_order.order_trans)
qed

lemma render_plain_paragraph: "render_block (Paragraph [plain t]) = t @ [newline, newline]"
  by (simp add: render_inlines_def plain_def plain_style_def render_styled_text_def)

lemma whitespace_newline [simp]: "is_whitespace newline"
  by (simp add: is_whitespace_def newline_def)

text \<open>\<open>texts\<close>: paragraphs in the form the splitting yields.\<close>

definition paragraph_text :: "string \<Rightarrow> bool" where
  "paragraph_text p \<longleftrightarrow> p \<noteq> [] \<and> trim p = p \<and> \<not> sublist [newline, newline] p"

lemma split_rendered:
  "list_all paragraph_text ps \<Longrightarrow> split_blank (concat (map (\<lambda>p. p @ [newline, newline]) ps)) = ps @ [[]]"
proof (induction ps)
  case (Cons p ps)
  then have "p \<noteq> []" "trim p = p" "\<not> sublist [newline, newline] p" by (simp_all add: paragraph_text_def)
  moreover from this have "last p \<noteq> newline" using trim_ends[of p] by auto
  ultimately show ?case using Cons by (simp add: split_blank_append)
qed simp

lemma paragraphs_form:
  "\<exists>ps. list_all paragraph_text ps \<and> paragraphs t = map (\<lambda>p. Paragraph [plain p]) ps"
proof (intro exI conjI)
  let ?ps = "map trim (filter (\<lambda>p. trim p \<noteq> []) (split_blank t))"
  show "list_all paragraph_text ?ps"
    using no_blank_in_segment sublist_trim sublist_order.order_trans
    by (auto simp: list_all_iff paragraph_text_def) blast
  show "paragraphs t = map (\<lambda>p. Paragraph [plain p]) ?ps" by (simp add: paragraphs_def)
qed

subsection \<open>Routing\<close>

lemma plain_text_extensions [simp]: "bk_extensions (plain_text_parser env) = [''txt'', ''log'', ''md'']"
  and html_extensions [simp]: "bk_extensions (html_parser env) = [''html'', ''htm'']"
  and pdf_extensions [simp]: "bk_extensions (pdf_parser env) = [''pdf'']"
  and docx_extensions [simp]: "bk_extensions (docx_parser env) = [''docx'']"
  and stub_extensions [simp]: "bk_extensions (stub_parser env) = [''doc'', ''rtf'', ''odt'', ''xls'', ''xlsx'', ''ppt'', ''pptx'']"
  by (simp_all add: plain_text_parser_def html_parser_def pdf_parser_def docx_parser_def stub_parser_def)

lemma lower_extension: "p \<in> set (module_parsers env) \<Longrightarrow> supports ext p \<longleftrightarrow> to_lowercase ext \<in> set (bk_extensions p)"
proof -
  have "to_lowercase x = x" if "x \<in> set (bk_extensions p)" "p \<in> set (module_parsers env)" for x
    using that by (auto simp: module_parsers_def to_lowercase_def lower_char_def Let_def)
  moreover assume "p \<in> set (module_parsers env)"
  ultimately show ?thesis by (force simp: supports_def)
qed

lemma extensions_disjoint:
  "p \<in> set (module_parsers env) \<Longrightarrow> q \<in> set (module_parsers env) \<Longrightarrow> e \<in> set (bk_extensions p) \<Longrightarrow>
   e \<in> set (bk_extensions q) \<Longrightarrow> p = q"
  by (auto simp: module_parsers_def)

lemma find_unique:
  assumes "\<And>x y. x \<in> set xs \<Longrightarrow> y \<in> set xs \<Longrightarrow> P x \<Longrightarrow> P y \<Longrightarrow> x = y"
  shows "List.find P xs = Some x \<longleftrightarrow> x \<in> set xs \<and> P x"
  using assms by (induction xs) auto

subsection \<open>Documents of the backends\<close>

lemma source_titled [simp]: "pm_source (pd_meta (titled_document env src ct name bs)) = src"
  by (simp add: titled_document_def build_document_def document_builder_new_def Let_def split: option.split)

lemma source_html [simp]: "pm_source (pd_meta (html_document env src name p)) = src"
  by (simp add: html_document_def build_document_def document_builder_new_def Let_def split: option.split)

lemma source_stub [simp]: "pm_source (pd_meta (stub_document env name b src)) = src"
  by (simp add: stub_document_def build_document_def document_builder_new_def Let_def)

lemma parse_bytes_source:
  assumes "p \<in> set (module_parsers env)" "bk_parse_bytes p name ct b = Ok d"
  shows "\<exists>n. pm_source (pd_meta d) = Uploaded n"
  using assms
  by (auto simp: module_parsers_def plain_text_parser_def html_parser_def pdf_parser_def docx_parser_def stub_parser_def res_simps)

lemma find_parser_Ok: "find_parser s ext = Ok p \<Longrightarrow> p \<in> set (sv_parsers s) \<and> supports ext p"
  by (auto simp: find_parser_def find_parser_by_extension_def find_Some_iff)

lemma too_large_Ok [simp]: "too_large env s b = Ok u \<longleftrightarrow> pv_len env b \<le> sv_max_file_size_bytes s"
  by (auto simp: too_large_def)

lemma download_Ok:
  "download env s ext u = Ok (ct, b) \<Longrightarrow>
   \<exists>resp. pv_http_get env (ur_text u) = Ok (resp, Ok b) \<and> is_success (hr_status resp) \<and> ct = hr_content_type resp \<and>
     pv_len env b \<le> sv_max_file_size_bytes s \<and> (\<forall>c. ct = Some c \<longrightarrow> validate_mime_type env ext c = Ok ())"
  by (auto simp: download_def res_simps split: if_splits option.splits)

lemma parse_url_Ok:
  "parse_url env s u = Ok d \<Longrightarrow>
   \<exists>ext p ct b. path_extension (ur_path u) = Some ext \<and> find_parser s ext = Ok p \<and> download env s ext u = Ok (ct, b) \<and>
     bk_parse_bytes p (path_file_name (ur_path u)) ct b = Ok d"
  by (auto simp: parse_url_def res_simps)

lemma validate_mime_Ok:
  "validate_mime_type env ext ct = Ok () \<Longrightarrow> expected_mime ext = Some e \<Longrightarrow>
   pv_mime_essence env ct = Some e \<or> (e = ''text/html'' \<and> pv_mime_essence env ct = Some ''application/xhtml+xml'')"
  by (auto simp: validate_mime_type_def expected_mime_def to_lowercase_def lower_char_def Let_def res_simps split: if_splits)

text \<open>The text of the inlines of a DOCX paragraph.\<close>

fun inline_text :: "inline \<Rightarrow> string" where
  "inline_text (Text t _) = t"
| "inline_text (Link t _ _) = t"
| "inline_text (Code t _) = t"

fun run_content_text :: "run_content \<Rightarrow> string" where
  "run_content_text (RunText t) = t"
| "run_content_text RunTab = [CHR 0x09]"
| "run_content_text RunBreak = [newline]"
| "run_content_text RunOther = []"

fun paragraph_content_text :: "paragraph_content \<Rightarrow> string" where
  "paragraph_content_text (ParagraphRun r) = concat (map run_content_text (dr_content r))"
| "paragraph_content_text ParagraphOther = []"

definition buffer_text :: "inline_buffer \<Rightarrow> string" where
  "buffer_text b = concat (map inline_text (ib_inlines b)) @ ib_text b"

definition buffer_ok :: "inline_buffer \<Rightarrow> bool" where
  "buffer_ok b = list_all (\<lambda>i. inline_text i \<noteq> []) (ib_inlines b)"

lemma add_run_content_step:
  "buffer_text (add_run_content style c b) = buffer_text b @ run_content_text c \<and>
   (buffer_ok b \<longrightarrow> buffer_ok (add_run_content style c b))"
  by (cases c) (auto simp: add_text_def buffer_text_def buffer_ok_def Let_def)

lemma add_run_contents:
  "buffer_text (fold (add_run_content style) cs b) = buffer_text b @ concat (map run_content_text cs) \<and>
   (buffer_ok b \<longrightarrow> buffer_ok (fold (add_run_content style) cs b))"
  by (induction cs arbitrary: b) (auto simp: add_run_content_step)

lemma add_paragraph_contents:
  "buffer_text (fold add_paragraph_content cs b) = buffer_text b @ concat (map paragraph_content_text cs) \<and>
   (buffer_ok b \<longrightarrow> buffer_ok (fold add_paragraph_content cs b))"
proof (induction cs arbitrary: b)
  case (Cons c cs)
  then show ?case by (cases c) (simp_all add: add_run_contents)
qed simp

text \<open>The blocks that HTML yields.\<close>

definition nonblank :: "inline list \<Rightarrow> bool" where
  "nonblank is = (\<exists>t \<in> set (map inline_text is). is = [plain t] \<and> t \<noteq> [] \<and> trim t = t)"

fun nonblank_paragraph :: "parsed_block list \<Rightarrow> bool" where
  "nonblank_paragraph [Paragraph is] = nonblank is"
| "nonblank_paragraph _ = False"

fun html_block_ok :: "parsed_block \<Rightarrow> bool" where
  "html_block_ok (Heading l is) \<longleftrightarrow> 1 \<le> l \<and> l \<le> 6 \<and> nonblank is"
| "html_block_ok (Paragraph is) \<longleftrightarrow> nonblank is"
| "html_block_ok (ListItem l ordered bs) \<longleftrightarrow> l = 0 \<and> nonblank_paragraph bs"
| "html_block_ok (CodeBlock lang code) \<longleftrightarrow> lang = None \<and> code \<noteq> []"
| "html_block_ok (Quote bs) \<longleftrightarrow> nonblank_paragraph bs"
| "html_block_ok (Table t) \<longleftrightarrow> False"
| "html_block_ok PageBreak \<longleftrightarrow> False"
| "html_block_ok _ \<longleftrightarrow> True"

lemma nonblank_plain [simp]: "nonblank [plain t] \<longleftrightarrow> t \<noteq> [] \<and> trim t = t"
  by (auto simp: nonblank_def plain_def)

lemma when_text_ok: "(\<And>t. t \<noteq> [] \<Longrightarrow> trim t = t \<Longrightarrow> html_block_ok (f t)) \<Longrightarrow> list_all html_block_ok (when_text s f)"
  by (simp add: when_text_def)

lemma list_items_ok: "list_all html_block_ok (list_items 0 ordered ns)"
  by (induction "0 :: 8 word" ordered ns rule: list_items.induct) (auto intro!: when_text_ok simp: plain_paragraph_def)

lemma heading_tag_level_ok:
  "name \<in> {''h1'', ''h2'', ''h3'', ''h4'', ''h5'', ''h6''} \<Longrightarrow> 1 \<le> heading_tag_level name \<and> heading_tag_level name \<le> 6"
  by (auto simp: heading_tag_level_def digit_val_def)

lemma list_all_if: "list_all P (if c then a else b) \<longleftrightarrow> (c \<longrightarrow> list_all P a) \<and> (\<not> c \<longrightarrow> list_all P b)"
  by simp

lemma list_all_concat: "list_all P (concat (map f xs)) \<longleftrightarrow> list_all (\<lambda>x. list_all P (f x)) xs"
  by (auto simp: list_all_iff)

lemma extract_ok: "list_all html_block_ok (extract_blocks_from_node 0 n)"
proof (induction "0 :: 8 word" n rule: extract_blocks_from_node.induct)
  case (1 name attrs inner children)
  have h: "name \<in> {''h1'', ''h2'', ''h3'', ''h4'', ''h5'', ''h6''} \<Longrightarrow>
      list_all html_block_ok (when_text inner (\<lambda>t. Heading (heading_tag_level name) [plain t]))"
    by (rule when_text_ok) (simp only: html_block_ok.simps nonblank_plain heading_tag_level_ok simp_thms)
  have t: "list_all html_block_ok (when_text inner plain_paragraph)"
    "list_all html_block_ok (when_text inner (\<lambda>t. ListItem 0 False [plain_paragraph t]))"
    "list_all html_block_ok (when_text inner (\<lambda>t. Quote [plain_paragraph t]))"
    by (rule when_text_ok, simp add: plain_paragraph_def)+
  show ?case unfolding extract_blocks_from_node.simps list_all_if list_all_concat
    using h t list_items_ok 1 by (intro conjI impI) (simp_all add: list_all_iff[of _ children] del: insert_iff)
qed simp

section \<open>Properties\<close>

text \<open>C38. Plain text survives the Markdown renderer: parsing the rendered paragraphs of a text yields the same paragraphs.\<close>

theorem text_markdown_roundtrip: "paragraphs (concat (map render_block (paragraphs t))) = paragraphs t"
proof -
  obtain ps where ps: "list_all paragraph_text ps" "paragraphs t = map (\<lambda>p. Paragraph [plain p]) ps"
    using paragraphs_form by blast
  then have "concat (map render_block (paragraphs t)) = concat (map (\<lambda>p. p @ [newline, newline]) ps)"
    by (simp add: comp_def render_plain_paragraph del: render_block.simps)
  moreover have "map trim (filter (\<lambda>p. trim p \<noteq> []) ps) = ps"
    using ps(1) by (induction ps) (auto simp: paragraph_text_def)
  then have "paragraphs (concat (map (\<lambda>p. p @ [newline, newline]) ps)) = map (\<lambda>p. Paragraph [plain p]) ps"
    unfolding paragraphs_def split_rendered[OF ps(1)]
    by (simp add: trim_empty_iff[of "[]"]) (metis (no_types, lifting) comp_apply list.map_comp map_eq_conv)
  ultimately show ?thesis using ps(2) by simp
qed

text \<open>Which backend gets a file does not depend on the order in which the module lists its backends: it is the one that has the
  lower-cased extension among its own.\<close>

theorem routing_is_order_independent:
  assumes "mset ps = mset (module_parsers env)"
  shows "find_parser_by_extension ps ext = Some p \<longleftrightarrow> p \<in> set (module_parsers env) \<and> to_lowercase ext \<in> set (bk_extensions p)"
proof -
  have s: "set ps = set (module_parsers env)" using assms by (metis set_mset_mset)
  have "x = y" if "x \<in> set ps" "y \<in> set ps" "supports ext x" "supports ext y" for x y
    using that lower_extension extensions_disjoint unfolding s by metis
  from find_unique[of ps "supports ext", OF this] show ?thesis
    unfolding find_parser_by_extension_def s using lower_extension by blast
qed

text \<open>C37. A document from a URL comes from a successful response, within the size limit, whose content type, where there is one,
  is the one of the extension; the backend of that extension parsed its bytes.\<close>

theorem accepted_download:
  assumes "parse_url env s u = Ok d"
  shows "\<exists>ext p resp b. path_extension (ur_path u) = Some ext \<and> p \<in> set (sv_parsers s) \<and> supports ext p \<and>
     pv_http_get env (ur_text u) = Ok (resp, Ok b) \<and> is_success (hr_status resp) \<and>
     pv_len env b \<le> sv_max_file_size_bytes s \<and>
     (\<forall>ct e. hr_content_type resp = Some ct \<longrightarrow> expected_mime ext = Some e \<longrightarrow>
        pv_mime_essence env ct = Some e \<or> (e = ''text/html'' \<and> pv_mime_essence env ct = Some ''application/xhtml+xml'')) \<and>
     bk_parse_bytes p (path_file_name (ur_path u)) (hr_content_type resp) b = Ok d"
proof -
  from parse_url_Ok[OF assms] obtain ext p ct b where *: "path_extension (ur_path u) = Some ext" "find_parser s ext = Ok p"
    "download env s ext u = Ok (ct, b)" "bk_parse_bytes p (path_file_name (ur_path u)) ct b = Ok d" by blast
  from download_Ok[OF this(3)] obtain resp where "pv_http_get env (ur_text u) = Ok (resp, Ok b)" "is_success (hr_status resp)"
    "ct = hr_content_type resp" "pv_len env b \<le> sv_max_file_size_bytes s"
    "\<And>c. ct = Some c \<Longrightarrow> validate_mime_type env ext c = Ok ()" by blast
  with * find_parser_Ok[OF *(2)] validate_mime_Ok show ?thesis by blast
qed

text \<open>An upload that is accepted is not empty and within the limit; the stream endpoint accepts only a field called file that
  has a file name, and it too keeps to the limit.\<close>

theorem upload_limits:
  "(handle_upload env s q name ct b = Ok r \<longrightarrow> 0 < pv_len env b \<and> pv_len env b \<le> sv_max_file_size_bytes s) \<and>
   (handle_upload_markdown env s fs = Ok cs \<longrightarrow>
      (\<exists>f n b. Ok f \<in> set fs \<and> mp_name f = Some ''file'' \<and> mp_file_name f = Some n \<and> mp_bytes f = Ok b \<and>
        pv_len env b \<le> sv_max_file_size_bytes s))"
proof (intro conjI impI)
  assume "handle_upload env s q name ct b = Ok r"
  then show "0 < pv_len env b" "pv_len env b \<le> sv_max_file_size_bytes s"
    by (auto simp: handle_upload_def parse_bytes_def res_simps split: if_splits)
next
  have f: "first_file gs = Ok (Some n, Some b) \<Longrightarrow>
      \<exists>f. Ok f \<in> set gs \<and> mp_name f = Some ''file'' \<and> mp_file_name f = Some n \<and> mp_bytes f = Ok b" for gs n b
    by (induction gs rule: first_file.induct) (auto simp: res_simps split: if_splits)
  assume "handle_upload_markdown env s fs = Ok cs"
  then obtain n b where "first_file fs = Ok (Some n, Some b)" "pv_len env b \<le> sv_max_file_size_bytes s"
    by (auto simp: handle_upload_markdown_def parse_bytes_def res_simps)
  with f[OF this(1)] show "\<exists>f n b. Ok f \<in> set fs \<and> mp_name f = Some ''file'' \<and> mp_file_name f = Some n \<and> mp_bytes f = Ok b \<and>
      pv_len env b \<le> sv_max_file_size_bytes s" by metis
qed

text \<open>The streaming endpoints send, chunk by chunk, the Markdown that the JSON endpoints return in one string, and fail with
  the same problem.\<close>

theorem markdown_endpoints_agree:
  "(case handle_local_markdown env s path of Ok cs \<Rightarrow> Ok (concat cs) | Err e \<Rightarrow> Err e) =
     (case handle_parse_local env s (Some True) path of Ok (_, m) \<Rightarrow> Ok (opt_str m) | Err e \<Rightarrow> Err e) \<and>
   (case handle_url_markdown env s t of Ok cs \<Rightarrow> Ok (concat cs) | Err e \<Rightarrow> Err e) =
     (case handle_parse_url env s (Some True) t of Ok (_, m) \<Rightarrow> Ok (opt_str m) | Err e \<Rightarrow> Err e)"
proof -
  have "(case map_err f (and_then r (\<lambda>d. Ok (chunks (render_iter d)))) of Ok cs \<Rightarrow> Ok (concat cs) | Err e \<Rightarrow> Err e) =
      (case map_err f (and_then r (\<lambda>d. Ok (with_markdown (Some True) d))) of Ok (_, m) \<Rightarrow> Ok (opt_str m) | Err e \<Rightarrow> Err e)"
    for f :: "parser_error \<Rightarrow> problem" and r :: "('b, 'c) parse_result"
    by (cases r) (simp_all add: with_markdown_def opt_str_def render_def)
  moreover have "and_then (and_then r f) g = and_then r (\<lambda>x. and_then (f x) g)"
    for r :: "('x, parser_error) result" and f :: "'x \<Rightarrow> ('b, 'c) parse_result" and g
    by (cases r) auto
  ultimately show ?thesis
    unfolding handle_local_markdown_def handle_parse_local_def handle_url_markdown_def handle_parse_url_def by (metis (no_types))
qed

text \<open>The content type \<open>application/xhtml+xml\<close> is accepted for an HTML extension only when the extension is in lower case,
  although the expected type and the backend are looked up without regard to case.\<close>

theorem uppercase_extension_rejects_xhtml:
  assumes "pv_mime_essence env ct = Some ''application/xhtml+xml''" "to_lowercase ext \<in> {''html'', ''htm''}"
  shows "is_ok (validate_mime_type env ext ct) \<longleftrightarrow> ext \<in> {''html'', ''htm''}"
  using assms by (auto simp: validate_mime_type_def expected_mime_def Let_def)

text \<open>The inlines of a DOCX paragraph hold the text of its runs, in order and complete, tabs and breaks included, and none is
  empty.\<close>

theorem docx_text_is_preserved:
  "concat (map inline_text (extract_inlines_from_paragraph p)) = concat (map paragraph_content_text (dp_content p)) \<and>
   list_all (\<lambda>i. inline_text i \<noteq> []) (extract_inlines_from_paragraph p)"
proof -
  let ?b = "\<lparr>ib_inlines = [], ib_text = [], ib_style = plain_style\<rparr>"
  have f: "concat (map inline_text (flush_text b)) = buffer_text b" "buffer_ok b \<Longrightarrow> list_all (\<lambda>i. inline_text i \<noteq> []) (flush_text b)"
    for b by (simp_all add: flush_text_def buffer_text_def buffer_ok_def)
  have "buffer_text ?b = []" "buffer_ok ?b" by (simp_all add: buffer_text_def buffer_ok_def)
  then show ?thesis using add_paragraph_contents[of "dp_content p" ?b]
    unfolding extract_inlines_from_paragraph_def by (simp add: f)
qed

text \<open>A DOCX paragraph is a heading only when it has an outline level, and then at that level; the digit of a heading style is
  read but never used, so that a paragraph styled as a heading without an outline level is plain.\<close>

theorem heading_needs_outline_level:
  "(detect_heading_level p = Some l \<longrightarrow> 1 \<le> l \<and> l \<le> 6 \<and> (\<exists>pr. dp_property p = Some pr \<and> outline_heading pr = Some l)) \<and>
   (\<exists>pr. style_heading pr = Some 1 \<and>
      extract_paragraph_block \<lparr>dp_property = Some pr, dp_content = [ParagraphRun \<lparr>dr_property = None, dr_content = [RunText ''x'']\<rparr>]\<rparr>
        = Some (plain_paragraph ''x''))"
proof (intro conjI impI)
  assume "detect_heading_level p = Some l"
  then obtain pr where p: "dp_property p = Some pr" "outline_heading pr = Some l"
    by (auto simp: detect_heading_level_def bind_eq_Some_conv)
  then obtain k where k: "l = of_int (clamp_int k)" by (auto simp: outline_heading_def)
  have "clamp_int k \<in> {1, 2, 3, 4, 5, 6}" by (auto simp: clamp_int_def min_def max_def)
  then show "1 \<le> l" "l \<le> 6" unfolding k by auto
  show "\<exists>pr. dp_property p = Some pr \<and> outline_heading pr = Some l" using p by blast
next
  let ?pr = "\<lparr>pp_style_id = Some ''Heading1'', pp_outline_lvl = None\<rparr>"
  have "style_heading ?pr = Some 1"
    by code_simp
  then show "\<exists>pr. style_heading pr = Some 1 \<and>
      extract_paragraph_block \<lparr>dp_property = Some pr, dp_content = [ParagraphRun \<lparr>dr_property = None, dr_content = [RunText ''x'']\<rparr>]\<rparr>
        = Some (plain_paragraph ''x'')"
    by (intro exI[of _ ?pr]) (simp add: extract_paragraph_block_def extract_inlines_from_paragraph_def extract_style_from_run_def
      add_text_def flush_text_def detect_heading_level_def outline_heading_def plain_paragraph_def plain_def Let_def)
qed

text \<open>The size limit is the configured number of megabytes below 2^44; at 2^44 the product wraps to a limit of no bytes.\<close>

theorem size_limit_wraps:
  "(unat mb < 2 ^ 44 \<longrightarrow> max_file_size mb = unat mb * 2 ^ 20) \<and> max_file_size (2 ^ 44) = 0"
proof (intro conjI impI)
  assume m: "unat mb < 2 ^ 44"
  have "unat mb * unat (1024 * 1024 :: 64 word) = unat mb * 2 ^ 20" by simp
  moreover have "unat mb * 2 ^ 20 < 2 ^ 64" using m by simp
  ultimately show "max_file_size mb = unat mb * 2 ^ 20"
    unfolding max_file_size_def by (simp add: unat_word_ariths)
qed (simp add: max_file_size_def)

text \<open>A document from a URL is recorded as an upload.\<close>

theorem downloads_are_recorded_as_uploads:
  assumes "parse_url env (init_service env max_mb timeout) u = Ok d"
  shows "\<exists>n. pm_source (pd_meta d) = Uploaded n"
proof -
  from parse_url_Ok[OF assms] obtain ext p ct b where
    "find_parser (init_service env max_mb timeout) ext = Ok p" "bk_parse_bytes p (path_file_name (ur_path u)) ct b = Ok d" by blast
  moreover from find_parser_Ok[OF this(1)] have "p \<in> set (module_parsers env)" by (simp add: init_service_def)
  ultimately show ?thesis by (intro parse_bytes_source)
qed

text \<open>HTML yields headings of level 1 to 6, trimmed nonblank texts, code that is not empty, and list items of level 0 only: the
  nesting of lists is not kept.\<close>

theorem html_blocks_are_sound: "list_all html_block_ok (html_blocks tree)"
proof -
  have "list_all html_block_ok (when_text t plain_paragraph)" for t
    by (rule when_text_ok) (simp add: plain_paragraph_def)
  then show ?thesis
    by (simp add: html_blocks_def Let_def extract_ok list_all_concat list_all_iff[of _ "hd_children tree"] split: option.splits)
qed

text \<open>A PDF has one page break per form feed of its text; all its other blocks are paragraphs.\<close>

theorem pdf_page_breaks:
  "length (filter (\<lambda>b. b = PageBreak) (pdf_blocks t)) = count_list t form_feed \<and>
   list_all (\<lambda>b. b = PageBreak \<or> (\<exists>p. b = Paragraph [plain p])) (pdf_blocks t)"
proof -
  have p: "filter (\<lambda>b. b = PageBreak) (paragraphs s) = []" for s by (auto simp: paragraphs_def filter_empty_conv)
  have c: "length (split_on form_feed t) = count_list t form_feed + 1"
    by (induction t) (auto split: list.splits)
  obtain g gs where g: "split_on form_feed t = g # gs" using split_on_nonempty by (meson list.exhaust)
  have "length (filter (\<lambda>b. b = PageBreak) (concat (map (\<lambda>p. PageBreak # paragraphs p) gs))) = length gs"
    by (induction gs) (simp_all add: p)
  moreover have "list_all (\<lambda>b. b = PageBreak \<or> (\<exists>p. b = Paragraph [plain p])) (pdf_blocks t)"
    by (auto simp: pdf_blocks_def g list_all_iff paragraphs_def)
  ultimately show ?thesis using c by (simp add: pdf_blocks_def g p)
qed

section \<open>Witnesses\<close>

text \<open>Bytes are strings; every address answers with the text \<open>hi\<close>.\<close>

definition text_env :: "(string, unit) parser_env" where
  "text_env =
     \<lparr>pv_exists = (\<lambda>_. True), pv_read = (\<lambda>_. Ok ''hi''), pv_len = length, pv_utf8 = Ok, pv_base64_300 = (\<lambda>_. []),
      pv_temp_create = Ok (), pv_temp_write = (\<lambda>_. Ok ()), pv_html = (\<lambda>_. Err ''no html''), pv_pdf_text = (\<lambda>_. Err ''no pdf''),
      pv_docx_open = (\<lambda>_. Err ''no docx''), pv_mime_essence = Some, pv_url_parse = (\<lambda>t. Some \<lparr>ur_path = t, ur_text = t\<rparr>),
      pv_http_client = (\<lambda>_. Ok ()), pv_http_get = (\<lambda>_. Ok (\<lparr>hr_status = 200, hr_content_type = Some ''text/plain''\<rparr>, Ok ''hi'')),
      pv_show_status = show_nat, pv_uuid = ()\<rparr>"

definition text_service :: "(string, unit, unit) parser_service" where
  "text_service = init_service text_env 1 60"

definition text_url :: url where
  "text_url = \<lparr>ur_path = ''/a.txt'', ur_text = ''/a.txt''\<rparr>"

lemma text_service_simps [simp]:
  "sv_parsers text_service = module_parsers text_env" "sv_max_file_size_bytes text_service = 1048576"
  by (simp_all add: text_service_def init_service_def max_file_size_def)

lemma txt_supported: "supports ''txt'' (plain_text_parser env)"
  by (simp add: supports_def)

lemma find_txt: "find_parser text_service ''txt'' = Ok (plain_text_parser text_env)"
  by (simp add: find_parser_def find_parser_by_extension_def module_parsers_def txt_supported)

lemma path_txt: "path_extension ''/a.txt'' = Some ''txt''" "path_file_name ''/a.txt'' = Some ''a.txt''" "path_extension ''a.txt'' = Some ''txt''"
  by code_simp+

lemma parse_text_url:
  "parse_url text_env text_service text_url = Ok (titled_document text_env (Uploaded ''a.txt'') ''text/plain'' (Some ''a.txt'') (paragraphs ''hi''))"
proof -
  have "validate_mime_type text_env ''txt'' ''text/plain'' = Ok ()" by code_simp
  then have "download text_env text_service ''txt'' text_url = Ok (Some ''text/plain'', ''hi'')"
    by (simp add: download_def text_env_def is_success_def text_url_def too_large_def)
  then show ?thesis
    by (simp add: parse_url_def find_txt path_txt text_url_def plain_text_parser_def decode_text_def hint_or_def)
      (simp add: text_env_def)
qed

theorem routing_is_order_independent_witness:
  "mset (rev (module_parsers text_env)) = mset (module_parsers text_env) \<and>
   find_parser_by_extension (rev (module_parsers text_env)) ''TXT'' = Some (plain_text_parser text_env :: (string, unit, unit) backend)"
proof -
  have m: "mset (rev (module_parsers text_env)) = mset (module_parsers text_env :: (string, unit, unit) backend list)" by simp
  have "to_lowercase ''TXT'' = ''txt''" by code_simp
  moreover have "(plain_text_parser text_env :: (string, unit, unit) backend) \<in> set (module_parsers text_env)"
    by (simp add: module_parsers_def)
  ultimately have "find_parser_by_extension (rev (module_parsers text_env)) ''TXT'' =
      Some (plain_text_parser text_env :: (string, unit, unit) backend)"
    by (intro routing_is_order_independent[OF m, THEN iffD2]) simp
  with m show ?thesis by simp
qed

theorem accepted_download_witness:
  "\<exists>d resp b. parse_url text_env text_service text_url = Ok d \<and> pv_http_get text_env ''/a.txt'' = Ok (resp, Ok b) \<and>
     is_success (hr_status resp) \<and> pv_len text_env b \<le> 1048576"
  using accepted_download[OF parse_text_url] parse_text_url by (auto simp: text_url_def)

theorem upload_limits_witness:
  "\<exists>r cs. handle_upload text_env text_service None (Some ''a.txt'') None ''hi'' = Ok r \<and> 0 < pv_len text_env ''hi'' \<and>
     handle_upload_markdown text_env text_service [Ok \<lparr>mp_name = Some ''file'', mp_file_name = Some ''a.txt'', mp_bytes = Ok ''hi''\<rparr>] = Ok cs"
proof -
  have b: "\<exists>d. parse_bytes text_env text_service (Some ''a.txt'') None ''hi'' = Ok d"
    by (simp add: parse_bytes_def too_large_def upload_extension_def path_txt find_txt plain_text_parser_def decode_text_def)
      (simp add: text_env_def)
  then obtain d where d: "parse_bytes text_env text_service (Some ''a.txt'') None ''hi'' = Ok d" ..
  then have "handle_upload text_env text_service None (Some ''a.txt'') None ''hi'' = Ok (with_markdown None d)"
    by (simp add: handle_upload_def) (simp add: text_env_def)
  moreover from upload_limits[THEN conjunct1, THEN mp, OF this] have "0 < pv_len text_env ''hi''" by (rule conjunct1)
  moreover from d have "\<exists>cs. handle_upload_markdown text_env text_service
      [Ok \<lparr>mp_name = Some ''file'', mp_file_name = Some ''a.txt'', mp_bytes = Ok ''hi''\<rparr>] = Ok cs"
    by (simp add: handle_upload_markdown_def)
  ultimately show ?thesis by blast
qed

theorem uppercase_extension_rejects_xhtml_witness:
  "\<not> is_ok (validate_mime_type text_env ''HTML'' ''application/xhtml+xml'') \<and>
   is_ok (validate_mime_type text_env ''html'' ''application/xhtml+xml'')"
proof -
  have m: "pv_mime_essence text_env ''application/xhtml+xml'' = Some ''application/xhtml+xml''" by (simp add: text_env_def)
  have "to_lowercase ''HTML'' \<in> {''html'', ''htm''}" "to_lowercase ''html'' \<in> {''html'', ''htm''}" by code_simp+
  from this[THEN uppercase_extension_rejects_xhtml[OF m]] show ?thesis by simp
qed

theorem heading_needs_outline_level_witness:
  "\<exists>p. detect_heading_level p = Some 2 \<and> (2 :: 8 word) \<le> 6"
proof -
  let ?p = "\<lparr>dp_property = Some \<lparr>pp_style_id = Some ''Heading1'', pp_outline_lvl = Some 1\<rparr>, dp_content = []\<rparr>"
  have d: "detect_heading_level ?p = Some 2" by code_simp
  with heading_needs_outline_level[of ?p 2] show ?thesis by blast
qed

theorem size_limit_wraps_witness: "max_file_size 100 = 104857600 \<and> max_file_size (2 ^ 44) = 0"
  using size_limit_wraps[of 100] by simp

theorem downloads_are_recorded_as_uploads_witness:
  "\<exists>d n. parse_url text_env text_service text_url = Ok d \<and> pm_source (pd_meta d) = Uploaded n"
  using downloads_are_recorded_as_uploads[OF parse_text_url[unfolded text_service_def]] parse_text_url by blast

end
