(* ===== verification/Advisory_Locks.thy ===== *)
theory Advisory_Locks
  imports Prelude "HOL-Library.Multiset" "HOL-Library.Word"
begin

text \<open>
  Advisory locks, \<open>libs/modkit-db/src/advisory_locks.rs\<close>: the locks of the three engines, their guards and the retrying
  acquisition.

  The locks that exist are a list of resources with the session that holds each: a PostgreSQL or MySQL session may hold a lock
  more than once and another session not at all; a lock file is created by exactly one open with \<open>create_new\<close> and belongs to
  no session (session 0). What the pool, the queries and the file system answer is an argument of every operation.
\<close>

section \<open>Locks\<close>

datatype lock_engine = Postgres | MySql | Sqlite

datatype lock_resource = PgKey "64 word" | MySqlName string | LockFile string

record lock_guard =
  lg_key :: string
  lg_resource :: lock_resource
  lg_conn :: nat

datatype db_lock_error =
    LockIo string
  | LockSqlx string
  | AlreadyHeld string
  | LockNotFound string
  | LockInvalidState string

record lock_manager =
  lm_engine :: lock_engine
  lm_pool :: lock_engine
  lm_dsn :: string
  lm_pg_feature :: bool
  lm_mysql_feature :: bool

text \<open>The hash (\<open>xxh3_64\<close>) and the directories of the platform.\<close>

record lock_env =
  lk_hash :: "string \<Rightarrow> 64 word"
  lk_cache_dir :: "string option"
  lk_temp_dir :: string

record lock_io =
  io_conn :: "(nat, string) result"
  io_query :: "(unit, string) result"
  io_create_dir :: "(unit, string) result"
  io_open :: "(unit, string) result"
  io_clone :: "(unit, string) result"
  io_timed_out :: bool

type_synonym held_locks = "(lock_resource \<times> nat) list"

definition namespaced_key :: "string \<Rightarrow> string \<Rightarrow> string" where
  "namespaced_key module key = module @ '':'' @ key"

subsection \<open>Lock files\<close>

definition hex_digit :: "nat \<Rightarrow> char" where
  "hex_digit d = (if d < 10 then char_of (48 + d) else char_of (87 + d))"

fun show_hex :: "nat \<Rightarrow> string" where
  "show_hex n = (if n < 16 then [hex_digit n] else show_hex (n div 16) @ [hex_digit (n mod 16)])"

declare show_hex.simps [simp del]

definition has_memdb :: "string \<Rightarrow> bool" where
  "has_memdb dsn \<longleftrightarrow> (\<exists>i \<in> set [0..<length dsn]. starts_with ''memdb'' (drop i dsn))"

definition lock_base_dir :: "lock_env \<Rightarrow> string \<Rightarrow> string" where
  "lock_base_dir env dsn =
     (if has_memdb dsn then lk_temp_dir env @ ''/hyperspot_test_locks''
      else (case lk_cache_dir env of Some d \<Rightarrow> d | None \<Rightarrow> lk_temp_dir env) @ ''/hyperspot/locks'')"

definition get_lock_file_path :: "lock_env \<Rightarrow> lock_manager \<Rightarrow> string \<Rightarrow> string" where
  "get_lock_file_path env m key =
     lock_base_dir env (lm_dsn m) @ ''/'' @ show_hex (unat (lk_hash env (lm_dsn m))) @ ''/'' @
     show_hex (unat (lk_hash env key)) @ ''.lock''"

section \<open>Acquiring once\<close>

text \<open>The server grants a lock when no other session has it.\<close>

definition grantable :: "lock_resource \<Rightarrow> nat \<Rightarrow> held_locks \<Rightarrow> bool" where
  "grantable r c held \<longleftrightarrow> list_all (\<lambda>(r', c'). r' = r \<longrightarrow> c' = c) held"

definition file_exists :: "string \<Rightarrow> held_locks \<Rightarrow> bool" where
  "file_exists p held \<longleftrightarrow> LockFile p \<in> set (map fst held)"

definition guard_for :: "string \<Rightarrow> lock_resource \<Rightarrow> nat \<Rightarrow> lock_guard" where
  "guard_for key r c = \<lparr>lg_key = key, lg_resource = r, lg_conn = c\<rparr>"

text \<open>A query on a connection of the pool, for both servers.\<close>

definition with_conn ::
    "lock_io \<Rightarrow> held_locks \<Rightarrow> (nat \<Rightarrow> ('a, db_lock_error) result \<times> held_locks) \<Rightarrow> ('a, db_lock_error) result \<times> held_locks" where
  "with_conn io held f =
     (case io_conn io of
        Err e \<Rightarrow> (Err (LockSqlx e), held)
      | Ok c \<Rightarrow> (case io_query io of Err e \<Rightarrow> (Err (LockSqlx e), held) | Ok _ \<Rightarrow> f c))"

definition try_grant ::
    "string \<Rightarrow> lock_resource \<Rightarrow> held_locks \<Rightarrow> nat \<Rightarrow> (lock_guard option, db_lock_error) result \<times> held_locks" where
  "try_grant key r held c =
     (if grantable r c held then (Ok (Some (guard_for key r c)), (r, c) # held) else (Ok None, held))"

definition pg_key :: "lock_env \<Rightarrow> string \<Rightarrow> lock_resource" where
  "pg_key env key = PgKey (lk_hash env key)"

definition try_lock_pg ::
    "lock_env \<Rightarrow> lock_manager \<Rightarrow> lock_io \<Rightarrow> string \<Rightarrow> held_locks \<Rightarrow> (lock_guard option, db_lock_error) result \<times> held_locks" where
  "try_lock_pg env m io key held =
     (if lm_pool m \<noteq> Postgres then (Err (LockInvalidState ''not a PostgreSQL pool''), held)
      else with_conn io held (try_grant key (pg_key env key) held))"

definition try_lock_mysql ::
    "lock_manager \<Rightarrow> lock_io \<Rightarrow> string \<Rightarrow> held_locks \<Rightarrow> (lock_guard option, db_lock_error) result \<times> held_locks" where
  "try_lock_mysql m io key held =
     (if lm_pool m \<noteq> MySql then (Err (LockInvalidState ''not a MySQL pool''), held)
      else with_conn io held (try_grant key (MySqlName key) held))"

text \<open>Creating the lock file: \<open>None\<close> when it exists. The file stays when the descriptor cannot be cloned.\<close>

definition create_lock_file ::
    "lock_io \<Rightarrow> string \<Rightarrow> string \<Rightarrow> held_locks \<Rightarrow> (lock_guard option, db_lock_error) result \<times> held_locks" where
  "create_lock_file io p key held =
     (case io_create_dir io of
        Err e \<Rightarrow> (Err (LockIo e), held)
      | Ok _ \<Rightarrow>
          (case io_open io of
             Err e \<Rightarrow> (Err (LockIo e), held)
           | Ok _ \<Rightarrow>
               if file_exists p held then (Ok None, held)
               else
                 (case io_clone io of
                    Err e \<Rightarrow> (Err (LockIo e), (LockFile p, 0) # held)
                  | Ok _ \<Rightarrow> (Ok (Some (guard_for key (LockFile p) 0)), (LockFile p, 0) # held))))"

definition try_lock_file ::
    "lock_env \<Rightarrow> lock_manager \<Rightarrow> lock_io \<Rightarrow> string \<Rightarrow> held_locks \<Rightarrow> (lock_guard option, db_lock_error) result \<times> held_locks" where
  "try_lock_file env m io key held = create_lock_file io (get_lock_file_path env m key) key held"

definition try_acquire_once ::
    "lock_env \<Rightarrow> lock_manager \<Rightarrow> lock_io \<Rightarrow> string \<Rightarrow> held_locks \<Rightarrow> (lock_guard option, db_lock_error) result \<times> held_locks" where
  "try_acquire_once env m io key held =
     (case lm_engine m of
        Postgres \<Rightarrow> if lm_pg_feature m then try_lock_pg env m io key held
          else (Err (LockInvalidState ''PostgreSQL feature not enabled''), held)
      | MySql \<Rightarrow> if lm_mysql_feature m then try_lock_mysql m io key held
          else (Err (LockInvalidState ''MySQL feature not enabled''), held)
      | Sqlite \<Rightarrow> try_lock_file env m io key held)"

subsection \<open>The acquisition without a policy\<close>

text \<open>On the servers it waits: \<open>None\<close> while another session has the lock. PostgreSQL waits without a limit; MySQL's wait of a year can
  time out, and \<open>GET_LOCK\<close> then answers 0. On SQLite the acquisition fails at once.\<close>

type_synonym lock_attempt = "(lock_guard, db_lock_error) result option \<times> held_locks"

definition wait_grant ::
    "db_lock_error option \<Rightarrow> string \<Rightarrow> lock_resource \<Rightarrow> lock_io \<Rightarrow> held_locks \<Rightarrow> lock_attempt" where
  "wait_grant refusal key r io held =
     (case with_conn io held (try_grant key r held) of
        (Err e, held) \<Rightarrow> (Some (Err e), held)
      | (Ok (Some g), held) \<Rightarrow> (Some (Ok g), held)
      | (Ok None, held) \<Rightarrow> (map_option Err refusal, held))"

definition lock_pg :: "lock_env \<Rightarrow> lock_manager \<Rightarrow> lock_io \<Rightarrow> string \<Rightarrow> held_locks \<Rightarrow> lock_attempt" where
  "lock_pg env m io key held =
     (if lm_pool m \<noteq> Postgres then (Some (Err (LockInvalidState ''not a PostgreSQL pool'')), held)
      else wait_grant None key (pg_key env key) io held)"

definition lock_mysql :: "lock_manager \<Rightarrow> lock_io \<Rightarrow> string \<Rightarrow> held_locks \<Rightarrow> lock_attempt" where
  "lock_mysql m io key held =
     (if lm_pool m \<noteq> MySql then (Some (Err (LockInvalidState ''not a MySQL pool'')), held)
      else wait_grant (if io_timed_out io then Some (LockInvalidState ''failed to acquire MySQL lock'') else None)
             key (MySqlName key) io held)"

definition lock_file :: "lock_env \<Rightarrow> lock_manager \<Rightarrow> lock_io \<Rightarrow> string \<Rightarrow> held_locks \<Rightarrow> lock_attempt" where
  "lock_file env m io key held =
     (case create_lock_file io (get_lock_file_path env m key) key held of
        (Err e, held) \<Rightarrow> (Some (Err e), held)
      | (Ok (Some g), held) \<Rightarrow> (Some (Ok g), held)
      | (Ok None, held) \<Rightarrow> (Some (Err (AlreadyHeld key)), held))"

definition lock :: "lock_env \<Rightarrow> lock_manager \<Rightarrow> lock_io \<Rightarrow> string \<Rightarrow> string \<Rightarrow> held_locks \<Rightarrow> lock_attempt" where
  "lock env m io module key held =
     (let k = namespaced_key module key
      in case lm_engine m of
           Postgres \<Rightarrow> if lm_pg_feature m then lock_pg env m io k held
             else (Some (Err (LockInvalidState ''PostgreSQL feature not enabled'')), held)
         | MySql \<Rightarrow> if lm_mysql_feature m then lock_mysql m io k held
             else (Some (Err (LockInvalidState ''MySQL feature not enabled'')), held)
         | Sqlite \<Rightarrow> lock_file env m io k held)"

section \<open>Releasing\<close>

text \<open>A failed unlock or removal is ignored: the lock stays.\<close>

definition unlock_inner :: "lock_io \<Rightarrow> lock_guard \<Rightarrow> held_locks \<Rightarrow> held_locks" where
  "unlock_inner io g held =
     (case io_query io of Ok _ \<Rightarrow> remove1 (lg_resource g, lg_conn g) held | Err _ \<Rightarrow> held)"

text \<open>\<open>Drop\<close>: outside a runtime nothing is unlocked.\<close>

definition drop_guard :: "bool \<Rightarrow> lock_io \<Rightarrow> lock_guard \<Rightarrow> held_locks \<Rightarrow> held_locks" where
  "drop_guard in_runtime io g held = (if in_runtime then unlock_inner io g held else held)"

section \<open>Acquiring with a policy\<close>

record 'f lock_config =
  lc_max_wait :: "nat option"
  lc_initial_backoff :: nat
  lc_max_backoff :: nat
  lc_multiplier :: 'f
  lc_jitter_pct :: 'f
  lc_max_attempts :: "32 word option"

text \<open>Durations are nanoseconds; floating-point products and the jitter factor, which depends on the hash of the key, are
  parameters, as are the clock and the attempts. \<open>Duration::mul_f64\<close> panics when the product is negative, not a number or too large
  (\<open>None\<close>). The counter of attempts is a \<open>u32\<close>: its increment panics on overflow in a build with overflow checks and wraps in one without.\<close>

datatype 'a run_end = Panicked | Returned 'a

record ('f, 'w) lock_run =
  lr_overflow_checks :: bool
  lr_mul :: "nat \<Rightarrow> 'f \<Rightarrow> nat option"
  lr_jitter_factor :: "'f \<Rightarrow> string \<Rightarrow> 'f"
  lr_elapsed :: "'w \<Rightarrow> nat"
  lr_sleep :: "nat \<Rightarrow> 'w \<Rightarrow> 'w"
  lr_acquire :: "string \<Rightarrow> 'w \<Rightarrow> (lock_guard option, db_lock_error) result \<times> 'w"

definition out_of_attempts :: "'f lock_config \<Rightarrow> 32 word \<Rightarrow> bool" where
  "out_of_attempts cfg attempt = (case lc_max_attempts cfg of Some m \<Rightarrow> m < attempt | None \<Rightarrow> False)"

definition out_of_time :: "('f, 'w) lock_run \<Rightarrow> 'f lock_config \<Rightarrow> 'w \<Rightarrow> bool" where
  "out_of_time run cfg w = (case lc_max_wait cfg of Some mw \<Rightarrow> mw \<le> lr_elapsed run w | None \<Rightarrow> False)"

definition remaining_wait :: "('f, 'w) lock_run \<Rightarrow> 'f lock_config \<Rightarrow> nat \<Rightarrow> 'w \<Rightarrow> nat" where
  "remaining_wait run cfg backoff w = (case lc_max_wait cfg of Some mw \<Rightarrow> mw - lr_elapsed run w | None \<Rightarrow> backoff)"

definition sleep_time :: "('f, 'w) lock_run \<Rightarrow> 'f lock_config \<Rightarrow> string \<Rightarrow> nat \<Rightarrow> 'w \<Rightarrow> nat option" where
  "sleep_time run cfg key backoff w =
     lr_mul run (min backoff (remaining_wait run cfg backoff w)) (lr_jitter_factor run (lc_jitter_pct cfg) key)"

definition next_backoff :: "('f, 'w) lock_run \<Rightarrow> 'f lock_config \<Rightarrow> nat \<Rightarrow> nat option" where
  "next_backoff run cfg backoff = map_option (min (lc_max_backoff cfg)) (lr_mul run backoff (lc_multiplier cfg))"

partial_function (option) try_lock_loop ::
    "('f, 'w) lock_run \<Rightarrow> 'f lock_config \<Rightarrow> string \<Rightarrow> 32 word \<Rightarrow> nat \<Rightarrow> 'w \<Rightarrow>
     ((lock_guard option, db_lock_error) result run_end \<times> 'w) option" where
  "try_lock_loop run cfg key attempt backoff w =
     (if lr_overflow_checks run \<and> attempt = - 1 then Some (Panicked, w)
      else if out_of_attempts cfg (attempt + 1) \<or> out_of_time run cfg w then Some (Returned (Ok None), w)
      else
        (case lr_acquire run key w of
           (Err e, w) \<Rightarrow> Some (Returned (Err e), w)
         | (Ok (Some g), w) \<Rightarrow> Some (Returned (Ok (Some g)), w)
         | (Ok None, w) \<Rightarrow>
             if remaining_wait run cfg backoff w = 0 then Some (Returned (Ok None), w)
             else
               (case sleep_time run cfg key backoff w of
                  None \<Rightarrow> Some (Panicked, w)
                | Some d \<Rightarrow>
                    (case next_backoff run cfg backoff of
                       None \<Rightarrow> Some (Panicked, lr_sleep run d w)
                     | Some b \<Rightarrow> try_lock_loop run cfg key (attempt + 1) b (lr_sleep run d w)))))"

definition try_lock ::
    "('f, 'w) lock_run \<Rightarrow> 'f lock_config \<Rightarrow> string \<Rightarrow> string \<Rightarrow> 'w \<Rightarrow>
     ((lock_guard option, db_lock_error) result run_end \<times> 'w) option" where
  "try_lock run cfg module key w = try_lock_loop run cfg (namespaced_key module key) 0 (lc_initial_backoff cfg) w"

section \<open>Concurrent use\<close>

text \<open>Tasks of any number of processes and managers, on any engine. The pool hands a connection to one owner at a time. A guard
  can also be lost: dropped outside a runtime, or with its process. Attempts that fail change what \<open>acquire\<close> says they change.\<close>

type_synonym lock_system = "held_locks \<times> lock_guard list"

definition is_file :: "lock_resource \<Rightarrow> bool" where
  "is_file r = (case r of LockFile _ \<Rightarrow> True | _ \<Rightarrow> False)"

definition server_conns :: "lock_guard list \<Rightarrow> nat list" where
  "server_conns gs = map lg_conn (filter (\<lambda>g. \<not> is_file (lg_resource g)) gs)"

definition free_conn :: "lock_io \<Rightarrow> lock_guard list \<Rightarrow> bool" where
  "free_conn io gs = (case io_conn io of Ok c \<Rightarrow> c \<notin> set (server_conns gs) | Err _ \<Rightarrow> True)"

inductive lock_step :: "lock_env \<Rightarrow> lock_system \<Rightarrow> lock_system \<Rightarrow> bool" for env where
  got: "free_conn io gs \<Longrightarrow> try_acquire_once env m io key held = (Ok (Some g), held') \<Longrightarrow> lock_step env (held, gs) (held', g # gs)"
| not_got: "try_acquire_once env m io key held = (Ok None, held') \<Longrightarrow> lock_step env (held, gs) (held', gs)"
| failed: "try_acquire_once env m io key held = (Err e, held') \<Longrightarrow> lock_step env (held, gs) (held', gs)"
| locked: "free_conn io gs \<Longrightarrow> lock env m io module key held = (Some (Ok g), held') \<Longrightarrow> lock_step env (held, gs) (held', g # gs)"
| lock_failed: "lock env m io module key held = (Some (Err e), held') \<Longrightarrow> lock_step env (held, gs) (held', gs)"
| waits: "lock env m io module key held = (None, held') \<Longrightarrow> lock_step env (held, gs) (held', gs)"
| released: "g \<in> set gs \<Longrightarrow> lock_step env (held, gs) (unlock_inner io g held, remove1 g gs)"
| dropped: "g \<in> set gs \<Longrightarrow> lock_step env (held, gs) (drop_guard in_runtime io g held, remove1 g gs)"
| session_closed: "lock_step env (held, gs)
    (filter (\<lambda>(r, c). is_file r \<or> c \<noteq> conn) held, filter (\<lambda>g. is_file (lg_resource g) \<or> lg_conn g \<noteq> conn) gs)"

definition reachable :: "lock_env \<Rightarrow> lock_system \<Rightarrow> lock_system \<Rightarrow> bool" where
  "reachable env = (lock_step env)\<^sup>*\<^sup>*"

section \<open>Lemmas\<close>

definition claim :: "lock_guard \<Rightarrow> lock_resource \<times> nat" where
  "claim g = (lg_resource g, lg_conn g)"

text \<open>Every guard has its lock; one session per resource; a lock file once; one guard per connection.\<close>

definition locks_ok :: "lock_system \<Rightarrow> bool" where
  "locks_ok s \<longleftrightarrow>
     mset (map claim (snd s)) \<subseteq># mset (fst s) \<and>
     (\<forall>r c c'. (r, c) \<in> set (fst s) \<longrightarrow> (r, c') \<in> set (fst s) \<longrightarrow> c = c') \<and>
     (\<forall>r c. is_file r \<longrightarrow> count (mset (fst s)) (r, c) \<le> 1) \<and>
     distinct (server_conns (snd s))"

lemma locks_okD:
  assumes "locks_ok (held, gs)"
  shows "mset (map claim gs) \<subseteq># mset held" "(r, c) \<in> set held \<Longrightarrow> (r, c') \<in> set held \<Longrightarrow> c = c'"
    "is_file r \<Longrightarrow> count (mset held) (r, c) \<le> 1" "distinct (server_conns gs)"
  using assms by (auto simp: locks_ok_def)

lemma is_file_simps [simp]: "is_file (PgKey k)= False" "is_file (MySqlName n) = False" "is_file (LockFile p) = True"
  by (simp_all add: is_file_def)

text \<open>What a successful or failed acquisition does to the locks.\<close>

definition granted :: "lock_io \<Rightarrow> lock_guard \<Rightarrow> held_locks \<Rightarrow> held_locks \<Rightarrow> bool" where
  "granted io g held held' \<longleftrightarrow>
     held' = claim g # held \<and>
     (if is_file (lg_resource g) then lg_conn g = 0 \<and> lg_resource g \<notin> set (map fst held)
      else io_conn io = Ok (lg_conn g) \<and> grantable (lg_resource g) (lg_conn g) held)"

definition orphaned :: "held_locks \<Rightarrow> held_locks \<Rightarrow> bool" where
  "orphaned held held' \<longleftrightarrow> held' = held \<or> (\<exists>p. held' = (LockFile p, 0) # held \<and> \<not> file_exists p held)"

lemma in_fst: "(a, b) \<in> set xs \<Longrightarrow> a \<in> fst ` set xs"
  by force

lemma subset_add: "M \<subseteq># N \<Longrightarrow> M \<subseteq># add_mset x N"
  by (simp add: subseteq_mset_def le_SucI)

lemma create_lock_file_cases:
  "create_lock_file io p key held = (r, held') \<Longrightarrow>
   (case r of Ok (Some g) \<Rightarrow> granted io g held held' | _ \<Rightarrow> orphaned held held')"
  by (auto simp: create_lock_file_def granted_def orphaned_def guard_for_def claim_def file_exists_def dest: in_fst
      split: result.splits if_splits option.splits)

lemma try_grant_cases:
  "with_conn io held (try_grant key r held) = (res, held') \<Longrightarrow> \<not> is_file r \<Longrightarrow>
   (case res of Ok (Some g) \<Rightarrow> granted io g held held' | _ \<Rightarrow> orphaned held held')"
  by (auto simp: with_conn_def try_grant_def granted_def orphaned_def guard_for_def claim_def
      split: result.splits if_splits option.splits)

lemma try_acquire_once_cases:
  "try_acquire_once env m io key held = (r, held') \<Longrightarrow>
   (case r of Ok (Some g) \<Rightarrow> granted io g held held' | _ \<Rightarrow> orphaned held held')"
  using create_lock_file_cases try_grant_cases[of io held key "pg_key env key"] try_grant_cases[of io held key "MySqlName key"]
  by (auto simp: try_acquire_once_def try_lock_pg_def try_lock_mysql_def try_lock_file_def pg_key_def orphaned_def
      split: lock_engine.splits if_splits)

lemma wait_grant_cases:
  "wait_grant refusal key r io held = (res, held') \<Longrightarrow> \<not> is_file r \<Longrightarrow>
   (case res of Some (Ok g) \<Rightarrow> granted io g held held' | _ \<Rightarrow> orphaned held held')"
  using try_grant_cases[of io held key r]
  by (auto simp: wait_grant_def split: prod.splits result.splits option.splits)

lemma lock_file_cases:
  "lock_file env m io key held = (res, held') \<Longrightarrow>
   (case res of Some (Ok g) \<Rightarrow> granted io g held held' | _ \<Rightarrow> orphaned held held')"
  using create_lock_file_cases[of io "get_lock_file_path env m key" key held]
  by (auto simp: lock_file_def split: prod.splits result.splits option.splits)

lemma lock_cases:
  "lock env m io module key held = (res, held') \<Longrightarrow>
   (case res of Some (Ok g) \<Rightarrow> granted io g held held' | _ \<Rightarrow> orphaned held held')"
  using wait_grant_cases[of None _ "pg_key env _"] wait_grant_cases[of _ _ "MySqlName _"] lock_file_cases
  by (auto simp: lock_def lock_pg_def lock_mysql_def pg_key_def orphaned_def Let_def split: lock_engine.splits if_splits)

lemma locks_ok_granted:
  assumes "locks_ok (held, gs)" "granted io g held held'" "free_conn io gs"
  shows "locks_ok (held', g # gs)"
proof -
  obtain r c where g: "claim g = (r, c)" "lg_resource g = r" "lg_conn g = c" by (simp add: claim_def)
  have f: "is_file r \<Longrightarrow> r \<notin> set (map fst held)" and h: "held' = (r, c) # held"
    and s: "\<not> is_file r \<Longrightarrow> c \<notin> set (server_conns gs)"
    and k: "\<not> is_file r \<Longrightarrow> grantable r c held"
    using assms(2,3) g by (auto simp: granted_def free_conn_def split: if_splits)
  have same: "(r, c') \<in> set held \<Longrightarrow> c' = c" for c'
    using f k by (cases "is_file r") (auto simp: grantable_def list_all_iff image_iff)
  have "\<forall>r' c1 c2. (r', c1) \<in> set held' \<longrightarrow> (r', c2) \<in> set held' \<longrightarrow> c1 = c2"
    using assms(1) same unfolding h locks_ok_def by auto
  moreover have "\<forall>r' c'. is_file r' \<longrightarrow> count (mset held') (r', c') \<le> 1"
  proof (intro allI impI)
    fix r' c' assume "is_file r'"
    then show "count (mset held') (r', c') \<le> 1"
      using assms(1) f unfolding h locks_ok_def
      by (cases "(r', c') = (r, c)") (auto simp: count_mset_0_iff image_iff)
  qed
  moreover have "distinct (server_conns (g # gs))"
    using assms(1) s g by (auto simp: locks_ok_def server_conns_def)
  ultimately show ?thesis using assms(1) g unfolding h locks_ok_def by simp
qed

lemma locks_ok_orphaned:
  assumes "locks_ok (held, gs)" "orphaned held held'"
  shows "locks_ok (held', gs)"
proof (cases "held' = held")
  case False
  with assms obtain p where p: "held' = (LockFile p, 0) # held" "LockFile p \<notin> set (map fst held)"
    by (auto simp: orphaned_def file_exists_def)
  have n: "(LockFile p, c) \<notin> set held" for c using p(2) in_fst by fastforce
  have "\<forall>r c1 c2. (r, c1) \<in> set held' \<longrightarrow> (r, c2) \<in> set held' \<longrightarrow> c1 = c2"
    using assms(1) n unfolding p(1) locks_ok_def by auto
  moreover have "\<forall>r c. is_file r \<longrightarrow> count (mset held') (r, c) \<le> 1"
  proof (intro allI impI)
    fix r c assume "is_file r"
    moreover have "count (mset held) (LockFile p, 0) = 0" using n by (simp add: count_mset_0_iff)
    ultimately show "count (mset held') (r, c) \<le> 1"
      using assms(1) unfolding p(1) locks_ok_def by (cases "(r, c) = (LockFile p, 0)") auto
  qed
  moreover have "mset (map claim gs) \<subseteq># mset held'"
    using assms(1) p by (simp add: locks_ok_def subset_add)
  ultimately show ?thesis using assms(1) by (simp add: locks_ok_def)
qed (use assms in simp)

lemma server_conns_filter:
  assumes "distinct (server_conns gs)"
  shows "distinct (server_conns (filter P gs))" "distinct (server_conns (remove1 g gs))"
proof -
  let ?gs = "filter (\<lambda>g. \<not> is_file (lg_resource g)) gs"
  have "filter (\<lambda>g. \<not> is_file (lg_resource g)) (filter P gs) = filter P ?gs" by (induction gs) auto
  then show "distinct (server_conns (filter P gs))"
    using assms by (simp add: server_conns_def distinct_map_filter del: filter_filter)
  have "distinct (map lg_conn (remove1 g ?gs))"
    using assms by (auto simp: server_conns_def distinct_map distinct_remove1 intro: inj_on_subset)
  then show "distinct (server_conns (remove1 g gs))" by (simp add: server_conns_def filter_remove1)
qed

lemma locks_ok_remove:
  assumes "locks_ok (held, gs)" "g \<in> set gs" "held' = held \<or> held' = remove1 (claim g) held"
  shows "locks_ok (held', remove1 g gs)"
proof -
  have s: "set held' \<subseteq> set held" using assms(3) set_remove1_subset by fastforce
  have c: "count (mset held') x \<le> count (mset held) x" for x using assms(3) by auto
  have m: "mset (map claim (remove1 g gs)) = mset (map claim gs) - {#claim g#}"
    using assms(2) by (simp add: image_mset_Diff)
  have "mset (map claim gs) \<subseteq># mset held" using assms(1) by (simp add: locks_ok_def)
  then have "mset (map claim (remove1 g gs)) \<subseteq># mset held'"
    using assms(3) unfolding m by (auto simp: subseteq_mset_def diff_le_mono intro: le_trans[OF diff_le_self])
  moreover have "\<forall>r c c'. (r, c) \<in> set held' \<longrightarrow> (r, c') \<in> set held' \<longrightarrow> c = c'"
    using locks_okD(2)[OF assms(1)] s by blast
  moreover have "\<forall>r c'. is_file r \<longrightarrow> count (mset held') (r, c') \<le> 1"
    using locks_okD(3)[OF assms(1)] c order_trans by blast
  moreover have "distinct (server_conns (remove1 g gs))"
    using assms(1) by (simp add: locks_ok_def server_conns_filter)
  ultimately show ?thesis by (simp add: locks_ok_def)
qed

lemma locks_ok_close:
  assumes "locks_ok (held, gs)"
  shows "locks_ok (filter (\<lambda>(r, c). is_file r \<or> c \<noteq> k) held, filter (\<lambda>g. is_file (lg_resource g) \<or> lg_conn g \<noteq> k) gs)"
proof -
  let ?P = "\<lambda>(r, c). is_file r \<or> c \<noteq> k"
  have "mset (map claim (filter (\<lambda>g. is_file (lg_resource g) \<or> lg_conn g \<noteq> k) gs)) = filter_mset ?P (mset (map claim gs))"
    by (simp add: filter_mset_image_mset claim_def comp_def)
  moreover have "mset (map claim gs) \<subseteq># mset held" using assms by (simp add: locks_ok_def)
  ultimately have m: "mset (map claim (filter (\<lambda>g. is_file (lg_resource g) \<or> lg_conn g \<noteq> k) gs)) \<subseteq># mset (filter ?P held)"
    by (simp add: multiset_filter_mono)
  have d: "distinct (server_conns (filter P gs))" for P
    using assms by (simp add: locks_ok_def server_conns_filter)
  show ?thesis using assms m d by (auto simp: locks_ok_def)
qed

lemma locks_ok_step: "lock_step env s s' \<Longrightarrow> locks_ok s \<Longrightarrow> locks_ok s'"
proof (induction rule: lock_step.induct)
  case (got io gs m key held g held')
  then show ?case using try_acquire_once_cases[OF got(2)] locks_ok_granted by auto
next
  case (not_got m io key held held' gs)
  then show ?case using try_acquire_once_cases[OF not_got(1)] locks_ok_orphaned by auto
next
  case (failed m io key held e held' gs)
  then show ?case using try_acquire_once_cases[OF failed(1)] locks_ok_orphaned by auto
next
  case (locked io gs m module key held g held')
  then show ?case using lock_cases[OF locked(2)] locks_ok_granted by auto
next
  case (lock_failed m io module key held e held' gs)
  then show ?case using lock_cases[OF lock_failed(1)] locks_ok_orphaned by auto
next
  case (waits m io module key held held' gs)
  then show ?case using lock_cases[OF waits(1)] locks_ok_orphaned by auto
next
  case (released g gs held io)
  then show ?case by (auto intro!: locks_ok_remove simp: unlock_inner_def claim_def split: result.split)
next
  case (dropped g gs held in_runtime io)
  then show ?case by (auto intro!: locks_ok_remove simp: drop_guard_def unlock_inner_def claim_def split: result.split)
next
  case (session_closed held gs conn)
  then show ?case by (rule locks_ok_close)
qed

lemma locks_ok_reachable: "reachable env s s' \<Longrightarrow> locks_ok s \<Longrightarrow> locks_ok s'"
  unfolding reachable_def by (induction rule: rtranclp_induct) (auto intro: locks_ok_step)

lemma locks_ok_start: "locks_ok ([], [])"
  by (simp add: locks_ok_def server_conns_def)

lemma distinct_nth_eq: "(\<And>i j. i < j \<Longrightarrow> j < length xs \<Longrightarrow> xs ! i \<noteq> xs ! j) \<Longrightarrow> distinct xs"
  by (simp add: distinct_conv_nth) (metis linorder_neqE_nat)

lemma count_two:
  assumes "i < j" "j < length xs" "xs ! i = xs ! j"
  shows "2 \<le> count (mset xs) (xs ! i)"
proof -
  have "xs = take j xs @ xs ! j # drop (Suc j) xs" using assms(2) by (rule id_take_nth_drop)
  then have "mset xs = mset (take j xs) + add_mset (xs ! j) (mset (drop (Suc j) xs))"
    by (metis mset.simps(2) mset_append)
  moreover have "xs ! i \<in> set (take j xs)" using assms by (metis length_take min.absorb4 nth_mem nth_take)
  then have "1 \<le> count (mset (take j xs)) (xs ! i)" by (simp add: Suc_le_eq)
  moreover from calculation(1) have "count (mset xs) (xs ! i) =
      count (mset (take j xs)) (xs ! i) + Suc (count (mset (drop (Suc j) xs)) (xs ! i))"
    using assms(3) by (simp only: count_union count_add_mset) simp
  ultimately show ?thesis by linarith
qed

lemma one_guard_per_resource:
  assumes "locks_ok (held, gs)"
  shows "distinct (map lg_resource gs)"
proof (rule distinct_nth_eq)
  fix i j assume ij: "i < j" "j < length (map lg_resource gs)"
  show "map lg_resource gs ! i \<noteq> map lg_resource gs ! j"
  proof
    assume e: "map lg_resource gs ! i = map lg_resource gs ! j"
    let ?r = "lg_resource (gs ! i)"
    have in_held: "claim g \<in> set held" if "g \<in> set gs" for g
      using that set_mset_mono[OF locks_okD(1)[OF assms]] by auto
    have g: "gs ! i \<in> set gs" "gs ! j \<in> set gs" "lg_resource (gs ! j) = ?r" using ij e by auto
    then have c: "lg_conn (gs ! i) = lg_conn (gs ! j)"
      using locks_okD(2)[OF assms] in_held[OF g(1)] in_held[OF g(2)] unfolding claim_def by metis
    show False
    proof (cases "is_file ?r")
      case True
      have "2 \<le> count (mset (map claim gs)) (map claim gs ! i)"
        using ij g c by (intro count_two[of i j]) (simp_all add: claim_def)
      also have "\<dots> \<le> count (mset held) (map claim gs ! i)"
        by (rule mset_subset_eq_count[OF locks_okD(1)[OF assms]])
      also have "\<dots> \<le> 1" using locks_okD(3)[OF assms True] ij by (simp add: claim_def)
      finally show False by simp
    next
      case False
      let ?P = "\<lambda>g. \<not> is_file (lg_resource g)"
      have "gs = take j gs @ gs ! j # drop (Suc j) gs" using ij by (simp add: id_take_nth_drop)
      then have "filter ?P gs = filter ?P (take j gs) @ gs ! j # filter ?P (drop (Suc j) gs)"
        using False g(3) by (metis filter.simps(2) filter_append)
      moreover have "gs ! i \<in> set (filter ?P (take j gs))"
        using ij False by (auto simp: in_set_conv_nth intro!: exI[of _ i])
      ultimately have "\<not> distinct (server_conns gs)" using c by (auto simp: server_conns_def intro: rev_image_eqI)
      then show False using assms by (simp add: locks_ok_def)
    qed
  qed
qed

text \<open>Nobody owns a file that no guard claims, and no step removes it.\<close>

lemma orphan_step:
  assumes "lock_step env s s'" "LockFile p \<in> set (map fst (fst s))" "LockFile p \<notin> set (map lg_resource (snd s))"
  shows "LockFile p \<in> set (map fst (fst s')) \<and> LockFile p \<notin> set (map lg_resource (snd s'))"
proof -
  have granted_keeps: "LockFile p \<in> set (map fst held') \<and> lg_resource g \<noteq> LockFile p"
    if "granted io g held held'" "LockFile p \<in> set (map fst held)" for io g held held'
    using that by (auto simp: granted_def claim_def dest: in_fst split: if_splits)
  have orphaned_keeps: "LockFile p \<in> set (map fst held')"
    if "orphaned held held'" "LockFile p \<in> set (map fst held)" for held held'
    using that by (auto simp: orphaned_def)
  have unlock_keeps: "LockFile p \<in> set (map fst (unlock_inner io g held))"
    if "LockFile p \<in> set (map fst held)" "lg_resource g \<noteq> LockFile p" for io g held
  proof -
    from that(1) obtain c where "(LockFile p, c) \<in> set held" by auto
    then have "(LockFile p, c) \<in> set (unlock_inner io g held)"
      using that(2) by (auto simp: unlock_inner_def in_set_remove1 split: result.split)
    then show ?thesis by force
  qed
  have gone: "LockFile p \<notin> set (map lg_resource (remove1 g gs))" if "LockFile p \<notin> set (map lg_resource gs)" for g gs
    using that set_remove1_subset by fastforce
  from assms show ?thesis
  proof (induction rule: lock_step.induct)
    case (got io gs m key held g held')
    then show ?case using granted_keeps[of io g held held'] try_acquire_once_cases[OF got(2)] by auto
  next
    case (not_got m io key held held' gs)
    then show ?case using try_acquire_once_cases[OF not_got(1)] orphaned_keeps by auto
  next
    case (failed m io key held e held' gs)
    then show ?case using try_acquire_once_cases[OF failed(1)] orphaned_keeps by auto
  next
    case (locked io gs m module key held g held')
    then show ?case using granted_keeps[of io g held held'] lock_cases[OF locked(2)] by auto
  next
    case (lock_failed m io module key held e held' gs)
    then show ?case using lock_cases[OF lock_failed(1)] orphaned_keeps by auto
  next
    case (waits m io module key held held' gs)
    then show ?case using lock_cases[OF waits(1)] orphaned_keeps by auto
  next
    case (released g gs held io)
    then have "lg_resource g \<noteq> LockFile p" by (metis imageI list.set_map snd_conv)
    with released show ?case using unlock_keeps[of held g io] gone[of gs g] by auto
  next
    case (dropped g gs held in_runtime io)
    then have "lg_resource g \<noteq> LockFile p" by (metis imageI list.set_map snd_conv)
    with dropped show ?case using unlock_keeps[of held g io] gone[of gs g] by (auto simp: drop_guard_def)
  next
    case (session_closed held gs conn)
    then show ?case by (auto simp: image_iff)
  qed
qed

lemma orphan_reachable:
  assumes "reachable env s s'" "LockFile p \<in> set (map fst (fst s))" "LockFile p \<notin> set (map lg_resource (snd s))"
  shows "LockFile p \<in> set (map fst (fst s')) \<and> LockFile p \<notin> set (map lg_resource (snd s'))"
  using assms(1) unfolding reachable_def
proof (induction rule: rtranclp_induct)
  case base
  then show ?case using assms(2,3) by simp
next
  case (step t u)
  then show ?case using orphan_step by blast
qed

text \<open>Hexadecimal numbers.\<close>

lemma hex_digit_inj: "a < 16 \<Longrightarrow> b < 16 \<Longrightarrow> hex_digit a = hex_digit b \<Longrightarrow> a = b"
proof -
  assume ab: "a < 16" "b < 16" "hex_digit a = hex_digit b"
  have "of_char (hex_digit x) = (if x < 10 then 48 + x else 87 + x)" if "x < 16" for x :: nat
    using that by (simp add: hex_digit_def)
  with ab have "(if a < 10 then 48 + a else 87 + a) = (if b < 10 then 48 + b else 87 + b)" by metis
  with ab(1,2) show "a = b" by (auto split: if_splits)
qed

lemma show_hex_nonempty [simp]: "show_hex n \<noteq> []"
  by (subst show_hex.simps) simp

lemma show_hex_inj: "show_hex m = show_hex n \<Longrightarrow> m = n"
proof (induction m arbitrary: n rule: show_hex.induct)
  case (1 m)
  show ?case
  proof (cases "m < 16"; cases "n < 16")
    assume "m < 16" "n < 16"
    with "1.prems" show ?thesis using hex_digit_inj by (simp add: show_hex.simps[of m] show_hex.simps[of n])
  next
    assume "m < 16" "\<not> n < 16"
    with "1.prems" show ?thesis by (auto simp: show_hex.simps[of m] show_hex.simps[of n] Cons_eq_append_conv)
  next
    assume "\<not> m < 16" "n < 16"
    with "1.prems" show ?thesis by (auto simp: show_hex.simps[of m] show_hex.simps[of n] append_eq_Cons_conv)
  next
    assume mn: "\<not> m < 16" "\<not> n < 16"
    with "1.prems" have "show_hex (m div 16) = show_hex (n div 16)" "hex_digit (m mod 16) = hex_digit (n mod 16)"
      by (simp_all add: show_hex.simps[of m] show_hex.simps[of n])
    with "1.IH"[OF mn(1)] have "m div 16 = n div 16" "m mod 16 = n mod 16" by (auto intro: hex_digit_inj)
    then show ?thesis by (metis div_mult_mod_eq)
  qed
qed

lemma show_hex_no_slash: "CHR ''/'' \<notin> set (show_hex n)"
proof (induction n rule: show_hex.induct)
  case (1 n)
  have d: "CHR ''/'' \<noteq> hex_digit d" if "d < 16" for d
  proof
    assume "CHR ''/'' = hex_digit d"
    then have "hex_digit d = CHR ''/''" by (rule sym)
    then have "(of_char (hex_digit d) :: nat) = 47" by simp
    with that show False by (simp add: hex_digit_def split: if_splits)
  qed
  show ?case
  proof (cases "n < 16")
    case True
    with d show ?thesis by (subst show_hex.simps) auto
  next
    case False
    with 1 have "CHR ''/'' \<notin> set (show_hex (n div 16))" by simp
    with False d[of "n mod 16"] show ?thesis by (subst show_hex.simps) auto
  qed
qed

text \<open>The factors of the two products of the loop; a panic of the loop is one of theirs unless the counter overflows.\<close>

definition product_panics :: "('f, 'w) lock_run \<Rightarrow> 'f lock_config \<Rightarrow> string \<Rightarrow> bool" where
  "product_panics run cfg key \<longleftrightarrow>
     (\<exists>d. lr_mul run d (lr_jitter_factor run (lc_jitter_pct cfg) key) = None \<or> lr_mul run d (lc_multiplier cfg) = None)"

lemma word_below_Suc: "n \<noteq> - 1 \<Longrightarrow> n < n + (1 :: 'a::len word)"
  by (metis add.commute eq_neg_iff_add_eq_0 lessI unatSuc word_less_nat_alt)

lemma loop_bounded_attempts:
  assumes "lc_max_attempts cfg = Some n" "n \<noteq> - 1"
    and count: "\<And>w. cnt (snd (lr_acquire run key w)) = Suc (cnt w)" "\<And>d w. cnt (lr_sleep run d w) = cnt w"
  shows "a \<le> n \<Longrightarrow> \<exists>r w'. try_lock_loop run cfg key a backoff w = Some (r, w') \<and>
    cnt w' \<le> cnt w + (unat n - unat a) \<and> (r = Panicked \<longrightarrow> product_panics run cfg key)"
proof (induction "unat n - unat a" arbitrary: a backoff w)
  case 0
  then have "a = n" by (simp add: word_le_nat_alt word_unat_eq_iff)
  then have "out_of_attempts cfg (a + 1)" "a \<noteq> - 1"
    using assms(1,2) word_below_Suc[of n] by (simp_all add: out_of_attempts_def)
  then show ?case by (subst try_lock_loop.simps) simp
next
  case (Suc k)
  then have "a < n" by (simp add: word_less_nat_alt)
  then have a1: "a + 1 \<le> n" "a \<noteq> - 1" by (simp_all add: inc_le) (metis not_less_iff_gr_or_eq word_order.extremum_strict)
  then have u: "unat (a + 1) = Suc (unat a)" by (metis add.commute eq_neg_iff_add_eq_0 unatSuc)
  obtain r w1 where acq: "lr_acquire run key w = (r, w1)" by fastforce
  with count(1)[of w] have w1: "cnt w1 = Suc (cnt w)" by simp
  have k: "k = unat n - unat (a + 1)" "cnt w1 \<le> cnt w + (unat n - unat a)" using Suc.hyps(2) u w1 by simp_all
  show ?case
  proof (cases "r = Ok None \<and> \<not> out_of_attempts cfg (a + 1) \<and> \<not> out_of_time run cfg w \<and> remaining_wait run cfg backoff w1 \<noteq> 0 \<and>
      sleep_time run cfg key backoff w1 \<noteq> None \<and> next_backoff run cfg backoff \<noteq> None")
    case True
    then obtain d b where d: "sleep_time run cfg key backoff w1 = Some d" "next_backoff run cfg backoff = Some b" by blast
    from Suc.hyps(1)[OF k(1) a1(1), of b "lr_sleep run d w1"] w1 u Suc.hyps(2) obtain r' w' where
      "try_lock_loop run cfg key (a + 1) b (lr_sleep run d w1) = Some (r', w')" "cnt w' \<le> cnt w + (unat n - unat a)"
      "r' = Panicked \<longrightarrow> product_panics run cfg key" by (auto simp: count(2))
    with True d acq a1(2) show ?thesis by (subst try_lock_loop.simps) simp
  next
    case False
    with acq a1(2) k(2) count(2) show ?thesis
      by (subst try_lock_loop.simps)
        (auto split: result.split option.split simp: product_panics_def sleep_time_def next_backoff_def)
  qed
qed

text \<open>A bound on the time ends the acquisition once every sleep lets time pass.\<close>

lemma loop_bounded_time:
  assumes "lc_max_wait cfg = Some mw" "\<And>w. lr_elapsed run w \<le> lr_elapsed run (snd (lr_acquire run key w))"
    and "\<And>d w. lr_elapsed run w < lr_elapsed run (lr_sleep run d w)"
  shows "\<exists>r. try_lock_loop run cfg key a backoff w = Some r"
proof (induction "mw - lr_elapsed run w" arbitrary: a backoff w rule: less_induct)
  case less
  show ?case
  proof (cases "out_of_attempts cfg (a + 1) \<or> out_of_time run cfg w")
    case True
    then show ?thesis by (subst try_lock_loop.simps) simp
  next
    case False
    obtain r w1 where q: "lr_acquire run key w = (r, w1)" by fastforce
    have "\<exists>r. try_lock_loop run cfg key (a + 1) b (lr_sleep run d w1) = Some r" for d b
    proof -
      have "lr_elapsed run w < lr_elapsed run (lr_sleep run d w1)" using assms(2)[of w] assms(3)[of w1 d] q by simp
      moreover have "lr_elapsed run w < mw" using False assms(1) by (simp add: out_of_time_def)
      ultimately show ?thesis by (intro less) simp
    qed
    then show ?thesis using q by (subst try_lock_loop.simps) (auto split: result.split option.split)
  qed
qed

text \<open>A loop whose attempts all fail and whose guards never fire does not return.\<close>

definition never_ends :: "('f, 'w) lock_run \<Rightarrow> 'f lock_config \<Rightarrow> string \<Rightarrow> bool" where
  "never_ends run cfg key \<longleftrightarrow> \<not> lr_overflow_checks run \<and> lc_max_attempts cfg = Some (- 1) \<and> lc_max_wait cfg = None \<and>
     0 < lc_max_backoff cfg \<and> (\<forall>w. fst (lr_acquire run key w) = Ok None) \<and>
     (\<forall>d f. \<exists>p. lr_mul run d f = Some p \<and> (0 < d \<longrightarrow> 0 < p))"

lemma loop_diverges:
  assumes "try_lock_loop run cfg key a backoff w = Some y"
  shows "never_ends run cfg key \<longrightarrow> backoff = 0"
proof (rule try_lock_loop.raw_induct[of "\<lambda>run cfg key a b w y. never_ends run cfg key \<longrightarrow> b = 0", OF _ assms], rule impI, goal_cases)
  case (1 loop run cfg key a backoff w y)
  then have ne: "\<not> lr_overflow_checks run" "lc_max_attempts cfg = Some (- 1)" "lc_max_wait cfg = None" "0 < lc_max_backoff cfg"
    "fst (lr_acquire run key w) = Ok None" "\<And>d f. \<exists>p. lr_mul run d f = Some p \<and> (0 < d \<longrightarrow> 0 < p)" for w
    by (simp_all add: never_ends_def)
  obtain w1 where w1: "lr_acquire run key w = (Ok None, w1)" by (metis ne(5) prod.collapse)
  have g: "\<not> out_of_attempts cfg (a + 1)" "\<not> out_of_time run cfg w" "remaining_wait run cfg backoff w1 = backoff"
    using ne(2,3) by (simp_all add: out_of_attempts_def out_of_time_def remaining_wait_def)
  obtain d where d: "sleep_time run cfg key backoff w1 = Some d" using ne(6) by (metis sleep_time_def)
  obtain b where b: "next_backoff run cfg backoff = Some b" "backoff \<noteq> 0 \<longrightarrow> b \<noteq> 0"
    using ne(4) ne(6)[of backoff "lc_multiplier cfg"] by (auto simp: next_backoff_def)
  show ?case
  proof (rule ccontr)
    assume "backoff \<noteq> 0"
    with 1(2) ne(1) g w1 d b(1) have "loop run cfg key (a + 1) b (lr_sleep run d w1) = Some y" by simp
    from 1(1)[OF this] 1(3) b(2) \<open>backoff \<noteq> 0\<close> show False by simp
  qed
qed

section \<open>Properties\<close>

text \<open>C19. However many tasks and processes acquire, wait, release, drop and crash, on any engine, no lock has two guards.\<close>

theorem locks_are_exclusive:
  assumes "reachable env ([], []) (held, gs)"
  shows "distinct (map lg_resource gs)"
  using one_guard_per_resource locks_ok_reachable[OF assms locks_ok_start] by blast

text \<open>A lock file whose guard is gone without a release, by a crash, a drop outside a runtime or a failed clone of its
  descriptor, is never locked again: no continuation removes it, and none yields a guard for it.\<close>

theorem stale_lock_file_is_permanent:
  assumes "LockFile p \<in> set (map fst held)" "LockFile p \<notin> set (map lg_resource gs)" "reachable env (held, gs) (held', gs')"
  shows "LockFile p \<in> set (map fst held') \<and> LockFile p \<notin> set (map lg_resource gs')"
  using orphan_reachable[OF assms(3)] assms(1,2) by simp

text \<open>When the descriptor of a new lock file cannot be cloned, the caller gets an error and the file stays.\<close>

theorem failed_clone_leaks_the_lock:
  assumes "lm_engine m = Sqlite" "io_create_dir io = Ok ()" "io_open io = Ok ()" "io_clone io = Err e"
    and "\<not> file_exists (get_lock_file_path env m (namespaced_key module key)) held"
  shows "\<exists>held'. lock env m io module key held = (Some (Err (LockIo e)), held') \<and>
     file_exists (get_lock_file_path env m (namespaced_key module key)) held'"
  using assms by (simp add: lock_def lock_file_def create_lock_file_def file_exists_def)

text \<open>Two managers of one database share a lock file exactly when the hashes of the keys agree.\<close>

theorem lock_file_per_hash:
  assumes "lm_dsn m = lm_dsn m'"
  shows "get_lock_file_path env m k = get_lock_file_path env m' k' \<longleftrightarrow> lk_hash env k = lk_hash env k'"
proof
  assume "get_lock_file_path env m k = get_lock_file_path env m' k'"
  with assms have "show_hex (unat (lk_hash env k)) = show_hex (unat (lk_hash env k'))"
    by (simp add: get_lock_file_path_def)
  then show "lk_hash env k = lk_hash env k'" using show_hex_inj by (metis word_unat_eq_iff)
qed (use assms in \<open>simp add: get_lock_file_path_def\<close>)

text \<open>A module without a colon in its name has keys of its own; with a colon two modules can share one.\<close>

theorem namespaces_are_separate:
  "(CHR '':'' \<notin> set module \<longrightarrow> CHR '':'' \<notin> set module' \<longrightarrow>
     (namespaced_key module key = namespaced_key module' key' \<longleftrightarrow> module = module' \<and> key = key')) \<and>
   namespaced_key ''a:b'' ''c'' = namespaced_key ''a'' ''b:c''"
proof (intro conjI impI)
  have "takeWhile (\<lambda>c. c \<noteq> CHR '':'') (namespaced_key x k) = x" if "CHR '':'' \<notin> set x" for x k
    using that by (induction x) (auto simp: namespaced_key_def)
  then show "namespaced_key module key = namespaced_key module' key' \<longleftrightarrow> module = module' \<and> key = key'"
    if "CHR '':'' \<notin> set module" "CHR '':'' \<notin> set module'"
    using that unfolding namespaced_key_def by (metis append_same_eq same_append_eq)
qed (simp add: namespaced_key_def)

text \<open>C26. With a bound below the largest \<open>u32\<close> the acquisition returns, whatever the others do, after at most that many attempts,
  in a build with or without overflow checks; it panics only when a product of a duration with the jitter or the multiplier does.\<close>

theorem bounded_attempts:
  assumes "lc_max_attempts cfg = Some n" "n \<noteq> - 1"
    and "\<And>w. cnt (snd (lr_acquire run (namespaced_key module key) w)) = Suc (cnt w)" "\<And>d w. cnt (lr_sleep run d w) = cnt w"
  shows "\<exists>r w'. try_lock run cfg module key w = Some (r, w') \<and> cnt w' \<le> cnt w + unat n \<and>
    (r = Panicked \<longrightarrow> product_panics run cfg (namespaced_key module key))"
  unfolding try_lock_def using loop_bounded_attempts[OF assms, of 0] by simp

text \<open>The largest bound is none: the counter never exceeds it. Without overflow checks and without a bound on the time the acquisition
  of a lock that stays taken never returns; with the checks the increment past the bound panics.\<close>

theorem largest_bound_is_none:
  assumes "lc_max_attempts cfg = Some (- 1)" "lc_max_wait cfg = None" "0 < lc_initial_backoff cfg" "0 < lc_max_backoff cfg"
    and "\<And>w. fst (lr_acquire run (namespaced_key module key) w) = Ok None"
    and "\<And>d f. \<exists>p. lr_mul run d f = Some p \<and> (0 < d \<longrightarrow> 0 < p)" "\<not> lr_overflow_checks run"
  shows "try_lock run cfg module key w = None"
proof (cases "try_lock run cfg module key w")
  case (Some y)
  have "never_ends run cfg (namespaced_key module key)" unfolding never_ends_def using assms by blast
  with loop_diverges[OF Some[unfolded try_lock_def]] assms(3) show ?thesis by simp
qed

theorem bounded_time:
  assumes "lc_max_wait cfg = Some mw" "\<And>w. lr_elapsed run w \<le> lr_elapsed run (snd (lr_acquire run (namespaced_key module key) w))"
    and "\<And>d w. lr_elapsed run w < lr_elapsed run (lr_sleep run d w)"
  shows "\<exists>r. try_lock run cfg module key w = Some r"
  unfolding try_lock_def using loop_bounded_time[OF assms] .

section \<open>Witnesses\<close>

definition lock_env0 :: lock_env where
  "lock_env0 = \<lparr>lk_hash = (\<lambda>s. of_nat (length s)), lk_cache_dir = Some ''/cache'', lk_temp_dir = ''/tmp''\<rparr>"

definition good_io :: lock_io where
  "good_io = \<lparr>io_conn = Ok 1, io_query = Ok (), io_create_dir = Ok (), io_open = Ok (), io_clone = Ok (),
     io_timed_out = False\<rparr>"

definition sqlite_manager :: lock_manager where
  "sqlite_manager = \<lparr>lm_engine = Sqlite, lm_pool = Sqlite, lm_dsn = ''sqlite:a'', lm_pg_feature = False, lm_mysql_feature = False\<rparr>"

definition some_file :: string where
  "some_file = get_lock_file_path lock_env0 sqlite_manager ''m:k''"

lemma first_lock:
  "lock_step lock_env0 ([], []) ([(LockFile some_file, 0)], [guard_for ''m:k'' (LockFile some_file) 0])"
proof -
  have "free_conn good_io []" by (simp add: free_conn_def server_conns_def good_io_def)
  moreover have "try_acquire_once lock_env0 sqlite_manager good_io ''m:k'' [] =
      (Ok (Some (guard_for ''m:k'' (LockFile some_file) 0)), [(LockFile some_file, 0)])"
  proof -
    have "lm_engine sqlite_manager = Sqlite" by (simp add: sqlite_manager_def)
    then show ?thesis
      by (simp add: try_acquire_once_def try_lock_file_def create_lock_file_def file_exists_def some_file_def)
        (simp add: good_io_def)
  qed
  ultimately show ?thesis by (rule lock_step.got)
qed

theorem locks_are_exclusive_witness:
  "\<exists>held gs. reachable lock_env0 ([], []) (held, gs) \<and> map lg_resource gs = [LockFile some_file] \<and> distinct (map lg_resource gs)"
proof -
  have r: "reachable lock_env0 ([], []) ([(LockFile some_file, 0)], [guard_for ''m:k'' (LockFile some_file) 0])"
    unfolding reachable_def using first_lock by blast
  show ?thesis
    by (intro exI conjI, rule r, simp add: guard_for_def, rule locks_are_exclusive[OF r])
qed

theorem stale_lock_file_is_permanent_witness:
  "\<exists>held. reachable lock_env0 ([(LockFile some_file, 0)], []) (held, []) \<and> LockFile some_file \<in> set (map fst held)"
proof -
  let ?s = "([(LockFile some_file, 0)], []) :: lock_system"
  have r: "reachable lock_env0 ?s ?s" by (simp add: reachable_def)
  from stale_lock_file_is_permanent[OF _ _ r, of some_file] r show ?thesis by auto
qed

theorem failed_clone_leaks_the_lock_witness:
  "\<exists>held. lock lock_env0 sqlite_manager (good_io\<lparr>io_clone := Err ''EMFILE''\<rparr>) ''m'' ''k'' [] = (Some (Err (LockIo ''EMFILE'')), held) \<and>
     file_exists (get_lock_file_path lock_env0 sqlite_manager (namespaced_key ''m'' ''k'')) held"
  using failed_clone_leaks_the_lock[of sqlite_manager "good_io\<lparr>io_clone := Err ''EMFILE''\<rparr>" "''EMFILE''" lock_env0 "''m''" "''k''" "[]"]
  by (simp add: sqlite_manager_def good_io_def file_exists_def)

theorem lock_file_per_hash_witness:
  "get_lock_file_path lock_env0 sqlite_manager ''m:k'' = get_lock_file_path lock_env0 sqlite_manager ''m:j'' \<and>
   get_lock_file_path lock_env0 sqlite_manager ''m:k'' \<noteq> get_lock_file_path lock_env0 sqlite_manager ''m:''"
  using lock_file_per_hash[of sqlite_manager sqlite_manager lock_env0 "''m:k''" "''m:j''"]
    lock_file_per_hash[of sqlite_manager sqlite_manager lock_env0 "''m:k''" "''m:''"] by (simp add: lock_env0_def)

theorem namespaces_are_separate_witness:
  "namespaced_key ''a'' ''b'' \<noteq> namespaced_key ''b'' ''b'' \<and> namespaced_key ''a:b'' ''c'' = namespaced_key ''a'' ''b:c''"
  using namespaces_are_separate[of "''a''" "''b''" "''b''" "''b''"] by simp

text \<open>A lock that is always taken: the world is the number of attempts and the clock.\<close>

definition busy_run :: "(unit, nat \<times> nat) lock_run" where
  "busy_run = \<lparr>lr_overflow_checks = False, lr_mul = (\<lambda>d _. Some d), lr_jitter_factor = (\<lambda>_ _. ()), lr_elapsed = snd, lr_sleep = (\<lambda>d (n, t). (n, t + d + 1)),
     lr_acquire = (\<lambda>_ (n, t). (Ok None, (Suc n, t)))\<rparr>"

definition three_attempts :: "unit lock_config" where
  "three_attempts = \<lparr>lc_max_wait = Some 100, lc_initial_backoff = 1, lc_max_backoff = 8, lc_multiplier = (), lc_jitter_pct = (),
     lc_max_attempts = Some 3\<rparr>"

theorem bounded_attempts_witness:
  "\<exists>r w'. try_lock busy_run three_attempts ''m'' ''k'' (0, 0) = Some (r, w') \<and> fst w' \<le> 3 \<and> r \<noteq> Panicked"
proof -
  have "\<not> product_panics busy_run three_attempts k" for k by (simp add: product_panics_def busy_run_def)
  then show ?thesis using bounded_attempts[of three_attempts 3 fst busy_run "''m''" "''k''" "(0, 0)"]
    by (simp add: three_attempts_def busy_run_def case_prod_beta)
qed

theorem largest_bound_is_none_witness:
  "try_lock busy_run (three_attempts\<lparr>lc_max_attempts := Some (- 1), lc_max_wait := None\<rparr>) ''m'' ''k'' (0, 0) = None"
  by (rule largest_bound_is_none) (simp_all add: three_attempts_def busy_run_def case_prod_beta)

theorem bounded_time_witness: "\<exists>r. try_lock busy_run three_attempts ''m'' ''k'' (0, 0) = Some r"
  using bounded_time[of three_attempts 100 busy_run "''m''" "''k''" "(0, 0)"]
  by (simp add: three_attempts_def busy_run_def case_prod_beta)

end
