(* ===== verification/Grpc_Hub.thy ===== *)
theory Grpc_Hub
  imports Directory Host_Runtime
begin

text \<open>
  The gRPC hub of the host, \<open>modules/grpc_hub/src/lib.rs\<close> (on Unix), over the directory and the store of installers
  of the runtime.

  An installer is the name of its service. The socket addresses and their parser, binding, the file system and the \<open>tonic\<close>
  server are parameters. Serving is split where the program waits for the cancellation: \<open>start_serving\<close> ends with the server
  up, \<open>run_with_installers\<close> goes on after it.
\<close>

section \<open>State\<close>

datatype 'a listen_config = ListenTcp 'a | ListenUds string

record ('a, 's) grpc_hub =
  gh_listen :: "'a listen_config"
  gh_wired :: bool
  gh_directory :: "'s directory_api option"
  gh_instance_id :: string
  gh_bound_endpoint :: "string option"

definition new_grpc_hub :: "'a \<Rightarrow> ('a, 's) grpc_hub" where
  "new_grpc_hub default_addr =
     \<lparr>gh_listen = ListenTcp default_addr, gh_wired = False, gh_directory = None, gh_instance_id = [], gh_bound_endpoint = None\<rparr>"

text \<open>What the hub acts on: the directory, the shared store, whether it has signalled that it is ready, and the socket files.\<close>

record 's hub_world =
  gw_directory :: 's
  gw_store :: installer_store
  gw_ready :: bool
  gw_files :: "string list"

record 'a hub_env =
  ge_parse_addr :: "string \<Rightarrow> ('a, string) result"
  ge_bind_tcp :: "'a \<Rightarrow> (string, string) result"
  ge_bind_uds :: "string \<Rightarrow> string list \<Rightarrow> (unit, string) result"
  ge_removable :: "string \<Rightarrow> bool"
  ge_serve :: "string list \<Rightarrow> (unit, string) result"
  ge_version :: string

section \<open>Configuration\<close>

definition apply_platform_specific :: "string \<Rightarrow> ('a, 's) grpc_hub \<Rightarrow> (bool, string) result \<times> ('a, 's) grpc_hub" where
  "apply_platform_specific addr h =
     (if starts_with ''pipe://'' addr \<or> starts_with ''npipe://'' addr then
        (Err (''Named pipe listen_addr is not supported on this platform: '' @ quoted addr), h)
      else
        (case strip_prefix ''uds://'' addr of
           Some path \<Rightarrow> (Ok True, h\<lparr>gh_listen := ListenUds path\<rparr>)
         | None \<Rightarrow> (Ok False, h)))"

definition apply_listen_config :: "'a hub_env \<Rightarrow> string \<Rightarrow> ('a, 's) grpc_hub \<Rightarrow> (unit, string) result \<times> ('a, 's) grpc_hub" where
  "apply_listen_config env addr h =
     (case apply_platform_specific addr h of
        (Err e, h) \<Rightarrow> (Err e, h)
      | (Ok True, h) \<Rightarrow> (Ok (), h)
      | (Ok False, h) \<Rightarrow>
          (case ge_parse_addr env addr of
             Err e \<Rightarrow> (Err (''invalid listen_addr '' @ quoted addr @ '': '' @ e), h)
           | Ok a \<Rightarrow> (Ok (), h\<lparr>gh_listen := ListenTcp a\<rparr>)))"

definition hub_wire_system :: "string \<Rightarrow> ('a, 's) grpc_hub \<Rightarrow> ('a, 's) grpc_hub" where
  "hub_wire_system instance_id h = h\<lparr>gh_wired := True, gh_instance_id := instance_id\<rparr>"

text \<open>\<open>init\<close>: the configured address or its error, and the directory of the client hub, if there is one.\<close>

definition hub_init ::
    "'a hub_env \<Rightarrow> (string, string) result \<Rightarrow> 's directory_api option \<Rightarrow> ('a, 's) grpc_hub \<Rightarrow>
     (unit, string) result \<times> ('a, 's) grpc_hub" where
  "hub_init env cfg dir h =
     (case cfg of
        Err e \<Rightarrow> (Err e, h)
      | Ok listen_addr \<Rightarrow>
          (case apply_listen_config env listen_addr h of
             (Err e, h) \<Rightarrow> (Err e, h)
           | (Ok _, h) \<Rightarrow> (Ok (), (case dir of Some d \<Rightarrow> h\<lparr>gh_directory := Some d\<rparr> | None \<Rightarrow> h))))"

section \<open>Serving\<close>

definition all_services :: "module_installers list \<Rightarrow> string list" where
  "all_services ms = concat (map ins_services ms)"

definition validate_unique_services :: "module_installers list \<Rightarrow> (unit, string) result" where
  "validate_unique_services ms =
     (case first_duplicate [] (all_services ms) of
        Some x \<Rightarrow> Err (''Duplicate gRPC service detected: '' @ x)
      | None \<Rightarrow> Ok ())"

definition build_routes_from_modules :: "module_installers list \<Rightarrow> string list option" where
  "build_routes_from_modules ms = (if all_services ms = [] then None else Some (all_services ms))"

definition register_info :: "'a hub_env \<Rightarrow> string \<Rightarrow> string \<Rightarrow> module_installers \<Rightarrow> register_instance_info" where
  "register_info env instance_id ep m =
     \<lparr>rii_module = ins_module m, rii_instance_id = instance_id,
      rii_grpc_services = map (\<lambda>n. (n, se_new ep)) (ins_services m), rii_version = Some (ge_version env)\<rparr>"

fun register_each :: "'s directory_api \<Rightarrow> register_instance_info list \<Rightarrow> 's \<Rightarrow> (unit, string) result \<times> 's" where
  "register_each d [] s = (Ok (), s)"
| "register_each d (i # is) s = (case api_register d i s of (Err e, s) \<Rightarrow> (Err e, s) | (Ok _, s) \<Rightarrow> register_each d is s)"

definition register_modules ::
    "'a hub_env \<Rightarrow> ('a, 's) grpc_hub \<Rightarrow> module_installers list \<Rightarrow> string \<Rightarrow> 's \<Rightarrow> (unit, string) result \<times> 's" where
  "register_modules env h ms ep s =
     (case gh_directory h of
        None \<Rightarrow> (Ok (), s)
      | Some d \<Rightarrow> register_each d (map (register_info env (gh_instance_id h) ep) ms) s)"

text \<open>A failed deregistration is logged and the loop goes on.\<close>

definition deregister_modules :: "('a, 's) grpc_hub \<Rightarrow> module_installers list \<Rightarrow> 's \<Rightarrow> 's" where
  "deregister_modules h ms s =
     (case gh_directory h of
        None \<Rightarrow> s
      | Some d \<Rightarrow> fold (\<lambda>m s. snd (api_deregister d (ins_module m) (gh_instance_id h) s)) ms s)"

definition prepare_uds_socket_path :: "'a hub_env \<Rightarrow> string \<Rightarrow> string list \<Rightarrow> string list" where
  "prepare_uds_socket_path env path files = (if ge_removable env path then removeAll path files else files)"

text \<open>The tail that both transports share: publish the endpoint, register, signal.\<close>

definition announce ::
    "'a hub_env \<Rightarrow> module_installers list \<Rightarrow> string \<Rightarrow> ('a, 's) grpc_hub \<Rightarrow> 's hub_world \<Rightarrow>
     (unit, string) result \<times> ('a, 's) grpc_hub \<times> 's hub_world" where
  "announce env ms ep h w =
     (let h = h\<lparr>gh_bound_endpoint := Some ep\<rparr>
      in case register_modules env h ms ep (gw_directory w) of
           (Err e, s) \<Rightarrow> (Err e, h, w\<lparr>gw_directory := s\<rparr>)
         | (Ok _, s) \<Rightarrow> (Ok (), h, w\<lparr>gw_directory := s, gw_ready := True\<rparr>))"

definition serve_tcp ::
    "'a hub_env \<Rightarrow> 'a \<Rightarrow> module_installers list \<Rightarrow> ('a, 's) grpc_hub \<Rightarrow> 's hub_world \<Rightarrow>
     (unit, string) result \<times> ('a, 's) grpc_hub \<times> 's hub_world" where
  "serve_tcp env a ms h w =
     (case ge_bind_tcp env a of
        Err e \<Rightarrow> (Err e, h, w)
      | Ok bound \<Rightarrow> announce env ms (''http://'' @ bound) h w)"

definition serve_uds ::
    "'a hub_env \<Rightarrow> string \<Rightarrow> module_installers list \<Rightarrow> ('a, 's) grpc_hub \<Rightarrow> 's hub_world \<Rightarrow>
     (unit, string) result \<times> ('a, 's) grpc_hub \<times> 's hub_world" where
  "serve_uds env path ms h w =
     (let files = prepare_uds_socket_path env path (gw_files w)
      in case ge_bind_uds env path files of
           Err e \<Rightarrow> (Err (''failed to bind UDS listener at '' @ quoted path @ '': '' @ e), h, w\<lparr>gw_files := files\<rparr>)
         | Ok _ \<Rightarrow> announce env ms (''unix://'' @ path) h (w\<lparr>gw_files := path # files\<rparr>))"

definition start_serving ::
    "'a hub_env \<Rightarrow> module_installers list \<Rightarrow> ('a, 's) grpc_hub \<Rightarrow> 's hub_world \<Rightarrow>
     (unit, string) result \<times> ('a, 's) grpc_hub \<times> 's hub_world" where
  "start_serving env ms h w =
     (case gh_listen h of ListenTcp a \<Rightarrow> serve_tcp env a ms h w | ListenUds p \<Rightarrow> serve_uds env p ms h w)"

definition run_with_installers ::
    "'a hub_env \<Rightarrow> module_installers list \<Rightarrow> ('a, 's) grpc_hub \<Rightarrow> 's hub_world \<Rightarrow>
     (unit, string) result \<times> ('a, 's) grpc_hub \<times> 's hub_world" where
  "run_with_installers env ms h w =
     (case validate_unique_services ms of
        Err e \<Rightarrow> (Err e, h, w)
      | Ok _ \<Rightarrow>
          (case build_routes_from_modules ms of
             None \<Rightarrow> (Ok (), h, w\<lparr>gw_ready := True\<rparr>)
           | Some routes \<Rightarrow>
               (case start_serving env ms h w of
                  (r, h, w) \<Rightarrow>
                    (and_then r (\<lambda>_. ge_serve env routes), h, w\<lparr>gw_directory := deregister_modules h ms (gw_directory w)\<rparr>))))"

definition hub_serve ::
    "'a hub_env \<Rightarrow> ('a, 's) grpc_hub \<Rightarrow> 's hub_world \<Rightarrow> (unit, string) result \<times> ('a, 's) grpc_hub \<times> 's hub_world" where
  "hub_serve env h w =
     (if \<not> gh_wired h then (Err ''GrpcInstallerStore not wired into GrpcHub'', h, w)
      else
        (case store_take (gw_store w) of
           (None, st) \<Rightarrow> (Err ''GrpcInstallerStore is empty'', h, w\<lparr>gw_store := st\<rparr>)
         | (Some ms, st) \<Rightarrow> run_with_installers env ms h (w\<lparr>gw_store := st\<rparr>)))"

section \<open>The directory, seen from the hub\<close>

text \<open>Besides the contract of the directory the hub relies on this: operations on one module leave the others listed.\<close>

locale hub_directory = discovery +
  assumes register_frame: "k \<noteq> rii_module info \<Longrightarrow> api_list api k (snd (api_register api info s)) = api_list api k s"
    and deregister_frame: "k \<noteq> k' \<Longrightarrow> api_list api k (snd (api_deregister api k' x s)) = api_list api k s"
begin

lemma register_each_frame:
  "k \<notin> rii_module ` set is \<Longrightarrow> api_list api k (snd (register_each api is s)) = api_list api k s"
proof (induction "is" arbitrary: s)
  case (Cons i "is")
  obtain r s1 where r: "api_register api i s = (r, s1)" by fastforce
  with Cons.prems register_frame[of k i s] have "api_list api k s1 = api_list api k s" by simp
  with Cons r show ?case by (cases r) simp_all
qed simp

lemma register_each_invar: "invar s \<Longrightarrow> invar (snd (register_each api is s))"
proof (induction "is" arbitrary: s)
  case (Cons i "is")
  obtain r s1 where r: "api_register api i s = (r, s1)" by fastforce
  with invar_register[OF Cons.prems, of i] have "invar s1" by simp
  with Cons r show ?case by (cases r) simp_all
qed simp

lemma register_each_Ok:
  "(\<And>i. i \<in> set is \<Longrightarrow> valid_id (rii_instance_id i)) \<Longrightarrow> fst (register_each api is s) = Ok ()"
proof (induction "is" arbitrary: s)
  case (Cons j "is")
  then obtain s1 where "api_register api j s = (Ok (), s1)"
    using register_valid[of j s] by (metis fst_conv list.set_intros(1) surj_pair)
  with Cons show ?case by simp
qed simp

lemma register_each_listed:
  assumes "invar s" "distinct (map rii_module is)" "i \<in> set is"
    and "\<And>i. i \<in> set is \<Longrightarrow> valid_id (rii_instance_id i)" "rii_grpc_services i \<noteq> []"
  shows "fst (register_each api is s) = Ok () \<and>
    (\<exists>es. api_list api (rii_module i) (snd (register_each api is s)) = Ok es \<and>
       (\<exists>e \<in> set es. sii_module e = rii_module i \<and> same_id (sii_instance_id e) (rii_instance_id i) \<and>
          sii_endpoint e \<in> snd ` set (rii_grpc_services i)))"
  using assms
proof (induction "is" arbitrary: s i)
  case (Cons j "is")
  have v: "valid_id (rii_instance_id j)" using Cons.prems(4)[of j] by auto
  obtain s1 where r: "api_register api j s = (Ok (), s1)"
    using register_valid[OF v, of s] by (metis fst_conv surj_pair)
  have s1: "s1 = snd (api_register api j s)" using r by simp
  have inv: "invar s1" using invar_register[OF Cons.prems(1), of j] s1 by simp
  have eq: "register_each api (j # is) s = register_each api is s1" using r by simp
  have ok: "fst (register_each api is s1) = Ok ()" by (rule register_each_Ok) (use Cons.prems(4) in auto)
  show ?case
  proof (cases "i \<in> set is")
    case True
    from Cons.IH[OF inv _ True] Cons.prems show ?thesis unfolding eq by auto
  next
    case False
    with Cons.prems have i: "i = j" by simp
    with Cons.prems(2) have "rii_module i \<notin> rii_module ` set is" by auto
    from register_each_frame[OF this, of s1]
    have f: "api_list api (rii_module i) (snd (register_each api is s1)) = api_list api (rii_module i) s1" .
    obtain es where es: "api_list api (rii_module j) s1 = Ok es" using list_total by blast
    from register_listed[OF Cons.prems(1) v _ es[unfolded s1]] Cons.prems(5) es ok f i show ?thesis unfolding eq by auto
  qed
qed simp

lemma deregister_each_unlisted:
  assumes "invar s" "valid_id x" "m \<in> set ms"
    and "api_list api (ins_module m) (fold (\<lambda>m s. snd (api_deregister api (ins_module m) x s)) ms s) = Ok es" "e \<in> set es"
  shows "\<not> same_id (sii_instance_id e) x"
proof -
  let ?f = "\<lambda>m s. snd (api_deregister api (ins_module m) x s)"
  have "invar (fold ?f ms s)" if "invar s" for ms s
    using that by (induction ms arbitrary: s) (auto simp: invar_deregister)
  then have i: "invar (fold ?f ms s)" for ms using assms(1) by blast
  from assms(3,4) show ?thesis
  proof (induction ms rule: rev_induct)
    case (snoc n ms)
    show ?case
    proof (cases "ins_module m = ins_module n")
      case True
      with snoc.prems deregister_unlisted[OF i assms(2)] assms(5) show ?thesis by simp
    next
      case False
      with snoc deregister_frame[OF False] show ?thesis by auto
    qed
  qed simp
qed

end

text \<open>The local directory is one.\<close>

lemma instances_of_build:
  assumes "build_instance info x now s = (i, m')"
  shows "instances_of m' = instances_of s" "mi_module i = rii_module info"
proof -
  show "mi_module i = rii_module info" by (rule build_instance_fields(1)[OF assms])
  have "mm_inner m' = mm_inner s" using build_instance_fields(5)[OF assms] by (simp add: new_instance_def)
  then show "instances_of m' = instances_of s" by (rule instances_of_inner)
qed

lemma local_register_frame:
  "k \<noteq> rii_module info \<Longrightarrow> instances_of (snd (local_register parse_uuid now info s)) k = instances_of s k"
  by (auto simp: local_register_def register_instance_def instances_of_build split: result.split prod.split)

lemma hub_directory_local:
  assumes "\<And>n. parse_uuid (show_uuid n) = Ok n"
  shows "hub_directory (local_directory_api parse_uuid show_uuid now) mm_invar (id_valid parse_uuid) (id_same parse_uuid)"
by (intro hub_directory.intro discovery_local[OF assms] hub_directory_axioms.intro)
    (auto simp: local_directory_api_def local_list_def local_register_frame local_deregister_def instances_of_deregister split: result.split)

interpretation hub_dir: hub_directory "local_directory_api decimal_uuid show_nat now" mm_invar
    "id_valid decimal_uuid" "id_same decimal_uuid"
  by (rule hub_directory_local) (simp add: decimal_uuid_def)

section \<open>Lemmas\<close>

lemma first_duplicate_None: "first_duplicate seen xs = None \<longleftrightarrow> distinct xs \<and> set seen \<inter> set xs = {}"
  by (induction xs arbitrary: seen) auto

lemma validate_Ok_iff: "validate_unique_services ms = Ok () \<longleftrightarrow> distinct (all_services ms)"
  by (auto simp: validate_unique_services_def first_duplicate_None split: option.splits dest: sym)
    (metis first_duplicate_None inf_bot_left option.distinct(1) set_empty2)

lemma register_modules_bound [simp]:
  "register_modules env (h\<lparr>gh_bound_endpoint := x\<rparr>) ms ep s = register_modules env h ms ep s"
  by (simp add: register_modules_def split: option.split)

lemma announce_Ok:
  assumes "announce env ms ep h w = (Ok (), h', w')"
  shows "gh_bound_endpoint h' = Some ep \<and> gw_ready w' \<and>
    register_modules env h ms ep (gw_directory w) = (Ok (), gw_directory w')"
  using assms by (auto simp: announce_def Let_def split: prod.splits result.splits)

lemma announce_hub:
  "announce env ms ep h w = (r, h', w') \<Longrightarrow> gh_directory h' = gh_directory h \<and> gh_instance_id h' = gh_instance_id h \<and>
   gw_directory w' = snd (register_modules env h ms ep (gw_directory w)) \<and> gw_store w' = gw_store w"
  by (auto simp: announce_def Let_def split: prod.splits result.splits)

lemma start_serving_announces:
  "start_serving env ms h w = (r, h', w') \<Longrightarrow>
   (\<exists>e. r = Err e \<and> h' = h \<and> gw_directory w' = gw_directory w \<and> gw_store w' = gw_store w) \<or>
   (\<exists>ep fs. announce env ms ep h (w\<lparr>gw_files := fs\<rparr>) = (r, h', w'))"
proof (cases "gh_listen h")
  case (ListenTcp a)
  moreover assume "start_serving env ms h w = (r, h', w')"
  ultimately show ?thesis
  proof (cases "ge_bind_tcp env a")
    case (Ok bound)
    with ListenTcp \<open>start_serving env ms h w = (r, h', w')\<close> have
      "announce env ms (''http://'' @ bound) h (w\<lparr>gw_files := gw_files w\<rparr>) = (r, h', w')"
      by (simp add: start_serving_def serve_tcp_def)
    then show ?thesis by blast
  qed (auto simp: start_serving_def serve_tcp_def)
next
  case (ListenUds p)
  moreover assume "start_serving env ms h w = (r, h', w')"
  ultimately show ?thesis
    by (cases "ge_bind_uds env p (prepare_uds_socket_path env p (gw_files w))")
      (auto simp: start_serving_def serve_uds_def Let_def)
qed

lemma serving_keeps_store:
  assumes "run_with_installers env ms h w = (r, h', w')"
  shows "gw_store w' = gw_store w"
proof -
  obtain q k v where s: "start_serving env ms h w = (q, k, v)" by (metis prod_cases3)
  have "gw_store v = gw_store w" using start_serving_announces[OF s] announce_hub by fastforce
  then show ?thesis using assms by (auto simp: run_with_installers_def s split: result.splits option.splits)
qed

lemma start_serving_Ok:
  "start_serving env ms h w = (Ok (), h', w') \<Longrightarrow>
   \<exists>ep. gh_bound_endpoint h' = Some ep \<and> gw_ready w' \<and> register_modules env h ms ep (gw_directory w) = (Ok (), gw_directory w')"
  using start_serving_announces[of env ms h w "Ok ()" h' w'] announce_Ok by fastforce

section \<open>Properties\<close>

text \<open>C21. Once the hub serves, it has signalled that it is ready, and every module with services is listed in the directory under the
  endpoint to which the hub is bound.\<close>

theorem serving_hub_is_listed:
  assumes "\<And>n. parse_uuid (show_uuid n) = Ok n" "start_serving env ms h w = (Ok (), h', w')"
    and "gh_directory h = Some (local_directory_api parse_uuid show_uuid now)" "mm_invar (gw_directory w)"
    and "is_ok (parse_uuid (gh_instance_id h))" "distinct (map ins_module ms)" "m \<in> set ms" "ins_services m \<noteq> []"
  shows "gw_ready w' \<and> (\<exists>ep es. gh_bound_endpoint h' = Some ep \<and> local_list show_uuid (ins_module m) (gw_directory w') = Ok es \<and>
     (\<exists>e \<in> set es. id_same parse_uuid (sii_instance_id e) (gh_instance_id h) \<and> sii_endpoint e = se_new ep))"
proof -
  let ?api = "local_directory_api parse_uuid show_uuid now"
  from start_serving_Ok[OF assms(2)] obtain ep where ep: "gh_bound_endpoint h' = Some ep" "gw_ready w'"
    "register_modules env h ms ep (gw_directory w) = (Ok (), gw_directory w')" by blast
  let ?is = "map (register_info env (gh_instance_id h) ep) ms"
  have r: "register_each ?api ?is (gw_directory w) = (Ok (), gw_directory w')"
    using ep(3) assms(3) by (simp add: register_modules_def)
  have "\<exists>es. api_list ?api (rii_module (register_info env (gh_instance_id h) ep m)) (snd (register_each ?api ?is (gw_directory w))) = Ok es \<and>
       (\<exists>e \<in> set es. sii_module e = rii_module (register_info env (gh_instance_id h) ep m) \<and>
          id_same parse_uuid (sii_instance_id e) (rii_instance_id (register_info env (gh_instance_id h) ep m)) \<and>
          sii_endpoint e \<in> snd ` set (rii_grpc_services (register_info env (gh_instance_id h) ep m)))"
    by (rule hub_directory.register_each_listed[OF hub_directory_local[OF assms(1)], THEN conjunct2])
      (use assms(4-8) in \<open>auto simp: register_info_def comp_def id_valid_def\<close>)
  with r ep(1,2) show ?thesis by (fastforce simp: register_info_def local_directory_api_def image_iff)
qed

text \<open>When a run of the hub is over, however it ended, its instance is listed for none of its modules.\<close>

theorem stopped_hub_is_unlisted:
  assumes "\<And>n. parse_uuid (show_uuid n) = Ok n" "run_with_installers env ms h w = (r, h', w')"
    and "distinct (all_services ms)" "all_services ms \<noteq> []"
    and "gh_directory h = Some (local_directory_api parse_uuid show_uuid now)" "mm_invar (gw_directory w)"
    and "is_ok (parse_uuid (gh_instance_id h))" "m \<in> set ms"
    and "local_list show_uuid (ins_module m) (gw_directory w') = Ok es" "e \<in> set es"
  shows "\<not> id_same parse_uuid (sii_instance_id e) (gh_instance_id h)"
proof -
  let ?api = "local_directory_api parse_uuid show_uuid now"
  obtain r1 h1 w1 where s: "start_serving env ms h w = (r1, h1, w1)" by (metis surj_pair)
  have v: "validate_unique_services ms = Ok ()" using assms(3) by (simp add: validate_Ok_iff)
  then have w': "gw_directory w' = deregister_modules h1 ms (gw_directory w1)"
    using assms(2,4) s by (auto simp: run_with_installers_def build_routes_from_modules_def)
  have d: "gh_directory h1 = gh_directory h \<and> gh_instance_id h1 = gh_instance_id h"
    using start_serving_announces[OF s] announce_hub by blast
  have "mm_invar (gw_directory w1)"
  proof -
    from start_serving_announces[OF s] consider "gw_directory w1 = gw_directory w"
      | ep fs where "announce env ms ep h (w\<lparr>gw_files := fs\<rparr>) = (r1, h1, w1)" by blast
    then show ?thesis
    proof cases
      case 2
      from announce_hub[OF this] assms(5)
      have "gw_directory w1 = snd (register_each ?api (map (register_info env (gh_instance_id h) ep) ms) (gw_directory w))"
        by (simp add: register_modules_def)
      then show ?thesis using hub_directory.register_each_invar[OF hub_directory_local[OF assms(1)] assms(6)] by simp
    qed (use assms(6) in simp)
  qed
  with hub_directory.deregister_each_unlisted[OF hub_directory_local[where now = now, OF assms(1)],
      where s = "gw_directory w1" and x = "gh_instance_id h" and m = m and ms = ms and es = es and e = e]
  show ?thesis using assms(5,7-10) d unfolding w' deregister_modules_def
    by (simp add: id_valid_def) (simp add: local_directory_api_def)
qed

text \<open>A service that two installers have stops the hub before it binds, registers or signals anything; a hub without services
  signals that it is ready and never has an endpoint.\<close>

theorem hub_checks_services_first:
  "(\<not> distinct (all_services ms) \<longrightarrow> (\<exists>e. run_with_installers env ms h w = (Err e, h, w))) \<and>
   (all_services ms = [] \<longrightarrow> run_with_installers env ms h w = (Ok (), h, w\<lparr>gw_ready := True\<rparr>))"
proof (intro conjI impI)
  assume "\<not> distinct (all_services ms)"
  then obtain e where "validate_unique_services ms = Err e"
    using validate_Ok_iff by (metis (full_types) old.unit.exhaust result.exhaust)
  then show "\<exists>e. run_with_installers env ms h w = (Err e, h, w)" by (simp add: run_with_installers_def)
next
  assume "all_services ms = []"
  moreover from this have "validate_unique_services ms = Ok ()" by (simp add: validate_Ok_iff)
  ultimately show "run_with_installers env ms h w = (Ok (), h, w\<lparr>gw_ready := True\<rparr>)"
    by (simp add: run_with_installers_def build_routes_from_modules_def)
qed

text \<open>The installers are consumed: a wired hub that has served once refuses to serve again.\<close>

theorem hub_serves_once:
  assumes "gh_wired h" "hub_serve env h w = (r, h', w')" "gh_wired h''"
  shows "\<exists>w''. hub_serve env h'' w' = (Err ''GrpcInstallerStore is empty'', h'', w'')"
proof -
  have "gw_store w' = None"
  proof (cases "gw_store w")
    case (Some ms)
    then have "run_with_installers env ms h (w\<lparr>gw_store := None\<rparr>) = (r, h', w')"
      using assms(1,2) by (simp add: hub_serve_def store_take_def)
    then show ?thesis using serving_keeps_store by fastforce
  qed (use assms(1,2) in \<open>auto simp: hub_serve_def store_take_def\<close>)
  then show ?thesis using assms(3) by (simp add: hub_serve_def store_take_def)
qed

section \<open>Witnesses\<close>

text \<open>A hub with the directory service of the host, over an empty local directory.\<close>

definition free_port :: "string hub_env" where
  "free_port = \<lparr>ge_parse_addr = Ok, ge_bind_tcp = Ok, ge_bind_uds = (\<lambda>_ _. Ok ()), ge_removable = (\<lambda>_. True),
     ge_serve = (\<lambda>_. Ok ()), ge_version = ''0.1.0''\<rparr>"

definition dir_api :: "module_manager directory_api" where
  "dir_api = local_directory_api decimal_uuid show_nat 0"

definition ready_hub :: "(string, module_manager) grpc_hub" where
  "ready_hub = \<lparr>gh_listen = ListenTcp ''127.0.0.1:50051'', gh_wired = True, gh_directory = Some dir_api, gh_instance_id = ''7'',
     gh_bound_endpoint = None\<rparr>"

definition orchestrator :: "module_installers list" where
  "orchestrator = [\<lparr>ins_module = ''module_orchestrator'', ins_services = [''Directory'']\<rparr>]"

definition fresh_world :: "module_manager hub_world" where
  "fresh_world = \<lparr>gw_directory = new_manager, gw_store = Some orchestrator, gw_ready = False, gw_files = []\<rparr>"

lemma ready_simps [simp]:
  "gh_directory ready_hub = Some dir_api" "gh_instance_id ready_hub = ''7''" "gh_wired ready_hub"
  "gh_listen ready_hub = ListenTcp ''127.0.0.1:50051''"
  "gw_directory fresh_world = new_manager" "gw_store fresh_world = Some orchestrator"
  "mm_invar new_manager" "is_ok (decimal_uuid ''7'')"
  by (simp_all add: ready_hub_def fresh_world_def mm_invar_def wf_directory_def wf_cells_def new_manager_def all_instances_def
    instances_of_def decimal_uuid_def parse_nat_def digit_val_def)

lemma serves: "\<exists>h' w'. start_serving free_port orchestrator ready_hub fresh_world = (Ok (), h', w')"
proof -
  have "fst (register_modules free_port ready_hub orchestrator ep s) = Ok ()" for ep s
    by (simp add: register_modules_def orchestrator_def register_info_def dir_api_def local_directory_api_def local_register_def
        decimal_uuid_def parse_nat_def digit_val_def split: prod.split)
  then show ?thesis
    by (auto simp: start_serving_def serve_tcp_def announce_def Let_def free_port_def split: prod.split result.split) (metis fst_conv result.distinct(1))
qed

theorem serving_hub_is_listed_witness:
  "\<exists>h' w' es. start_serving free_port orchestrator ready_hub fresh_world = (Ok (), h', w') \<and> gw_ready w' \<and>
     local_list show_nat ''module_orchestrator'' (gw_directory w') = Ok es \<and> es \<noteq> []"
proof -
  from serves obtain h' w' where s: "start_serving free_port orchestrator ready_hub fresh_world = (Ok (), h', w')" by blast
  have "gw_ready w' \<and> (\<exists>ep es. gh_bound_endpoint h' = Some ep \<and>
      local_list show_nat (ins_module (hd orchestrator)) (gw_directory w') = Ok es \<and>
      (\<exists>e \<in> set es. id_same decimal_uuid (sii_instance_id e) (gh_instance_id ready_hub) \<and> sii_endpoint e = se_new ep))"
    by (rule serving_hub_is_listed[OF _ s, where now = 0]) (simp_all add: dir_api_def orchestrator_def, simp_all add: decimal_uuid_def)
  with s show ?thesis by (fastforce simp: orchestrator_def)
qed

theorem stopped_hub_is_unlisted_witness:
  "\<exists>r h' w' es. run_with_installers free_port orchestrator ready_hub fresh_world = (r, h', w') \<and>
     local_list show_nat ''module_orchestrator'' (gw_directory w') = Ok es \<and>
     list_all (\<lambda>e. \<not> id_same decimal_uuid (sii_instance_id e) ''7'') es"
proof -
  obtain r h' w' where s: "run_with_installers free_port orchestrator ready_hub fresh_world = (r, h', w')" by (metis surj_pair)
  obtain es where l: "local_list show_nat ''module_orchestrator'' (gw_directory w') = Ok es" by (simp add: local_list_def)
  have "\<not> id_same decimal_uuid (sii_instance_id e) (gh_instance_id ready_hub)" if "e \<in> set es" for e
    by (rule stopped_hub_is_unlisted[OF _ s, where now = 0 and m = "hd orchestrator" and show_uuid = show_nat])
      (use l that in \<open>simp_all add: dir_api_def orchestrator_def all_services_def\<close>, simp_all add: decimal_uuid_def)
  with s l show ?thesis by (auto simp: list_all_iff)
qed

theorem hub_checks_services_first_witness:
  "\<exists>e. run_with_installers free_port (orchestrator @ orchestrator) ready_hub fresh_world = (Err e, ready_hub, fresh_world)"
  using hub_checks_services_first[of "orchestrator @ orchestrator" free_port ready_hub fresh_world]
  by (simp add: all_services_def orchestrator_def)

theorem hub_serves_once_witness:
  "\<exists>r h' w' w''. hub_serve free_port ready_hub fresh_world = (r, h', w') \<and>
     hub_serve free_port ready_hub w' = (Err ''GrpcInstallerStore is empty'', ready_hub, w'')"
proof -
  obtain r h' w' where s: "hub_serve free_port ready_hub fresh_world = (r, h', w')" by (metis surj_pair)
  from hub_serves_once[OF _ this, of ready_hub] s show ?thesis by auto
qed

end
