(* ===== verification/Local_Backend.thy ===== *)
theory Local_Backend
  imports Prelude Json
begin

text \<open>
  The backend that runs out-of-process modules as child processes, \<open>libs/modkit/src/backends/local.rs\<close> and
  \<open>backends/mod.rs\<close> (on Unix), and the forwarding of their output, \<open>backends/log_forwarder.rs\<close>.

  The operating system is the set of running processes, the signals sent and a clock in milliseconds. What a child does after
  it was asked to terminate, and whether the calls of the system succeed, are parameters.
\<close>

section \<open>State\<close>

datatype backend_kind = LocalProcess | K8s | Static | Mock

record oop_module_config =
  oc_name :: string
  oc_binary :: "string option"
  oc_args :: "string list"
  oc_env :: "(string \<times> string) list"
  oc_working_directory :: "string option"
  oc_backend :: backend_kind
  oc_version :: "string option"

definition oop_module_config_new :: "string \<Rightarrow> backend_kind \<Rightarrow> oop_module_config" where
  "oop_module_config_new name kind =
     \<lparr>oc_name = name, oc_binary = None, oc_args = [], oc_env = [], oc_working_directory = None, oc_backend = kind, oc_version = None\<rparr>"

record instance_handle =
  ih_module :: string
  ih_instance_id :: nat
  ih_backend :: backend_kind
  ih_pid :: "nat option"
  ih_created_at :: nat

record local_instance =
  li_handle :: instance_handle
  li_child :: nat
  li_stdout_forwarder :: bool
  li_stderr_forwarder :: bool

record os_command =
  cm_binary :: string
  cm_args :: "string list"
  cm_env :: "(string \<times> string) list"
  cm_current_dir :: "string option"

datatype os_signal = SigTerm nat | SigKill nat

record os_world =
  ow_running :: "nat list"
  ow_commands :: "(nat \<times> os_command) list"
  ow_signals :: "os_signal list"
  ow_clock :: nat

record backend_state =
  lb_instances :: "(nat \<times> local_instance) list"
  lb_drained :: bool
  lb_os :: os_world

text \<open>How a child answers SIGTERM: it exits after some milliseconds, or not in time, or waiting for it fails.\<close>

datatype child_answer = ExitsAfter nat | IgnoresTerm | WaitFails

record os_env =
  oe_spawn :: "os_command \<Rightarrow> (nat, string) result"
  oe_is_dir :: "string \<Rightarrow> bool"
  oe_answer :: "nat \<Rightarrow> child_answer"
  oe_kill_ok :: "nat \<Rightarrow> bool"
  oe_drain :: "nat \<Rightarrow> nat"

definition SHUTDOWN_GRACE_PERIOD :: nat where "SHUTDOWN_GRACE_PERIOD = 5000"
definition INSTANCE_STOP_GRACE_PERIOD :: nat where "INSTANCE_STOP_GRACE_PERIOD = 2000"
definition FORWARDER_DRAIN_TIMEOUT :: nat where "FORWARDER_DRAIN_TIMEOUT = 100"

section \<open>Stopping a child\<close>

definition send_terminate_signal :: "nat \<Rightarrow> os_world \<Rightarrow> os_world" where
  "send_terminate_signal pid w = w\<lparr>ow_signals := ow_signals w @ [SigTerm pid]\<rparr>"

definition process_gone :: "nat \<Rightarrow> nat \<Rightarrow> os_world \<Rightarrow> os_world" where
  "process_gone pid ms w = w\<lparr>ow_running := removeAll pid (ow_running w), ow_clock := ow_clock w + ms\<rparr>"

definition force_kill :: "os_env \<Rightarrow> nat \<Rightarrow> nat \<Rightarrow> os_world \<Rightarrow> os_world" where
  "force_kill env pid grace w =
     (let w = w\<lparr>ow_signals := ow_signals w @ [SigKill pid]\<rparr>
      in if oe_kill_ok env pid then process_gone pid grace w else w\<lparr>ow_clock := ow_clock w + grace\<rparr>)"

definition stop_child_with_grace :: "os_env \<Rightarrow> nat \<Rightarrow> nat \<Rightarrow> os_world \<Rightarrow> os_world" where
  "stop_child_with_grace env pid grace w0 =
     (let w = send_terminate_signal pid w0
      in case oe_answer env pid of
           ExitsAfter ms \<Rightarrow> if ms \<le> grace then process_gone pid ms w else force_kill env pid grace w
         | WaitFails \<Rightarrow> w
         | IgnoresTerm \<Rightarrow> force_kill env pid grace w)"

text \<open>Joining a forwarder takes no longer than its timeout.\<close>

definition wait_forwarder :: "os_env \<Rightarrow> bool \<Rightarrow> nat \<Rightarrow> os_world \<Rightarrow> os_world" where
  "wait_forwarder env present pid w =
     (if present then w\<lparr>ow_clock := ow_clock w + min (oe_drain env pid) FORWARDER_DRAIN_TIMEOUT\<rparr> else w)"

section \<open>The backend\<close>

definition command_of :: "os_env \<Rightarrow> oop_module_config \<Rightarrow> string \<Rightarrow> os_command" where
  "command_of env cfg binary =
     \<lparr>cm_binary = binary, cm_args = oc_args cfg, cm_env = oc_env cfg,
      cm_current_dir = (case oc_working_directory cfg of Some d \<Rightarrow> if oe_is_dir env d then Some d else None | None \<Rightarrow> None)\<rparr>"

definition started :: "nat \<Rightarrow> os_command \<Rightarrow> os_world \<Rightarrow> os_world" where
  "started pid cmd w = w\<lparr>ow_running := pid # ow_running w, ow_commands := (pid, cmd) # ow_commands w\<rparr>"

text \<open>\<open>fresh\<close> is the new instance id; both pipes of a child that was just spawned are there to be forwarded.\<close>

definition spawn_instance ::
    "os_env \<Rightarrow> nat \<Rightarrow> oop_module_config \<Rightarrow> backend_state \<Rightarrow> (instance_handle, string) result \<times> backend_state" where
  "spawn_instance env fresh cfg b =
     (if oc_backend cfg \<noteq> LocalProcess then (Err ''LocalProcessBackend can only spawn LocalProcess instances'', b)
      else
        (case oc_binary cfg of
           None \<Rightarrow> (Err ''executable_path must be set for LocalProcess backend'', b)
         | Some binary \<Rightarrow>
             (case oe_spawn env (command_of env cfg binary) of
                Err e \<Rightarrow> (Err (''failed to spawn process: '' @ binary), b)
              | Ok pid \<Rightarrow>
                  let h = \<lparr>ih_module = oc_name cfg, ih_instance_id = fresh, ih_backend = LocalProcess, ih_pid = Some pid,
                      ih_created_at = ow_clock (lb_os b)\<rparr>;
                      i = \<lparr>li_handle = h, li_child = pid, li_stdout_forwarder = True, li_stderr_forwarder = True\<rparr>
                  in (Ok h, b\<lparr>lb_instances := AList.update fresh i (lb_instances b),
                       lb_os := started pid (command_of env cfg binary) (lb_os b)\<rparr>))))"

definition stop_instance :: "os_env \<Rightarrow> instance_handle \<Rightarrow> backend_state \<Rightarrow> (unit, string) result \<times> backend_state" where
  "stop_instance env h b =
     (case map_of (lb_instances b) (ih_instance_id h) of
        None \<Rightarrow> (Ok (), b)
      | Some i \<Rightarrow>
          (Ok (), b\<lparr>lb_instances := AList.delete (ih_instance_id h) (lb_instances b),
             lb_os := stop_child_with_grace env (li_child i) INSTANCE_STOP_GRACE_PERIOD (lb_os b)\<rparr>))"

definition list_instances :: "string \<Rightarrow> backend_state \<Rightarrow> instance_handle list" where
  "list_instances module b = map li_handle (filter (\<lambda>i. ih_module (li_handle i) = module) (map snd (lb_instances b)))"

definition wait_forwarders :: "os_env \<Rightarrow> local_instance \<Rightarrow> os_world \<Rightarrow> os_world" where
  "wait_forwarders env i w =
     wait_forwarder env (li_stderr_forwarder i) (li_child i) (wait_forwarder env (li_stdout_forwarder i) (li_child i) w)"

definition stop_all :: "os_env \<Rightarrow> local_instance list \<Rightarrow> os_world \<Rightarrow> os_world" where
  "stop_all env is w =
     fold (wait_forwarders env) is (fold (\<lambda>i. stop_child_with_grace env (li_child i) SHUTDOWN_GRACE_PERIOD) is w)"

definition shutdown_all_instances :: "os_env \<Rightarrow> backend_state \<Rightarrow> backend_state" where
  "shutdown_all_instances env b =
     (let all = map snd (lb_instances b)
      in b\<lparr>lb_instances := [], lb_os := (if all = [] then lb_os b else stop_all env all (lb_os b))\<rparr>)"

text \<open>The task that \<open>new\<close> spawns waits for the cancellation, runs the shutdown once and is over.\<close>

definition on_cancel :: "os_env \<Rightarrow> backend_state \<Rightarrow> backend_state" where
  "on_cancel env b = (if lb_drained b then b else (shutdown_all_instances env b)\<lparr>lb_drained := True\<rparr>)"

section \<open>The host's view\<close>

record oop_spawn_config =
  oz_module_name :: string
  oz_binary :: string
  oz_args :: "string list"
  oz_env :: "(string \<times> string) list"
  oz_working_directory :: "string option"

definition oop_backend_spawn ::
    "os_env \<Rightarrow> nat \<Rightarrow> oop_spawn_config \<Rightarrow> backend_state \<Rightarrow> (unit, string) result \<times> backend_state" where
  "oop_backend_spawn env fresh c b =
     (case spawn_instance env fresh ((oop_module_config_new (oz_module_name c) LocalProcess)
             \<lparr>oc_binary := Some (oz_binary c), oc_args := oz_args c, oc_env := oz_env c,
              oc_working_directory := oz_working_directory c\<rparr>) b of
        (Ok _, b) \<Rightarrow> (Ok (), b)
      | (Err e, b) \<Rightarrow> (Err e, b))"

definition oop_backend_shutdown_all :: "backend_state \<Rightarrow> backend_state" where
  "oop_backend_shutdown_all b = b"

section \<open>Forwarding the output\<close>

datatype log_level = ERROR | WARN | INFO | DEBUG | TRACE

text \<open>The branches of the two detections: the plain one knows a level in upper or lower case.\<close>

definition level_of_name :: "string \<Rightarrow> log_level option" where
  "level_of_name s =
     (if s = ''error'' then Some ERROR else if s = ''warn'' then Some WARN else if s = ''info'' then Some INFO
      else if s = ''debug'' then Some DEBUG else if s = ''trace'' then Some TRACE else None)"

fun upper_name :: "log_level \<Rightarrow> string" where
  "upper_name ERROR = ''ERROR''"
| "upper_name WARN = ''WARN''"
| "upper_name INFO = ''INFO''"
| "upper_name DEBUG = ''DEBUG''"
| "upper_name TRACE = ''TRACE''"

definition detect_plain_level :: "string \<Rightarrow> log_level option" where
  "detect_plain_level line =
     (case split_whitespace line of
        _ # l # _ \<Rightarrow> (case find (\<lambda>v. upper_name v = l) [ERROR, WARN, INFO, DEBUG, TRACE] of Some v \<Rightarrow> Some v | None \<Rightarrow> level_of_name l)
      | _ \<Rightarrow> None)"

definition has_level_key :: "string \<Rightarrow> bool" where
  "has_level_key s = (\<exists>i \<in> set [0..<length s]. starts_with (CHR 0x22 # ''level'' @ [CHR 0x22]) (drop i s))"

text \<open>\<open>parse\<close> is \<open>serde_json\<close>.\<close>

definition detect_json_level :: "(string \<Rightarrow> json option) \<Rightarrow> string \<Rightarrow> log_level option" where
  "detect_json_level parse line =
     (let t = trim_start line
      in if \<not> starts_with ''{'' t \<or> \<not> has_level_key t then None
         else
           Option.bind (parse t) (\<lambda>v. Option.bind (jget ''level'' v) (\<lambda>l. Option.bind (as_str l) (\<lambda>s.
             level_of_name (to_ascii_lowercase s)))))"

definition detect_log_level :: "(string \<Rightarrow> json option) \<Rightarrow> string \<Rightarrow> log_level" where
  "detect_log_level parse line =
     (case detect_json_level parse line of
        Some v \<Rightarrow> v
      | None \<Rightarrow> (case detect_plain_level line of Some v \<Rightarrow> v | None \<Rightarrow> INFO))"

record forwarded_line =
  fl_module :: string
  fl_instance_id :: nat
  fl_level :: log_level
  fl_line :: string

definition forward_line :: "(string \<Rightarrow> json option) \<Rightarrow> string \<Rightarrow> nat \<Rightarrow> string \<Rightarrow> forwarded_line" where
  "forward_line parse module iid line =
     \<lparr>fl_module = module, fl_instance_id = iid, fl_level = detect_log_level parse line, fl_line = line\<rparr>"

text \<open>The rounds of the loop: in each, whether the token is cancelled, which the \<open>select\<close> looks at first, and what the
  stream yields. The list ends where the child has not written more.\<close>

fun stream_forwarder ::
    "(string \<Rightarrow> json option) \<Rightarrow> string \<Rightarrow> nat \<Rightarrow> (bool \<times> (string option, string) result) list \<Rightarrow> forwarded_line list" where
  "stream_forwarder parse module iid [] = []"
| "stream_forwarder parse module iid ((cancelled, r) # rs) =
     (if cancelled then []
      else
        (case r of
           Ok (Some line) \<Rightarrow> forward_line parse module iid line # stream_forwarder parse module iid rs
         | Ok None \<Rightarrow> []
         | Err _ \<Rightarrow> []))"

section \<open>Steps of the backend\<close>

definition new_backend :: "os_world \<Rightarrow> backend_state" where
  "new_backend w = \<lparr>lb_instances = [], lb_drained = False, lb_os = w\<lparr>ow_running := []\<rparr>\<rparr>"

text \<open>Instance ids are fresh. A spawn is one step: the window between the start of a child and its insertion, in which a
  shutdown would miss it, is not modelled.\<close>

inductive backend_step :: "os_env \<Rightarrow> backend_state \<Rightarrow> backend_state \<Rightarrow> bool" for env where
  spawned: "fresh \<notin> set (map fst (lb_instances b)) \<Longrightarrow> spawn_instance env' fresh cfg b = (r, b') \<Longrightarrow> backend_step env b b'"
| stopped: "stop_instance env h b = (r, b') \<Longrightarrow> backend_step env b b'"
| cancelled: "backend_step env b (on_cancel env b)"
| host_shutdown: "backend_step env b (oop_backend_shutdown_all b)"

section \<open>Lemmas\<close>

text \<open>Waiting for children and killing them works.\<close>

definition stops_work :: "os_env \<Rightarrow> bool" where
  "stops_work env \<longleftrightarrow> (\<forall>pid. oe_answer env pid \<noteq> WaitFails \<and> oe_kill_ok env pid)"

lemma stop_child_running:
  "stops_work env \<Longrightarrow> set (ow_running (stop_child_with_grace env pid grace w)) = set (ow_running w) - {pid}"
  by (auto simp: stop_child_with_grace_def stops_work_def force_kill_def process_gone_def send_terminate_signal_def Let_def
      split: child_answer.split)

lemma wait_forwarders_running [simp]:
  "ow_running (wait_forwarders env i w) = ow_running w" "ow_running (fold (wait_forwarders env) is w) = ow_running w"
proof -
  show w: "ow_running (wait_forwarders env i w) = ow_running w" for i w
    by (simp add: wait_forwarders_def wait_forwarder_def)
  show "ow_running (fold (wait_forwarders env) is w) = ow_running w"
    by (induction "is" arbitrary: w) (simp_all add: w)
qed

lemma stop_children_running:
  "stops_work env \<Longrightarrow> set (ow_running (fold (\<lambda>i. stop_child_with_grace env (li_child i) g) is w)) = set (ow_running w) - li_child ` set is"
  by (induction "is" arbitrary: w) (auto simp: stop_child_running)

lemma stop_child_clock: "ow_clock (stop_child_with_grace env pid grace w) \<le> ow_clock w + grace"
  by (auto simp: stop_child_with_grace_def force_kill_def process_gone_def send_terminate_signal_def Let_def split: child_answer.split)

lemma stop_children_clock:
  "ow_clock (fold (\<lambda>i. stop_child_with_grace env (li_child i) g) is w) \<le> ow_clock w + length is * g"
proof (induction "is" arbitrary: w)
  case (Cons i "is")
  show ?case using Cons.IH[of "stop_child_with_grace env (li_child i) g w"] stop_child_clock[of env "li_child i" g w] by simp
qed simp

lemma forwarders_clock:
  "ow_clock w \<le> ow_clock (fold (wait_forwarders env) is w) \<and>
   ow_clock (fold (wait_forwarders env) is w) \<le> ow_clock w + length is * (2 * FORWARDER_DRAIN_TIMEOUT)"
proof (induction "is" arbitrary: w)
  case (Cons i "is")
  have "ow_clock w \<le> ow_clock (wait_forwarders env i w)" "ow_clock (wait_forwarders env i w) \<le> ow_clock w + 2 * FORWARDER_DRAIN_TIMEOUT"
    by (auto simp: wait_forwarders_def wait_forwarder_def min_def)
  with Cons.IH[of "wait_forwarders env i w"] show ?case by simp
qed simp

text \<open>Every running process belongs to an instance, and instance ids are unique.\<close>

definition tracked :: "backend_state \<Rightarrow> bool" where
  "tracked b \<longleftrightarrow> distinct (map fst (lb_instances b)) \<and> set (ow_running (lb_os b)) \<subseteq> (li_child \<circ> snd) ` set (lb_instances b)"

lemma on_cancel_running:
  assumes "stops_work env" "tracked b" "\<not> lb_drained b"
  shows "ow_running (lb_os (on_cancel env b)) = []"
proof -
  have "set (ow_running (lb_os (on_cancel env b))) = set (ow_running (lb_os b)) - li_child ` snd ` set (lb_instances b)"
    using assms(1,3) by (cases "lb_instances b")
      (simp_all add: on_cancel_def shutdown_all_instances_def stop_all_def stop_children_running stop_child_running Let_def
        Diff_insert2[symmetric] set_diff_eq Collect_conj_eq)
  also have "\<dots> = {}" using assms(2) by (auto simp: tracked_def image_image comp_def)
  finally show ?thesis by simp
qed

lemma set_update_fresh: "k \<notin> fst ` set xs \<Longrightarrow> set (AList.update k v xs) = insert (k, v) (set xs)"
  by (induction xs) auto

lemma tracked_step:
  assumes "backend_step env b b'" "stops_work env" "tracked b"
  shows "tracked b'"
  using assms
proof (induction rule: backend_step.induct)
  case (spawned fresh b env' cfg r b')
  then show ?case
    by (auto simp: spawn_instance_def tracked_def started_def distinct_update set_update_fresh Let_def
        split: if_splits option.splits result.splits)
next
  case (stopped h b r b')
  show ?case
  proof (cases "map_of (lb_instances b) (ih_instance_id h)")
    case (Some i)
    let ?xs = "AList.delete (ih_instance_id h) (lb_instances b)"
    have b': "lb_instances b' = ?xs" "lb_os b' = stop_child_with_grace env (li_child i) INSTANCE_STOP_GRACE_PERIOD (lb_os b)"
      using stopped Some by (auto simp: stop_instance_def)
    have d: "distinct (map fst (lb_instances b))" using stopped by (simp add: tracked_def)
    have "p \<in> (li_child \<circ> snd) ` set ?xs" if "p \<in> set (ow_running (lb_os b))" "p \<noteq> li_child i" for p
    proof -
      from that(1) stopped(3) obtain k j where kj: "(k, j) \<in> set (lb_instances b)" "p = li_child j" by (force simp: tracked_def)
      with that(2) Some d have "k \<noteq> ih_instance_id h" by (metis map_of_is_SomeI option.inject)
      with kj show ?thesis by (force simp: AList.delete_eq)
    qed
    then show ?thesis using d stopped(2) unfolding tracked_def b'
      by (auto simp: stop_child_running distinct_delete)
  qed (use stopped in \<open>simp add: stop_instance_def\<close>)
next
  case (cancelled b)
  show ?case
  proof (cases "lb_drained b")
    case False
    with on_cancel_running[OF cancelled(1,2)] have "ow_running (lb_os (on_cancel env b)) = []" .
    then show ?thesis using False by (simp add: tracked_def on_cancel_def shutdown_all_instances_def Let_def)
  qed (use cancelled in \<open>simp add: on_cancel_def\<close>)
qed (simp add: oop_backend_shutdown_all_def)

lemma tracked_reachable:
  assumes "(backend_step env)\<^sup>*\<^sup>* (new_backend w) b" "stops_work env"
  shows "tracked b"
  using assms(1)
proof (induction rule: rtranclp_induct)
  case base
  show ?case by (simp add: tracked_def new_backend_def)
next
  case (step b b')
  with tracked_step assms(2) show ?case by blast
qed

text \<open>Tokens of a line.\<close>

lemma split_ws_token:
  "\<forall>c \<in> set t. \<not> is_whitespace c \<Longrightarrow> split_ws_acc acc (t @ s) = split_ws_acc (acc @ t) s"
  by (induction t arbitrary: acc) auto

lemma split_ws_spaces: "\<forall>c \<in> set ws. is_whitespace c \<Longrightarrow> split_ws_acc [] (ws @ s) = split_ws_acc [] s"
  by (induction ws) auto

lemma split_ws_first:
  "t \<noteq> [] \<Longrightarrow> \<forall>c \<in> set t. \<not> is_whitespace c \<Longrightarrow> is_whitespace c \<Longrightarrow>
   split_whitespace (t @ c # s) = t # split_ws_acc [] s"
  by (simp add: split_whitespace_def split_ws_token[of t "[]", simplified])

lemma level_name_plain: "upper_name v \<noteq> [] \<and> (\<forall>c \<in> set (upper_name v). \<not> is_whitespace c)"
  by (cases v) (auto simp: is_whitespace_def)

section \<open>Properties\<close>

text \<open>C34. When the token of a backend is cancelled, no child of it is left running, whatever was spawned and stopped before.\<close>

theorem cancellation_stops_every_child:
  assumes "(backend_step env)\<^sup>*\<^sup>* (new_backend w) b" "stops_work env" "\<not> lb_drained b"
  shows "ow_running (lb_os (on_cancel env b)) = []"
  using on_cancel_running tracked_reachable assms by blast

text \<open>The children are stopped one after the other: the shutdown takes at most five seconds and the drain of the output for each,
  and the five seconds for each when none of them obeys.\<close>

theorem shutdown_time:
  "ow_clock (lb_os (on_cancel env b)) \<le>
     ow_clock (lb_os b) + length (lb_instances b) * (SHUTDOWN_GRACE_PERIOD + 2 * FORWARDER_DRAIN_TIMEOUT) \<and>
   (\<not> lb_drained b \<longrightarrow> list_all (\<lambda>e. oe_answer env (li_child (snd e)) = IgnoresTerm) (lb_instances b) \<longrightarrow>
    ow_clock (lb_os b) + length (lb_instances b) * SHUTDOWN_GRACE_PERIOD \<le> ow_clock (lb_os (on_cancel env b)))"
proof -
  let ?is = "map snd (lb_instances b)"
  let ?w = "fold (\<lambda>i. stop_child_with_grace env (li_child i) SHUTDOWN_GRACE_PERIOD) ?is (lb_os b)"
  have u: "ow_clock (stop_all env ?is (lb_os b)) \<le> ow_clock (lb_os b) + length ?is * (SHUTDOWN_GRACE_PERIOD + 2 * FORWARDER_DRAIN_TIMEOUT)"
    using forwarders_clock[of ?w env ?is] stop_children_clock[of env SHUTDOWN_GRACE_PERIOD ?is "lb_os b"]
    unfolding stop_all_def by (simp add: add_mult_distrib2)
  have "ow_clock (fold (\<lambda>i. stop_child_with_grace env (li_child i) g) is w) = ow_clock w + length is * g"
    if "list_all (\<lambda>i. oe_answer env (li_child i) = IgnoresTerm) is" for "is" w g
    using that
  proof (induction "is" arbitrary: w)
    case (Cons i "is")
    then have "ow_clock (stop_child_with_grace env (li_child i) g w) = ow_clock w + g"
      by (simp add: stop_child_with_grace_def force_kill_def process_gone_def send_terminate_signal_def Let_def)
    with Cons show ?case by simp
  qed simp
  from this[of ?is] forwarders_clock[of ?w env ?is]
  have l: "list_all (\<lambda>i. oe_answer env (li_child i) = IgnoresTerm) ?is \<Longrightarrow>
      ow_clock (lb_os b) + length ?is * SHUTDOWN_GRACE_PERIOD \<le> ow_clock (stop_all env ?is (lb_os b))"
    unfolding stop_all_def by simp
  show ?thesis using u l
    by (auto simp: on_cancel_def shutdown_all_instances_def Let_def list.pred_map comp_def case_prod_beta)
qed

text \<open>A forwarder stops at the cancellation: what a child writes after it, while it shuts down, is not forwarded.\<close>

theorem output_after_cancellation_is_lost:
  "stream_forwarder parse module iid (rs @ (True, r) # rs') = stream_forwarder parse module iid rs"
  by (induction rs rule: stream_forwarder.induct) (auto split: result.split option.split)

text \<open>A line in the format of the tracing subscriber is forwarded with its level and unchanged.\<close>

theorem tracing_line_keeps_its_level:
  assumes "timestamp \<noteq> []" "hd timestamp \<noteq> CHR ''{''" "list_all (\<lambda>c. \<not> is_whitespace c) timestamp"
    and "list_all is_whitespace padding"
  shows "forward_line parse module iid (timestamp @ '' '' @ padding @ upper_name level @ '' '' @ msg) =
    \<lparr>fl_module = module, fl_instance_id = iid, fl_level = level,
     fl_line = timestamp @ '' '' @ padding @ upper_name level @ '' '' @ msg\<rparr>"
proof -
  let ?line = "timestamp @ '' '' @ padding @ upper_name level @ '' '' @ msg"
  have t: "\<forall>c \<in> set timestamp. \<not> is_whitespace c" "\<forall>c \<in> set padding. is_whitespace c" using assms(3,4) by (simp_all add: list_all_iff)
  have sp: "is_whitespace (CHR '' '')" by (simp add: is_whitespace_def)
  have "trim_start ?line = ?line" using assms(1) t(1) by (cases timestamp) (simp_all add: trim_start_def)
  then have "detect_json_level parse ?line = None"
    using assms(1,2) by (cases timestamp) (auto simp: detect_json_level_def starts_with_def)
  moreover have "split_whitespace ?line = timestamp # upper_name level # split_ws_acc [] msg"
    using split_ws_first[OF assms(1) t(1) sp, of "padding @ upper_name level @ '' '' @ msg"] split_ws_spaces[OF t(2)]
      split_ws_first[OF _ _ sp, of "upper_name level" msg] level_name_plain[of level] by (simp add: split_whitespace_def)
  then have "detect_plain_level ?line = Some level" by (cases level) (simp_all add: detect_plain_level_def)
  ultimately show ?thesis by (simp add: forward_line_def detect_log_level_def)
qed

section \<open>Witnesses\<close>

definition quiet_os :: os_world where
  "quiet_os = \<lparr>ow_running = [], ow_commands = [], ow_signals = [], ow_clock = 0\<rparr>"

definition stubborn :: os_env where
  "stubborn = \<lparr>oe_spawn = (\<lambda>_. Ok 42), oe_is_dir = (\<lambda>_. True), oe_answer = (\<lambda>_. IgnoresTerm), oe_kill_ok = (\<lambda>_. True),
     oe_drain = (\<lambda>_. 0)\<rparr>"

definition sleeper :: oop_module_config where
  "sleeper = (oop_module_config_new ''calc'' LocalProcess)\<lparr>oc_binary := Some ''/bin/sleep''\<rparr>"

definition sleeping :: "backend_state \<Rightarrow> backend_state" where
  "sleeping b = snd (spawn_instance stubborn 1 sleeper b)"

lemma spawn_sleeper:
  "spawn_instance stubborn 1 sleeper b =
     (Ok \<lparr>ih_module = ''calc'', ih_instance_id = 1, ih_backend = LocalProcess, ih_pid = Some 42, ih_created_at = ow_clock (lb_os b)\<rparr>,
      sleeping b)"
  by (simp add: sleeping_def spawn_instance_def sleeper_def oop_module_config_new_def stubborn_def Let_def)

lemma stubborn_works: "stops_work stubborn"
  by (simp add: stops_work_def stubborn_def)

theorem cancellation_stops_every_child_witness:
  "ow_running (lb_os (sleeping (new_backend quiet_os))) = [42] \<and>
   ow_running (lb_os (on_cancel stubborn (sleeping (new_backend quiet_os)))) = []"
proof -
  have "backend_step stubborn (new_backend quiet_os) (sleeping (new_backend quiet_os))"
    by (rule backend_step.spawned[OF _ spawn_sleeper]) (simp add: new_backend_def)
  then have r: "(backend_step stubborn)\<^sup>*\<^sup>* (new_backend quiet_os) (sleeping (new_backend quiet_os))" by blast
  have "\<not> lb_drained (sleeping (new_backend quiet_os))" "ow_running (lb_os (sleeping (new_backend quiet_os))) = [42]"
    by (simp_all add: sleeping_def spawn_instance_def sleeper_def oop_module_config_new_def stubborn_def new_backend_def quiet_os_def
      started_def Let_def)
  with cancellation_stops_every_child[OF r stubborn_works] show ?thesis by simp
qed

theorem shutdown_time_witness: "5000 \<le> ow_clock (lb_os (on_cancel stubborn (sleeping (new_backend quiet_os))))"
  using shutdown_time[of stubborn "sleeping (new_backend quiet_os)"]
  by (simp add: sleeping_def spawn_instance_def sleeper_def oop_module_config_new_def stubborn_def new_backend_def quiet_os_def
    started_def SHUTDOWN_GRACE_PERIOD_def Let_def)

theorem tracing_line_keeps_its_level_witness:
  "fl_level (forward_line (\<lambda>_. None) ''calc'' 1 (''12:00'' @ '' '' @ '' '' @ upper_name WARN @ '' '' @ ''calc: low'')) = WARN"
  by (subst tracing_line_keeps_its_level) (simp_all add: is_whitespace_def)

end
