(* ===== verification/Module_Ctx.thy ===== *)
theory Module_Ctx
  imports Directory Host_Runtime App_Config
begin

text \<open>
  What a module sees of its host: the client hub (\<open>libs/modkit/src/client_hub.rs\<close>), the loaders of its
  configuration (\<open>config.rs\<close>), its context (\<open>context.rs\<close>), how the runner puts them together
  (\<open>runtime/runner.rs\<close>, \<open>HostRuntime::new\<close>), and the module orchestrator
  (\<open>modules/module_orchestrator/module_orchestrator/src/lib.rs\<close>), which publishes the directory through them.

  A Rust type is its name, which is what \<open>type_name\<close> returns, with the identity that \<open>Any\<close> compares: the documentation of
  \<open>type_name\<close> says that several types may have the same name. Deserialisation of a module's own configuration and the
  tree of cancellation tokens are parameters.
\<close>

section \<open>The client hub\<close>

record rust_type =
  ty_name :: string
  ty_id :: nat

type_synonym 'v client_hub = "(string \<times> rust_type \<times> 'v) list"

datatype hub_error = HubNotFound string | HubTypeMismatch string

definition hub_register :: "rust_type \<Rightarrow> 'v \<Rightarrow> 'v client_hub \<Rightarrow> 'v client_hub" where
  "hub_register t v hub = AList.update (ty_name t) (t, v) hub"

definition hub_get :: "rust_type \<Rightarrow> 'v client_hub \<Rightarrow> ('v, hub_error) result" where
  "hub_get t hub =
     (case map_of hub (ty_name t) of
        None \<Rightarrow> Err (HubNotFound (ty_name t))
      | Some (t', v) \<Rightarrow> if t' = t then Ok v else Err (HubTypeMismatch (ty_name t)))"

definition hub_remove :: "rust_type \<Rightarrow> 'v client_hub \<Rightarrow> 'v option \<times> 'v client_hub" where
  "hub_remove t hub =
     (case map_of hub (ty_name t) of
        None \<Rightarrow> (None, hub)
      | Some (t', v) \<Rightarrow> (if t' = t then Some v else None, AList.delete (ty_name t) hub))"

definition hub_clear :: "'v client_hub \<Rightarrow> 'v client_hub" where
  "hub_clear hub = []"

definition hub_len :: "'v client_hub \<Rightarrow> nat" where
  "hub_len hub = length hub"

definition hub_is_empty :: "'v client_hub \<Rightarrow> bool" where
  "hub_is_empty hub \<longleftrightarrow> hub = []"

datatype 'v hub_op = HubRegister rust_type 'v | HubRemove rust_type | HubClear

fun hub_apply :: "'v hub_op \<Rightarrow> 'v client_hub \<Rightarrow> 'v client_hub" where
  "hub_apply (HubRegister t v) hub = hub_register t v hub"
| "hub_apply (HubRemove t) hub = snd (hub_remove t hub)"
| "hub_apply HubClear hub = hub_clear hub"

definition hub_run :: "'v hub_op list \<Rightarrow> 'v client_hub" where
  "hub_run ops = fold hub_apply ops []"

text \<open>What the hub promises: a map from interface types to clients.\<close>

fun promised :: "'v hub_op \<Rightarrow> (rust_type \<Rightarrow> 'v option) \<Rightarrow> (rust_type \<Rightarrow> 'v option)" where
  "promised (HubRegister t v) m = m(t \<mapsto> v)"
| "promised (HubRemove t) m = m(t := None)"
| "promised HubClear m = (\<lambda>_. None)"

fun op_types :: "'v hub_op \<Rightarrow> rust_type list" where
  "op_types (HubRegister t _) = [t]"
| "op_types (HubRemove t) = [t]"
| "op_types HubClear = []"

definition distinct_names :: "rust_type set \<Rightarrow> bool" where
  "distinct_names ts \<longleftrightarrow> inj_on ty_name ts"

section \<open>Module configuration\<close>

datatype ctx_config_error =
    ModuleNotFound string
  | InvalidModuleStructure string
  | MissingConfigSection string
  | InvalidModuleConfig string string

type_synonym config_provider = "string \<Rightarrow> json option"

fun as_object :: "json \<Rightarrow> (string \<times> json) list option" where
  "as_object (JObject fs) = Some fs"
| "as_object _ = None"

definition module_config_or_default ::
    "(json \<Rightarrow> ('t, string) result) \<Rightarrow> 't \<Rightarrow> config_provider \<Rightarrow> string \<Rightarrow> ('t, ctx_config_error) result" where
  "module_config_or_default from_value dflt provider module =
     (case provider module of
        None \<Rightarrow> Ok dflt
      | Some module_raw \<Rightarrow>
          (case as_object module_raw of
             None \<Rightarrow> Ok dflt
           | Some obj \<Rightarrow>
               (case map_of obj ''config'' of
                  None \<Rightarrow> Ok dflt
                | Some config_section \<Rightarrow> map_err (InvalidModuleConfig module) (from_value config_section))))"

definition module_config_required ::
    "(json \<Rightarrow> ('t, string) result) \<Rightarrow> config_provider \<Rightarrow> string \<Rightarrow> ('t, ctx_config_error) result" where
  "module_config_required from_value provider module =
     and_then (ok_or (ModuleNotFound module) (provider module)) (\<lambda>module_raw.
     and_then (ok_or (InvalidModuleStructure module) (as_object module_raw)) (\<lambda>obj.
     and_then (ok_or (MissingConfigSection module) (map_of obj ''config'')) (\<lambda>config_section.
       map_err (InvalidModuleConfig module) (from_value config_section))))"

section \<open>Contexts\<close>

record ('v, 'tok) module_ctx =
  mx_module_name :: string
  mx_instance_id :: nat
  mx_config_provider :: config_provider
  mx_client_hub :: "'v client_hub"
  mx_token :: 'tok
  mx_db_handle :: "nat option"

record ('v, 'tok) ctx_builder =
  cb_instance_id :: nat
  cb_config_provider :: config_provider
  cb_client_hub :: "'v client_hub"
  cb_root_token :: 'tok
  cb_db_manager :: "db_manager option"

definition ctx_for_module ::
    "'w db_env \<Rightarrow> ('tok \<Rightarrow> 'w \<Rightarrow> 'tok \<times> 'w) \<Rightarrow> ('v, 'tok) ctx_builder \<Rightarrow> string \<Rightarrow> 'w \<Rightarrow>
     (('v, 'tok) module_ctx, db_error) result \<times> ('v, 'tok) ctx_builder \<times> 'w" where
  "ctx_for_module env child_token b module w =
     (let (db, b, w) =
            (case cb_db_manager b of
               Some mgr \<Rightarrow> (case manager_get env module mgr w of (r, mgr, w) \<Rightarrow> (r, b\<lparr>cb_db_manager := Some mgr\<rparr>, w))
             | None \<Rightarrow> (Ok None, b, w))
      in case db of
           Err e \<Rightarrow> (Err e, b, w)
         | Ok db_handle \<Rightarrow>
             (case child_token (cb_root_token b) w of
                (tok, w) \<Rightarrow>
                  (Ok \<lparr>mx_module_name = module, mx_instance_id = cb_instance_id b, mx_config_provider = cb_config_provider b,
                     mx_client_hub = cb_client_hub b, mx_token = tok, mx_db_handle = db_handle\<rparr>, b, w)))"

definition db_required :: "('v, 'tok) module_ctx \<Rightarrow> (nat, string) result" where
  "db_required ctx =
     ok_or (''Database is not configured for module '' @ quoted (mx_module_name ctx)) (mx_db_handle ctx)"

definition current_module :: "('v, 'tok) module_ctx \<Rightarrow> string option" where
  "current_module ctx = Some (mx_module_name ctx)"

definition ctx_config :: "(json \<Rightarrow> ('t, string) result) \<Rightarrow> 't \<Rightarrow> ('v, 'tok) module_ctx \<Rightarrow> ('t, ctx_config_error) result" where
  "ctx_config from_value dflt ctx = module_config_or_default from_value dflt (mx_config_provider ctx) (mx_module_name ctx)"

definition raw_config :: "('v, 'tok) module_ctx \<Rightarrow> json" where
  "raw_config ctx =
     (case mx_config_provider ctx (mx_module_name ctx) of
        Some module_raw \<Rightarrow>
          (case as_object module_raw of
             Some obj \<Rightarrow> (case map_of obj ''config'' of Some config_section \<Rightarrow> config_section | None \<Rightarrow> JObject [])
           | None \<Rightarrow> JObject [])
      | None \<Rightarrow> JObject [])"

definition with_db :: "nat \<Rightarrow> ('v, 'tok) module_ctx \<Rightarrow> ('v, 'tok) module_ctx" where
  "with_db db ctx = ctx\<lparr>mx_db_handle := Some db\<rparr>"

definition without_db :: "('v, 'tok) module_ctx \<Rightarrow> ('v, 'tok) module_ctx" where
  "without_db ctx = ctx\<lparr>mx_db_handle := None\<rparr>"

text \<open>The contexts that the phases of the host request, one after the other; the first error ends the run.\<close>

fun contexts_for ::
    "'w db_env \<Rightarrow> ('tok \<Rightarrow> 'w \<Rightarrow> 'tok \<times> 'w) \<Rightarrow> ('v, 'tok) ctx_builder \<Rightarrow> string list \<Rightarrow> 'w \<Rightarrow>
     (('v, 'tok) module_ctx list, db_error) result \<times> ('v, 'tok) ctx_builder \<times> 'w" where
  "contexts_for env child_token b [] w = (Ok [], b, w)"
| "contexts_for env child_token b (n # ns) w =
     (case ctx_for_module env child_token b n w of
        (Err e, b, w) \<Rightarrow> (Err e, b, w)
      | (Ok c, b, w) \<Rightarrow>
          (case contexts_for env child_token b ns w of
             (Err e, b, w) \<Rightarrow> (Err e, b, w)
           | (Ok cs, b, w) \<Rightarrow> (Ok (c # cs), b, w)))"

section \<open>The runner\<close>

datatype 'tok shutdown_options = ShutSignals | ShutToken 'tok | ShutFuture

datatype shutdown_step = AwaitSignal | AwaitCtrlC | AwaitFuture | CancelHost

text \<open>The task that waits for the shutdown; \<open>waited\<close> is what \<open>wait_for_shutdown\<close> returns.\<close>

fun shutdown_waiter :: "(unit, string) result \<Rightarrow> 'tok shutdown_options \<Rightarrow> shutdown_step list option" where
  "shutdown_waiter waited ShutSignals =
     Some (AwaitSignal # (case waited of Ok _ \<Rightarrow> [] | Err _ \<Rightarrow> [AwaitCtrlC]) @ [CancelHost])"
| "shutdown_waiter waited ShutFuture = Some [AwaitFuture, CancelHost]"
| "shutdown_waiter waited (ShutToken _) = None"

fun cancel_token :: "'tok \<Rightarrow> 'tok shutdown_options \<Rightarrow> 'tok" where
  "cancel_token fresh (ShutToken t) = t"
| "cancel_token fresh _ = fresh"

type_synonym 'v client_registration = "rust_type \<times> 'v"

definition apply_registrations :: "'v client_registration list \<Rightarrow> 'v client_hub \<Rightarrow> 'v client_hub" where
  "apply_registrations clients hub = fold (\<lambda>(t, v). hub_register t v) clients hub"

record ('v, 'tok) run_options =
  ro_modules_cfg :: config_provider
  ro_db :: db_options
  ro_shutdown :: "'tok shutdown_options"
  ro_clients :: "'v client_registration list"
  ro_instance_id :: nat
  ro_oop :: "oop_module list option"

record ('v, 'tok) host_runtime =
  hr_registry :: module_registry
  hr_ctx_builder :: "('v, 'tok) ctx_builder"
  hr_instance_id :: nat
  hr_module_manager :: module_manager
  hr_installers :: installer_store
  hr_client_hub :: "'v client_hub"
  hr_cancel :: 'tok
  hr_db_options :: db_options
  hr_oop_options :: "oop_module list option"

fun manager_of :: "db_options \<Rightarrow> db_manager option" where
  "manager_of (DbManaged mgr) = Some mgr"
| "manager_of DbNone = None"

definition new_host_runtime ::
    "module_registry \<Rightarrow> config_provider \<Rightarrow> db_options \<Rightarrow> 'v client_hub \<Rightarrow> 'tok \<Rightarrow> nat \<Rightarrow> oop_module list option \<Rightarrow>
     ('v, 'tok) host_runtime" where
  "new_host_runtime registry modules_cfg db hub cancel iid oop =
     \<lparr>hr_registry = registry,
      hr_ctx_builder = \<lparr>cb_instance_id = iid, cb_config_provider = modules_cfg, cb_client_hub = hub, cb_root_token = cancel,
        cb_db_manager = manager_of db\<rparr>,
      hr_instance_id = iid, hr_module_manager = new_manager, hr_installers = None, hr_client_hub = hub, hr_cancel = cancel,
      hr_db_options = db, hr_oop_options = oop\<rparr>"

text \<open>\<open>run\<close>: \<open>modules\<close> are the registrators of the process, \<open>env\<close> what the modules do on a host.\<close>

definition run_host ::
    "(('v, 'tok) host_runtime \<Rightarrow> host_env) \<Rightarrow> 'tok \<Rightarrow> (registry_builder \<Rightarrow> registry_builder) list \<Rightarrow> ('v, 'tok) run_options \<Rightarrow>
     (unit, registry_error) result option \<times> host_world" where
  "run_host env fresh modules opts =
     (case discover_and_build modules of
        None \<Rightarrow> (None, new_world)
      | Some (Err e) \<Rightarrow> (Some (Err e), new_world)
      | Some (Ok registry) \<Rightarrow>
          (let hub = apply_registrations (ro_clients opts) [];
               host = new_host_runtime registry (ro_modules_cfg opts) (ro_db opts) hub (cancel_token fresh (ro_shutdown opts))
                 (ro_instance_id opts) (ro_oop opts)
           in case run_module_phases (env host) (hr_registry host) (hr_oop_options host) new_world of
                (r, w) \<Rightarrow> (Some r, w)))"

section \<open>The module orchestrator\<close>

text \<open>The manager is shared, so that holding it is all the orchestrator's state says of it.\<close>

record 's orchestrator =
  mo_directory_api :: "'s directory_api option"
  mo_wired :: bool

definition new_orchestrator :: "'s orchestrator" where
  "new_orchestrator = \<lparr>mo_directory_api = None, mo_wired = False\<rparr>"

definition orch_wire_system :: "'s orchestrator \<Rightarrow> 's orchestrator" where
  "orch_wire_system o1 = o1\<lparr>mo_wired := True\<rparr>"


definition dyn_directory_api :: rust_type where
  "dyn_directory_api = \<lparr>ty_name = ''dyn module_orchestrator_contracts::api::DirectoryApi'', ty_id = 0\<rparr>"

definition orch_init ::
    "'s directory_api \<Rightarrow> 's orchestrator \<Rightarrow> 's directory_api client_hub \<Rightarrow>
     (unit, string) result \<times> 's orchestrator \<times> 's directory_api client_hub" where
  "orch_init local_api o1 hub =
     (if \<not> mo_wired o1 then (Err ''ModuleManager not wired into ModuleOrchestrator'', o1, hub)
      else (Ok (), o1\<lparr>mo_directory_api := Some local_api\<rparr>, hub_register dyn_directory_api local_api hub))"

text \<open>The services for the hub; their name comes from generated code and is a parameter.\<close>

definition orch_grpc_services :: "string \<Rightarrow> 's orchestrator \<Rightarrow> ((string \<times> 's directory_api) list, string) result" where
  "orch_grpc_services service_name o1 =
     and_then (ok_or ''DirectoryApi not initialized'' (mo_directory_api o1)) (\<lambda>api. Ok [(service_name, api)])"

section \<open>Stores with an interface\<close>

text \<open>What the clients of a keyed store rely on; \<open>apart\<close> says that two keys do not interfere.\<close>

locale keyed_store =
  fixes look :: "'s \<Rightarrow> 'k \<Rightarrow> 'v option"
    and put :: "'k \<Rightarrow> 'v \<Rightarrow> 's \<Rightarrow> 's"
    and drop_key :: "'k \<Rightarrow> 's \<Rightarrow> 's"
    and apart :: "'k \<Rightarrow> 'k \<Rightarrow> bool"
  assumes look_put: "look (put k v s) k = Some v"
    and look_put_apart: "apart k j \<Longrightarrow> look (put k v s) j = look s j"
    and look_drop: "look (drop_key k s) k = None"
    and look_drop_apart: "apart k j \<Longrightarrow> look (drop_key k s) j = look s j"
begin

lemma look_put_other: "j = k \<or> apart k j \<Longrightarrow> look (put k v s) j = (if j = k then Some v else look s j)"
  using look_put look_put_apart by auto

lemma look_drop_other: "j = k \<or> apart k j \<Longrightarrow> look (drop_key k s) j = (if j = k then None else look s j)"
  using look_drop look_drop_apart by auto

lemma last_put_wins:
  assumes "\<forall>(k, v) \<in> set kvs. k = j \<or> apart k j"
  shows "look (fold (\<lambda>(k, v). put k v) kvs s) j = (case map_of (rev kvs) j of Some v \<Rightarrow> Some v | None \<Rightarrow> look s j)"
  using assms
proof (induction kvs arbitrary: s)
  case (Cons p kvs)
  obtain k v where p: "p = (k, v)" by (cases p)
  with Cons have "look (fold (\<lambda>(k, v). put k v) kvs (put k v s)) j =
      (case map_of (rev kvs) j of Some v \<Rightarrow> Some v | None \<Rightarrow> look (put k v s) j)" by auto
  moreover have "look (put k v s) j = (if j = k then Some v else look s j)"
    using Cons.prems p by (intro look_put_other) auto
  ultimately show ?case by (auto simp: p map_add_def split: option.splits)
qed simp

end

definition hub_client :: "'v client_hub \<Rightarrow> rust_type \<Rightarrow> 'v option" where
  "hub_client hub t = (case hub_get t hub of Ok v \<Rightarrow> Some v | Err _ \<Rightarrow> None)"

interpretation hub_store: keyed_store hub_client hub_register "\<lambda>t hub. snd (hub_remove t hub)" "\<lambda>t t'. ty_name t \<noteq> ty_name t'"
  by unfold_locales
    (auto simp: hub_client_def hub_get_def hub_register_def hub_remove_def update_conv' delete_conv' split: option.splits)

section \<open>Lemmas\<close>

text \<open>Where types have names of their own, the hub is the map it promises to be.\<close>

definition clean :: "rust_type set \<Rightarrow> 'v client_hub \<Rightarrow> bool" where
  "clean ts hub \<longleftrightarrow> (\<forall>n t v. map_of hub n = Some (t, v) \<longrightarrow> t \<in> ts \<and> ty_name t = n)"

lemma clean_apply: "clean ts hub \<Longrightarrow> set (op_types op1) \<subseteq> ts \<Longrightarrow> clean ts (hub_apply op1 hub)"
  by (cases op1) (auto simp: clean_def hub_register_def hub_remove_def hub_clear_def update_conv' delete_conv'
      split: option.split if_splits)

lemma hub_client_empty: "hub_client [] t = None"
  by (simp add: hub_client_def hub_get_def)

lemma hub_client_apply:
  assumes "distinct_names ts" "set (op_types op1) \<subseteq> ts" "t \<in> ts" "hub_client hub = m"
  shows "hub_client (hub_apply op1 hub) t = promised op1 m t"
proof -
  have "ty_name k = ty_name t \<longleftrightarrow> k = t" if "k \<in> ts" for k
    using assms(1,3) that by (auto simp: distinct_names_def inj_on_def)
  with assms show ?thesis
    by (cases op1) (simp_all add: hub_client_empty hub_clear_def hub_store.look_put_other hub_store.look_drop_other)
qed

lemma promised_cong: "m t = m' t \<Longrightarrow> promised op1 m t = promised op1 m' t"
  by (cases op1) auto

lemma hub_client_fold:
  assumes "distinct_names ts" "\<forall>op1 \<in> set ops. set (op_types op1) \<subseteq> ts" "t \<in> ts"
  shows "hub_client (fold hub_apply ops hub) t = fold promised ops (hub_client hub) t"
  using assms(2)
proof (induction ops rule: rev_induct)
  case (snoc op1 ops)
  then have "hub_client (hub_apply op1 (fold hub_apply ops hub)) t = promised op1 (hub_client (fold hub_apply ops hub)) t"
    using hub_client_apply[OF assms(1) _ assms(3)] by auto
  also have "\<dots> = promised op1 (fold promised ops (hub_client hub)) t"
    using snoc by (intro promised_cong) auto
  finally show ?case by simp
qed simp

lemma clean_fold: "clean ts hub \<Longrightarrow> \<forall>op1 \<in> set ops. set (op_types op1) \<subseteq> ts \<Longrightarrow> clean ts (fold hub_apply ops hub)"
  by (induction ops arbitrary: hub) (auto simp: clean_apply)

lemma hub_get_clean:
  assumes "clean ts hub" "distinct_names ts" "t \<in> ts"
  shows "hub_get t hub = (case hub_client hub t of Some v \<Rightarrow> Ok v | None \<Rightarrow> Err (HubNotFound (ty_name t)))"
  using assms by (fastforce simp: hub_client_def hub_get_def clean_def distinct_names_def inj_on_def split: option.splits)

text \<open>What a call of the manager leaves.\<close>

definition cache_sound :: "'w db_env \<Rightarrow> db_manager \<Rightarrow> bool" where
  "cache_sound env mgr \<longleftrightarrow> (\<forall>m. map_of (dm_cache mgr) m \<noteq> None \<longrightarrow> module_db_config env mgr m \<noteq> None)"

lemma manager_get_Ok:
  assumes "manager_get env m mgr w = (Ok h, mgr', w')" "cache_sound env mgr"
  shows "map_of (dm_cache mgr') m = h" "map_of (dm_cache mgr) \<subseteq>\<^sub>m map_of (dm_cache mgr')" "cache_sound env mgr'"
    "module_db_config env mgr' = module_db_config env mgr" "h = None \<longleftrightarrow> module_db_config env mgr m = None"
proof -
  have d: "dm_data mgr' = dm_data mgr"
    using assms(1) by (auto simp: manager_get_def cache_entry_def split: option.splits prod.splits result.splits)
  then show c: "module_db_config env mgr' = module_db_config env mgr" by (simp add: module_db_config_def fun_eq_iff)
  show r: "h = None \<longleftrightarrow> module_db_config env mgr m = None"
    using assms by (auto simp: manager_get_def build_for_module_def cache_sound_def split: option.splits prod.splits result.splits)
  show "map_of (dm_cache mgr') m = h" "map_of (dm_cache mgr) \<subseteq>\<^sub>m map_of (dm_cache mgr')"
    using assms(1) by (auto simp: manager_get_def cache_entry_def map_le_def split: option.splits prod.splits result.splits)
  show "cache_sound env mgr'"
    using assms r unfolding cache_sound_def c
    by (auto simp: manager_get_def cache_entry_def split: option.splits prod.splits result.splits if_splits)
qed

text \<open>The handle of every later context is the one the builder ends with.\<close>

definition builder_handle :: "('v, 'tok) ctx_builder \<Rightarrow> string \<Rightarrow> nat option" where
  "builder_handle b m = (case cb_db_manager b of Some mgr \<Rightarrow> map_of (dm_cache mgr) m | None \<Rightarrow> None)"

definition has_database :: "'w db_env \<Rightarrow> ('v, 'tok) ctx_builder \<Rightarrow> string \<Rightarrow> bool" where
  "has_database env b m = (case cb_db_manager b of Some mgr \<Rightarrow> module_db_config env mgr m \<noteq> None | None \<Rightarrow> False)"

definition builder_sound :: "'w db_env \<Rightarrow> ('v, 'tok) ctx_builder \<Rightarrow> bool" where
  "builder_sound env b = (case cb_db_manager b of Some mgr \<Rightarrow> cache_sound env mgr | None \<Rightarrow> True)"

lemma ctx_for_module_Ok:
  assumes "ctx_for_module env child_token b n w = (Ok c, b', w')" "builder_sound env b"
  shows "builder_sound env b' \<and> has_database env b' = has_database env b \<and> mx_db_handle c = builder_handle b' n \<and>
      builder_handle b \<subseteq>\<^sub>m builder_handle b' \<and> (mx_db_handle c = None \<longleftrightarrow> \<not> has_database env b n) \<and> mx_module_name c = n"
proof (cases "cb_db_manager b")
  case None
  with assms show ?thesis
    by (auto simp: ctx_for_module_def builder_handle_def has_database_def split: prod.splits)
next
  case (Some mgr)
  obtain r mgr1 w1 where g: "manager_get env n mgr w = (r, mgr1, w1)" using prod_cases3 by blast
  from assms(1) g Some obtain h where r: "r = Ok h" by (cases r) (auto simp: ctx_for_module_def)
  have s: "cache_sound env mgr" using assms(2) Some by (simp add: builder_sound_def)
  have b: "cb_db_manager b' = Some mgr1" "mx_db_handle c = h" "mx_module_name c = n"
    using assms(1) g Some r by (auto simp: ctx_for_module_def split: prod.splits)
  from manager_get_Ok[OF g[unfolded r] s] b Some
  show ?thesis
    by (auto simp: builder_sound_def builder_handle_def has_database_def fun_eq_iff map_le_def)
qed

lemma contexts_for_Ok:
  assumes "contexts_for env child_token b ns w = (Ok cs, b', w')" "builder_sound env b"
  shows "builder_handle b \<subseteq>\<^sub>m builder_handle b' \<and> map mx_module_name cs = ns \<and>
    (\<forall>c \<in> set cs. (mx_db_handle c = None \<longleftrightarrow> \<not> has_database env b (mx_module_name c)) \<and>
       (mx_db_handle c \<noteq> None \<longrightarrow> mx_db_handle c = builder_handle b' (mx_module_name c)))"
  using assms
proof (induction ns arbitrary: b w cs)
  case (Cons n ns)
  obtain r b1 w1 where f: "ctx_for_module env child_token b n w = (r, b1, w1)" using prod_cases3 by blast
  with Cons.prems(1) obtain c where r: "r = Ok c" by (cases r) auto
  obtain cs1 where cs: "contexts_for env child_token b1 ns w1 = (Ok cs1, b', w')" "cs = c # cs1"
    using Cons.prems(1) f r by (auto split: prod.splits result.splits)
  have one: "builder_sound env b1" "has_database env b1 = has_database env b" "mx_db_handle c = builder_handle b1 n"
    "builder_handle b \<subseteq>\<^sub>m builder_handle b1" "mx_db_handle c = None \<longleftrightarrow> \<not> has_database env b n" "mx_module_name c = n"
    using ctx_for_module_Ok[OF f[unfolded r] Cons.prems(2)] by blast+
  from Cons.IH[OF cs(1) one(1), unfolded one(2)] have ih: "builder_handle b1 \<subseteq>\<^sub>m builder_handle b'" "map mx_module_name cs1 = ns"
    "\<forall>c \<in> set cs1. (mx_db_handle c = None \<longleftrightarrow> \<not> has_database env b (mx_module_name c)) \<and>
       (mx_db_handle c \<noteq> None \<longrightarrow> mx_db_handle c = builder_handle b' (mx_module_name c))"
    by blast+
  have "mx_db_handle c \<noteq> None \<longrightarrow> mx_db_handle c = builder_handle b' n"
    using ih(1) one(3) by (metis domIff map_le_def)
  moreover have "builder_handle b \<subseteq>\<^sub>m builder_handle b'" using one(4) ih(1) by (rule map_le_trans)
  ultimately show ?case using ih one cs by auto
qed simp

section \<open>Properties\<close>

text \<open>As long as no two of the types used have the same name, what the hub answers after any sequence of registrations,
  removals and clears is the last client registered for exactly this type.\<close>

theorem hub_keeps_its_promise:
  assumes "distinct_names ts" "\<forall>op1 \<in> set ops. set (op_types op1) \<subseteq> ts" "t \<in> ts"
  shows "hub_get t (hub_run ops) =
    (case fold promised ops (\<lambda>_. None) t of Some v \<Rightarrow> Ok v | None \<Rightarrow> Err (HubNotFound (ty_name t)))"
proof -
  have "clean ts (hub_run ops)" unfolding hub_run_def by (rule clean_fold[OF _ assms(2)]) (simp add: clean_def)
  moreover have "hub_client (hub_run ops) t = fold promised ops (\<lambda>_. None) t"
    unfolding hub_run_def hub_client_fold[OF assms] by (simp add: hub_client_empty[abs_def])
  ultimately show ?thesis using hub_get_clean assms(1,3) by fastforce
qed

text \<open>With two types of one name, removing the one destroys the client of the other without returning it, and
  registering the one makes the other's client unreachable.\<close>

theorem homonym_loses_the_client:
  assumes "t \<noteq> t'" "ty_name t = ty_name t'" "hub_get t hub = Ok v"
  shows "fst (hub_remove t' hub) = None \<and> hub_get t (snd (hub_remove t' hub)) = Err (HubNotFound (ty_name t)) \<and>
    hub_get t (hub_register t' v' hub) = Err (HubTypeMismatch (ty_name t)) \<and> hub_get t' (hub_register t' v' hub) = Ok v'"
  using assms by (auto simp: hub_get_def hub_remove_def hub_register_def update_conv' delete_conv' split: option.splits if_splits)

text \<open>The lenient loader differs from the strict one exactly by the default in place of the three errors of an absent or
  malformed section; a section that is present but invalid is an error for both. What it loads is the raw
  configuration of the context where the section is present.\<close>

theorem loaders_agree:
  "module_config_or_default from_value dflt provider module =
     (case module_config_required from_value provider module of
        Ok c \<Rightarrow> Ok c
      | Err (InvalidModuleConfig m e) \<Rightarrow> Err (InvalidModuleConfig m e)
      | Err _ \<Rightarrow> Ok dflt) \<and>
   (module_config_required from_value provider (mx_module_name ctx) = Ok c \<longrightarrow>
      mx_config_provider ctx = provider \<longrightarrow> from_value (raw_config ctx) = Ok c \<and> ctx_config from_value dflt ctx = Ok c)"
proof (intro conjI impI)
  show "module_config_or_default from_value dflt provider module =
     (case module_config_required from_value provider module of
        Ok c \<Rightarrow> Ok c
      | Err (InvalidModuleConfig m e) \<Rightarrow> Err (InvalidModuleConfig m e)
      | Err _ \<Rightarrow> Ok dflt)"
    by (cases "provider module"; cases "as_object (the (provider module))";
        cases "map_of (the (as_object (the (provider module)))) ''config''";
        cases "from_value (the (map_of (the (as_object (the (provider module)))) ''config''))")
      (auto simp: module_config_or_default_def module_config_required_def)
qed (auto simp: module_config_required_def raw_config_def ctx_config_def module_config_or_default_def
    split: option.splits elim!: ok_or.elims)

text \<open>Over all phases of a run a module sees one database handle, and it sees one exactly when its configuration has a
  database.\<close>

theorem contexts_share_handles:
  assumes "contexts_for env child_token b ns w = (Ok cs, b', w')"
    and "case cb_db_manager b of Some mgr \<Rightarrow> dm_cache mgr = [] | None \<Rightarrow> True"
  shows "map mx_module_name cs = ns \<and>
    (\<forall>c \<in> set cs. mx_db_handle c \<noteq> None \<longleftrightarrow> has_database env b (mx_module_name c)) \<and>
    (\<forall>c \<in> set cs. \<forall>c' \<in> set cs. mx_module_name c = mx_module_name c' \<longrightarrow> mx_db_handle c = mx_db_handle c')"
proof -
  have "builder_sound env b" using assms(2) by (auto simp: builder_sound_def cache_sound_def split: option.splits)
  from contexts_for_Ok[OF assms(1) this] show ?thesis by metis
qed

text \<open>A run with a registry that builds gives the modules a hub in which every pre-registered client is found, the
  last one of each type.\<close>

theorem clients_precede_the_phases:
  assumes "discover_and_build modules = Some (Ok registry)" "distinct_names (fst ` set (ro_clients opts) \<union> {t})"
  shows "\<exists>host. run_host env fresh modules opts =
      (case run_module_phases (env host) registry (ro_oop opts) new_world of (r, w) \<Rightarrow> (Some r, w)) \<and>
    hub_client (cb_client_hub (hr_ctx_builder host)) t = map_of (rev (ro_clients opts)) t \<and>
    hr_cancel host = cancel_token fresh (ro_shutdown opts) \<and> hr_module_manager host = new_manager"
proof -
  have "k = t \<or> ty_name k \<noteq> ty_name t" if "(k, v) \<in> set (ro_clients opts)" for k v
  proof -
    have "k \<in> fst ` set (ro_clients opts) \<union> {t}" using that by force
    with assms(2) show ?thesis unfolding distinct_names_def inj_on_def by blast
  qed
  then have "hub_client (apply_registrations (ro_clients opts) []) t = map_of (rev (ro_clients opts)) t"
    unfolding apply_registrations_def
    by (subst hub_store.last_put_wins) (auto simp: hub_client_empty split: option.split)
  then show ?thesis using assms(1) by (intro exI) (auto simp: run_host_def new_host_runtime_def Let_def)
qed

text \<open>The orchestrator publishes the directory only after it was wired; then every client of the hub finds the local
  implementation, even one that was registered before for another process's directory, its gRPC service answers
  from the same directory, and no other type is touched.\<close>

theorem orchestrator_publishes_its_directory:
  "orch_init api new_orchestrator hub = (Err ''ModuleManager not wired into ModuleOrchestrator'', new_orchestrator, hub) \<and>
   orch_grpc_services name (orch_wire_system new_orchestrator) = Err ''DirectoryApi not initialized'' \<and>
   (case orch_init api (orch_wire_system new_orchestrator) hub of
      (r, o1, hub') \<Rightarrow> r = Ok () \<and> hub_get dyn_directory_api hub' = Ok api \<and> orch_grpc_services name o1 = Ok [(name, api)] \<and>
        (\<forall>t. ty_name t \<noteq> ty_name dyn_directory_api \<longrightarrow> hub_client hub' t = hub_client hub t))"
proof -
  have "hub_client (hub_register dyn_directory_api api hub) t = hub_client hub t" if "ty_name t \<noteq> ty_name dyn_directory_api" for t
    using that by (metis hub_store.look_put_apart)
  moreover have "hub_get dyn_directory_api (hub_register dyn_directory_api api hub) = Ok api"
    by (simp add: hub_get_def hub_register_def update_conv')
  ultimately show ?thesis by (simp add: orch_init_def new_orchestrator_def orch_wire_system_def orch_grpc_services_def)
qed

section \<open>Witnesses\<close>

definition users_api :: rust_type where
  "users_api = \<lparr>ty_name = ''dyn Users'', ty_id = 1\<rparr>"

definition users_api_too :: rust_type where
  "users_api_too = \<lparr>ty_name = ''dyn Users'', ty_id = 2\<rparr>"

theorem hub_keeps_its_promise_witness:
  "hub_get users_api (hub_run [HubRegister users_api (1 :: nat), HubRegister dyn_directory_api 2, HubRegister users_api 3,
     HubRemove dyn_directory_api]) = Ok 3"
  using hub_keeps_its_promise[of "{users_api, dyn_directory_api}"
      "[HubRegister users_api (1 :: nat), HubRegister dyn_directory_api 2, HubRegister users_api 3, HubRemove dyn_directory_api]" users_api]
  by (simp add: distinct_names_def users_api_def dyn_directory_api_def)

theorem homonym_loses_the_client_witness:
  "fst (hub_remove users_api_too (hub_run [HubRegister users_api (1 :: nat)])) = None"
  using homonym_loses_the_client[of users_api users_api_too "hub_run [HubRegister users_api (1 :: nat)]" 1 2]
  by (simp add: users_api_def users_api_too_def hub_run_def hub_register_def hub_get_def)

definition file_builder :: "(nat, nat) ctx_builder" where
  "file_builder = \<lparr>cb_instance_id = 7, cb_config_provider = (\<lambda>_. None), cb_client_hub = [], cb_root_token = 0,
     cb_db_manager = Some file_manager\<rparr>"

theorem contexts_share_handles_witness:
  "map mx_db_handle (case contexts_for open_env (\<lambda>t w. (Suc t, w)) file_builder [''users'', ''none'', ''users''] [] of
     (Ok cs, _) \<Rightarrow> cs | _ \<Rightarrow> []) = [Some 2, None, Some 2] \<and> has_database open_env file_builder ''users''"
proof -
  let ?r = "contexts_for open_env (\<lambda>t w. (Suc t, w)) file_builder [''users'', ''none'', ''users''] []"
  have h: "(case ?r of (Ok cs, _, _) \<Rightarrow> map mx_db_handle cs | _ \<Rightarrow> []) = [Some 2, None, Some 2]" by code_simp
  then obtain cs b w where c: "?r = (Ok cs, b, w)" by (cases ?r) (auto split: result.splits)
  have "has_database open_env file_builder ''users''" by code_simp
  moreover from contexts_share_handles[OF c] have "map mx_module_name cs = [''users'', ''none'', ''users'']"
    by (simp add: file_builder_def file_manager_def from_figment_def Let_def)
  ultimately show ?thesis using c h by simp
qed

theorem loaders_agree_witness:
  "module_config_or_default (\<lambda>j. case j of JInt i \<Rightarrow> Ok i | _ \<Rightarrow> Err ''type'') 0 (\<lambda>_. Some (JObject [(''config'', JInt 5)])) ''m'' = Ok 5 \<and>
   ctx_config (\<lambda>j. case j of JInt i \<Rightarrow> Ok i | _ \<Rightarrow> Err ''type'') 0
     \<lparr>mx_module_name = ''m'', mx_instance_id = 1, mx_config_provider = (\<lambda>_. Some (JObject [(''config'', JInt 5)])),
      mx_client_hub = ([] :: nat client_hub), mx_token = (), mx_db_handle = None\<rparr> = Ok 5"
  using loaders_agree[of "\<lambda>j. case j of JInt i \<Rightarrow> Ok i | _ \<Rightarrow> Err ''type''" 0 "\<lambda>_. Some (JObject [(''config'', JInt 5)])" "''m''"
      "\<lparr>mx_module_name = ''m'', mx_instance_id = 1, mx_config_provider = (\<lambda>_. Some (JObject [(''config'', JInt 5)])),
      mx_client_hub = ([] :: nat client_hub), mx_token = (), mx_db_handle = None\<rparr>" 5]
  by (simp add: module_config_required_def)

definition demo_modules :: "(registry_builder \<Rightarrow> registry_builder) list" where
  "demo_modules = [\<lambda>b. register_core_with_meta b ''api'' [''db''] 1, \<lambda>b. register_core_with_meta b ''db'' [] 2]"

theorem clients_precede_the_phases_witness:
  "\<exists>host. hub_client (cb_client_hub (hr_ctx_builder (host :: (nat, nat) host_runtime))) users_api = Some 4 \<and> hr_cancel host = 9"
proof -
  have "case discover_and_build demo_modules of Some (Ok reg) \<Rightarrow> True | _ \<Rightarrow> False" by code_simp
  then obtain reg where r: "discover_and_build demo_modules = Some (Ok reg)" by (auto split: option.splits result.splits)
  let ?o = "\<lparr>ro_modules_cfg = \<lambda>_. None, ro_db = DbNone, ro_shutdown = ShutToken 9,
      ro_clients = [(users_api, 3), (dyn_directory_api, 1), (users_api, 4)], ro_instance_id = 1, ro_oop = None\<rparr> :: (nat, nat) run_options"
  have d: "distinct_names (fst ` set (ro_clients ?o) \<union> {users_api})"
    by (auto simp: distinct_names_def users_api_def dyn_directory_api_def)
  obtain host :: "(nat, nat) host_runtime" where
    "hub_client (cb_client_hub (hr_ctx_builder host)) users_api = map_of (rev (ro_clients ?o)) users_api"
    "hr_cancel host = cancel_token 5 (ro_shutdown ?o)"
    using clients_precede_the_phases[OF r d, where fresh = 5 and env = "\<lambda>_. undefined"] by blast
  then show ?thesis by (intro exI[of _ host]) (simp add: users_api_def dyn_directory_api_def)
qed

end
