(* ===== verification/Module_Macro.thy ===== *)
theory Module_Macro
  imports Module_Registry Lifecycle "HOL-Library.Multiset"
begin

text \<open>
  The attribute macros that declare modules, \<open>libs/modkit-macros/src\<close>: \<open>#[modkit::module(...)]\<close>, which
  checks its parameters and generates the registrator that feeds the registry, \<open>#[modkit::lifecycle(...)]\<close> and
  \<open>#[modkit::grpc_client(...)]\<close>.

  A macro reads syntax that \<open>syn\<close> has parsed: the datatypes \<open>mexpr\<close> and \<open>mmeta\<close> hold the forms that the code
  distinguishes. Errors are their messages, without the span. Generated code is modelled by what it does: the traits it
  asserts, the calls of its registrator, the lifecycle it wraps. The Jaro-Winkler similarity and the check
  of identifiers are parameters.
\<close>

section \<open>Syntax\<close>

datatype mexpr = EStr string | EBool bool | EPath "string list" | EArray "mexpr list" | EOther

text \<open>\<open>name\<close>, \<open>name = value\<close>, \<open>name(...)\<close>; the arguments of a list are absent where they do not parse.\<close>

datatype mmeta = MPath "string list" | MNameValue "string list" mexpr | MList "string list" "mmeta list option"

definition path_last_is :: "string list \<Rightarrow> string \<Rightarrow> bool" where
  "path_last_is p want \<longleftrightarrow> p \<noteq> [] \<and> last p = want"

section \<open>Capabilities\<close>

datatype capability = CapDb | CapRest | CapRestHost | CapStateful | CapSystem | CapGrpcHub | CapGrpc

definition valid_capabilities :: "string list" where
  "valid_capabilities = [''db'', ''rest'', ''rest_host'', ''stateful'', ''system'', ''grpc_hub'', ''grpc'']"

text \<open>\<open>score\<close> is the similarity of two words, \<open>bound\<close> the value 0.6; the sort is stable and descending.\<close>

definition suggest_similar :: "(string \<Rightarrow> string \<Rightarrow> 'f::linorder) \<Rightarrow> 'f \<Rightarrow> string \<Rightarrow> string list" where
  "suggest_similar score bound input =
     take 2 (map fst (rev (sort_key snd (rev
       (filter (\<lambda>(_, s). s > bound) (map (\<lambda>cap. (cap, score input cap)) valid_capabilities))))))"

definition unknown_capability :: "(string \<Rightarrow> string list) \<Rightarrow> string \<Rightarrow> string" where
  "unknown_capability suggest other =
     (let suggestions = suggest other
      in if suggestions = []
         then ''unknown capability '' @ quoted other @
           '', expected one of: db, rest, rest_host, stateful, system, grpc_hub, grpc''
         else ''unknown capability '' @ quoted other @ [CHR 0x0A] @ ''       = help: did you mean one of: '' @
           join '', '' suggestions @ ''?'')"

definition capability_from :: "(string \<Rightarrow> string list) \<Rightarrow> string \<Rightarrow> (capability, string) result" where
  "capability_from suggest input =
     (if input = ''db'' then Ok CapDb
      else if input = ''rest'' then Ok CapRest
      else if input = ''rest_host'' then Ok CapRestHost
      else if input = ''stateful'' then Ok CapStateful
      else if input = ''system'' then Ok CapSystem
      else if input = ''grpc_hub'' then Ok CapGrpcHub
      else if input = ''grpc'' then Ok CapGrpc
      else Err (unknown_capability suggest input))"

text \<open>\<open>from_str_lit\<close> repeats \<open>from_ident\<close>; the two differ in the span of the error only.\<close>

definition capability_from_str_lit :: "(string \<Rightarrow> string list) \<Rightarrow> string \<Rightarrow> (capability, string) result" where
  "capability_from_str_lit suggest input = capability_from suggest input"

section \<open>Parameters of module\<close>

record lc_module_cfg =
  lm_entry :: string
  lm_stop_timeout :: string
  lm_await_ready :: bool

definition default_lc :: lc_module_cfg where
  "default_lc = \<lparr>lm_entry = ''serve'', lm_stop_timeout = ''30s'', lm_await_ready = False\<rparr>"

record module_attrs =
  md_name :: string
  md_deps :: "string list"
  md_caps :: "capability list"
  md_ctor :: "mexpr option"
  md_client :: "string list option"
  md_lifecycle :: "lc_module_cfg option"

text \<open>The variables of the parser: the parameters seen and what they hold.\<close>

record parse_state =
  ps_seen_name :: bool
  ps_seen_deps :: bool
  ps_seen_caps :: bool
  ps_seen_ctor :: bool
  ps_seen_client :: bool
  ps_seen_lifecycle :: bool
  ps_name :: "string option"
  ps_deps :: "string list"
  ps_caps :: "capability list"
  ps_ctor :: "mexpr option"
  ps_client :: "string list option"
  ps_lifecycle :: "lc_module_cfg option"

definition parse_start :: parse_state where
  "parse_start = \<lparr>ps_seen_name = False, ps_seen_deps = False, ps_seen_caps = False, ps_seen_ctor = False,
     ps_seen_client = False, ps_seen_lifecycle = False, ps_name = None, ps_deps = [], ps_caps = [], ps_ctor = None,
     ps_client = None, ps_lifecycle = None\<rparr>"

definition lifecycle_arg :: "mmeta \<Rightarrow> lc_module_cfg \<Rightarrow> (lc_module_cfg, string) result" where
  "lifecycle_arg m cfg =
     (let unexpected = Err ''expected lifecycle args: entry=\"...\", stop_timeout=\"...\", await_ready[=true|false]''
      in case m of
           MNameValue p v \<Rightarrow>
             if p = [''entry''] then
               (case v of EStr s \<Rightarrow> Ok (cfg\<lparr>lm_entry := s\<rparr>)
                | _ \<Rightarrow> Err ''entry must be a string literal, e.g. entry = \"serve\"'')
             else if p = [''stop_timeout''] then
               (case v of EStr s \<Rightarrow> Ok (cfg\<lparr>lm_stop_timeout := s\<rparr>)
                | _ \<Rightarrow> Err ''stop_timeout must be a string literal like \"45s\"'')
             else if p = [''await_ready''] then
               (case v of EBool b \<Rightarrow> Ok (cfg\<lparr>lm_await_ready := b\<rparr>)
                | _ \<Rightarrow> Err ''await_ready must be a bool literal (true/false) or a bare flag'')
             else unexpected
         | MPath p \<Rightarrow> if p = [''await_ready''] then Ok (cfg\<lparr>lm_await_ready := True\<rparr>) else unexpected
         | MList _ _ \<Rightarrow> unexpected)"

fun fold_result :: "('a \<Rightarrow> 's \<Rightarrow> ('s, 'e) result) \<Rightarrow> 'a list \<Rightarrow> 's \<Rightarrow> ('s, 'e) result" where
  "fold_result f [] s = Ok s"
| "fold_result f (x # xs) s = (case f x s of Ok s \<Rightarrow> fold_result f xs s | Err e \<Rightarrow> Err e)"

definition parse_lifecycle_list :: "mmeta list option \<Rightarrow> (lc_module_cfg, string) result" where
  "parse_lifecycle_list args =
     (case args of None \<Rightarrow> Err ''syntax error'' | Some ms \<Rightarrow> fold_result lifecycle_arg ms default_lc)"

definition parse_deps :: "mexpr \<Rightarrow> (string list, string) result" where
  "parse_deps v =
     (case v of
        EArray es \<Rightarrow>
          collect (\<lambda>e. case e of EStr s \<Rightarrow> Ok s
            | _ \<Rightarrow> Err ''deps must be an array of string literals, e.g. deps = [\"db\", \"auth\"]'') es
      | _ \<Rightarrow> Err ''deps must be an array, e.g. deps = [\"db\", \"auth\"]'')"

definition parse_caps :: "(string \<Rightarrow> string list) \<Rightarrow> mexpr \<Rightarrow> (capability list, string) result" where
  "parse_caps suggest v =
     (case v of
        EArray es \<Rightarrow>
          collect (\<lambda>e. case e of
              EPath [i] \<Rightarrow> capability_from suggest i
            | EPath _ \<Rightarrow> Err ''capability must be a simple identifier (db, rest, rest_host, stateful)''
            | EStr s \<Rightarrow> capability_from_str_lit suggest s
            | _ \<Rightarrow> Err ''capability must be an identifier or string literal (\"db\", \"rest\", \"rest_host\", \"stateful\")'') es
      | _ \<Rightarrow> Err ''capabilities must be an array, e.g. capabilities = [db, rest]'')"

text \<open>One parameter; a repeated one is an error before its value is looked at.\<close>

definition parse_meta :: "(string \<Rightarrow> string list) \<Rightarrow> mmeta \<Rightarrow> parse_state \<Rightarrow> (parse_state, string) result" where
  "parse_meta suggest m s =
     (case m of
        MNameValue p v \<Rightarrow>
          if p = [''name''] then
            (if ps_seen_name s then Err ''duplicate `name` parameter''
             else case v of EStr x \<Rightarrow> Ok (s\<lparr>ps_seen_name := True, ps_name := Some x\<rparr>)
               | _ \<Rightarrow> Err ''name must be a string literal, e.g. name = \"my-module\"'')
          else if p = [''ctor''] then
            (if ps_seen_ctor s then Err ''duplicate `ctor` parameter''
             else case v of EStr _ \<Rightarrow> Err ''ctor must be a Rust expression, not a string literal.''
               | _ \<Rightarrow> Ok (s\<lparr>ps_seen_ctor := True, ps_ctor := Some v\<rparr>))
          else if p = [''client''] then
            (if ps_seen_client s then Err ''duplicate `client` parameter''
             else case v of EPath q \<Rightarrow> Ok (s\<lparr>ps_seen_client := True, ps_client := Some q\<rparr>)
               | _ \<Rightarrow> Err ''client must be a trait path, e.g. client = crate::api::MyClient'')
          else if p = [''deps''] then
            (if ps_seen_deps s then Err ''duplicate `deps` parameter''
             else and_then (parse_deps v) (\<lambda>ds. Ok (s\<lparr>ps_seen_deps := True, ps_deps := ds\<rparr>)))
          else if p = [''capabilities''] then
            (if ps_seen_caps s then Err ''duplicate `capabilities` parameter''
             else and_then (parse_caps suggest v) (\<lambda>cs. Ok (s\<lparr>ps_seen_caps := True, ps_caps := cs\<rparr>)))
          else Err ''unknown attribute parameter''
      | MList p args \<Rightarrow>
          if path_last_is p ''lifecycle'' then
            (if ps_seen_lifecycle s then Err ''duplicate `lifecycle(...)` parameter''
             else and_then (parse_lifecycle_list args) (\<lambda>lc. Ok (s\<lparr>ps_seen_lifecycle := True, ps_lifecycle := Some lc\<rparr>)))
          else Err ''unknown attribute parameter''
      | MPath _ \<Rightarrow> Err ''unknown attribute parameter'')"

definition module_config_of :: "parse_state \<Rightarrow> (module_attrs, string) result" where
  "module_config_of s =
     and_then (ok_or ''name parameter is required, e.g. #[module(name = \"my-module\", ...)]'' (ps_name s)) (\<lambda>name.
       Ok \<lparr>md_name = name, md_deps = ps_deps s, md_caps = ps_caps s, md_ctor = ps_ctor s, md_client = ps_client s,
         md_lifecycle = ps_lifecycle s\<rparr>)"

definition parse_module_attrs :: "(string \<Rightarrow> string list) \<Rightarrow> mmeta list \<Rightarrow> (module_attrs, string) result" where
  "parse_module_attrs suggest ms = and_then (fold_result (parse_meta suggest) ms parse_start) module_config_of"

section \<open>Durations\<close>

text \<open>\<open>str::parse::<u64>\<close>.\<close>

definition parse_u64 :: "string \<Rightarrow> nat option" where
  "parse_u64 s =
     Option.bind (parse_nat (case strip_prefix ''+'' s of Some t \<Rightarrow> t | None \<Rightarrow> s)) (\<lambda>n. if n < 2 ^ 64 then Some n else None)"

definition strip_suffix :: "string \<Rightarrow> string \<Rightarrow> string option" where
  "strip_suffix pat s = (if ends_with pat s then Some (take (length s - length pat) s) else None)"

text \<open>The generated expression, \<open>Duration::from_millis(v)\<close>, \<open>from_secs(v)\<close> or \<open>from_secs(v * k)\<close>.\<close>

datatype duration_tokens = FromMillis nat | FromSecs nat | FromSecsTimes nat nat

definition parse_duration_tokens :: "string \<Rightarrow> (duration_tokens, string) result" where
  "parse_duration_tokens s =
     (let err = ''invalid duration: '' @ s @ ''. Use e.g. \"500ms\", \"45s\", \"2m\", \"1h\"''
      in case strip_suffix ''ms'' s of
           Some t \<Rightarrow> and_then (ok_or err (parse_u64 t)) (\<lambda>v. Ok (FromMillis v))
         | None \<Rightarrow>
        (case strip_suffix ''s'' s of
           Some t \<Rightarrow> and_then (ok_or err (parse_u64 t)) (\<lambda>v. Ok (FromSecs v))
         | None \<Rightarrow>
        (case strip_suffix ''m'' s of
           Some t \<Rightarrow> and_then (ok_or err (parse_u64 t)) (\<lambda>v. Ok (FromSecsTimes v 60))
         | None \<Rightarrow>
        (case strip_suffix ''h'' s of
           Some t \<Rightarrow> and_then (ok_or err (parse_u64 t)) (\<lambda>v. Ok (FromSecsTimes v 3600))
         | None \<Rightarrow> Err err))))"

text \<open>What the expression is, in milliseconds: a product that overflows does not compile.\<close>

fun duration_ms :: "duration_tokens \<Rightarrow> nat option" where
  "duration_ms (FromMillis v) = Some v"
| "duration_ms (FromSecs v) = Some (1000 * v)"
| "duration_ms (FromSecsTimes v k) = (if v * k < 2 ^ 64 then Some (1000 * (v * k)) else None)"

section \<open>What module generates\<close>

datatype required_trait =
    ReqModule | ReqDbModule | ReqRestfulModule | ReqRestHostModule | ReqStatefulModule | ReqGrpcHubModule | ReqGrpcServiceModule

fun required_by :: "lc_module_cfg option \<Rightarrow> capability \<Rightarrow> required_trait list" where
  "required_by lc CapDb = [ReqDbModule]"
| "required_by lc CapRest = [ReqRestfulModule]"
| "required_by lc CapRestHost = [ReqRestHostModule]"
| "required_by lc CapStateful = (if lc = None then [ReqStatefulModule] else [])"
| "required_by lc CapSystem = []"
| "required_by lc CapGrpcHub = [ReqGrpcHubModule]"
| "required_by lc CapGrpc = [ReqGrpcServiceModule]"

definition cap_asserts :: "module_attrs \<Rightarrow> required_trait list" where
  "cap_asserts c = ReqModule # concat (map (required_by (md_lifecycle c)) (md_caps c))"

text \<open>The wrapper that \<open>from_arc_with_name\<close> and \<open>with_ready_mode\<close> build; in ready mode the generated shim is the
  handler.\<close>

definition wrap_lifecycle :: "bool \<Rightarrow> with_lifecycle" where
  "wrap_lifecycle await_ready =
     (if await_ready then with_ready_mode with_lifecycle_new True True True
      else with_ready_mode with_lifecycle_new False False False)"

text \<open>One capability; \<open>m\<close> is the module, \<open>wl\<close> the wrapper around it.\<close>

fun register_capability :: "module_attrs \<Rightarrow> arc \<Rightarrow> arc \<Rightarrow> capability \<Rightarrow> registry_builder \<Rightarrow> registry_builder" where
  "register_capability c m wl CapDb b = register_db_with_meta b (md_name c) m"
| "register_capability c m wl CapRest b = register_rest_with_meta b (md_name c) m"
| "register_capability c m wl CapRestHost b = register_rest_host_with_meta b (md_name c) m"
| "register_capability c m wl CapStateful b =
     register_stateful_with_meta b (md_name c) (if md_lifecycle c \<noteq> None then wl else m)"
| "register_capability c m wl CapSystem b = register_system_with_meta b (md_name c)"
| "register_capability c m wl CapGrpcHub b = register_grpc_hub_with_meta b (md_name c) m"
| "register_capability c m wl CapGrpc b = register_grpc_service_with_meta b (md_name c) m"

definition registrator :: "module_attrs \<Rightarrow> arc \<Rightarrow> arc \<Rightarrow> registry_builder \<Rightarrow> registry_builder" where
  "registrator c m wl b =
     fold (register_capability c m wl) (md_caps c) (register_core_with_meta b (md_name c) (md_deps c) m)"

record runnable =
  rn_entry :: string
  rn_takes_ready :: bool
  rn_stop_timeout_ms :: nat
  rn_wrapper :: with_lifecycle

record module_expansion =
  ex_module_name :: string
  ex_asserts :: "required_trait list"
  ex_registrator :: "arc \<Rightarrow> arc \<Rightarrow> registry_builder \<Rightarrow> registry_builder"
  ex_client_check :: "string list option"
  ex_runnable :: "runnable option"

text \<open>The top-level extras of a type with a lifecycle; an error of the duration and an entry that is no identifier fail
  the compilation.\<close>

definition expand_runnable :: "(string \<Rightarrow> bool) \<Rightarrow> lc_module_cfg \<Rightarrow> (runnable, string) result" where
  "expand_runnable ident lc =
     (if \<not> ident (lm_entry lc) then Err ''not a valid identifier''
      else and_then (parse_duration_tokens (lm_stop_timeout lc)) (\<lambda>d.
        and_then (ok_or ''overflow'' (duration_ms d)) (\<lambda>ms.
          Ok \<lparr>rn_entry = lm_entry lc, rn_takes_ready = lm_await_ready lc, rn_stop_timeout_ms = ms,
            rn_wrapper = wrap_lifecycle (lm_await_ready lc)\<rparr>)))"

definition expand_module ::
    "(string \<Rightarrow> string list) \<Rightarrow> (string \<Rightarrow> bool) \<Rightarrow> mmeta list \<Rightarrow> (module_expansion, string) result" where
  "expand_module suggest ident attrs =
     and_then (parse_module_attrs suggest attrs) (\<lambda>c.
     and_then
       (case md_lifecycle c of
          None \<Rightarrow> Ok None
        | Some lc \<Rightarrow> and_then (expand_runnable ident lc) (\<lambda>r. Ok (Some r))) (\<lambda>run.
       Ok \<lparr>ex_module_name = md_name c, ex_asserts = cap_asserts c, ex_registrator = registrator c,
         ex_client_check = md_client c, ex_runnable = run\<rparr>))"

section \<open>The attribute of an implementation\<close>

record lc_cfg =
  la_method :: string
  la_stop_timeout :: string
  la_await_ready :: bool

record lc_args =
  lv_method :: "string option"
  lv_stop_timeout :: string
  lv_await_ready :: bool

definition lifecycle_attr_arg :: "mmeta \<Rightarrow> lc_args \<Rightarrow> (lc_args, string) result" where
  "lifecycle_attr_arg m a =
     (let unexpected = Err ''expected named args: method=\"...\", stop_timeout=\"...\", await_ready=true|false''
      in case m of
           MNameValue p v \<Rightarrow>
             if p = [''method''] then
               (case v of EStr s \<Rightarrow> Ok (a\<lparr>lv_method := Some s\<rparr>) | _ \<Rightarrow> Err ''method must be a string literal'')
             else if p = [''stop_timeout''] then
               (case v of EStr s \<Rightarrow> Ok (a\<lparr>lv_stop_timeout := s\<rparr>)
                | _ \<Rightarrow> Err ''stop_timeout must be a string literal like \"45s\"'')
             else if p = [''await_ready''] then
               (case v of EBool b \<Rightarrow> Ok (a\<lparr>lv_await_ready := b\<rparr>)
                | _ \<Rightarrow> Err ''await_ready must be a bool literal (true/false)'')
             else unexpected
         | MPath p \<Rightarrow> if p = [''await_ready''] then Ok (a\<lparr>lv_await_ready := True\<rparr>) else unexpected
         | MList _ _ \<Rightarrow> unexpected)"

definition parse_lifecycle_args :: "mmeta list \<Rightarrow> (lc_cfg, string) result" where
  "parse_lifecycle_args ms =
     and_then (fold_result lifecycle_attr_arg ms \<lparr>lv_method = None, lv_stop_timeout = ''30s'', lv_await_ready = False\<rparr>) (\<lambda>a.
     and_then (ok_or ''missing required arg: method=\"runner_name\"'' (lv_method a)) (\<lambda>method.
       Ok \<lparr>la_method = method, la_stop_timeout = lv_stop_timeout a, la_await_ready = lv_await_ready a\<rparr>))"

text \<open>The items of the block: functions with their arguments, the receiver included; every type is a path or not.\<close>

datatype arg_type = ArgPath "string list" | ArgOther

datatype impl_item = ItemFn string bool "arg_type list" | ItemOther

datatype impl_target = TargetPath "string list" | TargetOther

text \<open>One item; the state is whether the runner was found and whether it takes a ready signal.\<close>

definition check_runner :: "string \<Rightarrow> impl_item \<Rightarrow> bool \<times> bool \<Rightarrow> (bool \<times> bool, string) result" where
  "check_runner runner it s =
     (case it of
        ItemFn name is_async args \<Rightarrow>
          if name \<noteq> runner then Ok s
          else if \<not> is_async then Err ''runner must be async''
          else if length args = 2 then Ok (True, snd s)
          else if length args = 3 then
            (case args ! 2 of
               ArgPath p \<Rightarrow>
                 if p = [] then Ok (True, snd s)
                 else if last p = ''ReadySignal'' then Ok (True, True)
                 else Err ''third parameter must be ReadySignal when await_ready=true''
             | ArgOther \<Rightarrow> Err ''third parameter must be ReadySignal when await_ready=true'')
          else Err ''invalid runner signature; expected (&self, CancellationToken) or (&self, CancellationToken, ReadySignal)''
      | ItemOther \<Rightarrow> Ok s)"

definition expand_lifecycle ::
    "(string \<Rightarrow> bool) \<Rightarrow> mmeta list \<Rightarrow> impl_target \<Rightarrow> impl_item list \<Rightarrow> (runnable, string) result" where
  "expand_lifecycle ident args target items =
     and_then (parse_lifecycle_args args) (\<lambda>cfg.
     and_then (case target of TargetPath p \<Rightarrow> Ok p | TargetOther \<Rightarrow> Err ''unsupported impl target'') (\<lambda>ty.
     if \<not> ident (la_method cfg) then Err ''not a valid identifier''
     else
       and_then (fold_result (check_runner (la_method cfg)) items (False, False)) (\<lambda>(has_runner, takes_ready).
       if \<not> has_runner then Err (''runner method `'' @ la_method cfg @ ''` not found in impl'')
       else
         and_then (parse_duration_tokens (la_stop_timeout cfg)) (\<lambda>d.
         if ty = [] then Err ''unsupported impl target: expected a concrete type path''
         else
           and_then (ok_or ''overflow'' (duration_ms d)) (\<lambda>ms.
             Ok \<lparr>rn_entry = la_method cfg, rn_takes_ready = takes_ready, rn_stop_timeout_ms = ms,
               rn_wrapper = with_ready_mode with_lifecycle_new (la_await_ready cfg) takes_ready takes_ready\<rparr>)))))"

section \<open>The client attribute\<close>

record grpc_client_attrs =
  gc_api :: "string list"
  gc_tonic :: string
  gc_package :: "string option"

record client_args =
  ca_api :: "string list option"
  ca_tonic :: "string option"
  ca_package :: "string option"

definition parse_path_attribute ::
    "(string \<Rightarrow> (string list, string) result) \<Rightarrow> string \<Rightarrow> mmeta \<Rightarrow> (string list option, string) result" where
  "parse_path_attribute parse_path attr_name m =
     (case m of
        MNameValue p v \<Rightarrow>
          if p = [attr_name] then
            (case v of EStr s \<Rightarrow> and_then (parse_path s) (\<lambda>q. Ok (Some q))
             | _ \<Rightarrow> Err (attr_name @ '' must be a string literal path''))
          else Ok None
      | _ \<Rightarrow> Ok None)"

definition parse_string_attribute :: "string \<Rightarrow> mmeta \<Rightarrow> (string option, string) result" where
  "parse_string_attribute attr_name m =
     (case m of
        MNameValue p v \<Rightarrow>
          if p = [attr_name] then
            (case v of EStr s \<Rightarrow> Ok (Some s) | _ \<Rightarrow> Err (attr_name @ '' must be a string literal''))
          else Ok None
      | _ \<Rightarrow> Ok None)"

definition validate_path :: "string list \<Rightarrow> string \<Rightarrow> (unit, string) result" where
  "validate_path p ctx = (if p = [] then Err (''Invalid path for '' @ ctx) else Ok ())"

definition client_arg ::
    "(string \<Rightarrow> (string list, string) result) \<Rightarrow> mmeta \<Rightarrow> client_args \<Rightarrow> (client_args, string) result" where
  "client_arg parse_path m a =
     and_then (parse_path_attribute parse_path ''api'' m) (\<lambda>api.
     case api of
       Some p \<Rightarrow> if ca_api a \<noteq> None then Err ''duplicate `api` parameter'' else Ok (a\<lparr>ca_api := Some p\<rparr>)
     | None \<Rightarrow>
     and_then (parse_string_attribute ''tonic'' m) (\<lambda>tonic.
     case tonic of
       Some s \<Rightarrow> if ca_tonic a \<noteq> None then Err ''duplicate `tonic` parameter'' else Ok (a\<lparr>ca_tonic := Some s\<rparr>)
     | None \<Rightarrow>
     and_then (parse_string_attribute ''package'' m) (\<lambda>package.
     case package of
       Some s \<Rightarrow> if ca_package a \<noteq> None then Err ''duplicate `package` parameter'' else Ok (a\<lparr>ca_package := Some s\<rparr>)
     | None \<Rightarrow> Err ''unknown parameter; expected `api`, `tonic`, or `package`'')))"

definition parse_grpc_client_attrs ::
    "(string \<Rightarrow> (string list, string) result) \<Rightarrow> mmeta list \<Rightarrow> (grpc_client_attrs, string) result" where
  "parse_grpc_client_attrs parse_path ms =
     and_then (fold_result (client_arg parse_path) ms \<lparr>ca_api = None, ca_tonic = None, ca_package = None\<rparr>) (\<lambda>a.
     and_then (ok_or ''missing required parameter: api = \"path::to::ApiTrait\"'' (ca_api a)) (\<lambda>api.
     and_then (ok_or ''missing required parameter: tonic = \"module::TonicClient<Channel>\"'' (ca_tonic a)) (\<lambda>tonic.
     and_then (validate_path api ''api trait'') (\<lambda>_.
       Ok \<lparr>gc_api = api, gc_tonic = tonic, gc_package = ca_package a\<rparr>))))"

datatype struct_shape = UnitStruct | NamedFields nat | TupleFields nat | NotAStruct

text \<open>What is generated: the wrapped client, and the trait the struct must implement.\<close>

definition expand_grpc_client ::
    "(string \<Rightarrow> (unit, string) result) \<Rightarrow> grpc_client_attrs \<Rightarrow> struct_shape \<Rightarrow> (string \<times> string list, string) result" where
  "expand_grpc_client parse_type cfg input =
     and_then (map_err (\<lambda>e. ''invalid tonic client type: '' @ e) (parse_type (gc_tonic cfg))) (\<lambda>_.
     case input of
       UnitStruct \<Rightarrow> Ok (gc_tonic cfg, gc_api cfg)
     | NamedFields n \<Rightarrow>
         if n = 0 then Ok (gc_tonic cfg, gc_api cfg)
         else Err ''grpc_client must be applied to an empty struct or unit struct''
     | TupleFields _ \<Rightarrow> Err ''grpc_client must be applied to an empty struct or unit struct''
     | NotAStruct \<Rightarrow> Err ''grpc_client can only be applied to structs'')"

section \<open>Lemmas\<close>

text \<open>A fold whose steps commute does not depend on the order.\<close>

lemma fold_result_front:
  assumes comm: "\<And>x y s s1 s2. f x s = Ok s1 \<Longrightarrow> f y s1 = Ok s2 \<Longrightarrow> \<exists>t. f y s = Ok t \<and> f x t = Ok s2"
    and "fold_result f (ps @ y # qs) s = Ok r"
  shows "fold_result f (y # ps @ qs) s = Ok r"
  using assms(2)
proof (induction ps arbitrary: s)
  case (Cons x ps)
  then obtain s1 where s1: "f x s = Ok s1" "fold_result f (ps @ y # qs) s1 = Ok r" by (auto split: result.splits)
  from Cons.IH[OF s1(2)] obtain s2 where s2: "f y s1 = Ok s2" "fold_result f (ps @ qs) s2 = Ok r"
    by (auto split: result.splits)
  from comm[OF s1(1) s2(1)] s2(2) show ?case by auto
qed simp

lemma fold_result_mset:
  assumes comm: "\<And>x y s s1 s2. f x s = Ok s1 \<Longrightarrow> f y s1 = Ok s2 \<Longrightarrow> \<exists>t. f y s = Ok t \<and> f x t = Ok s2"
    and "mset ys = mset xs" "fold_result f xs s = Ok r"
  shows "fold_result f ys s = Ok r"
  using assms(2,3)
proof (induction ys arbitrary: xs s)
  case (Cons y ys)
  then have "y \<in> set xs" by (metis list.set_intros(1) set_mset_mset)
  then obtain ps qs where xs: "xs = ps @ y # qs" by (meson split_list)
  with Cons.prems have "mset ys = mset (ps @ qs)" by simp
  moreover obtain s1 where "f y s = Ok s1" "fold_result f (ps @ qs) s1 = Ok r"
    using fold_result_front[OF comm] Cons.prems(2) xs by (fastforce split: result.splits)
  ultimately show ?case using Cons.IH[of "ps @ qs" s1] by (simp only: fold_result.simps result.case)
qed simp

lemma parse_meta_cases:
  assumes "parse_meta suggest m s = Ok s1"
  obtains (name) x where "m = MNameValue [''name''] (EStr x)" "\<not> ps_seen_name s" "s1 = s\<lparr>ps_seen_name := True, ps_name := Some x\<rparr>"
  | (ctor) v where "m = MNameValue [''ctor''] v" "\<forall>x. v \<noteq> EStr x" "\<not> ps_seen_ctor s"
      "s1 = s\<lparr>ps_seen_ctor := True, ps_ctor := Some v\<rparr>"
  | (client) q where "m = MNameValue [''client''] (EPath q)" "\<not> ps_seen_client s"
      "s1 = s\<lparr>ps_seen_client := True, ps_client := Some q\<rparr>"
  | (deps) v ds where "m = MNameValue [''deps''] v" "parse_deps v = Ok ds" "\<not> ps_seen_deps s"
      "s1 = s\<lparr>ps_seen_deps := True, ps_deps := ds\<rparr>"
  | (caps) v cs where "m = MNameValue [''capabilities''] v" "parse_caps suggest v = Ok cs" "\<not> ps_seen_caps s"
      "s1 = s\<lparr>ps_seen_caps := True, ps_caps := cs\<rparr>"
  | (lifecycle) p args lc where "m = MList p args" "path_last_is p ''lifecycle''" "parse_lifecycle_list args = Ok lc"
      "\<not> ps_seen_lifecycle s" "s1 = s\<lparr>ps_seen_lifecycle := True, ps_lifecycle := Some lc\<rparr>"
  using assms unfolding parse_meta_def
  by (cases m) (simp_all add: res_simps split: if_splits mexpr.splits; blast)+

lemma parse_meta_accepts:
  "\<not> ps_seen_name s \<Longrightarrow> parse_meta suggest (MNameValue [''name''] (EStr x)) s = Ok (s\<lparr>ps_seen_name := True, ps_name := Some x\<rparr>)"
  "\<not> ps_seen_ctor s \<Longrightarrow> \<forall>x. v \<noteq> EStr x \<Longrightarrow>
     parse_meta suggest (MNameValue [''ctor''] v) s = Ok (s\<lparr>ps_seen_ctor := True, ps_ctor := Some v\<rparr>)"
  "\<not> ps_seen_client s \<Longrightarrow>
     parse_meta suggest (MNameValue [''client''] (EPath q)) s = Ok (s\<lparr>ps_seen_client := True, ps_client := Some q\<rparr>)"
  "\<not> ps_seen_deps s \<Longrightarrow> parse_deps v = Ok ds \<Longrightarrow>
     parse_meta suggest (MNameValue [''deps''] v) s = Ok (s\<lparr>ps_seen_deps := True, ps_deps := ds\<rparr>)"
  "\<not> ps_seen_caps s \<Longrightarrow> parse_caps suggest v = Ok cs \<Longrightarrow>
     parse_meta suggest (MNameValue [''capabilities''] v) s = Ok (s\<lparr>ps_seen_caps := True, ps_caps := cs\<rparr>)"
  "\<not> ps_seen_lifecycle s \<Longrightarrow> path_last_is p ''lifecycle'' \<Longrightarrow> parse_lifecycle_list args = Ok lc \<Longrightarrow>
     parse_meta suggest (MList p args) s = Ok (s\<lparr>ps_seen_lifecycle := True, ps_lifecycle := Some lc\<rparr>)"
  by (simp_all add: parse_meta_def split: mexpr.split)

lemma parse_meta_commute:
  assumes "parse_meta suggest m s = Ok s1" "parse_meta suggest m' s1 = Ok s2"
  shows "\<exists>t. parse_meta suggest m' s = Ok t \<and> parse_meta suggest m t = Ok s2"
  using assms by (elim parse_meta_cases) (simp_all add: parse_meta_accepts)

text \<open>What the calls of a registrator do to the builder.\<close>

definition named :: "bool \<Rightarrow> string \<Rightarrow> string set" where
  "named b n = (if b then {n} else {})"

lemma named_either: "named (p \<or> q) n = named p n \<union> named q n"
  and named_False: "named False n = {}"
  by (simp_all add: named_def)

lemma cap_effect:
  "dom (map_of (rb_rest (register_capability c m wl k b))) = dom (map_of (rb_rest b)) \<union> named (CapRest = k) (md_name c)"
  "dom (map_of (rb_db (register_capability c m wl k b))) = dom (map_of (rb_db b)) \<union> named (CapDb = k) (md_name c)"
  "dom (map_of (rb_stateful (register_capability c m wl k b))) = dom (map_of (rb_stateful b)) \<union> named (CapStateful = k) (md_name c)"
  "dom (map_of (rb_grpc_services (register_capability c m wl k b))) =
     dom (map_of (rb_grpc_services b)) \<union> named (CapGrpc = k) (md_name c)"
  "set (rb_system_modules (register_capability c m wl k b)) = set (rb_system_modules b) \<union> named (CapSystem = k) (md_name c)"
  "rb_core (register_capability c m wl k b) = rb_core b"
  "rb_deps (register_capability c m wl k b) = rb_deps b"
  by (cases k, simp_all add: register_defs named_def update_conv' split: option.split)+

lemma caps_effect:
  "dom (map_of (rb_rest (fold (register_capability c m wl) caps b))) = dom (map_of (rb_rest b)) \<union> named (CapRest \<in> set caps) (md_name c) \<and>
   dom (map_of (rb_db (fold (register_capability c m wl) caps b))) = dom (map_of (rb_db b)) \<union> named (CapDb \<in> set caps) (md_name c) \<and>
   dom (map_of (rb_stateful (fold (register_capability c m wl) caps b))) =
     dom (map_of (rb_stateful b)) \<union> named (CapStateful \<in> set caps) (md_name c) \<and>
   dom (map_of (rb_grpc_services (fold (register_capability c m wl) caps b))) =
     dom (map_of (rb_grpc_services b)) \<union> named (CapGrpc \<in> set caps) (md_name c) \<and>
   set (rb_system_modules (fold (register_capability c m wl) caps b)) =
     set (rb_system_modules b) \<union> named (CapSystem \<in> set caps) (md_name c) \<and>
   rb_core (fold (register_capability c m wl) caps b) = rb_core b \<and>
   rb_deps (fold (register_capability c m wl) caps b) = rb_deps b"
  by (induction caps arbitrary: b) (simp_all add: cap_effect named_either named_False Un_assoc)

lemma caps_errors: "\<exists>es. rb_errors (fold (register_capability c m wl) caps b) = rb_errors b @ es"
proof (induction caps arbitrary: b)
  case (Cons k caps)
  from Cons.IH[of "register_capability c m wl k b"] show ?case
    by (cases k) (auto simp: register_defs split: option.splits)
qed simp

lemma caps_hosts:
  assumes "rb_errors (fold (register_capability c m wl) caps b) = []"
  shows "(if CapRestHost \<in> set caps then rb_rest_host b = None \<and>
      map_option fst (rb_rest_host (fold (register_capability c m wl) caps b)) = Some (md_name c)
    else rb_rest_host (fold (register_capability c m wl) caps b) = rb_rest_host b) \<and>
   (if CapGrpcHub \<in> set caps then rb_grpc_hub b = None \<and>
      map_option fst (rb_grpc_hub (fold (register_capability c m wl) caps b)) = Some (md_name c)
    else rb_grpc_hub (fold (register_capability c m wl) caps b) = rb_grpc_hub b)"
  using assms
proof (induction caps arbitrary: b)
  case (Cons k caps)
  have e: "rb_errors (register_capability c m wl k b) = []"
    using caps_errors[of c m wl caps "register_capability c m wl k b"] Cons.prems by auto
  from Cons.IH[of "register_capability c m wl k b"] Cons.prems e show ?case
    by (cases k) (auto simp: register_defs split: option.splits if_splits)
qed simp

type_synonym declared = "module_attrs \<times> arc \<times> arc"

definition declare_all :: "declared list \<Rightarrow> registry_builder" where
  "declare_all ds = fold (\<lambda>(c, m, wl). registrator c m wl) ds empty_builder"

definition carriers :: "capability \<Rightarrow> declared list \<Rightarrow> string set" where
  "carriers k ds = {md_name c |c m wl. (c, m, wl) \<in> set ds \<and> k \<in> set (md_caps c)}"

lemma carriers_snoc: "carriers k (ds @ [(c, m, wl)]) = carriers k ds \<union> named (k \<in> set (md_caps c)) (md_name c)"
  by (auto simp: carriers_def named_def)

lemma declare_all_snoc: "declare_all (ds @ [(c, m, wl)]) = registrator c m wl (declare_all ds)"
  by (simp add: declare_all_def)

lemma core_frame:
  "rb_rest (register_core_with_meta b n d m) = rb_rest b \<and> rb_db (register_core_with_meta b n d m) = rb_db b \<and>
   rb_stateful (register_core_with_meta b n d m) = rb_stateful b \<and>
   rb_grpc_services (register_core_with_meta b n d m) = rb_grpc_services b \<and>
   rb_system_modules (register_core_with_meta b n d m) = rb_system_modules b \<and>
   rb_rest_host (register_core_with_meta b n d m) = rb_rest_host b \<and>
   rb_grpc_hub (register_core_with_meta b n d m) = rb_grpc_hub b \<and>
   dom (map_of (rb_core (register_core_with_meta b n d m))) = insert n (dom (map_of (rb_core b)))"
  by (auto simp: register_core_with_meta_def contains_key_def dom_update update_conv')

lemma declare_all_maps:
  "dom (map_of (rb_rest (declare_all ds))) = carriers CapRest ds \<and>
   dom (map_of (rb_db (declare_all ds))) = carriers CapDb ds \<and>
   dom (map_of (rb_stateful (declare_all ds))) = carriers CapStateful ds \<and>
   dom (map_of (rb_grpc_services (declare_all ds))) = carriers CapGrpc ds \<and>
   set (rb_system_modules (declare_all ds)) = carriers CapSystem ds \<and>
   dom (map_of (rb_core (declare_all ds))) = (md_name \<circ> fst) ` set ds"
proof (induction ds rule: rev_induct)
  case Nil
  show ?case by (simp add: declare_all_def empty_builder_def carriers_def)
next
  case (snoc d ds)
  obtain c m wl where d: "d = (c, m, wl)" by (cases d)
  show ?case unfolding d declare_all_snoc carriers_snoc registrator_def
    using snoc by (auto simp: caps_effect core_frame)
qed

lemma registered_caps: "registered b \<Longrightarrow> registered (fold (register_capability c m wl) caps b)"
proof (induction caps arbitrary: b)
  case (Cons k caps)
  then have "registered (register_capability c m wl k b)" by (cases k) (auto intro: registered.intros)
  with Cons.IH show ?case by simp
qed simp

lemma registered_declare_all: "registered (declare_all ds)"
  by (induction ds rule: rev_induct)
    (auto simp: declare_all_def registrator_def registered_caps registered.start registered.core split: prod.splits)

lemma declare_all_errors:
  assumes "rb_errors (declare_all ds) = []"
  shows "distinct (map (md_name \<circ> fst) ds) \<and>
    (\<forall>(c, m, wl) \<in> set ds. map_of (rb_deps (declare_all ds)) (md_name c) = Some (md_deps c)) \<and>
    carriers CapRestHost ds = set_option (map_option fst (rb_rest_host (declare_all ds))) \<and>
    carriers CapGrpcHub ds = set_option (map_option fst (rb_grpc_hub (declare_all ds)))"
  using assms
proof (induction ds rule: rev_induct)
  case Nil
  show ?case by (simp add: declare_all_def empty_builder_def carriers_def)
next
  case (snoc d ds)
  obtain c m wl where d: "d = (c, m, wl)" by (cases d)
  let ?b = "declare_all ds" and ?c = "register_core_with_meta (declare_all ds) (md_name c) (md_deps c) m"
  have e: "rb_errors (fold (register_capability c m wl) (md_caps c) ?c) = []"
    using snoc.prems by (simp add: d declare_all_snoc registrator_def)
  then have "rb_errors ?c = []" using caps_errors[of c m wl "md_caps c" ?c] by auto
  then have n: "md_name c \<notin> dom (map_of (rb_core ?b))" "rb_errors ?b = []"
    by (auto simp: register_core_with_meta_def contains_key_def split: if_splits)
  then have new: "md_name c \<notin> (md_name \<circ> fst) ` set ds" "rb_errors ?b = []" using declare_all_maps[of ds] by auto
  have deps: "map_of (rb_deps ?c) = (map_of (rb_deps ?b))(md_name c \<mapsto> md_deps c)"
    using n by (auto simp: register_core_with_meta_def contains_key_def update_conv')
  note ih = snoc.IH[OF new(2)]
  have "distinct (map (md_name \<circ> fst) (ds @ [d]))" using new(1) ih by (auto simp: d comp_def)
  moreover have "\<forall>(c', m', wl') \<in> set (ds @ [d]). map_of (rb_deps (declare_all (ds @ [d]))) (md_name c') = Some (md_deps c')"
    unfolding d declare_all_snoc registrator_def using ih new(1) deps by (force simp: caps_effect)
  moreover have "carriers CapRestHost (ds @ [d]) = set_option (map_option fst (rb_rest_host (declare_all (ds @ [d]))))"
    "carriers CapGrpcHub (ds @ [d]) = set_option (map_option fst (rb_grpc_hub (declare_all (ds @ [d]))))"
    unfolding d declare_all_snoc registrator_def carriers_snoc using ih caps_hosts[OF e]
    by (auto simp: core_frame named_def split: if_splits)
  ultimately show ?case by blast
qed

lemma check_keys_Ok: "fst ` set ps \<subseteq> dom (map_of core) \<Longrightarrow> check_keys core (map fst ps) = Ok ()"
  by (induction ps) (auto simp: contains_key_def)

lemma caps_host_names:
  "set_option (map_option fst (rb_rest_host (fold (register_capability c m wl) caps b))) \<subseteq>
     insert (md_name c) (set_option (map_option fst (rb_rest_host b))) \<and>
   set_option (map_option fst (rb_grpc_hub (fold (register_capability c m wl) caps b))) \<subseteq>
     insert (md_name c) (set_option (map_option fst (rb_grpc_hub b)))"
proof (induction caps arbitrary: b)
  case (Cons k caps)
  from Cons.IH[of "register_capability c m wl k b"] show ?case
    by (cases k) (auto simp: register_defs split: option.splits)
qed auto

lemma declare_all_hosts:
  "set_option (map_option fst (rb_rest_host (declare_all ds))) \<union> set_option (map_option fst (rb_grpc_hub (declare_all ds)))
     \<subseteq> dom (map_of (rb_core (declare_all ds)))"
proof (induction ds rule: rev_induct)
  case Nil
  show ?case by (simp add: declare_all_def empty_builder_def)
next
  case (snoc d ds)
  obtain c m wl where d: "d = (c, m, wl)" by (cases d)
  let ?c = "register_core_with_meta (declare_all ds) (md_name c) (md_deps c) m"
  let ?D = "dom (map_of (rb_core (declare_all ds)))"
  have old: "set_option (map_option fst (rb_rest_host ?c)) \<subseteq> ?D" "set_option (map_option fst (rb_grpc_hub ?c)) \<subseteq> ?D"
    using snoc by (simp_all add: core_frame)
  have "dom (map_of (rb_core (declare_all (ds @ [d])))) = insert (md_name c) ?D"
    by (simp add: d declare_all_snoc registrator_def caps_effect core_frame)
  moreover note subset_trans[OF conjunct1[OF caps_host_names] insert_mono[OF old(1)], of c m wl "md_caps c"]
    subset_trans[OF conjunct2[OF caps_host_names] insert_mono[OF old(2)], of c m wl "md_caps c"]
  ultimately show ?case by (simp add: d declare_all_snoc registrator_def)
qed

lemma check_opt_Ok: "set_option (map_option fst h) \<subseteq> dom (map_of core) \<Longrightarrow> check_opt core h = Ok ()"
  by (auto simp: check_opt_def contains_key_def split: option.split)

lemma carriers_names: "carriers k ds \<subseteq> (md_name \<circ> fst) ` set ds"
  by (force simp: carriers_def)

lemma declare_all_validates:
  "validate_capabilities (declare_all ds) =
     (if rb_errors (declare_all ds) = [] then Ok () else Err (InvalidRegistryConfiguration (rb_errors (declare_all ds))))"
proof -
  let ?b = "declare_all ds"
  note m = declare_all_maps[of ds]
  have k: "fst ` set (rb_rest ?b) = dom (map_of (rb_rest ?b))" "fst ` set (rb_db ?b) = dom (map_of (rb_db ?b))"
    "fst ` set (rb_stateful ?b) = dom (map_of (rb_stateful ?b))"
    "fst ` set (rb_grpc_services ?b) = dom (map_of (rb_grpc_services ?b))" by (simp_all add: dom_map_of_conv_image_fst)
  have "fst ` set (rb_rest ?b) \<subseteq> dom (map_of (rb_core ?b))" "fst ` set (rb_db ?b) \<subseteq> dom (map_of (rb_core ?b))"
    "fst ` set (rb_stateful ?b) \<subseteq> dom (map_of (rb_core ?b))" "fst ` set (rb_grpc_services ?b) \<subseteq> dom (map_of (rb_core ?b))"
    unfolding k using m carriers_names by metis+
  with declare_all_hosts[of ds] show ?thesis
    by (simp add: validate_capabilities_def check_keys_Ok check_opt_Ok)
qed

lemma add_all_deps_unknown:
  "add_all_deps idx deps adj = Err e \<Longrightarrow> \<forall>(n, ds) \<in> set deps. idx n \<noteq> None \<Longrightarrow> \<exists>n d. e = UnknownDependency n d"
  by (induction deps arbitrary: adj) (auto split: option.splits result.splits dest!: add_deps_Err)

lemma index_map_None: "index_map i names n = None \<longleftrightarrow> n \<notin> set names"
proof (induction names arbitrary: i)
  case (Cons x names)
  from Cons[of "Suc i"] show ?case by (cases "index_map (Suc i) names x") auto
qed simp

lemma build_graph_unknown:
  assumes "wf_builder b" "build_dependency_graph b = Err e"
  shows "\<exists>n d. e = UnknownDependency n d"
proof -
  have "index_map 0 (map fst (rb_core b)) n \<noteq> None" if "(n, ds) \<in> set (rb_deps b)" for n ds
  proof -
    have "n \<in> fst ` set (rb_deps b)" using that by force
    then have "n \<in> set (map fst (rb_core b))" using assms(1) by (simp add: wf_builder_def)
    then show ?thesis unfolding index_map_None by blast
  qed
  then have "\<forall>(n, ds) \<in> set (rb_deps b). index_map 0 (map fst (rb_core b)) n \<noteq> None" by blast
  moreover have "add_all_deps (index_map 0 (map fst (rb_core b))) (rb_deps b) (replicate (length (rb_core b)) []) = Err e"
    using assms(2) by (simp add: build_dependency_graph_def Let_def split: result.splits)
  ultimately show ?thesis by (rule add_all_deps_unknown[rotated])
qed

lemma declare_all_build_errors:
  assumes "build_topo_sorted (declare_all ds) = Some (Err e)"
  shows "(e = InvalidRegistryConfiguration (rb_errors (declare_all ds)) \<and> rb_errors (declare_all ds) \<noteq> []) \<or>
    (\<exists>n d. e = UnknownDependency n d) \<or> (\<exists>p. e = CycleDetected p)"
proof -
  let ?b = "declare_all ds"
  have wf: "wf_builder ?b" by (rule registered_wf[OF registered_declare_all])
  show ?thesis
  proof (cases "validate_capabilities ?b")
    case (Err e')
    with assms declare_all_validates[of ds] show ?thesis by (auto simp: build_topo_sorted_def split: if_splits)
  next
    case v: (Ok u)
    show ?thesis
    proof (cases "build_dependency_graph ?b")
      case (Err e')
      with v assms build_graph_unknown[OF wf Err] show ?thesis by (auto simp: build_topo_sorted_def)
    next
      case (Ok g)
      obtain names adj idx where g: "build_dependency_graph ?b = Ok (names, adj, idx)" using Ok by (cases g) auto
      show ?thesis
      proof (cases "detect_cycle_with_path names adj")
        case (Some r)
        with v g assms build_acyclic_ok[OF wf _ g] show ?thesis
          by (cases r) (auto simp: build_topo_sorted_def)
      qed (use assms v g in \<open>simp add: build_topo_sorted_def\<close>)
    qed
  qed
qed

text \<open>The entries of a registry that builds.\<close>

definition entry_matches :: "module_attrs \<Rightarrow> module_entry \<Rightarrow> bool" where
  "entry_matches c e \<longleftrightarrow> me_deps e = md_deps c \<and>
     (me_rest e \<noteq> None \<longleftrightarrow> CapRest \<in> set (md_caps c)) \<and> (me_rest_host e \<noteq> None \<longleftrightarrow> CapRestHost \<in> set (md_caps c)) \<and>
     (me_db e \<noteq> None \<longleftrightarrow> CapDb \<in> set (md_caps c)) \<and> (me_stateful e \<noteq> None \<longleftrightarrow> CapStateful \<in> set (md_caps c)) \<and>
     (me_is_system e \<longleftrightarrow> CapSystem \<in> set (md_caps c)) \<and> (me_grpc_hub e \<noteq> None \<longleftrightarrow> CapGrpcHub \<in> set (md_caps c)) \<and>
     (me_grpc_service e \<noteq> None \<longleftrightarrow> CapGrpc \<in> set (md_caps c))"

lemma built_entry:
  assumes "build_topo_sorted b = Some (Ok reg)" "e \<in> set (mr_modules reg)"
  shows "assemble_entry b (me_name e) = Ok e" "rb_errors b = []"
proof -
  obtain names adj idx order where "assemble_entries b order names = Ok (mr_modules reg)"
    using assms(1) by (auto simp: build_topo_sorted_def split: result.splits option.splits)
  then obtain i where "assemble_entry b (names ! i) = Ok e"
    using assms(2) by (auto simp: assemble_entries_def collect_Ok_iff in_set_conv_nth list_all2_conv_all_nth)
  moreover from this have "me_name e = names ! i" by (auto simp: assemble_entry_def split: option.splits)
  ultimately show "assemble_entry b (me_name e) = Ok e" by simp
  show "rb_errors b = []"
    using assms(1) by (auto simp: build_topo_sorted_def validate_capabilities_def res_simps split: result.splits if_splits)
qed

lemma carriers_iff:
  assumes "distinct (map (md_name \<circ> fst) ds)" "(c, m, wl) \<in> set ds"
  shows "md_name c \<in> carriers k ds \<longleftrightarrow> k \<in> set (md_caps c)"
  using assms eq_key_imp_eq_value[of "map (\<lambda>d. (md_name (fst d), fst d)) ds" "md_name c"]
  by (force simp: carriers_def comp_def)

lemma built_entry_matches:
  assumes "build_topo_sorted (declare_all ds) = Some (Ok reg)" "(c, m, wl) \<in> set ds" "e \<in> set (mr_modules reg)" "me_name e = md_name c"
  shows "entry_matches c e"
proof -
  note a = built_entry[OF assms(1,3)]
  note d = declare_all_errors[OF a(2)]
  have caps: "md_name c \<in> carriers k ds \<longleftrightarrow> k \<in> set (md_caps c)" for k using carriers_iff d assms(2) by blast
  have some: "map_of t (md_name c) \<noteq> None \<longleftrightarrow> k \<in> set (md_caps c)" if "dom (map_of t) = carriers k ds" for t :: "(string \<times> arc) list" and k
    unfolding caps[symmetric] that[symmetric] by (simp add: dom_def)
  have host: "(case h of Some (h, m) \<Rightarrow> if h = md_name c then Some m else None | None \<Rightarrow> None) \<noteq> None \<longleftrightarrow> k \<in> set (md_caps c)"
    if "carriers k ds = set_option (map_option fst h)" for h :: "(string \<times> arc) option" and k
    unfolding caps[symmetric] that by (cases h) (auto split: if_splits)
  obtain core where e: "e = \<lparr>me_name = md_name c, me_deps = md_deps c, me_core = core,
      me_rest = map_of (rb_rest (declare_all ds)) (md_name c),
      me_rest_host = (case rb_rest_host (declare_all ds) of Some (h, m) \<Rightarrow> if h = md_name c then Some m else None | None \<Rightarrow> None),
      me_db = map_of (rb_db (declare_all ds)) (md_name c), me_stateful = map_of (rb_stateful (declare_all ds)) (md_name c),
      me_is_system = (md_name c \<in> set (rb_system_modules (declare_all ds))),
      me_grpc_hub = (case rb_grpc_hub (declare_all ds) of Some (h, m) \<Rightarrow> if h = md_name c then Some m else None | None \<Rightarrow> None),
      me_grpc_service = map_of (rb_grpc_services (declare_all ds)) (md_name c)\<rparr>"
    using a(1) d assms(2) unfolding assms(4) assemble_entry_def by (auto split: option.splits)
  note mm = declare_all_maps[of ds]
  show ?thesis unfolding entry_matches_def e
    using some[of "rb_rest (declare_all ds)"] some[of "rb_db (declare_all ds)"] some[of "rb_stateful (declare_all ds)"]
      some[of "rb_grpc_services (declare_all ds)"] host[of CapRestHost] host[of CapGrpcHub] mm d caps[of CapSystem]
    by (simp del: not_None_eq)
qed

lemma discover_declared: "discover_and_build (map (\<lambda>(c, m, wl). registrator c m wl) ds) = build_topo_sorted (declare_all ds)"
  by (simp add: discover_and_build_def declare_all_def fold_map comp_def split_def)

section \<open>Properties\<close>

text \<open>The order of the parameters of \<open>#[module(...)]\<close> does not matter: what is accepted in one order is accepted
  in every other, with the same configuration.\<close>

theorem parameter_order_is_irrelevant:
  assumes "parse_module_attrs suggest ms = Ok c" "mset ms' = mset ms"
  shows "parse_module_attrs suggest ms' = Ok c"
  using assms fold_result_mset[of "parse_meta suggest", OF parse_meta_commute assms(2)]
  by (auto simp: parse_module_attrs_def res_simps)

text \<open>C40. From the attribute to the registry: in a registry built from generated registrators the modules are
  those declared, under distinct names, and the entry of each has its dependencies and exactly its capabilities.\<close>

theorem entries_match_the_attributes:
  assumes "discover_and_build (map (\<lambda>(c, m, wl). registrator c m wl) ds) = Some (Ok reg)"
  shows "distinct (map (\<lambda>(c, m, wl). md_name c) ds) \<and>
    me_name ` set (mr_modules reg) = (\<lambda>(c, m, wl). md_name c) ` set ds \<and>
    (\<forall>(c, m, wl) \<in> set ds. \<exists>e \<in> set (mr_modules reg). me_name e = md_name c \<and> entry_matches c e) \<and>
    (\<forall>(c, m, wl) \<in> set ds. \<forall>e \<in> set (mr_modules reg). me_name e = md_name c \<longrightarrow> entry_matches c e)"
proof -
  have b: "build_topo_sorted (declare_all ds) = Some (Ok reg)"
    using assms by (simp only: discover_declared)
  have names: "me_name ` set (mr_modules reg) = (\<lambda>(c, m, wl). md_name c) ` set ds"
    using build_sorted[OF registered_declare_all b] declare_all_maps[of ds]
    by (simp add: dom_map_of_conv_image_fst comp_def case_prod_beta)
  have dist: "distinct (map (\<lambda>(c, m, wl). md_name c) ds)"
  proof (cases ds)
    case (Cons d ds')
    then obtain e where "e \<in> set (mr_modules reg)" using names by (cases "mr_modules reg") auto
    from declare_all_errors[OF built_entry(2)[OF b this]] show ?thesis by (simp add: comp_def split_def)
  qed simp
  moreover have "\<exists>e \<in> set (mr_modules reg). me_name e = md_name c" if "(c, m, wl) \<in> set ds" for c m wl
  proof -
    have "md_name c \<in> me_name ` set (mr_modules reg)" unfolding names using that by force
    then show ?thesis by force
  qed
  ultimately show ?thesis using names built_entry_matches[OF b] by fastforce
qed

text \<open>Building from generated registrators never panics, and it can fail only for a repeated name or host, an unknown
  dependency, or a cycle: no capability is without its module.\<close>

theorem generated_registrators_build:
  "(\<exists>r. discover_and_build (map (\<lambda>(c, m, wl). registrator c m wl) ds) = Some r) \<and>
   (\<forall>e. discover_and_build (map (\<lambda>(c, m, wl). registrator c m wl) ds) = Some (Err e) \<longrightarrow>
      (\<exists>es. e = InvalidRegistryConfiguration es \<and> es \<noteq> []) \<or> (\<exists>n d. e = UnknownDependency n d) \<or> (\<exists>p. e = CycleDetected p))"
proof -
  have "\<exists>r. build_topo_sorted (declare_all ds) = Some r" using build_ok[OF registered_declare_all] by blast
  with declare_all_build_errors[of ds] show ?thesis unfolding discover_declared by blast
qed

text \<open>A generated wrapper never fails to start for want of its handler. The module attribute waits for
  readiness exactly where its entry takes the signal.\<close>

theorem generated_wrappers_start:
  "(expand_module suggest ident attrs = Ok ex \<and> ex_runnable ex = Some r \<longrightarrow>
      stateful_start (rn_wrapper r) tok = Ok (Starter A_Cas tok (rn_takes_ready r))) \<and>
   (expand_lifecycle ident args target items = Ok r \<longrightarrow> (\<exists>cfg. parse_lifecycle_args args = Ok cfg \<and>
      stateful_start (rn_wrapper r) tok = Ok (Starter A_Cas tok (la_await_ready cfg))))"
proof (intro conjI impI)
  assume "expand_module suggest ident attrs = Ok ex \<and> ex_runnable ex = Some r"
  then obtain lc where "expand_runnable ident lc = Ok r"
    by (auto simp: expand_module_def res_simps split: option.splits)
  then have "rn_wrapper r = wrap_lifecycle (rn_takes_ready r)" by (auto simp: expand_runnable_def res_simps split: if_splits)
  then show "stateful_start (rn_wrapper r) tok = Ok (Starter A_Cas tok (rn_takes_ready r))"
    by (simp add: stateful_start_def wrap_lifecycle_def with_ready_mode_def)
next
  assume "expand_lifecycle ident args target items = Ok r"
  then obtain cfg takes where "parse_lifecycle_args args = Ok cfg"
    "rn_wrapper r = with_ready_mode with_lifecycle_new (la_await_ready cfg) takes takes"
    by (auto simp: expand_lifecycle_def res_simps split: if_splits)
  then show "\<exists>cfg. parse_lifecycle_args args = Ok cfg \<and>
      stateful_start (rn_wrapper r) tok = Ok (Starter A_Cas tok (la_await_ready cfg))"
    by (auto simp: stateful_start_def with_ready_mode_def)
qed

text \<open>A lifecycle without the capability \<open>stateful\<close> is generated and never started: the module is accepted, and no
  registry has a stateful entry for it.\<close>

theorem lifecycle_needs_stateful:
  assumes "discover_and_build (map (\<lambda>(c, m, wl). registrator c m wl) ds) = Some (Ok reg)"
    and "(c, m, wl) \<in> set ds" "md_lifecycle c = Some lc" "CapStateful \<notin> set (md_caps c)"
    and "e \<in> set (mr_modules reg)" "me_name e = md_name c"
  shows "me_stateful e = None \<and> ReqStatefulModule \<notin> set (cap_asserts c)"
proof -
  have b: "build_topo_sorted (declare_all ds) = Some (Ok reg)"
    using assms(1) by (simp only: discover_declared)
  have "ReqStatefulModule \<notin> set (required_by (md_lifecycle c) k)" for k using assms(3) by (cases k) auto
  with built_entry_matches[OF b assms(2,5,6)] assms(4) show ?thesis by (auto simp: entry_matches_def cap_asserts_def)
qed

text \<open>A duration reads as its number in its unit: milliseconds, seconds, minutes or hours; the product that
  overflows 64 bits is the only one that fails later.\<close>

theorem durations_read_back:
  assumes "n < 2 ^ 64"
  shows "parse_duration_tokens (show_nat n @ ''ms'') = Ok (FromMillis n) \<and> parse_duration_tokens (show_nat n @ ''s'') = Ok (FromSecs n) \<and>
    parse_duration_tokens (show_nat n @ ''m'') = Ok (FromSecsTimes n 60) \<and>
    parse_duration_tokens (show_nat n @ ''h'') = Ok (FromSecsTimes n 3600) \<and>
    (duration_ms (FromSecsTimes n 3600) = Some (3600000 * n) \<longleftrightarrow> n < 5124095576030432)"
proof -
  have u: "parse_u64 (show_nat n) = Some n"
    using assms hd_show_nat[of n] parse_show_nat[of n] by (cases "show_nat n") (auto simp: parse_u64_def)
  have "last (show_nat n) \<in> digit_char ` {..<10}" using set_show_nat[of n] last_in_set[OF show_nat_nonempty] by blast
  then obtain d where "d < 10" "last (show_nat n) = digit_char d" by auto
  then have "digit_val (last (show_nat n)) \<noteq> None" by simp
  moreover have "digit_val (CHR ''m'') = None" "digit_val (CHR ''s'') = None" "digit_val (CHR ''h'') = None" by code_simp+
  ultimately have last: "last (show_nat n) \<notin> {CHR ''m'', CHR ''s'', CHR ''h''}" by auto
  have s1: "strip_suffix [x] (show_nat n @ [y]) = (if x = y then Some (show_nat n) else None)" for x y
    by (simp add: strip_suffix_def ends_with_def starts_with_def eq_commute)
  have s2: "strip_suffix ''ms'' (show_nat n @ [y]) = None" for y
    using last by (cases "show_nat n" rule: rev_cases) (auto simp: strip_suffix_def ends_with_def starts_with_def)
  have s3: "strip_suffix ''ms'' (show_nat n @ ''ms'') = Some (show_nat n)"
    by (simp add: strip_suffix_def ends_with_def starts_with_def)
  show ?thesis by (simp add: parse_duration_tokens_def s1 s2 s3 u)
qed

section \<open>Witnesses\<close>

definition hub_attrs :: "mmeta list" where
  "hub_attrs =
     [MNameValue [''name''] (EStr ''hub''), MNameValue [''deps''] (EArray [EStr ''dir'']),
      MNameValue [''capabilities''] (EArray [EPath [''grpc_hub''], EStr ''stateful'']),
      MList [''modkit'', ''module'', ''lifecycle''] (Some [MNameValue [''entry''] (EStr ''serve''), MPath [''await_ready'']])]"

definition hub_config :: module_attrs where
  "hub_config = \<lparr>md_name = ''hub'', md_deps = [''dir''], md_caps = [CapGrpcHub, CapStateful], md_ctor = None, md_client = None,
     md_lifecycle = Some \<lparr>lm_entry = ''serve'', lm_stop_timeout = ''30s'', lm_await_ready = True\<rparr>\<rparr>"

definition dir_config :: module_attrs where
  "dir_config = \<lparr>md_name = ''dir'', md_deps = [], md_caps = [CapGrpc, CapSystem], md_ctor = None, md_client = None,
     md_lifecycle = Some \<lparr>lm_entry = ''serve'', lm_stop_timeout = ''30s'', lm_await_ready = False\<rparr>\<rparr>"

definition demo_declared :: "declared list" where
  "demo_declared = [(hub_config, 1, 2), (dir_config, 3, 4)]"

lemma demo_built:
  "case discover_and_build (map (\<lambda>(c, m, wl). registrator c m wl) demo_declared) of
     Some (Ok reg) \<Rightarrow> map me_name (mr_modules reg) = [''dir'', ''hub''] | _ \<Rightarrow> False"
  by code_simp

theorem parameter_order_is_irrelevant_witness:
  "parse_module_attrs (\<lambda>_. []) (rev hub_attrs) = Ok hub_config"
proof -
  have "parse_module_attrs (\<lambda>_. []) hub_attrs = Ok hub_config" by code_simp
  then show ?thesis by (rule parameter_order_is_irrelevant) simp
qed

theorem entries_match_the_attributes_witness:
  "\<exists>reg. discover_and_build (map (\<lambda>(c, m, wl). registrator c m wl) demo_declared) = Some (Ok reg) \<and>
     (\<exists>e \<in> set (mr_modules reg). me_name e = ''hub'' \<and> entry_matches hub_config e)"
proof -
  obtain reg where r: "discover_and_build (map (\<lambda>(c, m, wl). registrator c m wl) demo_declared) = Some (Ok reg)"
    using demo_built by (auto split: option.splits result.splits)
  from entries_match_the_attributes[OF r] have "\<exists>e \<in> set (mr_modules reg). me_name e = md_name hub_config \<and> entry_matches hub_config e"
    by (auto simp: demo_declared_def)
  with r show ?thesis by (auto simp: hub_config_def)
qed

theorem generated_registrators_build_witness:
  "discover_and_build (map (\<lambda>(c, m, wl). registrator c m wl) [(hub_config, 1, 2)]) = Some (Err (UnknownDependency ''hub'' ''dir'')) \<and>
   ((\<exists>es. UnknownDependency ''hub'' ''dir'' = InvalidRegistryConfiguration es \<and> es \<noteq> []) \<or>
    (\<exists>n d. UnknownDependency ''hub'' ''dir'' = UnknownDependency n d) \<or> (\<exists>p. UnknownDependency ''hub'' ''dir'' = CycleDetected p))"
proof -
  have "discover_and_build (map (\<lambda>(c, m, wl). registrator c m wl) [(hub_config, 1, 2)]) = Some (Err (UnknownDependency ''hub'' ''dir''))"
    by code_simp
  with generated_registrators_build[of "[(hub_config, 1, 2)]"] show ?thesis by blast
qed

theorem generated_wrappers_start_witness:
  "\<exists>ex r. expand_module (\<lambda>_. []) (\<lambda>_. True) hub_attrs = Ok ex \<and> ex_runnable ex = Some r \<and>
     stateful_start (rn_wrapper r) 5 = Ok (Starter A_Cas 5 True)"
proof -
  have "parse_module_attrs (\<lambda>_. []) hub_attrs = Ok hub_config" by code_simp
  moreover have "parse_duration_tokens ''30s'' = Ok (FromSecs 30)"
  proof -
    have "strip_suffix ''ms'' ''30s'' = None" "strip_suffix ''s'' ''30s'' = Some ''30''" by code_simp+
    moreover have "parse_u64 ''30'' = Some 30" by (simp add: parse_u64_def parse_nat_def digit_val_def)
    ultimately show ?thesis by (simp add: parse_duration_tokens_def)
  qed
  ultimately obtain ex r where "expand_module (\<lambda>_. []) (\<lambda>_. True) hub_attrs = Ok ex" "ex_runnable ex = Some r" "rn_takes_ready r"
    by (simp add: expand_module_def expand_runnable_def hub_config_def)
  with generated_wrappers_start[of "\<lambda>_. []" "\<lambda>_. True" hub_attrs ex r 5] show ?thesis by auto
qed

theorem lifecycle_needs_stateful_witness:
  "\<exists>reg :: module_registry. \<exists>e \<in> set (mr_modules reg). me_name e = ''dir'' \<and> md_lifecycle dir_config \<noteq> None \<and> me_stateful e = None"
proof -
  obtain reg where r: "discover_and_build (map (\<lambda>(c, m, wl). registrator c m wl) demo_declared) = Some (Ok reg)"
    and n: "map me_name (mr_modules reg) = [''dir'', ''hub'']"
    using demo_built by (auto split: option.splits result.splits)
  from n have "''dir'' \<in> set (map me_name (mr_modules reg))" by simp
  then obtain e where e: "e \<in> set (mr_modules reg)" "me_name e = ''dir''" by auto
  have "me_stateful e = None"
    using lifecycle_needs_stateful[OF r, of dir_config 3 4 _ e] e by (simp add: demo_declared_def dir_config_def)
  moreover have "md_lifecycle dir_config \<noteq> None" by (simp add: dir_config_def)
  ultimately show ?thesis using e by blast
qed

theorem durations_read_back_witness: "parse_duration_tokens (show_nat 45 @ ''s'') = Ok (FromSecs 45)"
  using durations_read_back[of 45] by simp

end
