(* ===== verification/Entity_Derive.thy ===== *)
theory Entity_Derive
  imports Secure_Orm OData_Filter
begin

text \<open>
  The derive macros of \<open>libs/modkit-db-macros/src\<close>: \<open>Scopable\<close> (\<open>scopable.rs\<close>), which turns the attribute
  \<open>#[secure(...)]\<close> of an entity into its columns for the secure layer, and \<open>ODataFilterable\<close>
  (\<open>odata_filterable.rs\<close>), which turns the annotated fields of a DTO into the fields of typed filters.

  The attributes are syntax that \<open>syn\<close> has parsed. \<open>abort!\<close> ends the macro with its message, \<open>emit_error!\<close> records one
  and goes on; either fails the compilation, so the outcome of a macro is the implementation or the list of messages.
  The conversion of identifiers to camel case is a parameter.
\<close>

section \<open>The attribute secure\<close>

datatype meta_value = NoValue | StrValue string | OtherValue

text \<open>One entry of the attribute, and the attribute: its entries, or what \<open>syn\<close> says of one that is no list.\<close>

datatype nested_meta = NestedMeta "string list" meta_value

datatype secure_attr = SecureAttr "nested_meta list" | SecureMalformed string | OtherAttr

datatype dimension = DTenant | DResource | DOwner | DType

fun dim_name :: "dimension \<Rightarrow> string" where
  "dim_name DTenant = ''tenant''"
| "dim_name DResource = ''resource''"
| "dim_name DOwner = ''owner''"
| "dim_name DType = ''type''"

definition dimensions :: "dimension list" where
  "dimensions = [DTenant, DResource, DOwner, DType]"

definition col_key :: "dimension \<Rightarrow> string" where
  "col_key d = dim_name d @ ''_col''"

definition no_key :: "dimension \<Rightarrow> string" where
  "no_key d = ''no_'' @ dim_name d"

text \<open>\<open>SecureConfig\<close>: for each dimension the column and the refusal, and the global flag.\<close>

record secure_config =
  sf_col :: "dimension \<Rightarrow> string option"
  sf_no :: "dimension \<Rightarrow> bool"
  sf_unrestricted :: bool

definition empty_secure :: secure_config where
  "empty_secure = \<lparr>sf_col = (\<lambda>_. None), sf_no = (\<lambda>_. False), sf_unrestricted = False\<rparr>"

definition duplicate_attribute :: "string \<Rightarrow> string" where
  "duplicate_attribute key = ''duplicate attribute '' @ quoted key"

text \<open>One entry; the flag says whether something is left of it, which \<open>parse_nested_meta\<close> reports.\<close>

definition secure_meta :: "nested_meta \<Rightarrow> secure_config \<Rightarrow> (secure_config \<times> bool, string) result" where
  "secure_meta m c =
     (case m of NestedMeta p v \<Rightarrow>
        if p = [''unrestricted''] then
          (if sf_unrestricted c then Err (duplicate_attribute ''unrestricted'')
           else Ok (c\<lparr>sf_unrestricted := True\<rparr>, v \<noteq> NoValue))
        else
          (case find (\<lambda>d. p = [no_key d]) dimensions of
             Some d \<Rightarrow>
               (if sf_no c d then Err (duplicate_attribute (no_key d))
                else Ok (c\<lparr>sf_no := (sf_no c)(d := True)\<rparr>, v \<noteq> NoValue))
           | None \<Rightarrow>
               (case p of
                  [key] \<Rightarrow>
                    (case v of
                       NoValue \<Rightarrow> Err ''Expected '=' followed by a string value''
                     | OtherValue \<Rightarrow> Err ''Expected string literal''
                     | StrValue s \<Rightarrow>
                         (case find (\<lambda>d. key = col_key d) dimensions of
                            Some d \<Rightarrow>
                              (if sf_col c d \<noteq> None then Err (duplicate_attribute (col_key d))
                               else Ok (c\<lparr>sf_col := (sf_col c)(d := Some s)\<rparr>, False))
                          | None \<Rightarrow> Err (''Unknown attribute '' @ quoted key)))
                | _ \<Rightarrow> Err ''Expected attribute name'')))"

fun secure_metas :: "nested_meta list \<Rightarrow> secure_config \<Rightarrow> (secure_config \<times> string list, string) result" where
  "secure_metas [] c = Ok (c, [])"
| "secure_metas (m # ms) c =
     (case secure_meta m c of
        Err e \<Rightarrow> Err e
      | Ok (c, True) \<Rightarrow> Ok (c, [''expected `,`''])
      | Ok (c, False) \<Rightarrow> secure_metas ms c)"

text \<open>All attributes; the list holds the errors emitted so far, an abort adds the last one.\<close>

fun parse_secure_attrs ::
    "secure_attr list \<Rightarrow> secure_config \<Rightarrow> string list \<Rightarrow> (secure_config \<times> string list, string list) result" where
  "parse_secure_attrs [] c emitted = Ok (c, emitted)"
| "parse_secure_attrs (OtherAttr # as) c emitted = parse_secure_attrs as c emitted"
| "parse_secure_attrs (SecureMalformed e # as) c emitted = parse_secure_attrs as c (emitted @ [e])"
| "parse_secure_attrs (SecureAttr ms # as) c emitted =
     (case secure_metas ms c of
        Err e \<Rightarrow> Err (emitted @ [e])
      | Ok (c, errs) \<Rightarrow> parse_secure_attrs as c (emitted @ errs))"

section \<open>Validation\<close>

definition unrestricted_conflicts :: "secure_config \<Rightarrow> string list" where
  "unrestricted_conflicts c =
     concat (map (\<lambda>d.
        (if sf_col c d \<noteq> None then [''Cannot use 'unrestricted' with '' @ quoted (col_key d)] else []) @
        (if sf_no c d then [''Cannot use 'unrestricted' with '' @ quoted (no_key d)] else [])) dimensions)"

definition validate_dimension :: "string \<Rightarrow> string option \<Rightarrow> bool \<Rightarrow> (unit, string list) result" where
  "validate_dimension name col no_col =
     (case (col, no_col) of
        (None, False) \<Rightarrow> Err [''secure: missing explicit decision for '' @ name]
      | (Some _, True) \<Rightarrow>
          Err [''secure: conflicting attributes for '' @ name, ''secure: specify either `'' @ name @ ''_col` or `no_'' @ name @ ''`, not both'']
      | _ \<Rightarrow> Ok ())"

definition validate_config :: "secure_config \<Rightarrow> (unit, string list) result" where
  "validate_config c =
     (if sf_unrestricted c then
        (if unrestricted_conflicts c \<noteq> []
         then Err (unrestricted_conflicts c @ [''When using 'unrestricted', no other column attributes are allowed''])
         else Ok ())
      else
        map_err id
          (and_then (validate_dimension ''tenant'' (sf_col c DTenant) (sf_no c DTenant)) (\<lambda>_.
           and_then (validate_dimension ''resource'' (sf_col c DResource) (sf_no c DResource)) (\<lambda>_.
           and_then (validate_dimension ''owner'' (sf_col c DOwner) (sf_no c DOwner)) (\<lambda>_.
             validate_dimension ''type'' (sf_col c DType) (sf_no c DType))))))"

section \<open>The implementation\<close>

text \<open>The generated \<open>IS_UNRESTRICTED\<close> and the columns.\<close>

record scopable_impl =
  si_unrestricted :: bool
  si_entity :: "string scopable_entity"

definition generate_col :: "(string \<Rightarrow> string) \<Rightarrow> secure_config \<Rightarrow> dimension \<Rightarrow> string option" where
  "generate_col camel c d = map_option camel (sf_col c d)"

definition expand_derive_scopable ::
    "(string \<Rightarrow> string) \<Rightarrow> bool \<Rightarrow> string \<Rightarrow> secure_attr list \<Rightarrow> (scopable_impl, string list) result" where
  "expand_derive_scopable camel is_struct table attrs =
     (if \<not> is_struct then Err [''#[derive(Scopable)] can only be applied to structs'']
      else
        (case parse_secure_attrs attrs empty_secure [] of
           Err es \<Rightarrow> Err es
         | Ok (c, emitted) \<Rightarrow>
             (case validate_config c of
                Err es \<Rightarrow> Err (emitted @ es)
              | Ok _ \<Rightarrow>
                  (if emitted \<noteq> [] then Err emitted
                   else if sf_unrestricted c then
                     Ok \<lparr>si_unrestricted = True,
                       si_entity = \<lparr>se_table = table, se_tenant_col = None, se_resource_col = None, se_owner_col = None,
                         se_type_col = None\<rparr>\<rparr>
                   else
                     Ok \<lparr>si_unrestricted = False,
                       si_entity = \<lparr>se_table = table, se_tenant_col = generate_col camel c DTenant,
                         se_resource_col = generate_col camel c DResource, se_owner_col = generate_col camel c DOwner,
                         se_type_col = generate_col camel c DType\<rparr>\<rparr>))))"

section \<open>The fields of typed filters\<close>

text \<open>\<open>#[odata(filter(kind = "..."))]\<close>: the entries of \<open>filter\<close> with their values, other entries, and what follows them.\<close>

datatype lit_value = NoLit | StrLit string | OtherLit | NotLit

datatype odata_item = FilterGroup "(string \<times> lit_value) list" | FilterNoGroup | OdataOther bool

datatype odata_attr = OdataAttr "odata_item list" | OdataMalformed string | OdataForeign

record dto_field =
  df_ident :: "string option"
  df_attrs :: "odata_attr list"

record filterable_field =
  fl_name :: string
  fl_kind :: string

text \<open>The group of one \<open>filter\<close>: the kind found, the errors emitted, and the error that ends it.\<close>

fun filter_group :: "(string \<times> lit_value) list \<Rightarrow> string option \<Rightarrow> string option \<times> string list \<times> string option" where
  "filter_group [] k = (k, [], None)"
| "filter_group ((key, v) # xs) k =
     (if key = ''kind'' then
        (case v of
           StrLit s \<Rightarrow> filter_group xs (Some s)
         | OtherLit \<Rightarrow>
             (case filter_group xs k of (k, es, e) \<Rightarrow> (k, ''kind value must be a string literal'' # es, e))
         | NoLit \<Rightarrow> (k, [], Some ''expected `=`'')
         | NotLit \<Rightarrow> (k, [], Some ''expected literal''))
      else if v = NoLit then filter_group xs k
      else (k, [], Some ''expected `,`''))"

fun odata_items :: "odata_item list \<Rightarrow> string option \<Rightarrow> string option \<times> string list \<times> string option" where
  "odata_items [] k = (k, [], None)"
| "odata_items (FilterGroup xs # its) k =
     (case filter_group xs k of
        (k, es, Some e) \<Rightarrow> (k, es, Some e)
      | (k, es, None) \<Rightarrow> (case odata_items its k of (k, es', e) \<Rightarrow> (k, es @ es', e)))"
| "odata_items (FilterNoGroup # its) k = (k, [], Some ''expected parentheses'')"
| "odata_items (OdataOther rest # its) k = (if rest then (k, [], Some ''expected `,`'') else odata_items its k)"

fun odata_attrs :: "odata_attr list \<Rightarrow> string option \<Rightarrow> string option \<times> string list" where
  "odata_attrs [] k = (k, [])"
| "odata_attrs (OdataForeign # as) k = odata_attrs as k"
| "odata_attrs (OdataMalformed e # as) k =
     (case odata_attrs as k of (k, es) \<Rightarrow> (k, (''Failed to parse #[odata] attribute: '' @ e) # es))"
| "odata_attrs (OdataAttr its # as) k =
     (case odata_items its k of (k, es, e) \<Rightarrow>
        (case odata_attrs as k of (k, es') \<Rightarrow>
          (k, es @ (case e of Some e \<Rightarrow> [''Failed to parse #[odata] attribute: '' @ e] | None \<Rightarrow> []) @ es')))"

definition parse_field_attrs :: "dto_field \<Rightarrow> filterable_field option \<times> string list" where
  "parse_field_attrs f =
     (case df_ident f of
        None \<Rightarrow> (None, [])
      | Some n \<Rightarrow> (case odata_attrs (df_attrs f) None of (k, es) \<Rightarrow> (map_option (\<lambda>k. \<lparr>fl_name = n, fl_kind = k\<rparr>) k, es)))"

datatype dto_shape = NamedStruct "dto_field list" | OtherStruct | NoStruct

definition kind_of_ident :: "string \<Rightarrow> field_kind option" where
  "kind_of_ident s = find (\<lambda>k. show_field_kind k = s) [KString, KI64, KF64, KBool, KUuid, KDateTimeUtc, KDate, KTime, KDecimal]"

text \<open>The generated enum and its trait. Two fields with one variant and a kind that does not exist fail the
  compilation of the generated code.\<close>

definition generate_filter_field ::
    "(string \<Rightarrow> string) \<Rightarrow> filterable_field list \<Rightarrow> (string filter_field, string list) result" where
  "generate_filter_field camel fs =
     (let variants = map (\<lambda>f. camel (fl_name f)) fs
      in if \<not> distinct variants then Err [''the name is defined multiple times'']
         else if \<not> list_all (\<lambda>f. kind_of_ident (fl_kind f) \<noteq> None) fs then Err [''no variant of FieldKind with this name'']
         else
           Ok \<lparr>ff_fields = variants,
             ff_name = (\<lambda>v. case map_of (zip variants (map fl_name fs)) v of Some n \<Rightarrow> n | None \<Rightarrow> []),
             ff_kind = (\<lambda>v. case Option.bind (map_of (zip variants (map fl_kind fs)) v) kind_of_ident of
                Some k \<Rightarrow> k | None \<Rightarrow> KString)\<rparr>)"

definition expand_derive_odata_filterable ::
    "(string \<Rightarrow> string) \<Rightarrow> dto_shape \<Rightarrow> (string filter_field, string list) result" where
  "expand_derive_odata_filterable camel input =
     (case input of
        NoStruct \<Rightarrow> Err [''#[derive(ODataFilterable)] can only be applied to structs'']
      | OtherStruct \<Rightarrow> Err [''#[derive(ODataFilterable)] requires a struct with named fields'']
      | NamedStruct members \<Rightarrow>
          (let parsed = map parse_field_attrs members;
               emitted = concat (map snd parsed);
               filterable_fields = List.map_filter fst parsed
           in if filterable_fields = [] then Err (emitted @ [''No filterable fields found.''])
              else if emitted \<noteq> [] then Err emitted
              else generate_filter_field camel filterable_fields))"

section \<open>Lemmas\<close>

lemma keys_inj [simp]: "no_key d = no_key d' \<longleftrightarrow> d = d'" "col_key d = col_key d' \<longleftrightarrow> d = d'"
  by (cases d; cases d'; simp add: no_key_def col_key_def)+

lemma keys_apart [simp]: "no_key d \<noteq> col_key d'" "col_key d' \<noteq> no_key d" "no_key d \<noteq> ''unrestricted''"
  "col_key d \<noteq> ''unrestricted''" "''unrestricted'' \<noteq> no_key d" "''unrestricted'' \<noteq> col_key d"
  by (cases d; cases d'; simp add: no_key_def col_key_def)+

lemma all_dimensions [simp]: "d \<in> set dimensions"
  by (cases d) (simp_all add: dimensions_def)

lemma find_no: "find (\<lambda>d. p = [no_key d]) dimensions = Some d \<longleftrightarrow> p = [no_key d]"
  by (cases d) (auto simp: dimensions_def)

lemma find_col: "find (\<lambda>d. key = col_key d) dimensions = Some d \<longleftrightarrow> key = col_key d"
  by (cases d) (auto simp: dimensions_def)

text \<open>What a configuration says of the entries it was read from.\<close>

definition reads_as :: "nested_meta list \<Rightarrow> secure_config \<Rightarrow> bool" where
  "reads_as ms c \<longleftrightarrow> (\<forall>d s. sf_col c d = Some s \<longleftrightarrow> NestedMeta [col_key d] (StrValue s) \<in> set ms) \<and>
     (\<forall>d. sf_no c d \<longleftrightarrow> NestedMeta [no_key d] NoValue \<in> set ms) \<and>
     (sf_unrestricted c \<longleftrightarrow> NestedMeta [''unrestricted''] NoValue \<in> set ms)"

lemma secure_meta_accepts:
  assumes "secure_meta m c = Ok (c', False)"
  obtains (unrestricted) "m = NestedMeta [''unrestricted''] NoValue" "c' = c\<lparr>sf_unrestricted := True\<rparr>"
  | (no) d where "m = NestedMeta [no_key d] NoValue" "c' = c\<lparr>sf_no := (sf_no c)(d := True)\<rparr>"
  | (col) d s where "m = NestedMeta [col_key d] (StrValue s)" "sf_col c d = None" "c' = c\<lparr>sf_col := (sf_col c)(d := Some s)\<rparr>"
proof -
  obtain p v where m: "m = NestedMeta p v" by (cases m)
  show thesis
  proof (cases "p = [''unrestricted'']")
    case True
    with assms m unrestricted show ?thesis by (auto simp: secure_meta_def split: if_splits)
  next
    case u: False
    show ?thesis
    proof (cases "find (\<lambda>d. p = [no_key d]) dimensions")
      case (Some d)
      with assms m u no[of d] find_no[of p d] show ?thesis by (auto simp: secure_meta_def split: if_splits)
    next
      case None
      then obtain key s where k: "p = [key]" "v = StrValue s"
        using assms m u by (auto simp: secure_meta_def split: list.splits meta_value.splits)
      then obtain d where "find (\<lambda>d. key = col_key d) dimensions = Some d"
        using assms m u None by (auto simp: secure_meta_def split: option.splits)
      with assms m u None k col[of d s] find_col[of key d] show ?thesis by (auto simp: secure_meta_def split: if_splits)
    qed
  qed
qed

lemma secure_meta_reads:
  assumes "secure_meta m c = Ok (c', False)" "reads_as ms c"
  shows "reads_as (ms @ [m]) c'"
  using assms(1)
proof (cases rule: secure_meta_accepts)
  case (col d s)
  have "NestedMeta [col_key d] (StrValue s') \<notin> set ms" for s' using assms(2) col(2) unfolding reads_as_def by (metis option.distinct(1))
  with assms(2) col show ?thesis by (auto simp: reads_as_def)
qed (use assms(2) in \<open>auto simp: reads_as_def\<close>)

lemma secure_metas_reads:
  "secure_metas ms c = Ok (c', []) \<Longrightarrow> reads_as ms0 c \<Longrightarrow> reads_as (ms0 @ ms) c'"
proof (induction ms arbitrary: c ms0)
  case (Cons m ms)
  obtain c1 where "secure_meta m c = Ok (c1, False)" "secure_metas ms c1 = Ok (c', [])"
    using Cons.prems(1) by (auto split: result.splits bool.splits)
  with Cons.IH[of c1 "ms0 @ [m]"] secure_meta_reads Cons.prems(2) show ?case by simp
qed simp

fun attr_metas :: "secure_attr list \<Rightarrow> nested_meta list" where
  "attr_metas [] = []"
| "attr_metas (SecureAttr ms # as) = ms @ attr_metas as"
| "attr_metas (_ # as) = attr_metas as"

lemma parse_attrs_emitted: "parse_secure_attrs attrs c em = Ok (c', em') \<Longrightarrow> \<exists>x. em' = em @ x"
  by (induction attrs c em rule: parse_secure_attrs.induct) (fastforce split: result.splits)+

lemma parse_attrs_reads:
  "parse_secure_attrs attrs c [] = Ok (c', []) \<Longrightarrow> reads_as ms0 c \<Longrightarrow> reads_as (ms0 @ attr_metas attrs) c'"
proof (induction attrs arbitrary: c ms0)
  case (Cons a attrs)
  show ?case
  proof (cases a)
    case (SecureAttr ms)
    then obtain c1 es where m: "secure_metas ms c = Ok (c1, es)" "parse_secure_attrs attrs c1 es = Ok (c', [])"
      using Cons.prems(1) by (auto split: result.splits)
    with parse_attrs_emitted[OF m(2)] have "es = []" by simp
    with m SecureAttr Cons.IH[of c1 "ms0 @ ms"] secure_metas_reads[of ms c c1 ms0] Cons.prems(2) show ?thesis by simp
  next
    case (SecureMalformed e)
    with Cons.prems parse_attrs_emitted[of attrs c "[e]" c' "[]"] show ?thesis by simp
  next
    case OtherAttr
    with Cons show ?thesis by simp
  qed
qed simp

fun entity_col :: "'c scopable_entity \<Rightarrow> dimension \<Rightarrow> 'c option" where
  "entity_col E DTenant = se_tenant_col E"
| "entity_col E DResource = se_resource_col E"
| "entity_col E DOwner = se_owner_col E"
| "entity_col E DType = se_type_col E"

lemma validate_dimension_Ok: "validate_dimension n col no_col = Ok () \<longleftrightarrow> (col = None) = no_col"
  by (auto simp: validate_dimension_def split: option.splits bool.splits)

lemma validate_config_Ok:
  "validate_config c = Ok () \<longleftrightarrow>
     (if sf_unrestricted c then \<forall>d. sf_col c d = None \<and> \<not> sf_no c d else \<forall>d. sf_col c d = None \<longleftrightarrow> sf_no c d)"
proof -
  have all: "(\<forall>d. P d) \<longleftrightarrow> P DTenant \<and> P DResource \<and> P DOwner \<and> P DType" for P by (metis dimension.exhaust)
  show ?thesis unfolding all
    by (auto simp: validate_config_def unrestricted_conflicts_def dimensions_def res_simps validate_dimension_Ok)
qed

lemma derive_scopable_Ok:
  assumes "expand_derive_scopable camel is_struct table attrs = Ok I"
  obtains c where "reads_as (attr_metas attrs) c" "si_unrestricted I = sf_unrestricted c"
    "\<And>d. entity_col (si_entity I) d = (if sf_unrestricted c then None else map_option camel (sf_col c d))"
    "if sf_unrestricted c then \<forall>d. sf_col c d = None \<and> \<not> sf_no c d else \<forall>d. sf_col c d = None \<longleftrightarrow> sf_no c d"
proof -
  from assms obtain c em u where p: "parse_secure_attrs attrs empty_secure [] = Ok (c, em)" and v: "validate_config c = Ok u"
    and em: "em = []" by (auto simp: expand_derive_scopable_def split: if_splits result.splits)
  have "reads_as (attr_metas attrs) c"
    using parse_attrs_reads[of attrs empty_secure c "[]"] p em by (auto simp: reads_as_def empty_secure_def)
  moreover have I: "I = \<lparr>si_unrestricted = sf_unrestricted c,
      si_entity = \<lparr>se_table = table, se_tenant_col = (if sf_unrestricted c then None else map_option camel (sf_col c DTenant)),
        se_resource_col = (if sf_unrestricted c then None else map_option camel (sf_col c DResource)),
        se_owner_col = (if sf_unrestricted c then None else map_option camel (sf_col c DOwner)),
        se_type_col = (if sf_unrestricted c then None else map_option camel (sf_col c DType))\<rparr>\<rparr>"
    using assms p v em by (auto simp: expand_derive_scopable_def generate_col_def split: if_splits)
  moreover have "entity_col (si_entity I) d = (if sf_unrestricted c then None else map_option camel (sf_col c d))" for d
    unfolding I by (cases d) simp_all
  ultimately show thesis using that v validate_config_Ok[of c] by simp
qed

lemma map_of_zip_distinct:
  "distinct (map g fs) \<Longrightarrow> f \<in> set fs \<Longrightarrow> map_of (zip (map g fs) (map h fs)) (g f) = Some (h f)"
  by (induction fs) (auto simp: image_iff)

lemma derive_filterable_Ok:
  assumes "expand_derive_odata_filterable camel (NamedStruct members) = Ok ff"
  shows "distinct (ff_fields ff) \<and> ff_fields ff \<noteq> [] \<and>
    (\<forall>m \<in> set members. \<forall>f. fst (parse_field_attrs m) = Some f \<longrightarrow> camel (fl_name f) \<in> set (ff_fields ff) \<and>
       ff_name ff (camel (fl_name f)) = fl_name f \<and> show_field_kind (ff_kind ff (camel (fl_name f))) = fl_kind f) \<and>
    (\<forall>v \<in> set (ff_fields ff). \<exists>m \<in> set members. \<exists>f. fst (parse_field_attrs m) = Some f \<and> v = camel (fl_name f))"
proof -
  let ?fs = "List.map_filter fst (map parse_field_attrs members)"
  have mem: "f \<in> set ?fs \<longleftrightarrow> (\<exists>m \<in> set members. fst (parse_field_attrs m) = Some f)" for f
    by (force simp: map_filter_def)
  from assms have ne: "?fs \<noteq> []" and d: "distinct (map (\<lambda>f. camel (fl_name f)) ?fs)"
    and k: "list_all (\<lambda>f. kind_of_ident (fl_kind f) \<noteq> None) ?fs"
    and ff: "ff = \<lparr>ff_fields = map (\<lambda>f. camel (fl_name f)) ?fs,
      ff_name = (\<lambda>v. case map_of (zip (map (\<lambda>f. camel (fl_name f)) ?fs) (map fl_name ?fs)) v of Some n \<Rightarrow> n | None \<Rightarrow> []),
      ff_kind = (\<lambda>v. case Option.bind (map_of (zip (map (\<lambda>f. camel (fl_name f)) ?fs) (map fl_kind ?fs)) v) kind_of_ident of
        Some k \<Rightarrow> k | None \<Rightarrow> KString)\<rparr>"
    by (auto simp: expand_derive_odata_filterable_def generate_filter_field_def Let_def split: if_splits)
  have each: "ff_name ff (camel (fl_name f)) = fl_name f \<and> show_field_kind (ff_kind ff (camel (fl_name f))) = fl_kind f"
    if "f \<in> set ?fs" for f
  proof -
    note z = map_of_zip_distinct[OF d that, of fl_name] map_of_zip_distinct[OF d that, of fl_kind]
    have "kind_of_ident (fl_kind f) \<noteq> None" using k that unfolding list_all_iff by blast
    then obtain x where x: "kind_of_ident (fl_kind f) = Some x" by blast
    then have "show_field_kind x = fl_kind f" unfolding kind_of_ident_def find_Some_iff by auto
    with x z show ?thesis unfolding ff by simp
  qed
  have set: "set (ff_fields ff) = (\<lambda>f. camel (fl_name f)) ` set ?fs" "ff_fields ff = map (\<lambda>f. camel (fl_name f)) ?fs"
    by (simp_all add: ff)
  show ?thesis
  proof (intro conjI ballI allI impI)
    show "distinct (ff_fields ff)" "ff_fields ff \<noteq> []" using d ne unfolding set by simp_all
  next
    fix m f assume "m \<in> set members" "fst (parse_field_attrs m) = Some f"
    then have f: "f \<in> set ?fs" using mem by blast
    then show "camel (fl_name f) \<in> set (ff_fields ff)" unfolding set(1) by (rule imageI)
    show "ff_name ff (camel (fl_name f)) = fl_name f" by (rule conjunct1[OF each[OF f]])
    show "show_field_kind (ff_kind ff (camel (fl_name f))) = fl_kind f" by (rule conjunct2[OF each[OF f]])
  next
    fix v assume "v \<in> set (ff_fields ff)"
    then obtain f where f: "f \<in> set ?fs" "v = camel (fl_name f)" unfolding set by auto
    from f(1) obtain m where "m \<in> set members" "fst (parse_field_attrs m) = Some f" using mem by blast
    with f(2) show "\<exists>m \<in> set members. \<exists>f. fst (parse_field_attrs m) = Some f \<and> v = camel (fl_name f)" by blast
  qed
qed

fun node_fields :: "'f filter_node \<Rightarrow> 'f set" where
  "node_fields (Binary f op v) = {f}"
| "node_fields (Composite op ns) = \<Union> (node_fields ` set ns)"
| "node_fields (NotNode n) = node_fields n"

lemma wf_node_fields: "wf_node ff n \<Longrightarrow> node_fields n \<subseteq> set (ff_fields ff)"
  by (induction ff n rule: wf_node.induct) auto

section \<open>Properties\<close>

text \<open>An entity whose derive compiles has one explicit decision for each dimension, or the global flag and no
  other: no column is absent because it was forgotten.\<close>

theorem derived_entity_decides_every_dimension:
  assumes "expand_derive_scopable camel is_struct table attrs = Ok I"
  shows "(si_unrestricted I \<longleftrightarrow> NestedMeta [''unrestricted''] NoValue \<in> set (attr_metas attrs)) \<and>
    (\<forall>d. case entity_col (si_entity I) d of
       Some col \<Rightarrow> \<not> si_unrestricted I \<and> NestedMeta [no_key d] NoValue \<notin> set (attr_metas attrs) \<and>
         (\<exists>s. col = camel s \<and> NestedMeta [col_key d] (StrValue s) \<in> set (attr_metas attrs))
     | None \<Rightarrow> (\<forall>s. NestedMeta [col_key d] (StrValue s) \<notin> set (attr_metas attrs)) \<and>
         (NestedMeta [no_key d] NoValue \<in> set (attr_metas attrs) \<longleftrightarrow> \<not> si_unrestricted I))"
proof -
  from derive_scopable_Ok[OF assms] obtain c where c: "reads_as (attr_metas attrs) c" "si_unrestricted I = sf_unrestricted c"
    "\<And>d. entity_col (si_entity I) d = (if sf_unrestricted c then None else map_option camel (sf_col c d))"
    "if sf_unrestricted c then \<forall>d. sf_col c d = None \<and> \<not> sf_no c d else \<forall>d. sf_col c d = None \<longleftrightarrow> sf_no c d" by blast
  have col: "NestedMeta [col_key d] (StrValue s) \<in> set (attr_metas attrs) \<longleftrightarrow> sf_col c d = Some s" for d s
    using c(1) by (simp add: reads_as_def)
  have rest: "NestedMeta [no_key d] NoValue \<in> set (attr_metas attrs) \<longleftrightarrow> sf_no c d"
    "NestedMeta [''unrestricted''] NoValue \<in> set (attr_metas attrs) \<longleftrightarrow> sf_unrestricted c" for d
    using c(1) by (simp_all add: reads_as_def)
  have "\<not> sf_unrestricted c \<Longrightarrow> sf_no c d = (sf_col c d = None)" "sf_unrestricted c \<Longrightarrow> sf_col c d = None \<and> \<not> sf_no c d" for d
    using c(4) by auto
  then show ?thesis unfolding col rest c(2,3) by (auto split: option.split)
qed

text \<open>From the attribute to the rows: whatever is read through an entity derived with a tenant column, in a scope
  of tenants that is not the root's, has a tenant of the scope in that column.\<close>

theorem derived_tenant_column_isolates:
  assumes "expand_derive_scopable camel is_struct table attrs = Ok I"
    and "NestedMeta [''tenant_col''] (StrValue s) \<in> set (attr_metas attrs)"
    and "answers_sql cn" "scoped_chain (si_entity I) scope q" "\<not> is_root scope" "tenant_ids scope \<noteq> []"
    and "ss_all cn rows q = Ok found" "r \<in> set found"
  shows "r \<in> set rows \<and> column_in (cn_sem cn) (cn_col cn r) (Some (camel s)) (tenant_ids scope)"
proof -
  from derive_scopable_Ok[OF assms(1)] obtain c where c: "reads_as (attr_metas attrs) c"
    "\<And>d. entity_col (si_entity I) d = (if sf_unrestricted c then None else map_option camel (sf_col c d))"
    "if sf_unrestricted c then \<forall>d. sf_col c d = None \<and> \<not> sf_no c d else \<forall>d. sf_col c d = None \<longleftrightarrow> sf_no c d" by blast
  have "col_key DTenant = ''tenant_col''" by (simp add: col_key_def)
  then have "sf_col c DTenant = Some s" using c(1) assms(2) unfolding reads_as_def by metis
  then have "se_tenant_col (si_entity I) = Some (camel s)" using c(2)[of DTenant] c(3) by (auto split: if_splits)
  moreover have "r \<in> set rows \<and> in_scope (cn_sem cn) (si_entity I) scope (cn_col cn r)"
    using chain_answer_allowed[OF assms(3,4), of rows "into_inner q" found r "[]"] assms(7,8) by (simp add: ss_all_def)
  ultimately show ?thesis using assms(5,6) by (simp add: in_scope_def)
qed

text \<open>The global flag opens nothing: reading an unrestricted entity in a scope of tenants or resources that is not the
  root's finds no row.\<close>

theorem unrestricted_entity_is_closed:
  assumes "expand_derive_scopable camel is_struct table attrs = Ok I" "si_unrestricted I"
    and "answers_sql cn" "scoped_chain (si_entity I) scope q" "\<not> is_root scope"
    and "ss_all cn rows q = Ok found"
  shows "found = []"
proof (rule ccontr)
  assume "found \<noteq> []"
  then obtain r where r: "r \<in> set found" by (cases found) auto
  from derive_scopable_Ok[OF assms(1)] obtain c where "reads_as (attr_metas attrs) c"
    and u: "si_unrestricted I = sf_unrestricted c"
    and e: "\<And>d. entity_col (si_entity I) d = (if sf_unrestricted c then None else map_option camel (sf_col c d))"
    and "if sf_unrestricted c then \<forall>d. sf_col c d = None \<and> \<not> sf_no c d else \<forall>d. sf_col c d = None \<longleftrightarrow> sf_no c d" by blast
  from u e[of DTenant] e[of DResource]
  have n: "se_tenant_col (si_entity I) = None" "se_resource_col (si_entity I) = None" using assms(2) by simp_all
  have "in_scope (cn_sem cn) (si_entity I) scope (cn_col cn r)"
    using chain_answer_allowed[OF assms(3,4), of rows "into_inner q" found r "[]"] assms(6) r by (simp add: ss_all_def)
  then show False using assms(5) unfolding in_scope_def n column_in_def option.case by blast
qed

text \<open>A filter that the typed conversion accepts over a derived DTO reaches annotated fields only, each under its
  own name and with the kind of its annotation.\<close>

theorem derived_filters_reach_annotated_fields:
  assumes "expand_derive_odata_filterable camel (NamedStruct members) = Ok ff"
    and "convert_expr_to_filter_node ff e = Ok n" "v \<in> node_fields n"
  shows "\<exists>m \<in> set members. \<exists>f. fst (parse_field_attrs m) = Some f \<and> v = camel (fl_name f) \<and> ff_name ff v = fl_name f \<and>
    show_field_kind (ff_kind ff v) = fl_kind f"
proof -
  have "v \<in> set (ff_fields ff)" using wf_node_fields[OF convert_wf[OF assms(2)]] assms(3) by blast
  with derive_filterable_Ok[OF assms(1)] obtain m f where "m \<in> set members" "fst (parse_field_attrs m) = Some f"
    "v = camel (fl_name f)" by blast
  moreover from this derive_filterable_Ok[OF assms(1)] have "ff_name ff v = fl_name f"
    "show_field_kind (ff_kind ff v) = fl_kind f" by blast+
  ultimately show ?thesis by blast
qed

section \<open>Witnesses\<close>

text \<open>Here the column names stand for their variants.\<close>

definition doc_attrs :: "secure_attr list" where
  "doc_attrs = [SecureAttr [NestedMeta [''tenant_col''] (StrValue ''tenant_id''), NestedMeta [''no_owner''] NoValue],
     OtherAttr, SecureAttr [NestedMeta [''resource_col''] (StrValue ''id''), NestedMeta [''no_type''] NoValue]]"

lemma doc_derives: "expand_derive_scopable (\<lambda>s. s) True ''docs'' doc_attrs = Ok \<lparr>si_unrestricted = False, si_entity = doc_entity\<rparr>"
  by code_simp

definition global_entity :: "string scopable_entity" where
  "global_entity = \<lparr>se_table = ''docs'', se_tenant_col = None, se_resource_col = None, se_owner_col = None, se_type_col = None\<rparr>"

lemma global_derives:
  "expand_derive_scopable (\<lambda>s. s) True ''docs'' [SecureAttr [NestedMeta [''unrestricted''] NoValue]] =
     Ok \<lparr>si_unrestricted = True, si_entity = global_entity\<rparr>"
  by code_simp

theorem derived_entity_decides_every_dimension_witness:
  "entity_col doc_entity DTenant = Some ''tenant_id'' \<and> NestedMeta [no_key DTenant] NoValue \<notin> set (attr_metas doc_attrs) \<and>
   NestedMeta [no_key DOwner] NoValue \<in> set (attr_metas doc_attrs)"
proof -
  note d = derived_entity_decides_every_dimension[OF doc_derives]
  from d[THEN conjunct2, THEN spec, of DTenant] d[THEN conjunct2, THEN spec, of DOwner] show ?thesis
    by (simp add: doc_entity_def)
qed

lemma tenant_chain: "scoped_chain E (scope_tenant 7) (sc_find E (for_tenant 7 1))"
  using sc_find_chain[of E "for_tenant 7 1"] by (simp add: ctx_defs scope_tenant_def)

lemma tenant_scope: "\<not> is_root (scope_tenant 7)" "tenant_ids (scope_tenant 7) \<noteq> []"
  by (simp_all add: scope_defs)

theorem derived_tenant_column_isolates_witness:
  "ss_all doc_conn docs (sc_find doc_entity (for_tenant 7 1)) = Ok [(1, 7), (3, 7)] \<and>
   column_in uuid_sem (doc_col (3, 7)) (Some ''tenant_id'') [7]"
proof -
  have q: "ss_all doc_conn docs (sc_find doc_entity (for_tenant 7 1)) = Ok [(1, 7), (3, 7)]" by code_simp
  have m: "NestedMeta [''tenant_col''] (StrValue ''tenant_id'') \<in> set (attr_metas doc_attrs)" by (simp add: doc_attrs_def)
  have c: "scoped_chain (si_entity \<lparr>si_unrestricted = False, si_entity = doc_entity\<rparr>) (scope_tenant 7)
      (sc_find doc_entity (for_tenant 7 1))" unfolding scopable_impl.select_convs by (rule tenant_chain)
  have "column_in (cn_sem doc_conn) (cn_col doc_conn (3, 7)) (Some ''tenant_id'') (tenant_ids (scope_tenant 7))"
    using derived_tenant_column_isolates[OF doc_derives m doc_conn_answers c tenant_scope q, of "(3, 7)"] by simp
  with q show ?thesis by (simp add: doc_conn_def scope_defs)
qed

theorem unrestricted_entity_is_closed_witness:
  "ss_all doc_conn docs (sc_find global_entity (for_tenant 7 1)) = Ok []"
proof -
  have "case ss_all doc_conn docs (sc_find global_entity (for_tenant 7 1)) of Ok _ \<Rightarrow> True | Err _ \<Rightarrow> False" by code_simp
  then obtain found where f: "ss_all doc_conn docs (sc_find global_entity (for_tenant 7 1)) = Ok found" by (auto split: result.splits)
  have c: "scoped_chain (si_entity \<lparr>si_unrestricted = True, si_entity = global_entity\<rparr>) (scope_tenant 7)
      (sc_find global_entity (for_tenant 7 1))" unfolding scopable_impl.select_convs by (rule tenant_chain)
  have "found = []"
    by (rule unrestricted_entity_is_closed[OF global_derives _ doc_conn_answers c tenant_scope(1) f]) simp
  with f show ?thesis by simp
qed

definition user_dto :: "dto_field list" where
  "user_dto = [\<lparr>df_ident = Some ''name'', df_attrs = [OdataAttr [FilterGroup [(''kind'', StrLit ''String'')]]]\<rparr>,
     \<lparr>df_ident = Some ''id'', df_attrs = [OdataForeign, OdataAttr [FilterGroup [(''kind'', StrLit ''I64'')]]]\<rparr>,
     \<lparr>df_ident = Some ''secret'', df_attrs = []\<rparr>]"

theorem derived_filters_reach_annotated_fields_witness:
  "\<exists>ff. expand_derive_odata_filterable (\<lambda>s. s) (NamedStruct user_dto) = Ok ff \<and>
     convert_expr_to_filter_node ff demo_filter = Ok demo_node \<and> ''id'' \<in> node_fields demo_node \<and> ff_name ff ''id'' = ''id''"
proof -
  have "case expand_derive_odata_filterable (\<lambda>s. s) (NamedStruct user_dto) of
      Ok ff \<Rightarrow> convert_expr_to_filter_node ff demo_filter = Ok demo_node | Err _ \<Rightarrow> False" by code_simp
  then obtain ff where f: "expand_derive_odata_filterable (\<lambda>s. s) (NamedStruct user_dto) = Ok ff"
    "convert_expr_to_filter_node ff demo_filter = Ok demo_node" by (auto split: result.splits)
  have n: "''id'' \<in> node_fields demo_node" by (simp add: demo_node_def)
  from derived_filters_reach_annotated_fields[OF f n] have "ff_name ff ''id'' = ''id''" by auto
  with f n show ?thesis by blast
qed

end
