(* ===== verification/Db_Handle.thy ===== *)
theory Db_Handle
  imports Advisory_Locks Db_Config
begin

text \<open>
  Database handles made from a DSN: \<open>libs/modkit-db/src/lib.rs\<close>, \<open>sqlite/dsn.rs\<close>, \<open>sqlite/path.rs\<close>,
  \<open>sqlite/pragmas.rs\<close> and \<open>pool_opts.rs\<close>.

  The \<open>url\<close> crate is a parameter (\<open>url_env\<close>): it parses a text, gives the decoded pairs of the query, and sets a query
  from a raw text. The drivers of \<open>sqlx\<close> answer a connection attempt. A database is a value; a transaction
  works on a copy that a commit makes current.
\<close>

section \<open>URLs of SQLite\<close>

record 'u url_env =
  ue_parse :: "string \<Rightarrow> 'u option"
  ue_pairs :: "'u \<Rightarrow> (string \<times> string) list"
  ue_set_query :: "string option \<Rightarrow> 'u \<Rightarrow> 'u"
  ue_show :: "'u \<Rightarrow> string"
  ue_scheme :: "'u \<Rightarrow> string"
  ue_path :: "'u \<Rightarrow> string"

definition sqlite_pragma_params :: "string list" where
  "sqlite_pragma_params = [''wal'', ''synchronous'', ''busy_timeout'', ''journal_mode'']"

definition is_pragma_param :: "string \<times> string \<Rightarrow> bool" where
  "is_pragma_param p \<longleftrightarrow> to_lowercase (fst p) \<in> set sqlite_pragma_params"

definition extracted_pairs :: "(string \<times> string) list \<Rightarrow> (string \<times> string) list" where
  "extracted_pairs ps = fold (\<lambda>(k, v) m. AList.update (to_lowercase k) v m) (filter is_pragma_param ps) []"

definition query_text :: "(string \<times> string) list \<Rightarrow> string" where
  "query_text ps = join ''&'' (map (\<lambda>(k, v). k @ ''='' @ v) ps)"

definition extract_sqlite_pragmas :: "'u url_env \<Rightarrow> string \<Rightarrow> string \<times> (string \<times> string) list" where
  "extract_sqlite_pragmas env dsn =
     (case ue_parse env dsn of
        Some url \<Rightarrow>
          (let remaining = filter (\<lambda>p. \<not> is_pragma_param p) (ue_pairs env url);
               url0 = ue_set_query env None url;
               url1 = (if remaining \<noteq> [] then ue_set_query env (Some (query_text remaining)) url0 else url0)
           in (ue_show env url1, extracted_pairs (ue_pairs env url)))
      | None \<Rightarrow> (dsn, []))"

definition mode_is_memory :: "'u url_env \<Rightarrow> string \<Rightarrow> bool" where
  "mode_is_memory env dsn =
     (case ue_parse env dsn of
        Some url \<Rightarrow> list_ex (\<lambda>(k, v). to_lowercase k = ''mode'' \<and> to_lowercase v = ''memory'') (ue_pairs env url)
      | None \<Rightarrow> False)"

definition is_memory_dsn :: "'u url_env \<Rightarrow> string \<Rightarrow> bool" where
  "is_memory_dsn env dsn \<longleftrightarrow> dsn = ''sqlite::memory:'' \<or> dsn = ''sqlite://memory:'' \<or> mode_is_memory env dsn"

definition contains_text :: "string \<Rightarrow> string \<Rightarrow> bool" where
  "contains_text p s = list_ex (\<lambda>i. starts_with p (drop i s)) [0..<Suc (length s)]"

definition extract_file_path_from_dsn :: "'u url_env \<Rightarrow> string \<Rightarrow> string option" where
  "extract_file_path_from_dsn env dsn =
     (if contains_text ''::memory:'' dsn \<or> contains_text ''//memory:'' dsn \<or> contains_text ''mode=memory'' dsn then None
      else
        let plain = (case strip_prefix ''sqlite:'' dsn of
                Some part \<Rightarrow>
                  (let path_part = takeWhile (\<lambda>c. c \<noteq> CHR ''?'') (dropWhile (\<lambda>c. c = CHR ''/'') part)
                   in if path_part \<noteq> [] \<and> path_part \<noteq> ''memory:'' then Some path_part else Some dsn)
              | None \<Rightarrow> Some dsn)
        in case ue_parse env dsn of
             Some url \<Rightarrow>
               if ue_scheme env url = ''sqlite'' then
                 (if ue_path env url = [] \<or> ue_path env url = ''/'' then None else Some (ue_path env url))
               else plain
           | None \<Rightarrow> plain)"

text \<open>\<open>parent\<close> and \<open>create_dir_all\<close> of the platform.\<close>

record 'w dir_env =
  di_parent :: "string \<Rightarrow> string option"
  di_create :: "string \<Rightarrow> 'w \<Rightarrow> (unit, string) result \<times> 'w"

definition prepare_sqlite_path :: "'u url_env \<Rightarrow> 'w dir_env \<Rightarrow> string \<Rightarrow> bool \<Rightarrow> 'w \<Rightarrow> (string, string) result \<times> 'w" where
  "prepare_sqlite_path env io dsn create_dirs w =
     (if is_memory_dsn env dsn then (Ok dsn, w)
      else if \<not> create_dirs then (Ok dsn, w)
      else
        (case Option.bind (extract_file_path_from_dsn env dsn) (di_parent io) of
           Some parent \<Rightarrow> (case di_create io parent w of (Ok _, w) \<Rightarrow> (Ok dsn, w) | (Err e, w) \<Rightarrow> (Err e, w))
         | None \<Rightarrow> (Ok dsn, w)))"

section \<open>Pragmas\<close>

datatype journal_mode = JDelete | JWal | JMemory | JTruncate | JPersist | JOff

fun journal_sql :: "journal_mode \<Rightarrow> string" where
  "journal_sql JDelete = ''DELETE''"
| "journal_sql JWal = ''WAL''"
| "journal_sql JMemory = ''MEMORY''"
| "journal_sql JTruncate = ''TRUNCATE''"
| "journal_sql JPersist = ''PERSIST''"
| "journal_sql JOff = ''OFF''"

definition journal_from_str :: "string \<Rightarrow> journal_mode option" where
  "journal_from_str s =
     (let u = to_uppercase s
      in if u = ''DELETE'' then Some JDelete else if u = ''WAL'' then Some JWal else if u = ''MEMORY'' then Some JMemory
         else if u = ''TRUNCATE'' then Some JTruncate else if u = ''PERSIST'' then Some JPersist
         else if u = ''OFF'' then Some JOff else None)"

datatype sync_mode = SyncOff | SyncNormal | SyncFull | SyncExtra

fun sync_sql :: "sync_mode \<Rightarrow> string" where
  "sync_sql SyncOff = ''OFF''"
| "sync_sql SyncNormal = ''NORMAL''"
| "sync_sql SyncFull = ''FULL''"
| "sync_sql SyncExtra = ''EXTRA''"

definition sync_from_str :: "string \<Rightarrow> sync_mode option" where
  "sync_from_str s =
     (let u = to_uppercase s
      in if u = ''OFF'' then Some SyncOff else if u = ''NORMAL'' then Some SyncNormal
         else if u = ''FULL'' then Some SyncFull else if u = ''EXTRA'' then Some SyncExtra else None)"

record pragmas =
  pg_journal_mode :: "journal_mode option"
  pg_synchronous :: "sync_mode option"
  pg_busy_timeout_ms :: "int option"
  pg_wal_toggle :: "bool option"

definition no_pragmas :: pragmas where
  "no_pragmas = \<lparr>pg_journal_mode = None, pg_synchronous = None, pg_busy_timeout_ms = None, pg_wal_toggle = None\<rparr>"

definition parse_busy_timeout :: "string \<Rightarrow> int option" where
  "parse_busy_timeout v = (case parse_i64 v of Some t \<Rightarrow> if t \<ge> 0 then Some t else None | None \<Rightarrow> None)"

definition parse_wal_toggle :: "string \<Rightarrow> bool option" where
  "parse_wal_toggle v =
     (let l = to_lowercase v
      in if l = ''true'' \<or> l = ''1'' then Some True else if l = ''false'' \<or> l = ''0'' then Some False else None)"

definition pragma_from_pair :: "string \<times> string \<Rightarrow> pragmas \<Rightarrow> pragmas" where
  "pragma_from_pair p ps =
     (let k = to_lowercase (fst p)
      in if k = ''journal_mode'' then ps\<lparr>pg_journal_mode := journal_from_str (snd p)\<rparr>
         else if k = ''synchronous'' then ps\<lparr>pg_synchronous := sync_from_str (snd p)\<rparr>
         else if k = ''busy_timeout'' then ps\<lparr>pg_busy_timeout_ms := parse_busy_timeout (snd p)\<rparr>
         else if k = ''wal'' then ps\<lparr>pg_wal_toggle := parse_wal_toggle (snd p)\<rparr>
         else ps)"

definition pragmas_from_pairs :: "(string \<times> string) list \<Rightarrow> pragmas" where
  "pragmas_from_pairs pairs = fold pragma_from_pair pairs no_pragmas"

section \<open>Pools\<close>

record connect_opts =
  co_max_conns :: "nat option"
  co_min_conns :: "nat option"
  co_acquire_timeout :: "nat option"
  co_idle_timeout :: "nat option"
  co_max_lifetime :: "nat option"
  co_test_before_acquire :: bool
  co_create_sqlite_dirs :: bool

definition default_connect_opts :: connect_opts where
  "default_connect_opts = \<lparr>co_max_conns = Some 10, co_min_conns = None, co_acquire_timeout = Some 30, co_idle_timeout = None,
     co_max_lifetime = None, co_test_before_acquire = False, co_create_sqlite_dirs = True\<rparr>"

text \<open>The calls on the builder of the driver; durations in seconds.\<close>

datatype pool_call =
    MaxConnections nat | MinConnections nat | AcquireTimeout nat | IdleTimeout nat | MaxLifetime nat | TestBeforeAcquire bool

definition pool_set :: "('a \<Rightarrow> pool_call) \<Rightarrow> 'a option \<Rightarrow> pool_call list" where
  "pool_set f x = (case x of Some v \<Rightarrow> [f v] | None \<Rightarrow> [])"

definition apply_pool_opts :: "connect_opts \<Rightarrow> pool_call list" where
  "apply_pool_opts o1 =
     pool_set MaxConnections (co_max_conns o1) @ pool_set MinConnections (co_min_conns o1) @
     pool_set AcquireTimeout (co_acquire_timeout o1) @ pool_set IdleTimeout (co_idle_timeout o1) @
     pool_set MaxLifetime (co_max_lifetime o1) @ (if co_test_before_acquire o1 then [TestBeforeAcquire True] else [])"

text \<open>The trait has one implementation per driver, with the same body.\<close>

definition apply_pg_pool_opts :: "connect_opts \<Rightarrow> pool_call list" where
  "apply_pg_pool_opts = apply_pool_opts"

definition apply_mysql_pool_opts :: "connect_opts \<Rightarrow> pool_call list" where
  "apply_mysql_pool_opts = apply_pool_opts"

section \<open>Handles\<close>

datatype handle_error =
    UnknownDsn string
  | HandleFeature string
  | HandleConfig string
  | HandleConflict string
  | HandlePragma string string
  | HandleUnknownPragma string
  | HandleParameter string
  | HandleSqlitePragma string
  | HandleEnvVar string
  | HandleUrl string
  | HandleSqlx string
  | HandleSea string
  | HandleIo string
  | HandleLock db_lock_error
  | HandleOptions string
  | HandleOther string

definition detect :: "string \<Rightarrow> (lock_engine, handle_error) result" where
  "detect dsn =
     (let s = trim_start dsn
      in if starts_with ''postgres://'' s \<or> starts_with ''postgresql://'' s then Ok lock_engine.Postgres
         else if starts_with ''mysql://'' s then Ok lock_engine.MySql
         else if starts_with ''sqlite:'' s \<or> starts_with ''sqlite://'' s then Ok lock_engine.Sqlite
         else Err (UnknownDsn dsn))"

record db_handle =
  dh_engine :: lock_engine
  dh_pool :: lock_engine
  dh_dsn :: string

text \<open>The statements that \<open>after_connect\<close> runs on every new connection of SQLite.\<close>

datatype sql_stmt = SqlText string | SqlBind string int

definition default_sqlite_busy_timeout :: int where
  "default_sqlite_busy_timeout = 5000"

definition after_connect :: "pragmas \<Rightarrow> bool \<Rightarrow> sql_stmt list" where
  "after_connect p is_memory =
     (let journal =
            (case pg_journal_mode p of
               Some mode \<Rightarrow> journal_sql mode
             | None \<Rightarrow>
                 (case pg_wal_toggle p of
                    Some wal \<Rightarrow> if wal then ''WAL'' else ''DELETE''
                  | None \<Rightarrow> if is_memory then ''DELETE'' else ''WAL''));
          sync = (case pg_synchronous p of Some m \<Rightarrow> sync_sql m | None \<Rightarrow> ''NORMAL'')
      in [SqlText (''PRAGMA journal_mode = '' @ journal), SqlText (''PRAGMA synchronous = '' @ sync)] @
         (if is_memory then []
          else [SqlBind ''PRAGMA busy_timeout = ?''
            (case pg_busy_timeout_ms p of Some t \<Rightarrow> t | None \<Rightarrow> default_sqlite_busy_timeout)]))"

text \<open>The drivers: one attempt to open a pool, with the options, the text and the statements of each connection.\<close>

record 'w driver_env =
  dr_pg_feature :: bool
  dr_mysql_feature :: bool
  dr_connect :: "lock_engine \<Rightarrow> pool_call list \<Rightarrow> string \<Rightarrow> sql_stmt list \<Rightarrow> 'w \<Rightarrow> (unit, string) result \<times> 'w"

definition connect_server ::
    "'w driver_env \<Rightarrow> lock_engine \<Rightarrow> pool_call list \<Rightarrow> string \<Rightarrow> 'w \<Rightarrow> (db_handle, handle_error) result \<times> 'w" where
  "connect_server dr engine calls dsn w =
     (case dr_connect dr engine calls dsn [] w of
        (Ok _, w) \<Rightarrow> (Ok \<lparr>dh_engine = engine, dh_pool = engine, dh_dsn = dsn\<rparr>, w)
      | (Err e, w) \<Rightarrow> (Err (HandleSqlx e), w))"

definition connect_sqlite ::
    "'u url_env \<Rightarrow> 'w dir_env \<Rightarrow> 'w driver_env \<Rightarrow> string \<Rightarrow> connect_opts \<Rightarrow> 'w \<Rightarrow> (db_handle, handle_error) result \<times> 'w" where
  "connect_sqlite env io dr dsn opts w =
     (case prepare_sqlite_path env io dsn (co_create_sqlite_dirs opts) w of
        (Err e, w) \<Rightarrow> (Err (HandleIo e), w)
      | (Ok dsn, w) \<Rightarrow>
          (case extract_sqlite_pragmas env dsn of
             (clean_dsn, pairs) \<Rightarrow>
               (case dr_connect dr lock_engine.Sqlite (apply_pool_opts opts) clean_dsn
                   (after_connect (pragmas_from_pairs pairs) (is_memory_dsn env clean_dsn)) w of
                  (Ok _, w) \<Rightarrow> (Ok \<lparr>dh_engine = lock_engine.Sqlite, dh_pool = lock_engine.Sqlite, dh_dsn = clean_dsn\<rparr>, w)
                | (Err e, w) \<Rightarrow> (Err (HandleSqlx e), w))))"

definition db_connect ::
    "'u url_env \<Rightarrow> 'w dir_env \<Rightarrow> 'w driver_env \<Rightarrow> string \<Rightarrow> connect_opts \<Rightarrow> 'w \<Rightarrow> (db_handle, handle_error) result \<times> 'w" where
  "db_connect env io dr dsn opts w =
     (case detect dsn of
        Err e \<Rightarrow> (Err e, w)
      | Ok engine \<Rightarrow>
          (case engine of
             lock_engine.Postgres \<Rightarrow>
               if dr_pg_feature dr then connect_server dr engine (apply_pg_pool_opts opts) dsn w
               else (Err (HandleFeature ''PostgreSQL feature not enabled''), w)
           | lock_engine.MySql \<Rightarrow>
               if dr_mysql_feature dr then connect_server dr engine (apply_mysql_pool_opts opts) dsn w
               else (Err (HandleFeature ''MySQL feature not enabled''), w)
           | lock_engine.Sqlite \<Rightarrow> connect_sqlite env io dr dsn opts w))"

definition sqlx_postgres :: "db_handle \<Rightarrow> lock_engine option" where
  "sqlx_postgres h = (if dh_pool h = lock_engine.Postgres then Some (dh_pool h) else None)"

definition sqlx_mysql :: "db_handle \<Rightarrow> lock_engine option" where
  "sqlx_mysql h = (if dh_pool h = lock_engine.MySql then Some (dh_pool h) else None)"

definition sqlx_sqlite :: "db_handle \<Rightarrow> lock_engine option" where
  "sqlx_sqlite h = (if dh_pool h = lock_engine.Sqlite then Some (dh_pool h) else None)"

section \<open>Transactions\<close>

text \<open>What the driver answers to \<open>begin\<close>, and to \<open>commit\<close> with the committed and the uncommitted database; the
  answer of \<open>rollback\<close> is ignored, and a transaction that is not committed leaves no trace.\<close>

record 'd tx_env =
  tx_begin :: "'d \<Rightarrow> (unit, string) result"
  tx_commit :: "'d \<Rightarrow> 'd \<Rightarrow> (unit, string) result \<times> 'd"

definition in_transaction ::
    "'d tx_env \<Rightarrow> ('d \<Rightarrow> ('a, handle_error) result \<times> 'd) \<Rightarrow> 'd \<Rightarrow> ('a, handle_error) result \<times> 'd" where
  "in_transaction tx f db =
     (case tx_begin tx db of
        Err e \<Rightarrow> (Err (HandleSqlx e), db)
      | Ok _ \<Rightarrow>
          (case f db of
             (Ok v, work) \<Rightarrow>
               (case tx_commit tx db work of (Ok _, db) \<Rightarrow> (Ok v, db) | (Err e, db) \<Rightarrow> (Err (HandleSqlx e), db))
           | (Err e, _) \<Rightarrow> (Err e, db)))"

definition with_pg_tx ::
    "'d tx_env \<Rightarrow> db_handle \<Rightarrow> ('d \<Rightarrow> ('a, handle_error) result \<times> 'd) \<Rightarrow> 'd \<Rightarrow> ('a, handle_error) result \<times> 'd" where
  "with_pg_tx tx h f db =
     (if sqlx_postgres h = None then (Err (HandleFeature ''not a postgres pool''), db) else in_transaction tx f db)"

definition with_mysql_tx ::
    "'d tx_env \<Rightarrow> db_handle \<Rightarrow> ('d \<Rightarrow> ('a, handle_error) result \<times> 'd) \<Rightarrow> 'd \<Rightarrow> ('a, handle_error) result \<times> 'd" where
  "with_mysql_tx tx h f db =
     (if sqlx_mysql h = None then (Err (HandleFeature ''not a mysql pool''), db) else in_transaction tx f db)"

definition with_sqlite_tx ::
    "'d tx_env \<Rightarrow> db_handle \<Rightarrow> ('d \<Rightarrow> ('a, handle_error) result \<times> 'd) \<Rightarrow> 'd \<Rightarrow> ('a, handle_error) result \<times> 'd" where
  "with_sqlite_tx tx h f db =
     (if sqlx_sqlite h = None then (Err (HandleFeature ''not a sqlite pool''), db) else in_transaction tx f db)"

text \<open>An explicit transaction: its engine and the database it works on.\<close>

record 'd db_transaction =
  dt_engine :: lock_engine
  dt_data :: 'd

definition tx_begin_handle :: "'d tx_env \<Rightarrow> db_handle \<Rightarrow> 'd \<Rightarrow> ('d db_transaction, handle_error) result" where
  "tx_begin_handle tx h db =
     (case tx_begin tx db of Ok _ \<Rightarrow> Ok \<lparr>dt_engine = dh_pool h, dt_data = db\<rparr> | Err e \<Rightarrow> Err (HandleSqlx e))"

definition tx_finish_commit :: "'d tx_env \<Rightarrow> 'd db_transaction \<Rightarrow> 'd \<Rightarrow> (unit, handle_error) result \<times> 'd" where
  "tx_finish_commit tx t db = (case tx_commit tx db (dt_data t) of (r, db) \<Rightarrow> (map_err HandleSqlx r, db))"

definition tx_finish_rollback :: "('d db_transaction \<Rightarrow> (unit, string) result) \<Rightarrow> 'd db_transaction \<Rightarrow> 'd \<Rightarrow> (unit, handle_error) result \<times> 'd" where
  "tx_finish_rollback answer t db = (map_err HandleSqlx (answer t), db)"

section \<open>Locks of a handle\<close>

definition handle_lock_manager :: "'w driver_env \<Rightarrow> db_handle \<Rightarrow> lock_manager" where
  "handle_lock_manager dr h =
     \<lparr>lm_engine = dh_engine h, lm_pool = dh_pool h, lm_dsn = dh_dsn h, lm_pg_feature = dr_pg_feature dr,
      lm_mysql_feature = dr_mysql_feature dr\<rparr>"

definition handle_lock ::
    "lock_env \<Rightarrow> 'w driver_env \<Rightarrow> db_handle \<Rightarrow> lock_io \<Rightarrow> string \<Rightarrow> string \<Rightarrow> held_locks \<Rightarrow>
     (lock_guard, handle_error) result option \<times> held_locks" where
  "handle_lock env dr h io module key held =
     (case lock env (handle_lock_manager dr h) io module key held of
        (r, held) \<Rightarrow> (map_option (map_err HandleLock) r, held))"

definition handle_try_lock ::
    "('f, 'w) lock_run \<Rightarrow> string \<Rightarrow> string \<Rightarrow> 'f lock_config \<Rightarrow> 'w \<Rightarrow> ((lock_guard option, handle_error) result run_end \<times> 'w) option" where
  "handle_try_lock run module key cfg w =
     map_option (\<lambda>(r, w). (map_run_end (map_err HandleLock) r, w)) (try_lock run cfg module key w)"

section \<open>Lemmas\<close>

text \<open>The query of a URL as a list of pairs, where nothing is encoded.\<close>

definition plain_text :: "string \<Rightarrow> bool" where
  "plain_text s \<longleftrightarrow> s \<noteq> [] \<and> set s \<inter> {CHR ''&'', CHR ''='', CHR ''%'', CHR ''+'', CHR ''#''} = {}"

definition plain_pairs :: "(string \<times> string) list \<Rightarrow> bool" where
  "plain_pairs ps \<longleftrightarrow> (\<forall>(k, v) \<in> set ps. plain_text k \<and> plain_text v)"

text \<open>What is documented of the \<open>url\<close> crate: a URL prints as a text that parses back to it, no query has no pairs, and a
  query of plain pairs has these pairs.\<close>

definition url_laws :: "'u url_env \<Rightarrow> bool" where
  "url_laws env \<longleftrightarrow> (\<forall>u. ue_parse env (ue_show env u) = Some u) \<and> (\<forall>u. ue_pairs env (ue_set_query env None u) = []) \<and>
     (\<forall>u ps. plain_pairs ps \<longrightarrow> ps \<noteq> [] \<longrightarrow> ue_pairs env (ue_set_query env (Some (query_text ps)) u) = ps) \<and>
     (\<forall>u x y. ue_set_query env x (ue_set_query env y u) = ue_set_query env x u)"

lemma keys_update: "fst ` set (AList.update k v m) = insert k (fst ` set m)"
  using dom_update[of k v m] by simp

lemma keys_fold_update:
  "fst ` set (fold (\<lambda>(k, v) m. AList.update (to_lowercase k) v m) qs m) = (\<lambda>p. to_lowercase (fst p)) ` set qs \<union> fst ` set m"
  by (induction qs arbitrary: m) (auto simp: keys_update split: prod.splits)

lemma extracted_keys: "(k, v) \<in> set (extracted_pairs ps) \<Longrightarrow> k \<in> set sqlite_pragma_params"
  using keys_fold_update[of "filter is_pragma_param ps" "[]"]
  by (force simp: extracted_pairs_def is_pragma_param_def)

lemma extracted_none: "\<forall>p\<in>set ps. \<not> is_pragma_param p \<Longrightarrow> extracted_pairs ps = []"
  by (simp add: extracted_pairs_def filter_empty_conv[THEN iffD2])

lemma busy_timeout_range: "parse_busy_timeout v = Some t \<Longrightarrow> 0 \<le> t \<and> t < 2 ^ 63"
  by (auto simp: parse_busy_timeout_def parse_i64_def in_i64_def i64_max_def Let_def split: option.splits list.splits if_splits)

lemma fold_pragma_range:
  "(case pg_busy_timeout_ms p of Some t \<Rightarrow> 0 \<le> t \<and> t < 2 ^ 63 | None \<Rightarrow> True) \<Longrightarrow>
   (case pg_busy_timeout_ms (fold pragma_from_pair ps p) of Some t \<Rightarrow> 0 \<le> t \<and> t < 2 ^ 63 | None \<Rightarrow> True)"
proof (induction ps arbitrary: p)
  case (Cons x ps)
  have "case pg_busy_timeout_ms (pragma_from_pair x p) of Some t \<Rightarrow> 0 \<le> t \<and> t < 2 ^ 63 | None \<Rightarrow> True"
    using Cons.prems by (auto simp: pragma_from_pair_def Let_def split: option.splits dest: busy_timeout_range)
  with Cons.IH show ?case by simp
qed simp


text \<open>The map of the extracted parameters: names without case, the last value wins.\<close>

definition last_values :: "(string \<times> string) list \<Rightarrow> string \<Rightarrow> string option" where
  "last_values qs = map_of (rev (map (\<lambda>(k, v). (to_lowercase k, v)) qs))"

lemma map_of_extracted:
  "map_of (fold (\<lambda>(k, v) m. AList.update (to_lowercase k) v m) qs m) = map_of m ++ last_values qs"
proof (induction qs arbitrary: m)
  case (Cons q qs)
  then show ?case by (cases q) (simp add: last_values_def update_conv' map_add_def fun_eq_iff split: option.splits)
qed (simp add: last_values_def)

lemma last_values_filter:
  "k \<in> set sqlite_pragma_params \<Longrightarrow> last_values (filter is_pragma_param qs) k = last_values qs k"
  by (induction qs) (auto simp: last_values_def is_pragma_param_def map_add_def split: option.splits)

lemma extracted_values: "k \<in> set sqlite_pragma_params \<Longrightarrow> map_of (extracted_pairs qs) k = last_values qs k"
  by (simp add: extracted_pairs_def map_of_extracted last_values_filter)

lemma fold_update_distinct:
  "distinct (map fst m) \<Longrightarrow> distinct (map fst (fold (\<lambda>(k, v) m. AList.update (to_lowercase k) v m) qs m))"
  by (induction qs arbitrary: m) (auto simp: distinct_update split: prod.splits)

lemma extracted_distinct: "distinct (map fst (extracted_pairs qs))"
  unfolding extracted_pairs_def by (rule fold_update_distinct) simp

definition read_value :: "(string \<Rightarrow> 'a option) \<Rightarrow> string option \<Rightarrow> 'a option \<Rightarrow> 'a option" where
  "read_value f x old = (case x of Some v \<Rightarrow> f v | None \<Rightarrow> old)"

lemma lower_params:
  "to_lowercase ''wal'' = ''wal''" "to_lowercase ''synchronous'' = ''synchronous''"
  "to_lowercase ''busy_timeout'' = ''busy_timeout''" "to_lowercase ''journal_mode'' = ''journal_mode''"
  by code_simp+

lemma fold_pragmas:
  "\<forall>p\<in>set ps. fst p \<in> set sqlite_pragma_params \<Longrightarrow>
   fold pragma_from_pair ps p =
     \<lparr>pg_journal_mode = read_value journal_from_str (map_of (rev ps) ''journal_mode'') (pg_journal_mode p),
      pg_synchronous = read_value sync_from_str (map_of (rev ps) ''synchronous'') (pg_synchronous p),
      pg_busy_timeout_ms = read_value parse_busy_timeout (map_of (rev ps) ''busy_timeout'') (pg_busy_timeout_ms p),
      pg_wal_toggle = read_value parse_wal_toggle (map_of (rev ps) ''wal'') (pg_wal_toggle p)\<rparr>"
proof (induction ps arbitrary: p)
  case (Cons x ps)
  obtain k v where x: "x = (k, v)" by (cases x)
  have IH: "fold pragma_from_pair (x # ps) p =
     \<lparr>pg_journal_mode = read_value journal_from_str (map_of (rev ps) ''journal_mode'') (pg_journal_mode (pragma_from_pair x p)),
      pg_synchronous = read_value sync_from_str (map_of (rev ps) ''synchronous'') (pg_synchronous (pragma_from_pair x p)),
      pg_busy_timeout_ms = read_value parse_busy_timeout (map_of (rev ps) ''busy_timeout'') (pg_busy_timeout_ms (pragma_from_pair x p)),
      pg_wal_toggle = read_value parse_wal_toggle (map_of (rev ps) ''wal'') (pg_wal_toggle (pragma_from_pair x p))\<rparr>"
    using Cons by simp
  have "k \<in> {''wal'', ''synchronous'', ''busy_timeout'', ''journal_mode''}"
    using Cons.prems by (simp add: x sqlite_pragma_params_def)
  then show ?case
    unfolding IH
    by (elim insertE emptyE)
      (simp_all add: x lower_params pragma_from_pair_def read_value_def map_add_def Let_def split: option.split)
qed (simp add: read_value_def)

definition allowed_stmt :: "sql_stmt \<Rightarrow> bool" where
  "allowed_stmt s =
     (case s of
        SqlText t \<Rightarrow> t \<in> set (map (\<lambda>m. ''PRAGMA journal_mode = '' @ journal_sql m) [JDelete, JWal, JMemory, JTruncate, JPersist, JOff]) \<or>
          t \<in> set (map (\<lambda>m. ''PRAGMA synchronous = '' @ sync_sql m) [SyncOff, SyncNormal, SyncFull, SyncExtra])
      | SqlBind t v \<Rightarrow> t = ''PRAGMA busy_timeout = ?'' \<and> 0 \<le> v \<and> v < 2 ^ 63)"

lemma after_connect_allowed:
  assumes "case pg_busy_timeout_ms p of Some t \<Rightarrow> 0 \<le> t \<and> t < 2 ^ 63 | None \<Rightarrow> True"
  shows "list_all allowed_stmt (after_connect p mem)"
proof -
  have j: "journal_sql m \<in> journal_sql ` {JDelete, JWal, JMemory, JTruncate, JPersist, JOff}" for m by (cases m) auto
  have y: "sync_sql m \<in> sync_sql ` {SyncOff, SyncNormal, SyncFull, SyncExtra}" for m by (cases m) auto
  have "sync_sql SyncNormal = ''NORMAL''" "journal_sql JWal = ''WAL''" "journal_sql JDelete = ''DELETE''" by simp_all
  with assms j y show ?thesis
    by (auto simp: after_connect_def allowed_stmt_def Let_def default_sqlite_busy_timeout_def split: option.splits)
qed

lemma from_pairs_range:
  "case pg_busy_timeout_ms (pragmas_from_pairs ps) of Some t \<Rightarrow> 0 \<le> t \<and> t < 2 ^ 63 | None \<Rightarrow> True"
  unfolding pragmas_from_pairs_def by (rule fold_pragma_range) (simp add: no_pragmas_def)


text \<open>A URL type for the witnesses: the raw query, with two of the escapes.\<close>

fun unescape :: "string \<Rightarrow> string" where
  "unescape [] = []"
| "unescape (c # cs) =
     (if c = CHR ''%'' \<and> take 2 cs = ''26'' then CHR ''&'' # unescape (drop 2 cs)
      else if c = CHR ''%'' \<and> take 2 cs = ''3D'' then CHR ''='' # unescape (drop 2 cs) else c # unescape cs)"

definition raw_pair :: "string \<Rightarrow> string \<times> string" where
  "raw_pair s = (unescape (takeWhile (\<lambda>c. c \<noteq> CHR ''='') s), unescape (drop 1 (dropWhile (\<lambda>c. c \<noteq> CHR ''='') s)))"

definition raw_env :: "string option url_env" where
  "raw_env =
     \<lparr>ue_parse = (\<lambda>s. case s of [] \<Rightarrow> Some None | c # q \<Rightarrow> Some (Some q)),
      ue_pairs = (\<lambda>u. case u of None \<Rightarrow> [] | Some q \<Rightarrow> map raw_pair (split_on CHR ''&'' q)),
      ue_set_query = (\<lambda>q u. q), ue_show = (\<lambda>u. case u of None \<Rightarrow> [] | Some q \<Rightarrow> CHR ''?'' # q),
      ue_scheme = (\<lambda>u. ''sqlite''), ue_path = (\<lambda>u. ''/data/x.db'')\<rparr>"

lemma unescape_plain: "CHR ''%'' \<notin> set s \<Longrightarrow> unescape s = s"
  by (induction s) auto

lemma take_until: "c \<notin> set k \<Longrightarrow> takeWhile (\<lambda>x. x \<noteq> c) (k @ c # v) = k \<and> dropWhile (\<lambda>x. x \<noteq> c) (k @ c # v) = c # v"
  by (induction k) auto

lemma raw_pair_plain: "plain_text k \<Longrightarrow> plain_text v \<Longrightarrow> raw_pair (k @ ''='' @ v) = (k, v)"
  using take_until[of "CHR ''=''" k v] by (simp add: raw_pair_def plain_text_def unescape_plain)

lemma raw_pairs_plain:
  assumes "plain_pairs ps" "ps \<noteq> []"
  shows "map raw_pair (split_on CHR ''&'' (query_text ps)) = ps"
proof -
  have "split_on CHR ''&'' (query_text ps) = map (\<lambda>(k, v). k @ ''='' @ v) ps"
    unfolding query_text_def using assms by (intro split_on_join) (auto simp: plain_pairs_def plain_text_def)
  moreover have "map (raw_pair \<circ> (\<lambda>(k, v). k @ ''='' @ v)) ps = map (\<lambda>p. p) ps"
    using assms by (intro map_cong) (auto simp: plain_pairs_def raw_pair_plain[simplified])
  ultimately show ?thesis by simp
qed

lemma raw_laws: "url_laws raw_env"
  by (auto simp: url_laws_def raw_env_def raw_pairs_plain split: option.splits)

section \<open>Properties\<close>

text \<open>
  Whatever the DSN says, the statements that a new connection of SQLite executes are one of the fixed texts of
  the journal and synchronous modes and a bound timeout that is not negative: two drivers that agree on these cannot
  be told apart by connecting.
\<close>

theorem connect_statements_are_fixed:
  assumes "\<And>engine calls text stmts w. list_all allowed_stmt stmts \<Longrightarrow>
      dr_connect dr1 engine calls text stmts w = dr_connect dr2 engine calls text stmts w"
    and "dr_pg_feature dr1 = dr_pg_feature dr2" "dr_mysql_feature dr1 = dr_mysql_feature dr2"
  shows "db_connect env io dr1 dsn opts w = db_connect env io dr2 dsn opts w"
proof -
  have "dr_connect dr1 e calls t (after_connect (pragmas_from_pairs ps) mem) w =
        dr_connect dr2 e calls t (after_connect (pragmas_from_pairs ps) mem) w" for e calls t ps mem w
    by (rule assms(1)) (rule after_connect_allowed[OF from_pairs_range])
  moreover have "dr_connect dr1 e calls t [] w = dr_connect dr2 e calls t [] w" for e calls t w
    by (rule assms(1)) simp
  ultimately have "connect_server dr1 e calls dsn w = connect_server dr2 e calls dsn w"
    "connect_sqlite env io dr1 dsn opts w = connect_sqlite env io dr2 dsn opts w" for e calls
    by (simp_all add: connect_server_def connect_sqlite_def split_beta cong: result.case_cong)
  then show ?thesis
    using assms(2,3) by (simp add: db_connect_def split: lock_engine.split result.split)
qed

text \<open>
  In whatever order the hash map hands the extracted parameters over, each pragma is read from the last parameter of
  the DSN whose name is the pragma's without case; an unreadable value leaves it unset.
\<close>

theorem pragmas_read_the_last_parameter:
  assumes "mset ps = mset (extracted_pairs qs)"
  shows "pragmas_from_pairs ps =
     \<lparr>pg_journal_mode = Option.bind (last_values qs ''journal_mode'') journal_from_str,
      pg_synchronous = Option.bind (last_values qs ''synchronous'') sync_from_str,
      pg_busy_timeout_ms = Option.bind (last_values qs ''busy_timeout'') parse_busy_timeout,
      pg_wal_toggle = Option.bind (last_values qs ''wal'') parse_wal_toggle\<rparr>"
proof -
  have set: "set ps = set (extracted_pairs qs)" using assms by (rule mset_eq_setD)
  have "distinct (map fst ps)"
    using extracted_distinct[of qs] assms by (metis mset_eq_imp_distinct_iff mset_map)
  then have "map_of (rev ps) = map_of (extracted_pairs qs)"
    using extracted_distinct[of qs] set by (simp add: map_of_inject_set rev_map[symmetric] distinct_rev[of "map fst ps"])
  then have "map_of (rev ps) k = last_values qs k" if "k \<in> set sqlite_pragma_params" for k
    using extracted_values[OF that] by simp
  moreover have "fold pragma_from_pair ps no_pragmas = fold pragma_from_pair ps no_pragmas" ..
  moreover have "\<forall>p\<in>set ps. fst p \<in> set sqlite_pragma_params"
    using set extracted_keys[of _ _ qs] by auto
  ultimately show ?thesis
    unfolding pragmas_from_pairs_def
    by (subst fold_pragmas)
      (simp_all add: sqlite_pragma_params_def no_pragmas_def read_value_def Option.bind_def split: option.split)
qed

text \<open>
  A journal mode given in any case wins over the \<open>wal\<close> toggle, and the toggle wins over the default, which
  depends on whether the database is in memory.
\<close>

theorem journal_mode_precedence:
  "hd (after_connect p mem) = SqlText (''PRAGMA journal_mode = '' @
     (case (pg_journal_mode p, pg_wal_toggle p) of
        (Some m, _) \<Rightarrow> journal_sql m
      | (None, Some True) \<Rightarrow> ''WAL''
      | (None, Some False) \<Rightarrow> ''DELETE''
      | (None, None) \<Rightarrow> if mem then ''DELETE'' else ''WAL''))"
  by (simp add: after_connect_def Let_def split: option.split)

text \<open>
  The directory of a file database is not created when the DSN sets the journal mode to memory: the path is not
  extracted from a DSN that contains the text \<open>mode=memory\<close>, and \<open>journal_mode=memory\<close> contains it, although the DSN
  is not of an in-memory database.
\<close>

theorem memory_journal_skips_the_directory:
  assumes "contains_text ''mode=memory'' dsn"
  shows "prepare_sqlite_path env io dsn create_dirs w = (Ok dsn, w)"
  using assms by (simp add: prepare_sqlite_path_def extract_file_path_from_dsn_def Let_def)

text \<open>
  Where no value of the remaining parameters needs an escape, the cleaned DSN has exactly these parameters, in order, it
  is a fixed point of the cleaning, and it names a database in memory exactly when the DSN did by its parameters.
\<close>

theorem cleaning_keeps_plain_parameters:
  assumes "url_laws env" "ue_parse env dsn = Some u" "plain_pairs (filter (\<lambda>p. \<not> is_pragma_param p) (ue_pairs env u))"
    and "extract_sqlite_pragmas env dsn = (clean, pairs)"
  shows "\<exists>u'. ue_parse env clean = Some u' \<and> ue_pairs env u' = filter (\<lambda>p. \<not> is_pragma_param p) (ue_pairs env u) \<and>
     extract_sqlite_pragmas env clean = (clean, []) \<and> mode_is_memory env clean = mode_is_memory env dsn"
proof -
  let ?rest = "filter (\<lambda>p. \<not> is_pragma_param p) (ue_pairs env u)"
  define u' where "u' = (if ?rest \<noteq> [] then ue_set_query env (Some (query_text ?rest)) (ue_set_query env None u)
     else ue_set_query env None u)"
  have laws: "ue_parse env (ue_show env v) = Some v" "ue_pairs env (ue_set_query env None v) = []"
    "plain_pairs ps \<Longrightarrow> ps \<noteq> [] \<Longrightarrow> ue_pairs env (ue_set_query env (Some (query_text ps)) v) = ps"
    "ue_set_query env x (ue_set_query env y v) = ue_set_query env x v" for v x y ps
    using assms(1) by (auto simp: url_laws_def)
  have clean: "clean = ue_show env u'"
    using assms(2,4) by (auto simp: extract_sqlite_pragmas_def u'_def Let_def)
  have pairs: "ue_pairs env u' = ?rest"
    unfolding u'_def using assms(3) by (simp add: laws)
  have again: "filter (\<lambda>p. \<not> is_pragma_param p) ?rest = ?rest" by simp
  have "extracted_pairs ?rest = []" by (rule extracted_none) simp
  moreover have "(if ?rest \<noteq> [] then ue_set_query env (Some (query_text ?rest)) (ue_set_query env None u')
      else ue_set_query env None u') = u'"
    by (simp add: u'_def laws(4))
  ultimately have "extract_sqlite_pragmas env clean = (clean, [])"
    unfolding clean extract_sqlite_pragmas_def by (simp add: laws(1) pairs again Let_def del: filter_filter)
  moreover have "list_ex (\<lambda>(k, v). to_lowercase k = ''mode'' \<and> to_lowercase v = ''memory'') ?rest =
      list_ex (\<lambda>(k, v). to_lowercase k = ''mode'' \<and> to_lowercase v = ''memory'') (ue_pairs env u)"
    by (force simp: list_ex_iff is_pragma_param_def sqlite_pragma_params_def)
  ultimately show ?thesis
    using assms(2) by (auto simp: clean laws pairs mode_is_memory_def)
qed

text \<open>
  The values are put into the cleaned query without being escaped again: an escaped \<open>&\<close> in a value becomes
  a separator, and a DSN of a file whose only parameter has the value \<open>v&mode=memory\<close> is cleaned to a DSN of a database in memory.
\<close>

theorem cleaned_query_can_inject:
  assumes "url_laws env" "ue_parse env dsn = Some u" "ue_pairs env u = [(k, v @ ''&mode=memory'')]"
    and "plain_text k" "plain_text v" "\<not> is_pragma_param (k, v)" "to_lowercase k \<noteq> ''mode''"
  shows "\<not> mode_is_memory env dsn \<and> mode_is_memory env (fst (extract_sqlite_pragmas env dsn))"
proof -
  let ?w = "[(k, v @ ''&mode=memory'')]" and ?split = "[(k, v), (''mode'', ''memory'')]"
  have same: "query_text ?w = query_text ?split" by (simp add: query_text_def)
  have rest: "filter (\<lambda>p. \<not> is_pragma_param p) ?w = ?w" using assms(6) by (simp add: is_pragma_param_def)
  have "plain_pairs ?split" using assms(4,5) by (simp add: plain_pairs_def plain_text_def)
  then have "ue_pairs env (ue_set_query env (Some (query_text ?w)) x) = ?split" for x
    unfolding same using assms(1) by (simp add: url_laws_def)
  moreover have "ue_parse env (ue_show env x) = Some x" for x using assms(1) by (simp add: url_laws_def)
  moreover have "to_lowercase ''mode'' = ''mode''" "to_lowercase ''memory'' = ''memory''" by code_simp+
  ultimately show ?thesis
    using assms(2,3,7) rest by (simp add: mode_is_memory_def extract_sqlite_pragmas_def Let_def)
qed

text \<open>
  Two DSNs of SQLite that differ in their pragmas only give handles with the same lock file for every key.
\<close>

theorem pragmas_share_the_lock_file:
  assumes "ue_parse env d1 = Some u1" "ue_parse env d2 = Some u2" "ue_set_query env None u1 = ue_set_query env None u2"
    and "filter (\<lambda>p. \<not> is_pragma_param p) (ue_pairs env u1) = filter (\<lambda>p. \<not> is_pragma_param p) (ue_pairs env u2)"
    and "detect d1 = Ok lock_engine.Sqlite" "detect d2 = Ok lock_engine.Sqlite"
    and "db_connect env io dr d1 o1 w = (Ok h1, w1)" "db_connect env io dr d2 o2 w' = (Ok h2, w2)"
  shows "get_lock_file_path lenv (handle_lock_manager dr h1) key = get_lock_file_path lenv (handle_lock_manager dr h2) key"
proof -
  have dsn: "dh_dsn h = fst (extract_sqlite_pragmas env d)"
    if "connect_sqlite env io dr d opts v = (Ok h, v')" for d opts v h v'
    using that
    by (auto simp: connect_sqlite_def prepare_sqlite_path_def split: prod.splits result.splits if_splits option.splits)
  have "dh_dsn h1 = dh_dsn h2"
    using assms dsn[of d1] dsn[of d2] by (simp add: db_connect_def extract_sqlite_pragmas_def Let_def)
  then show ?thesis by (simp add: get_lock_file_path_def handle_lock_manager_def)
qed

text \<open>
  A handle is of the engine that its DSN was detected as, its pool is of the same engine, exactly one
  of the three accessors gives the pool, and its locks are taken in that engine.
\<close>

theorem handle_matches_its_pool:
  assumes "db_connect env io dr dsn opts w = (Ok h, w')"
  shows "detect dsn = Ok (dh_engine h) \<and> dh_pool h = dh_engine h \<and>
     length (filter (\<lambda>x. x \<noteq> None) [sqlx_postgres h, sqlx_mysql h, sqlx_sqlite h]) = 1 \<and>
     lm_engine (handle_lock_manager dr h) = dh_engine h"
  using assms
  by (cases "dh_pool h")
    (auto simp: db_connect_def connect_server_def connect_sqlite_def sqlx_postgres_def sqlx_mysql_def sqlx_sqlite_def
       handle_lock_manager_def split: result.splits lock_engine.splits prod.splits if_splits)

text \<open>
  A transaction is all or nothing, for every engine: the call that ran and committed leaves the work of its closure, and
  a wrong pool, a failed begin, a failed closure and a commit that the driver refused leave the database as it was.
\<close>

theorem transactions_are_atomic:
  assumes "\<And>old new r db. tx_commit tx old new = (r, db) \<Longrightarrow> db = (case r of Ok _ \<Rightarrow> new | Err _ \<Rightarrow> old)"
    and "run \<in> {with_pg_tx, with_mysql_tx, with_sqlite_tx}" "run tx h f db = (res, db')"
  shows "case res of Ok v \<Rightarrow> f db = (Ok v, db') | Err e \<Rightarrow> db' = db \<and> (fst (f db) = Err e \<or> (\<exists>s. e = HandleSqlx s \<or> e = HandleFeature s))"
proof -
  have "case res of Ok v \<Rightarrow> f db = (Ok v, db')
     | Err e \<Rightarrow> db' = db \<and> (fst (f db) = Err e \<or> (\<exists>s. e = HandleSqlx s \<or> e = HandleFeature s))"
    if "in_transaction tx f db = (res, db')"
    using that by (auto simp: in_transaction_def dest: assms(1) split: result.splits prod.splits)
  then show ?thesis
    using assms(2,3) by (auto simp: with_pg_tx_def with_mysql_tx_def with_sqlite_tx_def split: if_splits)
qed


section \<open>Witnesses\<close>

definition demo_dirs :: "nat dir_env" where
  "demo_dirs = \<lparr>di_parent = (\<lambda>p. Some ''/data''), di_create = (\<lambda>p n. (Ok (), Suc n))\<rparr>"

definition demo_driver :: "nat driver_env" where
  "demo_driver = \<lparr>dr_pg_feature = True, dr_mysql_feature = True, dr_connect = (\<lambda>_ _ _ _ n. (Ok (), n))\<rparr>"

text \<open>A driver that refuses every statement that is not allowed.\<close>

definition strict_driver :: "nat driver_env" where
  "strict_driver = demo_driver\<lparr>dr_connect := (\<lambda>_ _ _ stmts n. if list_all allowed_stmt stmts then (Ok (), n) else (Err ''refused'', n))\<rparr>"

theorem connect_statements_are_fixed_witness:
  "db_connect raw_env demo_dirs strict_driver ''sqlite:&journal_mode=x;DROP&busy_timeout=-1'' default_connect_opts 0 =
   db_connect raw_env demo_dirs demo_driver ''sqlite:&journal_mode=x;DROP&busy_timeout=-1'' default_connect_opts 0"
  by (rule connect_statements_are_fixed) (simp_all add: strict_driver_def demo_driver_def)

theorem pragmas_read_the_last_parameter_witness:
  "pragmas_from_pairs [(''wal'', ''0''), (''journal_mode'', ''off'')] =
   \<lparr>pg_journal_mode = Some JOff, pg_synchronous = None, pg_busy_timeout_ms = None, pg_wal_toggle = Some False\<rparr>"
proof -
  let ?qs = "[(''Journal_Mode'', ''wal''), (''WAL'', ''0''), (''cache'', ''shared''), (''JOURNAL_MODE'', ''off'')]"
  have "extracted_pairs ?qs = [(''journal_mode'', ''off''), (''wal'', ''0'')]" by code_simp
  then have "mset [(''wal'', ''0''), (''journal_mode'', ''off'')] = mset (extracted_pairs ?qs)" by simp
  moreover have "last_values ?qs ''journal_mode'' = Some ''off''" "last_values ?qs ''synchronous'' = None"
    "last_values ?qs ''busy_timeout'' = None" "last_values ?qs ''wal'' = Some ''0''"
    "journal_from_str ''off'' = Some JOff" "parse_wal_toggle ''0'' = Some False" by code_simp+
  ultimately show ?thesis using pragmas_read_the_last_parameter[of _ ?qs] by simp
qed

theorem memory_journal_skips_the_directory_witness:
  "prepare_sqlite_path raw_env demo_dirs ''?journal_mode=memory'' True 0 = (Ok ''?journal_mode=memory'', 0) \<and>
   \<not> is_memory_dsn raw_env ''?journal_mode=memory'' \<and>
   prepare_sqlite_path raw_env demo_dirs ''?journal_mode=off'' True 0 = (Ok ''?journal_mode=off'', 1)"
proof -
  have "contains_text ''mode=memory'' ''?journal_mode=memory''" by code_simp
  then have "prepare_sqlite_path raw_env demo_dirs ''?journal_mode=memory'' True 0 = (Ok ''?journal_mode=memory'', 0)"
    by (rule memory_journal_skips_the_directory)
  moreover have "\<not> is_memory_dsn raw_env ''?journal_mode=memory''" by code_simp
  moreover have "prepare_sqlite_path raw_env demo_dirs ''?journal_mode=off'' True 0 = (Ok ''?journal_mode=off'', 1)" by code_simp
  ultimately show ?thesis by simp
qed

theorem cleaning_keeps_plain_parameters_witness:
  "\<exists>u'. ue_parse raw_env ''?cache=shared'' = Some u' \<and> ue_pairs raw_env u' = [(''cache'', ''shared'')] \<and>
     extract_sqlite_pragmas raw_env ''?cache=shared'' = (''?cache=shared'', []) \<and>
     mode_is_memory raw_env ''?cache=shared'' = mode_is_memory raw_env ''?wal=1&cache=shared''"
proof -
  have e: "extract_sqlite_pragmas raw_env ''?wal=1&cache=shared'' = (''?cache=shared'', [(''wal'', ''1'')])"
    "ue_parse raw_env ''?wal=1&cache=shared'' = Some (Some ''wal=1&cache=shared'')"
    "filter (\<lambda>p. \<not> is_pragma_param p) (ue_pairs raw_env (Some ''wal=1&cache=shared'')) = [(''cache'', ''shared'')]" by code_simp+
  have "plain_pairs [(''cache'', ''shared'')]" by (simp add: plain_pairs_def plain_text_def)
  then show ?thesis using cleaning_keeps_plain_parameters[OF raw_laws e(2) _ e(1)] unfolding e(3) by simp
qed

theorem cleaned_query_can_inject_witness:
  "\<not> mode_is_memory raw_env ''?a=x%26mode%3Dmemory'' \<and>
   mode_is_memory raw_env (fst (extract_sqlite_pragmas raw_env ''?a=x%26mode%3Dmemory''))"
proof -
  have "ue_parse raw_env ''?a=x%26mode%3Dmemory'' = Some (Some ''a=x%26mode%3Dmemory'')"
    "ue_pairs raw_env (Some ''a=x%26mode%3Dmemory'') = [(''a'', ''x'' @ ''&mode=memory'')]"
    "\<not> is_pragma_param (''a'', ''x'')" "to_lowercase ''a'' \<noteq> ''mode''" by code_simp+
  moreover have "plain_text ''a''" "plain_text ''x''" by (simp_all add: plain_text_def)
  ultimately show ?thesis using cleaned_query_can_inject[OF raw_laws] by blast
qed

lemma demo_connect:
  "db_connect raw_env demo_dirs demo_driver ''sqlite:&wal=1'' default_connect_opts 0 =
     (Ok \<lparr>dh_engine = lock_engine.Sqlite, dh_pool = lock_engine.Sqlite, dh_dsn = ''?qlite:=''\<rparr>, 1)"
  "db_connect raw_env demo_dirs demo_driver ''sqlite:&synchronous=off'' default_connect_opts 0 =
     (Ok \<lparr>dh_engine = lock_engine.Sqlite, dh_pool = lock_engine.Sqlite, dh_dsn = ''?qlite:=''\<rparr>, 1)"
  by code_simp+

theorem pragmas_share_the_lock_file_witness:
  "\<exists>h1 h2. fst (db_connect raw_env demo_dirs demo_driver ''sqlite:&wal=1'' default_connect_opts 0) = Ok h1 \<and>
     fst (db_connect raw_env demo_dirs demo_driver ''sqlite:&synchronous=off'' default_connect_opts 0) = Ok h2 \<and>
     get_lock_file_path lock_env0 (handle_lock_manager demo_driver h1) ''k'' =
     get_lock_file_path lock_env0 (handle_lock_manager demo_driver h2) ''k''"
proof -
  have "ue_parse raw_env ''sqlite:&wal=1'' = Some (Some ''qlite:&wal=1'')"
    "ue_parse raw_env ''sqlite:&synchronous=off'' = Some (Some ''qlite:&synchronous=off'')"
    "ue_set_query raw_env None (Some ''qlite:&wal=1'') = ue_set_query raw_env None (Some ''qlite:&synchronous=off'')"
    "filter (\<lambda>p. \<not> is_pragma_param p) (ue_pairs raw_env (Some ''qlite:&wal=1'')) =
     filter (\<lambda>p. \<not> is_pragma_param p) (ue_pairs raw_env (Some ''qlite:&synchronous=off''))"
    "detect ''sqlite:&wal=1'' = Ok lock_engine.Sqlite" "detect ''sqlite:&synchronous=off'' = Ok lock_engine.Sqlite"
    by code_simp+
  from pragmas_share_the_lock_file[OF this demo_connect, of lock_env0 "''k''"] demo_connect show ?thesis by auto
qed

theorem handle_matches_its_pool_witness:
  "detect ''sqlite:&wal=1'' = Ok lock_engine.Sqlite"
  using handle_matches_its_pool[OF demo_connect(1)] by simp

theorem transactions_are_atomic_witness:
  "with_sqlite_tx \<lparr>tx_begin = (\<lambda>_. Ok ()), tx_commit = (\<lambda>old new. (Ok (), new))\<rparr>
     \<lparr>dh_engine = lock_engine.Sqlite, dh_pool = lock_engine.Sqlite, dh_dsn = []\<rparr>
     (\<lambda>n. if n = (0::nat) then (Err (HandleOther ''empty'') :: (nat, handle_error) result, 7) else (Ok n, 8)) 0 = (Err (HandleOther ''empty''), 0)"
  (is "with_sqlite_tx ?tx ?h ?f 0 = _")
proof -
  obtain r d where r: "with_sqlite_tx ?tx ?h ?f 0 = (r, d)" by (rule prod.exhaust)
  have "case r of Ok v \<Rightarrow> ?f 0 = (Ok v, d)
     | Err e \<Rightarrow> d = 0 \<and> (fst (?f 0) = Err e \<or> (\<exists>s. e = HandleSqlx s \<or> e = HandleFeature s))"
    by (rule transactions_are_atomic[of ?tx with_sqlite_tx, OF _ _ r]) auto
  moreover have "fst (with_sqlite_tx ?tx ?h ?f 0) = Err (HandleOther ''empty'')"
    by (simp add: with_sqlite_tx_def sqlx_sqlite_def in_transaction_def)
  ultimately show ?thesis using r by auto
qed

end
