(* ===== verification/Error_Catalog.thy ===== *)
theory Error_Catalog
  imports Problem
begin

text \<open>
  Error catalogs: the macro \<open>declare_errors!\<close> (\<open>libs/modkit-errors-macro/src/lib.rs\<close>) and what it generates, over the
  definitions of \<open>libs/modkit-errors/src/catalog.rs\<close>.

  The invocation is the list of its \<open>key = literal\<close> pairs; the environment, the file and \<open>serde_json\<close> are
  parameters. The generated code is the catalog of its match arms and accessors, in order: a match takes the first
  arm, and the compiler accepts an enum and an \<open>impl\<close> only when their names are distinct.
\<close>

section \<open>The invocation\<close>

record error_entry =
  ee_status :: nat
  ee_title :: string
  ee_code :: string
  ee_type_url :: "string option"
  ee_alias :: "string option"

datatype catalog_error =
    UnknownParameter string
  | NotALiteral string
  | MissingParameter string
  | NoManifestDir
  | UnreadableCatalog string string
  | MalformedCatalog string string
  | InvalidStatus nat string
  | EmptyTitle string
  | DuplicateCode string
  | GtsPrefix string
  | GtsFirst string
  | GtsEmptySegment string
  | GtsInvalidSegment string string
  | GtsTooShort string nat
  | GtsVersion string string
  | AliasTooShort string
  | ShortNameCollision string "string list"

record declare_errors_input =
  de_path :: string
  de_namespace :: string
  de_pub :: bool

text \<open>A value that is no string literal is \<open>None\<close>.\<close>

fun parse_parameter ::
    "string \<times> string option \<Rightarrow> string option \<times> string option \<times> bool \<Rightarrow>
     (string option \<times> string option \<times> bool, catalog_error) result" where
  "parse_parameter (key, value) (path, namespace, pub) =
     (if key = ''path'' then and_then (ok_or (NotALiteral key) value) (\<lambda>v. Ok (Some v, namespace, pub))
      else if key = ''namespace'' then and_then (ok_or (NotALiteral key) value) (\<lambda>v. Ok (path, Some v, pub))
      else if key = ''vis'' then and_then (ok_or (NotALiteral key) value) (\<lambda>v. Ok (path, namespace, v = ''pub''))
      else Err (UnknownParameter key))"

fun parse_parameters ::
    "(string \<times> string option) list \<Rightarrow> string option \<times> string option \<times> bool \<Rightarrow>
     (string option \<times> string option \<times> bool, catalog_error) result" where
  "parse_parameters [] st = Ok st"
| "parse_parameters (p # ps) st = and_then (parse_parameter p st) (parse_parameters ps)"

definition parse_declare_errors :: "(string \<times> string option) list \<Rightarrow> (declare_errors_input, catalog_error) result" where
  "parse_declare_errors ps =
     and_then (parse_parameters ps (None, None, False)) (\<lambda>(path, namespace, pub).
       and_then (ok_or (MissingParameter ''path'') path) (\<lambda>p.
       and_then (ok_or (MissingParameter ''namespace'') namespace) (\<lambda>n.
         Ok \<lparr>de_path = p, de_namespace = n, de_pub = pub\<rparr>)))"

section \<open>Validation\<close>

definition is_digit_char :: "char \<Rightarrow> bool" where
  "is_digit_char c \<longleftrightarrow> (let n = of_char c :: nat in 48 \<le> n \<and> n \<le> 57)"

definition is_segment_char :: "char \<Rightarrow> bool" where
  "is_segment_char c \<longleftrightarrow> (let n = of_char c :: nat in (97 \<le> n \<and> n \<le> 122) \<or> is_digit_char c \<or> c = CHR ''_'')"

fun check_segments :: "string \<Rightarrow> string list \<Rightarrow> (unit, catalog_error) result" where
  "check_segments code [] = Ok ()"
| "check_segments code (s # ss) =
     (if s = [] then Err (GtsEmptySegment code)
      else if \<not> list_all is_segment_char s then Err (GtsInvalidSegment code s)
      else check_segments code ss)"

definition is_version :: "string \<Rightarrow> bool" where
  "is_version l \<longleftrightarrow> starts_with ''v'' l \<and> length l > 1 \<and>
     list_all (\<lambda>c. is_digit_char c \<or> c = CHR ''.'') (drop 1 l) \<and> list_all (\<lambda>t. t \<noteq> []) (split_on CHR ''.'' (drop 1 l))"

definition check_final :: "string \<Rightarrow> string list \<Rightarrow> (unit, catalog_error) result" where
  "check_final code segments =
     (let meaningful = (case segments of s # _ \<Rightarrow> if s = ''gts'' then length segments - 1 else length segments | [] \<Rightarrow> 0)
      in if meaningful < 5 then Err (GtsTooShort code meaningful)
         else if \<not> is_version (last segments) then Err (GtsVersion code (last segments))
         else Ok ())"

fun check_gtx :: "string \<Rightarrow> bool \<Rightarrow> string list \<Rightarrow> (unit, catalog_error) result" where
  "check_gtx code first [] = Ok ()"
| "check_gtx code first (gtx # rest) =
     (let segments = split_on CHR ''.'' gtx
      in if first \<and> hd segments \<noteq> ''gts'' then Err (GtsFirst code)
         else and_then (check_segments code segments) (\<lambda>_.
           and_then (if rest = [] then check_final code segments else Ok ()) (\<lambda>_.
             check_gtx code False rest)))"

definition validate_gts_format :: "string \<Rightarrow> (unit, catalog_error) result" where
  "validate_gts_format code =
     (if \<not> starts_with ''gts.'' code then Err (GtsPrefix code) else check_gtx code True (split_on CHR ''~'' code))"

text \<open>The warning on a repeated title and status is output only.\<close>

fun check_entries :: "string list \<Rightarrow> error_entry list \<Rightarrow> (unit, catalog_error) result" where
  "check_entries codes [] = Ok ()"
| "check_entries codes (e # es) =
     (if \<not> (100 \<le> ee_status e \<and> ee_status e \<le> 599) then Err (InvalidStatus (ee_status e) (ee_code e))
      else if trim (ee_title e) = [] then Err (EmptyTitle (ee_code e))
      else if ee_code e \<in> set codes then Err (DuplicateCode (ee_code e))
      else and_then (validate_gts_format (ee_code e)) (\<lambda>_. check_entries (ee_code e # codes) es))"

definition validate_entries :: "error_entry list \<Rightarrow> (unit, catalog_error) result" where
  "validate_entries es = check_entries [] es"

section \<open>Names\<close>

definition replace_chars :: "char set \<Rightarrow> string \<Rightarrow> string" where
  "replace_chars cs s = map (\<lambda>c. if c \<in> cs then CHR ''_'' else c) s"

definition prefix_digit :: "string \<Rightarrow> string" where
  "prefix_digit s = (case s of c # _ \<Rightarrow> if is_digit_char c then CHR ''_'' # s else s | [] \<Rightarrow> s)"

definition code_to_ident :: "string \<Rightarrow> string" where
  "code_to_ident code = prefix_digit (replace_chars {CHR ''.'', CHR ''-'', CHR ''/'', CHR ''~''} code)"

definition last_gtx_segment :: "string \<Rightarrow> string" where
  "last_gtx_segment code = rev (takeWhile (\<lambda>c. c \<noteq> CHR ''~'') (rev code))"

definition derive_alias_from_gts :: "string \<Rightarrow> (string, catalog_error) result" where
  "derive_alias_from_gts code =
     (let parts = split_on CHR ''.'' (last_gtx_segment code)
      in if length parts < 5 then Err (AliasTooShort code)
         else Ok (prefix_digit (replace_chars {CHR ''-'', CHR ''/'', CHR ''~''} (join ''_'' (drop 1 parts)))))"

definition short_name :: "error_entry \<Rightarrow> (string, catalog_error) result" where
  "short_name e = (case ee_alias e of Some a \<Rightarrow> Ok a | None \<Rightarrow> derive_alias_from_gts (ee_code e))"

text \<open>The codes of a name; the map of names is searched in some order, here that of the first use.\<close>

definition codes_of :: "(string \<times> string) list \<Rightarrow> string \<Rightarrow> string list" where
  "codes_of named n = map snd (filter (\<lambda>p. fst p = n) named)"

definition compute_short_names :: "error_entry list \<Rightarrow> (string list, catalog_error) result" where
  "compute_short_names es =
     and_then (collect short_name es) (\<lambda>names.
       let named = zip names (map ee_code es)
       in case find (\<lambda>n. length (codes_of named n) > 1) names of
            Some n \<Rightarrow> Err (ShortNameCollision n (codes_of named n))
          | None \<Rightarrow> collect short_name es)"

section \<open>The generated code\<close>

record error_catalog =
  ct_variants :: "string list"
  ct_status :: "(string \<times> nat) list"
  ct_defs :: "(string \<times> err_def) list"
  ct_accessors :: "(string \<times> string) list"
  ct_literals :: "(string \<times> string) list"

definition entry_def :: "error_entry \<Rightarrow> err_def" where
  "entry_def e =
     \<lparr>ed_status = ee_status e, ed_title = ee_title e, ed_code = ee_code e,
      ed_type_url = (case ee_type_url e of Some s \<Rightarrow> s | None \<Rightarrow> ''https://errors.example.com/'' @ ee_code e)\<rparr>"

definition generate_enum_variants :: "error_entry list \<Rightarrow> string list" where
  "generate_enum_variants es = map (\<lambda>e. code_to_ident (ee_code e)) es"

definition generate_const_defs :: "error_entry list \<Rightarrow> (string \<times> nat) list" where
  "generate_const_defs es = map (\<lambda>e. (code_to_ident (ee_code e), ee_status e)) es"

definition generate_impl_methods :: "error_entry list \<Rightarrow> (string \<times> err_def) list" where
  "generate_impl_methods es = map (\<lambda>e. (code_to_ident (ee_code e), entry_def e)) es"

definition generate_short_accessors :: "error_entry list \<Rightarrow> string list \<Rightarrow> (string \<times> string) list" where
  "generate_short_accessors es names = map (\<lambda>(e, n). (n, code_to_ident (ee_code e))) (zip es names)"

definition generate_from_literal :: "error_entry list \<Rightarrow> (string \<times> string) list" where
  "generate_from_literal es = map (\<lambda>e. (ee_code e, code_to_ident (ee_code e))) es"

record catalog_env =
  ce_manifest_dir :: "string option"
  ce_read :: "string \<Rightarrow> (string, string) result"
  ce_parse :: "string \<Rightarrow> (error_entry list, string) result"

definition join_path :: "string \<Rightarrow> string \<Rightarrow> string" where
  "join_path d p = (if starts_with ''/'' p then p else if ends_with ''/'' d then d @ p else d @ ''/'' @ p)"

definition generate_errors :: "catalog_env \<Rightarrow> declare_errors_input \<Rightarrow> (error_catalog, catalog_error) result" where
  "generate_errors env i =
     and_then (ok_or NoManifestDir (ce_manifest_dir env)) (\<lambda>dir.
       let path = join_path dir (de_path i)
       in and_then (map_err (UnreadableCatalog path) (ce_read env path)) (\<lambda>content.
          and_then (map_err (MalformedCatalog path) (ce_parse env content)) (\<lambda>es.
          and_then (validate_entries es) (\<lambda>_.
          and_then (compute_short_names es) (\<lambda>names.
            Ok \<lparr>ct_variants = generate_enum_variants es, ct_status = generate_const_defs es, ct_defs = generate_impl_methods es,
                ct_accessors = generate_short_accessors es names, ct_literals = generate_from_literal es\<rparr>)))))"

definition declare_errors :: "catalog_env \<Rightarrow> (string \<times> string option) list \<Rightarrow> (error_catalog, catalog_error) result" where
  "declare_errors env ps = and_then (parse_declare_errors ps) (generate_errors env)"

text \<open>The methods of the generated enum. \<open>from_literal\<close> panics where the result is \<open>None\<close>.\<close>

definition code_status :: "error_catalog \<Rightarrow> string \<Rightarrow> nat option" where
  "code_status ct v = map_of (ct_status ct) v"

definition code_def :: "error_catalog \<Rightarrow> string \<Rightarrow> err_def option" where
  "code_def ct v = map_of (ct_defs ct) v"

definition from_literal :: "error_catalog \<Rightarrow> string \<Rightarrow> string option" where
  "from_literal ct code = map_of (ct_literals ct) code"

definition accessor :: "error_catalog \<Rightarrow> string \<Rightarrow> string option" where
  "accessor ct name = map_of (ct_accessors ct) name"

definition code_as_problem :: "error_catalog \<Rightarrow> string \<Rightarrow> string \<Rightarrow> problem option" where
  "code_as_problem ct v detail = map_option (\<lambda>d. as_problem d detail) (code_def ct v)"

definition code_with_context :: "error_catalog \<Rightarrow> string \<Rightarrow> string \<Rightarrow> string \<Rightarrow> string option \<Rightarrow> problem option" where
  "code_with_context ct v detail instance_uri trace =
     map_option (\<lambda>p. let p = with_instance instance_uri p
       in case trace of Some t \<Rightarrow> with_trace_id t p | None \<Rightarrow> p) (code_as_problem ct v detail)"

text \<open>The generated macros: the first rule of the literal, and a compile error (\<open>None\<close>) for an unknown one.\<close>

definition problem_from_catalog :: "error_catalog \<Rightarrow> string \<Rightarrow> string option \<Rightarrow> problem option" where
  "problem_from_catalog ct lit detail =
     Option.bind (from_literal ct lit) (\<lambda>v. code_as_problem ct v (case detail of Some d \<Rightarrow> d | None \<Rightarrow> []))"

definition response_from_catalog :: "error_catalog \<Rightarrow> string \<Rightarrow> string \<Rightarrow> string option \<Rightarrow> string option \<Rightarrow> problem option" where
  "response_from_catalog ct lit instance_uri trace detail =
     Option.bind (from_literal ct lit) (\<lambda>v. code_with_context ct v (case detail of Some d \<Rightarrow> d | None \<Rightarrow> []) instance_uri trace)"


section \<open>Lemmas\<close>

lemma split_no_sep: "l \<in> set (split_on c s) \<Longrightarrow> c \<notin> set l"
  by (induction s arbitrary: l) (auto split: list.splits if_splits)

lemma check_segments_ok: "check_segments code ss = Ok () \<longleftrightarrow> (\<forall>s\<in>set ss. s \<noteq> [] \<and> list_all is_segment_char s)"
  by (induction ss) auto

lemma check_gtx_ok:
  "check_gtx code first gs = Ok () \<longleftrightarrow>
     (first \<longrightarrow> gs \<noteq> [] \<longrightarrow> hd (split_on CHR ''.'' (hd gs)) = ''gts'') \<and>
     (\<forall>g\<in>set gs. \<forall>s\<in>set (split_on CHR ''.'' g). s \<noteq> [] \<and> list_all is_segment_char s) \<and>
     (gs \<noteq> [] \<longrightarrow> check_final code (split_on CHR ''.'' (last gs)) = Ok ())"
  by (induction gs arbitrary: first) (auto simp: res_simps check_segments_ok Let_def)

lemma gts_prefix_first:
  assumes "starts_with ''gts.'' code"
  shows "hd (split_on CHR ''.'' (hd (split_on CHR ''~'' code))) = ''gts''"
proof -
  have "take 4 code = ''gts.''" using assms by (simp add: starts_with_def eval_nat_numeral)
  then have "code = ''gts.'' @ drop 4 code" by (metis append_take_drop_id)
  then obtain r where r: "code = CHR ''g'' # CHR ''t'' # CHR ''s'' # CHR ''.'' # r" by auto
  show ?thesis unfolding r by (cases "split_on CHR ''~'' r") auto
qed

text \<open>The format as a rule: what a version is when its text has no dot.\<close>

definition plain_version :: "string \<Rightarrow> bool" where
  "plain_version l = (case l of c # ds \<Rightarrow> c = CHR ''v'' \<and> ds \<noteq> [] \<and> list_all is_digit_char ds | [] \<Rightarrow> False)"

lemma is_version_plain: "CHR ''.'' \<notin> set l \<Longrightarrow> is_version l \<longleftrightarrow> plain_version l"
  by (cases l) (auto simp: is_version_def plain_version_def starts_with_def split_on_plain list_all_iff)

definition gts_code :: "string \<Rightarrow> bool" where
  "gts_code code =
     (let gtxs = map (split_on CHR ''.'') (split_on CHR ''~'' code); final = last gtxs
      in starts_with ''gts.'' code \<and> list_all (list_all (\<lambda>s. s \<noteq> [] \<and> list_all is_segment_char s)) gtxs \<and>
         length final \<ge> (if hd final = ''gts'' then 6 else 5) \<and> plain_version (last final))"

lemma check_final_ok:
  "check_final code ss = Ok () \<longleftrightarrow> ss \<noteq> [] \<and> length ss \<ge> (if hd ss = ''gts'' then 6 else 5) \<and> is_version (last ss)"
  by (cases ss) (auto simp: check_final_def Let_def split: if_splits)

lemma check_entries_ok:
  "check_entries codes es = Ok () \<longleftrightarrow>
     (\<forall>e\<in>set es. 100 \<le> ee_status e \<and> ee_status e \<le> 599 \<and> trim (ee_title e) \<noteq> [] \<and> validate_gts_format (ee_code e) = Ok ()) \<and>
     distinct (map ee_code es) \<and> set (map ee_code es) \<inter> set codes = {}"
  by (induction es arbitrary: codes) (auto simp: res_simps)

lemma last_gtx_split: "last_gtx_segment code = last (split_on CHR ''~'' code)"
proof (induction code)
  case (Cons c code)
  have "(\<forall>x\<in>set code. x \<noteq> CHR ''~'') \<Longrightarrow> split_on CHR ''~'' code = [code]" by (rule split_on_plain) auto
  moreover have "CHR ''~'' \<in> set code \<Longrightarrow> length (split_on CHR ''~'' code) > 1"
    by (induction code) (auto split: list.splits)
  ultimately show ?case
    using Cons by (auto simp: last_gtx_segment_def takeWhile_append split: list.splits)
qed (simp add: last_gtx_segment_def)

lemma alias_of_valid:
  assumes "validate_gts_format code = Ok ()"
  shows "\<exists>a. derive_alias_from_gts code = Ok a"
proof -
  have "check_final code (split_on CHR ''.'' (last (split_on CHR ''~'' code))) = Ok ()"
    using assms by (simp add: validate_gts_format_def check_gtx_ok split: if_splits)
  then have "length (split_on CHR ''.'' (last_gtx_segment code)) \<ge> 5"
    by (simp add: check_final_ok last_gtx_split split: if_splits)
  then show ?thesis by (simp add: derive_alias_from_gts_def Let_def)
qed

lemma codes_of_distinct:
  assumes "length names = length codes"
  shows "(\<forall>n\<in>set names. \<not> length (codes_of (zip names codes) n) > 1) \<longleftrightarrow> distinct names"
proof -
  have len: "length (codes_of (zip names codes) n) = count_list names n" for n
    using assms by (induction names codes rule: list_induct2) (auto simp: codes_of_def)
  have "distinct names \<longleftrightarrow> (\<forall>n\<in>set names. count_list names n \<le> 1)"
  proof (induction names)
    case (Cons a names)
    have "count_list names a = 0 \<longleftrightarrow> a \<notin> set names" by (rule count_list_0_iff)
    then show ?case using Cons by auto
  qed simp
  then show ?thesis unfolding len by (simp add: not_less)
qed


lemma generate_errors_ok:
  "generate_errors env i = Ok ct \<longleftrightarrow>
     (\<exists>dir content es names. ce_manifest_dir env = Some dir \<and> ce_read env (join_path dir (de_path i)) = Ok content \<and>
        ce_parse env content = Ok es \<and> validate_entries es = Ok () \<and> compute_short_names es = Ok names \<and>
        ct = \<lparr>ct_variants = generate_enum_variants es, ct_status = generate_const_defs es, ct_defs = generate_impl_methods es,
              ct_accessors = generate_short_accessors es names, ct_literals = generate_from_literal es\<rparr>)"
  by (auto simp: generate_errors_def res_simps Let_def)

lemma short_names_ok:
  "compute_short_names es = Ok names \<Longrightarrow> collect short_name es = Ok names \<and> distinct names \<and> length names = length es"
proof -
  assume "compute_short_names es = Ok names"
  then have c: "collect short_name es = Ok names" and
    "find (\<lambda>n. length (codes_of (zip names (map ee_code es)) n) > 1) names = None"
    by (auto simp: compute_short_names_def res_simps Let_def split: option.splits)
  then show ?thesis
    using codes_of_distinct[of names "map ee_code es"] collect_length[OF c] by (simp add: find_None_iff)
qed

lemma map_of_arm: "distinct (map f es) \<Longrightarrow> e \<in> set es \<Longrightarrow> map_of (map (\<lambda>e. (f e, g e)) es) (f e) = Some (g e)"
  by (rule map_of_is_SomeI) (auto simp: comp_def)

lemma gts_format: "validate_gts_format code = Ok () \<longleftrightarrow> gts_code code"
proof -
  have "last (split_on CHR ''.'' g) \<in> set (split_on CHR ''.'' g)" for g by simp
  then have "is_version (last (split_on CHR ''.'' g)) = plain_version (last (split_on CHR ''.'' g))" for g
    by (intro is_version_plain) (rule split_no_sep)
  then show ?thesis
    by (auto simp: validate_gts_format_def check_gtx_ok check_final_ok gts_code_def gts_prefix_first list_all_iff last_map Let_def
        split: if_splits)
qed

lemma split_on_app: "split_on c (s @ c # t) = split_on c s @ split_on c t"
  by (induction s) (auto split: list.splits)

section \<open>Properties\<close>

text \<open>
  The validation of codes decides the format as a rule says it: every segment of every part is of
  lower case letters, digits and underscores, the first part starts with \<open>gts.\<close>, and the last part has five segments,
  not counting \<open>gts\<close>, of which the last is \<open>v\<close> and a number.
\<close>

theorem gts_validation_is_the_format: "validate_gts_format code = Ok () \<longleftrightarrow> gts_code code"
  by (rule gts_format)

text \<open>
  A code that ends in a minor version is rejected, although the rules allow \<open>vN.M\<close>: the dot is a separator of segments.
\<close>

theorem minor_versions_are_rejected:
  assumes "list_all is_digit_char ds"
  shows "validate_gts_format (code @ ''.'' @ ds) \<noteq> Ok ()"
proof
  assume ok: "validate_gts_format (code @ ''.'' @ ds) = Ok ()"
  have no: "CHR ''~'' \<notin> set ds" "CHR ''.'' \<notin> set ds" "ds \<noteq> [] \<Longrightarrow> hd ds \<noteq> CHR ''v''"
    using assms by (cases ds; auto simp: list_all_iff is_digit_char_def)+
  have suffix: "split_on CHR ''~'' (s @ CHR ''.'' # ds) =
      butlast (split_on CHR ''~'' s) @ [last (split_on CHR ''~'' s) @ CHR ''.'' # ds]" for s
    using no(1) by (induction s) (auto simp: split_on_plain split: list.splits)
  have dots: "last (split_on CHR ''.'' (s @ CHR ''.'' # ds)) = ds" for s
    using no(2) by (simp add: split_on_app split_on_plain)
  have "plain_version (last (split_on CHR ''.'' (last (split_on CHR ''~'' (code @ ''.'' @ ds)))))"
    using ok by (simp add: gts_format gts_code_def last_map Let_def)
  then have "plain_version ds" by (simp add: suffix dots)
  with no(3) show False by (cases ds) (auto simp: plain_version_def)
qed


text \<open>
  A catalog that is generated, and whose variants the compiler accepts, is exact: the literal and the short name of every
  entry give its variant, which has its status, its definition, and makes problems with its status, title and code.
\<close>

theorem accepted_catalog_is_exact:
  assumes "generate_errors env i = Ok ct" "distinct (ct_variants ct)"
  shows "\<exists>content es. ce_parse env content = Ok es \<and> (\<forall>e\<in>set es. \<exists>v n. short_name e = Ok n \<and>
     from_literal ct (ee_code e) = Some v \<and> accessor ct n = Some v \<and> code_status ct v = Some (ee_status e) \<and>
     code_def ct v = Some (entry_def e) \<and>
     code_as_problem ct v detail = Some \<lparr>p_type_url = ed_type_url (entry_def e), p_title = ee_title e, p_status = ee_status e,
       p_detail = detail, p_instance = [], p_code = ee_code e, p_trace_id = None, p_errors = None\<rparr>)"
proof -
  from assms(1) obtain content es names where es: "ce_parse env content = Ok es" "validate_entries es = Ok ()"
      "compute_short_names es = Ok names" and
    ct: "ct = \<lparr>ct_variants = generate_enum_variants es, ct_status = generate_const_defs es, ct_defs = generate_impl_methods es,
              ct_accessors = generate_short_accessors es names, ct_literals = generate_from_literal es\<rparr>"
    unfolding generate_errors_ok by blast
  have names: "collect short_name es = Ok names" "distinct names" "length names = length es"
    using short_names_ok[OF es(3)] by auto
  have ok: "distinct (map ee_code es)" "\<And>e. e \<in> set es \<Longrightarrow> 100 \<le> ee_status e \<and> ee_status e \<le> 599"
    using es(2) by (auto simp: validate_entries_def check_entries_ok)
  have variants: "distinct (map (\<lambda>e. code_to_ident (ee_code e)) es)"
    using assms(2) by (simp add: ct generate_enum_variants_def)
  have "\<exists>v n. short_name e = Ok n \<and> from_literal ct (ee_code e) = Some v \<and> accessor ct n = Some v \<and>
     code_status ct v = Some (ee_status e) \<and> code_def ct v = Some (entry_def e) \<and>
     code_as_problem ct v detail = Some \<lparr>p_type_url = ed_type_url (entry_def e), p_title = ee_title e, p_status = ee_status e,
       p_detail = detail, p_instance = [], p_code = ee_code e, p_trace_id = None, p_errors = None\<rparr>"
    if e: "e \<in> set es" for e
  proof -
    from e obtain j where j: "j < length es" "es ! j = e" by (auto simp: in_set_conv_nth)
    have n: "short_name e = Ok (names ! j)"
      using names(1) j by (auto simp: collect_Ok_iff list_all2_conv_all_nth)
    have "map fst (ct_accessors ct) = names"
      using names(3) by (simp add: ct generate_short_accessors_def comp_def split_beta)
    moreover have "(names ! j, code_to_ident (ee_code e)) \<in> set (ct_accessors ct)"
      using j names(3) by (auto simp: ct generate_short_accessors_def in_set_zip intro!: image_eqI[of _ _ "(e, names ! j)"])
    ultimately have "accessor ct (names ! j) = Some (code_to_ident (ee_code e))"
      unfolding accessor_def using names(2) by (intro map_of_is_SomeI) simp_all
    moreover have "from_literal ct (ee_code e) = Some (code_to_ident (ee_code e))"
      using map_of_arm[OF ok(1) e] by (simp add: from_literal_def ct generate_from_literal_def)
    moreover have "code_status ct (code_to_ident (ee_code e)) = Some (ee_status e)"
      using map_of_arm[OF variants e] by (simp add: code_status_def ct generate_const_defs_def)
    moreover have "code_def ct (code_to_ident (ee_code e)) = Some (entry_def e)"
      using map_of_arm[OF variants e] by (simp add: code_def_def ct generate_impl_methods_def)
    ultimately show ?thesis
      using n ok(2)[OF e]
      by (intro exI[of _ "code_to_ident (ee_code e)"] exI[of _ "names ! j"])
        (simp add: code_as_problem_def as_problem_def entry_def_def status_from_u16_def problem_new_def with_type_def with_code_def Let_def)
  qed
  then show ?thesis using es(1) by blast
qed

text \<open>
  The macros accept a literal exactly when the catalog has an entry with this code.
\<close>

theorem literals_are_checked:
  assumes "generate_errors env i = Ok ct" "distinct (ct_variants ct)"
  shows "\<exists>content es. ce_parse env content = Ok es \<and>
     (\<forall>lit detail. problem_from_catalog ct lit detail = None \<longleftrightarrow> lit \<notin> ee_code ` set es)"
proof -
  from assms(1) obtain content es names where es: "ce_parse env content = Ok es" and
    ct: "ct = \<lparr>ct_variants = generate_enum_variants es, ct_status = generate_const_defs es, ct_defs = generate_impl_methods es,
              ct_accessors = generate_short_accessors es names, ct_literals = generate_from_literal es\<rparr>"
    unfolding generate_errors_ok by blast
  have miss: "from_literal ct lit = None \<longleftrightarrow> lit \<notin> ee_code ` set es" for lit
    by (simp add: from_literal_def ct generate_from_literal_def map_of_eq_None_iff image_image)
  have none: "code_as_problem ct v d \<noteq> None" if "from_literal ct lit = Some v" for lit v d
  proof -
    have "(lit, v) \<in> set (ct_literals ct)" using that unfolding from_literal_def by (rule map_of_SomeD)
    then have "v \<in> fst ` set (ct_defs ct)" by (auto simp: ct generate_from_literal_def generate_impl_methods_def image_image)
    then show ?thesis by (simp add: code_as_problem_def code_def_def map_of_eq_None_iff)
  qed
  have "problem_from_catalog ct lit detail = None \<longleftrightarrow> lit \<notin> ee_code ` set es" for lit detail
  proof (cases "from_literal ct lit")
    case None
    then show ?thesis using miss[of lit] by (simp add: problem_from_catalog_def)
  next
    case (Some v)
    have "lit \<in> ee_code ` set es" using miss[of lit] Some by simp
    moreover have "problem_from_catalog ct lit detail \<noteq> None" using none[OF Some] by (simp add: problem_from_catalog_def Some)
    ultimately show ?thesis by simp
  qed
  with es show ?thesis by blast
qed

text \<open>
  Once the entries are validated, computing their short names fails only for a collision: the alias of a valid code can be
  derived, and the names are rejected exactly when two of them are equal.
\<close>

theorem short_names_fail_only_on_collision:
  assumes "validate_entries es = Ok ()"
  shows "\<exists>names. list_all2 (\<lambda>e n. short_name e = Ok n) es names \<and>
     (if distinct names then compute_short_names es = Ok names
      else \<exists>n codes. compute_short_names es = Err (ShortNameCollision n codes) \<and> length codes > 1 \<and> set codes \<subseteq> ee_code ` set es)"
proof -
  have "\<exists>n. short_name e = Ok n" if "e \<in> set es" for e
    using that assms alias_of_valid by (auto simp: validate_entries_def check_entries_ok short_name_def split: option.splits)
  then obtain f where "\<And>e. e \<in> set es \<Longrightarrow> short_name e = Ok (f e)" by metis
  then have names: "collect short_name es = Ok (map f es)" by (rule collect_map_Ok)
  let ?names = "map f es" and ?clash = "\<lambda>n. length (codes_of (zip (map f es) (map ee_code es)) n) > 1"
  have "set (codes_of (zip ?names (map ee_code es)) n) \<subseteq> ee_code ` set es" for n
    by (auto simp: codes_of_def zip_map_map dest: in_set_zipE)
  moreover have "(\<forall>n\<in>set ?names. \<not> ?clash n) \<longleftrightarrow> distinct ?names" by (rule codes_of_distinct) simp
  moreover have "find ?clash ?names = Some n \<Longrightarrow> ?clash n" for n by (auto simp: find_Some_iff)
  ultimately have "if distinct ?names then compute_short_names es = Ok ?names
      else \<exists>n codes. compute_short_names es = Err (ShortNameCollision n codes) \<and> length codes > 1 \<and> set codes \<subseteq> ee_code ` set es"
    using find_None_iff[of ?clash ?names]
    by (cases "find ?clash ?names") (auto simp: compute_short_names_def names Let_def)
  then show ?thesis using names by (auto simp: collect_Ok_iff)
qed

text \<open>
  The code that the tests of the macro document as valid is rejected: its last part has four segments.
\<close>

theorem documented_code_is_rejected:
  "validate_gts_format ''gts.hx.core.errors.err.v1~hx.test.basic.v1'' =
     Err (GtsTooShort ''gts.hx.core.errors.err.v1~hx.test.basic.v1'' 4)"
  by code_simp

text \<open>
  Two valid codes that differ in a dot and an underscore only give the same variant. With aliases of their own the macro
  generates the catalog, and the enum that it generates does not compile.
\<close>

theorem variants_can_collide:
  "let es = [\<lparr>ee_status = 404, ee_title = ''A'', ee_code = ''gts.a.b_c.d.e.v1'', ee_type_url = None, ee_alias = Some ''first''\<rparr>,
             \<lparr>ee_status = 409, ee_title = ''B'', ee_code = ''gts.a.b.c_d.e.v1'', ee_type_url = None, ee_alias = Some ''second''\<rparr>]
   in validate_entries es = Ok () \<and> compute_short_names es = Ok [''first'', ''second''] \<and> \<not> distinct (generate_enum_variants es)"
  by code_simp

section \<open>Witnesses\<close>

theorem minor_versions_are_rejected_witness: "validate_gts_format (''gts.a.b.c.d.v1'' @ ''.'' @ ''0'') \<noteq> Ok ()"
  by (rule minor_versions_are_rejected) code_simp

text \<open>The first two entries of the catalog of the example.\<close>

definition demo_entries :: "error_entry list" where
  "demo_entries =
     [\<lparr>ee_status = 404, ee_title = ''User Not Found'', ee_code = ''gts.hx.core.errors.err.v1~hx.example1.user.not_found.v1'',
       ee_type_url = None, ee_alias = None\<rparr>,
      \<lparr>ee_status = 409, ee_title = ''Email Already Exists'', ee_code = ''gts.hx.core.errors.err.v1~hx.example1.user.email_conflict.v1'',
       ee_type_url = None, ee_alias = None\<rparr>]"

definition demo_catalog_env :: catalog_env where
  "demo_catalog_env = \<lparr>ce_manifest_dir = Some ''/c'', ce_read = (\<lambda>p. if p = ''/c/e.json'' then Ok [] else Err ''none''),
     ce_parse = (\<lambda>_. Ok demo_entries)\<rparr>"

definition demo_input :: declare_errors_input where
  "demo_input = \<lparr>de_path = ''e.json'', de_namespace = ''errors'', de_pub = True\<rparr>"

lemma demo_generated:
  "\<exists>ct. generate_errors demo_catalog_env demo_input = Ok ct \<and> distinct (ct_variants ct) \<and>
     from_literal ct ''gts.hx.core.errors.err.v1~hx.example1.user.not_found.v1'' =
       Some ''gts_hx_core_errors_err_v1_hx_example1_user_not_found_v1''"
proof -
  have "case generate_errors demo_catalog_env demo_input of
      Ok ct \<Rightarrow> distinct (ct_variants ct) \<and> from_literal ct ''gts.hx.core.errors.err.v1~hx.example1.user.not_found.v1'' =
       Some ''gts_hx_core_errors_err_v1_hx_example1_user_not_found_v1''
    | Err _ \<Rightarrow> False" by code_simp
  then show ?thesis by (cases "generate_errors demo_catalog_env demo_input") auto
qed

theorem accepted_catalog_is_exact_witness:
  "\<exists>ct. generate_errors demo_catalog_env demo_input = Ok ct \<and>
     map_option p_status (code_as_problem ct ''gts_hx_core_errors_err_v1_hx_example1_user_not_found_v1'' ''gone'') = Some 404"
proof -
  let ?code = "''gts.hx.core.errors.err.v1~hx.example1.user.not_found.v1''"
  obtain ct where ct: "generate_errors demo_catalog_env demo_input = Ok ct" "distinct (ct_variants ct)"
    "from_literal ct ?code = Some ''gts_hx_core_errors_err_v1_hx_example1_user_not_found_v1''"
    using demo_generated by blast
  have e: "hd demo_entries \<in> set demo_entries" "ee_code (hd demo_entries) = ?code" "ee_status (hd demo_entries) = 404"
    by (simp_all add: demo_entries_def)
  obtain v where "from_literal ct ?code = Some v" "map_option p_status (code_as_problem ct v ''gone'') = Some 404"
    using accepted_catalog_is_exact[OF ct(1,2), of "''gone''"] e by (auto simp: demo_catalog_env_def)
  with ct show ?thesis by auto
qed

theorem literals_are_checked_witness:
  "\<exists>ct. generate_errors demo_catalog_env demo_input = Ok ct \<and> problem_from_catalog ct ''gts.unknown'' None = None"
proof -
  obtain ct where ct: "generate_errors demo_catalog_env demo_input = Ok ct" "distinct (ct_variants ct)"
    using demo_generated by blast
  have "''gts.unknown'' \<notin> ee_code ` set demo_entries" by (simp add: demo_entries_def)
  then show ?thesis using literals_are_checked[OF ct] ct(1) by (auto simp: demo_catalog_env_def)
qed

theorem short_names_fail_only_on_collision_witness:
  "compute_short_names demo_entries = Ok [''example1_user_not_found_v1'', ''example1_user_email_conflict_v1'']"
proof -
  have "validate_entries demo_entries = Ok ()" by code_simp
  from short_names_fail_only_on_collision[OF this] obtain names
    where names: "list_all2 (\<lambda>e n. short_name e = Ok n) demo_entries names" "distinct names \<Longrightarrow> compute_short_names demo_entries = Ok names"
    by (auto split: if_splits)
  have "collect short_name demo_entries = Ok [''example1_user_not_found_v1'', ''example1_user_email_conflict_v1'']" by code_simp
  with names(1) have "names = [''example1_user_not_found_v1'', ''example1_user_email_conflict_v1'']"
    by (simp add: collect_Ok_iff[symmetric])
  with names(2) show ?thesis by simp
qed

end
