(* ===== verification/Users_Service.thy ===== *)
theory Users_Service
  imports Secure_Orm Error_Catalog
begin

text \<open>
  The \<open>users_info\<close> module (\<open>examples/modkit/users_info\<close>): the domain service (\<open>domain/service.rs\<close>) over its ports, the
  repository over the secure data access layer (\<open>infra/storage\<close>), the in-process client (\<open>local_client.rs\<close>), the
  REST handlers and error mapping (\<open>api/rest\<close>), the HTTP audit client; the migrations are in \<open>Users_Schema\<close>.

  The contract model, the entity and the DTO have the same fields and are one record. A time is a
  number. The service gets the time, a fresh id and the answers of the ports; its world is the database, the events
  that were published and the calls that were made to the audit service.
\<close>

section \<open>Users, errors and events\<close>

record user =
  us_id :: uuid
  us_tenant_id :: uuid
  us_email :: string
  us_display_name :: string
  us_created_at :: int
  us_updated_at :: int

record new_user =
  nu_id :: "uuid option"
  nu_tenant_id :: uuid
  nu_email :: string
  nu_display_name :: string

record user_patch =
  up_email :: "string option"
  up_display_name :: "string option"

datatype user_event = Created uuid int | Updated uuid int | Deleted uuid int

datatype user_error =
    UserNotFound uuid
  | EmailAlreadyExists string
  | InvalidEmail string
  | EmptyDisplayName
  | DisplayNameTooLong nat nat
  | Database string
  | Validation string string

datatype users_info_error = InfoNotFound uuid | InfoConflict string | InfoValidation string | InfoInternal

fun users_info_error_of :: "user_error \<Rightarrow> users_info_error" where
  "users_info_error_of (UserNotFound i) = InfoNotFound i"
| "users_info_error_of (EmailAlreadyExists e) = InfoConflict e"
| "users_info_error_of (InvalidEmail e) = InfoValidation (''Invalid email: '' @ e)"
| "users_info_error_of EmptyDisplayName = InfoValidation ''Display name cannot be empty''"
| "users_info_error_of (DisplayNameTooLong l m) =
     InfoValidation (''Display name too long: '' @ show_nat l @ '' characters (max: '' @ show_nat m @ '')'')"
| "users_info_error_of (Validation f m) = InfoValidation (f @ '': '' @ m)"
| "users_info_error_of (Database m) = InfoInternal"

section \<open>Ports\<close>

record 'w users_repo =
  ur_find_by_id :: "security_ctx \<Rightarrow> uuid \<Rightarrow> 'w \<Rightarrow> (user option, string) result"
  ur_email_exists :: "security_ctx \<Rightarrow> string \<Rightarrow> 'w \<Rightarrow> (bool, string) result"
  ur_insert :: "security_ctx \<Rightarrow> user \<Rightarrow> 'w \<Rightarrow> (unit, string) result \<times> 'w"
  ur_update :: "security_ctx \<Rightarrow> user \<Rightarrow> 'w \<Rightarrow> (unit, string) result \<times> 'w"
  ur_delete :: "security_ctx \<Rightarrow> uuid \<Rightarrow> 'w \<Rightarrow> (bool, string) result \<times> 'w"
  ur_list :: "security_ctx \<Rightarrow> odata_query \<Rightarrow> 'w \<Rightarrow> (user page, odata_error) result"

datatype audit_call = AccessCall uuid | CreatedCall

record audit_port =
  ap_access :: "uuid \<Rightarrow> (unit, user_error) result"
  ap_created :: "(unit, user_error) result"

record service_config =
  sc_max_display_name_length :: nat
  sc_default_page_size :: nat
  sc_max_page_size :: nat

definition default_service_config :: service_config where
  "default_service_config =
     \<lparr>sc_max_display_name_length = 100, sc_default_page_size = 50, sc_max_page_size = 1000\<rparr>"

record 'w users_service =
  sv_repo :: "'w users_repo"
  sv_audit :: audit_port
  sv_config :: service_config

record 'w users_world =
  uw_db :: 'w
  uw_events :: "user_event list"
  uw_audit :: "audit_call list"

definition publish :: "user_event \<Rightarrow> 'w users_world \<Rightarrow> 'w users_world" where
  "publish e w = w\<lparr>uw_events := uw_events w @ [e]\<rparr>"

definition audit_access :: "'w users_service \<Rightarrow> uuid \<Rightarrow> 'w users_world \<Rightarrow> (unit, user_error) result \<times> 'w users_world" where
  "audit_access sv i w = (ap_access (sv_audit sv) i, w\<lparr>uw_audit := uw_audit w @ [AccessCall i]\<rparr>)"

definition audit_created :: "'w users_service \<Rightarrow> 'w users_world \<Rightarrow> (unit, user_error) result \<times> 'w users_world" where
  "audit_created sv w = (ap_created (sv_audit sv), w\<lparr>uw_audit := uw_audit w @ [CreatedCall]\<rparr>)"

section \<open>Validation\<close>

definition validate_email :: "string \<Rightarrow> (unit, user_error) result" where
  "validate_email e = (if e = [] \<or> CHR ''@'' \<notin> set e \<or> CHR ''.'' \<notin> set e then Err (InvalidEmail e) else Ok ())"

text \<open>\<open>str::len\<close>: bytes of UTF-8, of characters below U+0100.\<close>

definition utf8_len :: "string \<Rightarrow> nat" where
  "utf8_len s = sum_list (map (\<lambda>c. if (of_char c :: nat) < 128 then 1 else 2) s)"

definition validate_display_name :: "service_config \<Rightarrow> string \<Rightarrow> (unit, user_error) result" where
  "validate_display_name cfg n =
     (if trim n = [] then Err EmptyDisplayName
      else if utf8_len n > sc_max_display_name_length cfg
      then Err (DisplayNameTooLong (utf8_len n) (sc_max_display_name_length cfg)) else Ok ())"

definition validate_new_user :: "service_config \<Rightarrow> new_user \<Rightarrow> (unit, user_error) result" where
  "validate_new_user cfg nu = and_then (validate_email (nu_email nu)) (\<lambda>_. validate_display_name cfg (nu_display_name nu))"

definition validate_user_patch :: "service_config \<Rightarrow> user_patch \<Rightarrow> (unit, user_error) result" where
  "validate_user_patch cfg p =
     and_then (case up_email p of Some e \<Rightarrow> validate_email e | None \<Rightarrow> Ok ()) (\<lambda>_.
       case up_display_name p of Some n \<Rightarrow> validate_display_name cfg n | None \<Rightarrow> Ok ())"

section \<open>The service\<close>

definition get_user ::
    "'w users_service \<Rightarrow> security_ctx \<Rightarrow> uuid \<Rightarrow> 'w users_world \<Rightarrow> (user, user_error) result \<times> 'w users_world" where
  "get_user sv ctx i w =
     (case audit_access sv i w of
        (_, w) \<Rightarrow>
          (and_then (map_err Database (ur_find_by_id (sv_repo sv) ctx i (uw_db w))) (ok_or (UserNotFound i)), w))"

definition list_users_page ::
    "'w users_service \<Rightarrow> security_ctx \<Rightarrow> odata_query \<Rightarrow> 'w users_world \<Rightarrow> (user page, odata_error) result \<times> 'w users_world" where
  "list_users_page sv ctx q w = (ur_list (sv_repo sv) ctx q (uw_db w), w)"

text \<open>\<open>fresh\<close> is the id of the call of \<open>now_v7\<close> whose result is used.\<close>

definition create_user ::
    "'w users_service \<Rightarrow> security_ctx \<Rightarrow> uuid \<Rightarrow> int \<Rightarrow> new_user \<Rightarrow> 'w users_world \<Rightarrow>
     (user, user_error) result \<times> 'w users_world" where
  "create_user sv ctx fresh now nu w =
     (case validate_new_user (sv_config sv) nu of
        Err e \<Rightarrow> (Err e, w)
      | Ok _ \<Rightarrow>
          (case (case nu_id nu of
                   None \<Rightarrow> Ok False
                 | Some i \<Rightarrow> and_then (map_err Database (ur_find_by_id (sv_repo sv) ctx i (uw_db w))) (\<lambda>u. Ok (u \<noteq> None))) of
             Err e \<Rightarrow> (Err e, w)
           | Ok True \<Rightarrow> (Err (Validation ''id'' ''User with this ID already exists''), w)
           | Ok False \<Rightarrow>
               (case map_err Database (ur_email_exists (sv_repo sv) ctx (nu_email nu) (uw_db w)) of
                  Err e \<Rightarrow> (Err e, w)
                | Ok True \<Rightarrow> (Err (EmailAlreadyExists (nu_email nu)), w)
                | Ok False \<Rightarrow>
                    (let u = \<lparr>us_id = (case nu_id nu of Some i \<Rightarrow> i | None \<Rightarrow> fresh), us_tenant_id = nu_tenant_id nu,
                           us_email = nu_email nu, us_display_name = nu_display_name nu, us_created_at = now, us_updated_at = now\<rparr>
                     in case ur_insert (sv_repo sv) ctx u (uw_db w) of
                          (Err e, db) \<Rightarrow> (Err (Database e), w\<lparr>uw_db := db\<rparr>)
                        | (Ok _, db) \<Rightarrow>
                            (case audit_created sv (w\<lparr>uw_db := db\<rparr>) of
                               (_, w) \<Rightarrow> (Ok u, publish (Created (us_id u) (us_created_at u)) w))))))"

definition patched :: "user_patch \<Rightarrow> int \<Rightarrow> user \<Rightarrow> user" where
  "patched p now u =
     u\<lparr>us_email := (case up_email p of Some e \<Rightarrow> e | None \<Rightarrow> us_email u),
       us_display_name := (case up_display_name p of Some n \<Rightarrow> n | None \<Rightarrow> us_display_name u), us_updated_at := now\<rparr>"

definition update_user ::
    "'w users_service \<Rightarrow> security_ctx \<Rightarrow> int \<Rightarrow> uuid \<Rightarrow> user_patch \<Rightarrow> 'w users_world \<Rightarrow>
     (user, user_error) result \<times> 'w users_world" where
  "update_user sv ctx now i p w =
     (case validate_user_patch (sv_config sv) p of
        Err e \<Rightarrow> (Err e, w)
      | Ok _ \<Rightarrow>
          (case and_then (map_err Database (ur_find_by_id (sv_repo sv) ctx i (uw_db w))) (ok_or (UserNotFound i)) of
             Err e \<Rightarrow> (Err e, w)
           | Ok u \<Rightarrow>
               (case (case up_email p of
                        None \<Rightarrow> Ok None
                      | Some e \<Rightarrow>
                          if e = us_email u then Ok None
                          else and_then (map_err Database (ur_email_exists (sv_repo sv) ctx e (uw_db w)))
                            (\<lambda>b. Ok (if b then Some e else None))) of
                  Err e \<Rightarrow> (Err e, w)
                | Ok (Some e) \<Rightarrow> (Err (EmailAlreadyExists e), w)
                | Ok None \<Rightarrow>
                    (case ur_update (sv_repo sv) ctx (patched p now u) (uw_db w) of
                       (Err e, db) \<Rightarrow> (Err (Database e), w\<lparr>uw_db := db\<rparr>)
                     | (Ok _, db) \<Rightarrow>
                         (Ok (patched p now u),
                          publish (Updated (us_id (patched p now u)) (us_updated_at (patched p now u))) (w\<lparr>uw_db := db\<rparr>))))))"

definition delete_user ::
    "'w users_service \<Rightarrow> security_ctx \<Rightarrow> int \<Rightarrow> uuid \<Rightarrow> 'w users_world \<Rightarrow> (unit, user_error) result \<times> 'w users_world" where
  "delete_user sv ctx now i w =
     (case ur_delete (sv_repo sv) ctx i (uw_db w) of
        (Err e, db) \<Rightarrow> (Err (Database e), w\<lparr>uw_db := db\<rparr>)
      | (Ok deleted, db) \<Rightarrow>
          if \<not> deleted then (Err (UserNotFound i), w\<lparr>uw_db := db\<rparr>)
          else (Ok (), publish (Deleted i now) (w\<lparr>uw_db := db\<rparr>)))"

section \<open>The in-process client\<close>

definition client_get_user where
  "client_get_user sv ctx i w = (case get_user sv ctx i w of (r, w) \<Rightarrow> (map_err users_info_error_of r, w))"

definition client_list_users where
  "client_list_users sv ctx q w = (case list_users_page sv ctx q w of (r, w) \<Rightarrow> (map_err (\<lambda>_. InfoInternal) r, w))"

definition client_create_user where
  "client_create_user sv ctx fresh now nu w =
     (case create_user sv ctx fresh now nu w of (r, w) \<Rightarrow> (map_err users_info_error_of r, w))"

definition client_update_user where
  "client_update_user sv ctx now i p w = (case update_user sv ctx now i p w of (r, w) \<Rightarrow> (map_err users_info_error_of r, w))"

definition client_delete_user where
  "client_delete_user sv ctx now i w = (case delete_user sv ctx now i w of (r, w) \<Rightarrow> (map_err users_info_error_of r, w))"

section \<open>The handlers\<close>

datatype users_api_error = ApiDomain user_error | ApiOData odata_error

record create_user_req =
  cr_id :: "uuid option"
  cr_tenant_id :: uuid
  cr_email :: string
  cr_display_name :: string

definition tenant_not_allowed :: "(uuid \<Rightarrow> string) \<Rightarrow> uuid \<Rightarrow> user_error" where
  "tenant_not_allowed show_id t =
     Validation ''tenant_id'' (''Tenant '' @ show_id t @ '' is not allowed in current security scope'')"

definition rest_list_users where
  "rest_list_users sv ctx q w = (case list_users_page sv ctx q w of (r, w) \<Rightarrow> (map_err ApiOData r, w))"

definition rest_get_user where
  "rest_get_user sv ctx i w = (case get_user sv ctx i w of (r, w) \<Rightarrow> (map_err ApiDomain r, w))"

definition rest_create_user where
  "rest_create_user show_id sv ctx fresh now req w =
     (if \<not> is_root (ctx_scope ctx) \<and> cr_tenant_id req \<notin> set (tenant_ids (ctx_scope ctx))
      then (Err (ApiDomain (tenant_not_allowed show_id (cr_tenant_id req))), w)
      else
        (case create_user sv ctx fresh now
             \<lparr>nu_id = cr_id req, nu_tenant_id = cr_tenant_id req, nu_email = cr_email req, nu_display_name = cr_display_name req\<rparr> w of
           (r, w) \<Rightarrow> (map_err ApiDomain r, w)))"

definition rest_update_user where
  "rest_update_user sv ctx now i p w = (case update_user sv ctx now i p w of (r, w) \<Rightarrow> (map_err ApiDomain r, w))"

definition rest_delete_user where
  "rest_delete_user sv ctx now i w = (case delete_user sv ctx now i w of (r, w) \<Rightarrow> (map_err ApiDomain r, w))"

text \<open>A request to one of the routes, and what it answers: the users it shows.\<close>

datatype users_request =
    ListUsers odata_query
  | GetUser uuid
  | CreateUser uuid int create_user_req
  | UpdateUser int uuid user_patch
  | DeleteUser int uuid

definition handle_users where
  "handle_users show_id sv ctx req w =
     (case req of
        ListUsers q \<Rightarrow> (case rest_list_users sv ctx q w of (r, w) \<Rightarrow> (and_then r (\<lambda>p. Ok (items p)), w))
      | GetUser i \<Rightarrow> (case rest_get_user sv ctx i w of (r, w) \<Rightarrow> (and_then r (\<lambda>u. Ok [u]), w))
      | CreateUser fresh now cr \<Rightarrow>
          (case rest_create_user show_id sv ctx fresh now cr w of (r, w) \<Rightarrow> (and_then r (\<lambda>u. Ok [u]), w))
      | UpdateUser now i p \<Rightarrow> (case rest_update_user sv ctx now i p w of (r, w) \<Rightarrow> (and_then r (\<lambda>u. Ok [u]), w))
      | DeleteUser now i \<Rightarrow> (case rest_delete_user sv ctx now i w of (r, w) \<Rightarrow> (and_then r (\<lambda>_. Ok []), w)))"


section \<open>The repository\<close>

datatype user_column = UcId | UcTenantId | UcEmail | UcDisplayName | UcCreatedAt | UcUpdatedAt

fun user_value :: "user \<Rightarrow> user_column \<Rightarrow> sea_value" where
  "user_value u UcId = SUuid (Some (us_id u))"
| "user_value u UcTenantId = SUuid (Some (us_tenant_id u))"
| "user_value u UcEmail = SString (Some (us_email u))"
| "user_value u UcDisplayName = SString (Some (us_display_name u))"
| "user_value u UcCreatedAt = SDateTime (Some (us_created_at u))"
| "user_value u UcUpdatedAt = SDateTime (Some (us_updated_at u))"

definition users_entity :: "user_column scopable_entity" where
  "users_entity = \<lparr>se_table = ''users'', se_tenant_col = Some UcTenantId, se_resource_col = Some UcId,
     se_owner_col = None, se_type_col = None\<rparr>"

text \<open>The filter fields that are derived from the DTO, and the mapper.\<close>

datatype user_field = UfId | UfEmail | UfCreatedAt

definition user_filter_field :: "user_field filter_field" where
  "user_filter_field =
     \<lparr>ff_fields = [UfId, UfEmail, UfCreatedAt],
      ff_name = (\<lambda>f. case f of UfId \<Rightarrow> ''id'' | UfEmail \<Rightarrow> ''email'' | UfCreatedAt \<Rightarrow> ''created_at''),
      ff_kind = (\<lambda>f. case f of UfId \<Rightarrow> KUuid | UfEmail \<Rightarrow> KString | UfCreatedAt \<Rightarrow> KDateTimeUtc)\<rparr>"

fun map_user_field :: "user_field \<Rightarrow> user_column" where
  "map_user_field UfId = UcId"
| "map_user_field UfEmail = UcEmail"
| "map_user_field UfCreatedAt = UcCreatedAt"

definition extract_user_value :: "user \<Rightarrow> user_field \<Rightarrow> sea_value" where
  "extract_user_value u f =
     (case f of UfId \<Rightarrow> SUuid (Some (us_id u)) | UfEmail \<Rightarrow> SString (Some (us_email u))
      | UfCreatedAt \<Rightarrow> SDateTime (Some (us_created_at u)))"

text \<open>The database: its connection, and the constraints of the table, which a statement must keep or fails.\<close>

record users_db =
  ud_conn :: "(user_column, user) conn"
  ud_check :: "user list \<Rightarrow> bool"
  ud_env :: "(user_field, user_column, user) typed_env"

definition statement ::
    "users_db \<Rightarrow> (user list \<Rightarrow> ('a, scope_error) result \<times> user list) \<Rightarrow> user list \<Rightarrow> ('a, scope_error) result \<times> user list" where
  "statement d f table =
     (case f table of
        (Err e, table') \<Rightarrow> (Err e, table')
      | (Ok v, table') \<Rightarrow> if ud_check d table' then (Ok v, table') else (Err (ScopeDb ''constraint failed''), table))"

definition repo_find_by_id :: "users_db \<Rightarrow> security_ctx \<Rightarrow> uuid \<Rightarrow> user list \<Rightarrow> (user option, string) result" where
  "repo_find_by_id d ctx i table =
     and_then (map_err (\<lambda>_. ''Failed to create secure query'') (sc_find_by_id users_entity ctx i)) (\<lambda>q.
       map_err (\<lambda>_. ''find_by_id query failed'') (ss_one (ud_conn d) table q))"

definition repo_email_exists :: "users_db \<Rightarrow> security_ctx \<Rightarrow> string \<Rightarrow> user list \<Rightarrow> (bool, string) result" where
  "repo_email_exists d ctx email table =
     (let q = ss_filter (cond_add (Simple (ColEq UcEmail (SString (Some email)))) cond_all) (sc_find users_entity ctx)
      in and_then (map_err (\<lambda>_. ''email_exists query failed'') (cn_query (ud_conn d) table (into_inner q))) (\<lambda>rows.
           Ok (length rows > 0)))"

definition user_model :: "user \<Rightarrow> user active_model" where
  "user_model u = \<lparr>am_key = us_id u, am_row = u, am_set = (\<lambda>_. u)\<rparr>"

definition repo_insert :: "users_db \<Rightarrow> security_ctx \<Rightarrow> user \<Rightarrow> user list \<Rightarrow> (unit, string) result \<times> user list" where
  "repo_insert d ctx u table =
     (case statement d (sc_insert (ud_conn d) ctx (user_model u)) table of
        (Ok _, table) \<Rightarrow> (Ok (), table) | (Err _, table) \<Rightarrow> (Err ''Secure insert failed'', table))"

definition repo_update :: "users_db \<Rightarrow> security_ctx \<Rightarrow> user \<Rightarrow> user list \<Rightarrow> (unit, string) result \<times> user list" where
  "repo_update d ctx u table =
     (case statement d (sc_update_with_ctx (ud_conn d) UcId users_entity ctx (us_id u) (user_model u)) table of
        (Ok _, table) \<Rightarrow> (Ok (), table) | (Err _, table) \<Rightarrow> (Err ''Secure update failed'', table))"

definition repo_delete :: "users_db \<Rightarrow> security_ctx \<Rightarrow> uuid \<Rightarrow> user list \<Rightarrow> (bool, string) result \<times> user list" where
  "repo_delete d ctx i table =
     (case statement d (sc_delete_by_id (ud_conn d) users_entity ctx i) table of
        (Ok b, table) \<Rightarrow> (Ok b, table) | (Err _, table) \<Rightarrow> (Err ''Secure delete failed'', table))"

definition repo_list :: "users_db \<Rightarrow> security_ctx \<Rightarrow> odata_query \<Rightarrow> user list \<Rightarrow> (user page, odata_error) result" where
  "repo_list d ctx q table =
     paginate_odata (ud_env d) (into_inner (sc_find users_entity ctx)) (cn_query (ud_conn d) table) q (''id'', Desc)
       \<lparr>lc_default = 25, lc_max = 1000\<rparr> (\<lambda>u. u)"

definition sea_orm_repo :: "users_db \<Rightarrow> user list users_repo" where
  "sea_orm_repo d =
     \<lparr>ur_find_by_id = repo_find_by_id d, ur_email_exists = repo_email_exists d, ur_insert = repo_insert d,
      ur_update = repo_update d, ur_delete = repo_delete d, ur_list = repo_list d\<rparr>"

section \<open>Problems\<close>

text \<open>The catalog of \<open>gts/errors.json\<close>, and the mapping of domain errors to its codes.\<close>

definition users_code :: "string \<Rightarrow> string" where
  "users_code name = ''gts.hx.core.errors.err.v1~hx.example1.user.'' @ name @ ''.v1''"

definition users_catalog_entries :: "error_entry list" where
  "users_catalog_entries = map (\<lambda>(status, title, name). \<lparr>ee_status = status, ee_title = title, ee_code = users_code name,
       ee_type_url = None, ee_alias = None\<rparr>)
     [(404, ''User Not Found'', ''not_found''), (409, ''Email Already Exists'', ''email_conflict''),
      (400, ''Invalid Email'', ''invalid_email''), (422, ''Validation Error'', ''validation''),
      (500, ''Internal Database Error'', ''internal_database'')]"

definition users_catalog :: error_catalog where
  "users_catalog =
     (let es = users_catalog_entries
      in \<lparr>ct_variants = generate_enum_variants es, ct_status = generate_const_defs es, ct_defs = generate_impl_methods es,
          ct_accessors = generate_short_accessors es
            (map (\<lambda>n. ''example1_user_'' @ n @ ''_v1'') [''not_found'', ''email_conflict'', ''invalid_email'', ''validation'', ''internal_database'']),
          ct_literals = generate_from_literal es\<rparr>)"

fun show_user_error :: "user_error \<Rightarrow> string" where
  "show_user_error (UserNotFound i) = ''User not found: '' @ show_nat i"
| "show_user_error (EmailAlreadyExists e) = ''User with email '' @ [CHR 39] @ e @ [CHR 39] @ '' already exists''"
| "show_user_error (InvalidEmail e) = ''Invalid email format: '' @ [CHR 39] @ e @ [CHR 39]"
| "show_user_error EmptyDisplayName = ''Display name cannot be empty''"
| "show_user_error (DisplayNameTooLong l m) =
     ''Display name too long: '' @ show_nat l @ '' characters (max: '' @ show_nat m @ '')''"
| "show_user_error (Database m) = ''Database error: '' @ m"
| "show_user_error (Validation f m) = ''Validation failed: '' @ f @ '': '' @ m"

text \<open>The accessor that an error calls, and the detail it gives.\<close>

definition problem_call :: "(uuid \<Rightarrow> string) \<Rightarrow> user_error \<Rightarrow> string \<times> string" where
  "problem_call show_id e =
     (case e of
        UserNotFound i \<Rightarrow> (''example1_user_not_found_v1'', ''User with id '' @ show_id i @ '' was not found'')
      | EmailAlreadyExists m \<Rightarrow> (''example1_user_invalid_email_v1'', ''Email '' @ [CHR 39] @ m @ [CHR 39] @ '' is already in use'')
      | InvalidEmail m \<Rightarrow> (''example1_user_invalid_email_v1'', ''Email '' @ [CHR 39] @ m @ [CHR 39] @ '' is invalid'')
      | EmptyDisplayName \<Rightarrow> (''example1_user_validation_v1'', ''Display name cannot be empty'')
      | DisplayNameTooLong _ _ \<Rightarrow> (''example1_user_validation_v1'', show_user_error e)
      | Validation _ _ \<Rightarrow> (''example1_user_validation_v1'', show_user_error e)
      | Database _ \<Rightarrow> (''example1_user_internal_database_v1'', ''An internal database error occurred''))"

definition user_error_to_problem :: "(uuid \<Rightarrow> string) \<Rightarrow> string option \<Rightarrow> user_error \<Rightarrow> string \<Rightarrow> problem option" where
  "user_error_to_problem show_id trace e instance_uri =
     (case problem_call show_id e of
        (name, detail) \<Rightarrow> Option.bind (accessor users_catalog name) (\<lambda>v. code_with_context users_catalog v detail instance_uri trace))"

section \<open>Events and audit over HTTP\<close>

record user_event_dto =
  ue_kind :: string
  ue_id :: uuid
  ue_at :: int

fun user_event_dto_of :: "user_event \<Rightarrow> user_event_dto" where
  "user_event_dto_of (Created i t) = \<lparr>ue_kind = ''created'', ue_id = i, ue_at = t\<rparr>"
| "user_event_dto_of (Updated i t) = \<lparr>ue_kind = ''updated'', ue_id = i, ue_at = t\<rparr>"
| "user_event_dto_of (Deleted i t) = \<lparr>ue_kind = ''deleted'', ue_id = i, ue_at = t\<rparr>"

text \<open>The \<open>url\<close> crate extends the path of a base, which fails when it cannot be one; the client answers a status.\<close>

record http_audit =
  ha_extend :: "string \<Rightarrow> string list \<Rightarrow> string option"
  ha_get :: "string \<Rightarrow> (nat, string) result"
  ha_post :: "string \<Rightarrow> (nat, string) result"
  ha_audit_base :: string
  ha_notify_base :: string
  ha_show_id :: "uuid \<Rightarrow> string"

definition check_reply :: "string \<Rightarrow> string \<Rightarrow> (nat, string) result \<Rightarrow> (unit, user_error) result" where
  "check_reply field what reply =
     and_then (map_err (\<lambda>_. Validation field what) reply) (\<lambda>status.
       if 200 \<le> status \<and> status < 300 then Ok () else Err (Validation field (''HTTP '' @ show_nat status)))"

definition http_user_access :: "http_audit \<Rightarrow> uuid \<Rightarrow> (unit, user_error) result" where
  "http_user_access ha i =
     and_then (ok_or (Validation ''user_access'' ''invalid audit base URL'')
         (ha_extend ha (ha_audit_base ha) [''api'', ''user-access'', ha_show_id ha i])) (\<lambda>url.
       check_reply ''user_access'' (''GET /api/user-access/'' @ ha_show_id ha i) (ha_get ha url))"

definition http_user_created :: "http_audit \<Rightarrow> (unit, user_error) result" where
  "http_user_created ha =
     and_then (ok_or (Validation ''notifications'' ''invalid notifications base URL'')
         (ha_extend ha (ha_notify_base ha) [''api'', ''user-created''])) (\<lambda>url.
       check_reply ''notifications'' ''POST /api/user-created'' (ha_post ha url))"

definition http_audit_port :: "http_audit \<Rightarrow> audit_port" where
  "http_audit_port ha = \<lparr>ap_access = http_user_access ha, ap_created = http_user_created ha\<rparr>"

record users_info_config =
  ui_default_page_size :: nat
  ui_max_page_size :: nat
  ui_audit_base_url :: string
  ui_notifications_base_url :: string

definition default_users_info_config :: users_info_config where
  "default_users_info_config =
     \<lparr>ui_default_page_size = 50, ui_max_page_size = 1000, ui_audit_base_url = ''http://audit.local'',
      ui_notifications_base_url = ''http://notifications.local''\<rparr>"

text \<open>\<open>init\<close>: the configuration and the database as the context gives them, the parser of URLs, and what becomes of
  the two bases.\<close>

definition init_users ::
    "(users_info_config, string) result \<Rightarrow> (users_db, string) result \<Rightarrow> (string \<Rightarrow> (string, string) result) \<Rightarrow>
     (string \<Rightarrow> string \<Rightarrow> http_audit) \<Rightarrow> (user list users_service, string) result" where
  "init_users config db parse_url client =
     and_then config (\<lambda>cfg.
     and_then db (\<lambda>d.
     and_then (map_err (\<lambda>e. ''invalid audit_base_url: '' @ e) (parse_url (ui_audit_base_url cfg))) (\<lambda>audit.
     and_then (map_err (\<lambda>e. ''invalid notifications_base_url: '' @ e) (parse_url (ui_notifications_base_url cfg))) (\<lambda>notify.
       Ok \<lparr>sv_repo = sea_orm_repo d, sv_audit = http_audit_port (client audit notify),
           sv_config = \<lparr>sc_max_display_name_length = 100, sc_default_page_size = ui_default_page_size cfg,
             sc_max_page_size = ui_max_page_size cfg\<rparr>\<rparr>))))"


section \<open>What the service relies on\<close>

text \<open>The contract of the repository: its rows, the states in which it is usable, and which rows a context sees.\<close>

locale user_repository =
  fixes repo :: "'w users_repo"
    and rows :: "'w \<Rightarrow> user list"
    and usable :: "'w \<Rightarrow> bool"
    and sees :: "security_ctx \<Rightarrow> user \<Rightarrow> bool"
  assumes found: "usable w \<Longrightarrow> ur_find_by_id repo ctx i w = Ok (Some u) \<Longrightarrow> u \<in> set (rows w) \<and> us_id u = i \<and> sees ctx u"
    and inserted: "usable w \<Longrightarrow> ur_insert repo ctx u w = (r, w') \<Longrightarrow>
      usable w' \<and> rows w' = (case r of Ok _ \<Rightarrow> rows w @ [u] | Err _ \<Rightarrow> rows w)"
    and updated: "usable w \<Longrightarrow> ur_update repo ctx u w = (r, w') \<Longrightarrow>
      usable w' \<and> rows w' = (case r of Ok _ \<Rightarrow> map (\<lambda>x. if us_id x = us_id u then u else x) (rows w) | Err _ \<Rightarrow> rows w)"
    and deleted: "usable w \<Longrightarrow> ur_delete repo ctx i w = (b, w') \<Longrightarrow>
      usable w' \<and> rows w' = (case b of Ok _ \<Rightarrow> filter (\<lambda>x. \<not> (us_id x = i \<and> sees ctx x)) (rows w) | Err _ \<Rightarrow> rows w) \<and>
      (\<forall>hit. b = Ok hit \<longrightarrow> (hit \<longleftrightarrow> (\<exists>x\<in>set (rows w). us_id x = i \<and> sees ctx x)))"
    and listed: "usable w \<Longrightarrow> ur_list repo ctx q w = Ok p \<Longrightarrow> set (items p) \<subseteq> {u \<in> set (rows w). sees ctx u}"
    and keys: "usable w \<Longrightarrow> distinct (map us_id (rows w))"
begin

lemma create_cases:
  assumes "usable (uw_db w)" "sv_repo sv = repo" "create_user sv ctx fresh now nu w = (res, w')"
  shows "usable (uw_db w') \<and> (case res of
       Ok u \<Rightarrow> rows (uw_db w') = rows (uw_db w) @ [u] \<and> validate_new_user (sv_config sv) nu = Ok () \<and>
         u = \<lparr>us_id = (case nu_id nu of Some i \<Rightarrow> i | None \<Rightarrow> fresh), us_tenant_id = nu_tenant_id nu,
             us_email = nu_email nu, us_display_name = nu_display_name nu, us_created_at = now, us_updated_at = now\<rparr> \<and>
         uw_events w' = uw_events w @ [Created (us_id u) now] \<and> uw_audit w' = uw_audit w @ [CreatedCall]
     | Err e \<Rightarrow> rows (uw_db w') = rows (uw_db w) \<and> uw_events w' = uw_events w \<and> uw_audit w' = uw_audit w)"
  using assms inserted[OF assms(1)]
  by (auto simp: create_user_def audit_created_def publish_def Let_def split: result.splits prod.splits bool.splits)

lemma update_cases:
  assumes "usable (uw_db w)" "sv_repo sv = repo" "update_user sv ctx now i p w = (res, w')"
  shows "usable (uw_db w') \<and> uw_audit w' = uw_audit w \<and> (case res of
       Ok v \<Rightarrow> validate_user_patch (sv_config sv) p = Ok () \<and> uw_events w' = uw_events w @ [Updated i now] \<and>
         (\<exists>u. u \<in> set (rows (uw_db w)) \<and> us_id u = i \<and> sees ctx u \<and> v = patched p now u \<and>
           rows (uw_db w') = map (\<lambda>x. if us_id x = i then v else x) (rows (uw_db w)))
     | Err e \<Rightarrow> rows (uw_db w') = rows (uw_db w) \<and> uw_events w' = uw_events w)"
proof (cases "ur_find_by_id repo ctx i (uw_db w)")
  case (Err e)
  then show ?thesis using assms by (auto simp: update_user_def split: result.splits)
next
  case (Ok u)
  then show ?thesis
    using assms found[OF assms(1), of ctx i] updated[OF assms(1), of ctx]
    by (cases u) (auto simp: update_user_def patched_def publish_def split: result.splits prod.splits option.splits if_splits)
qed

lemma delete_cases:
  assumes "usable (uw_db w)" "sv_repo sv = repo" "delete_user sv ctx now i w = (res, w')"
  shows "usable (uw_db w') \<and> uw_audit w' = uw_audit w \<and>
     rows (uw_db w') = (case res of Ok _ \<Rightarrow> filter (\<lambda>x. \<not> (us_id x = i \<and> sees ctx x)) (rows (uw_db w)) | Err _ \<Rightarrow> rows (uw_db w)) \<and>
     uw_events w' = uw_events w @ (case res of Ok _ \<Rightarrow> [Deleted i now] | Err _ \<Rightarrow> [])"
  using assms deleted[OF assms(1), of ctx i]
  by (auto simp: delete_user_def publish_def filter_id_conv split: result.splits prod.splits if_splits)

lemma get_cases:
  assumes "usable (uw_db w)" "sv_repo sv = repo" "get_user sv ctx i w = (res, w')"
  shows "uw_db w' = uw_db w \<and> uw_events w' = uw_events w \<and>
     (\<forall>u. res = Ok u \<longrightarrow> u \<in> set (rows (uw_db w)) \<and> us_id u = i \<and> sees ctx u)"
  using assms found[OF assms(1), of ctx i] by (auto simp: get_user_def audit_access_def res_simps)

end

text \<open>What a scope sees, on the columns of a user.\<close>

definition scope_sees :: "security_ctx \<Rightarrow> user \<Rightarrow> bool" where
  "scope_sees ctx u \<longleftrightarrow>
     (let s = ctx_scope ctx
      in \<not> scope_is_empty s \<and> (is_root s \<or> tenant_ids s = [] \<or> us_tenant_id u \<in> set (tenant_ids s)) \<and>
         (resource_ids s = [] \<or> us_id u \<in> set (resource_ids s)))"

definition users_db_ok :: "users_db \<Rightarrow> bool" where
  "users_db_ok d \<longleftrightarrow> cn_col (ud_conn d) = user_value \<and> answers_sql (ud_conn d) \<and> uuid_equality (cn_sem (ud_conn d)) \<and>
     (\<forall>t. ud_check d t \<longrightarrow> distinct (map us_id t))"

lemma scope_sees_in_scope:
  assumes "uuid_equality sem"
  shows "in_scope sem users_entity (ctx_scope ctx) (user_value u) \<longleftrightarrow> scope_sees ctx u"
proof -
  have "uuid_column (user_value u) (se_tenant_col users_entity)" "uuid_column (user_value u) (se_resource_col users_entity)"
    by (simp_all add: uuid_column_def users_entity_def)
  then show ?thesis
    unfolding in_scope_def scope_sees_def column_in_uuid[OF assms(1)]
    by (auto simp: users_entity_def column_id_def scope_is_empty_def Let_def column_in_uuid[OF assms(1)])
qed

lemma statement_cases:
  "statement d f t = (r, t') \<Longrightarrow> (case r of Ok v \<Rightarrow> f t = (Ok v, t') \<and> ud_check d t' | Err _ \<Rightarrow> t' = t \<or> (\<exists>e. f t = (Err e, t')))"
  by (auto simp: statement_def split: prod.splits result.splits if_splits)

lemma repo_found:
  assumes "users_db_ok d" "repo_find_by_id d ctx i t = Ok (Some u)"
  shows "u \<in> set t \<and> us_id u = i \<and> scope_sees ctx u"
proof -
  have "and_then (sc_find_by_id users_entity ctx i) (ss_one (ud_conn d) t) = Ok (Some u)"
    using assms(2) by (auto simp: repo_find_by_id_def res_simps)
  from find_by_id_hit[OF _ _ _ _ this, of UcId] assms(1) show ?thesis
    by (auto simp: users_db_ok_def users_entity_def uuid_column_def uuid_value_def scope_sees_in_scope[unfolded users_entity_def])
qed

lemma paginate_odata_rows:
  assumes "paginate_odata te select db q tb cfg f = Ok p"
  shows "\<exists>s rows extra. db s = Ok rows \<and> sel_where s = sel_where select @ extra \<and> set (items p) \<subseteq> f ` set rows"
proof -
  obtain ob s1 s2 s3 fetched where s: "apply_filter te q select = Ok s1" "apply_cursor te q ob s1 = Ok s2"
    "apply_order (te_ff te) (te_map_field te) (if is_backward q then reverse_directions ob else ob) s2 = Ok s3"
    "db (sel_set_limit (u64_succ (clamp_limit (q_limit q) cfg)) s3) = Ok fetched"
    "items p = map f (trim_rows (is_backward q) (clamp_limit (q_limit q) cfg) fetched)"
    using assms unfolding paginate_odata_def Let_def and_then_Ok_iff map_err_Ok_iff by force
  have "\<exists>extra. sel_where s1 = sel_where select @ extra"
    using s(1) by (auto simp: apply_filter_def sel_filter_def res_simps split: option.splits)
  moreover have "\<exists>extra. sel_where s2 = sel_where s1 @ extra"
    using s(2) by (auto simp: apply_cursor_def sel_filter_def res_simps split: option.splits)
  moreover have "sel_where s3 = sel_where s2" using s(3) by (auto simp: apply_order_def res_simps)
  moreover have "set (items p) \<subseteq> f ` set fetched" using s(5) set_trim_rows by fastforce
  ultimately show ?thesis using s(4)
    by (intro exI[of _ "sel_set_limit (u64_succ (clamp_limit (q_limit q) cfg)) s3"]) (auto simp: sel_set_limit_def)
qed


lemma repo_inserted:
  assumes "users_db_ok d" "ud_check d t" "repo_insert d ctx u t = (r, t')"
  shows "ud_check d t' \<and> t' = (case r of Ok _ \<Rightarrow> t @ [u] | Err _ \<Rightarrow> t)"
  using assms(2,3)
  by (auto simp: repo_insert_def statement_def sc_insert_def secure_insert_def db_insert_model_def user_model_def
      split: prod.splits result.splits if_splits option.splits)

lemma repo_updated:
  assumes "users_db_ok d" "ud_check d t" "repo_update d ctx u t = (r, t')"
  shows "ud_check d t' \<and> t' = (case r of Ok _ \<Rightarrow> map (\<lambda>x. if us_id x = us_id u then u else x) t | Err _ \<Rightarrow> t)"
proof -
  have "(case q of Ok _ \<Rightarrow> s = map (\<lambda>x. if us_id x = us_id u then u else x) t | Err _ \<Rightarrow> s = t)"
    if "sc_update_with_ctx (ud_conn d) UcId users_entity ctx (us_id u) (user_model u) t = (q, s)" for q s
    using that assms(1)
    by (auto simp: sc_update_with_ctx_def db_update_model_def users_db_ok_def user_model_def uuid_value_def Let_def
        split: result.splits option.splits)
  then show ?thesis
    using assms(2,3) by (auto simp: repo_update_def statement_def split: prod.splits result.splits if_splits)
qed

lemma repo_deleted:
  assumes "users_db_ok d" "ud_check d t" "repo_delete d ctx i t = (r, t')"
  shows "ud_check d t' \<and> t' = (case r of Ok _ \<Rightarrow> filter (\<lambda>x. \<not> (us_id x = i \<and> scope_sees ctx x)) t | Err _ \<Rightarrow> t) \<and>
     (\<forall>hit. r = Ok hit \<longrightarrow> (hit \<longleftrightarrow> (\<exists>x\<in>set t. us_id x = i \<and> scope_sees ctx x)))"
proof -
  have sel: "row_selected (cn_sem (ud_conn d)) (user_value x) [cond_add (Simple (ColEq UcId (uuid_value i))) cond_all,
      build_scope_condition users_entity (ctx_scope ctx)] \<longleftrightarrow> us_id x = i \<and> scope_sees ctx x" for x
    using assms(1) policy.hit_allowed[of "cn_sem (ud_conn d)" "user_value x" "[cond_add (Simple (ColEq UcId (uuid_value i))) cond_all]"
        users_entity "ctx_scope ctx"]
    by (auto simp: users_db_ok_def scope_sees_in_scope row_selected_def sql_cmp_def uuid_value_def uuid_equality_def
        simp del: eval_condition.simps)
  have "(case q of Ok hit \<Rightarrow> s = filter (\<lambda>x. \<not> (us_id x = i \<and> scope_sees ctx x)) t \<and>
         (hit \<longleftrightarrow> (\<exists>x\<in>set t. us_id x = i \<and> scope_sees ctx x)) | Err _ \<Rightarrow> s = t)"
    if "sc_delete_by_id (ud_conn d) users_entity ctx i t = (q, s)" for q s
  proof -
    have col: "cn_col (ud_conn d) = user_value" using assms(1) by (simp add: users_db_ok_def)
    have pk: "se_resource_col users_entity = Some UcId" by (simp add: users_entity_def)
    show ?thesis
    proof (cases "cn_fault (ud_conn d)")
      case None
      then show ?thesis
        using that by (auto simp: sc_delete_by_id_def pk secure_delete_def db_delete_def col sel Let_def filter_empty_conv)
    next
      case (Some e)
      then show ?thesis using that by (auto simp: sc_delete_by_id_def pk secure_delete_def db_delete_def)
    qed
  qed
  then show ?thesis
    using assms(2,3) by (auto simp: repo_delete_def statement_def split: prod.splits result.splits if_splits)
qed

lemma repo_listed:
  assumes "users_db_ok d" "repo_list d ctx q t = Ok p"
  shows "set (items p) \<subseteq> {u \<in> set t. scope_sees ctx u}"
proof -
  obtain s rows extra where s: "cn_query (ud_conn d) t s = Ok rows"
    "sel_where s = sel_where (into_inner (sc_find users_entity ctx)) @ extra" "set (items p) \<subseteq> (\<lambda>u. u) ` set rows"
    using paginate_odata_rows[OF assms(2)[unfolded repo_list_def]] by blast
  have "answers_sql (ud_conn d)" using assms(1) by (simp add: users_db_ok_def)
  from chain_answer_allowed[OF this sc_find_chain s(1) _ s(2)] s(3) assms(1) show ?thesis
    by (auto simp: users_db_ok_def scope_sees_in_scope)
qed

definition repo_usable :: "users_db \<Rightarrow> user list \<Rightarrow> bool" where
  "repo_usable d t \<longleftrightarrow> users_db_ok d \<and> ud_check d t"

interpretation users: user_repository "sea_orm_repo d" "\<lambda>t. t" "repo_usable d" scope_sees for d
proof unfold_locales
  fix t ctx i u
  assume "repo_usable d t" "ur_find_by_id (sea_orm_repo d) ctx i t = Ok (Some u)"
  then show "u \<in> set t \<and> us_id u = i \<and> scope_sees ctx u"
    using repo_found[of d ctx i t u] by (simp add: repo_usable_def sea_orm_repo_def)
next
  fix t ctx u r t'
  assume "repo_usable d t" "ur_insert (sea_orm_repo d) ctx u t = (r, t')"
  then have u: "users_db_ok d" "ud_check d t" "repo_insert d ctx u t = (r, t')" by (simp_all add: repo_usable_def sea_orm_repo_def)
  show "repo_usable d t' \<and> t' = (case r of Ok _ \<Rightarrow> t @ [u] | Err _ \<Rightarrow> t)"
    using repo_inserted[OF u] u(1) unfolding repo_usable_def by blast
next
  fix t ctx u r t'
  assume "repo_usable d t" "ur_update (sea_orm_repo d) ctx u t = (r, t')"
  then have u: "users_db_ok d" "ud_check d t" "repo_update d ctx u t = (r, t')" by (simp_all add: repo_usable_def sea_orm_repo_def)
  show "repo_usable d t' \<and> t' = (case r of Ok _ \<Rightarrow> map (\<lambda>x. if us_id x = us_id u then u else x) t | Err _ \<Rightarrow> t)"
    using repo_updated[OF u] u(1) unfolding repo_usable_def by blast
next
  fix t ctx i b t'
  assume "repo_usable d t" "ur_delete (sea_orm_repo d) ctx i t = (b, t')"
  then have u: "users_db_ok d" "ud_check d t" "repo_delete d ctx i t = (b, t')" by (simp_all add: repo_usable_def sea_orm_repo_def)
  show "repo_usable d t' \<and> t' = (case b of Ok _ \<Rightarrow> filter (\<lambda>x. \<not> (us_id x = i \<and> scope_sees ctx x)) t | Err _ \<Rightarrow> t) \<and>
      (\<forall>hit. b = Ok hit \<longrightarrow> hit = (\<exists>x\<in>set t. us_id x = i \<and> scope_sees ctx x))"
    using repo_deleted[OF u] u(1) unfolding repo_usable_def by blast
next
  fix t ctx q p
  assume "repo_usable d t" "ur_list (sea_orm_repo d) ctx q t = Ok p"
  then show "set (items p) \<subseteq> {u \<in> set t. scope_sees ctx u}"
    using repo_listed[of d ctx q t p] by (simp add: repo_usable_def sea_orm_repo_def)
qed (simp add: repo_usable_def users_db_ok_def)

text \<open>Requests.\<close>

lemma handle_cases:
  assumes "repo_usable d (uw_db w)" "sv_repo sv = sea_orm_repo d" "handle_users show_id sv ctx req w = (res, w')"
  shows "repo_usable d (uw_db w') \<and> (case req of
      CreateUser fresh now cr \<Rightarrow>
        (case res of
           Ok us \<Rightarrow> \<exists>u. us = [u] \<and> uw_db w' = uw_db w @ [u] \<and> us_tenant_id u = cr_tenant_id cr \<and>
             (is_root (ctx_scope ctx) \<or> us_tenant_id u \<in> set (tenant_ids (ctx_scope ctx))) \<and>
             validate_email (us_email u) = Ok () \<and> validate_display_name (sv_config sv) (us_display_name u) = Ok () \<and>
             uw_events w' = uw_events w @ [Created (us_id u) now]
         | Err _ \<Rightarrow> uw_db w' = uw_db w \<and> uw_events w' = uw_events w)
    | UpdateUser now i p \<Rightarrow>
        (case res of
           Ok us \<Rightarrow> \<exists>u. us = [patched p now u] \<and> u \<in> set (uw_db w) \<and> us_id u = i \<and> scope_sees ctx u \<and>
             validate_user_patch (sv_config sv) p = Ok () \<and>
             uw_db w' = map (\<lambda>x. if us_id x = i then patched p now u else x) (uw_db w) \<and>
             uw_events w' = uw_events w @ [Updated i now]
         | Err _ \<Rightarrow> uw_db w' = uw_db w \<and> uw_events w' = uw_events w)
    | DeleteUser now i \<Rightarrow>
        uw_db w' = (case res of Ok _ \<Rightarrow> filter (\<lambda>x. \<not> (us_id x = i \<and> scope_sees ctx x)) (uw_db w) | Err _ \<Rightarrow> uw_db w) \<and>
        uw_events w' = uw_events w @ (case res of Ok _ \<Rightarrow> [Deleted i now] | Err _ \<Rightarrow> []) \<and> (\<forall>us. res = Ok us \<longrightarrow> us = [])
    | _ \<Rightarrow> uw_db w' = uw_db w \<and> uw_events w' = uw_events w \<and>
        (\<forall>us. res = Ok us \<longrightarrow> set us \<subseteq> {u \<in> set (uw_db w). scope_sees ctx u}))"
proof (cases req)
  case (ListUsers q)
  then show ?thesis
    using assms users.listed[OF assms(1), of ctx q]
    by (fastforce simp: handle_users_def rest_list_users_def list_users_page_def res_simps)
next
  case (GetUser i)
  then show ?thesis
    using assms users.get_cases[OF assms(1,2), of ctx i]
    by (auto simp: handle_users_def rest_get_user_def res_simps split: prod.splits)
next
  case (CreateUser fresh now cr)
  let ?nu = "\<lparr>nu_id = cr_id cr, nu_tenant_id = cr_tenant_id cr, nu_email = cr_email cr, nu_display_name = cr_display_name cr\<rparr>"
  show ?thesis
  proof (cases "\<not> is_root (ctx_scope ctx) \<and> cr_tenant_id cr \<notin> set (tenant_ids (ctx_scope ctx))")
    case True
    then show ?thesis using assms CreateUser by (auto simp: handle_users_def rest_create_user_def)
  next
    case False
    obtain r where r: "create_user sv ctx fresh now ?nu w = (r, w')" "res = and_then (map_err ApiDomain r) (\<lambda>u. Ok [u])"
      using assms(3) False CreateUser by (auto simp: handle_users_def rest_create_user_def split: prod.splits)
    from users.create_cases[OF assms(1,2) r(1)] False show ?thesis
      by (cases r) (auto simp: r(2) CreateUser validate_new_user_def res_simps)
  qed
next
  case (UpdateUser now i p)
  obtain r where r: "update_user sv ctx now i p w = (r, w')" "res = and_then (map_err ApiDomain r) (\<lambda>u. Ok [u])"
    using assms(3) UpdateUser by (auto simp: handle_users_def rest_update_user_def split: prod.splits)
  from users.update_cases[OF assms(1,2) r(1)] show ?thesis
    by (cases r) (auto simp: r(2) UpdateUser)
next
  case (DeleteUser now i)
  then show ?thesis
    using assms users.delete_cases[OF assms(1,2), of ctx now i]
    by (auto simp: handle_users_def rest_delete_user_def res_simps split: prod.splits result.splits)
qed


lemma filter_map_key:
  "(\<And>x. x \<in> set xs \<Longrightarrow> us_id x = i \<Longrightarrow> \<not> P x) \<Longrightarrow> \<not> P v \<Longrightarrow>
   filter P (map (\<lambda>x. if us_id x = i then v else x) xs) = filter P xs"
  by (induction xs) auto

lemma key_unique: "distinct (map us_id t) \<Longrightarrow> x \<in> set t \<Longrightarrow> y \<in> set t \<Longrightarrow> us_id x = us_id y \<Longrightarrow> x = y"
  by (auto simp: distinct_map inj_on_def)

lemma usable_distinct: "repo_usable d t \<Longrightarrow> distinct (map us_id t)"
  by (auto simp: repo_usable_def users_db_ok_def)

lemma patched_simps [simp]:
  "us_id (patched p now u) = us_id u" "us_tenant_id (patched p now u) = us_tenant_id u"
  "us_created_at (patched p now u) = us_created_at u" "us_updated_at (patched p now u) = now"
  by (simp_all add: patched_def)

definition valid_user :: "service_config \<Rightarrow> user \<Rightarrow> bool" where
  "valid_user cfg u \<longleftrightarrow> validate_email (us_email u) = Ok () \<and> validate_display_name cfg (us_display_name u) = Ok ()"

lemma patched_valid: "valid_user cfg u \<Longrightarrow> validate_user_patch cfg p = Ok () \<Longrightarrow> valid_user cfg (patched p now u)"
  by (auto simp: valid_user_def validate_user_patch_def patched_def res_simps split: option.splits)

text \<open>The database compares texts as they are.\<close>

definition text_equality :: "sql_sem \<Rightarrow> bool" where
  "text_equality sem \<longleftrightarrow> (\<forall>a b. sv_eq sem (SString (Some a)) (SString (Some b)) \<longleftrightarrow> a = b)"

lemma email_query_selects:
  assumes "users_db_ok d" "text_equality (cn_sem (ud_conn d))"
  shows "row_selected (cn_sem (ud_conn d)) (user_value x) (sel_where (into_inner
      (ss_filter (cond_add (Simple (ColEq UcEmail (SString (Some e)))) cond_all) (sc_find users_entity ctx)))) \<longleftrightarrow>
    us_email x = e \<and> scope_sees ctx x"
  using assms
  by (auto simp: users_db_ok_def text_equality_def sc_find_def secure_select_def ss_defs sel_find_def row_selected_def
      scope_condition_in_scope scope_sees_in_scope sql_cmp_def simp del: eval_condition.simps)

lemma no_email_none:
  assumes "users_db_ok d" "text_equality (cn_sem (ud_conn d))" "repo_email_exists d ctx e t = Ok False" "x \<in> set t" "scope_sees ctx x"
  shows "us_email x \<noteq> e"
proof
  let ?q = "into_inner (ss_filter (cond_add (Simple (ColEq UcEmail (SString (Some e)))) cond_all) (sc_find users_entity ctx))"
  assume "us_email x = e"
  have "cn_query (ud_conn d) t ?q = Ok []" using assms(3) by (auto simp: repo_email_exists_def res_simps)
  then have "sql_answer (cn_sem (ud_conn d)) user_value t ?q []" using assms(1) by (auto simp: users_db_ok_def answers_sql_def)
  moreover have "sel_limit ?q = None" "sel_offset ?q = 0"
    by (simp_all add: sc_find_def secure_select_def ss_defs sel_find_def)
  ultimately have "filter (\<lambda>r. row_selected (cn_sem (ud_conn d)) (user_value r) (sel_where ?q)) t = []"
    by (auto simp: sql_answer_def)
  with assms(4,5) \<open>us_email x = e\<close> show False
    unfolding email_query_selects[OF assms(1,2)] filter_empty_conv by blast
qed


lemma create_checked:
  "create_user sv ctx fresh now nu w = (Ok u, w') \<Longrightarrow>
   us_email u = nu_email nu \<and> ur_email_exists (sv_repo sv) ctx (nu_email nu) (uw_db w) = Ok False"
  by (auto simp: create_user_def Let_def split: result.splits prod.splits bool.splits)

lemma update_checked:
  assumes "update_user sv ctx now i p w = (Ok v, w')"
  shows "\<exists>u. ur_find_by_id (sv_repo sv) ctx i (uw_db w) = Ok (Some u) \<and> v = patched p now u \<and>
     (us_email v = us_email u \<or> ur_email_exists (sv_repo sv) ctx (us_email v) (uw_db w) = Ok False)"
  using assms
  by (auto simp: update_user_def patched_def res_simps split: result.splits prod.splits option.splits if_splits)

lemma distinct_map_eq: "distinct (map f xs) \<Longrightarrow> x \<in> set xs \<Longrightarrow> y \<in> set xs \<Longrightarrow> f x = f y \<Longrightarrow> x = y"
  by (auto simp: distinct_map inj_on_def)

lemma distinct_upd:
  assumes "distinct (map us_id xs)" "distinct (map g xs)" "\<And>x. x \<in> set xs \<Longrightarrow> us_id x \<noteq> i \<Longrightarrow> g x \<noteq> g v"
  shows "distinct (map g (map (\<lambda>x. if us_id x = i then v else x) xs))"
proof -
  have "inj_on (\<lambda>x. g (if us_id x = i then v else x)) (set xs)"
  proof (rule inj_onI)
    fix x y
    assume "x \<in> set xs" "y \<in> set xs" "g (if us_id x = i then v else x) = g (if us_id y = i then v else y)"
    then show "x = y"
      using assms(3)[of x] assms(3)[of y] distinct_map_eq[OF assms(1), of x y] distinct_map_eq[OF assms(2), of x y]
      by (cases "us_id x = i"; cases "us_id y = i") auto
  qed
  moreover have "distinct xs" using assms(1) by (simp add: distinct_map)
  ultimately show ?thesis by (simp add: distinct_map o_def)
qed

lemma filter_upd:
  "(\<And>x. x \<in> set xs \<Longrightarrow> us_id x = i \<Longrightarrow> P x) \<Longrightarrow> P v \<Longrightarrow>
   filter P (map (\<lambda>x. if us_id x = i then v else x) xs) = map (\<lambda>x. if us_id x = i then v else x) (filter P xs)"
  by (induction xs) auto

lemma single_tenant_sees: "scope_sees (for_tenant t subject) u \<longleftrightarrow> us_tenant_id u = t"
  by (simp add: scope_sees_def for_tenant_def for_tenants_def tenants_only_def scope_is_empty_def)

lemma update_keeps_emails:
  assumes "repo_usable d (uw_db w)" "text_equality (cn_sem (ud_conn d))" "sv_repo sv = sea_orm_repo d"
    and "update_user sv (for_tenant t' subject) now i p w = (Ok v, w')"
    and "distinct (map us_email (filter (\<lambda>u. us_tenant_id u = t) (uw_db w)))"
  shows "distinct (map us_email (filter (\<lambda>u. us_tenant_id u = t) (uw_db w')))"
proof -
  from update_checked[OF assms(4)] assms(3) obtain u where
    u: "ur_find_by_id (sea_orm_repo d) (for_tenant t' subject) i (uw_db w) = Ok (Some u)" "v = patched p now u"
      "us_email v = us_email u \<or> repo_email_exists d (for_tenant t' subject) (us_email v) (uw_db w) = Ok False"
    by (auto simp: sea_orm_repo_def)
  from users.found[OF assms(1) u(1)] have hit: "u \<in> set (uw_db w)" "us_id u = i" "us_tenant_id u = t'"
    by (auto simp: single_tenant_sees)
  have one: "x = u" if "x \<in> set (uw_db w)" "us_id x = i" for x
    using that hit key_unique[OF usable_distinct[OF assms(1)]] by blast
  from users.update_cases[OF assms(1,3,4)] u(2) have w': "uw_db w' = map (\<lambda>x. if us_id x = i then v else x) (uw_db w)" by auto
  show ?thesis
  proof (cases "t' = t")
    case False
    have "filter (\<lambda>u. us_tenant_id u = t) (uw_db w') = filter (\<lambda>u. us_tenant_id u = t) (uw_db w)"
      unfolding w'
    proof (rule filter_map_key)
      show "\<And>x. x \<in> set (uw_db w) \<Longrightarrow> us_id x = i \<Longrightarrow> \<not> us_tenant_id x = t" using one hit(3) False by blast
    qed (simp add: u(2) hit(3) False)
    then show ?thesis using assms(5) by simp
  next
    case True
    let ?L = "filter (\<lambda>u. us_tenant_id u = t) (uw_db w)"
    have new: "us_email x \<noteq> us_email v" if "x \<in> set ?L" "us_id x \<noteq> i" for x
      using u(3)
    proof
      assume same: "us_email v = us_email u"
      have "u \<in> set ?L" using hit True by simp
      then show ?thesis using that hit(2) distinct_map_eq[OF assms(5) that(1), of u] same by auto
    next
      assume "repo_email_exists d (for_tenant t' subject) (us_email v) (uw_db w) = Ok False"
      from no_email_none[OF _ assms(2) this, of x] assms(1) that True show ?thesis
        by (simp add: single_tenant_sees repo_usable_def)
    qed
    have "filter (\<lambda>u. us_tenant_id u = t) (uw_db w') = map (\<lambda>x. if us_id x = i then v else x) ?L"
      unfolding w'
    proof (rule filter_upd)
      show "\<And>x. x \<in> set (uw_db w) \<Longrightarrow> us_id x = i \<Longrightarrow> us_tenant_id x = t" using one hit(3) True by blast
    qed (simp add: u(2) hit(3) True)
    moreover have "distinct (map us_id ?L)" using usable_distinct[OF assms(1)] by (rule distinct_map_filter)
    ultimately show ?thesis using distinct_upd[of ?L us_email i v] assms(5) new by simp
  qed
qed

text \<open>A user that is seen is found, or the database fails.\<close>

lemma repo_find_complete:
  assumes "repo_usable d t" "u \<in> set t" "scope_sees ctx u"
  shows "repo_find_by_id d ctx (us_id u) t = Ok (Some u) \<or> (\<exists>m. repo_find_by_id d ctx (us_id u) t = Err m)"
proof -
  let ?c = "cond_add (Simple (ColEq UcId (uuid_value (us_id u)))) cond_all"
  let ?q = "sel_set_limit 1 (into_inner (ss_filter ?c (sc_find users_entity ctx)))"
  have ok: "users_db_ok d" using assms(1) by (simp add: repo_usable_def)
  have find: "repo_find_by_id d ctx (us_id u) t =
      map_err (\<lambda>_. ''find_by_id query failed'') (ss_one (ud_conn d) t (ss_filter ?c (sc_find users_entity ctx)))"
    by (simp add: repo_find_by_id_def sc_find_by_id_def and_id_def users_entity_def)
  show ?thesis
  proof (cases "cn_query (ud_conn d) t ?q")
    case (Err e)
    then show ?thesis by (simp add: find ss_one_def)
  next
    case (Ok rows)
    then have answer: "sql_answer (cn_sem (ud_conn d)) user_value t ?q rows" using ok by (auto simp: users_db_ok_def answers_sql_def)
    have sel: "row_selected (cn_sem (ud_conn d)) (user_value x) (sel_where ?q) \<longleftrightarrow> us_id x = us_id u \<and> scope_sees ctx x" for x
      using ok
      by (auto simp: users_db_ok_def sc_find_def secure_select_def ss_defs sel_find_def row_selected_def scope_condition_in_scope
          scope_sees_in_scope sql_cmp_def uuid_value_def uuid_equality_def simp del: eval_condition.simps)
    have "x = u" if "x \<in> set t" "us_id x = us_id u" for x
      using that assms(2) key_unique[OF usable_distinct[OF assms(1)]] by blast
    moreover have "distinct t" using usable_distinct[OF assms(1)] by (simp add: distinct_map)
    ultimately have "filter (\<lambda>x. row_selected (cn_sem (ud_conn d)) (user_value x) (sel_where ?q)) t = filter (\<lambda>x. x = u) t"
      unfolding sel using assms(2,3) by (intro filter_cong) auto
    also have "\<dots> = [u]"
      using \<open>distinct t\<close> assms(2) by (induction t) (auto simp: filter_empty_conv)
    finally have "rows = [u]"
      using answer by (auto simp: sql_answer_def sel_set_limit_def ss_defs sc_find_def secure_select_def sel_find_def)
    then show ?thesis using Ok by (simp add: find ss_one_def)
  qed
qed

section \<open>Properties\<close>

text \<open>C39. 
  A request of a context that is limited to tenants stays in them, whatever the request is: the users of other tenants are
  left as they were, in their order, and every user it shows is of one of the tenants.
\<close>

theorem requests_stay_in_the_tenants:
  assumes "repo_usable d (uw_db w)" "sv_repo sv = sea_orm_repo d" "handle_users show_id sv ctx req w = (res, w')"
    and "\<not> is_root (ctx_scope ctx)" "tenant_ids (ctx_scope ctx) = ts" "ts \<noteq> []"
  shows "filter (\<lambda>u. us_tenant_id u \<notin> set ts) (uw_db w') = filter (\<lambda>u. us_tenant_id u \<notin> set ts) (uw_db w) \<and>
     (\<forall>us. res = Ok us \<longrightarrow> us_tenant_id ` set us \<subseteq> set ts)"
proof -
  have sees: "scope_sees ctx u \<Longrightarrow> us_tenant_id u \<in> set ts" for u using assms(4-6) by (simp add: scope_sees_def Let_def)
  note cases = handle_cases[OF assms(1-3)]
  show ?thesis
  proof (cases req)
    case (CreateUser fresh now cr)
    then show ?thesis using cases assms(4,5) by (cases res) auto
  next
    case (UpdateUser now i p)
    show ?thesis
    proof (cases res)
      case (Ok us)
      with cases UpdateUser obtain u where u: "us = [patched p now u]" "u \<in> set (uw_db w)" "us_id u = i" "scope_sees ctx u"
        "uw_db w' = map (\<lambda>x. if us_id x = i then patched p now u else x) (uw_db w)" by auto
      have "x = u" if "x \<in> set (uw_db w)" "us_id x = i" for x
        using that u key_unique[OF usable_distinct[OF assms(1)]] by blast
      then have "filter (\<lambda>u. us_tenant_id u \<notin> set ts) (uw_db w') = filter (\<lambda>u. us_tenant_id u \<notin> set ts) (uw_db w)"
        unfolding u(5) using sees[OF u(4)] by (intro filter_map_key) auto
      then show ?thesis using Ok u(1) sees[OF u(4)] by simp
    qed (use cases UpdateUser in auto)
  next
    case (DeleteUser now i)
    then show ?thesis using cases sees by (cases res) (auto intro: filter_cong)
  qed (use cases sees in auto)
qed

text \<open>
  Emails stay unique within a tenant under the requests of contexts of single tenants, whoever they are of.
\<close>

theorem emails_stay_unique_in_a_tenant:
  assumes "repo_usable d (uw_db w)" "text_equality (cn_sem (ud_conn d))" "sv_repo sv = sea_orm_repo d"
    and "handle_users show_id sv (for_tenant t' subject) req w = (res, w')"
    and "distinct (map us_email (filter (\<lambda>u. us_tenant_id u = t) (uw_db w)))"
  shows "distinct (map us_email (filter (\<lambda>u. us_tenant_id u = t) (uw_db w')))"
proof -
  have scope: "ctx_scope (for_tenant t' subject) = tenants_only [t']" by (simp add: for_tenant_def for_tenants_def)
  have ok: "users_db_ok d" using assms(1) by (simp add: repo_usable_def)
  note cases = handle_cases[OF assms(1,3,4)]
  note fresh = no_email_none[OF ok assms(2), of "for_tenant t' subject", unfolded single_tenant_sees]
  show ?thesis
  proof (cases req)
    case (CreateUser f now cr)
    show ?thesis
    proof (cases res)
      case (Ok us)
      let ?nu = "\<lparr>nu_id = cr_id cr, nu_tenant_id = cr_tenant_id cr, nu_email = cr_email cr, nu_display_name = cr_display_name cr\<rparr>"
      from cases CreateUser Ok obtain u where u: "us = [u]" "uw_db w' = uw_db w @ [u]" "us_tenant_id u = t'"
        by (auto simp: scope tenants_only_def)
      have "create_user sv (for_tenant t' subject) f now ?nu w = (Ok u, w')"
        using assms(4) CreateUser Ok u(1)
        by (auto simp: handle_users_def rest_create_user_def res_simps split: prod.splits if_splits)
      from create_checked[OF this] have "us_email x \<noteq> us_email u" if "x \<in> set (uw_db w)" "us_tenant_id x = t'" for x
        using fresh[of _ "uw_db w" x] that assms(3) by (simp add: sea_orm_repo_def)
      then show ?thesis using assms(5) u by fastforce
    qed (use cases CreateUser assms(5) in auto)
  next
    case (UpdateUser now i p)
    show ?thesis
    proof (cases res)
      case (Ok us)
      from assms(4) UpdateUser Ok obtain v where "update_user sv (for_tenant t' subject) now i p w = (Ok v, w')"
        by (auto simp: handle_users_def rest_update_user_def res_simps split: prod.splits)
      from update_keeps_emails[OF assms(1-3) this assms(5)] show ?thesis .
    qed (use cases UpdateUser assms(5) in auto)
  next
    case (DeleteUser now i)
    then have "\<exists>P. uw_db w' = filter P (uw_db w)"
      using cases by (cases res) (auto intro: exI[of _ "\<lambda>_. True"])
    then obtain P where "uw_db w' = filter P (uw_db w)" by blast
    then have "filter (\<lambda>u. us_tenant_id u = t) (uw_db w') = filter P (filter (\<lambda>u. us_tenant_id u = t) (uw_db w))"
      by (simp add: conj_commute)
    then show ?thesis using assms(5) distinct_map_filter by metis
  qed (use cases assms(5) in auto)
qed


text \<open>
  Every stored user has an email with \<open>@\<close> and a dot and a display name that is not blank and not longer than the limit:
  no request, answered or failed, breaks this.
\<close>

theorem stored_users_stay_valid:
  assumes "repo_usable d (uw_db w)" "sv_repo sv = sea_orm_repo d" "handle_users show_id sv ctx req w = (res, w')"
    and "\<forall>u\<in>set (uw_db w). valid_user (sv_config sv) u"
  shows "\<forall>u\<in>set (uw_db w'). valid_user (sv_config sv) u"
  using handle_cases[OF assms(1-3)] assms(4) patched_valid[of "sv_config sv"]
  by (cases req; cases res) (auto simp: valid_user_def[of _ "_ :: user"])

text \<open>
  What a request publishes is what it changed: an answered creation, update or deletion publishes one event, with the id, and
  a read or a failed request publishes none and leaves the users as they were.
\<close>

theorem events_report_the_changes:
  assumes "repo_usable d (uw_db w)" "sv_repo sv = sea_orm_repo d" "handle_users show_id sv ctx req w = (res, w')"
  shows "\<exists>es. uw_events w' = uw_events w @ es \<and>
     (case (req, res) of
        (CreateUser _ now _, Ok us) \<Rightarrow> \<exists>u. us = [u] \<and> es = [Created (us_id u) now] \<and> uw_db w' = uw_db w @ [u]
      | (UpdateUser now i _, Ok us) \<Rightarrow> es = [Updated i now] \<and> (\<exists>u. us = [u] \<and> us_id u = i \<and> u \<in> set (uw_db w'))
      | (DeleteUser now i, Ok us) \<Rightarrow> es = [Deleted i now] \<and> (\<forall>x\<in>set (uw_db w'). scope_sees ctx x \<longrightarrow> us_id x \<noteq> i)
      | _ \<Rightarrow> es = [] \<and> uw_db w' = uw_db w)"
  using handle_cases[OF assms] by (cases req; cases res) force+

text \<open>
  An update keeps the id, the tenant and the time of creation of every user, and changes only the user with its id.
\<close>

theorem updates_keep_identities:
  assumes "repo_usable d (uw_db w)" "sv_repo sv = sea_orm_repo d" "update_user sv ctx now i p w = (res, w')"
  shows "list_all2 (\<lambda>x y. us_id y = us_id x \<and> us_tenant_id y = us_tenant_id x \<and> us_created_at y = us_created_at x \<and>
     (us_id x \<noteq> i \<or> \<not> scope_sees ctx x \<longrightarrow> y = x)) (uw_db w) (uw_db w')"
proof (cases res)
  case (Ok v)
  with users.update_cases[OF assms] obtain u where u: "u \<in> set (uw_db w)" "us_id u = i" "scope_sees ctx u" "v = patched p now u"
    "uw_db w' = map (\<lambda>x. if us_id x = i then v else x) (uw_db w)" by auto
  have "x = u" if "x \<in> set (uw_db w)" "us_id x = i" for x
    using that u(1,2) key_unique[OF usable_distinct[OF assms(1)]] by blast
  then show ?thesis
    unfolding u(5) list_all2_map2 using u(3,4) by (intro list.rel_refl_strong) auto
qed (use users.update_cases[OF assms] in \<open>auto intro: list.rel_refl_strong\<close>)

text \<open>
  The audit service never decides a request: with any two services behind the port, the answer, the users and the
  events are the same.
\<close>

theorem audit_never_decides:
  assumes "handle_users show_id sv ctx req w = (res, w')" "handle_users show_id (sv\<lparr>sv_audit := other\<rparr>) ctx req w = (res', w'')"
  shows "res' = res \<and> uw_db w'' = uw_db w' \<and> uw_events w'' = uw_events w'"
proof -
  have same: "sv_repo (sv\<lparr>sv_audit := other\<rparr>) = sv_repo sv" "sv_config (sv\<lparr>sv_audit := other\<rparr>) = sv_config sv" by simp_all
  have unaudited: "update_user (sv\<lparr>sv_audit := other\<rparr>) ctx now i p w = update_user sv ctx now i p w"
    "delete_user (sv\<lparr>sv_audit := other\<rparr>) ctx now i w = delete_user sv ctx now i w"
    "list_users_page (sv\<lparr>sv_audit := other\<rparr>) ctx q w = list_users_page sv ctx q w" for now i p q
    unfolding update_user_def delete_user_def list_users_page_def same by (rule refl)+
  show ?thesis
  proof (cases req)
    case (CreateUser fresh now cr)
    let ?nu = "\<lparr>nu_id = cr_id cr, nu_tenant_id = cr_tenant_id cr, nu_email = cr_email cr, nu_display_name = cr_display_name cr\<rparr>"
    have "fst (create_user (sv\<lparr>sv_audit := other\<rparr>) ctx fresh now ?nu w) = fst (create_user sv ctx fresh now ?nu w) \<and>
      uw_db (snd (create_user (sv\<lparr>sv_audit := other\<rparr>) ctx fresh now ?nu w)) = uw_db (snd (create_user sv ctx fresh now ?nu w)) \<and>
      uw_events (snd (create_user (sv\<lparr>sv_audit := other\<rparr>) ctx fresh now ?nu w)) = uw_events (snd (create_user sv ctx fresh now ?nu w))"
      unfolding create_user_def audit_created_def publish_def Let_def same
      by (auto split: result.splits prod.splits bool.splits)
    then show ?thesis
      using assms CreateUser by (auto simp: handle_users_def rest_create_user_def split: if_splits prod.splits)
  next
    case (GetUser i)
    then show ?thesis using assms by (auto simp: handle_users_def rest_get_user_def get_user_def audit_access_def)
  qed (use assms in \<open>auto simp: handle_users_def rest_list_users_def rest_update_user_def rest_delete_user_def unaudited\<close>)
qed

text \<open>
  A user that was created is found: where the context sees it, reading it by its id afterwards answers the user,
  unless the database fails.
\<close>

theorem created_user_is_found:
  assumes "repo_usable d (uw_db w)" "sv_repo sv = sea_orm_repo d" "create_user sv ctx fresh now nu w = (Ok u, w')"
    and "scope_sees ctx' u" "get_user sv ctx' (us_id u) w' = (res, w'')"
  shows "res = Ok u \<or> (\<exists>m. res = Err (Database m))"
proof -
  from users.create_cases[OF assms(1-3)] have w': "repo_usable d (uw_db w')" "u \<in> set (uw_db w')" by auto
  have res: "res = and_then (map_err Database (repo_find_by_id d ctx' (us_id u) (uw_db w'))) (ok_or (UserNotFound (us_id u)))"
    using assms(2,5) by (auto simp: get_user_def audit_access_def sea_orm_repo_def)
  from repo_find_complete[OF w' assms(4)] show ?thesis unfolding res by auto
qed


text \<open>
  The in-process client creates users in any tenant: the repository does not check the tenant of an insertion,
  and only the REST handler does.
\<close>

theorem local_client_creates_in_any_tenant:
  assumes "sv_repo sv = sea_orm_repo d" "cn_fault (ud_conn d) = None" "nu_id nu = None" "validate_new_user (sv_config sv) nu = Ok ()"
    and "repo_email_exists d ctx (nu_email nu) (uw_db w) = Ok False"
    and "u = \<lparr>us_id = fresh, us_tenant_id = nu_tenant_id nu, us_email = nu_email nu, us_display_name = nu_display_name nu,
      us_created_at = now, us_updated_at = now\<rparr>" "ud_check d (uw_db w @ [u])"
    and "\<not> is_root (ctx_scope ctx)" "nu_tenant_id nu \<notin> set (tenant_ids (ctx_scope ctx))"
  shows "\<exists>w'. client_create_user sv ctx fresh now nu w = (Ok u, w') \<and> uw_db w' = uw_db w @ [u] \<and>
     rest_create_user show_id sv ctx fresh now
       \<lparr>cr_id = None, cr_tenant_id = nu_tenant_id nu, cr_email = nu_email nu, cr_display_name = nu_display_name nu\<rparr> w =
     (Err (ApiDomain (tenant_not_allowed show_id (nu_tenant_id nu))), w)"
proof -
  have "repo_insert d ctx u (uw_db w) = (Ok (), uw_db w @ [u])"
    using assms(2,7)
    by (simp add: repo_insert_def statement_def sc_insert_def secure_insert_def db_insert_model_def user_model_def)
  then show ?thesis
    using assms(1,3-6,8,9)
    by (simp add: client_create_user_def create_user_def sea_orm_repo_def audit_created_def publish_def rest_create_user_def Let_def)
qed

text \<open>
  The sizes of pages are not those of the configuration: whatever it says, a page has 25 users by default and at most 1000.
\<close>

theorem page_sizes_are_not_configured:
  assumes "sv_repo sv = sea_orm_repo d" "list_users_page sv ctx q w = (Ok p, w')"
  shows "pi_limit (page_info p) = clamp_limit (q_limit q) \<lparr>lc_default = 25, lc_max = 1000\<rparr> \<and>
     list_users_page (sv\<lparr>sv_config := other\<rparr>) ctx q w = (Ok p, w')"
proof -
  have "paginate_odata te select db q tb cfg f = Ok p \<Longrightarrow> pi_limit (page_info p) = clamp_limit (q_limit q) cfg"
    for te :: "(user_field, user_column, user) typed_env" and select db tb cfg and f :: "user \<Rightarrow> user"
    unfolding paginate_odata_def Let_def and_then_Ok_iff by force
  then show ?thesis using assms by (auto simp: list_users_page_def sea_orm_repo_def repo_list_def)
qed

lemma users_accessors:
  "accessor users_catalog ''example1_user_not_found_v1'' = Some (code_to_ident (users_code ''not_found''))"
  "accessor users_catalog ''example1_user_invalid_email_v1'' = Some (code_to_ident (users_code ''invalid_email''))"
  "accessor users_catalog ''example1_user_validation_v1'' = Some (code_to_ident (users_code ''validation''))"
  "accessor users_catalog ''example1_user_internal_database_v1'' = Some (code_to_ident (users_code ''internal_database''))"
  by code_simp+

lemma users_statuses:
  "map_option ed_status (code_def users_catalog (code_to_ident (users_code ''not_found''))) = Some 404"
  "map_option ed_status (code_def users_catalog (code_to_ident (users_code ''invalid_email''))) = Some 400"
  "map_option ed_status (code_def users_catalog (code_to_ident (users_code ''validation''))) = Some 422"
  "map_option ed_status (code_def users_catalog (code_to_ident (users_code ''internal_database''))) = Some 500"
  by code_simp+

lemma context_of:
  assumes "map_option ed_status (code_def ct v) = Some n" "100 \<le> n" "n < 1000"
  shows "\<exists>p. code_with_context ct v detail uri trace = Some p \<and> p_status p = n \<and> p_detail p = detail \<and> p_instance p = uri \<and> p_trace_id p = trace"
proof -
  obtain d where d: "code_def ct v = Some d" "ed_status d = n" using assms(1) by auto
  have "p_status (as_problem d detail) = n" "p_detail (as_problem d detail) = detail" "p_trace_id (as_problem d detail) = None"
    using d(2) assms(2,3) by (simp_all add: as_problem_def status_from_u16_def problem_new_def with_type_def with_code_def Let_def)
  then show ?thesis
    by (cases trace) (simp_all add: code_with_context_def code_as_problem_def d(1) with_instance_def with_trace_id_def Let_def)
qed

text \<open>
  Every domain error is answered with a problem of the catalog, with the instance and the trace of the request. A
  conflict of emails is a bad request, not the conflict that the routes document and the catalog has a code for.
\<close>

theorem every_domain_error_has_its_status:
  "\<exists>p. user_error_to_problem show_id trace e uri = Some p \<and> p_instance p = uri \<and> p_trace_id p = trace \<and>
     p_status p = (case e of UserNotFound _ \<Rightarrow> 404 | EmailAlreadyExists _ \<Rightarrow> 400 | InvalidEmail _ \<Rightarrow> 400 | Database _ \<Rightarrow> 500 | _ \<Rightarrow> 422)"
  using context_of[OF users_statuses(1)] context_of[OF users_statuses(2)] context_of[OF users_statuses(3)] context_of[OF users_statuses(4)]
  by (cases e) (simp_all add: user_error_to_problem_def problem_call_def users_accessors, metis+)

text \<open>
  What the database said is not shown to a client, over REST or in the process.
\<close>

theorem database_messages_are_hidden:
  "user_error_to_problem show_id trace (Database m) uri = user_error_to_problem show_id trace (Database m') uri \<and>
   users_info_error_of (Database m) = users_info_error_of (Database m')"
  by (simp add: user_error_to_problem_def problem_call_def)

text \<open>
  The catalog that the mapping uses is the one that the macro generates from the entries of \<open>gts/errors.json\<close>.
\<close>

theorem users_catalog_is_generated:
  assumes "ce_manifest_dir env = Some dir" "ce_read env (join_path dir (de_path i)) = Ok content" "ce_parse env content = Ok users_catalog_entries"
  shows "generate_errors env i = Ok users_catalog \<and> distinct (ct_variants users_catalog)"
proof -
  have "validate_entries users_catalog_entries = Ok ()" by code_simp
  moreover have "compute_short_names users_catalog_entries =
      Ok (map (\<lambda>n. ''example1_user_'' @ n @ ''_v1'') [''not_found'', ''email_conflict'', ''invalid_email'', ''validation'', ''internal_database''])"
    by code_simp
  moreover have "distinct (ct_variants users_catalog)" by code_simp
  ultimately show ?thesis
    using assms by (auto simp: generate_errors_ok users_catalog_def Let_def)
qed

text \<open>
  The audit client fails for a base that cannot have a path, for a request that fails and for every status that is not a success,
  always with a validation error of its field.
\<close>

theorem audit_client_answers:
  "case http_user_access ha i of
     Ok _ \<Rightarrow> (\<exists>url status. ha_extend ha (ha_audit_base ha) [''api'', ''user-access'', ha_show_id ha i] = Some url \<and>
        ha_get ha url = Ok status \<and> 200 \<le> status \<and> status < 300)
   | Err e \<Rightarrow> (\<exists>m. e = Validation ''user_access'' m) \<and>
       (ha_extend ha (ha_audit_base ha) [''api'', ''user-access'', ha_show_id ha i] = None \<or>
        (\<exists>url. ha_extend ha (ha_audit_base ha) [''api'', ''user-access'', ha_show_id ha i] = Some url \<and>
          (case ha_get ha url of Ok status \<Rightarrow> status < 200 \<or> 300 \<le> status | Err _ \<Rightarrow> True)))"
proof (cases "ha_extend ha (ha_audit_base ha) [''api'', ''user-access'', ha_show_id ha i]")
  case (Some url)
  then show ?thesis by (cases "ha_get ha url") (auto simp: http_user_access_def check_reply_def)
qed (simp add: http_user_access_def)

section \<open>Witnesses\<close>

text \<open>A database that computes its answers, and orders values by a key; texts have distinct keys.\<close>

fun text_key :: "string \<Rightarrow> int" where
  "text_key [] = 0"
| "text_key (c # cs) = of_char c + 1 + 256 * text_key cs"

lemma char_range: "(0 :: int) \<le> of_char c \<and> (of_char c :: int) < 256"
proof -
  have "(of_char c :: int) = int (of_char c :: nat)" by (metis of_nat_of_char)
  moreover have "(of_char c :: nat) < 256" by simp
  ultimately show ?thesis by simp
qed

lemma text_key_inj: "text_key a = text_key b \<Longrightarrow> a = b"
proof (induction a arbitrary: b)
  case Nil
  have "0 \<le> text_key s" for s by (induction s) (use char_range in \<open>auto simp: add_nonneg_nonneg\<close>)
  then have "text_key (c # cs) > 0" for c cs using char_range[of c] by (simp add: add_pos_nonneg)
  then have "text_key (c # cs) \<noteq> 0" for c cs by (metis less_irrefl)
  with Nil show ?case by (metis text_key.simps(1) list.exhaust)
next
  case (Cons c cs)
  have pos: "0 \<le> text_key s" for s by (induction s) (use char_range in \<open>auto simp: add_nonneg_nonneg\<close>)
  then have "text_key (c # cs) > 0" using char_range[of c] by (simp add: add_pos_nonneg)
  with Cons.prems obtain d ds where b: "b = d # ds" by (cases b) auto
  have mods: "0 \<le> x \<and> x < 256 \<Longrightarrow> (x + 256 * m) mod 256 = x" for x m :: int by simp
  have "(of_char c :: int) + 256 * text_key cs = of_char d + 256 * text_key ds" using Cons.prems by (simp add: b)
  moreover from this have "(of_char c :: int) = of_char d" using mods[OF char_range] by metis
  ultimately have "c = d" "text_key cs = text_key ds" by simp_all
  then show ?case using Cons.IH by (simp add: b)
qed

fun user_key :: "sea_value \<Rightarrow> int" where
  "user_key (SUuid (Some u)) = int u"
| "user_key (SString (Some s)) = text_key s"
| "user_key (SDateTime (Some t)) = t"
| "user_key _ = 0"

definition user_sem :: sql_sem where
  "user_sem = demo_sem\<lparr>sv_lt := (\<lambda>a b. user_key a < user_key b)\<rparr>"

definition demo_users_db :: users_db where
  "demo_users_db =
     \<lparr>ud_conn = \<lparr>cn_sem = user_sem, cn_col = user_value, cn_query = (\<lambda>t s. Ok (run_select user_sem user_value t s)), cn_fault = None\<rparr>,
      ud_check = (\<lambda>t. distinct (map us_id t)),
      ud_env = \<lparr>te_cc = demo_codec, te_vc = demo_values, te_no = demo_numbers, te_dbg = (\<lambda>_. []),
        te_ff = user_filter_field, te_map_field = map_user_field, te_extract = extract_user_value\<rparr>\<rparr>"

lemma demo_users_db_ok: "users_db_ok demo_users_db" "text_equality (cn_sem (ud_conn demo_users_db))"
proof -
  have lt: "sv_lt user_sem a b \<longleftrightarrow> user_key a < user_key b" for a b by (simp add: user_sem_def)
  show "users_db_ok demo_users_db"
    using run_select_answers[of user_sem user_key, OF lt]
    by (auto simp: users_db_ok_def demo_users_db_def answers_sql_def uuid_equality_def sv_eq_def lt uuid_value_def)
  show "text_equality (cn_sem (ud_conn demo_users_db))"
    by (auto simp: demo_users_db_def text_equality_def sv_eq_def lt not_less dest: text_key_inj antisym)
qed


definition ann :: user where
  "ann = \<lparr>us_id = 1, us_tenant_id = 7, us_email = ''a@.'', us_display_name = ''Ann'', us_created_at = 1, us_updated_at = 1\<rparr>"

definition bob :: user where
  "bob = \<lparr>us_id = 2, us_tenant_id = 8, us_email = ''b@.'', us_display_name = ''Bob'', us_created_at = 2, us_updated_at = 2\<rparr>"

definition demo_service :: "user list users_service" where
  "demo_service = \<lparr>sv_repo = sea_orm_repo demo_users_db, sv_audit = \<lparr>ap_access = (\<lambda>_. Ok ()), ap_created = Ok ()\<rparr>,
     sv_config = default_service_config\<rparr>"

definition demo_world :: "user list users_world" where
  "demo_world = \<lparr>uw_db = [ann, bob], uw_events = [], uw_audit = []\<rparr>"

abbreviation "rename_bob \<equiv> UpdateUser 5 2 \<lparr>up_email = None, up_display_name = Some ''Eve''\<rparr>"
abbreviation "rename_ann \<equiv> UpdateUser 5 1 \<lparr>up_email = Some ''c@.'', up_display_name = None\<rparr>"

lemma demo_usable: "repo_usable demo_users_db (uw_db demo_world)" "sv_repo demo_service = sea_orm_repo demo_users_db"
  using demo_users_db_ok by (simp_all add: repo_usable_def demo_users_db_def demo_world_def ann_def bob_def demo_service_def)

lemma demo_requests:
  "handle_users show_nat demo_service (for_tenant 7 1) rename_bob demo_world = (Err (ApiDomain (UserNotFound 2)), demo_world)"
  "handle_users show_nat demo_service (for_tenant 7 1) rename_ann demo_world =
     (Ok [ann\<lparr>us_email := ''c@.'', us_updated_at := 5\<rparr>],
      \<lparr>uw_db = [ann\<lparr>us_email := ''c@.'', us_updated_at := 5\<rparr>, bob], uw_events = [Updated 1 5], uw_audit = []\<rparr>)"
  by code_simp+

lemma demo_scope: "\<not> is_root (ctx_scope (for_tenant 7 1))" "tenant_ids (ctx_scope (for_tenant 7 1)) = [7]"
  by (simp_all add: for_tenant_def for_tenants_def tenants_only_def)

theorem requests_stay_in_the_tenants_witness:
  "filter (\<lambda>u. us_tenant_id u \<notin> set [7]) (uw_db (snd (handle_users show_nat demo_service (for_tenant 7 1) rename_ann demo_world))) =
     filter (\<lambda>u. us_tenant_id u \<notin> set [7]) (uw_db demo_world)"
  unfolding demo_requests(2) snd_conv
  using requests_stay_in_the_tenants[OF demo_usable demo_requests(2) demo_scope] by blast

theorem emails_stay_unique_in_a_tenant_witness:
  "distinct (map us_email (filter (\<lambda>u. us_tenant_id u = 7) (uw_db (snd (handle_users show_nat demo_service (for_tenant 7 1) rename_ann demo_world)))))"
proof -
  have "distinct (map us_email (filter (\<lambda>u. us_tenant_id u = 7) (uw_db demo_world)))" by (simp add: demo_world_def ann_def bob_def)
  from emails_stay_unique_in_a_tenant[OF demo_usable(1) demo_users_db_ok(2) demo_usable(2) demo_requests(2) this]
  show ?thesis unfolding demo_requests(2) snd_conv .
qed

theorem stored_users_stay_valid_witness:
  "valid_user default_service_config (ann\<lparr>us_email := ''c@.'', us_updated_at := 5\<rparr>)"
proof -
  have "valid_user default_service_config ann" "valid_user default_service_config bob" by code_simp+
  then have "\<forall>u\<in>set (uw_db demo_world). valid_user (sv_config demo_service) u" by (simp add: demo_world_def demo_service_def)
  from stored_users_stay_valid[OF demo_usable demo_requests(2) this] show ?thesis by (simp add: demo_service_def)
qed

theorem events_report_the_changes_witness:
  "uw_events (snd (handle_users show_nat demo_service (for_tenant 7 1) rename_ann demo_world)) = uw_events demo_world @ [Updated 1 5]"
  unfolding demo_requests(2) snd_conv using events_report_the_changes[OF demo_usable demo_requests(2)] by simp

theorem updates_keep_identities_witness:
  "list_all2 (\<lambda>x y. us_tenant_id y = us_tenant_id x) (uw_db demo_world)
     (uw_db (snd (update_user demo_service (for_tenant 7 1) 5 1 \<lparr>up_email = None, up_display_name = Some ''Eve''\<rparr> demo_world)))"
  by (rule list_all2_mono[OF updates_keep_identities[OF demo_usable prod.collapse[symmetric]]]) simp

theorem audit_never_decides_witness:
  "fst (handle_users show_nat (demo_service\<lparr>sv_audit := \<lparr>ap_access = (\<lambda>_. Err EmptyDisplayName), ap_created = Err EmptyDisplayName\<rparr>\<rparr>)
     (for_tenant 7 1) rename_ann demo_world) = Ok [ann\<lparr>us_email := ''c@.'', us_updated_at := 5\<rparr>]"
  using audit_never_decides[OF demo_requests(2) prod.collapse[symmetric]] by blast

lemma demo_created:
  "create_user demo_service (for_tenant 7 1) 3 9 \<lparr>nu_id = None, nu_tenant_id = 7, nu_email = ''c@.'', nu_display_name = ''Cy''\<rparr> demo_world =
     (Ok \<lparr>us_id = 3, us_tenant_id = 7, us_email = ''c@.'', us_display_name = ''Cy'', us_created_at = 9, us_updated_at = 9\<rparr>,
      \<lparr>uw_db = [ann, bob, \<lparr>us_id = 3, us_tenant_id = 7, us_email = ''c@.'', us_display_name = ''Cy'', us_created_at = 9, us_updated_at = 9\<rparr>],
       uw_events = [Created 3 9], uw_audit = [CreatedCall]\<rparr>)"
  by code_simp

theorem created_user_is_found_witness:
  "fst (get_user demo_service (for_tenant 7 1) 3 (snd (create_user demo_service (for_tenant 7 1) 3 9
     \<lparr>nu_id = None, nu_tenant_id = 7, nu_email = ''c@.'', nu_display_name = ''Cy''\<rparr> demo_world))) =
   Ok \<lparr>us_id = 3, us_tenant_id = 7, us_email = ''c@.'', us_display_name = ''Cy'', us_created_at = 9, us_updated_at = 9\<rparr>"
proof -
  define w where "w = snd (create_user demo_service (for_tenant 7 1) 3 9
    \<lparr>nu_id = None, nu_tenant_id = 7, nu_email = ''c@.'', nu_display_name = ''Cy''\<rparr> demo_world)"
  let ?u = "\<lparr>us_id = 3, us_tenant_id = 7, us_email = ''c@.'', us_display_name = ''Cy'', us_created_at = 9, us_updated_at = 9\<rparr>"
  have c: "create_user demo_service (for_tenant 7 1) 3 9
    \<lparr>nu_id = None, nu_tenant_id = 7, nu_email = ''c@.'', nu_display_name = ''Cy''\<rparr> demo_world = (Ok ?u, w)"
    unfolding w_def demo_created snd_conv ..
  obtain res w'' where g: "get_user demo_service (for_tenant 7 1) 3 w = (res, w'')" by (rule prod.exhaust)
  have "\<not> (\<exists>m. res = Err (Database m))"
    using g demo_usable(2) by (auto simp: get_user_def audit_access_def sea_orm_repo_def repo_find_by_id_def sc_find_by_id_def and_id_def
        users_entity_def ss_one_def demo_users_db_def split: list.splits)
  moreover have "scope_sees (for_tenant 7 1) ?u" unfolding single_tenant_sees by simp
  moreover have "get_user demo_service (for_tenant 7 1) (us_id ?u) w = (res, w'')" using g by simp
  ultimately have "res = Ok ?u" using created_user_is_found[OF demo_usable c] by blast
  then show ?thesis unfolding w_def[symmetric] g by simp
qed

theorem local_client_creates_in_any_tenant_witness:
  "fst (client_create_user demo_service (for_tenant 7 1) 3 9 \<lparr>nu_id = None, nu_tenant_id = 8, nu_email = ''b@.'', nu_display_name = ''Cy''\<rparr> demo_world) =
   Ok \<lparr>us_id = 3, us_tenant_id = 8, us_email = ''b@.'', us_display_name = ''Cy'', us_created_at = 9, us_updated_at = 9\<rparr>"
proof -
  let ?nu = "\<lparr>nu_id = None, nu_tenant_id = 8, nu_email = ''b@.'', nu_display_name = ''Cy''\<rparr>"
  let ?u = "\<lparr>us_id = 3, us_tenant_id = nu_tenant_id ?nu, us_email = nu_email ?nu, us_display_name = nu_display_name ?nu,
    us_created_at = 9, us_updated_at = 9\<rparr>"
  have 1: "cn_fault (ud_conn demo_users_db) = None" "nu_id ?nu = None" by (simp_all add: demo_users_db_def)
  have 2: "validate_new_user (sv_config demo_service) ?nu = Ok ()"
    "repo_email_exists demo_users_db (for_tenant 7 1) (nu_email ?nu) (uw_db demo_world) = Ok False" by code_simp+
  have 3: "ud_check demo_users_db (uw_db demo_world @ [?u])" by (simp add: demo_users_db_def demo_world_def ann_def bob_def)
  have 4: "\<not> is_root (ctx_scope (for_tenant 7 1))" "nu_tenant_id ?nu \<notin> set (tenant_ids (ctx_scope (for_tenant 7 1)))"
    by (simp_all add: for_tenant_def for_tenants_def tenants_only_def)
  from local_client_creates_in_any_tenant[OF demo_usable(2) 1 2 refl 3 4, of show_nat] show ?thesis by auto
qed

theorem page_sizes_are_not_configured_witness:
  "\<exists>p w'. list_users_page demo_service (for_tenant 7 1) new_query demo_world = (Ok p, w') \<and> pi_limit (page_info p) = 25"
proof -
  have q: "run_select user_sem user_value [ann, bob] \<lparr>sel_where = [build_scope_condition users_entity (tenants_only [7])],
      sel_order = [(UcId, Desc)], sel_limit = Some 26, sel_offset = 0\<rparr> = [ann]" by code_simp
  have f: "from_name user_filter_field ''id'' = Some UfId" by code_simp
  obtain p where "list_users_page demo_service (for_tenant 7 1) new_query demo_world = (Ok p, demo_world)"
    using f q
    by (auto simp: list_users_page_def demo_service_def sea_orm_repo_def repo_list_def paginate_odata_def Let_def new_query_def
        effective_order_def ensure_tiebreaker_def check_filter_hash_def is_backward_def apply_filter_def apply_cursor_def
        apply_order_def order_field_def clamp_limit_def u64_succ_def trim_rows_def sc_find_def secure_select_def sel_find_def
        sel_filter_def ctx_defs sel_order_by_def sel_set_limit_def demo_users_db_def demo_world_def)
  with page_sizes_are_not_configured[OF demo_usable(2) this] show ?thesis
    by (auto simp: new_query_def clamp_limit_def)
qed

theorem users_catalog_is_generated_witness:
  "generate_errors (demo_catalog_env\<lparr>ce_parse := (\<lambda>_. Ok users_catalog_entries)\<rparr>) demo_input = Ok users_catalog"
proof -
  have "ce_read demo_catalog_env (join_path ''/c'' (de_path demo_input)) = Ok []" by code_simp
  then show ?thesis
    using users_catalog_is_generated[of "demo_catalog_env\<lparr>ce_parse := (\<lambda>_. Ok users_catalog_entries)\<rparr>" "''/c''" demo_input "[]"]
    by (simp add: demo_catalog_env_def)
qed

end
