(* ===== verification/Users_Schema.thy ===== *)
theory Users_Schema
  imports Users_Service
begin

text \<open>
  The migrations of the \<open>users_info\<close> module: \<open>infra/storage/migrations/initial_001.rs\<close> and
  \<open>add_tenant_support_002.rs\<close>, over a database that has the table or not.

  A schema has the columns of the table (and whether they may be null), the constraints that are part of a column, the
  indexes and the rows. The statements are SQL's: a unique index or a \<open>NOT NULL\<close> is refused when the rows break it, and a
  column that an index uses cannot be dropped. \<open>CREATE INDEX\<close> with a name that exists fails, unless it says \<open>IF NOT EXISTS\<close>.
\<close>

datatype backend = OnPostgres | OnMySql | OnSqlite

type_synonym table_row = "string \<Rightarrow> sea_value option"

record index =
  ix_name :: string
  ix_columns :: "string list"
  ix_unique :: bool

record schema =
  sm_exists :: bool
  sm_columns :: "(string \<times> bool) list"
  sm_unique :: "string list"
  sm_indexes :: "index list"
  sm_rows :: "table_row list"

definition empty_schema :: schema where
  "empty_schema = \<lparr>sm_exists = False, sm_columns = [], sm_unique = [], sm_indexes = [], sm_rows = []\<rparr>"

text \<open>SQL compares null with nothing.\<close>

definition unique_on :: "string list \<Rightarrow> table_row list \<Rightarrow> bool" where
  "unique_on cols rows = distinct (filter (list_all (\<lambda>v. v \<noteq> None)) (map (\<lambda>r. map r cols) rows))"

definition has_column :: "string \<Rightarrow> schema \<Rightarrow> bool" where
  "has_column c s \<longleftrightarrow> c \<in> fst ` set (sm_columns s)"

definition has_index :: "string \<Rightarrow> schema \<Rightarrow> bool" where
  "has_index n s \<longleftrightarrow> n \<in> ix_name ` set (sm_indexes s)"

definition create_table :: "(string \<times> bool) list \<Rightarrow> string list \<Rightarrow> schema \<Rightarrow> (schema, string) result" where
  "create_table cols uniq s =
     (if sm_exists s then Ok s
      else Ok (s\<lparr>sm_exists := True, sm_columns := cols, sm_unique := uniq, sm_indexes := [], sm_rows := []\<rparr>))"

definition create_index :: "bool \<Rightarrow> index \<Rightarrow> schema \<Rightarrow> (schema, string) result" where
  "create_index if_not_exists i s =
     (if has_index (ix_name i) s then (if if_not_exists then Ok s else Err ''index already exists'')
      else if ix_unique i \<and> \<not> unique_on (ix_columns i) (sm_rows s) then Err ''duplicate values''
      else Ok (s\<lparr>sm_indexes := sm_indexes s @ [i]\<rparr>))"

definition drop_index :: "string \<Rightarrow> schema \<Rightarrow> (schema, string) result" where
  "drop_index n s =
     (if has_index n s then Ok (s\<lparr>sm_indexes := filter (\<lambda>i. ix_name i \<noteq> n) (sm_indexes s)\<rparr>) else Err ''no such index'')"

text \<open>\<open>dflt\<close> is the default of a column that is added with one.\<close>

definition add_column :: "string \<Rightarrow> bool \<Rightarrow> sea_value option \<Rightarrow> schema \<Rightarrow> (schema, string) result" where
  "add_column c nullable dflt s =
     (if has_column c s then Err ''duplicate column''
      else if \<not> nullable \<and> dflt = None \<and> sm_rows s \<noteq> [] then Err ''column contains null values''
      else Ok (s\<lparr>sm_columns := sm_columns s @ [(c, nullable)], sm_rows := map (\<lambda>r. r(c := dflt)) (sm_rows s)\<rparr>))"

definition fill_nulls :: "string \<Rightarrow> sea_value \<Rightarrow> schema \<Rightarrow> (schema, string) result" where
  "fill_nulls c v s =
     (if has_column c s then Ok (s\<lparr>sm_rows := map (\<lambda>r. if r c = None then r(c := Some v) else r) (sm_rows s)\<rparr>)
      else Err ''no such column'')"

definition set_not_null :: "string \<Rightarrow> schema \<Rightarrow> (schema, string) result" where
  "set_not_null c s =
     (if \<not> has_column c s then Err ''no such column''
      else if list_ex (\<lambda>r. r c = None) (sm_rows s) then Err ''column contains null values''
      else Ok (s\<lparr>sm_columns := map (\<lambda>(n, nullable). (n, nullable \<and> n \<noteq> c)) (sm_columns s)\<rparr>))"

definition drop_column :: "string \<Rightarrow> schema \<Rightarrow> (schema, string) result" where
  "drop_column c s =
     (if \<not> has_column c s then Err ''no such column''
      else if list_ex (\<lambda>i. c \<in> set (ix_columns i)) (sm_indexes s) then Err ''column is used by an index''
      else Ok (s\<lparr>sm_columns := filter (\<lambda>p. fst p \<noteq> c) (sm_columns s), sm_rows := map (\<lambda>r. r(c := None)) (sm_rows s)\<rparr>))"

definition drop_table :: "schema \<Rightarrow> (schema, string) result" where
  "drop_table s = (if sm_exists s then Ok empty_schema else Err ''no such table'')"

section \<open>The first migration\<close>

definition email_index :: index where
  "email_index = \<lparr>ix_name = ''idx_users_email'', ix_columns = [''email''], ix_unique = True\<rparr>"

definition initial_up :: "schema \<Rightarrow> (schema, string) result" where
  "initial_up s =
     and_then (create_table [(''id'', False), (''email'', False), (''display_name'', False), (''created_at'', False), (''updated_at'', False)]
         [''id'', ''email''] s) (\<lambda>s.
       create_index True email_index s)"

definition initial_down :: "schema \<Rightarrow> (schema, string) result" where
  "initial_down s = drop_table s"

section \<open>The migration to tenants\<close>

definition tenant_email_index :: index where
  "tenant_email_index = \<lparr>ix_name = ''uk_users_tenant_email'', ix_columns = [''tenant_id'', ''email''], ix_unique = True\<rparr>"

definition tenant_index :: index where
  "tenant_index = \<lparr>ix_name = ''idx_users_tenant'', ix_columns = [''tenant_id''], ix_unique = False\<rparr>"

definition add_tenant_column :: "backend \<Rightarrow> schema \<Rightarrow> (schema, string) result" where
  "add_tenant_column b s =
     (let root = SUuid (Some ROOT_TENANT_ID)
      in case b of
           OnSqlite \<Rightarrow> add_column ''tenant_id'' False (Some root) s
         | _ \<Rightarrow> and_then (add_column ''tenant_id'' True None s) (\<lambda>s.
                and_then (fill_nulls ''tenant_id'' root s) (set_not_null ''tenant_id'')))"

definition tenant_up :: "backend \<Rightarrow> schema \<Rightarrow> (schema, string) result" where
  "tenant_up b s =
     and_then (if has_column ''tenant_id'' s then Ok s else add_tenant_column b s) (\<lambda>s.
     and_then (if has_index ''idx_users_email'' s then drop_index ''idx_users_email'' s else Ok s) (\<lambda>s.
     and_then (if has_index ''uk_users_tenant_email'' s then Ok s else create_index (b = OnSqlite) tenant_email_index s) (\<lambda>s.
       if has_index ''idx_users_tenant'' s then Ok s else create_index (b = OnSqlite) tenant_index s)))"

definition tenant_down :: "backend \<Rightarrow> schema \<Rightarrow> (schema, string) result" where
  "tenant_down b s =
     and_then (if has_index ''uk_users_tenant_email'' s then drop_index ''uk_users_tenant_email'' s else Ok s) (\<lambda>s.
     and_then (if has_index ''idx_users_email'' s then Ok s else create_index (b = OnSqlite) email_index s) (\<lambda>s.
     and_then (if has_index ''idx_users_tenant'' s then drop_index ''idx_users_tenant'' s else Ok s) (\<lambda>s.
       drop_column ''tenant_id'' s)))"

definition migrations_up :: "backend \<Rightarrow> schema \<Rightarrow> (schema, string) result" where
  "migrations_up b s = and_then (initial_up s) (tenant_up b)"

section \<open>What a schema demands of the users\<close>

definition user_row :: "user \<Rightarrow> table_row" where
  "user_row u c =
     (if c = ''id'' then Some (user_value u UcId) else if c = ''tenant_id'' then Some (user_value u UcTenantId)
      else if c = ''email'' then Some (user_value u UcEmail) else if c = ''display_name'' then Some (user_value u UcDisplayName)
      else if c = ''created_at'' then Some (user_value u UcCreatedAt)
      else if c = ''updated_at'' then Some (user_value u UcUpdatedAt) else None)"

definition schema_accepts :: "schema \<Rightarrow> user list \<Rightarrow> bool" where
  "schema_accepts s t \<longleftrightarrow>
     list_all (\<lambda>c. unique_on [c] (map user_row t)) (sm_unique s) \<and>
     list_all (\<lambda>i. ix_unique i \<longrightarrow> unique_on (ix_columns i) (map user_row t)) (sm_indexes s)"

section \<open>Lemmas\<close>

lemma unique_on_email: "unique_on [''email''] (map user_row t) \<longleftrightarrow> distinct (map us_email t)"
proof -
  have "map (\<lambda>r. map r [''email'']) (map user_row t) = map (\<lambda>e. [Some (SString (Some e))]) (map us_email t)"
    by (simp add: user_row_def)
  moreover have "filter (list_all (\<lambda>v. v \<noteq> None)) (map (\<lambda>e. [Some (SString (Some e))]) xs) = map (\<lambda>e. [Some (SString (Some e))]) xs" for xs
    by (induction xs) auto
  ultimately show ?thesis by (simp add: unique_on_def distinct_map inj_on_def)
qed

lemma unique_on_id: "unique_on [''id''] (map user_row t) \<longleftrightarrow> distinct (map us_id t)"
proof -
  have "map (\<lambda>r. map r [''id'']) (map user_row t) = map (\<lambda>i. [Some (SUuid (Some i))]) (map us_id t)"
    by (simp add: user_row_def)
  moreover have "filter (list_all (\<lambda>v. v \<noteq> None)) (map (\<lambda>i. [Some (SUuid (Some i))]) xs) = map (\<lambda>i. [Some (SUuid (Some i))]) xs" for xs
    by (induction xs) auto
  ultimately show ?thesis by (simp add: unique_on_def distinct_map inj_on_def)
qed

lemma add_tenant_column_ok:
  "\<not> has_column ''tenant_id'' s \<Longrightarrow>
   add_tenant_column b s = Ok (s\<lparr>sm_columns := sm_columns s @ [(''tenant_id'', False)],
     sm_rows := map (\<lambda>r. r(''tenant_id'' := Some (SUuid (Some ROOT_TENANT_ID)))) (sm_rows s)\<rparr>)"
proof -
  assume c: "\<not> has_column ''tenant_id'' s"
  then have "map (\<lambda>(n, nullable). (n, nullable \<and> n \<noteq> ''tenant_id'')) (sm_columns s) = sm_columns s"
    by (intro map_idI) (auto simp: has_column_def image_iff)
  moreover have "map ((\<lambda>r. if r ''tenant_id'' = None then r(''tenant_id'' \<mapsto> v) else r) \<circ> (\<lambda>r. r(''tenant_id'' := None))) rows =
      map (\<lambda>r. r(''tenant_id'' \<mapsto> v)) rows" for v :: sea_value and rows :: "table_row list" by simp
  ultimately show ?thesis
    using c by (cases b) (auto simp: add_tenant_column_def add_column_def fill_nulls_def set_not_null_def has_column_def list_ex_iff Let_def)
qed

lemma backend_irrelevant: "tenant_up b s = tenant_up OnPostgres s" "tenant_down b s = tenant_down OnPostgres s"
  by (auto simp: tenant_up_def tenant_down_def add_tenant_column_ok create_index_def tenant_email_index_def tenant_index_def email_index_def
      intro!: arg_cong2[where f = and_then] ext)

text \<open>The names and what the migration leaves behind.\<close>

lemma names [simp]:
  "ix_name email_index = ''idx_users_email''" "ix_name tenant_email_index = ''uk_users_tenant_email''" "ix_name tenant_index = ''idx_users_tenant''"
  "ix_columns email_index = [''email'']" "ix_columns tenant_email_index = [''tenant_id'', ''email'']" "ix_columns tenant_index = [''tenant_id'']"
  "ix_unique email_index" "ix_unique tenant_email_index" "\<not> ix_unique tenant_index"
  by (simp_all add: email_index_def tenant_email_index_def tenant_index_def)

definition tenant_schema :: "schema \<Rightarrow> schema" where
  "tenant_schema s =
     (let s = (if has_column ''tenant_id'' s then s
           else s\<lparr>sm_columns := sm_columns s @ [(''tenant_id'', False)],
                  sm_rows := map (\<lambda>r. r(''tenant_id'' := Some (SUuid (Some ROOT_TENANT_ID)))) (sm_rows s)\<rparr>);
          kept = filter (\<lambda>i. ix_name i \<noteq> ''idx_users_email'') (sm_indexes s);
          uk = (if ''uk_users_tenant_email'' \<in> ix_name ` set kept then [] else [tenant_email_index]);
          ix = (if ''idx_users_tenant'' \<in> ix_name ` set kept then [] else [tenant_index])
      in s\<lparr>sm_indexes := kept @ uk @ ix\<rparr>)"

lemma no_email_index: "\<not> has_index n s \<Longrightarrow> filter (\<lambda>i. ix_name i \<noteq> n) (sm_indexes s) = sm_indexes s"
  by (auto simp: has_index_def filter_id_conv)

lemma tenant_up_ok: "tenant_up b s = Ok s' \<Longrightarrow> s' = tenant_schema s"
  by (cases "has_column ''tenant_id'' s"; cases "has_index ''idx_users_email'' s"; cases "has_index ''uk_users_tenant_email'' s"; cases "has_index ''idx_users_tenant'' s")
    (auto simp: tenant_up_def add_tenant_column_ok drop_index_def create_index_def tenant_schema_def Let_def no_email_index
      has_index_def[of _ "_\<lparr>sm_indexes := _\<rparr>"] has_index_def[of _ "_\<lparr>sm_columns := _\<rparr>"] has_index_def split: if_splits)


lemma first_schema: "\<exists>s. initial_up empty_schema = Ok s \<and> sm_unique s = [''id'', ''email''] \<and> sm_indexes s = [email_index] \<and> sm_rows s = [] \<and>
    \<not> has_column ''tenant_id'' s"
  by (simp add: initial_up_def create_table_def create_index_def empty_schema_def has_index_def has_column_def unique_on_def)

lemma tenant_up_email:
  assumes "sm_indexes s = [email_index]" "\<not> has_column ''tenant_id'' s" "unique_on [''tenant_id'', ''email'']
      (map (\<lambda>r. r(''tenant_id'' := Some (SUuid (Some ROOT_TENANT_ID)))) (sm_rows s))"
  shows "tenant_up b s = Ok (tenant_schema s)"
  using assms
  by (auto simp: tenant_up_def add_tenant_column_ok drop_index_def create_index_def tenant_schema_def has_index_def Let_def)

lemma unique_more: "unique_on [''email''] rows \<Longrightarrow> unique_on [''tenant_id'', ''email''] (map (\<lambda>r. r(''tenant_id'' := Some v)) rows)"
proof -
  have "filter (list_all (\<lambda>v. v \<noteq> None)) (map (\<lambda>r. map r [''tenant_id'', ''email'']) (map (\<lambda>r. r(''tenant_id'' := Some v)) rows)) =
    map (\<lambda>k. Some v # k) (filter (list_all (\<lambda>v. v \<noteq> None)) (map (\<lambda>r. map r [''email'']) rows))"
    by (induction rows) auto
  then show "unique_on [''email''] rows \<Longrightarrow> ?thesis" by (simp add: unique_on_def distinct_map inj_on_def)
qed

lemma schema_email:
  assumes "migrations_up b empty_schema = Ok s" "schema_accepts s t"
  shows "distinct (map us_email t)"
proof -
  obtain s0 where s0: "initial_up empty_schema = Ok s0" "sm_unique s0 = [''id'', ''email'']" using first_schema by blast
  then have "s = tenant_schema s0" using assms(1) tenant_up_ok by (auto simp: migrations_up_def)
  then have "sm_unique s = [''id'', ''email'']" by (simp add: tenant_schema_def s0(2) Let_def)
  then show ?thesis using assms(2) by (simp add: schema_accepts_def unique_on_email[simplified])
qed

lemma emails_of_migrated:
  "\<exists>s. migrations_up b empty_schema = Ok s \<and>
     (\<forall>t. schema_accepts s t \<longleftrightarrow> distinct (map us_id t) \<and> distinct (map us_email t))"
proof -
  obtain s where s: "initial_up empty_schema = Ok s" "sm_unique s = [''id'', ''email'']" "sm_indexes s = [email_index]" "sm_rows s = []"
    "\<not> has_column ''tenant_id'' s" using first_schema by blast
  have up: "tenant_up b s = Ok (tenant_schema s)" by (rule tenant_up_email[OF s(3,5)]) (simp add: s(4) unique_on_def)
  have "unique_on [''email''] (map user_row t) \<Longrightarrow> unique_on [''tenant_id'', ''email''] (map user_row t)" for t
    by (auto simp: unique_on_def distinct_map distinct_conv_nth user_row_def)
  then have "schema_accepts (tenant_schema s) t \<longleftrightarrow> distinct (map us_id t) \<and> distinct (map us_email t)" for t
    by (auto simp: schema_accepts_def tenant_schema_def s(2,3,5) Let_def unique_on_id[simplified] unique_on_email[simplified])
  with s(1) up show ?thesis by (auto simp: migrations_up_def)
qed


section \<open>Properties\<close>

text \<open>
  The migrations leave emails unique over all tenants: the second one drops the index, and the constraint of the column that the first
  one made with it stays. The unique index on tenant and email adds nothing.
\<close>

theorem emails_stay_unique_over_all_tenants:
  "\<exists>s. migrations_up b empty_schema = Ok s \<and>
     (\<forall>t. schema_accepts s t \<longleftrightarrow> distinct (map us_id t) \<and> distinct (map us_email t))"
  by (rule emails_of_migrated)

text \<open>
  So tenants cannot share an email: over the migrated table a user is created only if no user of any tenant has the email, whether the
  context sees that user or not, although emails are documented to be unique within a tenant.
\<close>

theorem tenants_cannot_share_an_email:
  assumes "migrations_up b empty_schema = Ok s" "ud_check d = schema_accepts s"
    and "repo_usable d (uw_db w)" "sv_repo sv = sea_orm_repo d" "create_user sv ctx fresh now nu w = (Ok u, w')"
  shows "\<forall>x\<in>set (uw_db w). us_email x \<noteq> nu_email nu"
proof -
  have "repo_usable d (uw_db w')" "uw_db w' = uw_db w @ [u]" "us_email u = nu_email nu"
    using users.create_cases[OF assms(3-5)] by auto
  then have "schema_accepts s (uw_db w @ [u])" by (simp add: repo_usable_def assms(2))
  from schema_email[OF assms(1) this] \<open>us_email u = nu_email nu\<close> show ?thesis by (auto, metis image_eqI)
qed

text \<open>
  The migration to tenants gives every user that was there the root tenant, and changes nothing else of them.
\<close>

theorem old_users_get_the_root_tenant:
  assumes "tenant_up b s = Ok s'" "\<not> has_column ''tenant_id'' s"
  shows "list_all2 (\<lambda>r r'. r' ''tenant_id'' = Some (SUuid (Some ROOT_TENANT_ID)) \<and> (\<forall>c. c \<noteq> ''tenant_id'' \<longrightarrow> r' c = r c)) (sm_rows s) (sm_rows s')"
  using tenant_up_ok[OF assms(1)] assms(2) by (simp add: tenant_schema_def Let_def list_all2_map2 list.rel_refl_strong)

text \<open>
  Running the migration again changes nothing.
\<close>

theorem tenant_migration_is_idempotent:
  assumes "tenant_up b s = Ok s'"
  shows "tenant_up b s' = Ok s'"
proof -
  have s': "s' = tenant_schema s" by (rule tenant_up_ok[OF assms])
  have "has_column ''tenant_id'' s'" "\<not> has_index ''idx_users_email'' s'" "has_index ''uk_users_tenant_email'' s'" "has_index ''idx_users_tenant'' s'"
    unfolding s' tenant_schema_def has_index_def has_column_def Let_def by auto
  then show ?thesis by (simp add: tenant_up_def)
qed

text \<open>
  Undoing the migration gives back the schema and the rows of the first one, whatever the rows are.
\<close>

theorem tenant_migration_is_undone:
  assumes "initial_up empty_schema = Ok s0" "s = s0\<lparr>sm_rows := rows\<rparr>" "unique_on [''email''] rows" "\<forall>r\<in>set rows. r ''tenant_id'' = None"
  shows "\<exists>s'. tenant_up b s = Ok s' \<and> tenant_down b s' = Ok s"
proof -
  from first_schema assms(1,2) have s: "sm_indexes s = [email_index]" "\<not> has_column ''tenant_id'' s" "sm_rows s = rows" by (auto simp: has_column_def)
  have undo: "map ((\<lambda>r. r(''tenant_id'' := None)) \<circ> (\<lambda>r. r(''tenant_id'' := Some (SUuid (Some ROOT_TENANT_ID))))) rows = rows"
    using assms(4) by (intro map_idI) (auto simp: fun_eq_iff)
  have cols: "filter (\<lambda>p. fst p \<noteq> ''tenant_id'') (sm_columns s) = sm_columns s"
    using s(2) by (force simp: has_column_def filter_id_conv)
  have rows: "unique_on [''email''] (map (\<lambda>r. r(''tenant_id'' := Some (SUuid (Some ROOT_TENANT_ID)))) rows)"
    using assms(3) by (simp add: unique_on_def o_def)
  have up: "tenant_up b s = Ok (tenant_schema s)" by (rule tenant_up_email[OF s(1,2)]) (simp add: s(3) unique_more[OF assms(3)])
  have "tenant_down b (tenant_schema s) = Ok s"
    using rows
    by (cases s) (use s cols undo in \<open>simp add: tenant_down_def tenant_schema_def drop_index_def create_index_def has_index_def drop_column_def
      has_column_def Let_def\<close>)
  with up show ?thesis by blast
qed

text \<open>
  The migrations do the same on every backend.
\<close>

theorem backends_migrate_alike: "migrations_up b s = migrations_up b' s \<and> tenant_down b s = tenant_down b' s"
  by (metis backend_irrelevant ext migrations_up_def)

section \<open>Witnesses\<close>

definition migrated_db :: "schema \<Rightarrow> users_db" where
  "migrated_db s = demo_users_db\<lparr>ud_check := schema_accepts s\<rparr>"

text \<open>Ann of tenant 7 creates a user with an email that nobody has.\<close>

theorem tenants_cannot_share_an_email_witness:
  "\<exists>s. migrations_up OnSqlite empty_schema = Ok s \<and>
     (case create_user (demo_service\<lparr>sv_repo := sea_orm_repo (migrated_db s)\<rparr>) (for_tenant 7 1) 3 9
        \<lparr>nu_id = None, nu_tenant_id = 7, nu_email = ''c@.'', nu_display_name = ''Cy''\<rparr> demo_world of
        (Ok u, w') \<Rightarrow> list_all (\<lambda>x. us_email x \<noteq> ''c@.'') (uw_db demo_world)
      | (Err _, _) \<Rightarrow> False)"
proof -
  obtain s where s: "migrations_up OnSqlite empty_schema = Ok s"
    "\<And>t. schema_accepts s t \<longleftrightarrow> distinct (map us_id t) \<and> distinct (map us_email t)"
    using emails_of_migrated by blast
  let ?d = "migrated_db s" and ?nu = "\<lparr>nu_id = None, nu_tenant_id = 7, nu_email = ''c@.'', nu_display_name = ''Cy''\<rparr>"
  let ?sv = "demo_service\<lparr>sv_repo := sea_orm_repo ?d\<rparr>"
  have ok: "users_db_ok ?d"
    using demo_users_db_ok(1) s(2) by (auto simp: users_db_ok_def migrated_db_def)
  then have usable: "repo_usable ?d (uw_db demo_world)"
    by (simp add: repo_usable_def migrated_db_def s(2) demo_world_def ann_def bob_def)
  have valid: "validate_new_user (sv_config ?sv) ?nu = Ok ()" "repo_email_exists demo_users_db (for_tenant 7 1) ''c@.'' (uw_db demo_world) = Ok False"
    by (simp, code_simp)+
  then have "repo_email_exists ?d (for_tenant 7 1) ''c@.'' (uw_db demo_world) = Ok False" by (simp add: repo_email_exists_def migrated_db_def)
  moreover have "\<exists>t. repo_insert ?d (for_tenant 7 1) \<lparr>us_id = 3, us_tenant_id = 7, us_email = ''c@.'', us_display_name = ''Cy'', us_created_at = 9, us_updated_at = 9\<rparr>
      (uw_db demo_world) = (Ok (), t)"
    by (simp add: repo_insert_def statement_def sc_insert_def secure_insert_def db_insert_model_def user_model_def migrated_db_def demo_users_db_def s(2)
        demo_world_def ann_def bob_def)
  ultimately obtain u w' where c: "create_user ?sv (for_tenant 7 1) 3 9 ?nu demo_world = (Ok u, w')"
    using valid(1) by (auto simp: create_user_def sea_orm_repo_def audit_created_def Let_def)
  have "ud_check ?d = schema_accepts s" by (simp add: migrated_db_def)
  from tenants_cannot_share_an_email[OF s(1) this usable _ c] c s(1) show ?thesis by (auto simp: list_all_iff)
qed

definition old_row :: table_row where
  "old_row = [''id'' \<mapsto> SUuid (Some 1), ''email'' \<mapsto> SString (Some ''a@.'')]"

lemma demo_schema:
  "\<exists>s0 s'. initial_up empty_schema = Ok s0 \<and> \<not> has_column ''tenant_id'' (s0\<lparr>sm_rows := [old_row]\<rparr>) \<and>
     tenant_up OnPostgres (s0\<lparr>sm_rows := [old_row]\<rparr>) = Ok s'"
proof -
  obtain s0 where s0: "initial_up empty_schema = Ok s0" "sm_indexes s0 = [email_index]" "\<not> has_column ''tenant_id'' s0"
    using first_schema by blast
  have "tenant_up OnPostgres (s0\<lparr>sm_rows := [old_row]\<rparr>) = Ok (tenant_schema (s0\<lparr>sm_rows := [old_row]\<rparr>))"
    by (rule tenant_up_email) (use s0 in \<open>simp_all add: has_column_def unique_on_def\<close>)
  with s0 show ?thesis by (auto simp: has_column_def)
qed

theorem old_users_get_the_root_tenant_witness:
  "\<exists>s s'. tenant_up OnPostgres s = Ok s' \<and> sm_rows s = [old_row] \<and>
     (case sm_rows s' of [r] \<Rightarrow> r ''tenant_id'' = Some (SUuid (Some ROOT_TENANT_ID)) \<and> r ''email'' = old_row ''email'' | _ \<Rightarrow> False)"
proof -
  obtain s0 s' where s: "\<not> has_column ''tenant_id'' (s0\<lparr>sm_rows := [old_row]\<rparr>)" "tenant_up OnPostgres (s0\<lparr>sm_rows := [old_row]\<rparr>) = Ok s'"
    using demo_schema by blast
  from old_users_get_the_root_tenant[OF s(2,1)] obtain r' where
    "sm_rows s' = [r']" "r' ''tenant_id'' = Some (SUuid (Some ROOT_TENANT_ID))" "r' ''email'' = old_row ''email''"
    by (auto simp: list_all2_Cons1)
  with s(2) show ?thesis by (intro exI[of _ "s0\<lparr>sm_rows := [old_row]\<rparr>"] exI[of _ s']) simp
qed

theorem tenant_migration_is_idempotent_witness: "\<exists>s s'. tenant_up OnPostgres s = Ok s' \<and> tenant_up OnPostgres s' = Ok s' \<and> sm_rows s = [old_row]"
proof -
  obtain s0 s' where s: "tenant_up OnPostgres (s0\<lparr>sm_rows := [old_row]\<rparr>) = Ok s'" using demo_schema by blast
  with tenant_migration_is_idempotent[OF s] show ?thesis by (intro exI[of _ "s0\<lparr>sm_rows := [old_row]\<rparr>"] exI[of _ s']) simp
qed

theorem tenant_migration_is_undone_witness:
  "\<exists>s s'. tenant_up OnMySql s = Ok s' \<and> tenant_down OnMySql s' = Ok s \<and> sm_rows s = [old_row]"
proof -
  obtain s0 where s0: "initial_up empty_schema = Ok s0" using first_schema by blast
  have "unique_on [''email''] [old_row]" "\<forall>r\<in>set [old_row]. r ''tenant_id'' = None" by (simp_all add: unique_on_def old_row_def)
  from tenant_migration_is_undone[OF s0 refl this, of OnMySql] obtain s' where
    "tenant_up OnMySql (s0\<lparr>sm_rows := [old_row]\<rparr>) = Ok s'" "tenant_down OnMySql s' = Ok (s0\<lparr>sm_rows := [old_row]\<rparr>)" by blast
  then show ?thesis by (intro exI[of _ "s0\<lparr>sm_rows := [old_row]\<rparr>"] exI[of _ s']) simp
qed

end
