(* ===== verification/Spec2Isabelle.thy ===== *)
theory Spec2Isabelle
  imports Module_Registry Lifecycle Directory OData_Page OData_Api Secure_Orm Host_Runtime Rpc_Retry Auth_Jwks Ingress Nodes_Registry App_Config File_Parser Advisory_Locks Grpc_Hub Local_Backend Module_Ctx Module_Macro Entity_Derive Db_Handle Error_Catalog Users_Service Users_Schema
begin

text \<open>
  Verification library of the HyperSpot server and of ModKit, the modular framework it is built on.

  \<^bold>\<open>The program.\<close> A HyperSpot process is a set of modules. Each module registers itself with its
  dependencies and capabilities; the registry sorts the modules so that dependencies come first; the host runtime
  drives them through the phases wire, migrate, init, REST, gRPC, start, spawn and stop. A stateful module runs its
  task under a lifecycle controller. Modules in other processes register their instances with the module manager
  through the directory service, which is also what clients ask for an instance, over gRPC with retries. HTTP requests enter through the
  ingress: operations are described by a builder and collected in a registry; the ingress derives from them the
  route policy, MIME validation and rate limits, and puts the authentication layer around its router. A token is verified
  with the keys of a JWKS provider, its claims are normalised by a plugin and become the security context of the request.
  Handlers read the database through the secure layer, which adds the scope of the context to every
  query, and page through rows with OData filters, orders and cursors. Errors leave as RFC 9457 problem documents.

  \<^bold>\<open>Theories and sources\<close> (paths under \<open>src/\<close>).

  \<^item> \<open>Prelude\<close>: results, strings, decimal numbers, and lemmas on them.
  \<^item> \<open>Module_Registry\<close>: \<open>libs/modkit/src/registry.rs\<close>. The builder, dependency checks, Kahn's algorithm, the search for a cycle.
  \<^item> \<open>Lifecycle\<close>: \<open>libs/modkit/src/lifecycle.rs\<close>. The status automaton, start, stop and the supervised task as interleaved steps.
  \<^item> \<open>Module_Manager\<close>: \<open>libs/modkit/src/runtime/module_manager.rs\<close>. Instances with shared state cells, heartbeats, eviction, round robin.
  \<^item> \<open>Directory\<close>: \<open>libs/modkit/src/directory.rs\<close> and \<open>modules/module_orchestrator\<close>: the contract, the local implementation, the gRPC server and client.
  \<^item> \<open>Host_Runtime\<close>: \<open>libs/modkit/src/runtime/host_runtime.rs\<close>: the phases and the order of calls.
  \<^item> \<open>Rpc_Retry\<close>: \<open>libs/modkit-transport-grpc/src/rpc_retry.rs\<close> and \<open>client.rs\<close>.
  \<^item> \<open>Operation\<close>: \<open>libs/modkit/src/api/operation_builder.rs\<close> and \<open>openapi_registry.rs\<close>.
  \<^item> \<open>Auth_Claims\<close>: \<open>libs/modkit-auth/src\<close> (\<open>dispatcher.rs\<close>, \<open>validation.rs\<close>, \<open>plugins/\<close>, \<open>config.rs\<close>).
  \<^item> \<open>Auth_Jwks\<close>: \<open>libs/modkit-auth/src/providers/jwks.rs\<close>: key cache, refresh, throttling.
  \<^item> \<open>Auth_Http\<close>: \<open>libs/modkit-auth/src/axum_ext.rs\<close>, \<open>authorizer.rs\<close>, \<open>scope_builder.rs\<close>.
  \<^item> \<open>Ingress\<close>: \<open>modules/api_ingress/src\<close>: route policy, middleware stack, rate limits, the cached router.
  \<^item> \<open>Security_Ctx\<close>: \<open>libs/modkit-security/src\<close>: scopes, contexts and their codec.
  \<^item> \<open>Sea_Query\<close>: the fragment of SQL conditions the code builds, with a three-valued semantics.
  \<^item> \<open>Secure_Orm\<close>: \<open>libs/modkit-db/src/secure\<close> and the pager: scoped selects, updates and deletes.
  \<^item> \<open>OData_Core\<close>, \<open>OData_Filter\<close>, \<open>OData_Sql\<close>, \<open>OData_Page\<close>, \<open>OData_Api\<close>: \<open>libs/modkit-odata/src\<close>,
    \<open>libs/modkit-db/src/odata\<close> and \<open>libs/modkit/src/api/odata\<close>: filters, orders, cursors, their compilation to SQL, pages, query parameters.
  \<^item> \<open>Problem\<close>: \<open>libs/modkit-errors/src/problem.rs\<close>, \<open>catalog.rs\<close>.
  \<^item> \<open>Nodes_Registry\<close>: \<open>modules/nodes_registry/src\<close> and \<open>libs/modkit-node-info/src\<close>.
  \<^item> \<open>Json\<close>: JSON values and the recursive merge of \<open>libs/modkit-bootstrap/src/oop.rs\<close>.
  \<^item> \<open>Db_Config\<close>: \<open>libs/modkit-db/src/config.rs\<close>, \<open>manager.rs\<close>, \<open>options.rs\<close>: settings of servers and modules, environment references, one handle per module.
  \<^item> \<open>Db_Handle\<close>: \<open>libs/modkit-db/src/lib.rs\<close>, \<open>sqlite/\<close>, \<open>pool_opts.rs\<close>: handles made from a DSN, pragmas, transactions, locks.
  \<^item> \<open>Advisory_Locks\<close>: \<open>libs/modkit-db/src/advisory_locks.rs\<close>: the locks of three engines and the retrying acquisition.
  \<^item> \<open>App_Config\<close>: \<open>libs/modkit-bootstrap/src/config/mod.rs\<close>, \<open>oop.rs\<close>, \<open>host/paths/home_dir.rs\<close>: the configuration of the host and of modules in other processes.
  \<^item> \<open>Document\<close>, \<open>File_Parser\<close>: \<open>modules/file_parser/src\<close>: documents, their Markdown, the backends, uploads and downloads.
  \<^item> \<open>Grpc_Hub\<close>: \<open>modules/grpc_hub/src/lib.rs\<close>: wiring, binding, registration of the served modules, stop.
  \<^item> \<open>Local_Backend\<close>: \<open>libs/modkit/src/backends\<close>: child processes, their shutdown and their output.
  \<^item> \<open>Module_Ctx\<close>: \<open>libs/modkit/src/client_hub.rs\<close>, \<open>context.rs\<close>, \<open>config.rs\<close>, \<open>runtime/runner.rs\<close>: what a module sees of its host.
  \<^item> \<open>Module_Macro\<close>: \<open>libs/modkit-macros/src\<close>: the attributes of a module and the registrator they generate.
  \<^item> \<open>Entity_Derive\<close>: \<open>libs/modkit-db-macros/src\<close>: the derives that give the secure layer and the filters their columns.
  \<^item> \<open>Error_Catalog\<close>: \<open>libs/modkit-errors-macro/src/lib.rs\<close>: validation of an error catalog and the code generated from it.
  \<^item> \<open>Users_Service\<close>, \<open>Users_Schema\<close>: \<open>examples/modkit/users_info\<close>: a module on top of all this, from handlers to repository, and its migrations.

  \<^bold>\<open>How the code is represented.\<close> A struct is a record, an enum a datatype, \<open>Result\<close> the datatype \<open>result\<close>; a
  panic is \<open>None\<close> of an option around the result (in \<open>Advisory_Locks\<close> the end \<open>Panicked\<close> of a run). A \<open>HashMap\<close> or \<open>DashMap\<close> is an association list whose order stands for the
  unspecified order of iteration. Integers that can wrap or overflow are words (the attempt counters of the retries and of the lock
  acquisition, the status byte, the version byte of the wire form, timestamps of capabilities) or carry their range check; lengths and times that cannot are naturals or
  integers. Shared mutable cells (the state of an instance) are an explicit store. Concurrent code is a step
  relation over its atomic operations (\<open>Lifecycle\<close>, \<open>Module_Manager\<close>, \<open>Advisory_Locks\<close>) or a reachability over its operations (\<open>Local_Backend\<close>). Code that is not
  part of the repository is a parameter with its documented behaviour as named hypotheses: the matcher of routes (\<open>segment_matchit\<close> is an instance that
  reads parameters), the signature check and the decoder of JSON Web Keys, the HTTP client, the SQL engine (how values compare and what \<open>LIKE\<close> matches), the layers of tower, UUID parsing, the operating system.

  The meaning of a filter (\<open>filter_meaning\<close> in \<open>OData_Sql\<close>) is stated on the values of its literals, not through the coercion of
  the code: a number is the rational its digits denote, compared with the number in the column. \<open>exact_filter\<close> and \<open>exact_numbers\<close> say for which literals the
  translation keeps the value; \<open>fraction_selects_another_row\<close> shows that it does not keep fractions on integer columns.

  \<^bold>\<open>What the lemmas show.\<close> The lemmas come in layers: rules for the combinators
  (\<open>res_simps\<close>, \<open>str_simps\<close>), invariants with one preservation lemma per operation, and characterisations of each
  operation on every branch; a property is a short proof over those. Interfaces are locales interpreted on the
  model's own definitions: the directory contract, for the local and for the remote directory and extended for the hub; the instance store; the keyed store of clients;
  the table behind a page walk; the retry loop, for calls and connections; the scope policy; the repository of users.
  The properties with a claim id stand in the sections named Properties, each with a witness at a concrete input where it has hypotheses;
  the theorems without an id beside them record further behaviour of the component, defects included. This theory holds the property that spans the components,
  from the token of a request to the rows that its handler reads.

  \<^bold>\<open>Bounds and fuel.\<close> The cycle search takes one more than the number of modules as fuel, its nesting depth, and \<open>detect_cycle_total\<close>
  shows that it never runs out. The host polls the hub with fuel for 502 rounds; \<open>poll_endpoint\<close> needs no more on any clock on which a sleep lasts its interval, since
  the code gives up after five seconds of rounds of ten milliseconds. A walk over pages ends with one more round than rows. Calls and connections
  with retries need \<open>max_retries + 1\<close> rounds. The lock acquisition, which may never return, is a \<open>partial_function\<close> whose result \<open>None\<close> is not returning; \<open>bounded_attempts\<close> shows
  that it returns under a bound on the attempts. The other loops recurse on their data, with a measure where that is not structural.

  \<^bold>\<open>Not modelled.\<close> Logging, tracing and metrics, whose calls have no effect on results; signals of the operating system; the HTTP client wrapper and server-sent
  events, which are those of their libraries; Windows (named pipes, killing of processes); the GPU probes; documentation pages; transfer objects that copy
  fields; generated gRPC stubs; the calculator examples; the compiler lints. Deregistration and eviction of the module manager are single steps of its machine; the window
  inside \<open>deregister\<close> between releasing an entry and removing it is modelled apart, by the operation that \<open>deregister_loses_concurrent_register\<close> is about. In \<open>Local_Backend\<close> a spawn
  and the drain of the shutdown are single steps: a spawn that races with the drain between starting the child and inserting it is not modelled. Strings stop at U+00FF.
\<close>

section \<open>Properties across components\<close>

text \<open>C1. From the token to the database: behind the ingress, a handler that is reached on a protected route with the
  context of the request and reads through the secure connection gets only rows whose tenant is listed in the
  tenants claim of a token that the configured key provider verified, and whose roles satisfy the route.\<close>

theorem request_reads_only_its_tenants:
  fixes env :: "'w auth_env" and cn :: "('c, 'row) conn"
  assumes "build_auth_state_from_specs env cfg specs = Ok (validator, policy)" "\<not> ic_auth_disabled cfg"
    and "resolve (ae_matchit env) policy (rq_method req) (rq_path req) = AuthRequired q"
    and "\<not> is_preflight_request (rq_method req) (rq_headers req)"
    and "\<And>inner. auth_policy_call validator (resolve (ae_matchit env) policy) inner req w = inner req' w'"
    and "extract_authz req' = Ok ctx"
    and "answers_sql cn" "scoped_chain E (ctx_scope ctx) s" "ss_all cn table s = Ok rows" "r \<in> set rows"
    and "uuid_equality (cn_sem cn)" "uuid_column (cn_col cn r) (se_tenant_col E)"
  shows "r \<in> set table \<and> (\<exists>token uri provider w0 header raw vs t str c.
    extract_bearer_token (rq_headers req) = Some token \<and> ic_jwks_uri cfg = Some uri \<and>
    ae_jwks_new env \<lparr>jc_uri = uri, jc_refresh_interval_seconds = 300, jc_max_backoff_seconds = 3600\<rparr> = Ok provider \<and>
    provider token w0 = (Ok (header, raw), w') \<and>
    jget ''tenants'' raw = Some (JArray vs) \<and> JString str \<in> set vs \<and> ae_parse_uuid env str = Some t \<and>
    column_id (cn_col cn r) (se_tenant_col E) = Some t \<and>
    oidc_normalize (ae_parse_uuid env) \<lparr>op_tenant_claim = ''tenants'', op_roles_claim = ''roles''\<rparr> raw = Ok c \<and>
    (\<forall>req. q = Some req \<longrightarrow> authorizer_check c req = Ok ()))"
proof -
  obtain token c where t: "extract_bearer_token (rq_headers req) = Some token" "validator token w = (Some (Ok c), w')"
    "\<forall>r. q = Some r \<longrightarrow> authorizer_check c r = Ok ()"
    "rq_ctx req' = Some \<lparr>ctx_scope = \<lparr>is_root = False, tenant_ids = cl_tenants c, resource_ids = []\<rparr>,
      ctx_subject = \<lparr>sub_id = cl_sub c\<rparr>\<rparr>"
    using guarded_reached[of "resolve (ae_matchit env) policy" req q validator w req' w', OF assms(3,4,5)] by blast
  have "ctx = \<lparr>ctx_scope = \<lparr>is_root = False, tenant_ids = cl_tenants c, resource_ids = []\<rparr>, ctx_subject = \<lparr>sub_id = cl_sub c\<rparr>\<rparr>"
    using assms(6) t(4) by (simp add: extract_authz_def)
  then have scope: "ctx_scope ctx = \<lparr>is_root = False, tenant_ids = cl_tenants c, resource_ids = []\<rparr>" by simp
  obtain uri d where d: "ic_jwks_uri cfg = Some uri"
    "build_auth_dispatcher (ae_parse_uuid env) (ae_jwks_new env) (ingress_auth_config cfg uri) = Ok d"
    "validator = (\<lambda>token w. validate_and_parse d (ae_now env w) token w)"
    using built_policy(4)[OF assms(1)] assms(2) by (auto simp: build_validator_def res_simps)
  have jwt: "validate_jwt d (ae_now env w) token w = (Some (Ok c), w')"
    using t(2) by (auto simp: d(3) validate_and_parse_def split: prod.splits)
  have "distinct (map fst (ac_plugins (ingress_auth_config cfg uri)))" by (simp add: ingress_auth_config_def)
  from jwt_verified[OF d(2) this jwt] obtain jc provider h raw w0 pc where v0:
    "ac_jwks (ingress_auth_config cfg uri) = Some jc" "ae_jwks_new env jc = Ok provider"
    "map_of (ac_plugins (ingress_auth_config cfg uri)) (ac_provider (ingress_auth_config cfg uri)) = Some pc"
    and v: "provider token w0 = (Ok (h, raw), w')" "cp_normalize (plugin_of (ae_parse_uuid env) pc) raw = Ok c" by blast
  have jc: "jc = \<lparr>jc_uri = uri, jc_refresh_interval_seconds = 300, jc_max_backoff_seconds = 3600\<rparr>"
    and pc: "pc = OidcConfig ''tenants'' ''roles''" using v0(1,3) by (simp_all add: ingress_auth_config_def)
  have r: "r \<in> set table" "in_scope (cn_sem cn) E (ctx_scope ctx) (cn_col cn r)"
    using chain_answer_allowed[OF assms(7,8), of table "into_inner s" rows r "[]"] assms(9,10) by (auto simp: ss_all_def)
  then obtain t where tn: "t \<in> set (cl_tenants c)" "column_id (cn_col cn r) (se_tenant_col E) = Some t"
    unfolding in_scope_def scope column_in_uuid[OF assms(11,12)] by auto
  obtain vs str where l: "jget ''tenants'' raw = Some (JArray vs)" "JString str \<in> set vs" "ae_parse_uuid env str = Some t"
    using normalized_tenant_listed[OF v(2) tn(1)] by (auto simp: pc)
  have "oidc_normalize (ae_parse_uuid env) \<lparr>op_tenant_claim = ''tenants'', op_roles_claim = ''roles''\<rparr> raw = Ok c"
    using v(2) by (simp add: pc)
  then show ?thesis using r(1) t(1,3) d(1) v0(2)[unfolded jc] v(1) l tn(2) by blast
qed

section \<open>Witnesses\<close>

text \<open>The identity provider of \<open>Ingress\<close> answers every token with the claims of tenant 7.\<close>

definition tenant_dispatcher :: "unit auth_dispatcher" where
  "tenant_dispatcher = \<lparr>ad_key_providers = [\<lambda>token w. (Ok (\<lparr>h_kid = None, h_alg = []\<rparr>, token_claims 1000), w)],
     ad_introspection_providers = [], ad_plugin = plugin_of digit_uuid (OidcConfig ''tenants'' ''roles''),
     ad_validation = default_validation_config\<rparr>"

lemma tenant_validated: "validate_and_parse tenant_dispatcher (0, 0) token () = (Some (Ok idp_claims), ())"
proof -
  have p: "ad_plugin tenant_dispatcher = plugin_of digit_uuid (OidcConfig ''tenants'' ''roles'')"
    by (simp add: tenant_dispatcher_def)
  have "validate_claims 0 0 idp_claims (ad_validation tenant_dispatcher) = Some (Ok ())"
    by (simp add: tenant_dispatcher_def default_validation_config_def validate_claims_def idp_claims_def time_add_def
        time_in_range_def MIN_TIMESTAMP_def MAX_TIMESTAMP_def)
  moreover have "Option.bind (jget ''iss'' (token_claims 1000)) as_str = Some ''idp''" by (simp add: token_claims_def)
  ultimately have "checked_claims tenant_dispatcher (0, 0) (token_claims 1000) = Some (Ok idp_claims)"
    unfolding checked_claims_Ok p using idp_normalize by simp
  then show ?thesis
    by (simp add: validate_and_parse_def validate_jwt_def try_validate_with_providers_def tenant_dispatcher_def)
qed

lemma tenant_state:
  "\<exists>policy. build_auth_state_from_specs (idp_env () :: unit auth_env) protecting_config [] =
      Ok (\<lambda>token w. validate_and_parse tenant_dispatcher (0, 0) token w, policy) \<and>
    resolve (ae_matchit (idp_env () :: unit auth_env)) policy GET ''/users'' = AuthRequired None"
  by (simp add: build_auth_state_from_specs_def build_auth_state_def build_validator_def idp_ingress_config_def
      protecting_config_def ingress_auth_config_def build_auth_dispatcher_def auth_config_validate_def dispatcher_new_def
      registry_get_def registry_register_def idp_env_def collect_requirements_def collect_public_def
      builtin_public_routes_def exact_matchit_def convert_plain resolve_def matcher_find_def with_key_provider_def
      tenant_dispatcher_def default_validation_config_def)

theorem request_reads_only_its_tenants_witness:
  "ss_all doc_conn docs (sc_find doc_entity (ctx_of_claims idp_claims)) = Ok [(1, 7), (3, 7)] \<and>
   (\<exists>vs str. jget ''tenants'' (token_claims 1000) = Some (JArray vs) \<and> JString str \<in> set vs \<and>
      column_id (doc_col (3, 7)) (Some ''tenant_id'') = digit_uuid str)"
proof -
  let ?env = "idp_env () :: unit auth_env" and ?ctx = "ctx_of_claims idp_claims"
  obtain policy where p: "build_auth_state_from_specs ?env protecting_config [] =
      Ok (\<lambda>token w. validate_and_parse tenant_dispatcher (0, 0) token w, policy)"
    "resolve (ae_matchit ?env) policy (rq_method signed_request) (rq_path signed_request) = AuthRequired None"
    using tenant_state by (auto simp: signed_request_def)
  have pre: "\<not> is_preflight_request (rq_method signed_request) (rq_headers signed_request)"
    by (simp add: is_preflight_request_def signed_request_def)
  have reached: "auth_policy_call (\<lambda>token w. validate_and_parse tenant_dispatcher (0, 0) token w)
      (resolve (ae_matchit ?env) policy) inner signed_request () = inner (with_claims idp_claims signed_request) ()" for inner
    using pre p(2) signed_token tenant_validated by (simp add: auth_policy_call_def)
  have ctx: "extract_authz (with_claims idp_claims signed_request) = Ok ?ctx" by (simp add: extract_authz_def with_claims_def)
  have q: "ss_all doc_conn docs (sc_find doc_entity ?ctx) = Ok [(1, 7), (3, 7)]" by code_simp
  have u: "uuid_equality (cn_sem doc_conn)" "uuid_column (cn_col doc_conn (3, 7)) (se_tenant_col doc_entity)"
    using uuid_sem_equality doc_columns by (simp_all add: doc_conn_def)
  have on: "\<not> ic_auth_disabled protecting_config" by (simp add: protecting_config_def idp_ingress_config_def)
  from request_reads_only_its_tenants[OF p(1) on p(2) pre reached ctx doc_conn_answers sc_find_chain q _ u]
  obtain raw provider w0 h vs str t where r: "ae_jwks_new ?env \<lparr>jc_uri = the (ic_jwks_uri protecting_config),
      jc_refresh_interval_seconds = 300, jc_max_backoff_seconds = 3600\<rparr> = Ok provider"
    "provider ''signed'' w0 = (Ok (h, raw), ())" "jget ''tenants'' raw = Some (JArray vs)" "JString str \<in> set vs"
    "ae_parse_uuid ?env str = Some t" "column_id (cn_col doc_conn (3, 7)) (se_tenant_col doc_entity) = Some t"
    using signed_token by force
  have "raw = token_claims 1000" using r(1,2) by (auto simp: idp_env_def)
  with r q show ?thesis by (auto simp: idp_env_def doc_conn_def doc_entity_def)
qed

end
